(* ===== verification/Prelude.thy ===== *)
theory Prelude
  imports Main "HOL-Library.AList" "HOL-Library.Char_ord" "HOL-Library.List_Lexorder"
begin

text \<open>
  What every component theory shares: time stamps, JSON values and dictionaries, Python's
  truth test on optional strings, a state-and-exception shape for methods that mutate an
  object and may raise, and two interfaces (a step system with an invariant, and one whose
  steps never lower a rank) from which the components get their run-level theorems.
\<close>

section \<open>Hint collections\<close>

named_theorems inv_pres \<open>facts saying that an operation preserves a component invariant\<close>
named_theorems py_simps \<open>unfolding of the Python-level helper operations\<close>

section \<open>Time\<close>

text \<open>
  Clock readings (\<open>datetime\<close> values and \<open>time.time()\<close>) are integers counting
  microseconds, the resolution of \<open>datetime\<close>; adding a constant, subtracting and
  comparing are exact on them.
\<close>

type_synonym time = int

definition seconds :: "int \<Rightarrow> time" where
  "seconds n = n * 1000000"

lemma seconds_mono [simp]: "seconds a \<le> seconds b \<longleftrightarrow> a \<le> b"
  by (simp add: seconds_def)

lemma seconds_pos [simp]: "0 < seconds n \<longleftrightarrow> 0 < n" "0 \<le> seconds n \<longleftrightarrow> 0 \<le> n"
  by (auto simp: seconds_def)

section \<open>JSON values and dictionaries\<close>

text \<open>
  A Python dictionary is an association list in insertion order; assigning to a present key
  keeps its position, as Python does (that is \<open>AList.update\<close>).
\<close>

datatype json =
    JNull
  | JBool bool
  | JInt int
  | JStr string
  | JList "json list"
  | JObj "(string \<times> json) list"

type_synonym dict = "(string \<times> json) list"

definition dict_get :: "dict \<Rightarrow> string \<Rightarrow> json \<Rightarrow> json" where
  [py_simps]: "dict_get d k v = (case map_of d k of None \<Rightarrow> v | Some x \<Rightarrow> x)"

fun truthy_json :: "json \<Rightarrow> bool" where
  "truthy_json JNull = False"
| "truthy_json (JBool b) = b"
| "truthy_json (JInt i) = (i \<noteq> 0)"
| "truthy_json (JStr s) = (s \<noteq> [])"
| "truthy_json (JList xs) = (xs \<noteq> [])"
| "truthy_json (JObj d) = (d \<noteq> [])"

text \<open>\<open>if s:\<close> on an \<open>Optional[str]\<close>: both \<open>None\<close> and the empty string are false.\<close>

definition truthy :: "string option \<Rightarrow> bool" where
  [py_simps]: "truthy v = (case v of None \<Rightarrow> False | Some s \<Rightarrow> s \<noteq> [])"

lemma truthy_simps [simp]:
  "truthy None = False" "truthy (Some s) = (s \<noteq> [])"
  by (simp_all add: truthy_def)

lemma truthyE:
  assumes "truthy v" obtains s where "v = Some s" "s \<noteq> []"
  using assms by (cases v) auto

definition is_space :: "char \<Rightarrow> bool" where
  "is_space c \<longleftrightarrow> c \<in> {CHR '' '', CHR 0x09, CHR 0x0A, CHR 0x0B, CHR 0x0C, CHR 0x0D}"

definition strip :: "string \<Rightarrow> string" where
  "strip s = rev (dropWhile is_space (rev (dropWhile is_space s)))"

lemma dropWhile_id: "xs = [] \<or> \<not> P (hd xs) \<Longrightarrow> dropWhile P xs = xs"
  by (cases xs) auto

lemma strip_idem: "strip (strip s) = strip s"
proof -
  define t where "t = dropWhile is_space s"
  define u where "u = rev (dropWhile is_space (rev t))"
  have ht: "t = [] \<or> \<not> is_space (hd t)"
    using hd_dropWhile [of is_space s] unfolding t_def by blast
  have pre: "\<exists>w. t = u @ w"
  proof -
    have "rev t = takeWhile is_space (rev t) @ dropWhile is_space (rev t)" by simp
    then have "t = rev (dropWhile is_space (rev t)) @ rev (takeWhile is_space (rev t))"
      by (metis rev_append rev_rev_ident)
    then show ?thesis unfolding u_def by blast
  qed
  then have hu: "u = [] \<or> \<not> is_space (hd u)"
    using ht by (auto simp: hd_append split: if_splits)
  have 1: "dropWhile is_space u = u" using hu by (rule dropWhile_id)
  have 2: "dropWhile is_space (rev u) = rev u"
  proof (rule dropWhile_id)
    show "rev u = [] \<or> \<not> is_space (hd (rev u))"
      using hd_dropWhile [of is_space "rev t"] unfolding u_def by auto
  qed
  have "strip s = u" by (simp add: strip_def u_def t_def)
  moreover have "strip u = u" unfolding strip_def by (simp only: 1 2 rev_rev_ident)
  ultimately show ?thesis by simp
qed

text \<open>Decimal text of integers, as \<open>f"{n}"\<close> prints it.\<close>

definition digit_char :: "nat \<Rightarrow> char" where
  "digit_char n = char_of (48 + n)"

fun show_nat :: "nat \<Rightarrow> string" where
  "show_nat n = (if n < 10 then [digit_char n] else show_nat (n div 10) @ [digit_char (n mod 10)])"

declare show_nat.simps [simp del]

definition show_int :: "int \<Rightarrow> string" where
  "show_int i = (if i < 0 then CHR ''-'' # show_nat (nat (- i)) else show_nat (nat i))"

text \<open>\<open>sep.join(xs)\<close>.\<close>

fun join :: "string \<Rightarrow> string list \<Rightarrow> string" where
  "join sep [] = []"
| "join sep [x] = x"
| "join sep (x # y # xs) = x @ sep @ join sep (y # xs)"

text \<open>\<open>s.startswith(p)\<close>.\<close>

definition starts_with :: "string \<Rightarrow> string \<Rightarrow> bool" where
  "starts_with p s \<longleftrightarrow> take (length p) s = p"

lemma starts_with_append [simp]: "starts_with p (p @ s)"
  by (simp add: starts_with_def)

text \<open>\<open>p in s\<close>, \<open>s.split(c)\<close>, \<open>s.split()\<close> (from \<open>words []\<close>) and \<open>os.path.basename(p)\<close>.\<close>

fun contains :: "string \<Rightarrow> string \<Rightarrow> bool" where
  "contains p [] = (p = [])"
| "contains p (c # cs) = (starts_with p (c # cs) \<or> contains p cs)"

fun split_on :: "char \<Rightarrow> string \<Rightarrow> string list" where
  "split_on c [] = [[]]"
| "split_on c (x # xs) =
     (if x = c then [] # split_on c xs
      else (case split_on c xs of [] \<Rightarrow> [[x]] | p # ps \<Rightarrow> (x # p) # ps))"

fun words :: "string \<Rightarrow> string \<Rightarrow> string list" where
  "words acc [] = (if acc = [] then [] else [acc])"
| "words acc (c # cs) = (if is_space c then (if acc = [] then [] else [acc]) @ words [] cs else words (acc @ [c]) cs)"

definition basename :: "string \<Rightarrow> string" where
  "basename p = rev (takeWhile (\<lambda>c. c \<noteq> CHR ''/'') (rev p))"

text \<open>\<open>Path(p).name\<close>, and \<open>Path(name).suffix\<close> and \<open>Path(name).stem\<close> of a single component.\<close>

definition path_name :: "string \<Rightarrow> string" where
  "path_name p = (case filter (\<lambda>c. c \<noteq> [] \<and> c \<noteq> ''.'') (split_on CHR ''/'' p) of [] \<Rightarrow> [] | c # cs \<Rightarrow> last (c # cs))"

definition path_suffix :: "string \<Rightarrow> string" where
  "path_suffix name =
     (let ext = takeWhile (\<lambda>c. c \<noteq> CHR ''.'') (rev name)
      in if ext \<noteq> [] \<and> length ext + 1 < length name then CHR ''.'' # rev ext else [])"

definition path_stem :: "string \<Rightarrow> string" where
  "path_stem name = take (length name - length (path_suffix name)) name"

text \<open>Lower case of ASCII letters.\<close>

definition ascii_lower :: "char \<Rightarrow> char" where
  "ascii_lower c = (if CHR ''A'' \<le> c \<and> c \<le> CHR ''Z'' then char_of (of_char c + (32 :: nat)) else c)"

lemma split_on_no_sep: "c \<notin> set xs \<Longrightarrow> split_on c xs = [xs]"
  by (induction xs) auto

lemma split_on_append: "c \<notin> set xs \<Longrightarrow> split_on c (xs @ c # ys) = xs # split_on c ys"
  by (induction xs) auto

section \<open>Methods that mutate an object and may raise\<close>

text \<open>
  A method takes the object's state and returns the raised exception (\<open>Inl\<close>) or the value
  (\<open>Inr\<close>), together with the state the object is left in; an exception does not undo the
  mutations made before it.
\<close>

type_synonym ('s, 'e, 'a) meth = "'s \<Rightarrow> ('e + 'a) \<times> 's"

definition ret :: "'a \<Rightarrow> ('s, 'e, 'a) meth" where
  "ret x = (\<lambda>s. (Inr x, s))"

definition raise :: "'e \<Rightarrow> ('s, 'e, 'a) meth" where
  "raise e = (\<lambda>s. (Inl e, s))"

definition seq :: "('s, 'e, 'a) meth \<Rightarrow> ('a \<Rightarrow> ('s, 'e, 'b) meth) \<Rightarrow> ('s, 'e, 'b) meth" where
  "seq m f = (\<lambda>s. case m s of (Inl e, s') \<Rightarrow> (Inl e, s') | (Inr x, s') \<Rightarrow> f x s')"

text \<open>\<open>try: m except \<dots>\<close>: the handler runs in the state the exception left.\<close>

definition catch :: "('s, 'e, 'a) meth \<Rightarrow> ('e \<Rightarrow> ('s, 'e, 'a) meth) \<Rightarrow> ('s, 'e, 'a) meth" where
  "catch m h = (\<lambda>s. case m s of (Inl e, s') \<Rightarrow> h e s' | (Inr x, s') \<Rightarrow> (Inr x, s'))"

lemma catch_cases [py_simps]:
  "catch m h s = (case fst (m s) of Inl e \<Rightarrow> h e (snd (m s)) | Inr x \<Rightarrow> (Inr x, snd (m s)))"
  by (auto simp: catch_def split: prod.splits sum.splits)

lemma ret_apply [simp]: "ret x s = (Inr x, s)"
  by (simp add: ret_def)

lemma raise_apply [simp]: "raise e s = (Inl e, s)"
  by (simp add: raise_def)

lemma seq_cases [py_simps]:
  "seq m f s = (case fst (m s) of Inl e \<Rightarrow> (Inl e, snd (m s)) | Inr x \<Rightarrow> f x (snd (m s)))"
  by (auto simp: seq_def split: prod.splits sum.splits)

lemma seq_ret_left [simp]: "seq (ret x) f = f x"
  by (simp add: seq_def ret_def)

lemma seq_raise [simp]: "seq (raise e) f = raise e"
  by (simp add: seq_def raise_def)

lemma seq_assoc: "seq m (\<lambda>x. seq (f x) g) = seq (seq m f) g"
  by (rule ext) (auto simp: seq_cases split: sum.splits)

lemma seq_invariant:
  assumes "I s" "\<And>s. I s \<Longrightarrow> I (snd (m s))" "\<And>x s. I s \<Longrightarrow> I (snd (f x s))"
  shows "I (snd (seq m f s))"
  using assms by (auto simp: seq_cases split: sum.splits)

text \<open>
  What a method establishes: from a state with \<open>P\<close> it returns a value and a state with \<open>Q\<close>, or
  raises an exception and leaves a state with \<open>E\<close>.
\<close>

definition runs_to ::
  "('s \<Rightarrow> bool) \<Rightarrow> ('s, 'e, 'a) meth \<Rightarrow> ('a \<Rightarrow> 's \<Rightarrow> bool) \<Rightarrow> ('e \<Rightarrow> 's \<Rightarrow> bool) \<Rightarrow> bool" where
  "runs_to P m Q E \<longleftrightarrow>
     (\<forall>s. P s \<longrightarrow> (case fst (m s) of Inr x \<Rightarrow> Q x (snd (m s)) | Inl e \<Rightarrow> E e (snd (m s))))"

lemma runs_toI:
  "(\<And>s. P s \<Longrightarrow> case fst (m s) of Inr x \<Rightarrow> Q x (snd (m s)) | Inl e \<Rightarrow> E e (snd (m s))) \<Longrightarrow> runs_to P m Q E"
  by (simp add: runs_to_def)

lemma runs_toD: "runs_to P m Q E \<Longrightarrow> P s \<Longrightarrow> m s = (Inr x, s') \<Longrightarrow> Q x s'"
  and runs_to_exn: "runs_to P m Q E \<Longrightarrow> P s \<Longrightarrow> m s = (Inl e, s') \<Longrightarrow> E e s'"
  by (auto simp: runs_to_def split: sum.splits dest!: spec [of _ s])

lemma runs_to_case:
  "runs_to P m Q E \<Longrightarrow> P s \<Longrightarrow> (case fst (m s) of Inr x \<Rightarrow> Q x (snd (m s)) | Inl e \<Rightarrow> E e (snd (m s)))"
  by (simp add: runs_to_def)

lemma runs_to_seq:
  assumes "runs_to P m R E" "\<And>x. runs_to (R x) (f x) Q E"
  shows "runs_to P (seq m f) Q E"
proof (rule runs_toI)
  fix s assume "P s"
  note 1 = runs_to_case [OF assms(1) this]
  show "case fst (seq m f s) of Inr x \<Rightarrow> Q x (snd (seq m f s)) | Inl e \<Rightarrow> E e (snd (seq m f s))"
  proof (cases "fst (m s)")
    case (Inl e)
    then have e: "seq m f s = (Inl e, snd (m s))" by (simp add: seq_cases)
    show ?thesis using 1 Inl unfolding e by simp
  next
    case (Inr x)
    then have e: "seq m f s = f x (snd (m s))" by (simp add: seq_cases)
    show ?thesis using 1 Inr runs_to_case [OF assms(2), of x "snd (m s)"] unfolding e by simp
  qed
qed

lemma runs_to_catch:
  assumes "runs_to P m Q R" "\<And>e. runs_to (R e) (h e) Q E"
  shows "runs_to P (catch m h) Q E"
proof (rule runs_toI)
  fix s assume "P s"
  note 1 = runs_to_case [OF assms(1) this]
  show "case fst (catch m h s) of Inr x \<Rightarrow> Q x (snd (catch m h s)) | Inl e \<Rightarrow> E e (snd (catch m h s))"
  proof (cases "fst (m s)")
    case (Inl e)
    then have e: "catch m h s = h e (snd (m s))" by (simp add: catch_cases)
    show ?thesis using 1 Inl runs_to_case [OF assms(2), of e "snd (m s)"] unfolding e by simp
  next
    case (Inr x)
    then have e: "catch m h s = (Inr x, snd (m s))" by (simp add: catch_cases)
    show ?thesis using 1 Inr unfolding e by simp
  qed
qed

lemma runs_to_ret: "(\<And>s. P s \<Longrightarrow> Q x s) \<Longrightarrow> runs_to P (ret x) Q E"
  and runs_to_raise: "(\<And>s. P s \<Longrightarrow> E e s) \<Longrightarrow> runs_to P (raise e) Q E"
  by (simp_all add: runs_to_def)

lemma runs_to_if:
  "(c \<Longrightarrow> runs_to P m Q E) \<Longrightarrow> (\<not> c \<Longrightarrow> runs_to P n Q E) \<Longrightarrow> runs_to P (if c then m else n) Q E"
  by simp

lemma runs_to_conseq:
  "runs_to P m Q E \<Longrightarrow> (\<And>s. P' s \<Longrightarrow> P s) \<Longrightarrow> (\<And>x s. Q x s \<Longrightarrow> Q' x s) \<Longrightarrow> (\<And>e s. E e s \<Longrightarrow> E' e s) \<Longrightarrow>
   runs_to P' m Q' E'"
  by (fastforce simp: runs_to_def split: sum.splits)

lemma runs_to_pre: "(\<And>s. P s \<Longrightarrow> runs_to (\<lambda>t. t = s) m Q E) \<Longrightarrow> runs_to P m Q E"
  by (simp add: runs_to_def)

section \<open>Interfaces: step systems\<close>

text \<open>
  A component is used as a step system when its clients run a list of operations on it; the
  laws are that the initial state satisfies the invariant and every operation keeps it.
\<close>

locale step_system =
  fixes init :: 's and step :: "'s \<Rightarrow> 'op \<Rightarrow> 's" and inv :: "'s \<Rightarrow> bool"
  assumes init_inv: "inv init"
    and step_inv: "inv s \<Longrightarrow> inv (step s x)"
begin

lemma run_inv_from: "inv s \<Longrightarrow> inv (foldl step s xs)"
  by (induction xs arbitrary: s) (auto intro: step_inv)

lemma run_inv: "inv (foldl step init xs)"
  by (rule run_inv_from [OF init_inv])

lemma run_prefix_inv: "inv (foldl step init (take n xs))"
  by (rule run_inv)

end

text \<open>A step system whose operations never lower a rank: runs are monotone.\<close>

locale ranked_system = step_system init step inv
  for init :: 's and step :: "'s \<Rightarrow> 'op \<Rightarrow> 's" and inv :: "'s \<Rightarrow> bool" +
  fixes rank :: "'s \<Rightarrow> 'r::preorder"
  assumes step_rank: "inv s \<Longrightarrow> rank s \<le> rank (step s x)"
begin

lemma run_rank_from: "inv s \<Longrightarrow> rank s \<le> rank (foldl step s xs)"
proof (induction xs arbitrary: s)
  case Nil
  then show ?case by simp
next
  case (Cons x xs)
  have "rank s \<le> rank (step s x)" using Cons.prems by (rule step_rank)
  also have "\<dots> \<le> rank (foldl step (step s x) xs)"
    using Cons.prems by (intro Cons.IH step_inv)
  finally show ?case by simp
qed

lemma run_rank_split: "rank (foldl step init xs) \<le> rank (foldl step init (xs @ ys))"
  by (simp add: run_rank_from run_inv)

end

section \<open>Tables: lists of rows updated under a condition\<close>

text \<open>
  \<open>UPDATE t SET \<dots> WHERE p\<close>: the rows that satisfy \<open>p\<close> are rewritten in place; the
  number of them is the statement's \<open>rowcount\<close>.
\<close>

definition update_where :: "('r \<Rightarrow> bool) \<Rightarrow> ('r \<Rightarrow> 'r) \<Rightarrow> 'r list \<Rightarrow> 'r list" where
  "update_where p f rows = map (\<lambda>r. if p r then f r else r) rows"

definition rowcount :: "('r \<Rightarrow> bool) \<Rightarrow> 'r list \<Rightarrow> nat" where
  "rowcount p rows = length (filter p rows)"

lemma update_where_Nil [simp]: "update_where p f [] = []"
  by (simp add: update_where_def)

lemma update_where_Cons [simp]:
  "update_where p f (r # rs) = (if p r then f r else r) # update_where p f rs"
  by (simp add: update_where_def)

lemma length_update_where [simp]: "length (update_where p f rows) = length rows"
  by (simp add: update_where_def)

lemma set_update_where: "set (update_where p f rows) = (\<lambda>r. if p r then f r else r) ` set rows"
  by (simp add: update_where_def)

lemma update_where_none: "\<forall>r \<in> set rows. \<not> p r \<Longrightarrow> update_where p f rows = rows"
  by (induction rows) auto

lemma map_update_where_key:
  "(\<And>r. p r \<Longrightarrow> k (f r) = k r) \<Longrightarrow> map k (update_where p f rows) = map k rows"
  by (simp add: update_where_def)

lemma update_where_all:
  "\<forall>r \<in> set rows. P r \<Longrightarrow> (\<And>r. P r \<Longrightarrow> p r \<Longrightarrow> P (f r)) \<Longrightarrow> \<forall>r \<in> set (update_where p f rows). P r"
  by (auto simp: set_update_where)

lemma rowcount_zero_iff: "rowcount p rows = 0 \<longleftrightarrow> (\<forall>r \<in> set rows. \<not> p r)"
  by (auto simp: rowcount_def filter_empty_conv)

lemma length_filter_imp:
  "(\<And>x. x \<in> set xs \<Longrightarrow> P x \<Longrightarrow> Q x) \<Longrightarrow> length (filter P xs) \<le> length (filter Q xs)"
  by (induction xs) (auto simp: le_Suc_eq)

section \<open>Sorting strings\<close>

lemma sort_idem [simp]: "sort (sort xs) = (sort xs :: 'a::linorder list)"
  by (simp add: sorted_sort_id)

lemma sorted_list_of_set_set [simp]:
  "distinct xs \<Longrightarrow> sorted xs \<Longrightarrow> sorted_list_of_set (set xs) = (xs :: 'a::linorder list)"
  by (simp add: sorted_list_of_set.idem_if_sorted_distinct)

end
