(* ===== verification/Serial_Store.thy ===== *)
theory Serial_Store
  imports Prelude
begin

text \<open>
  The persistent serial state of \<open>app/services/serial_store.py\<close>: the activation record, the
  file it is saved to by an atomic rename, and every method that changes it. A method that
  saves may raise \<open>OSError\<close>; the object's memory keeps the mutation, the file keeps its old
  contents.
\<close>

section \<open>States and records\<close>

datatype serial_status = UNPROVISIONED | PROVISIONED | ACTIVE | DEGRADED | MIGRATED

fun state_name :: "serial_status \<Rightarrow> string" where
  "state_name UNPROVISIONED = ''unprovisioned''"
| "state_name PROVISIONED = ''provisioned''"
| "state_name ACTIVE = ''active''"
| "state_name DEGRADED = ''degraded''"
| "state_name MIGRATED = ''migrated''"

text \<open>Membership in \<open>VALID_STATES\<close>, with the state the name stands for.\<close>

definition VALID_STATES :: "(string \<times> serial_status) list" where
  "VALID_STATES = map (\<lambda>x. (state_name x, x)) [UNPROVISIONED, PROVISIONED, ACTIVE, DEGRADED, MIGRATED]"

definition parse_state :: "string \<Rightarrow> serial_status option" where
  "parse_state n = map_of VALID_STATES n"

lemma parse_state_name [simp]: "parse_state (state_name x) = Some x"
  by (cases x) (simp_all add: parse_state_def VALID_STATES_def)

definition FAILURE_THRESHOLD :: int where
  "FAILURE_THRESHOLD = 3"

record serial_state =
  serial :: string
  serial_id :: "string option"
  install_token :: "string option"
  bootstrap_token :: "string option"
  vz_install_id :: "string option"
  vz_install_token :: "string option"
  ai_market_access_token :: "string option"
  ai_market_seller_id :: "string option"
  sstate :: serial_status
  last_app_version :: "string option"
  last_status_cache :: "dict option"
  last_status_at :: "string option"
  consecutive_failures :: int

definition default_state :: serial_state where
  "default_state = \<lparr>serial = [], serial_id = None, install_token = None, bootstrap_token = None,
     vz_install_id = None, vz_install_token = None, ai_market_access_token = None,
     ai_market_seller_id = None, sstate = UNPROVISIONED, last_app_version = None,
     last_status_cache = None, last_status_at = None, consecutive_failures = 0\<rparr>"

text \<open>
  \<open>serial.json\<close>: absent, unreadable, or a document whose \<open>state\<close> entry is a string that need
  not name a state; the other entries are those of the record.
\<close>

datatype serial_file = NoFile | BadFile | StateFile string serial_state

text \<open>
  \<open>io\<close> is what the file system answers to the next writes, in order (writes beyond the list
  succeed).
\<close>

record serial_store =
  st :: serial_state
  disk :: serial_file
  io :: "bool list"

datatype os_error = OSError

type_synonym 'a store_meth = "(serial_store, os_error, 'a) meth"

definition file_of :: "serial_state \<Rightarrow> serial_file" where
  "file_of x = StateFile (state_name (sstate x)) x"

section \<open>Saving and loading\<close>

definition save :: "unit store_meth" where
  "save s = (case io s of
       [] \<Rightarrow> (Inr (), s\<lparr>disk := file_of (st s)\<rparr>)
     | ok # rest \<Rightarrow>
         (if ok then (Inr (), s\<lparr>disk := file_of (st s), io := rest\<rparr>)
          else (Inl OSError, s\<lparr>io := rest\<rparr>)))"

definition load :: "string \<Rightarrow> string \<Rightarrow> unit store_meth" where
  "load VECTORAIZ_SERIAL VECTORAIZ_BOOTSTRAP_TOKEN s = (case disk s of
       NoFile \<Rightarrow>
         (let env_serial = strip VECTORAIZ_SERIAL; env_bootstrap = strip VECTORAIZ_BOOTSTRAP_TOKEN
          in if env_serial \<noteq> [] \<and> env_bootstrap \<noteq> []
             then save (s\<lparr>st := default_state\<lparr>serial := env_serial,
                                 bootstrap_token := Some env_bootstrap, sstate := PROVISIONED\<rparr>\<rparr>)
             else (Inr (), s))
     | BadFile \<Rightarrow> (Inr (), s)
     | StateFile name raw \<Rightarrow>
         (case parse_state name of
            Some x \<Rightarrow> (Inr (), s\<lparr>st := raw\<lparr>sstate := x\<rparr>\<rparr>)
          | None \<Rightarrow> (Inr (), s\<lparr>st := raw\<lparr>sstate := UNPROVISIONED\<rparr>\<rparr>)))"

definition open_store :: "string \<Rightarrow> string \<Rightarrow> serial_file \<Rightarrow> bool list \<Rightarrow> (os_error + unit) \<times> serial_store" where
  "open_store env_serial env_bootstrap d w =
     load env_serial env_bootstrap \<lparr>st = default_state, disk = d, io = w\<rparr>"

section \<open>The methods\<close>

definition set_st :: "(serial_state \<Rightarrow> serial_state) \<Rightarrow> serial_store \<Rightarrow> serial_store" where
  "set_st f s = s\<lparr>st := f (st s)\<rparr>"

definition record_success :: "unit store_meth" where
  "record_success s = save (set_st (\<lambda>x.
     (let y = x\<lparr>consecutive_failures := 0\<rparr>
      in if sstate y = DEGRADED then y\<lparr>sstate := ACTIVE\<rparr> else y)) s)"

definition record_failure :: "unit store_meth" where
  "record_failure s = save (set_st (\<lambda>x.
     (let y = x\<lparr>consecutive_failures := consecutive_failures x + 1\<rparr>
      in if sstate y = ACTIVE \<and> consecutive_failures y \<ge> FAILURE_THRESHOLD
         then y\<lparr>sstate := DEGRADED\<rparr> else y)) s)"

definition transition_to_active :: "string \<Rightarrow> unit store_meth" where
  "transition_to_active token s = save (set_st (\<lambda>x.
     x\<lparr>install_token := Some token, bootstrap_token := None, sstate := ACTIVE,
       consecutive_failures := 0\<rparr>) s)"

definition transition_to_migrated :: "string option \<Rightarrow> unit store_meth" where
  "transition_to_migrated gateway_user_id s = save (set_st (\<lambda>x.
     (let y = x\<lparr>sstate := MIGRATED\<rparr>
      in case gateway_user_id of
           Some g \<Rightarrow>
             (case last_status_cache y of
                Some d \<Rightarrow> if g \<noteq> [] then y\<lparr>last_status_cache :=
                            Some (AList.update ''gateway_user_id'' (JStr g) d)\<rparr> else y
              | None \<Rightarrow> y)
         | None \<Rightarrow> y)) s)"

definition transition_to_unprovisioned :: "unit store_meth" where
  "transition_to_unprovisioned s = save (set_st (\<lambda>x.
     x\<lparr>install_token := None, bootstrap_token := None, sstate := UNPROVISIONED,
       consecutive_failures := 0\<rparr>) s)"

definition update_status_cache :: "dict \<Rightarrow> string \<Rightarrow> unit store_meth" where
  "update_status_cache status_data timestamp s = save (set_st (\<lambda>x.
     x\<lparr>last_status_cache := Some status_data, last_status_at := Some timestamp\<rparr>) s)"

definition update_app_version :: "string \<Rightarrow> unit store_meth" where
  "update_app_version version s = save (set_st (\<lambda>x. x\<lparr>last_app_version := Some version\<rparr>) s)"

definition persist_ai_market_session :: "string \<Rightarrow> string option \<Rightarrow> unit store_meth" where
  "persist_ai_market_session access_token seller_id s = save (set_st (\<lambda>x.
     (let y = x\<lparr>ai_market_access_token := Some access_token\<rparr>
      in if truthy seller_id then y\<lparr>ai_market_seller_id := seller_id\<rparr> else y)) s)"

definition persist_serial_id :: "string option \<Rightarrow> unit store_meth" where
  "persist_serial_id sid s =
     (if truthy sid then save (set_st (\<lambda>x. x\<lparr>serial_id := sid\<rparr>) s) else (Inr (), s))"

definition persist_vz_install :: "string \<Rightarrow> string option \<Rightarrow> unit store_meth" where
  "persist_vz_install install_id token s = save (set_st (\<lambda>x.
     (let y = x\<lparr>vz_install_id := Some install_id\<rparr>
      in if truthy token then y\<lparr>vz_install_token := token\<rparr> else y)) s)"

lemmas store_op_defs = record_success_def record_failure_def transition_to_active_def
  transition_to_migrated_def transition_to_unprovisioned_def update_status_cache_def
  update_app_version_def persist_ai_market_session_def persist_serial_id_def
  persist_vz_install_def

section \<open>Saving\<close>

lemma st_save [simp]: "st (snd (save s)) = st s"
  by (simp add: save_def split: list.split)

lemma st_set_st [simp]: "st (set_st f s) = f (st s)" "disk (set_st f s) = disk s" "io (set_st f s) = io s"
  by (simp_all add: set_st_def)

lemma save_ok_disk: "fst (save s) = Inr () \<Longrightarrow> disk (snd (save s)) = file_of (st s)"
  by (auto simp: save_def split: list.splits if_splits)

lemma save_fail_disk: "fst (save s) = Inl e \<Longrightarrow> disk (snd (save s)) = disk s"
  by (auto simp: save_def split: list.splits if_splits)

lemma save_no_fault: "io s = [] \<Longrightarrow> save s = (Inr (), s\<lparr>disk := file_of (st s)\<rparr>)"
  by (simp add: save_def)

lemma io_save_Nil [simp]: "io s = [] \<Longrightarrow> io (snd (save s)) = []"
  by (simp add: save_def)

lemma open_file_of: "open_store es eb (file_of x) w = (Inr (), \<lparr>st = x, disk = file_of x, io = w\<rparr>)"
  by (simp add: open_store_def load_def file_of_def)

section \<open>Operations as steps\<close>

datatype store_op =
    Success
  | Failure
  | ToActive string
  | ToMigrated "string option"
  | ToUnprovisioned
  | StatusCache dict string
  | AppVersion string
  | AiSession string "string option"
  | SerialId "string option"
  | VzInstall string "string option"

fun run_op :: "store_op \<Rightarrow> unit store_meth" where
  "run_op Success = record_success"
| "run_op Failure = record_failure"
| "run_op (ToActive t) = transition_to_active t"
| "run_op (ToMigrated g) = transition_to_migrated g"
| "run_op ToUnprovisioned = transition_to_unprovisioned"
| "run_op (StatusCache d t) = update_status_cache d t"
| "run_op (AppVersion v) = update_app_version v"
| "run_op (AiSession a i) = persist_ai_market_session a i"
| "run_op (SerialId i) = persist_serial_id i"
| "run_op (VzInstall i t) = persist_vz_install i t"

definition store_step :: "serial_store \<Rightarrow> store_op \<Rightarrow> serial_store" where
  "store_step s x = snd (run_op x s)"

text \<open>
  The well-formedness of an activation record: the failure counter is non-negative and below
  the threshold while ACTIVE, at or above it while DEGRADED, and an activated record holds an
  install token and no bootstrap token.
\<close>

definition serial_inv :: "serial_state \<Rightarrow> bool" where
  "serial_inv x \<longleftrightarrow> 0 \<le> consecutive_failures x
     \<and> (sstate x = ACTIVE \<longrightarrow> consecutive_failures x < FAILURE_THRESHOLD)
     \<and> (sstate x = DEGRADED \<longrightarrow> FAILURE_THRESHOLD \<le> consecutive_failures x)
     \<and> (sstate x \<in> {ACTIVE, DEGRADED} \<longrightarrow> install_token x \<noteq> None \<and> bootstrap_token x = None)
     \<and> (sstate x = UNPROVISIONED \<longrightarrow> install_token x = None)"

lemma serial_inv_default: "serial_inv default_state"
  by (simp add: serial_inv_def default_state_def)

lemma run_op_inv [inv_pres]: "serial_inv (st s) \<Longrightarrow> serial_inv (st (snd (run_op x s)))"
  by (cases x)
    (auto simp: store_op_defs serial_inv_def FAILURE_THRESHOLD_def Let_def split: option.splits if_splits)

text \<open>The file never holds anything but a snapshot of a well-formed record.\<close>

definition disk_inv :: "serial_file \<Rightarrow> bool" where
  "disk_inv d = (case d of NoFile \<Rightarrow> True | BadFile \<Rightarrow> False
     | StateFile n x \<Rightarrow> n = state_name (sstate x) \<and> serial_inv x)"

lemma disk_inv_save: "serial_inv (st s) \<Longrightarrow> disk_inv (disk s) \<Longrightarrow> disk_inv (disk (snd (save s)))"
  by (auto simp: save_def disk_inv_def file_of_def split: list.split)

lemma run_op_is_save: "\<exists>f. run_op x s = save (set_st f s) \<or> run_op x s = (Inr (), s)"
  by (cases x) (auto simp: store_op_defs)

lemma run_op_disk_inv [inv_pres]:
  assumes "serial_inv (st s)" "disk_inv (disk s)"
  shows "disk_inv (disk (snd (run_op x s)))"
proof -
  obtain f where "run_op x s = save (set_st f s) \<or> run_op x s = (Inr (), s)"
    using run_op_is_save by blast
  then show ?thesis
  proof
    assume eq: "run_op x s = save (set_st f s)"
    have "serial_inv (st (set_st f s))"
      using run_op_inv [OF assms(1), of x] eq by simp
    then show ?thesis using assms(2) by (simp add: eq disk_inv_save)
  qed (simp add: assms)
qed

definition store_inv :: "serial_store \<Rightarrow> bool" where
  "store_inv s \<longleftrightarrow> serial_inv (st s) \<and> disk_inv (disk s)"

definition fresh_store :: "bool list \<Rightarrow> serial_store" where
  "fresh_store w = snd (open_store [] [] NoFile w)"

lemma fresh_store_eq: "fresh_store w = \<lparr>st = default_state, disk = NoFile, io = w\<rparr>"
  by (simp add: fresh_store_def open_store_def load_def strip_def)

lemma fresh_store_inv: "store_inv (fresh_store w)"
  by (simp add: store_inv_def fresh_store_eq serial_inv_default disk_inv_def)

interpretation serial_sys: step_system "fresh_store w" store_step store_inv for w
  by unfold_locales (auto simp: store_step_def store_inv_def fresh_store_inv [unfolded store_inv_def] inv_pres)

section \<open>Consecutive failures\<close>

lemma record_failure_run:
  assumes "sstate (st s) = ACTIVE" "consecutive_failures (st s) = 0"
  shows "consecutive_failures (st (((snd \<circ> record_failure) ^^ n) s)) = int n \<and>
    sstate (st (((snd \<circ> record_failure) ^^ n) s)) = (if n < 3 then ACTIVE else DEGRADED)"
proof (induction n)
  case 0
  then show ?case using assms by simp
next
  case (Suc n)
  then show ?case
    by (auto simp: record_failure_def Let_def FAILURE_THRESHOLD_def split: if_splits)
qed

section \<open>The file as a snapshot of an earlier record\<close>

definition snapshot :: "serial_state \<Rightarrow> serial_file \<Rightarrow> bool" where
  "snapshot x d \<longleftrightarrow> d = file_of x \<or> d = NoFile \<and> x = default_state"

lemma open_snapshot: "snapshot x d \<Longrightarrow> open_store [] [] d v = (Inr (), \<lparr>st = x, disk = d, io = v\<rparr>)"
proof (cases "d = file_of x")
  case True
  then show ?thesis by (simp add: open_file_of)
next
  case False
  assume "snapshot x d"
  with False show ?thesis by (simp add: snapshot_def open_store_def load_def strip_def)
qed

text \<open>One step either leaves the file alone or makes it a snapshot of the new record.\<close>

lemma store_step_disk:
  "disk (store_step s x) = disk s \<or> disk (store_step s x) = file_of (st (store_step s x))"
proof -
  obtain f where "run_op x s = save (set_st f s) \<or> run_op x s = (Inr (), s)"
    using run_op_is_save by blast
  then show ?thesis
    by (auto simp: store_step_def save_def split: list.split)
qed

lemma store_step_no_fault:
  assumes "io s = []" "snapshot (st s) (disk s)"
  shows "io (store_step s x) = [] \<and> snapshot (st (store_step s x)) (disk (store_step s x))"
proof -
  obtain f where "run_op x s = save (set_st f s) \<or> run_op x s = (Inr (), s)"
    using run_op_is_save by blast
  then show ?thesis
    using assms by (auto simp: store_step_def save_no_fault snapshot_def)
qed

lemma store_snapshot:
  "\<exists>n \<le> length ops. snapshot (st (foldl store_step (fresh_store w) (take n ops)))
     (disk (foldl store_step (fresh_store w) ops))"
proof (induction ops rule: rev_induct)
  case Nil
  then show ?case by (simp add: fresh_store_eq snapshot_def)
next
  case (snoc x ops)
  let ?s = "foldl store_step (fresh_store w) ops"
  from store_step_disk [of ?s x] show ?case
  proof
    assume "disk (store_step ?s x) = disk ?s"
    with snoc.IH show ?thesis by (auto intro: le_SucI)
  next
    assume "disk (store_step ?s x) = file_of (st (store_step ?s x))"
    then show ?thesis
      by (intro exI [of _ "Suc (length ops)"]) (simp add: snapshot_def)
  qed
qed

lemma store_snapshot_no_fault:
  "snapshot (st (foldl store_step (fresh_store []) ops)) (disk (foldl store_step (fresh_store []) ops))"
proof -
  have "io (foldl store_step (fresh_store []) ops) = [] \<and>
    snapshot (st (foldl store_step (fresh_store []) ops)) (disk (foldl store_step (fresh_store []) ops))"
    by (induction ops rule: rev_induct)
      (simp add: fresh_store_eq snapshot_def, simp add: store_step_no_fault)
  then show ?thesis by simp
qed

section \<open>Properties\<close>

text \<open>C1: after any sequence of store methods on a fresh install, with any of the file writes
  failing, the record in memory is well formed (failure counter against state, tokens against
  state) and the file, if there is one, holds a well-formed record under its own state name.\<close>

theorem serial_store_run_invariant:
  "store_inv (foldl store_step (fresh_store w) ops)"
  by (rule serial_sys.run_inv)

text \<open>C16: a crash at any point loses at most the methods whose write failed: whatever writes
  fail, restarting from the file gives exactly the record the store held after some prefix of
  the methods, and if no write fails it gives the record in memory.\<close>

theorem serial_store_crash_recovery:
  "(\<exists>n \<le> length ops.
      open_store [] [] (disk (foldl store_step (fresh_store w) ops)) v
        = (Inr (), \<lparr>st = st (foldl store_step (fresh_store w) (take n ops)),
                    disk = disk (foldl store_step (fresh_store w) ops), io = v\<rparr>)) \<and>
   st (snd (open_store [] [] (disk (foldl store_step (fresh_store []) ops)) v))
     = st (foldl store_step (fresh_store []) ops)"
  using store_snapshot [of ops w] store_snapshot_no_fault [of ops]
  by (auto simp: open_snapshot)

end
