(* ===== verification/Serial_Client.thy ===== *)
theory Serial_Client
  imports Prelude
begin

text \<open>
  The HTTP client for the serial endpoints of ai.market, \<open>app/services/serial_client.py\<close>. The
  network and the server (httpx is not part of the repository) are a parameter: a transport
  that answers one request attempt and moves to its next state. String-valued response fields
  are read as strings; a field of another JSON type is read as absent.
\<close>

section \<open>Requests and attempts\<close>

record http_request =
  rq_method :: string
  rq_path :: string
  rq_body :: "json option"
  rq_headers :: "(string \<times> string) list"

text \<open>One attempt: an httpx exception, or a status with the body if it parses as JSON.\<close>

datatype http_outcome = HttpError | HttpResponse int "json option"

type_synonym 'w transport = "http_request \<Rightarrow> 'w \<Rightarrow> http_outcome \<times> 'w"

definition RETRY_DELAYS :: "int list" where
  "RETRY_DELAYS = [seconds 1, seconds 3]"

text \<open>
  \<open>_request\<close>: \<open>n\<close> attempts are left, \<open>attempt\<close> have been made. The result carries the delays
  slept between attempts.
\<close>

fun request_loop ::
  "'w transport \<Rightarrow> http_request \<Rightarrow> nat \<Rightarrow> nat \<Rightarrow> nat \<Rightarrow> 'w \<Rightarrow> (int \<times> json option) \<times> int list \<times> 'w" where
  "request_loop tr rq retries attempt 0 w = ((0, None), [], w)"
| "request_loop tr rq retries attempt (Suc n) w =
     (case tr rq w of
        (HttpResponse status data, w') \<Rightarrow> ((status, data), [], w')
      | (HttpError, w') \<Rightarrow>
          (let (r, ds, w'') = request_loop tr rq retries (Suc attempt) n w'
           in if attempt < retries
              then (r, (if attempt < length RETRY_DELAYS then RETRY_DELAYS ! attempt
                        else last RETRY_DELAYS) # ds, w'')
              else (r, ds, w'')))"

definition request_full ::
  "'w transport \<Rightarrow> http_request \<Rightarrow> nat \<Rightarrow> 'w \<Rightarrow> (int \<times> json option) \<times> int list \<times> 'w" where
  "request_full tr rq retries w = request_loop tr rq retries 0 (1 + retries) w"

definition request :: "'w transport \<Rightarrow> http_request \<Rightarrow> 'w \<Rightarrow> (int \<times> json option) \<times> 'w" where
  "request tr rq w = (case request_full tr rq 2 w of (r, _, w') \<Rightarrow> (r, w'))"

section \<open>Reading a response\<close>

datatype client_exn = AttributeError | TypeError

datatype client_error = ErrDetail json | ErrBody json | ErrHttp int

text \<open>\<open>error = data.get("detail", str(data)) if data else f"HTTP {status_code}"\<close>\<close>

definition error_of :: "int \<Rightarrow> json option \<Rightarrow> client_exn + client_error" where
  "error_of status data = (case data of
       None \<Rightarrow> Inr (ErrHttp status)
     | Some j \<Rightarrow>
         (if truthy_json j
          then (case j of
                  JObj d \<Rightarrow> Inr (case map_of d ''detail'' of Some x \<Rightarrow> ErrDetail x | None \<Rightarrow> ErrBody j)
                | _ \<Rightarrow> Inl AttributeError)
          else Inr (ErrHttp status)))"

definition truthy_data :: "json option \<Rightarrow> bool" where
  "truthy_data data = (case data of None \<Rightarrow> False | Some j \<Rightarrow> truthy_json j)"

text \<open>The shape every endpoint shares: a truthy body under an accepted status is read as a
  dictionary, anything else becomes an error result.\<close>

definition read_response ::
  "(int \<Rightarrow> bool) \<Rightarrow> client_exn \<Rightarrow> int \<times> json option \<Rightarrow> (dict \<Rightarrow> 'r) \<Rightarrow> (client_error \<Rightarrow> 'r) \<Rightarrow> client_exn + 'r"
where
  "read_response accepted exn r ok err = (case r of (status, data) \<Rightarrow>
     (if accepted status \<and> truthy_data data
      then (case data of Some (JObj d) \<Rightarrow> Inr (ok d) | _ \<Rightarrow> Inl exn)
      else map_sum id err (error_of status data)))"

definition get_str :: "dict \<Rightarrow> string \<Rightarrow> string option" where
  "get_str d k = (case map_of d k of Some (JStr s) \<Rightarrow> Some s | _ \<Rightarrow> None)"

definition get_str_or :: "dict \<Rightarrow> string \<Rightarrow> string \<Rightarrow> string" where
  "get_str_or d k v = (case get_str d k of Some s \<Rightarrow> s | None \<Rightarrow> v)"

definition get_flag :: "dict \<Rightarrow> string \<Rightarrow> bool" where
  "get_flag d k = truthy_json (dict_get d k (JBool False))"

definition bearer :: "string \<Rightarrow> (string \<times> string) list" where
  "bearer token = [(''Authorization'', ''Bearer '' @ token)]"

definition serial_path :: "string \<Rightarrow> string \<Rightarrow> string" where
  "serial_path ser tail = ''/api/v1/serials/'' @ ser @ tail"

section \<open>Activation, metering, status, refresh\<close>

record activate_result =
  ar_success :: bool
  ar_install_token :: "string option"
  ar_serial_id :: "string option"
  ar_error :: "client_error option"
  ar_status_code :: int

record meter_result =
  mr_allowed :: bool
  mr_category :: string
  mr_cost_usd :: string
  mr_remaining_usd :: string
  mr_reason :: "string option"
  mr_payment_enabled :: bool
  mr_migrated :: bool
  mr_error :: "client_error option"
  mr_status_code :: int

record status_result =
  sr_success :: bool
  sr_data :: "dict option"
  sr_serial_id :: "string option"
  sr_migrated :: bool
  sr_error :: "client_error option"
  sr_status_code :: int

record refresh_result =
  rr_success :: bool
  rr_install_token :: "string option"
  rr_error :: "client_error option"
  rr_status_code :: int

definition activate ::
  "'w transport \<Rightarrow> string \<Rightarrow> string \<Rightarrow> string \<Rightarrow> string \<Rightarrow> string \<Rightarrow> 'w \<Rightarrow> (client_exn + activate_result) \<times> 'w"
where
  "activate tr ser bootstrap instance_id hostname version w =
     (case request tr \<lparr>rq_method = ''POST'', rq_path = serial_path ser ''/activate'',
          rq_body = Some (JObj [(''instance_id'', JStr instance_id), (''hostname'', JStr hostname),
                                (''version'', JStr version)]),
          rq_headers = bearer bootstrap\<rparr> w of
        (r, w') \<Rightarrow>
          (read_response (\<lambda>c. c = 200) AttributeError r
             (\<lambda>d. \<lparr>ar_success = True, ar_install_token = get_str d ''install_token'',
                   ar_serial_id = get_str d ''serial_id'', ar_error = None, ar_status_code = fst r\<rparr>)
             (\<lambda>e. \<lparr>ar_success = False, ar_install_token = None, ar_serial_id = None,
                   ar_error = Some e, ar_status_code = fst r\<rparr>), w'))"

definition meter_request :: "string \<Rightarrow> string \<Rightarrow> json \<Rightarrow> json \<Rightarrow> json \<Rightarrow> json \<Rightarrow> http_request" where
  "meter_request ser token category cost request_id description =
     \<lparr>rq_method = ''POST'', rq_path = serial_path ser ''/meter'',
      rq_body = Some (JObj [(''category'', category), (''cost_usd'', cost),
                            (''request_id'', request_id), (''description'', description)]),
      rq_headers = bearer token\<rparr>"

definition meter ::
  "'w transport \<Rightarrow> string \<Rightarrow> string \<Rightarrow> json \<Rightarrow> json \<Rightarrow> json \<Rightarrow> json \<Rightarrow> 'w \<Rightarrow> (client_exn + meter_result) \<times> 'w"
where
  "meter tr ser token category cost request_id description w =
     (case request tr (meter_request ser token category cost request_id description) w of
        (r, w') \<Rightarrow>
          (read_response (\<lambda>c. c = 200 \<or> c = 402) AttributeError r
             (\<lambda>d. \<lparr>mr_allowed = get_flag d ''allowed'',
                   mr_category = get_str_or d ''category'' (case category of JStr s \<Rightarrow> s | _ \<Rightarrow> []),
                   mr_cost_usd = get_str_or d ''cost_usd'' ''0.00'',
                   mr_remaining_usd = get_str_or d ''remaining_usd'' ''0.00'',
                   mr_reason = get_str d ''reason'',
                   mr_payment_enabled = get_flag d ''payment_enabled'',
                   mr_migrated = get_flag d ''migrated'',
                   mr_error = None, mr_status_code = fst r\<rparr>)
             (\<lambda>e. \<lparr>mr_allowed = False, mr_category = [], mr_cost_usd = ''0.00'',
                   mr_remaining_usd = ''0.00'', mr_reason = None, mr_payment_enabled = False,
                   mr_migrated = False, mr_error = Some e, mr_status_code = fst r\<rparr>), w'))"

definition client_status ::
  "'w transport \<Rightarrow> string \<Rightarrow> string \<Rightarrow> 'w \<Rightarrow> (client_exn + status_result) \<times> 'w" where
  "client_status tr ser token w =
     (case request tr \<lparr>rq_method = ''GET'', rq_path = serial_path ser ''/status'', rq_body = None,
          rq_headers = bearer token\<rparr> w of
        (r, w') \<Rightarrow>
          (read_response (\<lambda>c. c = 200) AttributeError r
             (\<lambda>d. \<lparr>sr_success = True, sr_data = Some d, sr_serial_id = get_str d ''serial_id'',
                   sr_migrated = get_flag d ''migrated'', sr_error = None, sr_status_code = fst r\<rparr>)
             (\<lambda>e. \<lparr>sr_success = False, sr_data = None, sr_serial_id = None, sr_migrated = False,
                   sr_error = Some e, sr_status_code = fst r\<rparr>), w'))"

definition refresh ::
  "'w transport \<Rightarrow> string \<Rightarrow> string \<Rightarrow> string \<Rightarrow> 'w \<Rightarrow> (client_exn + refresh_result) \<times> 'w" where
  "refresh tr ser token instance_id w =
     (case request tr \<lparr>rq_method = ''POST'', rq_path = serial_path ser ''/refresh'',
          rq_body = Some (JObj [(''instance_id'', JStr instance_id)]),
          rq_headers = bearer token\<rparr> w of
        (r, w') \<Rightarrow>
          (read_response (\<lambda>c. c = 200) AttributeError r
             (\<lambda>d. \<lparr>rr_success = True, rr_install_token = get_str d ''install_token'',
                   rr_error = None, rr_status_code = fst r\<rparr>)
             (\<lambda>e. \<lparr>rr_success = False, rr_install_token = None, rr_error = Some e,
                   rr_status_code = fst r\<rparr>), w'))"

section \<open>The endpoints that return the body as a dictionary\<close>

text \<open>\<open>{"success": True, **data}\<close>: the server's own entries override ours.\<close>

definition dict_union :: "dict \<Rightarrow> dict \<Rightarrow> dict" where
  "dict_union d e = foldl (\<lambda>acc (k, v). AList.update k v acc) d e"

datatype dict_result = Succeeded dict | Failed client_error int

definition dict_endpoint :: "'w transport \<Rightarrow> http_request \<Rightarrow> 'w \<Rightarrow> (client_exn + dict_result) \<times> 'w" where
  "dict_endpoint tr rq w =
     (case request tr rq w of
        (r, w') \<Rightarrow>
          (read_response (\<lambda>c. c = 200) TypeError r
             (\<lambda>d. Succeeded (dict_union [(''success'', JBool True)] d))
             (\<lambda>e. Failed e (fst r)), w'))"

definition post_request :: "string \<Rightarrow> json \<Rightarrow> (string \<times> string) list \<Rightarrow> http_request" where
  "post_request path body headers =
     \<lparr>rq_method = ''POST'', rq_path = path, rq_body = Some body, rq_headers = headers\<rparr>"

definition get_request :: "string \<Rightarrow> (string \<times> string) list \<Rightarrow> http_request" where
  "get_request path headers =
     \<lparr>rq_method = ''GET'', rq_path = path, rq_body = None, rq_headers = headers\<rparr>"

definition opt_str :: "string option \<Rightarrow> json" where
  "opt_str v = (case v of None \<Rightarrow> JNull | Some s \<Rightarrow> JStr s)"

definition credits_checkout ::
  "'w transport \<Rightarrow> string \<Rightarrow> string \<Rightarrow> json \<Rightarrow> string \<Rightarrow> 'w \<Rightarrow> (client_exn + dict_result) \<times> 'w" where
  "credits_checkout tr ser token amount_usd return_url =
     dict_endpoint tr (post_request (serial_path ser ''/credits/checkout'')
       (JObj [(''amount_usd'', amount_usd)])
       (bearer token @ [(''X-VZ-Return-URL'', return_url)]))"

definition get_account :: "'w transport \<Rightarrow> string \<Rightarrow> string \<Rightarrow> 'w \<Rightarrow> (client_exn + dict_result) \<times> 'w" where
  "get_account tr ser token = dict_endpoint tr (get_request (serial_path ser ''/account'') (bearer token))"

definition verify_s3_connection ::
  "'w transport \<Rightarrow> string \<Rightarrow> string \<Rightarrow> string \<Rightarrow> string \<Rightarrow> string \<Rightarrow> string \<Rightarrow> string option \<Rightarrow> 'w
     \<Rightarrow> (client_exn + dict_result) \<times> 'w" where
  "verify_s3_connection tr ser token role_arn external_id bucket region prefix =
     dict_endpoint tr (post_request (serial_path ser ''/s3-connections/verify'')
       (JObj [(''role_arn'', JStr role_arn), (''external_id'', JStr external_id),
              (''bucket'', JStr bucket), (''region'', JStr region), (''prefix'', opt_str prefix)])
       (bearer token))"

definition list_s3_objects ::
  "'w transport \<Rightarrow> string \<Rightarrow> string \<Rightarrow> string \<Rightarrow> string \<Rightarrow> string \<Rightarrow> string option \<Rightarrow> string option
     \<Rightarrow> int option \<Rightarrow> 'w \<Rightarrow> (client_exn + dict_result) \<times> 'w" where
  "list_s3_objects tr ser token role_arn bucket region prefix continuation_token max_keys =
     dict_endpoint tr (post_request (serial_path ser ''/s3-connections/list-objects'')
       (JObj ([(''role_arn'', JStr role_arn), (''bucket'', JStr bucket), (''region'', JStr region)]
         @ (case prefix of None \<Rightarrow> [] | Some p \<Rightarrow> [(''prefix'', JStr p)])
         @ (case continuation_token of None \<Rightarrow> [] | Some t \<Rightarrow> [(''continuation_token'', JStr t)])
         @ (case max_keys of None \<Rightarrow> [] | Some n \<Rightarrow> [(''max_keys'', JInt n)])))
       (bearer token))"

definition presign_object ::
  "'w transport \<Rightarrow> string \<Rightarrow> string \<Rightarrow> string \<Rightarrow> string \<Rightarrow> string \<Rightarrow> string \<Rightarrow> 'w
     \<Rightarrow> (client_exn + dict_result) \<times> 'w" where
  "presign_object tr ser token role_arn bucket region object_key =
     dict_endpoint tr (post_request (serial_path ser ''/s3-connections/presign-object'')
       (JObj [(''role_arn'', JStr role_arn), (''bucket'', JStr bucket), (''region'', JStr region),
              (''object_key'', JStr object_key)])
       (bearer token))"

definition get_s3_external_id :: "'w transport \<Rightarrow> string \<Rightarrow> string \<Rightarrow> 'w \<Rightarrow> (client_exn + dict_result) \<times> 'w" where
  "get_s3_external_id tr ser token =
     dict_endpoint tr (get_request (serial_path ser ''/s3-connections/external-id'') (bearer token))"

definition send_magic_link ::
  "'w transport \<Rightarrow> string \<Rightarrow> string \<Rightarrow> string \<Rightarrow> string \<Rightarrow> 'w \<Rightarrow> (client_exn + dict_result) \<times> 'w" where
  "send_magic_link tr ser token email return_url =
     dict_endpoint tr (post_request ''/api/v1/auth/magic-link''
       (JObj [(''email'', JStr email), (''serial'', JStr ser)])
       (bearer token @ [(''X-VZ-Return-URL'', return_url)]))"

definition verify_magic_link ::
  "'w transport \<Rightarrow> string \<Rightarrow> string \<Rightarrow> string \<Rightarrow> 'w \<Rightarrow> (client_exn + dict_result) \<times> 'w" where
  "verify_magic_link tr ser token link_token =
     dict_endpoint tr (post_request ''/api/v1/auth/verify-magic-link''
       (JObj [(''token'', JStr link_token), (''serial'', JStr ser)])
       (bearer token))"

definition credits_usage :: "'w transport \<Rightarrow> string \<Rightarrow> string \<Rightarrow> 'w \<Rightarrow> (client_exn + dict_result) \<times> 'w" where
  "credits_usage tr ser token =
     dict_endpoint tr (get_request (serial_path ser ''/credits/usage'') (bearer token))"

section \<open>Lemmas\<close>

text \<open>The scripted transport answers attempts from a list, then with errors.\<close>

fun scripted :: "http_request \<Rightarrow> http_outcome list \<Rightarrow> http_outcome \<times> http_outcome list" where
  "scripted rq [] = (HttpError, [])"
| "scripted rq (x # xs) = (x, xs)"

definition retry_delay :: "nat \<Rightarrow> int" where
  "retry_delay k = (if k < length RETRY_DELAYS then RETRY_DELAYS ! k else last RETRY_DELAYS)"

lemma read_response_Inr:
  assumes "read_response acc exn r ok err = Inr x"
  obtains d where "acc (fst r)" "x = ok d" | e where "x = err e"
  using assms
  by (cases "error_of (fst r) (snd r)")
    (auto simp: read_response_def split: prod.splits if_splits option.splits json.splits)

lemma meter_cases:
  assumes "fst (meter tr ser t c cost i d w) = Inr m"
  shows "mr_allowed m \<or> mr_migrated m \<Longrightarrow> mr_status_code m \<in> {200, 402}"
    and "mr_status_code m = fst (fst (request tr (meter_request ser t c cost i d) w))"
  using assms by (auto simp: meter_def split: prod.splits elim!: read_response_Inr)

section \<open>Properties\<close>

text \<open>Also: a request makes at most three attempts, sleeps 1s and 3s between them, returns the
  first response it gets and gives status 0 with no body when every attempt failed; attempts
  after the returned one are not made.\<close>

theorem request_first_response:
  "request_full scripted rq 2 (replicate k HttpError @ HttpResponse c d # rest) =
     (if k \<le> 2 then ((c, d), map retry_delay [0..<k], rest)
      else ((0, None), [seconds 1, seconds 3], drop 3 (replicate k HttpError @ HttpResponse c d # rest)))"
proof (cases "k \<le> 2")
  case True
  then have "k = 0 \<or> k = 1 \<or> k = 2" by auto
  then show ?thesis
    by (auto simp: request_full_def retry_delay_def upt_rec numeral_2_eq_2)
next
  case False
  then obtain j where "k = Suc (Suc (Suc j))"
    by (metis add_2_eq_Suc' less_eq_Suc_le not_less_eq_eq numeral_2_eq_2 le_Suc_ex Suc_leI add_Suc)
  then show ?thesis
    by (auto simp: request_full_def RETRY_DELAYS_def numeral_2_eq_2 numeral_3_eq_3)
qed

end
