(* ===== verification/Offline_Queue.thy ===== *)
theory Offline_Queue
  imports Serial_Client
begin

text \<open>
  The JSONL queue of usage records kept while the server cannot be reached,
  \<open>app/services/offline_queue.py\<close>: the file as a list of lines, the capped append, and the
  flush that sends the records in order and rewrites what was not accepted. Removing the file may
  fail, which the code only logs; errors that opening or writing the file raises are not modelled. A
  queued cost is a decimal literal, as the metering code writes it.
\<close>

section \<open>The interface of a capped queue\<close>

locale capped_queue =
  fixes push :: "'e \<Rightarrow> 'q \<Rightarrow> bool \<times> 'q"
    and items :: "'q \<Rightarrow> 'e list"
    and depth :: "'q \<Rightarrow> nat"
    and cap :: nat
  assumes push_room: "depth q < cap \<Longrightarrow>
      fst (push e q) \<and> items (snd (push e q)) = items q @ [e] \<and> depth (snd (push e q)) = Suc (depth q)"
    and push_full: "cap \<le> depth q \<Longrightarrow> push e q = (False, q)"
begin

lemma push_depth: "depth q \<le> cap \<Longrightarrow> depth (snd (push e q)) \<le> cap"
  by (cases "depth q < cap") (use push_room push_full in force)+

lemma push_keeps: "\<exists>es. items (snd (push e q)) = items q @ es"
  by (cases "depth q < cap") (use push_room push_full in force)+

lemma push_many:
  "depth q \<le> cap \<Longrightarrow>
   items (foldl (\<lambda>q e. snd (push e q)) q es) = items q @ take (cap - depth q) es
   \<and> depth (foldl (\<lambda>q e. snd (push e q)) q es) = min cap (depth q + length es)"
proof (induction es arbitrary: q)
  case Nil
  then show ?case by simp
next
  case (Cons e es)
  show ?case
  proof (cases "depth q < cap")
    case True
    with push_room [of q e] Cons.IH [of "snd (push e q)"] show ?thesis
      by (auto simp: Suc_diff_le take_Cons' diff_Suc split: nat.split)
  next
    case False
    with Cons.prems push_full [of q e] Cons.IH [of q] show ?thesis by simp
  qed
qed

end

section \<open>The file\<close>

text \<open>A line of the file: blank, not JSON, or a JSON value.\<close>

datatype queue_line = Blank | Malformed | Line json

type_synonym queue_file = "queue_line list option"

definition MAX_QUEUE_ENTRIES :: nat where
  "MAX_QUEUE_ENTRIES = 50"

definition count :: "queue_file \<Rightarrow> nat" where
  "count q = (case q of None \<Rightarrow> 0 | Some ls \<Rightarrow> length (filter (\<lambda>l. l \<noteq> Blank) ls))"

definition append_entry :: "json \<Rightarrow> queue_file \<Rightarrow> bool \<times> queue_file" where
  "append_entry entry q =
     (if count q \<ge> MAX_QUEUE_ENTRIES then (False, q)
      else (True, Some ((case q of None \<Rightarrow> [] | Some ls \<Rightarrow> ls) @ [Line entry])))"

fun line_entries :: "queue_line list \<Rightarrow> json list" where
  "line_entries [] = []"
| "line_entries (Line j # ls) = j # line_entries ls"
| "line_entries (_ # ls) = line_entries ls"

definition read_all :: "queue_file \<Rightarrow> json list" where
  "read_all q = (case q of None \<Rightarrow> [] | Some ls \<Rightarrow> line_entries ls)"

text \<open>\<open>unlinked\<close> tells whether the file could be removed; the error is swallowed.\<close>

definition clear :: "bool \<Rightarrow> queue_file \<Rightarrow> queue_file" where
  "clear unlinked q = (if unlinked then None else q)"

lemma line_entries_append [simp]: "line_entries (xs @ ys) = line_entries xs @ line_entries ys"
  by (induction xs rule: line_entries.induct) auto

lemma length_read_all: "length (read_all q) \<le> count q"
proof -
  have "length (line_entries ls) \<le> length (filter (\<lambda>l. l \<noteq> Blank) ls)" for ls
    by (induction ls rule: line_entries.induct) auto
  then show ?thesis by (auto simp: read_all_def count_def split: option.split)
qed

interpretation oq: capped_queue append_entry read_all count MAX_QUEUE_ENTRIES
  by unfold_locales
    (auto simp: append_entry_def read_all_def count_def MAX_QUEUE_ENTRIES_def split: option.splits)

section \<open>Flushing\<close>

datatype queue_exn = KeyError string | InvalidOperation | NotADict | ClientExn client_exn

text \<open>\<open>Decimal(s)\<close> for a cost literal: digits, optionally a point and digits.\<close>

definition digit :: "char \<Rightarrow> bool" where
  "digit c \<longleftrightarrow> CHR ''0'' \<le> c \<and> c \<le> CHR ''9''"

definition decimal_literal :: "string \<Rightarrow> bool" where
  "decimal_literal s = (case dropWhile digit s of
       [] \<Rightarrow> s \<noteq> []
     | c # frac \<Rightarrow> c = CHR ''.'' \<and> frac \<noteq> [] \<and> list_all digit frac \<and> \<not> (hd s = CHR ''.''))"

definition decimal :: "json \<Rightarrow> queue_exn + json" where
  "decimal j = (case j of JStr s \<Rightarrow> if decimal_literal s then Inr j else Inl InvalidOperation
                | _ \<Rightarrow> Inl InvalidOperation)"

text \<open>The loop of \<open>flush\<close>: the number of entries accepted (200 metered, 409 already metered)
  before the first that was not.\<close>

fun send_entries ::
  "'w transport \<Rightarrow> string \<Rightarrow> string \<Rightarrow> json list \<Rightarrow> 'w \<Rightarrow> (queue_exn + nat) \<times> 'w" where
  "send_entries tr ser token [] w = (Inr 0, w)"
| "send_entries tr ser token (entry # entries) w =
     (case entry of
        JObj d \<Rightarrow>
          (case decimal (dict_get d ''cost_usd'' (JStr ''0.00'')) of
             Inl e \<Rightarrow> (Inl e, w)
           | Inr cost \<Rightarrow>
               (case map_of d ''request_id'' of
                  None \<Rightarrow> (Inl (KeyError ''request_id''), w)
                | Some rid \<Rightarrow>
                    (case meter tr ser token (dict_get d ''category'' (JStr ''setup'')) cost rid
                            (dict_get d ''description'' (JStr ''offline-queued'')) w of
                       (Inl x, w') \<Rightarrow> (Inl (ClientExn x), w')
                     | (Inr m, w') \<Rightarrow>
                         (if mr_status_code m = 200 \<or> mr_status_code m = 409
                          then (case send_entries tr ser token entries w' of
                                  (Inr n, w'') \<Rightarrow> (Inr (Suc n), w'')
                                | (Inl x, w'') \<Rightarrow> (Inl x, w''))
                          else (Inr 0, w')))))
      | _ \<Rightarrow> (Inl NotADict, w))"

definition flush_finish :: "bool \<Rightarrow> nat \<Rightarrow> json list \<Rightarrow> queue_file \<Rightarrow> queue_file" where
  "flush_finish unlinked sent entries q =
     (if sent = length entries then clear unlinked q
      else foldl (\<lambda>q e. snd (append_entry e q)) (clear unlinked q) (drop sent entries))"

text \<open>
  \<open>flush\<close>: what the file holds when the sending is over need not be what was read, since the
  event loop runs other tasks while the requests are awaited; \<open>during\<close> is their effect on the
  file.
\<close>

definition flush_with ::
  "bool \<Rightarrow> (queue_file \<Rightarrow> queue_file) \<Rightarrow> 'w transport \<Rightarrow> string \<Rightarrow> string \<Rightarrow> queue_file \<times> 'w
     \<Rightarrow> (queue_exn + nat) \<times> queue_file \<times> 'w" where
  "flush_with unlinked during tr ser token qw = (case qw of (q, w) \<Rightarrow>
     (let entries = read_all q
      in if entries = [] then (Inr 0, q, w)
         else (case send_entries tr ser token entries w of
                 (Inl x, w') \<Rightarrow> (Inl x, during q, w')
               | (Inr sent, w') \<Rightarrow> (Inr sent, flush_finish unlinked sent entries (during q), w'))))"


lemma send_entries_le: "send_entries tr ser t es w = (Inr n, w') \<Longrightarrow> n \<le> length es"
proof (induction es arbitrary: w n w')
  case Nil
  then show ?case by simp
next
  case (Cons e es)
  from Cons.prems show ?case
    by (auto split: json.splits sum.splits option.splits prod.splits if_splits dest: Cons.IH)
qed

lemma read_all_clear [simp]: "read_all (clear True q) = []" "count (clear True q) = 0"
  by (simp_all add: clear_def read_all_def count_def)

text \<open>Appending to a queue beyond its cap changes nothing, so the general form needs no bound.\<close>

lemma read_all_appends:
  "read_all (foldl (\<lambda>q e. snd (append_entry e q)) q es) = read_all q @ take (MAX_QUEUE_ENTRIES - count q) es"
proof (cases "count q \<le> MAX_QUEUE_ENTRIES")
  case True
  then show ?thesis using oq.push_many by blast
next
  case False
  then have "foldl (\<lambda>q e. snd (append_entry e q)) q es = q" by (induction es) (simp_all add: append_entry_def)
  then show ?thesis using False by simp
qed

lemma read_all_flush_finish:
  "sent \<le> length entries \<Longrightarrow> read_all (flush_finish unlinked sent entries q) =
     (if unlinked then take MAX_QUEUE_ENTRIES (drop sent entries)
      else read_all q @ take (MAX_QUEUE_ENTRIES - count q) (drop sent entries))"
  using read_all_appends [of "clear unlinked q" "drop sent entries"] by (auto simp: flush_finish_def clear_def read_all_def count_def)

section \<open>Properties\<close>

text \<open>Also: offering any list of usage records to an empty queue keeps exactly the first fifty, in
  order, and refuses the rest.\<close>

theorem append_keeps_first_fifty:
  "read_all (foldl (\<lambda>q e. snd (append_entry e q)) None es) = take 50 es \<and>
   count (foldl (\<lambda>q e. snd (append_entry e q)) None es) = min 50 (length es)"
  using oq.push_many [of None es]
  by (simp add: count_def read_all_def MAX_QUEUE_ENTRIES_def)

text \<open>C37: what a flush that returns \<open>n\<close> leaves in the queue, whatever other tasks did to the file while the requests were
  awaited (\<open>during\<close>) and however many lines it has. When the file could be removed, exactly the first \<open>n\<close> of the
  records that were read are gone and at most fifty of the others are kept, in order; records that came meanwhile are not
  among them. When it could not be removed, everything in the file stays, the sent records too, and the unsent ones
  are appended once more as far as the cap of fifty leaves room.\<close>

theorem flush_conserves:
  assumes "flush_with unlinked during tr ser token (q, w) = (Inr n, q', w')" and "read_all q \<noteq> []"
  shows "n \<le> length (read_all q) \<and>
    read_all q' = (if unlinked then take 50 (drop n (read_all q))
                   else read_all (during q) @ take (50 - count (during q)) (drop n (read_all q)))"
proof -
  have s: "send_entries tr ser token (read_all q) w = (Inr n, w')" "q' = flush_finish unlinked n (read_all q) (during q)"
    using assms by (auto simp: flush_with_def Let_def split: prod.splits sum.splits)
  note n = send_entries_le [OF s(1)]
  with read_all_flush_finish [OF n, of unlinked "during q"] s(2) show ?thesis by (simp add: MAX_QUEUE_ENTRIES_def)
qed

definition sample_entry :: "string \<Rightarrow> json" where
  "sample_entry rid = JObj [(''category'', JStr ''setup''), (''cost_usd'', JStr ''0.01''),
     (''request_id'', JStr rid)]"

definition two_entries :: queue_file where
  "two_entries = Some [Line (sample_entry ''a''), Line (sample_entry ''b'')]"

theorem flush_conserves_witness:
  "flush_with False id scripted ''VZ-1'' ''tok'' (two_entries, [HttpResponse 409 None, HttpResponse 500 None])
    = (Inr 1, Some [Line (sample_entry ''a''), Line (sample_entry ''b''), Line (sample_entry ''b'')], []) \<and>
   read_all (Some [Line (sample_entry ''a''), Line (sample_entry ''b''), Line (sample_entry ''b'')]) =
     read_all two_entries @ take (50 - count two_entries) (drop 1 (read_all two_entries))"
proof -
  have f: "flush_with False id scripted ''VZ-1'' ''tok'' (two_entries, [HttpResponse 409 None, HttpResponse 500 None])
      = (Inr 1, Some [Line (sample_entry ''a''), Line (sample_entry ''b''), Line (sample_entry ''b'')], [])"
    by code_simp
  have "read_all two_entries \<noteq> []" by (simp add: two_entries_def read_all_def)
  from flush_conserves [OF f this] f show ?thesis by simp
qed



end
