(* ===== verification/Serial_Metering.thy ===== *)
theory Serial_Metering
  imports Serial_Store Offline_Queue
begin

text \<open>
  Admission of metered operations, \<open>app/services/serial_metering.py\<close>: the serial strategy
  (states, credits, offline policy), the ledger strategy and the dependency that picks one.
  The world is the serial store, the offline queue, the network and the number of background
  auto-reload checks started.
\<close>

section \<open>Decisions and exceptions\<close>

record meter_decision =
  md_allowed :: bool
  md_category :: string
  md_offline :: bool
  md_reason :: "string option"

record credit_denial =
  cd_category :: string
  cd_reason :: string
  cd_remaining_usd :: string
  cd_setup_remaining_usd :: json
  cd_payment_enabled :: bool
  cd_serial :: string

datatype meter_exn =
    UnprovisionedException
  | ActivationRequiredException string
  | CreditExhaustedException credit_denial
  | StoreExn os_error
  | MeterClientExn client_exn

record 'w meter_world =
  mw_store :: serial_store
  mw_queue :: queue_file
  mw_net :: 'w
  mw_reloads :: nat

type_synonym ('w, 'a) metering = "('w meter_world, meter_exn, 'a) meth"

definition SETUP_VIEWS :: "string list" where
  "SETUP_VIEWS = [''onboarding'', ''setup'', ''connectivity'', ''metadata_builder'', ''publish'']"

definition classify_copilot_category :: "string option \<Rightarrow> string" where
  "classify_copilot_category active_view =
     (case active_view of
        Some v \<Rightarrow> if v \<noteq> [] \<and> v \<in> set SETUP_VIEWS then ''setup'' else ''data''
      | None \<Rightarrow> ''data'')"

definition DEFAULT_SETUP_COST :: string where "DEFAULT_SETUP_COST = ''0.01''"

definition DEFAULT_DATA_COST :: string where "DEFAULT_DATA_COST = ''0.03''"

section \<open>The serial strategy\<close>

definition on_store :: "'a store_meth \<Rightarrow> ('w, 'a) metering" where
  "on_store m w = (case m (mw_store w) of (r, s) \<Rightarrow> (map_sum StoreExn id r, w\<lparr>mw_store := s\<rparr>))"

definition spawn_auto_reload :: "('w, unit) metering" where
  "spawn_auto_reload w = (Inr (), w\<lparr>mw_reloads := Suc (mw_reloads w)\<rparr>)"

definition decision :: "string \<Rightarrow> meter_decision" where
  "decision category = \<lparr>md_allowed = True, md_category = category, md_offline = False, md_reason = None\<rparr>"

text \<open>The result of \<open>append\<close> is ignored: the operation is allowed even when the queue is full.\<close>

definition allow_offline :: "time \<Rightarrow> string \<Rightarrow> string \<Rightarrow> string \<Rightarrow> string \<Rightarrow> ('w, meter_decision) metering" where
  "allow_offline now category cost request_id description w =
     (Inr ((decision category)\<lparr>md_offline := True\<rparr>),
      w\<lparr>mw_queue := snd (append_entry (JObj
          [(''category'', JStr category), (''cost_usd'', JStr cost), (''request_id'', JStr request_id),
           (''description'', JStr description), (''timestamp'', JInt now)]) (mw_queue w))\<rparr>)"

definition blocked_offline :: "string \<Rightarrow> string \<Rightarrow> meter_exn" where
  "blocked_offline category ser = CreditExhaustedException
     \<lparr>cd_category = category, cd_reason = ''offline_data_blocked'', cd_remaining_usd = ''0.00'',
      cd_setup_remaining_usd = JStr ''0.00'', cd_payment_enabled = False, cd_serial = ser\<rparr>"

text \<open>What the strategy does with the server's answer.\<close>

definition after_meter ::
  "time \<Rightarrow> string \<Rightarrow> string \<Rightarrow> string \<Rightarrow> string \<Rightarrow> meter_result \<Rightarrow> ('w, meter_decision) metering" where
  "after_meter now category cost request_id ser result =
     (if mr_migrated result
      then seq (on_store (transition_to_migrated None)) (\<lambda>_. ret (decision category))
      else if mr_allowed result
      then seq (on_store record_success) (\<lambda>_. seq spawn_auto_reload (\<lambda>_. ret (decision category)))
      else if mr_status_code result = 200 \<or> mr_status_code result = 402
      then seq (on_store record_success) (\<lambda>_ w.
             (Inl (CreditExhaustedException
               \<lparr>cd_category = category,
                cd_reason = (case mr_reason result of
                    Some r \<Rightarrow> if r \<noteq> [] then r else ''insufficient_'' @ category @ ''_credits''
                  | None \<Rightarrow> ''insufficient_'' @ category @ ''_credits''),
                cd_remaining_usd = mr_remaining_usd result,
                cd_setup_remaining_usd =
                  dict_get (case last_status_cache (st (mw_store w)) of Some d \<Rightarrow> d | None \<Rightarrow> [])
                    ''setup_remaining_usd'' (JStr ''0.00''),
                cd_payment_enabled = mr_payment_enabled result,
                cd_serial = ser\<rparr>), w))
      else if mr_status_code result = 401
      then seq (on_store transition_to_unprovisioned)
             (\<lambda>_. raise (ActivationRequiredException ''Token revoked - re-activation required''))
      else seq (on_store record_failure) (\<lambda>_ w.
             (if category = ''setup''
              then allow_offline now category cost request_id ''network-failure-offline'' w
              else if consecutive_failures (st (mw_store w)) < 3
              then (Inr ((decision category)\<lparr>md_offline := True, md_reason := Some ''transient_offline''\<rparr>), w)
              else (Inl (blocked_offline category ser), w))))"

definition check_and_meter ::
  "'w transport \<Rightarrow> time \<Rightarrow> string \<Rightarrow> string \<Rightarrow> string \<Rightarrow> ('w, meter_decision) metering" where
  "check_and_meter tr now category cost request_id w =
     (let x = st (mw_store w) in
      if sstate x = UNPROVISIONED
      then (if category = ''setup''
            then allow_offline now category cost request_id ''unprovisioned-offline'' w
            else (Inl UnprovisionedException, w))
      else if sstate x = PROVISIONED
      then (if category = ''setup''
            then allow_offline now category cost request_id ''provisioned-offline'' w
            else (Inl (ActivationRequiredException ''Activation required''), w))
      else if sstate x = DEGRADED
      then (if category = ''setup''
            then allow_offline now category cost request_id ''degraded-offline'' w
            else (Inl (blocked_offline category (serial x)), w))
      else (case install_token x of
              Some token \<Rightarrow>
                (if token = [] then (Inl (ActivationRequiredException ''Activation required''), w)
                 else (case meter tr (serial x) token (JStr category) (JStr cost) (JStr request_id)
                               (JStr []) (mw_net w) of
                         (Inl e, n) \<Rightarrow> (Inl (MeterClientExn e), w\<lparr>mw_net := n\<rparr>)
                       | (Inr result, n) \<Rightarrow>
                           after_meter now category cost request_id (serial x) result (w\<lparr>mw_net := n\<rparr>)))
            | None \<Rightarrow> (Inl (ActivationRequiredException ''Activation required''), w)))"

section \<open>The ledger strategy and the endpoint dependency\<close>

definition ledger_check_and_meter :: "string \<Rightarrow> string \<Rightarrow> string \<Rightarrow> ('w, meter_decision) metering" where
  "ledger_check_and_meter category cost request_id = ret (decision category)"

text \<open>\<open>md5hex\<close> is the hexadecimal MD5 digest, \<open>hashlib.md5(\<dots>).hexdigest()\<close>.\<close>

definition make_request_id :: "(string \<Rightarrow> string) \<Rightarrow> string \<Rightarrow> string \<Rightarrow> time \<Rightarrow> string" where
  "make_request_id md5hex ser endpoint now =
     (let serial_short = (if starts_with ''VZ-'' ser then take 8 (drop 3 ser) else take 8 ser);
          endpoint_hash = take 8 (md5hex endpoint);
          ts_ms = now div 1000
      in ''vz:'' @ serial_short @ '':'' @ endpoint_hash @ '':'' @ show_int ts_ms)"

definition metered ::
  "(string \<Rightarrow> string) \<Rightarrow> 'w transport \<Rightarrow> time \<Rightarrow> string \<Rightarrow> string \<Rightarrow> string \<Rightarrow> ('w, meter_decision) metering" where
  "metered md5hex tr now category http_method path w =
     (let x = st (mw_store w);
          cost = (if category = ''data'' then DEFAULT_DATA_COST else DEFAULT_SETUP_COST);
          request_id = make_request_id md5hex (serial x) (http_method @ '':'' @ path) now
      in if sstate x = MIGRATED
         then ledger_check_and_meter category cost request_id w
         else check_and_meter tr now category cost request_id w)"

section \<open>What every strategy promises\<close>

text \<open>The contract of \<open>MeteringStrategy\<close>: a strategy that returns allows, for the category it was
  asked about; a refusal is an exception.\<close>

locale metering_strategy =
  fixes check :: "string \<Rightarrow> string \<Rightarrow> string \<Rightarrow> ('w, meter_decision) metering"
  assumes check_allows: "check category cost rid w = (Inr d, w') \<Longrightarrow> md_allowed d \<and> md_category d = category"
begin

lemma refused_is_exception: "fst (check category cost rid w) = Inr d \<Longrightarrow> md_allowed d"
  using check_allows [of category cost rid w d "snd (check category cost rid w)"]
  by (cases "check category cost rid w") auto

end

lemma on_store_eq:
  "on_store m w = (map_sum StoreExn id (fst (m (mw_store w))), w\<lparr>mw_store := snd (m (mw_store w))\<rparr>)"
  by (simp add: on_store_def split: prod.split)

lemma seq_on_store:
  "seq (on_store m) f w = (case fst (m (mw_store w)) of
      Inl e \<Rightarrow> (Inl (StoreExn e), w\<lparr>mw_store := snd (m (mw_store w))\<rparr>)
    | Inr a \<Rightarrow> f a (w\<lparr>mw_store := snd (m (mw_store w))\<rparr>))"
  by (simp add: seq_cases on_store_eq map_sum_def split: sum.split)

lemmas metering_defs = check_and_meter_def after_meter_def on_store_eq case_sum_map_sum allow_offline_def decision_def
  spawn_auto_reload_def seq_cases

interpretation serial_strategy: metering_strategy "check_and_meter tr now" for tr now
  by unfold_locales
    (auto simp: metering_defs Let_def split: if_splits option.splits prod.splits sum.splits)

interpretation ledger_strategy: metering_strategy ledger_check_and_meter
  by unfold_locales (auto simp: ledger_check_and_meter_def decision_def)

section \<open>A dead network\<close>

definition dead_net :: "'w transport" where
  "dead_net rq w = (HttpError, w)"

lemma request_dead: "request dead_net rq w = ((0, None), w)"
  by (simp add: request_def request_full_def dead_net_def numeral_2_eq_2)

definition dead_result :: meter_result where
  "dead_result = \<lparr>mr_allowed = False, mr_category = [], mr_cost_usd = ''0.00'',
     mr_remaining_usd = ''0.00'', mr_reason = None, mr_payment_enabled = False,
     mr_migrated = False, mr_error = Some (ErrHttp 0), mr_status_code = 0\<rparr>"

lemma meter_dead: "meter dead_net ser t c cost i d w = (Inr dead_result, w)"
  by (simp add: meter_def request_dead read_response_def truthy_data_def error_of_def dead_result_def)

lemma dead_result_simps [simp]:
  "mr_allowed dead_result = False" "mr_migrated dead_result = False" "mr_status_code dead_result = 0"
  by (simp_all add: dead_result_def)

text \<open>A list of calls (clock reading, category, cost, request id), each with its outcome.\<close>

fun run_calls ::
  "'w transport \<Rightarrow> (time \<times> string \<times> string \<times> string) list \<Rightarrow> 'w meter_world
     \<Rightarrow> (string \<times> (meter_exn + meter_decision)) list" where
  "run_calls tr [] w = []"
| "run_calls tr ((now, category, cost, rid) # calls) w =
     (case check_and_meter tr now category cost rid w of
        (r, w') \<Rightarrow> (category, r) # run_calls tr calls w')"

definition free_data :: "string \<times> (meter_exn + meter_decision) \<Rightarrow> bool" where
  "free_data cr = (case cr of (c, r) \<Rightarrow> c \<noteq> ''setup'' \<and> isl r = False)"

lemma record_failure_effect:
  "consecutive_failures (st (snd (record_failure s))) = consecutive_failures (st s) + 1"
  by (simp add: record_failure_def Let_def)

text \<open>With the network down the failure counter never falls, and a call outside \<open>setup\<close> that is
  let through has counted a failure and found the counter below three.\<close>

lemma check_dead:
  assumes "check_and_meter dead_net now category cost rid w = (r, w')"
  shows "consecutive_failures (st (mw_store w)) \<le> consecutive_failures (st (mw_store w'))"
    and "free_data (category, r) \<Longrightarrow>
      consecutive_failures (st (mw_store w)) + 1 = consecutive_failures (st (mw_store w')) \<and>
      consecutive_failures (st (mw_store w')) < 3"
proof -
  show "consecutive_failures (st (mw_store w)) \<le> consecutive_failures (st (mw_store w'))"
    using assms
    by (auto simp: metering_defs meter_dead record_failure_effect Let_def split: if_splits option.splits sum.splits)
  show "free_data (category, r) \<Longrightarrow>
      consecutive_failures (st (mw_store w)) + 1 = consecutive_failures (st (mw_store w')) \<and>
      consecutive_failures (st (mw_store w')) < 3"
    using assms
    by (auto simp: metering_defs meter_dead record_failure_effect free_data_def Let_def
        split: if_splits option.splits sum.splits)
qed

lemma free_data_bound:
  "int (length (filter free_data (run_calls dead_net calls w)))
     \<le> max 0 (2 - consecutive_failures (st (mw_store w)))"
proof (induction calls arbitrary: w)
  case Nil
  then show ?case by simp
next
  case (Cons c calls)
  obtain now cat cost rid where c: "c = (now, cat, cost, rid)" by (cases c)
  obtain r w' where r: "check_and_meter dead_net now cat cost rid w = (r, w')" by fastforce
  show ?case
    using check_dead [OF r] Cons.IH [of w'] by (auto simp: c r)
qed

section \<open>Properties\<close>

text \<open>C3: while the server cannot be reached, however many calls are made, in whatever order and
  whatever else fails, at most two operations outside the setup category are let through
  unmetered.\<close>

theorem offline_data_at_most_two:
  assumes "0 \<le> consecutive_failures (st (mw_store w))"
  shows "length (filter free_data (run_calls dead_net calls w)) \<le> 2"
  using free_data_bound [of calls w] assms by simp

definition active_world :: "unit meter_world" where
  "active_world = \<lparr>mw_store = \<lparr>st = default_state\<lparr>serial := ''VZ-1'', sstate := ACTIVE, install_token := Some ''t''\<rparr>,
     disk = NoFile, io = []\<rparr>, mw_queue = None, mw_net = (), mw_reloads = 0\<rparr>"

theorem offline_data_at_most_two_witness:
  "length (filter free_data (run_calls dead_net (replicate 5 (0, ''data'', ''0.03'', ''r'')) active_world)) = 2"
proof -
  have "length (filter free_data (run_calls dead_net (replicate 5 (0, ''data'', ''0.03'', ''r'')) active_world)) \<le> 2"
    by (rule offline_data_at_most_two) (simp add: active_world_def default_state_def)
  moreover have "length (filter free_data (run_calls dead_net (replicate 5 (0, ''data'', ''0.03'', ''r'')) active_world)) = 2"
    by code_simp
  ultimately show ?thesis by simp
qed

text \<open>C11: an operation outside setup is admitted only by an activated or migrated install with a
  token, and only when the server allowed it (or reported the migration), or, marked offline,
  when the server gave neither a verdict nor a revocation and fewer than three calls in a row
  have failed.\<close>

theorem data_admission:
  assumes "check_and_meter tr now category cost rid w = (Inr d, w')" and "category \<noteq> ''setup''"
  shows "sstate (st (mw_store w)) \<in> {ACTIVE, MIGRATED} \<and> truthy (install_token (st (mw_store w))) \<and>
    (\<exists>m n. meter tr (serial (st (mw_store w))) (the (install_token (st (mw_store w)))) (JStr category)
              (JStr cost) (JStr rid) (JStr []) (mw_net w) = (Inr m, n) \<and>
       (mr_migrated m \<and> sstate (st (mw_store w')) = MIGRATED \<or>
        mr_allowed m \<and> consecutive_failures (st (mw_store w')) = 0 \<or>
        md_offline d \<and> mr_status_code m \<notin> {200, 401, 402} \<and>
          consecutive_failures (st (mw_store w')) < 3))"
proof -
  let ?x = "st (mw_store w)"
  have state: "sstate ?x \<in> {ACTIVE, MIGRATED}"
    using assms by (cases "sstate ?x") (auto simp: check_and_meter_def Let_def)
  then obtain token where tok: "install_token ?x = Some token" "token \<noteq> []"
    using assms(1) by (auto simp: check_and_meter_def Let_def split: option.splits if_splits)
  obtain r n where mt: "meter tr (serial ?x) token (JStr category) (JStr cost) (JStr rid) (JStr []) (mw_net w) = (r, n)"
    by fastforce
  then obtain m where m: "r = Inr m"
    using assms(1) state tok by (cases r) (auto simp: check_and_meter_def Let_def)
  have am: "after_meter now category cost rid (serial ?x) m (w\<lparr>mw_net := n\<rparr>) = (Inr d, w')"
    using assms(1) state tok mt m by (auto simp: check_and_meter_def Let_def)
  have "mr_migrated m \<and> sstate (st (mw_store w')) = MIGRATED \<or>
        mr_allowed m \<and> consecutive_failures (st (mw_store w')) = 0 \<or>
        md_offline d \<and> mr_status_code m \<notin> {200, 401, 402} \<and> consecutive_failures (st (mw_store w')) < 3"
    using am assms(2)
    by (auto simp: after_meter_def on_store_eq case_sum_map_sum seq_cases spawn_auto_reload_def
        transition_to_migrated_def record_success_def Let_def split: if_splits sum.splits)
  with state tok mt m show ?thesis by auto
qed

theorem data_admission_witness:
  "\<exists>m n. meter scripted ''VZ-1'' ''t'' (JStr ''data'') (JStr ''0.03'') (JStr ''r'') (JStr [])
      [HttpResponse 200 (Some (JObj [(''allowed'', JBool True)]))] = (Inr m, n)"
proof -
  let ?w = "\<lparr>mw_store = mw_store active_world, mw_queue = None,
    mw_net = [HttpResponse 200 (Some (JObj [(''allowed'', JBool True)]))], mw_reloads = 0\<rparr>"
  have run: "fst (check_and_meter scripted 0 ''data'' ''0.03'' ''r'' ?w) = Inr (decision ''data'')"
    by code_simp
  then have eq: "check_and_meter scripted 0 ''data'' ''0.03'' ''r'' ?w
      = (Inr (decision ''data''), snd (check_and_meter scripted 0 ''data'' ''0.03'' ''r'' ?w))"
    by (metis prod.collapse)
  show ?thesis
    using data_admission [OF eq] by (auto simp: active_world_def default_state_def)
qed

text \<open>A metered endpoint that is not refused runs under an allowing decision for its own
  category, whichever strategy was picked.\<close>

lemma metered_allows:
  assumes "metered md5hex tr now category http_method path w = (Inr d, w')"
  shows "md_allowed d \<and> md_category d = category"
  using assms
  by (auto simp: metered_def Let_def split: if_splits
      dest: serial_strategy.check_allows ledger_strategy.check_allows)

end
