(* ===== verification/Activation.thy ===== *)
theory Activation
  imports Serial_Store Serial_Client
begin

text \<open>
  The activation lifecycle of \<open>app/services/activation_manager.py\<close> with the install
  registration it triggers (\<open>ensure_vz_install_registered\<close> of
  \<open>app/services/registration_service.py\<close>): startup, activation, token refresh, status polling,
  automatic provisioning and one iteration of the background loop. The world is the serial
  store, the network, the copilot configurations written so far and whether the background
  task runs. A boot is a new process: it reads the record from the file again. Key generation is taken to succeed, and writing the copilot configuration, whose
  exceptions the code swallows, is recorded in the world.
\<close>

section \<open>The world\<close>

record act_config =
  ac_instance_id :: string
  ac_hostname :: string
  ac_app_version :: string
  ac_keystore_passphrase :: "string option"
  ac_public_key :: string

record 'w act_world =
  aw_store :: serial_store
  aw_net :: 'w
  aw_configs :: "(string \<times> string) list"
  aw_background :: bool

datatype act_exn = ActStore os_error | ActClient client_exn | ActBadJson

type_synonym ('w, 'a) activity = "('w act_world, act_exn, 'a) meth"

definition in_store :: "'a store_meth \<Rightarrow> ('w, 'a) activity" where
  "in_store m w = (case m (aw_store w) of (r, s) \<Rightarrow> (map_sum ActStore id r, w\<lparr>aw_store := s\<rparr>))"

text \<open>A write to the live state object followed by \<open>save()\<close>.\<close>

definition write_state :: "(serial_state \<Rightarrow> serial_state) \<Rightarrow> ('w, unit) activity" where
  "write_state f = in_store (\<lambda>s. save (set_st f s))"

definition write_allie_config :: "string \<Rightarrow> string \<Rightarrow> ('w, unit) activity" where
  "write_allie_config ser token w = (Inr (), w\<lparr>aw_configs := aw_configs w @ [(ser, token)]\<rparr>)"

text \<open>\<open>try: m except Exception: log\<close>\<close>

definition swallow :: "('w, unit) activity \<Rightarrow> ('w, unit) activity" where
  "swallow m w = (Inr (), snd (m w))"

definition call_client ::
  "('w \<Rightarrow> (client_exn + 'r) \<times> 'w) \<Rightarrow> ('r \<Rightarrow> ('w, 'a) activity) \<Rightarrow> ('w, 'a) activity" where
  "call_client c k w = (case c (aw_net w) of
       (Inl e, n) \<Rightarrow> (Inl (ActClient e), w\<lparr>aw_net := n\<rparr>)
     | (Inr r, n) \<Rightarrow> k r (w\<lparr>aw_net := n\<rparr>))"

abbreviation "astate w \<equiv> st (aw_store w)"

section \<open>Activation\<close>

definition attempt_activation :: "'w transport \<Rightarrow> act_config \<Rightarrow> ('w, unit) activity" where
  "attempt_activation tr cfg w =
     (if serial (astate w) = [] \<or> \<not> truthy (bootstrap_token (astate w)) then (Inr (), w)
      else call_client
        (activate tr (serial (astate w)) (the (bootstrap_token (astate w))) (ac_instance_id cfg)
           (ac_hostname cfg) (ac_app_version cfg))
        (\<lambda>result.
           if ar_success result \<and> truthy (ar_install_token result)
           then seq (in_store (transition_to_active (the (ar_install_token result))))
                  (\<lambda>_. seq (in_store (persist_serial_id (ar_serial_id result)))
                  (\<lambda>_. seq (in_store (update_app_version (ac_app_version cfg)))
                  (\<lambda>_ w'. swallow (write_allie_config (serial (astate w')) (the (ar_install_token result))) w')))
           else if ar_status_code result = 401
           then in_store transition_to_unprovisioned
           else ret ()) w)"

definition attempt_refresh :: "'w transport \<Rightarrow> act_config \<Rightarrow> ('w, unit) activity" where
  "attempt_refresh tr cfg w =
     (if \<not> truthy (install_token (astate w)) then (Inr (), w)
      else call_client
        (refresh tr (serial (astate w)) (the (install_token (astate w))) (ac_instance_id cfg))
        (\<lambda>result.
           if rr_success result \<and> truthy (rr_install_token result)
           then seq (write_state (\<lambda>x. x\<lparr>install_token := rr_install_token result\<rparr>))
                  (\<lambda>_ w'. swallow (write_allie_config (serial (astate w')) (the (rr_install_token result))) w')
           else if rr_status_code result = 401
           then write_state (\<lambda>x. x\<lparr>sstate := PROVISIONED, install_token := None\<rparr>)
           else ret ()) w)"

section \<open>Automatic provisioning\<close>

definition generate_request :: http_request where
  "generate_request = \<lparr>rq_method = ''POST'', rq_path = ''/api/v1/serials/generate'',
     rq_body = Some (JObj [(''source'', JStr ''auto_provision'')]), rq_headers = []\<rparr>"

text \<open>One attempt, without the client's retries; every exception is swallowed.\<close>

definition auto_provision :: "'w transport \<Rightarrow> act_config \<Rightarrow> ('w, unit) activity" where
  "auto_provision tr cfg w = (case tr generate_request (aw_net w) of
       (HttpError, n) \<Rightarrow> (Inr (), w\<lparr>aw_net := n\<rparr>)
     | (HttpResponse status body, n) \<Rightarrow>
         swallow
           (if status = 201
            then (case body of
                    Some (JObj d) \<Rightarrow>
                      (case (get_str d ''serial'', get_str d ''bootstrap_token'') of
                         (Some ser, Some bootstrap) \<Rightarrow>
                           seq (write_state (\<lambda>x. x\<lparr>serial := ser, bootstrap_token := Some bootstrap,
                                                  sstate := PROVISIONED\<rparr>))
                             (\<lambda>_. attempt_activation tr cfg)
                       | _ \<Rightarrow> raise ActBadJson)
                  | _ \<Rightarrow> raise ActBadJson)
            else ret ())
           (w\<lparr>aw_net := n\<rparr>))"

section \<open>Registration of the install for signed publishing\<close>

definition register_request :: "string \<Rightarrow> string \<Rightarrow> http_request" where
  "register_request public_key token = \<lparr>rq_method = ''POST'', rq_path = ''/api/v1/vz/register'',
     rq_body = Some (JObj [(''public_key_b64'', JStr public_key)]),
     rq_headers = bearer token @ [(''Content-Type'', ''application/json'')]\<rparr>"

text \<open>What is done with the server's reply.\<close>

definition register_reply :: "int \<Rightarrow> json option \<Rightarrow> string option \<Rightarrow> ('w, string option) activity" where
  "register_reply status body seller_id w =
     (if status = 200 \<or> status = 201 \<or> status = 409
      then (case body of
              Some (JObj d) \<Rightarrow>
                (let install_id = get_str_or d ''install_id'' []
                 in if install_id \<noteq> []
                    then seq (in_store (persist_vz_install install_id (get_str d ''install_token'')))
                      (\<lambda>_. seq (if status \<noteq> 409 \<and> truthy seller_id
                                then write_state (\<lambda>x. x\<lparr>ai_market_seller_id := seller_id\<rparr>)
                                else ret ())
                      (\<lambda>_. ret (Some install_id))) w
                    else if status = 409 then (Inr (vz_install_id (astate w)), w)
                    else (Inr None, w))
            | _ \<Rightarrow> (Inl ActBadJson, w))
      else (Inr None, w))"

definition ensure_vz_install_registered ::
  "'w transport \<Rightarrow> string \<Rightarrow> string option \<Rightarrow> string option \<Rightarrow> ('w, string option) activity" where
  "ensure_vz_install_registered tr public_key access_token seller_id w =
     (if truthy (vz_install_id (astate w)) then (Inr (vz_install_id (astate w)), w)
      else let token = (if truthy access_token then access_token else ai_market_access_token (astate w))
      in if \<not> truthy token then (Inr None, w)
      else (case tr (register_request public_key (the token)) (aw_net w) of
              (HttpError, n) \<Rightarrow> (Inr None, w\<lparr>aw_net := n\<rparr>)
            | (HttpResponse status body, n) \<Rightarrow> register_reply status body seller_id (w\<lparr>aw_net := n\<rparr>)))"

section \<open>Status polling\<close>

definition poll_status :: "'w transport \<Rightarrow> act_config \<Rightarrow> string \<Rightarrow> ('w, unit) activity" where
  "poll_status tr cfg now w =
     (if sstate (astate w) \<notin> {ACTIVE, DEGRADED} \<or> \<not> truthy (install_token (astate w)) then (Inr (), w)
      else call_client (client_status tr (serial (astate w)) (the (install_token (astate w))))
        (\<lambda>result.
           if sr_success result \<and> (case sr_data result of Some d \<Rightarrow> d \<noteq> [] | None \<Rightarrow> False)
           then (let d = the (sr_data result) in
             seq (in_store record_success)
               (\<lambda>_. seq (in_store (persist_serial_id (sr_serial_id result)))
               (\<lambda>_. seq (in_store (update_status_cache d now))
               (\<lambda>_. seq (\<lambda>w'.
                     if \<not> truthy (vz_install_id (astate w')) \<and> truthy (ai_market_access_token (astate w'))
                        \<and> truthy (ac_keystore_passphrase cfg)
                        \<and> truthy_json (dict_get d ''gateway_user_id'' JNull)
                     then swallow (\<lambda>v. map_prod (map_sum id (\<lambda>_. ())) id
                            (ensure_vz_install_registered tr (ac_public_key cfg)
                               (ai_market_access_token (astate v)) (get_str d ''gateway_user_id'') v)) w'
                     else (Inr (), w'))
               (\<lambda>_. if sr_migrated result
                     then in_store (transition_to_migrated (get_str d ''gateway_user_id''))
                     else ret ())))))
           else if sr_status_code result = 401
           then in_store transition_to_unprovisioned
           else in_store record_failure) w)"

section \<open>Startup and the background loop\<close>

definition startup_provision :: "'w transport \<Rightarrow> act_config \<Rightarrow> ('w, unit) activity" where
  "startup_provision tr cfg w =
     (if sstate (astate w) = UNPROVISIONED
      then (if serial (astate w) \<noteq> [] \<and> truthy (bootstrap_token (astate w))
            then write_state (\<lambda>x. x\<lparr>sstate := PROVISIONED\<rparr>) w
            else auto_provision tr cfg w)
      else (Inr (), w))"

definition startup_activate :: "'w transport \<Rightarrow> act_config \<Rightarrow> ('w, unit) activity" where
  "startup_activate tr cfg w =
     (if sstate (astate w) = PROVISIONED then attempt_activation tr cfg w else (Inr (), w))"

definition startup_refresh :: "'w transport \<Rightarrow> act_config \<Rightarrow> ('w, unit) activity" where
  "startup_refresh tr cfg w =
     (if sstate (astate w) = ACTIVE
      then seq (\<lambda>v. if truthy (last_app_version (astate v))
                         \<and> last_app_version (astate v) \<noteq> Some (ac_app_version cfg)
                    then attempt_refresh tr cfg v else (Inr (), v))
             (\<lambda>_. in_store (update_app_version (ac_app_version cfg))) w
      else (Inr (), w))"

definition start_background :: "('w, unit) activity" where
  "start_background w = (Inr (), w\<lparr>aw_background := True\<rparr>)"

definition startup :: "'w transport \<Rightarrow> act_config \<Rightarrow> ('w, unit) activity" where
  "startup tr cfg = seq (startup_provision tr cfg)
     (\<lambda>_ w. if sstate (astate w) = MIGRATED then (Inr (), w)
        else seq (startup_activate tr cfg)
               (\<lambda>_. seq (startup_refresh tr cfg) (\<lambda>_. start_background)) w)"

text \<open>One iteration of \<open>_background_loop\<close> up to its sleep; exceptions end the iteration only.\<close>

definition background_step :: "'w transport \<Rightarrow> act_config \<Rightarrow> string \<Rightarrow> 'w act_world \<Rightarrow> 'w act_world" where
  "background_step tr cfg now w = snd (
     (case sstate (astate w) of
        PROVISIONED \<Rightarrow> attempt_activation tr cfg w
      | ACTIVE \<Rightarrow> poll_status tr cfg now w
      | DEGRADED \<Rightarrow> poll_status tr cfg now w
      | MIGRATED \<Rightarrow> (Inr (), w)
      | UNPROVISIONED \<Rightarrow> auto_provision tr cfg w))"

section \<open>Preservation of the record's well-formedness\<close>

definition act_inv :: "'w act_world \<Rightarrow> bool" where
  "act_inv w \<longleftrightarrow> store_inv (aw_store w)"

lemma in_store_eq:
  "in_store m w = (map_sum ActStore id (fst (m (aw_store w))), w\<lparr>aw_store := snd (m (aw_store w))\<rparr>)"
  by (simp add: in_store_def split: prod.split)

lemma act_inv_net [simp]: "act_inv (w\<lparr>aw_net := n\<rparr>) = act_inv w"
  by (simp add: act_inv_def)

lemma act_inv_op [inv_pres]:
  "act_inv w \<Longrightarrow> act_inv (snd (in_store (run_op x) w))"
  using run_op_inv [of "aw_store w" x] run_op_disk_inv [of "aw_store w" x] by (simp add: act_inv_def store_inv_def in_store_eq)

lemmas act_inv_ops [inv_pres] =
  act_inv_op [where x = Success, simplified] act_inv_op [where x = Failure, simplified]
  act_inv_op [where x = "ToActive t" for t, simplified] act_inv_op [where x = "ToMigrated g" for g, simplified]
  act_inv_op [where x = ToUnprovisioned, simplified] act_inv_op [where x = "StatusCache d t" for d t, simplified]
  act_inv_op [where x = "AppVersion v" for v, simplified] act_inv_op [where x = "SerialId i" for i, simplified]
  act_inv_op [where x = "VzInstall i t" for i t, simplified]

lemma astate_write [simp]: "astate (snd (write_state f w)) = f (astate w)"
  by (simp add: write_state_def in_store_eq)

lemma act_inv_write: "act_inv w \<Longrightarrow> serial_inv (f (astate w)) \<Longrightarrow> act_inv (snd (write_state f w))"
  using disk_inv_save [of "set_st f (aw_store w)"] by (simp add: act_inv_def store_inv_def write_state_def in_store_eq)

lemma act_inv_record: "act_inv w \<Longrightarrow> serial_inv (astate w)"
  by (simp add: act_inv_def store_inv_def)

lemma act_inv_swallow [inv_pres]: "act_inv (snd (m w)) \<Longrightarrow> act_inv (snd (swallow m w))"
  by (simp add: swallow_def)

lemma act_inv_config [inv_pres]: "act_inv w \<Longrightarrow> act_inv (snd (write_allie_config ser t w))"
  by (simp add: act_inv_def write_allie_config_def)

lemma act_inv_seq [inv_pres]:
  "act_inv (snd (m w)) \<Longrightarrow> (\<And>x. fst (m w) = Inr x \<Longrightarrow> act_inv (snd (f x (snd (m w))))) \<Longrightarrow>
   act_inv (snd (seq m f w))"
  by (auto simp: seq_cases split: sum.split)

lemma act_inv_client [inv_pres]:
  "(\<And>r n. c (aw_net w) = (Inr r, n) \<Longrightarrow> act_inv (snd (k r (w\<lparr>aw_net := n\<rparr>)))) \<Longrightarrow> act_inv w \<Longrightarrow>
   act_inv (snd (call_client c k w))"
  by (auto simp: call_client_def split: prod.splits sum.splits)

lemma attempt_activation_inv [inv_pres]:
  "act_inv w \<Longrightarrow> act_inv (snd (attempt_activation tr cfg w))"
  unfolding attempt_activation_def
  by (auto intro!: inv_pres)

lemma attempt_refresh_inv [inv_pres]:
  assumes "act_inv w"
  shows "act_inv (snd (attempt_refresh tr cfg w))"
proof -
  have 1: "act_inv (snd (write_state (\<lambda>x. x\<lparr>install_token := t\<rparr>) (w\<lparr>aw_net := n\<rparr>)))"
    if "truthy t" "truthy (install_token (astate w))" for t n
    using that act_inv_record [OF assms] assms by (intro act_inv_write) (auto simp: serial_inv_def elim!: truthyE)
  have 2: "act_inv (snd (write_state (\<lambda>x. x\<lparr>sstate := PROVISIONED, install_token := None\<rparr>) (w\<lparr>aw_net := n\<rparr>)))" for n
    using act_inv_record [OF assms] assms by (intro act_inv_write) (auto simp: serial_inv_def)
  show ?thesis
    using assms 1 2 unfolding attempt_refresh_def by (auto intro!: inv_pres)
qed

lemma auto_provision_inv:
  assumes "act_inv w" "sstate (astate w) = UNPROVISIONED"
  shows "act_inv (snd (auto_provision tr cfg w))"
proof -
  have "act_inv (snd (write_state (\<lambda>x. x\<lparr>serial := s, bootstrap_token := Some b, sstate := PROVISIONED\<rparr>)
      (w\<lparr>aw_net := n\<rparr>)))" for s b n
    using act_inv_record [OF assms(1)] assms by (intro act_inv_write) (auto simp: serial_inv_def)
  then show ?thesis
    using assms unfolding auto_provision_def
    by (auto intro!: inv_pres split: prod.splits http_outcome.splits option.splits json.splits)
qed

lemma register_reply_inv [inv_pres]:
  assumes "act_inv w"
  shows "act_inv (snd (register_reply status body i w))"
proof -
  have wr: "act_inv (snd (write_state (\<lambda>x. x\<lparr>ai_market_seller_id := i\<rparr>) v))" if "act_inv v" for v :: "'a act_world"
    using act_inv_record [OF that] that by (intro act_inv_write) (simp_all add: serial_inv_def)
  show ?thesis
    using assms
    by (auto simp: register_reply_def Let_def intro!: act_inv_seq wr act_inv_ops split: option.split json.split)
qed

lemma ensure_vz_install_registered_inv [inv_pres]:
  "act_inv w \<Longrightarrow> act_inv (snd (ensure_vz_install_registered tr k a i w))"
  unfolding ensure_vz_install_registered_def Let_def
  by (auto intro: inv_pres split: prod.split http_outcome.split)

lemma poll_status_inv [inv_pres]: "act_inv w \<Longrightarrow> act_inv (snd (poll_status tr cfg now w))"
  unfolding poll_status_def Let_def
  by (auto intro!: inv_pres)

lemma background_step_inv: "act_inv w \<Longrightarrow> act_inv (background_step tr cfg now w)"
  by (auto simp: background_step_def auto_provision_inv inv_pres split: serial_status.split)

section \<open>Lifecycles\<close>

text \<open>
  A boot is a new process: the store reads the file (or the environment when there is none) before the startup runs, and
  the background task of the old process is gone. When the file cannot be written from the environment, the constructor
  raises and the process does not come up. An iteration of the background loop happens only while its task runs.
\<close>

datatype 'w act_event = Boot string string "'w transport" act_config | Tick "'w transport" act_config string

definition boot :: "string \<Rightarrow> string \<Rightarrow> 'w transport \<Rightarrow> act_config \<Rightarrow> 'w act_world \<Rightarrow> 'w act_world" where
  "boot env_serial env_bootstrap tr cfg w =
     (case open_store env_serial env_bootstrap (disk (aw_store w)) (io (aw_store w)) of
        (Inl e, s) \<Rightarrow> w\<lparr>aw_store := s, aw_background := False\<rparr>
      | (Inr u, s) \<Rightarrow> snd (startup tr cfg (w\<lparr>aw_store := s, aw_background := False\<rparr>)))"

fun act_step :: "'w act_world \<Rightarrow> 'w act_event \<Rightarrow> 'w act_world" where
  "act_step w (Boot env_serial env_bootstrap tr cfg) = boot env_serial env_bootstrap tr cfg w"
| "act_step w (Tick tr cfg now) = (if aw_background w then background_step tr cfg now w else w)"

definition fresh_world :: "bool list \<Rightarrow> 'w \<Rightarrow> 'w act_world" where
  "fresh_world faults n = \<lparr>aw_store = fresh_store faults, aw_net = n, aw_configs = [], aw_background = False\<rparr>"

lemma startup_provision_inv [inv_pres]:
  "act_inv w \<Longrightarrow> act_inv (snd (startup_provision tr cfg w))"
  using auto_provision_inv [of w tr cfg]
  using act_inv_write [of w "\<lambda>x. x\<lparr>sstate := PROVISIONED\<rparr>"] act_inv_record [of w]
  by (auto simp: startup_provision_def serial_inv_def)

lemma startup_activate_inv [inv_pres]: "act_inv w \<Longrightarrow> act_inv (snd (startup_activate tr cfg w))"
  by (simp add: startup_activate_def attempt_activation_inv)

lemma startup_refresh_inv [inv_pres]: "act_inv w \<Longrightarrow> act_inv (snd (startup_refresh tr cfg w))"
  unfolding startup_refresh_def by (auto intro!: inv_pres)

lemma start_background_inv [inv_pres]: "act_inv w \<Longrightarrow> act_inv (snd (start_background w))"
  by (simp add: start_background_def act_inv_def)

lemma startup_inv [inv_pres]: "act_inv w \<Longrightarrow> act_inv (snd (startup tr cfg w))"
  unfolding startup_def by (auto intro!: inv_pres)

text \<open>Whatever the environment holds, opening a file that is absent or well formed gives a well-formed store.\<close>

lemma open_store_inv: "disk_inv d \<Longrightarrow> store_inv (snd (open_store es eb d v))"
  by (cases d)
    (auto simp: open_store_def load_def store_inv_def serial_inv_default disk_inv_def save_def file_of_def Let_def serial_inv_def
      default_state_def split: list.split)

lemma boot_inv:
  assumes "act_inv w" shows "act_inv (boot es eb tr cfg w)"
proof -
  obtain r s where o: "open_store es eb (disk (aw_store w)) (io (aw_store w)) = (r, s)" by fastforce
  have "store_inv s" using open_store_inv [of "disk (aw_store w)" es eb "io (aw_store w)"] assms o
    by (simp add: act_inv_def store_inv_def)
  then have "act_inv (w\<lparr>aw_store := s, aw_background := False\<rparr>)" by (simp add: act_inv_def)
  then show ?thesis by (auto simp: boot_def o startup_inv split: sum.split)
qed

lemma act_step_inv: "act_inv w \<Longrightarrow> act_inv (act_step w e)"
  by (cases e) (simp_all add: boot_inv background_step_inv)

lemma fresh_world_inv: "act_inv (fresh_world faults n)"
  using fresh_store_inv [of faults] by (simp add: act_inv_def fresh_world_def)

interpretation lifecycle: step_system "fresh_world faults n" act_step act_inv for faults n
  by unfold_locales (simp_all add: fresh_world_inv act_step_inv)

text \<open>A provisioned record without a bootstrap token, saved to its file, is a fixed point of the lifecycle.\<close>

definition stuck :: "serial_state \<Rightarrow> 'w act_world \<Rightarrow> bool" where
  "stuck x w \<longleftrightarrow> sstate x = PROVISIONED \<and> \<not> truthy (bootstrap_token x) \<and> astate w = x \<and> disk (aw_store w) = file_of x"

lemma open_file: "open_store es eb (file_of x) v = (Inr (), \<lparr>st = x, disk = file_of x, io = v\<rparr>)"
  by (simp add: open_store_def load_def file_of_def)

lemma stuck_step: "stuck x w \<Longrightarrow> stuck x (act_step w e)"
  by (cases e) (auto simp: stuck_def boot_def open_file startup_def startup_provision_def startup_activate_def startup_refresh_def
        start_background_def attempt_activation_def background_step_def seq_cases)

lemma stuck_run: "stuck x w \<Longrightarrow> stuck x (foldl act_step w es)"
  by (induction es arbitrary: w) (auto intro: stuck_step)

lemma refresh_rejected:
  assumes "sstate (astate w) \<noteq> PROVISIONED"
    and "sstate (astate (snd (attempt_refresh tr cfg w))) = PROVISIONED"
  shows "astate (snd (attempt_refresh tr cfg w)) = (astate w)\<lparr>sstate := PROVISIONED, install_token := None\<rparr>"
  using assms
  by (auto simp: attempt_refresh_def call_client_def seq_cases swallow_def write_allie_config_def
      split: if_splits prod.splits sum.splits)

section \<open>Properties\<close>

text \<open>C22: whatever ai.market answers and whichever file writes fail, every sequence of boots (each of which reads the file
  again, or the environment when there is none) and background iterations on a fresh install keeps both the record in
  memory and the record in the file well formed; in particular an activated record always has an install token and no
  bootstrap token, and what a boot loads is never a record caught in mid-transition.\<close>

theorem lifecycle_invariant:
  "act_inv (foldl act_step (fresh_world faults n) events)"
  by (rule lifecycle.run_inv)

text \<open>Also: once ai.market has rejected the token refresh of an activated install and that was saved, no later boot or
  background iteration changes the record again, whatever ai.market answers: the record stays
  PROVISIONED with neither an install token nor a bootstrap token to activate with.\<close>

theorem refresh_rejection_is_final:
  assumes "act_inv w" and "sstate (astate w) \<in> {ACTIVE, DEGRADED}"
    and "sstate (astate (snd (attempt_refresh tr cfg w))) = PROVISIONED"
    and "disk (aw_store (snd (attempt_refresh tr cfg w))) = file_of (astate (snd (attempt_refresh tr cfg w)))"
  shows "astate (foldl act_step (snd (attempt_refresh tr cfg w)) events)
           = (astate w)\<lparr>sstate := PROVISIONED, install_token := None\<rparr> \<and>
         bootstrap_token (astate w) = None"
proof -
  have b: "bootstrap_token (astate w) = None"
    using act_inv_record [OF assms(1)] assms(2) by (auto simp: serial_inv_def)
  have r: "astate (snd (attempt_refresh tr cfg w)) = (astate w)\<lparr>sstate := PROVISIONED, install_token := None\<rparr>"
    using assms(2,3) by (intro refresh_rejected) auto
  have "stuck (astate (snd (attempt_refresh tr cfg w))) (snd (attempt_refresh tr cfg w))"
    using assms(4) b by (simp add: stuck_def r)
  then have "stuck (astate (snd (attempt_refresh tr cfg w))) (foldl act_step (snd (attempt_refresh tr cfg w)) events)"
    by (rule stuck_run)
  then show ?thesis using b r by (simp add: stuck_def)
qed

definition sample_config :: act_config where
  "sample_config = \<lparr>ac_instance_id = ''vz-host'', ac_hostname = ''host'', ac_app_version = ''2'',
     ac_keystore_passphrase = None, ac_public_key = ''k''\<rparr>"

definition sample_active :: "http_outcome list \<Rightarrow> http_outcome list act_world" where
  "sample_active script = (fresh_world [] script)\<lparr>aw_store :=
     \<lparr>st = default_state\<lparr>serial := ''VZ-1'', sstate := ACTIVE, install_token := Some ''t''\<rparr>,
      disk = NoFile, io = []\<rparr>\<rparr>"

theorem refresh_rejection_is_final_witness:
  "sstate (astate (foldl act_step (snd (attempt_refresh scripted sample_config
      (sample_active [HttpResponse 401 None]))) [Boot [] [] scripted sample_config, Tick scripted sample_config ''now'']))
    = PROVISIONED"
proof -
  have i: "act_inv (sample_active [HttpResponse 401 None])"
    by (simp add: act_inv_def store_inv_def disk_inv_def serial_inv_def sample_active_def default_state_def FAILURE_THRESHOLD_def)
  have a: "sstate (astate (sample_active [HttpResponse 401 None])) \<in> {ACTIVE, DEGRADED}"
    by (simp add: sample_active_def)
  have p: "sstate (astate (snd (attempt_refresh scripted sample_config (sample_active [HttpResponse 401 None])))) = PROVISIONED"
    by code_simp
  have d: "disk (aw_store (snd (attempt_refresh scripted sample_config (sample_active [HttpResponse 401 None])))) =
      file_of (astate (snd (attempt_refresh scripted sample_config (sample_active [HttpResponse 401 None]))))"
    by code_simp
  show ?thesis
    using refresh_rejection_is_final [OF i a p d,
        of "[Boot [] [] scripted sample_config, Tick scripted sample_config ''now'']"]
    by (elim conjE, erule_tac arg_cong [where f = sstate, THEN trans]) simp
qed

end
