(* ===== verification/Deduction_Queue.thy ===== *)
theory Deduction_Queue
  imports Prelude Serial_Client "HOL-Library.Multiset"
begin

text \<open>
  The persistent queue of credit deductions, \<open>app/services/deduction_queue.py\<close>: the table with
  its unique idempotency key, the claim of a batch, what a worker writes back for each reply,
  the requeue of rows whose backoff is over, the lease monitor, the marks made by the metering
  service and the reconciliation query. A database transaction is one step; a row locked by
  another transaction is skipped by the claim. The state is the table, the items the workers
  hold and the row ids sent so far.
\<close>

section \<open>The table\<close>

datatype ded_status = Pending | Processing | Completed | FailedTerminal | FailedRetryable | DeadLetter

record deduct_payload =
  pl_user_id :: string
  pl_amount_cents :: int
  pl_service :: string
  pl_tokens_in :: int
  pl_tokens_out :: int
  pl_model :: string
  pl_markup_rate :: string
  pl_idempotency_key :: string

record deduction =
  d_id :: nat
  d_user_id :: string
  d_key :: string
  d_payload :: deduct_payload
  d_created_at :: time
  d_next_retry_at :: time
  d_attempts :: nat
  d_last_error :: "string option"
  d_status :: ded_status
  d_worker :: "string option"
  d_leased_at :: "time option"

record ded_table =
  rows :: "deduction list"
  next_id :: nat

definition MAX_ATTEMPTS :: nat where "MAX_ATTEMPTS = 5"

definition MAX_BACKOFF :: int where "MAX_BACKOFF = 300"

definition LEASE_TTL :: int where "LEASE_TTL = 300"

definition CLAIM_BATCH_SIZE :: nat where "CLAIM_BATCH_SIZE = 10"

text \<open>\<open>jitter\<close> is what \<open>random.uniform(0, 2 * attempt_count)\<close> returned, in microseconds.\<close>

definition calculate_backoff :: "nat \<Rightarrow> time \<Rightarrow> time" where
  "calculate_backoff attempt_count jitter = seconds (min MAX_BACKOFF (5 * 2 ^ attempt_count)) + jitter"

definition enqueue :: "deduct_payload \<Rightarrow> time \<Rightarrow> ded_table \<Rightarrow> bool \<times> ded_table" where
  "enqueue payload now t =
     (if \<exists>r \<in> set (rows t). d_key r = pl_idempotency_key payload then (False, t)
      else (True, t\<lparr>rows := rows t @ [\<lparr>d_id = next_id t, d_user_id = pl_user_id payload,
               d_key = pl_idempotency_key payload, d_payload = payload, d_created_at = now,
               d_next_retry_at = now, d_attempts = 0, d_last_error = None, d_status = Pending,
               d_worker = None, d_leased_at = None\<rparr>],
             next_id := Suc (next_id t)\<rparr>))"

section \<open>Claiming a batch\<close>

record ded_item =
  i_id :: nat
  i_payload :: deduct_payload
  i_attempts :: nat
  i_key :: string

definition item_of :: "deduction \<Rightarrow> ded_item" where
  "item_of r = \<lparr>i_id = d_id r, i_payload = d_payload r, i_attempts = d_attempts r, i_key = d_key r\<rparr>"

definition claimable :: "time \<Rightarrow> nat list \<Rightarrow> deduction \<Rightarrow> bool" where
  "claimable now locked r \<longleftrightarrow> d_status r = Pending \<and> d_next_retry_at r \<le> now \<and> d_id r \<notin> set locked"

definition claimed_ids :: "time \<Rightarrow> nat list \<Rightarrow> deduction list \<Rightarrow> nat list" where
  "claimed_ids now locked rs =
     map d_id (take CLAIM_BATCH_SIZE (sort_key d_created_at (filter (claimable now locked) rs)))"

definition claim_batch ::
  "string \<Rightarrow> time \<Rightarrow> nat list \<Rightarrow> deduction list \<Rightarrow> ded_item list \<times> deduction list" where
  "claim_batch worker_id now locked rs =
     (let ids = claimed_ids now locked rs in
      if ids = [] then ([], rs)
      else let rs' = update_where (\<lambda>r. d_id r \<in> set ids)
                       (\<lambda>r. r\<lparr>d_status := Processing, d_worker := Some worker_id, d_leased_at := Some now\<rparr>) rs
           in (map item_of (sort_key d_created_at (filter (\<lambda>r. d_id r \<in> set ids) rs')), rs'))"

section \<open>Sending\<close>

text \<open>\<open>_attempt_send\<close>: success, response data, retryable, status code (0 for a network error).\<close>

definition classify_send :: "http_outcome \<Rightarrow> bool \<times> json \<times> bool \<times> int" where
  "classify_send reply = (case reply of
       HttpError \<Rightarrow> (False, JObj [], True, 0)
     | HttpResponse status_code None \<Rightarrow>
         (if 500 \<le> status_code \<and> status_code < 600 then (False, JObj [], True, status_code)
          else (False, JObj [], False, status_code))
     | HttpResponse status_code (Some data) \<Rightarrow>
         (if status_code = 200 then (True, data, False, status_code)
          else if status_code = 402 then (False, data, False, status_code)
          else if status_code \<in> {400, 401, 403, 404} then (False, data, False, status_code)
          else if 500 \<le> status_code \<and> status_code < 600 then (False, data, True, status_code)
          else (False, data, False, status_code)))"

definition http_text :: "int \<Rightarrow> string \<Rightarrow> string" where
  "http_text status_code other = (if status_code \<noteq> 0 then ''HTTP '' @ show_int status_code else other)"

text \<open>The transaction that records one reply; \<open>now\<close> and \<open>jitter\<close> are used by the backoff.\<close>

definition settle :: "ded_item \<Rightarrow> http_outcome \<Rightarrow> time \<Rightarrow> time \<Rightarrow> deduction list \<Rightarrow> bool \<times> deduction list" where
  "settle item reply now jitter rs =
     (case classify_send reply of (sent, data, retryable, status_code) \<Rightarrow>
        (if sent
         then (True, update_where (\<lambda>r. d_id r = i_id item) (\<lambda>r. r\<lparr>d_status := Completed\<rparr>) rs)
         else if \<not> retryable
         then (False, update_where (\<lambda>r. d_id r = i_id item)
                (\<lambda>r. r\<lparr>d_status := FailedTerminal,
                       d_last_error := Some (if status_code = 402 then ''insufficient_funds''
                                             else http_text status_code ''permanent_error'')\<rparr>) rs)
         else let new_attempt = i_attempts item + 1 in
           (if new_attempt \<ge> MAX_ATTEMPTS
            then (False, update_where (\<lambda>r. d_id r = i_id item)
                   (\<lambda>r. r\<lparr>d_status := DeadLetter, d_attempts := new_attempt,
                          d_last_error := Some (''max_attempts ('' @ show_nat MAX_ATTEMPTS @ '')'')\<rparr>) rs)
            else (False, update_where (\<lambda>r. d_id r = i_id item)
                   (\<lambda>r. r\<lparr>d_status := FailedRetryable, d_attempts := new_attempt,
                          d_next_retry_at := now + calculate_backoff new_attempt jitter,
                          d_last_error := Some (http_text status_code ''network_error'')\<rparr>) rs))))"

definition requeue :: "time \<Rightarrow> deduction list \<Rightarrow> deduction list" where
  "requeue now = update_where
     (\<lambda>r. d_status r = FailedRetryable \<and> d_next_retry_at r \<le> now \<and> d_attempts r < MAX_ATTEMPTS)
     (\<lambda>r. r\<lparr>d_status := Pending\<rparr>)"

text \<open>The replies a cycle gets, each with the clock and jitter at that point; a cycle that gets
  fewer replies than it holds items was cut off.\<close>

type_synonym reply_at = "http_outcome \<times> time \<times> time"

fun settle_items :: "ded_item list \<Rightarrow> reply_at list \<Rightarrow> deduction list \<Rightarrow> nat option \<times> deduction list" where
  "settle_items [] replies rs = (Some 0, rs)"
| "settle_items (item # items) [] rs = (None, rs)"
| "settle_items (item # items) ((reply, now, jitter) # replies) rs =
     (case settle item reply now jitter rs of (sent, rs') \<Rightarrow>
        (case settle_items items replies rs' of (n, rs'') \<Rightarrow>
           (map_option (\<lambda>k. if sent then Suc k else k) n, rs'')))"

definition process_all_pending ::
  "string \<Rightarrow> time \<Rightarrow> nat list \<Rightarrow> reply_at list \<Rightarrow> time \<Rightarrow> deduction list \<Rightarrow> nat option \<times> deduction list" where
  "process_all_pending worker_id now locked replies finish rs =
     (case claim_batch worker_id now locked rs of (items, rs1) \<Rightarrow>
        if items = [] then (Some 0, rs1)
        else (case settle_items items replies rs1 of
                (None, rs2) \<Rightarrow> (None, rs2)
              | (Some processed, rs2) \<Rightarrow> (Some processed, requeue finish rs2)))"

section \<open>The lease monitor\<close>

definition lease_expired :: "time \<Rightarrow> deduction \<Rightarrow> bool" where
  "lease_expired now r \<longleftrightarrow> d_status r = Processing \<and>
     (case d_leased_at r of None \<Rightarrow> False | Some t \<Rightarrow> t \<le> now - seconds LEASE_TTL)"

definition expire_leases :: "time \<Rightarrow> deduction list \<Rightarrow> deduction list" where
  "expire_leases now = update_where (lease_expired now)
     (\<lambda>r. r\<lparr>d_status := Pending, d_worker := None, d_leased_at := None, d_attempts := d_attempts r + 1,
            d_last_error := Some ''lease_expired''\<rparr>)"

definition bury_expired :: "deduction list \<Rightarrow> deduction list" where
  "bury_expired = update_where (\<lambda>r. d_status r = Pending \<and> d_attempts r \<ge> MAX_ATTEMPTS)
     (\<lambda>r. r\<lparr>d_status := DeadLetter, d_last_error := Some ''max_attempts after lease expiry''\<rparr>)"

definition monitor_expired_leases :: "time \<Rightarrow> deduction list \<Rightarrow> nat \<times> deduction list" where
  "monitor_expired_leases now rs =
     (let reset_count = rowcount (lease_expired now) rs; rs' = expire_leases now rs
      in if reset_count > 0 then (reset_count, bury_expired rs') else (reset_count, rs'))"

section \<open>Marks, metrics and the reconciliation query\<close>

definition mark_completed :: "string \<Rightarrow> deduction list \<Rightarrow> deduction list" where
  "mark_completed key = update_where (\<lambda>r. d_key r = key \<and> d_status r \<in> {Pending, Processing})
     (\<lambda>r. r\<lparr>d_status := Completed\<rparr>)"

definition mark_failed_terminal :: "string \<Rightarrow> string \<Rightarrow> deduction list \<Rightarrow> deduction list" where
  "mark_failed_terminal key err = update_where (\<lambda>r. d_key r = key \<and> d_status r \<in> {Pending, Processing})
     (\<lambda>r. r\<lparr>d_status := FailedTerminal, d_last_error := Some err\<rparr>)"

record ded_metrics =
  queue_depth_pending :: nat
  in_flight_processing :: nat
  dead_letter_count :: nat
  completed_count :: nat
  failed_terminal_count :: nat
  failed_retryable_count :: nat

definition get_metrics :: "deduction list \<Rightarrow> ded_metrics" where
  "get_metrics rs =
     \<lparr>queue_depth_pending = rowcount (\<lambda>r. d_status r = Pending) rs,
      in_flight_processing = rowcount (\<lambda>r. d_status r = Processing) rs,
      dead_letter_count = rowcount (\<lambda>r. d_status r = DeadLetter) rs,
      completed_count = rowcount (\<lambda>r. d_status r = Completed) rs,
      failed_terminal_count = rowcount (\<lambda>r. d_status r = FailedTerminal) rs,
      failed_retryable_count = rowcount (\<lambda>r. d_status r = FailedRetryable) rs\<rparr>"

definition depth_alerts :: "deduction list \<Rightarrow> bool \<times> bool" where
  "depth_alerts rs = (dead_letter_count (get_metrics rs) > 0, queue_depth_pending (get_metrics rs) > 100)"

definition get_completed_last_24h :: "time \<Rightarrow> deduction list \<Rightarrow> deduction list" where
  "get_completed_last_24h now rs = sort_key d_created_at
     (filter (\<lambda>r. d_status r = Completed \<and> now - seconds (24 * 3600) \<le> d_created_at r) rs)"


section \<open>Workers and transactions in any order\<close>

text \<open>
  The transactions of any number of workers, of the monitor and of the metering service,
  interleaved: a claim hands its items to a worker; a held item is settled (its request was
  sent) or dropped by a worker that died after sending it. \<open>sends\<close> records the row of every
  request.
\<close>

record ded_world =
  table :: ded_table
  held :: "ded_item list"
  sends :: "nat list"

datatype ded_event =
    Enqueue deduct_payload time
  | Claim string time "nat list"
  | Settle nat http_outcome time time
  | Crash nat
  | Requeue time
  | ExpireLeases time
  | BuryExpired
  | MarkCompleted string
  | MarkFailedTerminal string string

definition on_rows :: "(deduction list \<Rightarrow> deduction list) \<Rightarrow> ded_world \<Rightarrow> ded_world" where
  "on_rows f w = w\<lparr>table := (table w)\<lparr>rows := f (rows (table w))\<rparr>\<rparr>"

definition drop_nth :: "nat \<Rightarrow> 'a list \<Rightarrow> 'a list" where
  "drop_nth i xs = take i xs @ drop (Suc i) xs"

definition release :: "nat \<Rightarrow> ded_world \<Rightarrow> ded_world" where
  "release i w = w\<lparr>held := drop_nth i (held w), sends := sends w @ [i_id (held w ! i)]\<rparr>"

fun ded_step :: "ded_world \<Rightarrow> ded_event \<Rightarrow> ded_world" where
  "ded_step w (Enqueue p now) = w\<lparr>table := snd (enqueue p now (table w))\<rparr>"
| "ded_step w (Claim worker now locked) =
     (case claim_batch worker now locked (rows (table w)) of
        (items, rs) \<Rightarrow> on_rows (\<lambda>_. rs) (w\<lparr>held := held w @ items\<rparr>))"
| "ded_step w (Settle i reply now jitter) =
     (if i < length (held w)
      then release i (on_rows (\<lambda>rs. snd (settle (held w ! i) reply now jitter rs)) w) else w)"
| "ded_step w (Crash i) = (if i < length (held w) then release i w else w)"
| "ded_step w (Requeue now) = on_rows (requeue now) w"
| "ded_step w (ExpireLeases now) = on_rows (expire_leases now) w"
| "ded_step w BuryExpired = on_rows bury_expired w"
| "ded_step w (MarkCompleted key) = on_rows (mark_completed key) w"
| "ded_step w (MarkFailedTerminal key err) = on_rows (mark_failed_terminal key err) w"

definition empty_world :: ded_world where
  "empty_world = \<lparr>table = \<lparr>rows = [], next_id = 0\<rparr>, held = [], sends = []\<rparr>"

definition is_expiry :: "ded_event \<Rightarrow> bool" where
  "is_expiry e = (case e of ExpireLeases _ \<Rightarrow> True | _ \<Rightarrow> False)"

section \<open>Keys and identities\<close>

definition table_inv :: "ded_table \<Rightarrow> bool" where
  "table_inv t \<longleftrightarrow> distinct (map d_id (rows t)) \<and> distinct (map d_key (rows t)) \<and>
     (\<forall>r \<in> set (rows t). d_id r < next_id t \<and> d_key r = pl_idempotency_key (d_payload r) \<and>
        (d_status r = FailedRetryable \<longrightarrow> d_attempts r < MAX_ATTEMPTS) \<and>
        (d_status r = DeadLetter \<longrightarrow> MAX_ATTEMPTS \<le> d_attempts r))"

text \<open>A row's identity columns.\<close>

definition identity :: "deduction \<Rightarrow> nat \<times> string \<times> string \<times> deduct_payload \<times> time" where
  "identity r = (d_id r, d_user_id r, d_key r, d_payload r, d_created_at r)"

lemma identity_columns:
  "map d_id rs = map fst (map identity rs)" "map d_key rs = map (\<lambda>x. fst (snd (snd x))) (map identity rs)"
  by (simp_all add: identity_def)

lemma identity_keeps:
  assumes "map identity xs = map identity ys"
  shows "map d_id xs = map d_id ys" "map d_key xs = map d_key ys"
  by (simp_all only: identity_columns assms)

lemma update_where_identity:
  "(\<And>r. identity (f r) = identity r) \<Longrightarrow> map identity (update_where p f rs) = map identity rs"
  by (rule map_update_where_key)

lemma settle_identity: "map identity (snd (settle item reply now jitter rs)) = map identity rs"
  by (auto simp: settle_def Let_def identity_def split: prod.split intro!: update_where_identity)

lemma claim_identity: "map identity (snd (claim_batch worker now locked rs)) = map identity rs"
  by (auto simp: claim_batch_def Let_def identity_def intro!: update_where_identity)

lemma other_identity:
  "map identity (requeue now rs) = map identity rs"
  "map identity (expire_leases now rs) = map identity rs"
  "map identity (bury_expired rs) = map identity rs"
  "map identity (mark_completed key rs) = map identity rs"
  "map identity (mark_failed_terminal key err rs) = map identity rs"
  by (auto simp: requeue_def expire_leases_def bury_expired_def mark_completed_def
      mark_failed_terminal_def identity_def intro!: update_where_identity)

lemmas row_identity = settle_identity claim_identity other_identity

lemma table_inv_rows:
  assumes "table_inv t" "map identity rs = map identity (rows t)"
    and "\<And>r. r \<in> set rs \<Longrightarrow> (d_status r = FailedRetryable \<longrightarrow> d_attempts r < MAX_ATTEMPTS) \<and>
          (d_status r = DeadLetter \<longrightarrow> MAX_ATTEMPTS \<le> d_attempts r)"
  shows "table_inv (t\<lparr>rows := rs\<rparr>)"
proof -
  have cols: "map d_id rs = map d_id (rows t)" "map d_key rs = map d_key (rows t)"
    using identity_keeps [OF assms(2)] by auto
  have "identity ` set rs = identity ` set (rows t)"
    using assms(2) by (metis list.set_map)
  then have "\<exists>q \<in> set (rows t). identity r = identity q" if "r \<in> set rs" for r
    using that by blast
  then have "d_id r < next_id t \<and> d_key r = pl_idempotency_key (d_payload r)" if "r \<in> set rs" for r
    using that assms(1) by (fastforce simp: table_inv_def identity_def)
  with assms(1,3) cols show ?thesis by (simp add: table_inv_def)
qed

definition attempts_ok :: "deduction \<Rightarrow> bool" where
  "attempts_ok r \<longleftrightarrow> (d_status r = FailedRetryable \<longrightarrow> d_attempts r < MAX_ATTEMPTS) \<and>
     (d_status r = DeadLetter \<longrightarrow> MAX_ATTEMPTS \<le> d_attempts r)"

lemma attempts_ok_rows:
  assumes "\<forall>r \<in> set rs. attempts_ok r"
  shows "\<forall>r \<in> set (snd (settle item reply now jitter rs)). attempts_ok r"
    "\<forall>r \<in> set (snd (claim_batch worker now locked rs)). attempts_ok r"
    "\<forall>r \<in> set (requeue now rs). attempts_ok r" "\<forall>r \<in> set (expire_leases now rs). attempts_ok r"
    "\<forall>r \<in> set (bury_expired rs). attempts_ok r" "\<forall>r \<in> set (mark_completed key rs). attempts_ok r"
    "\<forall>r \<in> set (mark_failed_terminal key err rs). attempts_ok r"
proof -
  have upd: "\<forall>r \<in> set (update_where p f rs). attempts_ok r" if "\<And>r. attempts_ok r \<Longrightarrow> p r \<Longrightarrow> attempts_ok (f r)" for p f
    using assms that by (rule update_where_all)
  show "\<forall>r \<in> set (snd (settle item reply now jitter rs)). attempts_ok r"
    using assms by (auto simp: settle_def Let_def attempts_ok_def set_update_where split: prod.split)
  show "\<forall>r \<in> set (snd (claim_batch worker now locked rs)). attempts_ok r"
    using assms by (auto simp: claim_batch_def Let_def attempts_ok_def set_update_where)
qed (use assms in \<open>auto simp: requeue_def expire_leases_def bury_expired_def mark_completed_def
      mark_failed_terminal_def attempts_ok_def set_update_where\<close>)

lemma table_inv_attempts: "table_inv t \<Longrightarrow> \<forall>r \<in> set (rows t). attempts_ok r"
  by (simp add: table_inv_def attempts_ok_def)

lemma table_inv_on_rows:
  assumes "table_inv (table w)" "map identity (f (rows (table w))) = map identity (rows (table w))"
    "\<forall>r \<in> set (f (rows (table w))). attempts_ok r"
  shows "table_inv (table (on_rows f w))"
  using assms by (auto simp: on_rows_def attempts_ok_def intro!: table_inv_rows)

lemma release_table [simp]: "table (release i w) = table w"
  by (simp add: release_def)

lemma enqueue_inv: "table_inv t \<Longrightarrow> table_inv (snd (enqueue p now t))"
  by (auto simp: enqueue_def table_inv_def less_Suc_eq)

lemma ded_step_table_inv: "table_inv (table w) \<Longrightarrow> table_inv (table (ded_step w e))"
proof (cases e)
  case (Claim worker now locked)
  moreover assume "table_inv (table w)"
  ultimately show ?thesis
    using attempts_ok_rows(2) [OF table_inv_attempts] claim_identity
    by (auto simp: split_beta intro!: table_inv_on_rows)
qed (simp_all add: enqueue_inv row_identity attempts_ok_rows [OF table_inv_attempts] table_inv_on_rows)

interpretation ded_tables: step_system empty_world ded_step "\<lambda>w. table_inv (table w)"
  by unfold_locales (simp add: empty_world_def table_inv_def, erule ded_step_table_inv)

section \<open>Leases that do not expire\<close>

text \<open>
  What holds of every row while no lease expires: a held row is Processing (or was marked by
  the metering service) with the attempt count its worker saw, and the requests sent for a row
  are bounded by its attempt count.
\<close>

definition row_ok :: "ded_item list \<Rightarrow> nat list \<Rightarrow> deduction \<Rightarrow> bool" where
  "row_ok hs ss r \<longleftrightarrow>
     count_list ss (d_id r) \<le> d_attempts r +
        (if d_id r \<notin> i_id ` set hs \<and> d_status r \<in> {Processing, Completed, FailedTerminal} then 1 else 0) \<and>
     d_attempts r \<le> MAX_ATTEMPTS \<and> (d_status r \<noteq> DeadLetter \<longrightarrow> d_attempts r < MAX_ATTEMPTS) \<and>
     (\<forall>item \<in> set hs. i_id item = d_id r \<longrightarrow>
        d_status r \<in> {Processing, Completed, FailedTerminal} \<and> i_attempts item = d_attempts r \<and>
        i_key item = d_key r)"

definition lease_inv :: "ded_world \<Rightarrow> bool" where
  "lease_inv w \<longleftrightarrow> table_inv (table w) \<and> distinct (map i_id (held w)) \<and>
     i_id ` set (held w) \<subseteq> d_id ` set (rows (table w)) \<and> set (sends w) \<subseteq> d_id ` set (rows (table w)) \<and>
     (\<forall>r \<in> set (rows (table w)). row_ok (held w) (sends w) r)"

lemma lease_inv_on_rows:
  assumes "lease_inv w" "table_inv (table (on_rows f w))"
    and "map d_id (f (rows (table w))) = map d_id (rows (table w))"
    and "\<forall>r \<in> set (f (rows (table w))). row_ok (held w) (sends w) r"
  shows "lease_inv (on_rows f w)"
proof -
  have "d_id ` set (f (rows (table w))) = d_id ` set (rows (table w))"
    using assms(3) by (metis list.set_map)
  with assms show ?thesis by (simp add: lease_inv_def on_rows_def)
qed

lemma row_ok_updates:
  assumes "row_ok hs ss r"
  shows "d_status r = FailedRetryable \<Longrightarrow> row_ok hs ss (r\<lparr>d_status := Pending\<rparr>)"
    and "d_status r = Pending \<Longrightarrow> MAX_ATTEMPTS \<le> d_attempts r \<Longrightarrow>
      row_ok hs ss (r\<lparr>d_status := DeadLetter, d_last_error := x\<rparr>)"
    and "d_status r \<in> {Pending, Processing} \<Longrightarrow> row_ok hs ss (r\<lparr>d_status := Completed\<rparr>)"
    and "d_status r \<in> {Pending, Processing} \<Longrightarrow>
      row_ok hs ss (r\<lparr>d_status := FailedTerminal, d_last_error := x\<rparr>)"
  using assms by (auto simp: row_ok_def split: if_splits)

lemma rows_ok_updates:
  assumes "\<forall>r \<in> set rs. row_ok hs ss r"
  shows "\<forall>r \<in> set (requeue now rs). row_ok hs ss r" "\<forall>r \<in> set (bury_expired rs). row_ok hs ss r"
    "\<forall>r \<in> set (mark_completed key rs). row_ok hs ss r"
    "\<forall>r \<in> set (mark_failed_terminal key err rs). row_ok hs ss r"
  using assms unfolding requeue_def bury_expired_def mark_completed_def mark_failed_terminal_def
  by (auto simp: set_update_where row_ok_updates)

lemma set_drop_nth:
  assumes "distinct xs" "i < length xs"
  shows "set (drop_nth i xs) = set xs - {xs ! i}" "distinct (drop_nth i xs)"
proof -
  have x: "xs = take i xs @ xs ! i # drop (Suc i) xs" using assms(2) by (rule id_take_nth_drop)
  then have d: "distinct (take i xs @ xs ! i # drop (Suc i) xs)" using assms(1) by simp
  show "set (drop_nth i xs) = set xs - {xs ! i}"
  proof -
    have "set xs = insert (xs ! i) (set (take i xs) \<union> set (drop (Suc i) xs))"
      by (subst x) simp
    then show ?thesis using d by (auto simp: drop_nth_def)
  qed
  show "distinct (drop_nth i xs)" using d by (simp add: drop_nth_def)
qed

lemma map_drop_nth: "map f (drop_nth i xs) = drop_nth i (map f xs)"
  by (simp add: drop_nth_def take_map drop_map)

lemma held_drop_nth:
  assumes "distinct (map i_id hs)" "i < length hs"
  shows "i_id ` set (drop_nth i hs) = i_id ` set hs - {i_id (hs ! i)}" "distinct (map i_id (drop_nth i hs))"
    and "set (drop_nth i hs) \<subseteq> set hs"
proof -
  have "set (map i_id (drop_nth i hs)) = set (map i_id hs) - {map i_id hs ! i}"
    unfolding map_drop_nth using assms by (intro set_drop_nth) auto
  then show "i_id ` set (drop_nth i hs) = i_id ` set hs - {i_id (hs ! i)}" using assms(2) by simp
  show "distinct (map i_id (drop_nth i hs))"
    unfolding map_drop_nth using assms by (intro set_drop_nth) auto
  show "set (drop_nth i hs) \<subseteq> set hs"
    by (auto simp: drop_nth_def dest: in_set_takeD in_set_dropD)
qed

lemma row_ok_release:
  assumes "row_ok hs ss r" "distinct (map i_id hs)" "i < length hs" "d_id r \<noteq> i_id (hs ! i)"
  shows "row_ok (drop_nth i hs) (ss @ [i_id (hs ! i)]) r"
proof -
  have ids: "(d_id r \<in> i_id ` set (drop_nth i hs)) = (d_id r \<in> i_id ` set hs)"
    using held_drop_nth(1) [OF assms(2,3)] assms(4) by simp
  have cnt: "count_list (ss @ [i_id (hs ! i)]) (d_id r) = count_list ss (d_id r)"
    using assms(4) by simp
  show ?thesis
    using assms(1) held_drop_nth(3) [OF assms(2,3)] unfolding row_ok_def ids cnt by blast
qed

text \<open>A held row after its worker let it go, with its request counted.\<close>

lemma row_ok_let_go:
  assumes "row_ok hs ss r" "distinct (map i_id hs)" "i < length hs" "d_id r = i_id (hs ! i)"
  shows "d_id r \<notin> i_id ` set (drop_nth i hs)" "d_attempts r < MAX_ATTEMPTS"
    and "d_attempts r = i_attempts (hs ! i)"
    and "count_list (ss @ [i_id (hs ! i)]) (d_id r) \<le> Suc (d_attempts r)"
    and "d_status r \<in> {Processing, Completed, FailedTerminal}"
proof -
  have m: "hs ! i \<in> set hs" using assms(3) by simp
  show "d_id r \<notin> i_id ` set (drop_nth i hs)"
    using held_drop_nth(1) [OF assms(2,3)] assms(4) by auto
  show "d_attempts r = i_attempts (hs ! i)" and st: "d_status r \<in> {Processing, Completed, FailedTerminal}"
    using assms m by (auto simp: row_ok_def)
  have "d_id r \<in> i_id ` set hs" using m assms(4) by auto
  with st show "d_attempts r < MAX_ATTEMPTS" "count_list (ss @ [i_id (hs ! i)]) (d_id r) \<le> Suc (d_attempts r)"
    using assms(1,4) by (auto simp: row_ok_def)
qed

lemma row_ok_not_held:
  assumes "d_id r \<notin> i_id ` set hs"
  shows "row_ok hs ss r \<longleftrightarrow> count_list ss (d_id r) \<le> d_attempts r +
      (if d_status r \<in> {Processing, Completed, FailedTerminal} then 1 else 0) \<and>
     d_attempts r \<le> MAX_ATTEMPTS \<and> (d_status r \<noteq> DeadLetter \<longrightarrow> d_attempts r < MAX_ATTEMPTS)"
proof -
  have "\<forall>item \<in> set hs. i_id item \<noteq> d_id r" using assms by force
  then show ?thesis using assms by (auto simp: row_ok_def)
qed

text \<open>Settling rewrites the rows of one id; what it writes to a row with the attempt count the
  worker saw.\<close>

lemma settle_form:
  assumes "i_attempts item < MAX_ATTEMPTS"
  obtains f where "snd (settle item reply now jitter rs) = update_where (\<lambda>r. d_id r = i_id item) f rs"
    and "\<And>r. d_id (f r) = d_id r"
    and "\<And>r. d_attempts r = i_attempts item \<Longrightarrow> d_attempts (f r) \<le> MAX_ATTEMPTS \<and>
      (d_status (f r) \<noteq> DeadLetter \<longrightarrow> d_attempts (f r) < MAX_ATTEMPTS) \<and>
      Suc (i_attempts item) \<le> d_attempts (f r) +
        (if d_status (f r) \<in> {Processing, Completed, FailedTerminal} then 1 else 0)"
proof -
  obtain sent data retryable code where c: "classify_send reply = (sent, data, retryable, code)"
    by (cases "classify_send reply")
  consider (sent) sent | (terminal) "\<not> sent" "\<not> retryable"
    | (dead) "\<not> sent" retryable "i_attempts item + 1 \<ge> MAX_ATTEMPTS"
    | (retry) "\<not> sent" retryable "i_attempts item + 1 < MAX_ATTEMPTS"
    by linarith
  then show ?thesis
  proof cases
    case sent
    then show ?thesis
      by (intro that [of "\<lambda>r. r\<lparr>d_status := Completed\<rparr>"]) (use assms in \<open>simp_all add: settle_def c\<close>)
  next
    case terminal
    then show ?thesis
      by (intro that [of "\<lambda>r. r\<lparr>d_status := FailedTerminal,
          d_last_error := Some (if code = 402 then ''insufficient_funds'' else http_text code ''permanent_error'')\<rparr>"])
        (use assms in \<open>simp_all add: settle_def c\<close>)
  next
    case dead
    then show ?thesis
      by (intro that [of "\<lambda>r. r\<lparr>d_status := DeadLetter, d_attempts := i_attempts item + 1,
          d_last_error := Some (''max_attempts ('' @ show_nat MAX_ATTEMPTS @ '')'')\<rparr>"])
        (use assms in \<open>simp_all add: settle_def c Let_def\<close>)
  next
    case retry
    then show ?thesis
      by (intro that [of "\<lambda>r. r\<lparr>d_status := FailedRetryable, d_attempts := i_attempts item + 1,
          d_next_retry_at := now + calculate_backoff (i_attempts item + 1) jitter,
          d_last_error := Some (http_text code ''network_error'')\<rparr>"])
        (use assms in \<open>simp_all add: settle_def c Let_def\<close>)
  qed
qed

lemma row_ok_settle:
  assumes ok: "\<forall>r \<in> set rs. row_ok hs ss r" and d: "distinct (map i_id hs)" and i: "i < length hs"
    and known: "i_id (hs ! i) \<in> d_id ` set rs"
  shows "\<forall>r \<in> set (snd (settle (hs ! i) reply now jitter rs)).
    row_ok (drop_nth i hs) (ss @ [i_id (hs ! i)]) r"
proof -
  have lim: "i_attempts (hs ! i) < MAX_ATTEMPTS"
    using row_ok_let_go(2,3) [OF bspec [OF ok] d i] known by force
  have other: "row_ok (drop_nth i hs) (ss @ [i_id (hs ! i)]) r" if "r \<in> set rs" "d_id r \<noteq> i_id (hs ! i)" for r
    using ok d i that by (blast intro: row_ok_release)
  have own: "row_ok (drop_nth i hs) (ss @ [i_id (hs ! i)]) (f r)"
    if "r \<in> set rs" "d_id r = i_id (hs ! i)" "d_id (f r) = d_id r"
      and "d_attempts (f r) \<le> MAX_ATTEMPTS" "d_status (f r) \<noteq> DeadLetter \<longrightarrow> d_attempts (f r) < MAX_ATTEMPTS"
      and "Suc (i_attempts (hs ! i)) \<le> d_attempts (f r) +
        (if d_status (f r) \<in> {Processing, Completed, FailedTerminal} then 1 else 0)" for f r
  proof -
    note lg = row_ok_let_go [OF bspec [OF ok that(1)] d i that(2)]
    show ?thesis
      using lg(1,3,4) that(2-6) by (subst row_ok_not_held) auto
  qed
  have a: "d_attempts r = i_attempts (hs ! i)" if "r \<in> set rs" "d_id r = i_id (hs ! i)" for r
    using row_ok_let_go(3) [OF bspec [OF ok that(1)] d i that(2)] .
  obtain f where f: "snd (settle (hs ! i) reply now jitter rs) = update_where (\<lambda>r. d_id r = i_id (hs ! i)) f rs"
      "\<And>r. d_id (f r) = d_id r"
      "\<And>r. d_attempts r = i_attempts (hs ! i) \<Longrightarrow> d_attempts (f r) \<le> MAX_ATTEMPTS \<and>
        (d_status (f r) \<noteq> DeadLetter \<longrightarrow> d_attempts (f r) < MAX_ATTEMPTS) \<and>
        Suc (i_attempts (hs ! i)) \<le> d_attempts (f r) +
          (if d_status (f r) \<in> {Processing, Completed, FailedTerminal} then 1 else 0)"
    by (rule settle_form [OF lim, where reply = reply and now = now and jitter = jitter and rs = rs], rule that)
  have "row_ok (drop_nth i hs) (ss @ [i_id (hs ! i)]) (f r)" if "r \<in> set rs" "d_id r = i_id (hs ! i)" for r
    using own [where f = f, OF that f(2)] f(3) [OF a [OF that]] by blast
  with other show ?thesis by (auto simp: f(1) set_update_where)
qed

lemma row_by_id: "distinct (map d_id rs) \<Longrightarrow> r \<in> set rs \<Longrightarrow> q \<in> set rs \<Longrightarrow> d_id r = d_id q \<Longrightarrow> r = q"
  by (auto simp: distinct_map inj_on_def)

lemma claimed_idsD:
  assumes "distinct (map d_id rs)" "r \<in> set rs" "d_id r \<in> set (claimed_ids now locked rs)"
  shows "claimable now locked r"
proof -
  obtain q where "q \<in> set (take CLAIM_BATCH_SIZE (sort_key d_created_at (filter (claimable now locked) rs)))"
    and e: "d_id q = d_id r"
    using assms(3) by (auto simp: claimed_ids_def)
  then have "q \<in> set rs" "claimable now locked q"
    by (auto dest: in_set_takeD)
  with row_by_id [OF assms(1,2)] e show ?thesis by metis
qed

lemma claim_items:
  assumes "distinct (map d_id rs)" "claim_batch worker now locked rs = (items, rs')"
  shows "distinct (map i_id items)" "i_id ` set items = set (claimed_ids now locked rs)"
    and "\<forall>item \<in> set items. \<exists>r \<in> set rs'. item = item_of r \<and> d_status r = Processing"
    and "rs' = update_where (\<lambda>r. d_id r \<in> set (claimed_ids now locked rs))
        (\<lambda>r. r\<lparr>d_status := Processing, d_worker := Some worker, d_leased_at := Some now\<rparr>) rs"
proof -
  let ?ids = "claimed_ids now locked rs"
  let ?u = "update_where (\<lambda>r. d_id r \<in> set ?ids)
        (\<lambda>r. r\<lparr>d_status := Processing, d_worker := Some worker, d_leased_at := Some now\<rparr>) rs"
  show u: "rs' = ?u"
    using assms(2) by (auto simp: claim_batch_def Let_def update_where_def split: if_splits)
  have ids: "map d_id ?u = map d_id rs" by (rule map_update_where_key) simp
  have items: "items = map item_of (sort_key d_created_at (filter (\<lambda>r. d_id r \<in> set ?ids) ?u))"
    using assms(2) by (auto simp: claim_batch_def Let_def split: if_splits)
  have m: "mset (map i_id items) = mset (map d_id (filter (\<lambda>r. d_id r \<in> set ?ids) ?u))"
    by (simp add: items item_of_def multiset.map_comp comp_def)
  have "distinct (map d_id (filter (\<lambda>r. d_id r \<in> set ?ids) ?u))"
    using assms(1) ids by (simp add: distinct_map_filter)
  with m show "distinct (map i_id items)" by (metis mset_eq_imp_distinct_iff)
  have "set (claimed_ids now locked rs) \<subseteq> set (map d_id ?u)"
    unfolding ids by (auto simp: claimed_ids_def dest: in_set_takeD)
  moreover have "i_id ` set items = d_id ` set (filter (\<lambda>r. d_id r \<in> set ?ids) ?u)"
    by (simp add: items item_of_def image_image)
  ultimately show "i_id ` set items = set ?ids" by auto
  show "\<forall>item \<in> set items. \<exists>r \<in> set rs'. item = item_of r \<and> d_status r = Processing"
    by (auto simp: items u set_update_where)
qed

lemma claimed_unheld:
  assumes ids: "distinct (map d_id rs)" and ok: "\<forall>r \<in> set rs. row_ok hs ss r"
    and r: "r \<in> set rs" "d_id r \<in> set (claimed_ids now locked rs)"
  shows "d_id r \<notin> i_id ` set hs" "d_status r = Pending" "count_list ss (d_id r) \<le> d_attempts r"
    "d_attempts r < MAX_ATTEMPTS"
proof -
  show p: "d_status r = Pending"
    using claimed_idsD [OF ids r] by (simp add: claimable_def)
  have o: "row_ok hs ss r" using ok r(1) by blast
  have "i_id item \<noteq> d_id r" if "item \<in> set hs" for item
    using o p that by (auto simp: row_ok_def)
  then show n: "d_id r \<notin> i_id ` set hs" by (metis imageE)
  show "count_list ss (d_id r) \<le> d_attempts r" "d_attempts r < MAX_ATTEMPTS"
    using o p n by (auto simp: row_ok_def)
qed

lemma claim_rows_ok:
  assumes ids: "distinct (map d_id rs)" and ok: "\<forall>r \<in> set rs. row_ok hs ss r"
    and c: "claim_batch worker now locked rs = (items, rs')"
  shows "\<forall>r \<in> set rs'. row_ok (hs @ items) ss r" and "i_id ` set items \<inter> i_id ` set hs = {}"
proof -
  note ci = claim_items [OF ids c]
  let ?ids = "claimed_ids now locked rs"
  let ?f = "\<lambda>r. r\<lparr>d_status := Processing, d_worker := Some worker, d_leased_at := Some now\<rparr>"
  have drs: "distinct (map d_id rs')"
    using ids identity_keeps(1) [OF claim_identity, of worker now locked rs] by (simp add: c)
  have sub: "set ?ids \<subseteq> d_id ` set rs"
    by (auto simp: claimed_ids_def dest: in_set_takeD)
  show "i_id ` set items \<inter> i_id ` set hs = {}"
  proof -
    have "x \<notin> i_id ` set hs" if x: "x \<in> set ?ids" for x
    proof -
      obtain r where r: "r \<in> set rs" "x = d_id r" using sub x by blast
      then show ?thesis using claimed_unheld(1) [OF ids ok r(1)] x by simp
    qed
    then show ?thesis unfolding ci(2) by blast
  qed
  have taken: "row_ok (hs @ items) ss (?f q)" if q: "q \<in> set rs" "d_id q \<in> set ?ids" for q
  proof -
    have mem: "?f q \<in> set rs'" using q by (auto simp: ci(4) set_update_where)
    have same: "i_attempts item = d_attempts q \<and> i_key item = d_key q" if item: "item \<in> set items" "i_id item = d_id q" for item
    proof -
      obtain r' where r': "r' \<in> set rs'" "item = item_of r'" using bspec [OF ci(3) item(1)] by auto
      then have "r' = ?f q" using item(2) by (intro row_by_id [OF drs r'(1) mem]) (simp add: item_of_def)
      then show ?thesis by (simp add: r'(2) item_of_def)
    qed
    have "\<forall>item \<in> set hs. i_id item \<noteq> d_id q" using claimed_unheld(1) [OF ids ok q] by force
    then show ?thesis
      using claimed_unheld [OF ids ok q] same by (auto simp: row_ok_def item_of_def)
  qed
  have left: "row_ok (hs @ items) ss r" if r: "r \<in> set rs" "d_id r \<notin> set ?ids" for r
  proof -
    have "i_id item \<noteq> d_id r" if "item \<in> set items" for item
      using r(2) that unfolding ci(2) [symmetric] by (metis imageI)
    then have items: "\<forall>item \<in> set (hs @ items). i_id item = d_id r \<longrightarrow> item \<in> set hs" by auto
    have "d_id r \<notin> i_id ` set items" using r(2) ci(2) by simp
    then have ids: "(d_id r \<in> i_id ` set (hs @ items)) = (d_id r \<in> i_id ` set hs)"
      by (simp only: set_append image_Un Un_iff simp_thms)
    show ?thesis using bspec [OF ok r(1)] items unfolding row_ok_def ids by blast
  qed
  show "\<forall>r \<in> set rs'. row_ok (hs @ items) ss r"
    using taken left unfolding ci(4) set_update_where by auto
qed

lemma step_claim_inv:
  assumes inv: "lease_inv w"
  shows "lease_inv (ded_step w (Claim worker now locked))"
proof -
  obtain items rs where c: "claim_batch worker now locked (rows (table w)) = (items, rs)" by fastforce
  have ids: "distinct (map d_id (rows (table w)))"
    and ok: "\<forall>r \<in> set (rows (table w)). row_ok (held w) (sends w) r"
    using inv by (auto simp: lease_inv_def table_inv_def)
  have idr: "d_id ` set rs = d_id ` set (rows (table w))"
    using identity_keeps(1) [OF claim_identity, of worker now locked "rows (table w)"]
    unfolding c snd_conv by (metis list.set_map)
  have "set (claimed_ids now locked (rows (table w))) \<subseteq> d_id ` set (rows (table w))"
    by (auto simp: claimed_ids_def dest: in_set_takeD)
  then have known: "i_id ` set items \<subseteq> d_id ` set rs"
    using claim_items(2) [OF ids c] idr by simp
  have "table_inv (table (ded_step w (Claim worker now locked)))"
    using inv by (intro ded_step_table_inv) (simp add: lease_inv_def)
  then show ?thesis
    using inv claim_rows_ok [OF ids ok c] claim_items(1) [OF ids c] known idr
    by (simp add: lease_inv_def on_rows_def c image_Un Int_commute)
qed

lemma step_release_inv:
  assumes inv: "lease_inv w" and i: "i < length (held w)"
    and t: "table_inv (table (on_rows f w))"
    and ids: "d_id ` set (f (rows (table w))) = d_id ` set (rows (table w))"
    and row: "\<forall>r \<in> set (f (rows (table w))). row_ok (drop_nth i (held w)) (sends w @ [i_id (held w ! i)]) r"
  shows "lease_inv (release i (on_rows f w))"
proof -
  have d: "distinct (map i_id (held w))" and known: "i_id ` set (held w) \<subseteq> d_id ` set (rows (table w))"
    and tw: "table_inv (table w)"
    using inv by (auto simp: lease_inv_def)
  have "i_id (held w ! i) \<in> d_id ` set (rows (table w))" using known i by auto
  moreover have "i_id ` set (drop_nth i (held w)) \<subseteq> d_id ` set (rows (table w))"
    using known held_drop_nth(1) [OF d i] by auto
  ultimately show ?thesis
    using inv t row held_drop_nth(2) [OF d i] ids
    by (simp add: lease_inv_def on_rows_def release_def)
qed

lemma step_settle_inv:
  assumes inv: "lease_inv w"
  shows "lease_inv (ded_step w (Settle i reply now jitter))"
proof (cases "i < length (held w)")
  case True
  let ?f = "\<lambda>rs. snd (settle (held w ! i) reply now jitter rs)"
  have ok: "\<forall>r \<in> set (rows (table w)). row_ok (held w) (sends w) r"
    and d: "distinct (map i_id (held w))" and k: "i_id (held w ! i) \<in> d_id ` set (rows (table w))"
    using inv True by (auto simp: lease_inv_def)
  have t: "table_inv (table (on_rows ?f w))"
    using inv attempts_ok_rows(1) [OF table_inv_attempts]
    by (intro table_inv_on_rows) (auto simp: lease_inv_def settle_identity)
  have ids: "d_id ` set (?f (rows (table w))) = d_id ` set (rows (table w))"
    using identity_keeps(1) [OF settle_identity] by (metis list.set_map)
  show ?thesis
    using step_release_inv [OF inv True t ids row_ok_settle [OF ok d True k]] True by simp
qed (use inv in simp)

lemma step_crash_inv:
  assumes inv: "lease_inv w"
  shows "lease_inv (ded_step w (Crash i))"
proof (cases "i < length (held w)")
  case True
  have ok: "\<forall>r \<in> set (rows (table w)). row_ok (held w) (sends w) r"
    and d: "distinct (map i_id (held w))" and tw: "table_inv (table w)"
    using inv by (auto simp: lease_inv_def)
  have "row_ok (drop_nth i (held w)) (sends w @ [i_id (held w ! i)]) r" if r: "r \<in> set (rows (table w))" for r
  proof (cases "d_id r = i_id (held w ! i)")
    case eq: True
    note lg = row_ok_let_go [OF bspec [OF ok r] d True eq]
    show ?thesis using lg(2,4,5) by (subst row_ok_not_held [OF lg(1)]) auto
  next
    case False
    then show ?thesis by (rule row_ok_release [OF bspec [OF ok r] d True])
  qed
  then have "lease_inv (release i (on_rows id w))"
    using tw by (intro step_release_inv [OF inv True]) (simp_all add: on_rows_def)
  then show ?thesis using True by (simp add: on_rows_def)
qed (use inv in simp)

lemma step_enqueue_inv:
  assumes inv: "lease_inv w"
  shows "lease_inv (ded_step w (Enqueue p now))"
proof (cases "\<exists>r \<in> set (rows (table w)). d_key r = pl_idempotency_key p")
  case True
  then have "enqueue p now (table w) = (False, table w)" by (simp add: enqueue_def)
  then show ?thesis using inv by simp
next
  case False
  have ids: "\<forall>r \<in> set (rows (table w)). d_id r < next_id (table w)"
    and known: "i_id ` set (held w) \<subseteq> d_id ` set (rows (table w))"
    and sent: "set (sends w) \<subseteq> d_id ` set (rows (table w))"
    using inv by (auto simp: lease_inv_def table_inv_def)
  have n: "next_id (table w) \<notin> i_id ` set (held w)" using known ids by fastforce
  have c: "count_list (sends w) (next_id (table w)) = 0"
    using sent ids by (fastforce simp: count_list_0_iff)
  have new: "row_ok (held w) (sends w) r" if "d_id r = next_id (table w)" "d_attempts r = 0" "d_status r = Pending" for r
    using n c that by (subst row_ok_not_held) (auto simp: MAX_ATTEMPTS_def)
  have "table_inv (table (ded_step w (Enqueue p now)))"
    using inv by (intro ded_step_table_inv) (simp add: lease_inv_def)
  then show ?thesis
    using inv new False by (auto simp: enqueue_def lease_inv_def less_Suc_eq)
qed

lemma ded_step_lease_inv:
  assumes inv: "lease_inv w" and ne: "\<not> is_expiry e"
  shows "lease_inv (ded_step w e)"
proof -
  have t: "table_inv (table (ded_step w e))" and ok: "\<forall>r \<in> set (rows (table w)). row_ok (held w) (sends w) r"
    using inv ded_step_table_inv by (auto simp: lease_inv_def)
  note cols = identity_keeps(1) [OF other_identity(1)] identity_keeps(1) [OF other_identity(3)]
    identity_keeps(1) [OF other_identity(4)] identity_keeps(1) [OF other_identity(5)]
  show ?thesis
  proof (cases e)
    case (ExpireLeases now)
    then show ?thesis using ne by (simp add: is_expiry_def)
  next
    case (Requeue now)
    then show ?thesis using inv t rows_ok_updates(1) [OF ok] cols by (simp add: lease_inv_on_rows)
  next
    case BuryExpired
    then show ?thesis using inv t rows_ok_updates(2) [OF ok] cols by (simp add: lease_inv_on_rows)
  next
    case (MarkCompleted key)
    then show ?thesis using inv t rows_ok_updates(3) [OF ok] cols by (simp add: lease_inv_on_rows)
  next
    case (MarkFailedTerminal key err)
    then show ?thesis using inv t rows_ok_updates(4) [OF ok] cols by (simp add: lease_inv_on_rows)
  qed (use inv in \<open>simp_all only: step_enqueue_inv step_claim_inv step_settle_inv step_crash_inv\<close>)
qed

lemma lease_inv_run:
  "list_all (\<lambda>e. \<not> is_expiry e) es \<Longrightarrow> lease_inv w \<Longrightarrow> lease_inv (foldl ded_step w es)"
  by (induction es arbitrary: w) (auto intro: ded_step_lease_inv)

lemma lease_inv_empty: "lease_inv empty_world"
  by (simp add: lease_inv_def empty_world_def table_inv_def)

section \<open>Cycles\<close>

text \<open>One call of \<open>process_all_pending\<close> on the table.\<close>

record cycle =
  cy_worker :: string
  cy_now :: time
  cy_locked :: "nat list"
  cy_replies :: "reply_at list"
  cy_finish :: time

definition run_cycle :: "deduction list \<Rightarrow> cycle \<Rightarrow> deduction list" where
  "run_cycle rs c = snd (process_all_pending (cy_worker c) (cy_now c) (cy_locked c) (cy_replies c) (cy_finish c) rs)"

lemma claim_nothing:
  assumes "rowcount (\<lambda>r. d_status r = Pending) rs = 0"
  shows "claim_batch worker now locked rs = ([], rs)"
proof -
  have "filter (claimable now locked) rs = []"
    using assms by (auto simp: rowcount_zero_iff claimable_def filter_empty_conv)
  then show ?thesis by (simp add: claim_batch_def claimed_ids_def)
qed

lemma run_cycle_nothing:
  "rowcount (\<lambda>r. d_status r = Pending) rs = 0 \<Longrightarrow> run_cycle rs c = rs"
  by (simp add: run_cycle_def process_all_pending_def claim_nothing)

definition sample_payload :: deduct_payload where
  "sample_payload = \<lparr>pl_user_id = ''u'', pl_amount_cents = 9, pl_service = ''copilot'', pl_tokens_in = 10,
     pl_tokens_out = 20, pl_model = ''m'', pl_markup_rate = ''3.0'', pl_idempotency_key = ''deduct:v1:0''\<rparr>"

definition one_pending :: "deduction list" where
  "one_pending = rows (snd (enqueue sample_payload 0 \<lparr>rows = [], next_id = 0\<rparr>))"

definition reply_cycle :: "time \<Rightarrow> http_outcome \<Rightarrow> cycle" where
  "reply_cycle now reply = \<lparr>cy_worker = ''w'', cy_now = now, cy_locked = [], cy_replies = [(reply, now, 0)],
     cy_finish = now\<rparr>"

section \<open>Properties\<close>

text \<open>Also: however the workers, the monitor and the metering service interleave, and whoever dies,
  no idempotency key is ever in the table twice, every row keeps the key of its payload, and the
  attempt limit separates retried rows from dead letters.\<close>

theorem deductions_unique:
  "table_inv (table (foldl ded_step empty_world events))"
  by (rule ded_tables.run_inv)

text \<open>Also: as long as no lease expires, whatever the interleaving and whichever workers die, no two
  workers ever hold the same row and no row is sent more than five times.\<close>

theorem deduction_exclusive_and_bounded:
  assumes "list_all (\<lambda>e. \<not> is_expiry e) events"
  shows "distinct (map i_id (held (foldl ded_step empty_world events))) \<and>
    count_list (sends (foldl ded_step empty_world events)) i \<le> 5"
proof -
  let ?w = "foldl ded_step empty_world events"
  have inv: "lease_inv ?w" by (rule lease_inv_run [OF assms lease_inv_empty])
  have "count_list (sends ?w) i \<le> 5"
  proof (cases "i \<in> d_id ` set (rows (table ?w))")
    case True
    then obtain r where "r \<in> set (rows (table ?w))" "d_id r = i" by auto
    then have "row_ok (held ?w) (sends ?w) r" "d_id r = i" using inv by (auto simp: lease_inv_def)
    then show ?thesis by (auto simp: row_ok_def MAX_ATTEMPTS_def split: if_splits)
  next
    case False
    then have "i \<notin> set (sends ?w)" using inv by (auto simp: lease_inv_def)
    then show ?thesis by (simp add: count_list_0_iff)
  qed
  with inv show ?thesis by (simp add: lease_inv_def)
qed

theorem deduction_exclusive_and_bounded_witness:
  "count_list (sends (foldl ded_step empty_world
     [Enqueue sample_payload 0, Claim ''a'' 0 [], Claim ''b'' 0 [], Crash 0, Claim ''b'' 1 []])) 0 \<le> 5 \<and>
   sends (foldl ded_step empty_world
     [Enqueue sample_payload 0, Claim ''a'' 0 [], Claim ''b'' 0 [], Crash 0, Claim ''b'' 1 []]) = [0]"
proof
  show "count_list (sends (foldl ded_step empty_world
     [Enqueue sample_payload 0, Claim ''a'' 0 [], Claim ''b'' 0 [], Crash 0, Claim ''b'' 1 []])) 0 \<le> 5"
    by (rule deduction_exclusive_and_bounded [THEN conjunct2]) (simp add: is_expiry_def)
qed code_simp

text \<open>Also: a cycle requeues the rows whose backoff is over only after it has claimed something, so
  once no row is pending, no number of cycles at any time, with any replies, changes the table:
  retryable failures are never retried again until an unrelated deduction is enqueued.\<close>

theorem retryable_rows_starve:
  assumes "rowcount (\<lambda>r. d_status r = Pending) rs = 0"
  shows "foldl run_cycle rs cycles = rs"
  by (induction cycles) (simp_all add: run_cycle_nothing [OF assms])

theorem retryable_rows_starve_witness:
  "map d_status (foldl run_cycle (run_cycle one_pending (reply_cycle 0 (HttpResponse 503 None)))
     (map (\<lambda>n. reply_cycle (seconds (1000 * n)) (HttpResponse 200 (Some (JObj [])))) [1, 2, 3]))
   = [FailedRetryable]"
proof -
  let ?rs = "run_cycle one_pending (reply_cycle 0 (HttpResponse 503 None))"
  have 0: "rowcount (\<lambda>r. d_status r = Pending) ?rs = 0" by code_simp
  have 1: "map d_status ?rs = [FailedRetryable]" by code_simp
  show ?thesis by (simp only: retryable_rows_starve [OF 0] 1)
qed

definition late_reply :: "deduct_payload \<Rightarrow> ded_event list" where
  "late_reply p = [Enqueue p 0, Claim ''a'' 0 [], ExpireLeases (seconds 300), BuryExpired,
     Claim ''b'' (seconds 300) [], Settle 1 (HttpResponse 200 (Some (JObj []))) (seconds 301) 0]"

definition late_reply_rest :: "ded_event list" where
  "late_reply_rest = [Settle 0 HttpError (seconds 302) 0, Requeue (seconds 400), Claim ''c'' (seconds 400) []]"

text \<open>Also: results are written back by row id alone. A worker whose lease expired overwrites the
  success another worker recorded: the deduction goes from Completed back to FailedRetryable and
  is claimed and sent again, a third time.\<close>

theorem completed_deduction_reopened:
  "map d_status (rows (table (foldl ded_step empty_world (late_reply p)))) = [Completed] \<and>
   map d_status (rows (table (foldl ded_step empty_world (late_reply p @ late_reply_rest)))) = [Processing] \<and>
   held (foldl ded_step empty_world (late_reply p @ late_reply_rest))
     = [\<lparr>i_id = 0, i_payload = p, i_attempts = 1, i_key = pl_idempotency_key p\<rparr>]"
  by code_simp

end
