(* ===== verification/Credit_Metering.thy ===== *)
theory Credit_Metering
  imports Deduction_Queue
begin

text \<open>
  Credit metering of copilot calls, \<open>app/services/metering_service.py\<close>, and the daily comparison
  of the recorded deductions with the server's totals, \<open>app/services/reconciliation.py\<close>. The
  binary64 product inside \<open>calculate_cost_cents\<close> and the SHA-256 digest are arguments. What the
  queue worker does to the table while the deduction request is awaited is the argument
  \<open>during\<close>.
\<close>

section \<open>The pre-flight check and the cost\<close>

record balance_check =
  bc_allowed :: bool
  bc_balance_cents :: int
  bc_estimated_cost_cents :: int
  bc_reason :: "string option"

definition check_balance :: "bool \<Rightarrow> int \<Rightarrow> int \<Rightarrow> int option \<Rightarrow> balance_check" where
  "check_balance auth_enabled estimated_query_cost balance_cents estimated_cost_cents =
     (if \<not> auth_enabled
      then \<lparr>bc_allowed = True, bc_balance_cents = balance_cents, bc_estimated_cost_cents = 0,
            bc_reason = Some ''auth_disabled''\<rparr>
      else let cost = (case estimated_cost_cents of Some c \<Rightarrow> c | None \<Rightarrow> estimated_query_cost)
      in if balance_cents \<le> 0
         then \<lparr>bc_allowed = False, bc_balance_cents = balance_cents, bc_estimated_cost_cents = cost,
               bc_reason = Some ''zero_balance''\<rparr>
         else if balance_cents < cost
         then \<lparr>bc_allowed = False, bc_balance_cents = balance_cents, bc_estimated_cost_cents = cost,
               bc_reason = Some ''insufficient_balance''\<rparr>
         else \<lparr>bc_allowed = True, bc_balance_cents = balance_cents, bc_estimated_cost_cents = cost,
               bc_reason = None\<rparr>)"

datatype usage_exn = ValueError | UsageAttributeError | UsageTypeError

definition calculate_cost_cents :: "(int \<Rightarrow> int \<Rightarrow> int) \<Rightarrow> int \<Rightarrow> int \<Rightarrow> int \<Rightarrow> usage_exn + int" where
  "calculate_cost_cents ceil_cents min_cost_cents input_tokens output_tokens =
     (if input_tokens < 0 \<or> output_tokens < 0 then Inl ValueError
      else let customer_cents = ceil_cents input_tokens output_tokens
      in if (input_tokens > 0 \<or> output_tokens > 0) \<and> customer_cents < min_cost_cents
         then Inr min_cost_cents else Inr customer_cents)"

definition make_idempotency_key ::
  "(string \<Rightarrow> string) \<Rightarrow> string \<Rightarrow> string \<Rightarrow> string option \<Rightarrow> time \<Rightarrow> string" where
  "make_idempotency_key sha256hex user_id session_id message_id now =
     (let raw = user_id @ ''|'' @ session_id @ ''|'' @
            (if truthy message_id then the message_id else show_int (now div 1000))
      in ''deduct:v1:'' @ take 32 (sha256hex raw))"

section \<open>Reporting the usage\<close>

record usage_report =
  ur_success :: bool
  ur_cost_cents :: int
  ur_new_balance_cents :: json
  ur_allowed :: bool

record usage_config =
  uc_auth_enabled :: bool
  uc_min_cost_cents :: int
  uc_internal_api_key :: string
  uc_ceil_cents :: "int \<Rightarrow> int \<Rightarrow> int"
  uc_sha256hex :: "string \<Rightarrow> string"

record usage_call =
  uq_user_id :: string
  uq_service :: string
  uq_model :: string
  uq_input_tokens :: int
  uq_output_tokens :: int
  uq_session_id :: string
  uq_message_id :: "string option"
  uq_markup_rate :: string

definition usage_payload :: "usage_config \<Rightarrow> usage_call \<Rightarrow> int \<Rightarrow> time \<Rightarrow> deduct_payload" where
  "usage_payload cfg q cost now = \<lparr>pl_user_id = uq_user_id q, pl_amount_cents = cost,
     pl_service = uq_service q, pl_tokens_in = uq_input_tokens q, pl_tokens_out = uq_output_tokens q,
     pl_model = uq_model q, pl_markup_rate = uq_markup_rate q,
     pl_idempotency_key =
       make_idempotency_key (uc_sha256hex cfg) (uq_user_id q) (uq_session_id q) (uq_message_id q) now\<rparr>"

text \<open>\<open>_attempt_deduct\<close> is the classification of \<open>_attempt_send\<close>, word for word.\<close>

definition deduct_request :: "string \<Rightarrow> deduct_payload \<Rightarrow> http_request" where
  "deduct_request internal_api_key p =
     \<lparr>rq_method = ''POST'', rq_path = ''/api/v1/credits/deduct'',
      rq_body = Some (JObj [(''user_id'', JStr (pl_user_id p)), (''amount_cents'', JInt (pl_amount_cents p)),
        (''service'', JStr (pl_service p)), (''tokens_in'', JInt (pl_tokens_in p)),
        (''tokens_out'', JInt (pl_tokens_out p)), (''model'', JStr (pl_model p)),
        (''markup_rate'', JStr (pl_markup_rate p)), (''idempotency_key'', JStr (pl_idempotency_key p))]),
      rq_headers = [(''Content-Type'', ''application/json''), (''Idempotency-Key'', pl_idempotency_key p)] @
        (if internal_api_key \<noteq> [] then [(''X-Internal-API-Key'', internal_api_key)] else [])\<rparr>"

definition attempt_deduct ::
  "'w transport \<Rightarrow> string \<Rightarrow> deduct_payload \<Rightarrow> 'w \<Rightarrow> (bool \<times> json \<times> bool \<times> int) \<times> 'w" where
  "attempt_deduct tr api_key p w = (case tr (deduct_request api_key p) w of (reply, w') \<Rightarrow> (classify_send reply, w'))"

text \<open>The balance in a successful reply; the default of the outer \<open>get\<close> is evaluated first.\<close>

definition reply_balance :: "json \<Rightarrow> usage_exn + json" where
  "reply_balance data = (case data of
       JObj d \<Rightarrow>
         (case dict_get d ''detail'' (JObj []) of
            JObj dd \<Rightarrow> Inr (dict_get d ''balance_cents'' (dict_get dd ''balance_cents'' (JInt 0)))
          | _ \<Rightarrow> Inl UsageAttributeError)
     | _ \<Rightarrow> Inl UsageAttributeError)"

definition positive :: "json \<Rightarrow> usage_exn + bool" where
  "positive j = (case j of JInt i \<Rightarrow> Inr (i > 0) | JBool b \<Rightarrow> Inr b | _ \<Rightarrow> Inl UsageTypeError)"

definition refused_balance :: "json \<Rightarrow> usage_exn + json" where
  "refused_balance data = (case data of
       JObj d \<Rightarrow>
         (case map_of d ''detail'' of
            Some (JObj dd) \<Rightarrow> Inr (dict_get dd ''balance_cents'' (JInt 0))
          | _ \<Rightarrow> Inr (JInt 0))
     | _ \<Rightarrow> Inl UsageAttributeError)"

definition after_deduct ::
  "string \<Rightarrow> int \<Rightarrow> bool \<times> json \<times> bool \<times> int \<Rightarrow> deduction list \<Rightarrow> (usage_exn + usage_report) \<times> deduction list" where
  "after_deduct key cost result rs =
     (case result of (success, data, retryable, status_code) \<Rightarrow>
        if success
        then (case reply_balance data of
                Inl e \<Rightarrow> (Inl e, rs)
              | Inr new_balance \<Rightarrow>
                  (case positive new_balance of
                     Inl e \<Rightarrow> (Inl e, rs)
                   | Inr allowed \<Rightarrow>
                       (Inr \<lparr>ur_success = True, ur_cost_cents = cost, ur_new_balance_cents = new_balance,
                             ur_allowed = allowed\<rparr>, mark_completed key rs)))
        else if status_code = 402
        then (case refused_balance data of
                Inl e \<Rightarrow> (Inl e, rs)
              | Inr new_balance \<Rightarrow>
                  (Inr \<lparr>ur_success = False, ur_cost_cents = cost, ur_new_balance_cents = new_balance,
                        ur_allowed = False\<rparr>, mark_failed_terminal key ''insufficient_funds'' rs))
        else if status_code \<in> {400, 401, 403, 404}
        then (Inr \<lparr>ur_success = False, ur_cost_cents = cost, ur_new_balance_cents = JInt 0, ur_allowed = True\<rparr>,
              mark_failed_terminal key (''HTTP '' @ show_int status_code) rs)
        else (Inr \<lparr>ur_success = False, ur_cost_cents = cost, ur_new_balance_cents = JInt 0, ur_allowed = True\<rparr>, rs))"

definition report_usage ::
  "(deduction list \<Rightarrow> deduction list) \<Rightarrow> 'w transport \<Rightarrow> usage_config \<Rightarrow> usage_call \<Rightarrow> time
     \<Rightarrow> ded_table \<times> 'w \<Rightarrow> (usage_exn + usage_report) \<times> ded_table \<times> 'w" where
  "report_usage during tr cfg q now tw = (case tw of (t, w) \<Rightarrow>
     if \<not> uc_auth_enabled cfg
     then (Inr \<lparr>ur_success = True, ur_cost_cents = 0, ur_new_balance_cents = JInt 999999, ur_allowed = True\<rparr>, t, w)
     else (case calculate_cost_cents (uc_ceil_cents cfg) (uc_min_cost_cents cfg) (uq_input_tokens q) (uq_output_tokens q) of
             Inl e \<Rightarrow> (Inl e, t, w)
           | Inr cost \<Rightarrow>
               if cost = 0
               then (Inr \<lparr>ur_success = True, ur_cost_cents = 0, ur_new_balance_cents = JInt 0, ur_allowed = True\<rparr>, t, w)
               else let payload = usage_payload cfg q cost now;
                        t1 = snd (enqueue payload now t)
               in (case attempt_deduct tr (uc_internal_api_key cfg) payload w of (result, w') \<Rightarrow>
                     (case after_deduct (pl_idempotency_key payload) cost result (during (rows t1)) of
                        (r, rs) \<Rightarrow> (r, t1\<lparr>rows := rs\<rparr>, w')))))"

section \<open>Reconciliation\<close>

definition DISCREPANCY_THRESHOLD_CENTS :: int where "DISCREPANCY_THRESHOLD_CENTS = 1"

text \<open>\<open>user_totals\<close> in first-seen order.\<close>

definition add_total :: "(string \<times> int) list \<Rightarrow> deduction \<Rightarrow> (string \<times> int) list" where
  "add_total totals r =
     AList.update (d_user_id r)
       ((case map_of totals (d_user_id r) of Some n \<Rightarrow> n | None \<Rightarrow> 0) + pl_amount_cents (d_payload r)) totals"

definition user_totals :: "deduction list \<Rightarrow> (string \<times> int) list" where
  "user_totals completed = foldl add_total [] completed"

definition server_headers :: "string \<Rightarrow> (string \<times> string) list" where
  "server_headers api_key = (''Content-Type'', ''application/json'') #
     (if api_key \<noteq> [] then [(''X-Internal-API-Key'', api_key)] else [])"

text \<open>Both fetches: a field of a 200 answer, \<open>None\<close> for everything else, every exception included.\<close>

definition fetch_field ::
  "'w transport \<Rightarrow> string \<Rightarrow> string \<Rightarrow> string \<Rightarrow> json \<Rightarrow> 'w \<Rightarrow> json option \<times> 'w" where
  "fetch_field tr api_key path field dflt w =
     (case tr (get_request path (server_headers api_key)) w of
        (HttpResponse status (Some (JObj d)), w') \<Rightarrow>
          (if status = 200
           then (case dict_get d field dflt of JNull \<Rightarrow> None | v \<Rightarrow> Some v, w')
           else (None, w'))
      | (_, w') \<Rightarrow> (None, w'))"

definition fetch_remote_balance :: "'w transport \<Rightarrow> string \<Rightarrow> string \<Rightarrow> 'w \<Rightarrow> json option \<times> 'w" where
  "fetch_remote_balance tr api_key user =
     fetch_field tr api_key (''/api/v1/credits/balance/'' @ user) ''balance_cents'' (JInt 0)"

definition fetch_remote_deductions_total :: "'w transport \<Rightarrow> string \<Rightarrow> string \<Rightarrow> 'w \<Rightarrow> json option \<times> 'w" where
  "fetch_remote_deductions_total tr api_key user =
     fetch_field tr api_key (''/api/v1/credits/deductions/'' @ user @ ''?period=24h'') ''total_deducted_cents'' JNull"

datatype discrepancy = RemoteBalanceUnavailable string int | AmountMismatch string int int int

text \<open>The check of one user; subtracting a total that is not a number raises.\<close>

definition check_user ::
  "'w transport \<Rightarrow> string \<Rightarrow> string \<times> int \<Rightarrow> 'w \<Rightarrow> (usage_exn + discrepancy option) \<times> 'w" where
  "check_user tr api_key ul w = (case ul of (user_id, local_total) \<Rightarrow>
     (case fetch_remote_balance tr api_key user_id w of
        (None, w') \<Rightarrow> (Inr (Some (RemoteBalanceUnavailable user_id local_total)), w')
      | (Some _, w') \<Rightarrow>
          (case fetch_remote_deductions_total tr api_key user_id w' of
             (None, w'') \<Rightarrow> (Inr None, w'')
           | (Some (JInt remote), w'') \<Rightarrow>
               (let diff = abs (local_total - remote)
                in (Inr (if diff > DISCREPANCY_THRESHOLD_CENTS
                         then Some (AmountMismatch user_id local_total remote diff) else None), w''))
           | (Some (JBool b), w'') \<Rightarrow>
               (let diff = abs (local_total - (if b then 1 else 0))
                in (Inr (if diff > DISCREPANCY_THRESHOLD_CENTS
                         then Some (AmountMismatch user_id local_total (if b then 1 else 0) diff) else None), w''))
           | (Some _, w'') \<Rightarrow> (Inl UsageTypeError, w''))))"

fun check_users ::
  "'w transport \<Rightarrow> string \<Rightarrow> (string \<times> int) list \<Rightarrow> 'w \<Rightarrow> (usage_exn + discrepancy list) \<times> 'w" where
  "check_users tr api_key [] w = (Inr [], w)"
| "check_users tr api_key (ul # uls) w =
     (case check_user tr api_key ul w of
        (Inl e, w') \<Rightarrow> (Inl e, w')
      | (Inr d, w') \<Rightarrow>
          (case check_users tr api_key uls w' of
             (Inl e, w'') \<Rightarrow> (Inl e, w'')
           | (Inr ds, w'') \<Rightarrow> (Inr (case d of None \<Rightarrow> ds | Some x \<Rightarrow> x # ds), w'')))"

record reconciliation =
  rs_status :: string
  rs_users_checked :: nat
  rs_total_deductions :: nat
  rs_discrepancies :: "discrepancy list"

definition run_daily_reconciliation ::
  "'w transport \<Rightarrow> string \<Rightarrow> time \<Rightarrow> deduction list \<Rightarrow> 'w \<Rightarrow> (usage_exn + reconciliation) \<times> 'w" where
  "run_daily_reconciliation tr api_key now rs w =
     (let completed = get_completed_last_24h now rs; totals = user_totals completed
      in if totals = []
         then (Inr \<lparr>rs_status = ''ok'', rs_users_checked = 0, rs_total_deductions = 0, rs_discrepancies = []\<rparr>, w)
         else (case check_users tr api_key totals w of
                 (Inl e, w') \<Rightarrow> (Inl e, w')
               | (Inr ds, w') \<Rightarrow>
                   (Inr \<lparr>rs_status = ''completed'', rs_users_checked = length totals,
                         rs_total_deductions = length completed, rs_discrepancies = ds\<rparr>, w')))"

section \<open>Totals\<close>

definition user_sum :: "string \<Rightarrow> deduction list \<Rightarrow> int" where
  "user_sum u rs = sum_list (map (pl_amount_cents \<circ> d_payload) (filter (\<lambda>r. d_user_id r = u) rs))"

lemma user_sum_Cons [simp]:
  "user_sum u [] = 0"
  "user_sum u (r # rs) = (if d_user_id r = u then pl_amount_cents (d_payload r) else 0) + user_sum u rs"
  by (simp_all add: user_sum_def)

lemma map_of_add_total:
  "map_of (add_total totals r) u =
    (if u = d_user_id r
     then Some ((case map_of totals u of Some n \<Rightarrow> n | None \<Rightarrow> 0) + pl_amount_cents (d_payload r))
     else map_of totals u)"
  by (simp add: add_total_def update_conv)

lemma foldl_add_total:
  "map_of (foldl add_total totals rs) u =
    (if u \<in> d_user_id ` set rs \<or> map_of totals u \<noteq> None
     then Some ((case map_of totals u of Some n \<Rightarrow> n | None \<Rightarrow> 0) + user_sum u rs) else None)"
proof (induction rs arbitrary: totals)
  case Nil
  then show ?case by (cases "map_of totals u") auto
next
  case (Cons r rs)
  show ?case
    by (cases "map_of totals u") (simp_all add: Cons.IH map_of_add_total)
qed

lemma user_totals_correct:
  "map_of (user_totals rs) u = (if u \<in> d_user_id ` set rs then Some (user_sum u rs) else None)"
  by (simp add: user_totals_def foldl_add_total)

lemma distinct_user_totals: "distinct (map fst (user_totals rs))"
proof -
  have "distinct (map fst (foldl add_total totals rs))" if "distinct (map fst totals)" for totals
    using that by (induction rs arbitrary: totals) (auto simp: add_total_def distinct_update)
  then show ?thesis by (simp add: user_totals_def)
qed

lemma user_totals_set:
  "set (user_totals rs) = {(u, user_sum u rs) | u. u \<in> d_user_id ` set rs}"
proof (rule set_eqI)
  fix x :: "string \<times> int"
  have "x \<in> set (user_totals rs) \<longleftrightarrow> map_of (user_totals rs) (fst x) = Some (snd x)"
    using distinct_user_totals [of rs] by (metis map_of_eq_Some_iff prod.collapse)
  then show "x \<in> set (user_totals rs) \<longleftrightarrow> x \<in> {(u, user_sum u rs) | u. u \<in> d_user_id ` set rs}"
    by (cases x) (auto simp: user_totals_correct split: if_splits)
qed

text \<open>A server that answers every request from a fixed table.\<close>

definition answering :: "(http_request \<Rightarrow> http_outcome) \<Rightarrow> unit transport" where
  "answering f rq w = (f rq, ())"

lemma check_users_set:
  assumes "check_users (answering f) k uls () = (Inr ds, ())"
  shows "set ds = {d. \<exists>ul \<in> set uls. fst (check_user (answering f) k ul ()) = Inr (Some d)}"
  using assms
proof (induction uls arbitrary: ds)
  case Nil
  then show ?case by auto
next
  case (Cons ul uls)
  obtain d where d: "check_user (answering f) k ul () = (Inr d, ())"
    using Cons.prems by (cases "check_user (answering f) k ul ()") (auto split: sum.splits)
  obtain ds' where ds': "check_users (answering f) k uls () = (Inr ds', ())"
    using Cons.prems by (cases "check_users (answering f) k uls ()") (auto simp: d split: sum.splits)
  show ?case
    using Cons.prems Cons.IH [OF ds'] by (auto simp: d ds' split: option.splits)
qed

text \<open>The user a discrepancy is about, and the total a consistent server answers for a user.\<close>

definition reported_user :: "discrepancy \<Rightarrow> string" where
  "reported_user d = (case d of RemoteBalanceUnavailable u _ \<Rightarrow> u | AmountMismatch u _ _ _ \<Rightarrow> u)"

definition server_total :: "(http_request \<Rightarrow> http_outcome) \<Rightarrow> string \<Rightarrow> string \<Rightarrow> int option" where
  "server_total f k u = (case fst (fetch_remote_deductions_total (answering f) k u ()) of
       Some (JInt n) \<Rightarrow> Some n | Some (JBool b) \<Rightarrow> Some (if b then 1 else 0) | _ \<Rightarrow> None)"

lemma check_user_reports:
  assumes "fst (check_user (answering f) k (u, n) ()) = Inr d'"
  shows "d' \<noteq> None \<longleftrightarrow> fst (fetch_remote_balance (answering f) k u ()) = None \<or>
      (\<exists>m. server_total f k u = Some m \<and> \<bar>n - m\<bar> > 1)"
    and "d' = Some d \<Longrightarrow> reported_user d = u"
  using assms
  by (auto simp: check_user_def server_total_def reported_user_def DISCREPANCY_THRESHOLD_CENTS_def Let_def
      split: prod.splits option.splits json.splits if_splits)

lemma check_users_Inr:
  assumes "check_users (answering f) k uls () = (Inr ds, ())" "ul \<in> set uls"
  shows "\<exists>d'. fst (check_user (answering f) k ul ()) = Inr d'"
  using assms
proof (induction uls arbitrary: ds)
  case Nil
  then show ?case by simp
next
  case (Cons x uls)
  then show ?case
    by (cases "check_user (answering f) k x ()"; cases "check_users (answering f) k uls ()")
      (auto split: sum.splits)
qed

section \<open>What a report leaves in the table\<close>

lemma rows_enqueue_new:
  assumes "pl_idempotency_key p \<notin> d_key ` set (rows t)"
  shows "\<exists>r. rows (snd (enqueue p now t)) = rows t @ [r] \<and> d_key r = pl_idempotency_key p \<and>
    d_payload r = p \<and> d_status r = Pending"
proof -
  have "\<not> (\<exists>r \<in> set (rows t). d_key r = pl_idempotency_key p)" using assms by (metis imageI)
  then show ?thesis by (simp add: enqueue_def)
qed

lemma after_deduct_row:
  assumes "r \<in> set rs" "d_status r = Pending"
    and "after_deduct (d_key r) cost result rs = (out, rs')"
  shows "\<exists>q \<in> set rs'. d_key q = d_key r \<and> d_payload q = d_payload r \<and>
     (case out of
        Inl _ \<Rightarrow> d_status q = Pending
      | Inr u \<Rightarrow> ur_cost_cents u = cost \<and> (ur_success u \<longleftrightarrow> d_status q = Completed) \<and>
          d_status q \<in> {Pending, Completed, FailedTerminal} \<and>
          (ur_allowed u \<or> d_status q = FailedTerminal \<or>
             d_status q = Completed \<and> positive (ur_new_balance_cents u) = Inr False))"
proof -
  obtain success data retryable code where result: "result = (success, data, retryable, code)" by (cases result)
  let ?c = "r\<lparr>d_status := Completed\<rparr>"
  have 1: "\<exists>q \<in> set (mark_completed (d_key r) rs). P q" if "P ?c" for P
  proof (rule bexI [of P, OF that])
    show "?c \<in> set (mark_completed (d_key r) rs)"
      unfolding mark_completed_def set_update_where
      by (rule image_eqI [OF _ assms(1)]) (simp add: assms(2))
  qed
  have 2: "\<exists>q \<in> set (mark_failed_terminal (d_key r) e rs). P q"
    if "P (r\<lparr>d_status := FailedTerminal, d_last_error := Some e\<rparr>)" for e P
  proof (rule bexI [of P, OF that])
    show "r\<lparr>d_status := FailedTerminal, d_last_error := Some e\<rparr> \<in> set (mark_failed_terminal (d_key r) e rs)"
      unfolding mark_failed_terminal_def set_update_where
      by (rule image_eqI [OF _ assms(1)]) (simp add: assms(2))
  qed
  show ?thesis
    using assms
    by (auto simp: after_deduct_def result split: if_splits sum.splits intro!: 1 2 intro: bexI [of _ r])
qed

section \<open>Properties\<close>

text \<open>Also: a charge for a new message is never lost: whatever the server answers, and also when its
  answer makes the report raise, the table holds a row with the message's key and the full cost.
  It is Completed exactly when the report says success, and the user is locked out only by a
  terminal refusal or a balance that is not positive.\<close>

theorem usage_is_recorded:
  assumes "report_usage id tr cfg q now (t, w) = (out, t', w')"
    and "uc_auth_enabled cfg"
    and "calculate_cost_cents (uc_ceil_cents cfg) (uc_min_cost_cents cfg) (uq_input_tokens q) (uq_output_tokens q) = Inr cost"
    and "cost \<noteq> 0" and "pl_idempotency_key (usage_payload cfg q cost now) \<notin> d_key ` set (rows t)"
  shows "\<exists>r \<in> set (rows t'). d_key r = pl_idempotency_key (usage_payload cfg q cost now) \<and>
     pl_amount_cents (d_payload r) = cost \<and>
     (case out of
        Inl _ \<Rightarrow> d_status r = Pending
      | Inr u \<Rightarrow> ur_cost_cents u = cost \<and> (ur_success u \<longleftrightarrow> d_status r = Completed) \<and>
          d_status r \<in> {Pending, Completed, FailedTerminal} \<and>
          (ur_allowed u \<or> d_status r = FailedTerminal \<or>
             d_status r = Completed \<and> positive (ur_new_balance_cents u) = Inr False))"
proof -
  let ?p = "usage_payload cfg q cost now"
  obtain r where r: "rows (snd (enqueue ?p now t)) = rows t @ [r]" "d_key r = pl_idempotency_key ?p"
    "d_payload r = ?p" "d_status r = Pending"
    using rows_enqueue_new [OF assms(5)] by blast
  obtain result v where "attempt_deduct tr (uc_internal_api_key cfg) ?p w = (result, v)" by fastforce
  then have "after_deduct (d_key r) cost result (rows t @ [r]) = (out, rows t')"
    using assms(1-4) r by (auto simp: report_usage_def Let_def split: prod.splits)
  from after_deduct_row [OF _ r(4) this]
  show ?thesis using r(2,3) by (auto simp: usage_payload_def)
qed

definition sample_usage_config :: usage_config where
  "sample_usage_config = \<lparr>uc_auth_enabled = True, uc_min_cost_cents = 1, uc_internal_api_key = [],
     uc_ceil_cents = (\<lambda>i n. i + n), uc_sha256hex = id\<rparr>"

definition sample_call :: usage_call where
  "sample_call = \<lparr>uq_user_id = ''u'', uq_service = ''copilot'', uq_model = ''m'', uq_input_tokens = 2,
     uq_output_tokens = 1, uq_session_id = ''s'', uq_message_id = Some ''m1'', uq_markup_rate = ''3.0''\<rparr>"

theorem usage_is_recorded_witness:
  "\<exists>r \<in> set (rows (fst (snd (report_usage id scripted sample_usage_config sample_call 0
      (\<lparr>rows = [], next_id = 0\<rparr>, [HttpResponse 200 (Some (JObj [(''detail'', JStr ''ok'')]))]))))).
     pl_amount_cents (d_payload r) = 3 \<and> d_status r = Pending"
proof -
  let ?run = "report_usage id scripted sample_usage_config sample_call 0
      (\<lparr>rows = [], next_id = 0\<rparr>, [HttpResponse 200 (Some (JObj [(''detail'', JStr ''ok'')]))])"
  have out: "fst ?run = Inl UsageAttributeError" by code_simp
  have run: "?run = (Inl UsageAttributeError, fst (snd ?run), snd (snd ?run))"
    unfolding out [symmetric] by simp
  have cost: "calculate_cost_cents (uc_ceil_cents sample_usage_config) (uc_min_cost_cents sample_usage_config)
      (uq_input_tokens sample_call) (uq_output_tokens sample_call) = Inr 3"
    by code_simp
  show ?thesis
    using usage_is_recorded [OF run _ cost] by (auto simp: sample_usage_config_def)
qed

text \<open>Also: reporting the same message again, at any later time, with any token counts and whatever
  happened to the table in between, adds no second deduction.\<close>

theorem message_charged_once:
  assumes "report_usage during tr cfg q now (t, w) = (out, t', w')"
    and "truthy (uq_message_id q)"
    and "r \<in> set (rows t)"
    and "d_key r = make_idempotency_key (uc_sha256hex cfg) (uq_user_id q) (uq_session_id q) (uq_message_id q) earlier"
    and "\<And>rs. map d_key (during rs) = map d_key rs"
  shows "map d_key (rows t') = map d_key (rows t)"
proof -
  have key: "make_idempotency_key (uc_sha256hex cfg) (uq_user_id q) (uq_session_id q) (uq_message_id q) now = d_key r"
    using assms(2,4) by (simp add: make_idempotency_key_def Let_def)
  have enq: "enqueue (usage_payload cfg q cost now) now t = (False, t)" for cost
    using assms(3) key by (auto simp: enqueue_def usage_payload_def)
  have marks: "map d_key (mark_completed k rs) = map d_key rs" "map d_key (mark_failed_terminal k e rs) = map d_key rs" for k e rs
    using identity_keeps(2) [OF other_identity(4)] identity_keeps(2) [OF other_identity(5)] by auto
  have "map d_key (snd (after_deduct k cost result rs)) = map d_key rs" for k cost result rs
    by (auto simp: after_deduct_def marks split: prod.splits sum.splits)
  then have after: "map d_key rs' = map d_key rs" if "after_deduct k cost result rs = (out, rs')"
    for k cost result rs rs'
    using that by (metis snd_conv)
  show ?thesis
    using assms(1) by (auto simp: report_usage_def enq Let_def after assms(5) split: if_splits sum.splits prod.splits)
qed

theorem message_charged_once_witness:
  "map d_key (rows (fst (snd (report_usage (mark_completed ''x'') scripted sample_usage_config sample_call (seconds 9)
      (snd (report_usage id scripted sample_usage_config sample_call 0
         (\<lparr>rows = [], next_id = 0\<rparr>, [HttpError, HttpResponse 200 (Some (JObj []))]))))))) = [''deduct:v1:u|s|m1'']"
proof -
  let ?first = "report_usage id scripted sample_usage_config sample_call 0
      (\<lparr>rows = [], next_id = 0\<rparr>, [HttpError, HttpResponse 200 (Some (JObj []))])"
  obtain o1 t1 w1 where first: "?first = (o1, t1, w1)" by (metis prod.collapse)
  have "map d_key (rows (fst (snd ?first))) = [''deduct:v1:u|s|m1'']" by code_simp
  then have keys: "map d_key (rows t1) = [''deduct:v1:u|s|m1'']" by (simp add: first)
  then obtain r where r: "r \<in> set (rows t1)" "d_key r = ''deduct:v1:u|s|m1''" by auto
  have k: "make_idempotency_key (uc_sha256hex sample_usage_config) (uq_user_id sample_call) (uq_session_id sample_call)
      (uq_message_id sample_call) 0 = ''deduct:v1:u|s|m1''"
    by code_simp
  obtain o2 t2 w2 where second: "report_usage (mark_completed ''x'') scripted sample_usage_config sample_call (seconds 9)
      (t1, w1) = (o2, t2, w2)" by (metis prod.collapse)
  have "map d_key (rows t2) = map d_key (rows t1)"
  proof (rule message_charged_once [OF second _ r(1)])
    show "truthy (uq_message_id sample_call)" by (simp add: sample_call_def)
    show "d_key r = make_idempotency_key (uc_sha256hex sample_usage_config) (uq_user_id sample_call)
        (uq_session_id sample_call) (uq_message_id sample_call) 0"
      by (simp only: k r(2))
    show "map d_key (mark_completed ''x'' rs) = map d_key rs" for rs
      by (rule identity_keeps(2) [OF other_identity(4)])
  qed
  then show ?thesis by (simp add: first second keys)
qed

text \<open>Also: against a server that answers consistently, a completed reconciliation reports exactly the
  users with a completed deduction in the last day whose balance cannot be fetched or whose
  server total differs from the sum of their deductions by more than a cent.\<close>

theorem reconciliation_reports:
  assumes "run_daily_reconciliation (answering f) k now rs () = (Inr s, ())"
  shows "reported_user ` set (rs_discrepancies s) =
    {u \<in> d_user_id ` set (get_completed_last_24h now rs).
       fst (fetch_remote_balance (answering f) k u ()) = None \<or>
       (\<exists>m. server_total f k u = Some m \<and> \<bar>user_sum u (get_completed_last_24h now rs) - m\<bar> > 1)}"
proof (cases "user_totals (get_completed_last_24h now rs) = []")
  case True
  then have "d_user_id ` set (get_completed_last_24h now rs) = {}"
    using user_totals_set [of "get_completed_last_24h now rs"] by auto
  with True assms show ?thesis by (auto simp: run_daily_reconciliation_def)
next
  case False
  then have c: "check_users (answering f) k (user_totals (get_completed_last_24h now rs)) () = (Inr (rs_discrepancies s), ())"
    using assms by (auto simp: run_daily_reconciliation_def Let_def split: prod.splits sum.splits)
  let ?C = "get_completed_last_24h now rs"
  show ?thesis
  proof (intro set_eqI iffI)
    fix u assume "u \<in> reported_user ` set (rs_discrepancies s)"
    then obtain d v where d: "u = reported_user d" "v \<in> d_user_id ` set ?C"
      "fst (check_user (answering f) k (v, user_sum v ?C) ()) = Inr (Some d)"
      by (auto simp: check_users_set [OF c] user_totals_set)
    with check_user_reports [OF d(3)]
    show "u \<in> {u \<in> d_user_id ` set ?C. fst (fetch_remote_balance (answering f) k u ()) = None \<or>
       (\<exists>m. server_total f k u = Some m \<and> \<bar>user_sum u ?C - m\<bar> > 1)}" by simp
  next
    fix u assume u: "u \<in> {u \<in> d_user_id ` set ?C. fst (fetch_remote_balance (answering f) k u ()) = None \<or>
       (\<exists>m. server_total f k u = Some m \<and> \<bar>user_sum u ?C - m\<bar> > 1)}"
    then have mem: "(u, user_sum u ?C) \<in> set (user_totals ?C)" by (simp add: user_totals_set)
    then obtain d' where d': "fst (check_user (answering f) k (u, user_sum u ?C) ()) = Inr d'"
      using check_users_Inr [OF c] by blast
    with u obtain d where "d' = Some d" using check_user_reports(1) [OF d'] by auto
    with d' mem have "d \<in> set (rs_discrepancies s)" "reported_user d = u"
      using check_user_reports(2) [OF d'] by (auto simp: check_users_set [OF c] intro: bexI)
    then show "u \<in> reported_user ` set (rs_discrepancies s)" by blast
  qed
qed

definition sample_server :: "http_request \<Rightarrow> http_outcome" where
  "sample_server rq = (if rq_path rq = ''/api/v1/credits/balance/u'' then HttpResponse 200 (Some (JObj []))
     else HttpResponse 200 (Some (JObj [(''total_deducted_cents'', JInt 5)])))"

theorem reconciliation_reports_witness:
  "reported_user ` set (rs_discrepancies \<lparr>rs_status = ''completed'', rs_users_checked = 1, rs_total_deductions = 1,
     rs_discrepancies = [AmountMismatch ''u'' 9 5 4]\<rparr>) = {''u''}"
proof -
  have run: "run_daily_reconciliation (answering sample_server) [] 0 (mark_completed ''deduct:v1:0'' one_pending) ()
     = (Inr \<lparr>rs_status = ''completed'', rs_users_checked = 1, rs_total_deductions = 1,
         rs_discrepancies = [AmountMismatch ''u'' 9 5 4]\<rparr>, ())"
    by code_simp
  have "get_completed_last_24h 0 (mark_completed ''deduct:v1:0'' one_pending) = mark_completed ''deduct:v1:0'' one_pending"
    by (simp add: one_pending_def enqueue_def sample_payload_def mark_completed_def get_completed_last_24h_def seconds_def)
  then have users: "map d_user_id (get_completed_last_24h 0 (mark_completed ''deduct:v1:0'' one_pending)) = [''u'']"
    "user_sum ''u'' (get_completed_last_24h 0 (mark_completed ''deduct:v1:0'' one_pending)) = 9"
    by (simp_all add: one_pending_def enqueue_def sample_payload_def mark_completed_def)
  have total: "server_total sample_server [] ''u'' = Some 5"
    by code_simp
  from users(1) have "d_user_id ` set (get_completed_last_24h 0 (mark_completed ''deduct:v1:0'' one_pending)) = {''u''}"
    by (metis list.set_map list.simps(15) empty_set)
  moreover have "\<exists>m. server_total sample_server [] ''u'' = Some m \<and>
      \<bar>user_sum ''u'' (get_completed_last_24h 0 (mark_completed ''deduct:v1:0'' one_pending)) - m\<bar> > 1"
    using users(2) total by simp
  ultimately show ?thesis unfolding reconciliation_reports [OF run] by blast
qed

end
