(* ===== verification/Rate_Limiter.thy ===== *)
theory Rate_Limiter
  imports Prelude
begin

text \<open>
  The rate limiter of external connectivity, \<open>app/services/connectivity_rate_limiter.py\<close>:
  sliding windows per token, per token for SQL and for all requests, authentication failures and
  blocks per address, and concurrency slots per token. A \<open>defaultdict\<close> is a total function.
  The clock is an argument of every operation.
\<close>

section \<open>Sliding windows\<close>

type_synonym window = "time list"

definition prune :: "time \<Rightarrow> time \<Rightarrow> window \<Rightarrow> window" where
  "prune window_s now ts = filter (\<lambda>t. t > now - window_s) ts"

definition count_in_window :: "time \<Rightarrow> time \<Rightarrow> window \<Rightarrow> nat \<times> window" where
  "count_in_window window_s now ts = (length (prune window_s now ts), prune window_s now ts)"

definition record_event :: "time \<Rightarrow> window \<Rightarrow> window" where
  "record_event now ts = ts @ [now]"

definition count_and_record :: "time \<Rightarrow> time \<Rightarrow> window \<Rightarrow> nat \<times> window" where
  "count_and_record window_s now ts =
     (length (prune window_s now ts @ [now]), prune window_s now ts @ [now])"

section \<open>The limiter\<close>

record limits =
  per_token_rpm :: nat
  per_ip_auth_fail_limit :: nat
  ip_block_duration_s :: int
  global_rpm :: nat
  per_tool_sql_rpm :: nat
  max_concurrent_per_token :: int

definition default_limits :: limits where
  "default_limits = \<lparr>per_token_rpm = 30, per_ip_auth_fail_limit = 5, ip_block_duration_s = 300,
     global_rpm = 120, per_tool_sql_rpm = 10, max_concurrent_per_token = 3\<rparr>"

record limiter =
  token_windows :: "string \<Rightarrow> window"
  token_sql_windows :: "string \<Rightarrow> window"
  ip_fail_windows :: "string \<Rightarrow> window"
  ip_blocks :: "string \<Rightarrow> time option"
  global_window :: window
  concurrency :: "string \<Rightarrow> int"

definition new_limiter :: limiter where
  "new_limiter = \<lparr>token_windows = (\<lambda>_. []), token_sql_windows = (\<lambda>_. []), ip_fail_windows = (\<lambda>_. []),
     ip_blocks = (\<lambda>_. None), global_window = [], concurrency = (\<lambda>_. 0)\<rparr>"

definition SQL_TOOLS :: "string list" where
  "SQL_TOOLS = [''vectoraiz_sql'', ''sql'', ''execute_sql'']"

text \<open>A block time of zero is falsy and never blocks.\<close>

definition check_ip_blocked :: "string \<Rightarrow> time \<Rightarrow> limiter \<Rightarrow> string option \<times> limiter" where
  "check_ip_blocked client_ip now s = (case ip_blocks s client_ip of
       None \<Rightarrow> (None, s)
     | Some block_until \<Rightarrow>
         (if block_until \<noteq> 0 \<and> now < block_until then (Some ''ip_blocked'', s)
          else if block_until \<noteq> 0 \<and> now \<ge> block_until
          then (None, s\<lparr>ip_blocks := (ip_blocks s)(client_ip := None)\<rparr>)
          else (None, s)))"

definition record_auth_failure :: "limits \<Rightarrow> string \<Rightarrow> time \<Rightarrow> limiter \<Rightarrow> string option \<times> limiter" where
  "record_auth_failure l client_ip now s =
     (case count_and_record (seconds 60) now (ip_fail_windows s client_ip) of (count, ts) \<Rightarrow>
        let s' = s\<lparr>ip_fail_windows := (ip_fail_windows s)(client_ip := ts)\<rparr> in
        if count \<ge> per_ip_auth_fail_limit l
        then (Some ''ip_blocked'',
              s'\<lparr>ip_blocks := (ip_blocks s')(client_ip := Some (now + seconds (ip_block_duration_s l)))\<rparr>)
        else (None, s'))"

text \<open>The layers of \<open>check_rate_limits\<close>, each with what it does to its window.\<close>

definition check_global :: "limits \<Rightarrow> time \<Rightarrow> limiter \<Rightarrow> bool \<times> limiter" where
  "check_global l now s = (case count_in_window (seconds 60) now (global_window s) of (n, ts) \<Rightarrow>
     (n \<ge> global_rpm l, s\<lparr>global_window := ts\<rparr>))"

definition check_token :: "limits \<Rightarrow> string \<Rightarrow> time \<Rightarrow> limiter \<Rightarrow> bool \<times> limiter" where
  "check_token l token_id now s =
     (case count_in_window (seconds 60) now (token_windows s token_id) of (n, ts) \<Rightarrow>
        (n \<ge> per_token_rpm l, s\<lparr>token_windows := (token_windows s)(token_id := ts)\<rparr>))"

definition check_sql :: "limits \<Rightarrow> string \<Rightarrow> string \<Rightarrow> time \<Rightarrow> limiter \<Rightarrow> bool \<times> limiter" where
  "check_sql l token_id tool_name now s =
     (if tool_name \<in> set SQL_TOOLS
      then (case count_in_window (seconds 60) now (token_sql_windows s token_id) of (n, ts) \<Rightarrow>
              (n \<ge> per_tool_sql_rpm l, s\<lparr>token_sql_windows := (token_sql_windows s)(token_id := ts)\<rparr>))
      else (False, s))"

definition check_rate_limits ::
  "limits \<Rightarrow> string \<Rightarrow> string \<Rightarrow> string \<Rightarrow> time \<Rightarrow> limiter \<Rightarrow> string option \<times> limiter" where
  "check_rate_limits l token_id tool_name client_ip now s =
     (case check_ip_blocked client_ip now s of
        (Some e, s1) \<Rightarrow> (Some e, s1)
      | (None, s1) \<Rightarrow>
          (case check_global l now s1 of (over, s2) \<Rightarrow>
             if over then (Some ''rate_limited'', s2)
             else (case check_token l token_id now s2 of (over, s3) \<Rightarrow>
               if over then (Some ''rate_limited'', s3)
               else (case check_sql l token_id tool_name now s3 of (over, s4) \<Rightarrow>
                 if over then (Some ''rate_limited'', s4)
                 else if concurrency s4 token_id \<ge> max_concurrent_per_token l
                 then (Some ''rate_limited'', s4)
                 else (None, s4)))))"

definition record_request :: "string \<Rightarrow> string \<Rightarrow> time \<Rightarrow> limiter \<Rightarrow> limiter" where
  "record_request token_id tool_name now s =
     (let s1 = s\<lparr>global_window := record_event now (global_window s)\<rparr>;
          s2 = s1\<lparr>token_windows := (token_windows s1)(token_id := record_event now (token_windows s1 token_id))\<rparr>
      in if tool_name \<in> set SQL_TOOLS
         then s2\<lparr>token_sql_windows := (token_sql_windows s2)
                   (token_id := record_event now (token_sql_windows s2 token_id))\<rparr>
         else s2)"

definition acquire_concurrency :: "limits \<Rightarrow> string \<Rightarrow> limiter \<Rightarrow> bool \<times> limiter" where
  "acquire_concurrency l token_id s =
     (if concurrency s token_id \<ge> max_concurrent_per_token l then (False, s)
      else (True, s\<lparr>concurrency := (concurrency s)(token_id := concurrency s token_id + 1)\<rparr>))"

definition release_concurrency :: "string \<Rightarrow> limiter \<Rightarrow> limiter" where
  "release_concurrency token_id s =
     s\<lparr>concurrency := (concurrency s)(token_id := max 0 (concurrency s token_id - 1))\<rparr>"

definition get_ip_block_remaining :: "string \<Rightarrow> time \<Rightarrow> limiter \<Rightarrow> time" where
  "get_ip_block_remaining client_ip now s = (case ip_blocks s client_ip of
       Some block_until \<Rightarrow> if block_until \<noteq> 0 then max 0 (block_until - now) else 0
     | None \<Rightarrow> 0)"

section \<open>The limiter in use\<close>

text \<open>
  How \<open>QueryOrchestrator\<close> and the routers use the limiter: a request that passes the check is
  recorded before the event loop runs anything else. A recorded request is kept in the log as
  token, tool and time, an authentication failure as address and time.
\<close>

datatype limiter_op =
    Request string string string time
  | AuthFailure string time
  | IpCheck string time
  | Acquire string
  | Release string

record limiter_run =
  lim :: limiter
  clock :: time
  log :: "(string \<times> string \<times> time) list"
  fails :: "(string \<times> time) list"

fun op_time :: "limiter_op \<Rightarrow> time option" where
  "op_time (Request _ _ _ now) = Some now"
| "op_time (AuthFailure _ now) = Some now"
| "op_time (IpCheck _ now) = Some now"
| "op_time (Acquire _) = None"
| "op_time (Release _) = None"

fun limiter_step :: "limits \<Rightarrow> limiter_run \<Rightarrow> limiter_op \<Rightarrow> limiter_run" where
  "limiter_step l r (Request token_id tool_name client_ip now) =
     (case check_rate_limits l token_id tool_name client_ip now (lim r) of
        (None, s) \<Rightarrow> r\<lparr>lim := record_request token_id tool_name now s, clock := now,
                       log := log r @ [(token_id, tool_name, now)]\<rparr>
      | (Some _, s) \<Rightarrow> r\<lparr>lim := s, clock := now\<rparr>)"
| "limiter_step l r (AuthFailure ip now) = r\<lparr>lim := snd (record_auth_failure l ip now (lim r)), clock := now,
     fails := fails r @ [(ip, now)]\<rparr>"
| "limiter_step l r (IpCheck ip now) = r\<lparr>lim := snd (check_ip_blocked ip now (lim r)), clock := now\<rparr>"
| "limiter_step l r (Acquire t) = r\<lparr>lim := snd (acquire_concurrency l t (lim r))\<rparr>"
| "limiter_step l r (Release t) = r\<lparr>lim := release_concurrency t (lim r)\<rparr>"

text \<open>A run in which the clock never goes back.\<close>

fun clock_ok :: "time \<Rightarrow> limiter_op list \<Rightarrow> bool" where
  "clock_ok t [] = True"
| "clock_ok t (x # xs) = (case op_time x of None \<Rightarrow> clock_ok t xs | Some u \<Rightarrow> t \<le> u \<and> clock_ok u xs)"

definition start_run :: "time \<Rightarrow> limiter_run" where
  "start_run t = \<lparr>lim = new_limiter, clock = t, log = [], fails = []\<rparr>"

section \<open>One window against the events it stands for\<close>

text \<open>
  \<open>win_agrees\<close>: the window \<open>ts\<close> agrees with all its events \<open>xs\<close> on every cutoff that can still be
  asked; \<open>win_ok\<close>: moreover no span of length \<open>w\<close> of \<open>xs\<close> holds more than \<open>n\<close>.
\<close>

definition in_span :: "time \<Rightarrow> time \<Rightarrow> time list \<Rightarrow> nat" where
  "in_span w t xs = length (filter (\<lambda>x. t - w < x \<and> x \<le> t) xs)"

definition win_agrees :: "time \<Rightarrow> time \<Rightarrow> window \<Rightarrow> time list \<Rightarrow> bool" where
  "win_agrees w now ts xs \<longleftrightarrow> (\<forall>c \<ge> now - w. filter (\<lambda>t. t > c) ts = filter (\<lambda>t. t > c) xs) \<and>
     (\<forall>x \<in> set xs. x \<le> now)"

definition win_ok :: "time \<Rightarrow> nat \<Rightarrow> time \<Rightarrow> window \<Rightarrow> time list \<Rightarrow> bool" where
  "win_ok w n now ts xs \<longleftrightarrow> win_agrees w now ts xs \<and> (\<forall>t. in_span w t xs \<le> n)"

abbreviation in_minute :: "time \<Rightarrow> time list \<Rightarrow> nat" where
  "in_minute \<equiv> in_span (seconds 60)"

lemma win_ok_empty: "win_ok w n now [] []"
  by (simp add: win_ok_def win_agrees_def in_span_def)

lemma filter_prune: "c \<ge> now - w \<Longrightarrow> filter (\<lambda>t. t > c) (prune w now ts) = filter (\<lambda>t. t > c) ts"
  by (auto simp: prune_def intro: filter_cong)

lemma win_agrees_later: "win_agrees w now ts xs \<Longrightarrow> now \<le> now' \<Longrightarrow> win_agrees w now' ts xs"
  by (force simp: win_agrees_def)

lemma win_agrees_prune: "win_agrees w now ts xs \<Longrightarrow> win_agrees w now (prune w now ts) xs"
  by (auto simp: win_agrees_def filter_prune)

lemma win_agrees_record: "win_agrees w now ts xs \<Longrightarrow> win_agrees w now (ts @ [now]) (xs @ [now])"
  by (auto simp: win_agrees_def)

lemma win_agrees_count:
  assumes "win_agrees w now ts xs"
  shows "length (prune w now ts) = in_span w now xs"
proof -
  have "filter (\<lambda>x. now - w < x \<and> x \<le> now) xs = filter (\<lambda>t. t > now - w) xs"
    using assms by (auto simp: win_agrees_def intro: filter_cong)
  then show ?thesis using assms by (simp add: win_agrees_def prune_def in_span_def)
qed

lemma win_ok_later: "win_ok w n now ts xs \<Longrightarrow> now \<le> now' \<Longrightarrow> win_ok w n now' ts xs"
  using win_agrees_later by (auto simp: win_ok_def)

lemma win_ok_prune: "win_ok w n now ts xs \<Longrightarrow> win_ok w n now (prune w now ts) xs"
  by (simp add: win_ok_def win_agrees_prune)

lemma win_ok_record:
  assumes "win_ok w n now ts xs" "length (prune w now ts) < n"
  shows "win_ok w n now (record_event now (prune w now ts)) (xs @ [now])"
proof -
  have f: "\<forall>c \<ge> now - w. filter (\<lambda>t. t > c) ts = filter (\<lambda>t. t > c) xs"
    and le: "\<forall>x \<in> set xs. x \<le> now" and b: "\<forall>t. in_span w t xs \<le> n"
    using assms(1) by (auto simp: win_ok_def win_agrees_def)
  have few: "length (filter (\<lambda>t. t > now - w) xs) < n"
    using f assms(2) by (simp add: prune_def)
  have "in_span w t (xs @ [now]) \<le> n" for t
  proof (cases "t - w < now \<and> now \<le> t")
    case True
    have "in_span w t xs \<le> length (filter (\<lambda>x. x > now - w) xs)"
      unfolding in_span_def using True by (intro length_filter_imp) auto
    then show ?thesis using True few by (simp add: in_span_def)
  next
    case False
    then show ?thesis using b by (auto simp: in_span_def)
  qed
  then show ?thesis
    using assms(1) by (simp add: win_ok_def record_event_def win_agrees_record win_agrees_prune)
qed

section \<open>The limiter's invariant\<close>

definition log_times :: "(string \<times> string \<times> time \<Rightarrow> bool) \<Rightarrow> (string \<times> string \<times> time) list \<Rightarrow> time list" where
  "log_times p xs = map (\<lambda>(_, _, t). t) (filter p xs)"

definition of_token :: "string \<Rightarrow> string \<times> string \<times> time \<Rightarrow> bool" where
  "of_token k e = (fst e = k)"

definition sql_of_token :: "string \<Rightarrow> string \<times> string \<times> time \<Rightarrow> bool" where
  "sql_of_token k e = (fst e = k \<and> fst (snd e) \<in> set SQL_TOOLS)"

definition fail_times :: "string \<Rightarrow> (string \<times> time) list \<Rightarrow> time list" where
  "fail_times ip xs = map snd (filter (\<lambda>e. fst e = ip) xs)"

definition limiter_inv :: "limits \<Rightarrow> limiter_run \<Rightarrow> bool" where
  "limiter_inv l r \<longleftrightarrow>
     win_ok (seconds 60) (global_rpm l) (clock r) (global_window (lim r)) (log_times (\<lambda>_. True) (log r)) \<and>
     (\<forall>k. win_ok (seconds 60) (per_token_rpm l) (clock r) (token_windows (lim r) k) (log_times (of_token k) (log r))) \<and>
     (\<forall>k. win_ok (seconds 60) (per_tool_sql_rpm l) (clock r) (token_sql_windows (lim r) k) (log_times (sql_of_token k) (log r))) \<and>
     (\<forall>ip. win_agrees (seconds 60) (clock r) (ip_fail_windows (lim r) ip) (fail_times ip (fails r)))"

lemma log_times_append: "log_times p (xs @ [e]) = log_times p xs @ (if p e then [snd (snd e)] else [])"
  by (simp add: log_times_def split_beta)

lemma check_ip_blocked_windows:
  "global_window (snd (check_ip_blocked ip now s)) = global_window s"
  "token_windows (snd (check_ip_blocked ip now s)) = token_windows s"
  "token_sql_windows (snd (check_ip_blocked ip now s)) = token_sql_windows s"
  by (auto simp: check_ip_blocked_def split: option.split)

lemma fail_windows:
  "ip_fail_windows (snd (check_rate_limits l k tool ip now s)) = ip_fail_windows s"
  "ip_fail_windows (snd (check_ip_blocked ip now s)) = ip_fail_windows s"
  "ip_fail_windows (snd (acquire_concurrency l t s)) = ip_fail_windows s"
  "ip_fail_windows (record_request k tool now s) = ip_fail_windows s"
  "ip_fail_windows (snd (record_auth_failure l ip now s)) =
     (ip_fail_windows s)(ip := prune (seconds 60) now (ip_fail_windows s ip) @ [now])"
  by (auto simp: check_rate_limits_def check_ip_blocked_def check_global_def check_token_def check_sql_def
      record_request_def record_auth_failure_def count_and_record_def acquire_concurrency_def Let_def
      split: prod.splits option.splits)

lemma other_windows:
  "global_window (snd (record_auth_failure l ip now s)) = global_window s"
  "token_windows (snd (record_auth_failure l ip now s)) = token_windows s"
  "token_sql_windows (snd (record_auth_failure l ip now s)) = token_sql_windows s"
  "global_window (snd (acquire_concurrency l t s)) = global_window s"
  "token_windows (snd (acquire_concurrency l t s)) = token_windows s"
  "token_sql_windows (snd (acquire_concurrency l t s)) = token_sql_windows s"
  by (auto simp: record_auth_failure_def acquire_concurrency_def Let_def split: prod.split)

text \<open>A check either stops, having pruned some windows, or passes, having pruned all it asked.\<close>

lemma check_pruned:
  assumes "check_rate_limits l k tool ip now s = (res, s')"
  shows "global_window s' \<in> {global_window s, prune (seconds 60) now (global_window s)}"
    and "token_windows s' j \<in> {token_windows s j, prune (seconds 60) now (token_windows s j)}"
    and "token_sql_windows s' j \<in> {token_sql_windows s j, prune (seconds 60) now (token_sql_windows s j)}"
  using assms check_ip_blocked_windows [of ip now s]
  by (auto simp: check_rate_limits_def check_global_def check_token_def check_sql_def count_in_window_def
      split: prod.splits option.splits if_splits)

lemma check_passed:
  assumes "check_rate_limits l k tool ip now s = (None, s')"
  shows "global_window s' = prune (seconds 60) now (global_window s)"
    and "length (global_window s') < global_rpm l"
    and "token_windows s' = (token_windows s)(k := prune (seconds 60) now (token_windows s k))"
    and "length (token_windows s' k) < per_token_rpm l"
    and "token_sql_windows s' = (if tool \<in> set SQL_TOOLS
           then (token_sql_windows s)(k := prune (seconds 60) now (token_sql_windows s k)) else token_sql_windows s)"
    and "tool \<in> set SQL_TOOLS \<Longrightarrow> length (token_sql_windows s' k) < per_tool_sql_rpm l"
  using assms check_ip_blocked_windows [of ip now s]
  by (auto simp: check_rate_limits_def check_global_def check_token_def check_sql_def count_in_window_def
      split: prod.splits option.splits if_splits)

lemma win_ok_same: "win_ok (seconds 60) n now ts xs \<Longrightarrow> us \<in> {ts, prune (seconds 60) now ts} \<Longrightarrow> win_ok (seconds 60) n now us xs"
  using win_ok_prune by auto

lemma limiter_inv_start: "limiter_inv l (start_run t)"
  by (simp add: limiter_inv_def start_run_def new_limiter_def log_times_def fail_times_def win_ok_empty)
    (simp add: win_agrees_def)

lemma limiter_inv_later: "limiter_inv l r \<Longrightarrow> clock r \<le> now \<Longrightarrow> limiter_inv l (r\<lparr>clock := now\<rparr>)"
  by (auto simp: limiter_inv_def intro: win_ok_later win_agrees_later)

lemma step_request_inv:
  assumes inv: "limiter_inv l r" and now: "clock r = now"
  shows "limiter_inv l (limiter_step l r (Request k tool ip now))"
proof -
  obtain res s where c: "check_rate_limits l k tool ip now (lim r) = (res, s)" by fastforce
  have fw: "ip_fail_windows s = ip_fail_windows (lim r)"
    using fail_windows(1) [of l k tool ip now "lim r"] by (simp add: c)
  show ?thesis
  proof (cases res)
    case (Some e)
    have "win_ok (seconds 60) (global_rpm l) now (global_window s) (log_times (\<lambda>_. True) (log r))"
      "\<And>j. win_ok (seconds 60) (per_token_rpm l) now (token_windows s j) (log_times (of_token j) (log r))"
      "\<And>j. win_ok (seconds 60) (per_tool_sql_rpm l) now (token_sql_windows s j) (log_times (sql_of_token j) (log r))"
      using inv check_pruned [OF c] win_ok_same unfolding limiter_inv_def now by blast+
    then show ?thesis using inv now by (simp add: limiter_inv_def c Some fw)
  next
    case None
    note p = check_passed [OF c [unfolded None]]
    have g: "win_ok (seconds 60) (global_rpm l) now (record_event now (global_window s)) (log_times (\<lambda>_. True) (log r) @ [now])"
      using inv now p(2) unfolding p(1) by (auto simp: limiter_inv_def intro: win_ok_record)
    have t: "win_ok (seconds 60) (per_token_rpm l) now (record_event now (token_windows s k)) (log_times (of_token k) (log r) @ [now])"
      using inv now p(4) unfolding p(3) by (auto simp: limiter_inv_def intro: win_ok_record)
    have q: "tool \<in> set SQL_TOOLS \<Longrightarrow>
        win_ok (seconds 60) (per_tool_sql_rpm l) now (record_event now (token_sql_windows s k)) (log_times (sql_of_token k) (log r) @ [now])"
      using inv now p(6) unfolding p(5) by (auto simp: limiter_inv_def intro: win_ok_record)
    show ?thesis
      using inv now g t q
      by (auto simp: limiter_inv_def c None fw fail_windows record_request_def Let_def log_times_append
          of_token_def sql_of_token_def p(1,3,5))
  qed
qed

lemma limiter_step_inv:
  assumes inv: "limiter_inv l r" and ok: "case op_time x of None \<Rightarrow> True | Some t \<Rightarrow> clock r \<le> t"
  shows "limiter_inv l (limiter_step l r x)"
proof (cases x)
  case (Request k tool ip now)
  have later: "limiter_inv l (r\<lparr>clock := now\<rparr>)" using inv ok Request by (simp add: limiter_inv_later)
  have "limiter_step l (r\<lparr>clock := now\<rparr>) x = limiter_step l r x"
    by (cases r) (simp add: Request split: prod.split option.split)
  then show ?thesis
    using step_request_inv [OF later, of now k tool ip] unfolding Request by (metis limiter_run.select_convs(2) limiter_run.surjective limiter_run.update_convs(2))
next
  case (AuthFailure ip now)
  have "limiter_inv l (r\<lparr>clock := now\<rparr>)" using inv ok AuthFailure by (simp add: limiter_inv_later)
  then show ?thesis
    by (auto simp: AuthFailure limiter_inv_def other_windows fail_windows fail_times_def win_agrees_prune win_agrees_record)
next
  case (IpCheck ip now)
  have "limiter_inv l (r\<lparr>clock := now\<rparr>)" using inv ok IpCheck by (simp add: limiter_inv_later)
  then show ?thesis by (simp add: IpCheck limiter_inv_def check_ip_blocked_windows fail_windows)
next
  case (Acquire t)
  then show ?thesis using inv by (simp add: limiter_inv_def other_windows fail_windows)
next
  case (Release t)
  then show ?thesis using inv by (simp add: limiter_inv_def release_concurrency_def)
qed

lemma limiter_step_clock: "clock (limiter_step l r x) = (case op_time x of None \<Rightarrow> clock r | Some t \<Rightarrow> t)"
  by (cases x) (auto split: prod.split option.split)

lemma clock_ok_append:
  assumes "clock_ok u (xs @ ys)"
  shows "clock_ok u xs" "clock r = u \<Longrightarrow> clock_ok (clock (foldl (limiter_step l) r xs)) ys"
proof -
  show "clock_ok u xs"
    using assms by (induction xs arbitrary: u) (auto split: option.splits)
  show "clock r = u \<Longrightarrow> clock_ok (clock (foldl (limiter_step l) r xs)) ys"
    using assms by (induction xs arbitrary: u r) (auto simp: limiter_step_clock split: option.splits)
qed

lemma limiter_run_inv:
  "limiter_inv l r \<Longrightarrow> clock_ok (clock r) xs \<Longrightarrow> limiter_inv l (foldl (limiter_step l) r xs)"
proof (induction xs arbitrary: r)
  case Nil
  then show ?case by simp
next
  case (Cons x xs)
  then show ?case
    using limiter_step_inv [OF Cons.prems(1), of x]
    by (simp add: limiter_step_clock split: option.splits)
qed

section \<open>Blocks\<close>

definition blocked_till :: "string \<Rightarrow> time \<Rightarrow> limiter \<Rightarrow> bool" where
  "blocked_till ip t s \<longleftrightarrow> (\<exists>b. ip_blocks s ip = Some b \<and> t \<le> b \<and> b \<noteq> 0)"

lemma blocked_check:
  assumes "blocked_till ip t s" "now < t"
  shows "check_ip_blocked ip now s = (Some ''ip_blocked'', s)"
  using assms by (auto simp: blocked_till_def check_ip_blocked_def)

lemma ip_blocks_check: "ip_blocks (snd (check_rate_limits l k tool j now s)) = ip_blocks (snd (check_ip_blocked j now s))"
  by (auto simp: check_rate_limits_def check_global_def check_token_def check_sql_def split: prod.splits option.splits)

lemma ip_blocks_record: "ip_blocks (record_request k tool now s) = ip_blocks s"
  by (simp add: record_request_def Let_def)

lemma blocked_after_check:
  "blocked_till ip t s \<Longrightarrow> now < t \<Longrightarrow> blocked_till ip t (snd (check_ip_blocked j now s))"
  by (auto simp: blocked_till_def check_ip_blocked_def split: option.splits)

lemma blocked_after_failure:
  "blocked_till ip t s \<Longrightarrow> t \<le> now + seconds (ip_block_duration_s l) \<Longrightarrow> 0 < t \<Longrightarrow>
   blocked_till ip t (snd (record_auth_failure l j now s))"
  by (auto simp: blocked_till_def record_auth_failure_def Let_def split: prod.split)

lemma blocked_step:
  assumes "blocked_till ip t (lim r)" "0 < t"
    and "case op_time x of None \<Rightarrow> True | Some u \<Rightarrow> u < t \<and> t \<le> u + seconds (ip_block_duration_s l)"
  shows "blocked_till ip t (lim (limiter_step l r x))"
proof (cases x)
  case (Request k tool j now)
  have "blocked_till ip t (snd (check_ip_blocked j now (lim r)))"
    using assms Request by (simp add: blocked_after_check)
  then have "blocked_till ip t (snd (check_rate_limits l k tool j now (lim r)))"
    unfolding blocked_till_def ip_blocks_check .
  then show ?thesis
    by (auto simp: Request blocked_till_def ip_blocks_record split: prod.splits option.splits)
next
  case (Acquire k)
  then show ?thesis using assms by (auto simp: acquire_concurrency_def blocked_till_def)
next
  case (Release k)
  then show ?thesis using assms by (auto simp: release_concurrency_def blocked_till_def)
qed (use assms in \<open>simp_all add: blocked_after_failure blocked_after_check\<close>)

lemma blocked_run:
  assumes "blocked_till ip t (lim r)" "0 < t"
    and "list_all (\<lambda>x. case op_time x of None \<Rightarrow> True | Some u \<Rightarrow> u < t \<and> t \<le> u + seconds (ip_block_duration_s l)) xs"
  shows "blocked_till ip t (lim (foldl (limiter_step l) r xs))"
  using assms by (induction xs arbitrary: r) (simp_all add: blocked_step)

section \<open>Concurrency\<close>

definition slots_ok :: "limits \<Rightarrow> limiter \<Rightarrow> bool" where
  "slots_ok l s \<longleftrightarrow> (\<forall>k. 0 \<le> concurrency s k \<and> concurrency s k \<le> max_concurrent_per_token l)"

lemma concurrency_others:
  "concurrency (snd (check_rate_limits l k tool ip now s)) = concurrency s"
  "concurrency (snd (check_ip_blocked ip now s)) = concurrency s"
  "concurrency (snd (record_auth_failure l ip now s)) = concurrency s"
  "concurrency (record_request k tool now s) = concurrency s"
  by (auto simp: check_rate_limits_def check_ip_blocked_def check_global_def check_token_def check_sql_def
      record_request_def record_auth_failure_def count_and_record_def count_in_window_def Let_def
      split: prod.splits option.splits)

lemma slots_step:
  assumes "slots_ok l (lim r)"
  shows "slots_ok l (lim (limiter_step l r x))"
proof (cases x)
  case (Request k tool ip now)
  obtain res s where c: "check_rate_limits l k tool ip now (lim r) = (res, s)" by fastforce
  have "concurrency (lim (limiter_step l r x)) = concurrency (lim r)"
    using concurrency_others(1) [of l k tool ip now "lim r"]
    by (cases res) (simp_all add: Request c concurrency_others)
  then show ?thesis using assms by (simp add: slots_ok_def)
next
  case (Acquire k)
  then show ?thesis using assms by (auto simp: slots_ok_def acquire_concurrency_def)
next
  case (Release k)
  have "0 \<le> concurrency (lim r) k" "concurrency (lim r) k \<le> max_concurrent_per_token l"
    using assms by (auto simp: slots_ok_def)
  then have "0 \<le> max 0 (concurrency (lim r) k - 1)"
    "max 0 (concurrency (lim r) k - 1) \<le> max_concurrent_per_token l" by linarith+
  then show ?thesis using assms unfolding Release by (simp add: slots_ok_def release_concurrency_def)
qed (use assms in \<open>simp_all add: slots_ok_def concurrency_others\<close>)

section \<open>Properties\<close>

text \<open>Also: for any limits, as long as the clock does not run backwards, in every minute, wherever it
  starts, at most \<open>global_rpm\<close> requests are let through, at most \<open>per_token_rpm\<close> of one token, and
  at most \<open>per_tool_sql_rpm\<close> SQL requests of one token.\<close>

theorem requests_per_minute:
  assumes "clock_ok t ops"
  shows "in_minute u (log_times (\<lambda>_. True) (log (foldl (limiter_step l) (start_run t) ops))) \<le> global_rpm l \<and>
    in_minute u (log_times (of_token k) (log (foldl (limiter_step l) (start_run t) ops))) \<le> per_token_rpm l \<and>
    in_minute u (log_times (sql_of_token k) (log (foldl (limiter_step l) (start_run t) ops))) \<le> per_tool_sql_rpm l"
proof -
  have "limiter_inv l (foldl (limiter_step l) (start_run t) ops)"
    using assms by (intro limiter_run_inv limiter_inv_start) (simp add: start_run_def)
  then show ?thesis by (simp add: limiter_inv_def win_ok_def)
qed

theorem requests_per_minute_witness:
  "in_minute (seconds 60) (log_times (\<lambda>_. True) (log (foldl (limiter_step (default_limits\<lparr>global_rpm := 2\<rparr>)) (start_run 0)
     (map (\<lambda>n. Request ''k'' ''sql'' ''ip'' (seconds n)) [1, 2, 3, 61, 62, 63])))) \<le> 2"
proof -
  have "clock_ok 0 (map (\<lambda>n. Request ''k'' ''sql'' ''ip'' (seconds n)) [1, 2, 3, 61, 62, 63])" by simp
  from requests_per_minute [OF this, of "seconds 60" "default_limits\<lparr>global_rpm := 2\<rparr>"]
  show "in_minute (seconds 60) (log_times (\<lambda>_. True) (log (foldl (limiter_step (default_limits\<lparr>global_rpm := 2\<rparr>)) (start_run 0)
     (map (\<lambda>n. Request ''k'' ''sql'' ''ip'' (seconds n)) [1, 2, 3, 61, 62, 63])))) \<le> 2" by simp
qed

text \<open>Also: an authentication failure blocks its address exactly when it is at least the fifth
  (\<open>per_ip_auth_fail_limit\<close>-th) failure of that address within the last minute.\<close>

theorem auth_failure_blocks:
  assumes "clock_ok t (ops @ [AuthFailure ip now])"
  shows "fst (record_auth_failure l ip now (lim (foldl (limiter_step l) (start_run t) ops))) = Some ''ip_blocked'' \<longleftrightarrow>
    per_ip_auth_fail_limit l \<le> Suc (in_minute now (fail_times ip (fails (foldl (limiter_step l) (start_run t) ops))))"
proof -
  let ?r = "foldl (limiter_step l) (start_run t) ops"
  have c: "clock_ok t ops" "clock ?r \<le> now"
    using clock_ok_append [OF assms] by (simp_all add: start_run_def)
  have "limiter_inv l ?r"
    using c(1) by (intro limiter_run_inv limiter_inv_start) (simp add: start_run_def)
  then have "win_agrees (seconds 60) now (ip_fail_windows (lim ?r) ip) (fail_times ip (fails ?r))"
    using c(2) by (auto simp: limiter_inv_def intro: win_agrees_later)
  from win_agrees_count [OF this] show ?thesis
    by (simp add: record_auth_failure_def count_and_record_def Let_def)
qed

theorem auth_failure_blocks_witness:
  "fst (record_auth_failure default_limits ''ip'' (seconds 61) (lim (foldl (limiter_step default_limits) (start_run 0)
     (map (\<lambda>n. AuthFailure ''ip'' (seconds n)) [2, 3, 4, 5])))) = Some ''ip_blocked''"
proof -
  have ok: "clock_ok 0 (map (\<lambda>n. AuthFailure ''ip'' (seconds n)) [2, 3, 4, 5] @ [AuthFailure ''ip'' (seconds 61)])" by simp
  have "per_ip_auth_fail_limit default_limits \<le> Suc (in_minute (seconds 61) (fail_times ''ip'' (fails (foldl
     (limiter_step default_limits) (start_run 0) (map (\<lambda>n. AuthFailure ''ip'' (seconds n)) [2, 3, 4, 5])))))"
    by code_simp
  with auth_failure_blocks [OF ok] show ?thesis by blast
qed

text \<open>Also: once an authentication failure has blocked an address, every check for that address is
  refused until the block duration is over, whatever other requests, failures and block checks
  come in between.\<close>

theorem ip_block_holds:
  assumes "record_auth_failure l ip now (lim r) = (Some e, s)" and "0 < now"
    and "list_all (\<lambda>x. case op_time x of None \<Rightarrow> True
           | Some u \<Rightarrow> now \<le> u \<and> u < now + seconds (ip_block_duration_s l)) ops"
    and "now \<le> u" and "u < now + seconds (ip_block_duration_s l)"
  shows "fst (check_rate_limits l k tool ip u (lim (foldl (limiter_step l) (r\<lparr>lim := s\<rparr>) ops))) = Some ''ip_blocked''"
proof -
  let ?t = "now + seconds (ip_block_duration_s l)"
  have pos: "0 < ?t" using assms(2,4,5) by simp
  have "blocked_till ip ?t s"
    using assms(1) pos by (auto simp: record_auth_failure_def blocked_till_def Let_def split: prod.splits if_splits)
  then have "blocked_till ip ?t (lim (foldl (limiter_step l) (r\<lparr>lim := s\<rparr>) ops))"
    using assms(3) pos by (intro blocked_run) (auto simp: list_all_iff split: option.splits)
  then show ?thesis using assms(5) by (simp add: check_rate_limits_def blocked_check)
qed

theorem ip_block_holds_witness:
  "fst (check_rate_limits (default_limits\<lparr>per_ip_auth_fail_limit := 1\<rparr>) ''k'' ''sql'' ''ip'' (seconds 300)
     (lim (foldl (limiter_step (default_limits\<lparr>per_ip_auth_fail_limit := 1\<rparr>))
       ((start_run 0)\<lparr>lim := snd (record_auth_failure (default_limits\<lparr>per_ip_auth_fail_limit := 1\<rparr>) ''ip'' (seconds 1) new_limiter)\<rparr>)
       [IpCheck ''ip'' (seconds 9), Release ''k'']))) = Some ''ip_blocked''"
proof -
  let ?l = "default_limits\<lparr>per_ip_auth_fail_limit := 1\<rparr>"
  have "fst (record_auth_failure ?l ''ip'' (seconds 1) (lim (start_run 0))) = Some ''ip_blocked''" by code_simp
  then have e: "record_auth_failure ?l ''ip'' (seconds 1) (lim (start_run 0))
      = (Some ''ip_blocked'', snd (record_auth_failure ?l ''ip'' (seconds 1) new_limiter))"
    by (simp add: prod_eq_iff start_run_def)
  show ?thesis
    by (rule ip_block_holds [OF e]) (simp_all add: default_limits_def seconds_def)
qed

text \<open>Also: for any number of acquisitions and releases, matched or not, a token never holds more than
  \<open>max_concurrent_per_token\<close> slots and never fewer than none.\<close>

theorem concurrency_bounded:
  assumes "0 \<le> max_concurrent_per_token l"
  shows "slots_ok l (lim (foldl (limiter_step l) (start_run t) ops))"
proof -
  have "slots_ok l (lim r) \<Longrightarrow> slots_ok l (lim (foldl (limiter_step l) r xs))" for r xs
    by (induction xs arbitrary: r) (simp_all add: slots_step)
  then show ?thesis using assms by (simp add: start_run_def new_limiter_def slots_ok_def)
qed

theorem concurrency_bounded_witness:
  "concurrency (lim (foldl (limiter_step default_limits) (start_run 0) (replicate 5 (Acquire ''k'')))) ''k'' \<le> 3"
proof -
  have "0 \<le> max_concurrent_per_token default_limits" by (simp add: default_limits_def)
  from concurrency_bounded [OF this] show ?thesis by (simp only: slots_ok_def) (simp add: default_limits_def)
qed

end
