(* ===== verification/Connectivity_Token.thy ===== *)
theory Connectivity_Token
  imports Prelude
begin

text \<open>
  Tokens of external connectivity, \<open>app/services/connectivity_token_service.py\<close> over the table of
  \<open>app/models/connectivity.py\<close>: parsing, verification, creation, revocation and listing. The keyed
  digest (HMAC-SHA256 under the pepper) and the random identifiers and secrets are arguments.
\<close>

section \<open>The table\<close>

text \<open>\<open>tr_scopes\<close> is the decoded \<open>scopes\<close> column, \<open>None\<close> when it is not JSON.\<close>

record token_row =
  tr_id :: string
  tr_label :: string
  tr_hmac_hash :: string
  tr_secret_last4 :: string
  tr_scopes :: "string list option"
  tr_created_at :: time
  tr_expires_at :: "time option"
  tr_last_used_at :: "time option"
  tr_request_count :: int
  tr_is_revoked :: bool
  tr_revoked_at :: "time option"

type_synonym token_table = "token_row list"

record connectivity_token =
  ct_id :: string
  ct_label :: string
  ct_scopes :: "string list"
  ct_secret_last4 :: string
  ct_created_at :: time
  ct_expires_at :: "time option"
  ct_last_used_at :: "time option"
  ct_request_count :: int
  ct_is_revoked :: bool

datatype token_error = TokenError string string

definition VALID_SCOPES :: "string list" where
  "VALID_SCOPES = [''ext:sql'', ''ext:schema'', ''ext:datasets'', ''ext:profile'', ''ext:pii'']"

text \<open>\<open>session.get(ConnectivityTokenRecord, token_id)\<close>\<close>

definition get_row :: "token_table \<Rightarrow> string \<Rightarrow> token_row option" where
  "get_row t i = find (\<lambda>r. tr_id r = i) t"

section \<open>Parsing\<close>

definition alnum :: "char \<Rightarrow> bool" where
  "alnum c \<longleftrightarrow> (CHR ''a'' \<le> c \<and> c \<le> CHR ''z'') \<or> (CHR ''A'' \<le> c \<and> c \<le> CHR ''Z'') \<or>
     (CHR ''0'' \<le> c \<and> c \<le> CHR ''9'')"

definition lower_hex :: "char \<Rightarrow> bool" where
  "lower_hex c \<longleftrightarrow> (CHR ''a'' \<le> c \<and> c \<le> CHR ''f'') \<or> (CHR ''0'' \<le> c \<and> c \<le> CHR ''9'')"

text \<open>A pattern \<open>^[\<dots>]{n}$\<close> under \<open>match\<close>: the \<open>$\<close> also accepts a final newline.\<close>

definition pattern_match :: "(char \<Rightarrow> bool) \<Rightarrow> nat \<Rightarrow> string \<Rightarrow> bool" where
  "pattern_match p n s \<longleftrightarrow> length (takeWhile p (take n s)) = n \<and> (drop n s = [] \<or> drop n s = [CHR 0x0A])"

definition TOKEN_PREFIX :: string where "TOKEN_PREFIX = ''vzmcp_''"

definition invalid_format :: token_error where
  "invalid_format = TokenError ''auth_invalid'' ''Invalid token format''"

definition parse_token :: "string \<Rightarrow> token_error + string \<times> string" where
  "parse_token raw_token =
     (if \<not> starts_with TOKEN_PREFIX raw_token then Inl invalid_format
      else (case split_on CHR ''_'' raw_token of
              [_, token_id, secret] \<Rightarrow>
                (if \<not> pattern_match alnum 8 token_id then Inl invalid_format
                 else if \<not> pattern_match lower_hex 32 secret then Inl invalid_format
                 else Inr (token_id, secret))
            | _ \<Rightarrow> Inl invalid_format))"

section \<open>Verification\<close>

definition scopes_of :: "token_row \<Rightarrow> string list" where
  "scopes_of r = (case tr_scopes r of Some s \<Rightarrow> s | None \<Rightarrow> VALID_SCOPES)"

definition token_of :: "token_row \<Rightarrow> connectivity_token" where
  "token_of r = \<lparr>ct_id = tr_id r, ct_label = tr_label r, ct_scopes = scopes_of r,
     ct_secret_last4 = tr_secret_last4 r, ct_created_at = tr_created_at r, ct_expires_at = tr_expires_at r,
     ct_last_used_at = tr_last_used_at r, ct_request_count = tr_request_count r, ct_is_revoked = tr_is_revoked r\<rparr>"

definition touch :: "time \<Rightarrow> token_row \<Rightarrow> token_row" where
  "touch now r = r\<lparr>tr_last_used_at := Some now, tr_request_count := tr_request_count r + 1\<rparr>"

definition verify_token ::
  "(string \<Rightarrow> string) \<Rightarrow> string \<Rightarrow> time \<Rightarrow> token_table \<Rightarrow> (token_error + connectivity_token) \<times> token_table" where
  "verify_token hmac_hash raw_token now t =
     (case parse_token raw_token of
        Inl e \<Rightarrow> (Inl e, t)
      | Inr (token_id, secret) \<Rightarrow>
          (case get_row t token_id of
             None \<Rightarrow> (Inl (TokenError ''auth_invalid'' ''Unknown token''), t)
           | Some r \<Rightarrow>
               if tr_hmac_hash r \<noteq> hmac_hash secret then (Inl (TokenError ''auth_invalid'' ''Invalid token''), t)
               else if tr_is_revoked r then (Inl (TokenError ''auth_revoked'' ''Token has been revoked''), t)
               else if (case tr_expires_at r of Some e \<Rightarrow> now > e | None \<Rightarrow> False)
               then (Inl (TokenError ''auth_expired'' ''Token has expired''), t)
               else (Inr (token_of (touch now r)), update_where (\<lambda>q. tr_id q = token_id) (touch now) t)))"

section \<open>Creation, revocation, listing\<close>

definition active_count :: "token_table \<Rightarrow> nat" where
  "active_count t = rowcount (\<lambda>r. \<not> tr_is_revoked r) t"

text \<open>\<open>candidates\<close> are the generated identifiers (at most ten are tried), \<open>secret\<close> the generated secret.\<close>

definition create_token ::
  "(string \<Rightarrow> string) \<Rightarrow> string list \<Rightarrow> string \<Rightarrow> time \<Rightarrow> string \<Rightarrow> string list option \<Rightarrow> time option \<Rightarrow> nat
     \<Rightarrow> token_table \<Rightarrow> (token_error + string \<times> connectivity_token) \<times> token_table" where
  "create_token hmac_hash candidates secret now label scopes expires_at max_tokens t =
     (let scopes = (case scopes of None \<Rightarrow> VALID_SCOPES | Some s \<Rightarrow> s);
          invalid = filter (\<lambda>s. s \<notin> set VALID_SCOPES) scopes
      in if invalid \<noteq> []
         then (Inl (TokenError ''scope_denied'' (''Invalid scopes: '' @
                 join '', '' (sort (remdups invalid)))), t)
         else if active_count t \<ge> max_tokens
         then (Inl (TokenError ''rate_limited'' (''Maximum '' @ show_nat max_tokens @ 
                 '' active tokens allowed. Revoke an existing token first.'')), t)
         else (case find (\<lambda>i. get_row t i = None) (take 10 candidates) of
                 None \<Rightarrow> (Inl (TokenError ''internal_error'' ''Failed to generate unique token ID''), t)
               | Some token_id \<Rightarrow>
                   (let row = \<lparr>tr_id = token_id, tr_label = label, tr_hmac_hash = hmac_hash secret,
                               tr_secret_last4 = drop (length secret - 4) secret, tr_scopes = Some scopes,
                               tr_created_at = now, tr_expires_at = expires_at, tr_last_used_at = None,
                               tr_request_count = 0, tr_is_revoked = False, tr_revoked_at = None\<rparr>
                    in (Inr (TOKEN_PREFIX @ token_id @ ''_'' @ secret, token_of row), t @ [row]))))"

definition revoke_token :: "string \<Rightarrow> time \<Rightarrow> token_table \<Rightarrow> (token_error + connectivity_token) \<times> token_table" where
  "revoke_token token_id now t =
     (case get_row t token_id of
        None \<Rightarrow> (Inl (TokenError ''auth_invalid'' ''Token not found''), t)
      | Some r \<Rightarrow>
          if tr_is_revoked r then (Inl (TokenError ''auth_revoked'' ''Token is already revoked''), t)
          else let r' = r\<lparr>tr_is_revoked := True, tr_revoked_at := Some now\<rparr>
               in (Inr (token_of r'), update_where (\<lambda>q. tr_id q = token_id) (\<lambda>_. r') t))"

definition list_tokens :: "token_table \<Rightarrow> connectivity_token list" where
  "list_tokens t = map token_of (sort_key (\<lambda>r. - tr_created_at r) t)"

section \<open>Splitting and joining\<close>

lemma alnum_not_sep: "alnum c \<Longrightarrow> c \<noteq> CHR ''_''"
  by (auto simp: alnum_def)

lemma lower_hex_not_sep: "lower_hex c \<Longrightarrow> c \<noteq> CHR ''_''"
  by (auto simp: lower_hex_def)

lemma pattern_match_exact: "length s = n \<Longrightarrow> list_all p s \<Longrightarrow> pattern_match p n s"
proof -
  assume s: "length s = n" "list_all p s"
  have "takeWhile p s = s" using s(2) by (simp add: list_all_iff)
  note tw = arg_cong [where f = length, OF this]
  show ?thesis using s(1) by (simp add: pattern_match_def tw del: takeWhile_eq_all_conv)
qed

lemma parse_issued:
  assumes "length i = 8" "list_all alnum i" "length s = 32" "list_all lower_hex s"
  shows "parse_token (TOKEN_PREFIX @ i @ ''_'' @ s) = Inr (i, s)"
proof -
  have i: "CHR ''_'' \<notin> set i" and s: "CHR ''_'' \<notin> set s"
    using assms(2,4) alnum_not_sep lower_hex_not_sep by (auto simp: list_all_iff)
  have "split_on CHR ''_'' (TOKEN_PREFIX @ i @ ''_'' @ s) = [''vzmcp'', i, s]"
    using split_on_append [of "CHR ''_''" "''vzmcp''" "i @ ''_'' @ s"] split_on_append [OF i, of s]
      split_on_no_sep [OF s] by (simp add: TOKEN_PREFIX_def)
  then show ?thesis
    using assms by (simp add: parse_token_def pattern_match_exact)
qed

section \<open>Rows under the operations\<close>

lemma get_row_Some: "get_row t i = Some r \<Longrightarrow> r \<in> set t \<and> tr_id r = i"
  by (auto simp: get_row_def find_Some_iff)

lemma get_row_None: "get_row t i = None \<longleftrightarrow> i \<notin> tr_id ` set t"
  by (auto simp: get_row_def find_None_iff)

lemma get_row_update:
  "(\<And>r. tr_id (f r) = tr_id r) \<Longrightarrow>
   get_row (update_where (\<lambda>q. tr_id q = j) f t) i = map_option (\<lambda>r. if i = j then f r else r) (get_row t i)"
  by (induction t) (auto simp: get_row_def)

lemma get_row_append: "get_row (t @ [r]) i = (case get_row t i of Some q \<Rightarrow> Some q | None \<Rightarrow> if tr_id r = i then Some r else None)"
  by (induction t) (auto simp: get_row_def)

lemma touch_id [simp]: "tr_id (touch now r) = tr_id r" "tr_is_revoked (touch now r) = tr_is_revoked r"
  "tr_hmac_hash (touch now r) = tr_hmac_hash r" "tr_expires_at (touch now r) = tr_expires_at r"
  "scopes_of (touch now r) = scopes_of r"
  by (simp_all add: touch_def scopes_of_def)

datatype token_op =
    Verify string time
  | Create "string list" string time string "string list option" "time option"
  | Revoke string time

fun token_step :: "(string \<Rightarrow> string) \<Rightarrow> nat \<Rightarrow> token_table \<Rightarrow> token_op \<Rightarrow> token_table" where
  "token_step h n t (Verify raw now) = snd (verify_token h raw now t)"
| "token_step h n t (Create cs secret now label scopes expires) = snd (create_token h cs secret now label scopes expires n t)"
| "token_step h n t (Revoke i now) = snd (revoke_token i now t)"

text \<open>What every operation keeps: identifiers are unique and at most \<open>n\<close> tokens are active.\<close>

definition token_inv :: "nat \<Rightarrow> token_table \<Rightarrow> bool" where
  "token_inv n t \<longleftrightarrow> distinct (map tr_id t) \<and> active_count t \<le> n"

lemma active_count_append: "active_count (t @ [r]) = active_count t + (if tr_is_revoked r then 0 else 1)"
  by (simp add: active_count_def rowcount_def)

lemma active_count_mono:
  "(\<And>r. tr_is_revoked r \<Longrightarrow> tr_is_revoked (f r)) \<Longrightarrow> active_count (update_where p f t) \<le> active_count t"
  by (induction t) (auto simp: active_count_def rowcount_def le_Suc_eq)

lemma map_id_update: "(\<And>r. p r \<Longrightarrow> tr_id (f r) = tr_id r) \<Longrightarrow> map tr_id (update_where p f t) = map tr_id t"
  by (rule map_update_where_key)

lemma verify_table: "snd (verify_token h raw now t) = t \<or>
    (\<exists>i. snd (verify_token h raw now t) = update_where (\<lambda>q. tr_id q = i) (touch now) t)"
  by (auto simp: verify_token_def split: sum.split option.split)

lemma revoke_table: "snd (revoke_token i now t) = t \<or>
    (\<exists>r. get_row t i = Some r \<and> snd (revoke_token i now t) =
       update_where (\<lambda>q. tr_id q = i) (\<lambda>_. r\<lparr>tr_is_revoked := True, tr_revoked_at := Some now\<rparr>) t)"
  by (auto simp: revoke_token_def Let_def split: option.split)

lemma create_table: "snd (create_token h cs secret now label scopes expires n t) = t \<or>
    (\<exists>r. snd (create_token h cs secret now label scopes expires n t) = t @ [r] \<and> get_row t (tr_id r) = None \<and>
       active_count t < n \<and> \<not> tr_is_revoked r)"
  by (auto simp: create_token_def Let_def find_Some_iff split: option.split)

lemma token_step_inv: "token_inv n t \<Longrightarrow> token_inv n (token_step h n t x)"
proof (cases x)
  case (Verify raw now)
  assume inv: "token_inv n t"
  have "active_count (update_where p (touch now) t) \<le> n" for p
    using active_count_mono [of "touch now" p t] inv by (simp add: token_inv_def)
  then show ?thesis
    using inv verify_table [of h raw now t] map_id_update [of _ "touch now" t]
    by (auto simp: Verify token_inv_def)
next
  case (Revoke i now)
  assume inv: "token_inv n t"
  from revoke_table [of i now t] show ?thesis
  proof
    assume "\<exists>r. get_row t i = Some r \<and> snd (revoke_token i now t) =
       update_where (\<lambda>q. tr_id q = i) (\<lambda>_. r\<lparr>tr_is_revoked := True, tr_revoked_at := Some now\<rparr>) t"
    then obtain r where r: "get_row t i = Some r" and e: "snd (revoke_token i now t) =
       update_where (\<lambda>q. tr_id q = i) (\<lambda>_. r\<lparr>tr_is_revoked := True, tr_revoked_at := Some now\<rparr>) t" by blast
    have "map tr_id (update_where (\<lambda>q. tr_id q = i) (\<lambda>_. r\<lparr>tr_is_revoked := True, tr_revoked_at := Some now\<rparr>) t) = map tr_id t"
      using get_row_Some [OF r] by (intro map_id_update) auto
    moreover have "active_count (update_where (\<lambda>q. tr_id q = i) (\<lambda>_. r\<lparr>tr_is_revoked := True, tr_revoked_at := Some now\<rparr>) t)
        \<le> active_count t"
      by (rule active_count_mono) simp
    ultimately show ?thesis using inv by (auto simp: Revoke e token_inv_def)
  qed (use inv in \<open>simp add: Revoke\<close>)
next
  case (Create cs secret now label scopes expires)
  assume "token_inv n t"
  then show ?thesis
    using create_table [of h cs secret now label scopes expires n t]
    by (auto simp: Create token_inv_def active_count_append get_row_None)
qed

interpretation tokens: step_system "[]" "token_step h n" "token_inv n" for h n
  by unfold_locales (simp add: token_inv_def active_count_def rowcount_def, rule token_step_inv)

text \<open>Revocation is never undone.\<close>

definition revoked :: "string \<Rightarrow> token_table \<Rightarrow> bool" where
  "revoked i t \<longleftrightarrow> (\<exists>r. get_row t i = Some r \<and> tr_is_revoked r)"

lemma revoked_step:
  assumes "revoked i t" shows "revoked i (token_step h n t x)"
proof (cases x)
  case (Verify raw now)
  then show ?thesis
    using assms verify_table [of h raw now t] by (auto simp: revoked_def get_row_update)
next
  case (Create cs secret now label scopes expires)
  then show ?thesis
    using assms create_table [of h cs secret now label scopes expires n t]
    by (auto simp: revoked_def get_row_append)
next
  case (Revoke j now)
  show ?thesis
  proof (cases "get_row t j")
    case None
    then show ?thesis using assms by (simp add: Revoke revoke_token_def)
  next
    case (Some r)
    define f where "f q = (if tr_id q = j then r\<lparr>tr_is_revoked := True, tr_revoked_at := Some now\<rparr> else q)" for q
    have u: "update_where (\<lambda>q. tr_id q = j) (\<lambda>_. r\<lparr>tr_is_revoked := True, tr_revoked_at := Some now\<rparr>) t
        = update_where (\<lambda>q. tr_id q = j) f t"
      by (simp add: update_where_def f_def)
    have "tr_id (f q) = tr_id q" for q using get_row_Some [OF Some] by (simp add: f_def)
    then show ?thesis
      using assms revoke_table [of j now t] Some
      by (auto simp: Revoke revoked_def u get_row_update) (simp add: f_def)+
  qed
qed

text \<open>So the set of revoked identifiers is a rank that no operation lowers.\<close>

definition revoked_ids :: "token_table \<Rightarrow> string set" where
  "revoked_ids t = {i. revoked i t}"

interpretation revocation: ranked_system "[]" "token_step h n" "\<lambda>_. True" revoked_ids for h n
  by unfold_locales (auto simp: revoked_ids_def intro: revoked_step)

lemma revoked_run: "revoked i t \<Longrightarrow> revoked i (foldl (token_step h n) t xs)"
  using revocation.run_rank_from [of t h n xs] by (auto simp: revoked_ids_def)

lemma revoke_revokes:
  assumes "revoke_token i now t = (Inr tok, t')"
  shows "revoked i t'"
proof -
  obtain r where r: "get_row t i = Some r" using assms by (auto simp: revoke_token_def split: option.splits)
  define f where "f q = (if tr_id q = i then r\<lparr>tr_is_revoked := True, tr_revoked_at := Some now\<rparr> else q)" for q
  have t': "t' = update_where (\<lambda>q. tr_id q = i) f t"
    using assms r by (auto simp: revoke_token_def Let_def update_where_def f_def split: if_splits)
  have "tr_id (f q) = tr_id q" for q using get_row_Some [OF r] by (simp add: f_def)
  then have "get_row t' i = Some (f r)" using r by (simp add: t' get_row_update)
  then show ?thesis using get_row_Some [OF r] by (simp add: revoked_def f_def)
qed

section \<open>Properties\<close>

text \<open>Also: in any history of creations, verifications and revocations with a limit of \<open>n\<close> active
  tokens, no identifier is issued twice and never more than \<open>n\<close> tokens are active.\<close>

theorem active_tokens_bounded:
  "distinct (map tr_id (foldl (token_step h n) [] ops)) \<and> active_count (foldl (token_step h n) [] ops) \<le> n"
  using tokens.run_inv [of n h ops] by (simp add: token_inv_def)

text \<open>Also: a token that was just created is accepted, with the scopes it was created with and a use
  count of one, until it expires; what is generated is an eight-character identifier and 32
  hexadecimal digits.\<close>

theorem created_token_verifies:
  assumes "create_token h candidates secret now label scopes expires n t = (Inr (raw, tok), t')"
    and "\<forall>i \<in> set candidates. length i = 8 \<and> list_all alnum i"
    and "length secret = 32" and "list_all lower_hex secret"
    and "case expires of None \<Rightarrow> True | Some e \<Rightarrow> later \<le> e"
  shows "fst (verify_token h raw later t') = Inr (tok\<lparr>ct_last_used_at := Some later, ct_request_count := 1\<rparr>)"
proof -
  obtain i where i: "find (\<lambda>i. get_row t i = None) (take 10 candidates) = Some i"
    using assms(1) by (auto simp: create_token_def Let_def split: if_splits option.splits)
  then have "i \<in> set candidates" and fresh: "get_row t i = None"
    by (auto simp: find_Some_iff intro: in_set_takeD)
  then have p: "parse_token (TOKEN_PREFIX @ i @ ''_'' @ secret) = Inr (i, secret)"
    using assms(2-4) by (intro parse_issued) auto
  show ?thesis
    using assms(1,5) i fresh p
    by (auto simp: create_token_def Let_def verify_token_def get_row_append token_of_def touch_def scopes_of_def
        split: if_splits option.splits)
qed

definition sample_secret :: string where "sample_secret = replicate 32 CHR ''a''"

theorem created_token_verifies_witness:
  "fst (verify_token rev (''vzmcp_abcdefgh_'' @ sample_secret) 5
      (snd (create_token rev [''abcdefgh''] sample_secret 0 ''l'' (Some [''ext:sql'']) (Some 5) 10 [])))
    = Inr \<lparr>ct_id = ''abcdefgh'', ct_label = ''l'', ct_scopes = [''ext:sql''], ct_secret_last4 = ''aaaa'',
        ct_created_at = 0, ct_expires_at = Some 5, ct_last_used_at = Some 5, ct_request_count = 1,
        ct_is_revoked = False\<rparr>"
proof -
  let ?tok = "\<lparr>ct_id = ''abcdefgh'', ct_label = ''l'', ct_scopes = [''ext:sql''], ct_secret_last4 = ''aaaa'',
        ct_created_at = 0, ct_expires_at = Some 5, ct_last_used_at = None, ct_request_count = 0, ct_is_revoked = False\<rparr>"
  have "fst (create_token rev [''abcdefgh''] sample_secret 0 ''l'' (Some [''ext:sql'']) (Some 5) 10 [])
      = Inr (''vzmcp_abcdefgh_'' @ sample_secret, ?tok)"
    by code_simp
  then have c: "create_token rev [''abcdefgh''] sample_secret 0 ''l'' (Some [''ext:sql'']) (Some 5) 10 []
      = (Inr (''vzmcp_abcdefgh_'' @ sample_secret, ?tok),
         snd (create_token rev [''abcdefgh''] sample_secret 0 ''l'' (Some [''ext:sql'']) (Some 5) 10 []))"
    by (simp add: prod_eq_iff)
  have "fst (verify_token rev (''vzmcp_abcdefgh_'' @ sample_secret) 5
      (snd (create_token rev [''abcdefgh''] sample_secret 0 ''l'' (Some [''ext:sql'']) (Some 5) 10 [])))
     = Inr (?tok\<lparr>ct_last_used_at := Some 5, ct_request_count := 1\<rparr>)"
    by (rule created_token_verifies [OF c]) (simp_all add: sample_secret_def alnum_def lower_hex_def list_all_iff)
  then show ?thesis by simp
qed

text \<open>Also: after a token is revoked, no later history of operations makes its identifier usable
  again: every verification of a token with that identifier fails.\<close>

theorem revoked_token_rejected:
  assumes "revoke_token i now t = (Inr tok, t')" and "parse_token raw = Inr (i, secret)"
  shows "\<exists>e. verify_token h raw later (foldl (token_step h n) t' ops) = (Inl e, foldl (token_step h n) t' ops)"
proof -
  have "revoked i (foldl (token_step h n) t' ops)"
    using revoke_revokes [OF assms(1)] by (rule revoked_run)
  then show ?thesis using assms(2) by (auto simp: verify_token_def revoked_def)
qed

theorem revoked_token_rejected_witness:
  "\<exists>e. fst (verify_token rev (''vzmcp_abcdefgh_'' @ sample_secret) 5 (foldl (token_step rev 10)
     (snd (revoke_token ''abcdefgh'' 1 (snd (create_token rev [''abcdefgh''] sample_secret 0 ''l'' None None 10 []))))
     [Create [''abcdefgh''] sample_secret 2 ''l'' None None])) = Inl e"
proof -
  let ?t = "snd (create_token rev [''abcdefgh''] sample_secret 0 ''l'' None None 10 [])"
  have "isl (fst (revoke_token ''abcdefgh'' 1 ?t)) = False" by code_simp
  then obtain tok where "revoke_token ''abcdefgh'' 1 ?t = (Inr tok, snd (revoke_token ''abcdefgh'' 1 ?t))"
    by (cases "revoke_token ''abcdefgh'' 1 ?t"; cases "fst (revoke_token ''abcdefgh'' 1 ?t)") auto
  moreover have "parse_token (''vzmcp_abcdefgh_'' @ sample_secret) = Inr (''abcdefgh'', sample_secret)"
    by code_simp
  ultimately show ?thesis
    using revoked_token_rejected by (metis fst_conv)
qed

end
