(* ===== verification/Connectivity_State.thy ===== *)
theory Connectivity_State
  imports Prelude
begin

text \<open>
  The persisted opt-in to external connectivity, \<open>app/services/connectivity_state.py\<close>: loading,
  durable enabling and disabling, readiness. The file system answers each attempt to persist
  with success, an error before the file is replaced, or an error after it (the directory
  sync). The close hook is a step on an abstract state of live sessions.
\<close>

section \<open>The object and its file\<close>

text \<open>Absent, a document \<open>{"enabled": b}\<close>, or anything that cannot be read as one.\<close>

datatype state_file = NoStateFile | EnabledFile bool | UnreadableFile

datatype persist_outcome = PersistOk | FailsBefore | FailsAfter

datatype connectivity_error = ConnectivityStateError string

record 'r connectivity =
  enabled :: bool
  state_available :: bool
  transport_available :: bool
  hook_registered :: bool
  sessions :: 'r
  state_file :: state_file
  outcomes :: "persist_outcome list"

record readiness =
  rd_enabled :: bool
  rd_mcp_sse_ready :: bool
  rd_reason :: "string option"

text \<open>\<open>seed\<close> is \<open>settings.connectivity_enabled\<close>.\<close>

definition load_state :: "bool \<Rightarrow> state_file \<Rightarrow> bool \<times> bool" where
  "load_state seed f = (case f of
       EnabledFile b \<Rightarrow> (b, True)
     | NoStateFile \<Rightarrow> (seed, True)
     | UnreadableFile \<Rightarrow> (False, False))"

definition open_connectivity :: "bool \<Rightarrow> state_file \<Rightarrow> persist_outcome list \<Rightarrow> 'r \<Rightarrow> 'r connectivity" where
  "open_connectivity seed f io r =
     \<lparr>enabled = fst (load_state seed f), state_available = snd (load_state seed f),
      transport_available = False, hook_registered = False, sessions = r, state_file = f, outcomes = io\<rparr>"

definition get_readiness :: "'r connectivity \<Rightarrow> readiness" where
  "get_readiness s =
     (if \<not> state_available s
      then \<lparr>rd_enabled = False, rd_mcp_sse_ready = False, rd_reason = Some ''state_unavailable''\<rparr>
      else if \<not> enabled s
      then \<lparr>rd_enabled = False, rd_mcp_sse_ready = False, rd_reason = Some ''disabled''\<rparr>
      else if \<not> transport_available s
      then \<lparr>rd_enabled = True, rd_mcp_sse_ready = False, rd_reason = Some ''transport_unavailable''\<rparr>
      else \<lparr>rd_enabled = True, rd_mcp_sse_ready = True, rd_reason = None\<rparr>)"

definition set_transport_available :: "bool \<Rightarrow> 'r connectivity \<Rightarrow> 'r connectivity" where
  "set_transport_available available s = s\<lparr>transport_available := available\<rparr>"

definition register_close_hook :: "'r connectivity \<Rightarrow> 'r connectivity" where
  "register_close_hook s = s\<lparr>hook_registered := True\<rparr>"

definition persist :: "bool \<Rightarrow> ('r connectivity, connectivity_error, unit) meth" where
  "persist b s =
     (let s' = s\<lparr>outcomes := tl (outcomes s)\<rparr>
      in case (case outcomes s of [] \<Rightarrow> PersistOk | x # _ \<Rightarrow> x) of
           PersistOk \<Rightarrow> (Inr (), s'\<lparr>state_file := EnabledFile b, state_available := True\<rparr>)
         | FailsBefore \<Rightarrow> (Inl (ConnectivityStateError ''state_unavailable''), s')
         | FailsAfter \<Rightarrow> (Inl (ConnectivityStateError ''state_unavailable''), s'\<lparr>state_file := EnabledFile b\<rparr>))"

definition enable :: "('r connectivity, connectivity_error, bool) meth" where
  "enable s =
     (if \<not> state_available s \<or> \<not> transport_available s
      then (Inl (ConnectivityStateError
              (if \<not> state_available s then ''state_unavailable'' else ''mcp_unavailable'')), s)
      else if \<not> enabled s
      then seq (persist True) (\<lambda>_ s'. (Inr True, s'\<lparr>enabled := True\<rparr>)) s
      else (Inr False, s))"

text \<open>\<open>hook\<close> is what the registered close hook does to the live sessions.\<close>

definition run_close_hook :: "('r \<Rightarrow> 'r) \<Rightarrow> 'r connectivity \<Rightarrow> 'r connectivity" where
  "run_close_hook hook s = (if hook_registered s then s\<lparr>sessions := hook (sessions s)\<rparr> else s)"

definition disable :: "('r \<Rightarrow> 'r) \<Rightarrow> ('r connectivity, connectivity_error, bool) meth" where
  "disable hook s =
     (if \<not> state_available s then (Inl (ConnectivityStateError ''state_unavailable''), s)
      else if enabled s
      then seq (persist False) (\<lambda>_ s'. (Inr True, run_close_hook hook (s'\<lparr>enabled := False\<rparr>))) s
      else (Inr False, run_close_hook hook s))"

definition shutdown :: "('r \<Rightarrow> 'r) \<Rightarrow> 'r connectivity \<Rightarrow> 'r connectivity" where
  "shutdown hook s = run_close_hook hook s"

section \<open>Histories\<close>

text \<open>Operations and restarts; a restart loads what is on disk and starts with no sessions.\<close>

datatype conn_op = Enable | Disable | Shutdown | SetTransport bool | Restart bool

fun conn_step :: "('r \<Rightarrow> 'r) \<Rightarrow> 'r \<Rightarrow> 'r connectivity \<Rightarrow> conn_op \<Rightarrow> 'r connectivity" where
  "conn_step hook fresh s Enable = snd (enable s)"
| "conn_step hook fresh s Disable = snd (disable hook s)"
| "conn_step hook fresh s Shutdown = shutdown hook s"
| "conn_step hook fresh s (SetTransport b) = register_close_hook (set_transport_available b s)"
| "conn_step hook fresh s (Restart seed) = open_connectivity seed (state_file s) (outcomes s) fresh"

text \<open>The live bit is never set while the state is unavailable; the live bit and the file agree.\<close>

definition fail_closed :: "'r connectivity \<Rightarrow> bool" where
  "fail_closed s \<longleftrightarrow> (enabled s \<longrightarrow> state_available s)"

definition in_step :: "'r connectivity \<Rightarrow> bool" where
  "in_step s \<longleftrightarrow> fail_closed s \<and> (\<forall>b. state_file s = EnabledFile b \<longrightarrow> enabled s = b)"

lemma outcomes_tl: "FailsAfter \<notin> set (outcomes s) \<Longrightarrow> FailsAfter \<notin> set (tl (outcomes s))"
  by (cases "outcomes s") auto

lemma fail_closed_step: "fail_closed s \<Longrightarrow> fail_closed (conn_step hook fresh s x)"
  by (cases x)
    (auto simp: fail_closed_def enable_def disable_def shutdown_def run_close_hook_def persist_def Let_def
      open_connectivity_def load_state_def register_close_hook_def set_transport_available_def seq_cases
      split: persist_outcome.splits list.splits state_file.splits)

lemma in_step_step:
  "in_step s \<and> FailsAfter \<notin> set (outcomes s) \<Longrightarrow>
   in_step (conn_step hook fresh s x) \<and> FailsAfter \<notin> set (outcomes (conn_step hook fresh s x))"
  by (cases x)
    (auto simp: in_step_def fail_closed_def enable_def disable_def shutdown_def run_close_hook_def persist_def Let_def
      open_connectivity_def load_state_def register_close_hook_def set_transport_available_def seq_cases
      split: persist_outcome.splits list.splits state_file.splits)

lemma open_fail_closed: "fail_closed (open_connectivity seed f io fresh)"
  by (simp add: fail_closed_def open_connectivity_def load_state_def split: state_file.split)

lemma open_in_step: "in_step (open_connectivity seed f io fresh)"
  by (auto simp: in_step_def fail_closed_def open_connectivity_def load_state_def split: state_file.split)

interpretation conn: step_system "open_connectivity seed f io fresh" "conn_step hook fresh" fail_closed for seed f io fresh hook
  by unfold_locales (rule open_fail_closed, rule fail_closed_step)

section \<open>Properties\<close>

text \<open>Also: external connectivity is fail-closed: starting from any file, readable or not, and under any
  history of operations, restarts and failing writes, the live opt-in bit is set only while the
  state is available, and the transport is reported ready only when it is.\<close>

theorem connectivity_fail_closed:
  "\<not> (enabled (foldl (conn_step hook fresh) (open_connectivity seed f io fresh) ops) \<and>
      \<not> state_available (foldl (conn_step hook fresh) (open_connectivity seed f io fresh) ops)) \<and>
   (rd_mcp_sse_ready (get_readiness (foldl (conn_step hook fresh) (open_connectivity seed f io fresh) ops)) =
     (enabled (foldl (conn_step hook fresh) (open_connectivity seed f io fresh) ops) \<and>
      transport_available (foldl (conn_step hook fresh) (open_connectivity seed f io fresh) ops)))"
proof -
  have "fail_closed (foldl (conn_step hook fresh) (open_connectivity seed f io fresh) ops)"
    by (rule conn.run_inv)
  then show ?thesis by (auto simp: fail_closed_def get_readiness_def)
qed

text \<open>Also: as long as no directory sync fails after the file was replaced, the file and the live bit
  agree whenever there is a file, so a restart does not change what the operator last chose.\<close>

theorem restart_keeps_choice:
  assumes "FailsAfter \<notin> set io"
  shows "case state_file (foldl (conn_step hook fresh) (open_connectivity seed f io fresh) ops) of
       EnabledFile b \<Rightarrow> enabled (foldl (conn_step hook fresh) (open_connectivity seed f io fresh) ops) = b \<and>
         enabled (conn_step hook fresh (foldl (conn_step hook fresh) (open_connectivity seed f io fresh) ops) (Restart seed')) = b
     | _ \<Rightarrow> True"
proof -
  have "in_step s \<and> FailsAfter \<notin> set (outcomes s) \<Longrightarrow>
      in_step (foldl (conn_step hook fresh) s xs)" for s xs
    by (induction xs arbitrary: s) (simp_all add: in_step_step del: conn_step.simps)
  then have "in_step (foldl (conn_step hook fresh) (open_connectivity seed f io fresh) ops)"
    using assms open_in_step [of seed f io fresh] by (simp add: open_connectivity_def)
  then show ?thesis
    by (auto simp: in_step_def open_connectivity_def load_state_def split: state_file.split)
qed

theorem restart_keeps_choice_witness:
  "enabled (foldl (conn_step id ()) (open_connectivity False NoStateFile [FailsBefore] ())
     [SetTransport True, Enable, Enable]) = True"
proof -
  have "FailsAfter \<notin> set [FailsBefore]" by simp
  from restart_keeps_choice [OF this, of id "()" False NoStateFile "[SetTransport True, Enable, Enable]" False]
  show ?thesis
    by (simp add: open_connectivity_def load_state_def register_close_hook_def set_transport_available_def
        enable_def persist_def seq_cases)
qed

text \<open>Also: a disable that returns leaves the opt-in off and has detached the live sessions; if it was
  on, the file says so, and no restart turns it on again. If it was off already nothing is written,
  so on a fresh install a later start with the environment flag set comes up enabled.\<close>

theorem disable_is_durable:
  assumes "disable hook s = (Inr changed, s')" and "hook_registered s"
  shows "\<not> enabled s' \<and> sessions s' = hook (sessions s) \<and> changed = enabled s \<and>
    (if changed then \<not> enabled (open_connectivity seed (state_file s') io fresh)
     else state_file s' = state_file s \<and>
       (state_file s = NoStateFile \<longrightarrow> enabled (open_connectivity True (state_file s') io fresh)))"
  using assms
  by (auto simp: disable_def persist_def run_close_hook_def open_connectivity_def load_state_def seq_cases Let_def
      split: if_splits persist_outcome.splits list.splits)

theorem disable_is_durable_witness:
  "enabled (open_connectivity True (state_file (snd (disable (\<lambda>_. []) (register_close_hook
     (open_connectivity False NoStateFile [] [''s'']))))) [] [])"
proof -
  let ?s = "register_close_hook (open_connectivity False NoStateFile [] [''s''])"
  have e: "\<not> enabled ?s" by (simp add: open_connectivity_def register_close_hook_def load_state_def)
  have d: "disable (\<lambda>_. []) ?s = (Inr False, snd (disable (\<lambda>_. []) ?s))" and f: "state_file ?s = NoStateFile"
    and h: "hook_registered ?s"
    by (simp_all add: disable_def open_connectivity_def register_close_hook_def load_state_def)
  show ?thesis
    using disable_is_durable [OF d h, where io = "[]" and fresh = "[]"] e f by auto
qed

text \<open>Also: when the directory sync fails after the file was replaced, an enable reports an error and
  leaves the live bit off, but the file says enabled and the next start turns connectivity on.\<close>

theorem failed_enable_can_resurface:
  assumes "enabled s = False" "state_available s" "transport_available s" "outcomes s = FailsAfter # io"
  shows "fst (enable s) = Inl (ConnectivityStateError ''state_unavailable'') \<and> \<not> enabled (snd (enable s)) \<and>
    enabled (conn_step hook fresh (snd (enable s)) (Restart seed))"
  using assms by (simp add: enable_def persist_def seq_cases open_connectivity_def load_state_def)

theorem failed_enable_can_resurface_witness:
  "enabled (foldl (conn_step id ()) (open_connectivity False NoStateFile [FailsAfter] ())
     [SetTransport True, Enable, Restart False])"
proof -
  let ?s = "conn_step id () (open_connectivity False NoStateFile [FailsAfter] ()) (SetTransport True)"
  have "enabled ?s = False" "state_available ?s" "transport_available ?s" "outcomes ?s = FailsAfter # []"
    by (simp_all add: open_connectivity_def load_state_def register_close_hook_def set_transport_available_def)
  from failed_enable_can_resurface [OF this, of id "()" False] show ?thesis by (simp del: conn_step.simps(4,5))
qed

end
