(* ===== verification/Mcp_Sessions.thy ===== *)
theory Mcp_Sessions
  imports Connectivity_Token Connectivity_State
begin

text \<open>
  The guard in front of the MCP transport, \<open>app/routers/mcp.py\<close>: admission of GET streams,
  promotion of a stream to a session by its first frame, POST delivery, the watchdog and the
  detach operations, over the token table and the persisted opt-in. The registry of
  reservations and bindings is the state of live sessions that disabling detaches. Every
  critical section under the registry lock is one step; a task and its nonce are one number.
  \<open>parse_qsl\<close> and the ASGI plumbing are outside: a request carries its decoded query items.
\<close>

section \<open>The registry\<close>

record reservation =
  rv_created_at :: time
  rv_first_frame_deadline :: time

record binding =
  bd_token_id :: string
  bd_created_at :: time
  bd_last_validated_activity :: time
  bd_deadline :: time
  bd_owner :: nat
  bd_closing :: bool
  bd_enqueueable :: bool

text \<open>\<open>rg_done\<close>: the tasks that have ended; \<open>rg_cancelled\<close>: the tasks cancelled by close actions.\<close>

record registry =
  rg_reservations :: "(nat \<times> reservation) list"
  rg_bindings :: "(string \<times> binding) list"
  rg_done :: "nat list"
  rg_cancelled :: "nat list"

definition MAX_MCP_CONNECTIONS :: nat where "MAX_MCP_CONNECTIONS = 32"

definition FIRST_FRAME_TIMEOUT :: time where "FIRST_FRAME_TIMEOUT = seconds 10"

definition MAX_FIRST_FRAME_BYTES :: nat where "MAX_FIRST_FRAME_BYTES = 4096"

definition MAX_BINDING :: time where "MAX_BINDING = seconds 3600"

text \<open>A GET stream whose task runs: its token as validated, what it sent so far, its session.\<close>

record stream =
  sm_task :: nat
  sm_raw :: string
  sm_token :: connectivity_token
  sm_first_frame :: string
  sm_session :: "string option"

record mcp_world =
  conn :: "registry connectivity"
  tokens :: token_table
  streams :: "stream list"
  next_task :: nat
  delivered :: "(string \<times> string \<times> time) list"

definition empty_registry :: registry where
  "empty_registry = \<lparr>rg_reservations = [], rg_bindings = [], rg_done = [], rg_cancelled = []\<rparr>"

abbreviation "registry_of w \<equiv> sessions (conn w)"

definition with_registry :: "(registry \<Rightarrow> registry) \<Rightarrow> mcp_world \<Rightarrow> mcp_world" where
  "with_registry f w = w\<lparr>conn := (conn w)\<lparr>sessions := f (sessions (conn w))\<rparr>\<rparr>"

section \<open>Headers, deadlines and the first frame\<close>

definition is_ascii :: "char \<Rightarrow> bool" where
  "is_ascii c \<longleftrightarrow> (of_char c :: nat) < 128"

definition authorization_header :: "(string \<times> string) list \<Rightarrow> string option" where
  "authorization_header headers =
     (case filter (\<lambda>h. map ascii_lower (fst h) = ''authorization'') headers of
        [(_, v)] \<Rightarrow>
          (if \<not> list_all is_ascii v then None
           else (case split_on CHR '' '' v of
                   [scheme, credential] \<Rightarrow>
                     (if map ascii_lower scheme \<noteq> ''bearer'' \<or> credential = [] \<or> CHR '','' \<in> set credential
                      then None else Some credential)
                 | _ \<Rightarrow> None))
      | _ \<Rightarrow> None)"

definition token_deadline :: "time option \<Rightarrow> time \<Rightarrow> time \<Rightarrow> time" where
  "token_deadline expires_at now_wall now_mono =
     (case expires_at of
        None \<Rightarrow> now_mono + MAX_BINDING
      | Some e \<Rightarrow> min (now_mono + MAX_BINDING) (now_mono + max 0 (e - now_wall)))"

text \<open>The text before and after the first occurrence of a marker.\<close>

fun break_at :: "string \<Rightarrow> string \<Rightarrow> (string \<times> string) option" where
  "break_at m s =
     (if take (length m) s = m then Some ([], drop (length m) s)
      else (case s of
              [] \<Rightarrow> None
            | c # cs \<Rightarrow> map_option (\<lambda>(a, b). (c # a, b)) (break_at m cs)))"

declare break_at.simps [simp del]

definition session_id_ok :: "string \<Rightarrow> bool" where
  "session_id_ok s \<longleftrightarrow> length s = 32 \<and> list_all lower_hex s"

text \<open>\<open>_ENDPOINT_FRAME_RE.fullmatch\<close>: the session id of a well-formed endpoint frame.\<close>

definition strip_prefix :: "string \<Rightarrow> string \<Rightarrow> string option" where
  "strip_prefix p s = (if starts_with p s then Some (drop (length p) s) else None)"

definition newline :: "string \<Rightarrow> string option" where
  "newline s = (case strip_prefix [CHR 0x0D, CHR 0x0A] s of
       Some r \<Rightarrow> Some r | None \<Rightarrow> strip_prefix [CHR 0x0A] s)"

definition endpoint_frame :: "string \<Rightarrow> string option" where
  "endpoint_frame s =
     (case strip_prefix ''event: endpoint'' s of None \<Rightarrow> None | Some s1 \<Rightarrow>
     (case newline s1 of None \<Rightarrow> None | Some s2 \<Rightarrow>
     (case strip_prefix ''data: /mcp/messages/?session_id='' s2 of None \<Rightarrow> None | Some s3 \<Rightarrow>
     (if \<not> session_id_ok (take 32 s3) then None
      else (case newline (drop 32 s3) of None \<Rightarrow> None | Some s4 \<Rightarrow>
      (case newline s4 of None \<Rightarrow> None | Some s5 \<Rightarrow>
        if s5 = [] then Some (take 32 s3) else None))))))"

datatype frame_result = FrameIncomplete | FrameRejected | FrameSession string

definition first_frame_result :: "string \<Rightarrow> frame_result" where
  "first_frame_result frame =
     (if length frame > MAX_FIRST_FRAME_BYTES then FrameRejected
      else let marker = (if break_at [CHR 0x0D, CHR 0x0A, CHR 0x0D, CHR 0x0A] frame \<noteq> None
                         then [CHR 0x0D, CHR 0x0A, CHR 0x0D, CHR 0x0A] else [CHR 0x0A, CHR 0x0A])
      in (case break_at marker frame of
            None \<Rightarrow> FrameIncomplete
          | Some (first, remainder) \<Rightarrow>
              (case endpoint_frame (first @ marker) of
                 None \<Rightarrow> FrameRejected
               | Some sid \<Rightarrow> if remainder \<noteq> [] then FrameRejected else FrameSession sid)))"

section \<open>Sweeping and detaching\<close>

definition cancel :: "nat list \<Rightarrow> registry \<Rightarrow> registry" where
  "cancel ts g = g\<lparr>rg_cancelled := rg_cancelled g @ ts\<rparr>"

definition sweep :: "time \<Rightarrow> registry \<Rightarrow> registry" where
  "sweep now g =
     (let stale_r = (\<lambda>(n, r). n \<in> set (rg_done g) \<or> rv_first_frame_deadline r \<le> now);
          stale_b = (\<lambda>(s, b). bd_owner b \<in> set (rg_done g) \<or> bd_deadline b \<le> now)
      in cancel (filter (\<lambda>t. t \<notin> set (rg_done g))
                  (map fst (filter stale_r (rg_reservations g)) @
                   map (bd_owner \<circ> snd) (filter stale_b (rg_bindings g))))
           (g\<lparr>rg_reservations := filter (Not \<circ> stale_r) (rg_reservations g),
              rg_bindings := filter (Not \<circ> stale_b) (rg_bindings g)\<rparr>))"

definition detach_reservation :: "nat \<Rightarrow> registry \<Rightarrow> registry" where
  "detach_reservation nonce g =
     (case map_of (rg_reservations g) nonce of
        None \<Rightarrow> g
      | Some _ \<Rightarrow> cancel [nonce] (g\<lparr>rg_reservations := AList.delete nonce (rg_reservations g)\<rparr>))"

definition detach_session :: "string \<Rightarrow> registry \<Rightarrow> registry" where
  "detach_session sid g =
     (case map_of (rg_bindings g) sid of
        None \<Rightarrow> g
      | Some b \<Rightarrow> cancel [bd_owner b] (g\<lparr>rg_bindings := AList.delete sid (rg_bindings g)\<rparr>))"

definition detach_session_if_token :: "string \<Rightarrow> string \<Rightarrow> registry \<Rightarrow> registry" where
  "detach_session_if_token sid raw g =
     (case parse_token raw of
        Inl _ \<Rightarrow> g
      | Inr (token_id, _) \<Rightarrow>
          (case map_of (rg_bindings g) sid of
             None \<Rightarrow> g
           | Some b \<Rightarrow> if bd_token_id b \<noteq> token_id then g else detach_session sid g))"

definition detach_all :: "registry \<Rightarrow> registry" where
  "detach_all g = cancel (map fst (rg_reservations g) @ map (bd_owner \<circ> snd) (rg_bindings g))
     (g\<lparr>rg_reservations := [], rg_bindings := []\<rparr>)"

section \<open>Requests\<close>

record http_in =
  hq_method :: string
  hq_path :: string
  hq_query :: "(string \<times> string) list"
  hq_headers :: "(string \<times> string) list"

datatype reply = ErrorReply int string | Streaming nat | Forwarded

abbreviation "unauthorized \<equiv> ErrorReply 401 ''unauthorized''"

text \<open>Validation, which raises something else than a token error when the database is down.\<close>

datatype validation = Valid connectivity_token | Refused string | DatabaseDown

definition validate ::
  "(string \<Rightarrow> string) \<Rightarrow> bool \<Rightarrow> string \<Rightarrow> time \<Rightarrow> mcp_world \<Rightarrow> validation \<times> mcp_world" where
  "validate h db_up raw now w =
     (if \<not> db_up then (DatabaseDown, w)
      else (case verify_token h raw now (tokens w) of
              (Inl (TokenError code _), t) \<Rightarrow> (Refused code, w\<lparr>tokens := t\<rparr>)
            | (Inr tok, t) \<Rightarrow> (Valid tok, w\<lparr>tokens := t\<rparr>)))"

definition reserve :: "string \<Rightarrow> connectivity_token \<Rightarrow> time \<Rightarrow> mcp_world \<Rightarrow> reply \<times> mcp_world" where
  "reserve raw tok now w =
     (if \<not> enabled (conn w) then (ErrorReply 503 ''mcp_disabled'', w)
      else if length (rg_reservations (registry_of w)) + length (rg_bindings (registry_of w)) \<ge> MAX_MCP_CONNECTIONS
      then (ErrorReply 503 ''mcp_unavailable'', w)
      else (Streaming (next_task w),
            (with_registry (\<lambda>g. g\<lparr>rg_reservations := rg_reservations g @
                 [(next_task w, \<lparr>rv_created_at = now, rv_first_frame_deadline = now + FIRST_FRAME_TIMEOUT\<rparr>)]\<rparr>) w)
            \<lparr>streams := streams w @ [\<lparr>sm_task = next_task w, sm_raw = raw, sm_token = tok,
                 sm_first_frame = [], sm_session = None\<rparr>],
             next_task := Suc (next_task w)\<rparr>))"

definition admit :: "string \<Rightarrow> connectivity_token \<Rightarrow> time \<Rightarrow> mcp_world \<Rightarrow> reply \<times> mcp_world" where
  "admit raw tok now w = reserve raw tok now (with_registry (sweep now) w)"

definition handle_get ::
  "(string \<Rightarrow> string) \<Rightarrow> bool \<Rightarrow> http_in \<Rightarrow> time \<Rightarrow> time \<Rightarrow> mcp_world \<Rightarrow> reply \<times> mcp_world" where
  "handle_get h db_up rq now_wall now_mono w =
     (if hq_query rq \<noteq> [] then (unauthorized, w)
      else (case authorization_header (hq_headers rq) of
              None \<Rightarrow> (unauthorized, w)
            | Some raw \<Rightarrow>
                (case validate h db_up raw now_wall w of
                   (Refused _, w1) \<Rightarrow> (unauthorized, w1)
                 | (DatabaseDown, w1) \<Rightarrow> (ErrorReply 503 ''mcp_unavailable'', w1)
                 | (Valid tok, w1) \<Rightarrow> admit raw tok now_mono w1)))"

definition session_of_query :: "(string \<times> string) list \<Rightarrow> string option" where
  "session_of_query items = (case items of
       [(k, v)] \<Rightarrow> if k = ''session_id'' \<and> session_id_ok v then Some v else None
     | _ \<Rightarrow> None)"

text \<open>The decision under the registry lock, and the delivery it guards.\<close>

definition forward :: "string \<Rightarrow> connectivity_token \<Rightarrow> time \<Rightarrow> mcp_world \<Rightarrow> reply \<times> mcp_world" where
  "forward sid tok now w =
     (case map_of (rg_bindings (registry_of w)) sid of
        None \<Rightarrow> (unauthorized, w)
      | Some b \<Rightarrow>
          if bd_token_id b = ct_id tok \<and> bd_enqueueable b \<and> \<not> bd_closing b \<and> bd_deadline b > now
             \<and> enabled (conn w)
          then (Forwarded,
                (with_registry (\<lambda>g. g\<lparr>rg_bindings :=
                   AList.update sid (b\<lparr>bd_last_validated_activity := now\<rparr>) (rg_bindings g)\<rparr>) w)
                \<lparr>delivered := delivered w @ [(sid, ct_id tok, now)]\<rparr>)
          else (unauthorized, w))"

definition deliver :: "string \<Rightarrow> connectivity_token \<Rightarrow> time \<Rightarrow> mcp_world \<Rightarrow> reply \<times> mcp_world" where
  "deliver sid tok now w = forward sid tok now (with_registry (sweep now) w)"

definition handle_post ::
  "(string \<Rightarrow> string) \<Rightarrow> bool \<Rightarrow> http_in \<Rightarrow> time \<Rightarrow> time \<Rightarrow> mcp_world \<Rightarrow> reply \<times> mcp_world" where
  "handle_post h db_up rq now_wall now_mono w =
     (case session_of_query (hq_query rq) of
        None \<Rightarrow> (unauthorized, w)
      | Some sid \<Rightarrow>
          (case authorization_header (hq_headers rq) of
             None \<Rightarrow> (unauthorized, w)
           | Some raw \<Rightarrow>
               if \<not> enabled (conn w) then (ErrorReply 503 ''mcp_disabled'', w)
               else (case validate h db_up raw now_wall w of
                       (Refused code, w1) \<Rightarrow>
                         (unauthorized,
                          if code \<in> {''auth_revoked'', ''auth_expired''}
                          then with_registry (detach_session_if_token sid raw) w1 else w1)
                     | (DatabaseDown, w1) \<Rightarrow>
                         (ErrorReply 503 ''mcp_unavailable'', with_registry (detach_session sid) w1)
                     | (Valid tok, w1) \<Rightarrow> deliver sid tok now_mono w1)))"

definition call_guard ::
  "(string \<Rightarrow> string) \<Rightarrow> bool \<Rightarrow> http_in \<Rightarrow> time \<Rightarrow> time \<Rightarrow> mcp_world \<Rightarrow> reply \<times> mcp_world" where
  "call_guard h db_up rq now_wall now_mono w =
     (if \<not> transport_available (conn w) then (ErrorReply 503 ''mcp_unavailable'', w)
      else let r = get_readiness (conn w)
      in if \<not> rd_enabled r
         then (ErrorReply 503 (if rd_reason r = Some ''disabled'' then ''mcp_disabled'' else ''mcp_unavailable''), w)
         else if hq_method rq = ''GET'' \<and> hq_path rq = ''/sse'' then handle_get h db_up rq now_wall now_mono w
         else if hq_method rq = ''POST'' \<and> hq_path rq = ''/messages/'' then handle_post h db_up rq now_wall now_mono w
         else (ErrorReply 404 ''not_found'', w))"

section \<open>Streams\<close>

definition find_stream :: "nat \<Rightarrow> mcp_world \<Rightarrow> stream option" where
  "find_stream task w = find (\<lambda>c. sm_task c = task) (streams w)"

text \<open>The \<open>finally\<close> clause of a GET task: its reservation goes, and its session if it still owns it.\<close>

definition finish_stream :: "stream \<Rightarrow> mcp_world \<Rightarrow> mcp_world" where
  "finish_stream c w =
     (with_registry (\<lambda>g.
        let g1 = g\<lparr>rg_reservations := AList.delete (sm_task c) (rg_reservations g)\<rparr>;
            g2 = (case sm_session c of
                    None \<Rightarrow> g1
                  | Some sid \<Rightarrow>
                      (case map_of (rg_bindings g1) sid of
                         Some b \<Rightarrow> if bd_owner b = sm_task c
                                   then g1\<lparr>rg_bindings := AList.delete sid (rg_bindings g1)\<rparr> else g1
                       | None \<Rightarrow> g1))
        in g2\<lparr>rg_done := sm_task c # rg_done g2\<rparr>) w)
     \<lparr>streams := filter (\<lambda>d. sm_task d \<noteq> sm_task c) (streams w)\<rparr>"

definition set_stream :: "stream \<Rightarrow> mcp_world \<Rightarrow> mcp_world" where
  "set_stream c w = w\<lparr>streams := map (\<lambda>d. if sm_task d = sm_task c then c else d) (streams w)\<rparr>"

definition promote :: "stream \<Rightarrow> string \<Rightarrow> time \<Rightarrow> time \<Rightarrow> mcp_world \<Rightarrow> mcp_world" where
  "promote c sid now_wall now_mono w =
     (let c1 = c\<lparr>sm_session := Some sid\<rparr> in
      case map_of (rg_reservations (registry_of w)) (sm_task c) of
        Some r \<Rightarrow>
          if now_mono > rv_first_frame_deadline r \<or> \<not> enabled (conn w) then finish_stream c1 w
          else set_stream c1 (with_registry (\<lambda>g. g\<lparr>
                 rg_reservations := AList.delete (sm_task c) (rg_reservations g),
                 rg_bindings := AList.update sid
                   \<lparr>bd_token_id = ct_id (sm_token c), bd_created_at = now_mono,
                    bd_last_validated_activity = now_mono,
                    bd_deadline = token_deadline (ct_expires_at (sm_token c)) now_wall now_mono,
                    bd_owner = sm_task c, bd_closing = False, bd_enqueueable = True\<rparr> (rg_bindings g)\<rparr>) w)
      | None \<Rightarrow> finish_stream c1 w)"

definition send_chunk :: "nat \<Rightarrow> string \<Rightarrow> time \<Rightarrow> time \<Rightarrow> mcp_world \<Rightarrow> mcp_world" where
  "send_chunk task chunk now_wall now_mono w = (case find_stream task w of
       None \<Rightarrow> w
     | Some c \<Rightarrow>
         if sm_session c \<noteq> None then w
         else let c1 = c\<lparr>sm_first_frame := sm_first_frame c @ chunk\<rparr>
         in (case first_frame_result (sm_first_frame c1) of
               FrameIncomplete \<Rightarrow> set_stream c1 w
             | FrameRejected \<Rightarrow> finish_stream c1 w
             | FrameSession sid \<Rightarrow> promote c1 sid now_wall now_mono w))"

text \<open>One round of the watchdog of a stream; before the promotion that round is the timeout of the
  first frame.\<close>

definition revalidated :: "string \<Rightarrow> binding \<Rightarrow> time \<Rightarrow> time \<Rightarrow> mcp_world \<Rightarrow> mcp_world" where
  "revalidated sid b deadline now w =
     (let w2 = with_registry (\<lambda>g. g\<lparr>rg_bindings := AList.update sid
            (b\<lparr>bd_last_validated_activity := now, bd_deadline := deadline\<rparr>) (rg_bindings g)\<rparr>) w
      in if deadline - now \<le> 0 then with_registry (detach_session sid) w2 else w2)"

definition watch :: "(string \<Rightarrow> string) \<Rightarrow> bool \<Rightarrow> nat \<Rightarrow> time \<Rightarrow> time \<Rightarrow> mcp_world \<Rightarrow> mcp_world" where
  "watch h db_up task now_wall now_mono w = (case find_stream task w of
       None \<Rightarrow> w
     | Some c \<Rightarrow>
         (case sm_session c of
            None \<Rightarrow> with_registry (detach_reservation task) w
          | Some sid \<Rightarrow>
              (case map_of (rg_bindings (registry_of w)) sid of
                 None \<Rightarrow> w
               | Some b \<Rightarrow>
                   if bd_owner b \<noteq> task then w
                   else if bd_deadline b - now_mono \<le> 0 then with_registry (detach_session sid) w
                   else (case validate h db_up (sm_raw c) now_wall w of
                           (Valid tok, w1) \<Rightarrow>
                             revalidated sid b (min (bd_deadline b)
                               (token_deadline (ct_expires_at tok) now_wall now_mono)) now_mono w1
                         | (_, w1) \<Rightarrow> with_registry (detach_session sid) w1))))"

definition close_owned_connection :: "nat \<Rightarrow> mcp_world \<Rightarrow> mcp_world" where
  "close_owned_connection task w = (case find_stream task w of
       None \<Rightarrow> w
     | Some c \<Rightarrow> with_registry (case sm_session c of None \<Rightarrow> detach_reservation task | Some sid \<Rightarrow> detach_session sid) w)"

section \<open>Histories\<close>

datatype mcp_event =
    Call bool http_in time time
  | Chunk nat string time time
  | TaskEnds nat
  | Watchdog bool nat time time
  | ToolAuthFailure nat
  | ConnOp conn_op
  | TokenOp token_op

fun mcp_step :: "(string \<Rightarrow> string) \<Rightarrow> nat \<Rightarrow> mcp_world \<Rightarrow> mcp_event \<Rightarrow> mcp_world" where
  "mcp_step h n w (Call db_up rq wall tick) = snd (call_guard h db_up rq wall tick w)"
| "mcp_step h n w (Chunk task chunk wall tick) = send_chunk task chunk wall tick w"
| "mcp_step h n w (TaskEnds task) = (case find_stream task w of None \<Rightarrow> w | Some c \<Rightarrow> finish_stream c w)"
| "mcp_step h n w (Watchdog db_up task wall tick) = watch h db_up task wall tick w"
| "mcp_step h n w (ToolAuthFailure task) = close_owned_connection task w"
| "mcp_step h n w (ConnOp x) = w\<lparr>conn := conn_step detach_all empty_registry (conn w) x,
     streams := (case x of Restart _ \<Rightarrow> [] | _ \<Rightarrow> streams w)\<rparr>"
| "mcp_step h n w (TokenOp x) = w\<lparr>tokens := token_step h n (tokens w) x\<rparr>"

definition start_world :: "bool \<Rightarrow> state_file \<Rightarrow> persist_outcome list \<Rightarrow> token_table \<Rightarrow> mcp_world" where
  "start_world seed f io t = \<lparr>conn = open_connectivity seed f io empty_registry, tokens = t, streams = [],
     next_task = 0, delivered = []\<rparr>"

section \<open>The registry invariant\<close>

definition binding_ok :: "stream list \<Rightarrow> string \<Rightarrow> binding \<Rightarrow> bool" where
  "binding_ok ss s b \<longleftrightarrow> \<not> bd_closing b \<and> bd_enqueueable b \<and> bd_deadline b \<le> bd_created_at b + MAX_BINDING \<and>
     (\<exists>c \<in> set ss. sm_task c = bd_owner b \<and> sm_session c = Some s \<and> ct_id (sm_token c) = bd_token_id b)"

definition reg_ok :: "bool \<Rightarrow> stream list \<Rightarrow> registry \<Rightarrow> bool" where
  "reg_ok en ss g \<longleftrightarrow> length (rg_reservations g) + length (rg_bindings g) \<le> MAX_MCP_CONNECTIONS \<and>
     (\<not> en \<longrightarrow> rg_reservations g = [] \<and> rg_bindings g = []) \<and>
     distinct (map fst (rg_bindings g)) \<and> (\<forall>(s, b) \<in> set (rg_bindings g). binding_ok ss s b)"

definition mcp_inv :: "mcp_world \<Rightarrow> bool" where
  "mcp_inv w \<longleftrightarrow> reg_ok (enabled (conn w)) (streams w) (registry_of w) \<and>
     distinct (map sm_task (streams w)) \<and> (\<forall>c \<in> set (streams w). sm_task c < next_task w) \<and>
     (rg_reservations (registry_of w) \<noteq> [] \<or> rg_bindings (registry_of w) \<noteq> [] \<or> transport_available (conn w)
        \<longrightarrow> hook_registered (conn w))"

lemma reg_ok_shrink:
  assumes "reg_ok en ss g" "\<exists>p. rg_reservations g' = filter p (rg_reservations g)"
    and "\<exists>q. rg_bindings g' = filter q (rg_bindings g)"
  shows "reg_ok en ss g'"
proof -
  obtain p q where "rg_reservations g' = filter p (rg_reservations g)" "rg_bindings g' = filter q (rg_bindings g)"
    using assms(2,3) by blast
  moreover have "length (filter p (rg_reservations g)) + length (filter q (rg_bindings g))
      \<le> length (rg_reservations g) + length (rg_bindings g)"
    by (intro add_mono length_filter_le)
  ultimately show ?thesis
    using assms(1) by (auto simp: reg_ok_def distinct_map_filter)
qed

lemma cancel_simps [simp]:
  "rg_reservations (cancel ts g) = rg_reservations g" "rg_bindings (cancel ts g) = rg_bindings g"
  "rg_done (cancel ts g) = rg_done g"
  by (simp_all add: cancel_def)

definition shrinks :: "(registry \<Rightarrow> registry) \<Rightarrow> bool" where
  "shrinks f \<longleftrightarrow> (\<forall>g. (\<exists>p. rg_reservations (f g) = filter p (rg_reservations g)) \<and>
     (\<exists>q. rg_bindings (f g) = filter q (rg_bindings g)))"

lemma filter_self: "\<exists>p. xs = filter p xs"
  by (rule exI [of _ "\<lambda>_. True"]) simp

lemma filter_none: "\<exists>p. [] = filter p xs"
  by (rule exI [of _ "\<lambda>_. False"]) simp

lemma delete_filter: "\<exists>p. AList.delete k xs = filter p xs"
  by (auto simp: AList.delete_eq)

lemma shrinks_ops [simp]:
  "shrinks (sweep now)" "shrinks (detach_reservation task)" "shrinks (detach_session sid)" "shrinks detach_all"
  "shrinks (detach_session_if_token sid raw)"
  by (auto simp: shrinks_def sweep_def detach_reservation_def detach_session_def detach_all_def Let_def
      detach_session_if_token_def filter_self filter_none delete_filter split: option.split sum.split)

lemma mcp_inv_shrink:
  assumes "mcp_inv w" "shrinks f"
  shows "mcp_inv (with_registry f w)"
proof -
  obtain p q where f: "rg_reservations (f (registry_of w)) = filter p (rg_reservations (registry_of w))"
    "rg_bindings (f (registry_of w)) = filter q (rg_bindings (registry_of w))"
    using spec [OF assms(2) [unfolded shrinks_def], of "registry_of w"] by (elim conjE exE)
  have "reg_ok (enabled (conn w)) (streams w) (f (registry_of w))"
  proof (rule reg_ok_shrink)
    show "reg_ok (enabled (conn w)) (streams w) (registry_of w)" using assms(1) by (simp add: mcp_inv_def)
    show "\<exists>p. rg_reservations (f (registry_of w)) = filter p (rg_reservations (registry_of w))"
      by (rule exI, rule f(1))
    show "\<exists>q. rg_bindings (f (registry_of w)) = filter q (rg_bindings (registry_of w))"
      by (rule exI, rule f(2))
  qed
  moreover have "rg_reservations (f (registry_of w)) \<noteq> [] \<Longrightarrow> rg_reservations (registry_of w) \<noteq> []"
    "rg_bindings (f (registry_of w)) \<noteq> [] \<Longrightarrow> rg_bindings (registry_of w) \<noteq> []"
    by (auto simp: f)
  ultimately show ?thesis using assms(1) unfolding mcp_inv_def with_registry_def by auto
qed

lemma validate_frame:
  assumes "validate h db_up raw now w = (v, w1)"
  shows "conn w1 = conn w" "streams w1 = streams w" "next_task w1 = next_task w" "delivered w1 = delivered w"
  using assms by (auto simp: validate_def split: if_splits prod.splits sum.splits token_error.splits)

lemma mcp_inv_validate: "validate h db_up raw now w = (v, w1) \<Longrightarrow> mcp_inv w \<Longrightarrow> mcp_inv w1"
  by (simp add: mcp_inv_def validate_frame)

text \<open>Replacing a binding that is there.\<close>

lemma set_update_subset: "set (AList.update k v xs) \<subseteq> insert (k, v) (set xs)"
  by (induction xs) auto

lemma reg_ok_update:
  assumes "reg_ok en ss g" "map_of (rg_bindings g) sid = Some b" "binding_ok ss sid b'"
  shows "reg_ok en ss (g\<lparr>rg_bindings := AList.update sid b' (rg_bindings g)\<rparr>)"
proof -
  have k: "sid \<in> set (map fst (rg_bindings g))" using assms(2) by (metis map_of_eq_None_iff option.distinct(1) list.set_map)
  then have keys: "map fst (AList.update sid b' (rg_bindings g)) = map fst (rg_bindings g)"
    by (simp add: AList.update_keys)
  then have "length (AList.update sid b' (rg_bindings g)) = length (rg_bindings g)" by (metis length_map)
  moreover have "rg_bindings g \<noteq> []" using k by auto
  ultimately show ?thesis
    using assms(1,3) keys set_update_subset [of sid b' "rg_bindings g"] by (auto simp: reg_ok_def)
qed

lemma mcp_inv_update:
  assumes "mcp_inv w" "map_of (rg_bindings (registry_of w)) sid = Some b" "binding_ok (streams w) sid b'"
  shows "mcp_inv (with_registry (\<lambda>g. g\<lparr>rg_bindings := AList.update sid b' (rg_bindings g)\<rparr>) w)"
proof -
  have "rg_bindings (registry_of w) \<noteq> []" using assms(2) by auto
  with assms reg_ok_update [of "enabled (conn w)" "streams w" "registry_of w" sid b b']
  show ?thesis by (auto simp: mcp_inv_def with_registry_def)
qed

lemma binding_there:
  assumes "mcp_inv w" "map_of (rg_bindings (registry_of w)) sid = Some b"
  shows "binding_ok (streams w) sid b"
  using assms by (auto simp: mcp_inv_def reg_ok_def dest!: map_of_SomeD)

section \<open>Every step keeps it\<close>

lemma more_streams: "binding_ok ss s b \<Longrightarrow> binding_ok (ss @ [c]) s b"
  by (auto simp: binding_ok_def)

lemma admit_inv:
  assumes "mcp_inv w" "transport_available (conn w)"
  shows "mcp_inv (snd (admit raw tok now w))"
proof -
  have "mcp_inv (snd (reserve raw tok now v))" if i: "mcp_inv v" and t: "transport_available (conn v)" for v
  proof -
    have hook: "hook_registered (conn v)" and ok: "reg_ok (enabled (conn v)) (streams v) (registry_of v)"
      and ss: "distinct (map sm_task (streams v))" "\<forall>c \<in> set (streams v). sm_task c < next_task v"
      using i t by (simp_all add: mcp_inv_def)
    have "next_task v \<notin> sm_task ` set (streams v)" using ss(2) by auto
    then show ?thesis
      using i hook ok ss
      by (auto simp: reserve_def mcp_inv_def reg_ok_def with_registry_def less_Suc_eq intro: more_streams)
  qed
  then show ?thesis
    using assms mcp_inv_shrink [OF assms(1), of "sweep now"] by (simp add: admit_def) (simp add: with_registry_def)
qed

lemma deliver_inv:
  assumes "mcp_inv w"
  shows "mcp_inv (snd (deliver sid tok now w))"
proof -
  have "mcp_inv (snd (forward sid tok now v))" if i: "mcp_inv v" for v
  proof (cases "map_of (rg_bindings (registry_of v)) sid")
    case (Some b)
    have "mcp_inv (with_registry (\<lambda>g. g\<lparr>rg_bindings :=
        AList.update sid (b\<lparr>bd_last_validated_activity := now\<rparr>) (rg_bindings g)\<rparr>) v)"
      using binding_there [OF i Some] by (intro mcp_inv_update [OF i Some]) (simp add: binding_ok_def)
    then show ?thesis using i by (simp add: forward_def Some) (simp add: mcp_inv_def)
  qed (use i in \<open>simp add: forward_def\<close>)
  then show ?thesis using mcp_inv_shrink [OF assms, of "sweep now"] by (simp add: deliver_def)
qed

lemma handle_get_inv:
  assumes "mcp_inv w" "transport_available (conn w)"
  shows "mcp_inv (snd (handle_get h db_up rq wall tick w))"
proof (cases "hq_query rq = [] \<and> authorization_header (hq_headers rq) \<noteq> None")
  case True
  then obtain raw where raw: "authorization_header (hq_headers rq) = Some raw" "hq_query rq = []" by auto
  obtain v w1 where v: "validate h db_up raw wall w = (v, w1)" by fastforce
  have "mcp_inv w1" "transport_available (conn w1)"
    using mcp_inv_validate [OF v assms(1)] validate_frame(1) [OF v] assms(2) by simp_all
  then show ?thesis by (cases v) (simp_all add: handle_get_def raw v admit_inv)
qed (use assms in \<open>auto simp: handle_get_def\<close>)

lemma handle_post_inv: "mcp_inv w \<Longrightarrow> mcp_inv (snd (handle_post h db_up rq wall tick w))"
proof -
  assume inv: "mcp_inv w"
  show ?thesis
  proof (cases "session_of_query (hq_query rq) \<noteq> None \<and> authorization_header (hq_headers rq) \<noteq> None")
    case True
    then obtain sid raw where r: "session_of_query (hq_query rq) = Some sid" "authorization_header (hq_headers rq) = Some raw"
      by auto
    obtain v w1 where v: "validate h db_up raw wall w = (v, w1)" by fastforce
    have "mcp_inv w1" by (rule mcp_inv_validate [OF v inv])
    then show ?thesis
      using inv by (cases v) (simp_all add: handle_post_def r v deliver_inv mcp_inv_shrink)
  qed (use inv in \<open>auto simp: handle_post_def split: option.split\<close>)
qed

lemma call_guard_inv: "mcp_inv w \<Longrightarrow> mcp_inv (snd (call_guard h db_up rq wall tick w))"
  by (simp add: call_guard_def Let_def handle_get_inv handle_post_inv)

lemma find_streamD:
  "find_stream task w = Some c \<Longrightarrow> c \<in> set (streams w) \<and> sm_task c = task"
  by (auto simp: find_stream_def find_Some_iff)

lemma stream_unique:
  "mcp_inv w \<Longrightarrow> c \<in> set (streams w) \<Longrightarrow> d \<in> set (streams w) \<Longrightarrow> sm_task c = sm_task d \<Longrightarrow> c = d"
  by (auto simp: mcp_inv_def distinct_map inj_on_def)

definition replaces :: "stream \<Rightarrow> stream \<Rightarrow> bool" where
  "replaces c d \<longleftrightarrow> sm_task c = sm_task d \<and> ct_id (sm_token c) = ct_id (sm_token d) \<and>
     (sm_session d = None \<or> sm_session c = sm_session d)"

lemma binding_ok_replace:
  assumes "mcp_inv w" "d \<in> set (streams w)" "replaces c d" "binding_ok (streams w) s b"
  shows "binding_ok (map (\<lambda>x. if sm_task x = sm_task c then c else x) (streams w)) s b"
proof -
  obtain x where x: "x \<in> set (streams w)" "sm_task x = bd_owner b" "sm_session x = Some s" "ct_id (sm_token x) = bd_token_id b"
    using assms(4) by (auto simp: binding_ok_def)
  show ?thesis
  proof (cases "sm_task x = sm_task c")
    case True
    then have "x = d" using assms(1-3) x(1) by (auto simp: replaces_def intro: stream_unique)
    with x assms(3) True have "c \<in> (\<lambda>x. if sm_task x = sm_task c then c else x) ` set (streams w)"
      "sm_task c = bd_owner b" "sm_session c = Some s" "ct_id (sm_token c) = bd_token_id b"
      by (auto simp: replaces_def image_iff)
    then show ?thesis using assms(4) by (auto simp: binding_ok_def)
  next
    case False
    then have "x \<in> (\<lambda>x. if sm_task x = sm_task c then c else x) ` set (streams w)"
      using x(1) by (auto simp: image_iff intro: bexI [of _ x])
    then show ?thesis using assms(4) x by (auto simp: binding_ok_def)
  qed
qed

lemma set_stream_tasks: "map sm_task (streams (set_stream c w)) = map sm_task (streams w)"
  by (auto simp: set_stream_def)

lemma tasks_below: "map sm_task xs = map sm_task ys \<Longrightarrow> \<forall>c \<in> set ys. sm_task c < n \<Longrightarrow> \<forall>c \<in> set xs. sm_task c < (n :: nat)"
  by (metis (mono_tags, lifting) imageE imageI list.set_map)

lemma set_stream_inv:
  assumes "mcp_inv w" "d \<in> set (streams w)" "replaces c d"
  shows "mcp_inv (set_stream c w)"
proof -
  have "\<forall>(s, b) \<in> set (rg_bindings (registry_of w)). binding_ok (streams (set_stream c w)) s b"
    using assms binding_ok_replace by (fastforce simp: mcp_inv_def reg_ok_def set_stream_def)
  moreover have "\<forall>x \<in> set (streams (set_stream c w)). sm_task x < next_task w"
    using assms(1) by (intro tasks_below [OF set_stream_tasks]) (simp add: mcp_inv_def)
  ultimately show ?thesis
    using assms(1) set_stream_tasks [of c w] by (simp add: mcp_inv_def reg_ok_def) (simp add: set_stream_def)
qed

lemma finish_registry:
  "\<exists>p q. rg_reservations (registry_of (finish_stream c w)) = filter p (rg_reservations (registry_of w)) \<and>
    rg_bindings (registry_of (finish_stream c w)) = filter q (rg_bindings (registry_of w)) \<and>
    (\<forall>s b. distinct (map fst (rg_bindings (registry_of w))) \<longrightarrow> sm_session c = Some s \<longrightarrow>
       (s, b) \<in> set (rg_bindings (registry_of w)) \<longrightarrow> bd_owner b = sm_task c \<longrightarrow> \<not> q (s, b))"
proof (cases "\<exists>s b. sm_session c = Some s \<and> map_of (rg_bindings (registry_of w)) s = Some b \<and> bd_owner b = sm_task c")
  case True
  then obtain s b where sb: "sm_session c = Some s" "map_of (rg_bindings (registry_of w)) s = Some b" "bd_owner b = sm_task c"
    by blast
  then show ?thesis
    by (intro exI [of _ "\<lambda>(k, _). sm_task c \<noteq> k"] exI [of _ "\<lambda>(k, _). s \<noteq> k"])
      (auto simp: finish_stream_def with_registry_def Let_def AList.delete_eq split_beta)
next
  case False
  then show ?thesis
    by (intro exI [of _ "\<lambda>(k, _). sm_task c \<noteq> k"] exI [of _ "\<lambda>_. True"])
      (auto simp: finish_stream_def with_registry_def Let_def AList.delete_eq split_beta split: option.split
        dest: map_of_is_SomeI)
qed

lemma finish_stream_inv:
  assumes inv: "mcp_inv w" and d: "d \<in> set (streams w)" "replaces c d"
  shows "mcp_inv (finish_stream c w)"
proof -
  have dk: "distinct (map fst (rg_bindings (registry_of w)))" using inv by (simp add: mcp_inv_def reg_ok_def)
  obtain p q where f: "rg_reservations (registry_of (finish_stream c w)) = filter p (rg_reservations (registry_of w))"
      "rg_bindings (registry_of (finish_stream c w)) = filter q (rg_bindings (registry_of w))"
    and q: "\<And>s b. sm_session c = Some s \<Longrightarrow> (s, b) \<in> set (rg_bindings (registry_of w)) \<Longrightarrow> bd_owner b = sm_task c \<Longrightarrow> \<not> q (s, b)"
    using finish_registry [of c w] dk by blast
  have st: "streams (finish_stream c w) = filter (\<lambda>x. sm_task x \<noteq> sm_task c) (streams w)"
    and cn: "enabled (conn (finish_stream c w)) = enabled (conn w)"
      "transport_available (conn (finish_stream c w)) = transport_available (conn w)"
      "hook_registered (conn (finish_stream c w)) = hook_registered (conn w)"
      "next_task (finish_stream c w) = next_task w"
    by (simp_all add: finish_stream_def with_registry_def)
  have "binding_ok (streams (finish_stream c w)) s b"
    if sb: "(s, b) \<in> set (rg_bindings (registry_of w))" "q (s, b)" for s b
  proof -
    have ok: "binding_ok (streams w) s b" using inv sb(1) by (auto simp: mcp_inv_def reg_ok_def)
    then obtain x where x: "x \<in> set (streams w)" "sm_task x = bd_owner b" "sm_session x = Some s" "ct_id (sm_token x) = bd_token_id b"
      by (auto simp: binding_ok_def)
    have "sm_task x \<noteq> sm_task c"
    proof
      assume e: "sm_task x = sm_task c"
      then have "x = d" using inv x(1) d by (auto simp: replaces_def intro: stream_unique)
      then have "sm_session c = Some s" using x(3) d(2) by (simp add: replaces_def)
      then show False using q [OF _ sb(1)] sb(2) x(2) e by simp
    qed
    then show ?thesis using ok x by (auto simp: binding_ok_def st)
  qed
  moreover have "length (filter p (rg_reservations (registry_of w))) + length (filter q (rg_bindings (registry_of w)))
      \<le> length (rg_reservations (registry_of w)) + length (rg_bindings (registry_of w))"
    by (intro add_mono length_filter_le)
  ultimately show ?thesis
    using inv dk by (auto simp: mcp_inv_def reg_ok_def f st cn distinct_map_filter)
qed

lemma token_deadline_le: "token_deadline e now_wall now_mono \<le> now_mono + MAX_BINDING"
  by (simp add: token_deadline_def MAX_BINDING_def split: option.split)

lemma promote_inv:
  assumes inv: "mcp_inv w" and d: "d \<in> set (streams w)" and c: "replaces c d" "sm_session d = None"
  shows "mcp_inv (promote c sid now_wall now_mono w)"
proof -
  let ?c = "c\<lparr>sm_session := Some sid\<rparr>"
  have c1: "replaces ?c d" using c by (simp add: replaces_def)
  note fin = finish_stream_inv [OF inv d c1]
  show ?thesis
  proof (cases "\<exists>r. map_of (rg_reservations (registry_of w)) (sm_task c) = Some r \<and>
      now_mono \<le> rv_first_frame_deadline r \<and> enabled (conn w)")
    case False
    then show ?thesis
      using fin by (cases "map_of (rg_reservations (registry_of w)) (sm_task c)") (auto simp: promote_def Let_def not_le)
  next
    case True
    then obtain r where r: "map_of (rg_reservations (registry_of w)) (sm_task c) = Some r"
      "now_mono \<le> rv_first_frame_deadline r" "enabled (conn w)" by blast
    let ?b = "\<lparr>bd_token_id = ct_id (sm_token c), bd_created_at = now_mono,
                    bd_last_validated_activity = now_mono,
                    bd_deadline = token_deadline (ct_expires_at (sm_token c)) now_wall now_mono,
                    bd_owner = sm_task c, bd_closing = False, bd_enqueueable = True\<rparr>"
    let ?g = "registry_of w"
    let ?w = "set_stream ?c (with_registry (\<lambda>g. g\<lparr>
                 rg_reservations := AList.delete (sm_task c) (rg_reservations g),
                 rg_bindings := AList.update sid ?b (rg_bindings g)\<rparr>) w)"
    have eq: "promote c sid now_wall now_mono w = ?w"
      using r by (simp add: promote_def Let_def)
    have st: "streams ?w = map (\<lambda>x. if sm_task x = sm_task ?c then ?c else x) (streams w)"
      by (simp add: set_stream_def with_registry_def)
    have mem: "?c \<in> set (streams ?w)"
      unfolding st using d c(1) by (auto simp: replaces_def image_iff intro: bexI [of _ d])
    have new: "binding_ok (streams ?w) sid ?b"
      using mem token_deadline_le by (auto simp: binding_ok_def intro: bexI [of _ ?c])
    have old: "binding_ok (streams ?w) s b" if "(s, b) \<in> set (rg_bindings ?g)" for s b
    proof -
      have "binding_ok (streams w) s b" using inv that by (auto simp: mcp_inv_def reg_ok_def)
      from binding_ok_replace [OF inv d c1 this] show ?thesis by (simp add: st)
    qed
    have res: "length (AList.delete (sm_task c) (rg_reservations ?g)) < length (rg_reservations ?g)"
      using map_of_SomeD [OF r(1)] unfolding AList.delete_eq by (rule length_filter_less) simp
    have upd: "length (AList.update sid ?b (rg_bindings ?g)) \<le> Suc (length (rg_bindings ?g))"
    proof -
      have "length (map fst (AList.update sid ?b (rg_bindings ?g))) \<le> Suc (length (map fst (rg_bindings ?g)))"
        by (simp add: AList.update_keys del: length_map)
      then show ?thesis by simp
    qed
    have reg: "registry_of ?w = ?g\<lparr>rg_reservations := AList.delete (sm_task c) (rg_reservations ?g),
        rg_bindings := AList.update sid ?b (rg_bindings ?g)\<rparr>"
      and cn: "enabled (conn ?w) = enabled (conn w)" "transport_available (conn ?w) = transport_available (conn w)"
        "hook_registered (conn ?w) = hook_registered (conn w)" "next_task ?w = next_task w"
      by (simp_all add: set_stream_def with_registry_def)
    have tasks: "map sm_task (streams ?w) = map sm_task (streams w)" by (simp add: st)
    have bs: "\<forall>(s, b) \<in> set (AList.update sid ?b (rg_bindings ?g)). binding_ok (streams ?w) s b"
      using set_update_subset [of sid ?b "rg_bindings ?g"] new old by blast
    have "reg_ok (enabled (conn ?w)) (streams ?w) (registry_of ?w)"
      using inv r(3) res upd bs by (simp add: reg_ok_def reg cn mcp_inv_def AList.distinct_update)
    moreover have "\<forall>x \<in> set (streams ?w). sm_task x < next_task w"
      using inv by (intro tasks_below [OF tasks]) (simp add: mcp_inv_def)
    moreover have "hook_registered (conn w)"
      using inv map_of_SomeD [OF r(1)] by (auto simp: mcp_inv_def)
    ultimately show ?thesis
      using inv unfolding eq by (simp add: mcp_inv_def cn tasks)
  qed
qed

lemma send_chunk_inv:
  assumes inv: "mcp_inv w"
  shows "mcp_inv (send_chunk task chunk now_wall now_mono w)"
proof (cases "\<exists>d. find_stream task w = Some d \<and> sm_session d = None")
  case True
  then obtain d where d: "find_stream task w = Some d" "sm_session d = None" by blast
  let ?c = "d\<lparr>sm_first_frame := sm_first_frame d @ chunk\<rparr>"
  have m: "d \<in> set (streams w)" using find_streamD [OF d(1)] by simp
  have c: "replaces ?c d" using d(2) by (simp add: replaces_def)
  show ?thesis
    using set_stream_inv [OF inv m c] finish_stream_inv [OF inv m c] promote_inv [OF inv m c d(2)]
    by (simp add: send_chunk_def d Let_def split: frame_result.split)
next
  case False
  then show ?thesis using inv by (auto simp: send_chunk_def split: option.split)
qed

lemma watch_inv:
  assumes inv: "mcp_inv w"
  shows "mcp_inv (watch h db_up task now_wall now_mono w)"
proof (cases "\<exists>c sid b. find_stream task w = Some c \<and> sm_session c = Some sid \<and>
    map_of (rg_bindings (registry_of w)) sid = Some b \<and> bd_owner b = task \<and> now_mono < bd_deadline b")
  case True
  then obtain c sid b where c: "find_stream task w = Some c" "sm_session c = Some sid"
    "map_of (rg_bindings (registry_of w)) sid = Some b" "bd_owner b = task" "now_mono < bd_deadline b" by blast
  obtain v w1 where v: "validate h db_up (sm_raw c) now_wall w = (v, w1)" by fastforce
  have i: "mcp_inv w1" by (rule mcp_inv_validate [OF v inv])
  have b: "map_of (rg_bindings (registry_of w1)) sid = Some b" using c(3) validate_frame(1) [OF v] by simp
  have u: "mcp_inv (with_registry (\<lambda>g. g\<lparr>rg_bindings := AList.update sid
      (b\<lparr>bd_last_validated_activity := now_mono, bd_deadline := e\<rparr>) (rg_bindings g)\<rparr>) w1)"
    if "e \<le> bd_deadline b" for e
    using that binding_there [OF i b] by (intro mcp_inv_update [OF i b]) (auto simp: binding_ok_def)
  show ?thesis
  proof (cases v)
    case (Valid tok)
    have "mcp_inv (revalidated sid b e now_mono w1)" if "e \<le> bd_deadline b" for e
      using u [OF that] by (simp add: revalidated_def Let_def mcp_inv_shrink)
    then show ?thesis using c v Valid by (simp add: watch_def)
  qed (use i c v in \<open>simp_all add: watch_def mcp_inv_shrink\<close>)
next
  case False
  then show ?thesis using inv by (auto simp: watch_def mcp_inv_shrink split: option.split)
qed

lemma close_owned_inv: "mcp_inv w \<Longrightarrow> mcp_inv (close_owned_connection task w)"
  by (simp add: close_owned_connection_def mcp_inv_shrink split: option.split)

lemma detach_all_empty [simp]: "rg_reservations (detach_all g) = []" "rg_bindings (detach_all g) = []"
  by (simp_all add: detach_all_def)

lemma conn_op_inv:
  assumes "mcp_inv w"
  shows "mcp_inv (mcp_step h n w (ConnOp x))"
  using assms
  by (cases x)
    (auto simp: mcp_inv_def reg_ok_def enable_def disable_def shutdown_def run_close_hook_def persist_def Let_def
      open_connectivity_def register_close_hook_def set_transport_available_def seq_cases empty_registry_def
      split: persist_outcome.splits list.splits)

lemma mcp_step_inv: "mcp_inv w \<Longrightarrow> mcp_inv (mcp_step h n w e)"
proof (cases e)
  case (TaskEnds task)
  assume "mcp_inv w"
  then show ?thesis
    using finish_stream_inv [of w] find_streamD [of task w] by (auto simp: TaskEnds replaces_def split: option.split)
next
  case (ConnOp x)
  assume "mcp_inv w"
  then show ?thesis unfolding ConnOp by (rule conn_op_inv)
next
  case (TokenOp x)
  assume "mcp_inv w"
  then show ?thesis by (simp add: TokenOp mcp_inv_def)
qed (simp_all add: call_guard_inv send_chunk_inv watch_inv close_owned_inv)

lemma start_world_inv: "mcp_inv (start_world seed f io t)"
  by (simp add: mcp_inv_def reg_ok_def start_world_def open_connectivity_def empty_registry_def MAX_MCP_CONNECTIONS_def)

interpretation mcp: step_system "start_world seed f io t" "mcp_step h n" mcp_inv for seed f io t h n
  by unfold_locales (rule start_world_inv, rule mcp_step_inv)

section \<open>What a forwarded message proves\<close>

lemma forward_Forwarded:
  assumes "deliver sid tok now w = (Forwarded, w')" "mcp_inv w"
  shows "\<exists>b. map_of (rg_bindings (registry_of w)) sid = Some b \<and> bd_token_id b = ct_id tok \<and>
    now < bd_deadline b \<and> enabled (conn w)"
proof -
  let ?v = "with_registry (sweep now) w"
  obtain b where b: "map_of (rg_bindings (registry_of ?v)) sid = Some b" "bd_token_id b = ct_id tok"
      "now < bd_deadline b" "enabled (conn ?v)"
    using assms(1) by (auto simp: deliver_def forward_def split: option.splits if_splits)
  have "(sid, b) \<in> set (rg_bindings (registry_of w))"
    using map_of_SomeD [OF b(1)] by (auto simp: with_registry_def sweep_def Let_def)
  moreover have "distinct (map fst (rg_bindings (registry_of w)))"
    using assms(2) by (simp add: mcp_inv_def reg_ok_def)
  ultimately show ?thesis using b by (auto simp: with_registry_def)
qed

lemma call_guard_Forwarded:
  assumes "call_guard h db_up rq wall tick w = (Forwarded, w')"
  obtains sid raw tok w1 where "session_of_query (hq_query rq) = Some sid"
    "authorization_header (hq_headers rq) = Some raw" "validate h db_up raw wall w = (Valid tok, w1)"
    "deliver sid tok tick w1 = (Forwarded, w')"
proof -
  have "handle_post h db_up rq wall tick w = (Forwarded, w')"
    using assms
    by (auto simp: call_guard_def handle_get_def admit_def reserve_def Let_def
        split: if_splits option.splits prod.splits validation.splits)
  then show thesis
    using that by (auto simp: handle_post_def split: option.splits if_splits prod.splits validation.splits)
qed

lemma validate_Valid:
  "validate h db_up raw wall w = (Valid tok, w1) \<Longrightarrow> fst (verify_token h raw wall (tokens w)) = Inr tok"
  by (auto simp: validate_def split: if_splits prod.splits sum.splits token_error.splits)

text \<open>The token table only ever sees the operations of the token service.\<close>

lemma verify_is_step: "snd (verify_token h raw now t) = foldl (token_step h n) t [Verify raw now]"
  by simp

lemma validate_tokens:
  "validate h db_up raw now w = (v, w1) \<Longrightarrow> \<exists>xs. tokens w1 = foldl (token_step h n) (tokens w) xs"
proof -
  assume v: "validate h db_up raw now w = (v, w1)"
  have "tokens w1 = tokens w \<or> tokens w1 = snd (verify_token h raw now (tokens w))"
    using v by (auto simp: validate_def split: if_splits prod.splits sum.splits token_error.splits)
  then show ?thesis using verify_is_step [of h raw now "tokens w" n] by (metis foldl_Nil)
qed

lemma with_registry_tokens [simp]: "tokens (with_registry f w) = tokens w"
  by (simp add: with_registry_def)

lemma stream_tokens [simp]:
  "tokens (finish_stream c w) = tokens w" "tokens (set_stream c w) = tokens w"
  "tokens (promote c sid wall tick w) = tokens w" "tokens (send_chunk task chunk wall tick w) = tokens w"
  "tokens (close_owned_connection task w) = tokens w" "tokens (revalidated sid b d now w) = tokens w"
  "tokens (snd (admit raw tok now w)) = tokens w" "tokens (snd (deliver sid tok now w)) = tokens w"
  by (auto simp: finish_stream_def set_stream_def promote_def send_chunk_def close_owned_connection_def
      revalidated_def admit_def reserve_def deliver_def forward_def Let_def split: option.split frame_result.split)

lemma call_guard_tokens: "\<exists>xs. tokens (snd (call_guard h db_up rq wall tick w)) = foldl (token_step h n) (tokens w) xs"
proof -
  have none: "\<exists>xs. tokens w = foldl (token_step h n) (tokens w) xs" by (rule exI [of _ "[]"]) simp
  have "\<exists>xs. tokens (snd (handle_get h db_up rq wall tick w)) = foldl (token_step h n) (tokens w) xs"
    using none validate_tokens [of h db_up _ wall w _ _ n]
    by (auto simp: handle_get_def split: option.split prod.split validation.split)
  moreover have "\<exists>xs. tokens (snd (handle_post h db_up rq wall tick w)) = foldl (token_step h n) (tokens w) xs"
    using none validate_tokens [of h db_up _ wall w _ _ n]
    by (auto simp: handle_post_def split: option.split prod.split validation.split)
  ultimately show ?thesis using none by (simp add: call_guard_def Let_def)
qed

lemma mcp_step_tokens: "\<exists>xs. tokens (mcp_step h n w e) = foldl (token_step h n) (tokens w) xs"
proof -
  have none: "\<exists>xs. tokens w = foldl (token_step h n) (tokens w) xs" by (rule exI [of _ "[]"]) simp
  have watch: "\<exists>xs. tokens (watch h db_up task wall tick w) = foldl (token_step h n) (tokens w) xs" for db_up task wall tick
    using none validate_tokens [of h db_up _ wall w _ _ n]
    by (auto simp: watch_def split: option.split prod.split validation.split)
  show ?thesis
  proof (cases e)
    case (TokenOp x)
    then show ?thesis by (intro exI [of _ "[x]"]) simp
  qed (use none watch call_guard_tokens in \<open>auto split: option.split\<close>)
qed

lemma mcp_run_tokens: "\<exists>xs. tokens (foldl (mcp_step h n) w es) = foldl (token_step h n) (tokens w) xs"
proof (induction es arbitrary: w)
  case Nil
  show ?case by (rule exI [of _ "[]"]) simp
next
  case (Cons e es)
  then show ?case using mcp_step_tokens [of h n w e] by (metis foldl_Cons foldl_append)
qed

section \<open>Properties\<close>

text \<open>C4: whatever requests, stream chunks, task ends, watchdog rounds, token operations, toggles,
  failing writes and restarts happen, at most 32 connections are registered, and while the opt-in
  is off no reservation and no session exists.\<close>

theorem connections_bounded:
  "length (rg_reservations (registry_of (foldl (mcp_step h n) (start_world seed f io t) es))) +
   length (rg_bindings (registry_of (foldl (mcp_step h n) (start_world seed f io t) es))) \<le> 32 \<and>
   (enabled (conn (foldl (mcp_step h n) (start_world seed f io t) es)) \<or>
    registry_of (foldl (mcp_step h n) (start_world seed f io t) es)
      = (registry_of (foldl (mcp_step h n) (start_world seed f io t) es))\<lparr>rg_reservations := [], rg_bindings := []\<rparr>)"
proof -
  have "mcp_inv (foldl (mcp_step h n) (start_world seed f io t) es)"
    by (rule mcp.run_inv)
  then show ?thesis by (auto simp: mcp_inv_def reg_ok_def MAX_MCP_CONNECTIONS_def)
qed

text \<open>C2: in every reachable state a POST is handed to the transport only if the opt-in is on, its
  bearer token verifies at that moment, its session belongs to a live GET stream opened with the
  same token, and the session is younger than an hour and not past its deadline.\<close>

theorem forwarded_post_authorized:
  assumes "w = foldl (mcp_step h n) (start_world seed f io t) es"
    and "call_guard h db_up rq wall tick w = (Forwarded, w')"
  shows "enabled (conn w) \<and> (\<exists>sid raw tok b c.
    session_of_query (hq_query rq) = Some sid \<and> authorization_header (hq_headers rq) = Some raw \<and>
    fst (verify_token h raw wall (tokens w)) = Inr tok \<and>
    map_of (rg_bindings (registry_of w)) sid = Some b \<and> tick < bd_deadline b \<and>
    tick < bd_created_at b + seconds 3600 \<and>
    c \<in> set (streams w) \<and> sm_task c = bd_owner b \<and> sm_session c = Some sid \<and> ct_id (sm_token c) = ct_id tok)"
proof -
  have inv: "mcp_inv w" unfolding assms(1) by (rule mcp.run_inv)
  obtain sid raw tok w1 where r: "session_of_query (hq_query rq) = Some sid"
      "authorization_header (hq_headers rq) = Some raw" "validate h db_up raw wall w = (Valid tok, w1)"
      "deliver sid tok tick w1 = (Forwarded, w')"
    by (rule call_guard_Forwarded [OF assms(2)])
  have i1: "mcp_inv w1" by (rule mcp_inv_validate [OF r(3) inv])
  obtain b where b: "map_of (rg_bindings (registry_of w)) sid = Some b" "bd_token_id b = ct_id tok"
      "tick < bd_deadline b" "enabled (conn w)"
    using forward_Forwarded [OF r(4) i1] validate_frame(1) [OF r(3)] by auto
  have ok: "binding_ok (streams w) sid b" by (rule binding_there [OF inv b(1)])
  then have "tick < bd_created_at b + seconds 3600" using b(3) by (simp add: binding_ok_def MAX_BINDING_def)
  with ok b r validate_Valid [OF r(3)] show ?thesis by (auto simp: binding_ok_def)
qed

definition sample_session :: string where "sample_session = replicate 32 CHR ''b''"

definition sample_raw :: string where "sample_raw = ''vzmcp_abcdefgh_'' @ sample_secret"

definition sample_get :: http_in where
  "sample_get = \<lparr>hq_method = ''GET'', hq_path = ''/sse'', hq_query = [],
     hq_headers = [(''Authorization'', ''Bearer '' @ sample_raw)]\<rparr>"

definition sample_post :: http_in where
  "sample_post = \<lparr>hq_method = ''POST'', hq_path = ''/messages/'', hq_query = [(''session_id'', sample_session)],
     hq_headers = [(''Authorization'', ''Bearer '' @ sample_raw)]\<rparr>"

definition sample_events :: "mcp_event list" where
  "sample_events = [ConnOp (SetTransport True), ConnOp Enable,
     TokenOp (Create [''abcdefgh''] sample_secret 0 ''l'' None None),
     Call True sample_get 1 1,
     Chunk 0 (''event: endpoint'' @ [CHR 0x0A] @ ''data: /mcp/messages/?session_id='' @ sample_session @
       [CHR 0x0A, CHR 0x0A]) 2 2]"

theorem forwarded_post_authorized_witness:
  "\<exists>c. c \<in> set (streams (foldl (mcp_step rev 10) (start_world False NoStateFile [] []) sample_events)) \<and>
     sm_session c = Some sample_session"
proof -
  let ?w = "foldl (mcp_step rev 10) (start_world False NoStateFile [] []) sample_events"
  have q: "session_of_query (hq_query sample_post) = Some sample_session" by code_simp
  have "fst (call_guard rev True sample_post 3 3 ?w) = Forwarded" by code_simp
  then have f: "call_guard rev True sample_post 3 3 ?w = (Forwarded, snd (call_guard rev True sample_post 3 3 ?w))"
    by (metis prod.collapse)
  show ?thesis using forwarded_post_authorized [OF refl f] q by auto
qed

end
