(* ===== verification/Approval_Token.thy ===== *)
theory Approval_Token
  imports Prelude
begin

text \<open>
  The approval gate for tools that change something,
  \<open>app/services/approval_token_service.py\<close>: the three tool categories, the capabilities each tool
  needs, and the tokens that a user's confirmation consumes. The identifiers and nonces the
  service generates and the digest (SHA-256 of the sorted JSON text) are arguments. A token keeps a
  reference to the tool's input, not a copy, so inputs live in an explicit object store.
\<close>

section \<open>Classification\<close>

definition READ_ONLY_TOOLS :: "string list" where
  "READ_ONLY_TOOLS = [''list_datasets'', ''get_dataset_detail'', ''preview_rows'', ''run_sql_query'',
     ''get_system_status'', ''get_dataset_statistics'', ''connectivity_status'', ''get_notifications'',
     ''get_tunnel_status'', ''generate_diagnostic_bundle'', ''connectivity_test'',
     ''connectivity_generate_setup'']"

definition AUTO_APPROVE_TOOLS :: "string list" where
  "AUTO_APPROVE_TOOLS = [''log_feedback'', ''submit_feedback'', ''create_notification'',
     ''prepare_support_bundle'', ''create_artifact'', ''create_artifact_from_query'',
     ''update_listing_title'', ''update_listing_description'', ''set_listing_category'',
     ''regenerate_listing_metadata'']"

record tool_info =
  ti_risk :: string
  ti_desc :: string

definition MUTATION_TOOLS :: "(string \<times> tool_info) list" where
  "MUTATION_TOOLS =
     [(''delete_dataset'', \<lparr>ti_risk = ''high'', ti_desc = ''Delete dataset '' @ [CHR 0x27] @ ''{dataset_name}'' @ [CHR 0x27]\<rparr>),
      (''connectivity_enable'', \<lparr>ti_risk = ''medium'', ti_desc = ''Enable ai.market connectivity''\<rparr>),
      (''connectivity_disable'', \<lparr>ti_risk = ''medium'', ti_desc = ''Disable ai.market connectivity''\<rparr>),
      (''connectivity_create_token'', \<lparr>ti_risk = ''medium'', ti_desc = ''Create connectivity token''\<rparr>),
      (''connectivity_revoke_token'', \<lparr>ti_risk = ''medium'', ti_desc = ''Revoke connectivity token''\<rparr>),
      (''start_public_tunnel'', \<lparr>ti_risk = ''medium'', ti_desc = ''Start public tunnel''\<rparr>),
      (''stop_public_tunnel'', \<lparr>ti_risk = ''low'', ti_desc = ''Stop public tunnel''\<rparr>)]"

definition ALL_CLASSIFIED_TOOLS :: "string list" where
  "ALL_CLASSIFIED_TOOLS = READ_ONLY_TOOLS @ AUTO_APPROVE_TOOLS @ map fst MUTATION_TOOLS"

definition RISK_TTL :: "(string \<times> int) list" where
  "RISK_TTL = [(''low'', 120), (''medium'', 60), (''high'', 30), (''critical'', 15)]"

definition risk_of :: "string \<Rightarrow> string" where
  "risk_of tool_name = (case map_of MUTATION_TOOLS tool_name of None \<Rightarrow> ''medium'' | Some i \<Rightarrow> ti_risk i)"

definition ttl_of :: "string \<Rightarrow> int" where
  "ttl_of risk_level = (case map_of RISK_TTL risk_level of None \<Rightarrow> 60 | Some n \<Rightarrow> n)"

section \<open>Capabilities\<close>

definition TOOL_CAPABILITIES :: "(string \<times> string list) list" where
  "TOOL_CAPABILITIES =
     [(''list_datasets'', [''data:read'']), (''get_dataset_detail'', [''data:read'']),
      (''preview_rows'', [''data:read'']), (''run_sql_query'', [''data:read'']),
      (''get_system_status'', [''system:read'']), (''get_dataset_statistics'', [''data:read'']),
      (''connectivity_status'', [''connectivity:read'']), (''get_notifications'', [''system:read'']),
      (''get_tunnel_status'', [''connectivity:read'']), (''generate_diagnostic_bundle'', [''system:read'']),
      (''connectivity_test'', [''connectivity:read'']), (''connectivity_generate_setup'', [''connectivity:read'']),
      (''log_feedback'', [''feedback:write'']), (''submit_feedback'', [''feedback:write'']),
      (''create_notification'', [''system:write'']), (''prepare_support_bundle'', [''system:read'']),
      (''create_artifact'', [''data:read'']), (''create_artifact_from_query'', [''data:read'']),
      (''update_listing_title'', [''data:write'']), (''update_listing_description'', [''data:write'']),
      (''set_listing_category'', [''data:write'']), (''regenerate_listing_metadata'', [''data:write'']),
      (''delete_dataset'', [''data:delete'']), (''connectivity_enable'', [''connectivity:write'']),
      (''connectivity_disable'', [''connectivity:write'']), (''connectivity_create_token'', [''connectivity:write'']),
      (''connectivity_revoke_token'', [''connectivity:write'']), (''start_public_tunnel'', [''connectivity:write'']),
      (''stop_public_tunnel'', [''connectivity:write''])]"

definition ALL_CAPABILITIES :: "string list" where
  "ALL_CAPABILITIES = concat (map snd TOOL_CAPABILITIES)"

text \<open>\<open>get_user_capabilities\<close> grants everything; it stays a function of the user.\<close>

definition get_user_capabilities :: "string \<Rightarrow> string list" where
  "get_user_capabilities user = ALL_CAPABILITIES"

datatype capability_error = NoMapping string | MissingCapabilities "string list"

definition check_capabilities :: "string \<Rightarrow> string \<Rightarrow> capability_error option" where
  "check_capabilities user tool_name =
     (case map_of TOOL_CAPABILITIES tool_name of
        None \<Rightarrow> Some (NoMapping tool_name)
      | Some required \<Rightarrow>
          (let missing = filter (\<lambda>c. c \<notin> set (get_user_capabilities user)) required
           in if missing \<noteq> [] then Some (MissingCapabilities missing) else None))"

section \<open>Tokens\<close>

text \<open>Objects by address: the contents of the dictionaries that tokens and callers share.\<close>

type_synonym objects = "nat \<Rightarrow> dict"

datatype token_status = Pending | Claimed | Approved | Denied | Expired | Error

record approval_token =
  at_id :: string
  at_user_id :: string
  at_session_id :: string
  at_tool_name :: string
  at_tool_input :: nat
  at_tool_args_hash :: string
  at_nonce :: string
  at_description :: string
  at_risk_level :: string
  at_status :: token_status
  at_created_at :: time
  at_expires_at :: time

type_synonym pending = "(string \<times> approval_token) list"

record approval_result =
  ar_success :: bool
  ar_reason :: string
  ar_tool_name :: string
  ar_tool_input :: "nat option"

definition refused :: "string \<Rightarrow> approval_result" where
  "refused r = \<lparr>ar_success = False, ar_reason = r, ar_tool_name = [], ar_tool_input = None\<rparr>"

definition cleanup_expired :: "time \<Rightarrow> pending \<Rightarrow> pending" where
  "cleanup_expired now ps =
     (let expired = map fst (filter (\<lambda>p. now > at_expires_at (snd p)) ps)
      in foldl (\<lambda>q i. AList.delete i q) ps expired)"

text \<open>\<open>swept\<close> is the clock reading of the clean-up, \<open>now\<close> the one of the token.\<close>

definition create_token ::
  "(dict \<Rightarrow> string) \<Rightarrow> objects \<Rightarrow> string \<Rightarrow> string \<Rightarrow> time \<Rightarrow> time
     \<Rightarrow> string \<Rightarrow> string \<Rightarrow> string \<Rightarrow> nat \<Rightarrow> string \<Rightarrow> pending \<Rightarrow> approval_token \<times> pending" where
  "create_token digest store new_id nonce swept now user_id session_id tool_name tool_input desc ps =
     (let ps = cleanup_expired swept ps;
          risk_level = risk_of tool_name;
          token = \<lparr>at_id = new_id, at_user_id = user_id, at_session_id = session_id,
                   at_tool_name = tool_name, at_tool_input = tool_input,
                   at_tool_args_hash = digest (store tool_input), at_nonce = nonce,
                   at_description = (if desc \<noteq> [] then desc
                     else case map_of MUTATION_TOOLS tool_name of
                            None \<Rightarrow> ''Execute '' @ tool_name | Some i \<Rightarrow> ti_desc i),
                   at_risk_level = risk_level, at_status = Pending,
                   at_created_at = now, at_expires_at = now + seconds (ttl_of risk_level)\<rparr>
      in (token, AList.update new_id token ps))"

definition validate_and_consume ::
  "(dict \<Rightarrow> string) \<Rightarrow> objects \<Rightarrow> time \<Rightarrow> string \<Rightarrow> string \<Rightarrow> string \<Rightarrow> pending \<Rightarrow> approval_result \<times> pending" where
  "validate_and_consume digest store now token_id user_id session_id ps =
     (case map_of ps token_id of
        None \<Rightarrow> (refused ''not_found_or_already_used'', ps)
      | Some token \<Rightarrow>
          if at_status token \<noteq> Pending then (refused ''not_found_or_already_used'', ps)
          else let ps = AList.update token_id (token\<lparr>at_status := Claimed\<rparr>) ps;
                   restored = AList.update token_id (token\<lparr>at_status := Pending\<rparr>) ps;
                   gone = AList.delete token_id ps
               in if now > at_expires_at token then (refused ''expired'', gone)
                  else if at_user_id token \<noteq> user_id then (refused ''wrong_user'', restored)
                  else if at_session_id token \<noteq> session_id then (refused ''wrong_session'', restored)
                  else if at_tool_args_hash token \<noteq> digest (store (at_tool_input token))
                  then (refused ''args_tampered'', gone)
                  else (\<lparr>ar_success = True, ar_reason = [], ar_tool_name = at_tool_name token,
                         ar_tool_input = Some (at_tool_input token)\<rparr>, gone))"

definition deny_token :: "string \<Rightarrow> pending \<Rightarrow> bool \<times> pending" where
  "deny_token token_id ps =
     (case map_of ps token_id of
        None \<Rightarrow> (False, ps)
      | Some token \<Rightarrow> if at_status token \<noteq> Pending then (False, ps) else (True, AList.delete token_id ps))"

section \<open>Histories\<close>

text \<open>
  What the rest of the program does to the service: requests, confirmations and denials, and
  writes to the shared objects by any code that holds one.
\<close>

record approval_world =
  aw_pending :: pending
  aw_objects :: objects

datatype approval_op =
    Request string string time time string string string nat string
  | Confirm time string string string
  | Deny string
  | Write nat dict

definition confirm_result :: "(dict \<Rightarrow> string) \<Rightarrow> approval_world \<Rightarrow> time \<Rightarrow> string \<Rightarrow> string \<Rightarrow> string \<Rightarrow> approval_result" where
  "confirm_result digest w now i u s =
     fst (validate_and_consume digest (aw_objects w) now i u s (aw_pending w))"

fun approval_step :: "(dict \<Rightarrow> string) \<Rightarrow> approval_world \<Rightarrow> approval_op \<Rightarrow> approval_world" where
  "approval_step digest w (Request i nonce swept now u s tool a desc) =
     w\<lparr>aw_pending := snd (create_token digest (aw_objects w) i nonce swept now u s tool a desc (aw_pending w))\<rparr>"
| "approval_step digest w (Confirm now i u s) =
     w\<lparr>aw_pending := snd (validate_and_consume digest (aw_objects w) now i u s (aw_pending w))\<rparr>"
| "approval_step digest w (Deny i) = w\<lparr>aw_pending := snd (deny_token i (aw_pending w))\<rparr>"
| "approval_step digest w (Write a d) = w\<lparr>aw_objects := (aw_objects w)(a := d)\<rparr>"

abbreviation approval_run :: "(dict \<Rightarrow> string) \<Rightarrow> approval_world \<Rightarrow> approval_op list \<Rightarrow> approval_world" where
  "approval_run digest \<equiv> foldl (approval_step digest)"

definition fresh_service :: "objects \<Rightarrow> approval_world" where
  "fresh_service store = \<lparr>aw_pending = [], aw_objects = store\<rparr>"

text \<open>The identifiers that are approved in a history, in order.\<close>

fun approvals :: "(dict \<Rightarrow> string) \<Rightarrow> approval_world \<Rightarrow> approval_op list \<Rightarrow> string list" where
  "approvals digest w [] = []"
| "approvals digest w (op # ops) =
     (case op of
        Confirm now i u s \<Rightarrow> if ar_success (confirm_result digest w now i u s) then [i] else []
      | _ \<Rightarrow> []) @ approvals digest (approval_step digest w op) ops"

fun requests :: "string \<Rightarrow> approval_op list \<Rightarrow> nat" where
  "requests i [] = 0"
| "requests i (Request j nonce swept now u s tool a desc # ops) = (if j = i then 1 else 0) + requests i ops"
| "requests i (op # ops) = requests i ops"

section \<open>Lemmas\<close>

lemma update_same: "map_of xs k = Some v \<Longrightarrow> AList.update k v xs = xs"
  by (induction xs) (auto split: if_splits)

lemma AList_update_twice: "AList.update k v (AList.update k u xs) = AList.update k v xs"
  by (induction xs) auto

lemma delete_update_same: "AList.delete k (AList.update k v xs) = AList.delete k xs"
  by (induction xs) (auto simp: AList.delete_eq)

lemma map_of_delete_some: "map_of (AList.delete j ps) i = Some t \<Longrightarrow> map_of ps i = Some t"
  by (auto simp: AList.delete_conv' split: if_splits)

lemma map_of_deletes:
  "map_of (foldl (\<lambda>q j. AList.delete j q) ps ks) i = Some t \<Longrightarrow> map_of ps i = Some t"
  by (induction ks arbitrary: ps) (auto dest: map_of_delete_some)

lemma map_of_cleanup: "map_of (cleanup_expired now ps) i = Some t \<Longrightarrow> map_of ps i = Some t"
  by (auto simp: cleanup_expired_def intro: map_of_deletes)

text \<open>The registry holds pending tokens only, each under its own identifier.\<close>

definition registry_ok :: "pending \<Rightarrow> bool" where
  "registry_ok ps \<longleftrightarrow> (\<forall>i t. map_of ps i = Some t \<longrightarrow> at_id t = i \<and> at_status t = Pending)"

lemma registry_okD: "registry_ok ps \<Longrightarrow> map_of ps i = Some t \<Longrightarrow> at_id t = i \<and> at_status t = Pending"
  by (simp add: registry_ok_def)

lemma map_of_create:
  "map_of (snd (create_token dg st i n sw now u s tool a desc ps)) =
     (map_of (cleanup_expired sw ps))(i \<mapsto> fst (create_token dg st i n sw now u s tool a desc ps))"
  by (simp add: create_token_def Let_def update_conv')

lemma create_fields [simp]:
  "at_id (fst (create_token dg st i n sw now u s tool a desc ps)) = i"
  "at_user_id (fst (create_token dg st i n sw now u s tool a desc ps)) = u"
  "at_session_id (fst (create_token dg st i n sw now u s tool a desc ps)) = s"
  "at_tool_name (fst (create_token dg st i n sw now u s tool a desc ps)) = tool"
  "at_tool_input (fst (create_token dg st i n sw now u s tool a desc ps)) = a"
  "at_tool_args_hash (fst (create_token dg st i n sw now u s tool a desc ps)) = dg (st a)"
  "at_status (fst (create_token dg st i n sw now u s tool a desc ps)) = Pending"
  "at_expires_at (fst (create_token dg st i n sw now u s tool a desc ps)) = now + seconds (ttl_of (risk_of tool))"
  by (simp_all add: create_token_def Let_def)

lemma consume_success_iff:
  "ar_success (fst (validate_and_consume dg st now i u s ps)) \<longleftrightarrow>
     (\<exists>t. map_of ps i = Some t \<and> at_status t = Pending \<and> now \<le> at_expires_at t \<and> at_user_id t = u \<and>
        at_session_id t = s \<and> at_tool_args_hash t = dg (st (at_tool_input t)))"
  by (auto simp: validate_and_consume_def refused_def Let_def split: option.splits)

lemma consume_result:
  assumes "map_of ps i = Some t" "ar_success (fst (validate_and_consume dg st now i u s ps))"
  shows "ar_tool_name (fst (validate_and_consume dg st now i u s ps)) = at_tool_name t"
    "ar_tool_input (fst (validate_and_consume dg st now i u s ps)) = Some (at_tool_input t)"
    "snd (validate_and_consume dg st now i u s ps) = AList.delete i ps"
  using assms
  by (auto simp: validate_and_consume_def refused_def Let_def delete_update_same split: if_splits)

lemma restore_same:
  assumes "registry_ok ps" "map_of ps i = Some t"
  shows "AList.update i (t\<lparr>at_status := Pending\<rparr>) ps = ps"
proof -
  have "t\<lparr>at_status := Pending\<rparr> = t" using registry_okD [OF assms] by simp
  then show ?thesis by (simp add: update_same [OF assms(2)])
qed

text \<open>A confirmation either removes the token or leaves the registry as it was.\<close>

lemma consume_effect:
  assumes "registry_ok ps"
  shows "snd (validate_and_consume dg st now i u s ps) = ps \<or>
    snd (validate_and_consume dg st now i u s ps) = AList.delete i ps"
  by (auto simp: validate_and_consume_def Let_def delete_update_same AList_update_twice restore_same [OF assms]
      split: option.splits)

lemma consume_lookup:
  assumes "registry_ok ps" "map_of (snd (validate_and_consume dg st now i u s ps)) j = Some t"
  shows "map_of ps j = Some t"
  using consume_effect [OF assms(1), of dg st now i u s] assms(2)
  by (auto simp: AList.delete_conv' split: if_splits)

lemma deny_lookup: "map_of (snd (deny_token i ps)) j = Some t \<Longrightarrow> map_of ps j = Some t"
  by (auto simp: deny_token_def AList.delete_conv' split: option.splits if_splits)

lemma registry_ok_step: "registry_ok (aw_pending w) \<Longrightarrow> registry_ok (aw_pending (approval_step dg w op))"
proof (cases op)
  case (Request i n sw now u s tool a desc)
  assume "registry_ok (aw_pending w)"
  then show ?thesis using Request
    by (auto simp: registry_ok_def map_of_create dest: map_of_cleanup)
next
  case (Confirm now i u s)
  assume "registry_ok (aw_pending w)"
  then show ?thesis using Confirm unfolding registry_ok_def [of "aw_pending (approval_step dg w op)"]
    by (auto dest: consume_lookup registry_okD)
next
  case (Deny i)
  assume "registry_ok (aw_pending w)"
  then show ?thesis using Deny by (auto simp: registry_ok_def dest: deny_lookup)
qed simp_all

interpretation gate: step_system "fresh_service store" "approval_step dg" "\<lambda>w. registry_ok (aw_pending w)" for store dg
  by unfold_locales (auto simp: fresh_service_def registry_ok_def [of "[]"] intro: registry_ok_step)

lemma approvals_append: "approvals dg w (xs @ ys) = approvals dg w xs @ approvals dg (approval_run dg w xs) ys"
  by (induction xs arbitrary: w) auto

text \<open>
  Every pending token comes from a request, made with the token's user and session, that nothing
  approved since.
\<close>

definition comes_from ::
  "(dict \<Rightarrow> string) \<Rightarrow> approval_world \<Rightarrow> approval_op list \<Rightarrow> string \<Rightarrow> approval_token \<Rightarrow> bool" where
  "comes_from dg w ops i t \<longleftrightarrow>
     (\<exists>pre nonce swept t0 tool a desc post.
        ops = pre @ Request i nonce swept t0 (at_user_id t) (at_session_id t) tool a desc # post \<and>
        at_tool_name t = tool \<and> at_tool_input t = a \<and>
        at_tool_args_hash t = dg (aw_objects (approval_run dg w pre) a) \<and>
        at_expires_at t = t0 + seconds (ttl_of (risk_of tool)) \<and>
        i \<notin> set (approvals dg (approval_run dg w (pre @ [Request i nonce swept t0 (at_user_id t) (at_session_id t) tool a desc])) post))"

lemma comes_from_extend:
  assumes "comes_from dg w ops i t" and "i \<notin> set (approvals dg (approval_run dg w ops) [op])"
  shows "comes_from dg w (ops @ [op]) i t"
proof -
  obtain pre nonce swept t0 tool a desc post where
    o: "ops = pre @ Request i nonce swept t0 (at_user_id t) (at_session_id t) tool a desc # post"
    and r: "at_tool_name t = tool" "at_tool_input t = a"
      "at_tool_args_hash t = dg (aw_objects (approval_run dg w pre) a)"
      "at_expires_at t = t0 + seconds (ttl_of (risk_of tool))"
    and n: "i \<notin> set (approvals dg (approval_run dg w (pre @ [Request i nonce swept t0 (at_user_id t) (at_session_id t) tool a desc])) post)"
    using assms(1) unfolding comes_from_def by blast
  have "i \<notin> set (approvals dg (approval_run dg w (pre @ [Request i nonce swept t0 (at_user_id t) (at_session_id t) tool a desc])) (post @ [op]))"
    using n assms(2) unfolding o approvals_append by simp
  moreover have "ops @ [op] = pre @ Request i nonce swept t0 (at_user_id t) (at_session_id t) tool a desc # (post @ [op])"
    by (simp add: o)
  ultimately show ?thesis using r unfolding comes_from_def by blast
qed

lemma comes_from_request:
  "comes_from dg w (ops @ [Request i n sw t0 u s tool a desc]) i
     (fst (create_token dg (aw_objects (approval_run dg w ops)) i n sw t0 u s tool a desc ps))"
  unfolding comes_from_def
  by (rule exI [of _ ops], rule exI [of _ n], rule exI [of _ sw], rule exI [of _ t0], rule exI [of _ tool],
      rule exI [of _ a], rule exI [of _ desc], rule exI [of _ "[]"]) simp

lemma pending_comes_from:
  "map_of (aw_pending (approval_run dg (fresh_service st) ops)) i = Some t \<Longrightarrow>
     comes_from dg (fresh_service st) ops i t"
proof (induction ops arbitrary: i t rule: rev_induct)
  case Nil
  then show ?case by (simp add: fresh_service_def)
next
  case (snoc op ops)
  let ?w = "approval_run dg (fresh_service st) ops"
  have ok: "registry_ok (aw_pending ?w)" by (rule gate.run_inv)
  have step: "map_of (aw_pending (approval_step dg ?w op)) i = Some t" using snoc.prems by simp
  show ?case
  proof (cases op)
    case (Request j n sw t0 u s tool a desc)
    show ?thesis
    proof (cases "i = j")
      case True
      then have "t = fst (create_token dg (aw_objects ?w) i n sw t0 u s tool a desc (aw_pending ?w))"
        using step Request by (simp add: map_of_create)
      then show ?thesis using comes_from_request True Request by simp
    next
      case False
      then have "map_of (aw_pending ?w) i = Some t"
        using step Request by (auto simp: map_of_create dest: map_of_cleanup)
      then show ?thesis using snoc.IH Request by (auto intro: comes_from_extend)
    qed
  next
    case (Confirm now j u s)
    have p: "map_of (aw_pending ?w) i = Some t"
      using step Confirm by (auto intro: consume_lookup [OF ok])
    have "\<not> (j = i \<and> ar_success (confirm_result dg ?w now j u s))"
      using step Confirm consume_result(3) [OF p, of dg "aw_objects ?w" now u s]
      by (auto simp: confirm_result_def AList.delete_conv')
    then show ?thesis using snoc.IH [OF p] Confirm by (intro comes_from_extend) auto
  next
    case (Deny j)
    then show ?thesis using snoc.IH step by (auto intro!: comes_from_extend dest: deny_lookup)
  next
    case (Write a d)
    then show ?thesis using snoc.IH step by (auto intro!: comes_from_extend)
  qed
qed

section \<open>Properties\<close>

text \<open>Also: every approval goes back to a request made earlier with the same identifier for the same
  user and session, whose deadline has not passed, whose input still has the digest it had then, and
  which has not been approved since; the approved tool and input are the requested ones.\<close>

theorem approval_traces_to_request:
  assumes "w = approval_run dg (fresh_service store) ops"
    and "ar_success (confirm_result dg w now i u s)"
  shows "\<exists>pre nonce swept t0 tool a desc post.
    ops = pre @ Request i nonce swept t0 u s tool a desc # post \<and>
    ar_tool_name (confirm_result dg w now i u s) = tool \<and>
    ar_tool_input (confirm_result dg w now i u s) = Some a \<and>
    now \<le> t0 + seconds (ttl_of (risk_of tool)) \<and>
    dg (aw_objects w a) = dg (aw_objects (approval_run dg (fresh_service store) pre) a) \<and>
    i \<notin> set (approvals dg (approval_run dg (fresh_service store) (pre @ [Request i nonce swept t0 u s tool a desc])) post)"
proof -
  obtain t where t: "map_of (aw_pending w) i = Some t" "now \<le> at_expires_at t" "at_user_id t = u"
      "at_session_id t = s" "at_tool_args_hash t = dg (aw_objects w (at_tool_input t))"
    using assms(2) by (auto simp: confirm_result_def consume_success_iff)
  have c: "comes_from dg (fresh_service store) ops i t"
    using t(1) unfolding assms(1) by (rule pending_comes_from)
  show ?thesis
    using c t(2-5) consume_result(1,2) [OF t(1) assms(2) [unfolded confirm_result_def]]
    unfolding comes_from_def confirm_result_def by metis
qed

definition sample_history :: "approval_op list" where
  "sample_history = [Request ''t1'' ''n'' 0 0 ''ann'' ''s1'' ''delete_dataset'' 7 [],
     Confirm 5 ''t1'' ''bob'' ''s1'', Write 8 [(''x'', JInt 1)]]"

definition sample_digest :: "dict \<Rightarrow> string" where "sample_digest d = concat (map fst d)"

theorem approval_traces_to_request_witness:
  "\<exists>pre t0 post nonce swept desc. sample_history =
     pre @ Request ''t1'' nonce swept t0 ''ann'' ''s1'' ''delete_dataset'' 7 desc # post \<and> seconds 30 \<le> t0 + seconds 30"
proof -
  let ?w = "approval_run sample_digest (fresh_service (\<lambda>_. [])) sample_history"
  have s: "ar_success (confirm_result sample_digest ?w (seconds 30) ''t1'' ''ann'' ''s1'')" by code_simp
  have n: "ar_tool_name (confirm_result sample_digest ?w (seconds 30) ''t1'' ''ann'' ''s1'') = ''delete_dataset''"
    "ar_tool_input (confirm_result sample_digest ?w (seconds 30) ''t1'' ''ann'' ''s1'') = Some 7"
    "ttl_of (risk_of ''delete_dataset'') = 30" by code_simp+
  obtain pre nonce swept t0 tool a desc post where
    "sample_history = pre @ Request ''t1'' nonce swept t0 ''ann'' ''s1'' tool a desc # post"
    "''delete_dataset'' = tool" "Some 7 = Some a" "seconds 30 \<le> t0 + seconds (ttl_of (risk_of tool))"
    using approval_traces_to_request [OF refl s] unfolding n by blast
  then show ?thesis using n(3) by (intro exI conjI) auto
qed

lemma consume_removes:
  "ar_success (confirm_result dg w now i u s) \<Longrightarrow>
     map_of (aw_pending w) i \<noteq> None \<and> map_of (aw_pending (approval_step dg w (Confirm now i u s))) i = None"
  by (auto simp: confirm_result_def consume_success_iff consume_result AList.delete_conv'
      dest: consume_result(3) [where dg = dg and st = "aw_objects w" and now = now and u = u and s = s])

lemma approvals_bound:
  "registry_ok (aw_pending w) \<Longrightarrow>
   count_list (approvals dg w ops) i \<le> (if map_of (aw_pending w) i = None then 0 else 1) + requests i ops"
proof (induction ops arbitrary: w)
  case (Cons op ops)
  have ok: "registry_ok (aw_pending (approval_step dg w op))" using Cons.prems by (rule registry_ok_step)
  note IH = Cons.IH [OF ok]
  show ?case
  proof (cases op)
    case (Request j n sw t0 u s tool a desc)
    then show ?thesis using IH map_of_cleanup [of sw "aw_pending w" i]
      by (cases "map_of (cleanup_expired sw (aw_pending w)) i") (auto simp: map_of_create split: if_splits)
  next
    case (Confirm now j u s)
    then show ?thesis
      using IH consume_removes [of dg w now j u s] consume_lookup [OF Cons.prems, of dg "aw_objects w" now j u s i]
      by (auto split: if_splits)
  next
    case (Deny j)
    then show ?thesis using IH deny_lookup [of j "aw_pending w" i] by (auto split: if_splits)
  next
    case (Write a d)
    then show ?thesis using IH by (auto split: if_splits)
  qed
qed simp

text \<open>Also: approvals are single-use: in any history an identifier is approved at most as often as it
  was requested.\<close>

theorem approvals_single_use:
  "count_list (approvals dg (fresh_service store) ops) i \<le> requests i ops"
  using approvals_bound [of "fresh_service store" dg ops i] gate.init_inv [of store]
  by (simp add: fresh_service_def)

text \<open>Also: in every reachable state a live token that somebody else, or another session of the
  same user, tries to confirm is refused and stays usable: the registry does not change.\<close>

theorem foreign_confirmation_harmless:
  assumes "w = approval_run dg (fresh_service store) ops"
    and "map_of (aw_pending w) i = Some t" and "now \<le> at_expires_at t"
    and "u \<noteq> at_user_id t \<or> s \<noteq> at_session_id t"
  shows "approval_step dg w (Confirm now i u s) = w \<and>
    ar_reason (confirm_result dg w now i u s) = (if u \<noteq> at_user_id t then ''wrong_user'' else ''wrong_session'')"
proof -
  have ok: "registry_ok (aw_pending w)" unfolding assms(1) by (rule gate.run_inv)
  have p: "at_status t = Pending" using registry_okD [OF ok assms(2)] by simp
  have e: "validate_and_consume dg (aw_objects w) now i u s (aw_pending w) =
      (refused (if u \<noteq> at_user_id t then ''wrong_user'' else ''wrong_session''), aw_pending w)"
    using p assms(2-4) restore_same [OF ok assms(2)] by (auto simp: AList_update_twice validate_and_consume_def Let_def)
  show ?thesis by (simp add: confirm_result_def e refused_def)
qed

theorem foreign_confirmation_harmless_witness:
  "approval_step sample_digest (approval_run sample_digest (fresh_service (\<lambda>_. [])) sample_history)
     (Confirm 6 ''t1'' ''ann'' ''s2'') = approval_run sample_digest (fresh_service (\<lambda>_. [])) sample_history"
proof -
  let ?w = "approval_run sample_digest (fresh_service (\<lambda>_. [])) sample_history"
  let ?t = "the (map_of (aw_pending ?w) ''t1'')"
  have "map_of (aw_pending ?w) ''t1'' = Some ?t" "6 \<le> at_expires_at ?t" "''ann'' \<noteq> at_user_id ?t \<or> ''s2'' \<noteq> at_session_id ?t"
    by code_simp+
  then show ?thesis using foreign_confirmation_harmless [OF refl] by blast
qed

text \<open>Also: the two default-deny tests agree: a tool passes the capability check exactly when it
  belongs to one of the three categories, and the categories do not overlap.\<close>

theorem capabilities_match_classification:
  "(check_capabilities user tool = None \<longleftrightarrow> tool \<in> set ALL_CLASSIFIED_TOOLS) \<and> distinct ALL_CLASSIFIED_TOOLS"
proof -
  have caps: "set ALL_CAPABILITIES = \<Union> (set ` snd ` set TOOL_CAPABILITIES)"
    by (auto simp: ALL_CAPABILITIES_def)
  have "filter (\<lambda>c. c \<notin> set ALL_CAPABILITIES) req = []" if "map_of TOOL_CAPABILITIES tool = Some req" for req
    using map_of_SomeD [OF that] by (force simp: caps filter_empty_conv)
  then have "check_capabilities user tool = None \<longleftrightarrow> tool \<in> fst ` set TOOL_CAPABILITIES"
    by (auto simp: check_capabilities_def get_user_capabilities_def Let_def map_of_eq_None_iff split: option.splits
        dest!: map_of_SomeD intro: rev_image_eqI)
  moreover have "map fst TOOL_CAPABILITIES = ALL_CLASSIFIED_TOOLS" by code_simp
  moreover have "distinct ALL_CLASSIFIED_TOOLS" by code_simp
  ultimately show ?thesis by (metis set_map)
qed

end
