(* ===== verification/Tool_Executor.thy ===== *)
theory Tool_Executor
  imports Approval_Token
begin

text \<open>
  Running the assistant's tools: \<open>AllAIToolExecutor\<close> of \<open>app/services/allai_tool_executor.py\<close>
  (call limit, capability and ownership checks, classification, approval requests, the audited
  execution) and the \<open>CONFIRM_ACTION\<close> message of \<open>app/routers/copilot.py\<close> that consumes an
  approval and runs the tool. The tool handlers, the redaction of texts, the stores that
  ownership is looked up in and the clock are arguments of each call. Sending on the WebSocket may
  fail, and the socket is then closed, so every later send fails too.
\<close>

section \<open>Exceptions\<close>

datatype py_exc =
    ConnectionError | ConnectionRefusedError | OSError | TimeoutError | FileNotFoundError
  | PermissionError | ValueError | KeyError | OtherException

text \<open>The built-in classes an exception is an instance of; \<open>asyncio.TimeoutError\<close> is \<open>TimeoutError\<close>.\<close>

fun classes_of :: "py_exc \<Rightarrow> py_exc list" where
  "classes_of ConnectionError = [ConnectionError, OSError]"
| "classes_of ConnectionRefusedError = [ConnectionRefusedError, ConnectionError, OSError]"
| "classes_of TimeoutError = [TimeoutError, OSError]"
| "classes_of FileNotFoundError = [FileNotFoundError, OSError]"
| "classes_of PermissionError = [PermissionError, OSError]"
| "classes_of e = [e]"

definition isinstance :: "py_exc \<Rightarrow> py_exc list \<Rightarrow> bool" where
  "isinstance e cs \<longleftrightarrow> list_ex (\<lambda>c. c \<in> set cs) (classes_of e)"

definition safe_error_category :: "py_exc \<Rightarrow> string" where
  "safe_error_category e =
     (if isinstance e [ConnectionError, ConnectionRefusedError, OSError] then ''connection_refused''
      else if isinstance e [TimeoutError] then ''timeout''
      else if isinstance e [FileNotFoundError] then ''resource_not_found''
      else if isinstance e [PermissionError] then ''permission_denied''
      else if isinstance e [ValueError] then ''invalid_input''
      else if isinstance e [KeyError] then ''missing_configuration''
      else ''internal_error'')"

text \<open>
  What ends a call early: an exception of a handler, a failed send (a plain exception), or the
  cancellation of the task, which \<open>except Exception\<close> does not catch.
\<close>

datatype exec_exn = Exn py_exc | SendError | CancelledError

fun category_of :: "exec_exn \<Rightarrow> string" where
  "category_of (Exn e) = safe_error_category e"
| "category_of SendError = ''internal_error''"
| "category_of CancelledError = ''internal_error''"

section \<open>State\<close>

record tool_result =
  frontend_data :: json
  llm_summary :: string

record audit_row =
  au_session_id :: string
  au_user_id :: string
  au_tool_name :: string
  au_input_hash :: string
  au_resource_id :: "string option"
  au_outcome :: string
  au_duration_ms :: int
  au_error_category :: "string option"
  au_approval_token_id :: "string option"

record vz_event =
  ev_type :: string
  ev_session_id :: string
  ev_data :: json

record executor =
  xc_user :: string
  xc_session :: string
  xc_call_count :: nat

text \<open>A handler that was started: by which executor, for whom, on which input, under which approval.\<close>

record dispatch =
  dp_executor :: "nat option"
  dp_user :: string
  dp_tool :: string
  dp_input :: nat
  dp_token :: "string option"

text \<open>\<open>sends_left\<close>: how many more sends succeed before the socket breaks, \<open>None\<close> when it does not.\<close>

record exec_world =
  gate :: approval_world
  executors :: "executor list"
  sends_left :: "nat option"
  sent :: "json list"
  audit_up :: bool
  audit_log :: "audit_row list"
  emitted :: "vz_event list"
  dispatched :: "dispatch list"

text \<open>The arguments of one call; \<open>te_handler\<close> includes the timeout of \<open>asyncio.wait_for\<close>.\<close>

record tool_env =
  te_handler :: "string \<Rightarrow> dict \<Rightarrow> exec_exn + tool_result"
  te_redact :: "string \<Rightarrow> string"
  te_str :: "json \<Rightarrow> string"
  te_exn_text :: "exec_exn \<Rightarrow> string"
  te_dataset :: "json \<Rightarrow> unit + string option"
  te_listing :: "json \<Rightarrow> unit + bool"
  te_start :: time
  te_sweep :: time
  te_now :: time
  te_end :: time
  te_new_id :: string
  te_nonce :: string

type_synonym 'a action = "(exec_world, exec_exn, 'a) meth"

definition MAX_TOOL_CALLS_PER_MESSAGE :: nat where "MAX_TOOL_CALLS_PER_MESSAGE = 5"

section \<open>Outputs\<close>

definition send_ws :: "json \<Rightarrow> unit action" where
  "send_ws m = (\<lambda>w.
     case sends_left w of
       None \<Rightarrow> (Inr (), w\<lparr>sent := sent w @ [m]\<rparr>)
     | Some 0 \<Rightarrow> (Inl SendError, w)
     | Some (Suc n) \<Rightarrow> (Inr (), w\<lparr>sends_left := Some n, sent := sent w @ [m]\<rparr>))"

definition emit :: "string \<Rightarrow> string \<Rightarrow> json \<Rightarrow> unit action" where
  "emit session ty d = (\<lambda>w. (Inr (),
     w\<lparr>emitted := emitted w @ [\<lparr>ev_type = ty, ev_session_id = session, ev_data = d\<rparr>]\<rparr>))"

definition RESOURCE_ID_FIELDS :: "string list" where
  "RESOURCE_ID_FIELDS = [''dataset_id'', ''token_id'', ''platform'', ''query'']"

definition extract_resource_id :: "tool_env \<Rightarrow> dict \<Rightarrow> string option" where
  "extract_resource_id env input =
     (case filter (\<lambda>v. v \<noteq> JNull) (map (\<lambda>f. dict_get input f JNull) RESOURCE_ID_FIELDS) of
        [] \<Rightarrow> None | v # _ \<Rightarrow> Some (take 200 (te_str env v)))"

text \<open>\<open>audit_logger.log\<close>; a failing database is logged and ignored.\<close>

definition log_audit ::
  "(dict \<Rightarrow> string) \<Rightarrow> tool_env \<Rightarrow> string \<Rightarrow> string \<Rightarrow> string \<Rightarrow> nat \<Rightarrow> string \<Rightarrow> int \<Rightarrow> string option \<Rightarrow> string option
     \<Rightarrow> unit action" where
  "log_audit dg env session user tool a outcome ms err tok = (\<lambda>w.
     if \<not> audit_up w then (Inr (), w)
     else let input = aw_objects (gate w) a
          in (Inr (), w\<lparr>audit_log := audit_log w @
                [\<lparr>au_session_id = session, au_user_id = user, au_tool_name = tool, au_input_hash = dg input,
                  au_resource_id = extract_resource_id env input, au_outcome = outcome, au_duration_ms = ms,
                  au_error_category = err, au_approval_token_id = tok\<rparr>]\<rparr>))"

definition tool_status :: "string \<Rightarrow> string \<Rightarrow> json" where
  "tool_status tool s = JObj [(''type'', JStr ''TOOL_STATUS''), (''tool_name'', JStr tool), (''status'', JStr s)]"

text \<open>\<open>int((end - start) * 1000)\<close> truncates towards zero.\<close>

definition duration_ms :: "time \<Rightarrow> time \<Rightarrow> int" where
  "duration_ms start finish =
     (if start \<le> finish then (finish - start) div 1000 else - ((start - finish) div 1000))"

definition error_result :: "string \<Rightarrow> string \<Rightarrow> tool_result" where
  "error_result e s = \<lparr>frontend_data = JObj [(''error'', JStr e)], llm_summary = s\<rparr>"

section \<open>Execution\<close>

text \<open>The names \<open>_dispatch\<close> has a handler for.\<close>

definition HANDLERS :: "string list" where
  "HANDLERS = [''list_datasets'', ''get_dataset_detail'', ''preview_rows'', ''run_sql_query'',
     ''get_system_status'', ''get_dataset_statistics'', ''connectivity_status'', ''connectivity_enable'',
     ''connectivity_disable'', ''connectivity_create_token'', ''connectivity_revoke_token'',
     ''connectivity_generate_setup'', ''connectivity_test'', ''submit_feedback'', ''log_feedback'',
     ''start_public_tunnel'', ''stop_public_tunnel'', ''get_tunnel_status'', ''generate_diagnostic_bundle'',
     ''prepare_support_bundle'', ''get_notifications'', ''create_notification'', ''create_artifact'',
     ''create_artifact_from_query'', ''update_listing_title'', ''update_listing_description'',
     ''set_listing_category'', ''regenerate_listing_metadata'']"

definition tool_dispatch :: "tool_env \<Rightarrow> dispatch \<Rightarrow> tool_result action" where
  "tool_dispatch env d = (\<lambda>w.
     if dp_tool d \<notin> set HANDLERS
     then (Inr (error_result (''Unknown tool: '' @ dp_tool d) (''Unknown tool: '' @ dp_tool d)), w)
     else (te_handler env (dp_tool d) (aw_objects (gate w) (dp_input d)), w\<lparr>dispatched := dispatched w @ [d]\<rparr>))"

definition run_and_report ::
  "(dict \<Rightarrow> string) \<Rightarrow> tool_env \<Rightarrow> string \<Rightarrow> time \<Rightarrow> dispatch \<Rightarrow> tool_result action" where
  "run_and_report dg env session start d =
     seq (tool_dispatch env d) (\<lambda>r.
     let r = r\<lparr>llm_summary := te_redact env (llm_summary r)\<rparr>; ms = duration_ms start (te_end env) in
     seq (send_ws (JObj [(''type'', JStr ''TOOL_RESULT''), (''tool_name'', JStr (dp_tool d)),
                         (''data'', frontend_data r)])) (\<lambda>_.
     seq (send_ws (tool_status (dp_tool d) ''done'')) (\<lambda>_.
     seq (log_audit dg env session (dp_user d) (dp_tool d) (dp_input d) ''success'' ms None (dp_token d)) (\<lambda>_.
     seq (emit session ''tool_executed'' (JObj [(''tool_name'', JStr (dp_tool d)), (''outcome'', JStr ''success''),
                                               (''duration_ms'', JInt ms)])) (\<lambda>_.
     ret r)))))"

definition report_failure ::
  "(dict \<Rightarrow> string) \<Rightarrow> tool_env \<Rightarrow> string \<Rightarrow> time \<Rightarrow> dispatch \<Rightarrow> exec_exn \<Rightarrow> tool_result action" where
  "report_failure dg env session start d e =
     (if e = CancelledError then raise e
      else if e = Exn TimeoutError
      then seq (send_ws (tool_status (dp_tool d) ''error'')) (\<lambda>_.
           seq (log_audit dg env session (dp_user d) (dp_tool d) (dp_input d) ''error''
                  (duration_ms start (te_end env)) (Some ''timeout'') None) (\<lambda>_.
           ret (error_result ''Tool timed out after 10s''
                  (''Tool '' @ dp_tool d @ '' timed out. Suggest the user try again.''))))
      else let safe_cat = category_of e in
           seq (send_ws (tool_status (dp_tool d) ''error'')) (\<lambda>_.
           seq (log_audit dg env session (dp_user d) (dp_tool d) (dp_input d) ''error''
                  (duration_ms start (te_end env)) (Some safe_cat) None) (\<lambda>_.
           ret (error_result safe_cat (te_redact env (''Tool '' @ dp_tool d @ '' failed: '' @ safe_cat))))))"

definition execute_and_audit ::
  "(dict \<Rightarrow> string) \<Rightarrow> tool_env \<Rightarrow> string \<Rightarrow> dispatch \<Rightarrow> tool_result action" where
  "execute_and_audit dg env session d =
     seq (send_ws (tool_status (dp_tool d) ''executing'')) (\<lambda>_.
     catch (run_and_report dg env session (te_start env) d) (report_failure dg env session (te_start env) d))"

section \<open>Authorization\<close>

definition quoted :: "string \<Rightarrow> string" where "quoted s = [CHR 0x27] @ s @ [CHR 0x27]"

text \<open>The UTF-8 bytes of the dash in the messages.\<close>

definition em_dash :: string where "em_dash = [CHR 0xE2, CHR 0x80, CHR 0x94]"

definition user_owns_dataset :: "tool_env \<Rightarrow> json \<Rightarrow> bool" where
  "user_owns_dataset env i = (case te_dataset env i of Inr (Some _) \<Rightarrow> True | _ \<Rightarrow> False)"

definition user_owns_listing :: "tool_env \<Rightarrow> json \<Rightarrow> bool" where
  "user_owns_listing env i = (te_listing env i = Inr True)"

definition authorize :: "tool_env \<Rightarrow> string \<Rightarrow> dict \<Rightarrow> string option" where
  "authorize env tool input =
     (if tool \<in> {''update_listing_title'', ''update_listing_description'', ''set_listing_category'',
                 ''regenerate_listing_metadata''}
      then let i = dict_get input ''listing_id'' JNull
           in if \<not> truthy_json i then Some ''listing_id is required''
              else if \<not> user_owns_listing env i
              then Some (''Listing '' @ quoted (te_str env i) @ '' not found or not owned by user'')
              else None
      else let i = dict_get input ''dataset_id'' JNull
           in if truthy_json i \<and> \<not> user_owns_dataset env i
              then Some (''Dataset '' @ quoted (te_str env i) @ '' not found or not owned by user'')
              else None)"

fun capability_text :: "tool_env \<Rightarrow> capability_error \<Rightarrow> string" where
  "capability_text env (NoMapping tool) =
     ''Tool '' @ quoted tool @ '' has no capability mapping '' @ em_dash @ '' denied by default''"
| "capability_text env (MissingCapabilities cs) =
     ''Missing capabilities: '' @ te_str env (JList (map JStr cs))"

section \<open>Approval requests\<close>

text \<open>The details shown to the user; the first entry is the description.\<close>

definition get_resource_details :: "tool_env \<Rightarrow> string \<Rightarrow> dict \<Rightarrow> string \<times> (string \<times> json) list" where
  "get_resource_details env tool input =
     (if tool = ''delete_dataset''
      then let dataset_id = dict_get input ''dataset_id'' (JStr ''unknown'');
               filename = (case te_dataset env dataset_id of Inr (Some f) \<Rightarrow> JStr f | _ \<Rightarrow> dataset_id);
               desc = ''Delete dataset '' @ quoted (te_str env filename) @ '' and all processed data''
           in (desc, [(''description'', JStr desc), (''dataset_id'', dataset_id), (''filename'', filename)])
      else (''Execute '' @ tool, [(''description'', JStr (''Execute '' @ tool))]))"

definition ask_gate ::
  "(dict \<Rightarrow> string) \<Rightarrow> tool_env \<Rightarrow> string \<Rightarrow> string \<Rightarrow> string \<Rightarrow> nat \<Rightarrow> string \<Rightarrow> string action" where
  "ask_gate dg env user session tool a desc = (\<lambda>w.
     (Inr (te_new_id env),
      w\<lparr>gate := approval_step dg (gate w)
          (Request (te_new_id env) (te_nonce env) (te_sweep env) (te_now env) user session tool a desc)\<rparr>))"

definition request_approval ::
  "(dict \<Rightarrow> string) \<Rightarrow> tool_env \<Rightarrow> string \<Rightarrow> string \<Rightarrow> string \<Rightarrow> nat \<Rightarrow> tool_result action" where
  "request_approval dg env user session tool a = (\<lambda>w.
     let (desc, details) = get_resource_details env tool (aw_objects (gate w) a);
         risk = risk_of tool; ttl = ttl_of risk in
     seq (ask_gate dg env user session tool a desc) (\<lambda>i.
     seq (send_ws (JObj [(''type'', JStr ''CONFIRM_REQUEST''), (''confirm_id'', JStr i), (''tool_name'', JStr tool),
            (''description'', JStr desc), (''details'', JObj details), (''risk_level'', JStr risk),
            (''expires_in_seconds'', JInt ttl)])) (\<lambda>_.
     seq (emit session ''approval_request'' (JObj [(''token_id'', JStr i), (''tool_name'', JStr tool),
            (''description'', JStr desc), (''risk_level'', JStr risk), (''expires_in_seconds'', JInt ttl)])) (\<lambda>_.
     seq (log_audit dg env session user tool a ''approval_requested'' 0 None (Some i)) (\<lambda>_.
     ret \<lparr>frontend_data = JObj [(''status'', JStr ''confirmation_requested''), (''confirm_id'', JStr i)],
          llm_summary = ''A confirmation prompt has been shown to the user for: '' @ desc @
            ''. Wait for the user to confirm or cancel. Do NOT proceed until they respond.''\<rparr>)))) w)"

section \<open>The security pipeline\<close>

definition count_call :: "nat \<Rightarrow> nat action" where
  "count_call k = (\<lambda>w.
     let n = xc_call_count (executors w ! k) + 1
     in (Inr n, w\<lparr>executors := (executors w)[k := (executors w ! k)\<lparr>xc_call_count := n\<rparr>]\<rparr>))"

definition deny ::
  "(dict \<Rightarrow> string) \<Rightarrow> tool_env \<Rightarrow> string \<Rightarrow> string \<Rightarrow> string \<Rightarrow> nat \<Rightarrow> string \<Rightarrow> string \<Rightarrow> tool_result
     \<Rightarrow> tool_result action" where
  "deny dg env session user tool a outcome err r =
     seq (log_audit dg env session user tool a outcome 0 (Some err) None) (\<lambda>_. ret r)"

text \<open>The steps after the call limit.\<close>

definition route ::
  "(dict \<Rightarrow> string) \<Rightarrow> tool_env \<Rightarrow> nat \<Rightarrow> string \<Rightarrow> string \<Rightarrow> string \<Rightarrow> nat \<Rightarrow> tool_result action" where
  "route dg env k user session tool a = (\<lambda>w.
     (case check_capabilities user tool of
        Some e \<Rightarrow> deny dg env session user tool a ''denied_capability'' ''capability_denied''
                    (error_result (capability_text env e) (''Authorization failed: '' @ capability_text env e))
      | None \<Rightarrow>
          if tool \<notin> set ALL_CLASSIFIED_TOOLS
          then deny dg env session user tool a ''denied_unclassified'' ''unclassified_tool''
                 (error_result (''Tool '' @ quoted tool @ '' is not classified '' @ em_dash @ '' denied'')
                    (''Tool '' @ quoted tool @ '' is not classified and was denied.''))
          else (case authorize env tool (aw_objects (gate w) a) of
                  Some e \<Rightarrow> deny dg env session user tool a ''denied_authorization'' ''auth_failed''
                              (error_result (''Not authorized: '' @ e) (''Authorization failed: '' @ e))
                | None \<Rightarrow>
                    if tool \<in> fst ` set MUTATION_TOOLS then request_approval dg env user session tool a
                    else execute_and_audit dg env session
                           \<lparr>dp_executor = Some k, dp_user = user, dp_tool = tool, dp_input = a, dp_token = None\<rparr>)) w)"

definition execute :: "(dict \<Rightarrow> string) \<Rightarrow> tool_env \<Rightarrow> nat \<Rightarrow> string \<Rightarrow> nat \<Rightarrow> tool_result action" where
  "execute dg env k tool a = (\<lambda>w.
     seq (count_call k) (\<lambda>n.
       if n > MAX_TOOL_CALLS_PER_MESSAGE
       then ret (error_result ''Tool call limit reached (5 per message)''
              ''Tool call limit reached (5 per message). Ask the user to send another message to continue.'')
       else route dg env k (xc_user (executors w ! k)) (xc_session (executors w ! k)) tool a) w)"

section \<open>The confirmation message\<close>

definition consume ::
  "(dict \<Rightarrow> string) \<Rightarrow> tool_env \<Rightarrow> string \<Rightarrow> string \<Rightarrow> string \<Rightarrow> approval_result action" where
  "consume dg env confirm_id user session = (\<lambda>w.
     (Inr (confirm_result dg (gate w) (te_now env) confirm_id user session),
      w\<lparr>gate := approval_step dg (gate w) (Confirm (te_now env) confirm_id user session)\<rparr>))"

definition confirm_message :: "string \<Rightarrow> bool \<Rightarrow> string \<Rightarrow> json" where
  "confirm_message i ok m = JObj [(''type'', JStr ''CONFIRM_RESULT''), (''confirm_id'', JStr i),
     (''success'', JBool ok), (''message'', JStr m)]"

definition execute_approved ::
  "(dict \<Rightarrow> string) \<Rightarrow> tool_env \<Rightarrow> string \<Rightarrow> string \<Rightarrow> string \<Rightarrow> approval_result \<Rightarrow> unit action" where
  "execute_approved dg env confirm_id user session r =
     seq (execute_and_audit dg env session
            \<lparr>dp_executor = None, dp_user = user, dp_tool = ar_tool_name r,
             dp_input = (case ar_tool_input r of Some a \<Rightarrow> a | None \<Rightarrow> 0), dp_token = Some confirm_id\<rparr>) (\<lambda>res.
     seq (send_ws (confirm_message confirm_id True (take 300 (llm_summary res)))) (\<lambda>_.
     emit session ''approval_result'' (JObj [(''token_id'', JStr confirm_id), (''success'', JBool True),
       (''tool_name'', JStr (ar_tool_name r))])))"

definition approval_failed :: "tool_env \<Rightarrow> string \<Rightarrow> string \<Rightarrow> exec_exn \<Rightarrow> unit action" where
  "approval_failed env confirm_id session e =
     (if e = CancelledError then raise e
      else seq (send_ws (confirm_message confirm_id False
                  (''Execution failed: '' @ take 200 (te_exn_text env e)))) (\<lambda>_.
           emit session ''approval_result'' (JObj [(''token_id'', JStr confirm_id), (''success'', JBool False),
             (''reason'', JStr ''execution_error'')])))"

text \<open>\<open>session_user\<close> is the user the executor runs as.\<close>

definition confirm_action ::
  "(dict \<Rightarrow> string) \<Rightarrow> tool_env \<Rightarrow> string \<Rightarrow> string \<Rightarrow> string \<Rightarrow> string \<Rightarrow> unit action" where
  "confirm_action dg env user session_user session confirm_id =
     (if confirm_id = []
      then send_ws (JObj [(''type'', JStr ''ERROR''), (''message'', JStr ''CONFIRM_ACTION requires confirm_id'')])
      else seq (consume dg env confirm_id user session) (\<lambda>r.
           if \<not> ar_success r
           then seq (send_ws (confirm_message confirm_id False (''Approval failed: '' @ ar_reason r))) (\<lambda>_.
                emit session ''approval_result'' (JObj [(''token_id'', JStr confirm_id),
                  (''success'', JBool False), (''reason'', JStr (ar_reason r))]))
           else catch (execute_approved dg env confirm_id session_user session r)
                  (approval_failed env confirm_id session)))"

section \<open>Histories\<close>

text \<open>
  A chat message gets an executor of its own; the model calls tools on it, the user confirms, and
  code that holds an input may change it.
\<close>

datatype exec_event =
    Message string string
  | ToolCall tool_env nat string nat
  | ConfirmAction tool_env string string string string
  | Change nat dict
  | Reconnect "nat option"

fun exec_step :: "(dict \<Rightarrow> string) \<Rightarrow> exec_world \<Rightarrow> exec_event \<Rightarrow> exec_world" where
  "exec_step dg w (Message user session) =
     w\<lparr>executors := executors w @ [\<lparr>xc_user = user, xc_session = session, xc_call_count = 0\<rparr>]\<rparr>"
| "exec_step dg w (ToolCall env k tool a) =
     (if k < length (executors w) then snd (execute dg env k tool a w) else w)"
| "exec_step dg w (ConfirmAction env user session_user session i) =
     snd (confirm_action dg env user session_user session i w)"
| "exec_step dg w (Change a d) = w\<lparr>gate := approval_step dg (gate w) (Write a d)\<rparr>"
| "exec_step dg w (Reconnect n) = w\<lparr>sends_left := n\<rparr>"

definition start_exec :: "bool \<Rightarrow> objects \<Rightarrow> exec_world" where
  "start_exec db store = \<lparr>gate = fresh_service store, executors = [], sends_left = None, sent = [],
     audit_up = db, audit_log = [], emitted = [], dispatched = []\<rparr>"

abbreviation exec_run :: "(dict \<Rightarrow> string) \<Rightarrow> exec_world \<Rightarrow> exec_event list \<Rightarrow> exec_world" where
  "exec_run dg \<equiv> foldl (exec_step dg)"

text \<open>How often a history asks for an approval under an identifier.\<close>

definition asks :: "string \<Rightarrow> exec_event list \<Rightarrow> nat" where
  "asks i es = length (filter (\<lambda>e. case e of ToolCall env _ _ _ \<Rightarrow> te_new_id env = i | _ \<Rightarrow> False) es)"

section \<open>What the actions touch\<close>

text \<open>A quiet action changes neither the gate nor the executors nor the record of started handlers.\<close>

definition frame :: "exec_world \<Rightarrow> exec_world \<Rightarrow> bool" where
  "frame w w' \<longleftrightarrow> gate w' = gate w \<and> executors w' = executors w \<and> dispatched w' = dispatched w"

definition quiet :: "'a action \<Rightarrow> bool" where
  "quiet m \<longleftrightarrow> (\<forall>w. frame w (snd (m w)))"

lemma quietD: "quiet m \<Longrightarrow> frame w (snd (m w))"
  by (simp add: quiet_def)

lemma frame_trans: "frame u v \<Longrightarrow> frame v w \<Longrightarrow> frame u w"
  by (simp add: frame_def)

lemma frame_refl [simp]: "frame w w"
  by (simp add: frame_def)

lemma quiet_basic [intro]:
  "quiet (ret x)" "quiet (raise e)" "quiet (send_ws m)" "quiet (emit s ty j)"
  "quiet (log_audit dg env s u t a oc ms err tok)"
  by (auto simp: quiet_def frame_def send_ws_def emit_def log_audit_def Let_def split: option.splits nat.splits)

lemma quiet_seq [intro]: "quiet m \<Longrightarrow> (\<And>x. quiet (f x)) \<Longrightarrow> quiet (seq m f)"
  unfolding quiet_def by (auto simp: seq_cases split: sum.splits intro: frame_trans)

lemma quiet_deny [intro]: "quiet (deny dg env s u t a oc err r)"
  unfolding deny_def by (intro quiet_seq quiet_basic)

lemma quiet_report_failure: "quiet (report_failure dg env s st d e)"
  by (auto simp: report_failure_def Let_def)

lemma quiet_approval_failed: "quiet (approval_failed env i s e)"
  by (auto simp: approval_failed_def)

text \<open>Running a tool starts at most one handler, the given one, and touches nothing else.\<close>

definition runs_once :: "dispatch \<Rightarrow> exec_world \<Rightarrow> exec_world \<Rightarrow> bool" where
  "runs_once d w w' \<longleftrightarrow> gate w' = gate w \<and> executors w' = executors w \<and>
     dispatched w' \<in> {dispatched w, dispatched w @ [d]}"

lemma runs_once_frame: "runs_once d u v \<Longrightarrow> frame v w \<Longrightarrow> runs_once d u w"
  "frame u v \<Longrightarrow> runs_once d v w \<Longrightarrow> runs_once d u w"
  by (simp_all add: runs_once_def frame_def)

lemma runs_once_seq:
  "(\<And>w. runs_once d w (snd (m w))) \<Longrightarrow> (\<And>x. quiet (f x)) \<Longrightarrow> runs_once d w (snd (seq m f w))"
  by (auto simp: seq_cases split: sum.splits intro: runs_once_frame(1) quietD)

lemma runs_once_catch:
  "(\<And>w. runs_once d w (snd (m w))) \<Longrightarrow> (\<And>e. quiet (h e)) \<Longrightarrow> runs_once d w (snd (catch m h w))"
  by (auto simp: catch_cases split: sum.splits intro: runs_once_frame(1) quietD)

lemma runs_once_dispatch: "runs_once d w (snd (tool_dispatch env d w))"
  by (simp add: runs_once_def tool_dispatch_def)

lemma runs_once_report: "runs_once d w (snd (run_and_report dg env s st d w))"
  unfolding run_and_report_def Let_def
  by (rule runs_once_seq [OF runs_once_dispatch]) (intro quiet_seq quiet_basic)

lemma runs_once_execute: "runs_once d w (snd (execute_and_audit dg env s d w))"
proof -
  have c: "runs_once d v (snd (catch (run_and_report dg env s st d) (report_failure dg env s st d) v))" for v st
    by (rule runs_once_catch [OF runs_once_report quiet_report_failure])
  have q: "frame w (snd (send_ws (tool_status (dp_tool d) ''executing'') w))"
    by (rule quietD) (rule quiet_basic)
  show ?thesis
    using q runs_once_frame(2) [OF q c]
    by (auto simp: execute_and_audit_def seq_cases runs_once_def frame_def split: sum.splits)
qed

lemma execute_approved_effect:
  "runs_once \<lparr>dp_executor = None, dp_user = u, dp_tool = ar_tool_name r,
     dp_input = (case ar_tool_input r of Some a \<Rightarrow> a | None \<Rightarrow> 0), dp_token = Some i\<rparr>
     w (snd (execute_approved dg env i u s r w))"
  unfolding execute_approved_def
  by (rule runs_once_seq [OF runs_once_execute]) (intro quiet_seq quiet_basic)

lemma confirm_action_eq:
  "i \<noteq> [] \<Longrightarrow> confirm_action dg env u su s i w =
     (let r = confirm_result dg (gate w) (te_now env) i u s;
               w1 = w\<lparr>gate := approval_step dg (gate w) (Confirm (te_now env) i u s)\<rparr>
           in if \<not> ar_success r
              then seq (send_ws (confirm_message i False (''Approval failed: '' @ ar_reason r)))
                (\<lambda>_. emit s ''approval_result'' (JObj [(''token_id'', JStr i),
                  (''success'', JBool False), (''reason'', JStr (ar_reason r))])) w1
              else catch (execute_approved dg env i su s r) (approval_failed env i s) w1)"
  by (simp add: confirm_action_def consume_def seq_cases Let_def)

lemma confirm_action_world:
  obtains (refused) "frame w (snd (confirm_action dg env u su s i w))" "i = []"
  | (failed) "i \<noteq> []" "\<not> ar_success (confirm_result dg (gate w) (te_now env) i u s)"
      "frame (w\<lparr>gate := approval_step dg (gate w) (Confirm (te_now env) i u s)\<rparr>)
         (snd (confirm_action dg env u su s i w))"
  | (approved) "i \<noteq> []" "ar_success (confirm_result dg (gate w) (te_now env) i u s)"
      "runs_once \<lparr>dp_executor = None, dp_user = su, dp_tool = ar_tool_name (confirm_result dg (gate w) (te_now env) i u s),
         dp_input = (case ar_tool_input (confirm_result dg (gate w) (te_now env) i u s) of Some a \<Rightarrow> a | None \<Rightarrow> 0),
         dp_token = Some i\<rparr>
         (w\<lparr>gate := approval_step dg (gate w) (Confirm (te_now env) i u s)\<rparr>)
         (snd (confirm_action dg env u su s i w))"
proof -
  consider "i = []" | "i \<noteq> []" "\<not> ar_success (confirm_result dg (gate w) (te_now env) i u s)"
    | "i \<noteq> []" "ar_success (confirm_result dg (gate w) (te_now env) i u s)" by blast
  then show thesis
  proof cases
    case 1
    moreover have "frame w (snd (confirm_action dg env u su s i w))"
      using 1 by (simp add: confirm_action_def) (rule quietD, rule quiet_basic)
    ultimately show thesis by (rule refused [rotated])
  next
    case 2
    let ?w = "w\<lparr>gate := approval_step dg (gate w) (Confirm (te_now env) i u s)\<rparr>"
    have "frame ?w (snd (confirm_action dg env u su s i w))"
      unfolding confirm_action_eq [OF 2(1)] Let_def if_P [OF 2(2)]
      by (rule quietD) (intro quiet_seq quiet_basic)
    with 2 show thesis by (rule failed)
  next
    case 3
    then have "\<not> \<not> ar_success (confirm_result dg (gate w) (te_now env) i u s)" by simp
    note e = confirm_action_eq [OF 3(1), of dg env u su s w, unfolded Let_def if_not_P [OF this]]
    show thesis
      by (rule approved [OF 3]) (unfold e, rule runs_once_catch [OF execute_approved_effect quiet_approval_failed])
  qed
qed

definition asked_world :: "(dict \<Rightarrow> string) \<Rightarrow> tool_env \<Rightarrow> string \<Rightarrow> string \<Rightarrow> string \<Rightarrow> nat \<Rightarrow> string \<Rightarrow> exec_world \<Rightarrow> exec_world" where
  "asked_world dg env u s tool a desc w = w\<lparr>gate := approval_step dg (gate w)
     (Request (te_new_id env) (te_nonce env) (te_sweep env) (te_now env) u s tool a desc)\<rparr>"

lemma request_approval_effect:
  "\<exists>desc. frame (asked_world dg env u s tool a desc w) (snd (request_approval dg env u s tool a w))"
proof -
  obtain desc details where d: "get_resource_details env tool (aw_objects (gate w) a) = (desc, details)"
    by (cases "get_resource_details env tool (aw_objects (gate w) a)")
  have ask: "ask_gate dg env u s tool a desc w = (Inr (te_new_id env), asked_world dg env u s tool a desc w)"
    by (simp add: ask_gate_def asked_world_def)
  have "frame (asked_world dg env u s tool a desc w) (snd (request_approval dg env u s tool a w))"
    unfolding request_approval_def d Let_def prod.case seq_cases [of "ask_gate dg env u s tool a desc"] ask fst_conv snd_conv sum.case
    by (rule quietD) (intro quiet_seq quiet_basic)
  then show ?thesis ..
qed

lemma route_world:
  obtains (idle) "frame w (snd (route dg env k u s tool a w))"
  | (asked) desc where "tool \<in> fst ` set MUTATION_TOOLS"
      "frame (asked_world dg env u s tool a desc w) (snd (route dg env k u s tool a w))"
  | (ran) "tool \<in> set READ_ONLY_TOOLS \<union> set AUTO_APPROVE_TOOLS"
      "runs_once \<lparr>dp_executor = Some k, dp_user = u, dp_tool = tool, dp_input = a, dp_token = None\<rparr> w
         (snd (route dg env k u s tool a w))"
proof (cases "check_capabilities u tool = None \<and> tool \<in> set ALL_CLASSIFIED_TOOLS \<and>
    authorize env tool (aw_objects (gate w) a) = None")
  case False
  have "frame w (snd (deny dg env s u tool a oc err r w))" for oc err r
    by (rule quietD) (rule quiet_deny)
  then have "frame w (snd (route dg env k u s tool a w))"
    using False by (auto simp: route_def split: option.splits)
  then show thesis by (rule idle)
next
  case True
  show thesis
  proof (cases "tool \<in> fst ` set MUTATION_TOOLS")
    case t: True
    then have "route dg env k u s tool a w = request_approval dg env u s tool a w"
      using True by (simp add: route_def)
    then show thesis using request_approval_effect [of dg env u s tool a w] t asked by metis
  next
    case f: False
    then have "route dg env k u s tool a w = execute_and_audit dg env s
        \<lparr>dp_executor = Some k, dp_user = u, dp_tool = tool, dp_input = a, dp_token = None\<rparr> w"
      using True by (simp add: route_def)
    moreover have "tool \<in> set READ_ONLY_TOOLS \<union> set AUTO_APPROVE_TOOLS"
      using True f by (auto simp: ALL_CLASSIFIED_TOOLS_def)
    ultimately show thesis using ran runs_once_execute by metis
  qed
qed

definition counted :: "nat \<Rightarrow> exec_world \<Rightarrow> exec_world" where
  "counted k w = w\<lparr>executors := (executors w)[k := (executors w ! k)\<lparr>xc_call_count := xc_call_count (executors w ! k) + 1\<rparr>]\<rparr>"

lemma execute_eq:
  "execute dg env k tool a w =
     (if xc_call_count (executors w ! k) < 5
      then route dg env k (xc_user (executors w ! k)) (xc_session (executors w ! k)) tool a (counted k w)
      else (Inr (error_result ''Tool call limit reached (5 per message)''
        ''Tool call limit reached (5 per message). Ask the user to send another message to continue.''), counted k w))"
  by (simp add: execute_def seq_cases count_call_def counted_def Let_def MAX_TOOL_CALLS_PER_MESSAGE_def)

section \<open>The invariant\<close>

text \<open>
  Tokens stand for mutation tools; what was started is a classified tool, of the category its
  token or lack of one says; an executor started at most as many handlers as it counted calls, and
  at most five.
\<close>

definition started_by :: "dispatch list \<Rightarrow> nat \<Rightarrow> nat" where
  "started_by ds k = length (filter (\<lambda>d. dp_executor d = Some k) ds)"

definition started_under :: "dispatch list \<Rightarrow> string \<Rightarrow> nat" where
  "started_under ds i = length (filter (\<lambda>d. dp_token d = Some i) ds)"

definition calls :: "executor list \<Rightarrow> nat \<Rightarrow> nat" where
  "calls xs k = (if k < length xs then xc_call_count (xs ! k) else 0)"

definition dispatch_ok :: "dispatch \<Rightarrow> bool" where
  "dispatch_ok d \<longleftrightarrow> (dp_executor d = None \<longleftrightarrow> dp_token d \<noteq> None) \<and>
     (if dp_token d = None then dp_tool d \<in> set READ_ONLY_TOOLS \<union> set AUTO_APPROVE_TOOLS
      else dp_tool d \<in> fst ` set MUTATION_TOOLS)"

definition tokens_ok :: "pending \<Rightarrow> bool" where
  "tokens_ok ps \<longleftrightarrow> registry_ok ps \<and> (\<forall>i t. map_of ps i = Some t \<longrightarrow> at_tool_name t \<in> fst ` set MUTATION_TOOLS)"

definition counts_ok :: "executor list \<Rightarrow> dispatch list \<Rightarrow> bool" where
  "counts_ok xs ds \<longleftrightarrow> (\<forall>k. started_by ds k \<le> 5 \<and> started_by ds k \<le> calls xs k)"

definition exec_inv :: "exec_world \<Rightarrow> bool" where
  "exec_inv w \<longleftrightarrow> tokens_ok (aw_pending (gate w)) \<and> (\<forall>d \<in> set (dispatched w). dispatch_ok d) \<and>
     counts_ok (executors w) (dispatched w)"

lemma exec_inv_frame: "exec_inv w \<Longrightarrow> frame w w' \<Longrightarrow> exec_inv w'"
  by (simp add: exec_inv_def frame_def)

lemma tokens_ok_request:
  assumes "tokens_ok (aw_pending g)" "tool \<in> fst ` set MUTATION_TOOLS"
  shows "tokens_ok (aw_pending (approval_step dg g (Request i n sw now u s tool a desc)))"
  using assms registry_ok_step [of g dg "Request i n sw now u s tool a desc"]
  by (auto simp: tokens_ok_def map_of_create dest: map_of_cleanup)

lemma tokens_ok_confirm:
  assumes "tokens_ok (aw_pending g)"
  shows "tokens_ok (aw_pending (approval_step dg g (Confirm now i u s)))"
  using assms registry_ok_step [of g dg "Confirm now i u s"]
  by (auto simp: tokens_ok_def dest: consume_lookup)

lemma started_by_append [simp]:
  "started_by (ds @ [d]) k = started_by ds k + (if dp_executor d = Some k then 1 else 0)"
  by (simp add: started_by_def)

lemma started_under_append [simp]:
  "started_under (ds @ [d]) i = started_under ds i + (if dp_token d = Some i then 1 else 0)"
  by (simp add: started_under_def)

lemma exec_inv_run:
  assumes "exec_inv w" "runs_once d w w'" "dispatch_ok d"
    "\<And>k. dp_executor d = Some k \<Longrightarrow> started_by (dispatched w) k < 5 \<and> started_by (dispatched w) k < calls (executors w) k"
  shows "exec_inv w'"
proof -
  have "counts_ok (executors w) (dispatched w @ [d])"
    using assms(1,4) by (auto simp: counts_ok_def exec_inv_def Suc_le_eq)
  then show ?thesis
    using assms(1-3) by (auto simp: exec_inv_def runs_once_def)
qed

lemma calls_counted:
  "k < length (executors w) \<Longrightarrow>
     calls (executors (counted k w)) j = calls (executors w) j + (if j = k then 1 else 0)"
  by (auto simp: calls_def counted_def nth_list_update)

lemma exec_inv_counted: "exec_inv w \<Longrightarrow> k < length (executors w) \<Longrightarrow> exec_inv (counted k w)"
  unfolding exec_inv_def counts_ok_def using calls_counted [of k w]
  by (auto simp: counted_def intro: le_SucI)

lemma exec_inv_execute:
  assumes "exec_inv w" "k < length (executors w)"
  shows "exec_inv (snd (execute dg env k tool a w))"
proof (cases "xc_call_count (executors w ! k) < 5")
  case False
  then show ?thesis by (simp add: execute_eq exec_inv_counted [OF assms])
next
  case True
  let ?u = "xc_user (executors w ! k)" let ?s = "xc_session (executors w ! k)"
  have i: "exec_inv (counted k w)" by (rule exec_inv_counted [OF assms])
  have e: "execute dg env k tool a w = route dg env k ?u ?s tool a (counted k w)"
    using True by (simp add: execute_eq)
  show ?thesis
  proof (cases rule: route_world [of "counted k w" dg env k ?u ?s tool a])
    case idle
    then show ?thesis unfolding e by (rule exec_inv_frame [OF i])
  next
    case (asked desc)
    have "exec_inv (asked_world dg env ?u ?s tool a desc (counted k w))"
      using i tokens_ok_request [OF _ asked(1)] by (simp add: exec_inv_def asked_world_def del: approval_step.simps)
    then show ?thesis unfolding e using asked(2) by (rule exec_inv_frame)
  next
    case ran
    have c: "started_by (dispatched w) k \<le> xc_call_count (executors w ! k)"
      using assms by (auto simp: exec_inv_def counts_ok_def calls_def split: if_splits)
    show ?thesis unfolding e
    proof (rule exec_inv_run [OF i ran(2)])
      show "dispatch_ok \<lparr>dp_executor = Some k, dp_user = ?u, dp_tool = tool, dp_input = a, dp_token = None\<rparr>"
        using ran(1) by (simp add: dispatch_ok_def)
    next
      fix j
      assume "dp_executor \<lparr>dp_executor = Some k, dp_user = ?u, dp_tool = tool, dp_input = a, dp_token = None\<rparr> = Some j"
      then show "started_by (dispatched (counted k w)) j < 5 \<and>
          started_by (dispatched (counted k w)) j < calls (executors (counted k w)) j"
        using c True assms(2) by (simp add: calls_counted) (simp add: counted_def calls_def)
    qed
  qed
qed

lemma approved_tool:
  assumes "tokens_ok (aw_pending g)" "ar_success (confirm_result dg g now i u s)"
  shows "ar_tool_name (confirm_result dg g now i u s) \<in> fst ` set MUTATION_TOOLS"
proof -
  obtain t where "map_of (aw_pending g) i = Some t"
    using assms(2) by (auto simp: confirm_result_def consume_success_iff)
  then show ?thesis
    using consume_result(1) [OF _ assms(2) [unfolded confirm_result_def]] assms(1)
    by (simp add: tokens_ok_def confirm_result_def)
qed

lemma exec_inv_confirm:
  assumes "exec_inv w" shows "exec_inv (snd (confirm_action dg env u su s i w))"
proof (cases rule: confirm_action_world [of w dg env u su s i])
  case refused
  then show ?thesis by (intro exec_inv_frame [OF assms])
next
  case failed
  have "exec_inv (w\<lparr>gate := approval_step dg (gate w) (Confirm (te_now env) i u s)\<rparr>)"
    using assms by (simp add: exec_inv_def tokens_ok_confirm del: approval_step.simps)
  then show ?thesis using failed(3) by (rule exec_inv_frame)
next
  case approved
  have g: "exec_inv (w\<lparr>gate := approval_step dg (gate w) (Confirm (te_now env) i u s)\<rparr>)"
    using assms by (simp add: exec_inv_def tokens_ok_confirm del: approval_step.simps)
  have t: "ar_tool_name (confirm_result dg (gate w) (te_now env) i u s) \<in> fst ` set MUTATION_TOOLS"
    using assms by (intro approved_tool [OF _ approved(2)]) (simp add: exec_inv_def)
  show ?thesis
    by (rule exec_inv_run [OF g approved(3)]) (use t in \<open>simp_all add: dispatch_ok_def\<close>)
qed

lemma exec_inv_step: "exec_inv w \<Longrightarrow> exec_inv (exec_step dg w e)"
proof (cases e)
  case (Message u s)
  assume "exec_inv w"
  moreover have "calls (executors w) k \<le> calls (executors w @ [x]) k" for k x
    by (auto simp: calls_def nth_append)
  ultimately show ?thesis using Message
    by (auto simp: exec_inv_def counts_ok_def intro: le_trans)
next
  case (Change a d)
  assume "exec_inv w"
  then show ?thesis using Change by (simp add: exec_inv_def)
next
  case (Reconnect n)
  assume "exec_inv w"
  then show ?thesis using Reconnect by (simp add: exec_inv_def)
qed (auto intro: exec_inv_execute exec_inv_confirm)

interpretation exec: step_system "start_exec db store" "exec_step dg" exec_inv for db store dg
proof
  show "exec_inv (start_exec db store)"
    by (simp add: exec_inv_def start_exec_def fresh_service_def tokens_ok_def registry_ok_def counts_ok_def
        started_by_def)
  show "exec_inv w \<Longrightarrow> exec_inv (exec_step dg w e)" for w e by (rule exec_inv_step)
qed

section \<open>Properties\<close>

text \<open>C14: whatever messages, tool calls and confirmations arrive, a handler that runs belongs to a
  classified tool, and it belongs to a tool that changes something exactly when an approval token
  was consumed for it.\<close>

theorem mutations_need_approval:
  assumes "d \<in> set (dispatched (exec_run dg (start_exec db store) es))"
  shows "dp_tool d \<in> set ALL_CLASSIFIED_TOOLS \<and> (dp_tool d \<in> fst ` set MUTATION_TOOLS \<longleftrightarrow> dp_token d \<noteq> None)"
proof -
  have "dispatch_ok d" using exec.run_inv [of dg db store es] assms by (auto simp: exec_inv_def)
  moreover have "set READ_ONLY_TOOLS \<inter> fst ` set MUTATION_TOOLS = {}" "set AUTO_APPROVE_TOOLS \<inter> fst ` set MUTATION_TOOLS = {}"
    by code_simp+
  ultimately show ?thesis by (auto simp: dispatch_ok_def ALL_CLASSIFIED_TOOLS_def split: if_splits)
qed

definition sample_env :: "string \<Rightarrow> time \<Rightarrow> tool_env" where
  "sample_env i t = \<lparr>te_handler = (\<lambda>_ _. Inr \<lparr>frontend_data = JNull, llm_summary = ''ok''\<rparr>),
     te_redact = (\<lambda>s. s), te_str = (\<lambda>_. ''x''), te_exn_text = (\<lambda>_. []), te_dataset = (\<lambda>_. Inr (Some ''f'')),
     te_listing = (\<lambda>_. Inr True), te_start = t, te_sweep = t, te_now = t, te_end = t,
     te_new_id = i, te_nonce = ''n''\<rparr>"

definition sample_tools :: "exec_event list" where
  "sample_tools = [Message ''ann'' ''s1'', ToolCall (sample_env ''t1'' 0) 0 ''connectivity_enable'' 3,
     ConfirmAction (sample_env [] 5) ''ann'' ''ann'' ''s1'' ''t1'']"

theorem mutations_need_approval_witness:
  "\<exists>d \<in> set (dispatched (exec_run sample_digest (start_exec True (\<lambda>_. [])) sample_tools)). dp_token d \<noteq> None"
proof -
  let ?ds = "dispatched (exec_run sample_digest (start_exec True (\<lambda>_. [])) sample_tools)"
  have d: "hd ?ds \<in> set ?ds" "dp_tool (hd ?ds) \<in> fst ` set MUTATION_TOOLS" by code_simp+
  show ?thesis using mutations_need_approval [OF d(1)] d by blast
qed

lemma started_under_run:
  "runs_once d w w' \<Longrightarrow> started_under (dispatched w') i \<le> started_under (dispatched w) i + (if dp_token d = Some i then 1 else 0)"
  by (auto simp: runs_once_def)

definition live :: "exec_world \<Rightarrow> string \<Rightarrow> nat" where
  "live w i = (if map_of (aw_pending (gate w)) i = None then 0 else 1)"

lemma started_under_execute:
  assumes "k < length (executors w)"
  shows "started_under (dispatched (snd (execute dg env k tool a w))) i + live (snd (execute dg env k tool a w)) i
    \<le> started_under (dispatched w) i + live w i + (if te_new_id env = i then 1 else 0)"
proof -
  have c: "dispatched (counted k w) = dispatched w" "gate (counted k w) = gate w" by (simp_all add: counted_def)
  have r: "started_under (dispatched v) i + live v i
      \<le> started_under (dispatched w) i + live w i + (if te_new_id env = i then 1 else 0)"
    if v: "v = snd (route dg env k u s tool a (counted k w))" for v u s
  proof (cases rule: route_world [of "counted k w" dg env k u s tool a])
    case idle
    then show ?thesis using c by (simp add: v frame_def live_def)
  next
    case (asked desc)
    then show ?thesis using c map_of_cleanup [of "te_sweep env" "aw_pending (gate w)" i]
      by (cases "map_of (cleanup_expired (te_sweep env) (aw_pending (gate w))) i")
        (auto simp: v frame_def live_def asked_world_def map_of_create)
  next
    case ran
    then show ?thesis using c started_under_run [OF ran(2), of i] by (simp add: v live_def runs_once_def)
  qed
  have "live (counted k w) i = live w i" by (simp add: live_def c)
  then show ?thesis
    using r [OF refl, of "xc_user (executors w ! k)" "xc_session (executors w ! k)"] c
    by (cases "xc_call_count (executors w ! k) < 5") (simp_all add: execute_eq)
qed

lemma started_under_confirm:
  assumes "registry_ok (aw_pending (gate w))"
  shows "started_under (dispatched (snd (confirm_action dg env u su s j w))) i + live (snd (confirm_action dg env u su s j w)) i
    \<le> started_under (dispatched w) i + live w i"
proof (cases rule: confirm_action_world [of w dg env u su s j])
  case refused
  then show ?thesis by (simp add: frame_def live_def)
next
  case failed
  then show ?thesis using consume_lookup [OF assms, of dg "aw_objects (gate w)" "te_now env" j u s i]
    by (auto simp: frame_def live_def)
next
  case approved
  then show ?thesis
    using consume_lookup [OF assms, of dg "aw_objects (gate w)" "te_now env" j u s i]
      consume_removes [OF approved(2)] started_under_run [OF approved(3), of i]
    by (auto simp: live_def runs_once_def split: if_splits)
qed

text \<open>Also: a tool that changes something runs at most once per request: in any history, the handlers
  started under an approval identifier are at most as many as the tool calls that created it.\<close>

theorem approved_runs_bounded:
  "started_under (dispatched (exec_run dg (start_exec db store) es)) i \<le> asks i es"
proof -
  have "started_under (dispatched (exec_run dg (start_exec db store) es)) i + live (exec_run dg (start_exec db store) es) i
      \<le> asks i es"
  proof (induction es rule: rev_induct)
    case Nil
    then show ?case by (simp add: start_exec_def fresh_service_def live_def started_under_def)
  next
    case (snoc e es)
    let ?w = "exec_run dg (start_exec db store) es"
    have ok: "registry_ok (aw_pending (gate ?w))"
      using exec.run_inv [of dg db store es] by (simp add: exec_inv_def tokens_ok_def)
    show ?case
    proof (cases e)
      case (ToolCall env k tool a)
      then show ?thesis
        using snoc.IH started_under_execute [of k ?w dg env tool a i] by (auto simp: asks_def)
    next
      case (ConfirmAction env u su s j)
      then show ?thesis
        using snoc.IH started_under_confirm [OF ok, of dg env u su s j i] by (auto simp: asks_def)
    qed (use snoc.IH in \<open>auto simp: asks_def live_def\<close>)
  qed
  then show ?thesis by simp
qed

text \<open>Also: one chat message starts at most five handlers without the user's confirmation.\<close>

theorem five_calls_per_message:
  "started_by (dispatched (exec_run dg (start_exec db store) es)) k \<le> 5"
  using exec.run_inv [of dg db store es] by (simp add: exec_inv_def counts_ok_def)

section \<open>The audit trail\<close>

definition silent :: "'a action \<Rightarrow> bool" where
  "silent m \<longleftrightarrow> (\<forall>w. audit_log (snd (m w)) = audit_log w \<and> audit_up (snd (m w)) = audit_up w)"

text \<open>One row when the action returns, none when it raises.\<close>

definition logged :: "exec_world \<Rightarrow> (exec_exn + 'a) \<times> exec_world \<Rightarrow> bool" where
  "logged w r \<longleftrightarrow> (audit_up w \<longrightarrow> audit_up (snd r) \<and>
     length (audit_log (snd r)) = length (audit_log w) + (if isl (fst r) then 0 else 1))"

definition logs_once :: "'a action \<Rightarrow> bool" where
  "logs_once m \<longleftrightarrow> (\<forall>w. logged w (m w))"

lemma logs_onceD: "logs_once m \<Longrightarrow> logged w (m w)"
  by (simp add: logs_once_def)

lemma silent_basic:
  "silent (send_ws m)" "silent (emit s ty j)" "silent (tool_dispatch env d)" "silent (ask_gate dg env u s t a desc)"
  by (auto simp: silent_def send_ws_def emit_def tool_dispatch_def ask_gate_def split: option.splits nat.splits)

lemma logs_once_raise: "logs_once (raise e)"
  by (simp add: logs_once_def logged_def)

lemma logs_once_log:
  "(\<And>x w. \<not> isl (fst (f x w)) \<and> audit_log (snd (f x w)) = audit_log w \<and> audit_up (snd (f x w)) = audit_up w) \<Longrightarrow>
     logs_once (seq (log_audit dg env s u t a oc ms err tok) f)"
  by (simp add: logs_once_def logged_def seq_cases log_audit_def Let_def)

lemma logs_once_seq: "silent m \<Longrightarrow> (\<And>x. logs_once (f x)) \<Longrightarrow> logs_once (seq m f)"
  unfolding logs_once_def logged_def silent_def by (auto simp: seq_cases split: sum.splits)

lemma logs_once_catch: "logs_once m \<Longrightarrow> (\<And>e. logs_once (h e)) \<Longrightarrow> logs_once (catch m h)"
  unfolding logs_once_def logged_def by (auto simp: catch_cases isl_def split: sum.splits)

lemma logs_once_deny: "logs_once (deny dg env s u t a oc err r)"
  unfolding deny_def by (rule logs_once_log) simp

lemma logs_once_failure: "logs_once (report_failure dg env s st d e)"
  by (auto simp: report_failure_def Let_def intro!: logs_once_raise logs_once_seq silent_basic logs_once_log)

lemma logs_once_run: "logs_once (run_and_report dg env s st d)"
  unfolding run_and_report_def Let_def
  by (intro logs_once_seq silent_basic logs_once_log) (simp add: seq_cases emit_def)

lemma logs_once_execute: "logs_once (execute_and_audit dg env s d)"
  unfolding execute_and_audit_def
  by (intro logs_once_seq silent_basic logs_once_catch logs_once_run logs_once_failure)

lemma logs_once_request: "logs_once (request_approval dg env u s t a)"
  unfolding logs_once_def
proof
  fix w :: exec_world
  obtain desc details where d: "get_resource_details env t (aw_objects (gate w) a) = (desc, details)"
    by (cases "get_resource_details env t (aw_objects (gate w) a)")
  show "logged w (request_approval dg env u s t a w)"
    unfolding request_approval_def d Let_def prod.case
    by (rule logs_onceD) (intro logs_once_seq silent_basic logs_once_log, simp)
qed

lemma logs_once_route: "logs_once (route dg env k u s t a)"
  unfolding logs_once_def route_def
  by (auto split: option.splits
      intro: logs_onceD [OF logs_once_deny] logs_onceD [OF logs_once_execute] logs_onceD [OF logs_once_request])

text \<open>Also: with the audit database up, a tool call that returns has added exactly one row to the
  trail, except the calls past the limit of five, which add none; a call that ends in an exception
  (a broken socket, a cancelled task) adds none.\<close>

theorem calls_audited:
  assumes "audit_up w"
  shows "length (audit_log (snd (execute dg env k tool a w))) =
    length (audit_log w) +
      (if xc_call_count (executors w ! k) < MAX_TOOL_CALLS_PER_MESSAGE \<and> \<not> isl (fst (execute dg env k tool a w)) then 1 else 0)"
proof -
  have "audit_up (counted k w)" "audit_log (counted k w) = audit_log w" using assms by (simp_all add: counted_def)
  then show ?thesis
    using logs_once_route [of dg env k "xc_user (executors w ! k)" "xc_session (executors w ! k)" tool a]
    by (auto simp: execute_eq logs_once_def logged_def MAX_TOOL_CALLS_PER_MESSAGE_def)
qed

theorem calls_audited_witness:
  "length (audit_log (exec_run sample_digest (start_exec True (\<lambda>_. []))
     [Message ''ann'' ''s1'', ToolCall (sample_env [] 0) 0 ''rm_rf'' 3])) = 1"
proof -
  let ?w = "exec_run sample_digest (start_exec True (\<lambda>_. [])) [Message ''ann'' ''s1'']"
  have u: "audit_up ?w" by code_simp
  have "xc_call_count (executors ?w ! 0) < MAX_TOOL_CALLS_PER_MESSAGE"
    "\<not> isl (fst (execute sample_digest (sample_env [] 0) 0 ''rm_rf'' 3 ?w))" "length (executors ?w) = 1" "audit_log ?w = []"
    by code_simp+
  then show ?thesis using calls_audited [OF u, of sample_digest "sample_env [] 0" 0 "''rm_rf''" 3] by simp
qed

section \<open>A tool without a handler\<close>

lemma unhandled_tools: "filter (\<lambda>t. t \<notin> set HANDLERS) ALL_CLASSIFIED_TOOLS = [''delete_dataset'']"
  by code_simp

lemma os_errors_are_connection_errors:
  "safe_error_category FileNotFoundError = ''connection_refused''"
  "safe_error_category PermissionError = ''connection_refused''"
  "safe_error_category TimeoutError = ''connection_refused''"
  by (simp_all add: safe_error_category_def isinstance_def)

text \<open>Also: a confirmed deletion of a dataset deletes nothing: no handler exists for the tool, so its
  approval is consumed, nothing is started, and the user is told that the confirmation succeeded.\<close>

theorem confirmed_delete_does_nothing:
  assumes "ar_success (confirm_result dg (gate w) (te_now env) i u s)"
    and "ar_tool_name (confirm_result dg (gate w) (te_now env) i u s) = ''delete_dataset''"
    and "i \<noteq> []" and "sends_left w = None" and "w' = snd (confirm_action dg env u su s i w)"
  shows "dispatched w' = dispatched w \<and>
    last (sent w') = confirm_message i True (take 300 (te_redact env ''Unknown tool: delete_dataset'')) \<and>
    map_of (aw_pending (gate w')) i = None"
proof -
  have h: "''delete_dataset'' \<notin> set HANDLERS" by code_simp
  have r: "map_of (aw_pending (approval_step dg (gate w) (Confirm (te_now env) i u s))) i = None"
    using consume_removes [OF assms(1)] by simp
  show ?thesis
    using assms(1-4) h r unfolding assms(5) confirm_action_eq [OF assms(3)]
    by (simp add: Let_def catch_cases execute_approved_def execute_and_audit_def run_and_report_def
        tool_dispatch_def seq_cases send_ws_def log_audit_def emit_def error_result_def del: approval_step.simps)
qed

definition sample_delete :: "exec_event list" where
  "sample_delete = [Message ''ann'' ''s1'', ToolCall (sample_env ''t1'' 0) 0 ''delete_dataset'' 3]"

theorem confirmed_delete_does_nothing_witness:
  "dispatched (snd (confirm_action sample_digest (sample_env [] 5) ''ann'' ''ann'' ''s1'' ''t1''
     (exec_run sample_digest (start_exec True (\<lambda>_. [])) sample_delete))) = []"
proof -
  let ?w = "exec_run sample_digest (start_exec True (\<lambda>_. [])) sample_delete"
  have h: "ar_success (confirm_result sample_digest (gate ?w) (te_now (sample_env [] 5)) ''t1'' ''ann'' ''s1'')"
    "ar_tool_name (confirm_result sample_digest (gate ?w) (te_now (sample_env [] 5)) ''t1'' ''ann'' ''s1'') = ''delete_dataset''"
    "''t1'' \<noteq> []" "sends_left ?w = None" "dispatched ?w = []"
    by code_simp+
  show ?thesis using confirmed_delete_does_nothing [OF h(1-4) refl, of "''ann''"] h(5) by metis
qed

end
