(* ===== verification/Encoding.thy ===== *)
theory Encoding
  imports Prelude
begin

text \<open>
  Base64 as \<open>base64.b64encode\<close> writes it: a string is a list of bytes, three bytes give four
  characters of the standard alphabet, and the last group is padded.
\<close>

definition alphabet :: string where
  "alphabet = ''ABCDEFGHIJKLMNOPQRSTUVWXYZabcdefghijklmnopqrstuvwxyz0123456789+/''"

definition sextet :: "nat \<Rightarrow> char" where
  "sextet n = alphabet ! n"

definition sextet_value :: "char \<Rightarrow> nat" where
  "sextet_value c = length (takeWhile (\<lambda>d. d \<noteq> c) alphabet)"

fun b64 :: "nat list \<Rightarrow> string" where
  "b64 [] = []"
| "b64 [a] = [sextet (a div 4), sextet (a mod 4 * 16), CHR ''='', CHR ''='']"
| "b64 [a, b] = [sextet (a div 4), sextet (a mod 4 * 16 + b div 16), sextet (b mod 16 * 4), CHR ''='']"
| "b64 (a # b # c # r) =
     sextet (a div 4) # sextet (a mod 4 * 16 + b div 16) # sextet (b mod 16 * 4 + c div 64) #
     sextet (c mod 64) # b64 r"

fun unb64 :: "string \<Rightarrow> nat list" where
  "unb64 (p # q # r # s # xs) =
     (let u = sextet_value p; v = sextet_value q; w = sextet_value r; x = sextet_value s
      in if r = CHR ''='' then [u * 4 + v div 16]
         else if s = CHR ''='' then [u * 4 + v div 16, v mod 16 * 16 + w div 4]
         else (u * 4 + v div 16) # (v mod 16 * 16 + w div 4) # (w mod 4 * 64 + x) # unb64 xs)"
| "unb64 _ = []"

definition bytes :: "string \<Rightarrow> nat list" where
  "bytes s = map of_char s"

definition unbytes :: "nat list \<Rightarrow> string" where
  "unbytes ns = map char_of ns"

definition b64encode :: "string \<Rightarrow> string" where
  "b64encode s = b64 (bytes s)"

definition b64decode :: "string \<Rightarrow> string" where
  "b64decode s = unbytes (unb64 s)"

lemma sextet_table: "list_all (\<lambda>n. sextet_value (sextet n) = n \<and> sextet n \<noteq> CHR ''='') [0..<64]"
  by code_simp

lemma sextet_value [simp]: "n < 64 \<Longrightarrow> sextet_value (sextet n) = n"
  and sextet_not_pad [simp]: "n < 64 \<Longrightarrow> sextet n \<noteq> CHR ''=''"
  using sextet_table by (simp_all add: list_all_iff)

lemma div4_bound [simp]: "(a::nat) < 256 \<Longrightarrow> a div 4 < 64"
  by (simp add: less_mult_imp_div_less)

lemma mix_bounds [simp]:
  "(b::nat) < 256 \<Longrightarrow> a mod 4 * 16 + b div 16 < 64"
  "(c::nat) < 256 \<Longrightarrow> b mod 16 * 4 + c div 64 < 64"
  "(a mod 4 * 16 :: nat) < 64" "(b mod 16 * 4 :: nat) < 64"
proof -
  have m: "a mod 4 < 4" "b mod 16 < 16" by simp_all
  show "b < 256 \<Longrightarrow> a mod 4 * 16 + b div 16 < 64" using m less_mult_imp_div_less [of b 16 16] by linarith
  show "c < 256 \<Longrightarrow> b mod 16 * 4 + c div 64 < 64" using m less_mult_imp_div_less [of c 4 64] by linarith
  show "a mod 4 * 16 < 64" "b mod 16 * 4 < 64" using m by linarith+
qed

lemma unb64_b64: "\<forall>n \<in> set ns. n < 256 \<Longrightarrow> unb64 (b64 ns) = ns"
proof (induction ns rule: b64.induct)
  case (4 a b c r)
  then have "(a mod 4 * 16 + b div 16) div 16 = a mod 4" "(b mod 16 * 4 + c div 64) div 4 = b mod 16"
    "(a mod 4 * 16 + b div 16) mod 16 = b div 16" "(b mod 16 * 4 + c div 64) mod 4 = c div 64"
    using less_mult_imp_div_less [of b 16 16] less_mult_imp_div_less [of c 4 64] by auto
  with 4 show ?case by (simp add: Let_def)
next
  case (3 a b)
  then have "(a mod 4 * 16 + b div 16) div 16 = a mod 4" "(a mod 4 * 16 + b div 16) mod 16 = b div 16"
    using less_mult_imp_div_less [of b 16 16] by auto
  with 3 show ?case by (simp add: Let_def)
qed (simp_all add: Let_def)

theorem b64decode_encode: "b64decode (b64encode s) = s"
proof -
  have "\<forall>n \<in> set (bytes s). n < 256" by (auto simp: bytes_def)
  then have "unb64 (b64 (bytes s)) = bytes s" by (rule unb64_b64)
  then show ?thesis by (simp add: b64decode_def b64encode_def unbytes_def bytes_def o_def)
qed

section \<open>Lenient decoding\<close>

text \<open>
  \<open>binascii.a2b_base64\<close> without strict mode, one character at a time: \<open>q\<close> is the position in the
  group of four, \<open>left\<close> the bits not yet written, \<open>pads\<close> the padding seen. Characters outside the
  alphabet are skipped; padding that completes a group ends the text; an incomplete group is an error.
\<close>

fun a2b :: "nat \<Rightarrow> nat \<Rightarrow> nat \<Rightarrow> string \<Rightarrow> nat list option" where
  "a2b q left pads [] = (if q = 0 then Some [] else None)"
| "a2b q left pads (c # cs) =
     (if c = CHR ''='' then
        (if 2 \<le> q \<and> 4 \<le> q + (pads + 1) then Some [] else a2b q left (if 2 \<le> q then pads + 1 else pads) cs)
      else
        (let v = sextet_value c
         in if 64 \<le> v then a2b q left pads cs
            else if q = 0 then a2b 1 v 0 cs
            else if q = 1 then map_option (Cons (left * 4 + v div 16)) (a2b 2 (v mod 16) 0 cs)
            else if q = 2 then map_option (Cons (left * 16 + v div 4)) (a2b 3 (v mod 4) 0 cs)
            else map_option (Cons (left * 64 + v)) (a2b 0 0 0 cs)))"

text \<open>\<open>base64.urlsafe_b64decode(s)\<close>; \<open>None\<close> is an exception.\<close>

definition urlsafe_b64decode :: "string \<Rightarrow> string option" where
  "urlsafe_b64decode s =
     (if \<exists>c \<in> set s. 128 \<le> (of_char c :: nat) then None
      else map_option unbytes (a2b 0 0 0
        (map (\<lambda>c. if c = CHR ''-'' then CHR ''+'' else if c = CHR ''_'' then CHR ''/'' else c) s)))"

text \<open>What \<open>b64\<close> wrote is read back, also with the padding repeated.\<close>

lemma a2b_pads: "a2b 0 left 0 [] = Some []" "a2b 0 left 0 ''=='' = Some []"
  by simp_all

lemma a2b_sextet:
  assumes "v < 64"
  shows "a2b 0 left pads (sextet v # cs) = a2b (Suc 0) v 0 cs"
    "a2b (Suc 0) left pads (sextet v # cs) = map_option (Cons (left * 4 + v div 16)) (a2b 2 (v mod 16) 0 cs)"
    "a2b 2 left pads (sextet v # cs) = map_option (Cons (left * 16 + v div 4)) (a2b 3 (v mod 4) 0 cs)"
    "a2b 3 left pads (sextet v # cs) = map_option (Cons (left * 64 + v)) (a2b 0 0 0 cs)"
  using assms by (simp_all add: Let_def)

lemma a2b_end: "a2b 2 left 0 (CHR ''='' # CHR ''='' # cs) = Some []" "a2b 3 left 0 (CHR ''='' # cs) = Some []"
  by simp_all

lemma a2b_b64: "\<forall>n \<in> set ns. n < 256 \<Longrightarrow> a2b 0 left 0 (b64 ns @ ''=='') = Some ns"
proof (induction ns arbitrary: left rule: b64.induct)
  case (4 a b c r)
  then have "a mod 4 * 16 + b div 16 < 64" "b mod 16 * 4 + c div 64 < 64" "a div 4 < 64" "c mod 64 < 64"
    "(a mod 4 * 16 + b div 16) div 16 = a mod 4" "(b mod 16 * 4 + c div 64) div 4 = b mod 16"
    "(a mod 4 * 16 + b div 16) mod 16 = b div 16" "(b mod 16 * 4 + c div 64) mod 4 = c div 64"
    using less_mult_imp_div_less [of b 16 16] less_mult_imp_div_less [of c 4 64] by auto
  with 4 show ?case by (simp add: a2b_sextet del: a2b.simps)
next
  case (3 a b)
  then have "a mod 4 * 16 + b div 16 < 64" "b mod 16 * 4 < 64" "a div 4 < 64"
    "(a mod 4 * 16 + b div 16) div 16 = a mod 4" "(a mod 4 * 16 + b div 16) mod 16 = b div 16"
    using less_mult_imp_div_less [of b 16 16] by auto
  with 3 show ?case by (simp add: a2b_sextet a2b_end del: a2b.simps)
next
  case (2 a)
  then have "a mod 4 * 16 < 64" "a div 4 < 64" by auto
  then show ?case by (simp add: a2b_sextet a2b_end del: a2b.simps)
qed simp

end
