(* ===== verification/Artifact_Resolver.thy ===== *)
theory Artifact_Resolver
  imports Prelude "HOL-Library.Product_Lexorder"
begin

text \<open>
  From a listing to the file or bucket object it sells,
  \<open>app/services/source_artifact_resolver.py\<close>: the choice of the dataset, the pinning of the artifact
  and the test that a pin still holds. The catalog is the three tables, the files on disk with their
  \<open>os.stat\<close> values, and the \<open>publish_result.json\<close> files of the processed directory;
  \<open>os.path.realpath\<close> and HMAC are arguments. A call sees one state of the file system.
\<close>

section \<open>Tables and files\<close>

record dataset =
  ds_id :: string
  ds_storage_filename :: string
  ds_processed_path :: "string option"
  ds_created_at :: time
  ds_listing_id :: "string option"

record s3_connection =
  sc_id :: string
  sc_bucket :: string
  sc_region :: string
  sc_role_arn :: "string option"
  sc_status :: string

record s3_object =
  so_id :: string
  so_connection_id :: string
  so_dataset_id :: "string option"
  so_object_key :: string
  so_size_bytes :: int
  so_content_type :: string
  so_etag :: string
  so_last_modified :: time

text \<open>\<open>(st_dev, st_ino, st_size, st_mtime_ns)\<close>\<close>

type_synonym file_stat = "int \<times> int \<times> int \<times> int"

text \<open>A \<open>publish_result.json\<close>: it cannot be read or parsed, or it holds a value.\<close>

datatype result_file = Unreadable | ResultJson json

record catalog =
  datasets :: "dataset list"
  connections :: "s3_connection list"
  objects :: "s3_object list"
  files :: "(string \<times> file_stat) list"
  publish_results :: "(string \<times> result_file) list"

text \<open>\<open>publish_results\<close> pairs the name of the directory, which is the dataset's id, with the file.\<close>

datatype kind = Local | S3

record artifact =
  ra_listing_id :: string
  ra_source_handle_id :: string
  ra_dataset :: dataset
  ra_kind :: kind
  ra_local_path :: "string option"
  ra_connection :: "s3_connection option"
  ra_metadata :: "s3_object option"
  ra_local_stat :: "file_stat option"

datatype resolve_exn = ArtifactResolutionError string | StaleArtifactIdentityError string | AttributeError

type_synonym 'a lookup = "(catalog, resolve_exn, 'a) meth"

section \<open>The dataset of a listing\<close>

definition get_dataset :: "dataset list \<Rightarrow> string \<Rightarrow> dataset option" where
  "get_dataset t i = find (\<lambda>d. ds_id d = i) t"

text \<open>\<open>ORDER BY created_at DESC, id DESC\<close>, first row.\<close>

definition newest_with_listing :: "dataset list \<Rightarrow> string \<Rightarrow> dataset option" where
  "newest_with_listing t listing_id =
     (case sort_key (\<lambda>d. (ds_created_at d, ds_id d)) (filter (\<lambda>d. ds_listing_id d = Some listing_id) t) of
        [] \<Rightarrow> None | d # ds \<Rightarrow> Some (last (d # ds)))"

text \<open>The scan of the result files, in the order of their paths; a value that is no object has no \<open>get\<close>.\<close>

fun scan_results :: "string \<Rightarrow> dataset list \<Rightarrow> (string \<times> result_file) list \<Rightarrow> resolve_exn + dataset option" where
  "scan_results l t [] = Inr None"
| "scan_results l t ((name, Unreadable) # fs) = scan_results l t fs"
| "scan_results l t ((name, ResultJson (JObj d)) # fs) =
     (if dict_get d ''listing_id'' JNull \<noteq> JStr l then scan_results l t fs
      else (case get_dataset t name of Some ds \<Rightarrow> Inr (Some ds) | None \<Rightarrow> scan_results l t fs))"
| "scan_results l t ((name, ResultJson v) # fs) = Inl AttributeError"

definition find_dataset :: "string \<Rightarrow> dataset option lookup" where
  "find_dataset l = (\<lambda>c.
     case newest_with_listing (datasets c) l of
       Some d \<Rightarrow> (Inr (Some d), c)
     | None \<Rightarrow>
         (case scan_results l (datasets c) (sort_key fst (publish_results c)) of
            Inl e \<Rightarrow> (Inl e, c)
          | Inr None \<Rightarrow> (Inr None, c)
          | Inr (Some d) \<Rightarrow>
              (Inr (Some (d\<lparr>ds_listing_id := Some l\<rparr>)),
               c\<lparr>datasets := update_where (\<lambda>q. ds_id q = ds_id d) (\<lambda>q. q\<lparr>ds_listing_id := Some l\<rparr>) (datasets c)\<rparr>)))"

section \<open>The artifact\<close>

definition path_join :: "string \<Rightarrow> string \<Rightarrow> string" where
  "path_join d f = (if starts_with ''/'' f then f else if d = [] \<or> last d = CHR ''/'' then d @ f else d @ ''/'' @ f)"

definition is_file :: "catalog \<Rightarrow> string \<Rightarrow> bool" where
  "is_file c p \<longleftrightarrow> map_of (files c) p \<noteq> None"

definition resolve_file_path :: "(string \<Rightarrow> string) \<Rightarrow> string \<Rightarrow> string \<Rightarrow> catalog \<Rightarrow> dataset \<Rightarrow> string option" where
  "resolve_file_path realpath upload processed c d =
     (if truthy (ds_processed_path d) \<and> is_file c (the (ds_processed_path d))
      then Some (realpath (the (ds_processed_path d)))
      else if is_file c (path_join processed (ds_id d @ ''.parquet''))
      then Some (realpath (path_join processed (ds_id d @ ''.parquet'')))
      else if is_file c (path_join upload (ds_storage_filename d))
      then Some (realpath (path_join upload (ds_storage_filename d)))
      else None)"

text \<open>The join of connections and objects, first by the object's id.\<close>

definition s3_row :: "catalog \<Rightarrow> dataset \<Rightarrow> (s3_connection \<times> s3_object) option" where
  "s3_row c d =
     (case concat (map (\<lambda>m. map (\<lambda>k. (k, m)) (filter (\<lambda>k. sc_id k = so_connection_id m) (connections c)))
             (sort_key so_id (filter (\<lambda>m. so_dataset_id m = Some (ds_id d)) (objects c)))) of
        [] \<Rightarrow> None | r # _ \<Rightarrow> Some r)"

definition artifact_of :: "(string \<Rightarrow> string) \<Rightarrow> string \<Rightarrow> string \<Rightarrow> string \<Rightarrow> catalog \<Rightarrow> dataset \<Rightarrow> artifact" where
  "artifact_of realpath upload processed l c d =
     (case s3_row c d of
        Some (k, m) \<Rightarrow> \<lparr>ra_listing_id = l, ra_source_handle_id = ds_id d, ra_dataset = d, ra_kind = S3,
          ra_local_path = None, ra_connection = Some k, ra_metadata = Some m, ra_local_stat = None\<rparr>
      | None \<Rightarrow>
          (let path = resolve_file_path realpath upload processed c d
           in \<lparr>ra_listing_id = l, ra_source_handle_id = ds_id d, ra_dataset = d, ra_kind = Local,
               ra_local_path = path, ra_connection = None, ra_metadata = None,
               ra_local_stat = (case path of None \<Rightarrow> None | Some p \<Rightarrow> map_of (files c) p)\<rparr>))"

definition resolve_source_artifact ::
  "(string \<Rightarrow> string) \<Rightarrow> string \<Rightarrow> string \<Rightarrow> string \<Rightarrow> artifact option lookup" where
  "resolve_source_artifact realpath upload processed l =
     seq (find_dataset l) (\<lambda>found c.
       (Inr (map_option (artifact_of realpath upload processed l c) found), c))"

definition resolved_object_count :: "artifact \<Rightarrow> resolve_exn + nat" where
  "resolved_object_count a =
     (if ra_kind a = S3 \<and> ra_metadata a \<noteq> None then Inr 1
      else if ra_kind a = Local \<and> ra_local_path a \<noteq> None then Inr 1
      else Inl (ArtifactResolutionError ''resolved artifact is incomplete''))"

definition canonical_locator_bytes :: "(string \<Rightarrow> string) \<Rightarrow> artifact \<Rightarrow> resolve_exn + string" where
  "canonical_locator_bytes realpath a =
     (case (ra_kind a, ra_local_path a, ra_connection a, ra_metadata a) of
        (Local, Some p, _, _) \<Rightarrow> Inr (''local'' @ [CHR 0x00] @ realpath p)
      | (S3, _, Some k, Some m) \<Rightarrow>
          Inr (''s3'' @ [CHR 0x00] @ join [CHR 0x00] [sc_id k, sc_bucket k, so_object_key m])
      | _ \<Rightarrow> Inl (ArtifactResolutionError ''resolved artifact is incomplete''))"

definition locator_commitment ::
  "(string \<Rightarrow> string \<Rightarrow> string) \<Rightarrow> (string \<Rightarrow> string) \<Rightarrow> string \<Rightarrow> artifact \<Rightarrow> resolve_exn + string" where
  "locator_commitment hmac realpath key a =
     (if length key < 32 then Inl (ArtifactResolutionError ''commitment key is invalid'')
      else (case canonical_locator_bytes realpath a of Inl e \<Rightarrow> Inl e | Inr b \<Rightarrow> Inr (hmac key b)))"

section \<open>Pins\<close>

definition object_tag :: "artifact \<Rightarrow> (int \<times> string \<times> time) option" where
  "object_tag a = map_option (\<lambda>m. (so_size_bytes m, so_etag m, so_last_modified m)) (ra_metadata a)"

definition identity_changed :: resolve_exn where
  "identity_changed = StaleArtifactIdentityError ''registered artifact identity changed''"

definition content_changed :: resolve_exn where
  "content_changed = StaleArtifactIdentityError ''registered artifact content changed''"

definition compare_pins :: "(string \<Rightarrow> string) \<Rightarrow> artifact \<Rightarrow> artifact \<Rightarrow> unit lookup" where
  "compare_pins realpath a current =
     (case (canonical_locator_bytes realpath current, canonical_locator_bytes realpath a) of
        (Inl e, _) \<Rightarrow> raise e
      | (_, Inl e) \<Rightarrow> raise e
      | (Inr x, Inr y) \<Rightarrow>
          if x \<noteq> y then raise identity_changed
          else if ra_kind a = Local \<and> ra_local_stat current \<noteq> ra_local_stat a then raise content_changed
          else if ra_kind a = S3 \<and> object_tag current \<noteq> object_tag a then raise content_changed
          else ret ())"

definition assert_artifact_still_pinned ::
  "(string \<Rightarrow> string) \<Rightarrow> string \<Rightarrow> string \<Rightarrow> artifact \<Rightarrow> unit lookup" where
  "assert_artifact_still_pinned realpath upload processed a =
     seq (resolve_source_artifact realpath upload processed (ra_listing_id a)) (\<lambda>current.
       case current of
         None \<Rightarrow> raise identity_changed
       | Some c \<Rightarrow> if ra_kind c \<noteq> ra_kind a then raise identity_changed else compare_pins realpath a c)"

section \<open>Lemmas\<close>

lemma get_dataset_in: "get_dataset t i = Some d \<Longrightarrow> d \<in> set t \<and> ds_id d = i"
  by (auto simp: get_dataset_def find_Some_iff)

lemma scan_results_in: "scan_results l t fs = Inr (Some d) \<Longrightarrow> d \<in> set t"
  by (induction l t fs rule: scan_results.induct) (auto split: if_splits option.splits dest: get_dataset_in)

lemma newest_None: "newest_with_listing t l = None \<longleftrightarrow> (\<forall>d \<in> set t. ds_listing_id d \<noteq> Some l)"
proof -
  have "newest_with_listing t l = None \<longleftrightarrow> filter (\<lambda>d. ds_listing_id d = Some l) t = []"
    by (metis (lifting) newest_with_listing_def length_0_conv length_sort list.simps(4,5) neq_Nil_conv option.discI)
  then show ?thesis by (simp add: filter_empty_conv)
qed

lemma newest_Some: "newest_with_listing t l = Some d \<Longrightarrow> d \<in> set t \<and> ds_listing_id d = Some l"
proof -
  let ?ds = "sort_key (\<lambda>d. (ds_created_at d, ds_id d)) (filter (\<lambda>d. ds_listing_id d = Some l) t)"
  assume "newest_with_listing t l = Some d"
  then have "?ds \<noteq> []" "d = last ?ds" by (auto simp: newest_with_listing_def split: list.splits)
  then have "d \<in> set ?ds" using last_in_set by blast
  then show ?thesis by simp
qed

text \<open>The repaired table has the listing in exactly one row.\<close>

lemma filter_relinked:
  "distinct (map ds_id t) \<Longrightarrow> d \<in> set t \<Longrightarrow> \<forall>q \<in> set t. ds_listing_id q \<noteq> Some l \<Longrightarrow>
   filter (\<lambda>q. ds_listing_id q = Some l) (update_where (\<lambda>q. ds_id q = ds_id d) (\<lambda>q. q\<lparr>ds_listing_id := Some l\<rparr>) t)
     = [d\<lparr>ds_listing_id := Some l\<rparr>]"
proof (induction t)
  case (Cons q t)
  have none: "filter (\<lambda>q. ds_listing_id q = Some l)
      (update_where (\<lambda>q. ds_id q = i) (\<lambda>q. q\<lparr>ds_listing_id := Some l\<rparr>) t) = []" if "i \<notin> ds_id ` set t" for i
    using that Cons.prems(3) by (auto simp: filter_empty_conv set_update_where)
  show ?case using Cons none [of "ds_id d"] by auto
qed simp

lemma newest_relinked:
  assumes "distinct (map ds_id t)" "d \<in> set t" "newest_with_listing t l = None"
  shows "newest_with_listing (update_where (\<lambda>q. ds_id q = ds_id d) (\<lambda>q. q\<lparr>ds_listing_id := Some l\<rparr>) t) l
    = Some (d\<lparr>ds_listing_id := Some l\<rparr>)"
  unfolding newest_with_listing_def filter_relinked [OF assms(1,2) iffD1 [OF newest_None assms(3)]] by simp

lemma find_dataset_stable:
  assumes "distinct (map ds_id (datasets c))" "find_dataset l c = (r, c')"
  shows "find_dataset l c' = (r, c')"
proof (cases "newest_with_listing (datasets c) l")
  case (Some d)
  then show ?thesis using assms(2) by (auto simp: find_dataset_def)
next
  case None
  consider "c' = c" | d where "r = Inr (Some (d\<lparr>ds_listing_id := Some l\<rparr>))" "d \<in> set (datasets c)"
      "c' = c\<lparr>datasets := update_where (\<lambda>q. ds_id q = ds_id d) (\<lambda>q. q\<lparr>ds_listing_id := Some l\<rparr>) (datasets c)\<rparr>"
  proof (cases "scan_results l (datasets c) (sort_key fst (publish_results c))")
    case (Inl e)
    then show thesis using that(1) assms(2) None by (simp add: find_dataset_def)
  next
    case (Inr f)
    show thesis
    proof (cases f)
      case None
      then show thesis using that(1) assms(2) Inr \<open>newest_with_listing (datasets c) l = None\<close>
        by (simp add: find_dataset_def)
    next
      case (Some d)
      then show thesis
        using that(2) [of d] assms(2) Inr scan_results_in [of l "datasets c" _ d] \<open>newest_with_listing (datasets c) l = None\<close>
        by (simp add: find_dataset_def)
    qed
  qed
  then show ?thesis
  proof cases
    case 1
    then show ?thesis using assms(2) by simp
  next
    case 2
    then show ?thesis using newest_relinked [OF assms(1) 2(2) None] by (simp add: find_dataset_def)
  qed
qed

lemma nul_split:
  assumes "x @ CHR 0x00 # y = x' @ CHR 0x00 # y'" "CHR 0x00 \<notin> set x" "CHR 0x00 \<notin> set x'"
  shows "x = x' \<and> y = y'"
proof -
  have t: "takeWhile (\<lambda>c. c \<noteq> CHR 0x00) (z @ CHR 0x00 # w) = z" if "CHR 0x00 \<notin> set z" for z w
    using that by (induction z) auto
  have "x = x'" using arg_cong [OF assms(1), of "takeWhile (\<lambda>c. c \<noteq> CHR 0x00)"] assms(2,3) by (simp add: t)
  then show ?thesis using assms(1) by simp
qed

definition nul_free :: "s3_connection \<Rightarrow> bool" where
  "nul_free k \<longleftrightarrow> CHR 0x00 \<notin> set (sc_id k) \<and> CHR 0x00 \<notin> set (sc_bucket k)"

lemma locator_inj:
  assumes "canonical_locator_bytes rp a = Inr x" "canonical_locator_bytes rp b = Inr x"
    "\<And>k. ra_connection a = Some k \<Longrightarrow> nul_free k" "\<And>k. ra_connection b = Some k \<Longrightarrow> nul_free k"
  shows "ra_kind a = ra_kind b \<and>
    (ra_kind a = Local \<longrightarrow> map_option rp (ra_local_path a) = map_option rp (ra_local_path b)) \<and>
    (ra_kind a = S3 \<longrightarrow> map_option (\<lambda>k. (sc_id k, sc_bucket k)) (ra_connection a) = map_option (\<lambda>k. (sc_id k, sc_bucket k)) (ra_connection b) \<and>
       map_option so_object_key (ra_metadata a) = map_option so_object_key (ra_metadata b))"
  using assms
  by (auto simp: canonical_locator_bytes_def nul_free_def split: kind.splits option.splits dest!: nul_split)

lemma resolved_connection:
  assumes "resolve_source_artifact rp up pr l c = (Inr (Some b), c')" "ra_connection b = Some k"
  shows "k \<in> set (connections c)"
proof -
  have e: "connections (snd (find_dataset l c)) = connections c"
    by (auto simp: find_dataset_def split: option.splits sum.splits)
  have r: "k \<in> set (connections d)" if "s3_row d ds = Some (k, m)" for d ds m
  proof -
    define rows where "rows = concat (map (\<lambda>m. map (\<lambda>k. (k, m)) (filter (\<lambda>k. sc_id k = so_connection_id m) (connections d)))
        (sort_key so_id (filter (\<lambda>m. so_dataset_id m = Some (ds_id ds)) (objects d))))"
    have "s3_row d ds = (case rows of [] \<Rightarrow> None | r # _ \<Rightarrow> Some r)" by (simp add: s3_row_def rows_def)
    then have "(k, m) \<in> set rows" using that by (cases rows) auto
    then show ?thesis by (auto simp: rows_def)
  qed
  show ?thesis
    using assms e
    by (auto simp: resolve_source_artifact_def seq_cases artifact_of_def Let_def split: sum.splits option.splits
        dest!: r)
qed

section \<open>Properties\<close>

text \<open>Also: resolving a listing is idempotent, its repair of the dataset table included: the call that
  links a dataset through its \<open>publish_result.json\<close> and any later call return the same artifact, and
  the later call changes nothing.\<close>

theorem resolution_is_idempotent:
  assumes "distinct (map ds_id (datasets c))" and "resolve_source_artifact rp up pr l c = (r, c')"
  shows "resolve_source_artifact rp up pr l c' = (r, c')"
proof -
  obtain f where f: "find_dataset l c = (f, c')"
    using assms(2) by (cases "find_dataset l c") (auto simp: resolve_source_artifact_def seq_cases split: sum.splits)
  show ?thesis
    using assms(2) unfolding resolve_source_artifact_def seq_cases f find_dataset_stable [OF assms(1) f] by simp
qed

definition sample_catalog :: catalog where
  "sample_catalog = \<lparr>datasets = [\<lparr>ds_id = ''d1'', ds_storage_filename = ''a.csv'', ds_processed_path = None,
       ds_created_at = 0, ds_listing_id = None\<rparr>],
     connections = [], objects = [], files = [(''/up/a.csv'', (1, 2, 3, 4))],
     publish_results = [(''d1'', ResultJson (JObj [(''listing_id'', JStr ''L'')])), (''d0'', Unreadable)]\<rparr>"

theorem resolution_is_idempotent_witness:
  "\<exists>a. resolve_source_artifact id ''/up'' ''/proc'' ''L'' (snd (resolve_source_artifact id ''/up'' ''/proc'' ''L'' sample_catalog))
     = (Inr (Some a), snd (resolve_source_artifact id ''/up'' ''/proc'' ''L'' sample_catalog)) \<and> ra_local_path a = Some ''/up/a.csv''"
proof -
  let ?r = "resolve_source_artifact id ''/up'' ''/proc'' ''L'' sample_catalog"
  have d: "distinct (map ds_id (datasets sample_catalog))" by code_simp
  have f: "(case fst ?r of Inr (Some a) \<Rightarrow> ra_local_path a = Some ''/up/a.csv'' | _ \<Rightarrow> False)" by code_simp
  have "resolve_source_artifact id ''/up'' ''/proc'' ''L'' (snd ?r) = (fst ?r, snd ?r)"
    by (rule resolution_is_idempotent [OF d]) simp
  then show ?thesis using f by (cases "fst ?r") (auto split: option.splits)
qed

text \<open>Also: when the pin test passes, the listing still resolves to an artifact of the same kind that is
  the same object: the same real path with unchanged \<open>stat\<close> values, or the same connection, bucket and
  key with unchanged size, tag and modification time.\<close>

theorem pin_test_detects_replacement:
  assumes "fst (assert_artifact_still_pinned rp up pr a c) = Inr ()"
    and "list_all nul_free (connections c)" and "list_all nul_free (case ra_connection a of None \<Rightarrow> [] | Some k \<Rightarrow> [k])"
  shows "\<exists>b. fst (resolve_source_artifact rp up pr (ra_listing_id a) c) = Inr (Some b) \<and> ra_kind b = ra_kind a \<and>
    (ra_kind a = Local \<longrightarrow> map_option rp (ra_local_path b) = map_option rp (ra_local_path a) \<and> ra_local_stat b = ra_local_stat a) \<and>
    (ra_kind a = S3 \<longrightarrow>
       map_option (\<lambda>k. (sc_id k, sc_bucket k)) (ra_connection b) = map_option (\<lambda>k. (sc_id k, sc_bucket k)) (ra_connection a) \<and>
       map_option so_object_key (ra_metadata b) = map_option so_object_key (ra_metadata a) \<and> object_tag b = object_tag a)"
proof -
  obtain b c' where b: "resolve_source_artifact rp up pr (ra_listing_id a) c = (Inr (Some b), c')"
      "fst (compare_pins rp a b c') = Inr ()"
    using assms(1)
    by (cases "resolve_source_artifact rp up pr (ra_listing_id a) c")
      (auto simp: assert_artifact_still_pinned_def seq_cases split: sum.splits option.splits if_splits)
  obtain x where x: "canonical_locator_bytes rp b = Inr x" "canonical_locator_bytes rp a = Inr x"
      "ra_kind a = Local \<Longrightarrow> ra_local_stat b = ra_local_stat a" "ra_kind a = S3 \<Longrightarrow> object_tag b = object_tag a"
    using b(2) by (auto simp: compare_pins_def split: sum.splits if_splits)
  have "nul_free k" if "ra_connection b = Some k" for k
    using resolved_connection [OF b(1) that] assms(2) by (simp add: list_all_iff)
  moreover have "nul_free k" if "ra_connection a = Some k" for k using that assms(3) by simp
  ultimately show ?thesis using locator_inj [OF x(1,2)] x(3,4) b(1) by auto
qed

theorem pin_test_detects_replacement_witness:
  "\<exists>b. fst (resolve_source_artifact id ''/up'' ''/proc'' ''L'' sample_catalog) = Inr (Some b) \<and> ra_kind b = Local"
proof -
  let ?a = "(case fst (resolve_source_artifact id ''/up'' ''/proc'' ''L'' sample_catalog) of Inr (Some a) \<Rightarrow> a)"
  have h: "fst (assert_artifact_still_pinned id ''/up'' ''/proc'' ?a sample_catalog) = Inr ()"
    "list_all nul_free (connections sample_catalog)"
    "list_all nul_free (case ra_connection ?a of None \<Rightarrow> [] | Some k \<Rightarrow> [k])"
    "ra_kind ?a = Local" "ra_listing_id ?a = ''L''"
    by code_simp+
  show ?thesis using pin_test_detects_replacement [OF h(1-3)] unfolding h(4,5) by blast
qed

end
