(* ===== verification/Fulfillment.thy ===== *)
theory Fulfillment
  imports Artifact_Resolver Encoding "HOL-Library.Sublist"
begin

text \<open>
  Delivery of a purchased dataset, \<open>app/services/fulfillment_service.py\<close> over the send and wait
  operations of \<open>app/services/trust_channel_client.py\<close>: resolving the listing, checking the file,
  streaming it in windows of four chunks that the buyer's side acknowledges, or handing out a
  presigned URL, and the row of \<open>fulfillment_log\<close> that records the outcome. The channel and the database are
  scripts: what each send does, what each wait for an acknowledgement brings, and whether each write of the
  log commits. SHA-256, the guess of a
  content type, the S3 broker and the parsing of URLs are arguments. A file's bytes are a string; its
  size, the bytes that are hashed and the bytes that are streamed are three readings.
\<close>

section \<open>Messages and the channel\<close>

definition CHUNK_SIZE :: nat where "CHUNK_SIZE = 65536"
definition WINDOW_SIZE :: nat where "WINDOW_SIZE = 4"
definition MAX_FILE_SIZE :: nat where "MAX_FILE_SIZE = 500 * 1024 * 1024"
definition PRESIGNED_URL_EXPIRES_IN :: int where "PRESIGNED_URL_EXPIRES_IN = 900"

record chunk =
  ch_transfer_id :: string
  ch_index :: nat
  ch_byte_offset :: nat
  ch_payload_length :: nat
  ch_sha256 :: string
  ch_payload :: string

record file_info =
  fi_filename :: string
  fi_content_type :: string
  fi_total_bytes :: nat
  fi_total_chunks :: nat
  fi_sha256 :: string

record url_info =
  ui_url :: string
  ui_expires_in :: int
  ui_object_key :: string
  ui_content_type :: string
  ui_size_bytes :: int
  ui_etag :: "string option"

datatype completion = Streamed nat nat string | PresignedUrl

datatype action =
    MetadataAction string string string file_info
  | ChunkAction chunk
  | UrlAction string string string url_info
  | CompleteAction string string completion
  | ErrorAction string string string string

record ack =
  ak_status :: string
  ak_through_index :: int

datatype send_outcome = Sent | NotConnected | SendFails string

text \<open>\<open>TimeoutError\<close>, \<open>ConnectionError\<close> and any other exception, with its text.\<close>

datatype ful_exn = Timed_out string | Connection_error string | Other_error string

record ful_log =
  fl_id :: string
  fl_transfer_id :: string
  fl_order_id :: string
  fl_listing_id :: string
  fl_request_id :: string
  fl_status :: string
  fl_started_at :: time
  fl_completed_at :: "time option"
  fl_file_size_bytes :: "int option"
  fl_chunks_sent :: "nat option"
  fl_error_code :: "string option"
  fl_error_message :: "string option"

text \<open>\<open>entry\<close> is the log object of the delivery under way; \<open>logs\<close> the table; \<open>db_script\<close> what becomes of the
  next writes of it, an error with its text or success (writes beyond the script succeed).\<close>

record ful_world =
  cat :: catalog
  actions :: "action list"
  send_script :: "send_outcome list"
  ack_script :: "ack option list"
  entry :: ful_log
  logs :: "ful_log list"
  db_script :: "string option list"

type_synonym 'a ful = "(ful_world, ful_exn, 'a) meth"

definition send_action :: "action \<Rightarrow> unit ful" where
  "send_action a = (\<lambda>w.
     let w1 = w\<lparr>send_script := tl (send_script w)\<rparr> in
     case send_script w of
       NotConnected # _ \<Rightarrow> (Inl (Connection_error ''Trust Channel not connected''), w1)
     | SendFails m # _ \<Rightarrow> (Inl (Other_error m), w1)
     | _ \<Rightarrow> (Inr (), w1\<lparr>actions := actions w @ [a]\<rparr>))"

fun send_all :: "action list \<Rightarrow> unit ful" where
  "send_all [] = ret ()"
| "send_all (a # as) = seq (send_action a) (\<lambda>_. send_all as)"

text \<open>A script that is used up brings no acknowledgement.\<close>

definition wait_for_ack :: "string \<Rightarrow> ack ful" where
  "wait_for_ack tid = (\<lambda>w.
     let w1 = w\<lparr>ack_script := tl (ack_script w)\<rparr> in
     case ack_script w of
       Some a # _ \<Rightarrow> (Inr a, w1)
     | _ \<Rightarrow> (Inl (Timed_out (''Timed out waiting for vai.fulfillment.ack (transfer_id='' @ tid @ '')'')), w1))"

section \<open>Streaming\<close>

definition chunk_msg :: "(string \<Rightarrow> string) \<Rightarrow> string \<Rightarrow> string \<Rightarrow> nat \<Rightarrow> action" where
  "chunk_msg sha256 tid content i =
     (let d = take CHUNK_SIZE (drop (i * CHUNK_SIZE) content)
      in ChunkAction \<lparr>ch_transfer_id = tid, ch_index = i, ch_byte_offset = i * CHUNK_SIZE,
           ch_payload_length = length d, ch_sha256 = sha256 d, ch_payload = b64encode d\<rparr>)"

definition validate_ack :: "ack \<Rightarrow> nat \<Rightarrow> string \<Rightarrow> unit ful" where
  "validate_ack a expected tid =
     (if ak_status a \<noteq> ''continue''
      then raise (Connection_error (''ACK status='' @ ak_status a @ '', aborting transfer '' @ tid))
      else if ak_through_index a < int expected
      then raise (Connection_error (''ACK acked_through_index='' @ show_int (ak_through_index a) @
             '' < expected '' @ show_nat expected @ '' for transfer_id='' @ tid))
      else ret ())"

definition wait_and_validate :: "string \<Rightarrow> nat \<Rightarrow> unit ful" where
  "wait_and_validate tid expected = seq (wait_for_ack tid) (\<lambda>a. validate_ack a expected tid)"

definition on_timeout :: "(string \<Rightarrow> unit ful) \<Rightarrow> ful_exn \<Rightarrow> unit ful" where
  "on_timeout h e = (case e of Timed_out m \<Rightarrow> h m | _ \<Rightarrow> raise e)"

definition await_window :: "string \<Rightarrow> action list \<Rightarrow> nat \<Rightarrow> unit ful" where
  "await_window tid window expected =
     catch (wait_and_validate tid expected) (on_timeout (\<lambda>_.
       seq (send_all window) (\<lambda>_.
       catch (wait_and_validate tid expected) (on_timeout (\<lambda>_.
         raise (Timed_out (''No ACK after retry for transfer_id='' @ tid @
           '' (expected ack through index '' @ show_nat expected @ '')'')))))))"

function stream_from :: "(nat \<Rightarrow> action) \<Rightarrow> string \<Rightarrow> nat \<Rightarrow> nat \<Rightarrow> nat ful" where
  "stream_from msg tid tot chunks_sent =
     (if tot \<le> chunks_sent then ret chunks_sent
      else let window_end = min (chunks_sent + WINDOW_SIZE) tot;
               window = map msg [chunks_sent..<window_end]
           in seq (send_all window) (\<lambda>_.
              seq (if window_end < tot then await_window tid window (window_end - 1) else ret ()) (\<lambda>_.
              stream_from msg tid tot window_end)))"
  by pat_completeness auto
termination
  by (relation "measure (\<lambda>(msg, tid, tot, chunks_sent). tot - chunks_sent)")
    (auto simp: WINDOW_SIZE_def)

declare stream_from.simps [simp del]

definition stream_chunks :: "(string \<Rightarrow> string) \<Rightarrow> string \<Rightarrow> string \<Rightarrow> nat \<Rightarrow> nat ful" where
  "stream_chunks sha256 tid content tot = stream_from (chunk_msg sha256 tid content) tid tot 0"

section \<open>The log\<close>

text \<open>\<open>session.merge\<close>: the row with the entry's key is replaced, or a row is added.\<close>

definition merge_log :: "ful_log \<Rightarrow> ful_log list \<Rightarrow> ful_log list" where
  "merge_log e t =
     (if fl_id e \<in> fl_id ` set t
      then update_where (\<lambda>r. fl_id r = fl_id e) (\<lambda>_. e) t else t @ [e])"

text \<open>The fields of the entry are set before the session is opened, so they stay set when the commit raises.\<close>

definition save_log :: "(ful_log \<Rightarrow> ful_log) \<Rightarrow> unit ful" where
  "save_log f = (\<lambda>w.
     let w1 = w\<lparr>entry := f (entry w), db_script := tl (db_script w)\<rparr> in
     case db_script w of
       Some m # _ \<Rightarrow> (Inl (Other_error m), w1)
     | _ \<Rightarrow> (Inr (), w1\<lparr>logs := merge_log (f (entry w)) (logs w)\<rparr>))"

definition update_log :: "time \<Rightarrow> string \<Rightarrow> nat option \<Rightarrow> string option \<Rightarrow> string option \<Rightarrow> unit ful" where
  "update_log now status chunks code msg =
     save_log (\<lambda>e. e\<lparr>fl_status := status, fl_completed_at := Some now,
       fl_chunks_sent := (case chunks of None \<Rightarrow> fl_chunks_sent e | Some n \<Rightarrow> Some n),
       fl_error_code := (case code of None \<Rightarrow> fl_error_code e | Some c \<Rightarrow> Some c),
       fl_error_message := (case msg of None \<Rightarrow> fl_error_message e | Some m \<Rightarrow> Some m)\<rparr>)"

definition send_error :: "string \<Rightarrow> string \<Rightarrow> string \<Rightarrow> string \<Rightarrow> unit ful" where
  "send_error tid order code msg = catch (send_action (ErrorAction tid order code msg)) (\<lambda>_. ret ())"

section \<open>One delivery\<close>

record deliver_params =
  dp_order_id :: string
  dp_listing_id :: string
  dp_request_id :: string

datatype presign_outcome =
    Presigned string "int option"
  | BrokerNotActivated string
  | BrokerError string
  | PresignRaises string

record ful_env =
  fe_realpath :: "string \<Rightarrow> string"
  fe_upload :: string
  fe_processed :: string
  fe_size :: "string \<Rightarrow> nat"
  fe_hashed :: "string \<Rightarrow> string"
  fe_streamed :: "string \<Rightarrow> string"
  fe_sha256 :: "string \<Rightarrow> string"
  fe_guess_type :: "string \<Rightarrow> string option"
  fe_presign :: "s3_connection \<Rightarrow> s3_object \<Rightarrow> presign_outcome"
  fe_strip_query :: "string \<Rightarrow> string option"
  fe_transfer_id :: string
  fe_log_id :: string
  fe_started :: time
  fe_finished :: time

definition redact_url_query :: "ful_env \<Rightarrow> string \<Rightarrow> string" where
  "redact_url_query env m =
     join '' '' (map (\<lambda>p. if contains ''://'' p
        then (case fe_strip_query env p of Some u \<Rightarrow> u | None \<Rightarrow> ''[redacted-url]'') else p) (words [] m))"

definition ceil_chunks :: "nat \<Rightarrow> nat" where
  "ceil_chunks n = (if n > 0 then (n + CHUNK_SIZE - 1) div CHUNK_SIZE else 1)"

text \<open>\<open>_resolve\<close>: a resolution error counts as no artifact, any other exception goes on.\<close>

definition resolve :: "ful_env \<Rightarrow> string \<Rightarrow> artifact option ful" where
  "resolve env l = (\<lambda>w.
     case resolve_source_artifact (fe_realpath env) (fe_upload env) (fe_processed env) l (cat w) of
       (Inr a, c) \<Rightarrow> (Inr a, w\<lparr>cat := c\<rparr>)
     | (Inl AttributeError, c) \<Rightarrow> (Inl (Other_error ''attribute error''), w\<lparr>cat := c\<rparr>)
     | (Inl _, c) \<Rightarrow> (Inr None, w\<lparr>cat := c\<rparr>))"

definition fail :: "ful_env \<Rightarrow> string \<Rightarrow> string \<Rightarrow> string \<Rightarrow> string \<Rightarrow> unit ful" where
  "fail env order code msg log_msg =
     seq (send_error (fe_transfer_id env) order code msg) (\<lambda>_.
     update_log (fe_finished env) ''failed'' None (Some code) (Some log_msg))"

definition deliver_s3_object ::
  "ful_env \<Rightarrow> s3_connection \<Rightarrow> s3_object \<Rightarrow> string \<Rightarrow> string \<Rightarrow> unit ful" where
  "deliver_s3_object env k m order listing =
     (let tid = fe_transfer_id env in
      seq (save_log (\<lambda>e. e\<lparr>fl_status := ''uploading'', fl_file_size_bytes := Some (so_size_bytes m)\<rparr>)) (\<lambda>_.
      if sc_status k \<notin> {''configured'', ''verified''} \<or> \<not> truthy (sc_role_arn k)
      then fail env order ''S3_CONNECTION_NOT_READY'' ''S3 connection is not ready for delivery''
             (''S3 connection not ready: connection_id='' @ sc_id k)
      else (case fe_presign env k m of
          BrokerNotActivated e \<Rightarrow> fail env order ''S3_CONNECTION_NOT_READY'' ''Unable to prepare S3 delivery'' e
        | BrokerError e \<Rightarrow> fail env order ''S3_PRESIGN_FAILED'' ''Unable to prepare S3 delivery'' (redact_url_query env e)
        | PresignRaises e \<Rightarrow> raise (Other_error e)
        | Presigned url expires \<Rightarrow>
            seq (send_action (UrlAction tid order listing
                   \<lparr>ui_url = url,
                    ui_expires_in = (case expires of Some n \<Rightarrow> if n \<noteq> 0 then n else PRESIGNED_URL_EXPIRES_IN
                                     | None \<Rightarrow> PRESIGNED_URL_EXPIRES_IN),
                    ui_object_key = so_object_key m, ui_content_type = so_content_type m,
                    ui_size_bytes = so_size_bytes m,
                    ui_etag = (if so_etag m \<noteq> [] then Some (so_etag m) else None)\<rparr>)) (\<lambda>_.
            seq (send_action (CompleteAction tid order PresignedUrl)) (\<lambda>_.
            update_log (fe_finished env) ''completed'' None None None)))))"

definition deliver_file :: "ful_env \<Rightarrow> string \<Rightarrow> string \<Rightarrow> string \<Rightarrow> unit ful" where
  "deliver_file env path order listing =
     (let tid = fe_transfer_id env; size = fe_size env path; sha = fe_sha256 env (fe_hashed env path);
          tot = ceil_chunks size
      in if size > MAX_FILE_SIZE
         then fail env order ''FILE_TOO_LARGE'' (''File size '' @ show_nat size @ '' bytes exceeds 500MB limit'')
                (''File '' @ show_nat size @ '' bytes > 500MB'')
         else
           seq (save_log (\<lambda>e. e\<lparr>fl_status := ''uploading'', fl_file_size_bytes := Some (int size)\<rparr>)) (\<lambda>_.
           seq (send_action (MetadataAction tid order listing
                  \<lparr>fi_filename = basename path,
                   fi_content_type = (case fe_guess_type env (basename path) of
                      Some t \<Rightarrow> if t \<noteq> [] then t else ''application/octet-stream'' | None \<Rightarrow> ''application/octet-stream''),
                   fi_total_bytes = size, fi_total_chunks = tot, fi_sha256 = sha\<rparr>)) (\<lambda>_.
           seq (stream_chunks (fe_sha256 env) tid (fe_streamed env path) tot) (\<lambda>n.
           seq (send_action (CompleteAction tid order (Streamed size n sha))) (\<lambda>_.
           update_log (fe_finished env) ''completed'' (Some n) None None)))))"

definition deliver_local :: "ful_env \<Rightarrow> string option \<Rightarrow> string \<Rightarrow> string \<Rightarrow> unit ful" where
  "deliver_local env file_path order listing = (\<lambda>w.
     case file_path of
       Some path \<Rightarrow>
         if is_file (cat w) path then deliver_file env path order listing w
         else fail env order ''FILE_READ_ERROR'' ''Dataset file not found on disk'' ''File not found on disk'' w
     | None \<Rightarrow> fail env order ''FILE_READ_ERROR'' ''Dataset file not found on disk'' ''File not found on disk'' w)"

definition deliver_artifact :: "ful_env \<Rightarrow> deliver_params \<Rightarrow> unit ful" where
  "deliver_artifact env p =
     (let order = dp_order_id p; l = dp_listing_id p in
      seq (resolve env l) (\<lambda>found.
        (case found of
           None \<Rightarrow> fail env order ''DATASET_NOT_FOUND'' (''No dataset found for listing_id='' @ l)
                     (''No dataset for listing_id='' @ l)
         | Some a \<Rightarrow>
             if ra_kind a = S3
             then (case (ra_connection a, ra_metadata a) of
                     (Some k, Some m) \<Rightarrow> deliver_s3_object env k m order l
                   | _ \<Rightarrow> raise (Other_error ''assertion failed''))
             else deliver_local env (ra_local_path a) order l)))"

definition on_failure :: "ful_env \<Rightarrow> string \<Rightarrow> ful_exn \<Rightarrow> unit ful" where
  "on_failure env order e =
     (case e of
        Timed_out m \<Rightarrow>
          seq (send_error (fe_transfer_id env) order ''TRANSFER_ABORTED'' (''ACK timeout: '' @ m)) (\<lambda>_.
          update_log (fe_finished env) ''timed_out'' None (Some ''TRANSFER_ABORTED'') (Some m))
      | Connection_error m \<Rightarrow> update_log (fe_finished env) ''failed'' None (Some ''TRANSFER_ABORTED'') (Some m)
      | Other_error m \<Rightarrow>
          seq (send_error (fe_transfer_id env) order ''TRANSFER_ABORTED'' ''Internal error'') (\<lambda>_.
          update_log (fe_finished env) ''failed'' None (Some ''TRANSFER_ABORTED'') (Some m)))"

definition new_log :: "ful_env \<Rightarrow> deliver_params \<Rightarrow> ful_log" where
  "new_log env p = \<lparr>fl_id = fe_log_id env, fl_transfer_id = fe_transfer_id env, fl_order_id = dp_order_id p,
     fl_listing_id = dp_listing_id p, fl_request_id = dp_request_id p, fl_status = ''received'',
     fl_started_at = fe_started env, fl_completed_at = None, fl_file_size_bytes = None, fl_chunks_sent = None,
     fl_error_code = None, fl_error_message = None\<rparr>"

definition handle_deliver :: "ful_env \<Rightarrow> deliver_params \<Rightarrow> unit ful" where
  "handle_deliver env p =
     seq (save_log (\<lambda>_. new_log env p)) (\<lambda>_. catch (deliver_artifact env p) (on_failure env (dp_order_id p)))"

text \<open>The worker takes the queued requests one at a time; an exception of one is logged and dropped.\<close>

fun process_queue :: "(ful_env \<times> deliver_params) list \<Rightarrow> ful_world \<Rightarrow> ful_world" where
  "process_queue [] w = w"
| "process_queue ((env, p) # ms) w = process_queue ms (snd (handle_deliver env p w))"

section \<open>What the channel carries\<close>

text \<open>\<open>extends w w' xs\<close>: \<open>xs\<close> was sent between the two states, and nothing else changed but the scripts.\<close>

definition extends :: "ful_world \<Rightarrow> ful_world \<Rightarrow> action list \<Rightarrow> bool" where
  "extends w w' xs \<longleftrightarrow> actions w' = actions w @ xs \<and> entry w' = entry w \<and> logs w' = logs w \<and> cat w' = cat w \<and> db_script w' = db_script w \<and>
     (\<exists>c. ack_script w = c @ ack_script w')"

lemma extends_refl [simp]: "extends w w []"
  by (simp add: extends_def)

lemma extends_trans: "extends u v xs \<Longrightarrow> extends v w ys \<Longrightarrow> extends u w (xs @ ys)"
  by (auto simp: extends_def)

lemma send_action_extends:
  "runs_to (\<lambda>v. extends w v xs) (send_action a) (\<lambda>_ v. extends w v (xs @ [a])) (\<lambda>_ v. extends w v xs)"
  by (rule runs_toI) (auto simp: send_action_def extends_def Let_def split: list.splits send_outcome.splits)

lemma send_all_extends:
  "runs_to (\<lambda>v. extends w v xs) (send_all as) (\<lambda>_ v. extends w v (xs @ as))
     (\<lambda>_ v. \<exists>k. extends w v (xs @ take k as))"
proof (induction as arbitrary: xs)
  case Nil
  show ?case unfolding send_all.simps by (rule runs_to_ret) simp
next
  case (Cons a as)
  have "runs_to (\<lambda>v. extends w v xs) (send_action a) (\<lambda>_ v. extends w v (xs @ [a]))
      (\<lambda>_ v. \<exists>k. extends w v (xs @ take k (a # as)))"
    by (rule runs_to_conseq [OF send_action_extends]) (auto intro: exI [of _ 0])
  moreover have "runs_to (\<lambda>v. extends w v (xs @ [a])) (send_all as) (\<lambda>_ v. extends w v (xs @ a # as))
      (\<lambda>_ v. \<exists>k. extends w v (xs @ take k (a # as)))"
    by (rule runs_to_conseq [OF Cons.IH [of "xs @ [a]"]]) (auto intro: exI [of _ "Suc k" for k])
  ultimately show ?case by (simp add: runs_to_seq)
qed

lemma wait_extends:
  "runs_to (\<lambda>v. extends w v xs) (wait_and_validate tid n) (\<lambda>_ v. extends w v xs) (\<lambda>_ v. extends w v xs)"
proof -
  have nil: "extends w v xs \<Longrightarrow> ack_script v = [] \<Longrightarrow> extends w (v\<lparr>ack_script := []\<rparr>) xs" for v
    by (simp add: extends_def)
  have cons: "extends w v xs \<Longrightarrow> ack_script v = a # as \<Longrightarrow> extends w (v\<lparr>ack_script := as\<rparr>) xs" for v a as
    by (auto simp: extends_def)
  show ?thesis
    by (intro runs_toI)
      (auto simp: wait_and_validate_def seq_cases wait_for_ack_def validate_ack_def Let_def
        split: list.splits option.splits intro: nil cons)
qed

lemma on_timeout_extends:
  "(\<And>m. runs_to P (h m) Q E) \<Longrightarrow> (\<And>s. P s \<Longrightarrow> \<forall>e. E e s) \<Longrightarrow> runs_to P (on_timeout h e) Q E"
  by (auto simp: on_timeout_def runs_to_def split: ful_exn.splits)

lemma await_extends:
  "runs_to (\<lambda>v. extends w v xs) (await_window tid as n)
     (\<lambda>_ v. extends w v xs \<or> extends w v (xs @ as)) (\<lambda>_ v. \<exists>k. extends w v (xs @ take k as))"
proof -
  have e: "extends w v ys \<Longrightarrow> \<exists>k. extends w v (ys @ take k as)" for v ys by (rule exI [of _ 0]) simp
  have full: "extends w v (xs @ as) \<Longrightarrow> \<exists>k. extends w v (xs @ take k as)" for v by (rule exI [of _ "length as"]) simp
  show ?thesis
    unfolding await_window_def
  proof (rule runs_to_catch, rule runs_to_conseq [OF wait_extends], assumption, simp, assumption,
      rule on_timeout_extends, rule runs_to_seq)
    show "runs_to (\<lambda>v. extends w v xs) (send_all as) (\<lambda>_ v. extends w v (xs @ as)) (\<lambda>_ v. \<exists>k. extends w v (xs @ take k as))"
      by (rule send_all_extends)
    show "runs_to (\<lambda>v. extends w v (xs @ as)) (catch (wait_and_validate tid n) (on_timeout (\<lambda>_. raise (Timed_out m))))
        (\<lambda>_ v. extends w v xs \<or> extends w v (xs @ as)) (\<lambda>_ v. \<exists>k. extends w v (xs @ take k as))" for m
      by (rule runs_to_catch, rule runs_to_conseq [OF wait_extends], assumption, simp, assumption,
          rule on_timeout_extends, rule runs_to_raise) (auto intro: full)
  qed (auto intro: e)
qed

text \<open>Between two states an acknowledgement through index \<open>i\<close> arrived.\<close>

definition acked :: "ful_world \<Rightarrow> ful_world \<Rightarrow> nat \<Rightarrow> bool" where
  "acked w w' i \<longleftrightarrow> (\<exists>c a. ack_script w = c @ ack_script w' \<and> Some a \<in> set c \<and> ak_status a = ''continue'' \<and>
     int i \<le> ak_through_index a)"

lemma acked_later: "acked w v i \<Longrightarrow> extends v v' ys \<Longrightarrow> acked w v' i"
  unfolding acked_def extends_def by (elim exE conjE) (metis Un_iff append.assoc set_append)

lemma acked_earlier: "extends w v xs \<Longrightarrow> acked v v' i \<Longrightarrow> acked w v' i"
  unfolding acked_def extends_def by (elim exE conjE) (metis Un_iff append.assoc set_append)

lemma wait_acks: "runs_to (\<lambda>u. extends v u xs) (wait_and_validate tid n) (\<lambda>_ u. acked v u n) (\<lambda>_ u. extends v u xs)"
proof (rule runs_to_pre)
  fix u assume u: "extends v u xs"
  have "runs_to (\<lambda>s. s = u) (wait_and_validate tid n) (\<lambda>_ s. acked u s n) (\<lambda>_ s. True)"
    by (rule runs_toI)
      (auto simp: wait_and_validate_def seq_cases wait_for_ack_def validate_ack_def Let_def acked_def
        split: list.splits option.splits if_splits)
  moreover have "runs_to (\<lambda>s. s = u) (wait_and_validate tid n) (\<lambda>_ _. True) (\<lambda>_ s. extends v s xs)"
    using u by (intro runs_to_conseq [OF wait_extends [where w = v and xs = xs]]) auto
  ultimately show "runs_to (\<lambda>s. s = u) (wait_and_validate tid n) (\<lambda>_ u. acked v u n) (\<lambda>_ u. extends v u xs)"
    using acked_earlier [OF u] by (auto simp: runs_to_def split: sum.splits)
qed

lemma await_acks: "runs_to (\<lambda>u. u = v) (await_window tid as n) (\<lambda>_ u. acked v u n) (\<lambda>_ _. True)"
proof -
  have inner: "runs_to (\<lambda>u. extends v u xs) (catch (wait_and_validate tid n) (on_timeout (\<lambda>_. raise (Timed_out m))))
      (\<lambda>_ u. acked v u n) (\<lambda>_ _. True)" for xs m
    by (rule runs_to_catch [OF wait_acks], rule on_timeout_extends, rule runs_to_raise) simp_all
  have send: "runs_to (\<lambda>u. extends v u []) (send_all as) (\<lambda>_ u. extends v u as) (\<lambda>_ _. True)"
    by (rule runs_to_conseq [OF send_all_extends]) auto
  have "runs_to (\<lambda>u. extends v u []) (await_window tid as n) (\<lambda>_ u. acked v u n) (\<lambda>_ _. True)"
    unfolding await_window_def
    by (rule runs_to_catch [OF wait_acks], rule on_timeout_extends, rule runs_to_seq [OF send inner]) simp
  then show ?thesis by (rule runs_to_conseq) auto
qed

text \<open>After \<open>sent\<close> chunks: each of them went out, at most twice, and every full window before the end was acknowledged.\<close>

definition streamed :: "(nat \<Rightarrow> action) \<Rightarrow> nat \<Rightarrow> ful_world \<Rightarrow> nat \<Rightarrow> ful_world \<Rightarrow> bool" where
  "streamed msg tot w sent v \<longleftrightarrow>
     (\<exists>xs. extends w v xs \<and> set xs = msg ` {..<sent} \<and> length xs \<le> 2 * sent \<and> (\<forall>a. count_list xs a \<le> 2)) \<and>
     (\<forall>k. 0 < k \<and> 4 * k \<le> sent \<and> 4 * k < tot \<longrightarrow> acked w v (4 * k - 1))"

definition partly_streamed :: "(nat \<Rightarrow> action) \<Rightarrow> nat \<Rightarrow> ful_world \<Rightarrow> ful_world \<Rightarrow> bool" where
  "partly_streamed msg tot w v \<longleftrightarrow> (\<exists>xs. extends w v xs \<and> set xs \<subseteq> msg ` {..<tot} \<and> length xs \<le> 2 * tot)"

lemma streamed_partly: "streamed msg tot w sent v \<Longrightarrow> sent \<le> tot \<Longrightarrow> partly_streamed msg tot w v"
  unfolding streamed_def partly_streamed_def by (elim conjE exE, intro exI conjI) auto

lemma window_bounds:
  assumes "extends w v xs" "set xs = msg ` {..<sent}" "length xs \<le> 2 * sent" "sent \<le> e" "e \<le> tot"
    and "extends v v' (take k (map msg [sent..<e]) @ take j (map msg [sent..<e]))"
  shows "partly_streamed msg tot w v'"
proof -
  let ?ys = "xs @ take k (map msg [sent..<e]) @ take j (map msg [sent..<e])"
  have "extends w v' ?ys" using assms(1,6) by (rule extends_trans)
  moreover have "set ?ys \<subseteq> msg ` {..<tot}"
    using assms(2,4,5) by (auto dest!: in_set_takeD)
  moreover have "length ?ys \<le> length xs + (e - sent) + (e - sent)" by simp
  then have "length ?ys \<le> 2 * tot" using assms(3-5) by linarith
  ultimately show ?thesis unfolding partly_streamed_def by blast
qed

lemma window_step:
  "runs_to (\<lambda>u. u = v) (seq (send_all win) (\<lambda>_. if b then await_window tid win n else ret ()))
     (\<lambda>_ u. (extends v u win \<or> extends v u (win @ win)) \<and> (b \<longrightarrow> acked v u n))
     (\<lambda>_ u. \<exists>k j. extends v u (take k win @ take j win))"
proof (rule runs_to_seq)
  show "runs_to (\<lambda>u. u = v) (send_all win) (\<lambda>_ u. extends v u win) (\<lambda>_ u. \<exists>k j. extends v u (take k win @ take j win))"
    by (rule runs_to_conseq [OF send_all_extends [where w = v and xs = "[]"]])
      (simp_all, metis append_Nil take_0)
next
  have aw: "runs_to (\<lambda>s. s = u) (await_window tid win n)
      (\<lambda>_ u. (extends v u win \<or> extends v u (win @ win)) \<and> acked v u n) (\<lambda>_ u. \<exists>k. extends v u (win @ take k win))"
    if u: "extends v u win" for u
  proof -
    have "runs_to (\<lambda>s. s = u) (await_window tid win n) (\<lambda>_ s. extends v s win \<or> extends v s (win @ win))
        (\<lambda>_ s. \<exists>k. extends v s (win @ take k win))"
      using u by (intro runs_to_conseq [OF await_extends [where w = v and xs = win]]) auto
    then show ?thesis
      using await_acks [of u tid win n] acked_earlier [OF u]
      by (auto simp: runs_to_def split: sum.splits)
  qed
  show "runs_to (\<lambda>u. extends v u win) (if b then await_window tid win n else ret ())
     (\<lambda>_ u. (extends v u win \<or> extends v u (win @ win)) \<and> (b \<longrightarrow> acked v u n))
     (\<lambda>_ u. \<exists>k j. extends v u (take k win @ take j win))"
  proof (rule runs_to_if, rule runs_to_pre, goal_cases)
    case (1 s)
    then show ?case by (intro runs_to_conseq [OF aw]) (auto, metis take_all_iff order_refl)
  next
    case 2
    then show ?case by (intro runs_to_ret) simp
  qed
qed

lemma count_list_le_1: "distinct xs \<Longrightarrow> count_list xs a \<le> 1"
  by (induction xs) (auto simp: count_notin)

lemma streamed_window:
  assumes inj: "inj msg" and v: "streamed msg tot w sent v" and s: "sent \<le> tot" "4 dvd sent" and e: "e = min (sent + 4) tot"
    and u: "extends v u (map msg [sent..<e]) \<or> extends v u (map msg [sent..<e] @ map msg [sent..<e])"
    and a: "e < tot \<longrightarrow> acked v u (e - 1)"
  shows "streamed msg tot w e u"
proof -
  obtain xs where xs: "extends w v xs" "set xs = msg ` {..<sent}" "length xs \<le> 2 * sent" "\<And>a. count_list xs a \<le> 2"
    using v by (auto simp: streamed_def)
  have le: "sent \<le> e" using e s by simp
  have cover: "{..<e} = {..<sent} \<union> {sent..<e}" using le by auto
  have c1: "count_list (map msg [sent..<e]) a \<le> 1" for a
    by (rule count_list_le_1) (simp add: distinct_map inj_on_subset [OF inj])
  have c2: "count_list (map msg [sent..<e]) a \<le> 2" "count_list (map msg [sent..<e] @ map msg [sent..<e]) a \<le> 2" for a
    using c1 [of a] by simp_all
  obtain ys where ys: "extends v u ys" "set ys = msg ` {sent..<e}" "length ys \<le> 2 * (e - sent)" "\<And>a. count_list ys a \<le> 2"
  proof (cases "extends v u (map msg [sent..<e])")
    case True
    then show thesis by (rule that) (use c2 in auto)
  next
    case False
    then have "extends v u (map msg [sent..<e] @ map msg [sent..<e])" using u by blast
    then show thesis by (rule that) (use c2 in auto)
  qed
  have disj: "set xs \<inter> set ys = {}" using xs(2) ys(2) inj by (auto dest: injD)
  have "count_list (xs @ ys) a \<le> 2" for a
  proof (cases "a \<in> set xs")
    case True
    then have "count_list ys a = 0" using disj by (intro count_notin) auto
    then show ?thesis using xs(4) [of a] by simp
  next
    case False
    then show ?thesis using ys(4) [of a] by (simp add: count_notin)
  qed
  then have "extends w u (xs @ ys) \<and> set (xs @ ys) = msg ` {..<e} \<and> length (xs @ ys) \<le> 2 * e \<and> (\<forall>a. count_list (xs @ ys) a \<le> 2)"
    using extends_trans [OF xs(1) ys(1)] xs(2,3) ys(2,3) le by (simp add: cover image_Un)
  moreover have "acked w u (4 * k - 1)" if k: "0 < k" "4 * k \<le> e" "4 * k < tot" for k
  proof (cases "4 * k \<le> sent")
    case True
    then show ?thesis using v k acked_later [OF _ ys(1)] by (simp add: streamed_def)
  next
    case False
    then have "4 * k = e" "e < tot" using k s(2) e by (auto simp: min_def split: if_splits)
    then show ?thesis using a acked_earlier [OF xs(1)] by simp
  qed
  ultimately show ?thesis by (auto simp: streamed_def)
qed

lemma inj_chunk_msg: "inj (chunk_msg h tid content)"
  by (rule injI) (simp add: chunk_msg_def Let_def)

lemma stream_from_streams:
  "inj msg \<Longrightarrow> sent \<le> tot \<Longrightarrow> 4 dvd sent \<or> sent = tot \<Longrightarrow>
   runs_to (streamed msg tot w sent) (stream_from msg tid tot sent)
     (\<lambda>n v. n = tot \<and> streamed msg tot w tot v) (\<lambda>_. partly_streamed msg tot w)"
proof (induction msg tid tot sent rule: stream_from.induct)
  case (1 msg tid tot sent)
  show ?case
  proof (cases "sent = tot")
    case True
    then show ?thesis by (subst stream_from.simps) (simp, rule runs_to_ret, simp)
  next
    case False
    then have s: "sent < tot" "4 dvd sent" using 1 by auto
    define e where "e = min (sent + 4) tot"
    define win where "win = map msg [sent..<e]"
    have eq: "stream_from msg tid tot sent =
        seq (seq (send_all win) (\<lambda>_. if e < tot then await_window tid win (e - 1) else ret ())) (\<lambda>_. stream_from msg tid tot e)"
      using s by (subst stream_from.simps) (simp add: Let_def WINDOW_SIZE_def seq_assoc flip: e_def win_def)
    have "e \<le> tot" "4 dvd e \<or> e = tot" using s by (auto simp: e_def min_def)
    then have IH: "runs_to (streamed msg tot w e) (stream_from msg tid tot e)
        (\<lambda>n v. n = tot \<and> streamed msg tot w tot v) (\<lambda>_. partly_streamed msg tot w)"
      using 1(1) [of e win] 1(2) s by (simp add: e_def win_def WINDOW_SIZE_def)
    show ?thesis unfolding eq
    proof (rule runs_to_seq [OF runs_to_pre IH])
      fix v assume v: "streamed msg tot w sent v"
      have good: "(extends v u win \<or> extends v u (win @ win)) \<and> (e < tot \<longrightarrow> acked v u (e - 1)) \<Longrightarrow> streamed msg tot w e u" for u
        by (rule streamed_window [OF 1(2) v less_imp_le [OF s(1)] s(2) e_def]) (auto simp: win_def)
      have bad: "\<exists>k j. extends v u (take k win @ take j win) \<Longrightarrow> partly_streamed msg tot w u" for u
        using v s(1) unfolding streamed_def win_def
        by (elim exE conjE) (rule window_bounds [where e = e and sent = sent], auto simp: e_def)
      show "runs_to (\<lambda>u. u = v) (seq (send_all win) (\<lambda>_. if e < tot then await_window tid win (e - 1) else ret ()))
          (\<lambda>_. streamed msg tot w e) (\<lambda>_. partly_streamed msg tot w)"
        by (rule runs_to_conseq [OF window_step]) (auto intro: good bad)
    qed
  qed
qed

section \<open>The outcome of a delivery\<close>

definition terminal :: "ful_log \<Rightarrow> bool" where
  "terminal e \<longleftrightarrow> fl_status e \<in> {''completed'', ''failed'', ''timed_out''} \<and> fl_completed_at e \<noteq> None"

text \<open>The failing writes still to come.\<close>

definition failing :: "ful_world \<Rightarrow> nat" where
  "failing w = length (filter (\<lambda>x. x \<noteq> None) (db_script w))"

definition entry_of :: "ful_env \<Rightarrow> deliver_params \<Rightarrow> ful_log \<Rightarrow> bool" where
  "entry_of env p e \<longleftrightarrow> fl_id e = fe_log_id env \<and> fl_transfer_id e = fe_transfer_id env \<and> fl_order_id e = dp_order_id p \<and>
     fl_listing_id e = dp_listing_id p"

text \<open>The last row of the table is the row of this request; the entry may be ahead of it after a write that failed.\<close>

definition logged_as :: "nat \<Rightarrow> ful_log list \<Rightarrow> ful_env \<Rightarrow> deliver_params \<Rightarrow> ful_world \<Rightarrow> bool" where
  "logged_as n t env p w \<longleftrightarrow> (\<exists>r. logs w = t @ [r] \<and> entry_of env p r) \<and> entry_of env p (entry w) \<and>
     fe_log_id env \<notin> fl_id ` set t \<and> failing w \<le> n"

abbreviation "done_as n t env p w \<equiv> logged_as n t env p w \<and> terminal (last (logs w))"

lemma save_log_cases:
  obtains (fails) m where "save_log f w = (Inl (Other_error m), w\<lparr>entry := f (entry w), db_script := tl (db_script w)\<rparr>)"
      "failing w = Suc (failing (w\<lparr>entry := f (entry w), db_script := tl (db_script w)\<rparr>))"
  | (commits) "save_log f w = (Inr (), w\<lparr>entry := f (entry w), db_script := tl (db_script w), logs := merge_log (f (entry w)) (logs w)\<rparr>)"
      "failing (w\<lparr>entry := f (entry w), db_script := tl (db_script w), logs := merge_log (f (entry w)) (logs w)\<rparr>) = failing w"
  by (cases "db_script w"; cases "hd (db_script w)") (auto simp: save_log_def failing_def Let_def)

lemma save_log_keeps:
  assumes "\<And>e. entry_of env p e \<Longrightarrow> entry_of env p (f e)" and "\<And>e. Q (f e)"
  shows "runs_to (logged_as n t env p) (save_log f) (\<lambda>_ w. logged_as n t env p w \<and> Q (last (logs w)))
    (\<lambda>_ w. logged_as n t env p w \<and> failing w < n)"
proof (rule runs_toI)
  fix w assume w: "logged_as n t env p w"
  then obtain r where r: "logs w = t @ [r]" "entry_of env p r" by (auto simp: logged_as_def)
  have e: "entry_of env p (f (entry w))" using w assms(1) by (simp add: logged_as_def)
  have i: "fl_id (f (entry w)) = fe_log_id env" "fl_id r = fe_log_id env" "fe_log_id env \<notin> fl_id ` set t"
    using e r w by (simp_all add: entry_of_def logged_as_def)
  have "update_where (\<lambda>r. fl_id r = fe_log_id env) (\<lambda>_. f (entry w)) t = t"
    using i(3) by (intro update_where_none) (metis imageI)
  then have m: "merge_log (f (entry w)) (logs w) = t @ [f (entry w)]"
    using i by (simp add: merge_log_def r(1) update_where_def)
  show "case fst (save_log f w) of Inr x \<Rightarrow> logged_as n t env p (snd (save_log f w)) \<and> Q (last (logs (snd (save_log f w))))
      | Inl e \<Rightarrow> logged_as n t env p (snd (save_log f w)) \<and> failing (snd (save_log f w)) < n"
  proof (cases f w rule: save_log_cases)
    case (fails msg)
    then show ?thesis using w r e by (auto simp: logged_as_def)
  next
    case commits
    then show ?thesis using w e m assms(2) by (auto simp: logged_as_def)
  qed
qed

lemma update_log_done:
  assumes "status \<in> {''completed'', ''failed'', ''timed_out''}"
  shows "runs_to (logged_as k t env p) (update_log now status n c m) (\<lambda>_ w. done_as k t env p w)
    (\<lambda>_ w. logged_as k t env p w \<and> failing w < k)"
  unfolding update_log_def using assms by (intro save_log_keeps) (auto simp: terminal_def entry_of_def)

lemma update_log_logged:
  "status \<in> {''completed'', ''failed'', ''timed_out''} \<Longrightarrow>
   runs_to (logged_as k t env p) (update_log now status n c m) (\<lambda>_ w. done_as k t env p w) (\<lambda>_. logged_as k t env p)"
  by (rule runs_to_conseq [OF update_log_done]) auto

text \<open>What only uses the channel leaves the log alone.\<close>

definition unlogged :: "'a ful \<Rightarrow> bool" where
  "unlogged m \<longleftrightarrow> (\<forall>w. logs (snd (m w)) = logs w \<and> entry (snd (m w)) = entry w \<and> db_script (snd (m w)) = db_script w)"

lemma unlogged_runs: "unlogged m \<Longrightarrow> runs_to (logged_as n t env p) m (\<lambda>_. logged_as n t env p) (\<lambda>_. logged_as n t env p)"
  by (auto simp: runs_to_def unlogged_def logged_as_def failing_def split: sum.splits)

lemma unlogged_send: "unlogged (send_action a)"
  by (auto simp: unlogged_def send_action_def Let_def split: list.splits send_outcome.splits)

lemma unlogged_stream: "unlogged (stream_chunks h tid content tot)"
proof -
  have "logs v = logs w \<and> entry v = entry w \<and> db_script v = db_script w" if "snd (stream_chunks h tid content tot w) = v" for w v
  proof -
    have "streamed (chunk_msg h tid content) tot w 0 w" by (auto simp: streamed_def intro: exI [of _ "[]"])
    from runs_to_case [OF stream_from_streams [OF inj_chunk_msg, where w = w] this, of tid] that
    have "partly_streamed (chunk_msg h tid content) tot w v"
      by (cases "fst (stream_from (chunk_msg h tid content) tid tot 0 w)")
        (auto simp: stream_chunks_def intro: streamed_partly)
    then show ?thesis by (auto simp: partly_streamed_def extends_def)
  qed
  then show ?thesis by (auto simp: unlogged_def)
qed

lemma unlogged_resolve: "unlogged (resolve env l)"
  by (auto simp: unlogged_def resolve_def split: prod.splits sum.splits resolve_exn.splits)

lemma unlogged_send_error: "unlogged (send_error tid order c m)"
  using unlogged_send [of "ErrorAction tid order c m"]
  by (auto simp: unlogged_def send_error_def catch_cases split: sum.splits)

lemma fail_done: "runs_to (logged_as n t env p) (fail env order c m lm) (\<lambda>_ w. done_as n t env p w) (\<lambda>_. logged_as n t env p)"
  unfolding fail_def by (rule runs_to_seq [OF unlogged_runs [OF unlogged_send_error] update_log_logged]) simp

lemma save_log_runs:
  "(\<And>e. entry_of env p e \<Longrightarrow> entry_of env p (f e)) \<Longrightarrow>
   runs_to (logged_as n t env p) (save_log f) (\<lambda>_. logged_as n t env p) (\<lambda>_. logged_as n t env p)"
  by (rule runs_to_conseq [OF save_log_keeps [where Q = "\<lambda>_. True"]]) auto

lemma deliver_s3_done:
  "runs_to (logged_as n t env p) (deliver_s3_object env k m order l) (\<lambda>_ w. done_as n t env p w) (\<lambda>_. logged_as n t env p)"
  unfolding deliver_s3_object_def Let_def
  by (intro runs_to_seq [OF save_log_runs] runs_to_if fail_done)
    (auto split: presign_outcome.splits intro!: fail_done runs_to_raise update_log_logged
      runs_to_seq [OF unlogged_runs [OF unlogged_send]] simp: entry_of_def)

lemma deliver_file_done:
  "runs_to (logged_as n t env p) (deliver_file env path order l) (\<lambda>_ w. done_as n t env p w) (\<lambda>_. logged_as n t env p)"
  unfolding deliver_file_def Let_def
  by (intro runs_to_if fail_done runs_to_seq [OF save_log_runs] runs_to_seq [OF unlogged_runs [OF unlogged_send]]
      runs_to_seq [OF unlogged_runs [OF unlogged_stream]] update_log_logged) (simp_all add: entry_of_def)

lemma deliver_local_done:
  "runs_to (logged_as n t env p) (deliver_local env path order l) (\<lambda>_ w. done_as n t env p w) (\<lambda>_. logged_as n t env p)"
proof (rule runs_toI)
  fix w assume w: "logged_as n t env p w"
  have "deliver_local env path order l w = deliver_file env (the path) order l w \<or>
      deliver_local env path order l w =
        fail env order ''FILE_READ_ERROR'' ''Dataset file not found on disk'' ''File not found on disk'' w"
    by (auto simp: deliver_local_def split: option.split)
  with runs_to_case [OF deliver_file_done w] runs_to_case [OF fail_done w]
  show "case fst (deliver_local env path order l w) of
      Inr x \<Rightarrow> done_as n t env p (snd (deliver_local env path order l w))
    | Inl e \<Rightarrow> logged_as n t env p (snd (deliver_local env path order l w))" by metis
qed

lemma deliver_artifact_done:
  "runs_to (logged_as n t env p) (deliver_artifact env p) (\<lambda>_ w. done_as n t env p w) (\<lambda>_. logged_as n t env p)"
  unfolding deliver_artifact_def Let_def
  by (rule runs_to_seq [OF unlogged_runs [OF unlogged_resolve]])
    (auto split: option.splits intro!: fail_done deliver_s3_done deliver_local_done runs_to_raise)

lemma on_failure_done:
  "runs_to (logged_as n t env p) (on_failure env order e) (\<lambda>_ w. done_as n t env p w) (\<lambda>_ w. logged_as n t env p w \<and> failing w < n)"
proof -
  have e: "runs_to (logged_as n t env p) (send_error tid order c m) (\<lambda>_. logged_as n t env p) (\<lambda>_ w. logged_as n t env p w \<and> failing w < n)"
    for tid c m
    using unlogged_send_error [of tid order c m]
    by (auto simp: runs_to_def unlogged_def logged_as_def failing_def send_error_def catch_cases split: sum.splits)
  show ?thesis
    unfolding on_failure_def
    by (cases e) (auto intro!: runs_to_seq [OF e] update_log_done)
qed

text \<open>A delivery ends with a terminal row, or a write of its log failed: the first, and it has no row, or the last, and
  its row may show an earlier state.\<close>

lemma handle_deliver_cases:
  assumes "fe_log_id env \<notin> fl_id ` set (logs w)"
  obtains (row) "done_as (failing w) (logs w) env p (snd (handle_deliver env p w))"
  | (stale) "logged_as (failing w) (logs w) env p (snd (handle_deliver env p w))" "failing (snd (handle_deliver env p w)) < failing w"
  | (none) "logs (snd (handle_deliver env p w)) = logs w" "failing (snd (handle_deliver env p w)) < failing w"
proof (cases "\<lambda>_ :: ful_log. new_log env p" w rule: save_log_cases)
  case (fails m)
  then show thesis by (intro none) (simp_all add: handle_deliver_def seq_cases)
next
  case commits
  let ?w = "snd (save_log (\<lambda>_. new_log env p) w)"
  have l: "logged_as (failing w) (logs w) env p ?w"
    using assms commits by (simp add: logged_as_def entry_of_def merge_log_def new_log_def)
  have "runs_to (logged_as (failing w) (logs w) env p) (catch (deliver_artifact env p) (on_failure env (dp_order_id p)))
      (\<lambda>_ v. done_as (failing w) (logs w) env p v) (\<lambda>_ v. logged_as (failing w) (logs w) env p v \<and> failing v < failing w)"
    by (rule runs_to_catch [OF deliver_artifact_done on_failure_done])
  from runs_to_case [OF this l] show thesis
    using row stale commits(1)
    by (cases "fst (catch (deliver_artifact env p) (on_failure env (dp_order_id p)) ?w)")
      (auto simp: handle_deliver_def seq_cases)
qed

section \<open>What the receiver sees\<close>

text \<open>The receiver takes the payload of each index, from whichever copy, and joins them.\<close>

definition payload_of :: "action list \<Rightarrow> nat \<Rightarrow> string" where
  "payload_of as i =
     (case find (\<lambda>a. case a of ChunkAction c \<Rightarrow> ch_index c = i | _ \<Rightarrow> False) as of
        Some (ChunkAction c) \<Rightarrow> ch_payload c | _ \<Rightarrow> [])"

definition reassemble :: "nat \<Rightarrow> action list \<Rightarrow> string" where
  "reassemble n as = concat (map (\<lambda>i. b64decode (payload_of as i)) [0..<n])"

lemma concat_chunks: "concat (map (\<lambda>i. take c (drop (i * c) s)) [0..<n]) = take (n * c) s"
proof (induction n)
  case (Suc n)
  then show ?case by (simp add: add.commute [of c] take_add)
qed simp

lemma ceil_chunks_cover: "length s \<le> ceil_chunks (length s) * CHUNK_SIZE"
proof (cases "s = []")
  case False
  have "length s + CHUNK_SIZE - 1 < (length s + CHUNK_SIZE - 1) div CHUNK_SIZE * CHUNK_SIZE + CHUNK_SIZE"
    by (metis CHUNK_SIZE_def add.commute dividend_less_div_times zero_less_numeral)
  then show ?thesis using False by (simp add: ceil_chunks_def CHUNK_SIZE_def)
qed simp

lemma payload_of_streamed:
  assumes "set xs = chunk_msg h tid content ` {..<n}" "i < n"
  shows "payload_of xs i = b64encode (take CHUNK_SIZE (drop (i * CHUNK_SIZE) content))"
proof -
  let ?P = "\<lambda>a. case a of ChunkAction c \<Rightarrow> ch_index c = i | _ \<Rightarrow> False"
  have m: "?P (chunk_msg h tid content j) \<longleftrightarrow> j = i" for j by (simp add: chunk_msg_def Let_def)
  have "\<exists>a. find ?P xs = Some a"
    using assms m [of i] by (metis (no_types, lifting) find_None_iff imageI lessThan_iff not_Some_eq)
  then obtain a where a: "find ?P xs = Some a" by blast
  then have "a \<in> set xs" "?P a" by (auto simp: find_Some_iff)
  then have "a = chunk_msg h tid content i" using assms(1) m by auto
  then show ?thesis using a by (simp add: payload_of_def chunk_msg_def Let_def)
qed

lemma stream_chunks_runs:
  assumes "stream_chunks h tid content tot w = (Inr n, v)"
  shows "n = tot \<and> streamed (chunk_msg h tid content) tot w tot v"
proof -
  have "streamed (chunk_msg h tid content) tot w 0 w" by (auto simp: streamed_def intro: exI [of _ "[]"])
  from runs_toD [OF stream_from_streams [OF inj_chunk_msg] this assms [unfolded stream_chunks_def]] show ?thesis by simp
qed

section \<open>Properties\<close>

text \<open>How often a chunk went out.\<close>

definition copies :: "nat \<Rightarrow> action list \<Rightarrow> nat" where
  "copies i as = length (filter (\<lambda>a. case a of ChunkAction c \<Rightarrow> ch_index c = i | _ \<Rightarrow> False) as)"

lemma copies_streamed:
  assumes "set xs = chunk_msg h tid content ` {..<n}"
  shows "copies i xs = count_list xs (chunk_msg h tid content i)"
proof -
  have "(case a of ChunkAction c \<Rightarrow> ch_index c = i | _ \<Rightarrow> False) \<longleftrightarrow> chunk_msg h tid content i = a" if "a \<in> set xs" for a
    using that assms by (auto simp: chunk_msg_def Let_def)
  then have "filter (\<lambda>a. case a of ChunkAction c \<Rightarrow> ch_index c = i | _ \<Rightarrow> False) xs = filter (\<lambda>a. chunk_msg h tid content i = a) xs"
    by (rule filter_cong [OF refl])
  then show ?thesis by (simp add: copies_def count_list_eq_length_filter)
qed

text \<open>C12: a transfer that returns has sent the file: joining the payloads by index gives back exactly
  the streamed bytes, whichever windows had to be sent again, and every chunk went out once or twice, never more often;
  nothing but chunks of the file went out.\<close>

theorem streamed_file_reassembles:
  assumes "stream_chunks h tid content (ceil_chunks (length content)) w = (Inr n, w')"
  shows "n = ceil_chunks (length content) \<and>
    (\<exists>xs. actions w' = actions w @ xs \<and> reassemble n xs = content \<and> length xs \<le> 2 * n \<and>
      (\<forall>i. copies i xs \<le> 2) \<and> (\<forall>i<n. 1 \<le> copies i xs) \<and> set xs = chunk_msg h tid content ` {..<n})"
proof -
  have n: "n = ceil_chunks (length content)"
    and st: "streamed (chunk_msg h tid content) n w n w'"
    using stream_chunks_runs [OF assms] by auto
  obtain xs where xs: "extends w w' xs" "set xs = chunk_msg h tid content ` {..<n}" "length xs \<le> 2 * n"
      "\<And>a. count_list xs a \<le> 2"
    using st by (auto simp: streamed_def)
  have "reassemble n xs = concat (map (\<lambda>i. take CHUNK_SIZE (drop (i * CHUNK_SIZE) content)) [0..<n])"
    unfolding reassemble_def
    by (rule arg_cong [where f = concat], rule map_cong [OF refl]) (simp add: payload_of_streamed [OF xs(2)] b64decode_encode)
  also have "\<dots> = content" using ceil_chunks_cover [of content] by (simp add: concat_chunks n)
  finally have r: "reassemble n xs = content" .
  have one: "1 \<le> copies i xs" if "i < n" for i
  proof -
    have "chunk_msg h tid content i \<in> set xs" using that xs(2) by blast
    then have "count_list xs (chunk_msg h tid content i) \<noteq> 0" by (simp add: count_list_0_iff)
    then show ?thesis by (simp add: copies_streamed [OF xs(2)])
  qed
  have "actions w' = actions w @ xs" using xs(1) by (simp add: extends_def)
  moreover have "\<forall>i. copies i xs \<le> 2" using xs(4) by (simp add: copies_streamed [OF xs(2)])
  ultimately show ?thesis using n r xs(2,3) one by blast
qed

definition idle_world :: "ack option list \<Rightarrow> ful_world" where
  "idle_world acks = \<lparr>cat = \<lparr>datasets = [], connections = [], objects = [], files = [], publish_results = []\<rparr>,
     actions = [], send_script = [], ack_script = acks,
     entry = \<lparr>fl_id = [], fl_transfer_id = [], fl_order_id = [], fl_listing_id = [], fl_request_id = [], fl_status = [],
       fl_started_at = 0, fl_completed_at = None, fl_file_size_bytes = None, fl_chunks_sent = None,
       fl_error_code = None, fl_error_message = None\<rparr>, logs = [], db_script = []\<rparr>"

lemma send_all_ok:
  "send_script w = [] \<Longrightarrow> send_all as w = (Inr (), w\<lparr>actions := actions w @ as\<rparr>)"
  by (induction as arbitrary: w) (auto simp: seq_cases send_action_def)

theorem streamed_file_reassembles_witness:
  "reassemble 1 (actions (snd (stream_chunks id ''t'' ''abc'' 1 (idle_world [])))) = ''abc''"
proof -
  have c: "ceil_chunks (length ''abc'') = 1" by (simp add: ceil_chunks_def CHUNK_SIZE_def)
  have "fst (stream_chunks id ''t'' ''abc'' 1 (idle_world [])) = Inr 1"
    unfolding stream_chunks_def
    by (subst stream_from.simps, subst stream_from.simps)
      (simp add: Let_def seq_cases send_all_ok idle_world_def WINDOW_SIZE_def del: send_all.simps)
  then have "stream_chunks id ''t'' ''abc'' (ceil_chunks (length ''abc'')) (idle_world [])
      = (Inr 1, snd (stream_chunks id ''t'' ''abc'' 1 (idle_world [])))"
    unfolding c by (metis prod.collapse)
  from streamed_file_reassembles [OF this] show ?thesis
    by (elim conjE exE) (simp only: idle_world_def ful_world.simps append_Nil)
qed

text \<open>Also: a transfer runs ahead of the receiver by at most one window: one that returns has received,
  for every window of four chunks but the last, a "continue" acknowledgement through the window's last
  index.\<close>

theorem windows_acknowledged:
  assumes "stream_chunks h tid content tot w = (Inr n, w')" and "0 < k" and "k * WINDOW_SIZE < tot"
  shows "acked w w' (k * WINDOW_SIZE - 1)"
  using stream_chunks_runs [OF assms(1)] assms(2,3) by (auto simp: streamed_def WINDOW_SIZE_def mult.commute)

definition continue_ack :: "int \<Rightarrow> ack" where
  "continue_ack i = \<lparr>ak_status = ''continue'', ak_through_index = i\<rparr>"

theorem windows_acknowledged_witness:
  "acked (idle_world [None, Some (continue_ack 3)])
     (snd (stream_chunks id ''t'' [] 5 (idle_world [None, Some (continue_ack 3)]))) 3"
proof -
  let ?w = "idle_world [None, Some (continue_ack 3)]"
  have "fst (stream_chunks id ''t'' [] 5 ?w) = Inr 5"
    unfolding stream_chunks_def
    by (subst stream_from.simps, subst stream_from.simps, subst stream_from.simps)
      (simp add: Let_def seq_cases catch_cases send_all_ok idle_world_def WINDOW_SIZE_def await_window_def
        wait_and_validate_def wait_for_ack_def validate_ack_def on_timeout_def continue_ack_def del: send_all.simps)
  then have "stream_chunks id ''t'' [] 5 ?w = (Inr 5, snd (stream_chunks id ''t'' [] 5 ?w))" by (metis prod.collapse)
  from windows_acknowledged [OF this, of 1] show ?thesis by (simp add: WINDOW_SIZE_def)
qed

definition idle_env :: "string \<Rightarrow> ful_env" where
  "idle_env i = \<lparr>fe_realpath = id, fe_upload = ''/up'', fe_processed = ''/proc'', fe_size = (\<lambda>_. 0), fe_hashed = (\<lambda>_. []),
     fe_streamed = (\<lambda>_. []), fe_sha256 = id, fe_guess_type = (\<lambda>_. None), fe_presign = (\<lambda>_ _. PresignRaises []),
     fe_strip_query = Some, fe_transfer_id = i, fe_log_id = i, fe_started = 0, fe_finished = 1\<rparr>"

text \<open>Also: when the first acknowledgement is late, the window is sent again and both copies are
  acknowledged, the acknowledgement of the second copy is taken for that of the next window: the
  transfer of a file of more than eight chunks is aborted, and the failure is recorded but not
  reported to the other side.\<close>

theorem duplicate_ack_aborts:
  assumes "send_script w = []" and "ack_script w = None # Some (continue_ack 3) # Some (continue_ack 3) # acks"
    and "8 < tot"
  shows "\<exists>m w'. stream_chunks h tid content tot w = (Inl (Connection_error m), w') \<and>
    actions (snd (on_failure env order (Connection_error m) w')) = actions w'"
proof -
  let ?msg = "chunk_msg h tid content"
  have e: "min (0 + WINDOW_SIZE) tot = 4" "min (4 + WINDOW_SIZE) tot = 8" "\<not> tot \<le> 0" "\<not> tot \<le> 4" "4 < tot"
    using assms(3) by (simp_all add: WINDOW_SIZE_def)
  have "\<exists>m. fst (stream_from ?msg tid tot 0 w) = Inl (Connection_error m)"
    unfolding stream_from.simps [of ?msg tid tot 0] stream_from.simps [of ?msg tid tot 4] e Let_def if_False
    using assms e(3-5)
    by (simp add: seq_cases catch_cases send_all_ok await_window_def wait_and_validate_def wait_for_ack_def
        validate_ack_def on_timeout_def continue_ack_def del: send_all.simps)
  then obtain m where "stream_chunks h tid content tot w = (Inl (Connection_error m), snd (stream_chunks h tid content tot w))"
    unfolding stream_chunks_def by (metis prod.collapse)
  moreover have "actions (snd (on_failure env order (Connection_error m) v)) = actions v" for m v
    by (simp add: on_failure_def update_log_def save_log_def Let_def split: list.split option.split)
  ultimately show ?thesis by blast
qed

theorem duplicate_ack_aborts_witness:
  "\<exists>m. fst (stream_chunks id ''t'' [] 9 (idle_world [None, Some (continue_ack 3), Some (continue_ack 3)])) = Inl (Connection_error m)"
proof -
  let ?w = "idle_world [None, Some (continue_ack 3), Some (continue_ack 3)]"
  have "send_script ?w = []" "ack_script ?w = None # Some (continue_ack 3) # Some (continue_ack 3) # []" "8 < (9::nat)"
    by (simp_all add: idle_world_def)
  from duplicate_ack_aborts [OF this, of id "''t''" "[]" "idle_env []" "[]"] show ?thesis by (metis fst_conv)
qed

lemma fresh_head: "a \<inter> insert x b = {} \<Longrightarrow> x \<notin> a"
  by blast

lemma fresh_rest: "a \<inter> insert x b = {} \<Longrightarrow> x \<notin> b \<Longrightarrow> c \<subseteq> insert x a \<Longrightarrow> c \<inter> b = {}"
  by blast

text \<open>C17: the worker brings every queued delivery to an end and none blocks the next, whatever the catalog, the broker,
  the channel and the writes of the log do: the rows that are added are rows of the queued requests in their order, at
  most one for each, and every request without a row that is completed, failed or timed out is paid for by a write of
  the log that failed. So when no write fails, each request has one such row.\<close>

theorem deliveries_concluded:
  assumes "distinct (map (\<lambda>(env, p). fe_log_id env) ms)"
    and "fl_id ` set (logs w) \<inter> set (map (\<lambda>(env, p). fe_log_id env) ms) = {}"
  shows "\<exists>rows. logs (process_queue ms w) = logs w @ rows \<and>
    subseq (map fl_transfer_id rows) (map (\<lambda>(env, p). fe_transfer_id env) ms) \<and>
    length ms + failing (process_queue ms w) \<le> length (filter terminal rows) + failing w \<and>
    (failing w \<noteq> 0 \<or> list_all terminal rows \<and> map fl_transfer_id rows = map (\<lambda>(env, p). fe_transfer_id env) ms)"
proof -
  have "\<exists>rows. logs (process_queue ms w) = logs w @ rows \<and>
    subseq (map fl_transfer_id rows) (map (\<lambda>(env, p). fe_transfer_id env) ms) \<and>
    length ms + failing (process_queue ms w) \<le> length (filter terminal rows) + failing w"
    using assms
  proof (induction ms arbitrary: w)
    case Nil
    show ?case by simp
  next
    case (Cons m ms)
    obtain env p where m: "m = (env, p)" by (cases m)
    let ?v = "snd (handle_deliver env p w)"
    have i: "fl_id ` set (logs w) \<inter> insert (fe_log_id env) (set (map (\<lambda>(env, p). fe_log_id env) ms)) = {}"
      using Cons.prems(2) by (simp only: m list.map list.set prod.case)
    note f = fresh_head [OF i]
    obtain new where n: "logs ?v = logs w @ new" "set (map fl_id new) \<subseteq> {fe_log_id env}"
        "subseq (map fl_transfer_id new) [fe_transfer_id env]" "Suc (failing ?v) \<le> length (filter terminal new) + failing w"
    proof -
      consider (row) "done_as (failing w) (logs w) env p ?v" | (stale) "logged_as (failing w) (logs w) env p ?v" "failing ?v < failing w"
        | (none) "logs ?v = logs w" "failing ?v < failing w" by (rule handle_deliver_cases [OF f])
      then show thesis
      proof cases
        case row
        then obtain r where r: "logs ?v = logs w @ [r]" "entry_of env p r" "terminal r" "failing ?v \<le> failing w"
          by (auto simp: logged_as_def)
        then show ?thesis by (intro that [of "[r]"]) (simp_all add: entry_of_def)
      next
        case stale
        then obtain r where r: "logs ?v = logs w @ [r]" "entry_of env p r" "failing ?v < failing w" by (auto simp: logged_as_def)
        then show ?thesis by (intro that [of "[r]"]) (simp_all add: entry_of_def)
      next
        case none
        then show ?thesis by (intro that [of "[]"]) simp_all
      qed
    qed
    have "fl_id ` set (logs ?v) \<inter> set (map (\<lambda>(env, p). fe_log_id env) ms) = {}"
    proof (rule fresh_rest [OF i])
      show "fe_log_id env \<notin> set (map (\<lambda>(env, p). fe_log_id env) ms)"
        using Cons.prems(1) unfolding m list.map distinct.simps prod.case by (rule conjunct1)
      show "fl_id ` set (logs ?v) \<subseteq> insert (fe_log_id env) (fl_id ` set (logs w))" using n(1,2) by auto
    qed
    moreover have "distinct (map (\<lambda>(env, p). fe_log_id env) ms)" using Cons.prems(1) by simp
    ultimately obtain rows where r: "logs (process_queue ms ?v) = logs ?v @ rows"
        "subseq (map fl_transfer_id rows) (map (\<lambda>(env, p). fe_transfer_id env) ms)"
        "length ms + failing (process_queue ms ?v) \<le> length (filter terminal rows) + failing ?v"
      using Cons.IH [of ?v] by blast
    have "subseq (map fl_transfer_id (new @ rows)) (map (\<lambda>(env, p). fe_transfer_id env) (m # ms))"
      using list_emb_append_mono [OF n(3) r(2)] by (simp add: m)
    moreover have "logs (process_queue (m # ms) w) = logs w @ new @ rows" using r(1) n(1) by (simp add: m)
    moreover have "length (m # ms) + failing (process_queue (m # ms) w) \<le> length (filter terminal (new @ rows)) + failing w"
      using r(3) n(4) by (simp add: m)
    ultimately show ?case by blast
  qed
  then obtain rows where r: "logs (process_queue ms w) = logs w @ rows"
      "subseq (map fl_transfer_id rows) (map (\<lambda>(env, p). fe_transfer_id env) ms)"
      "length ms + failing (process_queue ms w) \<le> length (filter terminal rows) + failing w" by blast
  have "list_all terminal rows \<and> map fl_transfer_id rows = map (\<lambda>(env, p). fe_transfer_id env) ms" if "failing w = 0"
  proof -
    have le: "length ms \<le> length (filter terminal rows)" using r(3) that by simp
    have "length rows \<le> length ms" using list_emb_length [OF r(2)] by simp
    then have "length (filter terminal rows) = length rows" "length rows = length ms"
      using le length_filter_le [of terminal rows] by linarith+
    then show ?thesis
      using subseq_same_length [OF r(2)] length_filter_less [of _ rows terminal]
      by (auto simp: list_all_iff)
  qed
  with r show ?thesis by blast
qed

definition stubborn :: "string option list \<Rightarrow> ful_world" where
  "stubborn script = (idle_world [])\<lparr>db_script := script\<rparr>"

definition two_orders :: "(ful_env \<times> deliver_params) list" where
  "two_orders = [(idle_env ''a'', \<lparr>dp_order_id = ''o'', dp_listing_id = ''l'', dp_request_id = ''r''\<rparr>),
     (idle_env ''b'', \<lparr>dp_order_id = ''o'', dp_listing_id = ''m'', dp_request_id = ''r''\<rparr>)]"

text \<open>With a sound database both requests have a row; when the first write fails, one is left without.\<close>

theorem deliveries_concluded_witness:
  "length (logs (process_queue two_orders (stubborn []))) = 2 \<and>
   length (logs (process_queue two_orders (stubborn [Some ''disk full'']))) \<le> 2"
proof -
  have d: "distinct (map (\<lambda>(env, p). fe_log_id env) two_orders)" by (simp add: two_orders_def idle_env_def)
  have e: "logs (stubborn s) = []" for s by (simp add: stubborn_def idle_world_def)
  have z: "failing (stubborn []) = 0" by (simp add: failing_def stubborn_def)
  have "length (map fl_transfer_id (logs (process_queue two_orders (stubborn [])))) = length two_orders"
    using deliveries_concluded [OF d, of "stubborn []"] z by (auto simp: e)
  moreover have "length (map fl_transfer_id (logs (process_queue two_orders (stubborn [Some ''disk full''])))) \<le> length two_orders"
    using deliveries_concluded [OF d, of "stubborn [Some ''disk full'']"]
    by (auto simp: e dest: list_emb_length map_eq_imp_length_eq)
  ultimately show ?thesis by (simp add: two_orders_def)
qed

end
