(* ===== verification/Raw_Files.thy ===== *)
theory Raw_Files
  imports Encoding
begin

text \<open>
  Raw files offered for sale, \<open>app/services/raw_file_service.py\<close>, and their download with a signed
  entitlement, \<open>app/services/entitlement_service.py\<close> and the download endpoint of
  \<open>app/routers/raw_listings.py\<close>. The store is the \<open>raw_files\<close> table and the files on disk. SHA-256,
  the guess of a MIME type, \<open>Path.resolve\<close>, HMAC, the JSON parser and the reading of a number are
  arguments; a text stands for its UTF-8 bytes.
\<close>

section \<open>Files\<close>

record raw_file =
  rf_id :: string
  rf_filename :: string
  rf_file_path :: string
  rf_file_size_bytes :: nat
  rf_content_hash :: string
  rf_mime_type :: "string option"
  rf_metadata :: "dict option"
  rf_created_at :: time
  rf_updated_at :: time

record raw_store =
  raw_files :: "raw_file list"
  disk :: "(string \<times> string) list"

datatype file_exn = FileNotFoundError string | ValueError string | TypeError

type_synonym 'a file_op = "(raw_store, file_exn, 'a) meth"

record file_env =
  fv_sha256 :: "string \<Rightarrow> string"
  fv_guess_type :: "string \<Rightarrow> string option"
  fv_resolve :: "string \<Rightarrow> string"

text \<open>\<open>while chunk := f.read(n)\<close>: the digest of the chunks in order.\<close>

definition HASH_CHUNK_SIZE :: nat where "HASH_CHUNK_SIZE = 8192"

function read_chunks :: "nat \<Rightarrow> string \<Rightarrow> string list" where
  "read_chunks n b = (if b = [] \<or> n = 0 then [] else take n b # read_chunks n (drop n b))"
  by auto
termination by (relation "measure (\<lambda>(n, b). length b)") auto

declare read_chunks.simps [simp del]

definition compute_sha256 :: "file_env \<Rightarrow> string \<Rightarrow> string" where
  "compute_sha256 fe b = fv_sha256 fe (concat (read_chunks HASH_CHUNK_SIZE b))"

definition register_file ::
  "file_env \<Rightarrow> string \<Rightarrow> string option \<Rightarrow> string \<Rightarrow> time \<Rightarrow> raw_file file_op" where
  "register_file fe path filename new_id now = (\<lambda>s.
     case map_of (disk s) path of
       None \<Rightarrow> raise (FileNotFoundError (''File not found: '' @ path)) s
     | Some b \<Rightarrow>
         (let f = \<lparr>rf_id = new_id,
                   rf_filename = (if truthy filename then the filename else path_name path),
                   rf_file_path = fv_resolve fe path,
                   rf_file_size_bytes = length b,
                   rf_content_hash = compute_sha256 fe b,
                   rf_mime_type = fv_guess_type fe path,
                   rf_metadata = None,
                   rf_created_at = now, rf_updated_at = now\<rparr>
          in (Inr f, s\<lparr>raw_files := raw_files s @ [f]\<rparr>)))"

definition get_file :: "string \<Rightarrow> raw_store \<Rightarrow> raw_file option" where
  "get_file i s = find (\<lambda>f. rf_id f = i) (raw_files s)"

definition serve_file :: "string \<Rightarrow> json \<Rightarrow> raw_file file_op" where
  "serve_file i expected = (\<lambda>s.
     case get_file i s of
       None \<Rightarrow> raise (FileNotFoundError (''Raw file not found: '' @ i)) s
     | Some f \<Rightarrow>
         if JStr (rf_content_hash f) \<noteq> expected
         then raise (ValueError ''File has changed since listing. Contact seller.'') s
         else if map_of (disk s) (rf_file_path f) = None
         then raise (FileNotFoundError (''File missing from disk: '' @ rf_file_path f)) s
         else ret f s)"

text \<open>\<open>ORDER BY created_at DESC\<close>\<close>

definition list_files :: "raw_store \<Rightarrow> raw_file list" where
  "list_files s = sort_key (\<lambda>f. - rf_created_at f) (raw_files s)"

text \<open>Whether \<open>os.remove\<close> succeeds is an argument; a failure is logged only.\<close>

definition delete_file :: "string \<Rightarrow> bool \<Rightarrow> bool file_op" where
  "delete_file i removable = (\<lambda>s.
     case get_file i s of
       None \<Rightarrow> ret False s
     | Some f \<Rightarrow> (Inr True,
         s\<lparr>raw_files := filter (\<lambda>g. rf_id g \<noteq> i) (raw_files s),
           disk := (if removable then filter (\<lambda>e. fst e \<noteq> rf_file_path f) (disk s) else disk s)\<rparr>))"

definition update_file_metadata :: "string \<Rightarrow> dict option \<Rightarrow> time \<Rightarrow> raw_file option file_op" where
  "update_file_metadata i metadata now = (\<lambda>s.
     let s' = s\<lparr>raw_files := update_where (\<lambda>f. rf_id f = i)
                 (\<lambda>f. f\<lparr>rf_metadata := metadata, rf_updated_at := now\<rparr>) (raw_files s)\<rparr>
     in (Inr (get_file i s'), s'))"

text \<open>
  \<open>generate_metadata\<close> looks the file up, awaits the extractor, and stores what it returned if the
  row is still there; \<open>later\<close> is the store after the wait, as a function of the store before it.
\<close>

definition store_metadata :: "string \<Rightarrow> dict \<Rightarrow> dict file_op" where
  "store_metadata i metadata = (\<lambda>s.
     if get_file i s = None then raise (FileNotFoundError (''Raw file not found: '' @ i)) s
     else (Inr metadata,
       s\<lparr>raw_files := update_where (\<lambda>f. rf_id f = i) (\<lambda>f. f\<lparr>rf_metadata := Some metadata\<rparr>) (raw_files s)\<rparr>))"

definition generate_metadata ::
  "(raw_file \<Rightarrow> dict) \<Rightarrow> (raw_store \<Rightarrow> raw_store) \<Rightarrow> string \<Rightarrow> dict file_op" where
  "generate_metadata extract later i = (\<lambda>s.
     case get_file i s of
       None \<Rightarrow> raise (FileNotFoundError (''Raw file not found: '' @ i)) s
     | Some f \<Rightarrow> store_metadata i (extract f) (later s))"

section \<open>Entitlements\<close>

text \<open>An expiry: a finite time, or one (infinity, not a number) that no clock reading is above.\<close>

datatype expiry = At time | Never

definition past :: "expiry \<Rightarrow> time \<Rightarrow> bool" where
  "past e now = (case e of At t \<Rightarrow> t < now | Never \<Rightarrow> False)"

record ent_env =
  ee_internal_api_key :: "string option"
  ee_keystore_passphrase :: "string option"
  ee_hmac :: "string \<Rightarrow> string \<Rightarrow> string"
  ee_loads :: "string \<Rightarrow> json option"
  ee_float :: "json \<Rightarrow> expiry option"

text \<open>\<open>None\<close>: neither the key nor the passphrase is configured.\<close>

definition derive_shared_secret :: "ent_env \<Rightarrow> string option" where
  "derive_shared_secret ee =
     map_option
       (\<lambda>ikm. ee_hmac ee (ee_hmac ee ''vectoraiz-entitlement-v1'' ikm) (''raw-file-download'' @ [CHR 0x01]))
       (if truthy (ee_internal_api_key ee) then ee_internal_api_key ee
        else if truthy (ee_keystore_passphrase ee) then ee_keystore_passphrase ee else None)"

text \<open>
  The nonces accepted so far, with their expiry. Keys of a Python dictionary that are equal are one
  key, so \<open>True\<close> and \<open>1\<close> are; a list or an object is not hashable.
\<close>

type_synonym nonce_store = "(json \<times> expiry) list"

definition nonce_key :: "json \<Rightarrow> json" where
  "nonce_key n = (case n of JBool b \<Rightarrow> JInt (if b then 1 else 0) | _ \<Rightarrow> n)"

definition hashable :: "json \<Rightarrow> bool" where
  "hashable n = (case n of JList _ \<Rightarrow> False | JObj _ \<Rightarrow> False | _ \<Rightarrow> True)"

definition cleanup_expired_nonces :: "time \<Rightarrow> nonce_store \<Rightarrow> nonce_store" where
  "cleanup_expired_nonces now = filter (\<lambda>e. \<not> past (snd e) now)"

definition check_and_store_nonce :: "json \<Rightarrow> expiry \<Rightarrow> time \<Rightarrow> (nonce_store, file_exn, bool) meth" where
  "check_and_store_nonce nonce expires_at now = (\<lambda>s.
     let s' = cleanup_expired_nonces now s
     in if \<not> hashable nonce then (Inl TypeError, s')
        else if map_of s' (nonce_key nonce) \<noteq> None then (Inr False, s')
        else (Inr True, s' @ [(nonce_key nonce, expires_at)]))"

text \<open>\<open>field in payload\<close>, on any value that JSON can hold; \<open>None\<close> is a \<open>TypeError\<close>.\<close>

definition has_field :: "json \<Rightarrow> string \<Rightarrow> bool option" where
  "has_field payload f =
     (case payload of
        JObj d \<Rightarrow> Some (map_of d f \<noteq> None)
      | JList xs \<Rightarrow> Some (JStr f \<in> set xs)
      | JStr s \<Rightarrow> Some (contains f s)
      | _ \<Rightarrow> None)"

definition required_fields :: "string list" where
  "required_fields = [''order_id'', ''listing_id'', ''file_hash'', ''buyer_id'', ''issued_at'', ''expires_at'', ''nonce'']"

fun check_fields :: "json \<Rightarrow> string list \<Rightarrow> file_exn option" where
  "check_fields payload [] = None"
| "check_fields payload (f # fs) =
     (case has_field payload f of
        None \<Rightarrow> Some TypeError
      | Some False \<Rightarrow> Some (ValueError (''Missing required field: '' @ f))
      | Some True \<Rightarrow> check_fields payload fs)"

text \<open>\<open>float(payload["expires_at"])\<close>: indexing a list or a string with a string is caught as well.\<close>

definition read_expiry :: "ent_env \<Rightarrow> json \<Rightarrow> expiry option" where
  "read_expiry ee payload =
     (case payload of JObj d \<Rightarrow> ee_float ee (dict_get d ''expires_at'' JNull) | _ \<Rightarrow> None)"

text \<open>The part of the token before the dot, decoded, once the signature has been checked.\<close>

definition verify_signature :: "ent_env \<Rightarrow> string \<Rightarrow> file_exn + string" where
  "verify_signature ee header =
     (if \<not> starts_with ''Bearer '' header then Inl (ValueError ''Missing or invalid Authorization header'')
      else
        (case split_on CHR ''.'' (drop 7 header) of
           [payload_b64, sig_b64] \<Rightarrow>
             (case derive_shared_secret ee of
                None \<Rightarrow> Inl (ValueError (''Server configuration error: '' @
                  ''No install token or keystore passphrase configured for entitlement signing''))
              | Some secret \<Rightarrow>
                  (case urlsafe_b64decode (sig_b64 @ ''=='') of
                     None \<Rightarrow> Inl (ValueError ''Invalid signature encoding'')
                   | Some sig \<Rightarrow>
                       if sig \<noteq> ee_hmac ee secret payload_b64
                       then Inl (ValueError ''Invalid entitlement token signature'')
                       else Inr payload_b64))
         | _ \<Rightarrow> Inl (ValueError ''Malformed entitlement token'')))"

definition decode_payload :: "ent_env \<Rightarrow> string \<Rightarrow> file_exn + json" where
  "decode_payload ee payload_b64 =
     (case Option.bind (urlsafe_b64decode (payload_b64 @ ''=='')) (ee_loads ee) of
        None \<Rightarrow> Inl (ValueError ''Invalid entitlement token payload'')
      | Some p \<Rightarrow> Inr p)"

text \<open>The two clock readings: the expiry test, and a later one where expired nonces are dropped.\<close>

definition validate_payload ::
  "ent_env \<Rightarrow> json \<Rightarrow> time \<Rightarrow> time \<Rightarrow> (nonce_store, file_exn, dict) meth" where
  "validate_payload ee payload now later =
     (case check_fields payload required_fields of
        Some e \<Rightarrow> raise e
      | None \<Rightarrow>
          (case read_expiry ee payload of
             None \<Rightarrow> raise (ValueError ''Invalid expires_at value'')
           | Some expires_at \<Rightarrow>
               if past expires_at now then raise (ValueError ''Entitlement token has expired'')
               else
                 (case payload of
                    JObj d \<Rightarrow>
                      seq (check_and_store_nonce (dict_get d ''nonce'' JNull) expires_at later) (\<lambda>fresh.
                        if \<not> fresh then raise (ValueError ''Entitlement token has already been used (replay detected)'')
                        else ret d)
                  | _ \<Rightarrow> raise TypeError)))"

definition validate_entitlement ::
  "ent_env \<Rightarrow> string \<Rightarrow> time \<Rightarrow> time \<Rightarrow> (nonce_store, file_exn, dict) meth" where
  "validate_entitlement ee header now later =
     (case verify_signature ee header of
        Inl e \<Rightarrow> raise e
      | Inr payload_b64 \<Rightarrow>
          (case decode_payload ee payload_b64 of
             Inl e \<Rightarrow> raise e
           | Inr payload \<Rightarrow> validate_payload ee payload now later))"

section \<open>The download endpoint\<close>

record download_world =
  nonces :: nonce_store
  store :: raw_store

datatype download_reply = Served string raw_file | Refused int string | ServerError

text \<open>A served file is what its path holds when it is sent.\<close>

definition download_raw_file ::
  "ent_env \<Rightarrow> string \<Rightarrow> string \<Rightarrow> time \<Rightarrow> time \<Rightarrow> download_world \<Rightarrow> download_reply \<times> download_world" where
  "download_raw_file ee file_id header now later w =
     (case validate_entitlement ee header now later (nonces w) of
        (Inl (ValueError m), n) \<Rightarrow> (Refused 401 m, w\<lparr>nonces := n\<rparr>)
      | (Inl _, n) \<Rightarrow> (ServerError, w\<lparr>nonces := n\<rparr>)
      | (Inr payload, n) \<Rightarrow>
          ((case fst (serve_file file_id (dict_get payload ''file_hash'' (JStr [])) (store w)) of
              Inl (FileNotFoundError m) \<Rightarrow> Refused 404 m
            | Inl (ValueError m) \<Rightarrow> Refused 409 m
            | Inl TypeError \<Rightarrow> ServerError
            | Inr f \<Rightarrow> Served (the (map_of (disk (store w)) (rf_file_path f))) f), w\<lparr>nonces := n\<rparr>))"

text \<open>What can happen to the world: a download, a file operation, a write to a file from outside, a restart of the process,
  which forgets the accepted nonces.\<close>

datatype file_event =
    Download string string time time
  | Register string "string option" string time
  | Delete string bool
  | UpdateMetadata string "dict option" time
  | StoreMetadata string dict
  | DiskWrite string string
  | ProcessRestart

definition file_event_step :: "file_env \<Rightarrow> ent_env \<Rightarrow> download_world \<Rightarrow> file_event \<Rightarrow> download_world" where
  "file_event_step fe ee w ev =
     (case ev of
        Download i h now later \<Rightarrow> snd (download_raw_file ee i h now later w)
      | Register p n i now \<Rightarrow> w\<lparr>store := snd (register_file fe p n i now (store w))\<rparr>
      | Delete i ok \<Rightarrow> w\<lparr>store := snd (delete_file i ok (store w))\<rparr>
      | UpdateMetadata i m now \<Rightarrow> w\<lparr>store := snd (update_file_metadata i m now (store w))\<rparr>
      | StoreMetadata i m \<Rightarrow> w\<lparr>store := snd (store_metadata i m (store w))\<rparr>
      | DiskWrite p b \<Rightarrow> w\<lparr>store := (store w)\<lparr>disk := AList.update p b (disk (store w))\<rparr>\<rparr>
      | ProcessRestart \<Rightarrow> w\<lparr>nonces := []\<rparr>)"

section \<open>Lemmas\<close>

lemma concat_read_chunks: "n \<noteq> 0 \<Longrightarrow> concat (read_chunks n b) = b"
proof (induction n b rule: read_chunks.induct)
  case (1 n b)
  then show ?case by (subst read_chunks.simps) simp
qed

lemma compute_sha256_whole: "compute_sha256 fe b = fv_sha256 fe b"
  by (simp add: compute_sha256_def concat_read_chunks HASH_CHUNK_SIZE_def)

lemma get_file_in: "get_file i s = Some f \<Longrightarrow> f \<in> set (raw_files s) \<and> rf_id f = i"
  by (auto simp: get_file_def find_Some_iff)

lemma serve_file_ok:
  "fst (serve_file i h s) = Inr f \<longleftrightarrow>
     get_file i s = Some f \<and> JStr (rf_content_hash f) = h \<and> map_of (disk s) (rf_file_path f) \<noteq> None"
  by (auto simp: serve_file_def split: option.splits if_splits)

lemma cleanup_keeps: "x \<in> set n \<Longrightarrow> \<not> past (snd x) now \<Longrightarrow> x \<in> set (cleanup_expired_nonces now n)"
  by (simp add: cleanup_expired_nonces_def)

lemma check_and_store_keeps:
  "x \<in> set n \<Longrightarrow> \<not> past (snd x) now \<Longrightarrow> x \<in> set (snd (check_and_store_nonce k e now n))"
  by (simp add: check_and_store_nonce_def Let_def cleanup_keeps)

lemma check_and_store_stored:
  "fst (check_and_store_nonce k e now n) = Inr True \<Longrightarrow>
     hashable k \<and> (nonce_key k, e) \<in> set (snd (check_and_store_nonce k e now n))"
  by (auto simp: check_and_store_nonce_def Let_def split: if_splits)

lemma check_and_store_replay:
  "(nonce_key k, e) \<in> set n \<Longrightarrow> \<not> past e now \<Longrightarrow> fst (check_and_store_nonce k e' now n) \<noteq> Inr True"
  using cleanup_keeps [of "(nonce_key k, e)" n now]
  by (auto simp: check_and_store_nonce_def Let_def map_of_eq_None_iff rev_image_eqI)

lemma validate_payload_keeps:
  "x \<in> set n \<Longrightarrow> \<not> past (snd x) later \<Longrightarrow> x \<in> set (snd (validate_payload ee p now later n))"
  by (auto simp: validate_payload_def seq_cases raise_def check_and_store_keeps
      split: option.splits sum.splits json.splits)

lemma validate_keeps:
  "x \<in> set n \<Longrightarrow> \<not> past (snd x) later \<Longrightarrow> x \<in> set (snd (validate_entitlement ee h now later n))"
  by (auto simp: validate_entitlement_def validate_payload_keeps split: sum.splits)

lemma validate_payload_ok:
  assumes "fst (validate_payload ee p now later n) = Inr d"
  obtains e where "p = JObj d" "check_fields p required_fields = None" "read_expiry ee p = Some e"
    "\<not> past e now" "fst (check_and_store_nonce (dict_get d ''nonce'' JNull) e later n) = Inr True"
    "snd (validate_payload ee p now later n) = snd (check_and_store_nonce (dict_get d ''nonce'' JNull) e later n)"
  using assms
  by (auto simp: validate_payload_def seq_cases split: option.splits sum.splits json.splits if_splits)

lemma validate_ok:
  assumes "fst (validate_entitlement ee h now later n) = Inr d"
  obtains t p where "verify_signature ee h = Inr t" "decode_payload ee t = Inr p"
    "validate_entitlement ee h now later n = validate_payload ee p now later n"
  using assms by (auto simp: validate_entitlement_def split: sum.splits)

lemma download_nonces: "nonces (snd (download_raw_file ee i h now later w)) = snd (validate_entitlement ee h now later (nonces w))"
  by (auto simp: download_raw_file_def split: prod.splits sum.splits file_exn.splits)

lemma download_served:
  "fst (download_raw_file ee i h now later w) = Served b f \<longleftrightarrow>
     (\<exists>d. fst (validate_entitlement ee h now later (nonces w)) = Inr d \<and>
        fst (serve_file i (dict_get d ''file_hash'' (JStr [])) (store w)) = Inr f \<and>
        b = the (map_of (disk (store w)) (rf_file_path f)))"
  by (auto simp: download_raw_file_def split: prod.splits sum.splits file_exn.splits)

text \<open>The last clock reading of an event; an event without one is at no time.\<close>

definition reads_clock :: "file_event \<Rightarrow> time option" where
  "reads_clock ev = (case ev of Download i h now later \<Rightarrow> Some later | _ \<Rightarrow> None)"

lemma event_keeps:
  "x \<in> set (nonces w) \<Longrightarrow> ev \<noteq> ProcessRestart \<Longrightarrow> (\<And>t. reads_clock ev = Some t \<Longrightarrow> \<not> past (snd x) t) \<Longrightarrow>
     x \<in> set (nonces (file_event_step fe ee w ev))"
  by (auto simp: file_event_step_def reads_clock_def download_nonces validate_keeps split: file_event.splits)

lemma run_keeps:
  "x \<in> set (nonces w) \<Longrightarrow> ProcessRestart \<notin> set evs \<Longrightarrow> (\<And>ev t. ev \<in> set evs \<Longrightarrow> reads_clock ev = Some t \<Longrightarrow> \<not> past (snd x) t) \<Longrightarrow>
     x \<in> set (nonces (foldl (file_event_step fe ee) w evs))"
proof (induction evs arbitrary: w)
  case (Cons ev evs)
  have "x \<in> set (nonces (file_event_step fe ee w ev))"
    using Cons.prems(1) by (rule event_keeps) (use Cons.prems(2,3) in auto)
  then have "x \<in> set (nonces (foldl (file_event_step fe ee) (file_event_step fe ee w ev) evs))"
    by (rule Cons.IH) (use Cons.prems(2,3) in auto)
  then show ?case by simp
qed simp

lemma validate_payload_again:
  assumes "fst (validate_payload ee p now later n) = Inr d"
    and "read_expiry ee p = Some e" and "(nonce_key (dict_get d ''nonce'' JNull), e) \<in> set n'"
    and "past e now' \<or> \<not> past e later'"
  shows "\<exists>m. fst (validate_payload ee p now' later' n') = Inl m"
proof (rule ccontr)
  assume "\<not> ?thesis"
  then obtain d' where "fst (validate_payload ee p now' later' n') = Inr d'" by (metis sum.exhaust)
  then obtain e' where 1: "p = JObj d'" "read_expiry ee p = Some e'" "\<not> past e' now'"
    "fst (check_and_store_nonce (dict_get d' ''nonce'' JNull) e' later' n') = Inr True"
    by (rule validate_payload_ok)
  have "d' = d" using assms(1) 1(1) validate_payload_ok by (metis json.inject(5))
  moreover have "e' = e" using 1(2) assms(2) by simp
  ultimately show False using 1 assms(3,4) check_and_store_replay by blast
qed

text \<open>A service that remembers no nonce accepts the payload.\<close>

lemma validate_payload_forgotten:
  assumes "fst (validate_payload ee p now later n) = Inr d" and "read_expiry ee p = Some e" and "\<not> past e now'"
  shows "fst (validate_payload ee p now' later' []) = Inr d"
proof -
  obtain e' where o: "p = JObj d" "check_fields p required_fields = None" "read_expiry ee p = Some e'"
    "fst (check_and_store_nonce (dict_get d ''nonce'' JNull) e' later n) = Inr True"
    using assms(1) by (rule validate_payload_ok)
  have "hashable (dict_get d ''nonce'' JNull)" using check_and_store_stored [OF o(4)] by blast
  then have "fst (check_and_store_nonce (dict_get d ''nonce'' JNull) e later' []) = Inr True"
    by (simp add: check_and_store_nonce_def cleanup_expired_nonces_def Let_def)
  then show ?thesis using o(1-3) assms(2,3) by (simp add: validate_payload_def seq_cases)
qed

section \<open>Properties\<close>

text \<open>C19: while the process runs, an entitlement is good for one download. After a token has been accepted, and whatever
  downloads and file operations follow without a restart, another token with the same signed payload is refused, on
  condition that no clock reading is past the payload's expiry (or that the second download's first
  reading already is), which is what a clock that never goes back gives while the second validation
  does not straddle the instant of expiry. A restart forgets the accepted nonces: right after it the same payload is
  accepted again until it expires.\<close>

theorem entitlement_single_use:
  assumes "fst (validate_entitlement ee h now later (nonces w)) = Inr d"
    and "verify_signature ee h' = verify_signature ee h" and "ee_float ee (dict_get d ''expires_at'' JNull) = Some e"
    and "\<And>ev t. ev \<in> set evs \<Longrightarrow> reads_clock ev = Some t \<Longrightarrow> \<not> past e t"
    and "past e now' \<or> \<not> past e later'" and "ProcessRestart \<notin> set evs"
  shows "(\<exists>m. fst (validate_entitlement ee h' now' later'
      (nonces (foldl (file_event_step fe ee) (snd (download_raw_file ee i h now later w)) evs))) = Inl m) \<and>
    (past e now' \<or> fst (validate_entitlement ee h' now' later'
      (nonces (foldl (file_event_step fe ee) (snd (download_raw_file ee i h now later w)) (evs @ [ProcessRestart])))) = Inr d)"
proof -
  obtain t p where t: "verify_signature ee h = Inr t" "decode_payload ee t = Inr p"
    "validate_entitlement ee h now later (nonces w) = validate_payload ee p now later (nonces w)"
    using assms(1) by (rule validate_ok)
  note ok = assms(1) [unfolded t(3)]
  obtain e' where e': "p = JObj d" "read_expiry ee p = Some e'"
    "fst (check_and_store_nonce (dict_get d ''nonce'' JNull) e' later (nonces w)) = Inr True"
    "snd (validate_payload ee p now later (nonces w)) = snd (check_and_store_nonce (dict_get d ''nonce'' JNull) e' later (nonces w))"
    using ok by (rule validate_payload_ok)
  have [simp]: "e' = e" using e'(1,2) assms(3) by (simp add: read_expiry_def)
  let ?x = "(nonce_key (dict_get d ''nonce'' JNull), e)"
  have "?x \<in> set (nonces (snd (download_raw_file ee i h now later w)))"
    using check_and_store_stored [OF e'(3)] by (simp add: download_nonces t(3) e'(4))
  then have "?x \<in> set (nonces (foldl (file_event_step fe ee) (snd (download_raw_file ee i h now later w)) evs))"
    by (rule run_keeps) (simp_all add: assms(4,6))
  from validate_payload_again [OF ok _ this assms(5)] e'(2) have "\<exists>m. fst (validate_entitlement ee h' now' later'
      (nonces (foldl (file_event_step fe ee) (snd (download_raw_file ee i h now later w)) evs))) = Inl m"
    by (simp add: validate_entitlement_def assms(2) t)
  moreover have "past e now' \<or> fst (validate_entitlement ee h' now' later' []) = Inr d"
    using validate_payload_forgotten [OF ok, of e now' later'] e'(2) by (auto simp: validate_entitlement_def assms(2) t)
  moreover have "nonces (foldl (file_event_step fe ee) v (evs @ [ProcessRestart])) = []" for v
    by (simp add: file_event_step_def)
  ultimately show ?thesis by simp
qed

text \<open>An environment for concrete runs: the digest reverses, the payload's JSON is looked up.\<close>

definition sample_payload :: dict where
  "sample_payload = [(''order_id'', JStr ''o1''), (''listing_id'', JStr ''l1''), (''file_hash'', JStr ''cba''),
     (''buyer_id'', JStr ''b1''), (''issued_at'', JInt 0), (''expires_at'', JInt 10), (''nonce'', JStr ''n1'')]"

definition sample_ent :: ent_env where
  "sample_ent = \<lparr>ee_internal_api_key = Some ''key'', ee_keystore_passphrase = None,
     ee_hmac = (\<lambda>k m. rev m), ee_loads = (\<lambda>t. if t = ''pay'' then Some (JObj sample_payload) else None),
     ee_float = (\<lambda>j. case j of JInt i \<Rightarrow> Some (At i) | _ \<Rightarrow> None)\<rparr>"

definition sample_file_env :: file_env where
  "sample_file_env = \<lparr>fv_sha256 = rev, fv_guess_type = (\<lambda>p. Some ''text/csv''), fv_resolve = (\<lambda>p. p)\<rparr>"

text \<open>The payload \<open>cGF5\<close> is \<open>pay\<close>, and \<open>NUZHYw\<close> decodes to the reversed text \<open>5FGc\<close>.\<close>

definition sample_header :: string where
  "sample_header = ''Bearer cGF5.NUZHYw''"

definition sample_world :: download_world where
  "sample_world = \<lparr>nonces = [], store = snd (register_file sample_file_env ''/d/a.csv'' None ''f1'' 1
     \<lparr>raw_files = [], disk = [(''/d/a.csv'', ''abc'')]\<rparr>)\<rparr>"

theorem entitlement_single_use_witness:
  "fst (validate_entitlement sample_ent sample_header 1 1 (nonces sample_world)) = Inr sample_payload \<and>
   (\<exists>m. fst (validate_entitlement sample_ent sample_header 5 6
     (nonces (foldl (file_event_step sample_file_env sample_ent)
       (snd (download_raw_file sample_ent ''f1'' sample_header 1 1 sample_world))
       [Download ''f1'' sample_header 2 3, Delete ''f1'' True]))) = Inl m) \<and>
   fst (validate_entitlement sample_ent sample_header 5 6
     (nonces (foldl (file_event_step sample_file_env sample_ent)
       (snd (download_raw_file sample_ent ''f1'' sample_header 1 1 sample_world))
       ([Download ''f1'' sample_header 2 3, Delete ''f1'' True] @ [ProcessRestart])))) = Inr sample_payload"
proof -
  have 1: "fst (validate_entitlement sample_ent sample_header 1 1 (nonces sample_world)) = Inr sample_payload"
    by code_simp
  have f: "ee_float sample_ent (dict_get sample_payload ''expires_at'' JNull) = Some (At 10)" by code_simp
  have "(\<exists>m. fst (validate_entitlement sample_ent sample_header 5 6
     (nonces (foldl (file_event_step sample_file_env sample_ent)
       (snd (download_raw_file sample_ent ''f1'' sample_header 1 1 sample_world))
       [Download ''f1'' sample_header 2 3, Delete ''f1'' True]))) = Inl m) \<and>
    (past (At 10) 5 \<or> fst (validate_entitlement sample_ent sample_header 5 6
     (nonces (foldl (file_event_step sample_file_env sample_ent)
       (snd (download_raw_file sample_ent ''f1'' sample_header 1 1 sample_world))
       ([Download ''f1'' sample_header 2 3, Delete ''f1'' True] @ [ProcessRestart])))) = Inr sample_payload)"
    by (rule entitlement_single_use [OF 1 refl f]) (auto simp: reads_clock_def past_def)
  moreover have "\<not> past (At 10) 5" by (simp add: past_def)
  ultimately show ?thesis using 1 by blast
qed

text \<open>Also: the memory of used entitlements has a gap at the instant of expiry. Validation tests the
  expiry with one clock reading and drops expired nonces with a later one, so a token that was already
  used is accepted once more when its expiry lies between the two readings.\<close>

theorem entitlement_replay_at_expiry:
  assumes "validate_entitlement ee h now later n = (Inr d, n')"
    and "ee_float ee (dict_get d ''expires_at'' JNull) = Some (At t)"
    and "now' \<le> t" and "t < later'"
  shows "fst (validate_entitlement ee h now' later' n') = Inr d"
proof -
  have ok: "fst (validate_entitlement ee h now later n) = Inr d" using assms(1) by simp
  then obtain q p where q: "verify_signature ee h = Inr q" "decode_payload ee q = Inr p"
    "validate_entitlement ee h now later n = validate_payload ee p now later n"
    by (rule validate_ok)
  obtain e where e: "p = JObj d" "check_fields p required_fields = None" "read_expiry ee p = Some e"
    "fst (check_and_store_nonce (dict_get d ''nonce'' JNull) e later n) = Inr True"
    "snd (validate_payload ee p now later n) = snd (check_and_store_nonce (dict_get d ''nonce'' JNull) e later n)"
    using ok [unfolded q(3)] by (rule validate_payload_ok)
  have [simp]: "e = At t" using e(1,3) assms(2) by (simp add: read_expiry_def)
  let ?k = "dict_get d ''nonce'' JNull"
  have n': "n' = snd (check_and_store_nonce ?k (At t) later n)" using assms(1) q(3) e(5) by simp
  have fresh: "hashable ?k" "\<forall>x \<in> set (cleanup_expired_nonces later n). fst x \<noteq> nonce_key ?k"
    "n' = cleanup_expired_nonces later n @ [(nonce_key ?k, At t)]"
    using e(4) n' by (force simp: check_and_store_nonce_def Let_def map_of_eq_None_iff split: if_splits)+
  have "\<forall>x \<in> set (cleanup_expired_nonces later' n'). fst x \<noteq> nonce_key ?k"
    using fresh(2) assms(4) unfolding fresh(3) by (auto simp: cleanup_expired_nonces_def past_def)
  then have c: "fst (check_and_store_nonce ?k (At t) later' n') = Inr True"
    using fresh(1) by (auto simp: check_and_store_nonce_def Let_def map_of_eq_None_iff)
  have "\<not> past (At t) now'" using assms(3) by (simp add: past_def)
  then have "fst (validate_payload ee (JObj d) now' later' n') = Inr d"
    using e c by (simp add: validate_payload_def seq_cases)
  then show ?thesis using q e(1) by (simp add: validate_entitlement_def)
qed

theorem entitlement_replay_at_expiry_witness:
  "fst (validate_entitlement sample_ent sample_header 10 11
     (snd (validate_entitlement sample_ent sample_header 1 1 []))) = Inr sample_payload"
proof -
  have "fst (validate_entitlement sample_ent sample_header 1 1 []) = Inr sample_payload" by code_simp
  then have v: "validate_entitlement sample_ent sample_header 1 1 [] =
    (Inr sample_payload, snd (validate_entitlement sample_ent sample_header 1 1 []))" by (metis prod.collapse)
  have f: "ee_float sample_ent (dict_get sample_payload ''expires_at'' JNull) = Some (At 10)" by code_simp
  show ?thesis by (rule entitlement_replay_at_expiry [OF v f]) simp_all
qed

text \<open>Also: a download is served only for a token whose signature is the HMAC of its payload, that is
  not expired, and whose \<open>file_hash\<close> is the hash registered for the requested file; the bytes sent are
  those the registered path holds now.\<close>

theorem download_needs_entitlement:
  assumes "fst (download_raw_file ee i h now later w) = Served b f"
  shows "\<exists>t d e. verify_signature ee h = Inr t \<and> decode_payload ee t = Inr (JObj d) \<and>
    ee_float ee (dict_get d ''expires_at'' JNull) = Some e \<and> \<not> past e now \<and>
    get_file i (store w) = Some f \<and> map_of d ''file_hash'' = Some (JStr (rf_content_hash f)) \<and>
    map_of (disk (store w)) (rf_file_path f) = Some b"
proof -
  obtain d where d: "fst (validate_entitlement ee h now later (nonces w)) = Inr d"
    and s: "fst (serve_file i (dict_get d ''file_hash'' (JStr [])) (store w)) = Inr f"
    and b: "b = the (map_of (disk (store w)) (rf_file_path f))"
    using assms unfolding download_served by blast
  obtain t p where t: "verify_signature ee h = Inr t" "decode_payload ee t = Inr p"
    "validate_entitlement ee h now later (nonces w) = validate_payload ee p now later (nonces w)"
    using d by (rule validate_ok)
  obtain e where e: "p = JObj d" "check_fields p required_fields = None" "read_expiry ee p = Some e" "\<not> past e now"
    using d [unfolded t(3)] by (rule validate_payload_ok)
  have "map_of d ''file_hash'' \<noteq> None"
    using e(1,2) by (auto simp: required_fields_def has_field_def split: bool.splits option.splits)
  then have "dict_get d ''file_hash'' (JStr []) = the (map_of d ''file_hash'')"
    by (auto simp: dict_get_def)
  then show ?thesis
    using t e s b \<open>map_of d ''file_hash'' \<noteq> None\<close> by (auto simp: serve_file_ok read_expiry_def)
qed

theorem download_needs_entitlement_witness:
  "\<exists>t d e. verify_signature sample_ent sample_header = Inr t \<and> decode_payload sample_ent t = Inr (JObj d) \<and>
    ee_float sample_ent (dict_get d ''expires_at'' JNull) = Some e \<and> \<not> past e 1 \<and>
    get_file ''f1'' (store sample_world) = Some (hd (raw_files (store sample_world))) \<and>
    map_of d ''file_hash'' = Some (JStr (rf_content_hash (hd (raw_files (store sample_world))))) \<and>
    map_of (disk (store sample_world)) (rf_file_path (hd (raw_files (store sample_world)))) = Some ''abc''"
proof -
  have "fst (download_raw_file sample_ent ''f1'' sample_header 1 1 sample_world) =
    Served ''abc'' (hd (raw_files (store sample_world)))" by code_simp
  then show ?thesis by (rule download_needs_entitlement)
qed

text \<open>Also: the bytes on disk are not hashed again when a file is served: whatever is written to the
  file after its registration, a token for the hash of the original is answered with the new bytes.\<close>

theorem changed_file_still_served:
  assumes "fst (download_raw_file ee i h now later w) = Served b f"
  shows "fst (download_raw_file ee i h now later (file_event_step fe ee w (DiskWrite (rf_file_path f) b'))) = Served b' f"
  using assms unfolding download_served
  by (auto simp: file_event_step_def serve_file_ok get_file_def update_conv)

theorem changed_file_still_served_witness:
  "fst (download_raw_file sample_ent ''f1'' sample_header 1 1 (file_event_step sample_file_env sample_ent sample_world
     (DiskWrite ''/d/a.csv'' ''zzz''))) = Served ''zzz'' (hd (raw_files (store sample_world)))"
proof -
  have 1: "fst (download_raw_file sample_ent ''f1'' sample_header 1 1 sample_world) =
    Served ''abc'' (hd (raw_files (store sample_world)))" by code_simp
  have 2: "rf_file_path (hd (raw_files (store sample_world))) = ''/d/a.csv''" by code_simp
  show ?thesis using changed_file_still_served [OF 1, of sample_file_env "''zzz''"] unfolding 2 .
qed

end
