(* ===== verification/Raw_Listings.thy ===== *)
theory Raw_Listings
  imports Raw_Files "HOL-Library.Option_ord"
begin

text \<open>
  Listings of raw files and their publication, \<open>app/services/raw_listing_service.py\<close> and the
  publish and delist endpoints of \<open>app/routers/raw_listings.py\<close>. A publication reads the listing,
  waits for ai.market, and records the outcome; other requests run during the wait, so it is two steps.
  The signed proxy is a parameter: its outcome is data. The lifecycle that the model file documents is
  stated as a specification of its own, which the table refines.
\<close>

section \<open>The table\<close>

record raw_listing =
  rl_id :: string
  rl_raw_file_id :: string
  rl_marketplace_listing_id :: "string option"
  rl_title :: string
  rl_description :: string
  rl_tags :: "string list"
  rl_auto_metadata :: "dict option"
  rl_price_cents :: "int option"
  rl_status :: string
  rl_published_at :: "time option"
  rl_created_at :: time
  rl_updated_at :: time

type_synonym listing_table = "raw_listing list"

datatype listing_exn =
    ListingNotFound string
  | RawFileNotFound string
  | StatusError string
  | InvalidFields "string list"
  | PublishError string
  | ConnectionError string
  | AuthError string
  | NotConnected string

definition get_listing :: "string \<Rightarrow> listing_table \<Rightarrow> raw_listing option" where
  "get_listing i t = find (\<lambda>l. rl_id l = i) t"

definition create_listing ::
  "string \<Rightarrow> string \<Rightarrow> string \<Rightarrow> string \<Rightarrow> string list \<Rightarrow> int option \<Rightarrow> string option \<Rightarrow> time \<Rightarrow> listing_table
     \<Rightarrow> raw_listing \<times> listing_table" where
  "create_listing new_id file title description tags price_cents category now t =
     (let l = \<lparr>rl_id = new_id, rl_raw_file_id = file, rl_marketplace_listing_id = None, rl_title = title,
               rl_description = description, rl_tags = tags,
               rl_auto_metadata = (if truthy category then Some [(''category'', JStr (the category))] else None),
               rl_price_cents = price_cents, rl_status = ''draft'', rl_published_at = None,
               rl_created_at = now, rl_updated_at = now\<rparr>
      in (l, t @ [l]))"

record listing_patch =
  lp_title :: "string option"
  lp_description :: "string option"
  lp_tags :: "string list option"
  lp_price_cents :: "int option"
  lp_category :: "string option"

definition apply_patch :: "listing_patch \<Rightarrow> time \<Rightarrow> raw_listing \<Rightarrow> raw_listing" where
  "apply_patch p now l =
     l\<lparr>rl_title := (case lp_title p of None \<Rightarrow> rl_title l | Some x \<Rightarrow> x),
       rl_description := (case lp_description p of None \<Rightarrow> rl_description l | Some x \<Rightarrow> x),
       rl_tags := (case lp_tags p of None \<Rightarrow> rl_tags l | Some x \<Rightarrow> x),
       rl_price_cents := (case lp_price_cents p of None \<Rightarrow> rl_price_cents l | Some x \<Rightarrow> Some x),
       rl_auto_metadata := (case lp_category p of None \<Rightarrow> rl_auto_metadata l
          | Some c \<Rightarrow> Some (AList.update ''category'' (JStr c)
              (case rl_auto_metadata l of None \<Rightarrow> [] | Some d \<Rightarrow> d))),
       rl_updated_at := now\<rparr>"

definition update_listing :: "string \<Rightarrow> listing_patch \<Rightarrow> time \<Rightarrow> listing_table \<Rightarrow> raw_listing option \<times> listing_table" where
  "update_listing i p now t =
     (let t' = update_where (\<lambda>l. rl_id l = i) (apply_patch p now) t in (get_listing i t', t'))"

text \<open>\<open>ORDER BY created_at DESC\<close>, rows of one time in table order.\<close>

definition list_listings :: "string option \<Rightarrow> nat \<Rightarrow> nat \<Rightarrow> listing_table \<Rightarrow> raw_listing list \<times> nat" where
  "list_listings status_filter limit offset t =
     (let rows = (if truthy status_filter then filter (\<lambda>l. Some (rl_status l) = status_filter) t else t)
      in (take limit (drop offset (sort_key (\<lambda>l. - rl_created_at l) rows)), length rows))"

definition get_listing_for_file :: "string \<Rightarrow> listing_table \<Rightarrow> raw_listing option" where
  "get_listing_for_file file t =
     (case sort_key (\<lambda>l. - rl_created_at l) (filter (\<lambda>l. rl_raw_file_id l = file) t) of
        [] \<Rightarrow> None | l # _ \<Rightarrow> Some l)"

section \<open>Publication\<close>

definition resolve_category :: "raw_listing \<Rightarrow> raw_file \<Rightarrow> string" where
  "resolve_category l f =
     (let own = dict_get (case rl_auto_metadata l of None \<Rightarrow> [] | Some d \<Rightarrow> d) ''category'' JNull;
          category = (if truthy_json own then own
                      else dict_get (case rf_metadata f of None \<Rightarrow> [] | Some d \<Rightarrow> d) ''category'' JNull)
      in case category of JStr c \<Rightarrow> if strip c \<noteq> [] then strip c else ''other'' | _ \<Rightarrow> ''other'')"

text \<open>The three checks that begin every publication.\<close>

definition check_publishable :: "string \<Rightarrow> listing_table \<Rightarrow> listing_exn + raw_listing" where
  "check_publishable i t =
     (case get_listing i t of
        None \<Rightarrow> Inl (ListingNotFound i)
      | Some l \<Rightarrow>
          if rl_status l = ''listed'' then Inl (StatusError ''Listing is already published'')
          else if rl_status l = ''delisted'' then Inl (StatusError ''Cannot publish a delisted listing'')
          else Inr l)"

record publishable =
  pb_listing_id :: string
  pb_title :: string
  pb_description :: string
  pb_tags :: "string list"
  pb_category :: string
  pb_price_cents :: int
  pb_mime_type :: "string option"
  pb_filename :: string
  pb_file_size_bytes :: nat

definition get_publishable_listing :: "string \<Rightarrow> raw_file list \<Rightarrow> listing_table \<Rightarrow> listing_exn + publishable" where
  "get_publishable_listing i fs t =
     (case check_publishable i t of
        Inl e \<Rightarrow> Inl e
      | Inr l \<Rightarrow>
          (case find (\<lambda>f. rf_id f = rl_raw_file_id l) fs of
             None \<Rightarrow> Inl (RawFileNotFound (rl_raw_file_id l))
           | Some f \<Rightarrow> Inr
               \<lparr>pb_listing_id = rl_id l, pb_title = rl_title l, pb_description = rl_description l,
                pb_tags = rl_tags l, pb_category = strip (resolve_category l f),
                pb_price_cents = (case rl_price_cents l of None \<Rightarrow> 0 | Some c \<Rightarrow> c),
                pb_mime_type = rf_mime_type f, pb_filename = rf_filename f,
                pb_file_size_bytes = rf_file_size_bytes f\<rparr>))"

definition mark_row :: "string \<Rightarrow> time \<Rightarrow> raw_listing \<Rightarrow> raw_listing" where
  "mark_row marketplace_id now l =
     l\<lparr>rl_marketplace_listing_id := Some marketplace_id, rl_status := ''listed'',
       rl_published_at := Some now, rl_updated_at := now\<rparr>"

definition mark_listing_published ::
  "string \<Rightarrow> string \<Rightarrow> time \<Rightarrow> (listing_table, listing_exn, raw_listing) meth" where
  "mark_listing_published i marketplace_id now = (\<lambda>t.
     case check_publishable i t of
       Inl e \<Rightarrow> (Inl e, t)
     | Inr l \<Rightarrow> (Inr (mark_row marketplace_id now l), update_where (\<lambda>r. rl_id r = i) (mark_row marketplace_id now) t))"

definition delist_listing :: "string \<Rightarrow> time \<Rightarrow> (listing_table, listing_exn, raw_listing) meth" where
  "delist_listing i now = (\<lambda>t.
     let f = (\<lambda>l. l\<lparr>rl_status := ''delisted'', rl_updated_at := now\<rparr>)
     in case get_listing i t of
          None \<Rightarrow> (Inl (ListingNotFound i), t)
        | Some l \<Rightarrow>
            if rl_status l \<noteq> ''listed'' then (Inl (StatusError ''Only listed listings can be delisted''), t)
            else (Inr (f l), update_where (\<lambda>r. rl_id r = i) f t))"

subsection \<open>The request to the signed proxy\<close>

record publish_request =
  pr_title :: string
  pr_description :: string
  pr_tags :: "string list"
  pr_category :: string
  pr_pricing_type :: string
  pr_price_cents :: int
  pr_file_format :: string
  pr_file_size_bytes :: nat
  pr_schema_info :: dict
  pr_compliance_status :: string
  pr_vz_dataset_id :: string

text \<open>The constraints that the request model checks when it is built.\<close>

definition invalid_fields :: "publish_request \<Rightarrow> string list" where
  "invalid_fields r =
     (if 200 < length (pr_title r) then [''title''] else []) @
     (if 5000 < length (pr_description r) then [''description''] else []) @
     (if pr_price_cents r < 0 then [''price_cents''] else [])"

definition build_publish_request :: "publishable \<Rightarrow> listing_exn + publish_request" where
  "build_publish_request p =
     (let r = \<lparr>pr_title = pb_title p, pr_description = pb_description p, pr_tags = pb_tags p,
               pr_category = strip (if strip (pb_category p) = [] then ''other'' else pb_category p),
               pr_pricing_type = ''one_time'', pr_price_cents = pb_price_cents p,
               pr_file_format = (if truthy (pb_mime_type p) then the (pb_mime_type p) else ''application/octet-stream''),
               pr_file_size_bytes = pb_file_size_bytes p,
               pr_schema_info = [(''type'', JStr ''raw_file''), (''filename'', JStr (pb_filename p)),
                 (''mime_type'', case pb_mime_type p of None \<Rightarrow> JNull | Some m \<Rightarrow> JStr m),
                 (''file_size_bytes'', JInt (int (pb_file_size_bytes p)))],
               pr_compliance_status = ''not_checked'', pr_vz_dataset_id = pb_listing_id p\<rparr>
      in if invalid_fields r \<noteq> [] then Inl (InvalidFields (invalid_fields r)) else Inr r)"

subsection \<open>The publish endpoint\<close>

text \<open>What the proxy call does: a JSON value, an unreadable success, an HTTP exception, another failure.\<close>

datatype proxy_outcome = ProxyJson json | ProxyBadJson string | ProxyHttp int string | ProxyCrash

datatype detail = Text string | Fields "string list"

datatype publish_reply = Answer raw_listing | HttpFail int detail | Crash

definition listing_reply :: "listing_exn \<Rightarrow> publish_reply" where
  "listing_reply e =
     (case e of
        ListingNotFound _ \<Rightarrow> HttpFail 404 (Text ''Listing not found'')
      | RawFileNotFound _ \<Rightarrow> HttpFail 404 (Text ''Listing not found'')
      | StatusError m \<Rightarrow> HttpFail 409 (Text m)
      | InvalidFields fs \<Rightarrow> HttpFail 409 (Fields fs)
      | NotConnected m \<Rightarrow> HttpFail 409 (Text m)
      | AuthError m \<Rightarrow> HttpFail 403 (Text m)
      | ConnectionError m \<Rightarrow> HttpFail 502 (Text m)
      | PublishError m \<Rightarrow> HttpFail 502 (Text m))"

record market =
  mk_files :: "raw_file list"
  mk_listings :: listing_table
  mk_publishing :: "string list"

text \<open>\<open>mk_publishing\<close> holds the listings of the publish calls that wait for ai.market.\<close>

definition begin_publish :: "string \<Rightarrow> market \<Rightarrow> (publish_reply + publish_request) \<times> market" where
  "begin_publish i w =
     (case get_publishable_listing i (mk_files w) (mk_listings w) of
        Inl e \<Rightarrow> (Inl (listing_reply e), w)
      | Inr p \<Rightarrow>
          (case build_publish_request p of
             Inl e \<Rightarrow> (Inl (listing_reply e), w)
           | Inr r \<Rightarrow> (Inr r, w\<lparr>mk_publishing := mk_publishing w @ [i]\<rparr>)))"

text \<open>The identifier in the reply; \<open>str_of\<close> is the text that \<open>str\<close> gives a value.\<close>

definition marketplace_id :: "(json \<Rightarrow> string) \<Rightarrow> json \<Rightarrow> listing_exn + string" where
  "marketplace_id str_of result =
     (case result of
        JObj d \<Rightarrow>
          (let v = dict_get d ''listing_id'' JNull; m = (if truthy_json v then v else dict_get d ''id'' JNull)
           in if truthy_json m then Inr (str_of m)
              else Inl (PublishError ''ai.market created the listing but did not return a listing id.''))
      | _ \<Rightarrow> Inl (PublishError ''ai.market returned an unexpected response.''))"

definition finish_publish ::
  "(json \<Rightarrow> string) \<Rightarrow> string \<Rightarrow> proxy_outcome \<Rightarrow> time \<Rightarrow> market \<Rightarrow> publish_reply \<times> market" where
  "finish_publish str_of i outcome now w0 =
     (let w = w0\<lparr>mk_publishing := remove1 i (mk_publishing w0)\<rparr> in
      case outcome of
        ProxyHttp code m \<Rightarrow>
          (HttpFail (if code \<in> {401, 403} then 403 else if code = 504 then 502 else code) (Text m), w)
      | ProxyBadJson m \<Rightarrow> (HttpFail 409 (Text m), w)
      | ProxyCrash \<Rightarrow> (Crash, w)
      | ProxyJson v \<Rightarrow>
          (case marketplace_id str_of v of
             Inl e \<Rightarrow> (listing_reply e, w)
           | Inr m \<Rightarrow>
               (case mark_listing_published i m now (mk_listings w) of
                  (Inl e, t) \<Rightarrow> (listing_reply e, w\<lparr>mk_listings := t\<rparr>)
                | (Inr l, t) \<Rightarrow> (Answer l, w\<lparr>mk_listings := t\<rparr>))))"

definition delist_raw_listing :: "string \<Rightarrow> time \<Rightarrow> market \<Rightarrow> publish_reply \<times> market" where
  "delist_raw_listing i now w =
     (case delist_listing i now (mk_listings w) of
        (Inl e, t) \<Rightarrow> (listing_reply e, w\<lparr>mk_listings := t\<rparr>)
      | (Inr l, t) \<Rightarrow> (Answer l, w\<lparr>mk_listings := t\<rparr>))"

subsection \<open>The service's own publication\<close>

text \<open>
  \<open>RawListingService.publish_listing\<close>, which the endpoint no longer calls. The preview of a file: 500
  characters of its metadata, or of the first 2048 bytes on disk (\<open>utf8\<close> decodes and drops what it cannot).
\<close>

definition extract_preview_snippet :: "(string \<Rightarrow> string) \<Rightarrow> (string \<times> string) list \<Rightarrow> raw_file \<Rightarrow> string" where
  "extract_preview_snippet utf8 dsk f =
     (case dict_get (case rf_metadata f of None \<Rightarrow> [] | Some d \<Rightarrow> d) ''preview_snippet'' JNull of
        JStr s \<Rightarrow> take 500 s
      | _ \<Rightarrow> (case map_of dsk (rf_file_path f) of
           None \<Rightarrow> [] | Some b \<Rightarrow> take 500 (strip (utf8 (take 2048 b)))))"

text \<open>The price is kept in cents; the wire has the number of cents divided by a hundred.\<close>

record marketplace_payload =
  mp_title :: string
  mp_description :: string
  mp_price_cents :: int
  mp_category :: string
  mp_tags :: "string list"
  mp_data_format :: string
  mp_source_file_name :: string
  mp_file_size_bytes :: nat
  mp_mime_type :: "string option"
  mp_content_hash :: string
  mp_preview_snippet :: string

definition build_marketplace_payload ::
  "(string \<Rightarrow> string) \<Rightarrow> (string \<times> string) list \<Rightarrow> raw_listing \<Rightarrow> raw_file \<Rightarrow> marketplace_payload" where
  "build_marketplace_payload utf8 dsk l f =
     \<lparr>mp_title = rl_title l, mp_description = rl_description l,
      mp_price_cents = (case rl_price_cents l of None \<Rightarrow> 0 | Some c \<Rightarrow> c),
      mp_category = resolve_category l f, mp_tags = rl_tags l,
      mp_data_format = (if truthy (rf_mime_type f) then the (rf_mime_type f) else ''application/octet-stream''),
      mp_source_file_name = rf_filename f, mp_file_size_bytes = rf_file_size_bytes f,
      mp_mime_type = rf_mime_type f, mp_content_hash = rf_content_hash f,
      mp_preview_snippet = extract_preview_snippet utf8 dsk f\<rparr>"

text \<open>What the POST brings: a timeout, another transport error, or a status with the body's JSON
  (none when it is no JSON) and text.\<close>

datatype post_outcome = Timeout | RequestFailure | Response int "json option" string

definition failure_detail :: "(json \<Rightarrow> string) \<Rightarrow> json option \<Rightarrow> string \<Rightarrow> string" where
  "failure_detail str_of body txt =
     (case body of
        Some (JObj d) \<Rightarrow>
          (let v = dict_get d ''detail'' JNull; m = dict_get d ''message'' JNull
           in if truthy_json v then str_of v else if truthy_json m then str_of m else ''ai.market publish failed.'')
      | Some _ \<Rightarrow> ''ai.market publish failed.''
      | None \<Rightarrow> if txt \<noteq> [] then take 300 txt else ''ai.market publish failed.'')"

definition created_id :: "(json \<Rightarrow> string) \<Rightarrow> dict \<Rightarrow> listing_exn + string" where
  "created_id str_of d =
     (let v = dict_get d ''id'' JNull; m = (if truthy_json v then v else dict_get d ''listing_id'' JNull)
      in if truthy_json m then Inr (str_of m)
         else Inl (PublishError ''ai.market created the listing but did not return a listing id.''))"

text \<open>A success whose body is no object raises from inside the library: no listing exception, \<open>None\<close>.\<close>

definition create_marketplace_listing ::
  "(json \<Rightarrow> string) \<Rightarrow> string option \<Rightarrow> post_outcome \<Rightarrow> (listing_exn + string) option" where
  "create_marketplace_listing str_of token outcome =
     (if \<not> truthy token then Some (Inl (NotConnected ''Log in to ai.market before publishing this listing.''))
      else
        (case outcome of
           Timeout \<Rightarrow> Some (Inl (ConnectionError ''Timed out while publishing to ai.market.''))
         | RequestFailure \<Rightarrow> Some (Inl (ConnectionError ''Could not reach ai.market while publishing.''))
         | Response code body txt \<Rightarrow>
             if code = 201 then (case body of Some (JObj d) \<Rightarrow> Some (created_id str_of d) | _ \<Rightarrow> None)
             else if code = 401 \<or> code = 403
             then Some (Inl (AuthError ''ai.market rejected publish; reconnect your account.''))
             else Some (Inl (PublishError (failure_detail str_of body txt @ '' (ai.market status '' @ show_int code @ '')'')))))"

text \<open>\<open>later\<close> is what other requests make of the table during the wait; the commit does not look again.\<close>

definition publish_listing ::
  "(json \<Rightarrow> string) \<Rightarrow> string option \<Rightarrow> raw_file list \<Rightarrow> string \<Rightarrow> post_outcome \<Rightarrow> (listing_table \<Rightarrow> listing_table)
     \<Rightarrow> time \<Rightarrow> listing_table \<Rightarrow> (listing_exn + raw_listing option) option \<times> listing_table" where
  "publish_listing str_of token fs i outcome later now t =
     (case check_publishable i t of
        Inl e \<Rightarrow> (Some (Inl e), t)
      | Inr l \<Rightarrow>
          if find (\<lambda>f. rf_id f = rl_raw_file_id l) fs = None then (Some (Inl (RawFileNotFound (rl_raw_file_id l))), t)
          else
            (case create_marketplace_listing str_of token outcome of
               None \<Rightarrow> (None, later t)
             | Some (Inl e) \<Rightarrow> (Some (Inl e), later t)
             | Some (Inr m) \<Rightarrow>
                 (let t' = update_where (\<lambda>r. rl_id r = i) (mark_row m now) (later t)
                  in (Some (Inr (get_listing i t')), t'))))"

section \<open>Runs\<close>

text \<open>
  A new identifier that is already in the table is refused by the primary key. Files come and go
  with the operations of \<open>Raw_Files\<close>.
\<close>

datatype market_event =
    Create string string string string "string list" "int option" "string option" time
  | Update string listing_patch time
  | BeginPublish string
  | FinishPublish string proxy_outcome time
  | Delist string time
  | FilesBecome "raw_file list"

definition market_step :: "(json \<Rightarrow> string) \<Rightarrow> market \<Rightarrow> market_event \<Rightarrow> market" where
  "market_step str_of w ev =
     (case ev of
        Create i file title desc tags price cat now \<Rightarrow>
          if get_listing i (mk_listings w) \<noteq> None \<or> find (\<lambda>f. rf_id f = file) (mk_files w) = None then w
          else w\<lparr>mk_listings := snd (create_listing i file title desc tags price cat now (mk_listings w))\<rparr>
      | Update i p now \<Rightarrow> w\<lparr>mk_listings := snd (update_listing i p now (mk_listings w))\<rparr>
      | BeginPublish i \<Rightarrow> snd (begin_publish i w)
      | FinishPublish i outcome now \<Rightarrow>
          if i \<in> set (mk_publishing w) then snd (finish_publish str_of i outcome now w) else w
      | Delist i now \<Rightarrow> snd (delist_raw_listing i now w)
      | FilesBecome fs \<Rightarrow> w\<lparr>mk_files := fs\<rparr>)"

definition empty_market :: market where
  "empty_market = \<lparr>mk_files = [], mk_listings = [], mk_publishing = []\<rparr>"

section \<open>The lifecycle as a specification\<close>

text \<open>Draft, live under a marketplace identifier, gone: a phase that only moves on.\<close>

datatype phase = PDraft | PLive string | PGone string

instantiation phase :: order
begin

definition less_eq_phase :: "phase \<Rightarrow> phase \<Rightarrow> bool" where
  "less_eq_phase p q =
     (case p of PDraft \<Rightarrow> True | PLive m \<Rightarrow> q = PLive m \<or> q = PGone m | PGone m \<Rightarrow> q = PGone m)"

definition less_phase :: "phase \<Rightarrow> phase \<Rightarrow> bool" where
  "less_phase p q \<longleftrightarrow> p \<le> q \<and> \<not> q \<le> p"

instance
  by standard (auto simp: less_eq_phase_def less_phase_def split: phase.splits)

end

type_synonym spec_state = "string \<Rightarrow> phase option"

datatype spec_event = SCreate string | SPublish string string | SDelist string

definition spec_step :: "spec_state \<Rightarrow> spec_event \<Rightarrow> spec_state" where
  "spec_step m e =
     (case e of
        SCreate i \<Rightarrow> if m i = None then m(i \<mapsto> PDraft) else m
      | SPublish i x \<Rightarrow> if m i = Some PDraft then m(i \<mapsto> PLive x) else m
      | SDelist i \<Rightarrow> (case m i of Some (PLive x) \<Rightarrow> m(i \<mapsto> PGone x) | _ \<Rightarrow> m))"

lemma spec_step_progress: "m \<le> spec_step m e"
  by (auto simp: spec_step_def le_fun_def less_eq_phase_def split: spec_event.splits option.splits phase.splits)

definition phase_of :: "raw_listing \<Rightarrow> phase" where
  "phase_of l =
     (if rl_status l = ''draft'' then PDraft
      else if rl_status l = ''listed'' then PLive (the (rl_marketplace_listing_id l))
      else PGone (the (rl_marketplace_listing_id l)))"

definition phases :: "listing_table \<Rightarrow> spec_state" where
  "phases t i = map_option phase_of (get_listing i t)"

text \<open>The events of the specification that an event of the program stands for.\<close>

definition spec_events :: "(json \<Rightarrow> string) \<Rightarrow> market \<Rightarrow> market_event \<Rightarrow> spec_event list" where
  "spec_events str_of w ev =
     (case ev of
        Create i file title desc tags price cat now \<Rightarrow>
          if find (\<lambda>f. rf_id f = file) (mk_files w) = None then [] else [SCreate i]
      | FinishPublish i (ProxyJson v) now \<Rightarrow>
          if i \<in> set (mk_publishing w)
          then (case marketplace_id str_of v of Inl e \<Rightarrow> [] | Inr m \<Rightarrow> [SPublish i m]) else []
      | Delist i now \<Rightarrow> [SDelist i]
      | _ \<Rightarrow> [])"

fun spec_trace :: "(json \<Rightarrow> string) \<Rightarrow> market \<Rightarrow> market_event list \<Rightarrow> spec_event list" where
  "spec_trace str_of w [] = []"
| "spec_trace str_of w (e # es) = spec_events str_of w e @ spec_trace str_of (market_step str_of w e) es"

text \<open>Every row is in one of the three statuses, with an identifier and a date once it left the first.\<close>

definition row_ok :: "raw_listing \<Rightarrow> bool" where
  "row_ok l \<longleftrightarrow>
     (rl_status l = ''draft'' \<and> rl_marketplace_listing_id l = None \<and> rl_published_at l = None) \<or>
     (rl_status l \<in> {''listed'', ''delisted''} \<and> rl_marketplace_listing_id l \<noteq> None \<and> rl_published_at l \<noteq> None)"

definition table_ok :: "listing_table \<Rightarrow> bool" where
  "table_ok t \<longleftrightarrow> distinct (map rl_id t) \<and> (\<forall>l \<in> set t. row_ok l)"

section \<open>Lemmas\<close>

lemma get_listing_in: "get_listing i t = Some l \<Longrightarrow> l \<in> set t \<and> rl_id l = i"
  by (auto simp: get_listing_def find_Some_iff)

lemma get_listing_None: "get_listing i t = None \<longleftrightarrow> i \<notin> rl_id ` set t"
  by (auto simp: get_listing_def find_None_iff)

lemma get_listing_append: "get_listing i (t @ [l]) = (case get_listing i t of Some x \<Rightarrow> Some x | None \<Rightarrow> if rl_id l = i then Some l else None)"
  by (induction t) (auto simp: get_listing_def)

lemma get_listing_update:
  assumes "\<And>l. rl_id (f l) = rl_id l"
  shows "get_listing j (update_where (\<lambda>l. rl_id l = i) f t) = (if j = i then map_option f (get_listing i t) else get_listing j t)"
  using assms by (induction t) (auto simp: get_listing_def)

lemma table_ok_update:
  assumes "table_ok t" "\<And>l. rl_id (f l) = rl_id l" "\<And>l. l \<in> set t \<Longrightarrow> rl_id l = i \<Longrightarrow> row_ok (f l)"
  shows "table_ok (update_where (\<lambda>l. rl_id l = i) f t)"
  using assms map_update_where_key [of "\<lambda>l. rl_id l = i" rl_id f t]
  by (auto simp: table_ok_def set_update_where)

lemma table_ok_unique: "table_ok t \<Longrightarrow> l \<in> set t \<Longrightarrow> get_listing (rl_id l) t = Some l"
  by (induction t) (auto simp: table_ok_def get_listing_def rev_image_eqI)

lemma row_kept [simp]:
  "rl_id (apply_patch p now l) = rl_id l" "rl_id (mark_row m now l) = rl_id l"
  "row_ok (apply_patch p now l) = row_ok l" "phase_of (apply_patch p now l) = phase_of l"
  "row_ok (mark_row m now l)" "phase_of (mark_row m now l) = PLive m"
  by (simp_all add: apply_patch_def mark_row_def row_ok_def phase_of_def)

lemma check_publishable_ok:
  "check_publishable i t = Inr l \<Longrightarrow> table_ok t \<Longrightarrow> get_listing i t = Some l \<and> phase_of l = PDraft"
  using get_listing_in [of i t l]
  by (auto simp: check_publishable_def table_ok_def row_ok_def phase_of_def split: option.splits if_splits)

lemma check_publishable_fails:
  "check_publishable i t = Inl e \<Longrightarrow> phases t i \<noteq> Some PDraft"
  by (auto simp: check_publishable_def phases_def phase_of_def split: option.splits if_splits)

lemma phases_update:
  assumes "\<And>l. rl_id (f l) = rl_id l"
  shows "phases (update_where (\<lambda>l. rl_id l = i) f t) =
    (case get_listing i t of None \<Rightarrow> phases t | Some l \<Rightarrow> (phases t)(i \<mapsto> phase_of (f l)))"
  by (rule ext) (auto simp: phases_def get_listing_update [of f, OF assms] split: option.splits)

lemma mark_simulates:
  assumes "table_ok t"
  shows "phases (snd (mark_listing_published i m now t)) = spec_step (phases t) (SPublish i m)"
    and "table_ok (snd (mark_listing_published i m now t))"
proof -
  show "phases (snd (mark_listing_published i m now t)) = spec_step (phases t) (SPublish i m)"
  proof (cases "check_publishable i t")
    case (Inl e)
    then show ?thesis using check_publishable_fails [OF Inl] by (simp add: mark_listing_published_def spec_step_def)
  next
    case (Inr l)
    then show ?thesis using check_publishable_ok [OF Inr assms] phases_update [of "mark_row m now" i t]
      by (simp add: mark_listing_published_def spec_step_def) (simp add: phases_def)
  qed
  show "table_ok (snd (mark_listing_published i m now t))"
    using assms by (auto simp: mark_listing_published_def table_ok_update split: sum.splits)
qed

lemma delist_simulates:
  assumes "table_ok t"
  shows "phases (snd (delist_listing i now t)) = spec_step (phases t) (SDelist i)"
    and "table_ok (snd (delist_listing i now t))"
proof -
  let ?f = "\<lambda>l. l\<lparr>rl_status := ''delisted'', rl_updated_at := now\<rparr>"
  consider "get_listing i t = None"
    | l where "get_listing i t = Some l" "rl_status l \<noteq> ''listed''"
    | l where "get_listing i t = Some l" "rl_status l = ''listed''" by blast
  note cs = this
  show "phases (snd (delist_listing i now t)) = spec_step (phases t) (SDelist i)"
    using cs
  proof cases
    case 1
    then show ?thesis by (simp add: delist_listing_def spec_step_def phases_def)
  next
    case 2
    then have "phases t i = Some (phase_of l)" "\<forall>m. phase_of l \<noteq> PLive m"
      by (auto simp: phases_def phase_of_def)
    then show ?thesis using 2 by (auto simp: delist_listing_def spec_step_def split: phase.splits)
  next
    case 3
    have f: "phases (update_where (\<lambda>l. rl_id l = i) ?f t) = (phases t)(i \<mapsto> phase_of (?f l))"
      using phases_update [of ?f i t] 3 by simp
    have g: "phases t i = Some (PLive (the (rl_marketplace_listing_id l)))"
      "phase_of (?f l) = PGone (the (rl_marketplace_listing_id l))"
      using 3 by (auto simp: phases_def phase_of_def)
    show ?thesis using 3 f g by (simp add: delist_listing_def Let_def spec_step_def)
  qed
  show "table_ok (snd (delist_listing i now t))"
    using cs
  proof cases
    case 3
    have "table_ok (update_where (\<lambda>l. rl_id l = i) ?f t)"
    proof (rule table_ok_update [OF assms])
      fix r assume "r \<in> set t" "rl_id r = i"
      then have "r = l" using table_ok_unique [OF assms] 3(1) by force
      then show "row_ok (?f r)" using 3 assms get_listing_in [OF 3(1)] by (auto simp: table_ok_def row_ok_def)
    qed simp
    then show ?thesis using 3 by (simp add: delist_listing_def Let_def)
  qed (use assms in \<open>simp_all add: delist_listing_def\<close>)
qed

lemma create_simulates:
  assumes "table_ok t" "get_listing i t = None"
  shows "phases (snd (create_listing i file ti d tags pr cat now t)) = spec_step (phases t) (SCreate i)"
    and "table_ok (snd (create_listing i file ti d tags pr cat now t))"
proof -
  show "phases (snd (create_listing i file ti d tags pr cat now t)) = spec_step (phases t) (SCreate i)"
    using assms(2)
    by (auto simp: create_listing_def Let_def spec_step_def phases_def get_listing_append phase_of_def
        fun_eq_iff split: option.splits)
  show "table_ok (snd (create_listing i file ti d tags pr cat now t))"
    using assms by (auto simp: create_listing_def Let_def table_ok_def row_ok_def get_listing_None)
qed

lemma finish_table:
  "mk_listings (snd (finish_publish str_of i outcome now w)) =
     (case outcome of
        ProxyJson v \<Rightarrow> (case marketplace_id str_of v of Inl e \<Rightarrow> mk_listings w
           | Inr m \<Rightarrow> snd (mark_listing_published i m now (mk_listings w)))
      | _ \<Rightarrow> mk_listings w)"
  by (auto simp: finish_publish_def Let_def split: proxy_outcome.splits sum.splits prod.splits)

lemma begin_table: "mk_listings (snd (begin_publish i w)) = mk_listings w"
  by (auto simp: begin_publish_def split: sum.splits)

lemma delist_table: "mk_listings (snd (delist_raw_listing i now w)) = snd (delist_listing i now (mk_listings w))"
  by (auto simp: delist_raw_listing_def split: sum.splits prod.splits)

lemma market_step_simulates:
  assumes "table_ok (mk_listings w)"
  shows "phases (mk_listings (market_step str_of w ev)) = foldl spec_step (phases (mk_listings w)) (spec_events str_of w ev)"
    and "table_ok (mk_listings (market_step str_of w ev))"
proof -
  let ?t = "mk_listings w"
  have "phases (mk_listings (market_step str_of w ev)) = foldl spec_step (phases ?t) (spec_events str_of w ev)
      \<and> table_ok (mk_listings (market_step str_of w ev))"
  proof (cases ev)
    case (Create i fid ti d tags pr cat now)
    show ?thesis
    proof (cases "get_listing i ?t = None")
      case True
      then show ?thesis using create_simulates [OF assms True] Create assms
        by (simp add: market_step_def spec_events_def)
    next
      case False
      then have "spec_step (phases ?t) (SCreate i) = phases ?t" by (auto simp: spec_step_def phases_def)
      then show ?thesis using Create assms False by (simp add: market_step_def spec_events_def)
    qed
  next
    case (Update i p now)
    have "phases (update_where (\<lambda>l. rl_id l = i) (apply_patch p now) ?t) = phases ?t"
      using phases_update [of "apply_patch p now" i ?t]
      by (auto simp: phases_def fun_eq_iff split: option.splits)
    moreover have "table_ok (update_where (\<lambda>l. rl_id l = i) (apply_patch p now) ?t)"
      by (rule table_ok_update [OF assms]) (use assms in \<open>auto simp: table_ok_def\<close>)
    ultimately show ?thesis using Update
      by (simp add: market_step_def spec_events_def update_listing_def Let_def)
  next
    case (BeginPublish i)
    then show ?thesis using assms by (simp add: market_step_def spec_events_def begin_table)
  next
    case (FinishPublish i outcome now)
    then show ?thesis using assms mark_simulates [OF assms]
      by (auto simp: market_step_def spec_events_def finish_table split: proxy_outcome.splits sum.splits)
  next
    case (Delist i now)
    then show ?thesis using delist_simulates [OF assms] by (simp add: market_step_def spec_events_def delist_table)
  next
    case (FilesBecome fs)
    then show ?thesis using assms by (simp add: market_step_def spec_events_def)
  qed
  then show "phases (mk_listings (market_step str_of w ev)) = foldl spec_step (phases ?t) (spec_events str_of w ev)"
    "table_ok (mk_listings (market_step str_of w ev))" by simp_all
qed

lemma spec_run_progress: "m \<le> foldl spec_step m es"
  by (induction es arbitrary: m) (auto intro: order_trans [OF spec_step_progress])

text \<open>The table runs as a ranked system: its rank is the phases, which only move on.\<close>

interpretation lifecycle: ranked_system empty_market "market_step str_of" "\<lambda>w. table_ok (mk_listings w)"
  "\<lambda>w. phases (mk_listings w)" for str_of
proof
  show "table_ok (mk_listings empty_market)" by (simp add: empty_market_def table_ok_def)
  show "table_ok (mk_listings w) \<Longrightarrow> table_ok (mk_listings (market_step str_of w e))" for w e
    by (rule market_step_simulates(2))
  show "table_ok (mk_listings w) \<Longrightarrow> phases (mk_listings w) \<le> phases (mk_listings (market_step str_of w e))" for w e
    by (simp add: market_step_simulates(1) spec_run_progress)
qed

lemma run_simulates:
  "table_ok (mk_listings w) \<Longrightarrow>
   phases (mk_listings (foldl (market_step str_of) w es)) = foldl spec_step (phases (mk_listings w)) (spec_trace str_of w es)"
  by (induction es arbitrary: w) (simp_all add: market_step_simulates)

section \<open>Properties\<close>

text \<open>C7: the listing table refines the lifecycle draft, listed, delisted: over every sequence of
  requests, with publications that wait for ai.market while others run, the phases of the rows are those
  the specification reaches on the corresponding events, one publication or delisting per event.\<close>

theorem listings_refine_lifecycle:
  "phases (mk_listings (foldl (market_step str_of) empty_market es)) =
     foldl spec_step (\<lambda>i. None) (spec_trace str_of empty_market es)"
proof -
  have "table_ok (mk_listings empty_market)" by (rule lifecycle.init_inv)
  moreover have "phases (mk_listings empty_market) = (\<lambda>i. None)"
    by (rule ext) (simp add: empty_market_def phases_def get_listing_def)
  ultimately show ?thesis using run_simulates [of empty_market] by metis
qed

text \<open>C29: the \<open>status\<close> column, a free string in the schema, is well typed in every reachable table:
  identifiers are unique, each row is a draft without marketplace identifier and date, or is listed or
  delisted with both.\<close>

theorem listing_rows_well_typed:
  "table_ok (mk_listings (foldl (market_step str_of) empty_market es))"
  by (rule lifecycle.run_inv)

text \<open>Also: the marketplace identifier of a listing is written once. When a row has been published as
  \<open>m\<close>, it is listed or delisted as \<open>m\<close> after any further requests, also when other publications of the
  same listing were waiting and finish later; and a delisted row stays delisted.\<close>

theorem marketplace_id_written_once:
  assumes "get_listing i (mk_listings (foldl (market_step str_of) empty_market es)) = Some l"
    and "rl_status l \<noteq> ''draft''"
  shows "\<exists>l'. get_listing i (mk_listings (foldl (market_step str_of) empty_market (es @ fs))) = Some l' \<and>
    rl_marketplace_listing_id l' = rl_marketplace_listing_id l \<and> rl_status l' \<noteq> ''draft'' \<and>
    (rl_status l = ''delisted'' \<longrightarrow> rl_status l' = ''delisted'')"
proof -
  let ?t = "mk_listings (foldl (market_step str_of) empty_market es)"
  let ?u = "mk_listings (foldl (market_step str_of) empty_market (es @ fs))"
  have ok: "table_ok ?t" "table_ok ?u" by (rule lifecycle.run_inv)+
  have le: "phases ?t i \<le> phases ?u i" using lifecycle.run_rank_split by (rule le_funD)
  have t: "phases ?t i = Some (phase_of l)" using assms(1) by (simp add: phases_def)
  obtain l' where l': "get_listing i ?u = Some l'" "phase_of l \<le> phase_of l'"
  proof (cases "get_listing i ?u")
    case None
    then show ?thesis using le unfolding t by (simp add: phases_def)
  next
    case (Some r)
    then show ?thesis using le that [of r] unfolding t by (simp add: phases_def)
  qed
  have "row_ok l" "row_ok l'" using ok get_listing_in [OF assms(1)] get_listing_in [OF l'(1)] by (auto simp: table_ok_def)
  then show ?thesis using l' assms(2)
    by (auto simp: phase_of_def less_eq_phase_def row_ok_def split: if_splits)
qed

text \<open>A market with one file and one listing, and two publications of it that overlap.\<close>

definition sample_raw_file :: raw_file where
  "sample_raw_file = \<lparr>rf_id = ''f1'', rf_filename = ''a.csv'', rf_file_path = ''/d/a.csv'', rf_file_size_bytes = 3,
     rf_content_hash = ''cba'', rf_mime_type = Some ''text/csv'', rf_metadata = None, rf_created_at = 1, rf_updated_at = 1\<rparr>"

definition str_text :: "json \<Rightarrow> string" where
  "str_text j = (case j of JStr t \<Rightarrow> t | _ \<Rightarrow> ''?'')"

definition sample_draft :: "market_event list" where
  "sample_draft = [FilesBecome [sample_raw_file],
     Create ''l1'' ''f1'' ''Trips'' ''All trips'' [] (Some 500) (Some ''travel'') 1]"

definition sample_publish :: "market_event list" where
  "sample_publish = sample_draft @ [BeginPublish ''l1'', BeginPublish ''l1'',
     FinishPublish ''l1'' (ProxyJson (JObj [(''listing_id'', JStr ''m1'')])) 2]"

theorem marketplace_id_written_once_witness:
  "\<exists>l'. get_listing ''l1'' (mk_listings (foldl (market_step str_text) empty_market (sample_publish @
      [FinishPublish ''l1'' (ProxyJson (JObj [(''listing_id'', JStr ''m2'')])) 3, Delist ''l1'' 4]))) = Some l' \<and>
    rl_marketplace_listing_id l' = Some ''m1''"
proof -
  let ?l = "hd (mk_listings (foldl (market_step str_text) empty_market sample_publish))"
  have g: "get_listing ''l1'' (mk_listings (foldl (market_step str_text) empty_market sample_publish)) = Some ?l"
    by code_simp
  have s: "rl_status ?l \<noteq> ''draft''" "rl_marketplace_listing_id ?l = Some ''m1''" by code_simp+
  show ?thesis using marketplace_id_written_once [OF g s(1)] unfolding s(2) by blast
qed

text \<open>Also: what the publish endpoint sends. A request goes to ai.market exactly for a listing that is
  neither listed nor delisted, whose file is registered, with a title of at most 200 and a description of
  at most 5000 characters and a price that is not negative; it carries the listing's title, price and
  identifier and a category that is not blank. (Titles may be stored with up to 256 characters; those
  over 200 are refused with 409 each time.)\<close>

theorem publish_request_sent_iff:
  "(\<exists>r. fst (begin_publish i w) = Inr r) \<longleftrightarrow>
     (\<exists>l f. get_listing i (mk_listings w) = Some l \<and> rl_status l \<notin> {''listed'', ''delisted''} \<and>
        find (\<lambda>f. rf_id f = rl_raw_file_id l) (mk_files w) = Some f \<and> length (rl_title l) \<le> 200 \<and>
        length (rl_description l) \<le> 5000 \<and> (\<forall>c. rl_price_cents l \<noteq> Some c \<or> 0 \<le> c))"
proof -
  have b: "(\<exists>r. build_publish_request p = Inr r) \<longleftrightarrow>
      length (pb_title p) \<le> 200 \<and> length (pb_description p) \<le> 5000 \<and> 0 \<le> pb_price_cents p" for p
    by (auto simp: build_publish_request_def Let_def invalid_fields_def)
  have g: "get_publishable_listing i fs t = Inr p \<longleftrightarrow>
      (\<exists>l f. get_listing i t = Some l \<and> rl_status l \<notin> {''listed'', ''delisted''} \<and> find (\<lambda>f. rf_id f = rl_raw_file_id l) fs = Some f \<and>
        p = \<lparr>pb_listing_id = rl_id l, pb_title = rl_title l, pb_description = rl_description l,
                pb_tags = rl_tags l, pb_category = strip (resolve_category l f),
                pb_price_cents = (case rl_price_cents l of None \<Rightarrow> 0 | Some c \<Rightarrow> c),
                pb_mime_type = rf_mime_type f, pb_filename = rf_filename f,
                pb_file_size_bytes = rf_file_size_bytes f\<rparr>)" for fs t p
    by (auto simp: get_publishable_listing_def check_publishable_def split: option.splits if_splits)
  have "(\<exists>r. fst (begin_publish i w) = Inr r) \<longleftrightarrow>
      (\<exists>p. get_publishable_listing i (mk_files w) (mk_listings w) = Inr p \<and> (\<exists>r. build_publish_request p = Inr r))"
    by (auto simp: begin_publish_def split: sum.splits)
  also have "\<dots> \<longleftrightarrow> (\<exists>l f. get_listing i (mk_listings w) = Some l \<and> rl_status l \<notin> {''listed'', ''delisted''} \<and>
      find (\<lambda>f. rf_id f = rl_raw_file_id l) (mk_files w) = Some f \<and> length (rl_title l) \<le> 200 \<and>
      length (rl_description l) \<le> 5000 \<and> 0 \<le> (case rl_price_cents l of None \<Rightarrow> 0 | Some c \<Rightarrow> c))"
    unfolding b g by auto
  finally show ?thesis by (auto split: option.splits)
qed

text \<open>What a request carries.\<close>

lemma publish_request_content:
  "fst (begin_publish i w) = Inr r \<Longrightarrow> get_listing i (mk_listings w) = Some l \<Longrightarrow>
     pr_vz_dataset_id r = i \<and> pr_title r = rl_title l \<and> pr_category r \<noteq> [] \<and> pr_pricing_type r = ''one_time''"
proof -
  have c: "strip (resolve_category l f) = resolve_category l f" "resolve_category l f \<noteq> []" for f
  proof -
    have "strip ''other'' = ''other''" by code_simp
    then show "strip (resolve_category l f) = resolve_category l f" "resolve_category l f \<noteq> []"
      by (auto simp: resolve_category_def Let_def strip_idem split: json.splits)
  qed
  assume r: "fst (begin_publish i w) = Inr r" and l: "get_listing i (mk_listings w) = Some l"
  obtain p where p: "get_publishable_listing i (mk_files w) (mk_listings w) = Inr p" "build_publish_request p = Inr r"
    using r by (auto simp: begin_publish_def split: sum.splits)
  obtain f where "pb_listing_id p = i" "pb_title p = rl_title l" "pb_category p = strip (resolve_category l f)"
    using p(1) l get_listing_in [OF l]
    by (auto simp: get_publishable_listing_def check_publishable_def split: option.splits if_splits)
  then show ?thesis using p(2) c [of f] by (auto simp: build_publish_request_def Let_def split: if_splits)
qed

text \<open>Also: two publications of one draft that overlap are both sent to ai.market, with the same
  request; the reply that comes first is recorded and answered, the other is answered 409 although
  ai.market has created its listing, and its identifier is recorded nowhere.\<close>

theorem overlapping_publications_both_sent:
  assumes "begin_publish i w = (Inr r, w1)" and "begin_publish i w1 = (x, w2)"
    and "marketplace_id str_of v = Inr m" and "marketplace_id str_of v' = Inr m'"
    and "finish_publish str_of i (ProxyJson v) now w2 = (a, w3)"
  shows "x = Inr r \<and> (\<exists>l. a = Answer l \<and> rl_marketplace_listing_id l = Some m) \<and>
    finish_publish str_of i (ProxyJson v') now' w3 =
      (HttpFail 409 (Text ''Listing is already published''), w3\<lparr>mk_publishing := remove1 i (mk_publishing w3)\<rparr>)"
proof -
  obtain p where p: "get_publishable_listing i (mk_files w) (mk_listings w) = Inr p" "build_publish_request p = Inr r"
    and w1: "w1 = w\<lparr>mk_publishing := mk_publishing w @ [i]\<rparr>"
    using assms(1) by (auto simp: begin_publish_def split: sum.splits)
  then have x: "x = Inr r" "mk_listings w2 = mk_listings w"
    using assms(2) by (auto simp: begin_publish_def)
  obtain l where l: "check_publishable i (mk_listings w) = Inr l"
    using p(1) by (auto simp: get_publishable_listing_def split: sum.splits)
  have u: "get_listing i (mk_listings w) = Some l"
    using l by (auto simp: check_publishable_def split: option.splits if_splits)
  let ?t = "update_where (\<lambda>r. rl_id r = i) (mark_row m now) (mk_listings w)"
  have f: "finish_publish str_of i (ProxyJson v) now w2 =
      (Answer (mark_row m now l), w2\<lparr>mk_publishing := remove1 i (mk_publishing w2), mk_listings := ?t\<rparr>)"
    using assms(3) l x(2) by (simp add: finish_publish_def Let_def mark_listing_published_def)
  have t: "check_publishable i ?t = Inl (StatusError ''Listing is already published'')"
    using u get_listing_update [of "mark_row m now" i i "mk_listings w"]
    by (simp add: check_publishable_def) (simp add: mark_row_def)
  have w3: "a = Answer (mark_row m now l)" "mk_listings w3 = ?t" using assms(5) f by auto
  have "finish_publish str_of i (ProxyJson v') now' w3 =
      (HttpFail 409 (Text ''Listing is already published''), w3\<lparr>mk_publishing := remove1 i (mk_publishing w3)\<rparr>)"
    using assms(4) w3(2) t by (simp add: finish_publish_def Let_def mark_listing_published_def listing_reply_def)
  then show ?thesis using x w3(1) by (simp add: mark_row_def)
qed

theorem overlapping_publications_both_sent_witness:
  "\<exists>w. fst (begin_publish ''l1'' (snd (begin_publish ''l1'' w))) = fst (begin_publish ''l1'' w) \<and> isl (fst (begin_publish ''l1'' w)) = False"
proof -
  let ?w = "foldl (market_step str_text) empty_market sample_draft"
  let ?v = "JObj [(''id'', JStr ''m1'')]"
  have "isl (fst (begin_publish ''l1'' ?w)) = False" by code_simp
  then obtain r where r: "begin_publish ''l1'' ?w = (Inr r, snd (begin_publish ''l1'' ?w))"
    by (metis prod.collapse sum.collapse(2))
  have m: "marketplace_id str_text ?v = Inr ''m1''" by code_simp
  have "fst (begin_publish ''l1'' (snd (begin_publish ''l1'' ?w))) = Inr r"
    using overlapping_publications_both_sent [OF r surjective_pairing m m surjective_pairing] by blast
  then show ?thesis using r by (metis fst_conv isl_def sum.distinct(1))
qed

text \<open>The service's own publication commits without looking again: a listing that was delisted during
  its wait is listed once more, under another identifier.\<close>

lemma late_commit_relists:
  assumes "check_publishable i t = Inr l" "find (\<lambda>f. rf_id f = rl_raw_file_id l) fs \<noteq> None"
    "create_marketplace_listing str_of token outcome = Some (Inr m)" "phases (later t) i = Some (PGone m')"
  shows "phases (snd (publish_listing str_of token fs i outcome later now t)) i = Some (PLive m)"
  using assms phases_update [of "mark_row m now" i "later t"]
  by (auto simp: publish_listing_def Let_def) (auto simp: phases_def split: option.splits)

end
