(* ===== verification/Uploads.thy ===== *)
theory Uploads
  imports Prelude "HOL-Library.Multiset"
begin

text \<open>
  What an upload is checked for, \<open>app/utils/sanitization.py\<close> and the validation of
  \<open>app/services/batch_service.py\<close>: storage names, path traversal, extensions, magic bytes and the
  limits of a batch. Lower case is that of ASCII letters.
\<close>

section \<open>Names\<close>

definition MAX_FILENAME_LENGTH :: nat where "MAX_FILENAME_LENGTH = 200"

definition unsafe_char :: "char \<Rightarrow> bool" where
  "unsafe_char c \<longleftrightarrow> c \<in> {CHR 0x27, CHR 0x22, CHR 0x5C, CHR ''/'', CHR '';'', CHR '':'', CHR 0x00}"

text \<open>\<open>name.replace("..", "")\<close>\<close>

fun remove_dots :: "string \<Rightarrow> string" where
  "remove_dots (a # b # s) = (if a = CHR ''.'' \<and> b = CHR ''.'' then remove_dots s else a # remove_dots (b # s))"
| "remove_dots s = s"

text \<open>\<open>s[:n]\<close> with a Python slice bound.\<close>

definition py_prefix :: "int \<Rightarrow> string \<Rightarrow> string" where
  "py_prefix n s = (if 0 \<le> n then take (nat n) s else take (length s - nat (- n)) s)"

text \<open>The steps after the empty checks, in order.\<close>

definition truncate_name :: "string \<Rightarrow> string" where
  "truncate_name name =
     (let stem = path_stem name; suffix = map ascii_lower (path_suffix name); lowered = stem @ suffix
      in if MAX_FILENAME_LENGTH < length lowered
         then py_prefix (int MAX_FILENAME_LENGTH - int (length suffix)) stem @ suffix else lowered)"

definition sanitize_filename :: "string \<Rightarrow> string" where
  "sanitize_filename original =
     (if strip original = [] then ''_unnamed''
      else
        (let name = path_name original
         in if strip name = [] then ''_unnamed''
            else
              (let safe = remove_dots (map (\<lambda>c. if unsafe_char c then CHR ''_'' else c) name)
               in if strip safe = [] \<or> (\<forall>c \<in> set (strip safe). c \<in> {CHR ''_'', CHR ''.'', CHR '' ''})
                  then ''_unnamed'' else truncate_name safe)))"

definition validate_path_traversal :: "string \<Rightarrow> string option" where
  "validate_path_traversal v =
     (if CHR 0x00 \<in> set v then Some ''contains null bytes''
      else if contains ''..'' v then Some (''contains path traversal sequence '' @ [CHR 0x27] @ ''..'' @ [CHR 0x27])
      else if starts_with ''/'' v then Some ''absolute paths are not allowed''
      else if starts_with ''./'' v then Some (''contains current-directory prefix '' @ [CHR 0x27] @ ''./'' @ [CHR 0x27])
      else None)"

section \<open>Types and magic bytes\<close>

definition TABULAR_TYPES :: "string list" where
  "TABULAR_TYPES = [''csv'', ''tsv'', ''json'', ''parquet'']"

definition DOCUMENT_TYPES :: "string list" where
  "DOCUMENT_TYPES = [''pdf'', ''docx'', ''doc'', ''pptx'', ''ppt'', ''rtf'', ''odt'', ''ods'', ''odp'', ''epub'',
     ''eml'', ''msg'', ''mbox'', ''xml'', ''rss'', ''ics'', ''vcf'']"

definition SPREADSHEET_TYPES :: "string list" where "SPREADSHEET_TYPES = [''xlsx'', ''xls'']"

definition TEXT_TYPES :: "string list" where "TEXT_TYPES = [''txt'', ''md'', ''html'', ''htm'']"

definition PROCESSABLE_TYPES :: "string list" where
  "PROCESSABLE_TYPES = TABULAR_TYPES @ DOCUMENT_TYPES @ SPREADSHEET_TYPES @ TEXT_TYPES"

definition SUPPORTED_EXTENSIONS :: "string list" where
  "SUPPORTED_EXTENSIONS = map (\<lambda>t. CHR ''.'' # t) PROCESSABLE_TYPES"

definition zip_magic :: string where "zip_magic = ''PK'' @ [CHR 0x03, CHR 0x04]"

definition ole_magic :: string where "ole_magic = [CHR 0xD0, CHR 0xCF, CHR 0x11, CHR 0xE0]"

definition MAGIC_SIGNATURES :: "(string \<times> string list) list" where
  "MAGIC_SIGNATURES =
     [(''.pdf'', [''%PDF'']), (''.xlsx'', [zip_magic]), (''.xls'', [ole_magic]), (''.docx'', [zip_magic]),
      (''.doc'', [ole_magic]), (''.pptx'', [zip_magic]), (''.ppt'', [ole_magic]), (''.parquet'', [''PAR1'']),
      (''.rtf'', [''{'' @ [CHR 0x5C] @ ''rtf'']), (''.epub'', [zip_magic]), (''.odt'', [zip_magic]),
      (''.ods'', [zip_magic]), (''.odp'', [zip_magic])]"

definition check_magic_bytes :: "string \<Rightarrow> string \<Rightarrow> bool" where
  "check_magic_bytes data extension =
     (case map_of MAGIC_SIGNATURES extension of
        None \<Rightarrow> True
      | Some sigs \<Rightarrow>
          (let check_data = (if extension = ''.rtf''
             then dropWhile (\<lambda>c. c \<in> {CHR 0xEF, CHR 0xBB, CHR 0xBF, CHR '' '', CHR 0x09, CHR 0x0D, CHR 0x0A}) data
             else data)
           in list_ex (\<lambda>s. starts_with s check_data) sigs))"

section \<open>Batches\<close>

definition MAX_FILES :: nat where "MAX_FILES = 10000"
definition MAX_TOTAL_BYTES :: int where "MAX_TOTAL_BYTES = 500 * 1024 * 1024 * 1024"

record upload =
  up_filename :: string
  up_size :: int
  up_header :: string

datatype error_code = Batch_limit | Unsupported_type | Mime_mismatch | Batch_size_limit

definition extension_of :: "upload \<Rightarrow> string" where
  "extension_of u = map ascii_lower (path_suffix (path_name (up_filename u)))"

definition type_error :: "upload \<Rightarrow> error_code option" where
  "type_error u =
     (if extension_of u \<notin> set SUPPORTED_EXTENSIONS then Some Unsupported_type
      else if \<not> check_magic_bytes (up_header u) (extension_of u) then Some Mime_mismatch
      else None)"

text \<open>The loop: the index of the next file, the running total, and the two lists it extends.\<close>

fun check_files :: "nat \<Rightarrow> int \<Rightarrow> upload list \<Rightarrow> nat list \<times> (nat \<times> string \<times> error_code) list" where
  "check_files i total_size [] = ([], [])"
| "check_files i total_size (u # us) =
     (case type_error u of
        Some e \<Rightarrow> apsnd (Cons (i, up_filename u, e)) (check_files (Suc i) total_size us)
      | None \<Rightarrow>
          if MAX_TOTAL_BYTES < total_size + up_size u
          then apsnd (Cons (i, up_filename u, Batch_size_limit)) (check_files (Suc i) (total_size + up_size u) us)
          else apfst (Cons i) (check_files (Suc i) (total_size + up_size u) us))"

text \<open>\<open>None\<close> is the exception for a list of paths of another length.\<close>

definition validate_batch :: "upload list \<Rightarrow> nat option \<Rightarrow> (nat list \<times> (nat \<times> string \<times> error_code) list) option" where
  "validate_batch us paths =
     (if paths \<noteq> None \<and> paths \<noteq> Some (length us) then None
      else Some (apsnd (\<lambda>rejected.
        map (\<lambda>i. (i, up_filename (us ! i), Batch_limit)) [MAX_FILES..<length us] @ rejected)
        (check_files 0 0 (take MAX_FILES us))))"

section \<open>Lemmas on names\<close>

lemma remove_dots_subset: "set (remove_dots s) \<subseteq> set s"
  by (induction s rule: remove_dots.induct) auto

text \<open>A run of dots loses them in pairs, so no two remain side by side.\<close>

lemma remove_dots_hd: "s \<noteq> [] \<Longrightarrow> hd s \<noteq> CHR ''.'' \<Longrightarrow> \<exists>t. remove_dots s = hd s # t"
  by (cases s rule: remove_dots.cases) auto

lemma contains_dots: "contains ''..'' (a # b # s) = (a = CHR ''.'' \<and> b = CHR ''.'' \<or> contains ''..'' (b # s))"
  by (auto simp: starts_with_def)

lemma contains_dots_short [simp]: "\<not> contains ''..'' []" "\<not> contains ''..'' [a]"
  by (simp_all add: starts_with_def)

lemma no_double_dots: "\<not> contains ''..'' (remove_dots s)"
proof (induction s rule: remove_dots.induct)
  case (1 a b s)
  show ?case
  proof (cases "a = CHR ''.'' \<and> b = CHR ''.''")
    case True
    then show ?thesis using 1 by simp
  next
    case False
    then have ih: "\<not> contains ''..'' (remove_dots (b # s))" and e: "remove_dots (a # b # s) = a # remove_dots (b # s)"
      using 1 by auto
    show ?thesis unfolding e
    proof (cases "remove_dots (b # s)")
      case Nil
      then show "\<not> contains ''..'' (a # remove_dots (b # s))" by (simp add: starts_with_def)
    next
      case (Cons c t)
      have "\<not> (a = CHR ''.'' \<and> c = CHR ''.'')"
      proof
        assume dots: "a = CHR ''.'' \<and> c = CHR ''.''"
        then have "b \<noteq> CHR ''.''" using False by simp
        then show False using remove_dots_hd [of "b # s"] dots Cons by auto
      qed
      then show "\<not> contains ''..'' (a # remove_dots (b # s))"
        using ih Cons by (simp add: contains_dots del: contains.simps)
    qed
  qed
qed (auto simp: starts_with_def)

lemma path_suffix_split: "path_stem n @ path_suffix n = n"
proof (cases "path_suffix n = []")
  case True
  then show ?thesis by (simp add: path_stem_def)
next
  case False
  let ?w = "takeWhile (\<lambda>c. c \<noteq> CHR ''.'') (rev n)"
  have w: "?w \<noteq> []" "length ?w + 1 < length n" "path_suffix n = CHR ''.'' # rev ?w"
    using False by (auto simp: path_suffix_def Let_def split: if_splits)
  let ?d = "dropWhile (\<lambda>c. c \<noteq> CHR ''.'') (rev n)"
  have r: "rev n = ?w @ ?d" by simp
  have "?d \<noteq> []"
  proof
    assume "?d = []"
    then have "length (rev n) = length ?w" using r by (metis append_Nil2)
    then show False using w(2) by simp
  qed
  then obtain t where d: "?d = CHR ''.'' # t" using hd_dropWhile [of "\<lambda>c. c \<noteq> CHR ''.''" "rev n"] by (cases ?d) auto
  have "rev n = ?w @ CHR ''.'' # t" using r unfolding d .
  then have n: "n = rev t @ path_suffix n" unfolding w(3) by (metis rev_append rev_rev_ident rev.simps(2) append_assoc append_Cons append_Nil)
  then have "path_stem n = rev t" unfolding path_stem_def by (metis append_eq_conv_conj length_append diff_add_inverse2)
  then show ?thesis using n by simp
qed

definition upper_codes :: "nat list" where "upper_codes = [65..<91]"

lemma ascii_lower_cases: "ascii_lower c = c \<or> (\<exists>n \<in> set upper_codes. c = char_of n \<and> ascii_lower c = char_of (n + 32))"
proof (cases "CHR ''A'' \<le> c \<and> c \<le> CHR ''Z''")
  case True
  then have "65 \<le> (of_char c :: nat)" "of_char c \<le> (90 :: nat)" by (simp_all add: less_eq_char_def)
  then have "(of_char c :: nat) \<in> set upper_codes" unfolding upper_codes_def set_upt atLeastLessThan_iff by linarith
  moreover have "c = char_of (of_char c :: nat)" by simp
  moreover have "ascii_lower c = char_of (of_char c + (32 :: nat))" using True by (simp add: ascii_lower_def)
  ultimately show ?thesis by metis
next
  case False
  then have "ascii_lower c = c" unfolding ascii_lower_def by meson
  then show ?thesis by simp
qed

lemma ascii_lower_safe: "unsafe_char (ascii_lower c) \<longleftrightarrow> unsafe_char c"
proof -
  have "list_all (\<lambda>n. \<not> unsafe_char (char_of n) \<and> \<not> unsafe_char (char_of (n + 32))) upper_codes" by code_simp
  then show ?thesis using ascii_lower_cases [of c] by (auto simp: list_all_iff)
qed

lemma split_parts: "p \<in> set (split_on c s) \<Longrightarrow> c \<notin> set p"
  by (induction s arbitrary: p) (auto split: if_splits list.splits)

lemma path_name_no_slash: "CHR ''/'' \<notin> set (path_name p)"
proof (cases "filter (\<lambda>c. c \<noteq> [] \<and> c \<noteq> ''.'') (split_on CHR ''/'' p)")
  case Nil
  then show ?thesis by (simp add: path_name_def)
next
  case (Cons c cs)
  then have "path_name p \<in> set (filter (\<lambda>c. c \<noteq> [] \<and> c \<noteq> ''.'') (split_on CHR ''/'' p))"
    unfolding path_name_def by (metis last_in_set list.case(2) list.distinct(1))
  then show ?thesis using split_parts by auto
qed

lemma lower_plain: "ascii_lower c \<in> {CHR ''_'', CHR ''.'', CHR '' ''} \<longleftrightarrow> c \<in> {CHR ''_'', CHR ''.'', CHR '' ''}"
proof -
  have "list_all (\<lambda>n. char_of n \<notin> {CHR ''_'', CHR ''.'', CHR '' ''} \<and>
      char_of (n + 32) \<notin> {CHR ''_'', CHR ''.'', CHR '' ''}) upper_codes" by code_simp
  then show ?thesis using ascii_lower_cases [of c] by (auto simp: list_all_iff)
qed

lemma py_prefix_subset: "set (py_prefix n s) \<subseteq> set s"
  by (auto simp: py_prefix_def dest: in_set_takeD)

lemma stem_suffix_subset: "set (path_stem n) \<subseteq> set n" "set (path_suffix n) \<subseteq> set n"
  using path_suffix_split [of n] by (metis Un_upper1 set_append, metis Un_upper2 set_append)

lemma truncate_safe: "\<forall>c \<in> set n. \<not> unsafe_char c \<Longrightarrow> c \<in> set (truncate_name n) \<Longrightarrow> \<not> unsafe_char c"
proof -
  assume n: "\<forall>c \<in> set n. \<not> unsafe_char c" and c: "c \<in> set (truncate_name n)"
  have "set (truncate_name n) \<subseteq> set (path_stem n) \<union> ascii_lower ` set (path_suffix n)"
    using py_prefix_subset [of _ "path_stem n"] by (auto simp: truncate_name_def Let_def)
  then have "c \<in> set n \<or> c \<in> ascii_lower ` set n" using c stem_suffix_subset [of n] by blast
  then show ?thesis using n by (auto simp: ascii_lower_safe)
qed

lemma length_stem_suffix: "length (path_stem n) + length (path_suffix n) = length n"
  using path_suffix_split [of n] by (metis length_append)

lemma truncate_length:
  "length (truncate_name n) \<le> MAX_FILENAME_LENGTH \<or> MAX_FILENAME_LENGTH < length (path_suffix n)"
  by (auto simp: truncate_name_def Let_def py_prefix_def)

lemma truncate_long: "length (truncate_name n) = length n \<or> MAX_FILENAME_LENGTH \<le> length (truncate_name n)"
  using length_stem_suffix [of n] by (auto simp: truncate_name_def Let_def py_prefix_def)

lemma truncate_same:
  "length (truncate_name n) < MAX_FILENAME_LENGTH \<Longrightarrow> truncate_name n = path_stem n @ map ascii_lower (path_suffix n)"
  using length_stem_suffix [of n] by (auto simp: truncate_name_def Let_def py_prefix_def split: if_splits)

text \<open>A name with a letter in it is not made of dots when its suffix is put in lower case.\<close>

lemma truncate_not_dots:
  assumes "\<exists>c \<in> set n. c \<notin> {CHR ''_'', CHR ''.'', CHR '' ''}"
  shows "truncate_name n \<notin> {[], ''.'', ''..''}"
proof
  assume a: "truncate_name n \<in> {[], ''.'', ''..''}"
  then have "length (truncate_name n) < MAX_FILENAME_LENGTH" by (auto simp: MAX_FILENAME_LENGTH_def)
  then have t: "truncate_name n = path_stem n @ map ascii_lower (path_suffix n)" by (rule truncate_same)
  obtain c where c: "c \<in> set (path_stem n @ path_suffix n)" "c \<notin> {CHR ''_'', CHR ''.'', CHR '' ''}"
    using assms path_suffix_split [of n] by auto
  then obtain d where "d \<in> set (truncate_name n)" "d \<notin> {CHR ''_'', CHR ''.'', CHR '' ''}"
    using lower_plain unfolding t by fastforce
  then show False using a by auto
qed

lemma strip_subset: "set (strip s) \<subseteq> set s"
  by (auto simp: strip_def dest!: set_dropWhileD)

section \<open>Properties of names\<close>

text \<open>Also: whatever name an upload is given, its storage name is not empty, is neither the current nor
  the parent directory, and has none of the characters that could leave the upload directory or a quoted
  literal.\<close>

theorem sanitized_name_safe:
  "sanitize_filename s \<notin> {[], ''.'', ''..''} \<and> list_all (\<lambda>c. \<not> unsafe_char c) (sanitize_filename s)"
proof -
  define safe where "safe = remove_dots (map (\<lambda>c. if unsafe_char c then CHR ''_'' else c) (path_name s))"
  have u: "''_unnamed'' \<notin> {[], ''.'', ''..''} \<and> list_all (\<lambda>c. \<not> unsafe_char c) ''_unnamed''" by code_simp
  have c: "\<forall>c \<in> set safe. \<not> unsafe_char c"
  proof
    fix c assume "c \<in> set safe"
    then have "c \<in> set (map (\<lambda>c. if unsafe_char c then CHR ''_'' else c) (path_name s))"
      using remove_dots_subset unfolding safe_def by blast
    moreover have "\<not> unsafe_char CHR ''_''" by code_simp
    ultimately show "\<not> unsafe_char c" by auto
  qed
  show ?thesis
  proof (cases "strip s = [] \<or> strip (path_name s) = [] \<or> strip safe = [] \<or>
      (\<forall>c \<in> set (strip safe). c \<in> {CHR ''_'', CHR ''.'', CHR '' ''})")
    case True
    then have "sanitize_filename s = ''_unnamed''" unfolding sanitize_filename_def safe_def Let_def by meson
    then show ?thesis using u by metis
  next
    case False
    then have t: "sanitize_filename s = truncate_name safe" unfolding sanitize_filename_def safe_def Let_def by meson
    have "\<exists>c \<in> set safe. c \<notin> {CHR ''_'', CHR ''.'', CHR '' ''}" using False strip_subset [of safe] by blast
    then show ?thesis using truncate_not_dots [of safe] truncate_safe [OF c] unfolding t by (metis Ball_set)
  qed
qed

text \<open>The limit of 200 characters holds unless the suffix alone is longer.\<close>

lemma long_suffix_beats_limit:
  "length (sanitize_filename (''a.'' @ replicate 249 CHR ''x'')) = 250"
  by code_simp

section \<open>Batches are partitioned\<close>

lemma check_files_index:
  "i \<in> set (fst (check_files k t us)) \<Longrightarrow> k \<le> i \<and> i < k + length us"
  "x \<in> set (snd (check_files k t us)) \<Longrightarrow> k \<le> fst x \<and> fst x < k + length us"
  by (induction k t us rule: check_files.induct) (auto split: option.splits if_splits)

lemma check_files_partition:
  "mset (fst (check_files k t us)) + mset (map fst (snd (check_files k t us))) = mset [k..<k + length us]"
proof (induction k t us rule: check_files.induct)
  case (2 i t u us)
  have "mset [i..<i + length (u # us)] = add_mset i (mset [Suc i..<Suc i + length us])"
    using upt_conv_Cons [of i "i + length (u # us)"] by (simp del: mset_upt upt_Suc)
  then show ?case using 2 by (auto simp del: mset_upt split: option.splits)
qed simp

lemma check_files_accepts:
  "i \<in> set (fst (check_files k t us)) \<Longrightarrow> type_error (us ! (i - k)) = None"
proof (induction k t us rule: check_files.induct)
  case (2 k t u us)
  show ?case
  proof (cases "i = k")
    case True
    have "type_error u = None"
    proof (rule ccontr)
      assume "type_error u \<noteq> None"
      then have "k \<in> set (fst (check_files (Suc k) t us))" using 2 True by (auto split: option.splits)
      then show False using check_files_index(1) by fastforce
    qed
    then show ?thesis using True by simp
  next
    case False
    have "\<exists>t'. i \<in> set (fst (check_files (Suc k) t' us)) \<and> type_error (us ! (i - Suc k)) = None"
      using 2 False by (auto split: option.splits if_splits)
    then have "k < i" "type_error (us ! (i - Suc k)) = None" using check_files_index(1) by fastforce+
    then show ?thesis by (simp add: nth_Cons')
  qed
qed simp

lemma check_files_budget:
  assumes "\<forall>u \<in> set us. 0 \<le> up_size u" "0 \<le> t"
  shows "t \<le> MAX_TOTAL_BYTES \<Longrightarrow>
    t + sum_list (map (\<lambda>i. up_size (us ! (i - k))) (fst (check_files k t us))) \<le> MAX_TOTAL_BYTES"
    and "MAX_TOTAL_BYTES < t \<Longrightarrow> fst (check_files k t us) = []"
proof -
  have "(t \<le> MAX_TOTAL_BYTES \<longrightarrow>
      t + sum_list (map (\<lambda>i. up_size (us ! (i - k))) (fst (check_files k t us))) \<le> MAX_TOTAL_BYTES) \<and>
    (MAX_TOTAL_BYTES < t \<longrightarrow> fst (check_files k t us) = [])"
    using assms
  proof (induction us arbitrary: k t)
    case (Cons u us)
    have shift: "map (\<lambda>i. up_size ((u # us) ! (i - k))) (fst (check_files (Suc k) t' us)) =
        map (\<lambda>i. up_size (us ! (i - Suc k))) (fst (check_files (Suc k) t' us))" for t'
      by (rule map_cong [OF refl]) (metis check_files_index(1) Suc_diff_Suc Suc_le_lessD nth_Cons_Suc)
    have pos: "0 \<le> up_size u" "\<forall>u \<in> set us. 0 \<le> up_size u" "0 \<le> t" "0 \<le> t + up_size u" using Cons.prems by auto
    note ih = Cons.IH [OF pos(2) pos(3)] and ih' = Cons.IH [OF pos(2) pos(4)]
    show ?case
    proof (cases "type_error u")
      case None
      show ?thesis
      proof (cases "MAX_TOTAL_BYTES < t + up_size u")
        case True
        then show ?thesis using None ih' [of "Suc k"] by (simp add: shift)
      next
        case False
        then show ?thesis using None ih' [of "Suc k"] pos by (simp add: shift add.assoc)
      qed
    next
      case (Some e)
      then show ?thesis using ih [of "Suc k"] by (simp add: shift)
    qed
  qed simp
  then show "t \<le> MAX_TOTAL_BYTES \<Longrightarrow>
    t + sum_list (map (\<lambda>i. up_size (us ! (i - k))) (fst (check_files k t us))) \<le> MAX_TOTAL_BYTES"
    and "MAX_TOTAL_BYTES < t \<Longrightarrow> fst (check_files k t us) = []" by simp_all
qed

text \<open>Also: the validation of a batch decides every file once: the accepted and the rejected indices
  together are the indices of the batch. Accepted files are among the first 10,000, have a supported
  extension and matching magic bytes, and together are within the limit of bytes.\<close>

theorem batch_partitioned:
  assumes "validate_batch us paths = Some (accepted, rejected)" and "\<forall>u \<in> set us. 0 \<le> up_size u"
  shows "mset accepted + mset (map fst rejected) = mset [0..<length us] \<and>
    (\<forall>i \<in> set accepted. i < MAX_FILES \<and> type_error (us ! i) = None) \<and>
    sum_list (map (\<lambda>i. up_size (us ! i)) accepted) \<le> MAX_TOTAL_BYTES"
proof -
  let ?us = "take MAX_FILES us"
  have a: "accepted = fst (check_files 0 0 ?us)"
    and r: "rejected = map (\<lambda>i. (i, up_filename (us ! i), Batch_limit)) [MAX_FILES..<length us] @ snd (check_files 0 0 ?us)"
    using assms(1) by (auto simp: validate_batch_def apsnd_def map_prod_def split: if_splits prod.splits)
  have "mset (map fst (map (\<lambda>i. (i, up_filename (us ! i), Batch_limit)) [MAX_FILES..<length us])) = mset [MAX_FILES..<length us]"
    by (simp add: comp_def)
  moreover have "mset [0..<length ?us] + mset [MAX_FILES..<length us] = mset [0..<length us]"
  proof (cases "MAX_FILES \<le> length us")
    case True
    then have "[0..<length us] = [0..<MAX_FILES] @ [MAX_FILES..<length us]" by (metis le0 le_Suc_ex upt_add_eq_append)
    then show ?thesis using True by (simp add: min_absorb2 del: mset_upt)
  qed simp
  ultimately have 1: "mset accepted + mset (map fst rejected) = mset [0..<length us]"
    using check_files_partition [of 0 0 ?us] unfolding a r by (simp add: ac_simps del: mset_upt)
  have i: "i < MAX_FILES \<and> i < length us" if "i \<in> set accepted" for i
    using check_files_index(1) [of i 0 0 ?us] that unfolding a by simp
  have 2: "type_error (us ! i) = None" if "i \<in> set accepted" for i
    using check_files_accepts [of i 0 0 ?us] that i [OF that] unfolding a by simp
  have m: "map (\<lambda>i. up_size (us ! i)) accepted = map (\<lambda>i. up_size (?us ! (i - 0))) accepted"
    using i by (intro map_cong) auto
  have "\<forall>u \<in> set ?us. 0 \<le> up_size u" using assms(2) by (meson in_set_takeD)
  then have 3: "sum_list (map (\<lambda>i. up_size (us ! i)) accepted) \<le> MAX_TOTAL_BYTES"
    using check_files_budget(1) [of ?us 0 0] unfolding m unfolding a by (simp add: MAX_TOTAL_BYTES_def)
  show ?thesis using 1 2 3 i by blast
qed

text \<open>A file that does not fit stays in the running total: nothing after it is accepted, however small.\<close>

lemma oversize_blocks_the_rest:
  assumes "type_error u = None" "MAX_TOTAL_BYTES < t + up_size u" "0 \<le> t" "0 \<le> up_size u"
    "\<forall>v \<in> set us. 0 \<le> up_size v"
  shows "fst (check_files k t (u # us)) = []"
  using assms check_files_budget(2) [of us "t + up_size u" "Suc k"] by simp

definition sample_batch :: "upload list" where
  "sample_batch = [\<lparr>up_filename = ''a.csv'', up_size = 10, up_header = ''x,y''\<rparr>,
     \<lparr>up_filename = ''b.pdf'', up_size = 5, up_header = ''GIF8''\<rparr>]"

theorem batch_partitioned_witness:
  "validate_batch sample_batch None = Some ([0], [(1, ''b.pdf'', Mime_mismatch)]) \<and>
   mset [0::nat] + mset [1] = mset [0..<length sample_batch]"
proof -
  have v: "validate_batch sample_batch None = Some ([0], [(1, ''b.pdf'', Mime_mismatch)])"
    unfolding validate_batch_def sample_batch_def MAX_FILES_def
    by (simp add: type_error_def extension_of_def upload.defs) code_simp
  show ?thesis using v batch_partitioned [OF v] by (simp add: sample_batch_def)
qed

end
