(* ===== verification/Dataset_Records.thy ===== *)
theory Dataset_Records
  imports Uploads
begin

text \<open>
  The catalog of datasets, \<open>app/services/processing_service.py\<close> (records and their table) with the
  batch operations of \<open>app/services/batch_service.py\<close> and the confirm and delete endpoints of
  \<open>app/routers/datasets.py\<close>. A record in memory is a copy of its row that is written back as a whole.
  A JSON column holds the value, or nothing when its text cannot be parsed; of the disk only file sizes
  matter.
\<close>

section \<open>Statuses\<close>

datatype dataset_status = UPLOADED | EXTRACTING | PREVIEW_READY | CANCELLED | ERROR

definition status_value :: "dataset_status \<Rightarrow> string" where
  "status_value s = (case s of UPLOADED \<Rightarrow> ''uploaded'' | EXTRACTING \<Rightarrow> ''extracting''
     | PREVIEW_READY \<Rightarrow> ''preview_ready'' | CANCELLED \<Rightarrow> ''cancelled'' | ERROR \<Rightarrow> ''error'')"

text \<open>The names of older versions, then the enumeration; anything else is an error.\<close>

definition of_status :: "string \<Rightarrow> dataset_status" where
  "of_status v =
     (if v = ''uploading'' then UPLOADED else if v = ''processing'' then EXTRACTING
      else if v = ''failed'' then ERROR
      else (case find (\<lambda>s. status_value s = v) [UPLOADED, EXTRACTING, PREVIEW_READY, CANCELLED, ERROR] of
              Some s \<Rightarrow> s | None \<Rightarrow> ERROR))"

lemma of_status_value [simp]: "of_status (status_value s) = s"
  by (cases s) (simp_all add: of_status_def status_value_def)

section \<open>Rows and records\<close>

record dataset_row =
  db_id :: string
  db_original_filename :: string
  db_storage_filename :: string
  db_file_type :: string
  db_file_size_bytes :: int
  db_status :: string
  db_processed_path :: "string option"
  db_metadata :: "dict option"
  db_created_at :: time
  db_updated_at :: time
  db_batch_id :: "string option"
  db_relative_path :: "string option"
  db_preview_text :: "string option"
  db_preview_metadata :: "json option"
  db_confirmed_at :: "time option"
  db_confirmed_by :: "string option"
  db_listing_id :: "string option"

record dataset_rec =
  rec_id :: string
  rec_original_filename :: string
  rec_file_type :: string
  rec_status :: dataset_status
  rec_error :: json
  rec_created_at :: time
  rec_updated_at :: time
  rec_upload_name :: "string option"
  rec_processed_path :: "string option"
  rec_metadata :: dict
  rec_document :: json
  rec_batch_id :: "string option"
  rec_relative_path :: "string option"
  rec_preview_text :: "string option"
  rec_preview_metadata :: "json option"
  rec_confirmed_at :: "time option"
  rec_confirmed_by :: "string option"
  rec_file_size_bytes :: int
  rec_listing_id :: "string option"

text \<open>\<open>rec_upload_name\<close> is the file's name in the upload directory; the two JSON attributes are null
  when the attribute is \<open>None\<close>.\<close>

type_synonym dataset_table = "dataset_row list"

type_synonym uploads_on_disk = "string \<Rightarrow> int option"

definition db_to_record :: "dataset_row \<Rightarrow> dataset_rec" where
  "db_to_record r =
     (let m = (case db_metadata r of None \<Rightarrow> [] | Some d \<Rightarrow> d) in
      \<lparr>rec_id = db_id r, rec_original_filename = db_original_filename r, rec_file_type = db_file_type r,
       rec_status = of_status (db_status r), rec_error = dict_get m ''error'' JNull,
       rec_created_at = db_created_at r, rec_updated_at = db_updated_at r,
       rec_upload_name = (if db_storage_filename r \<noteq> [] \<and> db_storage_filename r \<noteq> ''__migration_marker__''
          then Some (db_storage_filename r) else None),
       rec_processed_path = (if truthy (db_processed_path r) then db_processed_path r else None),
       rec_metadata = AList.delete ''error'' (AList.delete ''document_content'' m),
       rec_document = dict_get m ''document_content'' JNull,
       rec_batch_id = db_batch_id r, rec_relative_path = db_relative_path r,
       rec_preview_text = db_preview_text r, rec_preview_metadata = db_preview_metadata r,
       rec_confirmed_at = db_confirmed_at r, rec_confirmed_by = db_confirmed_by r,
       rec_file_size_bytes = db_file_size_bytes r, rec_listing_id = db_listing_id r\<rparr>)"

text \<open>The metadata that is stored: the record's, with the document and the error put in.\<close>

definition stored_metadata :: "dataset_rec \<Rightarrow> dict" where
  "stored_metadata r =
     (let m = (if truthy_json (rec_document r) then AList.update ''document_content'' (rec_document r) (rec_metadata r)
               else rec_metadata r)
      in if truthy_json (rec_error r) then AList.update ''error'' (rec_error r) m else m)"

definition stored_preview :: "dataset_rec \<Rightarrow> json option" where
  "stored_preview r = (case rec_preview_metadata r of None \<Rightarrow> None | Some j \<Rightarrow> if truthy_json j then Some j else None)"

definition size_on_disk :: "uploads_on_disk \<Rightarrow> dataset_rec \<Rightarrow> int option" where
  "size_on_disk disk r = Option.bind (rec_upload_name r) disk"

definition record_to_db :: "uploads_on_disk \<Rightarrow> dataset_rec \<Rightarrow> string \<Rightarrow> dataset_row" where
  "record_to_db disk r storage_filename =
     \<lparr>db_id = rec_id r, db_original_filename = rec_original_filename r, db_storage_filename = storage_filename,
      db_file_type = rec_file_type r,
      db_file_size_bytes = (if rec_file_size_bytes r \<noteq> 0 then rec_file_size_bytes r
         else case size_on_disk disk r of Some n \<Rightarrow> n | None \<Rightarrow> 0),
      db_status = status_value (rec_status r), db_processed_path = rec_processed_path r,
      db_metadata = Some (stored_metadata r), db_created_at = rec_created_at r, db_updated_at = rec_updated_at r,
      db_batch_id = rec_batch_id r, db_relative_path = rec_relative_path r, db_preview_text = rec_preview_text r,
      db_preview_metadata = stored_preview r, db_confirmed_at = rec_confirmed_at r,
      db_confirmed_by = rec_confirmed_by r, db_listing_id = rec_listing_id r\<rparr>"

text \<open>The update of a row that exists keeps its creation time, and takes the size from the disk.\<close>

definition overwrite :: "uploads_on_disk \<Rightarrow> dataset_rec \<Rightarrow> string \<Rightarrow> time \<Rightarrow> dataset_row \<Rightarrow> dataset_row" where
  "overwrite disk r storage_filename now row =
     row\<lparr>db_original_filename := rec_original_filename r, db_storage_filename := storage_filename,
       db_file_type := rec_file_type r, db_status := status_value (rec_status r),
       db_processed_path := rec_processed_path r, db_metadata := Some (stored_metadata r), db_updated_at := now,
       db_file_size_bytes := (case size_on_disk disk r of Some n \<Rightarrow> n | None \<Rightarrow> db_file_size_bytes row),
       db_batch_id := rec_batch_id r, db_relative_path := rec_relative_path r,
       db_preview_text := rec_preview_text r, db_preview_metadata := stored_preview r,
       db_confirmed_at := rec_confirmed_at r, db_confirmed_by := rec_confirmed_by r,
       db_listing_id := rec_listing_id r\<rparr>"

definition row_of :: "string \<Rightarrow> dataset_table \<Rightarrow> dataset_row option" where
  "row_of i t = find (\<lambda>r. db_id r = i) t"

definition save_record :: "uploads_on_disk \<Rightarrow> dataset_rec \<Rightarrow> string \<Rightarrow> time \<Rightarrow> dataset_table \<Rightarrow> dataset_table" where
  "save_record disk r storage_filename now t =
     (if row_of (rec_id r) t \<noteq> None
      then update_where (\<lambda>q. db_id q = rec_id r) (overwrite disk r storage_filename now) t
      else t @ [record_to_db disk r storage_filename])"

text \<open>\<open>rec.upload_path.name if rec.upload_path else rec.id\<close>\<close>

definition storage_name :: "dataset_rec \<Rightarrow> string" where
  "storage_name r = (case rec_upload_name r of Some n \<Rightarrow> n | None \<Rightarrow> rec_id r)"

section \<open>Catalog operations\<close>

definition get_dataset :: "string \<Rightarrow> dataset_table \<Rightarrow> dataset_rec option" where
  "get_dataset i t =
     (case row_of i t of None \<Rightarrow> None | Some r \<Rightarrow> if db_id r = ''__migrated__'' then None else Some (db_to_record r))"

definition new_record :: "string \<Rightarrow> string \<Rightarrow> string \<Rightarrow> time \<Rightarrow> dataset_rec" where
  "new_record i filename file_type now =
     \<lparr>rec_id = i, rec_original_filename = filename, rec_file_type = file_type, rec_status = UPLOADED,
      rec_error = JNull, rec_created_at = now, rec_updated_at = now, rec_upload_name = None,
      rec_processed_path = None, rec_metadata = [], rec_document = JNull, rec_batch_id = None,
      rec_relative_path = None, rec_preview_text = None, rec_preview_metadata = None,
      rec_confirmed_at = None, rec_confirmed_by = None, rec_file_size_bytes = 0, rec_listing_id = None\<rparr>"

text \<open>The sanitised name is one path component, so the path stays inside the upload directory; the
  code's check of that raises when it does not.\<close>

definition create_dataset ::
  "uploads_on_disk \<Rightarrow> string \<Rightarrow> string \<Rightarrow> string \<Rightarrow> time \<Rightarrow> dataset_table \<Rightarrow> dataset_rec option \<times> dataset_table" where
  "create_dataset disk i filename file_type now t =
     (let safe = i @ ''_'' @ sanitize_filename filename
      in if CHR ''/'' \<in> set safe then (None, t)
         else
           (let r = (new_record i filename file_type now)
                      \<lparr>rec_upload_name := Some safe, rec_metadata := [(''original_filename'', JStr filename)]\<rparr>
            in (Some r, save_record disk r safe now t)))"

definition list_datasets :: "dataset_table \<Rightarrow> dataset_rec list" where
  "list_datasets t =
     map db_to_record (sort_key (\<lambda>r. - db_created_at r)
       (filter (\<lambda>r. db_id r \<noteq> ''__migrated__'' \<and> db_status r \<noteq> ''deleted'') t))"

definition find_by_filename :: "string \<Rightarrow> dataset_table \<Rightarrow> dataset_rec option" where
  "find_by_filename name t =
     (case sort_key (\<lambda>r. - db_created_at r)
             (filter (\<lambda>r. db_original_filename r = name \<and> db_id r \<noteq> ''__migrated__'' \<and> db_status r \<noteq> ''deleted'') t) of
        [] \<Rightarrow> None | r # _ \<Rightarrow> Some (db_to_record r))"

text \<open>The row; the files that are removed with it are not part of the table.\<close>

definition delete_dataset :: "string \<Rightarrow> dataset_table \<Rightarrow> bool \<times> dataset_table" where
  "delete_dataset i t =
     (if get_dataset i t = None then (False, t) else (True, filter (\<lambda>r. db_id r \<noteq> i) t))"

definition is_cancelled :: "string \<Rightarrow> dataset_table \<Rightarrow> bool" where
  "is_cancelled i t = (case row_of i t of None \<Rightarrow> False | Some r \<Rightarrow> db_status r = ''cancelled'')"

definition set_status :: "string \<Rightarrow> dataset_status \<Rightarrow> time \<Rightarrow> dataset_table \<Rightarrow> dataset_table" where
  "set_status i s now t = update_where (\<lambda>r. db_id r = i) (\<lambda>r. r\<lparr>db_status := status_value s, db_updated_at := now\<rparr>) t"

definition MAX_PROCESSING_ATTEMPTS :: int where "MAX_PROCESSING_ATTEMPTS = 3"

text \<open>\<open>meta.get("processing_attempts", 0) + 1\<close>; the code only ever stores integers there.\<close>

definition attempts_of :: "dict \<Rightarrow> int" where
  "attempts_of m = (case dict_get m ''processing_attempts'' (JInt 0) of JInt n \<Rightarrow> n | _ \<Rightarrow> 0)"

definition recover_row :: "time \<Rightarrow> dataset_row \<Rightarrow> dataset_row" where
  "recover_row now r =
     (let m = (case db_metadata r of None \<Rightarrow> [] | Some d \<Rightarrow> d); n = attempts_of m + 1;
          m1 = AList.update ''processing_attempts'' (JInt n) m
      in if MAX_PROCESSING_ATTEMPTS \<le> n
         then r\<lparr>db_status := ''error'', db_updated_at := now,
                db_metadata := Some (AList.update ''error_permanent'' (JBool True)
                  (AList.update ''error'' (JStr (''Failed after '' @ show_int n @ '' attempts (likely OOM for large file)'')) m1))\<rparr>
         else r\<lparr>db_status := ''uploaded'', db_updated_at := now, db_metadata := Some m1\<rparr>)"

text \<open>\<open>None\<close>: the metadata of a stuck row cannot be parsed, and nothing is committed.\<close>

definition recover_stuck_records :: "time \<Rightarrow> dataset_table \<Rightarrow> (nat \<times> dataset_table) option" where
  "recover_stuck_records now t =
     (if list_ex (\<lambda>r. db_status r = ''extracting'' \<and> db_metadata r = None) t then None
      else Some (rowcount (\<lambda>r. db_status r = ''extracting'') t,
        update_where (\<lambda>r. db_status r = ''extracting'') (recover_row now) t))"

section \<open>Batches, confirmation and deletion\<close>

definition create_dataset_record ::
  "uploads_on_disk \<Rightarrow> string \<Rightarrow> string \<Rightarrow> string \<Rightarrow> int \<Rightarrow> string \<Rightarrow> string option \<Rightarrow> time \<Rightarrow> dataset_table
     \<Rightarrow> dataset_rec option \<times> dataset_table" where
  "create_dataset_record disk i filename file_type file_size batch_id relative_path now t =
     (case create_dataset disk i filename file_type now t of
        (None, t') \<Rightarrow> (None, t')
      | (Some r, t') \<Rightarrow>
          (let q = r\<lparr>rec_batch_id := Some batch_id,
                     rec_relative_path := (if truthy relative_path then relative_path else Some filename),
                     rec_file_size_bytes := file_size\<rparr>
           in (Some q, save_record disk q (storage_name q) now t')))"

record batch_status =
  bs_total :: nat
  bs_by_status :: "(string \<times> nat) list"
  bs_items :: "(string \<times> string \<times> string \<times> int) list"

definition get_batch_status :: "string \<Rightarrow> dataset_table \<Rightarrow> batch_status option" where
  "get_batch_status batch_id t =
     (let rows = sort_key db_created_at (filter (\<lambda>r. db_batch_id r = Some batch_id) t)
      in if rows = [] then None
         else Some \<lparr>bs_total = length rows,
           bs_by_status = map (\<lambda>s. (s, rowcount (\<lambda>r. db_status r = s) rows)) (remdups (map db_status rows)),
           bs_items = map (\<lambda>r. (db_id r, db_original_filename r, db_status r, db_file_size_bytes r)) rows\<rparr>)"

definition confirmable :: "dataset_row \<Rightarrow> bool" where
  "confirmable r \<longleftrightarrow> db_status r \<in> {''preview_ready'', ''uploaded'', ''extracting''}"

definition stamp :: "string \<Rightarrow> time \<Rightarrow> dataset_row \<Rightarrow> dataset_row" where
  "stamp user now r = r\<lparr>db_confirmed_at := Some now, db_confirmed_by := Some user, db_updated_at := now\<rparr>"

record confirm_counts =
  cc_confirmed :: nat
  cc_pending_confirm :: nat
  cc_already :: nat
  cc_skipped_error :: nat

definition confirm_batch :: "string \<Rightarrow> string \<Rightarrow> time \<Rightarrow> dataset_table \<Rightarrow> confirm_counts \<times> dataset_table" where
  "confirm_batch batch_id user now t =
     (let rows = filter (\<lambda>r. db_batch_id r = Some batch_id) t
      in (\<lparr>cc_confirmed = rowcount (\<lambda>r. db_status r = ''preview_ready'') rows,
           cc_pending_confirm = rowcount (\<lambda>r. db_status r \<in> {''uploaded'', ''extracting''}) rows,
           cc_already = rowcount (\<lambda>r. db_status r = ''cancelled'') rows,
           cc_skipped_error = rowcount (\<lambda>r. db_status r = ''error'') rows\<rparr>,
          update_where (\<lambda>r. db_batch_id r = Some batch_id \<and> confirmable r) (stamp user now) t))"

definition batch_belongs_to_user :: "string \<Rightarrow> string \<Rightarrow> dataset_table \<Rightarrow> bool" where
  "batch_belongs_to_user batch_id user t = list_ex (\<lambda>r. db_batch_id r = Some batch_id) t"

text \<open>Status code and table of the two endpoints.\<close>

definition confirm_dataset :: "string \<Rightarrow> string \<Rightarrow> time \<Rightarrow> dataset_table \<Rightarrow> int \<times> dataset_table" where
  "confirm_dataset i user now t =
     (case get_dataset i t of
        None \<Rightarrow> (404, t)
      | Some r \<Rightarrow>
          if rec_status r = CANCELLED then (404, t)
          else if rec_status r = PREVIEW_READY
          then (200, update_where (\<lambda>q. db_id q = i) (\<lambda>q. q\<lparr>db_confirmed_at := Some now, db_confirmed_by := Some user\<rparr>) t)
          else (409, t))"

definition delete_endpoint :: "string \<Rightarrow> time \<Rightarrow> dataset_table \<Rightarrow> int \<times> dataset_table" where
  "delete_endpoint i now t =
     (case get_dataset i t of
        None \<Rightarrow> (404, t)
      | Some r \<Rightarrow>
          (let t1 = (if rec_status r \<in> {UPLOADED, EXTRACTING, PREVIEW_READY} then set_status i CANCELLED now t else t)
           in case delete_dataset i t1 of (True, t2) \<Rightarrow> (200, t2) | (False, t2) \<Rightarrow> (500, t2)))"

section \<open>Lemmas\<close>

lemma row_of_in: "row_of i t = Some r \<Longrightarrow> r \<in> set t \<and> db_id r = i"
  by (auto simp: row_of_def find_Some_iff)

lemma row_of_None: "row_of i t = None \<longleftrightarrow> i \<notin> db_id ` set t"
  by (auto simp: row_of_def find_None_iff)

lemma row_of_append:
  "row_of i (t @ [r]) = (case row_of i t of Some q \<Rightarrow> Some q | None \<Rightarrow> if db_id r = i then Some r else None)"
  by (induction t) (auto simp: row_of_def)

lemma row_of_update:
  assumes "\<And>r. p r \<Longrightarrow> db_id (f r) = db_id r"
  shows "row_of i (update_where p f t) = map_option (\<lambda>r. if p r then f r else r) (row_of i t)"
  using assms by (induction t) (auto simp: row_of_def)

lemma row_of_delete: "row_of i (filter (\<lambda>r. db_id r \<noteq> j) t) = (if i = j then None else row_of i t)"
  by (induction t) (auto simp: row_of_def)

lemma saved_ids [simp]: "db_id (overwrite disk r st now q) = db_id q" "db_id (record_to_db disk r st) = rec_id r"
  "db_id (stamp user now q) = db_id q" "db_id (recover_row now q) = db_id q"
  by (simp_all add: overwrite_def record_to_db_def stamp_def recover_row_def Let_def)

lemma row_of_save:
  "row_of i (save_record disk r st now t) =
     (if i = rec_id r
      then Some (case row_of i t of Some q \<Rightarrow> overwrite disk r st now q | None \<Rightarrow> record_to_db disk r st)
      else row_of i t)"
proof (cases "row_of (rec_id r) t")
  case None
  then show ?thesis by (auto simp: save_record_def row_of_append split: option.splits)
next
  case (Some q)
  then have "db_id q = rec_id r" using row_of_in by blast
  have "row_of i (update_where (\<lambda>q. db_id q = rec_id r) (overwrite disk r st now) t) =
      map_option (\<lambda>q. if db_id q = rec_id r then overwrite disk r st now q else q) (row_of i t)"
    by (rule row_of_update) simp
  then show ?thesis using Some row_of_in [of i t]
    by (cases "row_of i t") (auto simp: save_record_def)
qed

lemma save_status:
  "row_of (rec_id r) (save_record disk r st now t) = Some q \<Longrightarrow> db_status q = status_value (rec_status r)"
  by (auto simp: row_of_save overwrite_def record_to_db_def split: option.splits)

section \<open>Properties\<close>

lemma update_new_key: "k \<notin> fst ` set m \<Longrightarrow> AList.update k v m = m @ [(k, v)]"
  by (induction m) auto

lemma delete_new_key: "k \<notin> fst ` set m \<Longrightarrow> AList.delete k m = m"
  by (induction m) auto

lemma delete_append [simp]: "AList.delete k (xs @ ys) = AList.delete k xs @ AList.delete k ys"
  by (simp add: AList.delete_eq)

text \<open>A record whose metadata leaves the two reserved keys free and whose optional parts are either
  absent or not empty.\<close>

definition rec_ok :: "dataset_rec \<Rightarrow> bool" where
  "rec_ok r \<longleftrightarrow>
     rec_id r \<noteq> ''__migrated__'' \<and>
     ''error'' \<notin> fst ` set (rec_metadata r) \<and> ''document_content'' \<notin> fst ` set (rec_metadata r) \<and>
     (rec_error r = JNull \<or> truthy_json (rec_error r)) \<and> (rec_document r = JNull \<or> truthy_json (rec_document r)) \<and>
     rec_processed_path r \<noteq> Some [] \<and> rec_upload_name r \<notin> {None, Some [], Some ''__migration_marker__''} \<and>
     (case rec_preview_metadata r of None \<Rightarrow> True | Some j \<Rightarrow> truthy_json j)"

lemma stored_metadata_read:
  assumes "rec_ok r"
  shows "AList.delete ''error'' (AList.delete ''document_content'' (stored_metadata r)) = rec_metadata r"
    and "dict_get (stored_metadata r) ''error'' JNull = rec_error r"
    and "dict_get (stored_metadata r) ''document_content'' JNull = rec_document r"
proof -
  let ?m = "rec_metadata r"
  have k: "''error'' \<notin> fst ` set ?m" "''document_content'' \<notin> fst ` set ?m" using assms by (auto simp: rec_ok_def)
  have m: "stored_metadata r = ?m @ (if truthy_json (rec_document r) then [(''document_content'', rec_document r)] else [])
      @ (if truthy_json (rec_error r) then [(''error'', rec_error r)] else [])"
    using k by (auto simp: stored_metadata_def Let_def update_new_key)
  have n: "map_of ?m ''error'' = None" "map_of ?m ''document_content'' = None" using k by (auto simp: map_of_eq_None_iff)
  have j: "rec_error r = JNull \<or> truthy_json (rec_error r)" "rec_document r = JNull \<or> truthy_json (rec_document r)"
    using assms by (auto simp: rec_ok_def)
  show "AList.delete ''error'' (AList.delete ''document_content'' (stored_metadata r)) = ?m"
    unfolding m using k by (simp add: delete_new_key)
  show "dict_get (stored_metadata r) ''error'' JNull = rec_error r"
    unfolding m using n j by (auto simp: dict_get_def map_add_def)
  show "dict_get (stored_metadata r) ''document_content'' JNull = rec_document r"
    unfolding m using n j by (auto simp: dict_get_def map_add_def)
qed

text \<open>Also: a saved record is read back as it was, its error and document through the metadata column,
  except for the clock and size columns: an existing row keeps its creation time, is stamped now, and takes
  the size of the file on disk.\<close>

theorem saved_record_read_back:
  assumes "rec_ok r"
  shows "\<exists>created updated bytes.
    get_dataset (rec_id r) (save_record disk r (storage_name r) now t)
      = Some (r\<lparr>rec_created_at := created, rec_updated_at := updated, rec_file_size_bytes := bytes\<rparr>) \<and>
    (rec_id r \<notin> db_id ` set t \<and> rec_file_size_bytes r \<noteq> 0 \<longrightarrow>
      created = rec_created_at r \<and> updated = rec_updated_at r \<and> bytes = rec_file_size_bytes r)"
proof -
  obtain q where q: "row_of (rec_id r) (save_record disk r (storage_name r) now t) = Some q"
    and e: "q = (case row_of (rec_id r) t of Some q \<Rightarrow> overwrite disk r (storage_name r) now q
       | None \<Rightarrow> record_to_db disk r (storage_name r))"
    by (simp add: row_of_save)
  have id: "db_id q = rec_id r" using row_of_in [OF q] by simp
  have same: "db_to_record q = r\<lparr>rec_created_at := db_created_at q, rec_updated_at := db_updated_at q,
      rec_file_size_bytes := db_file_size_bytes q\<rparr>"
  proof -
    have p: "stored_preview r = rec_preview_metadata r"
      using assms by (auto simp: stored_preview_def rec_ok_def split: option.splits)
    have f: "db_original_filename q = rec_original_filename r" "db_storage_filename q = storage_name r"
      "db_file_type q = rec_file_type r" "db_status q = status_value (rec_status r)"
      "db_processed_path q = rec_processed_path r" "db_metadata q = Some (stored_metadata r)"
      "db_batch_id q = rec_batch_id r" "db_relative_path q = rec_relative_path r"
      "db_preview_text q = rec_preview_text r" "db_preview_metadata q = rec_preview_metadata r"
      "db_confirmed_at q = rec_confirmed_at r" "db_confirmed_by q = rec_confirmed_by r"
      "db_listing_id q = rec_listing_id r"
      unfolding e by (auto simp: overwrite_def record_to_db_def p split: option.splits)
    have u: "(if storage_name r \<noteq> [] \<and> storage_name r \<noteq> ''__migration_marker__'' then Some (storage_name r) else None) = rec_upload_name r"
      using assms by (auto simp: rec_ok_def storage_name_def split: option.splits)
    have pp: "(if truthy (rec_processed_path r) then rec_processed_path r else None) = rec_processed_path r"
      using assms by (cases "rec_processed_path r") (auto simp: rec_ok_def)
    show ?thesis
      unfolding db_to_record_def f id Let_def option.case stored_metadata_read [OF assms] of_status_value u pp by simp
  qed
  have "get_dataset (rec_id r) (save_record disk r (storage_name r) now t) = Some (db_to_record q)"
    using q id assms by (simp add: get_dataset_def rec_ok_def)
  moreover have "rec_id r \<notin> db_id ` set t \<and> rec_file_size_bytes r \<noteq> 0 \<longrightarrow>
      db_created_at q = rec_created_at r \<and> db_updated_at q = rec_updated_at r \<and> db_file_size_bytes q = rec_file_size_bytes r"
    unfolding e by (auto simp: row_of_None [symmetric] record_to_db_def)
  ultimately show ?thesis using same by metis
qed

definition sample_rec :: dataset_rec where
  "sample_rec = (new_record ''d1'' ''a.csv'' ''csv'' 5)\<lparr>rec_upload_name := Some ''d1_a.csv'', rec_status := ERROR,
     rec_error := JStr ''bad'', rec_metadata := [(''k'', JInt 1)], rec_file_size_bytes := 7\<rparr>"

theorem saved_record_read_back_witness:
  "get_dataset ''d1'' (save_record (\<lambda>n. None) sample_rec ''d1_a.csv'' 9 []) = Some sample_rec"
proof -
  have ok: "rec_ok sample_rec" by code_simp
  have i: "rec_id sample_rec = ''d1''" "storage_name sample_rec = ''d1_a.csv''" "rec_file_size_bytes sample_rec \<noteq> 0" by code_simp+
  have "get_dataset ''d1'' (save_record (\<lambda>n. None) sample_rec ''d1_a.csv'' 9 [])
      = Some (sample_rec\<lparr>rec_created_at := rec_created_at sample_rec, rec_updated_at := rec_updated_at sample_rec,
          rec_file_size_bytes := rec_file_size_bytes sample_rec\<rparr>)"
    using saved_record_read_back [OF ok, of "\<lambda>n. None" 9 "[]"] i by auto
  then show ?thesis by simp
qed

end
