(* ===== verification/Processing_Queue.thy ===== *)
theory Processing_Queue
  imports Dataset_Records "HOL-Library.Multiset"
begin

text \<open>
  The processing queue, \<open>app/services/processing_queue.py\<close>, and the life of a dataset in it,
  \<open>ProcessingService.process_file\<close>. Handlers and workers share one event loop, so what runs between
  two awaits is one step: a worker takes an item and runs to the extraction, which it awaits in a
  thread, and later runs from its result to the end. Extractions from databases, of \<open>app/routers/database.py\<close>, run
  in threads beside the queue and set the status of their rows themselves; each of their commits is a step.
  The extraction itself, the connector, the pipeline, the PII scan and DuckDB bring values that are arguments.
\<close>

section \<open>Concurrency\<close>

text \<open>\<open>int(s)\<close> of a decimal text, with a sign and single underscores between digits.\<close>

definition is_digit :: "char \<Rightarrow> bool" where
  "is_digit c \<longleftrightarrow> CHR ''0'' \<le> c \<and> c \<le> CHR ''9''"

fun digits_value :: "int \<Rightarrow> string \<Rightarrow> int option" where
  "digits_value acc [] = Some acc"
| "digits_value acc (c # cs) =
     (if is_digit c then digits_value (acc * 10 + (of_char c - 48)) cs
      else if c = CHR ''_'' \<and> cs \<noteq> [] \<and> is_digit (hd cs) then digits_value acc cs else None)"

definition unsigned_value :: "string \<Rightarrow> int option" where
  "unsigned_value s = (if s \<noteq> [] \<and> is_digit (hd s) then digits_value 0 s else None)"

definition py_int :: "string \<Rightarrow> int option" where
  "py_int s =
     (case strip s of
        [] \<Rightarrow> None
      | c # cs \<Rightarrow> if c = CHR ''-'' then map_option uminus (unsigned_value cs)
                 else if c = CHR ''+'' then unsigned_value cs else unsigned_value (c # cs))"

text \<open>
  What the machine reports: the lines of \<open>/proc/meminfo\<close>, pages and their size, and the total of
  \<open>psutil\<close>. Memory is in bytes; the code's gigabytes are these divided by a power of two, which is exact.
\<close>

record machine =
  mc_env :: "string option"
  mc_cpus :: "int option"
  mc_meminfo :: "string list option"
  mc_sysconf :: "(int \<times> int) option"
  mc_psutil :: "int option"

definition meminfo_kb :: "string \<Rightarrow> string list \<Rightarrow> int option" where
  "meminfo_kb key ls =
     (case filter (starts_with key) ls of
        [] \<Rightarrow> None
      | l # _ \<Rightarrow> (case words [] l of _ # n # _ \<Rightarrow> py_int n | _ \<Rightarrow> None))"

definition has_line :: "string \<Rightarrow> string list \<Rightarrow> bool" where
  "has_line key ls = list_ex (starts_with key) ls"

text \<open>The first source that answers; a line that cannot be read falls through to the next source.\<close>

definition available_memory :: "machine \<Rightarrow> int" where
  "available_memory m =
     (let proc = (case mc_meminfo m of
            None \<Rightarrow> None
          | Some ls \<Rightarrow> if has_line ''MemAvailable:'' ls then meminfo_kb ''MemAvailable:'' ls else meminfo_kb ''MemTotal:'' ls)
      in case proc of
           Some kb \<Rightarrow> kb * 1024
         | None \<Rightarrow>
             (case mc_sysconf m of
                Some (pages, page_size) \<Rightarrow>
                  if 0 < pages \<and> 0 < page_size then pages * page_size
                  else (case mc_psutil m of Some n \<Rightarrow> n | None \<Rightarrow> 4 * 2 ^ 30)
              | None \<Rightarrow> (case mc_psutil m of Some n \<Rightarrow> n | None \<Rightarrow> 4 * 2 ^ 30)))"

text \<open>\<open>int((gb - 1.5) / 0.5)\<close> when \<open>gb > 1.5\<close>, over bytes.\<close>

definition auto_detect_concurrency :: "machine \<Rightarrow> int" where
  "auto_detect_concurrency m =
     (case mc_env m of
        Some v \<Rightarrow> (case py_int v of Some n \<Rightarrow> max 1 n | None \<Rightarrow> 2)
      | None \<Rightarrow>
          (let cores = (case mc_cpus m of Some n \<Rightarrow> if n = 0 then 2 else n | None \<Rightarrow> 2);
               bytes = available_memory m;
               memory_based = (if 3 * 2 ^ 29 < bytes then max 1 ((2 * bytes - 3 * 2 ^ 30) div 2 ^ 30) else 1)
           in max 1 (min (min memory_based (max 1 (cores div 2))) 8)))"

section \<open>Processing one dataset\<close>

record pq_env =
  pe_disk :: uploads_on_disk
  pe_large :: int
  pe_fallback :: int

text \<open>Exceptions, as far as the error texts tell them apart: the text of the exception and its class.\<close>

datatype exn = TimeoutExn | MemoryExn | FileNotFoundExn | OtherExn string string

definition first_line :: "string \<Rightarrow> string" where
  "first_line s = strip (takeWhile (\<lambda>c. c \<noteq> CHR 0x0A) s)"

definition friendly_error :: "exn \<Rightarrow> string" where
  "friendly_error e =
     (case e of
        TimeoutExn \<Rightarrow> ''Processing timed out''
      | MemoryExn \<Rightarrow> ''File too large to process in available memory''
      | FileNotFoundExn \<Rightarrow> ''Upload file not found''
      | OtherExn msg name \<Rightarrow> if first_line msg \<noteq> [] then take 300 (first_line msg) else name)"

datatype started = Raised exn | Returned | Waiting dataset_rec

text \<open>Up to the await: the checks, and the status \<open>extracting\<close>. \<open>failing\<close> is what the write of the row
  raises, if it does.\<close>

definition with_size :: "pq_env \<Rightarrow> dataset_rec \<Rightarrow> dataset_rec" where
  "with_size env r =
     (if rec_file_size_bytes r \<le> 0
      then (case size_on_disk (pe_disk env) r of Some n \<Rightarrow> r\<lparr>rec_file_size_bytes := n\<rparr> | None \<Rightarrow> r) else r)"

definition written :: "exn option \<Rightarrow> started \<Rightarrow> dataset_table \<Rightarrow> dataset_table \<Rightarrow> started \<times> dataset_table" where
  "written failing x new old = (case failing of None \<Rightarrow> (x, new) | Some e \<Rightarrow> (Raised e, old))"

definition process_start :: "pq_env \<Rightarrow> exn option \<Rightarrow> time \<Rightarrow> string \<Rightarrow> dataset_table \<Rightarrow> started \<times> dataset_table" where
  "process_start env failing now i t =
     (case get_dataset i t of
        None \<Rightarrow> (Raised (OtherExn (''Dataset '' @ i @ '' not found'') ''ValueError''), t)
      | Some r \<Rightarrow>
          if size_on_disk (pe_disk env) r = None
          then written failing Returned (save_record (pe_disk env)
                  (r\<lparr>rec_status := ERROR, rec_error := JStr ''Upload file not found''\<rparr>) (storage_name r) now t) t
          else if is_cancelled i t then (Returned, t)
          else
            (let q = (with_size env r)\<lparr>rec_status := EXTRACTING, rec_updated_at := now\<rparr>
             in written failing (Waiting q) (save_record (pe_disk env) q (storage_name q) now t) t))"

record extraction =
  ex_processed_path :: "string option"
  ex_document :: json
  ex_metadata :: dict
  ex_preview_text :: "string option"
  ex_preview_metadata :: json

text \<open>An attempt to extract: what it found, or the text and class of its exception.\<close>

type_synonym attempt = "(string \<times> string) + extraction"

definition put_all :: "dict \<Rightarrow> dict \<Rightarrow> dict" where
  "put_all new d = foldl (\<lambda>m (k, v). AList.update k v m) d new"

definition with_extraction :: "extraction \<Rightarrow> dataset_rec \<Rightarrow> dataset_rec" where
  "with_extraction x r =
     r\<lparr>rec_processed_path := (case ex_processed_path x of None \<Rightarrow> rec_processed_path r | Some p \<Rightarrow> Some p),
       rec_document := (if ex_document x = JNull then rec_document r else ex_document x),
       rec_metadata := put_all (ex_metadata x) (rec_metadata r),
       rec_preview_text := ex_preview_text x, rec_preview_metadata := Some (ex_preview_metadata x)\<rparr>"

definition processing_mode :: "string \<Rightarrow> dataset_rec \<Rightarrow> dataset_rec" where
  "processing_mode m r = r\<lparr>rec_metadata := AList.update ''processing_mode'' (JStr m) (rec_metadata r)\<rparr>"

definition extract_in_memory :: "attempt \<Rightarrow> dataset_rec \<Rightarrow> (string \<times> string) + dataset_rec" where
  "extract_in_memory a r =
     (let ft = map ascii_lower (rec_file_type r)
      in if ft \<notin> set PROCESSABLE_TYPES then Inl (''Unsupported file type: '' @ ft, ''ValueError'')
         else case a of Inl e \<Rightarrow> Inl e | Inr x \<Rightarrow> Inr (with_extraction x r))"

text \<open>\<open>f"{size / 1024**2:.0f}"\<close> rounds to the nearest, ties to even.\<close>

definition megabytes :: "int \<Rightarrow> int" where
  "megabytes n =
     (let q = n div 2 ^ 20; r = n mod 2 ^ 20
      in if r < 2 ^ 19 \<or> (r = 2 ^ 19 \<and> even q) then q else q + 1)"

text \<open>The two attempts: streaming for a large file and, when that fails and the file is small enough, in
  memory. The pair is the record with what was noted in it before a failure, and the failure.\<close>

definition is_large :: "pq_env \<Rightarrow> dataset_rec \<Rightarrow> bool" where
  "is_large env r \<longleftrightarrow> map ascii_lower (rec_file_type r) \<in> set (TABULAR_TYPES @ DOCUMENT_TYPES) \<and> pe_large env \<le> rec_file_size_bytes r"

definition in_memory :: "attempt \<Rightarrow> dataset_rec \<Rightarrow> dataset_rec \<times> (string \<times> string) option" where
  "in_memory a r = (case extract_in_memory a r of Inl e \<Rightarrow> (r, Some e) | Inr q \<Rightarrow> (q, None))"

definition run_extraction :: "pq_env \<Rightarrow> attempt \<Rightarrow> attempt \<Rightarrow> dataset_rec \<Rightarrow> dataset_rec \<times> (string \<times> string) option" where
  "run_extraction env a b r =
     (if is_large env r then
        (case a of
           Inr x \<Rightarrow> (processing_mode ''streaming'' (with_extraction x r), None)
         | Inl (msg, name) \<Rightarrow>
             if rec_file_size_bytes r < pe_fallback env
             then in_memory b ((processing_mode ''fallback_in_memory'' r)
                    \<lparr>rec_metadata := AList.update ''streaming_error'' (JStr msg)
                       (AList.update ''processing_mode'' (JStr ''fallback_in_memory'') (rec_metadata r))\<rparr>)
             else (r, Some (''Streaming processing failed for large file ('' @ map ascii_lower (rec_file_type r) @ '', '' @
                    show_int (megabytes (rec_file_size_bytes r)) @ ''MB): '' @ msg, ''ValueError'')))
      else in_memory a (processing_mode ''in_memory'' r))"

text \<open>From the result to the end: the error that is stored, a cancellation, or the analysis and the
  status \<open>preview_ready\<close>.\<close>

definition process_finish ::
  "pq_env \<Rightarrow> attempt \<Rightarrow> attempt \<Rightarrow> json \<Rightarrow> dict \<Rightarrow> time \<Rightarrow> dataset_rec \<Rightarrow> dataset_table \<Rightarrow> dataset_table" where
  "process_finish env a b pii stats now r t =
     (case run_extraction env a b r of
        (q, Some (msg, name)) \<Rightarrow>
          save_record (pe_disk env)
            (q\<lparr>rec_status := ERROR, rec_error := JStr (if first_line msg \<noteq> [] then take 300 (first_line msg) else name),
               rec_updated_at := now\<rparr>) (storage_name q) now t
      | (q, None) \<Rightarrow>
          if is_cancelled (rec_id q) t
          then save_record (pe_disk env) (q\<lparr>rec_status := CANCELLED\<rparr>) (storage_name q) now t
          else save_record (pe_disk env)
            (q\<lparr>rec_metadata := put_all stats (AList.update ''pii_scan'' pii (rec_metadata q)),
               rec_status := PREVIEW_READY, rec_updated_at := now\<rparr>) (storage_name q) now t)"

text \<open>\<open>writable\<close>: whether the table can be written; a failure here is logged only.\<close>

definition ensure_error_status :: "pq_env \<Rightarrow> bool \<Rightarrow> string \<Rightarrow> exn \<Rightarrow> time \<Rightarrow> dataset_table \<Rightarrow> dataset_table" where
  "ensure_error_status env writable i e now t =
     (case get_dataset i t of
        None \<Rightarrow> t
      | Some r \<Rightarrow>
          if rec_status r \<in> {ERROR, PREVIEW_READY, CANCELLED} \<or> \<not> writable then t
          else save_record (pe_disk env) (r\<lparr>rec_status := ERROR, rec_error := JStr (friendly_error e)\<rparr>) (storage_name r) now t)"

section \<open>Extraction from a database\<close>

text \<open>
  \<open>POST /connections/{id}/extract\<close> of \<open>app/routers/database.py\<close> makes a dataset for each table, or one for
  the given SQL, and leaves the rest to a background task, \<open>_run_extraction_pipeline\<close>, which runs in a thread
  beside the queue: it sets the status of the same rows itself, one commit at a time, and the connector and
  the pipeline run between its commits. The connection exists and the SQL has passed its check.
\<close>

datatype wanted = WantTable "string option" string | WantSql string "string option"

definition wanted_label :: "wanted \<Rightarrow> string" where
  "wanted_label x =
     (case x of WantTable s t \<Rightarrow> if truthy s then the s @ ''.'' @ t else t
      | WantSql sql n \<Rightarrow> if truthy n then the n else ''Custom Query'')"

definition wanted_table :: "wanted \<Rightarrow> string" where
  "wanted_table x =
     (case x of WantTable s t \<Rightarrow> if t \<noteq> [] then t else ''custom_query'' | WantSql sql n \<Rightarrow> sql)"

definition wanted_row :: "string \<Rightarrow> string \<Rightarrow> wanted \<Rightarrow> time \<Rightarrow> dataset_row" where
  "wanted_row conn i x now =
     \<lparr>db_id = i, db_original_filename = wanted_label x @ ''.parquet'',
      db_storage_filename = i @ ''_'' @ (case x of WantTable s t \<Rightarrow> t | WantSql sql n \<Rightarrow> wanted_label x) @ ''.parquet'',
      db_file_type = ''parquet'', db_file_size_bytes = 0, db_status = status_value UPLOADED, db_processed_path = None,
      db_metadata = Some ([(''source_type'', JStr ''database''), (''source_connection_id'', JStr conn)] @
        (case x of WantTable s t \<Rightarrow> [(''source_table'', JStr (wanted_label x))]
         | WantSql sql n \<Rightarrow> [(''source_table'', JStr ''custom_query''), (''custom_sql'', JStr sql)])),
      db_created_at = now, db_updated_at = now, db_batch_id = None, db_relative_path = None, db_preview_text = None,
      db_preview_metadata = None, db_confirmed_at = None, db_confirmed_by = None, db_listing_id = None\<rparr>"

text \<open>One commit per dataset; an id that is taken raises, after the rows before it.\<close>

fun add_wanted :: "string \<Rightarrow> (string \<times> wanted) list \<Rightarrow> time \<Rightarrow> dataset_table \<Rightarrow> bool \<times> dataset_table" where
  "add_wanted conn [] now t = (True, t)"
| "add_wanted conn ((i, x) # xs) now t =
     (if row_of i t \<noteq> None then (False, t) else add_wanted conn xs now (t @ [wanted_row conn i x now]))"

text \<open>What the task does next: look up its connection, or, for the first of its datasets, write \<open>extracting\<close>;
  extract, and write that with the file's size; run the pipeline and write \<open>preview_ready\<close>; note the time at
  the connection. Each of them may raise; otherwise the extraction leaves a file of some size, and the
  pipeline a path and the metadata that DuckDB finds.\<close>

datatype stage = Connecting | Wanted | Reading | Working | Sealed

datatype outcome = Raises string | Goes int string dict

definition merge_metadata :: "dict \<Rightarrow> dataset_row \<Rightarrow> dataset_row" where
  "merge_metadata d q = q\<lparr>db_metadata := map_option (put_all d) (db_metadata q)\<rparr>"

definition stage_row :: "stage \<Rightarrow> wanted \<Rightarrow> int \<Rightarrow> string \<Rightarrow> dict \<Rightarrow> time \<Rightarrow> dataset_row \<Rightarrow> dataset_row" where
  "stage_row st x n path found now q =
     (case st of
        Connecting \<Rightarrow> q
      | Wanted \<Rightarrow> merge_metadata [(''phase'', JStr ''extracting''), (''table'', JStr (wanted_table x))]
          (q\<lparr>db_status := status_value EXTRACTING, db_updated_at := now\<rparr>)
      | Reading \<Rightarrow> merge_metadata [(''phase'', JStr ''processing''), (''table'', JStr (wanted_table x))]
          (q\<lparr>db_status := status_value EXTRACTING, db_file_size_bytes := n, db_updated_at := now\<rparr>)
      | Working \<Rightarrow> merge_metadata (found @ [(''phase'', JStr ''preview_ready'')])
          (q\<lparr>db_status := status_value PREVIEW_READY, db_processed_path := Some path, db_updated_at := now\<rparr>)
      | Sealed \<Rightarrow> q)"

definition failed_row :: "string \<Rightarrow> time \<Rightarrow> dataset_row \<Rightarrow> dataset_row" where
  "failed_row msg now q =
     q\<lparr>db_status := status_value ERROR, db_metadata := Some [(''error'', JStr msg)], db_updated_at := now\<rparr>"

fun next_stage :: "stage \<Rightarrow> (string \<times> wanted) list \<Rightarrow> stage \<times> (string \<times> wanted) list" where
  "next_stage Connecting xs = (Wanted, xs)"
| "next_stage Wanted xs = (Reading, xs)"
| "next_stage Reading xs = (Working, xs)"
| "next_stage Working xs = (Sealed, xs)"
| "next_stage Sealed xs = (Wanted, tl xs)"

text \<open>A row that is gone is passed over. Metadata that cannot be parsed (\<open>None\<close>) can only raise. The handler
  writes the error; when that fails as well, or the connection is not there, the task is over.\<close>

definition extraction_step ::
  "outcome \<Rightarrow> bool \<Rightarrow> time \<Rightarrow> stage \<times> (string \<times> wanted) list \<Rightarrow> dataset_table \<Rightarrow>
     (stage \<times> (string \<times> wanted) list) \<times> dataset_table" where
  "extraction_step out writable now task t =
     (case task of
        (st, []) \<Rightarrow> (task, t)
      | (st, (i, x) # xs) \<Rightarrow>
          (case out of
             Goes n path found \<Rightarrow>
               if st \<in> {Wanted, Reading, Working} \<and> (case row_of i t of None \<Rightarrow> False | Some q \<Rightarrow> db_metadata q = None)
               then (task, t)
               else (next_stage st ((i, x) # xs),
                 update_where (\<lambda>q. db_id q = i) (stage_row st x n path found now) t)
           | Raises msg \<Rightarrow>
               if st = Connecting then ((st, []), t)
               else if writable then ((Wanted, xs), update_where (\<lambda>q. db_id q = i) (failed_row msg now) t)
               else ((st, []), t)))"

section \<open>The queue\<close>

record progress =
  pg_phase :: string
  pg_pct :: int
  pg_detail :: string

text \<open>A worker is idle, or holds the record whose extraction it awaits. \<open>pq_done\<close> lists the items for
  which \<open>task_done\<close> was called, \<open>pq_tasks\<close> the extractions from databases, with the datasets still to do.\<close>

record pq_world =
  pq_queue :: "string list"
  pq_workers :: "dataset_rec option list"
  pq_current :: "string option"
  pq_progress :: "(string \<times> progress) list"
  pq_done :: "string list"
  pq_tasks :: "(stage \<times> (string \<times> wanted) list) list"
  pq_table :: dataset_table

definition update_progress :: "string \<Rightarrow> string \<Rightarrow> int \<Rightarrow> string \<Rightarrow> pq_world \<Rightarrow> pq_world" where
  "update_progress i phase pct detail w =
     w\<lparr>pq_progress := AList.update i \<lparr>pg_phase = phase, pg_pct = min pct 100, pg_detail = detail\<rparr> (pq_progress w)\<rparr>"

definition clear_progress :: "string \<Rightarrow> pq_world \<Rightarrow> pq_world" where
  "clear_progress i w = w\<lparr>pq_progress := AList.delete i (pq_progress w)\<rparr>"

definition submit :: "string \<Rightarrow> pq_world \<Rightarrow> nat \<times> pq_world" where
  "submit i w =
     (let w1 = w\<lparr>pq_queue := pq_queue w @ [i]\<rparr>; depth = length (pq_queue w1)
      in (depth, update_progress i ''queued'' 0 (''Queue position #'' @ show_nat depth) w1))"

fun position_from :: "nat \<Rightarrow> string \<Rightarrow> string list \<Rightarrow> nat option" where
  "position_from pos i [] = None"
| "position_from pos i (x # xs) = (if x = i then Some pos else position_from (Suc pos) i xs)"

definition get_position :: "string \<Rightarrow> pq_world \<Rightarrow> nat option" where
  "get_position i w = (if pq_current w = Some i then Some 0 else position_from 1 i (pq_queue w))"

text \<open>The \<open>finally\<close> of the worker's loop.\<close>

definition conclude :: "nat \<Rightarrow> string \<Rightarrow> pq_world \<Rightarrow> pq_world" where
  "conclude k i w = (clear_progress i w)\<lparr>pq_workers := (pq_workers w)[k := None], pq_current := None, pq_done := pq_done w @ [i]\<rparr>"

definition idle :: "nat \<Rightarrow> pq_world \<Rightarrow> bool" where
  "idle k w \<longleftrightarrow> k < length (pq_workers w) \<and> pq_workers w ! k = None"

definition holds :: "nat \<Rightarrow> dataset_rec \<Rightarrow> pq_world \<Rightarrow> bool" where
  "holds k r w \<longleftrightarrow> k < length (pq_workers w) \<and> pq_workers w ! k = Some r"

definition STARTING :: string where "STARTING = ''Starting'' @ [CHR 0xE2, CHR 0x80, CHR 0xA6]"

definition take_item :: "pq_env \<Rightarrow> nat \<Rightarrow> exn option \<Rightarrow> bool \<Rightarrow> time \<Rightarrow> pq_world \<Rightarrow> pq_world" where
  "take_item env k failing writable now w =
     (case pq_queue w of
        [] \<Rightarrow> w
      | i # q \<Rightarrow>
          if \<not> idle k w then w
          else
            (let w1 = update_progress i ''extracting'' 0 STARTING (w\<lparr>pq_queue := q, pq_current := Some i\<rparr>)
             in case process_start env failing now i (pq_table w) of
                  (Waiting r, t) \<Rightarrow> w1\<lparr>pq_workers := (pq_workers w)[k := Some r], pq_table := t\<rparr>
                | (Returned, t) \<Rightarrow> conclude k i (w1\<lparr>pq_table := t\<rparr>)
                | (Raised e, t) \<Rightarrow> conclude k i (w1\<lparr>pq_table := ensure_error_status env writable i e now t\<rparr>)))"

definition finish_item :: "pq_env \<Rightarrow> nat \<Rightarrow> attempt \<Rightarrow> attempt \<Rightarrow> json \<Rightarrow> dict \<Rightarrow> time \<Rightarrow> pq_world \<Rightarrow> pq_world" where
  "finish_item env k a b pii stats now w =
     (if k < length (pq_workers w)
      then (case pq_workers w ! k of
              None \<Rightarrow> w
            | Some r \<Rightarrow> conclude k (rec_id r) (w\<lparr>pq_table := process_finish env a b pii stats now r (pq_table w)\<rparr>))
      else w)"

text \<open>An exception that leaves \<open>process_file\<close> itself, as when the table cannot be written.\<close>

definition escape_item :: "pq_env \<Rightarrow> nat \<Rightarrow> exn \<Rightarrow> bool \<Rightarrow> time \<Rightarrow> pq_world \<Rightarrow> pq_world" where
  "escape_item env k e writable now w =
     (if k < length (pq_workers w)
      then (case pq_workers w ! k of
              None \<Rightarrow> w
            | Some r \<Rightarrow> conclude k (rec_id r)
                (w\<lparr>pq_table := ensure_error_status env writable (rec_id r) e now (pq_table w)\<rparr>))
      else w)"

text \<open>\<open>start\<close> fills the workers up to the concurrency; \<open>shutdown\<close> cancels them, which concludes what they
  hold without touching the table; a restart loses everything but the table.\<close>

definition start_workers :: "nat \<Rightarrow> pq_world \<Rightarrow> pq_world" where
  "start_workers n w = w\<lparr>pq_workers := pq_workers w @ replicate (n - length (pq_workers w)) None\<rparr>"

fun cancel_workers :: "dataset_rec option list \<Rightarrow> pq_world \<Rightarrow> pq_world" where
  "cancel_workers [] w = w"
| "cancel_workers (None # ws) w = cancel_workers ws w"
| "cancel_workers (Some r # ws) w =
     cancel_workers ws ((clear_progress (rec_id r) w)\<lparr>pq_current := None, pq_done := pq_done w @ [rec_id r]\<rparr>)"

definition shutdown_workers :: "pq_world \<Rightarrow> pq_world" where
  "shutdown_workers w = (cancel_workers (pq_workers w) w)\<lparr>pq_workers := []\<rparr>"

definition fresh_queue :: "dataset_table \<Rightarrow> pq_world" where
  "fresh_queue t = \<lparr>pq_queue = [], pq_workers = [], pq_current = None, pq_progress = [], pq_done = [], pq_tasks = [], pq_table = t\<rparr>"

definition extract_tables :: "string \<Rightarrow> (string \<times> wanted) list \<Rightarrow> time \<Rightarrow> pq_world \<Rightarrow> pq_world" where
  "extract_tables conn xs now w =
     (case add_wanted conn xs now (pq_table w) of
        (True, t) \<Rightarrow> w\<lparr>pq_table := t, pq_tasks := pq_tasks w @ [(Connecting, xs)]\<rparr>
      | (False, t) \<Rightarrow> w\<lparr>pq_table := t\<rparr>)"

definition run_task :: "nat \<Rightarrow> outcome \<Rightarrow> bool \<Rightarrow> time \<Rightarrow> pq_world \<Rightarrow> pq_world" where
  "run_task k out writable now w =
     (if k < length (pq_tasks w)
      then (case extraction_step out writable now (pq_tasks w ! k) (pq_table w) of
              (task, t) \<Rightarrow> w\<lparr>pq_table := t, pq_tasks := (pq_tasks w)[k := task]\<rparr>)
      else w)"

datatype pq_event =
    Create string string string time
  | Submit string
  | Take nat "exn option" bool time
  | Finish nat attempt attempt json dict time
  | Escape nat exn bool time
  | Progress string string int string
  | Confirm string string time
  | ConfirmBatch string string time
  | DeleteDataset string time
  | Extract string "(string \<times> wanted) list" time
  | RunTask nat outcome bool time
  | Start
  | Shutdown
  | Restart

definition pq_step :: "pq_env \<Rightarrow> nat \<Rightarrow> pq_world \<Rightarrow> pq_event \<Rightarrow> pq_world" where
  "pq_step env n w ev =
     (case ev of
        Create i name ft now \<Rightarrow>
          if row_of i (pq_table w) \<noteq> None then w
          else w\<lparr>pq_table := snd (create_dataset (pe_disk env) i name ft now (pq_table w))\<rparr>
      | Submit i \<Rightarrow> snd (submit i w)
      | Take k failing writable now \<Rightarrow> take_item env k failing writable now w
      | Finish k a b pii stats now \<Rightarrow> finish_item env k a b pii stats now w
      | Escape k e writable now \<Rightarrow> escape_item env k e writable now w
      | Progress i phase pct detail \<Rightarrow> update_progress i phase pct detail w
      | Confirm i user now \<Rightarrow> w\<lparr>pq_table := snd (confirm_dataset i user now (pq_table w))\<rparr>
      | ConfirmBatch b user now \<Rightarrow> w\<lparr>pq_table := snd (confirm_batch b user now (pq_table w))\<rparr>
      | DeleteDataset i now \<Rightarrow> w\<lparr>pq_table := snd (delete_endpoint i now (pq_table w))\<rparr>
      | Extract conn xs now \<Rightarrow> extract_tables conn xs now w
      | RunTask k out writable now \<Rightarrow> run_task k out writable now w
      | Start \<Rightarrow> start_workers n w
      | Shutdown \<Rightarrow> shutdown_workers w
      | Restart \<Rightarrow> start_workers n (fresh_queue (pq_table w)))"

section \<open>Lemmas: the table\<close>

definition terminal :: "string \<Rightarrow> bool" where
  "terminal s \<longleftrightarrow> s \<in> {''preview_ready'', ''error'', ''cancelled''}"

lemma terminal_not_extracting: "terminal s \<Longrightarrow> s \<noteq> ''extracting''"
  by (auto simp: terminal_def)

lemma with_same_id [simp]:
  "rec_id (with_size env r) = rec_id r" "rec_id (with_extraction x r) = rec_id r" "rec_id (processing_mode m r) = rec_id r"
  by (auto simp: with_size_def with_extraction_def processing_mode_def split: option.splits)

lemma get_dataset_id: "get_dataset i t = Some r \<Longrightarrow> rec_id r = i \<and> i \<noteq> ''__migrated__''"
  using row_of_in [of i t] by (auto simp: get_dataset_def db_to_record_def Let_def split: option.splits if_splits)

lemma get_dataset_row: "get_dataset i t = Some r \<Longrightarrow> \<exists>q. row_of i t = Some q \<and> r = db_to_record q"
  by (auto simp: get_dataset_def split: option.splits if_splits)

text \<open>What an extraction leaves alone in the worker's copy.\<close>

definition same_decisions :: "dataset_rec \<Rightarrow> dataset_rec \<Rightarrow> bool" where
  "same_decisions q r \<longleftrightarrow> rec_id q = rec_id r \<and> rec_confirmed_at q = rec_confirmed_at r \<and>
     rec_confirmed_by q = rec_confirmed_by r \<and> rec_listing_id q = rec_listing_id r \<and> rec_batch_id q = rec_batch_id r"

lemma same_decisions_step [simp]:
  "same_decisions (with_extraction x q) r = same_decisions q r"
  "same_decisions (processing_mode m q) r = same_decisions q r"
  "same_decisions (q\<lparr>rec_metadata := d\<rparr>) r = same_decisions q r" "same_decisions r r"
  by (simp_all add: same_decisions_def with_extraction_def processing_mode_def)

lemma in_memory_decisions: "same_decisions q r \<Longrightarrow> same_decisions (fst (in_memory a q)) r"
  by (auto simp: in_memory_def extract_in_memory_def Let_def split: sum.splits if_splits)

lemma run_extraction_decisions: "same_decisions (fst (run_extraction env a b r)) r"
  by (auto simp: run_extraction_def in_memory_decisions split: sum.splits prod.splits)

definition written_by :: "dataset_rec \<Rightarrow> dataset_row \<Rightarrow> bool" where
  "written_by r q \<longleftrightarrow> db_confirmed_at q = rec_confirmed_at r \<and> db_confirmed_by q = rec_confirmed_by r \<and>
     db_listing_id q = rec_listing_id r \<and> db_batch_id q = rec_batch_id r"

lemma save_written:
  assumes "same_decisions q r"
  shows "\<exists>p. row_of (rec_id r) (save_record disk q st now t) = Some p \<and> written_by r p \<and> db_status p = status_value (rec_status q)"
  using assms by (auto simp: row_of_save same_decisions_def written_by_def overwrite_def record_to_db_def split: option.splits)

lemma process_finish_row:
  "\<exists>p. row_of (rec_id r) (process_finish env a b pii stats now r t) = Some p \<and> written_by r p \<and> terminal (db_status p)"
proof -
  obtain q f where e: "run_extraction env a b r = (q, f)" by fastforce
  have d: "same_decisions q r" using run_extraction_decisions [of env a b r] e by simp
  have s: "\<exists>p. row_of (rec_id r) (save_record (pe_disk env) q' st now t) = Some p \<and> written_by r p \<and> terminal (db_status p)"
    if "same_decisions q' r" "rec_status q' \<in> {ERROR, CANCELLED, PREVIEW_READY}" for q' st
    using save_written [OF that(1), of "pe_disk env" st now t] that(2) by (auto simp: terminal_def status_value_def)
  have d': "same_decisions (q\<lparr>rec_status := x, rec_error := y, rec_updated_at := z\<rparr>) r"
    "same_decisions (q\<lparr>rec_status := x\<rparr>) r" "same_decisions (q\<lparr>rec_metadata := m, rec_status := x, rec_updated_at := z\<rparr>) r" for x y z m
    using d by (simp_all add: same_decisions_def)
  show ?thesis
  proof (cases f)
    case None
    then show ?thesis using e s d' by (simp add: process_finish_def)
  next
    case (Some mn)
    then show ?thesis using e s d' by (simp add: process_finish_def split: prod.splits)
  qed
qed

lemma process_finish_others:
  "i \<noteq> rec_id r \<Longrightarrow> row_of i (process_finish env a b pii stats now r t) = row_of i t"
  using run_extraction_decisions [of env a b r]
  by (auto simp: process_finish_def row_of_save same_decisions_def split: prod.splits option.splits)

lemma process_start_waiting:
  assumes "process_start env failing now i t = (Waiting r, t')"
  shows "rec_id r = i \<and> i \<noteq> ''__migrated__''"
  using assms get_dataset_id [of i t]
  by (auto simp: process_start_def written_def Let_def split: option.splits if_splits)

lemma process_start_rows:
  assumes "process_start env failing now i t = (x, t')"
  shows "j \<noteq> i \<Longrightarrow> row_of j t' = row_of j t"
    and "x = Returned \<Longrightarrow> \<exists>q. row_of i t' = Some q \<and> terminal (db_status q)"
    and "x = Raised e \<Longrightarrow> t' = t"
proof -
  have c: "is_cancelled i t \<Longrightarrow> \<exists>q. row_of i t = Some q \<and> terminal (db_status q)"
    by (auto simp: is_cancelled_def terminal_def split: option.splits)
  note i = get_dataset_id [of i t]
  show "j \<noteq> i \<Longrightarrow> row_of j t' = row_of j t"
    using assms i by (auto simp: process_start_def written_def Let_def row_of_save split: option.splits if_splits)
  show "x = Returned \<Longrightarrow> \<exists>q. row_of i t' = Some q \<and> terminal (db_status q)"
    using assms i c
    by (auto simp: process_start_def written_def Let_def row_of_save overwrite_def record_to_db_def terminal_def status_value_def
        split: option.splits if_splits)
  show "x = Raised e \<Longrightarrow> t' = t"
    using assms by (auto simp: process_start_def written_def Let_def split: option.splits if_splits)
qed

lemma ensure_error_rows:
  "j \<noteq> i \<Longrightarrow> row_of j (ensure_error_status env ok i e now t) = row_of j t"
  "i \<noteq> ''__migrated__'' \<Longrightarrow> row_of i (ensure_error_status env True i e now t) = Some q \<Longrightarrow> db_status q \<noteq> ''extracting''"
proof -
  note i = get_dataset_id [of i t]
  show "j \<noteq> i \<Longrightarrow> row_of j (ensure_error_status env ok i e now t) = row_of j t"
    using i by (auto simp: ensure_error_status_def row_of_save split: option.splits)
  show "i \<noteq> ''__migrated__'' \<Longrightarrow> row_of i (ensure_error_status env True i e now t) = Some q \<Longrightarrow> db_status q \<noteq> ''extracting''"
  proof (cases "get_dataset i t")
    case None
    assume "i \<noteq> ''__migrated__''" "row_of i (ensure_error_status env True i e now t) = Some q"
    then show ?thesis using None row_of_in [of i t q] by (auto simp: ensure_error_status_def get_dataset_def split: if_splits)
  next
    case (Some r)
    assume q: "row_of i (ensure_error_status env True i e now t) = Some q"
    obtain p where p: "row_of i t = Some p" "r = db_to_record p" using get_dataset_row [OF Some] by blast
    show ?thesis
    proof (cases "rec_status r \<in> {ERROR, PREVIEW_READY, CANCELLED}")
      case True
      then have "q = p" using q Some p(1) by (simp add: ensure_error_status_def)
      then show ?thesis using True p(2) by (auto simp: db_to_record_def Let_def of_status_def status_value_def)
    next
      case False
      then have "row_of (rec_id r) (save_record (pe_disk env) (r\<lparr>rec_status := ERROR, rec_error := JStr (friendly_error e)\<rparr>)
          (storage_name r) now t) = Some q"
        using q Some i by (auto simp: ensure_error_status_def)
      then show ?thesis using save_status [of "r\<lparr>rec_status := ERROR, rec_error := JStr (friendly_error e)\<rparr>"]
        by (simp add: status_value_def)
    qed
  qed
qed

section \<open>Lemmas: items\<close>

definition held :: "dataset_rec option list \<Rightarrow> string multiset" where
  "held ws = mset (map (\<lambda>w. rec_id (the w)) (filter (\<lambda>w. w \<noteq> None) ws))"

definition items :: "pq_world \<Rightarrow> string multiset" where
  "items w = mset (pq_queue w) + held (pq_workers w) + mset (pq_done w)"

lemma held_simps [simp]: "held [] = {#}" "held (None # ws) = held ws" "held (Some r # ws) = add_mset (rec_id r) (held ws)"
  "held (ws @ vs) = held ws + held vs" "held (replicate n None) = {#}"
  by (simp_all add: held_def)

lemma held_update:
  "k < length ws \<Longrightarrow> ws ! k = None \<Longrightarrow> held (ws[k := Some r]) = add_mset (rec_id r) (held ws)"
  "k < length ws \<Longrightarrow> ws ! k = Some r \<Longrightarrow> add_mset (rec_id r) (held (ws[k := None])) = held ws"
  "k < length ws \<Longrightarrow> ws ! k = None \<Longrightarrow> held (ws[k := None]) = held ws"
proof -
  show "k < length ws \<Longrightarrow> ws ! k = None \<Longrightarrow> held (ws[k := Some r]) = add_mset (rec_id r) (held ws)"
  proof (induction ws arbitrary: k)
    case (Cons w ws)
    then show ?case by (cases k; cases w) auto
  qed simp
  show "k < length ws \<Longrightarrow> ws ! k = Some r \<Longrightarrow> add_mset (rec_id r) (held (ws[k := None])) = held ws"
  proof (induction ws arbitrary: k)
    case (Cons w ws)
    then show ?case by (cases k; cases w) auto
  qed simp
  show "k < length ws \<Longrightarrow> ws ! k = None \<Longrightarrow> held (ws[k := None]) = held ws"
    by (metis list_update_id)
qed

lemma progress_items [simp]: "items (update_progress i p n d w) = items w" "items (clear_progress i w) = items w"
  by (simp_all add: items_def update_progress_def clear_progress_def)

lemma table_items [simp]: "items (w\<lparr>pq_table := t\<rparr>) = items w" "items (w\<lparr>pq_table := t, pq_tasks := ts\<rparr>) = items w"
  by (simp_all add: items_def)

lemma start_items [simp]: "items (start_workers n w) = items w"
  by (simp add: items_def start_workers_def)

lemma conclude_busy: "k < length (pq_workers w) \<Longrightarrow> pq_workers w ! k = Some r \<Longrightarrow> items (conclude k (rec_id r) w) = items w"
  using held_update(2) [of k "pq_workers w" r]
  by (simp add: items_def conclude_def clear_progress_def ac_simps flip: add_mset_add_single)

lemma conclude_idle: "idle k w \<Longrightarrow> items (conclude k i w) = add_mset i (items w)"
  using held_update(3) [of k "pq_workers w"] by (simp add: items_def conclude_def clear_progress_def idle_def)

lemma cancel_items:
  "mset (pq_queue (cancel_workers ws w)) + mset (pq_done (cancel_workers ws w)) = mset (pq_queue w) + held ws + mset (pq_done w)"
  by (induction ws w rule: cancel_workers.induct) (simp_all add: clear_progress_def)

lemma take_items: "items (take_item env k failing ok now w) = items w"
proof (cases "pq_queue w")
  case (Cons i q)
  show ?thesis
  proof (cases "idle k w")
    case True
    let ?w = "update_progress i ''extracting'' 0 STARTING (w\<lparr>pq_queue := q, pq_current := Some i\<rparr>)"
    have w: "add_mset i (items ?w) = items w" "idle k (?w\<lparr>pq_table := t\<rparr>)" for t
      using Cons True by (simp_all add: items_def idle_def update_progress_def)
    obtain x t where e: "process_start env failing now i (pq_table w) = (x, t)" by fastforce
    show ?thesis
    proof (cases x)
      case (Raised e)
      have "items (?w\<lparr>pq_table := t'\<rparr>) = items ?w" for t' by (simp add: items_def)
      then show ?thesis using Cons True e Raised w conclude_idle [OF w(2)] by (simp add: take_item_def Let_def)
    next
      case Returned
      have "items (?w\<lparr>pq_table := t'\<rparr>) = items ?w" for t' by (simp add: items_def)
      then show ?thesis using Cons True e Returned w conclude_idle [OF w(2)] by (simp add: take_item_def Let_def)
    next
      case (Waiting r)
      have "rec_id r = i" using process_start_waiting e Waiting by blast
      then show ?thesis using Cons True e Waiting held_update(1) [of k "pq_workers w" r]
        by (simp add: take_item_def Let_def items_def update_progress_def idle_def)
    qed
  qed (simp add: take_item_def Cons)
qed (simp add: take_item_def)

text \<open>The queue as a step system: every step but a restart keeps the submitted items.\<close>

definition submitted_by :: "pq_event \<Rightarrow> string multiset" where
  "submitted_by ev = (case ev of Submit i \<Rightarrow> {#i#} | _ \<Rightarrow> {#})"

lemma step_items: "ev \<noteq> Restart \<Longrightarrow> items (pq_step env n w ev) = items w + submitted_by ev"
proof (cases ev)
  case (Submit i)
  then show ?thesis by (simp add: pq_step_def submit_def Let_def submitted_by_def) (simp add: items_def)
next
  case (Finish k a b pii stats now)
  have "items (w\<lparr>pq_table := t\<rparr>) = items w" for t by (simp add: items_def)
  then show ?thesis using Finish conclude_busy [of k "w\<lparr>pq_table := t\<rparr>" for t]
    by (auto simp: pq_step_def finish_item_def submitted_by_def split: option.splits)
next
  case (Escape k e ok now)
  have "items (w\<lparr>pq_table := t\<rparr>) = items w" for t by (simp add: items_def)
  then show ?thesis using Escape conclude_busy [of k "w\<lparr>pq_table := t\<rparr>" for t]
    by (auto simp: pq_step_def escape_item_def submitted_by_def split: option.splits)
next
  case Shutdown
  then show ?thesis using cancel_items [of "pq_workers w" w]
    by (simp add: pq_step_def shutdown_workers_def items_def submitted_by_def)
next
  case (Extract conn xs now)
  then show ?thesis by (simp add: pq_step_def submitted_by_def extract_tables_def split: prod.splits bool.splits)
next
  case (RunTask k out ok now)
  then show ?thesis by (simp add: pq_step_def submitted_by_def run_task_def split: prod.splits)
qed (auto simp: pq_step_def submitted_by_def take_items)

lemma workers_bounded_step: "length (pq_workers w) \<le> n \<Longrightarrow> length (pq_workers (pq_step env n w ev)) \<le> n"
proof -
  assume a: "length (pq_workers w) \<le> n"
  have c: "pq_workers (update_progress i p m d v) = pq_workers v" "length (pq_workers (conclude k i v)) = length (pq_workers v)" for i p m d v k
    by (simp_all add: update_progress_def conclude_def clear_progress_def)
  show ?thesis using a
    by (cases ev)
      (auto simp: pq_step_def submit_def Let_def take_item_def finish_item_def escape_item_def c start_workers_def
        shutdown_workers_def fresh_queue_def extract_tables_def run_task_def
        split: list.splits option.splits prod.splits started.splits bool.splits)
qed

interpretation pq: step_system "fresh_queue t" "pq_step env n" "\<lambda>w. length (pq_workers w) \<le> n" for t env n
  by unfold_locales (simp_all add: fresh_queue_def workers_bounded_step)

text \<open>The events since the last restart, all of them when there was none.\<close>

definition since_restart :: "pq_event list \<Rightarrow> pq_event list" where
  "since_restart evs = rev (takeWhile (\<lambda>ev. ev \<noteq> Restart) (rev evs))"

lemma since_restart_snoc:
  "since_restart (evs @ [ev]) = (if ev = Restart then [] else since_restart evs @ [ev])"
  by (simp add: since_restart_def)

lemma run_items:
  "items (foldl (pq_step env n) (fresh_queue t) evs) = (\<Sum>ev\<leftarrow>since_restart evs. submitted_by ev)"
proof (induction evs rule: rev_induct)
  case Nil
  show ?case by (simp add: since_restart_def items_def fresh_queue_def)
next
  case (snoc ev evs)
  then show ?case
    by (cases "ev = Restart")
      (simp_all add: since_restart_snoc step_items, simp add: pq_step_def, simp add: items_def fresh_queue_def)
qed

section \<open>Lemmas: what is extracting is held\<close>

definition extracting :: "string \<Rightarrow> dataset_table \<Rightarrow> bool" where
  "extracting i t \<longleftrightarrow> (case row_of i t of Some q \<Rightarrow> db_status q = ''extracting'' | None \<Rightarrow> False)"

text \<open>Who may have a dataset in hand: a worker, and an extraction from a database whose first write is done.\<close>

definition at_work :: "stage \<times> (string \<times> wanted) list \<Rightarrow> string list" where
  "at_work task = (if fst task \<in> {Reading, Working} then map fst (take 1 (snd task)) else [])"

definition in_hand :: "string \<Rightarrow> pq_world \<Rightarrow> bool" where
  "in_hand i w \<longleftrightarrow> (\<exists>k r. holds k r w \<and> rec_id r = i) \<or> i \<in> set (concat (map at_work (pq_tasks w)))"

text \<open>What an event drops: the datasets of workers that are cancelled, everything in hand at a restart, and
  what fails while the table cannot be written.\<close>

definition held_ids :: "dataset_rec option list \<Rightarrow> string list" where
  "held_ids ws = map (\<lambda>w. rec_id (the w)) (filter (\<lambda>w. w \<noteq> None) ws)"

definition dropped_by :: "pq_world \<Rightarrow> pq_event \<Rightarrow> string list" where
  "dropped_by w ev =
     (case ev of
        Shutdown \<Rightarrow> held_ids (pq_workers w)
      | Restart \<Rightarrow> held_ids (pq_workers w) @ concat (map at_work (pq_tasks w))
      | Escape k e writable now \<Rightarrow> if writable then [] else held_ids (take 1 (drop k (pq_workers w)))
      | RunTask k (Raises msg) writable now \<Rightarrow>
          if writable then [] else concat (map at_work (take 1 (drop k (pq_tasks w))))
      | _ \<Rightarrow> [])"

fun dropped :: "pq_env \<Rightarrow> nat \<Rightarrow> pq_world \<Rightarrow> pq_event list \<Rightarrow> string list" where
  "dropped env n w [] = []"
| "dropped env n w (ev # evs) = dropped_by w ev @ dropped env n (pq_step env n w ev) evs"

definition extracting_held :: "string set \<Rightarrow> pq_world \<Rightarrow> bool" where
  "extracting_held L w \<longleftrightarrow>
     (\<forall>i. extracting i (pq_table w) \<longrightarrow> in_hand i w \<or> i \<in> L) \<and>
     (\<forall>k r. holds k r w \<longrightarrow> rec_id r \<noteq> ''__migrated__'')"

lemma in_hand_same: "(\<And>k r. holds k r v = holds k r w) \<Longrightarrow> pq_tasks v = pq_tasks w \<Longrightarrow> in_hand i v = in_hand i w"
  by (simp add: in_hand_def)

lemma extracting_held_same:
  assumes "extracting_held L w" "\<And>i. extracting i (pq_table v) \<Longrightarrow> extracting i (pq_table w)" "\<And>k r. holds k r v = holds k r w"
    "pq_tasks v = pq_tasks w"
  shows "extracting_held L v"
  using assms in_hand_same [of v w, OF assms(3,4)] unfolding extracting_held_def by blast

lemma extracting_held_more: "extracting_held L w \<Longrightarrow> L \<subseteq> M \<Longrightarrow> extracting_held M w"
  unfolding extracting_held_def by blast

lemma extracting_heldD: "extracting_held L w \<Longrightarrow> extracting i (pq_table w) \<Longrightarrow> in_hand i w \<or> i \<in> L"
  by (simp add: extracting_held_def)

lemma held_ids_iff: "i \<in> set (held_ids ws) \<longleftrightarrow> (\<exists>k r. k < length ws \<and> ws ! k = Some r \<and> rec_id r = i)"
  by (force simp: held_ids_def in_set_conv_nth image_iff Bex_def)

lemma in_concat_nth: "i \<in> set (concat (map f xs)) \<longleftrightarrow> (\<exists>m. m < length xs \<and> i \<in> set (f (xs ! m)))"
proof -
  have "i \<in> set (concat (map f xs)) \<longleftrightarrow> (\<exists>x. x \<in> set xs \<and> i \<in> set (f x))" by auto
  then show ?thesis unfolding in_set_conv_nth [of _ xs] by blast
qed

lemma tasks_simps [simp]:
  "pq_tasks (update_progress i p n d w) = pq_tasks w" "pq_tasks (conclude k i w) = pq_tasks w"
  "pq_tasks (snd (submit i w)) = pq_tasks w" "pq_tasks (start_workers m w) = pq_tasks w"
  "pq_tasks (cancel_workers ws w) = pq_tasks w" "pq_tasks (shutdown_workers w) = pq_tasks w"
proof -
  have "pq_tasks (cancel_workers ws v) = pq_tasks v" for ws v
    by (induction ws v rule: cancel_workers.induct) (simp_all add: clear_progress_def)
  then show "pq_tasks (cancel_workers ws w) = pq_tasks w" "pq_tasks (shutdown_workers w) = pq_tasks w"
    by (simp_all add: shutdown_workers_def)
qed (simp_all add: update_progress_def conclude_def clear_progress_def submit_def Let_def start_workers_def)

lemma holds_simps [simp]:
  "holds k r (update_progress i p n d w) = holds k r w" "holds k r (w\<lparr>pq_table := t\<rparr>) = holds k r w"
  "holds k r (w\<lparr>pq_queue := q, pq_current := c\<rparr>) = holds k r w"
  "pq_table (update_progress i p n d w) = pq_table w" "pq_table (conclude j i w) = pq_table w"
  "idle k (w\<lparr>pq_table := t\<rparr>) = idle k w" "idle k (update_progress i p n d w) = idle k w"
  by (auto simp: holds_def idle_def update_progress_def conclude_def clear_progress_def)

lemma holds_conclude: "holds k r (conclude j i w) \<longleftrightarrow> k \<noteq> j \<and> holds k r w"
  by (cases "k = j") (auto simp: holds_def conclude_def clear_progress_def)

lemma holds_conclude_idle: "idle j w \<Longrightarrow> holds k r (conclude j i w) = holds k r w"
  unfolding holds_conclude by (auto simp: idle_def holds_def)

text \<open>Ending an item whose row is no longer extracting.\<close>

lemma extracting_held_conclude:
  assumes "extracting_held L w" "holds k r w" "extracting (rec_id r) t \<Longrightarrow> rec_id r \<in> L"
    and "\<And>i. i \<noteq> rec_id r \<Longrightarrow> row_of i t = row_of i (pq_table w)"
  shows "extracting_held L (conclude k (rec_id r) (w\<lparr>pq_table := t\<rparr>))"
  unfolding extracting_held_def
proof (intro conjI allI impI)
  fix i assume a: "extracting i (pq_table (conclude k (rec_id r) (w\<lparr>pq_table := t\<rparr>)))"
  show "in_hand i (conclude k (rec_id r) (w\<lparr>pq_table := t\<rparr>)) \<or> i \<in> L"
  proof (cases "i = rec_id r")
    case True
    then show ?thesis using a assms(3) by simp
  next
    case i: False
    then have "extracting i (pq_table w)" using a assms(4) by (simp add: extracting_def)
    then consider j q where "holds j q w" "rec_id q = i" | "i \<in> set (concat (map at_work (pq_tasks w)))" | "i \<in> L"
      using assms(1) unfolding extracting_held_def in_hand_def by blast
    then show ?thesis
    proof cases
      case 1
      moreover have "j \<noteq> k" using 1 i assms(2) by (auto simp: holds_def)
      ultimately have "\<exists>j q. holds j q (conclude k (rec_id r) (w\<lparr>pq_table := t\<rparr>)) \<and> rec_id q = i"
        by (auto simp: holds_conclude)
      then show ?thesis by (simp add: in_hand_def)
    qed (simp_all add: in_hand_def)
  qed
next
  fix j q assume "holds j q (conclude k (rec_id r) (w\<lparr>pq_table := t\<rparr>))"
  then show "rec_id q \<noteq> ''__migrated__''" using assms(1) by (auto simp: holds_conclude extracting_held_def)
qed

lemma extracting_update:
  assumes "\<And>q. p q \<Longrightarrow> db_id (f q) = db_id q" "\<And>q. p q \<Longrightarrow> db_status (f q) = db_status q"
  shows "extracting i (update_where p f t) = extracting i t"
  using row_of_update [of p f i t] assms by (cases "row_of i t") (auto simp: extracting_def)

lemma confirm_extracting: "extracting i (snd (confirm_dataset j user now t)) = extracting i t"
  by (auto simp: confirm_dataset_def extracting_update split: option.splits)

lemma confirm_batch_extracting: "extracting i (snd (confirm_batch b user now t)) = extracting i t"
  by (auto simp: confirm_batch_def Let_def stamp_def intro!: extracting_update)

lemma delete_rows: "row_of i (snd (delete_endpoint j now t)) =
  (if i = j \<and> get_dataset j t \<noteq> None then None else row_of i t)"
proof (cases "get_dataset j t")
  case (Some r)
  define t1 where "t1 = (if rec_status r \<in> {UPLOADED, EXTRACTING, PREVIEW_READY} then set_status j CANCELLED now t else t)"
  have "row_of i t1 = map_option (\<lambda>q. if rec_status r \<in> {UPLOADED, EXTRACTING, PREVIEW_READY} \<and> db_id q = j
      then q\<lparr>db_status := status_value CANCELLED, db_updated_at := now\<rparr> else q) (row_of i t)" for i
    using row_of_update [of "\<lambda>q. db_id q = j" "\<lambda>q. q\<lparr>db_status := status_value CANCELLED, db_updated_at := now\<rparr>" i t]
    by (cases "row_of i t") (auto simp: t1_def set_status_def)
  note t1 = this
  have j: "j \<noteq> ''__migrated__''" "row_of j t \<noteq> None" using get_dataset_id [OF Some] get_dataset_row [OF Some] by auto
  obtain q where q: "row_of j t1 = Some q" using j(2) t1 [of j] by auto
  then have "get_dataset j t1 \<noteq> None" using j(1) row_of_in [OF q] by (simp add: get_dataset_def)
  then have d: "delete_endpoint j now t = (200, filter (\<lambda>q. db_id q \<noteq> j) t1)"
    unfolding delete_endpoint_def Some option.case Let_def t1_def [symmetric] by (simp add: delete_dataset_def)
  have "i \<noteq> j \<Longrightarrow> row_of i t1 = row_of i t" using t1 [of i] row_of_in [of i t] by (cases "row_of i t") auto
  then show ?thesis unfolding d using Some by (simp add: row_of_delete)
qed (simp add: delete_endpoint_def)

lemma create_extracting:
  assumes "row_of i t = None"
  shows "extracting j (snd (create_dataset disk i name ft now t)) \<Longrightarrow> extracting j t"
  using assms
  by (auto simp: create_dataset_def Let_def extracting_def row_of_save record_to_db_def new_record_def status_value_def
      split: if_splits option.splits)

lemma ensure_error_extracting:
  "extracting j (ensure_error_status env ok i e now t) \<Longrightarrow> extracting j t"
  using get_dataset_id [of i t]
  by (auto simp: extracting_def ensure_error_status_def row_of_save overwrite_def record_to_db_def status_value_def
      split: option.splits if_splits)

lemma take_extracting:
  assumes "extracting_held L w"
  shows "extracting_held L (take_item env k failing ok now w)"
proof (cases "pq_queue w")
  case (Cons i q)
  show ?thesis
  proof (cases "idle k w")
    case True
    let ?w = "update_progress i ''extracting'' 0 STARTING (w\<lparr>pq_queue := q, pq_current := Some i\<rparr>)"
    have idle: "idle k (?w\<lparr>pq_table := t\<rparr>)" for t using True by (simp add: idle_def update_progress_def)
    have hw: "holds j r ?w = holds j r w" for j r by (simp add: holds_def update_progress_def)
    obtain x t where e: "process_start env failing now i (pq_table w) = (x, t)" by fastforce
    note rows = process_start_rows [OF e]
    show ?thesis
    proof (cases x)
      case (Raised ex)
      have "t = pq_table w" using rows(3) Raised by auto
      then have t: "take_item env k failing ok now w =
          conclude k i (?w\<lparr>pq_table := ensure_error_status env ok i ex now (pq_table w)\<rparr>)"
        using Cons True e Raised by (simp add: take_item_def Let_def)
      show ?thesis unfolding t
        using ensure_error_extracting [of _ env ok i ex now "pq_table w"]
        by (intro extracting_held_same [OF assms]) (simp_all add: holds_conclude_idle [OF idle] hw)
    next
      case Returned
      then have t: "take_item env k failing ok now w = conclude k i (?w\<lparr>pq_table := t\<rparr>)"
        using Cons True e by (simp add: take_item_def Let_def)
      have "extracting j t \<Longrightarrow> extracting j (pq_table w)" for j
        using rows(1) [of j] rows(2) [OF Returned] terminal_not_extracting
        by (cases "j = i") (auto simp: extracting_def)
      then show ?thesis unfolding t
        by (intro extracting_held_same [OF assms]) (simp_all add: holds_conclude_idle [OF idle] hw)
    next
      case (Waiting r)
      let ?v = "?w\<lparr>pq_workers := (pq_workers w)[k := Some r], pq_table := t\<rparr>"
      have t: "take_item env k failing ok now w = ?v" using Cons True e Waiting by (simp add: take_item_def Let_def)
      have r: "rec_id r = i \<and> i \<noteq> ''__migrated__''" using process_start_waiting e Waiting by blast
      have h: "holds j p ?v \<longleftrightarrow> (j = k \<and> p = r) \<or> holds j p w" for j p
        using True by (auto simp: holds_def idle_def nth_list_update)
      show ?thesis unfolding t extracting_held_def
      proof (intro conjI allI impI)
        fix j assume a: "extracting j (pq_table ?v)"
        show "in_hand j ?v \<or> j \<in> L"
        proof (cases "j = i")
          case True
          then have "\<exists>k' p. holds k' p ?v \<and> rec_id p = j" using h r by blast
          then show ?thesis unfolding in_hand_def by blast
        next
          case False
          then have "extracting j (pq_table w)" using a rows(1) by (simp add: extracting_def)
          then have "in_hand j w \<or> j \<in> L" using assms unfolding extracting_held_def by blast
          moreover have "in_hand j w \<Longrightarrow> in_hand j ?v" using h unfolding in_hand_def by simp blast
          ultimately show ?thesis by blast
        qed
      next
        fix k' p assume "holds k' p ?v"
        then have "(k' = k \<and> p = r) \<or> holds k' p w" by (rule iffD1 [OF h])
        then show "rec_id p \<noteq> ''__migrated__''" using assms r unfolding extracting_held_def by blast
      qed
    qed
  qed (simp add: take_item_def Cons assms)
qed (simp add: take_item_def assms)

lemma cancel_fields:
  "pq_queue (cancel_workers ws w) = pq_queue w" "pq_table (cancel_workers ws w) = pq_table w"
  by (induction ws w rule: cancel_workers.induct) (simp_all add: clear_progress_def)

lemma extracting_update_id:
  assumes "\<And>q. db_id (f q) = db_id q"
  shows "extracting j (update_where (\<lambda>q. db_id q = i) f t) \<longleftrightarrow>
    (if j = i then (case row_of i t of None \<Rightarrow> False | Some q \<Rightarrow> db_status (f q) = ''extracting'') else extracting j t)"
  using row_of_update [of "\<lambda>q. db_id q = i" f j t] assms row_of_in [of j t]
  by (cases "row_of j t") (auto simp: extracting_def)

lemma extracting_failed:
  "extracting j (update_where (\<lambda>q. db_id q = i) (failed_row msg now) t) \<longleftrightarrow> j \<noteq> i \<and> extracting j t"
  by (subst extracting_update_id) (auto simp: failed_row_def status_value_def split: option.splits)

lemma extracting_stage:
  "extracting j (update_where (\<lambda>q. db_id q = i) (stage_row st x m path found now) t) \<longleftrightarrow>
    (if j = i \<and> st \<in> {Wanted, Reading, Working} then row_of i t \<noteq> None \<and> st \<noteq> Working else extracting j t)"
proof -
  have "db_id (stage_row st x m path found now q) = db_id q" for q
    by (cases st) (simp_all add: stage_row_def merge_metadata_def)
  then show ?thesis
    by (subst extracting_update_id)
      (cases st; auto simp: stage_row_def merge_metadata_def status_value_def extracting_def split: option.splits)+
qed

lemma extraction_step_rows:
  assumes "extraction_step out ok now task t = (task', t')"
  shows "extracting j t' \<Longrightarrow> extracting j t \<or> j \<in> set (at_work task')"
    and "extracting j t' \<Longrightarrow> j \<in> set (at_work task) \<Longrightarrow> j \<in> set (at_work task') \<or> (\<exists>msg. out = Raises msg \<and> \<not> ok)"
proof -
  obtain st xs where task: "task = (st, xs)" by fastforce
  have both: "(extracting j t' \<longrightarrow> extracting j t \<or> j \<in> set (at_work task')) \<and>
    (extracting j t' \<longrightarrow> j \<in> set (at_work task) \<longrightarrow> j \<in> set (at_work task') \<or> (\<exists>msg. out = Raises msg \<and> \<not> ok))"
  proof (cases xs)
    case Nil
    then show ?thesis using assms task by (auto simp: extraction_step_def at_work_def)
  next
    case (Cons p ps)
    obtain i x where p: "p = (i, x)" by fastforce
    show ?thesis
    proof (cases out)
      case (Goes m path found)
      then show ?thesis using assms unfolding task Cons p
        by (cases st)
          (auto simp: extraction_step_def extracting_stage extracting_failed at_work_def split: if_splits option.splits)
    next
      case (Raises msg)
      then show ?thesis using assms unfolding task Cons p
        by (cases st)
          (auto simp: extraction_step_def extracting_stage extracting_failed at_work_def split: if_splits option.splits)
    qed
  qed
  show "extracting j t' \<Longrightarrow> extracting j t \<or> j \<in> set (at_work task')" using both by blast
  show "extracting j t' \<Longrightarrow> j \<in> set (at_work task) \<Longrightarrow> j \<in> set (at_work task') \<or> (\<exists>msg. out = Raises msg \<and> \<not> ok)"
    using both by blast
qed

lemma run_task_extracting:
  assumes "extracting_held L w"
  shows "extracting_held (L \<union> set (dropped_by w (RunTask k out ok now))) (run_task k out ok now w)"
proof (cases "k < length (pq_tasks w)")
  case k: True
  obtain task' t' where e: "extraction_step out ok now (pq_tasks w ! k) (pq_table w) = (task', t')" by fastforce
  let ?v = "w\<lparr>pq_table := t', pq_tasks := (pq_tasks w)[k := task']\<rparr>"
  have v: "run_task k out ok now w = ?v" using k e by (simp add: run_task_def)
  have h: "holds j r ?v = holds j r w" for j r by (simp add: holds_def)
  have in_tasks: "\<exists>m. m < length (pq_tasks w) \<and> i \<in> set (at_work (pq_tasks w ! m))"
    if "i \<in> set (concat (map at_work (pq_tasks w)))" for i
    using that by (simp only: in_concat_nth)
  show ?thesis unfolding v extracting_held_def
  proof (intro conjI allI impI)
    fix i assume a: "extracting i (pq_table ?v)"
    show "in_hand i ?v \<or> i \<in> L \<union> set (dropped_by w (RunTask k out ok now))"
    proof (cases "i \<in> set (at_work task')")
      case True
      then show ?thesis using k by (auto simp: in_hand_def intro!: bexI [of _ task'] set_update_memI)
    next
      case False
      then have "extracting i (pq_table w)" using extraction_step_rows(1) [OF e, of i] a by simp
      then consider j r where "holds j r w" "rec_id r = i" | m where "m < length (pq_tasks w)" "i \<in> set (at_work (pq_tasks w ! m))"
        | "i \<in> L"
        using assms in_tasks [of i] unfolding extracting_held_def in_hand_def by blast
      then show ?thesis
      proof cases
        case 1
        then show ?thesis using h unfolding in_hand_def by blast
      next
        case (2 m)
        show ?thesis
        proof (cases "m = k")
          case True
          then obtain msg where "out = Raises msg" "\<not> ok" using extraction_step_rows(2) [OF e, of i] a 2 False by auto
          then show ?thesis using 2 True k by (simp add: dropped_by_def flip: Cons_nth_drop_Suc)
        next
          case m: False
          have "(pq_tasks w ! m) \<in> set ((pq_tasks w)[k := task'])"
            using 2(1) m nth_mem [of m "(pq_tasks w)[k := task']"] by simp
          then show ?thesis using 2 by (auto simp: in_hand_def)
        qed
      qed simp
    qed
  next
    fix j r assume "holds j r ?v"
    then show "rec_id r \<noteq> ''__migrated__''" using assms h unfolding extracting_held_def by blast
  qed
qed (use extracting_held_more [OF assms] in \<open>simp add: run_task_def\<close>)

lemma add_wanted_extracting: "extracting j (snd (add_wanted conn xs now t)) \<Longrightarrow> extracting j t"
proof (induction conn xs now t rule: add_wanted.induct)
  case (2 conn i x xs now t)
  then show ?case
    by (auto simp: extracting_def row_of_append wanted_row_def status_value_def split: if_splits option.splits)
qed simp

lemma extract_extracting: "extracting_held L w \<Longrightarrow> extracting_held L (extract_tables conn xs now w)"
proof -
  assume a: "extracting_held L w"
  obtain b t where e: "add_wanted conn xs now (pq_table w) = (b, t)" by fastforce
  have t: "extracting j t \<Longrightarrow> extracting j (pq_table w)" for j using add_wanted_extracting [of j conn xs now "pq_table w"] e by simp
  have h: "holds k r (extract_tables conn xs now w) = holds k r w" for k r
    using e by (cases b) (simp_all add: extract_tables_def holds_def)
  have "set (concat (map at_work (pq_tasks w))) \<subseteq> set (concat (map at_work (pq_tasks (extract_tables conn xs now w))))"
    using e by (cases b) (auto simp: extract_tables_def)
  then have "in_hand i w \<Longrightarrow> in_hand i (extract_tables conn xs now w)" for i
    unfolding in_hand_def h by blast
  moreover have "pq_table (extract_tables conn xs now w) = t" using e by (cases b) (simp_all add: extract_tables_def)
  ultimately show ?thesis using a t h unfolding extracting_held_def by metis
qed

lemma shutdown_extracting: "extracting_held L w \<Longrightarrow> extracting_held (L \<union> set (held_ids (pq_workers w))) (shutdown_workers w)"
  by (auto simp: extracting_held_def in_hand_def held_ids_iff holds_def)
    (auto simp: shutdown_workers_def cancel_fields)

lemma restart_extracting:
  "extracting_held L w \<Longrightarrow> extracting_held (L \<union> set (held_ids (pq_workers w) @ concat (map at_work (pq_tasks w))))
     (start_workers n (fresh_queue (pq_table w)))"
  by (auto simp: extracting_held_def in_hand_def held_ids_iff holds_def)
    (auto simp: start_workers_def fresh_queue_def)

lemma step_extracting:
  assumes "extracting_held L w"
  shows "extracting_held (L \<union> set (dropped_by w ev)) (pq_step env n w ev)"
proof -
  have same: ?thesis if "\<And>i. extracting i (pq_table (pq_step env n w ev)) \<Longrightarrow> extracting i (pq_table w)"
    "\<And>k r. holds k r (pq_step env n w ev) = holds k r w" "pq_tasks (pq_step env n w ev) = pq_tasks w"
    using extracting_held_more [OF extracting_held_same [OF assms that]] by blast
  show ?thesis
  proof (cases ev)
    case (Create i name ft now)
    show ?thesis unfolding Create
      by (intro same [unfolded Create]) (auto simp: pq_step_def dest: create_extracting split: if_splits)
  next
    case (Submit i)
    have "holds k r (snd (submit i w)) = holds k r w" "pq_table (snd (submit i w)) = pq_table w" for k r
      by (simp_all add: submit_def Let_def) (simp add: holds_def)
    then show ?thesis using Submit by (intro same) (simp_all add: pq_step_def)
  next
    case (Take k failing ok now)
    then show ?thesis using extracting_held_more [OF take_extracting [OF assms]] by (simp add: pq_step_def)
  next
    case (Finish k a b pii stats now)
    show ?thesis
    proof (cases "\<exists>r. holds k r w")
      case True
      then obtain r where r: "holds k r w" by blast
      let ?t = "process_finish env a b pii stats now r (pq_table w)"
      have "\<not> extracting (rec_id r) ?t"
        using process_finish_row [of r env a b pii stats now "pq_table w"] terminal_not_extracting
        by (auto simp: extracting_def)
      then have "extracting_held L (conclude k (rec_id r) (w\<lparr>pq_table := ?t\<rparr>))"
        using extracting_held_conclude [OF assms r] process_finish_others by blast
      then show ?thesis using Finish r by (simp add: pq_step_def finish_item_def holds_def dropped_by_def)
    next
      case False
      then show ?thesis using Finish assms
        by (auto simp: pq_step_def finish_item_def holds_def dropped_by_def split: option.splits)
    qed
  next
    case (Escape k e ok now)
    show ?thesis
    proof (cases "\<exists>r. holds k r w")
      case True
      then obtain r where r: "holds k r w" by blast
      let ?t = "ensure_error_status env ok (rec_id r) e now (pq_table w)" and ?L = "L \<union> set (dropped_by w ev)"
      have "rec_id r \<noteq> ''__migrated__''" using assms r by (auto simp: extracting_held_def)
      then have "ok \<Longrightarrow> \<not> extracting (rec_id r) ?t"
        using ensure_error_rows(2) [of "rec_id r" env e now "pq_table w"] by (auto simp: extracting_def split: option.splits)
      moreover have "\<not> ok \<Longrightarrow> rec_id r \<in> ?L"
        using r Escape by (simp add: dropped_by_def holds_def take_Suc_conv_app_nth held_ids_def flip: Cons_nth_drop_Suc)
      ultimately have "extracting_held ?L (conclude k (rec_id r) (w\<lparr>pq_table := ?t\<rparr>))"
        using extracting_held_conclude [OF extracting_held_more [OF assms, of ?L] r] ensure_error_rows(1) by blast
      then show ?thesis using Escape r by (simp add: pq_step_def escape_item_def holds_def)
    next
      case False
      then show ?thesis using Escape extracting_held_more [OF assms, of "L \<union> set (dropped_by w ev)"]
        by (auto simp: pq_step_def escape_item_def holds_def split: option.splits)
    qed
  next
    case (DeleteDataset i now)
    have "extracting j (snd (delete_endpoint i now (pq_table w))) \<Longrightarrow> extracting j (pq_table w)" for j
      by (auto simp: extracting_def delete_rows split: if_splits)
    then show ?thesis using DeleteDataset by (intro same) (simp_all add: pq_step_def)
  next
    case Start
    have "holds k r (start_workers n w) = holds k r w" for k r
      by (auto simp: holds_def start_workers_def nth_append)
    moreover have "pq_table (start_workers n w) = pq_table w" by (simp add: start_workers_def)
    ultimately show ?thesis using Start by (intro same) (simp_all add: pq_step_def)
  next
    case (Extract conn xs now)
    then show ?thesis using extracting_held_more [OF extract_extracting [OF assms]] by (simp add: pq_step_def)
  next
    case (RunTask k out ok now)
    then show ?thesis using run_task_extracting [OF assms] by (simp add: pq_step_def)
  next
    case Shutdown
    then show ?thesis using shutdown_extracting [OF assms] by (simp add: pq_step_def dropped_by_def)
  next
    case Restart
    then show ?thesis using restart_extracting [OF assms] by (simp add: pq_step_def dropped_by_def)
  next
    case (Progress i p m d)
    then show ?thesis by (intro same) (simp_all add: pq_step_def)
  next
    case (Confirm i user now)
    then show ?thesis by (intro same) (simp_all add: pq_step_def confirm_extracting)
  next
    case (ConfirmBatch b user now)
    then show ?thesis by (intro same) (simp_all add: pq_step_def confirm_batch_extracting)
  qed
qed

lemma run_extracting:
  "extracting_held L w \<Longrightarrow> extracting_held (L \<union> set (dropped env n w evs)) (foldl (pq_step env n) w evs)"
proof (induction evs arbitrary: w L)
  case (Cons ev evs)
  then show ?case using Cons.IH [OF step_extracting [OF Cons.prems]] by (simp add: Un_assoc)
qed simp

section \<open>Properties\<close>

text \<open>C20: no submitted dataset is lost or processed twice while the process runs: over every sequence of
  submissions, worker steps, failures, table operations, extractions from databases, shutdowns of the workers and
  restarts, what is waiting, what the workers hold and what was concluded is what was submitted since the last
  restart, each as often as it was; what was submitted before it is forgotten.\<close>

theorem submitted_items_conserved:
  "mset (pq_queue (foldl (pq_step env n) (fresh_queue t) evs)) + held (pq_workers (foldl (pq_step env n) (fresh_queue t) evs))
    + mset (pq_done (foldl (pq_step env n) (fresh_queue t) evs)) = (\<Sum>ev\<leftarrow>since_restart evs. submitted_by ev)"
  using run_items [of env n t evs] by (simp add: items_def)

text \<open>C21: a dataset is \<open>extracting\<close> only while a worker holds it or an extraction from a database has written
  its first status and not its last, so that no failure leaves it there: in every run, whatever the extractions
  return or raise, unless the dataset was dropped: held by a worker that was cancelled at a shutdown, in hand at a
  restart, or failed while the table could not be written.\<close>

theorem extracting_only_while_held:
  assumes "\<And>i. \<not> extracting i t" and "i \<notin> set (dropped env n (fresh_queue t) evs)"
    and "extracting i (pq_table (foldl (pq_step env n) (fresh_queue t) evs))"
  shows "(\<exists>k r. holds k r (foldl (pq_step env n) (fresh_queue t) evs) \<and> rec_id r = i) \<or>
    i \<in> set (concat (map at_work (pq_tasks (foldl (pq_step env n) (fresh_queue t) evs))))"
proof -
  have "extracting_held {} (fresh_queue t)"
    using assms(1) by (simp add: extracting_held_def fresh_queue_def holds_def)
  from extracting_heldD [OF run_extracting [OF this] assms(3)] assms(2) show ?thesis
    by (simp only: in_hand_def Un_empty_left) blast
qed

lemma concurrency_bounds: "1 \<le> auto_detect_concurrency m \<and> auto_detect_concurrency (m\<lparr>mc_env := None\<rparr>) \<le> 8"
proof -
  have "1 \<le> (case py_int v of Some n \<Rightarrow> max 1 n | None \<Rightarrow> 2)" for v by (cases "py_int v") simp_all
  then have "1 \<le> auto_detect_concurrency m"
    by (cases "mc_env m") (simp_all only: auto_detect_concurrency_def Let_def option.case max.cobounded1)
  moreover have "auto_detect_concurrency (m\<lparr>mc_env := None\<rparr>) \<le> 8"
  proof -
    have "mc_env (m\<lparr>mc_env := None\<rparr>) = None" by simp
    then show ?thesis by (simp only: auto_detect_concurrency_def Let_def option.case) simp
  qed
  ultimately show ?thesis by blast
qed

text \<open>Also: the workers never hold more datasets than the concurrency allows, and the concurrency that is
  detected without an override lies between 1 and 8.\<close>

theorem processing_bounded:
  "length (pq_workers (foldl (pq_step env n) (fresh_queue t) evs)) \<le> n \<and>
   1 \<le> auto_detect_concurrency m \<and> auto_detect_concurrency (m\<lparr>mc_env := None\<rparr>) \<le> 8"
  using concurrency_bounds [of m] pq.run_inv by blast

text \<open>Also: the end of an extraction writes the worker's copy of the record over whatever the table holds.
  A dataset that was deleted while it was extracted is in the table again; one that was confirmed or
  published meanwhile has the confirmation and the listing that the copy had when the extraction began.\<close>

theorem extraction_overwrites_meanwhile:
  assumes "holds k r w"
  shows "\<exists>q. row_of (rec_id r) (pq_table (finish_item env k a b pii stats now w)) = Some q \<and>
    db_confirmed_at q = rec_confirmed_at r \<and> db_confirmed_by q = rec_confirmed_by r \<and>
    db_listing_id q = rec_listing_id r \<and> terminal (db_status q)"
  using assms process_finish_row [of r env a b pii stats now "pq_table w"]
  by (auto simp: finish_item_def holds_def written_by_def)

lemma deleted_row_gone:
  "get_dataset i (pq_table w) \<noteq> None \<Longrightarrow> row_of i (pq_table (pq_step env n w (DeleteDataset i now))) = None"
  by (auto simp: pq_step_def delete_rows)

text \<open>Also: with more than one worker, the queue position of a dataset that is being processed is lost as
  soon as another worker takes an item: it is reported as neither running nor waiting.\<close>

theorem running_position_lost:
  assumes "holds k r w" and "pq_queue w = j # q" and "idle k' w" and "j \<noteq> rec_id r" and "rec_id r \<notin> set q"
  shows "holds k r (take_item env k' failing writable now w) \<and> get_position (rec_id r) (take_item env k' failing writable now w) = None"
proof -
  let ?w = "update_progress j ''extracting'' 0 STARTING (w\<lparr>pq_queue := q, pq_current := Some j\<rparr>)"
  have p: "position_from m i xs = None" if "i \<notin> set xs" for m i xs
    using that by (induction xs arbitrary: m) auto
  have kk: "k \<noteq> k'" using assms(1,3) by (auto simp: holds_def idle_def)
  have c: "get_position (rec_id r) (conclude k' j (?w\<lparr>pq_table := t\<rparr>)) = None" for t
    using p [OF assms(5)] by (simp add: get_position_def conclude_def clear_progress_def update_progress_def)
  have h: "holds k r (conclude k' j (?w\<lparr>pq_table := t\<rparr>))" for t
    using assms(1) kk unfolding holds_conclude by (simp add: holds_def update_progress_def)
  obtain x t where e: "process_start env failing now j (pq_table w) = (x, t)" by fastforce
  show ?thesis
  proof (cases x)
    case (Waiting s)
    then show ?thesis using assms kk e p [OF assms(5)]
      by (simp add: take_item_def Let_def get_position_def update_progress_def) (simp add: holds_def)
  qed (use assms e c h in \<open>simp_all add: take_item_def Let_def\<close>)
qed

text \<open>What a dataset waits for: its submission, or its deletion.\<close>

definition concerns :: "string \<Rightarrow> pq_event \<Rightarrow> bool" where
  "concerns i ev = (case ev of Submit j \<Rightarrow> i = j | DeleteDataset j now \<Rightarrow> i = j | _ \<Rightarrow> False)"

definition unattended :: "string \<Rightarrow> pq_world \<Rightarrow> bool" where
  "unattended i w \<longleftrightarrow> i \<notin> set (pq_queue w) \<and> (\<forall>k r. holds k r w \<longrightarrow> rec_id r \<noteq> i) \<and>
     i \<notin> set (concat (map (\<lambda>task. map fst (snd task)) (pq_tasks w)))"

lemma unattended_conclude: "unattended i w \<Longrightarrow> unattended i (conclude k j (w\<lparr>pq_table := t\<rparr>))"
  unfolding unattended_def holds_conclude by (simp add: conclude_def clear_progress_def) blast

definition status_of :: "string \<Rightarrow> dataset_table \<Rightarrow> string option" where
  "status_of i t = map_option db_status (row_of i t)"

lemma status_update:
  assumes "\<And>q. p q \<Longrightarrow> db_id (f q) = db_id q" "\<And>q. p q \<Longrightarrow> db_status (f q) = db_status q"
  shows "status_of i (update_where p f t) = status_of i t"
  using row_of_update [of p f i t] assms by (cases "row_of i t") (auto simp: status_of_def)

lemma take_unattended:
  assumes "unattended i w"
  shows "unattended i (take_item env k failing ok now w) \<and> status_of i (pq_table (take_item env k failing ok now w)) = status_of i (pq_table w)"
proof (cases "pq_queue w")
  case (Cons j q)
  show ?thesis
  proof (cases "idle k w")
    case True
    let ?w = "update_progress j ''extracting'' 0 STARTING (w\<lparr>pq_queue := q, pq_current := Some j\<rparr>)"
    have j: "i \<noteq> j" using assms Cons by (auto simp: unattended_def)
    have u: "unattended i ?w" using assms Cons by (auto simp: unattended_def) (simp add: update_progress_def)
    obtain x t where e: "process_start env failing now j (pq_table w) = (x, t)" by fastforce
    have t: "status_of i t = status_of i (pq_table w)" using process_start_rows(1) [OF e j] by (simp add: status_of_def)
    show ?thesis
    proof (cases x)
      case (Raised ex)
      have "status_of i (ensure_error_status env ok j ex now t) = status_of i t"
        using ensure_error_rows(1) [OF j] by (simp add: status_of_def)
      then show ?thesis using Cons True e Raised t unattended_conclude [OF u] by (simp add: take_item_def Let_def)
    next
      case Returned
      then show ?thesis using Cons True e t unattended_conclude [OF u] by (simp add: take_item_def Let_def)
    next
      case (Waiting r)
      have "rec_id r = j" using process_start_waiting e Waiting by blast
      then have "unattended i (?w\<lparr>pq_workers := (pq_workers w)[k := Some r], pq_table := t\<rparr>)"
        using u j True by (auto simp: unattended_def holds_def idle_def update_progress_def nth_list_update split: if_splits)
      then show ?thesis using Cons True e Waiting t by (simp add: take_item_def Let_def)
    qed
  qed (simp add: take_item_def Cons assms)
qed (simp add: take_item_def assms)

lemma add_wanted_others:
  "row_of j t \<noteq> None \<Longrightarrow> row_of j (snd (add_wanted conn xs now t)) = row_of j t \<and>
    (fst (add_wanted conn xs now t) \<longrightarrow> j \<notin> fst ` set xs)"
proof (induction conn xs now t rule: add_wanted.induct)
  case (2 conn i x xs now t)
  then show ?case by (cases "row_of j t"; cases "row_of i t"; cases "j = i") (simp_all add: row_of_append)
qed simp

lemma extraction_step_others:
  assumes "extraction_step out ok now task t = (task', t')"
  shows "j \<notin> fst ` set (snd task) \<Longrightarrow> row_of j t' = row_of j t" and "fst ` set (snd task') \<subseteq> fst ` set (snd task)"
proof -
  obtain st xs where task: "task = (st, xs)" by fastforce
  have u: "row_of j (update_where (\<lambda>q. db_id q = i) f t) = row_of j t" if "\<And>q. db_id (f q) = db_id q" "j \<noteq> i" for f i
    using row_of_update [of "\<lambda>q. db_id q = i" f j t] that row_of_in [of j t] by (cases "row_of j t") auto
  have f: "db_id (failed_row msg now q) = db_id q" "db_id (stage_row st x m path found now q) = db_id q" for msg q x m path found
    by (cases st; simp add: failed_row_def stage_row_def merge_metadata_def)+
  show "j \<notin> fst ` set (snd task) \<Longrightarrow> row_of j t' = row_of j t"
    using assms u f unfolding task
    by (cases xs) (auto simp: extraction_step_def split: outcome.splits if_splits)
  have "snd task' = xs \<or> snd task' = tl xs \<or> snd task' = []"
    using assms unfolding task
    by (cases xs; cases out; cases st) (auto simp: extraction_step_def split: if_splits)
  then show "fst ` set (snd task') \<subseteq> fst ` set (snd task)"
    unfolding task by (cases xs) auto
qed

lemma step_unattended:
  assumes "unattended i w" "status_of i (pq_table w) \<noteq> None" "\<not> concerns i ev"
  shows "unattended i (pq_step env n w ev) \<and> status_of i (pq_table (pq_step env n w ev)) = status_of i (pq_table w)"
proof (cases ev)
  case (Create j name ft now)
  have "status_of i (snd (create_dataset (pe_disk env) j name ft now (pq_table w))) = status_of i (pq_table w)"
    if "row_of j (pq_table w) = None"
    using that assms(2)
    by (auto simp: create_dataset_def Let_def status_of_def row_of_save new_record_def)
  then show ?thesis using assms(1) Create by (auto simp: pq_step_def unattended_def)
next
  case (Submit j)
  then show ?thesis using assms(1,3)
    by (simp add: pq_step_def submit_def Let_def unattended_def concerns_def) (simp add: update_progress_def holds_def)
next
  case (Take k failing ok now)
  then show ?thesis using take_unattended [OF assms(1)] by (simp add: pq_step_def)
next
  case (Finish k a b pii stats now)
  show ?thesis
  proof (cases "\<exists>r. holds k r w")
    case True
    then obtain r where r: "holds k r w" by blast
    then have "i \<noteq> rec_id r" using assms(1) by (auto simp: unattended_def)
    then show ?thesis using Finish r unattended_conclude [OF assms(1)] process_finish_others
      by (simp add: pq_step_def finish_item_def status_of_def) (simp add: holds_def)
  next
    case False
    then show ?thesis using Finish assms(1) by (auto simp: pq_step_def finish_item_def holds_def split: option.splits)
  qed
next
  case (Escape k e ok now)
  show ?thesis
  proof (cases "\<exists>r. holds k r w")
    case True
    then obtain r where r: "holds k r w" by blast
    then have "i \<noteq> rec_id r" using assms(1) by (auto simp: unattended_def)
    then show ?thesis using Escape r unattended_conclude [OF assms(1)] ensure_error_rows(1)
      by (simp add: pq_step_def escape_item_def status_of_def) (simp add: holds_def)
  next
    case False
    then show ?thesis using Escape assms(1) by (auto simp: pq_step_def escape_item_def holds_def split: option.splits)
  qed
next
  case (Progress j p m d)
  then show ?thesis using assms(1) by (simp add: pq_step_def unattended_def) (simp add: update_progress_def)
next
  case (Confirm j user now)
  have "status_of i (snd (confirm_dataset j user now (pq_table w))) = status_of i (pq_table w)"
    by (auto simp: confirm_dataset_def status_update split: option.splits)
  then show ?thesis using assms(1) Confirm by (simp add: pq_step_def unattended_def)
next
  case (ConfirmBatch b user now)
  have "status_of i (snd (confirm_batch b user now (pq_table w))) = status_of i (pq_table w)"
    by (auto simp: confirm_batch_def Let_def stamp_def intro!: status_update)
  then show ?thesis using assms(1) ConfirmBatch by (simp add: pq_step_def unattended_def)
next
  case (DeleteDataset j now)
  then have "status_of i (snd (delete_endpoint j now (pq_table w))) = status_of i (pq_table w)"
    using assms(3) by (simp add: status_of_def delete_rows concerns_def)
  then show ?thesis using assms(1) DeleteDataset by (simp add: pq_step_def unattended_def)
next
  case Start
  then show ?thesis using assms(1) by (auto simp: pq_step_def unattended_def start_workers_def holds_def nth_append split: if_splits)
next
  case Shutdown
  then show ?thesis using assms(1)
    by (simp add: pq_step_def shutdown_workers_def unattended_def cancel_fields holds_def)
next
  case (Extract conn xs now)
  obtain b t where e: "add_wanted conn xs now (pq_table w) = (b, t)" by fastforce
  have r: "row_of i (pq_table w) \<noteq> None" using assms(2) by (simp add: status_of_def)
  have "status_of i t = status_of i (pq_table w)" "b \<Longrightarrow> i \<notin> fst ` set xs"
    using add_wanted_others [OF r, of conn xs now] e by (simp_all add: status_of_def)
  then show ?thesis using assms(1) e Extract
    by (cases b) (simp_all add: pq_step_def extract_tables_def unattended_def, simp_all add: holds_def)
next
  case (RunTask k out ok now)
  show ?thesis
  proof (cases "k < length (pq_tasks w)")
    case True
    obtain task' t where e: "extraction_step out ok now (pq_tasks w ! k) (pq_table w) = (task', t)" by fastforce
    have i: "i \<notin> fst ` set (snd task)" if "task \<in> set (pq_tasks w)" for task
      using assms(1) that by (auto simp: unattended_def)
    note o = extraction_step_others [OF e]
    have k: "i \<notin> fst ` set (snd (pq_tasks w ! k))" using i True by simp
    have "i \<notin> fst ` set (snd task)" if "task \<in> set ((pq_tasks w)[k := task'])" for task
      using that k o(2) i set_update_subset_insert [of "pq_tasks w" k task'] by blast
    moreover have "status_of i t = status_of i (pq_table w)" using o(1) [OF k] by (simp add: status_of_def)
    ultimately show ?thesis using assms(1) RunTask True e
      by (simp add: pq_step_def run_task_def unattended_def) (simp add: holds_def)
  qed (use assms RunTask in \<open>simp add: pq_step_def run_task_def\<close>)
next
  case Restart
  then show ?thesis by (auto simp: pq_step_def unattended_def start_workers_def fresh_queue_def holds_def)
qed

lemma run_unattended:
  "unattended i w \<Longrightarrow> status_of i (pq_table w) \<noteq> None \<Longrightarrow> list_all (\<lambda>ev. \<not> concerns i ev) evs \<Longrightarrow>
   status_of i (pq_table (foldl (pq_step env n) w evs)) = status_of i (pq_table w)"
proof (induction evs arbitrary: w)
  case (Cons ev evs)
  then have "unattended i (pq_step env n w ev) \<and> status_of i (pq_table (pq_step env n w ev)) = status_of i (pq_table w)"
    by (intro step_unattended) auto
  then show ?case using Cons by simp
qed simp

text \<open>Also: a restart strands what was being processed or waited: the queue is gone, nothing at startup
  looks for such datasets, and a dataset that was \<open>extracting\<close> or \<open>uploaded\<close> keeps that status for ever,
  whatever happens, until somebody submits it again or deletes it.\<close>

theorem restart_strands_datasets:
  assumes "status_of i (pq_table w) = Some s" and "list_all (\<lambda>ev. \<not> concerns i ev) evs"
  shows "status_of i (pq_table (foldl (pq_step env n) (pq_step env n w Restart) evs)) = Some s"
proof -
  have u: "unattended i (pq_step env n w Restart)" and t: "pq_table (pq_step env n w Restart) = pq_table w"
    by (auto simp: pq_step_def unattended_def start_workers_def fresh_queue_def holds_def)
  show ?thesis using run_unattended [OF u _ assms(2)] assms(1) unfolding t by simp
qed

section \<open>Concrete runs\<close>

definition sample_env :: pq_env where
  "sample_env = \<lparr>pe_disk = (\<lambda>n. Some 12), pe_large = 1000, pe_fallback = 2000\<rparr>"

definition sample_found :: extraction where
  "sample_found = \<lparr>ex_processed_path = Some ''/p/d1.parquet'', ex_document = JNull, ex_metadata = [],
     ex_preview_text = None, ex_preview_metadata = JObj [(''kind'', JStr ''tabular'')]\<rparr>"

definition sample_begin :: "pq_event list" where
  "sample_begin = [Start, Create ''d1'' ''a.csv'' ''csv'' 1, Create ''d2'' ''b.csv'' ''csv'' 1, Submit ''d1'', Submit ''d2'', Take 0 None True 2]"

definition sample_run :: "pq_event list" where
  "sample_run = sample_begin @ [Take 1 None True 3, Finish 0 (Inr sample_found) (Inr sample_found) JNull [] 4]"

definition sample_database :: "pq_event list" where
  "sample_database = sample_begin @ [Extract ''c1'' [(''d3'', WantTable None ''orders'')] 3,
     RunTask 0 (Goes 0 [] []) True 4, RunTask 0 (Goes 0 [] []) True 5]"

theorem extracting_only_while_held_witness:
  "(\<exists>k r. holds k r (foldl (pq_step sample_env 2) (fresh_queue []) sample_database) \<and> rec_id r = ''d1'') \<or>
    ''d1'' \<in> set (concat (map at_work (pq_tasks (foldl (pq_step sample_env 2) (fresh_queue []) sample_database))))"
proof -
  have n: "\<not> extracting i []" for i by (simp add: extracting_def row_of_def)
  have o: "''d1'' \<notin> set (dropped sample_env 2 (fresh_queue []) sample_database)" by code_simp
  have e: "extracting ''d1'' (pq_table (foldl (pq_step sample_env 2) (fresh_queue []) sample_database))" by code_simp
  show ?thesis by (rule extracting_only_while_held [OF n o e])
qed

theorem extraction_overwrites_meanwhile_witness:
  "\<exists>q. row_of ''d1'' (pq_table (finish_item sample_env 0 (Inr sample_found) (Inr sample_found) JNull [] 9
    (foldl (pq_step sample_env 2) (fresh_queue []) (sample_begin @ [DeleteDataset ''d1'' 5])))) = Some q \<and> terminal (db_status q)"
proof -
  let ?w = "foldl (pq_step sample_env 2) (fresh_queue []) (sample_begin @ [DeleteDataset ''d1'' 5])"
  let ?r = "the (hd (pq_workers ?w))"
  have "0 < length (pq_workers ?w)" by code_simp
  moreover have "pq_workers ?w ! 0 \<noteq> None" by code_simp
  ultimately have h: "holds 0 ?r ?w" by (simp add: holds_def hd_conv_nth)
  have i: "rec_id ?r = ''d1''" by code_simp
  show ?thesis using extraction_overwrites_meanwhile [OF h, of sample_env "Inr sample_found" "Inr sample_found" JNull "[]" 9]
    unfolding i by blast
qed

theorem running_position_lost_witness:
  "get_position ''d1'' (take_item sample_env 1 None True 3 (foldl (pq_step sample_env 2) (fresh_queue []) sample_begin)) = None"
proof -
  let ?w = "foldl (pq_step sample_env 2) (fresh_queue []) sample_begin"
  let ?r = "the (hd (pq_workers ?w))"
  have "0 < length (pq_workers ?w)" by code_simp
  moreover have "pq_workers ?w ! 0 \<noteq> None" by code_simp
  ultimately have h: "holds 0 ?r ?w" by (simp add: holds_def hd_conv_nth)
  have i: "rec_id ?r = ''d1''" by code_simp
  have q: "pq_queue ?w = [''d2'']" by code_simp
  have k: "idle 1 ?w" by code_simp
  show ?thesis using running_position_lost [OF h q k, of sample_env None True 3] unfolding i by simp
qed

theorem restart_strands_datasets_witness:
  "status_of ''d1'' (pq_table (foldl (pq_step sample_env 2) (pq_step sample_env 2
     (foldl (pq_step sample_env 2) (fresh_queue []) sample_begin) Restart) [Take 0 None True 9, Submit ''d2'', Take 1 None True 10])) = Some ''extracting''"
proof -
  have s: "status_of ''d1'' (pq_table (foldl (pq_step sample_env 2) (fresh_queue []) sample_begin)) = Some ''extracting''" by code_simp
  have c: "list_all (\<lambda>ev. \<not> concerns ''d1'' ev) [Take 0 None True 9, Submit ''d2'', Take 1 None True 10]" by code_simp
  show ?thesis by (rule restart_strands_datasets [OF s c])
qed

end
