(* ===== verification/Portal_Sessions.thy ===== *)
theory Portal_Sessions
  imports Rate_Limiter Dataset_Records
begin

text \<open>
  Who may enter the buyer portal: the configuration store and the access codes of
  \<open>app/models/portal.py\<close>, the session dependency of \<open>app/middleware/portal_auth.py\<close>, the OIDC state of
  \<open>app/services/portal_oidc.py\<close>, and the login, logout, settings and revocation endpoints of
  \<open>app/routers/portal.py\<close>. The signing of tokens, bcrypt, Fernet and the identity provider are
  parameters. Texts are ASCII; Python's \<open>isalnum\<close> and \<open>isdigit\<close> also accept other letters and digits, which the
  test of an access code here does not. The configuration is one object that all handlers mutate in place; the file holds what
  the last successful save wrote, as a value.
\<close>

section \<open>Configuration\<close>

datatype tier = OpenTier | CodeTier | SsoTier

definition tier_value :: "tier \<Rightarrow> string" where
  "tier_value t = (case t of OpenTier \<Rightarrow> ''open'' | CodeTier \<Rightarrow> ''code'' | SsoTier \<Rightarrow> ''sso'')"

definition of_tier_value :: "string \<Rightarrow> tier option" where
  "of_tier_value v = (if v = ''open'' then Some OpenTier else if v = ''code'' then Some CodeTier
     else if v = ''sso'' then Some SsoTier else None)"

lemma of_tier_value_inverse [simp]: "of_tier_value (tier_value t) = Some t"
  by (cases t) (simp_all add: of_tier_value_def tier_value_def)

record dataset_portal =
  portal_visible :: bool
  search_columns :: "string list"
  display_columns :: "string list"
  max_results :: nat

record portal_config =
  pc_enabled :: bool
  pc_tier :: tier
  pc_base_url :: string
  pc_access_code_hash :: "string option"
  pc_session_version :: int
  pc_session_ttl_minutes :: int
  pc_active_sessions :: "(string \<times> time) list"
  pc_datasets :: "(string \<times> dataset_portal) list"
  pc_oidc_issuer :: "string option"
  pc_oidc_client_id :: "string option"
  pc_oidc_client_secret :: "string option"

definition default_config :: portal_config where
  "default_config = \<lparr>pc_enabled = False, pc_tier = OpenTier, pc_base_url = [], pc_access_code_hash = None,
     pc_session_version = 0, pc_session_ttl_minutes = 480, pc_active_sessions = [], pc_datasets = [],
     pc_oidc_issuer = None, pc_oidc_client_id = None, pc_oidc_client_secret = None\<rparr>"

datatype portal_exn = HTTP nat string | Uncaught string

text \<open>The file \<open>portal_config.json\<close>, and what becomes of an attempt to write it: \<open>write_text\<close> truncates
  the file before it writes, so that a failing write may leave one that does not parse.\<close>

datatype config_file = NoConfig | BadConfig | Config portal_config

datatype write_result = Written | NotOpened | Truncated

record pending_state =
  pd_nonce :: string
  pd_created_at :: time
  pd_redirect_uri :: string

record access_log =
  al_timestamp :: time
  al_session_id :: string
  al_oidc_subject :: string
  al_oidc_email :: "string option"
  al_action :: string
  al_detail :: "string option"

text \<open>The process: module-level state, and the callbacks that wait for the identity provider.\<close>

record portal =
  cached_config :: "portal_config option"
  config_path :: config_file
  access_attempts :: "(string \<times> time list) list"
  discovery_cache :: "(string \<times> dict \<times> time) list"
  pending_states :: "(string \<times> pending_state) list"
  refresh_tokens :: "(string \<times> json) list"
  id_tokens :: "(string \<times> string) list"
  access_logs :: "access_log list"
  callbacks :: "pending_state list"

definition booted :: "config_file \<Rightarrow> portal" where
  "booted f = \<lparr>cached_config = None, config_path = f, access_attempts = [], discovery_cache = [],
     pending_states = [], refresh_tokens = [], id_tokens = [], access_logs = [], callbacks = []\<rparr>"

text \<open>Third-party functions, and what one call meets: the clock, fresh values, whether its save
  succeeds, and the answers of the identity provider.\<close>

record library =
  jwt_encode :: "dict \<Rightarrow> string"
  jwt_decode :: "time \<Rightarrow> string \<Rightarrow> dict option"
  bcrypt_hash :: "string \<Rightarrow> string \<Rightarrow> string"
  bcrypt_check :: "string \<Rightarrow> string \<Rightarrow> bool"
  fernet_decrypt :: "string \<Rightarrow> string option"
  json_text :: "json \<Rightarrow> string"
  sso_enabled :: bool

datatype idp_error = IdpStatus | IdpFailure

record call =
  at :: time
  fresh_session :: string
  fresh_state :: string
  fresh_nonce :: string
  salt :: string
  written :: write_result
  fernet_encrypt :: "string \<Rightarrow> string"
  idp_get :: "string \<Rightarrow> dict option"
  idp_post :: "json \<Rightarrow> (string \<times> string) list \<Rightarrow> idp_error + dict"
  id_token_claims :: "json \<Rightarrow> string \<Rightarrow> string \<Rightarrow> string \<Rightarrow> dict option"

definition get_portal_config :: "portal \<Rightarrow> portal_config \<times> portal" where
  "get_portal_config w =
     (case cached_config w of
        Some c \<Rightarrow> (c, w)
      | None \<Rightarrow>
          (let c = (case config_path w of Config c \<Rightarrow> c | _ \<Rightarrow> default_config)
           in (c, w\<lparr>cached_config := Some c\<rparr>)))"

definition save_portal_config :: "write_result \<Rightarrow> portal_config \<Rightarrow> (portal, portal_exn, unit) meth" where
  "save_portal_config r c w =
     (let w1 = w\<lparr>cached_config := Some c\<rparr> in
      case r of
        Written \<Rightarrow> (Inr (), w1\<lparr>config_path := Config c\<rparr>)
      | NotOpened \<Rightarrow> (Inl (Uncaught ''OSError''), w1)
      | Truncated \<Rightarrow> (Inl (Uncaught ''OSError''), w1\<lparr>config_path := BadConfig\<rparr>))"

section \<open>Access codes\<close>

definition is_digit_char :: "char \<Rightarrow> bool" where
  "is_digit_char c \<longleftrightarrow> CHR ''0'' \<le> c \<and> c \<le> CHR ''9''"

definition is_alnum_char :: "char \<Rightarrow> bool" where
  "is_alnum_char c \<longleftrightarrow> (is_digit_char c \<or> (CHR ''A'' \<le> c \<and> c \<le> CHR ''Z'')) \<or> (CHR ''a'' \<le> c \<and> c \<le> CHR ''z'')"

definition validate_strength :: "string \<Rightarrow> bool" where
  "validate_strength code \<longleftrightarrow>
     \<not> length code < 6 \<and> \<not> list_all is_digit_char code \<and> list_all is_alnum_char code"

definition MAX_ATTEMPTS :: nat where "MAX_ATTEMPTS = 5"

definition WINDOW :: time where "WINDOW = seconds (15 * 60)"

definition attempts_of_ip :: "string \<Rightarrow> portal \<Rightarrow> time list" where
  "attempts_of_ip ip w = (case map_of (access_attempts w) ip of None \<Rightarrow> [] | Some ts \<Rightarrow> ts)"

definition check_rate_limit :: "time \<Rightarrow> string \<Rightarrow> portal \<Rightarrow> bool \<times> portal" where
  "check_rate_limit now ip w =
     (let ts = prune WINDOW now (attempts_of_ip ip w)
      in (length ts < MAX_ATTEMPTS, w\<lparr>access_attempts := AList.update ip ts (access_attempts w)\<rparr>))"

definition record_attempt :: "time \<Rightarrow> string \<Rightarrow> portal \<Rightarrow> portal" where
  "record_attempt now ip w =
     w\<lparr>access_attempts := AList.update ip (attempts_of_ip ip w @ [now]) (access_attempts w)\<rparr>"

definition invalidate_sessions_on_rotation :: "portal_config \<Rightarrow> portal_config" where
  "invalidate_sessions_on_rotation c =
     c\<lparr>pc_session_version := pc_session_version c + 1, pc_active_sessions := []\<rparr>"

section \<open>Tokens and sessions\<close>

record portal_session =
  sn_id :: string
  sn_tier :: tier
  sn_ip :: string
  sn_created_at :: time
  sn_expires_at :: time
  sn_version :: int
  sn_oidc_subject :: "string option"
  sn_oidc_email :: "string option"
  sn_oidc_name :: "string option"

text \<open>Date claims are written in whole seconds.\<close>

definition numeric_date :: "time \<Rightarrow> json" where
  "numeric_date t = JInt (t div 1000000)"

definition optional_claim :: "string \<Rightarrow> string option \<Rightarrow> dict" where
  "optional_claim key v = (if truthy v then [(key, JStr (the v))] else [])"

definition payload :: "time \<Rightarrow> portal_session \<Rightarrow> dict" where
  "payload now s =
     [(''iss'', JStr ''vectoraiz-portal''), (''aud'', JStr ''portal''), (''sub'', JStr (sn_id s)),
      (''tier'', JStr (tier_value (sn_tier s))), (''psv'', JInt (sn_version s)), (''ip'', JStr (sn_ip s)),
      (''iat'', numeric_date now), (''exp'', numeric_date (sn_expires_at s))]
     @ optional_claim ''oidc_sub'' (sn_oidc_subject s) @ optional_claim ''oidc_email'' (sn_oidc_email s)
     @ optional_claim ''oidc_name'' (sn_oidc_name s)"

definition create_portal_jwt :: "library \<Rightarrow> time \<Rightarrow> portal_session \<Rightarrow> string" where
  "create_portal_jwt k now s = jwt_encode k (payload now s)"

text \<open>Claims as Pydantic takes them: a string, or \<open>None\<close> where that is allowed.\<close>

definition opt_str :: "json \<Rightarrow> string option option" where
  "opt_str j = (case j of JNull \<Rightarrow> Some None | JStr s \<Rightarrow> Some (Some s) | _ \<Rightarrow> None)"

definition bearer_claims ::
  "library \<Rightarrow> time \<Rightarrow> string \<Rightarrow> string \<Rightarrow> string \<Rightarrow> portal_config \<Rightarrow> portal_exn + dict" where
  "bearer_claims k now required invalid auth_header c =
     (if \<not> starts_with ''Bearer '' auth_header then Inl (HTTP 401 required)
      else (case jwt_decode k now (drop 7 auth_header) of
          None \<Rightarrow> Inl (HTTP 401 invalid)
        | Some claims \<Rightarrow>
            if claims = [] then Inl (HTTP 401 invalid)
            else if dict_get claims ''psv'' JNull \<noteq> JInt (pc_session_version c)
            then Inl (HTTP 401 ''Session expired, please re-authenticate'')
            else Inr claims))"

text \<open>\<open>claims["sub"] not in config.active_sessions\<close>, which raises without the claim and for a list.\<close>

definition live_subject :: "portal_config \<Rightarrow> dict \<Rightarrow> portal_exn + string" where
  "live_subject c claims =
     (case map_of claims ''sub'' of
        None \<Rightarrow> Inl (Uncaught ''KeyError'')
      | Some (JStr s) \<Rightarrow> if s \<in> fst ` set (pc_active_sessions c) then Inr s else Inl (HTTP 401 ''Session revoked'')
      | Some (JList _) \<Rightarrow> Inl (Uncaught ''TypeError'')
      | Some (JObj _) \<Rightarrow> Inl (Uncaught ''TypeError'')
      | Some _ \<Rightarrow> Inl (HTTP 401 ''Session revoked''))"

definition session_of_claims ::
  "portal_config \<Rightarrow> string \<Rightarrow> tier option \<Rightarrow> dict \<Rightarrow> string option \<Rightarrow> string option \<Rightarrow> string option
     \<Rightarrow> portal_exn + portal_session" where
  "session_of_claims c i t claims subject email name =
     (case (t, dict_get claims ''ip'' (JStr ''unknown''), map_of claims ''iat'', map_of claims ''exp'') of
        (Some t, JStr ip, Some (JInt iat), Some (JInt exp)) \<Rightarrow>
          Inr \<lparr>sn_id = i, sn_tier = t, sn_ip = ip, sn_created_at = seconds iat, sn_expires_at = seconds exp,
               sn_version = pc_session_version c, sn_oidc_subject = subject, sn_oidc_email = email,
               sn_oidc_name = name\<rparr>
      | _ \<Rightarrow> Inl (Uncaught ''claims''))"

definition claimed_tier :: "dict \<Rightarrow> tier option" where
  "claimed_tier claims = (case map_of claims ''tier'' of Some (JStr t) \<Rightarrow> of_tier_value t | _ \<Rightarrow> None)"

definition code_session :: "library \<Rightarrow> time \<Rightarrow> string \<Rightarrow> portal_config \<Rightarrow> portal_exn + portal_session" where
  "code_session k now auth_header c =
     (case bearer_claims k now ''Portal authentication required'' ''Invalid or expired portal session'' auth_header c of
        Inl e \<Rightarrow> Inl e
      | Inr claims \<Rightarrow> (case live_subject c claims of
          Inl e \<Rightarrow> Inl e
        | Inr i \<Rightarrow> session_of_claims c i (claimed_tier claims) claims None None None))"

definition sso_session :: "library \<Rightarrow> time \<Rightarrow> string \<Rightarrow> portal_config \<Rightarrow> portal_exn + portal_session" where
  "sso_session k now auth_header c =
     (case bearer_claims k now ''SSO authentication required'' ''Invalid or expired SSO session'' auth_header c of
        Inl e \<Rightarrow> Inl e
      | Inr claims \<Rightarrow>
          if dict_get claims ''tier'' JNull \<noteq> JStr ''sso'' then Inl (HTTP 401 ''Invalid session tier'')
          else (case live_subject c claims of
              Inl e \<Rightarrow> Inl e
            | Inr i \<Rightarrow>
                (case (opt_str (dict_get claims ''oidc_sub'' JNull), opt_str (dict_get claims ''oidc_email'' JNull),
                       opt_str (dict_get claims ''oidc_name'' JNull)) of
                   (Some sub, Some email, Some name) \<Rightarrow> session_of_claims c i (Some SsoTier) claims sub email name
                 | _ \<Rightarrow> Inl (Uncaught ''claims''))))"

definition new_session :: "call \<Rightarrow> tier \<Rightarrow> string \<Rightarrow> portal_config \<Rightarrow> portal_session" where
  "new_session e t ip c =
     \<lparr>sn_id = fresh_session e, sn_tier = t, sn_ip = ip, sn_created_at = at e,
      sn_expires_at = at e + seconds (60 * pc_session_ttl_minutes c), sn_version = pc_session_version c,
      sn_oidc_subject = None, sn_oidc_email = None, sn_oidc_name = None\<rparr>"

definition get_portal_session :: "library \<Rightarrow> call \<Rightarrow> string \<Rightarrow> string \<Rightarrow> (portal, portal_exn, portal_session) meth" where
  "get_portal_session k e auth_header ip w =
     (case get_portal_config w of (c, w1) \<Rightarrow>
        (if \<not> pc_enabled c then Inl (HTTP 404 ''Portal is not enabled'')
         else (case pc_tier c of
             OpenTier \<Rightarrow> Inr (new_session e OpenTier ip c)
           | CodeTier \<Rightarrow> code_session k (at e) auth_header c
           | SsoTier \<Rightarrow> sso_session k (at e) auth_header c), w1))"

definition check_dataset_acl :: "string \<Rightarrow> (portal, portal_exn, unit) meth" where
  "check_dataset_acl dataset_id w =
     (case get_portal_config w of (c, w1) \<Rightarrow>
        (case map_of (pc_datasets c) dataset_id of
           Some d \<Rightarrow> if portal_visible d then Inr () else Inl (HTTP 403 ''Dataset is not available on this portal'')
         | None \<Rightarrow> Inl (HTTP 403 ''Dataset is not available on this portal''), w1))"

section \<open>Logging in with the access code\<close>

record auth_response =
  ar_token :: string
  ar_expires_at :: time
  ar_tier :: string

text \<open>\<open>config.active_sessions[id] = expiry\<close> and the save: the shared object changes even when the save fails.\<close>

definition track_session :: "call \<Rightarrow> portal_session \<Rightarrow> (portal, portal_exn, unit) meth" where
  "track_session e s w =
     (case get_portal_config w of (c, w1) \<Rightarrow>
        save_portal_config (written e)
          (c\<lparr>pc_active_sessions := AList.update (sn_id s) (sn_expires_at s) (pc_active_sessions c)\<rparr>) w1)"

definition verify_and_issue :: "library \<Rightarrow> call \<Rightarrow> string \<Rightarrow> string \<Rightarrow> portal_config \<Rightarrow> (portal, portal_exn, auth_response) meth" where
  "verify_and_issue k e code ip c =
     (if \<not> truthy (pc_access_code_hash c) then raise (HTTP 500 ''Portal access code not configured'')
      else if \<not> bcrypt_check k code (the (pc_access_code_hash c)) then raise (HTTP 401 ''Invalid access code'')
      else (let s = new_session e CodeTier ip c in
        seq (track_session e s) (\<lambda>_. ret
          \<lparr>ar_token = create_portal_jwt k (at e) s, ar_expires_at = sn_expires_at s,
           ar_tier = tier_value (sn_tier s)\<rparr>)))"

definition authenticate_with_code :: "library \<Rightarrow> call \<Rightarrow> string \<Rightarrow> string \<Rightarrow> (portal, portal_exn, auth_response) meth" where
  "authenticate_with_code k e code ip w =
     (case get_portal_config w of (c, w1) \<Rightarrow>
        if \<not> pc_enabled c then (Inl (HTTP 404 ''Portal is not enabled''), w1)
        else if pc_tier c \<noteq> CodeTier
        then (Inl (HTTP 400 ''Access code auth not available for this portal tier''), w1)
        else (case check_rate_limit (at e) ip w1 of (allowed, w2) \<Rightarrow>
          if \<not> allowed then (Inl (HTTP 429 ''Too many attempts. Try again later.''), w2)
          else verify_and_issue k e code ip c (record_attempt (at e) ip w2)))"

section \<open>OpenID Connect\<close>

definition rstrip_slash :: "string \<Rightarrow> string" where
  "rstrip_slash s = rev (dropWhile (\<lambda>c. c = CHR ''/'') (rev s))"

definition fetch_oidc_discovery :: "call \<Rightarrow> string \<Rightarrow> (portal, idp_error, dict) meth" where
  "fetch_oidc_discovery e issuer w =
     (case map_of (discovery_cache w) issuer of
        Some (doc, t) \<Rightarrow>
          if at e - t < seconds 3600 then (Inr doc, w)
          else (case idp_get e (rstrip_slash issuer @ ''/.well-known/openid-configuration'') of
              None \<Rightarrow> (Inl IdpFailure, w)
            | Some d \<Rightarrow> (Inr d, w\<lparr>discovery_cache := AList.update issuer (d, at e) (discovery_cache w)\<rparr>))
      | None \<Rightarrow>
          (case idp_get e (rstrip_slash issuer @ ''/.well-known/openid-configuration'') of
              None \<Rightarrow> (Inl IdpFailure, w)
            | Some d \<Rightarrow> (Inr d, w\<lparr>discovery_cache := AList.update issuer (d, at e) (discovery_cache w)\<rparr>)))"

text \<open>\<open>urllib.parse.urlencode\<close>: UTF-8 bytes outside the safe characters as \<open>%XX\<close>, spaces as \<open>+\<close>.\<close>

definition hex_digit :: "nat \<Rightarrow> char" where
  "hex_digit n = (''0123456789ABCDEF'') ! n"

definition utf8_bytes :: "char \<Rightarrow> nat list" where
  "utf8_bytes c = (let n = of_char c in if n < 128 then [n] else [192 + n div 64, 128 + n mod 64])"

definition quote_char :: "char \<Rightarrow> string" where
  "quote_char c =
     (if is_alnum_char c \<or> c \<in> {CHR ''_'', CHR ''.'', CHR ''-'', CHR ''~''} then [c]
      else if c = CHR '' '' then ''+''
      else concat (map (\<lambda>b. [CHR ''%'', hex_digit (b div 16), hex_digit (b mod 16)]) (utf8_bytes c)))"

definition urlencode :: "(string \<times> string) list \<Rightarrow> string" where
  "urlencode ps = join ''&'' (map (\<lambda>(key, v). concat (map quote_char key) @ ''='' @ concat (map quote_char v)) ps)"

definition cleanup_pending_states :: "time \<Rightarrow> portal \<Rightarrow> portal" where
  "cleanup_pending_states now w =
     w\<lparr>pending_states := filter (\<lambda>(_, p). \<not> pd_created_at p < now - seconds 600) (pending_states w)\<rparr>"

definition build_authorize_url :: "library \<Rightarrow> call \<Rightarrow> portal_config \<Rightarrow> string \<Rightarrow> (portal, portal_exn, string) meth" where
  "build_authorize_url k e c redirect_uri w =
     (let p = \<lparr>pd_nonce = fresh_nonce e, pd_created_at = at e, pd_redirect_uri = redirect_uri\<rparr>;
          w1 = cleanup_pending_states (at e) (w\<lparr>pending_states := AList.update (fresh_state e) p (pending_states w)\<rparr>)
      in case map_of (discovery_cache w1) (case pc_oidc_issuer c of None \<Rightarrow> [] | Some i \<Rightarrow> i) of
           None \<Rightarrow> (Inl (Uncaught ''ValueError''), w1)
         | Some (doc, _) \<Rightarrow>
             (case map_of doc ''authorization_endpoint'' of
                None \<Rightarrow> (Inl (Uncaught ''KeyError''), w1)
              | Some endpoint \<Rightarrow> (Inr (json_text k endpoint @ ''?'' @ urlencode
                   [(''response_type'', ''code''),
                    (''client_id'', (case pc_oidc_client_id c of None \<Rightarrow> ''None'' | Some i \<Rightarrow> i)),
                    (''redirect_uri'', redirect_uri), (''scope'', ''openid email profile''),
                    (''state'', fresh_state e), (''nonce'', fresh_nonce e)]), w1)))"

definition oidc_configured :: "portal_config \<Rightarrow> bool" where
  "oidc_configured c \<longleftrightarrow>
     truthy (pc_oidc_issuer c) \<and> truthy (pc_oidc_client_id c) \<and> truthy (pc_oidc_client_secret c)"

definition sso_authorize :: "library \<Rightarrow> call \<Rightarrow> (portal, portal_exn, string) meth" where
  "sso_authorize k e w =
     (case get_portal_config w of (c, w1) \<Rightarrow>
        if \<not> pc_enabled c then (Inl (HTTP 404 ''Portal is not enabled''), w1)
        else if pc_tier c \<noteq> SsoTier then (Inl (HTTP 400 ''SSO auth not available for this portal tier''), w1)
        else if \<not> sso_enabled k then (Inl (HTTP 403 ''SSO requires Enterprise license''), w1)
        else if \<not> oidc_configured c then (Inl (HTTP 400 ''OIDC is not configured''), w1)
        else (case fetch_oidc_discovery e (the (pc_oidc_issuer c)) w1 of
            (Inl _, w2) \<Rightarrow> (Inl (HTTP 502 ''Failed to reach identity provider''), w2)
          | (Inr _, w2) \<Rightarrow>
              build_authorize_url k e c (rstrip_slash (pc_base_url c) @ ''/api/portal/auth/sso/callback'') w2))"

definition validate_state :: "time \<Rightarrow> string \<Rightarrow> portal \<Rightarrow> pending_state option \<times> portal" where
  "validate_state now st w =
     (case map_of (pending_states w) st of
        None \<Rightarrow> (None, w)
      | Some p \<Rightarrow>
          (if now - pd_created_at p > seconds 600 then None else Some p,
           w\<lparr>pending_states := AList.delete st (pending_states w)\<rparr>))"

text \<open>The callback up to its first wait; from there on it holds the state's data.\<close>

definition sso_callback_start :: "call \<Rightarrow> string \<Rightarrow> (portal, portal_exn, pending_state) meth" where
  "sso_callback_start e st w =
     (case get_portal_config w of (c, w1) \<Rightarrow>
        if \<not> pc_enabled c \<or> pc_tier c \<noteq> SsoTier then (Inl (HTTP 400 ''SSO not active''), w1)
        else (case validate_state (at e) st w1 of
            (None, w2) \<Rightarrow> (Inl (HTTP 400 ''Invalid or expired state parameter''), w2)
          | (Some p, w2) \<Rightarrow> (Inr p, w2)))"

text \<open>A value that starts as Fernet tokens do is decrypted before it is sent.\<close>

definition sent_secret :: "library \<Rightarrow> portal_config \<Rightarrow> string option" where
  "sent_secret k c =
     (case pc_oidc_client_secret c of
        None \<Rightarrow> Some ''None''
      | Some s \<Rightarrow> if starts_with ''gAAAAA'' s then fernet_decrypt k s else Some s)"

definition text_of :: "string option \<Rightarrow> string" where
  "text_of v = (case v of None \<Rightarrow> ''None'' | Some s \<Rightarrow> s)"

definition exchange_code_for_tokens :: "library \<Rightarrow> call \<Rightarrow> portal_config \<Rightarrow> string \<Rightarrow> string \<Rightarrow> (portal, idp_error, dict) meth" where
  "exchange_code_for_tokens k e c code redirect_uri =
     seq (fetch_oidc_discovery e (text_of (pc_oidc_issuer c))) (\<lambda>doc.
       case (map_of doc ''token_endpoint'', sent_secret k c) of
         (Some endpoint, Some secret) \<Rightarrow> (\<lambda>w. (idp_post e endpoint
            [(''grant_type'', ''authorization_code''), (''code'', code), (''redirect_uri'', redirect_uri),
             (''client_id'', text_of (pc_oidc_client_id c)), (''client_secret'', secret)], w))
       | _ \<Rightarrow> raise IdpFailure)"

definition validate_id_token :: "call \<Rightarrow> portal_config \<Rightarrow> string \<Rightarrow> string \<Rightarrow> (portal, idp_error, dict) meth" where
  "validate_id_token e c id_token expected_nonce =
     seq (fetch_oidc_discovery e (text_of (pc_oidc_issuer c))) (\<lambda>doc.
       case map_of doc ''jwks_uri'' of
         None \<Rightarrow> raise IdpFailure
       | Some jwks_uri \<Rightarrow>
           (case id_token_claims e jwks_uri id_token (text_of (pc_oidc_client_id c)) (text_of (pc_oidc_issuer c)) of
              None \<Rightarrow> raise IdpFailure
            | Some claims \<Rightarrow>
                if expected_nonce \<noteq> [] \<and> dict_get claims ''nonce'' JNull \<noteq> JStr expected_nonce
                then raise IdpFailure else ret claims))"

definition clear_session_tokens :: "string \<Rightarrow> portal \<Rightarrow> portal" where
  "clear_session_tokens i w =
     w\<lparr>refresh_tokens := AList.delete i (refresh_tokens w), id_tokens := AList.delete i (id_tokens w)\<rparr>"

definition cleanup_expired_refresh_tokens :: "portal \<Rightarrow> portal" where
  "cleanup_expired_refresh_tokens w =
     (case get_portal_config w of (c, w1) \<Rightarrow>
        fold clear_session_tokens
          (filter (\<lambda>i. i \<notin> fst ` set (pc_active_sessions c)) (map fst (refresh_tokens w1))) w1)"

definition store_refresh_token :: "string \<Rightarrow> json \<Rightarrow> portal \<Rightarrow> portal" where
  "store_refresh_token i token w =
     cleanup_expired_refresh_tokens (w\<lparr>refresh_tokens := AList.update i token (refresh_tokens w)\<rparr>)"

definition store_id_token :: "string \<Rightarrow> string \<Rightarrow> portal \<Rightarrow> portal" where
  "store_id_token i token w = w\<lparr>id_tokens := AList.update i token (id_tokens w)\<rparr>"

text \<open>\<open>deque(maxlen=1000)\<close>: appending to a full one drops the oldest entry.\<close>

definition log_portal_access ::
  "time \<Rightarrow> string \<Rightarrow> string \<Rightarrow> string option \<Rightarrow> string \<Rightarrow> string option \<Rightarrow> portal \<Rightarrow> portal" where
  "log_portal_access now i subject email action detail w =
     (let xs = access_logs w @ [\<lparr>al_timestamp = now, al_session_id = i, al_oidc_subject = subject,
                 al_oidc_email = email, al_action = action, al_detail = detail\<rparr>]
      in w\<lparr>access_logs := drop (length xs - 1000) xs\<rparr>)"

text \<open>The rest of the callback: token exchange, validation of the ID token, the session.\<close>

definition sso_identity ::
  "library \<Rightarrow> call \<Rightarrow> string \<Rightarrow> pending_state \<Rightarrow> (portal, portal_exn, dict \<times> string \<times> dict) meth" where
  "sso_identity k e code p w =
     (case get_portal_config w of (c, w1) \<Rightarrow>
       (case exchange_code_for_tokens k e c code (pd_redirect_uri p) w1 of
          (Inl IdpStatus, w2) \<Rightarrow> (Inl (HTTP 401 ''Token exchange failed''), w2)
        | (Inl IdpFailure, w2) \<Rightarrow> (Inl (HTTP 502 ''Failed to exchange authorization code''), w2)
        | (Inr tokens, w2) \<Rightarrow>
            (let t = dict_get tokens ''id_token'' JNull in
             if \<not> truthy_json t then (Inl (HTTP 401 ''No ID token in response''), w2)
             else (case t of
                 JStr id_token \<Rightarrow>
                   (case validate_id_token e c id_token (pd_nonce p) w2 of
                      (Inl _, w3) \<Rightarrow> (Inl (HTTP 401 ''Invalid ID token''), w3)
                    | (Inr claims, w3) \<Rightarrow>
                        if \<not> truthy_json (dict_get claims ''sub'' JNull)
                        then (Inl (HTTP 401 ''ID token missing sub claim''), w3)
                        else (Inr (tokens, id_token, claims), w3))
               | _ \<Rightarrow> (Inl (HTTP 401 ''Invalid ID token''), snd (fetch_oidc_discovery e (text_of (pc_oidc_issuer c)) w2))))))"

definition sso_login :: "library \<Rightarrow> call \<Rightarrow> string \<Rightarrow> dict \<times> string \<times> dict \<Rightarrow> (portal, portal_exn, string) meth" where
  "sso_login k e ip r w =
     (case r of (tokens, id_token, claims) \<Rightarrow>
      (case get_portal_config w of (c, w1) \<Rightarrow>
       (case (dict_get claims ''sub'' JNull, opt_str (dict_get claims ''email'' JNull),
              opt_str (dict_get claims ''name'' JNull)) of
          (JStr sub, Some email, Some name) \<Rightarrow>
            (let s = (new_session e SsoTier ip c)
                       \<lparr>sn_oidc_subject := Some sub, sn_oidc_email := email, sn_oidc_name := name\<rparr>
             in seq (track_session e s) (\<lambda>_ w2.
               (Inr (rstrip_slash (pc_base_url c) @ ''/portal/search#sso_token='' @ create_portal_jwt k (at e) s),
                log_portal_access (at e) (sn_id s) sub email ''login'' None
                 (store_id_token (sn_id s) id_token
                  (if truthy_json (dict_get tokens ''refresh_token'' JNull)
                   then store_refresh_token (sn_id s) (dict_get tokens ''refresh_token'' JNull) w2 else w2)))) w1)
        | _ \<Rightarrow> (Inl (Uncaught ''ValidationError''), w1))))"

definition sso_callback_finish :: "library \<Rightarrow> call \<Rightarrow> string \<Rightarrow> string \<Rightarrow> pending_state \<Rightarrow> (portal, portal_exn, string) meth" where
  "sso_callback_finish k e code ip p = seq (sso_identity k e code p) (sso_login k e ip)"

definition get_end_session_url :: "library \<Rightarrow> call \<Rightarrow> portal_config \<Rightarrow> string option \<Rightarrow> portal \<Rightarrow> json option \<times> portal" where
  "get_end_session_url k e c id_token_hint w =
     (case fetch_oidc_discovery e (text_of (pc_oidc_issuer c)) w of
        (Inl _, w1) \<Rightarrow> (None, w1)
      | (Inr doc, w1) \<Rightarrow>
          (let url = dict_get doc ''end_session_endpoint'' JNull in
           (Some (if truthy_json url \<and> truthy id_token_hint
                  then JStr (json_text k url @ ''?id_token_hint='' @ the id_token_hint) else url), w1)))"

definition sso_logout :: "library \<Rightarrow> call \<Rightarrow> string \<Rightarrow> string \<Rightarrow> (portal, portal_exn, json option) meth" where
  "sso_logout k e auth_header ip =
     seq (get_portal_session k e auth_header ip) (\<lambda>s w.
       case get_portal_config w of (c, w1) \<Rightarrow>
         (let id_token_hint = (if truthy (pc_oidc_issuer c) then map_of (id_tokens w1) (sn_id s) else None) in
          seq (save_portal_config (written e)
                 (c\<lparr>pc_active_sessions := AList.delete (sn_id s) (pc_active_sessions c)\<rparr>)) (\<lambda>_ w2.
            let w3 = clear_session_tokens (sn_id s) w2;
                w4 = (if truthy (sn_oidc_subject s)
                      then log_portal_access (at e) (sn_id s) (the (sn_oidc_subject s)) (sn_oidc_email s) ''logout'' None w3
                      else w3)
            in if truthy (pc_oidc_issuer c)
               then (case get_end_session_url k e c id_token_hint w4 of (url, w5) \<Rightarrow> (Inr url, w5))
               else (Inr None, w4)) w1))"

section \<open>Administration\<close>

text \<open>What the two reading endpoints return: no secret, and no code.\<close>

definition redacted :: "portal_config \<Rightarrow> portal_config" where
  "redacted c =
     c\<lparr>pc_access_code_hash := (if truthy (pc_access_code_hash c) then Some ''***'' else None),
       pc_oidc_client_secret := (if truthy (pc_oidc_client_secret c) then Some ''***'' else None)\<rparr>"

definition get_portal_settings :: "library \<Rightarrow> portal \<Rightarrow> (portal_config \<times> nat \<times> bool) \<times> portal" where
  "get_portal_settings k w =
     (case get_portal_config w of (c, w1) \<Rightarrow> ((redacted c, length (pc_active_sessions c), sso_enabled k), w1))"

definition get_portal_public_config :: "portal \<Rightarrow> (bool \<times> tier \<times> string) \<times> portal" where
  "get_portal_public_config w =
     (case get_portal_config w of (c, w1) \<Rightarrow> ((pc_enabled c, pc_tier c, ''Search Portal''), w1))"

record config_update =
  cu_enabled :: "bool option"
  cu_tier :: "tier option"
  cu_base_url :: "string option"
  cu_access_code :: "string option"
  cu_session_ttl_minutes :: "int option"
  cu_oidc_issuer :: "string option"
  cu_oidc_client_id :: "string option"
  cu_oidc_client_secret :: "string option"

definition no_update :: config_update where
  "no_update = \<lparr>cu_enabled = None, cu_tier = None, cu_base_url = None, cu_access_code = None,
     cu_session_ttl_minutes = None, cu_oidc_issuer = None, cu_oidc_client_id = None, cu_oidc_client_secret = None\<rparr>"

definition or_else :: "'a option \<Rightarrow> 'a \<Rightarrow> 'a" where
  "or_else v x = (case v of None \<Rightarrow> x | Some y \<Rightarrow> y)"

text \<open>The update as a method on the shared configuration: fields first, each check after the changes
  that precede it in the code.\<close>

definition set_fields :: "call \<Rightarrow> config_update \<Rightarrow> (portal_config, portal_exn, unit) meth" where
  "set_fields e u c =
     (Inr (), c\<lparr>pc_tier := or_else (cu_tier u) (pc_tier c),
        pc_base_url := or_else (map_option rstrip_slash (cu_base_url u)) (pc_base_url c),
        pc_session_ttl_minutes := or_else (cu_session_ttl_minutes u) (pc_session_ttl_minutes c),
        pc_oidc_issuer := (if cu_oidc_issuer u = None then pc_oidc_issuer c else cu_oidc_issuer u),
        pc_oidc_client_id := (if cu_oidc_client_id u = None then pc_oidc_client_id c else cu_oidc_client_id u),
        pc_oidc_client_secret := (case cu_oidc_client_secret u of
            None \<Rightarrow> pc_oidc_client_secret c
          | Some s \<Rightarrow> if s \<noteq> [] then Some (fernet_encrypt e s) else None)\<rparr>)"

definition require_oidc :: "string \<Rightarrow> (portal_config, portal_exn, unit) meth" where
  "require_oidc message c =
     (if pc_tier c = SsoTier \<and> \<not> oidc_configured c then (Inl (HTTP 400 message), c) else (Inr (), c))"

definition set_access_code :: "library \<Rightarrow> call \<Rightarrow> config_update \<Rightarrow> (portal_config, portal_exn, unit) meth" where
  "set_access_code k e u c =
     (case cu_access_code u of
        None \<Rightarrow> (Inr (), c)
      | Some code \<Rightarrow>
          if code = [] then (Inr (), c\<lparr>pc_access_code_hash := None\<rparr>)
          else if \<not> validate_strength code
          then (Inl (HTTP 400 ''Access code must be at least 6 alphanumeric characters and not purely numeric''), c)
          else (Inr (), invalidate_sessions_on_rotation
                 (c\<lparr>pc_access_code_hash := Some (bcrypt_hash k (salt e) code)\<rparr>)))"

definition set_enabled :: "config_update \<Rightarrow> (portal_config, portal_exn, unit) meth" where
  "set_enabled u =
     (case cu_enabled u of
        None \<Rightarrow> ret ()
      | Some False \<Rightarrow> (\<lambda>c. (Inr (), c\<lparr>pc_enabled := False\<rparr>))
      | Some True \<Rightarrow>
          seq (\<lambda>c. if pc_base_url c = []
                   then (Inl (HTTP 400 ''Cannot enable portal without setting a base URL (Mandate M6)''), c)
                   else if pc_tier c = CodeTier \<and> \<not> truthy (pc_access_code_hash c)
                   then (Inl (HTTP 400 ''Cannot enable portal with 'code' tier without setting an access code''), c)
                   else (Inr (), c)) (\<lambda>_.
          seq (require_oidc ''Cannot enable portal with 'sso' tier without OIDC configuration'') (\<lambda>_ c.
            (Inr (), c\<lparr>pc_enabled := True\<rparr>))))"

definition apply_update :: "library \<Rightarrow> call \<Rightarrow> config_update \<Rightarrow> (portal_config, portal_exn, unit) meth" where
  "apply_update k e u =
     seq (set_fields e u) (\<lambda>_.
     seq (require_oidc ''SSO tier requires oidc_issuer, oidc_client_id, and oidc_client_secret'') (\<lambda>_.
     seq (set_access_code k e u) (\<lambda>_. set_enabled u)))"

definition update_portal_settings :: "library \<Rightarrow> call \<Rightarrow> config_update \<Rightarrow> (portal, portal_exn, portal_config \<times> nat) meth" where
  "update_portal_settings k e u w =
     (case get_portal_config w of (c, w1) \<Rightarrow>
        (case apply_update k e u c of
           (Inl err, c') \<Rightarrow> (Inl err, w1\<lparr>cached_config := Some c'\<rparr>)
         | (Inr _, c') \<Rightarrow>
             seq (save_portal_config (written e) c') (\<lambda>_. ret (redacted c', length (pc_active_sessions c'))) w1))"

definition update_dataset_portal_config ::
  "call \<Rightarrow> dataset_table \<Rightarrow> string \<Rightarrow> dataset_portal \<Rightarrow> (portal, portal_exn, unit) meth" where
  "update_dataset_portal_config e t dataset_id d w =
     (if get_dataset dataset_id t = None then (Inl (HTTP 404 (''Dataset '' @ [CHR 0x27] @ dataset_id @ [CHR 0x27] @ '' not found'')), w)
      else (case get_portal_config w of (c, w1) \<Rightarrow>
        save_portal_config (written e) (c\<lparr>pc_datasets := AList.update dataset_id d (pc_datasets c)\<rparr>) w1))"

definition revoke_all_portal_sessions :: "call \<Rightarrow> (portal, portal_exn, unit) meth" where
  "revoke_all_portal_sessions e w =
     (case get_portal_config w of (c, w1) \<Rightarrow>
        save_portal_config (written e) (invalidate_sessions_on_rotation c) w1)"

definition clear_sessions_only :: "portal \<Rightarrow> portal" where
  "clear_sessions_only w = w\<lparr>discovery_cache := [], pending_states := [], refresh_tokens := [], id_tokens := []\<rparr>"

definition revoke_all_portal_sessions_v2 :: "call \<Rightarrow> (portal, portal_exn, unit) meth" where
  "revoke_all_portal_sessions_v2 e =
     seq (revoke_all_portal_sessions e) (\<lambda>_ w. (Inr (), clear_sessions_only w))"

definition revoke_portal_session :: "call \<Rightarrow> string \<Rightarrow> (portal, portal_exn, unit) meth" where
  "revoke_portal_session e i w =
     (case get_portal_config w of (c, w1) \<Rightarrow>
        if i \<notin> fst ` set (pc_active_sessions c) then (Inl (HTTP 404 ''Session not found''), w1)
        else seq (save_portal_config (written e)
                    (c\<lparr>pc_active_sessions := AList.delete i (pc_active_sessions c)\<rparr>)) (\<lambda>_ w2.
               (Inr (), clear_session_tokens i w2)) w1)"

text \<open>The connection test: the cached documents go first; a failure is answered, not raised.\<close>

definition test_oidc_connection :: "call \<Rightarrow> (portal, portal_exn, dict option) meth" where
  "test_oidc_connection e w =
     (case get_portal_config w of (c, w1) \<Rightarrow>
        if \<not> truthy (pc_oidc_issuer c) then (Inl (HTTP 400 ''OIDC issuer not configured''), w1)
        else (case fetch_oidc_discovery e (the (pc_oidc_issuer c)) (w1\<lparr>discovery_cache := []\<rparr>) of
            (Inl _, w2) \<Rightarrow> (Inr None, w2)
          | (Inr doc, w2) \<Rightarrow> (Inr (Some (map (\<lambda>key. (key, dict_get doc key JNull))
              [''issuer'', ''authorization_endpoint'', ''token_endpoint'', ''jwks_uri'', ''end_session_endpoint''])), w2)))"

text \<open>A page of the log, latest first, and the number the endpoint calls its total.\<close>

definition get_access_logs :: "nat \<Rightarrow> nat \<Rightarrow> portal \<Rightarrow> access_log list" where
  "get_access_logs limit offset w = take limit (drop offset (rev (access_logs w)))"

definition access_log_page :: "nat \<Rightarrow> nat \<Rightarrow> portal \<Rightarrow> access_log list \<times> nat" where
  "access_log_page limit offset w =
     (get_access_logs limit offset w, length (get_access_logs limit offset w))"

section \<open>The portal in use\<close>

text \<open>
  The search endpoint up to the search itself: admission, access list and log.
\<close>

definition open_search :: "library \<Rightarrow> call \<Rightarrow> string \<Rightarrow> string \<Rightarrow> string \<Rightarrow> string \<Rightarrow> (portal, portal_exn, portal_session) meth" where
  "open_search k e auth_header ip dataset_id query =
     seq (get_portal_session k e auth_header ip) (\<lambda>s.
     seq (check_dataset_acl dataset_id) (\<lambda>_ w.
       (Inr s, if sn_tier s = SsoTier \<and> truthy (sn_oidc_subject s)
               then log_portal_access (at e) (sn_id s) (the (sn_oidc_subject s)) (sn_oidc_email s) ''search''
                      (Some (''dataset='' @ dataset_id @ '' q='' @ take 50 query)) w
               else w)))"

datatype portal_op =
    CodeLogin call string string
  | Authorize call
  | CallbackStart call string
  | CallbackFinish call nat string string
  | Logout call string string
  | Search call string string string string
  | UpdateSettings call config_update
  | DatasetSettings call dataset_table string dataset_portal
  | RevokeAll call
  | RevokeAllClear call
  | RevokeOne call string
  | TestOidc call
  | Restart

fun portal_step :: "library \<Rightarrow> portal \<Rightarrow> portal_op \<Rightarrow> portal" where
  "portal_step k w (CodeLogin e code ip) = snd (authenticate_with_code k e code ip w)"
| "portal_step k w (Authorize e) = snd (sso_authorize k e w)"
| "portal_step k w (CallbackStart e st) =
     (case sso_callback_start e st w of
        (Inr p, w1) \<Rightarrow> w1\<lparr>callbacks := callbacks w1 @ [p]\<rparr> | (Inl _, w1) \<Rightarrow> w1)"
| "portal_step k w (CallbackFinish e n code ip) =
     (if n < length (callbacks w)
      then snd (sso_callback_finish k e code ip (callbacks w ! n)
             (w\<lparr>callbacks := take n (callbacks w) @ drop (Suc n) (callbacks w)\<rparr>))
      else w)"
| "portal_step k w (Logout e auth_header ip) = snd (sso_logout k e auth_header ip w)"
| "portal_step k w (Search e auth_header ip dataset_id query) = snd (open_search k e auth_header ip dataset_id query w)"
| "portal_step k w (UpdateSettings e u) = snd (update_portal_settings k e u w)"
| "portal_step k w (DatasetSettings e t dataset_id d) = snd (update_dataset_portal_config e t dataset_id d w)"
| "portal_step k w (RevokeAll e) = snd (revoke_all_portal_sessions e w)"
| "portal_step k w (RevokeAllClear e) = snd (revoke_all_portal_sessions_v2 e w)"
| "portal_step k w (RevokeOne e i) = snd (revoke_portal_session e i w)"
| "portal_step k w (TestOidc e) = snd (test_oidc_connection e w)"
| "portal_step k w Restart = booted (config_path w)"

section \<open>What each operation does to the configuration\<close>

definition conf :: "portal \<Rightarrow> portal_config" where
  "conf w = (case cached_config w of Some c \<Rightarrow> c
     | None \<Rightarrow> (case config_path w of Config c \<Rightarrow> c | _ \<Rightarrow> default_config))"

lemma get_portal_config_conf: "get_portal_config w = (conf w, w\<lparr>cached_config := Some (conf w)\<rparr>)"
  by (cases w) (auto simp: get_portal_config_def conf_def Let_def split: option.split)

lemma conf_cached [simp]: "cached_config w = Some c \<Longrightarrow> conf w = c"
  by (simp add: conf_def)

text \<open>Updates of other fields are invisible to \<open>conf\<close>.\<close>

definition keeps_config :: "portal \<Rightarrow> portal \<Rightarrow> bool" where
  "keeps_config w w' \<longleftrightarrow> conf w' = conf w \<and> config_path w' = config_path w"

lemma keeps_refl [simp, intro]: "keeps_config w w"
  by (simp add: keeps_config_def)

lemma keeps_trans [trans]: "keeps_config u v \<Longrightarrow> keeps_config v w \<Longrightarrow> keeps_config u w"
  by (simp add: keeps_config_def)

named_theorems keeps \<open>operations that leave the configuration and its file alone\<close>

lemma keeps_load [keeps]: "keeps_config w (snd (get_portal_config w))" "keeps_config w (w\<lparr>cached_config := Some (conf w)\<rparr>)"
  by (simp_all add: keeps_config_def get_portal_config_conf)

lemma keeps_rate [keeps]: "keeps_config w (snd (check_rate_limit now ip w))"
    "keeps_config w (record_attempt now ip w)"
  by (auto simp: keeps_config_def conf_def check_rate_limit_def record_attempt_def Let_def split: option.split)

lemma keeps_fetch [keeps]: "keeps_config w (snd (fetch_oidc_discovery e issuer w))"
  by (auto simp: keeps_config_def conf_def fetch_oidc_discovery_def split: option.split prod.split)

lemma keeps_clear [keeps]: "keeps_config w (clear_session_tokens i w)"
    "keeps_config w (store_id_token i t w)" "keeps_config w (log_portal_access now i sub email action detail w)"
    "keeps_config w (w\<lparr>callbacks := cs\<rparr>)" "keeps_config w (w\<lparr>discovery_cache := d\<rparr>)"
    "keeps_config w (clear_sessions_only w)" "keeps_config w (w\<lparr>refresh_tokens := r\<rparr>)"
    "keeps_config w (w\<lparr>pending_states := ps\<rparr>)" "keeps_config w (cleanup_pending_states now w)"
  by (auto simp: keeps_config_def conf_def clear_session_tokens_def store_id_token_def Let_def
      log_portal_access_def clear_sessions_only_def cleanup_pending_states_def split: option.split)

lemma keeps_fold: "keeps_config w (fold clear_session_tokens is w)"
  by (induction "is" arbitrary: w) (auto intro: keeps_trans keeps)

lemma keeps_store [keeps]: "keeps_config w (store_refresh_token i t w)"
proof -
  have "keeps_config w (w\<lparr>refresh_tokens := AList.update i t (refresh_tokens w)\<rparr>)" by (rule keeps)
  also have "keeps_config \<dots> (store_refresh_token i t w)"
    by (auto simp: store_refresh_token_def cleanup_expired_refresh_tokens_def get_portal_config_conf intro!: keeps_trans [OF _ keeps_fold]) (simp add: keeps_config_def conf_def)
  finally show ?thesis .
qed

lemma keeps_validate_state [keeps]: "keeps_config w (snd (validate_state now st w))"
  by (auto simp: validate_state_def keeps split: option.split)

lemma keeps_admission [keeps]: "keeps_config w (snd (get_portal_session k e h ip w))"
    "keeps_config w (snd (check_dataset_acl d w))"
  by (auto simp: get_portal_session_def check_dataset_acl_def get_portal_config_conf keeps)

lemma keeps_seq:
  assumes "keeps_config w (snd (m w))" "\<And>x w. keeps_config w (snd (f x w))"
  shows "keeps_config w (snd (seq m f w))"
  using assms by (auto simp: seq_cases split: sum.split intro: keeps_trans)

lemma keeps_exchange [keeps]: "keeps_config w (snd (exchange_code_for_tokens k e c code r w))"
    "keeps_config w (snd (validate_id_token e c t n w))"
  unfolding exchange_code_for_tokens_def validate_id_token_def
  by (auto intro!: keeps_seq keeps split: option.split)

lemma keeps_identity [keeps]: "keeps_config w (snd (sso_identity k e code p w))"
proof -
  let ?w = "w\<lparr>cached_config := Some (conf w)\<rparr>"
  obtain r w2 where x: "exchange_code_for_tokens k e (conf w) code (pd_redirect_uri p) ?w = (r, w2)" by fastforce
  have 2: "keeps_config w w2"
    using keeps_trans [OF keeps_load(2)] keeps_exchange(1) [of ?w k e "conf w" code "pd_redirect_uri p"] x by simp
  note d = sso_identity_def get_portal_config_conf x Let_def
  show ?thesis
  proof (cases r)
    case (Inl a)
    then show ?thesis using 2 by (cases a) (simp_all add: d)
  next
    case (Inr tokens)
    have 3: "keeps_config w (snd (fetch_oidc_discovery e i w2))" for i
      using keeps_trans [OF 2] keeps_fetch by auto
    show ?thesis
    proof (cases "dict_get tokens ''id_token'' JNull")
      case (JStr t)
      obtain r3 w3 where v: "validate_id_token e (conf w) t (pd_nonce p) w2 = (r3, w3)" by fastforce
      have "keeps_config w w3" using keeps_trans [OF 2 keeps_exchange(2) [of w2 e "conf w" t "pd_nonce p"]] v by simp
      then show ?thesis using Inr JStr 2 v by (cases r3) (simp_all add: d)
    qed (use Inr 2 3 in \<open>simp_all add: d\<close>)
  qed
qed

lemma keeps_end_session [keeps]: "keeps_config w (snd (get_end_session_url k e c h w))"
  using keeps_fetch [of w e "text_of (pc_oidc_issuer c)"]
  by (auto simp: get_end_session_url_def Let_def split: prod.split sum.split)

lemma keeps_authorize [keeps]: "keeps_config w (snd (build_authorize_url k e c r w))"
  using keeps_trans [OF keeps_clear(8) keeps_clear(9)]
  by (auto simp: build_authorize_url_def Let_def split: option.split prod.split)

text \<open>A save makes its argument the configuration, and the file is as before, broken, or that value.\<close>

definition saves :: "portal_config \<Rightarrow> portal \<Rightarrow> portal \<Rightarrow> bool" where
  "saves c w w' \<longleftrightarrow> conf w' = c \<and> config_path w' \<in> {config_path w, BadConfig, Config c}"

lemma saves_save: "saves c w (snd (save_portal_config r c w))"
  by (cases r) (auto simp: saves_def save_portal_config_def conf_def Let_def)

lemma saved_file: "save_portal_config r c w = (Inr u, w') \<Longrightarrow> config_path w' = Config c \<and> cached_config w' = Some c"
  by (cases r) (auto simp: save_portal_config_def Let_def)

lemma saves_keeps: "saves c w v \<Longrightarrow> keeps_config v w' \<Longrightarrow> saves c w w'"
  and keeps_saves: "keeps_config w v \<Longrightarrow> saves c v w' \<Longrightarrow> saves c w w'"
  and keeps_imp_saves: "keeps_config w w' \<Longrightarrow> saves (conf w) w w'"
  by (auto simp: saves_def keeps_config_def)

text \<open>
  What a step can do to the configuration: one line per operation. A restart is not in the table: it
  replaces the configuration by what the file holds.
\<close>

fun effect :: "library \<Rightarrow> portal_op \<Rightarrow> portal_config \<Rightarrow> portal_config \<Rightarrow> bool" where
  "effect k (CodeLogin e code ip) c c' \<longleftrightarrow>
     c' = c \<or> c' = c\<lparr>pc_active_sessions := AList.update (fresh_session e) (sn_expires_at (new_session e CodeTier ip c))
       (pc_active_sessions c)\<rparr>"
| "effect k (CallbackFinish e n code ip) c c' \<longleftrightarrow>
     c' = c \<or> c' = c\<lparr>pc_active_sessions := AList.update (fresh_session e) (sn_expires_at (new_session e SsoTier ip c))
       (pc_active_sessions c)\<rparr>"
| "effect k (Logout e h ip) c c' \<longleftrightarrow>
     c' = c \<or> (\<exists>i. c' = c\<lparr>pc_active_sessions := AList.delete i (pc_active_sessions c)\<rparr>)"
| "effect k (UpdateSettings e u) c c' \<longleftrightarrow> c' = snd (apply_update k e u c)"
| "effect k (DatasetSettings e t i d) c c' \<longleftrightarrow> c' = c \<or> c' = c\<lparr>pc_datasets := AList.update i d (pc_datasets c)\<rparr>"
| "effect k (RevokeAll e) c c' \<longleftrightarrow> c' = invalidate_sessions_on_rotation c"
| "effect k (RevokeAllClear e) c c' \<longleftrightarrow> c' = invalidate_sessions_on_rotation c"
| "effect k (RevokeOne e i) c c' \<longleftrightarrow>
     c' = c \<or> c' = c\<lparr>pc_active_sessions := AList.delete i (pc_active_sessions c)\<rparr>"
| "effect k Restart c c' \<longleftrightarrow> False"
| "effect k _ c c' \<longleftrightarrow> c' = c"

lemma saves_track: "saves ((conf w)\<lparr>pc_active_sessions := AList.update (sn_id s) (sn_expires_at s)
      (pc_active_sessions (conf w))\<rparr>) w (snd (track_session e s w))"
  unfolding track_session_def get_portal_config_conf split
  by (rule keeps_saves [OF keeps_load(2) saves_save])

lemma saves_seq:
  assumes "saves c w (snd (m w))" "\<And>x w. keeps_config w (snd (f x w))"
  shows "saves c w (snd (seq m f w))"
  using assms by (auto simp: seq_cases split: sum.split intro: saves_keeps)

lemma saves_track_seq:
  assumes "conf w = c" "\<And>x w. keeps_config w (snd (f x w))"
  shows "saves (c\<lparr>pc_active_sessions := AList.update (sn_id s) (sn_expires_at s) (pc_active_sessions c)\<rparr>) w
    (snd (seq (track_session e s) f w))"
proof (rule saves_seq)
  show "saves (c\<lparr>pc_active_sessions := AList.update (sn_id s) (sn_expires_at s) (pc_active_sessions c)\<rparr>) w
    (snd (track_session e s w))"
    using saves_track [where w = w and s = s and e = e] by (simp add: assms(1))
qed (rule assms(2))

text \<open>An operation either leaves the configuration, or saves a changed one.\<close>

definition either :: "portal_config \<Rightarrow> portal \<Rightarrow> portal \<Rightarrow> bool" where
  "either c w w' \<longleftrightarrow> keeps_config w w' \<or> saves c w w'"

lemma either_keeps: "keeps_config w v \<Longrightarrow> either c v w' \<Longrightarrow> either c w w'"
  unfolding either_def using keeps_trans keeps_saves by blast

lemma login_either:
  "either ((conf w)\<lparr>pc_active_sessions := AList.update (fresh_session e) (sn_expires_at (new_session e CodeTier ip (conf w)))
       (pc_active_sessions (conf w))\<rparr>) w (snd (authenticate_with_code k e code ip w))"
proof -
  let ?w = "w\<lparr>cached_config := Some (conf w)\<rparr>"
  obtain ok v where r: "check_rate_limit (at e) ip ?w = (ok, v)" by fastforce
  have 1: "keeps_config w v" using keeps_trans [OF keeps_load(2) keeps_rate(1), of w "at e" ip] r by simp
  have 2: "keeps_config w (record_attempt (at e) ip v)" by (rule keeps_trans [OF 1 keeps_rate(2)])
  then have c: "conf (record_attempt (at e) ip v) = conf w" by (simp add: keeps_config_def)
  have "either ((conf w)\<lparr>pc_active_sessions := AList.update (fresh_session e) (sn_expires_at (new_session e CodeTier ip (conf w)))
       (pc_active_sessions (conf w))\<rparr>)
      (record_attempt (at e) ip v) (snd (verify_and_issue k e code ip (conf w) (record_attempt (at e) ip v)))"
  proof (cases "truthy (pc_access_code_hash (conf w)) \<and> bcrypt_check k code (the (pc_access_code_hash (conf w)))")
    case True
    let ?s = "new_session e CodeTier ip (conf w)"
    have s: "sn_id ?s = fresh_session e" by (simp add: new_session_def)
    have "verify_and_issue k e code ip (conf w) = seq (track_session e ?s) (\<lambda>_. ret
          \<lparr>ar_token = create_portal_jwt k (at e) ?s, ar_expires_at = sn_expires_at ?s, ar_tier = tier_value (sn_tier ?s)\<rparr>)"
      using True by (simp add: verify_and_issue_def Let_def)
    then show ?thesis unfolding either_def
      using saves_track_seq [OF c, where s = ?s and e = e and f = "\<lambda>_. ret
          \<lparr>ar_token = create_portal_jwt k (at e) ?s, ar_expires_at = sn_expires_at ?s, ar_tier = tier_value (sn_tier ?s)\<rparr>"]
      unfolding s by simp
  qed (auto simp: verify_and_issue_def either_def)
  from either_keeps [OF 2 this] show ?thesis
    using 1 keeps_load(2) [of w] r
    by (auto simp: authenticate_with_code_def get_portal_config_conf either_def)
qed

lemma finish_either:
  "either ((conf w)\<lparr>pc_active_sessions := AList.update (fresh_session e) (sn_expires_at (new_session e SsoTier ip (conf w)))
       (pc_active_sessions (conf w))\<rparr>) w (snd (sso_callback_finish k e code ip p w))"
proof -
  obtain r v where i: "sso_identity k e code p w = (r, v)" by fastforce
  have 1: "keeps_config w v" using keeps_identity [of w k e code p] i by simp
  have 2: "keeps_config w (v\<lparr>cached_config := Some (conf v)\<rparr>)" by (rule keeps_trans [OF 1 keeps_load(2)])
  have c: "conf v = conf w" using 1 by (simp add: keeps_config_def)
  have f: "keeps_config w2 (log_portal_access now i sub email a d (store_id_token i t
      (if b then store_refresh_token i r w2 else w2)))" for w2 now i sub email a d t b r
    by (auto intro!: keeps_trans [OF _ keeps_clear(3)] keeps_trans [OF _ keeps_clear(2)] keeps)
  show ?thesis
  proof (cases r)
    case (Inl a)
    then show ?thesis using 1 by (simp add: sso_callback_finish_def seq_cases i either_def)
  next
    case (Inr x)
    obtain tokens t claims where x: "x = (tokens, t, claims)" by (cases x)
    have e: "snd (sso_callback_finish k e code ip p w) = snd (sso_login k e ip (tokens, t, claims) v)"
      by (simp add: sso_callback_finish_def seq_cases i Inr x)
    show ?thesis
    proof (cases "\<exists>sub email name. dict_get claims ''sub'' JNull = JStr sub \<and>
        opt_str (dict_get claims ''email'' JNull) = Some email \<and> opt_str (dict_get claims ''name'' JNull) = Some name")
      case True
      then obtain sub email name where j: "dict_get claims ''sub'' JNull = JStr sub"
        "opt_str (dict_get claims ''email'' JNull) = Some email" "opt_str (dict_get claims ''name'' JNull) = Some name"
        by blast
      let ?s = "(new_session e SsoTier ip (conf w))\<lparr>sn_oidc_subject := Some sub, sn_oidc_email := email, sn_oidc_name := name\<rparr>"
      have "saves ((conf w)\<lparr>pc_active_sessions := AList.update (sn_id ?s) (sn_expires_at ?s) (pc_active_sessions (conf w))\<rparr>)
        (v\<lparr>cached_config := Some (conf w)\<rparr>) (snd (sso_login k e ip (tokens, t, claims) v))"
        unfolding sso_login_def split get_portal_config_conf c j prod.case json.case option.case Let_def
        by (rule saves_track_seq) (simp, simp only: snd_conv f)
      from keeps_saves [OF 2 [unfolded c] this] show ?thesis unfolding e either_def
        by (simp add: new_session_def)
    next
      case False
      then have "snd (sso_login k e ip (tokens, t, claims) v) = v\<lparr>cached_config := Some (conf w)\<rparr>"
        by (auto simp: sso_login_def get_portal_config_conf c split: json.split option.split)
      then show ?thesis using 2 c unfolding e either_def by simp
    qed
  qed
qed

text \<open>Every operation but a restart has the effect of its line, and what it leaves in the file is the file
  as it was, a broken file, or the new configuration.\<close>

lemma eitherD: "either c w w' \<Longrightarrow> (conf w' = conf w \<or> conf w' = c) \<and> config_path w' \<in> {config_path w, BadConfig, Config (conf w')}"
  by (auto simp: either_def keeps_config_def saves_def)

lemma either_seq:
  assumes "either c w (snd (m v))" "\<And>x w. keeps_config w (snd (f x w))"
  shows "either c w (snd (seq m f v))"
  using assms by (auto simp: either_def seq_cases split: sum.split intro: saves_keeps keeps_trans)

lemma either_save: "conf w = c \<Longrightarrow> either c' w (snd (save_portal_config r c' (w\<lparr>cached_config := Some c\<rparr>)))"
  unfolding either_def using keeps_saves [OF keeps_load(2) [of w] saves_save] by blast

lemma logout_either:
  "\<exists>i. either ((conf w)\<lparr>pc_active_sessions := AList.delete i (pc_active_sessions (conf w))\<rparr>) w (snd (sso_logout k e h ip w))"
proof -
  obtain r v where g: "get_portal_session k e h ip w = (r, v)" by fastforce
  have 1: "keeps_config w v" using keeps_admission(1) [of w k e h ip] g by simp
  have c: "conf v = conf w" using 1 by (simp add: keeps_config_def)
  show ?thesis
  proof (cases r)
    case (Inl a)
    then show ?thesis using 1 by (auto simp: sso_logout_def seq_cases g either_def)
  next
    case (Inr s)
    have k: "keeps_config w (snd (case get_end_session_url k e d h w' of (url, u) \<Rightarrow> (Inr url, u)))"
      if "keeps_config w w'" for w w' d h
      using keeps_trans [OF that keeps_end_session] by (simp add: split_beta)
    have l: "keeps_config w2 (log_portal_access (at e) i x y z None (clear_session_tokens i w2))" for w2 i x y z
      by (rule keeps_trans [OF keeps_clear(1) keeps_clear(3)])
    have "either ((conf w)\<lparr>pc_active_sessions := AList.delete (sn_id s) (pc_active_sessions (conf w))\<rparr>) v
        (snd (sso_logout k e h ip w))"
      unfolding sso_logout_def seq_cases [of "get_portal_session k e h ip"] g fst_conv snd_conv Inr sum.case
        get_portal_config_conf split c Let_def
      by (intro either_seq either_save c) (auto intro!: k l keeps_clear(1))
    from either_keeps [OF 1 this] show ?thesis by blast
  qed
qed

lemma update_conf: "conf (snd (update_portal_settings k e u w)) = snd (apply_update k e u (conf w)) \<and>
    config_path (snd (update_portal_settings k e u w)) \<in>
      {config_path w, BadConfig, Config (conf (snd (update_portal_settings k e u w)))}"
proof (cases "apply_update k e u (conf w)")
  case (Pair r c)
  let ?w = "w\<lparr>cached_config := Some (conf w)\<rparr>"
  have "saves c ?w (snd (seq (save_portal_config (written e) c) (\<lambda>_. ret x) ?w))" for x :: "portal_config \<times> nat"
    by (rule saves_seq [OF saves_save]) simp
  then show ?thesis unfolding saves_def
    by (cases r) (auto simp: update_portal_settings_def get_portal_config_conf Pair saves_def)
qed

theorem step_effect:
  assumes "op \<noteq> Restart"
  shows "effect k op (conf w) (conf (portal_step k w op)) \<and>
    config_path (portal_step k w op) \<in> {config_path w, BadConfig, Config (conf (portal_step k w op))}"
proof (cases op)
  case (CodeLogin e code ip)
  then show ?thesis using eitherD [OF login_either [where w = w and e = e and ip = ip and k = k and code = code]] by auto
next
  case (Authorize e)
  obtain r v where f: "fetch_oidc_discovery e (the (pc_oidc_issuer (conf w))) (w\<lparr>cached_config := Some (conf w)\<rparr>) = (r, v)"
    by fastforce
  have 1: "keeps_config w v" using keeps_trans [OF keeps_load(2) keeps_fetch, of w] f by (metis snd_conv)
  then have "keeps_config w (snd (sso_authorize k e w))"
    using f keeps_trans [OF 1 keeps_authorize]
    by (auto simp: sso_authorize_def get_portal_config_conf keeps split: sum.split)
  then show ?thesis using Authorize by (simp add: keeps_config_def)
next
  case (CallbackStart e st)
  obtain r v where f: "validate_state (at e) st (w\<lparr>cached_config := Some (conf w)\<rparr>) = (r, v)" by fastforce
  have 1: "keeps_config w v" using keeps_trans [OF keeps_load(2) keeps_validate_state, of w] f by (metis snd_conv)
  have "keeps_config w (portal_step k w op)"
    using CallbackStart f 1 keeps_trans [OF 1 keeps_clear(4)]
    by (auto simp: sso_callback_start_def get_portal_config_conf keeps split: option.split)
  then show ?thesis using CallbackStart by (simp add: keeps_config_def)
next
  case (CallbackFinish e n code ip)
  let ?w = "w\<lparr>callbacks := take n (callbacks w) @ drop (Suc n) (callbacks w)\<rparr>"
  have c: "conf ?w = conf w" using keeps_clear(4) by (simp add: keeps_config_def)
  show ?thesis
    using CallbackFinish eitherD [OF finish_either [where w = ?w and e = e and ip = ip and k = k and code = code and p = "callbacks w ! n"]] by (auto simp: c)
next
  case (Logout e h ip)
  from logout_either [of w k e h ip] obtain i where
    "either ((conf w)\<lparr>pc_active_sessions := AList.delete i (pc_active_sessions (conf w))\<rparr>) w (snd (sso_logout k e h ip w))"
    by blast
  from eitherD [OF this] show ?thesis using Logout by auto
next
  case (Search e h ip i query)
  have "keeps_config w (portal_step k w op)" unfolding Search portal_step.simps open_search_def
    by (intro keeps_seq keeps) (auto intro: keeps)
  then show ?thesis using Search by (simp add: keeps_config_def)
next
  case (UpdateSettings e u)
  have p: "portal_step k w op = snd (update_portal_settings k e u w)" by (simp add: UpdateSettings)
  note q = update_conf [where k = k and e = e and u = u and w = w, THEN conjunct1]
    update_conf [where k = k and e = e and u = u and w = w, THEN conjunct2]
  show ?thesis using q(2) unfolding p q(1) by (simp add: UpdateSettings)
next
  case (DatasetSettings e t i d)
  have "either ((conf w)\<lparr>pc_datasets := AList.update i d (pc_datasets (conf w))\<rparr>) w
      (snd (update_dataset_portal_config e t i d w))"
    using either_save [OF refl, where w = w]
    by (auto simp: update_dataset_portal_config_def get_portal_config_conf either_def)
  from eitherD [OF this] show ?thesis using DatasetSettings by auto
next
  case (RevokeAll e)
  have "saves (invalidate_sessions_on_rotation (conf w)) w (snd (revoke_all_portal_sessions e w))"
    using keeps_saves [OF keeps_load(2) saves_save, where w = w] by (simp add: revoke_all_portal_sessions_def get_portal_config_conf)
  then show ?thesis using RevokeAll by (auto simp: saves_def)
next
  case (RevokeAllClear e)
  have "saves (invalidate_sessions_on_rotation (conf w)) w (snd (revoke_all_portal_sessions e w))"
    using keeps_saves [OF keeps_load(2) saves_save, where w = w] by (simp add: revoke_all_portal_sessions_def get_portal_config_conf)
  then have "saves (invalidate_sessions_on_rotation (conf w)) w (snd (revoke_all_portal_sessions_v2 e w))"
    unfolding revoke_all_portal_sessions_v2_def by (rule saves_seq) (simp add: keeps)
  then show ?thesis using RevokeAllClear by (auto simp: saves_def)
next
  case (RevokeOne e i)
  have "either ((conf w)\<lparr>pc_active_sessions := AList.delete i (pc_active_sessions (conf w))\<rparr>) w (snd (revoke_portal_session e i w))"
  proof (cases "i \<in> fst ` set (pc_active_sessions (conf w))")
    case True
    then show ?thesis unfolding revoke_portal_session_def get_portal_config_conf split
      by (auto intro!: either_seq either_save keeps_clear(1))
  qed (auto simp: revoke_portal_session_def get_portal_config_conf either_def keeps)
  from eitherD [OF this] show ?thesis using RevokeOne by auto
next
  case (TestOidc e)
  have "keeps_config w (w\<lparr>cached_config := Some (conf w), discovery_cache := []\<rparr>)"
    by (simp add: keeps_config_def conf_def)
  note 1 = keeps_trans [OF this keeps_fetch]
  obtain r v where f: "fetch_oidc_discovery e (the (pc_oidc_issuer (conf w)))
      (w\<lparr>cached_config := Some (conf w), discovery_cache := []\<rparr>) = (r, v)" by fastforce
  have "keeps_config w v" using 1 f by (metis snd_conv)
  then have "keeps_config w (snd (test_oidc_connection e w))"
    using f by (auto simp: test_oidc_connection_def get_portal_config_conf keeps split: sum.split)
  then show ?thesis using TestOidc by (simp add: keeps_config_def)
qed (use assms in simp)

text \<open>
  Laws of the configuration that the operations of a kind keep. Without a restart only the effects
  count; with restarts the default configuration must obey the law too.
\<close>

locale config_law =
  fixes k :: library and law :: "portal_config \<Rightarrow> bool" and kind :: "portal_op \<Rightarrow> bool"
  assumes effect_law: "law c \<Longrightarrow> kind op \<Longrightarrow> effect k op c c' \<Longrightarrow> law c'"
begin

lemma running_law:
  assumes "law (conf w)" "list_all (\<lambda>op. kind op \<and> op \<noteq> Restart) ops"
  shows "law (conf (foldl (portal_step k) w ops))"
  using assms
proof (induction ops arbitrary: w)
  case (Cons op ops)
  then have "law (conf (portal_step k w op))" using step_effect [of op k w] effect_law by auto
  with Cons show ?case by simp
qed simp

end

locale durable_law = config_law +
  assumes default_law: "law default_config"
begin

definition holds :: "portal \<Rightarrow> bool" where
  "holds w \<longleftrightarrow> law (conf w) \<and> (case config_path w of Config c \<Rightarrow> law c | _ \<Rightarrow> True)"

lemma step_holds:
  assumes "holds w" "kind op"
  shows "holds (portal_step k w op)"
proof (cases "op = Restart")
  case True
  then show ?thesis using assms(1) default_law
    by (auto simp: holds_def conf_def booted_def split: config_file.splits)
next
  case False
  then show ?thesis using step_effect [of op k w] effect_law [of "conf w" op] assms
    by (auto simp: holds_def split: config_file.splits)
qed

lemma durable: "holds w \<Longrightarrow> list_all kind ops \<Longrightarrow> law (conf (foldl (portal_step k) w ops))"
proof (induction ops arbitrary: w)
  case Nil
  then show ?case by (simp add: holds_def)
next
  case (Cons op ops)
  then show ?case using step_holds [of w op] by simp
qed

lemma booted_holds: "(case f of Config c \<Rightarrow> law c | _ \<Rightarrow> True) \<Longrightarrow> holds (booted f)"
  using default_law by (auto simp: holds_def conf_def booted_def split: config_file.splits)

end

section \<open>Revocation\<close>

definition listed :: "string \<Rightarrow> portal_config \<Rightarrow> bool" where
  "listed i c \<longleftrightarrow> i \<in> fst ` set (pc_active_sessions c)"

text \<open>The session identifier that an operation may issue.\<close>

fun issues :: "portal_op \<Rightarrow> string option" where
  "issues (CodeLogin e _ _) = Some (fresh_session e)"
| "issues (CallbackFinish e _ _ _) = Some (fresh_session e)"
| "issues _ = None"

text \<open>What the four parts of an update do to the sessions.\<close>

lemma update_parts:
  "pc_active_sessions (snd (set_fields e u c)) = pc_active_sessions c"
  "snd (require_oidc m c) = c"
  "pc_active_sessions (snd (set_access_code k e u c)) \<in> {pc_active_sessions c, []}"
  "pc_active_sessions (snd (set_enabled u c)) = pc_active_sessions c"
  by (auto simp: set_fields_def require_oidc_def set_access_code_def set_enabled_def seq_cases
      invalidate_sessions_on_rotation_def split: option.split bool.split sum.split if_splits)

lemma apply_update_sessions:
  "pc_active_sessions (snd (apply_update k e u c)) \<in> {pc_active_sessions c, []}"
proof -
  let ?c = "snd (set_fields e u c)"
  have a: "pc_active_sessions (snd (seq (set_access_code k e u) (\<lambda>_. set_enabled u) ?c)) \<in> {pc_active_sessions c, []}"
    using update_parts(3) [of k e u ?c] by (auto simp: seq_cases update_parts split: sum.split)
  have "snd (apply_update k e u c) \<in> {?c, snd (seq (set_access_code k e u) (\<lambda>_. set_enabled u) ?c)}"
    unfolding apply_update_def by (simp add: seq_cases [of "set_fields e u"] seq_cases [of "require_oidc m" for m]
      update_parts split: sum.split)
  then show ?thesis using a update_parts(1) [of e u c] by auto
qed

lemma in_dom_alist: "i \<in> fst ` set xs \<longleftrightarrow> map_of xs i \<noteq> None"
  by (simp add: map_of_eq_None_iff)

lemma listed_updates [simp]:
  "listed i (c\<lparr>pc_active_sessions := AList.update j t (pc_active_sessions c)\<rparr>) \<longleftrightarrow> i = j \<or> listed i c"
  "listed i (c\<lparr>pc_active_sessions := AList.delete j (pc_active_sessions c)\<rparr>) \<longleftrightarrow> i \<noteq> j \<and> listed i c"
  "listed i (c\<lparr>pc_datasets := d\<rparr>) \<longleftrightarrow> listed i c"
  "\<not> listed i (invalidate_sessions_on_rotation c)"
  by (auto simp: listed_def in_dom_alist update_conv' delete_conv' invalidate_sessions_on_rotation_def split: if_splits)

interpretation unlisted: durable_law k "\<lambda>c. \<not> listed i c" "\<lambda>op. issues op \<noteq> Some i" for k i
proof unfold_locales
  fix c c' op assume "\<not> listed i c" "issues op \<noteq> Some i" "effect k op c c'"
  then show "\<not> listed i c'"
  proof (cases op)
    case (UpdateSettings e u)
    then show ?thesis using \<open>\<not> listed i c\<close> \<open>effect k op c c'\<close> apply_update_sessions [of k e u c] by (auto simp: listed_def)
  qed auto
qed (simp add: listed_def default_config_def)

text \<open>An accepted operation that ends session \<open>i\<close>: its revocation, its logout, a revocation of all
  sessions, or a new access code.\<close>

definition revoked_by :: "library \<Rightarrow> portal_op \<Rightarrow> string \<Rightarrow> portal \<Rightarrow> bool" where
  "revoked_by k op i w =
     (case op of
        RevokeOne e j \<Rightarrow> j = i \<and> fst (revoke_portal_session e j w) = Inr ()
      | RevokeAll e \<Rightarrow> fst (revoke_all_portal_sessions e w) = Inr ()
      | RevokeAllClear e \<Rightarrow> fst (revoke_all_portal_sessions_v2 e w) = Inr ()
      | Logout e h ip \<Rightarrow>
          (case (fst (get_portal_session k e h ip w), fst (sso_logout k e h ip w)) of
             (Inr s, Inr _) \<Rightarrow> sn_id s = i | _ \<Rightarrow> False)
      | UpdateSettings e u \<Rightarrow>
          truthy (cu_access_code u) \<and> \<not> isl (fst (update_portal_settings k e u w))
      | _ \<Rightarrow> False)"

lemma saved_holds:
  assumes "save_portal_config r c w = (Inr u, v)" "keeps_config v w'" "\<not> listed i c"
  shows "unlisted.holds i w'"
  using saved_file [OF assms(1)] assms(2,3) by (simp add: unlisted.holds_def keeps_config_def)

lemma seq_InrD: "seq m f w = (Inr y, w') \<Longrightarrow> \<exists>x v. m w = (Inr x, v) \<and> f x v = (Inr y, w')"
  by (auto simp: seq_def split: prod.splits sum.splits)

lemma apply_update_rotates:
  assumes "apply_update k e u c = (Inr x, c')" "truthy (cu_access_code u)"
  shows "\<not> listed i c'"
proof -
  obtain c0 where "seq (require_oidc ''SSO tier requires oidc_issuer, oidc_client_id, and oidc_client_secret'')
      (\<lambda>_. seq (set_access_code k e u) (\<lambda>_. set_enabled u)) c0 = (Inr x, c')"
    using seq_InrD [OF assms(1) [unfolded apply_update_def]] by blast
  from seq_InrD [OF this] obtain c1 where "seq (set_access_code k e u) (\<lambda>_. set_enabled u) c1 = (Inr x, c')" by blast
  from seq_InrD [OF this] obtain v where c1: "set_access_code k e u c1 = (Inr (), v)" "set_enabled u v = (Inr x, c')" by auto
  have "pc_active_sessions v = []"
    using c1(1) assms(2) by (auto simp: set_access_code_def invalidate_sessions_on_rotation_def truthy_def
        split: option.splits if_splits)
  then show ?thesis using c1(2) update_parts(4) [of u v] by (simp add: listed_def)
qed

lemma revoked_holds:
  assumes "revoked_by k op i w"
  shows "unlisted.holds i (portal_step k w op)"
proof (cases op)
  case (RevokeOne e j)
  have "revoke_portal_session e i w = (Inr (), portal_step k w op)"
    using assms RevokeOne by (auto simp: revoked_by_def prod_eq_iff)
  then have "seq (save_portal_config (written e) ((conf w)\<lparr>pc_active_sessions := AList.delete i (pc_active_sessions (conf w))\<rparr>))
      (\<lambda>_ w2. (Inr (), clear_session_tokens i w2)) (w\<lparr>cached_config := Some (conf w)\<rparr>) = (Inr (), portal_step k w op)"
    by (auto simp: revoke_portal_session_def get_portal_config_conf split: if_splits)
  from seq_InrD [OF this] obtain v where
    v: "save_portal_config (written e) ((conf w)\<lparr>pc_active_sessions := AList.delete i (pc_active_sessions (conf w))\<rparr>)
      (w\<lparr>cached_config := Some (conf w)\<rparr>) = (Inr (), v)" "portal_step k w op = clear_session_tokens i v" by auto
  show ?thesis unfolding v(2) by (rule saved_holds [OF v(1) keeps_clear(1)]) simp
next
  case (RevokeAll e)
  have "revoke_all_portal_sessions e w = (Inr (), portal_step k w op)"
    using assms RevokeAll by (auto simp: revoked_by_def prod_eq_iff)
  then show ?thesis
    by (auto simp: revoke_all_portal_sessions_def get_portal_config_conf intro: saved_holds)
next
  case (RevokeAllClear e)
  have "seq (revoke_all_portal_sessions e) (\<lambda>_ w. (Inr (), clear_sessions_only w)) w = (Inr (), portal_step k w op)"
    using assms RevokeAllClear by (auto simp: revoked_by_def prod_eq_iff revoke_all_portal_sessions_v2_def)
  from seq_InrD [OF this] obtain v where
    v: "save_portal_config (written e) (invalidate_sessions_on_rotation (conf w)) (w\<lparr>cached_config := Some (conf w)\<rparr>)
      = (Inr (), v)" "portal_step k w op = clear_sessions_only v"
    by (auto simp: revoke_all_portal_sessions_def get_portal_config_conf)
  show ?thesis unfolding v(2) by (rule saved_holds [OF v(1) keeps_clear(6)]) simp
next
  case (Logout e h ip)
  obtain s x where s: "fst (get_portal_session k e h ip w) = Inr s" "sn_id s = i" "fst (sso_logout k e h ip w) = Inr x"
    using assms Logout by (auto simp: revoked_by_def split: sum.splits)
  obtain v where g: "get_portal_session k e h ip w = (Inr s, v)" using s(1) by (metis prod.collapse)
  have l: "sso_logout k e h ip w = (Inr x, portal_step k w op)" using s(3) Logout by (simp add: prod_eq_iff)
  define f where "f = (\<lambda>_ :: unit. \<lambda>w2.
     let w3 = clear_session_tokens (sn_id s) w2;
         w4 = (if truthy (sn_oidc_subject s)
               then log_portal_access (at e) (sn_id s) (the (sn_oidc_subject s)) (sn_oidc_email s) ''logout'' None w3
               else w3)
     in if truthy (pc_oidc_issuer (conf v))
        then (case get_end_session_url k e (conf v)
                (if truthy (pc_oidc_issuer (conf v)) then map_of (id_tokens (v\<lparr>cached_config := Some (conf v)\<rparr>)) (sn_id s) else None) w4 of
                (url, w5) \<Rightarrow> (Inr url, w5))
        else ((Inr None, w4) :: (portal_exn + json option) \<times> portal))"
  have "seq (save_portal_config (written e) ((conf v)\<lparr>pc_active_sessions := AList.delete i (pc_active_sessions (conf v))\<rparr>)) f
      (v\<lparr>cached_config := Some (conf v)\<rparr>) = (Inr x, portal_step k w op)"
    using l unfolding sso_logout_def seq_cases [of "get_portal_session k e h ip"] g fst_conv snd_conv sum.case
      get_portal_config_conf split s(2) f_def Let_def by (simp add: s(2))
  from seq_InrD [OF this] obtain v' where
    v': "save_portal_config (written e) ((conf v)\<lparr>pc_active_sessions := AList.delete i (pc_active_sessions (conf v))\<rparr>)
      (v\<lparr>cached_config := Some (conf v)\<rparr>) = (Inr (), v')" "f () v' = (Inr x, portal_step k w op)" by auto
  have "keeps_config v' (snd (f () v'))"
    unfolding f_def Let_def
    by (auto simp: split_beta intro: keeps keeps_trans [OF keeps_clear(1)]
        keeps_trans [OF keeps_trans [OF keeps_clear(1) keeps_clear(3)]])
  then show ?thesis using v' by (auto intro: saved_holds)
next
  case (UpdateSettings e u)
  obtain y where y: "update_portal_settings k e u w = (Inr y, portal_step k w op)"
  proof -
    have "\<not> isl (fst (update_portal_settings k e u w))" using assms by (simp add: revoked_by_def UpdateSettings)
    then show ?thesis using that by (cases "fst (update_portal_settings k e u w)") (auto simp: UpdateSettings prod_eq_iff)
  qed
  obtain r c where a: "apply_update k e u (conf w) = (r, c)" by fastforce
  have r: "r = Inr ()" using y a by (cases r) (auto simp: update_portal_settings_def get_portal_config_conf)
  have "seq (save_portal_config (written e) c) (\<lambda>_. ret (redacted c, length (pc_active_sessions c)))
      (w\<lparr>cached_config := Some (conf w)\<rparr>) = (Inr y, portal_step k w op)"
    using y a r by (simp add: update_portal_settings_def get_portal_config_conf)
  moreover have "\<not> listed i c"
    using assms UpdateSettings apply_update_rotates [OF a [unfolded r]] by (simp add: revoked_by_def)
  ultimately show ?thesis by (auto dest!: seq_InrD intro: saved_holds)
qed (use assms in \<open>auto simp: revoked_by_def\<close>)

text \<open>A session that is not listed is admitted only as a new anonymous one.\<close>

lemma unlisted_not_admitted:
  assumes "\<not> listed i (conf w)" "fst (get_portal_session k e h ip w) = Inr s" "fresh_session e \<noteq> i"
  shows "sn_id s \<noteq> i"
proof -
  have live: "live_subject (conf w) claims = Inr j \<Longrightarrow> j \<noteq> i" for claims j
    using assms(1) by (auto simp: live_subject_def listed_def split: option.splits json.splits if_splits)
  have id: "session_of_claims c j t claims a b d = Inr s \<Longrightarrow> sn_id s = j" for c j t claims a b d
    by (auto simp: session_of_claims_def split: prod.splits option.splits json.splits)
  have "code_session k (at e) h (conf w) = Inr s \<Longrightarrow> sn_id s \<noteq> i" "sso_session k (at e) h (conf w) = Inr s \<Longrightarrow> sn_id s \<noteq> i"
    by (auto simp: code_session_def sso_session_def split: sum.splits option.splits if_splits dest!: id live)
  then show ?thesis using assms(2,3)
    by (auto simp: get_portal_session_def get_portal_config_conf new_session_def split: if_splits tier.splits)
qed

section \<open>Attempts and pending states\<close>

text \<open>The parts of the process that most operations do not touch.\<close>

definition waiting :: "portal \<Rightarrow> (string \<times> time list) list \<times> (string \<times> pending_state) list" where
  "waiting w = (access_attempts w, pending_states w)"

named_theorems waits \<open>operations that leave attempts and pending states alone\<close>

lemma waiting_leaves [waits]:
  "waiting (w\<lparr>cached_config := c\<rparr>) = waiting w" "waiting (w\<lparr>callbacks := cs\<rparr>) = waiting w"
  "waiting (w\<lparr>discovery_cache := d\<rparr>) = waiting w" "waiting (w\<lparr>refresh_tokens := r\<rparr>) = waiting w"
  "waiting (snd (save_portal_config wr cfg w)) = waiting w"
  "waiting (clear_session_tokens i w) = waiting w" "waiting (store_id_token i t w) = waiting w"
  "waiting (log_portal_access now i sub email action detail w) = waiting w"
  by (simp_all add: waiting_def save_portal_config_def clear_session_tokens_def store_id_token_def
      log_portal_access_def Let_def split: write_result.split)

lemma waiting_fetch [waits]: "waiting (snd (fetch_oidc_discovery e i w)) = waiting w"
  by (auto simp: fetch_oidc_discovery_def waits split: option.split prod.split)

lemma waiting_seq:
  assumes "waiting (snd (m w)) = waiting v" "\<And>x w. waiting (snd (f x w)) = waiting w"
  shows "waiting (snd (seq m f w)) = waiting v"
  using assms by (auto simp: seq_cases split: sum.split)

lemma waiting_store [waits]: "waiting (store_refresh_token i t w) = waiting w"
proof -
  have "waiting (fold clear_session_tokens is v) = waiting v" for "is" v
    by (induction "is" arbitrary: v) (auto simp: waits)
  then show ?thesis
    by (simp add: store_refresh_token_def cleanup_expired_refresh_tokens_def get_portal_config_conf waits)
qed

lemma waiting_session [waits]:
  "waiting (snd (get_portal_session k e h ip w)) = waiting w" "waiting (snd (check_dataset_acl d w)) = waiting w"
  "waiting (snd (track_session e s w)) = waiting w" "waiting (snd (get_end_session_url k e c i w)) = waiting w"
  by (auto simp: get_portal_session_def check_dataset_acl_def track_session_def get_end_session_url_def
      get_portal_config_conf waits split_beta Let_def split: sum.split)

lemma waiting_identity [waits]:
  "waiting (snd (exchange_code_for_tokens k e c code r w)) = waiting w"
  "waiting (snd (validate_id_token e c t n w)) = waiting w"
  unfolding exchange_code_for_tokens_def validate_id_token_def
  by (auto intro!: waiting_seq simp: waits split: option.split)

lemma case_prod_snd: "snd (case p of (a, b) \<Rightarrow> (f a b, g b)) = g (snd p)"
  by (simp add: split_beta)

lemma waiting_finish [waits]: "waiting (snd (sso_callback_finish k e code ip p w)) = waiting w"
proof -
  have 1: "waiting (snd (sso_identity k e code p w)) = waiting w" for w
    unfolding sso_identity_def get_portal_config_conf split_beta Let_def
    by (auto simp: waits split: sum.split idp_error.split json.split)
  have 2: "waiting (snd (sso_login k e ip r w)) = waiting w" for r w
    unfolding sso_login_def get_portal_config_conf split_beta Let_def
    by (auto simp: waits intro!: waiting_seq split: json.split option.split)
  show ?thesis unfolding sso_callback_finish_def by (intro waiting_seq 1 2)
qed

lemma waiting_logout [waits]: "waiting (snd (sso_logout k e h ip w)) = waiting w"
  unfolding sso_logout_def get_portal_config_conf split Let_def
  by (intro waiting_seq) (auto simp: waits split_beta intro!: waiting_seq)

lemma waiting_settings [waits]:
  "waiting (snd (update_portal_settings k e u w)) = waiting w"
  "waiting (snd (update_dataset_portal_config e t i d w)) = waiting w"
  "waiting (snd (revoke_all_portal_sessions e w)) = waiting w"
  "waiting (snd (revoke_portal_session e i w)) = waiting w"
  "waiting (snd (open_search k e h ip i query w)) = waiting w"
  by (auto simp: update_portal_settings_def update_dataset_portal_config_def revoke_all_portal_sessions_def
      revoke_portal_session_def open_search_def get_portal_config_conf split_beta waits intro!: waiting_seq split: sum.split)

lemma waiting_test [waits]: "waiting (snd (test_oidc_connection e w)) = waiting w"
proof -
  have "waiting (snd (fetch_oidc_discovery e i (w\<lparr>cached_config := c, discovery_cache := d\<rparr>))) = waiting w" for i c d
    by (simp add: waits)
  then show ?thesis by (auto simp: test_oidc_connection_def get_portal_config_conf waits split_beta split: sum.split)
qed

text \<open>The attempts change only at a login by code; pending states only where a login by OIDC starts or
  resumes, and when all session state is cleared.\<close>

lemma attempts_step:
  assumes "\<forall>e code ip. op \<noteq> CodeLogin e code ip" "op \<noteq> Restart"
  shows "access_attempts (portal_step k w op) = access_attempts w"
proof -
  have w: "waiting u = waiting v \<Longrightarrow> access_attempts u = access_attempts v" for u v by (simp add: waiting_def)
  have b: "access_attempts (snd (build_authorize_url k e c r v)) = access_attempts v" for e c r v
    by (auto simp: build_authorize_url_def cleanup_pending_states_def Let_def split: option.split prod.split)
  have f: "access_attempts (snd (fetch_oidc_discovery e i v)) = access_attempts v" for e i v
    by (rule w) (rule waits)
  show ?thesis
  proof (cases op)
    case (Authorize e)
    then show ?thesis using b f by (auto simp: sso_authorize_def get_portal_config_conf split_beta split: sum.split)
  next
    case (CallbackStart e st)
    then show ?thesis
      by (auto simp: sso_callback_start_def validate_state_def get_portal_config_conf split_beta Let_def
          split: option.split sum.split)
  next
    case (RevokeAllClear e)
    have "access_attempts (snd (revoke_all_portal_sessions e w)) = access_attempts w" by (rule w) (rule waits)
    then show ?thesis using RevokeAllClear
      by (auto simp: revoke_all_portal_sessions_v2_def seq_cases clear_sessions_only_def split: sum.split)
  next
    case (CallbackFinish e n code ip)
    then show ?thesis by (auto intro!: w simp: waits)
  qed (use assms in \<open>auto intro!: w simp: waits\<close>)
qed

text \<open>A login that was neither refused beforehand nor limited compared the code; the times at which an
  address had codes compared.\<close>

definition compared :: "portal_exn + auth_response \<Rightarrow> bool" where
  "compared r = (case r of Inl (HTTP n _) \<Rightarrow> n \<notin> {404, 400, 429} | _ \<Rightarrow> True)"

fun guess_times :: "library \<Rightarrow> string \<Rightarrow> portal \<Rightarrow> portal_op list \<Rightarrow> time list" where
  "guess_times k ip w [] = []"
| "guess_times k ip w (op # ops) =
     (case op of
        CodeLogin e code ip' \<Rightarrow>
          if ip' = ip \<and> compared (fst (authenticate_with_code k e code ip' w)) then [at e] else []
      | _ \<Rightarrow> []) @ guess_times k ip (portal_step k w op) ops"

fun logins_in_order :: "time \<Rightarrow> portal_op list \<Rightarrow> bool" where
  "logins_in_order t [] = True"
| "logins_in_order t (op # ops) =
     (case op of CodeLogin e _ _ \<Rightarrow> t \<le> at e \<and> logins_in_order (at e) ops
      | Restart \<Rightarrow> False | _ \<Rightarrow> logins_in_order t ops)"

lemma attempts_updated [simp]:
  "attempts_of_ip ip (w\<lparr>access_attempts := AList.update ip' ts (access_attempts w)\<rparr>) =
     (if ip = ip' then ts else attempts_of_ip ip w)"
  by (simp add: attempts_of_ip_def update_conv')

lemma attempts_waiting: "waiting u = waiting v \<Longrightarrow> attempts_of_ip ip u = attempts_of_ip ip v"
  by (simp add: waiting_def attempts_of_ip_def)

lemma verify_result:
  "attempts_of_ip ip (snd (verify_and_issue k e code ip' c w)) = attempts_of_ip ip w"
  "compared (fst (verify_and_issue k e code ip' c w))"
proof -
  show "attempts_of_ip ip (snd (verify_and_issue k e code ip' c w)) = attempts_of_ip ip w"
    by (rule attempts_waiting) (auto simp: verify_and_issue_def Let_def waits intro!: waiting_seq)
  show "compared (fst (verify_and_issue k e code ip' c w))"
    by (auto simp: verify_and_issue_def Let_def compared_def seq_cases track_session_def get_portal_config_conf
        save_portal_config_def split: sum.split write_result.split)
qed

text \<open>One login against the window of an address.\<close>

lemma login_window:
  assumes "win_ok WINDOW MAX_ATTEMPTS t (attempts_of_ip ip w) vs" "t \<le> at e"
  shows "win_ok WINDOW MAX_ATTEMPTS (at e) (attempts_of_ip ip (snd (authenticate_with_code k e code ip' w)))
    (vs @ (if ip' = ip \<and> compared (fst (authenticate_with_code k e code ip' w)) then [at e] else []))"
proof -
  let ?w = "w\<lparr>cached_config := Some (conf w)\<rparr>"
  have now: "win_ok WINDOW MAX_ATTEMPTS (at e) (attempts_of_ip ip w) vs" using assms by (rule win_ok_later)
  have a: "attempts_of_ip j ?w = attempts_of_ip j w" for j by (simp add: attempts_of_ip_def)
  consider (refused) r where "authenticate_with_code k e code ip' w = (r, ?w)" "\<not> compared r"
    | (limited) r where "authenticate_with_code k e code ip' w = (r, snd (check_rate_limit (at e) ip' ?w))" "\<not> compared r"
    | (compares) v where "authenticate_with_code k e code ip' w = verify_and_issue k e code ip' (conf w) v"
        "v = record_attempt (at e) ip' (snd (check_rate_limit (at e) ip' ?w))"
        "length (prune WINDOW (at e) (attempts_of_ip ip' w)) < MAX_ATTEMPTS"
    by (cases "\<not> pc_enabled (conf w)"; cases "pc_tier (conf w) = CodeTier"; cases "fst (check_rate_limit (at e) ip' ?w)")
      (auto simp: authenticate_with_code_def get_portal_config_conf split_beta compared_def check_rate_limit_def Let_def a)
  then show ?thesis
  proof cases
    case refused
    then show ?thesis using now by (simp add: a)
  next
    case limited
    have "attempts_of_ip ip (snd (check_rate_limit (at e) ip' ?w)) =
        (if ip = ip' then prune WINDOW (at e) (attempts_of_ip ip w) else attempts_of_ip ip w)"
      by (simp only: check_rate_limit_def Let_def snd_conv attempts_updated a) simp
    then show ?thesis using now limited win_ok_prune [OF now] by (cases "ip = ip'") auto
  next
    case compares
    have "attempts_of_ip ip v = (if ip = ip' then prune WINDOW (at e) (attempts_of_ip ip w) @ [at e] else attempts_of_ip ip w)"
      unfolding compares(2) record_attempt_def attempts_updated
      by (simp only: check_rate_limit_def Let_def snd_conv attempts_updated a) simp
    then show ?thesis using now win_ok_record [OF now] compares(3) unfolding compares(1)
      by (auto simp: verify_result record_event_def)
  qed
qed

lemma guesses_window:
  "win_ok WINDOW MAX_ATTEMPTS t (attempts_of_ip ip w) vs \<Longrightarrow> logins_in_order t ops \<Longrightarrow>
   \<exists>now. win_ok WINDOW MAX_ATTEMPTS now (attempts_of_ip ip (foldl (portal_step k) w ops)) (vs @ guess_times k ip w ops)"
proof (induction ops arbitrary: t w vs)
  case Nil
  then show ?case by auto
next
  case (Cons op ops)
  show ?case
  proof (cases "\<exists>e code ip'. op = CodeLogin e code ip'")
    case True
    then obtain e code ip' where op: "op = CodeLogin e code ip'" by blast
    from Cons.prems(2) have c: "t \<le> at e" "logins_in_order (at e) ops" by (simp_all add: op)
    from Cons.IH [OF login_window [OF Cons.prems(1) c(1)] c(2)] show ?thesis by (simp add: op)
  next
    case False
    have r: "op \<noteq> Restart" "logins_in_order t ops" using Cons.prems(2) False by (auto split: portal_op.splits)
    have "attempts_of_ip ip (portal_step k w op) = attempts_of_ip ip w"
      using attempts_step [of op k w] False r(1) by (simp add: attempts_of_ip_def)
    then have "win_ok WINDOW MAX_ATTEMPTS t (attempts_of_ip ip (portal_step k w op)) vs" using Cons.prems(1) by simp
    from Cons.IH [OF this r(2)] show ?thesis using False by (auto split: portal_op.splits)
  qed
qed

lemma state_gone:
  assumes "map_of (pending_states w) st = None" "\<forall>e. op = Authorize e \<longrightarrow> fresh_state e \<noteq> st"
  shows "map_of (pending_states (portal_step k w op)) st = None"
proof -
  have w: "waiting u = waiting v \<Longrightarrow> pending_states u = pending_states v" for u v by (simp add: waiting_def)
  have f: "map_of xs st = None \<Longrightarrow> map_of (filter q xs) st = None" for q and xs :: "(string \<times> pending_state) list"
    by (auto simp: map_of_eq_None_iff)
  have b: "fresh_state e \<noteq> st \<Longrightarrow> map_of (pending_states v) st = None \<Longrightarrow>
      map_of (pending_states (snd (build_authorize_url k e c r v))) st = None" for e c r v
    by (auto simp: build_authorize_url_def cleanup_pending_states_def Let_def update_conv' intro!: f split: option.split prod.split)
  have d: "pending_states (snd (fetch_oidc_discovery e i v)) = pending_states v" for e i v by (rule w) (rule waits)
  show ?thesis
  proof (cases op)
    case (Authorize e)
    then show ?thesis using assms b d
      by (auto simp: sso_authorize_def get_portal_config_conf split_beta split: sum.split)
  next
    case (CallbackStart e st')
    then show ?thesis using assms(1)
      by (auto simp: sso_callback_start_def validate_state_def get_portal_config_conf split_beta Let_def delete_conv'
          split: option.split sum.split)
  next
    case (RevokeAllClear e)
    have "pending_states (snd (revoke_all_portal_sessions e w)) = pending_states w" by (rule w) (rule waits)
    then show ?thesis using RevokeAllClear assms(1)
      by (auto simp: revoke_all_portal_sessions_v2_def seq_cases clear_sessions_only_def split: sum.split)
  next
    case (CodeLogin e code ip)
    have "waiting (snd (check_rate_limit t ip v)) = waiting v \<or> True" for t v by simp
    have "pending_states (snd (authenticate_with_code k e code ip w)) = pending_states w"
    proof -
      have "pending_states (snd (verify_and_issue k e code ip c v)) = pending_states v" for c v
        by (rule w) (auto simp: verify_and_issue_def Let_def waits intro!: waiting_seq)
      then show ?thesis
        by (auto simp: authenticate_with_code_def get_portal_config_conf check_rate_limit_def record_attempt_def Let_def)
    qed
    then show ?thesis using CodeLogin assms(1) by simp
  next
    case Restart
    then show ?thesis by (simp add: booted_def)
  next
    case (CallbackFinish e n code ip)
    have "pending_states (portal_step k w op) = pending_states w" unfolding CallbackFinish
      by (rule w) (simp add: waits)
    then show ?thesis using assms(1) by simp
  qed (use assms(1) in \<open>simp_all add: w [OF waiting_logout] w [OF waiting_settings(1)] w [OF waiting_settings(2)]
      w [OF waiting_settings(3)] w [OF waiting_settings(4)] w [OF waiting_settings(5)] w [OF waiting_test]\<close>)
qed

lemma state_gone_run:
  "map_of (pending_states w) st = None \<Longrightarrow> list_all (\<lambda>op. \<forall>e. op = Authorize e \<longrightarrow> fresh_state e \<noteq> st) ops \<Longrightarrow>
   map_of (pending_states (foldl (portal_step k) w ops)) st = None"
  by (induction ops arbitrary: w) (simp_all add: state_gone)

section \<open>Operations that end no session\<close>

fun keeps_sessions :: "portal_op \<Rightarrow> bool" where
  "keeps_sessions (Logout _ _ _) = False"
| "keeps_sessions (UpdateSettings _ _) = False"
| "keeps_sessions (RevokeAll _) = False"
| "keeps_sessions (RevokeAllClear _) = False"
| "keeps_sessions (RevokeOne _ _) = False"
| "keeps_sessions Restart = False"
| "keeps_sessions _ = True"

definition serves_code :: "string \<Rightarrow> int \<Rightarrow> portal_config \<Rightarrow> bool" where
  "serves_code i v c \<longleftrightarrow> pc_enabled c \<and> pc_tier c = CodeTier \<and> pc_session_version c = v \<and> listed i c"

interpretation lasting: config_law k "serves_code i v" keeps_sessions for k i v
proof unfold_locales
  fix c c' op assume "serves_code i v c" "keeps_sessions op" "effect k op c c'"
  then show "serves_code i v c'" by (cases op) (auto simp: serves_code_def)
qed

interpretation stays_listed: config_law k "listed i" keeps_sessions for k i
proof unfold_locales
  fix c c' op assume "listed i c" "keeps_sessions op" "effect k op c c'"
  then show "listed i c'" by (cases op) auto
qed

lemma keeps_sessions_running:
  "list_all keeps_sessions ops \<Longrightarrow> list_all (\<lambda>op. keeps_sessions op \<and> op \<noteq> Restart) ops"
  by (auto simp: list_all_iff)

lemma login_serves:
  assumes "authenticate_with_code k e code ip w = (Inr r, w')"
  shows "serves_code (fresh_session e) (pc_session_version (conf w)) (conf w')"
    "ar_token r = jwt_encode k (payload (at e) (new_session e CodeTier ip (conf w)))"
proof -
  let ?s = "new_session e CodeTier ip (conf w)"
  define v where "v = record_attempt (at e) ip (snd (check_rate_limit (at e) ip (w\<lparr>cached_config := Some (conf w)\<rparr>)))"
  have on: "pc_enabled (conf w)" "pc_tier (conf w) = CodeTier" and i: "verify_and_issue k e code ip (conf w) v = (Inr r, w')"
    using assms by (auto simp: authenticate_with_code_def get_portal_config_conf split_beta v_def split: if_splits)
  have c: "conf v = conf w"
    using keeps_trans [OF keeps_trans [OF keeps_load(2) keeps_rate(1)] keeps_rate(2)]
    by (simp add: v_def keeps_config_def)
  have q: "seq (track_session e ?s) (\<lambda>_. ret \<lparr>ar_token = create_portal_jwt k (at e) ?s,
      ar_expires_at = sn_expires_at ?s, ar_tier = tier_value (sn_tier ?s)\<rparr>) v = (Inr r, w')"
    using i by (simp add: verify_and_issue_def Let_def split: if_splits)
  from seq_InrD [OF q] show "ar_token r = jwt_encode k (payload (at e) ?s)" by (auto simp: create_portal_jwt_def)
  have "conf w' = (conf w)\<lparr>pc_active_sessions := AList.update (sn_id ?s) (sn_expires_at ?s) (pc_active_sessions (conf w))\<rparr>"
    using saves_track_seq [OF c, where s = ?s and e = e and f = "\<lambda>_. ret \<lparr>ar_token = create_portal_jwt k (at e) ?s,
      ar_expires_at = sn_expires_at ?s, ar_tier = tier_value (sn_tier ?s)\<rparr>"] q by (simp add: saves_def)
  then show "serves_code (fresh_session e) (pc_session_version (conf w)) (conf w')"
    using on by (auto simp: serves_code_def new_session_def)
qed

text \<open>Reading back the claims of an issued session.\<close>

lemma payload_claims [simp]:
  "payload now s \<noteq> []"
  "map_of (payload now s) ''sub'' = Some (JStr (sn_id s))"
  "map_of (payload now s) ''tier'' = Some (JStr (tier_value (sn_tier s)))"
  "map_of (payload now s) ''psv'' = Some (JInt (sn_version s))"
  "map_of (payload now s) ''ip'' = Some (JStr (sn_ip s))"
  "map_of (payload now s) ''iat'' = Some (numeric_date now)"
  "map_of (payload now s) ''exp'' = Some (numeric_date (sn_expires_at s))"
  by (simp_all add: payload_def)

lemma serves_code_admits:
  assumes "serves_code (sn_id s) (sn_version s) (conf w)" "sn_tier s = CodeTier"
    and "jwt_decode k (at e) token = Some (payload now s)"
  shows "fst (get_portal_session k e (''Bearer '' @ token) ip w) =
    Inr \<lparr>sn_id = sn_id s, sn_tier = CodeTier, sn_ip = sn_ip s, sn_created_at = seconds (now div 1000000),
      sn_expires_at = seconds (sn_expires_at s div 1000000), sn_version = sn_version s, sn_oidc_subject = None,
      sn_oidc_email = None, sn_oidc_name = None\<rparr>"
  using assms by (simp add: serves_code_def listed_def get_portal_session_def get_portal_config_conf code_session_def
      bearer_claims_def live_subject_def session_of_claims_def claimed_tier_def dict_get_def numeric_date_def starts_with_def)

lemma rejected_code:
  assumes "cu_tier u = Some OpenTier" "cu_access_code u = Some code" "code \<noteq> []" "\<not> validate_strength code"
  shows "update_portal_settings k e u w =
    (Inl (HTTP 400 ''Access code must be at least 6 alphanumeric characters and not purely numeric''),
     w\<lparr>cached_config := Some (snd (set_fields e u (conf w)))\<rparr>)"
  using assms by (simp add: update_portal_settings_def get_portal_config_conf apply_update_def seq_cases
      require_oidc_def set_access_code_def set_fields_def or_else_def)

section \<open>Properties\<close>

text \<open>A toy library and call, for concrete runs: tokens are looked up in a table.\<close>

definition sample_call :: "time \<Rightarrow> string \<Rightarrow> call" where
  "sample_call t i = \<lparr>at = t, fresh_session = i, fresh_state = i, fresh_nonce = i, salt = ''x'', written = Written,
     fernet_encrypt = id, idp_get = (\<lambda>_. Some [(''authorization_endpoint'', JStr ''idp'')]),
     idp_post = (\<lambda>_ _. Inl IdpStatus), id_token_claims = (\<lambda>_ _ _ _. None)\<rparr>"

definition sample_config :: portal_config where
  "sample_config = default_config\<lparr>pc_enabled := True, pc_tier := CodeTier, pc_base_url := ''url'',
     pc_access_code_hash := Some ''xcode12''\<rparr>"

definition sample_encode :: "dict \<Rightarrow> string" where
  "sample_encode d = (if d = [] then [] else ''tok'')"

definition sample_claims :: dict where
  "sample_claims = payload 0 (new_session (sample_call 0 ''s1'') CodeTier ''ip'' sample_config)"

definition sample_decode :: "time \<Rightarrow> string \<Rightarrow> dict option" where
  "sample_decode t tok = (if tok = ''tok'' then Some sample_claims else None)"

definition sample_check :: "string \<Rightarrow> string \<Rightarrow> bool" where
  "sample_check c h \<longleftrightarrow> h = ''x'' @ c"

definition sample_text :: "json \<Rightarrow> string" where
  "sample_text j = (case j of JStr s \<Rightarrow> s | _ \<Rightarrow> [])"

definition sample_library :: library where
  "sample_library = \<lparr>jwt_encode = sample_encode, jwt_decode = sample_decode, bcrypt_hash = append,
     bcrypt_check = sample_check, fernet_decrypt = Some, json_text = sample_text, sso_enabled = True\<rparr>"

definition sample_sso_config :: portal_config where
  "sample_sso_config = sample_config\<lparr>pc_tier := SsoTier, pc_oidc_issuer := Some ''iss'',
     pc_oidc_client_id := Some ''id'', pc_oidc_client_secret := Some ''sec''\<rparr>"

lemma starts_with_Nil [simp]: "starts_with [] s"
  by (simp add: starts_with_def)

text \<open>C10: once an administrator has ended a session, its user has logged out, or the access code has been
  changed, no request is ever admitted with that session again: not after further logins, settings,
  failed saves or restarts.\<close>

theorem revoked_session_locked_out:
  assumes "revoked_by k op i w" "list_all (\<lambda>op. issues op \<noteq> Some i) ops"
    and "fst (get_portal_session k e h ip (foldl (portal_step k) (portal_step k w op) ops)) = Inr s"
    and "fresh_session e \<noteq> i"
  shows "sn_id s \<noteq> i"
  using unlisted_not_admitted [OF unlisted.durable [OF revoked_holds [OF assms(1)] assms(2)] assms(3,4)] .

theorem revoked_session_locked_out_witness:
  "\<exists>s. fst (get_portal_session sample_library (sample_call 9 ''n'') ''Bearer tok'' ''ip''
      (foldl (portal_step sample_library) (booted (Config sample_config)) [CodeLogin (sample_call 0 ''s1'') ''code12'' ''ip'',
        RevokeAll (sample_call 1 ''z''), Restart, UpdateSettings (sample_call 2 ''z'') (no_update\<lparr>cu_tier := Some OpenTier\<rparr>)]))
      = Inr s \<and> sn_id s \<noteq> ''s1''"
proof -
  let ?w = "portal_step sample_library (booted (Config sample_config)) (CodeLogin (sample_call 0 ''s1'') ''code12'' ''ip'')"
  let ?ops = "[Restart, UpdateSettings (sample_call 2 ''z'') (no_update\<lparr>cu_tier := Some OpenTier\<rparr>)]"
  let ?r = "fst (get_portal_session sample_library (sample_call 9 ''n'') ''Bearer tok'' ''ip''
      (foldl (portal_step sample_library) (portal_step sample_library ?w (RevokeAll (sample_call 1 ''z''))) ?ops))"
  have 1: "revoked_by sample_library (RevokeAll (sample_call 1 ''z'')) ''s1'' ?w" by code_simp
  have 2: "list_all (\<lambda>op. issues op \<noteq> Some ''s1'') ?ops" by code_simp
  have "\<not> isl ?r" by code_simp
  then obtain s where s: "?r = Inr s" by (cases ?r) auto
  have "sn_id s \<noteq> ''s1''" by (rule revoked_session_locked_out [OF 1 2 s]) code_simp
  then show ?thesis using s by auto
qed

text \<open>Also: a session that a right access code opened is admitted with its token for as long as the token
  decodes, that is until it expires, whatever logins, searches, dataset settings and callbacks follow:
  only a change of settings, a revocation, a logout or a restart can end it.\<close>

theorem code_session_stays_valid:
  assumes "authenticate_with_code k e code ip w = (Inr r, w')" "list_all keeps_sessions ops"
    and "jwt_decode k (at e') (jwt_encode k (payload (at e) (new_session e CodeTier ip (conf w))))
      = Some (payload (at e) (new_session e CodeTier ip (conf w)))"
  shows "\<exists>s. fst (get_portal_session k e' (''Bearer '' @ ar_token r) ip' (foldl (portal_step k) w' ops)) = Inr s \<and>
    sn_id s = fresh_session e \<and> sn_ip s = ip \<and> sn_tier s = CodeTier"
proof -
  let ?s = "new_session e CodeTier ip (conf w)"
  have "serves_code (sn_id ?s) (sn_version ?s) (conf (foldl (portal_step k) w' ops))"
    using lasting.running_law [OF _ keeps_sessions_running [OF assms(2)], of "sn_id ?s" "sn_version ?s" w' k]
      login_serves(1) [OF assms(1)] by (simp add: new_session_def)
  from serves_code_admits [OF this _ assms(3)] show ?thesis
    using login_serves(2) [OF assms(1)] by (simp add: new_session_def)
qed

theorem code_session_stays_valid_witness:
  "\<exists>r s. fst (authenticate_with_code sample_library (sample_call 0 ''s1'') ''code12'' ''ip'' (booted (Config sample_config))) = Inr r \<and>
     fst (get_portal_session sample_library (sample_call 7 ''n'') (''Bearer '' @ ar_token r) ''ip2''
       (foldl (portal_step sample_library)
         (snd (authenticate_with_code sample_library (sample_call 0 ''s1'') ''code12'' ''ip'' (booted (Config sample_config))))
         [CodeLogin (sample_call 3 ''s2'') ''wrong'' ''ip'', TestOidc (sample_call 4 ''z'')])) = Inr s \<and> sn_id s = ''s1''"
proof -
  let ?a = "authenticate_with_code sample_library (sample_call 0 ''s1'') ''code12'' ''ip'' (booted (Config sample_config))"
  let ?ops = "[CodeLogin (sample_call 3 ''s2'') ''wrong'' ''ip'', TestOidc (sample_call 4 ''z'')]"
  have "\<not> isl (fst ?a)" by code_simp
  then obtain r where r: "fst ?a = Inr r" by (cases "fst ?a") auto
  have 1: "?a = (Inr r, snd ?a)" using r by (metis prod.collapse)
  have 2: "list_all keeps_sessions ?ops" by code_simp
  have c: "conf (booted (Config sample_config)) = sample_config" by (simp add: conf_def booted_def)
  have 3: "jwt_decode sample_library (at (sample_call 7 ''n'')) (jwt_encode sample_library (payload (at (sample_call 0 ''s1''))
      (new_session (sample_call 0 ''s1'') CodeTier ''ip'' (conf (booted (Config sample_config))))))
      = Some (payload (at (sample_call 0 ''s1'')) (new_session (sample_call 0 ''s1'') CodeTier ''ip'' (conf (booted (Config sample_config)))))"
    unfolding c by (simp add: sample_library_def sample_decode_def sample_encode_def sample_claims_def) (simp add: sample_call_def)
  from code_session_stays_valid [OF 1 2 3, of "''ip2''"] r show ?thesis by (auto simp: sample_call_def)
qed

text \<open>The clock of the logins never goes back; restarts may come in between.\<close>

fun clock_in_order :: "time \<Rightarrow> portal_op list \<Rightarrow> bool" where
  "clock_in_order t [] = True"
| "clock_in_order t (op # ops) = (case op of CodeLogin e _ _ \<Rightarrow> t \<le> at e \<and> clock_in_order (at e) ops | _ \<Rightarrow> clock_in_order t ops)"

fun restarts :: "portal_op list \<Rightarrow> nat" where
  "restarts [] = 0"
| "restarts (op # ops) = (case op of Restart \<Rightarrow> Suc (restarts ops) | _ \<Rightarrow> restarts ops)"

lemma guess_times_append: "guess_times k ip w (xs @ ys) = guess_times k ip w xs @ guess_times k ip (foldl (portal_step k) w xs) ys"
  by (induction xs arbitrary: w) auto

text \<open>Up to the first restart, and from there.\<close>

lemma split_restart:
  "clock_in_order t ops \<Longrightarrow> logins_in_order t ops \<and> restarts ops = 0 \<or>
     (\<exists>xs t' ys. ops = xs @ Restart # ys \<and> logins_in_order t xs \<and> clock_in_order t' ys \<and> restarts ops = Suc (restarts ys))"
proof (induction ops arbitrary: t)
  case (Cons op ops)
  show ?case
  proof (cases "op = Restart")
    case True
    then show ?thesis using Cons.prems by (intro disjI2 exI [of _ "[]"]) auto
  next
    case False
    define t1 where "t1 = (case op of CodeLogin e _ _ \<Rightarrow> at e | _ \<Rightarrow> t)"
    have c: "clock_in_order t1 ops" "logins_in_order t (op # xs) \<longleftrightarrow> logins_in_order t1 xs" "restarts (op # ops) = restarts ops" for xs
      using Cons.prems False by (auto simp: t1_def split: portal_op.splits)
    from Cons.IH [OF c(1)] show ?thesis
    proof
      assume "logins_in_order t1 ops \<and> restarts ops = 0"
      then show ?thesis using c(2,3) by simp
    next
      assume "\<exists>xs t' ys. ops = xs @ Restart # ys \<and> logins_in_order t1 xs \<and> clock_in_order t' ys \<and> restarts ops = Suc (restarts ys)"
      then obtain xs t' ys where "ops = xs @ Restart # ys" "logins_in_order t1 xs" "clock_in_order t' ys" "restarts ops = Suc (restarts ys)"
        by blast
      then show ?thesis using c(2,3) by (intro disjI2 exI [of _ "op # xs"]) auto
    qed
  qed
qed simp

lemma guesses_of_a_process:
  assumes "logins_in_order t ops"
  shows "in_span (seconds (15 * 60)) u (guess_times k ip (booted f) ops) \<le> 5"
proof -
  have "win_ok WINDOW MAX_ATTEMPTS t (attempts_of_ip ip (booted f)) []"
    by (simp add: attempts_of_ip_def booted_def win_ok_empty)
  from guesses_window [OF this assms, of k] show ?thesis by (auto simp: win_ok_def WINDOW_def MAX_ATTEMPTS_def)
qed

text \<open>C18: an address has at most five access codes compared in any fifteen minutes for each run of the process (so five
  while it is not restarted, and five more with every restart, which forgets the attempts), whatever other requests are
  made and however many of the codes are right.\<close>

theorem guesses_bounded:
  assumes "clock_in_order t ops"
  shows "in_span (seconds (15 * 60)) u (guess_times k ip (booted f) ops) \<le> 5 * (restarts ops + 1)"
  using assms
proof (induction "length ops" arbitrary: ops t f rule: less_induct)
  case less
  from split_restart [OF less.prems] show ?case
  proof
    assume "logins_in_order t ops \<and> restarts ops = 0"
    then show ?thesis using guesses_of_a_process [of t ops] by simp
  next
    assume "\<exists>xs t' ys. ops = xs @ Restart # ys \<and> logins_in_order t xs \<and> clock_in_order t' ys \<and> restarts ops = Suc (restarts ys)"
    then obtain xs t' ys where o: "ops = xs @ Restart # ys" "logins_in_order t xs" "clock_in_order t' ys"
        "restarts ops = Suc (restarts ys)" by blast
    define g where "g = config_path (foldl (portal_step k) (booted f) xs)"
    have "guess_times k ip (booted f) ops = guess_times k ip (booted f) xs @ guess_times k ip (booted g) ys"
      by (simp add: o(1) guess_times_append g_def)
    then have "in_span (seconds (15 * 60)) u (guess_times k ip (booted f) ops) =
        in_span (seconds (15 * 60)) u (guess_times k ip (booted f) xs) + in_span (seconds (15 * 60)) u (guess_times k ip (booted g) ys)"
      by (simp add: in_span_def)
    moreover have "in_span (seconds (15 * 60)) u (guess_times k ip (booted g) ys) \<le> 5 * (restarts ys + 1)"
      using less.hyps [of ys t' g] o(1,3) by simp
    ultimately show ?thesis using guesses_of_a_process [OF o(2), of u k ip f] o(4) by simp
  qed
qed

definition seven_guesses :: "portal_op list" where
  "seven_guesses = map (\<lambda>t. CodeLogin (sample_call t ''s1'') ''wrong'' ''ip'') [1, 2, 3, 4, 5, 6, 7]"

theorem guesses_bounded_witness:
  "in_span (seconds (15 * 60)) 9 (guess_times sample_library ''ip'' (booted (Config sample_config)) (seven_guesses @ [Restart])) \<le> 10 \<and>
   guess_times sample_library ''ip'' (booted (Config sample_config)) seven_guesses = [1, 2, 3, 4, 5]"
proof
  have "clock_in_order 0 (seven_guesses @ [Restart])"
    by code_simp
  then have "in_span (seconds (15 * 60)) 9 (guess_times sample_library ''ip'' (booted (Config sample_config)) (seven_guesses @ [Restart]))
      \<le> 5 * (restarts (seven_guesses @ [Restart]) + 1)"
    by (rule guesses_bounded)
  moreover have "restarts (seven_guesses @ [Restart]) = 1" by (simp add: seven_guesses_def)
  ultimately show "in_span (seconds (15 * 60)) 9
      (guess_times sample_library ''ip'' (booted (Config sample_config)) (seven_guesses @ [Restart])) \<le> 10" by simp
  show "guess_times sample_library ''ip'' (booted (Config sample_config)) seven_guesses = [1, 2, 3, 4, 5]"
    by code_simp
qed

text \<open>C15: an update that is answered with an error is in force all the same. Setting the portal's tier
  to open together with an access code that is too weak is refused with 400 and writes nothing, but from
  then on every visitor is admitted without a token, and the next accepted revocation writes the open
  tier to the file.\<close>

theorem rejected_update_takes_effect:
  assumes "pc_enabled (conf w)" "cu_tier u = Some OpenTier" "cu_access_code u = Some code" "code \<noteq> []"
    and "\<not> validate_strength code" "written e2 = Written"
  shows "(\<exists>m. fst (update_portal_settings k e u w) = Inl (HTTP 400 m)) \<and>
    config_path (snd (update_portal_settings k e u w)) = config_path w \<and>
    \<not> isl (fst (get_portal_session k e1 header ip (snd (update_portal_settings k e u w)))) \<and>
    (\<exists>c. config_path (snd (revoke_all_portal_sessions e2 (snd (update_portal_settings k e u w)))) = Config c \<and>
      pc_tier c = OpenTier \<and> pc_enabled c)"
  unfolding rejected_code [OF assms(2-5)]
  using assms(1,2,6) by (simp add: get_portal_session_def get_portal_config_conf revoke_all_portal_sessions_def
      save_portal_config_def set_fields_def or_else_def invalidate_sessions_on_rotation_def Let_def)

theorem rejected_update_takes_effect_witness:
  "\<not> isl (fst (get_portal_session sample_library (sample_call 2 ''n'') [] ''ip'' (snd (update_portal_settings sample_library
     (sample_call 1 ''z'') (no_update\<lparr>cu_tier := Some OpenTier, cu_access_code := Some ''123''\<rparr>) (booted (Config sample_config))))))"
proof -
  have 1: "pc_enabled (conf (booted (Config sample_config)))" by code_simp
  have 2: "cu_tier (no_update\<lparr>cu_tier := Some OpenTier, cu_access_code := Some ''123''\<rparr>) = Some OpenTier"
    and 3: "cu_access_code (no_update\<lparr>cu_tier := Some OpenTier, cu_access_code := Some ''123''\<rparr>) = Some ''123''"
    and 4: "''123'' \<noteq> []" by simp_all
  have 5: "\<not> validate_strength ''123''" by code_simp
  have 6: "written (sample_call 3 ''z'') = Written" by (simp add: sample_call_def)
  show ?thesis using rejected_update_takes_effect [OF 1 2 3 4 5 6] by blast
qed

text \<open>Also: the state of an OIDC login opens at most one callback: it is accepted no later than ten minutes
  after it was made, and once a callback has been let in with it, every further callback with it is
  refused, whatever happens meanwhile, unless the random generator makes the same state again.\<close>

theorem oidc_state_once:
  assumes "sso_callback_start e st w = (Inr p, w')"
    and "list_all (\<lambda>op. \<forall>e. op = Authorize e \<longrightarrow> fresh_state e \<noteq> st) ops"
  shows "at e - pd_created_at p \<le> seconds 600 \<and>
    isl (fst (sso_callback_start e' st (foldl (portal_step k) w' ops)))"
proof -
  have 1: "at e - pd_created_at p \<le> seconds 600" "map_of (pending_states w') st = None"
    using assms(1) by (auto simp: sso_callback_start_def validate_state_def get_portal_config_conf delete_conv'
        split: if_splits option.splits)
  have "map_of (pending_states (foldl (portal_step k) w' ops)) st = None"
    by (rule state_gone_run [OF 1(2) assms(2)])
  then show ?thesis using 1(1) by (simp add: sso_callback_start_def validate_state_def get_portal_config_conf)
qed

theorem oidc_state_once_witness:
  "\<exists>p. fst (sso_callback_start (sample_call 5 ''z'') ''st'' (portal_step sample_library (booted (Config sample_sso_config))
        (Authorize (sample_call 1 ''st'')))) = Inr p \<and>
     isl (fst (sso_callback_start (sample_call 6 ''z'') ''st'' (foldl (portal_step sample_library)
        (snd (sso_callback_start (sample_call 5 ''z'') ''st'' (portal_step sample_library (booted (Config sample_sso_config))
          (Authorize (sample_call 1 ''st''))))) [TestOidc (sample_call 5 ''z'')])))"
proof -
  let ?a = "sso_callback_start (sample_call 5 ''z'') ''st'' (portal_step sample_library (booted (Config sample_sso_config))
        (Authorize (sample_call 1 ''st'')))"
  have "\<not> isl (fst ?a)" by code_simp
  then obtain p where p: "fst ?a = Inr p" by (cases "fst ?a") auto
  have 1: "?a = (Inr p, snd ?a)" using p by (metis prod.collapse)
  have 2: "list_all (\<lambda>op. \<forall>e. op = Authorize e \<longrightarrow> fresh_state e \<noteq> ''st'') [TestOidc (sample_call 5 ''z'')]" by simp
  from oidc_state_once [OF 1 2, of "sample_call 6 ''z''" sample_library] p show ?thesis by blast
qed

text \<open>Also: a session that was issued stays in the list of active sessions for ever, expired or not,
  until it is revoked, logs out, or the sessions are reset: logins, searches and the pruning of refresh
  tokens take none out, so the count of active sessions shown to the administrator only grows.\<close>

theorem expired_sessions_stay_listed:
  assumes "listed i (conf w)" "list_all keeps_sessions ops"
  shows "listed i (conf (foldl (portal_step k) w ops))"
  by (rule stays_listed.running_law [OF assms(1) keeps_sessions_running [OF assms(2)]])

theorem expired_sessions_stay_listed_witness:
  "listed ''s1'' (conf (foldl (portal_step sample_library)
     (portal_step sample_library (booted (Config sample_config)) (CodeLogin (sample_call 0 ''s1'') ''code12'' ''ip''))
     [CodeLogin (sample_call (seconds 999999) ''s2'') ''code12'' ''ip'']))"
  by (rule expired_sessions_stay_listed) code_simp+

end
