(* ===== verification/Portal_Search.thy ===== *)
theory Portal_Search
  imports Portal_Sessions
begin

text \<open>
  What a visitor of the portal can read: \<open>app/services/portal_service.py\<close>, the listing and search
  endpoints of \<open>app/routers/portal.py\<close>, and the tool filter \<open>app/services/portal_tool_filter.py\<close>. The
  file reader, the matching of one cell against a \<open>LIKE\<close> pattern and the text of a cell are DuckDB's
  and Python's: they are parameters.
\<close>

section \<open>Listing\<close>

text \<open>
  For a visible dataset that exists the listing reads \<open>record.metadata_json\<close>. Records of
  \<open>ProcessingService\<close> have no such attribute, and \<open>AttributeError\<close> is not among the exceptions caught.
\<close>

fun list_visible :: "dataset_table \<Rightarrow> (string \<times> dataset_portal) list \<Rightarrow> portal_exn + string list" where
  "list_visible t [] = Inr []"
| "list_visible t ((i, d) # ds) =
     (if \<not> portal_visible d \<or> get_dataset i t = None then list_visible t ds else Inl (Uncaught ''AttributeError''))"

definition get_visible_datasets :: "dataset_table \<Rightarrow> (portal, portal_exn, string list) meth" where
  "get_visible_datasets t w = (case get_portal_config w of (c, w1) \<Rightarrow> (list_visible t (pc_datasets c), w1))"

definition list_portal_datasets ::
  "library \<Rightarrow> call \<Rightarrow> string \<Rightarrow> string \<Rightarrow> dataset_table \<Rightarrow> (portal, portal_exn, string list) meth" where
  "list_portal_datasets k e auth_header ip t =
     seq (get_portal_session k e auth_header ip) (\<lambda>_. get_visible_datasets t)"

definition is_dataset_visible :: "string \<Rightarrow> portal \<Rightarrow> bool" where
  "is_dataset_visible i w =
     (case map_of (pc_datasets (fst (get_portal_config w))) i of None \<Rightarrow> False | Some d \<Rightarrow> portal_visible d)"

section \<open>Keyword search\<close>

record engine =
  read_parquet :: "string \<Rightarrow> (string list \<times> json list list) option"
  like_cell :: "string \<Rightarrow> json \<Rightarrow> bool"
  cell_text :: "json \<Rightarrow> string"

definition quote_identifier :: "string \<Rightarrow> string" where
  "quote_identifier s = [CHR 0x22] @ concat (map (\<lambda>c. if c = CHR 0x22 then [c, c] else [c]) s) @ [CHR 0x22]"

definition predicate :: "string \<Rightarrow> string" where
  "predicate col = ''lower(CAST('' @ quote_identifier col @ '' AS VARCHAR)) LIKE lower(?)''"

definition candidate_columns :: "string list \<Rightarrow> string list \<Rightarrow> string list" where
  "candidate_columns search columns =
     (let cs = filter (\<lambda>c. c \<in> set columns) search in if cs = [] then columns else cs)"

text \<open>The query: the rows one of whose candidate columns matches, in the order of the file, a page of them.\<close>

definition row_dict :: "string list \<Rightarrow> json list \<Rightarrow> dict" where
  "row_dict columns row = fold (\<lambda>(c, v). AList.update c v) (zip columns row) []"

definition row_matches :: "engine \<Rightarrow> string \<Rightarrow> string list \<Rightarrow> dict \<Rightarrow> bool" where
  "row_matches g pattern cols row = list_ex (\<lambda>c. like_cell g pattern (dict_get row c JNull)) cols"

record hit =
  hit_row :: dict
  hit_text :: string

definition make_hit :: "engine \<Rightarrow> string list \<Rightarrow> dict \<Rightarrow> hit" where
  "make_hit g cols row =
     \<lparr>hit_row = row,
      hit_text = take 500 (join '' '' (map (\<lambda>c. cell_text g (dict_get row c (JStr []))) cols))\<rparr>"

definition keyword_search ::
  "engine \<Rightarrow> string \<Rightarrow> string \<Rightarrow> string list \<Rightarrow> nat \<Rightarrow> nat \<Rightarrow> portal_exn + hit list" where
  "keyword_search g path query search limit offset =
     (if strip query = [] then Inr []
      else (case read_parquet g path of
          None \<Rightarrow> Inl (Uncaught ''duckdb'')
        | Some (columns, rows) \<Rightarrow>
            if columns = [] then Inr []
            else (let cols = candidate_columns search columns
                  in Inr (map (make_hit g cols)
                       (take limit (drop offset
                         (filter (row_matches g (''%'' @ query @ ''%'') cols) (map (row_dict columns) rows))))))))"

definition display :: "string list \<Rightarrow> hit \<Rightarrow> hit" where
  "display cols h =
     (if cols = [] then h else h\<lparr>hit_row := filter (\<lambda>(c, _). c \<in> set cols) (hit_row h)\<rparr>)"

definition search_configured ::
  "engine \<Rightarrow> dataset_table \<Rightarrow> dataset_portal option \<Rightarrow> string \<Rightarrow> string \<Rightarrow> nat \<Rightarrow> nat \<Rightarrow> portal_exn + hit list" where
  "search_configured g t config dataset_id query limit offset =
     (case config of
        None \<Rightarrow> Inl (Uncaught ''ValueError'')
      | Some d \<Rightarrow>
          if \<not> portal_visible d then Inl (Uncaught ''ValueError'')
          else (case get_dataset dataset_id t of
              None \<Rightarrow> Inl (Uncaught ''ValueError'')
            | Some r \<Rightarrow>
                (case rec_processed_path r of
                   None \<Rightarrow> Inl (Uncaught ''ValueError'')
                 | Some path \<Rightarrow>
                     (case keyword_search g path query (search_columns d) (min limit (max_results d)) offset of
                        Inl err \<Rightarrow> Inl err
                      | Inr hs \<Rightarrow> Inr (map (display (display_columns d)) hs)))))"

definition search_dataset ::
  "engine \<Rightarrow> dataset_table \<Rightarrow> string \<Rightarrow> string \<Rightarrow> nat \<Rightarrow> nat \<Rightarrow> (portal, portal_exn, hit list) meth" where
  "search_dataset g t dataset_id query limit offset w =
     (case get_portal_config w of (c, w1) \<Rightarrow>
        (search_configured g t (map_of (pc_datasets c) dataset_id) dataset_id query limit offset, w1))"


definition search_one ::
  "library \<Rightarrow> engine \<Rightarrow> call \<Rightarrow> string \<Rightarrow> string \<Rightarrow> dataset_table \<Rightarrow> string \<Rightarrow> string \<Rightarrow> nat \<Rightarrow> (portal, portal_exn, hit list) meth" where
  "search_one k g e auth_header ip t dataset_id query limit =
     seq (get_portal_session k e auth_header ip) (\<lambda>_.
     seq (check_dataset_acl dataset_id) (\<lambda>_. search_dataset g t dataset_id query limit 0))"

text \<open>The search over all visible datasets skips those that fail and those without hits.\<close>

fun collect_hits :: "(string \<Rightarrow> portal_exn + hit list) \<Rightarrow> string list \<Rightarrow> (string \<times> hit list) list" where
  "collect_hits f [] = []"
| "collect_hits f (i # ids) =
     (case f i of Inr (h # hs) \<Rightarrow> (i, h # hs) # collect_hits f ids | _ \<Rightarrow> collect_hits f ids)"

definition search_all_visible ::
  "engine \<Rightarrow> dataset_table \<Rightarrow> string \<Rightarrow> nat \<Rightarrow> (portal, portal_exn, (string \<times> hit list) list) meth" where
  "search_all_visible g t query limit =
     seq (get_visible_datasets t) (\<lambda>ids w.
       (Inr (collect_hits (\<lambda>i. fst (search_dataset g t i query limit 0 w)) ids), w))"

section \<open>The tool filter\<close>

definition PORTAL_ALLOWED_TOOLS :: "string list" where
  "PORTAL_ALLOWED_TOOLS = [''list_datasets'', ''get_dataset_detail'', ''preview_rows'', ''get_dataset_statistics'', ''run_sql_query'']"

definition DATASET_SCOPED_TOOLS :: "string list" where
  "DATASET_SCOPED_TOOLS = [''get_dataset_detail'', ''preview_rows'', ''get_dataset_statistics'', ''run_sql_query'']"

datatype tool_block = ToolBlocked | AclBlocked

text \<open>A truthy identifier that is no string is no key of the configuration: the check raises, which blocks.\<close>

definition check_portal_tool_allowed :: "string \<Rightarrow> dict \<Rightarrow> portal \<Rightarrow> tool_block option \<times> portal" where
  "check_portal_tool_allowed tool_name tool_input w =
     (if tool_name \<notin> set PORTAL_ALLOWED_TOOLS then (Some ToolBlocked, w)
      else if tool_name \<in> set DATASET_SCOPED_TOOLS
      then (case dict_get tool_input ''dataset_id'' JNull of
          JStr i \<Rightarrow>
            if i = [] then (Some AclBlocked, w)
            else (case check_dataset_acl i w of
                (Inl _, w1) \<Rightarrow> (Some AclBlocked, w1) | (Inr _, w1) \<Rightarrow> (None, w1))
        | j \<Rightarrow> (Some AclBlocked, if truthy_json j then snd (get_portal_config w) else w))
      else (None, w))"

section \<open>Lemmas\<close>

lemma list_visible_result:
  "list_visible t ds = (if list_ex (\<lambda>(i, d). portal_visible d \<and> get_dataset i t \<noteq> None) ds
     then Inl (Uncaught ''AttributeError'') else Inr [])"
  by (induction t ds rule: list_visible.induct) auto




lemma display_text [simp]: "hit_text (display cols h) = hit_text h"
  by (simp add: display_def)


section \<open>Properties\<close>






definition sample_table :: dataset_table where
  "sample_table = save_record (\<lambda>_. None) ((new_record ''d1'' ''a.csv'' ''csv'' 0)\<lparr>rec_processed_path := Some ''p''\<rparr>) ''a.csv'' 0 []"

definition sample_portal :: portal where
  "sample_portal = booted (Config (default_config\<lparr>pc_enabled := True,
     pc_datasets := [(''d1'', \<lparr>portal_visible = True, search_columns = [], display_columns = [''name''], max_results = 100\<rparr>)]\<rparr>))"



text \<open>Also: the text that comes with each hit does not depend on the display columns. It is made of the
  columns searched, all columns when none are named: hiding a column from the rows leaves its values
  readable in the text of the same answer.\<close>

theorem hidden_columns_in_text:
  "map_sum id (map hit_text) (search_configured g t (Some (d\<lparr>display_columns := cols\<rparr>)) i query limit offset) =
   map_sum id (map hit_text) (search_configured g t (Some d) i query limit offset)"
  by (auto simp: search_configured_def split: option.split sum.split)

text \<open>Also: the listing of the portal's datasets works only while it is empty: as soon as one visible
  dataset exists the endpoint ends with an uncaught exception, since it asks the record for an
  attribute that records do not have.\<close>

theorem portal_listing_fails:
  assumes "fst (list_portal_datasets k e h ip t w) = Inr names"
  shows "names = [] \<and> \<not> list_ex (\<lambda>(i, d). portal_visible d \<and> get_dataset i t \<noteq> None) (pc_datasets (conf w))"
proof -
  obtain s v where v: "get_portal_session k e h ip w = (Inr s, v)" "fst (get_visible_datasets t v) = Inr names"
    using assms by (auto simp: list_portal_datasets_def seq_def split: prod.splits sum.splits)
  have "conf v = conf w" using keeps_admission(1) [of w k e h ip] v(1) by (simp add: keeps_config_def)
  then show ?thesis using v(2)
    by (auto simp: get_visible_datasets_def get_portal_config_conf list_visible_result split: if_splits)
qed

theorem portal_listing_fails_witness:
  "fst (list_portal_datasets sample_library (sample_call 0 ''n'') [] ''ip'' sample_table sample_portal) = Inl (Uncaught ''AttributeError'') \<and>
   fst (list_portal_datasets sample_library (sample_call 0 ''n'') [] ''ip'' [] sample_portal) = Inr [] \<and>
   \<not> list_ex (\<lambda>(i, d). portal_visible d \<and> get_dataset i [] \<noteq> None) (pc_datasets (conf sample_portal))"
proof -
  have a: "fst (list_portal_datasets sample_library (sample_call 0 ''n'') [] ''ip'' sample_table sample_portal) = Inl (Uncaught ''AttributeError'')"
    by code_simp
  have b: "fst (list_portal_datasets sample_library (sample_call 0 ''n'') [] ''ip'' [] sample_portal) = Inr []" by code_simp
  from a b portal_listing_fails [OF b] show ?thesis by blast
qed

text \<open>How SQL reads a quoted identifier: to the first quote that is not doubled.\<close>

fun read_quoted :: "string \<Rightarrow> string \<times> string" where
  "read_quoted [] = ([], [])"
| "read_quoted [c] = (if c = CHR 0x22 then ([], []) else ([c], []))"
| "read_quoted (c # d # cs) =
     (if c = CHR 0x22 then (if d = CHR 0x22 then map_prod (Cons c) id (read_quoted cs) else ([], d # cs))
      else map_prod (Cons c) id (read_quoted (d # cs)))"

lemma read_quoted_step:
  "read_quoted (CHR 0x22 # CHR 0x22 # cs) = map_prod (Cons CHR 0x22) id (read_quoted cs)"
  "c \<noteq> CHR 0x22 \<Longrightarrow> cs \<noteq> [] \<Longrightarrow> read_quoted (c # cs) = map_prod (Cons c) id (read_quoted cs)"
  by (simp, cases cs) auto

text \<open>Also: whatever a column of an uploaded file is called, the query's predicate names just that column:
  SQL reads the quoted identifier back as the name, and what follows it is the rest of the predicate.\<close>

theorem identifier_quoted_whole:
  "read_quoted (tl (quote_identifier s @ '' AS VARCHAR)) LIKE lower(?)'')) = (s, '' AS VARCHAR)) LIKE lower(?)'')"
proof -
  define rest where "rest = '' AS VARCHAR)) LIKE lower(?)''"
  have r: "read_quoted (concat (map (\<lambda>c. if c = CHR 0x22 then [c, c] else [c]) s) @ CHR 0x22 # rest) = (s, rest)"
  proof (induction s)
    case Nil
    then show ?case by (simp add: rest_def)
  next
    case (Cons c s)
    then show ?case by (cases "c = CHR 0x22") (simp_all add: read_quoted_step)
  qed
  then show ?thesis by (simp add: quote_identifier_def rest_def)
qed

end
