(* ===== verification/Nudges.thy ===== *)
theory Nudges
  imports Prelude
begin

text \<open>
  Proactive messages: \<open>app/services/nudge_manager.py\<close>, with the dismissal message and the table of
  permanent dismissals of \<open>app/routers/copilot.py\<close>. The manager decides under a lock, so a decision is
  one step; the clock and the generated identifiers are arguments.
\<close>

section \<open>Triggers\<close>

record trigger_config =
  max_per_event :: nat
  max_per_session :: nat
  max_per_dataset :: nat
  max_per_operation :: nat
  cooldown_s :: int
  dismissable :: bool
  required :: bool

definition plain_trigger :: trigger_config where
  "plain_trigger = \<lparr>max_per_event = 1, max_per_session = 0, max_per_dataset = 0, max_per_operation = 0,
     cooldown_s = 0, dismissable = True, required = False\<rparr>"

definition TRIGGER_ALLOWLIST :: "(string \<times> trigger_config) list" where
  "TRIGGER_ALLOWLIST =
     [(''error_event'', plain_trigger), (''upload_complete'', plain_trigger), (''processing_complete'', plain_trigger),
      (''missing_config'', plain_trigger\<lparr>max_per_session := 1\<rparr>),
      (''pii_detected'', plain_trigger\<lparr>max_per_dataset := 1\<rparr>),
      (''long_running_op'', plain_trigger\<lparr>max_per_operation := 1, cooldown_s := 30\<rparr>),
      (''destructive_action'', plain_trigger\<lparr>dismissable := False, required := True\<rparr>),
      (''first_search'', plain_trigger\<lparr>max_per_session := 1, cooldown_s := 30\<rparr>)]"

definition NUDGE_ICONS :: "(string \<times> string) list" where
  "NUDGE_ICONS =
     [(''error_event'', ''AlertTriangle''), (''upload_complete'', ''CheckCircle''), (''processing_complete'', ''CheckCircle''),
      (''missing_config'', ''Settings''), (''pii_detected'', ''Shield''), (''long_running_op'', ''Clock''),
      (''destructive_action'', ''AlertOctagon''), (''first_search'', ''MessageCircle'')]"

definition or_default :: "'a option \<Rightarrow> 'a \<Rightarrow> 'a" where
  [py_simps]: "or_default v d = (case v of None \<Rightarrow> d | Some x \<Rightarrow> x)"

section \<open>The manager\<close>

text \<open>A nudge says what its event says, or the template of its trigger.\<close>

datatype nudge_text = Given string | Template string

record nudge_message =
  nm_id :: string
  nm_trigger :: string
  nm_message :: nudge_text
  nm_dismissable :: bool
  nm_icon :: string
  nm_dataset_id :: "string option"
  nm_operation_id :: "string option"

record nudge_event =
  ne_id :: string
  ne_trigger :: string
  ne_action :: string
  ne_session :: string
  ne_user :: string

text \<open>Counters of counters: \<open>{key: {trigger: value}}\<close>.\<close>

type_synonym 'a nested = "(string \<times> (string \<times> 'a) list) list"

definition inner :: "string \<Rightarrow> 'a nested \<Rightarrow> (string \<times> 'a) list" where
  "inner key m = or_default (map_of m key) []"

definition put_inner :: "string \<Rightarrow> string \<Rightarrow> 'a \<Rightarrow> 'a nested \<Rightarrow> 'a nested" where
  "put_inner key t v m = AList.update key (AList.update t v (inner key m)) m"

definition count_of :: "string \<Rightarrow> string \<Rightarrow> nat nested \<Rightarrow> nat" where
  "count_of key t m = or_default (map_of (inner key m) t) 0"

record nudge_state =
  nudge_history :: "time list nested"
  session_counts :: "nat nested"
  dataset_counts :: "nat nested"
  dataset_counts_ts :: "(string \<times> time) list"
  operation_counts :: "nat nested"
  operation_counts_ts :: "(string \<times> time) list"
  session_dismissals :: "(string \<times> string list) list"
  permanent_dismissals :: "(string \<times> string list) list"
  quiet_mode :: "(string \<times> bool) list"
  analytics :: "nudge_event list"
  issued_nudges :: "string nested"
  nudge_check_count :: nat

definition no_nudges :: nudge_state where
  "no_nudges = \<lparr>nudge_history = [], session_counts = [], dataset_counts = [], dataset_counts_ts = [],
     operation_counts = [], operation_counts_ts = [], session_dismissals = [], permanent_dismissals = [],
     quiet_mode = [], analytics = [], issued_nudges = [], nudge_check_count = 0\<rparr>"

text \<open>Removal of counters: those not touched for an hour, then the oldest beyond a thousand.\<close>

definition MAX_COUNT_ENTRIES :: nat where "MAX_COUNT_ENTRIES = 1000"

definition delete_keys :: "string list \<Rightarrow> (string \<times> 'a) list \<Rightarrow> (string \<times> 'a) list" where
  "delete_keys ks m = filter (\<lambda>(key, _). key \<notin> set ks) m"

definition prune_counts :: "time \<Rightarrow> nat nested \<times> (string \<times> time) list \<Rightarrow> nat nested \<times> (string \<times> time) list" where
  "prune_counts now p =
     (case p of (counts, ts) \<Rightarrow>
        let stale = map fst (filter (\<lambda>(_, t). t < now - seconds 3600) ts);
            counts1 = delete_keys stale counts; ts1 = delete_keys stale ts;
            evict = map fst (take (length counts1 - MAX_COUNT_ENTRIES) (sort_key snd ts1))
        in if length counts1 > MAX_COUNT_ENTRIES then (delete_keys evict counts1, delete_keys evict ts1)
           else (counts1, ts1))"

definition prune_stale_counts :: "time \<Rightarrow> nudge_state \<Rightarrow> nudge_state" where
  "prune_stale_counts now w =
     (case (prune_counts now (dataset_counts w, dataset_counts_ts w),
            prune_counts now (operation_counts w, operation_counts_ts w)) of
        ((dc, dts), (oc, ots)) \<Rightarrow>
          w\<lparr>dataset_counts := dc, dataset_counts_ts := dts, operation_counts := oc, operation_counts_ts := ots\<rparr>)"

record nudge_context =
  cx_dataset_id :: "string option"
  cx_operation_id :: "string option"
  cx_message :: "string option"

definition member_of :: "string \<Rightarrow> string \<Rightarrow> (string \<times> string list) list \<Rightarrow> bool" where
  "member_of key t m \<longleftrightarrow> t \<in> set (or_default (map_of m key) [])"

text \<open>The checks in the code's order; \<open>False\<close> is suppression.\<close>

definition not_dismissed :: "string \<Rightarrow> string \<Rightarrow> string \<Rightarrow> nudge_state \<Rightarrow> bool" where
  "not_dismissed t session user w \<longleftrightarrow>
     \<not> or_default (map_of (quiet_mode w) session) False \<and>
     \<not> (user \<noteq> [] \<and> member_of user t (permanent_dismissals w)) \<and>
     \<not> member_of session t (session_dismissals w)"

definition within_limits :: "trigger_config \<Rightarrow> string \<Rightarrow> nudge_context \<Rightarrow> string \<Rightarrow> time \<Rightarrow> nudge_state \<Rightarrow> bool" where
  "within_limits c t cx session now w \<longleftrightarrow>
     (let history = or_default (map_of (inner session (nudge_history w)) t) [] in
     \<not> (max_per_session c > 0 \<and> count_of session t (session_counts w) \<ge> max_per_session c) \<and>
     \<not> (max_per_dataset c > 0 \<and> truthy (cx_dataset_id cx) \<and>
        count_of (the (cx_dataset_id cx)) t (dataset_counts w) \<ge> max_per_dataset c) \<and>
     \<not> (max_per_operation c > 0 \<and> truthy (cx_operation_id cx) \<and>
        count_of (the (cx_operation_id cx)) t (operation_counts w) \<ge> max_per_operation c) \<and>
     \<not> (cooldown_s c > 0 \<and> history \<noteq> [] \<and> now - last history < seconds (cooldown_s c)) \<and>
     \<not> (max_per_event c > 0 \<and> length (filter (\<lambda>x. now - x < seconds 1) history) \<ge> max_per_event c))"

definition bump :: "string option \<Rightarrow> string \<Rightarrow> time \<Rightarrow> nat nested \<times> (string \<times> time) list
     \<Rightarrow> nat nested \<times> (string \<times> time) list" where
  "bump key t now p =
     (case p of (counts, ts) \<Rightarrow>
        if truthy key
        then (put_inner (the key) t (count_of (the key) t counts + 1) counts, AList.update (the key) now ts)
        else p)"

definition record_nudge ::
  "string \<Rightarrow> nudge_context \<Rightarrow> string \<Rightarrow> string \<Rightarrow> string \<Rightarrow> time \<Rightarrow> nudge_state \<Rightarrow> nudge_state" where
  "record_nudge t cx session user nudge_id now w =
     (case (bump (cx_dataset_id cx) t now (dataset_counts w, dataset_counts_ts w),
            bump (cx_operation_id cx) t now (operation_counts w, operation_counts_ts w)) of
        ((dc, dts), (oc, ots)) \<Rightarrow>
          w\<lparr>nudge_history := put_inner session t
              (or_default (map_of (inner session (nudge_history w)) t) [] @ [now]) (nudge_history w),
            session_counts := put_inner session t (count_of session t (session_counts w) + 1) (session_counts w),
            dataset_counts := dc, dataset_counts_ts := dts, operation_counts := oc, operation_counts_ts := ots,
            issued_nudges := put_inner session nudge_id t (issued_nudges w),
            analytics := analytics w @ [\<lparr>ne_id = nudge_id, ne_trigger = t, ne_action = ''nudge_shown'',
              ne_session = session, ne_user = user\<rparr>]\<rparr>)"

definition count_check :: "time \<Rightarrow> nudge_state \<Rightarrow> nudge_state" where
  "count_check now w =
     (let w1 = w\<lparr>nudge_check_count := nudge_check_count w + 1\<rparr>
      in if nudge_check_count w1 mod 100 = 0 then prune_stale_counts now w1 else w1)"

definition maybe_nudge ::
  "string \<Rightarrow> nudge_context \<Rightarrow> string \<Rightarrow> string \<Rightarrow> string \<Rightarrow> time \<Rightarrow> nudge_state \<Rightarrow> nudge_message option \<times> nudge_state" where
  "maybe_nudge t cx session user nudge_id now w =
     (let w1 = count_check now w in
      case map_of TRIGGER_ALLOWLIST t of
        None \<Rightarrow> (None, w1)
      | Some c \<Rightarrow>
          if not_dismissed t session user w1 \<and> within_limits c t cx session now w1
          then (Some \<lparr>nm_id = nudge_id, nm_trigger = t,
                  nm_message = (if truthy (cx_message cx) then Given (the (cx_message cx)) else Template t),
                  nm_dismissable = (dismissable c \<and> \<not> required c),
                  nm_icon = or_default (map_of NUDGE_ICONS t) ''Info'',
                  nm_dataset_id = cx_dataset_id cx, nm_operation_id = cx_operation_id cx\<rparr>,
                record_nudge t cx session user nudge_id now w1)
          else (None, w1))"

definition was_nudge_issued :: "string \<Rightarrow> string \<Rightarrow> nudge_state \<Rightarrow> bool" where
  "was_nudge_issued session nudge_id w \<longleftrightarrow> map_of (inner session (issued_nudges w)) nudge_id \<noteq> None"

definition add_member :: "string \<Rightarrow> string \<Rightarrow> (string \<times> string list) list \<Rightarrow> (string \<times> string list) list" where
  "add_member key t m = AList.update key (List.insert t (or_default (map_of m key) [])) m"

definition log_event :: "string \<Rightarrow> string \<Rightarrow> string \<Rightarrow> string \<Rightarrow> string \<Rightarrow> nudge_state \<Rightarrow> nudge_state" where
  "log_event nudge_id t action session user w =
     w\<lparr>analytics := analytics w @ [\<lparr>ne_id = (if nudge_id = [] then ''unknown_'' @ t else nudge_id), ne_trigger = t,
         ne_action = action, ne_session = session, ne_user = user\<rparr>]\<rparr>"

definition record_dismissal :: "string \<Rightarrow> string \<Rightarrow> bool \<Rightarrow> string \<Rightarrow> string \<Rightarrow> nudge_state \<Rightarrow> nudge_state" where
  "record_dismissal session t permanent user nudge_id w =
     (if map_of TRIGGER_ALLOWLIST t = None then w
      else (let w1 = w\<lparr>session_dismissals := add_member session t (session_dismissals w)\<rparr>;
                w2 = (if permanent \<and> user \<noteq> []
                      then w1\<lparr>permanent_dismissals := add_member user t (permanent_dismissals w1)\<rparr> else w1)
            in log_event nudge_id t (if permanent then ''nudge_permanent_dismiss'' else ''nudge_dismissed'') session user w2))"

definition record_acted :: "string \<Rightarrow> string \<Rightarrow> string \<Rightarrow> string \<Rightarrow> nudge_state \<Rightarrow> nudge_state" where
  "record_acted session t user nudge_id = log_event nudge_id t ''nudge_acted'' session user"

definition set_quiet_mode :: "string \<Rightarrow> bool \<Rightarrow> nudge_state \<Rightarrow> nudge_state" where
  "set_quiet_mode session quiet w = w\<lparr>quiet_mode := AList.update session quiet (quiet_mode w)\<rparr>"

definition load_permanent_dismissals :: "string \<Rightarrow> string list \<Rightarrow> nudge_state \<Rightarrow> nudge_state" where
  "load_permanent_dismissals user ts w = w\<lparr>permanent_dismissals := AList.update user ts (permanent_dismissals w)\<rparr>"

definition cleanup_session :: "string \<Rightarrow> nudge_state \<Rightarrow> nudge_state" where
  "cleanup_session session w =
     w\<lparr>nudge_history := AList.delete session (nudge_history w),
       session_counts := AList.delete session (session_counts w),
       session_dismissals := AList.delete session (session_dismissals w),
       quiet_mode := AList.delete session (quiet_mode w),
       issued_nudges := AList.delete session (issued_nudges w)\<rparr>"

definition get_analytics :: "nudge_state \<Rightarrow> nudge_event list \<times> nudge_state" where
  "get_analytics w = (analytics w, w\<lparr>analytics := []\<rparr>)"

definition to_ws_message :: "(nudge_text \<Rightarrow> string) \<Rightarrow> nudge_message \<Rightarrow> dict" where
  "to_ws_message text n =
     [(''type'', JStr ''NUDGE''), (''trigger'', JStr (nm_trigger n)), (''message'', JStr (text (nm_message n))),
      (''nudge_id'', JStr (nm_id n)), (''dismissable'', JBool (nm_dismissable n)), (''icon'', JStr (nm_icon n))]"

section \<open>The socket and the table\<close>

text \<open>The rows of \<open>nudge_dismissals\<close>: user, trigger, permanent; the index on the first two is unique.\<close>

type_synonym dismissal_table = "(string \<times> string \<times> bool) list"

record nudge_world =
  nudges :: nudge_state
  dismissals :: dismissal_table

definition persist_nudge_dismissal :: "bool \<Rightarrow> string \<Rightarrow> string \<Rightarrow> dismissal_table \<Rightarrow> dismissal_table" where
  "persist_nudge_dismissal db_up user t rows =
     (if \<not> db_up \<or> list_ex (\<lambda>(u, x, _). u = user \<and> x = t) rows then rows else rows @ [(user, t, True)])"

definition load_nudge_dismissals :: "bool \<Rightarrow> string \<Rightarrow> dismissal_table \<Rightarrow> string list" where
  "load_nudge_dismissals db_up user rows =
     (if db_up then map (\<lambda>(_, t, _). t) (filter (\<lambda>(u, _, permanent). u = user \<and> permanent) rows) else [])"

text \<open>\<open>NUDGE_DISMISS\<close>: a permanent one needs an identifier that was issued to the session.\<close>

definition nudge_dismiss :: "bool \<Rightarrow> string \<Rightarrow> string \<Rightarrow> string \<Rightarrow> string \<Rightarrow> bool \<Rightarrow> nudge_world \<Rightarrow> nudge_world" where
  "nudge_dismiss db_up session user t nudge_id permanent w =
     (if map_of TRIGGER_ALLOWLIST t = None then w
      else if permanent \<and> \<not> was_nudge_issued session nudge_id (nudges w) then w
      else \<lparr>nudges = record_dismissal session t permanent user nudge_id (nudges w),
            dismissals = (if permanent then persist_nudge_dismissal db_up user t (dismissals w) else dismissals w)\<rparr>)"

text \<open>What a new socket loads: permanent dismissals when there are any, and quiet mode when it is on.\<close>

definition open_session :: "bool \<Rightarrow> string \<Rightarrow> string \<Rightarrow> bool \<Rightarrow> nudge_world \<Rightarrow> nudge_world" where
  "open_session db_up session user quiet w =
     (let ts = load_nudge_dismissals db_up user (dismissals w);
          n1 = (if ts \<noteq> [] then load_permanent_dismissals user ts (nudges w) else nudges w)
      in w\<lparr>nudges := (if quiet then set_quiet_mode session True n1 else n1)\<rparr>)"

datatype nudge_op =
    Event string nudge_context string string string time
  | Dismiss bool string string string string bool
  | Acted string string string string
  | Open bool string string bool
  | Close string
  | Flush
  | Reboot

fun nudge_step :: "nudge_world \<Rightarrow> nudge_op \<Rightarrow> nudge_world" where
  "nudge_step w (Event t cx session user i now) = w\<lparr>nudges := snd (maybe_nudge t cx session user i now (nudges w))\<rparr>"
| "nudge_step w (Dismiss db_up session user t i permanent) = nudge_dismiss db_up session user t i permanent w"
| "nudge_step w (Acted session t user i) = w\<lparr>nudges := record_acted session t user i (nudges w)\<rparr>"
| "nudge_step w (Open db_up session user quiet) = open_session db_up session user quiet w"
| "nudge_step w (Close session) = w\<lparr>nudges := cleanup_session session (nudges w)\<rparr>"
| "nudge_step w Flush = w\<lparr>nudges := snd (get_analytics (nudges w))\<rparr>"
| "nudge_step w Reboot = w\<lparr>nudges := no_nudges\<rparr>"

section \<open>Lemmas\<close>

lemma or_default_simps [simp]: "or_default None d = d" "or_default (Some x) d = x"
  by (simp_all add: or_default_def)

lemma inner_put [simp]: "inner k' (put_inner k t v m) = (if k' = k then AList.update t v (inner k m) else inner k' m)"
  by (simp add: inner_def put_inner_def update_conv')

lemma inner_delete [simp]: "inner k' (AList.delete k m) = (if k' = k then [] else inner k' m)"
  by (simp add: inner_def delete_conv')

lemma count_put [simp]:
  "count_of k' t' (put_inner k t v m) = (if k' = k \<and> t' = t then v else count_of k' t' m)"
  by (simp add: count_of_def update_conv')

lemma count_delete [simp]: "count_of k' t (AList.delete k m) = (if k' = k then 0 else count_of k' t m)"
  by (simp add: count_of_def)

lemma member_add [simp]: "member_of k' t' (add_member k t m) \<longleftrightarrow> k' = k \<and> t' = t \<or> member_of k' t' m"
  by (auto simp: member_of_def add_member_def update_conv')

lemma member_delete [simp]: "member_of k' t (AList.delete k m) \<longleftrightarrow> k' \<noteq> k \<and> member_of k' t m"
  by (simp add: member_of_def delete_conv')

text \<open>Pruning and the event log leave the rest of the state alone.\<close>

lemma prune_frame [simp]:
  "nudge_history (prune_stale_counts now w) = nudge_history w"
  "session_counts (prune_stale_counts now w) = session_counts w"
  "session_dismissals (prune_stale_counts now w) = session_dismissals w"
  "permanent_dismissals (prune_stale_counts now w) = permanent_dismissals w"
  "quiet_mode (prune_stale_counts now w) = quiet_mode w"
  "issued_nudges (prune_stale_counts now w) = issued_nudges w"
  by (simp_all add: prune_stale_counts_def split_beta)

lemma count_check_frame [simp]:
  "nudge_history (count_check now w) = nudge_history w"
  "session_counts (count_check now w) = session_counts w"
  "session_dismissals (count_check now w) = session_dismissals w"
  "permanent_dismissals (count_check now w) = permanent_dismissals w"
  "quiet_mode (count_check now w) = quiet_mode w"
  "issued_nudges (count_check now w) = issued_nudges w"
  by (simp_all add: count_check_def Let_def)

lemma log_event_frame [simp]:
  "session_counts (log_event i t a s u w) = session_counts w"
  "session_dismissals (log_event i t a s u w) = session_dismissals w"
  "permanent_dismissals (log_event i t a s u w) = permanent_dismissals w"
  "quiet_mode (log_event i t a s u w) = quiet_mode w"
  "issued_nudges (log_event i t a s u w) = issued_nudges w"
  by (simp_all add: log_event_def)

lemma record_nudge_frame [simp]:
  "session_dismissals (record_nudge t cx s u i now w) = session_dismissals w"
  "permanent_dismissals (record_nudge t cx s u i now w) = permanent_dismissals w"
  "quiet_mode (record_nudge t cx s u i now w) = quiet_mode w"
  "session_counts (record_nudge t cx s u i now w) = put_inner s t (count_of s t (session_counts w) + 1) (session_counts w)"
  by (simp_all add: record_nudge_def split_beta)

lemma maybe_nudge_dismissals [simp]:
  "session_dismissals (snd (maybe_nudge t cx s u i now w)) = session_dismissals w"
  "permanent_dismissals (snd (maybe_nudge t cx s u i now w)) = permanent_dismissals w"
  "quiet_mode (snd (maybe_nudge t cx s u i now w)) = quiet_mode w"
  by (simp_all add: maybe_nudge_def Let_def split: option.split)

lemma maybe_nudge_passed:
  assumes "fst (maybe_nudge t cx s u i now w) = Some n"
  obtains c where "map_of TRIGGER_ALLOWLIST t = Some c" "not_dismissed t s u (count_check now w)"
    "within_limits c t cx s now (count_check now w)" "nm_trigger n = t"
  using assms by (cases "map_of TRIGGER_ALLOWLIST t") (auto simp: maybe_nudge_def Let_def split: if_split_asm)

lemma maybe_nudge_fires:
  assumes "fst (maybe_nudge t cx s u i now w) = Some n"
  shows "nm_trigger n = t" "\<not> member_of s t (session_dismissals w)" "u = [] \<or> \<not> member_of u t (permanent_dismissals w)"
    "\<not> or_default (map_of (quiet_mode w) s) False"
    "\<exists>c. map_of TRIGGER_ALLOWLIST t = Some c \<and> (max_per_session c = 0 \<or> count_of s t (session_counts w) < max_per_session c)"
proof -
  obtain c where c: "map_of TRIGGER_ALLOWLIST t = Some c" "not_dismissed t s u (count_check now w)"
    "within_limits c t cx s now (count_check now w)" "nm_trigger n = t" using maybe_nudge_passed [OF assms] .
  show "nm_trigger n = t" by (rule c(4))
  show "\<not> member_of s t (session_dismissals w)" "u = [] \<or> \<not> member_of u t (permanent_dismissals w)"
    "\<not> or_default (map_of (quiet_mode w) s) False"
    using c(2) by (simp_all add: not_dismissed_def)
  have "\<not> (max_per_session c > 0 \<and> count_of s t (session_counts w) \<ge> max_per_session c)"
    using c(3) by (simp add: within_limits_def Let_def)
  then show "\<exists>c. map_of TRIGGER_ALLOWLIST t = Some c \<and> (max_per_session c = 0 \<or> count_of s t (session_counts w) < max_per_session c)"
    using c(1) by auto
qed

lemma maybe_nudge_counts:
  "count_of s' t' (session_counts (snd (maybe_nudge t cx s u i now w))) = count_of s' t' (session_counts w) +
     (if s' = s \<and> t' = t \<and> fst (maybe_nudge t cx s u i now w) \<noteq> None then 1 else 0)"
  by (auto simp: maybe_nudge_def Let_def split: option.split)

text \<open>The nudges that a run sends to a session for a trigger, as they fire.\<close>

fun fired :: "string \<Rightarrow> string \<Rightarrow> nudge_world \<Rightarrow> nudge_op list \<Rightarrow> nudge_message list" where
  "fired s t w [] = []"
| "fired s t w (op # ops) =
     (case op of
        Event t' cx s' u i now \<Rightarrow>
          (case fst (maybe_nudge t' cx s' u i now (nudges w)) of
             Some n \<Rightarrow> if s' = s \<and> t' = t then [n] else [] | None \<Rightarrow> [])
      | _ \<Rightarrow> []) @ fired s t (nudge_step w op) ops"

text \<open>Operations that leave session \<open>s\<close> open: no disconnect of it and no restart.\<close>

fun leaves_open :: "string \<Rightarrow> nudge_op \<Rightarrow> bool" where
  "leaves_open s (Close s') = (s' \<noteq> s)"
| "leaves_open s Reboot = False"
| "leaves_open s _ = True"

lemma dismiss_frame [simp]:
  "session_counts (nudges (nudge_dismiss db s u t i p w)) = session_counts (nudges w)"
  "quiet_mode (nudges (nudge_dismiss db s u t i p w)) = quiet_mode (nudges w)"
  by (simp_all add: nudge_dismiss_def record_dismissal_def Let_def)

lemma open_frame [simp]:
  "session_counts (nudges (open_session db s u q w)) = session_counts (nudges w)"
  "session_dismissals (nudges (open_session db s u q w)) = session_dismissals (nudges w)"
  by (simp_all add: open_session_def Let_def load_permanent_dismissals_def set_quiet_mode_def)

lemma fired_counted:
  "list_all (leaves_open s) ops \<Longrightarrow> map_of TRIGGER_ALLOWLIST t = Some c \<Longrightarrow> 0 < max_per_session c \<Longrightarrow>
   count_of s t (session_counts (nudges w)) \<le> max_per_session c \<Longrightarrow>
   count_of s t (session_counts (nudges w)) + length (fired s t w ops) \<le> max_per_session c"
proof (induction ops arbitrary: w)
  case (Cons op ops)
  have "count_of s t (session_counts (nudges (nudge_step w op))) + length (fired s t (nudge_step w op) ops) \<le> max_per_session c"
    if "count_of s t (session_counts (nudges (nudge_step w op))) \<le> max_per_session c"
    using Cons.IH [OF _ Cons.prems(2,3) that] Cons.prems(1) by simp
  moreover have "count_of s t (session_counts (nudges (nudge_step w op))) = count_of s t (session_counts (nudges w)) +
      length (case op of Event t' cx s' u i now \<Rightarrow> (case fst (maybe_nudge t' cx s' u i now (nudges w)) of
             Some n \<Rightarrow> if s' = s \<and> t' = t then [n] else [] | None \<Rightarrow> []) | _ \<Rightarrow> [])"
    using Cons.prems(1) by (cases op) (auto simp: maybe_nudge_counts record_acted_def cleanup_session_def
        get_analytics_def split: option.split)
  moreover have "count_of s t (session_counts (nudges (nudge_step w op))) \<le> max_per_session c"
  proof (cases op)
    case (Event t' cx s' u i now)
    show ?thesis
    proof (cases "s' = s \<and> t' = t \<and> fst (maybe_nudge t' cx s' u i now (nudges w)) \<noteq> None")
      case True
      then obtain n where "fst (maybe_nudge t cx s u i now (nudges w)) = Some n" by auto
      from maybe_nudge_fires(5) [OF this] show ?thesis using Event True Cons.prems(2,3) by (auto simp: maybe_nudge_counts)
    next
      case False
      then show ?thesis using Event Cons.prems(4) by (auto simp: maybe_nudge_counts)
    qed
  qed (use Cons.prems in \<open>auto simp: record_acted_def cleanup_session_def get_analytics_def\<close>)
  ultimately show ?case by (simp add: add.assoc)
qed simp

lemma fired_dismissed:
  "list_all (leaves_open s) ops \<Longrightarrow> member_of s t (session_dismissals (nudges w)) \<Longrightarrow> fired s t w ops = []"
proof (induction ops arbitrary: w)
  case (Cons op ops)
  have "member_of s t (session_dismissals (nudges (nudge_step w op)))"
    using Cons.prems by (cases op) (auto simp: record_acted_def cleanup_session_def get_analytics_def nudge_dismiss_def
        record_dismissal_def Let_def)
  then have "fired s t (nudge_step w op) ops = []" using Cons by simp
  moreover have "fst (maybe_nudge t cx s u i now (nudges w)) = None" for cx u i now
    using maybe_nudge_fires(2) [of t cx s u i now "nudges w"] Cons.prems(2) by (cases "fst (maybe_nudge t cx s u i now (nudges w))") auto
  ultimately show ?case by (cases op) (auto split: option.split)
qed simp

section \<open>Properties\<close>

text \<open>Also: a session gets the hints about missing configuration and about its first search at most once
  each while it is open, whatever events, dismissals, reconnections of other sessions and prunings
  happen.\<close>

theorem session_nudge_once:
  assumes "t \<in> {''missing_config'', ''first_search''}" "list_all (leaves_open s) ops"
  shows "length (fired s t \<lparr>nudges = no_nudges, dismissals = rows\<rparr> ops) \<le> 1"
proof -
  obtain c where c: "map_of TRIGGER_ALLOWLIST t = Some c" "max_per_session c = 1"
    using assms(1) by (auto simp: TRIGGER_ALLOWLIST_def plain_trigger_def)
  have "count_of s t (session_counts (nudges \<lparr>nudges = no_nudges, dismissals = rows\<rparr>)) = 0"
    by (simp add: no_nudges_def count_of_def inner_def)
  with fired_counted [OF assms(2) c(1), of "\<lparr>nudges = no_nudges, dismissals = rows\<rparr>"] c(2) show ?thesis by simp
qed

definition no_context :: nudge_context where
  "no_context = \<lparr>cx_dataset_id = None, cx_operation_id = None, cx_message = None\<rparr>"

theorem session_nudge_once_witness:
  "length (fired ''s'' ''missing_config'' \<lparr>nudges = no_nudges, dismissals = []\<rparr>
     [Event ''missing_config'' no_context ''s'' ''u'' ''n1'' 0, Event ''missing_config'' no_context ''s'' ''u'' ''n2'' (seconds 9999)]) \<le> 1 \<and>
   fired ''s'' ''missing_config'' \<lparr>nudges = no_nudges, dismissals = []\<rparr>
     [Event ''missing_config'' no_context ''s'' ''u'' ''n1'' 0, Event ''missing_config'' no_context ''s'' ''u'' ''n2'' (seconds 9999)] \<noteq> []"
proof
  show "length (fired ''s'' ''missing_config'' \<lparr>nudges = no_nudges, dismissals = []\<rparr>
     [Event ''missing_config'' no_context ''s'' ''u'' ''n1'' 0, Event ''missing_config'' no_context ''s'' ''u'' ''n2'' (seconds 9999)]) \<le> 1"
    by (rule session_nudge_once) simp_all
  show "fired ''s'' ''missing_config'' \<lparr>nudges = no_nudges, dismissals = []\<rparr>
     [Event ''missing_config'' no_context ''s'' ''u'' ''n1'' 0, Event ''missing_config'' no_context ''s'' ''u'' ''n2'' (seconds 9999)] \<noteq> []"
    by code_simp
qed

text \<open>Also: a trigger that a client dismisses stays silent in its session for as long as the session is
  open. The client need not have been shown a nudge, and the trigger may be the one for destructive
  actions, which is declared as required and not dismissable.\<close>

theorem dismissed_trigger_silent:
  assumes "t \<in> fst ` set TRIGGER_ALLOWLIST" "list_all (leaves_open s) ops"
  shows "fired s t (nudge_dismiss db_up s u t i False w) ops = []"
proof (rule fired_dismissed [OF assms(2)])
  obtain c where "map_of TRIGGER_ALLOWLIST t = Some c" using assms(1) by (metis map_of_eq_None_iff option.exhaust)
  then show "member_of s t (session_dismissals (nudges (nudge_dismiss db_up s u t i False w)))"
    by (simp add: nudge_dismiss_def record_dismissal_def Let_def)
qed

theorem dismissed_trigger_silent_witness:
  "fired ''s'' ''destructive_action'' (nudge_dismiss True ''s'' ''u'' ''destructive_action'' [] False
      \<lparr>nudges = no_nudges, dismissals = []\<rparr>) [Event ''destructive_action'' no_context ''s'' ''u'' ''n1'' 5] = [] \<and>
   fired ''s'' ''destructive_action'' \<lparr>nudges = no_nudges, dismissals = []\<rparr>
      [Event ''destructive_action'' no_context ''s'' ''u'' ''n1'' 5] \<noteq> []"
proof
  show "fired ''s'' ''destructive_action'' (nudge_dismiss True ''s'' ''u'' ''destructive_action'' [] False
      \<lparr>nudges = no_nudges, dismissals = []\<rparr>) [Event ''destructive_action'' no_context ''s'' ''u'' ''n1'' 5] = []"
    by (rule dismissed_trigger_silent) (simp_all add: TRIGGER_ALLOWLIST_def)
  show "fired ''s'' ''destructive_action'' \<lparr>nudges = no_nudges, dismissals = []\<rparr>
      [Event ''destructive_action'' no_context ''s'' ''u'' ''n1'' 5] \<noteq> []" by code_simp
qed

text \<open>Also: one nudge of any kind that was issued to a session lets its client dismiss every trigger for
  good: the server checks that the identifier was issued, not what for. The dismissal survives a
  restart and silences the trigger in each later session of the user.\<close>

theorem any_nudge_dismisses_all:
  assumes "was_nudge_issued s i (nudges w)" "t \<in> fst ` set TRIGGER_ALLOWLIST" "u \<noteq> []"
    and "list_all (\<lambda>(_, _, permanent). permanent) (dismissals w)"
  shows "fst (maybe_nudge t cx s' u i' now (nudges (open_session True s' u quiet
      (nudge_step (nudge_dismiss True s u t i True w) Reboot)))) = None"
proof -
  let ?w = "nudge_dismiss True s u t i True w"
  obtain c where a: "map_of TRIGGER_ALLOWLIST t = Some c" using assms(2) by (metis map_of_eq_None_iff option.exhaust)
  have "t \<in> set (load_nudge_dismissals True u (dismissals ?w))"
    using a assms(1,4) by (auto simp: nudge_dismiss_def persist_nudge_dismissal_def load_nudge_dismissals_def
        list_ex_iff list_all_iff image_iff)
  then have "member_of u t (permanent_dismissals (nudges (open_session True s' u quiet (nudge_step ?w Reboot))))"
    by (auto simp: open_session_def Let_def load_permanent_dismissals_def set_quiet_mode_def member_of_def update_conv')
  then show ?thesis using maybe_nudge_fires(3) [of t cx s' u i' now] assms(3)
    by (cases "fst (maybe_nudge t cx s' u i' now (nudges (open_session True s' u quiet (nudge_step ?w Reboot))))") auto
qed

theorem any_nudge_dismisses_all_witness:
  "fst (maybe_nudge ''destructive_action'' no_context ''s2'' ''u'' ''n9'' 9 (nudges (open_session True ''s2'' ''u'' False
     (nudge_step (nudge_dismiss True ''s'' ''u'' ''destructive_action'' ''n1'' True
       (nudge_step \<lparr>nudges = no_nudges, dismissals = []\<rparr> (Event ''first_search'' no_context ''s'' ''u'' ''n1'' 0))) Reboot)))) = None"
  by (rule any_nudge_dismisses_all) (code_simp, simp add: TRIGGER_ALLOWLIST_def, simp, code_simp)

end
