(* ===== verification/Local_Auth.thy ===== *)
theory Local_Auth
  imports Rate_Limiter
begin

text \<open>
  Who may use the operator's API: the request authentication of \<open>app/auth/api_key_auth.py\<close>, the role
  dependency and the session cookie of \<open>app/middleware/auth.py\<close>, the accounts of
  \<open>app/services/auth_service.py\<close>, the tables of \<open>app/models/user.py\<close> and \<open>app/models/local_auth.py\<close>, and
  the endpoints of \<open>app/routers/auth.py\<close>. Hashing, the signing of tokens, the JSON text of scopes, the
  cache's eviction policy and the replies of ai.market are parameters. The handlers do not suspend
  between their reads and writes of the tables and of the cache, so that each is one step.
\<close>

section \<open>Tables\<close>

text \<open>\<open>HTTPException\<close>, and any other exception that reaches the server as an error 500.\<close>

datatype auth_exn = Refused nat string | Crashed string

record user_row =
  us_id :: string
  us_username :: string
  us_display_name :: "string option"
  us_pw_hash :: "string option"
  us_aim_id :: "string option"
  us_role :: string
  us_active :: bool
  us_created :: time
  us_last_login :: "time option"

record local_row =
  lu_id :: string
  lu_username :: string
  lu_password_hash :: string
  lu_role :: string
  lu_active :: bool
  lu_created :: time

record key_row =
  lk_user_id :: string
  lk_key_id :: string
  lk_key_hash :: string
  lk_label :: string
  lk_scopes :: string
  lk_created :: time
  lk_last_used :: "time option"
  lk_revoked :: "time option"

record authenticated_user =
  au_user_id :: string
  au_key_id :: string
  au_scopes :: "string list"
  au_balance :: "int option"
  au_trial :: "int option"

record jwt_claims =
  jc_sub :: string
  jc_role :: string
  jc_exp :: time

section \<open>Libraries, services and one call\<close>

datatype verdict = Match | Mismatch | Unverifiable

text \<open>An account as \<open>GET /api/v1/auth/me\<close> of ai.market describes it.\<close>

record aim_user =
  am_id :: string
  am_role :: string
  am_status :: string
  am_email :: "string option"
  am_first_name :: "string option"
  am_last_name :: "string option"

datatype me_reply = MeOk aim_user | MeStatus nat | MeUnreachable

datatype gateway_reply = GatewayOk "authenticated_user option" | GatewayStatus nat | GatewayUnreachable

datatype market_reply = MarketTimeout | MarketUnreachable | MarketReply nat dict

record auth_library =
  auth_env :: "string option"
  environment_env :: "string option"
  debug_mode :: bool
  auth_setting :: bool
  hmac_env :: "string option"
  cache_ttl :: time
  keystore_set :: bool
  hmac_sha256 :: "string \<Rightarrow> string \<Rightarrow> string"
  sha256_prefix :: "string \<Rightarrow> string"
  argon_hash :: "string \<Rightarrow> string \<Rightarrow> string"
  argon_verify :: "string option \<Rightarrow> string \<Rightarrow> verdict"
  prepare_password :: "string \<Rightarrow> string"
  bcrypt_hash :: "string \<Rightarrow> string \<Rightarrow> string"
  bcrypt_check :: "string \<Rightarrow> string \<Rightarrow> bool"
  jwt_encode :: "string \<Rightarrow> jwt_claims \<Rightarrow> string"
  jwt_decode :: "string \<Rightarrow> time \<Rightarrow> string \<Rightarrow> jwt_claims option"
  dumps_scopes :: "string list \<Rightarrow> string"
  loads_scopes :: "string \<Rightarrow> string list option"

text \<open>
  One call: its time and peer, what the random generators return, whether the secret files can be
  written and the linked row saved, which entries the cache keeps, and the replies of ai.market.
\<close>

record auth_call =
  cl_time :: time
  cl_host :: "string option"
  cl_uuid :: string
  cl_salt :: string
  cl_key_id :: string
  cl_secret :: string
  cl_hex :: string
  cl_disk :: bool
  cl_linkable :: bool
  cl_kept :: "string \<Rightarrow> bool"
  cl_me :: me_reply
  cl_gateway :: gateway_reply
  cl_market :: market_reply

record auth_state =
  users :: "user_row list"
  local_users :: "local_row list"
  api_keys :: "key_row list"
  key_cache :: "(string \<times> authenticated_user \<times> time) list"
  setup_attempts :: "(string \<times> time list) list"
  login_attempts :: "(string \<times> time list) list"
  hmac_setting :: "string option"
  hmac_file :: "string option"
  jwt_secret :: "string option"
  jwt_file :: "string option"
  saved_sessions :: "(string \<times> string) list"
  registrations :: "(string \<times> string) list"

text \<open>A process starts with the tables and the secret files it finds.\<close>

definition restarted :: "auth_library \<Rightarrow> auth_state \<Rightarrow> auth_state" where
  "restarted k w = w\<lparr>key_cache := [], setup_attempts := [], login_attempts := [],
     hmac_setting := hmac_env k, jwt_secret := None\<rparr>"

definition new_install :: "auth_library \<Rightarrow> auth_state" where
  "new_install k = \<lparr>users = [], local_users = [], api_keys = [], key_cache = [], setup_attempts = [], login_attempts = [],
     hmac_setting = hmac_env k, hmac_file = None, jwt_secret = None, jwt_file = None, saved_sessions = [], registrations = []\<rparr>"

definition lower :: "string \<Rightarrow> string" where
  "lower s = map ascii_lower s"

definition is_auth_enabled :: "auth_library \<Rightarrow> bool" where
  "is_auth_enabled k =
     (let v = lower (case auth_env k of None \<Rightarrow> [] | Some s \<Rightarrow> s) in
      if v \<in> {''true'', ''1'', ''yes''} then True
      else if v \<in> {''false'', ''0'', ''no''} then
        \<not> (debug_mode k \<and> lower (case environment_env k of None \<Rightarrow> ''production'' | Some s \<Rightarrow> s) = ''development'')
      else auth_setting k)"

section \<open>The cache\<close>

text \<open>
  \<open>TTLCache\<close>: an entry is returned until its time to live is over; storing an entry may drop others, those
  that \<open>cl_kept\<close> does not name.
\<close>

definition cache_get :: "time \<Rightarrow> string \<Rightarrow> auth_state \<Rightarrow> authenticated_user option" where
  "cache_get now key w =
     (case map_of (key_cache w) key of None \<Rightarrow> None | Some (u, t) \<Rightarrow> if now < t then Some u else None)"

definition cache_put :: "auth_library \<Rightarrow> auth_call \<Rightarrow> string \<Rightarrow> authenticated_user \<Rightarrow> auth_state \<Rightarrow> auth_state" where
  "cache_put k e key u w =
     w\<lparr>key_cache := filter (\<lambda>(j, _). j \<noteq> key \<and> cl_kept e j) (key_cache w) @ [(key, u, cl_time e + cache_ttl k)]\<rparr>"

section \<open>Local keys\<close>

definition load_hmac_secret :: "auth_call \<Rightarrow> auth_state \<Rightarrow> string \<times> auth_state" where
  "load_hmac_secret e w =
     (let stored = (case hmac_file w of None \<Rightarrow> [] | Some t \<Rightarrow> strip t) in
      if stored \<noteq> [] then (stored, w\<lparr>hmac_setting := Some stored\<rparr>)
      else (cl_hex e, w\<lparr>hmac_file := (if cl_disk e then Some (cl_hex e) else hmac_file w), hmac_setting := Some (cl_hex e)\<rparr>))"

definition get_hmac_secret :: "auth_call \<Rightarrow> auth_state \<Rightarrow> string \<times> auth_state" where
  "get_hmac_secret e w =
     (if truthy (hmac_setting w) then (case hmac_setting w of None \<Rightarrow> [] | Some s \<Rightarrow> s, w) else load_hmac_secret e w)"

definition hmac_hash_secret :: "auth_library \<Rightarrow> auth_call \<Rightarrow> string \<Rightarrow> auth_state \<Rightarrow> string \<times> auth_state" where
  "hmac_hash_secret k e secret w = (case get_hmac_secret e w of (m, w1) \<Rightarrow> (hmac_sha256 k m secret, w1))"

definition parse_local_key :: "string \<Rightarrow> (string \<times> string) option" where
  "parse_local_key key =
     (if \<not> starts_with ''vz_'' key then None
      else let rest = drop 3 key;
               i = takeWhile (\<lambda>c. c \<noteq> CHR ''_'') rest;
               s = drop (length i + 1) rest
           in if CHR ''_'' \<notin> set rest \<or> i = [] \<or> s = [] then None else Some (i, s))"

definition default_scopes :: "string list" where
  "default_scopes = [''read'', ''write'']"

definition admin_scopes :: "string list" where
  "admin_scopes = [''read'', ''write'', ''admin'']"

definition scopes_of_row :: "auth_library \<Rightarrow> key_row \<Rightarrow> string list" where
  "scopes_of_row k r = (case loads_scopes k (lk_scopes r) of None \<Rightarrow> default_scopes | Some xs \<Rightarrow> xs)"

definition local_user_of :: "string \<Rightarrow> auth_state \<Rightarrow> local_row option" where
  "local_user_of i w = find (\<lambda>u. lu_id u = i) (local_users w)"

definition validate_local_key ::
  "auth_library \<Rightarrow> auth_call \<Rightarrow> string \<Rightarrow> auth_state \<Rightarrow> authenticated_user option \<times> auth_state" where
  "validate_local_key k e key w =
     (case parse_local_key key of
        None \<Rightarrow> (None, w)
      | Some (i, secret) \<Rightarrow>
          (case find (\<lambda>r. lk_key_id r = i \<and> lk_revoked r = None) (api_keys w) of
             None \<Rightarrow> (None, w)
           | Some r \<Rightarrow>
               (case hmac_hash_secret k e secret w of (h, w1) \<Rightarrow>
                  if lk_key_hash r \<noteq> h then (None, w1)
                  else (case local_user_of (lk_user_id r) w1 of
                          None \<Rightarrow> (None, w1)
                        | Some u \<Rightarrow>
                            if \<not> lu_active u then (None, w1)
                            else (Some \<lparr>au_user_id = lu_id u, au_key_id = lk_key_id r, au_scopes = scopes_of_row k r,
                                        au_balance = Some 0, au_trial = Some 0\<rparr>,
                                  w1\<lparr>api_keys := update_where (\<lambda>q. lk_key_id q = i)
                                       (\<lambda>q. q\<lparr>lk_last_used := Some (cl_time e)\<rparr>) (api_keys w1)\<rparr>)))))"

section \<open>Tokens of ai.market\<close>

definition bearer_cache_key :: "auth_library \<Rightarrow> string \<Rightarrow> string" where
  "bearer_cache_key k token = ''aim_market_bearer:'' @ sha256_prefix k token"

definition scopes_from_role :: "string \<Rightarrow> string \<Rightarrow> auth_exn + string list" where
  "scopes_from_role role status =
     (if status \<noteq> ''active'' then Inl (Refused 403 ''ai.market account not active'')
      else if role \<in> {''buyer'', ''seller'', ''model_provider''} then Inr default_scopes
      else if role = ''admin'' then Inr admin_scopes
      else Inr [''read''])"

definition user_from_aim :: "aim_user \<Rightarrow> auth_exn + authenticated_user" where
  "user_from_aim a =
     (case scopes_from_role (am_role a) (am_status a) of
        Inl x \<Rightarrow> Inl x
      | Inr ss \<Rightarrow> Inr \<lparr>au_user_id = am_id a, au_key_id = ''ai_market_bearer'', au_scopes = ss, au_balance = None, au_trial = None\<rparr>)"

definition text_or :: "string option \<Rightarrow> string \<Rightarrow> string" where
  "text_or v d = (case v of None \<Rightarrow> d | Some s \<Rightarrow> if s = [] then d else s)"

definition full_name :: "aim_user \<Rightarrow> string option" where
  "full_name a =
     (let n = strip (join '' '' [strip (text_or (am_first_name a) []), strip (text_or (am_last_name a) [])])
      in if n = [] then None else Some n)"

definition upsert_ai_market_user :: "auth_call \<Rightarrow> aim_user \<Rightarrow> auth_state \<Rightarrow> auth_state" where
  "upsert_ai_market_user e a w =
     (let name = take 64 (lower (strip (text_or (am_email a) (am_id a))));
          role = (if am_role a = ''admin'' then ''admin'' else ''user'');
          active = (am_status a = ''active'');
          row = (case find (\<lambda>u. us_aim_id u = Some (am_id a)) (users w) of
                   None \<Rightarrow> find (\<lambda>u. us_username u = name) (users w)
                 | Some u \<Rightarrow> Some u)
      in case row of
           None \<Rightarrow> w\<lparr>users := users w @ [\<lparr>us_id = cl_uuid e, us_username = name, us_display_name = full_name a,
                      us_pw_hash = None, us_aim_id = Some (am_id a), us_role = role, us_active = active,
                      us_created = cl_time e, us_last_login = None\<rparr>]\<rparr>
         | Some u \<Rightarrow> w\<lparr>users := update_where (\<lambda>v. us_id v = us_id u)
                      (\<lambda>v. v\<lparr>us_aim_id := Some (am_id a),
                             us_display_name := (if truthy (us_display_name v) then us_display_name v else full_name a),
                             us_role := role, us_active := active\<rparr>) (users w)\<rparr>)"

definition fetch_ai_market_me :: "me_reply \<Rightarrow> auth_exn + aim_user" where
  "fetch_ai_market_me r =
     (case r of
        MeUnreachable \<Rightarrow> Inl (Refused 503 ''ai.market auth service unavailable'')
      | MeOk a \<Rightarrow> Inr a
      | MeStatus n \<Rightarrow>
          if n = 401 then Inl (Refused 401 ''Invalid or expired ai.market token'')
          else if n \<ge> 500 then Inl (Refused 503 ''ai.market auth service unavailable'')
          else Inl (Refused 401 ''Invalid or expired ai.market token''))"

definition link_account :: "auth_library \<Rightarrow> auth_call \<Rightarrow> string \<Rightarrow> aim_user \<Rightarrow> (auth_state, auth_exn, authenticated_user) meth" where
  "link_account k e token a w =
     (case user_from_aim a of
        Inl x \<Rightarrow> (Inl x, w)
      | Inr u \<Rightarrow>
          (let w1 = (if cl_linkable e then upsert_ai_market_user e a w else w);
               w2 = w1\<lparr>saved_sessions := saved_sessions w1 @ [(token, am_id a)]\<rparr>
           in (Inr u, cache_put k e (bearer_cache_key k token) u w2)))"

definition handle_ai_market_token :: "auth_library \<Rightarrow> auth_call \<Rightarrow> string \<Rightarrow> (auth_state, auth_exn, authenticated_user) meth" where
  "handle_ai_market_token k e token w =
     (case fetch_ai_market_me (cl_me e) of Inl x \<Rightarrow> (Inl x, w) | Inr a \<Rightarrow> link_account k e token a w)"

definition validate_bearer_token :: "auth_library \<Rightarrow> auth_call \<Rightarrow> string \<Rightarrow> (auth_state, auth_exn, authenticated_user) meth" where
  "validate_bearer_token k e token w =
     (case cache_get (cl_time e) (bearer_cache_key k token) w of
        Some u \<Rightarrow> (Inr u, w)
      | None \<Rightarrow> handle_ai_market_token k e token w)"

definition validate_key_against_aimarket :: "gateway_reply \<Rightarrow> auth_exn + authenticated_user option" where
  "validate_key_against_aimarket r =
     (case r of
        GatewayUnreachable \<Rightarrow> Inl (Refused 503 ''Authentication service is currently unavailable.'')
      | GatewayOk v \<Rightarrow> Inr v
      | GatewayStatus _ \<Rightarrow> Inr None)"

section \<open>Authenticating a request\<close>

record request =
  rq_authorization :: string
  rq_cookie :: "string option"
  rq_api_key :: "string option"

definition mock_user :: authenticated_user where
  "mock_user = \<lparr>au_user_id = ''mock_user_auth_disabled'', au_key_id = ''mock_key_auth_disabled'', au_scopes = [''read''],
     au_balance = Some 10000, au_trial = Some 0\<rparr>"

definition role_to_scopes :: "string \<Rightarrow> string list" where
  "role_to_scopes role = (if role = ''admin'' then admin_scopes else default_scopes)"

definition get_user_by_id :: "string \<Rightarrow> auth_state \<Rightarrow> user_row option" where
  "get_user_by_id i w = find (\<lambda>u. us_id u = i) (users w)"

definition get_jwt_secret :: "auth_call \<Rightarrow> auth_state \<Rightarrow> string \<times> auth_state" where
  "get_jwt_secret e w =
     (case jwt_secret w of
        Some s \<Rightarrow> (s, w)
      | None \<Rightarrow>
          (let stored = (case jwt_file w of None \<Rightarrow> [] | Some t \<Rightarrow> strip t) in
           if stored \<noteq> [] then (stored, w\<lparr>jwt_secret := Some stored\<rparr>)
           else (cl_hex e, w\<lparr>jwt_file := (if cl_disk e then Some (cl_hex e) else jwt_file w), jwt_secret := Some (cl_hex e)\<rparr>)))"

definition JWT_EXPIRY :: time where
  "JWT_EXPIRY = seconds (24 * 3600)"

definition create_jwt_token :: "auth_library \<Rightarrow> auth_call \<Rightarrow> string \<Rightarrow> string \<Rightarrow> auth_state \<Rightarrow> string \<times> auth_state" where
  "create_jwt_token k e user_id role w =
     (case get_jwt_secret e w of (s, w1) \<Rightarrow>
        (jwt_encode k s \<lparr>jc_sub = user_id, jc_role = role, jc_exp = cl_time e + JWT_EXPIRY\<rparr>, w1))"

definition decode_jwt_token :: "auth_library \<Rightarrow> auth_call \<Rightarrow> string \<Rightarrow> auth_state \<Rightarrow> jwt_claims option \<times> auth_state" where
  "decode_jwt_token k e token w = (case get_jwt_secret e w of (s, w1) \<Rightarrow> (jwt_decode k s (cl_time e) token, w1))"

text \<open>\<open>Authorization: Bearer \<dots>\<close>: the token, when there is one.\<close>

definition bearer_of :: "request \<Rightarrow> string option" where
  "bearer_of r =
     (if starts_with ''Bearer '' (rq_authorization r) then
        (let t = strip (drop 7 (rq_authorization r)) in if t = [] then None else Some t)
      else None)"

text \<open>
  \<open>get_current_user\<close> returns the user and what it stores in \<open>request.state.user_role\<close>; the branch of a
  cached key stores nothing there. The cookie is used when its user is active; otherwise the key is tried.
\<close>

definition cookie_user :: "auth_library \<Rightarrow> auth_call \<Rightarrow> request \<Rightarrow> auth_state \<Rightarrow> (authenticated_user \<times> string) option \<times> auth_state" where
  "cookie_user k e r w =
     (if truthy (rq_cookie r) then
        (case decode_jwt_token k e (text_or (rq_cookie r) []) w of
           (None, w1) \<Rightarrow> (None, w1)
         | (Some c, w1) \<Rightarrow>
             (case get_user_by_id (jc_sub c) w1 of
                None \<Rightarrow> (None, w1)
              | Some u \<Rightarrow>
                  (if us_active u then
                     Some (\<lparr>au_user_id = us_id u, au_key_id = ''jwt_session'', au_scopes = role_to_scopes (jc_role c),
                            au_balance = Some 0, au_trial = Some 0\<rparr>, jc_role c)
                   else None, w1)))
      else (None, w))"

definition validate_key :: "auth_library \<Rightarrow> auth_call \<Rightarrow> string \<Rightarrow> (auth_state, auth_exn, authenticated_user option) meth" where
  "validate_key k e key w =
     (if starts_with ''vz_'' key then (case validate_local_key k e key w of (v, w1) \<Rightarrow> (Inr v, w1))
      else if starts_with ''aim_'' key then (validate_key_against_aimarket (cl_gateway e), w)
      else (Inl (Refused 401 ''Invalid API key prefix.''), w))"

definition key_user :: "auth_library \<Rightarrow> auth_call \<Rightarrow> string \<Rightarrow> (auth_state, auth_exn, authenticated_user \<times> string option) meth" where
  "key_user k e key w =
     (case cache_get (cl_time e) key w of
        Some u \<Rightarrow> (Inr (u, None), w)
      | None \<Rightarrow>
          seq (validate_key k e key)
            (\<lambda>v. case v of
               None \<Rightarrow> raise (Refused 401 ''Invalid API Key.'')
             | Some u \<Rightarrow> (\<lambda>w1. (Inr (u, Some ''admin''), cache_put k e key u w1))) w)"

definition get_current_user :: "auth_library \<Rightarrow> auth_call \<Rightarrow> request \<Rightarrow> (auth_state, auth_exn, authenticated_user \<times> string option) meth" where
  "get_current_user k e r w =
     (if \<not> is_auth_enabled k then (Inr (mock_user, Some ''admin''), w)
      else case bearer_of r of
        Some token \<Rightarrow>
          seq (validate_bearer_token k e token)
            (\<lambda>u. ret (u, Some (if ''admin'' \<in> set (au_scopes u) then ''admin'' else ''user''))) w
      | None \<Rightarrow>
          (case cookie_user k e r w of
             (Some (u, role), w1) \<Rightarrow> (Inr (u, Some role), w1)
           | (None, w1) \<Rightarrow>
               if truthy (rq_api_key r) then key_user k e (text_or (rq_api_key r) []) w1
               else (Inl (Refused 401 ''Not authenticated.''), w1)))"

definition ws_validate :: "auth_library \<Rightarrow> auth_call \<Rightarrow> string \<Rightarrow> auth_state \<Rightarrow> authenticated_user option \<times> auth_state" where
  "ws_validate k e key w =
     (if starts_with ''vz_'' key then validate_local_key k e key w
      else if starts_with ''aim_'' key then
        (case validate_key_against_aimarket (cl_gateway e) of Inl _ \<Rightarrow> None | Inr v \<Rightarrow> v, w)
      else (case validate_bearer_token k e key w of (Inl _, w1) \<Rightarrow> (None, w1) | (Inr u, w1) \<Rightarrow> (Some u, w1)))"

definition get_current_user_ws :: "auth_library \<Rightarrow> auth_call \<Rightarrow> string option \<Rightarrow> auth_state \<Rightarrow> authenticated_user option \<times> auth_state" where
  "get_current_user_ws k e token w =
     (if \<not> is_auth_enabled k then (Some mock_user, w)
      else if \<not> truthy token then (None, w)
      else let key = text_or token [] in
        case cache_get (cl_time e) key w of
          Some u \<Rightarrow> (Some u, w)
        | None \<Rightarrow>
            (case ws_validate k e key w of
               (None, w1) \<Rightarrow> (None, w1)
             | (Some u, w1) \<Rightarrow> (Some u, cache_put k e key u w1)))"

definition require_scope :: "string \<Rightarrow> authenticated_user \<Rightarrow> auth_exn + authenticated_user" where
  "require_scope scope u = (if scope \<notin> set (au_scopes u) then Inl (Refused 403 ''Scope required'') else Inr u)"

section \<open>The role dependency\<close>

definition role_of_claims :: "string list \<Rightarrow> jwt_claims \<Rightarrow> (auth_state, auth_exn, authenticated_user) meth" where
  "role_of_claims roles c w =
     (if jc_role c \<notin> set roles then (Inl (Refused 403 ''Insufficient permissions''), w)
      else case get_user_by_id (jc_sub c) w of
        None \<Rightarrow> (Inl (Refused 401 ''User account is inactive or not found''), w)
      | Some u \<Rightarrow>
          if \<not> us_active u then (Inl (Refused 401 ''User account is inactive or not found''), w)
          else (Inr \<lparr>au_user_id = us_id u, au_key_id = ''jwt_session'', au_scopes = role_to_scopes (jc_role c),
                     au_balance = Some 0, au_trial = Some 0\<rparr>, w))"

definition admin_by_default :: "auth_library \<Rightarrow> string list \<Rightarrow> auth_call \<Rightarrow> request \<Rightarrow> (auth_state, auth_exn, authenticated_user) meth" where
  "admin_by_default k roles e r =
     seq (get_current_user k e r)
       (\<lambda>(u, _). if ''admin'' \<notin> set roles then raise (Refused 403 ''Insufficient permissions'') else ret u)"

definition role_required :: "auth_library \<Rightarrow> string list \<Rightarrow> auth_call \<Rightarrow> request \<Rightarrow> (auth_state, auth_exn, authenticated_user) meth" where
  "role_required k roles e r w =
     (if \<not> is_auth_enabled k then seq (get_current_user k e r) (\<lambda>(u, _). ret u) w
      else
        (case (if truthy (rq_cookie r) then decode_jwt_token k e (text_or (rq_cookie r) []) w else (None, w)) of
           (Some c, w1) \<Rightarrow> role_of_claims roles c w1
         | (None, w1) \<Rightarrow>
             if starts_with ''Bearer '' (rq_authorization r) then admin_by_default k roles e r w1
             else if truthy (rq_api_key r) then admin_by_default k roles e r w1
             else (Inl (Refused 401 ''Not authenticated''), w1)))"

definition require_admin :: "auth_library \<Rightarrow> auth_call \<Rightarrow> request \<Rightarrow> (auth_state, auth_exn, authenticated_user) meth" where
  "require_admin k = role_required k [''admin'']"

definition require_any :: "auth_library \<Rightarrow> auth_call \<Rightarrow> request \<Rightarrow> (auth_state, auth_exn, authenticated_user) meth" where
  "require_any k = role_required k [''admin'', ''user'']"


section \<open>Accounts\<close>

definition uname :: "string \<Rightarrow> string" where
  "uname s = lower (strip s)"

definition create_user_row ::
  "auth_library \<Rightarrow> auth_call \<Rightarrow> string \<Rightarrow> string \<Rightarrow> string \<Rightarrow> string option \<Rightarrow> auth_state \<Rightarrow> user_row option \<times> auth_state" where
  "create_user_row k e username password role display w =
     (if \<exists>u \<in> set (users w). us_username u = uname username then (None, w)
      else let u = \<lparr>us_id = cl_uuid e, us_username = uname username, us_display_name = Some (text_or display (uname username)),
                    us_pw_hash = Some (argon_hash k (cl_salt e) password), us_aim_id = None, us_role = role, us_active = True,
                    us_created = cl_time e, us_last_login = None\<rparr>
           in (Some u, w\<lparr>users := users w @ [u]\<rparr>))"

text \<open>Verifying a password against a row without a usable hash raises, which nothing catches.\<close>

definition authenticate :: "auth_library \<Rightarrow> auth_call \<Rightarrow> string \<Rightarrow> string \<Rightarrow> (auth_state, auth_exn, user_row option) meth" where
  "authenticate k e username password w =
     (case find (\<lambda>u. us_username u = uname username) (users w) of
        None \<Rightarrow> (Inr None, w)
      | Some u \<Rightarrow>
          if \<not> us_active u then (Inr None, w)
          else case argon_verify k (us_pw_hash u) password of
            Unverifiable \<Rightarrow> (Inl (Crashed ''verify''), w)
          | Mismatch \<Rightarrow> (Inr None, w)
          | Match \<Rightarrow>
              (Inr (Some (u\<lparr>us_last_login := Some (cl_time e)\<rparr>)),
               w\<lparr>users := update_where (\<lambda>v. us_id v = us_id u) (\<lambda>v. v\<lparr>us_last_login := Some (cl_time e)\<rparr>) (users w)\<rparr>))"

definition deactivate_user_row :: "string \<Rightarrow> auth_state \<Rightarrow> bool \<times> auth_state" where
  "deactivate_user_row i w =
     (if get_user_by_id i w = None then (False, w)
      else (True, w\<lparr>users := update_where (\<lambda>v. us_id v = i) (\<lambda>v. v\<lparr>us_active := False\<rparr>) (users w)\<rparr>))"

definition reset_password :: "auth_library \<Rightarrow> auth_call \<Rightarrow> string \<Rightarrow> string \<Rightarrow> auth_state \<Rightarrow> bool \<times> auth_state" where
  "reset_password k e i password w =
     (if get_user_by_id i w = None then (False, w)
      else (True, w\<lparr>users := update_where (\<lambda>v. us_id v = i)
                     (\<lambda>v. v\<lparr>us_pw_hash := Some (argon_hash k (cl_salt e) password)\<rparr>) (users w)\<rparr>))"

definition needs_setup :: "auth_state \<Rightarrow> bool" where
  "needs_setup w \<longleftrightarrow> users w = []"

section \<open>Rate limits\<close>

definition attempts_of :: "(string \<times> time list) list \<Rightarrow> string \<Rightarrow> time list" where
  "attempts_of m ip = (case map_of m ip of None \<Rightarrow> [] | Some ts \<Rightarrow> ts)"

definition peer :: "auth_call \<Rightarrow> string" where
  "peer e = (case cl_host e of None \<Rightarrow> ''unknown'' | Some h \<Rightarrow> h)"

definition check_setup_rate :: "auth_call \<Rightarrow> (auth_state, auth_exn, unit) meth" where
  "check_setup_rate e w =
     (let ts = filter (\<lambda>t. cl_time e - t < seconds 60) (attempts_of (setup_attempts w) (peer e)) in
      if length ts \<ge> 3 then (Inl (Refused 429 ''Too many setup attempts. Try again in 60 seconds.''), w)
      else (Inr (), w\<lparr>setup_attempts := AList.update (peer e) (ts @ [cl_time e]) (setup_attempts w)\<rparr>))"

definition check_login_rate :: "auth_call \<Rightarrow> (auth_state, auth_exn, unit) meth" where
  "check_login_rate e w =
     (let ts = filter (\<lambda>t. cl_time e - t < seconds 300) (attempts_of (login_attempts w) (peer e)) in
      if length ts \<ge> 5 then (Inl (Refused 429 ''Too many login attempts. Try again later.''), w)
      else (Inr (), w\<lparr>login_attempts := AList.update (peer e) (ts @ [cl_time e]) (login_attempts w)\<rparr>))"

section \<open>Issuing keys and cookies\<close>

record key_info =
  ki_key_id :: string
  ki_full_key :: string
  ki_label :: string
  ki_scopes :: "string list"
  ki_created :: time

definition full_key :: "string \<Rightarrow> string \<Rightarrow> string" where
  "full_key i s = ''vz_'' @ i @ ''_'' @ s"

text \<open>The table has one row per key id: a second one is an integrity error.\<close>

definition create_api_key ::
  "auth_library \<Rightarrow> auth_call \<Rightarrow> string \<Rightarrow> string \<Rightarrow> string list \<Rightarrow> (auth_state, auth_exn, key_info) meth" where
  "create_api_key k e user_id label scopes w =
     (case hmac_hash_secret k e (cl_secret e) w of (h, w1) \<Rightarrow>
        if cl_key_id e \<in> lk_key_id ` set (api_keys w1) then (Inl (Crashed ''IntegrityError''), w1)
        else (Inr \<lparr>ki_key_id = cl_key_id e, ki_full_key = full_key (cl_key_id e) (cl_secret e), ki_label = label,
                   ki_scopes = scopes, ki_created = cl_time e\<rparr>,
              w1\<lparr>api_keys := api_keys w1 @ [\<lparr>lk_user_id = user_id, lk_key_id = cl_key_id e, lk_key_hash = h, lk_label = label,
                   lk_scopes = dumps_scopes k scopes, lk_created = cl_time e, lk_last_used = None, lk_revoked = None\<rparr>]\<rparr>))"

definition hash_password :: "auth_library \<Rightarrow> auth_call \<Rightarrow> string \<Rightarrow> string" where
  "hash_password k e password = bcrypt_hash k (cl_salt e) (prepare_password k password)"

text \<open>\<open>local_users\<close> has unique ids and names.\<close>

definition insert_local ::
  "auth_library \<Rightarrow> auth_call \<Rightarrow> string \<Rightarrow> string \<Rightarrow> string \<Rightarrow> string \<Rightarrow> (auth_state, auth_exn, unit) meth" where
  "insert_local k e i username password role w =
     (if \<exists>u \<in> set (local_users w). lu_id u = i \<or> lu_username u = username then (Inl (Crashed ''IntegrityError''), w)
      else (Inr (), w\<lparr>local_users := local_users w @
              [\<lparr>lu_id = i, lu_username = username, lu_password_hash = hash_password k e password,
                lu_role = role, lu_active = True, lu_created = cl_time e\<rparr>]\<rparr>))"

definition verify_password :: "auth_library \<Rightarrow> string \<Rightarrow> string \<Rightarrow> bool" where
  "verify_password k password h = bcrypt_check k (prepare_password k password) h"

definition password_ok :: "string \<Rightarrow> bool" where
  "password_ok p \<longleftrightarrow> 8 \<le> length p \<and> length p \<le> 255"

definition username_ok :: "string \<Rightarrow> bool" where
  "username_ok u \<longleftrightarrow> 3 \<le> length u \<and> length u \<le> 64"

section \<open>First-run setup and login\<close>

definition check_setup :: "auth_state \<Rightarrow> bool" where
  "check_setup w \<longleftrightarrow> needs_setup w \<and> local_users w = []"

text \<open>The label of a key issued at login is \<open>Login\<close>; the source adds the time, which the row has.\<close>

record login_response =
  lr_user_id :: string
  lr_username :: string
  lr_role :: string
  lr_api_key :: string
  lr_cookie :: string

definition issue ::
  "auth_library \<Rightarrow> auth_call \<Rightarrow> string \<Rightarrow> string \<Rightarrow> string \<Rightarrow> string list \<Rightarrow> (auth_state, auth_exn, login_response) meth" where
  "issue k e i username role scopes w =
     (case create_jwt_token k e i role w of (cookie, w1) \<Rightarrow>
        seq (create_api_key k e i ''Login'' scopes)
          (\<lambda>info. ret \<lparr>lr_user_id = i, lr_username = username, lr_role = role, lr_api_key = ki_full_key info,
                      lr_cookie = cookie\<rparr>) w1)"

definition first_admin :: "auth_library \<Rightarrow> auth_call \<Rightarrow> string \<Rightarrow> string \<Rightarrow> (auth_state, auth_exn, login_response) meth" where
  "first_admin k e username password w =
     (case create_user_row k e username password ''admin'' (Some (strip username)) w of
        (None, w1) \<Rightarrow> (Inl (Refused 409 ''already exists''), w1)
      | (Some u, w1) \<Rightarrow>
          seq (insert_local k e (us_id u) (uname username) password ''admin'')
            (\<lambda>_. seq (create_api_key k e (us_id u) ''Admin (setup)'' admin_scopes)
              (\<lambda>info w2. case create_jwt_token k e (us_id u) (us_role u) w2 of (cookie, w3) \<Rightarrow>
                 (Inr \<lparr>lr_user_id = us_id u, lr_username = us_username u, lr_role = us_role u,
                       lr_api_key = ki_full_key info, lr_cookie = cookie\<rparr>, w3))) w1)"

definition setup_admin :: "auth_library \<Rightarrow> auth_call \<Rightarrow> string \<Rightarrow> string \<Rightarrow> (auth_state, auth_exn, login_response) meth" where
  "setup_admin k e username password w =
     (if \<not> username_ok username \<or> \<not> password_ok password then (Inl (Refused 422 ''validation''), w)
      else seq (check_setup_rate e)
        (\<lambda>_ w1. if \<not> needs_setup w1 \<or> local_users w1 \<noteq> [] then (Inl (Refused 404 ''Setup is no longer available.''), w1)
                else first_admin k e username password w1) w)"

definition legacy_login :: "auth_library \<Rightarrow> auth_call \<Rightarrow> string \<Rightarrow> string \<Rightarrow> (auth_state, auth_exn, login_response) meth" where
  "legacy_login k e username password w =
     (case find (\<lambda>u. lu_username u = strip username) (local_users w) of
        None \<Rightarrow> (Inl (Refused 401 ''Invalid username or password.''), w)
      | Some u \<Rightarrow>
          if lu_active u \<and> verify_password k password (lu_password_hash u)
          then issue k e (lu_id u) (lu_username u) (lu_role u) admin_scopes w
          else (Inl (Refused 401 ''Invalid username or password.''), w))"

definition login :: "auth_library \<Rightarrow> auth_call \<Rightarrow> string \<Rightarrow> string \<Rightarrow> (auth_state, auth_exn, login_response) meth" where
  "login k e username password =
     seq (check_login_rate e)
       (\<lambda>_. seq (authenticate k e username password)
         (\<lambda>v. case v of
            Some u \<Rightarrow> issue k e (us_id u) (us_username u) (us_role u) (role_to_scopes (us_role u))
          | None \<Rightarrow> legacy_login k e username password))"


section \<open>Login through ai.market\<close>

definition str_of :: "json \<Rightarrow> string" where
  "str_of v = (case v of JStr s \<Rightarrow> s | _ \<Rightarrow> [])"

definition optional_of :: "json \<Rightarrow> string option" where
  "optional_of v = (case v of JStr s \<Rightarrow> Some s | _ \<Rightarrow> None)"

text \<open>With a key store, the login also registers the installation, whatever becomes of that.\<close>

definition register_install :: "auth_library \<Rightarrow> string \<Rightarrow> string \<Rightarrow> auth_state \<Rightarrow> auth_state" where
  "register_install k token seller w = (if keystore_set k then w\<lparr>registrations := registrations w @ [(token, seller)]\<rparr> else w)"

definition token_response :: "dict \<Rightarrow> aim_user option \<Rightarrow> auth_exn + (string \<times> string \<times> aim_user option)" where
  "token_response d me =
     (case map_of d ''refresh_token'' of
        None \<Rightarrow> Inl (Crashed ''KeyError'')
      | Some r \<Rightarrow> Inr (str_of (dict_get d ''access_token'' JNull), str_of r, me))"

definition finish_token_login ::
  "auth_library \<Rightarrow> auth_call \<Rightarrow> dict \<Rightarrow> (auth_state, auth_exn, string \<times> string \<times> aim_user option) meth" where
  "finish_token_login k e d w =
     (let token = str_of (dict_get d ''access_token'' JNull) in
      case cl_me e of
        MeUnreachable \<Rightarrow> (Inl (Crashed ''RequestError''), w)
      | MeStatus _ \<Rightarrow> (token_response d None, w)
      | MeOk a \<Rightarrow>
          seq (link_account k e token a)
            (\<lambda>_ w1. (token_response d (Some a), register_install k token (am_id a) w1)) w)"

datatype market_login = Tokens string string "aim_user option" | SecondFactor string

definition with_tokens :: "string \<times> string \<times> aim_user option \<Rightarrow> market_login" where
  "with_tokens t = Tokens (fst t) (fst (snd t)) (snd (snd t))"

definition second_factor :: "auth_library \<Rightarrow> auth_call \<Rightarrow> (auth_state, auth_exn, market_login) meth" where
  "second_factor k e w =
     (case cl_market e of
        MarketTimeout \<Rightarrow> (Inl (Refused 504 ''ai.market auth service timeout''), w)
      | MarketUnreachable \<Rightarrow> (Inl (Refused 503 ''ai.market auth service unreachable''), w)
      | MarketReply n d \<Rightarrow>
          if n = 401 then (Inl (Refused 401 ''Invalid verification code''), w)
          else if n \<noteq> 200 then (Inl (Refused 502 ''Two-factor verification failed. Please try again.''), w)
          else if map_of d ''access_token'' = None then
            (Inl (Refused 502 ''ai.market 2FA verification response missing access token''), w)
          else seq (finish_token_login k e d) (\<lambda>t. ret (with_tokens t)) w)"

definition detail_of :: "dict \<Rightarrow> string \<Rightarrow> string" where
  "detail_of d v = str_of (dict_get d ''detail'' (JStr v))"

definition first_factor :: "auth_library \<Rightarrow> auth_call \<Rightarrow> (auth_state, auth_exn, market_login) meth" where
  "first_factor k e w =
     (case cl_market e of
        MarketTimeout \<Rightarrow> (Inl (Refused 504 ''ai.market auth service timeout''), w)
      | MarketUnreachable \<Rightarrow> (Inl (Refused 503 ''ai.market auth service unreachable''), w)
      | MarketReply n d \<Rightarrow>
          if n = 401 then (Inl (Refused 401 ''Incorrect email or password''), w)
          else if n = 403 then (Inl (Refused 403 (detail_of d ''Account access denied'')), w)
          else if n \<noteq> 200 then (Inl (Refused n (detail_of d ''ai.market login failed'')), w)
          else if map_of d ''access_token'' = None then
            (if truthy_json (dict_get d ''pre_auth_token'' JNull)
             then (Inr (SecondFactor (str_of (dict_get d ''pre_auth_token'' JNull))), w)
             else (Inl (Refused 501 ''Two-factor accounts not yet supported.''), w))
          else seq (finish_token_login k e d) (\<lambda>t. ret (with_tokens t)) w)"

definition aim_market_login :: "auth_library \<Rightarrow> auth_call \<Rightarrow> dict \<Rightarrow> (auth_state, auth_exn, market_login) meth" where
  "aim_market_login k e p w =
     (if truthy_json (dict_get p ''pre_auth_token'' JNull) \<and> truthy_json (dict_get p ''code'' JNull) then second_factor k e w
      else if \<not> truthy_json (dict_get p ''email'' JNull) \<or> \<not> truthy_json (dict_get p ''password'' JNull) then
        (Inl (Refused 400 ''email and password required''), w)
      else first_factor k e w)"

text \<open>A refreshed token is linked when that works; the client gets it in any case.\<close>

definition link_refreshed :: "auth_library \<Rightarrow> auth_call \<Rightarrow> string \<Rightarrow> auth_state \<Rightarrow> auth_state" where
  "link_refreshed k e token w =
     (case handle_ai_market_token k e token w of
        (Inl _, w1) \<Rightarrow> w1
      | (Inr u, w1) \<Rightarrow> register_install k token (au_user_id u) w1)"

definition aim_market_refresh :: "auth_library \<Rightarrow> auth_call \<Rightarrow> dict \<Rightarrow> (auth_state, auth_exn, dict) meth" where
  "aim_market_refresh k e p w =
     (if \<not> truthy_json (dict_get p ''refresh_token'' JNull) then (Inl (Refused 400 ''refresh_token required''), w)
      else case cl_market e of
        MarketReply n d \<Rightarrow>
          if n \<noteq> 200 then (Inl (Refused n (detail_of d ''Refresh failed'')), w)
          else (Inr d, if truthy_json (dict_get d ''access_token'' JNull)
                       then link_refreshed k e (str_of (dict_get d ''access_token'' JNull)) w else w)
      | _ \<Rightarrow> (Inl (Refused 503 ''ai.market auth service unavailable''), w))"

section \<open>The account's own endpoints\<close>

record user_info =
  ui_user_id :: string
  ui_username :: string
  ui_display_name :: "string option"
  ui_role :: string
  ui_active :: bool

definition info_of_user :: "user_row \<Rightarrow> user_info" where
  "info_of_user u = \<lparr>ui_user_id = us_id u, ui_username = us_username u, ui_display_name = us_display_name u,
     ui_role = us_role u, ui_active = us_active u\<rparr>"

definition get_me :: "auth_state \<Rightarrow> authenticated_user \<Rightarrow> user_info" where
  "get_me w u =
     (case get_user_by_id (au_user_id u) w of
        Some v \<Rightarrow> info_of_user v
      | None \<Rightarrow>
          (case local_user_of (au_user_id u) w of
             Some l \<Rightarrow> \<lparr>ui_user_id = lu_id l, ui_username = lu_username l, ui_display_name = None, ui_role = lu_role l,
                        ui_active = lu_active l\<rparr>
           | None \<Rightarrow> \<lparr>ui_user_id = au_user_id u, ui_username = au_user_id u, ui_display_name = None, ui_role = ''user'',
                     ui_active = True\<rparr>))"

definition list_keys :: "auth_library \<Rightarrow> auth_state \<Rightarrow> authenticated_user \<Rightarrow> (string \<times> string list \<times> bool) list" where
  "list_keys k w u = map (\<lambda>r. (lk_key_id r, scopes_of_row k r, lk_revoked r \<noteq> None))
     (filter (\<lambda>r. lk_user_id r = au_user_id u) (api_keys w))"

definition create_key :: "auth_library \<Rightarrow> auth_call \<Rightarrow> authenticated_user \<Rightarrow> string \<Rightarrow> string list \<Rightarrow> (auth_state, auth_exn, key_info) meth" where
  "create_key k e u label scopes w =
     (if length label > 255 then (Inl (Refused 422 ''validation''), w) else create_api_key k e (au_user_id u) label scopes w)"

definition forget_key :: "string \<Rightarrow> auth_state \<Rightarrow> auth_state" where
  "forget_key i w = w\<lparr>key_cache := filter (\<lambda>(_, u, _). au_key_id u \<noteq> i) (key_cache w)\<rparr>"

definition revoke_key :: "auth_call \<Rightarrow> string \<Rightarrow> authenticated_user \<Rightarrow> (auth_state, auth_exn, unit) meth" where
  "revoke_key e i u w =
     (case find (\<lambda>r. lk_key_id r = i \<and> lk_user_id r = au_user_id u) (api_keys w) of
        None \<Rightarrow> (Inl (Refused 404 ''Key not found.''), w)
      | Some r \<Rightarrow>
          if lk_revoked r \<noteq> None then (Inl (Refused 409 ''Key is already revoked.''), w)
          else (Inr (), forget_key i (w\<lparr>api_keys := update_where (\<lambda>q. lk_key_id q = i \<and> lk_user_id q = au_user_id u)
                         (\<lambda>q. q\<lparr>lk_revoked := Some (cl_time e)\<rparr>) (api_keys w)\<rparr>)))"

section \<open>User management\<close>

definition denied :: "auth_state \<Rightarrow> authenticated_user \<Rightarrow> bool" where
  "denied w u \<longleftrightarrow> (case get_user_by_id (au_user_id u) w of None \<Rightarrow> False | Some c \<Rightarrow> us_role c \<noteq> ''admin'')"

definition admin_only :: "authenticated_user \<Rightarrow> (auth_state, auth_exn, 'a) meth \<Rightarrow> (auth_state, auth_exn, 'a) meth" where
  "admin_only u m w = (if denied w u then (Inl (Refused 403 ''Admin access required.''), w) else m w)"

definition list_users :: "authenticated_user \<Rightarrow> (auth_state, auth_exn, user_info list) meth" where
  "list_users u = admin_only u (\<lambda>w. (Inr (map info_of_user (users w)), w))"

definition create_user ::
  "auth_library \<Rightarrow> auth_call \<Rightarrow> authenticated_user \<Rightarrow> string \<Rightarrow> string \<Rightarrow> string \<Rightarrow> string option \<Rightarrow> (auth_state, auth_exn, user_info) meth" where
  "create_user k e u username password role display =
     (if \<not> username_ok username \<or> \<not> password_ok password \<or> length (case display of None \<Rightarrow> [] | Some d \<Rightarrow> d) > 128
      then raise (Refused 422 ''validation'')
      else admin_only u (\<lambda>w.
        if role \<notin> {''admin'', ''user''} then (Inl (Refused 400 ''Role must be admin or user.''), w)
        else case create_user_row k e username password role display w of
          (None, w1) \<Rightarrow> (Inl (Refused 409 ''already exists''), w1)
        | (Some v, w1) \<Rightarrow>
            seq (insert_local k e (us_id v) (us_username v) password role) (\<lambda>_. ret (info_of_user v)) w1))"

definition deactivate_local :: "string \<Rightarrow> auth_state \<Rightarrow> auth_state" where
  "deactivate_local i w = w\<lparr>local_users := update_where (\<lambda>l. lu_id l = i) (\<lambda>l. l\<lparr>lu_active := False\<rparr>) (local_users w)\<rparr>"

definition deactivate_user :: "string \<Rightarrow> authenticated_user \<Rightarrow> (auth_state, auth_exn, unit) meth" where
  "deactivate_user i u = admin_only u (\<lambda>w.
     if i = au_user_id u then (Inl (Refused 400 ''Cannot deactivate your own account.''), w)
     else case deactivate_user_row i w of
       (False, w1) \<Rightarrow> (Inl (Refused 404 ''User not found.''), w1)
     | (True, w1) \<Rightarrow> (Inr (), deactivate_local i w1))"

definition admin_reset_password :: "auth_library \<Rightarrow> auth_call \<Rightarrow> string \<Rightarrow> string \<Rightarrow> authenticated_user \<Rightarrow> (auth_state, auth_exn, unit) meth" where
  "admin_reset_password k e i password u =
     (if \<not> password_ok password then raise (Refused 422 ''validation'')
      else admin_only u (\<lambda>w. case reset_password k e i password w of
         (False, w1) \<Rightarrow> (Inl (Refused 404 ''User not found.''), w1)
       | (True, w1) \<Rightarrow>
           (Inr (), w1\<lparr>local_users := update_where (\<lambda>l. lu_id l = i)
                         (\<lambda>l. l\<lparr>lu_password_hash := hash_password k e password\<rparr>) (local_users w1)\<rparr>)))"

section \<open>The service as a step system\<close>

text \<open>
  A request authenticates first; \<open>Endpoint\<close> is what it then does. Logging out only clears the cookie of
  the client and changes nothing here.
\<close>

datatype endpoint =
    ReadOnly
  | CreateKey string "string list"
  | RevokeKey string
  | CreateUser string string string "string option"
  | DeactivateUser string
  | ResetPassword string string

datatype auth_op =
    Authenticated auth_call request endpoint
  | WebSocket auth_call "string option"
  | Guarded "string list" auth_call request
  | Setup auth_call string string
  | Login auth_call string string
  | MarketLogin auth_call dict
  | MarketRefresh auth_call dict
  | Restart

definition call_of :: "auth_op \<Rightarrow> auth_call option" where
  "call_of a =
     (case a of
        Authenticated e _ _ \<Rightarrow> Some e | WebSocket e _ \<Rightarrow> Some e | Guarded _ e _ \<Rightarrow> Some e | Setup e _ _ \<Rightarrow> Some e
      | Login e _ _ \<Rightarrow> Some e | MarketLogin e _ \<Rightarrow> Some e | MarketRefresh e _ \<Rightarrow> Some e | Restart \<Rightarrow> None)"

definition serve :: "auth_library \<Rightarrow> auth_call \<Rightarrow> endpoint \<Rightarrow> authenticated_user \<Rightarrow> auth_state \<Rightarrow> auth_state" where
  "serve k e p u w =
     (case p of
        ReadOnly \<Rightarrow> w
      | CreateKey label scopes \<Rightarrow> snd (create_key k e u label scopes w)
      | RevokeKey i \<Rightarrow> snd (revoke_key e i u w)
      | CreateUser n pw role display \<Rightarrow> snd (create_user k e u n pw role display w)
      | DeactivateUser i \<Rightarrow> snd (deactivate_user i u w)
      | ResetPassword i pw \<Rightarrow> snd (admin_reset_password k e i pw u w))"

definition auth_step :: "auth_library \<Rightarrow> auth_state \<Rightarrow> auth_op \<Rightarrow> auth_state" where
  "auth_step k w op =
     (case op of
        Authenticated e r p \<Rightarrow>
          (case get_current_user k e r w of (Inl _, w1) \<Rightarrow> w1 | (Inr (u, _), w1) \<Rightarrow> serve k e p u w1)
      | WebSocket e t \<Rightarrow> snd (get_current_user_ws k e t w)
      | Guarded roles e r \<Rightarrow> snd (role_required k roles e r w)
      | Setup e n p \<Rightarrow> snd (setup_admin k e n p w)
      | Login e n p \<Rightarrow> snd (login k e n p w)
      | MarketLogin e d \<Rightarrow> snd (aim_market_login k e d w)
      | MarketRefresh e d \<Rightarrow> snd (aim_market_refresh k e d w)
      | Restart \<Rightarrow> restarted k w)"


section \<open>What the operations do to keys, local accounts and the cache\<close>

text \<open>
  \<open>good_entry\<close>: a cached local key has an unrevoked row of its user, whose local account is active.
  \<open>evolves\<close>: key rows and local accounts are only added, and every cache entry was there before or is a
  new one with the full time to live, good when it is for a local key. Revocation and deactivation are
  the two operations that do more, each in one place.
\<close>

definition key_core :: "key_row \<Rightarrow> string \<times> string \<times> string \<times> string \<times> time option" where
  "key_core r = (lk_key_id r, lk_user_id r, lk_key_hash r, lk_scopes r, lk_revoked r)"

definition local_core :: "local_row \<Rightarrow> string \<times> bool" where
  "local_core l = (lu_id l, lu_active l)"

definition good_entry :: "auth_state \<Rightarrow> string \<Rightarrow> authenticated_user \<Rightarrow> bool" where
  "good_entry w key u \<longleftrightarrow>
     (\<exists>s h sc. parse_local_key key = Some (au_key_id u, s) \<and> (au_key_id u, au_user_id u, h, sc, None) \<in> key_core ` set (api_keys w)) \<and>
     (\<exists>l. local_user_of (au_user_id u) w = Some l \<and> lu_active l)"

definition fresh_entries :: "auth_library \<Rightarrow> auth_call \<Rightarrow> auth_state \<Rightarrow> (string \<times> authenticated_user \<times> time) set" where
  "fresh_entries k e w = {(key, u, t). t = cl_time e + cache_ttl k \<and> (starts_with ''vz_'' key \<longrightarrow> good_entry w key u)}"

definition evolves :: "auth_library \<Rightarrow> auth_call \<Rightarrow> auth_state \<Rightarrow> auth_state \<Rightarrow> bool" where
  "evolves k e w w' \<longleftrightarrow>
     (\<exists>ys. map key_core (api_keys w') = map key_core (api_keys w) @ ys) \<and>
     (distinct (map lk_key_id (api_keys w)) \<longrightarrow> distinct (map lk_key_id (api_keys w'))) \<and>
     (\<exists>ys. map local_core (local_users w') = map local_core (local_users w) @ ys) \<and>
     (users w \<noteq> [] \<longrightarrow> users w' \<noteq> []) \<and>
     set (key_cache w') \<subseteq> set (key_cache w) \<union> fresh_entries k e w'"

definition tables :: "auth_state \<Rightarrow> key_row list \<times> local_row list \<times> user_row list \<times> (string \<times> authenticated_user \<times> time) list" where
  "tables w = (api_keys w, local_users w, users w, key_cache w)"

lemma find_local_core:
  "find (\<lambda>u. lu_id u = i) ls = Some l \<Longrightarrow> map local_core ls' = map local_core ls @ ys \<Longrightarrow>
   \<exists>l'. find (\<lambda>u. lu_id u = i) ls' = Some l' \<and> lu_active l' = lu_active l"
proof (induction ls arbitrary: ls')
  case Nil
  then show ?case by simp
next
  case (Cons a ls)
  then obtain b bs where ls': "ls' = b # bs" "local_core b = local_core a" "map local_core bs = map local_core ls @ ys"
    by (cases ls') auto
  then have "lu_id b = lu_id a" "lu_active b = lu_active a" by (auto simp: local_core_def)
  then show ?case using Cons.IH [of bs] Cons.prems(1) ls' by (auto split: if_splits)
qed

lemma local_grows:
  assumes "local_user_of i w = Some l" "map local_core (local_users w') = map local_core (local_users w) @ ys"
  shows "\<exists>l'. local_user_of i w' = Some l' \<and> lu_active l' = lu_active l"
  using find_local_core [where i = i and ls = "local_users w"] assms unfolding local_user_of_def by blast

lemma good_entry_mono:
  assumes "good_entry w key u" "map key_core (api_keys w') = map key_core (api_keys w) @ xs"
    "map local_core (local_users w') = map local_core (local_users w) @ ys"
  shows "good_entry w' key u"
proof -
  obtain s h sc l where g: "parse_local_key key = Some (au_key_id u, s)"
      "(au_key_id u, au_user_id u, h, sc, None) \<in> key_core ` set (api_keys w)"
      "local_user_of (au_user_id u) w = Some l" "lu_active l"
    using assms(1) unfolding good_entry_def by blast
  have "key_core ` set (api_keys w) \<subseteq> key_core ` set (api_keys w')"
    using arg_cong [OF assms(2), of set] by auto
  moreover obtain l' where "local_user_of (au_user_id u) w' = Some l'" "lu_active l'"
    using local_grows [OF g(3) assms(3)] g(4) by auto
  ultimately show ?thesis using g unfolding good_entry_def by blast
qed

lemma evolves_trans:
  assumes 1: "evolves k e w w1" and 2: "evolves k e w1 w2"
  shows "evolves k e w w2"
proof -
  obtain xs ys xs' ys' where a: "map key_core (api_keys w1) = map key_core (api_keys w) @ xs"
      "map local_core (local_users w1) = map local_core (local_users w) @ ys"
      "map key_core (api_keys w2) = map key_core (api_keys w1) @ xs'"
      "map local_core (local_users w2) = map local_core (local_users w1) @ ys'"
    using 1 2 unfolding evolves_def by blast
  have "fresh_entries k e w1 \<subseteq> fresh_entries k e w2"
    using good_entry_mono [OF _ a(3,4)] by (auto simp: fresh_entries_def)
  moreover have "map key_core (api_keys w2) = map key_core (api_keys w) @ (xs @ xs')"
      "map local_core (local_users w2) = map local_core (local_users w) @ (ys @ ys')"
    using a by simp_all
  ultimately show ?thesis using 1 2 unfolding evolves_def by blast
qed

lemma evolves_tables: "tables w' = tables w \<Longrightarrow> evolves k e w w'"
  by (auto simp: evolves_def tables_def)

lemma evolves_refl [simp]: "evolves k e w w"
  by (simp add: evolves_tables)

lemma evolves_trans_tables: "evolves k e w w1 \<Longrightarrow> tables w2 = tables w1 \<Longrightarrow> evolves k e w w2"
  using evolves_trans evolves_tables by blast

named_theorems evo \<open>operations that evolve the tables\<close>

lemma evolves_seq:
  assumes "evolves k e w (snd (m w))" "\<And>x v. evolves k e w v \<Longrightarrow> m w = (Inr x, v) \<Longrightarrow> evolves k e w (snd (f x v))"
  shows "evolves k e w (snd (seq m f w))"
  using assms by (cases "m w") (auto simp: seq_def split: sum.split)

lemma hmac_tables [simp]: "tables (snd (hmac_hash_secret k e s w)) = tables w"
  by (auto simp: hmac_hash_secret_def get_hmac_secret_def load_hmac_secret_def Let_def tables_def split: option.split)

lemma jwt_tables [simp]: "tables (snd (get_jwt_secret e w)) = tables w"
  by (auto simp: get_jwt_secret_def Let_def tables_def split: option.split)

lemma jwt_pair: "get_jwt_secret e w = (s, w1) \<Longrightarrow> tables w1 = tables w"
  and hmac_pair: "hmac_hash_secret k e c w = (h, w1) \<Longrightarrow> tables w1 = tables w"
  by (metis jwt_tables snd_conv, metis hmac_tables snd_conv)

lemma create_jwt_pair: "create_jwt_token k e i r w = (c, w1) \<Longrightarrow> tables w1 = tables w"
  and decode_jwt_pair: "decode_jwt_token k e i w = (v, w1) \<Longrightarrow> tables w1 = tables w"
  by (auto simp: create_jwt_token_def decode_jwt_token_def dest: jwt_pair split: prod.splits)

lemma cookie_pair: "cookie_user k e r w = (v, w1) \<Longrightarrow> tables w1 = tables w"
  by (auto simp: cookie_user_def dest: decode_jwt_pair split: if_splits prod.splits option.splits)

lemma key_core_touch: "map key_core (update_where p (\<lambda>q. q\<lparr>lk_last_used := t\<rparr>) rs) = map key_core rs"
  by (rule map_update_where_key) (simp add: key_core_def)

lemma key_id_touch: "map lk_key_id (update_where p (\<lambda>q. q\<lparr>lk_last_used := t\<rparr>) rs) = map lk_key_id rs"
  by (rule map_update_where_key) simp


lemma find_in_set: "find P xs = Some x \<Longrightarrow> x \<in> set xs \<and> P x"
  by (auto simp: find_Some_iff)

lemma validate_local_evolves: "validate_local_key k e key w = (v, w1) \<Longrightarrow> evolves k e w w1"
  by (auto simp: validate_local_key_def evolves_def tables_def key_core_touch key_id_touch
      dest!: hmac_pair split: option.splits prod.splits if_splits)

lemma validate_local_good:
  assumes "validate_local_key k e key w = (Some u, w1)"
  shows "good_entry w1 key u"
proof -
  obtain i c r w2 h l where d: "parse_local_key key = Some (i, c)"
      "find (\<lambda>r. lk_key_id r = i \<and> lk_revoked r = None) (api_keys w) = Some r" "hmac_hash_secret k e c w = (h, w2)"
      "local_user_of (lk_user_id r) w2 = Some l" "lu_active l" "au_user_id u = lu_id l" "au_key_id u = lk_key_id r"
      "api_keys w1 = update_where (\<lambda>q. lk_key_id q = i) (\<lambda>q. q\<lparr>lk_last_used := Some (cl_time e)\<rparr>) (api_keys w2)"
      "local_users w1 = local_users w2"
    using assms by (auto simp: validate_local_key_def split: option.splits prod.splits if_splits)
  have r: "r \<in> set (api_keys w2)" "lk_key_id r = i" "lk_revoked r = None"
    using find_in_set [OF d(2)] hmac_pair [OF d(3)] by (auto simp: tables_def)
  have l: "lu_id l = lk_user_id r" using find_in_set [OF d(4) [unfolded local_user_of_def]] by simp
  have "set (map key_core (api_keys w1)) = set (map key_core (api_keys w2))" by (simp only: d(8) key_core_touch)
  then have "key_core r \<in> key_core ` set (api_keys w1)" using r(1) by auto
  then have "(au_key_id u, au_user_id u, lk_key_hash r, lk_scopes r, None) \<in> key_core ` set (api_keys w1)"
    using d(6,7) l r(3) by (simp add: key_core_def)
  moreover have "local_user_of (au_user_id u) w1 = Some l" using d(4,6,9) l by (simp add: local_user_of_def)
  ultimately show ?thesis using d(1,5,7) r(2) unfolding good_entry_def by auto
qed

lemma good_cache_put [simp]: "good_entry (cache_put k e key u w) = good_entry w"
  by (intro ext) (simp add: good_entry_def cache_put_def local_user_of_def)

lemma cache_put_evolves: "(starts_with ''vz_'' key \<Longrightarrow> good_entry w key u) \<Longrightarrow> evolves k e w (cache_put k e key u w)"
proof -
  assume a: "starts_with ''vz_'' key \<Longrightarrow> good_entry w key u"
  have "set (key_cache (cache_put k e key u w)) \<subseteq> set (key_cache w) \<union> {(key, u, cl_time e + cache_ttl k)}"
    by (auto simp: cache_put_def)
  moreover have "(key, u, cl_time e + cache_ttl k) \<in> fresh_entries k e (cache_put k e key u w)"
    using a by (auto simp: fresh_entries_def)
  ultimately show ?thesis unfolding evolves_def by (auto simp: cache_put_def)
qed

lemma bearer_not_local [simp]: "\<not> starts_with ''vz_'' (bearer_cache_key k t)"
  by (simp add: starts_with_def bearer_cache_key_def)

lemma aim_not_local: "starts_with ''aim_'' key \<Longrightarrow> \<not> starts_with ''vz_'' key"
  by (cases key) (auto simp: starts_with_def)

lemma update_where_eq_Nil [simp]: "update_where p f rs = [] \<longleftrightarrow> rs = []"
  by (simp add: update_where_def)

lemma upsert_tables:
  "api_keys (upsert_ai_market_user e a w) = api_keys w" "local_users (upsert_ai_market_user e a w) = local_users w"
  "key_cache (upsert_ai_market_user e a w) = key_cache w" "users w \<noteq> [] \<Longrightarrow> users (upsert_ai_market_user e a w) \<noteq> []"
  unfolding upsert_ai_market_user_def Let_def by (simp_all split: option.split)

lemma link_evolves [evo]: "evolves k e w (snd (link_account k e token a w))"
proof (cases "user_from_aim a")
  case (Inl x)
  then show ?thesis by (simp add: link_account_def)
next
  case (Inr u)
  let ?w1 = "(if cl_linkable e then upsert_ai_market_user e a w else w)"
  let ?w2 = "?w1\<lparr>saved_sessions := saved_sessions ?w1 @ [(token, am_id a)]\<rparr>"
  have "evolves k e w ?w2" using upsert_tables [where e = e and a = a and w = w] by (simp add: evolves_def)
  then have "evolves k e w (cache_put k e (bearer_cache_key k token) u ?w2)"
    by (rule evolves_trans) (rule cache_put_evolves, simp)
  then show ?thesis using Inr by (simp add: link_account_def Let_def)
qed

lemma handle_evolves [evo]: "evolves k e w (snd (handle_ai_market_token k e token w))"
  by (auto simp: handle_ai_market_token_def evo split: sum.split)

lemma bearer_evolves [evo]: "evolves k e w (snd (validate_bearer_token k e token w))"
  by (auto simp: validate_bearer_token_def evo split: option.split)

lemma key_user_evolves [evo]: "evolves k e w (snd (key_user k e key w))"
proof (cases "cache_get (cl_time e) key w")
  case None
  have v: "evolves k e w (snd (validate_key k e key w))"
    by (auto simp: validate_key_def dest: validate_local_evolves split: prod.split)
  have g: "good_entry w1 key u" if "validate_key k e key w = (Inr (Some u), w1)" "starts_with ''vz_'' key" for u w1
    using that by (auto simp: validate_key_def intro: validate_local_good split: prod.splits)
  show ?thesis unfolding key_user_def None option.case
    using v by (auto intro!: evolves_seq evolves_trans [OF _ cache_put_evolves] g split: option.split)
qed (simp add: key_user_def)

lemma current_user_evolves [evo]: "evolves k e w (snd (get_current_user k e r w))"
proof -
  have 1: "evolves k e w (snd (key_user k e key w1))" if "cookie_user k e r w = (None, w1)" for key w1
    by (rule evolves_trans [OF evolves_tables [OF cookie_pair [OF that]] key_user_evolves])
  show ?thesis
    by (auto simp: get_current_user_def 1 evo intro!: evolves_seq dest: cookie_pair evolves_tables
        split: option.split prod.split)
qed

lemma ws_evolves [evo]: "evolves k e w (snd (get_current_user_ws k e t w))"
proof -
  have v: "evolves k e w w1" if "ws_validate k e key w = (v, w1)" for key v w1
    using that bearer_evolves [of k e w key]
    by (auto simp: ws_validate_def split: if_splits prod.splits sum.splits dest: validate_local_evolves)
  have g: "good_entry w1 key u" if "ws_validate k e key w = (Some u, w1)" "starts_with ''vz_'' key" for key u w1
    using that by (auto simp: ws_validate_def intro: validate_local_good)
  show ?thesis
    by (auto simp: get_current_user_ws_def Let_def intro: evolves_trans [OF v cache_put_evolves] g v
        split: option.split prod.split)
qed

lemma role_required_evolves [evo]: "evolves k e w (snd (role_required k roles e r w))"
proof -
  have a: "evolves k e w (snd (admin_by_default k roles e r w1))" if "tables w1 = tables w" for w1
    by (rule evolves_trans [OF evolves_tables [OF that]])
      (auto simp: admin_by_default_def intro!: evolves_seq evo)
  have c: "evolves k e w (snd (role_of_claims roles c w1))" if "tables w1 = tables w" for c w1
    using that by (auto simp: role_of_claims_def evolves_tables split: option.split)
  show ?thesis
    by (auto simp: role_required_def evo a c intro!: evolves_seq dest!: decode_jwt_pair dest: evolves_tables
        split: prod.splits option.splits if_splits)
qed


lemma evolves_bind:
  assumes "evolves k e w v" "\<And>u. evolves k e u (snd (m u))" "\<And>x u. evolves k e u (snd (f x u))"
  shows "evolves k e w (snd (seq m f v))"
  by (rule evolves_trans [OF assms(1)], rule evolves_seq, rule assms(2))
    (metis assms(3) evolves_trans)

lemma create_api_key_evolves [evo]: "evolves k e w (snd (create_api_key k e i label scopes w))"
  by (auto simp: create_api_key_def evolves_def tables_def dest!: hmac_pair split: prod.split)

lemma insert_local_evolves [evo]: "evolves k e w (snd (insert_local k e i n pw role w))"
  by (auto simp: insert_local_def evolves_def)

lemma create_user_row_evolves: "create_user_row k e n pw role d w = (v, w1) \<Longrightarrow> evolves k e w w1"
  by (auto simp: create_user_row_def Let_def evolves_def split: if_splits)

lemma authenticate_evolves [evo]: "evolves k e w (snd (authenticate k e n pw w))"
  by (auto simp: authenticate_def evolves_def split: option.split verdict.split)

lemma reset_evolves: "reset_password k e i pw w = (b, w1) \<Longrightarrow> evolves k e w w1"
  by (auto simp: reset_password_def evolves_def split: if_splits)

lemma rate_tables: "tables (snd (check_setup_rate e w)) = tables w" "tables (snd (check_login_rate e w)) = tables w"
  by (auto simp: check_setup_rate_def check_login_rate_def Let_def tables_def)

lemma rate_evolves [evo]: "evolves k e w (snd (check_setup_rate e w))" "evolves k e w (snd (check_login_rate e w))"
  by (simp_all add: evolves_tables rate_tables)

lemma issue_evolves [evo]: "evolves k e w (snd (issue k e i n role scopes w))"
  by (auto simp: issue_def evo intro!: evolves_bind dest!: create_jwt_pair dest: evolves_tables split: prod.split)

lemma first_admin_evolves [evo]: "evolves k e w (snd (first_admin k e n pw w))"
proof (cases "create_user_row k e n pw ''admin'' (Some (strip n)) w")
  case (Pair v w1)
  have "evolves k e u (snd (case create_jwt_token k e i r u of (c, w3) \<Rightarrow> (g c, w3)))" for i r g u
    by (auto dest!: create_jwt_pair dest: evolves_tables split: prod.split)
  then show ?thesis using create_user_row_evolves [OF Pair]
    by (auto simp: first_admin_def Pair evo intro!: evolves_bind split: option.split)
qed

lemma setup_evolves [evo]: "evolves k e w (snd (setup_admin k e n pw w))"
  by (auto simp: setup_admin_def evo intro!: evolves_bind)

lemma legacy_login_evolves [evo]: "evolves k e w (snd (legacy_login k e n pw w))"
  by (auto simp: legacy_login_def evo split: option.split)

lemma login_evolves [evo]: "evolves k e w (snd (login k e n pw w))"
  by (auto simp: login_def evo intro!: evolves_bind split: option.split)

lemma register_evolves: "tables (register_install k t i w) = tables w"
  by (simp add: register_install_def tables_def)

lemma finish_evolves [evo]: "evolves k e w (snd (finish_token_login k e d w))"
  by (auto simp: finish_token_login_def Let_def evo evolves_tables register_evolves intro!: evolves_bind split: me_reply.split)

lemma market_login_evolves [evo]: "evolves k e w (snd (aim_market_login k e p w))"
  by (auto simp: aim_market_login_def first_factor_def second_factor_def evo intro!: evolves_bind split: market_reply.split)

lemma refresh_evolves [evo]: "evolves k e w (snd (aim_market_refresh k e p w))"
proof -
  have "evolves k e w (link_refreshed k e t w)" for t
    using handle_evolves [of k e w t]
    by (auto simp: link_refreshed_def split: prod.splits sum.splits intro: evolves_trans_tables register_evolves)
  then show ?thesis by (auto simp: aim_market_refresh_def split: market_reply.split)
qed

lemma create_user_evolves [evo]: "evolves k e w (snd (create_user k e u n pw role d w))"
proof (cases "create_user_row k e n pw role d w")
  case (Pair v w1)
  then show ?thesis using create_user_row_evolves [OF Pair]
    by (auto simp: create_user_def admin_only_def evo intro!: evolves_bind split: option.split)
qed

lemma admin_reset_evolves [evo]: "evolves k e w (snd (admin_reset_password k e i pw u w))"
proof -
  have "evolves k e w1 (w1\<lparr>local_users := update_where p (\<lambda>l. l\<lparr>lu_password_hash := h\<rparr>) (local_users w1)\<rparr>)" for w1 p h
    by (simp add: evolves_def map_update_where_key local_core_def)
  then have "evolves k e w (w1\<lparr>local_users := update_where p (\<lambda>l. l\<lparr>lu_password_hash := h\<rparr>) (local_users w1)\<rparr>)"
    if "evolves k e w w1" for w1 p h using evolves_trans that by blast
  then show ?thesis
    by (auto simp: admin_reset_password_def admin_only_def dest: reset_evolves split: prod.split bool.split)
qed

lemma restart_evolves [evo]: "evolves k e w (restarted k w)"
  by (simp add: evolves_def restarted_def)


section \<open>Being locked out\<close>

text \<open>
  A contract that three parts of the service share: once a thing is locked, no operation unlocks it, and
  while it is locked it is refused, provided the service's own invariant holds.
\<close>

locale lock_out =
  fixes step :: "'s \<Rightarrow> 'op \<Rightarrow> 's" and ok :: "'s \<Rightarrow> bool" and locked :: "'x \<Rightarrow> 's \<Rightarrow> bool" and refused :: "'x \<Rightarrow> 's \<Rightarrow> bool"
  assumes step_ok: "ok w \<Longrightarrow> ok (step w a)"
    and step_locked: "ok w \<Longrightarrow> locked x w \<Longrightarrow> locked x (step w a)"
    and locked_refused: "ok w \<Longrightarrow> locked x w \<Longrightarrow> refused x w"
begin

lemma run_ok: "ok w \<Longrightarrow> ok (foldl step w ops)"
  by (induction ops arbitrary: w) (auto intro: step_ok)

lemma run_locked: "ok w \<Longrightarrow> locked x w \<Longrightarrow> locked x (foldl step w ops)"
  by (induction ops arbitrary: w) (auto intro: step_ok step_locked)

lemma locked_out: "ok w \<Longrightarrow> locked x w \<Longrightarrow> refused x (foldl step w ops)"
  by (rule locked_refused [OF run_ok run_locked])

end

definition row_entry :: "auth_state \<Rightarrow> string \<Rightarrow> authenticated_user \<Rightarrow> bool" where
  "row_entry w key u \<longleftrightarrow>
     (\<exists>s h sc. parse_local_key key = Some (au_key_id u, s) \<and> (au_key_id u, au_user_id u, h, sc, None) \<in> key_core ` set (api_keys w))"

definition auth_ok :: "auth_state \<Rightarrow> bool" where
  "auth_ok w \<longleftrightarrow> distinct (map lk_key_id (api_keys w)) \<and>
     (\<forall>(key, u, t) \<in> set (key_cache w). starts_with ''vz_'' key \<longrightarrow> row_entry w key u)"

lemma auth_ok_evolves:
  assumes "auth_ok w" "evolves k e w w'"
  shows "auth_ok w'"
proof -
  have "row_entry w' key u" if c: "(key, u, t) \<in> set (key_cache w')" "starts_with ''vz_'' key" for key u t
  proof (cases "(key, u, t) \<in> set (key_cache w)")
    case True
    then have r: "row_entry w key u" using assms(1) c(2) unfolding auth_ok_def by blast
    obtain ys where "map key_core (api_keys w') = map key_core (api_keys w) @ ys" using assms(2) by (auto simp: evolves_def)
    from arg_cong [OF this, of set] show ?thesis using r by (auto simp: row_entry_def)
  next
    case False
    then have "good_entry w' key u" using assms(2) c by (auto simp: evolves_def fresh_entries_def)
    then show ?thesis by (auto simp: good_entry_def row_entry_def)
  qed
  then show ?thesis using assms unfolding auth_ok_def evolves_def by blast
qed

text \<open>The two operations that do more than evolve the tables.\<close>

definition revoked_state :: "auth_call \<Rightarrow> string \<Rightarrow> authenticated_user \<Rightarrow> auth_state \<Rightarrow> auth_state" where
  "revoked_state e i u w = forget_key i (w\<lparr>api_keys := update_where (\<lambda>q. lk_key_id q = i \<and> lk_user_id q = au_user_id u)
     (\<lambda>q. q\<lparr>lk_revoked := Some (cl_time e)\<rparr>) (api_keys w)\<rparr>)"

lemma revoke_result:
  "(\<exists>x. revoke_key e i u w = (Inl x, w)) \<or>
   (\<exists>r \<in> set (api_keys w). lk_key_id r = i \<and> lk_user_id r = au_user_id u \<and> lk_revoked r = None) \<and>
   revoke_key e i u w = (Inr (), revoked_state e i u w)"
  by (cases "find (\<lambda>r. lk_key_id r = i \<and> lk_user_id r = au_user_id u) (api_keys w)")
    (auto simp: revoke_key_def revoked_state_def dest!: find_in_set)

lemma deactivate_result:
  "(\<exists>x. deactivate_user i u w = (Inl x, w)) \<or>
   (\<exists>us. (us = [] \<longleftrightarrow> users w = []) \<and> deactivate_user i u w = (Inr (), deactivate_local i (w\<lparr>users := us\<rparr>)))"
proof (cases "denied w u \<or> i = au_user_id u")
  case True
  then show ?thesis by (auto simp: deactivate_user_def admin_only_def)
next
  case False
  then have d: "deactivate_user i u w = (case deactivate_user_row i w of
       (False, w1) \<Rightarrow> (Inl (Refused 404 ''User not found.''), w1)
     | (True, w1) \<Rightarrow> (Inr (), deactivate_local i w1))"
    by (simp add: deactivate_user_def admin_only_def)
  show ?thesis
  proof (cases "get_user_by_id i w = None")
    case True
    then show ?thesis by (simp add: d deactivate_user_row_def)
  next
    case n: False
    let ?us = "update_where (\<lambda>v. us_id v = i) (\<lambda>v. v\<lparr>us_active := False\<rparr>) (users w)"
    have "deactivate_user i u w = (Inr (), deactivate_local i (w\<lparr>users := ?us\<rparr>))"
      by (simp only: d deactivate_user_row_def n if_False prod.case bool.case)
    then show ?thesis by (intro disjI2 exI [of _ ?us]) simp
  qed
qed

lemma auth_ok_revoked:
  assumes "auth_ok w"
  shows "auth_ok (revoked_state e i u w)"
proof -
  have "row_entry (revoked_state e i u w) key v" if "row_entry w key v" "au_key_id v \<noteq> i" for key v
  proof -
    obtain s h sc q where q: "parse_local_key key = Some (au_key_id v, s)" "q \<in> set (api_keys w)"
        "key_core q = (au_key_id v, au_user_id v, h, sc, None)"
      using \<open>row_entry w key v\<close> unfolding row_entry_def by (metis imageE)
    then have "q \<in> set (api_keys (revoked_state e i u w))"
      using \<open>au_key_id v \<noteq> i\<close>
      by (auto simp: revoked_state_def forget_key_def set_update_where key_core_def image_iff intro!: bexI [of _ q])
    then show ?thesis using q unfolding row_entry_def by (metis imageI)
  qed
  then have "\<forall>(key, v, t) \<in> set (key_cache (revoked_state e i u w)). starts_with ''vz_'' key \<longrightarrow> row_entry (revoked_state e i u w) key v"
    using assms by (fastforce simp: auth_ok_def revoked_state_def forget_key_def)
  moreover have "distinct (map lk_key_id (api_keys (revoked_state e i u w)))"
    using assms by (simp add: auth_ok_def revoked_state_def forget_key_def map_update_where_key)
  ultimately show ?thesis unfolding auth_ok_def by blast
qed

lemma auth_ok_deactivated: "auth_ok w \<Longrightarrow> auth_ok (deactivate_local i (w\<lparr>users := us\<rparr>))"
  by (auto simp: auth_ok_def row_entry_def deactivate_local_def)

text \<open>Every operation evolves the tables, and may then revoke a key or deactivate a user.\<close>

lemma auth_step_cases:
  obtains (evolves) e where "evolves k e w (auth_step k w a)" "call_of a \<in> {None, Some e}"
  | (revokes) e i u v where "evolves k e w v" "auth_step k w a = revoked_state e i u v" "call_of a = Some e"
  | (deactivates) e i us v where "evolves k e w v" "us = [] \<longleftrightarrow> users v = []"
      "auth_step k w a = deactivate_local i (v\<lparr>users := us\<rparr>)" "call_of a = Some e"
proof (cases a)
  case (Authenticated e r p)
  obtain x v where Pair: "get_current_user k e r w = (x, v)" by force
  then have v: "evolves k e w v" using current_user_evolves [of k e w r] by simp
  show thesis
  proof (cases x)
    case (Inl err)
    then show thesis using evolves v Authenticated Pair by (simp add: auth_step_def call_of_def)
  next
    case (Inr y)
    then have s: "auth_step k w a = serve k e p (fst y) v" using Authenticated Pair by (simp add: auth_step_def case_prod_unfold)
    have c: "evolves k e w (snd (create_key k e (fst y) l sc v))" for l sc
      using v by (auto simp: create_key_def intro: evolves_trans [OF v create_api_key_evolves])
    show thesis
    proof (cases p)
      case ReadOnly
      then show ?thesis using evolves [of e] s v by (simp add: serve_def Authenticated call_of_def)
    next
      case (CreateKey l sc)
      then show ?thesis using evolves [of e] s c by (simp add: serve_def Authenticated call_of_def)
    next
      case (CreateUser n pw r d)
      then show ?thesis using evolves [of e] s evolves_trans [OF v create_user_evolves] by (simp add: serve_def Authenticated call_of_def)
    next
      case (ResetPassword i pw)
      then show ?thesis using evolves [of e] s evolves_trans [OF v admin_reset_evolves] by (simp add: serve_def Authenticated call_of_def)
    next
      case (RevokeKey i)
      then show ?thesis using evolves [of e] revokes [OF v] s v revoke_result [of e i "fst y" v] by (auto simp: serve_def Authenticated call_of_def)
    next
      case (DeactivateUser i)
      then show ?thesis using evolves [of e] deactivates [OF v] s v deactivate_result [of i "fst y" v] by (auto simp: serve_def Authenticated call_of_def)
    qed
  qed
next
  case (WebSocket e t)
  then show ?thesis using evolves [of e] by (simp add: auth_step_def call_of_def evo)
next
  case (Guarded roles e r)
  then show ?thesis using evolves [of e] by (simp add: auth_step_def call_of_def evo)
next
  case (Setup e n p)
  then show ?thesis using evolves [of e] by (simp add: auth_step_def call_of_def evo)
next
  case (Login e n p)
  then show ?thesis using evolves [of e] by (simp add: auth_step_def call_of_def evo)
next
  case (MarketLogin e d)
  then show ?thesis using evolves [of e] by (simp add: auth_step_def call_of_def evo)
next
  case (MarketRefresh e d)
  then show ?thesis using evolves [of e] by (simp add: auth_step_def call_of_def evo)
next
  case Restart
  then show ?thesis using evolves by (simp add: auth_step_def call_of_def evo)
qed

lemma auth_step_ok: "auth_ok w \<Longrightarrow> auth_ok (auth_step k w a)"
  by (cases rule: auth_step_cases [of k w a]) (simp_all add: auth_ok_evolves auth_ok_revoked auth_ok_deactivated)

text \<open>Revoked keys.\<close>

definition key_revoked :: "string \<Rightarrow> auth_state \<Rightarrow> bool" where
  "key_revoked i w \<longleftrightarrow> (\<exists>r \<in> set (api_keys w). lk_key_id r = i \<and> lk_revoked r \<noteq> None)"

lemma key_revoked_core: "key_revoked i w \<longleftrightarrow> (\<exists>c \<in> key_core ` set (api_keys w). fst c = i \<and> snd (snd (snd (snd c))) \<noteq> None)"
  by (simp add: key_revoked_def key_core_def)

lemma key_revoked_evolves: "key_revoked i w \<Longrightarrow> evolves k e w w' \<Longrightarrow> key_revoked i w'"
proof -
  assume r: "key_revoked i w" and "evolves k e w w'"
  then obtain ys where "map key_core (api_keys w') = map key_core (api_keys w) @ ys" by (auto simp: evolves_def)
  from arg_cong [OF this, of set] show ?thesis using r unfolding key_revoked_core by auto
qed

lemma key_revoked_step: "key_revoked i w \<Longrightarrow> key_revoked i (auth_step k w a)"
proof (cases rule: auth_step_cases [of k w a])
  case (revokes e j u v)
  assume "key_revoked i w"
  then obtain r where r: "r \<in> set (api_keys v)" "lk_key_id r = i" "lk_revoked r \<noteq> None"
    using key_revoked_evolves [OF _ revokes(1)] by (auto simp: key_revoked_def)
  let ?p = "\<lambda>q. lk_key_id q = j \<and> lk_user_id q = au_user_id u"
  let ?q = "if ?p r then r\<lparr>lk_revoked := Some (cl_time e)\<rparr> else r"
  have "?q \<in> set (api_keys (auth_step k w a))"
    unfolding revokes(2) revoked_state_def forget_key_def using r(1) by (simp add: set_update_where)
  moreover have "lk_key_id ?q = i" "lk_revoked ?q \<noteq> None" using r by auto
  ultimately show ?thesis unfolding key_revoked_def by blast
next
  case (deactivates e j us v)
  assume "key_revoked i w"
  then show ?thesis using key_revoked_evolves [OF _ deactivates(1)] deactivates(3)
    by (auto simp: key_revoked_def deactivate_local_def)
qed (rule key_revoked_evolves)

lemma distinct_key_row:
  "auth_ok w \<Longrightarrow> r \<in> set (api_keys w) \<Longrightarrow> q \<in> set (api_keys w) \<Longrightarrow> lk_key_id r = lk_key_id q \<Longrightarrow> r = q"
  by (auto simp: auth_ok_def distinct_map dest: inj_onD)

definition refuses_key :: "auth_library \<Rightarrow> string \<Rightarrow> time \<Rightarrow> auth_state \<Rightarrow> bool" where
  "refuses_key k i t w \<longleftrightarrow>
     (\<forall>(e :: auth_call) key c. parse_local_key key = Some (i, c) \<longrightarrow> t \<le> cl_time e \<longrightarrow>
        cache_get (cl_time e) key w = None \<and> fst (validate_local_key k e key w) = None)"

lemma parse_starts: "parse_local_key key = Some (i, c) \<Longrightarrow> starts_with ''vz_'' key"
  by (simp add: parse_local_key_def split: if_splits)

lemma cached_row:
  assumes "auth_ok w" "cache_get now key w = Some u" "parse_local_key key = Some (i, c)"
  shows "\<exists>t r. (key, u, t) \<in> set (key_cache w) \<and> now < t \<and> r \<in> set (api_keys w) \<and> lk_key_id r = i \<and> au_key_id u = i \<and>
    lk_user_id r = au_user_id u \<and> lk_revoked r = None"
proof -
  obtain t where t: "(key, u, t) \<in> set (key_cache w)" "now < t"
    using assms(2) by (auto simp: cache_get_def split: option.splits if_splits dest: map_of_SomeD)
  then have "row_entry w key u" using assms(1) parse_starts [OF assms(3)] unfolding auth_ok_def by blast
  then obtain r where "r \<in> set (api_keys w)" "lk_key_id r = au_key_id u" "lk_user_id r = au_user_id u" "lk_revoked r = None"
      "au_key_id u = i"
    unfolding row_entry_def key_core_def using assms(3) by force
  then show ?thesis using t by blast
qed

lemma revoked_refused:
  assumes "auth_ok w" "key_revoked i w"
  shows "refuses_key k i t w"
  unfolding refuses_key_def
proof (intro allI impI conjI)
  fix e :: auth_call and key c assume p: "parse_local_key key = Some (i, c)"
  obtain r where r: "r \<in> set (api_keys w)" "lk_key_id r = i" "lk_revoked r \<noteq> None"
    using assms(2) by (auto simp: key_revoked_def)
  then have n: "q \<in> set (api_keys w) \<Longrightarrow> lk_key_id q = i \<Longrightarrow> lk_revoked q \<noteq> None" for q
    using distinct_key_row [OF assms(1), of r q] by auto
  show "cache_get (cl_time e) key w = None"
    using cached_row [OF assms(1) _ p] n by (cases "cache_get (cl_time e) key w") blast+
  have "find (\<lambda>r. lk_key_id r = i \<and> lk_revoked r = None) (api_keys w) = None" using n by (auto simp: find_None_iff)
  then show "fst (validate_local_key k e key w) = None" by (simp add: validate_local_key_def p)
qed

interpretation revoked: lock_out "auth_step k" auth_ok key_revoked "\<lambda>i. refuses_key k i t" for k t
  by unfold_locales (simp_all add: auth_step_ok key_revoked_step revoked_refused)


text \<open>
  Deactivated users: the cache may hold their keys, each until \<open>T\<close> at most, and gets no new ones.
\<close>

definition local_inactive :: "string \<Rightarrow> auth_state \<Rightarrow> bool" where
  "local_inactive i w \<longleftrightarrow> (\<exists>l. local_user_of i w = Some l \<and> \<not> lu_active l)"

definition cached_until :: "string \<Rightarrow> time \<Rightarrow> auth_state \<Rightarrow> bool" where
  "cached_until i t w \<longleftrightarrow> (\<forall>(key, u, x) \<in> set (key_cache w). starts_with ''vz_'' key \<longrightarrow> au_user_id u = i \<longrightarrow> x \<le> t)"

definition user_out :: "string \<times> time \<Rightarrow> auth_state \<Rightarrow> bool" where
  "user_out p w \<longleftrightarrow> local_inactive (fst p) w \<and> cached_until (fst p) (snd p) w"

definition refuses_user :: "auth_library \<Rightarrow> string \<times> time \<Rightarrow> auth_state \<Rightarrow> bool" where
  "refuses_user k p w \<longleftrightarrow> (\<forall>r \<in> set (api_keys w). lk_user_id r = fst p \<longrightarrow> refuses_key k (lk_key_id r) (snd p) w)"

lemma local_inactive_evolves: "local_inactive i w \<Longrightarrow> evolves k e w w' \<Longrightarrow> local_inactive i w'"
  unfolding local_inactive_def evolves_def using local_grows by metis

lemma user_out_evolves:
  assumes "user_out p w" "evolves k e w w'"
  shows "user_out p w'"
proof -
  have i: "local_inactive (fst p) w'" using local_inactive_evolves assms by (auto simp: user_out_def)
  have "x \<le> snd p" if c: "(key, u, x) \<in> set (key_cache w')" "starts_with ''vz_'' key" "au_user_id u = fst p" for key u x
  proof (cases "(key, u, x) \<in> set (key_cache w)")
    case True
    then show ?thesis using assms(1) c by (auto simp: user_out_def cached_until_def)
  next
    case False
    then have "good_entry w' key u" using assms(2) c by (auto simp: evolves_def fresh_entries_def)
    then show ?thesis using i c(3) by (auto simp: good_entry_def local_inactive_def)
  qed
  then show ?thesis using i by (auto simp: user_out_def cached_until_def)
qed

lemma local_user_deactivate:
  "local_user_of i (deactivate_local j w) =
     map_option (\<lambda>l. if lu_id l = j then l\<lparr>lu_active := False\<rparr> else l) (local_user_of i w)"
proof -
  have "find (\<lambda>l. lu_id l = i) (update_where (\<lambda>l. lu_id l = j) (\<lambda>l. l\<lparr>lu_active := False\<rparr>) ls) =
     map_option (\<lambda>l. if lu_id l = j then l\<lparr>lu_active := False\<rparr> else l) (find (\<lambda>l. lu_id l = i) ls)" for ls
    by (induction ls) auto
  then show ?thesis by (simp add: local_user_of_def deactivate_local_def)
qed

lemma user_out_step: "user_out p w \<Longrightarrow> user_out p (auth_step k w a)"
proof (cases rule: auth_step_cases [of k w a])
  case (revokes e j u v)
  assume "user_out p w"
  then show ?thesis using user_out_evolves [OF _ revokes(1)] revokes(2)
    by (fastforce simp: user_out_def cached_until_def local_inactive_def local_user_of_def revoked_state_def forget_key_def)
next
  case (deactivates e j us v)
  assume "user_out p w"
  then have v: "user_out p v" using user_out_evolves [OF _ deactivates(1)] by blast
  then obtain l where "local_user_of (fst p) (v\<lparr>users := us\<rparr>) = Some l" "\<not> lu_active l"
    by (auto simp: user_out_def local_inactive_def local_user_of_def)
  then have "local_inactive (fst p) (auth_step k w a)"
    by (simp add: local_inactive_def deactivates(3) local_user_deactivate)
  moreover have "key_cache (auth_step k w a) = key_cache v" by (simp add: deactivates(3) deactivate_local_def)
  ultimately show ?thesis using v by (simp add: user_out_def cached_until_def)
qed (rule user_out_evolves)

lemma out_refused:
  assumes ok: "auth_ok w" and out: "user_out p w"
  shows "refuses_user k p w"
  unfolding refuses_user_def refuses_key_def
proof (intro ballI allI impI conjI)
  fix q e key c assume q: "q \<in> set (api_keys w)" "lk_user_id q = fst p" and p: "parse_local_key key = Some (lk_key_id q, c)"
    and t: "snd p \<le> cl_time (e :: auth_call)"
  show "cache_get (cl_time e) key w = None"
  proof (cases "cache_get (cl_time e) key w")
    case (Some u)
    obtain x r where r: "(key, u, x) \<in> set (key_cache w)" "cl_time e < x" "r \<in> set (api_keys w)" "lk_key_id r = lk_key_id q"
        "lk_user_id r = au_user_id u"
      using cached_row [OF ok Some p] by blast
    then have "r = q" using distinct_key_row [OF ok] q(1) by blast
    then have "x \<le> snd p" using out r(1,5) q(2) parse_starts [OF p] by (auto simp: user_out_def cached_until_def)
    then show ?thesis using r(2) t by simp
  qed
  show "fst (validate_local_key k e key w) = None"
  proof (cases "find (\<lambda>r. lk_key_id r = lk_key_id q \<and> lk_revoked r = None) (api_keys w)")
    case None
    then show ?thesis by (simp add: validate_local_key_def p)
  next
    case (Some r)
    then have r: "r = q" using distinct_key_row [OF ok] q(1) find_in_set [OF Some] by blast
    obtain h w1 where h: "hmac_hash_secret k e c w = (h, w1)" by force
    then have "local_user_of (fst p) w1 = local_user_of (fst p) w"
      using hmac_pair [OF h] by (simp add: tables_def local_user_of_def)
    then obtain l where "local_user_of (fst p) w1 = Some l" "\<not> lu_active l" using out by (auto simp: user_out_def local_inactive_def)
    then show ?thesis by (simp add: validate_local_key_def p Some h r q(2))
  qed
qed

interpretation deactivated: lock_out "auth_step k" auth_ok user_out "refuses_user k" for k
  by unfold_locales (simp_all add: auth_step_ok user_out_step out_refused)

text \<open>First-run setup.\<close>

definition has_account :: "unit \<Rightarrow> auth_state \<Rightarrow> bool" where
  "has_account _ w \<longleftrightarrow> users w \<noteq> [] \<or> local_users w \<noteq> []"

definition refuses_setup :: "auth_library \<Rightarrow> unit \<Rightarrow> auth_state \<Rightarrow> bool" where
  "refuses_setup k _ w \<longleftrightarrow> (\<forall>e n p. \<exists>x. fst (setup_admin k e n p w) = Inl x) \<and> \<not> check_setup w"

lemma has_account_evolves: "has_account x w \<Longrightarrow> evolves k e w w' \<Longrightarrow> has_account x w'"
  by (auto simp: has_account_def evolves_def)

lemma has_account_step: "has_account x w \<Longrightarrow> has_account x (auth_step k w a)"
proof (cases rule: auth_step_cases [of k w a])
  case (revokes e j u v)
  assume "has_account x w"
  then show ?thesis using has_account_evolves [OF _ revokes(1)] revokes(2)
    by (auto simp: has_account_def revoked_state_def forget_key_def)
next
  case (deactivates e j us v)
  assume "has_account x w"
  then show ?thesis using has_account_evolves [OF _ deactivates(1)] deactivates(2,3)
    by (auto simp: has_account_def deactivate_local_def)
qed (rule has_account_evolves)

lemma setup_refused: "has_account x w \<Longrightarrow> refuses_setup k x w"
proof -
  assume "has_account x w"
  moreover have "users (snd (check_setup_rate e w)) = users w" "local_users (snd (check_setup_rate e w)) = local_users w" for e
    using rate_tables [of e w] by (simp_all add: tables_def)
  ultimately show ?thesis
    by (auto simp: refuses_setup_def setup_admin_def seq_cases check_setup_def needs_setup_def has_account_def split: sum.split)
qed

interpretation installed: lock_out "auth_step k" auth_ok has_account "refuses_setup k" for k
  by unfold_locales (simp_all add: auth_step_ok has_account_step setup_refused)


text \<open>The time to live bounds every entry.\<close>

definition cache_bounded :: "time \<Rightarrow> auth_state \<Rightarrow> bool" where
  "cache_bounded b w \<longleftrightarrow> (\<forall>(_, _, t) \<in> set (key_cache w). t \<le> b)"

lemma cache_bounded_evolves:
  "cache_bounded b w \<Longrightarrow> evolves k e w w' \<Longrightarrow> cl_time e + cache_ttl k \<le> b \<Longrightarrow> cache_bounded b w'"
  by (fastforce simp: cache_bounded_def evolves_def fresh_entries_def)

lemma cache_bounded_step:
  assumes "cache_bounded b w" "\<And>e. call_of a = Some e \<Longrightarrow> cl_time e + cache_ttl k \<le> b"
  shows "cache_bounded b (auth_step k w a)"
proof (cases rule: auth_step_cases [of k w a])
  case (evolves e)
  show ?thesis
  proof (cases "call_of a")
    case None
    then have "a = Restart" by (cases a) (simp_all add: call_of_def)
    then show ?thesis by (simp add: auth_step_def restarted_def cache_bounded_def)
  next
    case (Some f)
    then show ?thesis using cache_bounded_evolves [OF assms(1)] evolves assms(2) by auto
  qed
next
  case (revokes e j u v)
  then show ?thesis using cache_bounded_evolves [OF assms(1) revokes(1) assms(2)]
    by (fastforce simp: cache_bounded_def revoked_state_def forget_key_def)
next
  case (deactivates e j us v)
  then show ?thesis using cache_bounded_evolves [OF assms(1) deactivates(1) assms(2)]
    by (simp add: cache_bounded_def deactivate_local_def)
qed

lemma cache_bounded_run:
  "cache_bounded b w \<Longrightarrow> (\<And>a e. a \<in> set ops \<Longrightarrow> call_of a = Some e \<Longrightarrow> cl_time e + cache_ttl k \<le> b) \<Longrightarrow>
   cache_bounded b (foldl (auth_step k) w ops)"
  by (induction ops arbitrary: w) (auto intro: cache_bounded_step)

lemma new_install_ok: "auth_ok (new_install k)" "cache_bounded b (new_install k)"
  by (simp_all add: auth_ok_def new_install_def cache_bounded_def)

section \<open>What clients see\<close>

text \<open>A request with nothing but an API key.\<close>

definition by_key :: "string \<Rightarrow> request" where
  "by_key key = \<lparr>rq_authorization = [], rq_cookie = None, rq_api_key = Some key\<rparr>"

definition by_cookie :: "string \<Rightarrow> request" where
  "by_cookie c = \<lparr>rq_authorization = [], rq_cookie = Some c, rq_api_key = None\<rparr>"

lemma current_user_by_key:
  "is_auth_enabled k \<Longrightarrow> key \<noteq> [] \<Longrightarrow> get_current_user k e (by_key key) w = key_user k e key w"
  by (simp add: get_current_user_def by_key_def bearer_of_def starts_with_def cookie_user_def text_or_def)

lemma parse_nonempty: "parse_local_key key = Some p \<Longrightarrow> key \<noteq> []"
  by (auto simp: parse_local_key_def starts_with_def split: if_splits)

lemma refused_by_key:
  assumes "is_auth_enabled k" "refuses_key k i t w" "parse_local_key key = Some (i, c)" "t \<le> cl_time e"
  shows "fst (get_current_user k e (by_key key) w) = Inl (Refused 401 ''Invalid API Key.'')"
    and "fst (get_current_user_ws k e (Some key) w) = None"
proof -
  have r: "cache_get (cl_time e) key w = None" "fst (validate_local_key k e key w) = None"
    using assms(2-4) by (auto simp: refuses_key_def)
  obtain w1 where v: "validate_local_key k e key w = (None, w1)" using r(2) by (metis prod.collapse)
  have s: "starts_with ''vz_'' key" using assms(3) by (rule parse_starts)
  note n = parse_nonempty [OF assms(3)]
  show "fst (get_current_user k e (by_key key) w) = Inl (Refused 401 ''Invalid API Key.'')"
    by (simp add: current_user_by_key [OF assms(1) n] key_user_def r(1) seq_cases validate_key_def s v)
  show "fst (get_current_user_ws k e (Some key) w) = None"
    by (simp add: get_current_user_ws_def assms(1) n text_or_def r(1) ws_validate_def s v)
qed

lemma revoke_then:
  assumes "auth_ok w" "revoke_key e i u w = (Inr (), w')"
  shows "auth_ok w'" "key_revoked i w'"
proof -
  obtain r where r: "r \<in> set (api_keys w)" "lk_key_id r = i" "lk_user_id r = au_user_id u" "w' = revoked_state e i u w"
    using revoke_result [of e i u w] assms(2) by auto
  show "auth_ok w'" using auth_ok_revoked [OF assms(1)] r(4) by simp
  show "key_revoked i w'" unfolding key_revoked_def r(4) revoked_state_def forget_key_def using r(1-3)
    by (auto simp: set_update_where intro!: bexI [of _ "r\<lparr>lk_revoked := Some (cl_time e)\<rparr>"])
qed


text \<open>What the random generators return, as the source calls them.\<close>

definition generated :: "auth_call \<Rightarrow> bool" where
  "generated e \<longleftrightarrow> cl_key_id e \<noteq> [] \<and> CHR ''_'' \<notin> set (cl_key_id e) \<and> cl_secret e \<noteq> [] \<and> cl_hex e \<noteq> []"

lemma parse_full_key:
  assumes "i \<noteq> []" "CHR ''_'' \<notin> set i" "s \<noteq> []"
  shows "parse_local_key (full_key i s) = Some (i, s)"
proof -
  have "takeWhile (\<lambda>c. c \<noteq> CHR ''_'') (i @ CHR ''_'' # s) = i" using assms(2) by (simp add: takeWhile_append2 takeWhile_tail) (metis takeWhile_eq_all_conv)
  then show ?thesis using assms by (simp add: parse_local_key_def full_key_def starts_with_def)
qed

lemma hmac_stable:
  assumes "get_hmac_secret e w = (m, w1)" "cl_hex e \<noteq> []" "hmac_setting w2 = hmac_setting w1"
  shows "get_hmac_secret e' w2 = (m, w2)"
proof -
  have "hmac_setting w1 = Some m" "m \<noteq> []"
    using assms(1,2) by (auto simp: get_hmac_secret_def load_hmac_secret_def Let_def split: if_splits option.splits)
  then show ?thesis using assms(3) by (simp add: get_hmac_secret_def)
qed

lemma create_api_key_result:
  assumes "create_api_key k e i label scopes w = (Inr info, w')"
  obtains m w1 where "get_hmac_secret e w = (m, w1)" "ki_full_key info = full_key (cl_key_id e) (cl_secret e)"
    "ki_key_id info = cl_key_id e" "cl_key_id e \<notin> lk_key_id ` set (api_keys w)" "local_users w' = local_users w" "users w' = users w"
    "hmac_setting w' = hmac_setting w1" "key_cache w' = key_cache w" "jwt_secret w' = jwt_secret w1"
    "api_keys w' = api_keys w @ [\<lparr>lk_user_id = i, lk_key_id = cl_key_id e, lk_key_hash = hmac_sha256 k m (cl_secret e), lk_label = label,
                   lk_scopes = dumps_scopes k scopes, lk_created = cl_time e, lk_last_used = None, lk_revoked = None\<rparr>]"
proof -
  obtain m w1 where m: "get_hmac_secret e w = (m, w1)" by force
  then have h: "hmac_hash_secret k e (cl_secret e) w = (hmac_sha256 k m (cl_secret e), w1)" by (simp add: hmac_hash_secret_def)
  have t: "tables w1 = tables w" by (rule hmac_pair [OF h])
  show thesis using that [OF m] assms t by (auto simp: create_api_key_def h tables_def split: if_splits)
qed

text \<open>A key just issued, on any later state in which its row and its user's row are as they were.\<close>

lemma new_key_validates:
  assumes ok: "auth_ok w" and c: "create_api_key k e i label scopes w = (Inr info, w')" and g: "generated e"
    and l: "local_user_of i w = Some l" "lu_active l" and d: "loads_scopes k (dumps_scopes k scopes) = Some scopes"
  shows "parse_local_key (ki_full_key info) = Some (cl_key_id e, cl_secret e)"
    and "cache_get (cl_time e') (ki_full_key info) w' = None"
    and "\<exists>w2. validate_local_key k e' (ki_full_key info) w' =
      (Some \<lparr>au_user_id = i, au_key_id = cl_key_id e, au_scopes = scopes, au_balance = Some 0, au_trial = Some 0\<rparr>, w2)"
proof -
  obtain m w1 where r: "get_hmac_secret e w = (m, w1)" "ki_full_key info = full_key (cl_key_id e) (cl_secret e)"
      "ki_key_id info = cl_key_id e" "cl_key_id e \<notin> lk_key_id ` set (api_keys w)" "local_users w' = local_users w" "users w' = users w"
      "hmac_setting w' = hmac_setting w1" "key_cache w' = key_cache w"
    "api_keys w' = api_keys w @ [\<lparr>lk_user_id = i, lk_key_id = cl_key_id e, lk_key_hash = hmac_sha256 k m (cl_secret e), lk_label = label,
                   lk_scopes = dumps_scopes k scopes, lk_created = cl_time e, lk_last_used = None, lk_revoked = None\<rparr>]"
    using create_api_key_result [OF c] by metis
  show p: "parse_local_key (ki_full_key info) = Some (cl_key_id e, cl_secret e)"
    using g r(2) by (simp add: generated_def parse_full_key)
  show "cache_get (cl_time e') (ki_full_key info) w' = None"
  proof (cases "cache_get (cl_time e') (ki_full_key info) w")
    case None
    then show ?thesis by (simp add: cache_get_def r(8))
  next
    case (Some u)
    then show ?thesis using cached_row [OF ok Some p] r(4) by force
  qed
  have f: "find (\<lambda>q. lk_key_id q = cl_key_id e \<and> lk_revoked q = None) (api_keys w) = None" using r(4) by (force simp: find_None_iff)
  have fa: "find P (xs @ [x]) = (case find P xs of None \<Rightarrow> if P x then Some x else None | Some y \<Rightarrow> Some y)" for P and xs :: "key_row list" and x
    by (induction xs) auto
  have "hmac_hash_secret k e' (cl_secret e) w' = (hmac_sha256 k m (cl_secret e), w')"
    using hmac_stable [OF r(1) _ r(7)] g by (simp add: hmac_hash_secret_def generated_def)
  moreover have "local_user_of i w' = Some l" "lu_id l = i"
    using l(1) r(5) find_in_set [OF l(1) [unfolded local_user_of_def]] by (simp_all add: local_user_of_def)
  ultimately show "\<exists>w2. validate_local_key k e' (ki_full_key info) w' =
      (Some \<lparr>au_user_id = i, au_key_id = cl_key_id e, au_scopes = scopes, au_balance = Some 0, au_trial = Some 0\<rparr>, w2)"
    using l(2) by (simp add: validate_local_key_def p r(9) fa f scopes_of_row_def d)
qed

lemma new_key_accepted:
  assumes "is_auth_enabled k" "auth_ok w" "create_api_key k e i label scopes w = (Inr info, w')" "generated e"
    "local_user_of i w = Some l" "lu_active l" "loads_scopes k (dumps_scopes k scopes) = Some scopes"
  shows "fst (get_current_user k e' (by_key (ki_full_key info)) w') =
    Inr (\<lparr>au_user_id = i, au_key_id = cl_key_id e, au_scopes = scopes, au_balance = Some 0, au_trial = Some 0\<rparr>, Some ''admin'')"
proof -
  note v = new_key_validates [OF assms(2-7)]
  obtain w2 where w2: "validate_local_key k e' (ki_full_key info) w' =
      (Some \<lparr>au_user_id = i, au_key_id = cl_key_id e, au_scopes = scopes, au_balance = Some 0, au_trial = Some 0\<rparr>, w2)"
    using v(3) by blast
  show ?thesis
    by (simp add: current_user_by_key [OF assms(1) parse_nonempty [OF v(1)]] key_user_def v(2) seq_cases validate_key_def
        parse_starts [OF v(1)] w2)
qed


lemma issue_result:
  assumes "issue k e i n role scopes w = (Inr resp, w')"
  obtains s w1 info where "create_jwt_token k e i role w = (lr_cookie resp, w1)" "jwt_secret w1 = Some s"
    "lr_cookie resp = jwt_encode k s \<lparr>jc_sub = i, jc_role = role, jc_exp = cl_time e + JWT_EXPIRY\<rparr>"
    "create_api_key k e i ''Login'' scopes w1 = (Inr info, w')" "lr_api_key resp = ki_full_key info"
    "jwt_secret w' = Some s" "users w' = users w" "lr_user_id resp = i"
proof -
  obtain c w1 where c: "create_jwt_token k e i role w = (c, w1)" by force
  then obtain s where s: "get_jwt_secret e w = (s, w1)" "c = jwt_encode k s \<lparr>jc_sub = i, jc_role = role, jc_exp = cl_time e + JWT_EXPIRY\<rparr>"
    by (auto simp: create_jwt_token_def split: prod.splits)
  have j: "jwt_secret w1 = Some s" using s(1) by (auto simp: get_jwt_secret_def Let_def split: option.splits if_splits)
  obtain info where i: "create_api_key k e i ''Login'' scopes w1 = (Inr info, w')" "lr_api_key resp = ki_full_key info" "lr_cookie resp = c"
      "lr_user_id resp = i"
    using assms by (auto simp: issue_def c seq_def split: prod.splits sum.splits)
  have k: "jwt_secret (snd (hmac_hash_secret k e x w1)) = jwt_secret w1" for x
    by (auto simp: hmac_hash_secret_def get_hmac_secret_def load_hmac_secret_def Let_def split: option.split)
  have "jwt_secret w' = Some s" "users w' = users w1"
    using i(1) j k [of "cl_secret e"] hmac_tables [of k e "cl_secret e" w1]
    by (auto simp: create_api_key_def tables_def split: prod.splits if_splits)
  then show thesis using that c s(2) j i create_jwt_pair [OF c] by (auto simp: tables_def)
qed

lemma login_result:
  assumes "login k e n p w = (Inr resp, w')" "find (\<lambda>u. us_username u = uname n) (users w) = Some u" "us_active u"
    "argon_verify k (us_pw_hash u) p = Match"
  obtains v where "issue k e (us_id u) (us_username u) (us_role u) (role_to_scopes (us_role u)) v = (Inr resp, w')" "evolves k e w v"
    "local_users v = local_users w" "users v = update_where (\<lambda>q. us_id q = us_id u) (\<lambda>q. q\<lparr>us_last_login := Some (cl_time e)\<rparr>) (users w)"
proof -
  obtain w1 where r: "check_login_rate e w = (Inr (), w1)"
    using assms(1) by (auto simp: login_def seq_def check_login_rate_def Let_def split: if_splits)
  then have t: "tables w1 = tables w" using rate_tables(2) [of e w] by simp
  let ?v = "w1\<lparr>users := update_where (\<lambda>q. us_id q = us_id u) (\<lambda>q. q\<lparr>us_last_login := Some (cl_time e)\<rparr>) (users w1)\<rparr>"
  have a: "authenticate k e n p w1 = (Inr (Some (u\<lparr>us_last_login := Some (cl_time e)\<rparr>)), ?v)"
    using assms(2-4) t by (simp add: authenticate_def tables_def)
  have "evolves k e w ?v"
    using evolves_trans [OF evolves_tables [OF t], of k e ?v] authenticate_evolves [of k e w1 n p] a by simp
  moreover have "issue k e (us_id u) (us_username u) (us_role u) (role_to_scopes (us_role u)) ?v = (Inr resp, w')"
    using assms(1) by (simp add: login_def seq_def r a)
  ultimately show thesis using that t by (simp add: tables_def)
qed

lemma require_admin_by_key:
  "is_auth_enabled k \<Longrightarrow> key \<noteq> [] \<Longrightarrow>
   fst (require_admin k e (by_key key) w) = (case fst (get_current_user k e (by_key key) w) of Inl x \<Rightarrow> Inl x | Inr (u, _) \<Rightarrow> Inr u)"
  by (auto simp: require_admin_def role_required_def by_key_def starts_with_def admin_by_default_def seq_cases split: sum.split)

lemma require_admin_by_cookie:
  assumes "is_auth_enabled k" "c \<noteq> []" "jwt_secret w = Some s" "jwt_decode k s (cl_time e) c = Some cl" "jc_role cl \<noteq> ''admin''"
  shows "fst (require_admin k e (by_cookie c) w) = Inl (Refused 403 ''Insufficient permissions'')"
  using assms
  by (simp add: require_admin_def role_required_def by_cookie_def decode_jwt_token_def get_jwt_secret_def text_or_def role_of_claims_def)

section \<open>A sample service\<close>

definition sample_decode :: "string \<Rightarrow> time \<Rightarrow> string \<Rightarrow> jwt_claims option" where
  "sample_decode _ _ t =
     (case split_on CHR ''|'' t of [a, b] \<Rightarrow> Some \<lparr>jc_sub = a, jc_role = b, jc_exp = seconds 86400\<rparr> | _ \<Rightarrow> None)"

definition sample_encode :: "string \<Rightarrow> jwt_claims \<Rightarrow> string" where
  "sample_encode _ c = jc_sub c @ ''|'' @ jc_role c"

definition sample_verify :: "string option \<Rightarrow> string \<Rightarrow> verdict" where
  "sample_verify h p = (case h of None \<Rightarrow> Unverifiable | Some s \<Rightarrow> if s = p then Match else Mismatch)"

definition second_arg :: "string \<Rightarrow> string \<Rightarrow> string" where
  "second_arg a b = b"

definition same_text :: "string \<Rightarrow> string \<Rightarrow> bool" where
  "same_text a b \<longleftrightarrow> a = b"

definition same :: "string \<Rightarrow> string" where
  "same a = a"

definition sample_loads :: "string \<Rightarrow> string list option" where
  "sample_loads t = Some (split_on CHR '','' t)"

definition keep_all :: "string \<Rightarrow> bool" where
  "keep_all _ = True"

definition sample_service :: auth_library where
  "sample_service = \<lparr>auth_env = None, environment_env = None, debug_mode = False, auth_setting = True, hmac_env = Some ''m'',
     cache_ttl = seconds 300, keystore_set = False, hmac_sha256 = second_arg, sha256_prefix = same, argon_hash = second_arg,
     argon_verify = sample_verify, prepare_password = same, bcrypt_hash = second_arg, bcrypt_check = same_text,
     jwt_encode = sample_encode, jwt_decode = sample_decode, dumps_scopes = join '','', loads_scopes = sample_loads\<rparr>"

definition sample_call_at :: "time \<Rightarrow> string \<Rightarrow> auth_call" where
  "sample_call_at t i = \<lparr>cl_time = t, cl_host = None, cl_uuid = i, cl_salt = [], cl_key_id = i, cl_secret = ''s'', cl_hex = ''h'',
     cl_disk = True, cl_linkable = True, cl_kept = keep_all, cl_me = MeUnreachable, cl_gateway = GatewayUnreachable,
     cl_market = MarketUnreachable\<rparr>"

definition admin_user :: authenticated_user where
  "admin_user = \<lparr>au_user_id = ''a'', au_key_id = ''a'', au_scopes = admin_scopes, au_balance = Some 0, au_trial = Some 0\<rparr>"

text \<open>The administrator sets the service up and creates a user, who logs in and uses the key.\<close>

definition sample_history :: "auth_op list" where
  "sample_history =
     [Setup (sample_call_at 0 ''a'') ''root'' ''password'',
      Authenticated (sample_call_at 0 ''b'') (by_key ''vz_a_s'') (CreateUser ''user'' ''password'' ''user'' None),
      Login (sample_call_at 0 ''k'') ''user'' ''password'',
      WebSocket (sample_call_at 0 ''x'') (Some ''vz_k_s'')]"

definition sample_auth :: auth_state where
  "sample_auth = foldl (auth_step sample_service) (new_install sample_service) sample_history"


lemma run_auth_ok: "auth_ok (foldl (auth_step k) (new_install k) ops)"
  by (rule revoked.run_ok) (rule new_install_ok)

lemma sample_auth_run: "foldl (auth_step sample_service) (new_install sample_service) sample_history = sample_auth"
  by (simp add: sample_auth_def)

lemma sample_enabled: "is_auth_enabled sample_service"
  by code_simp

definition owns_key :: "string \<Rightarrow> string \<Rightarrow> auth_state \<Rightarrow> bool" where
  "owns_key i j w \<longleftrightarrow> (\<exists>r \<in> set (api_keys w). lk_key_id r = j \<and> lk_user_id r = i)"

lemma owns_key_ids: "owns_key i j w \<longleftrightarrow> (j, i) \<in> set (map (\<lambda>r. (lk_key_id r, lk_user_id r)) (api_keys w))"
  by (auto simp: owns_key_def)

lemma owns_key_evolves: "owns_key i j w \<Longrightarrow> evolves k e w w' \<Longrightarrow> owns_key i j w'"
proof -
  assume o: "owns_key i j w" and "evolves k e w w'"
  then obtain ys where y: "map key_core (api_keys w') = map key_core (api_keys w) @ ys" by (auto simp: evolves_def)
  have f: "(\<lambda>r. (lk_key_id r, lk_user_id r)) = (\<lambda>c. (fst c, fst (snd c))) \<circ> key_core" by (auto simp: key_core_def)
  have "map (\<lambda>r. (lk_key_id r, lk_user_id r)) (api_keys w') =
     map (\<lambda>r. (lk_key_id r, lk_user_id r)) (api_keys w) @ map (\<lambda>c. (fst c, fst (snd c))) ys"
    unfolding f map_map [symmetric] y by simp
  then show ?thesis using o by (simp add: owns_key_ids)
qed

lemma owns_key_step: "owns_key i j w \<Longrightarrow> owns_key i j (auth_step k w a)"
proof (cases rule: auth_step_cases [of k w a])
  case (revokes e n u v)
  assume "owns_key i j w"
  then show ?thesis using owns_key_evolves [OF _ revokes(1)] revokes(2)
    by (simp add: owns_key_ids revoked_state_def forget_key_def map_update_where_key del: set_map list.set_map)
next
  case (deactivates e n us v)
  assume "owns_key i j w"
  then show ?thesis using owns_key_evolves [OF _ deactivates(1)] deactivates(3)
    by (simp add: owns_key_ids deactivate_local_def)
qed (rule owns_key_evolves)

lemma owns_key_run: "owns_key i j w \<Longrightarrow> owns_key i j (foldl (auth_step k) w ops)"
  by (induction ops arbitrary: w) (auto intro: owns_key_step)

lemma deactivate_then:
  assumes "fst (deactivate_user i u w) = Inr ()"
  obtains us where "snd (deactivate_user i u w) = deactivate_local i (w\<lparr>users := us\<rparr>)"
  using deactivate_result [of i u w] assms by auto

section \<open>Properties\<close>

text \<open>C8: A revoked key is out for good. Whatever the service did before, once an owner has revoked a key
  no sequence of operations, not even a restart, makes the key authenticate again: a request that offers
  it is refused with 401, and a connection with it is refused, also when the key was in the cache of
  validated keys at the moment of the revocation.\<close>

theorem revoked_key_locked_out:
  assumes "is_auth_enabled k" "w = foldl (auth_step k) (new_install k) ops" "fst (revoke_key e i u w) = Inr ()"
    "parse_local_key key = Some (i, c)"
  shows "fst (get_current_user k e' (by_key key) (foldl (auth_step k) (snd (revoke_key e i u w)) ops')) =
      Inl (Refused 401 ''Invalid API Key.'') \<and>
    fst (get_current_user_ws k e' (Some key) (foldl (auth_step k) (snd (revoke_key e i u w)) ops')) = None"
proof -
  have ok: "auth_ok w" unfolding assms(2) by (rule run_auth_ok)
  have "revoke_key e i u w = (Inr (), snd (revoke_key e i u w))" using assms(3) by (metis prod.collapse)
  note r = revoke_then [OF ok this]
  have "refuses_key k i (cl_time e') (foldl (auth_step k) (snd (revoke_key e i u w)) ops')"
    by (rule revoked.locked_out [OF r])
  then show ?thesis using refused_by_key [OF assms(1) _ assms(4)] by blast
qed

definition plain_user :: authenticated_user where
  "plain_user = \<lparr>au_user_id = ''b'', au_key_id = ''k'', au_scopes = default_scopes, au_balance = Some 0, au_trial = Some 0\<rparr>"

theorem revoked_key_locked_out_witness:
  "cache_get 5 ''vz_k_s'' sample_auth = Some plain_user \<and>
   fst (get_current_user_ws sample_service (sample_call_at 6 ''z'') (Some ''vz_k_s'')
     (foldl (auth_step sample_service) (snd (revoke_key (sample_call_at 5 ''y'') ''k'' plain_user sample_auth)) [Restart])) = None"
proof -
  have "fst (revoke_key (sample_call_at 5 ''y'') ''k'' plain_user sample_auth) = Inr ()" by code_simp
  moreover have "parse_local_key ''vz_k_s'' = Some (''k'', ''s'')" by code_simp
  moreover have "cache_get 5 ''vz_k_s'' sample_auth = Some plain_user" by code_simp
  ultimately show ?thesis
    using revoked_key_locked_out [OF sample_enabled sample_auth_run [symmetric], of "sample_call_at 5 ''y''" "''k''" plain_user
        "''vz_k_s''" "''s''" "sample_call_at 6 ''z''" "[Restart]"] by blast
qed

text \<open>C38: Deactivating a user takes effect with a delay. The administrator's call leaves the cache of validated keys
  alone, so that a cached key of the user is accepted until its entry expires; but when the time to live
  has passed since the last call before it, every key of the user is refused, and stays refused whatever
  happens, for none of the operations activates a local account again.\<close>

theorem deactivation_takes_effect:
  assumes "is_auth_enabled k" "w = foldl (auth_step k) (new_install k) ops"
    "\<forall>a \<in> set ops. \<forall>f. call_of a = Some f \<longrightarrow> cl_time f \<le> t"
    "fst (deactivate_user i u w) = Inr ()" "local_user_of i w = Some l" "owns_key i j w" "parse_local_key key = Some (j, c)"
  shows "(cache_get (cl_time e) key w = Some v \<longrightarrow>
      fst (get_current_user k e (by_key key) (snd (deactivate_user i u w))) = Inr (v, None)) \<and>
    (t + cache_ttl k \<le> cl_time e' \<longrightarrow>
      fst (get_current_user k e' (by_key key) (foldl (auth_step k) (snd (deactivate_user i u w)) ops')) =
        Inl (Refused 401 ''Invalid API Key.''))"
proof (intro conjI impI)
  obtain us where d: "snd (deactivate_user i u w) = deactivate_local i (w\<lparr>users := us\<rparr>)" by (rule deactivate_then [OF assms(4)])
  show "fst (get_current_user k e (by_key key) (snd (deactivate_user i u w))) = Inr (v, None)"
    if "cache_get (cl_time e) key w = Some v"
    using that by (simp add: current_user_by_key [OF assms(1) parse_nonempty [OF assms(7)]] key_user_def cache_get_def d
        deactivate_local_def)
  let ?w = "snd (deactivate_user i u w)"
  have ok: "auth_ok w" unfolding assms(2) by (rule run_auth_ok)
  have "cache_bounded (t + cache_ttl k) w" unfolding assms(2)
    by (rule cache_bounded_run [OF new_install_ok(2)]) (use assms(3) in force)
  then have "user_out (i, t + cache_ttl k) ?w"
    using assms(5) find_in_set [OF assms(5) [unfolded local_user_of_def]]
    by (auto simp: d user_out_def local_inactive_def local_user_deactivate cached_until_def cache_bounded_def)
      (auto simp: local_user_of_def deactivate_local_def)
  moreover have ok': "auth_ok ?w" unfolding d by (rule auth_ok_deactivated [OF ok])
  moreover have "owns_key i j ?w" using assms(6) by (simp add: d owns_key_def deactivate_local_def)
  ultimately have r: "refuses_key k j (t + cache_ttl k) (foldl (auth_step k) ?w ops')"
    using deactivated.locked_out [where k = k and w = ?w and x = "(i, t + cache_ttl k)" and ops = ops'] owns_key_run [of i j ?w k ops']
    by (auto simp: refuses_user_def owns_key_def)
  show "fst (get_current_user k e' (by_key key) (foldl (auth_step k) ?w ops')) = Inl (Refused 401 ''Invalid API Key.'')"
    if "t + cache_ttl k \<le> cl_time e'"
    by (rule refused_by_key(1) [OF assms(1) r assms(7) that])
qed

theorem deactivation_takes_effect_witness:
  "fst (get_current_user sample_service (sample_call_at 5 ''z'') (by_key ''vz_k_s'')
      (snd (deactivate_user ''b'' admin_user sample_auth))) = Inr (plain_user, None) \<and>
   fst (get_current_user sample_service (sample_call_at (seconds 300) ''z'') (by_key ''vz_k_s'')
      (foldl (auth_step sample_service) (snd (deactivate_user ''b'' admin_user sample_auth)) [])) = Inl (Refused 401 ''Invalid API Key.'')"
proof -
  have t: "\<forall>a \<in> set sample_history. \<forall>f. call_of a = Some f \<longrightarrow> cl_time f \<le> 0"
    by (auto simp: sample_history_def call_of_def sample_call_at_def)
  have 1: "fst (deactivate_user ''b'' admin_user sample_auth) = Inr ()" by code_simp
  have 2: "local_user_of ''b'' sample_auth = Some \<lparr>lu_id = ''b'', lu_username = ''user'', lu_password_hash = ''password'',
      lu_role = ''user'', lu_active = True, lu_created = 0\<rparr>" by code_simp
  have 3: "owns_key ''b'' ''k'' sample_auth" "parse_local_key ''vz_k_s'' = Some (''k'', ''s'')" by code_simp+
  have 4: "cache_get (cl_time (sample_call_at 5 ''z'')) ''vz_k_s'' sample_auth = Some plain_user" by code_simp
  have 5: "0 + cache_ttl sample_service \<le> cl_time (sample_call_at (seconds 300) ''z'')" by code_simp
  show ?thesis
    using deactivation_takes_effect [OF sample_enabled sample_auth_run [symmetric] t 1 2 3, where e = "sample_call_at 5 ''z''"
        and v = plain_user and e' = "sample_call_at (seconds 300) ''z''" and ops' = "[]"] 4 5 by blast
qed


text \<open>Also: First-run setup happens at most once. After a successful setup no further one succeeds, in no later
  state of the service, and the service says that none is needed.\<close>

theorem setup_happens_once:
  assumes "w = foldl (auth_step k) (new_install k) ops" "fst (setup_admin k e n p w) = Inr resp"
  shows "(\<exists>x. fst (setup_admin k e' n' p' (foldl (auth_step k) (snd (setup_admin k e n p w)) ops')) = Inl x) \<and>
    \<not> check_setup (foldl (auth_step k) (snd (setup_admin k e n p w)) ops')"
proof -
  have ok: "auth_ok (snd (setup_admin k e n p w))"
    using auth_ok_evolves [OF run_auth_ok setup_evolves] by (simp add: assms(1))
  obtain w1 where r: "check_setup_rate e w = (Inr (), w1)" "first_admin k e n p w1 = (Inr resp, snd (setup_admin k e n p w))"
    using assms(2) by (auto simp: setup_admin_def seq_def split: if_splits prod.splits sum.splits)
      (metis prod.collapse)
  obtain v w2 where u: "create_user_row k e n p ''admin'' (Some (strip n)) w1 = (Some v, w2)"
    using r(2) by (auto simp: first_admin_def split: prod.splits option.splits)
  then have "users w2 \<noteq> []" by (auto simp: create_user_row_def Let_def split: if_splits)
  then have "has_account () w2" by (simp add: has_account_def)
  moreover have "evolves k e w2 (snd (first_admin k e n p w1))"
  proof -
    have "evolves k e u (snd (case create_jwt_token k e i r u of (c, w3) \<Rightarrow> (g c, w3)))" for i r g u
      by (auto dest!: create_jwt_pair dest: evolves_tables split: prod.split)
    then show ?thesis by (auto simp: first_admin_def u evo intro!: evolves_bind)
  qed
  ultimately have "has_account () (snd (setup_admin k e n p w))"
    using has_account_evolves r(2) by force
  then show ?thesis using installed.locked_out [OF ok, of "()" k ops'] by (auto simp: refuses_setup_def)
qed

theorem setup_happens_once_witness:
  "(\<exists>x. fst (setup_admin sample_service (sample_call_at 9 ''q'') ''eve'' ''password''
     (foldl (auth_step sample_service) (snd (setup_admin sample_service (sample_call_at 0 ''a'') ''root'' ''password'' (new_install sample_service)))
       [Restart])) = Inl x)"
proof -
  have "fst (setup_admin sample_service (sample_call_at 0 ''a'') ''root'' ''password'' (new_install sample_service)) =
      Inr \<lparr>lr_user_id = ''a'', lr_username = ''root'', lr_role = ''admin'', lr_api_key = ''vz_a_s'', lr_cookie = ''a|admin''\<rparr>"
    by code_simp
  moreover have "new_install sample_service = foldl (auth_step sample_service) (new_install sample_service) []" by simp
  ultimately show ?thesis
    using setup_happens_once [where k = sample_service and e' = "sample_call_at 9 ''q''" and n' = "''eve''" and p' = "''password''"
        and ops' = "[Restart]"] by blast
qed

text \<open>Also: The key that creation returns is the key that the service then knows. A request with it is authenticated as
  its creator, with exactly the scopes that the creator asked for, whichever scopes the creator has: a
  caller with read access alone can give itself the scope of an administrator. (The hypothesis on the text
  of the scopes is that \<open>json.loads\<close> inverts \<open>json.dumps\<close>.)\<close>

theorem created_key_roundtrip:
  assumes "is_auth_enabled k" "w = foldl (auth_step k) (new_install k) ops" "fst (create_key k e u label scopes w) = Inr info"
    "generated e" "local_user_of (au_user_id u) w = Some l" "lu_active l" "loads_scopes k (dumps_scopes k scopes) = Some scopes"
  shows "\<exists>v. fst (get_current_user k e' (by_key (ki_full_key info)) (snd (create_key k e u label scopes w))) = Inr (v, Some ''admin'') \<and>
    au_user_id v = au_user_id u \<and> au_scopes v = scopes \<and> au_key_id v = ki_key_id info"
proof -
  have c: "create_api_key k e (au_user_id u) label scopes w = (Inr info, snd (create_key k e u label scopes w))"
    using assms(3) by (auto simp: create_key_def split: if_splits) (metis prod.collapse)
  have "auth_ok w" unfolding assms(2) by (rule run_auth_ok)
  moreover have "ki_key_id info = cl_key_id e" by (rule create_api_key_result [OF c])
  ultimately show ?thesis using new_key_accepted [OF assms(1) _ c assms(4-7), of e'] by auto
qed

theorem created_key_roundtrip_witness:
  "\<exists>v. fst (get_current_user sample_service (sample_call_at 6 ''z'') (by_key ''vz_e_s'')
      (snd (create_key sample_service (sample_call_at 5 ''e'') (plain_user\<lparr>au_scopes := [''read'']\<rparr>) ''x'' [''admin''] sample_auth))) =
      Inr (v, Some ''admin'') \<and> au_user_id v = ''b'' \<and> au_scopes v = [''admin'']"
proof -
  have 1: "fst (create_key sample_service (sample_call_at 5 ''e'') (plain_user\<lparr>au_scopes := [''read'']\<rparr>) ''x'' [''admin''] sample_auth) =
      Inr \<lparr>ki_key_id = ''e'', ki_full_key = ''vz_e_s'', ki_label = ''x'', ki_scopes = [''admin''], ki_created = 5\<rparr>" by code_simp
  have 2: "generated (sample_call_at 5 ''e'')" by code_simp
  have 3: "local_user_of (au_user_id (plain_user\<lparr>au_scopes := [''read'']\<rparr>)) sample_auth = Some \<lparr>lu_id = ''b'', lu_username = ''user'',
      lu_password_hash = ''password'', lu_role = ''user'', lu_active = True, lu_created = 0\<rparr>" by code_simp
  have 4: "loads_scopes sample_service (dumps_scopes sample_service [''admin'']) = Some [''admin'']" by code_simp
  show ?thesis
    using created_key_roundtrip [OF sample_enabled sample_auth_run [symmetric] 1 2 3 _ 4, of "sample_call_at 6 ''z''"]
    by (auto simp: plain_user_def)
qed

text \<open>C13: The two credentials of one login disagree about who is an administrator. When a user whose role is not
  \<open>admin\<close> logs in, the session cookie of the response is refused by the dependency that guards the
  administrators' routes, and the API key of the same response is let in by it, although the scopes of
  the key do not contain \<open>admin\<close>. (The hypothesis on the cookie is that the token library decodes what it
  encoded.)\<close>

theorem user_login_passes_admin:
  assumes "is_auth_enabled k" "w = foldl (auth_step k) (new_install k) ops" "fst (login k e n p w) = Inr resp" "generated e"
    "find (\<lambda>u. us_username u = uname n) (users w) = Some u" "us_active u" "argon_verify k (us_pw_hash u) p = Match"
    "us_role u \<noteq> ''admin''" "local_user_of (us_id u) w = Some l" "lu_active l"
    "loads_scopes k (dumps_scopes k default_scopes) = Some default_scopes"
    "\<forall>s. jwt_decode k s (cl_time e') (jwt_encode k s \<lparr>jc_sub = us_id u, jc_role = us_role u, jc_exp = cl_time e + JWT_EXPIRY\<rparr>) =
       Some \<lparr>jc_sub = us_id u, jc_role = us_role u, jc_exp = cl_time e + JWT_EXPIRY\<rparr>"
    "lr_cookie resp \<noteq> []"
  shows "(\<exists>v. fst (require_admin k e' (by_key (lr_api_key resp)) (snd (login k e n p w))) = Inr v \<and> au_user_id v = us_id u \<and>
      ''admin'' \<notin> set (au_scopes v)) \<and>
    fst (require_admin k e' (by_cookie (lr_cookie resp)) (snd (login k e n p w))) = Inl (Refused 403 ''Insufficient permissions'')"
proof -
  let ?w = "snd (login k e n p w)"
  have "login k e n p w = (Inr resp, ?w)" using assms(3) by (metis prod.collapse)
  then obtain v where v: "issue k e (us_id u) (us_username u) (us_role u) (role_to_scopes (us_role u)) v = (Inr resp, ?w)"
      "evolves k e w v" "local_users v = local_users w"
    using login_result [OF _ assms(5-7)] by metis
  obtain s w1 info where i: "create_jwt_token k e (us_id u) (us_role u) v = (lr_cookie resp, w1)"
      "lr_cookie resp = jwt_encode k s \<lparr>jc_sub = us_id u, jc_role = us_role u, jc_exp = cl_time e + JWT_EXPIRY\<rparr>"
      "create_api_key k e (us_id u) ''Login'' default_scopes w1 = (Inr info, ?w)" "lr_api_key resp = ki_full_key info"
      "jwt_secret ?w = Some s"
    using issue_result [OF v(1)] assms(8) unfolding role_to_scopes_def if_not_P [OF assms(8)] by metis
  have t: "tables w1 = tables v" by (rule create_jwt_pair [OF i(1)])
  have ok: "auth_ok w1"
    using auth_ok_evolves [OF run_auth_ok v(2) [unfolded assms(2)]] auth_ok_evolves evolves_tables [OF t] by blast
  have l: "local_user_of (us_id u) w1 = Some l" using assms(9) t v(3) by (simp add: tables_def local_user_of_def)
  note a = new_key_accepted [OF assms(1) ok i(3) assms(4) l assms(10,11), of e']
  have "ki_full_key info \<noteq> []" using parse_nonempty [OF new_key_validates(1) [OF ok i(3) assms(4) l assms(10,11)]] .
  then show ?thesis
    using require_admin_by_cookie [OF assms(1,13) i(5), of e'] assms(8,12)
    by (simp add: i(4) require_admin_by_key [OF assms(1)] a i(2) default_scopes_def)
qed

theorem user_login_passes_admin_witness:
  "\<exists>v. fst (require_admin sample_service (sample_call_at 6 ''z'') (by_key ''vz_n_s'')
      (snd (login sample_service (sample_call_at 0 ''n'') ''User '' ''password'' sample_auth))) = Inr v \<and> ''admin'' \<notin> set (au_scopes v)"
proof -
  let ?u = "\<lparr>us_id = ''b'', us_username = ''user'', us_display_name = Some ''user'', us_pw_hash = Some ''password'', us_aim_id = None,
      us_role = ''user'', us_active = True, us_created = 0, us_last_login = Some 0\<rparr>"
  have 1: "fst (login sample_service (sample_call_at 0 ''n'') ''User '' ''password'' sample_auth) =
      Inr \<lparr>lr_user_id = ''b'', lr_username = ''user'', lr_role = ''user'', lr_api_key = ''vz_n_s'', lr_cookie = ''b|user''\<rparr>" by code_simp
  have 2: "generated (sample_call_at 0 ''n'')" by code_simp
  have 3: "find (\<lambda>u. us_username u = uname ''User '') (users sample_auth) = Some ?u" by code_simp
  have 4: "argon_verify sample_service (us_pw_hash ?u) ''password'' = Match" by code_simp
  have 5: "local_user_of (us_id ?u) sample_auth = Some \<lparr>lu_id = ''b'', lu_username = ''user'',
      lu_password_hash = ''password'', lu_role = ''user'', lu_active = True, lu_created = 0\<rparr>" by code_simp
  have 6: "loads_scopes sample_service (dumps_scopes sample_service default_scopes) = Some default_scopes" by code_simp
  have 7: "\<forall>s. jwt_decode sample_service s (cl_time (sample_call_at 6 ''z''))
      (jwt_encode sample_service s \<lparr>jc_sub = us_id ?u, jc_role = us_role ?u, jc_exp = cl_time (sample_call_at 0 ''n'') + JWT_EXPIRY\<rparr>) =
       Some \<lparr>jc_sub = us_id ?u, jc_role = us_role ?u, jc_exp = cl_time (sample_call_at 0 ''n'') + JWT_EXPIRY\<rparr>"
    by (simp add: sample_service_def sample_encode_def sample_decode_def sample_call_at_def JWT_EXPIRY_def seconds_def)
  show ?thesis
    using user_login_passes_admin [OF sample_enabled sample_auth_run [symmetric] 1 2 3 _ 4 _ 5 _ 6 7] by auto
qed

end
