(* ===== verification/Chat_History.thy ===== *)
theory Chat_History
  imports Prelude
begin

text \<open>
  The assistant's conversations: the tables of \<open>app/models/state.py\<close>, the persistence helpers, the turn of a
  conversation and the history endpoints of \<open>app/routers/copilot.py\<close>, and the service of
  \<open>app/services/session_service.py\<close>. Clock readings and generated identifiers are arguments; rows with
  equal times come in the order of their insertion.
\<close>

section \<open>Tables\<close>

datatype message_role = UserRole | AssistantRole | SystemRole

datatype message_kind = ChatKind | NudgeKind | SystemKind

record usage =
  input_tokens :: int
  output_tokens :: int
  cost_cents :: int
  usage_model :: string

record chat_session =
  cs_id :: string
  cs_user :: "string option"
  cs_title :: "string option"
  cs_archived :: bool
  cs_count :: int
  cs_dataset :: "string option"
  cs_created :: time
  cs_updated :: time

record chat_message =
  cm_session :: string
  cm_role :: message_role
  cm_content :: string
  cm_kind :: message_kind
  cm_client_id :: "string option"
  cm_tokens :: "int option"
  cm_usage :: "usage option"
  cm_created :: time

record chat_db =
  chat_sessions :: "chat_session list"
  chat_messages :: "chat_message list"

definition empty_db :: chat_db where
  "empty_db = \<lparr>chat_sessions = [], chat_messages = []\<rparr>"

definition session_row :: "time \<Rightarrow> string \<Rightarrow> string option \<Rightarrow> string option \<Rightarrow> string option \<Rightarrow> chat_session" where
  "session_row now i user title ds = \<lparr>cs_id = i, cs_user = user, cs_title = title, cs_archived = False, cs_count = 0,
     cs_dataset = ds, cs_created = now, cs_updated = now\<rparr>"

definition find_session :: "string \<Rightarrow> chat_db \<Rightarrow> chat_session option" where
  "find_session i db = find (\<lambda>s. cs_id s = i) (chat_sessions db)"

text \<open>\<open>SELECT \<dots> ORDER BY created_at\<close> and \<open>ORDER BY \<dots> DESC\<close>.\<close>

definition messages_of :: "string \<Rightarrow> chat_db \<Rightarrow> chat_message list" where
  "messages_of i db = sort_key cm_created (filter (\<lambda>m. cm_session m = i) (chat_messages db))"

definition newest_first :: "('a \<Rightarrow> time) \<Rightarrow> 'a list \<Rightarrow> 'a list" where
  "newest_first f xs = sort_key (\<lambda>x. - f x) xs"

section \<open>Persistence of the conversation\<close>

text \<open>The current session of a user: the newest that is not archived, or a new one.\<close>

definition current_session :: "string \<Rightarrow> chat_db \<Rightarrow> chat_session option" where
  "current_session user db =
     (case newest_first cs_created (filter (\<lambda>s. cs_user s = Some user \<and> \<not> cs_archived s) (chat_sessions db)) of
        [] \<Rightarrow> None
      | s # _ \<Rightarrow> Some s)"

definition get_or_create_chat_session :: "time \<Rightarrow> string \<Rightarrow> string \<Rightarrow> chat_db \<Rightarrow> string \<times> chat_db" where
  "get_or_create_chat_session now i user db =
     (case current_session user db of
        Some s \<Rightarrow> (cs_id s, db)
      | None \<Rightarrow> (i, db\<lparr>chat_sessions := chat_sessions db @ [session_row now i (Some user) (Some ''Allie Chat'') None]\<rparr>))"

datatype chat_exn = IntegrityError | NotFound

definition new_message :: "time \<Rightarrow> string \<Rightarrow> message_role \<Rightarrow> message_kind \<Rightarrow> string \<Rightarrow> string option \<Rightarrow> usage option \<Rightarrow> chat_message" where
  "new_message now i role kind content cid u = \<lparr>cm_session = i, cm_role = role, cm_content = content, cm_kind = kind,
     cm_client_id = cid, cm_tokens = None, cm_usage = u, cm_created = now\<rparr>"

definition taken :: "string \<Rightarrow> string option \<Rightarrow> chat_db \<Rightarrow> bool" where
  "taken i cid db \<longleftrightarrow> cid \<noteq> None \<and> (\<exists>m \<in> set (chat_messages db). cm_session m = i \<and> cm_client_id m = cid)"

definition bump_count :: "string \<Rightarrow> int \<Rightarrow> chat_session list \<Rightarrow> chat_session list" where
  "bump_count i n = update_where (\<lambda>s. cs_id s = i) (\<lambda>s. s\<lparr>cs_count := cs_count s + n\<rparr>)"

text \<open>The index on session and client id is unique; a violation rolls the insertion back.\<close>

definition persist_message :: "chat_message \<Rightarrow> (chat_db, chat_exn, unit) meth" where
  "persist_message m db =
     (if taken (cm_session m) (cm_client_id m) db then (Inl IntegrityError, db)
      else (Inr (), db\<lparr>chat_messages := chat_messages db @ [m], chat_sessions := bump_count (cm_session m) 1 (chat_sessions db)\<rparr>))"

definition persist_messages_atomic :: "time \<Rightarrow> string \<Rightarrow> string \<Rightarrow> string \<Rightarrow> string option \<Rightarrow> usage option \<Rightarrow> (chat_db, chat_exn, unit) meth" where
  "persist_messages_atomic now i question answer cid u db =
     (if taken i cid db then (Inl IntegrityError, db)
      else (Inr (), db\<lparr>chat_messages := chat_messages db @
              [new_message now i UserRole ChatKind question cid None, new_message now i AssistantRole ChatKind answer None u],
            chat_sessions := bump_count i 2 (chat_sessions db)\<rparr>))"

section \<open>One turn\<close>

text \<open>\<open>client_message_id\<close> counts when it is a nonempty text.\<close>

definition persist_user_message :: "time \<Rightarrow> string \<Rightarrow> string \<Rightarrow> string \<Rightarrow> string option \<Rightarrow> chat_db \<Rightarrow> chat_db" where
  "persist_user_message now i user text cid db =
     (case get_or_create_chat_session now i user db of (j, db1) \<Rightarrow>
        if truthy cid then
          (if taken j cid db1 then db1 else snd (persist_message (new_message now j UserRole ChatKind text cid None) db1))
        else snd (persist_message (new_message now j UserRole ChatKind text None None) db1))"

definition last_n :: "nat \<Rightarrow> 'a list \<Rightarrow> 'a list" where
  "last_n n xs = drop (length xs - n) xs"

definition load_chat_history :: "time \<Rightarrow> string \<Rightarrow> string \<Rightarrow> chat_db \<Rightarrow> (message_role \<times> string) list \<times> chat_db" where
  "load_chat_history now i user db =
     (case get_or_create_chat_session now i user db of (j, db1) \<Rightarrow>
        let recent = map (\<lambda>m. (cm_role m, cm_content m)) (last_n 21 (filter (\<lambda>m. cm_kind m = ChatKind) (messages_of j db1)));
            h = (if recent \<noteq> [] \<and> fst (last recent) = UserRole then butlast recent else recent)
        in (last_n 20 h, db1))"

text \<open>What a question does before the model is called: the history is what the model gets with the text.\<close>

definition ask :: "time \<Rightarrow> string \<Rightarrow> string \<Rightarrow> string \<Rightarrow> string option \<Rightarrow> chat_db \<Rightarrow> (message_role \<times> string) list \<times> chat_db" where
  "ask now i user text cid db = load_chat_history now i user (persist_user_message now i user text cid db)"

text \<open>What the answer, which arrives later, is stored as.\<close>

definition answer :: "time \<Rightarrow> string \<Rightarrow> string \<Rightarrow> string \<Rightarrow> usage option \<Rightarrow> chat_db \<Rightarrow> chat_db" where
  "answer now i user text u db =
     (case get_or_create_chat_session now i user db of (j, db1) \<Rightarrow>
        snd (persist_message (new_message now j AssistantRole ChatKind text None u) db1))"

definition nudge_sent :: "time \<Rightarrow> string \<Rightarrow> string \<Rightarrow> string \<Rightarrow> chat_db \<Rightarrow> chat_db" where
  "nudge_sent now i user text db =
     (case get_or_create_chat_session now i user db of (j, db1) \<Rightarrow>
        snd (persist_message (new_message now j SystemRole NudgeKind text None None) db1))"

section \<open>The history endpoints\<close>

definition create_chat_session :: "time \<Rightarrow> string \<Rightarrow> string \<Rightarrow> string option \<Rightarrow> string option \<Rightarrow> chat_db \<Rightarrow> chat_session \<times> chat_db" where
  "create_chat_session now i user title ds db =
     (let s = session_row now i (Some user) (if truthy title then title else Some ''Allie Chat'') ds
      in (s, db\<lparr>chat_sessions := chat_sessions db @ [s]\<rparr>))"

definition list_chat_sessions :: "nat \<Rightarrow> string \<Rightarrow> chat_db \<Rightarrow> chat_session list" where
  "list_chat_sessions limit user db =
     take limit (newest_first cs_updated (filter (\<lambda>s. cs_user s = Some user \<and> \<not> cs_archived s) (chat_sessions db)))"

definition get_current_session_messages :: "nat \<Rightarrow> string \<Rightarrow> chat_db \<Rightarrow> chat_message list" where
  "get_current_session_messages limit user db =
     (case current_session user db of None \<Rightarrow> [] | Some s \<Rightarrow> take limit (messages_of (cs_id s) db))"

definition get_session_messages :: "nat \<Rightarrow> string option \<Rightarrow> string \<Rightarrow> chat_db \<Rightarrow> chat_exn + chat_message list" where
  "get_session_messages limit i user db =
     (case i of
        None \<Rightarrow> Inl NotFound
      | Some i \<Rightarrow>
          (case find_session i db of
             None \<Rightarrow> Inl NotFound
           | Some s \<Rightarrow> if cs_user s \<noteq> Some user then Inl NotFound else Inr (take limit (messages_of (cs_id s) db))))"

section \<open>The session service\<close>

definition sv_create_session :: "time \<Rightarrow> string \<Rightarrow> string option \<Rightarrow> string option \<Rightarrow> chat_db \<Rightarrow> chat_session \<times> chat_db" where
  "sv_create_session now i title ds db =
     (let s = session_row now i None title ds in (s, db\<lparr>chat_sessions := chat_sessions db @ [s]\<rparr>))"

definition sv_list_sessions :: "bool \<Rightarrow> nat \<Rightarrow> nat \<Rightarrow> chat_db \<Rightarrow> chat_session list" where
  "sv_list_sessions archived limit offset db =
     take limit (drop offset (newest_first cs_updated (filter (\<lambda>s. archived \<or> \<not> cs_archived s) (chat_sessions db))))"

definition rewrite_session :: "string \<Rightarrow> (chat_session \<Rightarrow> chat_session) \<Rightarrow> chat_db \<Rightarrow> chat_db" where
  "rewrite_session i f db = db\<lparr>chat_sessions := update_where (\<lambda>s. cs_id s = i) f (chat_sessions db)\<rparr>"

definition sv_update_session :: "time \<Rightarrow> string \<Rightarrow> string option \<Rightarrow> bool option \<Rightarrow> chat_db \<Rightarrow> chat_session option \<times> chat_db" where
  "sv_update_session now i title archived db =
     (case find_session i db of
        None \<Rightarrow> (None, db)
      | Some s \<Rightarrow>
          (let f = (\<lambda>s. s\<lparr>cs_title := (case title of None \<Rightarrow> cs_title s | Some t \<Rightarrow> Some t),
                       cs_archived := (case archived of None \<Rightarrow> cs_archived s | Some a \<Rightarrow> a), cs_updated := now\<rparr>)
           in (Some (f s), rewrite_session i f db)))"

definition sv_delete_session :: "time \<Rightarrow> string \<Rightarrow> bool \<Rightarrow> chat_db \<Rightarrow> bool \<times> chat_db" where
  "sv_delete_session now i hard db =
     (if find_session i db = None then (False, db)
      else (True,
        if hard then db\<lparr>chat_sessions := filter (\<lambda>s. cs_id s \<noteq> i) (chat_sessions db),
                        chat_messages := filter (\<lambda>m. cm_session m \<noteq> i) (chat_messages db)\<rparr>
        else rewrite_session i (\<lambda>s. s\<lparr>cs_archived := True, cs_updated := now\<rparr>) db))"

definition first_line :: "string \<Rightarrow> string" where
  "first_line content = hd (split_on (CHR 0x0A) (strip content))"

definition auto_title :: "string \<Rightarrow> string" where
  "auto_title content = (let l = first_line content in if length l > 50 then take 50 l @ ''...'' else l)"

definition sv_add_message :: "time \<Rightarrow> string \<Rightarrow> message_role \<Rightarrow> string \<Rightarrow> int option \<Rightarrow> (chat_db, chat_exn, chat_message) meth" where
  "sv_add_message now i role content tokens db =
     (if find_session i db = None then (Inl NotFound, db)
      else let m = (new_message now i role ChatKind content None None)\<lparr>cm_tokens := tokens\<rparr>;
               f = (\<lambda>s. s\<lparr>cs_count := cs_count s + 1, cs_updated := now,
                        cs_title := (if \<not> truthy (cs_title s) \<and> role = UserRole then Some (auto_title content) else cs_title s)\<rparr>)
           in (Inr m, (rewrite_session i f db)\<lparr>chat_messages := chat_messages db @ [m]\<rparr>))"

definition sv_get_messages :: "string \<Rightarrow> nat \<Rightarrow> nat \<Rightarrow> chat_db \<Rightarrow> chat_message list" where
  "sv_get_messages i limit offset db = take limit (drop offset (messages_of i db))"

definition tokens_of :: "chat_message \<Rightarrow> int" where
  "tokens_of m = (case cm_tokens m of None \<Rightarrow> 0 | Some n \<Rightarrow> n)"

definition sv_count_tokens :: "string \<Rightarrow> chat_db \<Rightarrow> int" where
  "sv_count_tokens i db = sum_list (map tokens_of (filter (\<lambda>m. cm_session m = i) (chat_messages db)))"

fun take_budget :: "int \<Rightarrow> int \<Rightarrow> chat_message list \<Rightarrow> chat_message list" where
  "take_budget budget used [] = []"
| "take_budget budget used (m # ms) =
     (if used + tokens_of m \<le> budget then m # take_budget budget (used + tokens_of m) ms else [])"

definition sv_get_recent_context :: "string \<Rightarrow> int \<Rightarrow> chat_db \<Rightarrow> chat_message list" where
  "sv_get_recent_context i budget db =
     rev (take_budget budget 0 (newest_first cm_created (filter (\<lambda>m. cm_session m = i) (chat_messages db))))"


section \<open>Sorting by time\<close>

lemma insort_key_snoc: "f a \<le> f x \<Longrightarrow> insort_key f a (ys @ [x]) = insort_key f a ys @ [x]"
  by (induction ys) auto

lemma sort_key_snoc: "\<forall>y \<in> set ys. f y \<le> f x \<Longrightarrow> sort_key f (ys @ [x]) = sort_key f ys @ [x]"
  by (induction ys) (auto simp: insort_key_snoc)

lemma sort_key_snoc_front:
  "\<forall>y \<in> set ys. f x < f y \<Longrightarrow> sort_key f (ys @ [x]) = x # sort_key f (ys :: 'a list)" for f :: "'a \<Rightarrow> int"
  by (induction ys) auto

lemma messages_append:
  "\<forall>y \<in> set (chat_messages db). cm_created y \<le> cm_created m \<Longrightarrow>
   messages_of i (db\<lparr>chat_messages := chat_messages db @ [m], chat_sessions := ss\<rparr>) =
   (if cm_session m = i then messages_of i db @ [m] else messages_of i db)"
  by (auto simp: messages_of_def intro!: sort_key_snoc)

section \<open>The current session\<close>

lemma newest_first_hd: "newest_first f (s # xs) \<noteq> []"
  using set_sort [of "\<lambda>x. - f x" "s # xs"] unfolding newest_first_def by (metis list.set_intros(1) empty_iff list.set(1))

lemma current_session_in:
  assumes "current_session user db = Some s"
  shows "s \<in> set (chat_sessions db)" "cs_user s = Some user" "\<not> cs_archived s"
proof -
  have "s \<in> set (newest_first cs_created (filter (\<lambda>s. cs_user s = Some user \<and> \<not> cs_archived s) (chat_sessions db)))"
    using assms by (auto simp: current_session_def split: list.splits)
  then show "s \<in> set (chat_sessions db)" "cs_user s = Some user" "\<not> cs_archived s"
    by (auto simp: newest_first_def)
qed

text \<open>Counting a message changes neither which session is the current one nor whose it is.\<close>

lemma insort_map: "(\<And>x. f (g x) = f x) \<Longrightarrow> insort_key f (g a) (map g xs) = map g (insort_key f a xs)"
  by (induction xs) auto

lemma sort_key_map: "(\<And>x. f (g x) = f x) \<Longrightarrow> sort_key f (map g xs) = map g (sort_key f xs)"
  by (induction xs) (simp_all add: insort_map)

definition counted :: "string \<Rightarrow> int \<Rightarrow> chat_session \<Rightarrow> chat_session" where
  "counted i n s = (if cs_id s = i then s\<lparr>cs_count := cs_count s + n\<rparr> else s)"

lemma counted_simps [simp]:
  "cs_id (counted i n s) = cs_id s" "cs_user (counted i n s) = cs_user s" "cs_archived (counted i n s) = cs_archived s"
  "cs_created (counted i n s) = cs_created s"
  by (simp_all add: counted_def)

lemma bump_count_map: "bump_count i n ss = map (counted i n) ss"
  by (simp add: bump_count_def update_where_def counted_def)

lemma current_session_bump:
  "current_session user (db\<lparr>chat_messages := ms, chat_sessions := bump_count i n (chat_sessions db)\<rparr>) =
   map_option (counted i n) (current_session user db)"
proof -
  have "filter P (map (counted i n) ss) = map (counted i n) (filter P ss)"
    if "\<And>s. P (counted i n s) = P s" for P and ss
    using that by (induction ss) auto
  then have "newest_first cs_created (filter (\<lambda>s. cs_user s = Some user \<and> \<not> cs_archived s) (map (counted i n) (chat_sessions db))) =
      map (counted i n) (newest_first cs_created (filter (\<lambda>s. cs_user s = Some user \<and> \<not> cs_archived s) (chat_sessions db)))"
    by (simp add: newest_first_def sort_key_map)
  then show ?thesis by (auto simp: current_session_def bump_count_map split: list.split)
qed

text \<open>Which session a message goes to, and the database with that session in place.\<close>

definition home :: "string \<Rightarrow> string \<Rightarrow> chat_db \<Rightarrow> string" where
  "home i user db = (case current_session user db of None \<Rightarrow> i | Some s \<Rightarrow> cs_id s)"

lemma home_here: "fst (get_or_create_chat_session now i user db) = home i user db"
  by (simp add: get_or_create_chat_session_def home_def split: option.split)

lemma create_current:
  assumes "get_or_create_chat_session now i user db = (j, db1)"
  shows "\<exists>s. current_session user db1 = Some s \<and> cs_id s = j" "chat_messages db1 = chat_messages db" "j = home i user db"
proof -
  show "chat_messages db1 = chat_messages db" "j = home i user db"
    using assms home_here [of now i user db] by (auto simp: get_or_create_chat_session_def split: option.splits)
  show "\<exists>s. current_session user db1 = Some s \<and> cs_id s = j"
  proof (cases "current_session user db")
    case None
    then have "filter (\<lambda>s. cs_user s = Some user \<and> \<not> cs_archived s) (chat_sessions db) = []"
      by (cases "filter (\<lambda>s. cs_user s = Some user \<and> \<not> cs_archived s) (chat_sessions db)")
        (auto simp: current_session_def newest_first_hd split: list.splits)
    then show ?thesis using None assms
      by (auto simp: get_or_create_chat_session_def current_session_def session_row_def newest_first_def)
  next
    case (Some s)
    then show ?thesis using assms by (auto simp: get_or_create_chat_session_def)
  qed
qed

lemma get_again:
  "current_session user db = Some s \<Longrightarrow> get_or_create_chat_session now i user db = (cs_id s, db)"
  by (simp add: get_or_create_chat_session_def)

definition client_key :: "string option \<Rightarrow> string option" where
  "client_key cid = (if truthy cid then cid else None)"

text \<open>The question is stored in the current session, unless its client id is known there.\<close>

lemma new_message_simps [simp]:
  "cm_session (new_message now i r n t c u) = i" "cm_client_id (new_message now i r n t c u) = c"
  "cm_role (new_message now i r n t c u) = r" "cm_content (new_message now i r n t c u) = t"
  "cm_kind (new_message now i r n t c u) = n" "cm_created (new_message now i r n t c u) = now"
  by (simp_all add: new_message_def)

lemma not_taken_None [simp]: "\<not> taken i None db"
  by (simp add: taken_def)

lemma persist_user_eq:
  assumes "get_or_create_chat_session now i user db = (j, db1)"
  shows "persist_user_message now i user t cid db =
    (if taken j (client_key cid) db1 then db1
     else db1\<lparr>chat_messages := chat_messages db1 @ [new_message now j UserRole ChatKind t (client_key cid) None],
             chat_sessions := bump_count j 1 (chat_sessions db1)\<rparr>)"
  by (simp add: persist_user_message_def assms client_key_def persist_message_def)

lemma persist_user_cases:
  obtains (stored) db1 where "get_or_create_chat_session now i user db = (home i user db, db1)"
      "\<not> taken (home i user db) (client_key cid) db1"
      "persist_user_message now i user t cid db =
         db1\<lparr>chat_messages := chat_messages db1 @ [new_message now (home i user db) UserRole ChatKind t (client_key cid) None],
             chat_sessions := bump_count (home i user db) 1 (chat_sessions db1)\<rparr>"
  | (known) db1 where "get_or_create_chat_session now i user db = (home i user db, db1)"
      "taken (home i user db) (client_key cid) db1" "persist_user_message now i user t cid db = db1"
proof -
  obtain j db1 where g: "get_or_create_chat_session now i user db = (j, db1)" by force
  have j: "j = home i user db" using create_current [OF g] by simp
  note e = persist_user_eq [OF g, of t cid]
  show thesis
  proof (cases "taken j (client_key cid) db1")
    case True
    then show thesis using known [of db1] g e unfolding j by simp
  next
    case False
    then show thesis using stored [of db1] g e unfolding j by simp
  qed
qed

lemma persist_user_current:
  "\<exists>s. current_session user (persist_user_message now i user t cid db) = Some s \<and> cs_id s = home i user db"
proof (cases rule: persist_user_cases [of now i user db cid t])
  case (stored db1)
  then show ?thesis using create_current(1) [OF stored(1)] by (auto simp: stored(3) current_session_bump)
next
  case (known db1)
  then show ?thesis using create_current(1) [OF known(1)] by (simp only: known(3))
qed

definition history_of :: "chat_message list \<Rightarrow> (message_role \<times> string) list" where
  "history_of ms = map (\<lambda>m. (cm_role m, cm_content m)) (filter (\<lambda>m. cm_kind m = ChatKind) ms)"

lemma last_n_map: "last_n n (map f xs) = map f (last_n n xs)"
  by (simp add: last_n_def drop_map)

lemma last_n_snoc: "last_n (Suc n) (xs @ [x]) = last_n n xs @ [x]"
  by (simp add: last_n_def)

lemma last_n_last_n: "m \<le> n \<Longrightarrow> last_n m (last_n n xs) = last_n m xs"
  by (cases "n \<le> length xs") (simp_all add: last_n_def)

lemma ask_result:
  "ask now i user text cid db =
    (let db' = persist_user_message now i user text cid db;
         r = last_n 21 (history_of (messages_of (home i user db) db'));
         h = (if r \<noteq> [] \<and> fst (last r) = UserRole then butlast r else r)
     in (last_n 20 h, db'))"
proof -
  obtain s where s: "current_session user (persist_user_message now i user text cid db) = Some s" "cs_id s = home i user db"
    using persist_user_current by blast
  show ?thesis
    by (simp add: ask_def load_chat_history_def get_again [OF s(1)] s(2) Let_def history_of_def last_n_map)
qed


section \<open>The context window\<close>

text \<open>The reference: drop messages from the front until the rest fits.\<close>

fun longest_fit :: "int \<Rightarrow> chat_message list \<Rightarrow> chat_message list" where
  "longest_fit budget [] = []"
| "longest_fit budget (m # ms) = (if sum_list (map tokens_of (m # ms)) \<le> budget then m # ms else longest_fit budget ms)"

lemma take_budget_all:
  "\<forall>m \<in> set ms. 0 \<le> tokens_of m \<Longrightarrow> used + sum_list (map tokens_of ms) \<le> budget \<Longrightarrow> take_budget budget used ms = ms"
proof (induction ms arbitrary: used)
  case Nil
  then show ?case by simp
next
  case (Cons m ms)
  have "0 \<le> sum_list (map tokens_of ms)" using Cons.prems(1) by (intro sum_list_nonneg) auto
  then show ?case using Cons.IH [of "used + tokens_of m"] Cons.prems by simp
qed

lemma take_budget_drop_last:
  "budget < used + sum_list (map tokens_of (ms @ [m])) \<Longrightarrow> take_budget budget used (ms @ [m]) = take_budget budget used ms"
  by (induction ms arbitrary: used) (auto simp: add.assoc)

lemma rev_take_budget:
  assumes "0 \<le> budget" "\<forall>m \<in> set ms. 0 \<le> tokens_of m"
  shows "rev (take_budget budget 0 (rev ms)) = longest_fit budget ms"
  using assms(2)
proof (induction ms)
  case Nil
  then show ?case by simp
next
  case (Cons m ms)
  have s: "sum_list (map tokens_of (rev ms)) = sum_list (map tokens_of ms)" by (simp add: rev_map [symmetric] sum_list_rev)
  show ?case
  proof (cases "sum_list (map tokens_of (m # ms)) \<le> budget")
    case True
    then have "take_budget budget 0 (rev (m # ms)) = rev (m # ms)" using Cons.prems s by (intro take_budget_all) simp_all
    then show ?thesis using True by simp
  next
    case False
    then have "take_budget budget 0 (rev ms @ [m]) = take_budget budget 0 (rev ms)" using s by (intro take_budget_drop_last) simp
    then show ?thesis using Cons False by simp
  qed
qed

lemma insort_neg:
  "a \<notin> f ` set ys \<Longrightarrow> f x = a \<Longrightarrow> insort_key (\<lambda>x. - f x) x (rev ys) = rev (insort_key f x ys)" if "sorted (map f ys)" for f :: "'a \<Rightarrow> int"
  using that
proof (induction ys)
  case Nil
  then show ?case by simp
next
  case (Cons y ys)
  show ?case
  proof (cases "f x \<le> f y")
    case True
    then have "\<forall>z \<in> set (rev ys @ [y]). f x < f z" using Cons.prems by (force simp: image_iff)
    then have "insort_key (\<lambda>x. - f x) x (rev ys @ [y]) = (rev ys @ [y]) @ [x]"
    proof -
      have "insort_key (\<lambda>x. - f x) x zs = zs @ [x]" if "\<forall>z \<in> set zs. f x < f z" for zs using that by (induction zs) auto
      then show ?thesis using \<open>\<forall>z \<in> set (rev ys @ [y]). f x < f z\<close> by blast
    qed
    then show ?thesis using True by simp
  next
    case False
    have "insort_key (\<lambda>x. - f x) x (zs @ [y]) = insort_key (\<lambda>x. - f x) x zs @ [y]" for zs
      using False by (induction zs) auto
    then show ?thesis using False Cons by simp
  qed
qed

lemma newest_first_rev:
  "distinct (map f xs) \<Longrightarrow> newest_first f xs = rev (sort_key f xs)" for f :: "'a \<Rightarrow> time"
proof (induction xs)
  case Nil
  then show ?case by (simp add: newest_first_def)
next
  case (Cons x xs)
  have "insort_key (\<lambda>x. - f x) x (rev (sort_key f xs)) = rev (insort_key f x (sort_key f xs))"
    by (rule insort_neg) (use Cons.prems in auto)
  then show ?case using Cons by (simp add: newest_first_def)
qed

section \<open>Runs of the conversation\<close>

datatype chat_op =
    AskOp time string string string "string option"
  | AnswerOp time string string string "usage option"
  | NudgeOp time string string string
  | NewSessionOp time string string "string option" "string option"

fun chat_step :: "chat_db \<Rightarrow> chat_op \<Rightarrow> chat_db" where
  "chat_step db (AskOp now i user t cid) = snd (ask now i user t cid db)"
| "chat_step db (AnswerOp now i user t u) = answer now i user t u db"
| "chat_step db (NudgeOp now i user t) = nudge_sent now i user t db"
| "chat_step db (NewSessionOp now i user title ds) = snd (create_chat_session now i user title ds db)"

fun op_id :: "chat_op \<Rightarrow> string" where
  "op_id (AskOp now i user t cid) = i"
| "op_id (AnswerOp now i user t u) = i"
| "op_id (NudgeOp now i user t) = i"
| "op_id (NewSessionOp now i user title ds) = i"

fun op_user :: "chat_op \<Rightarrow> string" where
  "op_user (AskOp now i user t cid) = user"
| "op_user (AnswerOp now i user t u) = user"
| "op_user (NudgeOp now i user t) = user"
| "op_user (NewSessionOp now i user title ds) = user"

fun op_text :: "chat_op \<Rightarrow> string option" where
  "op_text (AskOp now i user t cid) = Some t"
| "op_text (AnswerOp now i user t u) = Some t"
| "op_text (NudgeOp now i user t) = Some t"
| "op_text (NewSessionOp now i user title ds) = None"

text \<open>
  Every operation first puts a session of its user in place, if it has none, and then stores at most one
  message, of its user and with its text, in the user's current session.
\<close>

definition keyed :: "chat_message list \<Rightarrow> (string \<times> string option) list" where
  "keyed ms = map (\<lambda>m. (cm_session m, cm_client_id m)) (filter (\<lambda>m. cm_client_id m \<noteq> None) ms)"

definition stores :: "chat_op \<Rightarrow> chat_db \<Rightarrow> chat_db \<Rightarrow> bool" where
  "stores a db db' \<longleftrightarrow>
     (\<exists>new. map (\<lambda>s. (cs_id s, cs_user s)) (chat_sessions db') = map (\<lambda>s. (cs_id s, cs_user s)) (chat_sessions db) @ new \<and>
        new \<in> {[], [(op_id a, Some (op_user a))]}) \<and>
     (chat_messages db' = chat_messages db \<or>
      (\<exists>m s. chat_messages db' = chat_messages db @ [m] \<and> \<not> taken (cm_session m) (cm_client_id m) db \<and> Some (cm_content m) = op_text a \<and>
         s \<in> set (chat_sessions db') \<and> cs_id s = cm_session m \<and> cs_user s = Some (op_user a)))"

lemma bump_ids: "map (\<lambda>s. (cs_id s, cs_user s)) (bump_count i n ss) = map (\<lambda>s. (cs_id s, cs_user s)) ss"
  by (simp add: bump_count_def map_update_where_key)

lemma get_or_create_ids:
  assumes "get_or_create_chat_session now i user db = (j, db1)"
  shows "\<exists>new. map (\<lambda>s. (cs_id s, cs_user s)) (chat_sessions db1) = map (\<lambda>s. (cs_id s, cs_user s)) (chat_sessions db) @ new \<and>
      new \<in> {[], [(i, Some user)]}"
    and "\<exists>s \<in> set (chat_sessions db1). cs_id s = j \<and> cs_user s = Some user"
proof -
  show "\<exists>new. map (\<lambda>s. (cs_id s, cs_user s)) (chat_sessions db1) = map (\<lambda>s. (cs_id s, cs_user s)) (chat_sessions db) @ new \<and>
      new \<in> {[], [(i, Some user)]}"
    using assms by (auto simp: get_or_create_chat_session_def session_row_def split: option.splits)
  obtain s where "current_session user db1 = Some s" "cs_id s = j" using create_current(1) [OF assms] by blast
  then show "\<exists>s \<in> set (chat_sessions db1). cs_id s = j \<and> cs_user s = Some user" using current_session_in by blast
qed

lemma stores_message:
  assumes g: "get_or_create_chat_session now (op_id a) (op_user a) db = (j, db1)"
    and m: "cm_session m = j" "Some (cm_content m) = op_text a"
  shows "stores a db (snd (persist_message m db1))"
proof -
  have c: "chat_messages db1 = chat_messages db" by (rule create_current(2) [OF g])
  have t: "taken i cid db1 = taken i cid db" for i cid by (simp add: taken_def c)
  obtain s where s: "s \<in> set (chat_sessions db1)" "cs_id s = j" "cs_user s = Some (op_user a)"
    using get_or_create_ids(2) [OF g] by blast
  show ?thesis
  proof (cases "taken j (cm_client_id m) db")
    case True
    then show ?thesis using get_or_create_ids(1) [OF g] by (simp add: stores_def persist_message_def m t c)
  next
    case False
    then have p: "snd (persist_message m db1) =
        db1\<lparr>chat_messages := chat_messages db @ [m], chat_sessions := bump_count j 1 (chat_sessions db1)\<rparr>"
      by (simp add: persist_message_def m t c)
    have "counted j 1 s \<in> set (chat_sessions (snd (persist_message m db1)))" using s(1) by (simp add: p bump_count_map)
    then show ?thesis using False s get_or_create_ids(1) [OF g] m unfolding stores_def
      by (intro conjI disjI2 exI [of _ m] exI [of _ "counted j 1 s"]) (simp_all add: p bump_ids)
  qed
qed

lemma stores_nothing:
  "get_or_create_chat_session now (op_id a) (op_user a) db = (j, db1) \<Longrightarrow> stores a db db1"
  using get_or_create_ids(1) [of now "op_id a" "op_user a" db j db1] create_current(2) by (auto simp: stores_def)

lemma step_stores: "stores a db (chat_step db a)"
proof (cases a)
  case (AskOp now i user t cid)
  have s: "chat_step db a = persist_user_message now i user t cid db" by (simp add: AskOp ask_result Let_def)
  obtain j db1 where g: "get_or_create_chat_session now i user db = (j, db1)" by force
  have "persist_user_message now i user t cid db \<in>
      {db1, snd (persist_message (new_message now j UserRole ChatKind t cid None) db1),
            snd (persist_message (new_message now j UserRole ChatKind t None None) db1)}"
    by (simp add: persist_user_message_def g)
  moreover have "stores a db (snd (persist_message (new_message now j UserRole ChatKind t c None) db1))" for c
    by (rule stores_message [where now = now and j = j]) (simp_all add: AskOp g new_message_def)
  moreover have "stores a db db1" by (rule stores_nothing [where now = now and j = j]) (simp add: AskOp g)
  ultimately show ?thesis unfolding s by auto
next
  case (AnswerOp now i user t u)
  obtain j db1 where g: "get_or_create_chat_session now i user db = (j, db1)" by force
  have "stores a db (snd (persist_message (new_message now j AssistantRole ChatKind t None u) db1))"
    by (rule stores_message [where now = now and j = j]) (simp_all add: AnswerOp g new_message_def)
  then show ?thesis by (simp add: AnswerOp answer_def g)
next
  case (NudgeOp now i user t)
  obtain j db1 where g: "get_or_create_chat_session now i user db = (j, db1)" by force
  have "stores a db (snd (persist_message (new_message now j SystemRole NudgeKind t None None) db1))"
    by (rule stores_message [where now = now and j = j]) (simp_all add: NudgeOp g new_message_def)
  then show ?thesis by (simp add: NudgeOp nudge_sent_def g)
next
  case (NewSessionOp now i user title ds)
  then show ?thesis by (simp add: create_chat_session_def Let_def session_row_def stores_def)
qed


text \<open>Client ids are unique within a session.\<close>

definition ids_unique :: "chat_db \<Rightarrow> bool" where
  "ids_unique db \<longleftrightarrow> distinct (keyed (chat_messages db))"

lemma ids_unique_stores: "ids_unique db \<Longrightarrow> stores a db db' \<Longrightarrow> ids_unique db'"
  by (fastforce simp: ids_unique_def stores_def keyed_def taken_def)

interpretation conversation: step_system empty_db chat_step ids_unique
proof
  show "ids_unique empty_db" by (simp add: ids_unique_def empty_db_def keyed_def)
  show "ids_unique (chat_step db a)" if "ids_unique db" for db a by (rule ids_unique_stores [OF that step_stores])
qed

text \<open>Every message has a session, whose user sent the message.\<close>

definition sent_by :: "string \<Rightarrow> string \<Rightarrow> chat_op list \<Rightarrow> bool" where
  "sent_by user t ops \<longleftrightarrow> (\<exists>a \<in> set ops. op_user a = user \<and> op_text a = Some t)"

definition attributed :: "chat_op list \<Rightarrow> chat_db \<Rightarrow> bool" where
  "attributed ops db \<longleftrightarrow>
     distinct (map cs_id (chat_sessions db)) \<and> cs_id ` set (chat_sessions db) \<subseteq> op_id ` set ops \<and>
     (\<forall>m \<in> set (chat_messages db). \<exists>s \<in> set (chat_sessions db). cs_id s = cm_session m \<and>
        (\<exists>u. cs_user s = Some u \<and> sent_by u (cm_content m) ops))"

lemma sent_by_mono: "sent_by u t ops \<Longrightarrow> sent_by u t (ops @ xs)"
  by (auto simp: sent_by_def)

lemma attributed_step:
  assumes at: "attributed ops db" and st: "stores a db db'" and fresh: "op_id a \<notin> op_id ` set ops"
  shows "attributed (ops @ [a]) db'"
proof -
  let ?k = "\<lambda>s. (cs_id s, cs_user s)"
  obtain new where n: "map ?k (chat_sessions db') = map ?k (chat_sessions db) @ new" "new \<in> {[], [(op_id a, Some (op_user a))]}"
    using st by (auto simp: stores_def)
  have ids: "map cs_id (chat_sessions db') = map cs_id (chat_sessions db) @ map fst new"
    using arg_cong [OF n(1), of "map fst"] by (simp add: comp_def)
  have keep: "\<exists>s' \<in> set (chat_sessions db'). cs_id s' = cs_id s \<and> cs_user s' = cs_user s" if "s \<in> set (chat_sessions db)" for s
  proof -
    have "?k s \<in> set (map ?k (chat_sessions db'))" unfolding n(1) using that by simp
    then show ?thesis by auto
  qed
  have ad: "distinct (map cs_id (chat_sessions db))" "cs_id ` set (chat_sessions db) \<subseteq> op_id ` set ops"
    using at by (simp_all add: attributed_def)
  have "op_id a \<notin> set (map cs_id (chat_sessions db))" using ad(2) fresh by auto
  then have d: "distinct (map cs_id (chat_sessions db'))" unfolding ids distinct_append using ad(1) n(2) by (auto simp del: set_map list.set_map)
  have "set (map cs_id (chat_sessions db')) \<subseteq> op_id ` set (ops @ [a])"
    unfolding ids using ad(2) n(2) by auto
  moreover have "\<exists>s \<in> set (chat_sessions db'). cs_id s = cm_session m \<and>
        (\<exists>u. cs_user s = Some u \<and> sent_by u (cm_content m) (ops @ [a]))" if m: "m \<in> set (chat_messages db')" for m
  proof (cases "m \<in> set (chat_messages db)")
    case True
    then obtain s u where "s \<in> set (chat_sessions db)" "cs_id s = cm_session m" "cs_user s = Some u" "sent_by u (cm_content m) ops"
      using at by (auto simp: attributed_def)
    then show ?thesis using keep [of s] sent_by_mono by metis
  next
    case False
    then obtain s where "s \<in> set (chat_sessions db')" "cs_id s = cm_session m" "cs_user s = Some (op_user a)"
        "Some (cm_content m) = op_text a"
      using st m by (auto simp: stores_def)
    then show ?thesis by (force simp: sent_by_def)
  qed
  ultimately show ?thesis using d unfolding attributed_def by simp
qed

lemma attributed_run: "distinct (map op_id ops) \<Longrightarrow> attributed ops (foldl chat_step empty_db ops)"
proof (induction ops rule: rev_induct)
  case Nil
  then show ?case by (simp add: attributed_def empty_db_def)
next
  case (snoc a ops)
  then show ?case using attributed_step [OF _ step_stores] by (auto simp: image_iff)
qed

section \<open>Properties\<close>

text \<open>C30: Conversations are private. Whatever a user reads of a session, in any history of the service, was sent by
  that user's own connection or as an answer or a nudge to that user; the session of somebody else is
  reported as not found. (Generated ids are distinct.)\<close>

theorem conversations_private:
  assumes "distinct (map op_id ops)" "get_session_messages limit (Some i) user (foldl chat_step empty_db ops) = Inr ms" "m \<in> set ms"
  shows "\<exists>a \<in> set ops. op_user a = user \<and> op_text a = Some (cm_content m)"
proof -
  let ?db = "foldl chat_step empty_db ops"
  obtain s where s: "find_session i ?db = Some s" "cs_user s = Some user" "ms = take limit (messages_of (cs_id s) ?db)"
    using assms(2) by (auto simp: get_session_messages_def split: option.splits if_splits)
  have "m \<in> set (messages_of (cs_id s) ?db)" using assms(3) s(3) by (metis in_set_takeD)
  then have m: "m \<in> set (chat_messages ?db)" "cm_session m = cs_id s" by (auto simp: messages_of_def)
  have at: "attributed ops ?db" by (rule attributed_run [OF assms(1)])
  then obtain t u where t: "t \<in> set (chat_sessions ?db)" "cs_id t = cs_id s" "cs_user t = Some u" "sent_by u (cm_content m) ops"
    using m by (force simp: attributed_def)
  have "s \<in> set (chat_sessions ?db)" using s(1) by (auto simp: find_session_def find_Some_iff)
  then have "t = s" using at t(1,2) by (auto simp: attributed_def distinct_map dest: inj_onD)
  then show ?thesis using s(2) t(3,4) by (auto simp: sent_by_def)
qed

definition sample_chat :: "chat_op list" where
  "sample_chat =
     [AskOp 1 ''a'' ''ann'' ''hello'' (Some ''x''), AnswerOp 2 ''b'' ''ann'' ''hi'' None, AskOp 3 ''c'' ''bob'' ''secret'' None]"

theorem conversations_private_witness:
  "\<exists>a \<in> set sample_chat. op_user a = ''ann'' \<and> op_text a = Some ''hi''"
proof -
  let ?m = "new_message 2 ''a'' AssistantRole ChatKind ''hi'' None None"
  have "get_session_messages 50 (Some ''a'') ''ann'' (foldl chat_step empty_db sample_chat) =
      Inr [new_message 1 ''a'' UserRole ChatKind ''hello'' (Some ''x'') None, ?m]" by code_simp
  moreover have "distinct (map op_id sample_chat)" by code_simp
  ultimately show ?thesis
    using conversations_private [where m = ?m and ops = sample_chat] by (metis list.set_intros new_message_simps(4))
qed

text \<open>Also: A message with a client id is stored once per session: in every history no two messages of a session have
  the same client id.\<close>

theorem client_id_stored_once:
  assumes "j < k" "k < length (chat_messages (foldl chat_step empty_db ops))"
    "cm_client_id (chat_messages (foldl chat_step empty_db ops) ! j) \<noteq> None"
    "cm_client_id (chat_messages (foldl chat_step empty_db ops) ! j) = cm_client_id (chat_messages (foldl chat_step empty_db ops) ! k)"
  shows "cm_session (chat_messages (foldl chat_step empty_db ops) ! j) \<noteq> cm_session (chat_messages (foldl chat_step empty_db ops) ! k)"
proof
  let ?ms = "chat_messages (foldl chat_step empty_db ops)"
  assume e: "cm_session (?ms ! j) = cm_session (?ms ! k)"
  define f where "f = (\<lambda>m :: chat_message. (cm_session m, cm_client_id m))"
  have u: "distinct (map f (filter (\<lambda>m. cm_client_id m \<noteq> None) ?ms))"
    using conversation.run_inv [of ops] by (simp add: ids_unique_def keyed_def f_def)
  have split: "?ms = take k ?ms @ ?ms ! k # drop (Suc k) ?ms" using assms(2) by (rule id_take_nth_drop)
  have "?ms ! j \<in> set (take k ?ms)" using assms(1,2) by (metis in_set_conv_nth length_take min.absorb4 nth_take)
  then have "f (?ms ! j) \<in> set (map f (filter (\<lambda>m. cm_client_id m \<noteq> None) (take k ?ms)))" using assms(3) by auto
  moreover have "distinct (map f (filter (\<lambda>m. cm_client_id m \<noteq> None) (take k ?ms)) @
      f (?ms ! k) # map f (filter (\<lambda>m. cm_client_id m \<noteq> None) (drop (Suc k) ?ms)))"
    using u assms(3,4) by (subst (asm) split) simp
  moreover have "f (?ms ! j) = f (?ms ! k)" using e assms(4) by (simp add: f_def)
  ultimately show False by auto
qed

theorem client_id_stored_once_witness:
  "cm_session (chat_messages (foldl chat_step empty_db (sample_chat @ [AskOp 4 ''d'' ''bob'' ''again'' (Some ''x'')])) ! 0) \<noteq>
   cm_session (chat_messages (foldl chat_step empty_db (sample_chat @ [AskOp 4 ''d'' ''bob'' ''again'' (Some ''x'')])) ! 3)"
  by (rule client_id_stored_once) code_simp+

text \<open>Also: What the model is told before a question is the conversation before that question: when the question is
  new, its history is the last twenty messages of the current session, and the question is stored at
  their end.\<close>

theorem history_is_previous_turns:
  assumes "\<not> taken (home i user db) (client_key cid) db" "\<forall>m \<in> set (chat_messages db). cm_created m \<le> now"
  shows "fst (ask now i user t cid db) = last_n 20 (history_of (messages_of (home i user db) db)) \<and>
    messages_of (home i user db) (snd (ask now i user t cid db)) =
      messages_of (home i user db) db @ [new_message now (home i user db) UserRole ChatKind t (client_key cid) None]"
proof (cases rule: persist_user_cases [of now i user db cid t])
  case (stored db1)
  have c: "chat_messages db1 = chat_messages db" by (rule create_current(2) [OF stored(1)])
  have m: "messages_of (home i user db) db1 = messages_of (home i user db) db" by (simp add: messages_of_def c)
  have a: "messages_of (home i user db) (persist_user_message now i user t cid db) =
      messages_of (home i user db) db @ [new_message now (home i user db) UserRole ChatKind t (client_key cid) None]"
    unfolding stored(3) using assms(2) by (subst messages_append) (simp_all add: c m)
  define h where "h = history_of (messages_of (home i user db) db)"
  have "history_of (messages_of (home i user db) (persist_user_message now i user t cid db)) = h @ [(UserRole, t)]"
    by (simp add: a history_of_def h_def)
  then show ?thesis
    using last_n_snoc [of 20 h "(UserRole, t)"] by (simp add: ask_result Let_def a h_def last_n_last_n)
next
  case (known db1)
  then show ?thesis using assms(1) create_current(2) [OF known(1)] by (simp add: taken_def)
qed


theorem history_is_previous_turns_witness:
  "fst (ask 9 ''z'' ''ann'' ''more'' (Some ''y'') (foldl chat_step empty_db sample_chat)) = [(UserRole, ''hello''), (AssistantRole, ''hi'')]"
proof -
  let ?db = "foldl chat_step empty_db sample_chat"
  have "\<not> taken (home ''z'' ''ann'' ?db) (client_key (Some ''y'')) ?db" by code_simp
  moreover have "\<forall>m \<in> set (chat_messages ?db). cm_created m \<le> 9" by code_simp
  ultimately have "fst (ask 9 ''z'' ''ann'' ''more'' (Some ''y'') ?db) = last_n 20 (history_of (messages_of (home ''z'' ''ann'' ?db) ?db))"
    using history_is_previous_turns by blast
  also have "\<dots> = [(UserRole, ''hello''), (AssistantRole, ''hi'')]" by code_simp
  finally show ?thesis .
qed

text \<open>Also: Sending a message again stores nothing, but asks again. A question repeated with its client id, before or
  after the answer, leaves the database as it is; repeated before the answer it is put to the model with
  the history it had the first time, so that the retry is metered and answered like the first one.\<close>

theorem repeated_question_asks_again:
  assumes "truthy cid"
  shows "ask now' i' user t cid (snd (ask now i user t cid db)) = ask now i user t cid db"
proof -
  let ?db = "persist_user_message now i user t cid db"
  obtain s where s: "current_session user ?db = Some s" "cs_id s = home i user db" using persist_user_current by blast
  have h: "home i' user ?db = home i user db" by (simp add: home_def s)
  have g: "get_or_create_chat_session now' i' user ?db = (home i user db, ?db)" using get_again [OF s(1)] s(2) by simp
  have k: "taken (home i user db) (client_key cid) ?db"
  proof (cases rule: persist_user_cases [of now i user db cid t])
    case (stored db1)
    have "client_key cid \<noteq> None" using assms by (auto simp: client_key_def elim: truthyE)
    then show ?thesis unfolding stored(3) taken_def by simp
  next
    case (known db1)
    then show ?thesis by simp
  qed
  have "persist_user_message now' i' user t cid ?db = ?db" by (simp add: persist_user_eq [OF g] k)
  then show ?thesis by (simp add: ask_result Let_def h)
qed

theorem repeated_question_asks_again_witness:
  "ask 5 ''z'' ''ann'' ''q'' (Some ''k'') (snd (ask 4 ''y'' ''ann'' ''q'' (Some ''k'') empty_db)) = ask 4 ''y'' ''ann'' ''q'' (Some ''k'') empty_db"
  by (rule repeated_question_asks_again) simp

text \<open>Also: The endpoint for the current conversation shows its beginning. Once the session has as many messages as the
  endpoint returns, no later question appears in what it returns.\<close>

theorem current_messages_are_oldest:
  assumes "current_session user db = Some s" "limit \<le> length (messages_of (cs_id s) db)"
    "\<forall>m \<in> set (chat_messages db). cm_created m \<le> now"
  shows "get_current_session_messages limit user (snd (ask now i user t cid db)) = get_current_session_messages limit user db"
proof -
  have h: "home i user db = cs_id s" by (simp add: home_def assms(1))
  obtain s' where s': "current_session user (persist_user_message now i user t cid db) = Some s'" "cs_id s' = cs_id s"
    using persist_user_current [of user now i t cid db] h by auto
  have "take limit (messages_of (cs_id s) (persist_user_message now i user t cid db)) = take limit (messages_of (cs_id s) db)"
  proof (cases rule: persist_user_cases [of now i user db cid t])
    case (stored db1)
    have "db1 = db" using stored(1) get_again [OF assms(1)] by simp
    then show ?thesis unfolding stored(3) using assms(2,3) by (subst messages_append) (simp_all add: h)
  next
    case (known db1)
    then show ?thesis using get_again [OF assms(1)] by simp
  qed
  then show ?thesis by (simp add: get_current_session_messages_def ask_result Let_def s' assms(1))
qed

theorem current_messages_are_oldest_witness:
  "get_current_session_messages 2 ''ann'' (snd (ask 9 ''z'' ''ann'' ''more'' None (foldl chat_step empty_db sample_chat))) =
   get_current_session_messages 2 ''ann'' (foldl chat_step empty_db sample_chat)"
proof -
  let ?s = "\<lparr>cs_id = ''a'', cs_user = Some ''ann'', cs_title = Some ''Allie Chat'', cs_archived = False, cs_count = 2,
      cs_dataset = None, cs_created = 1, cs_updated = 1\<rparr>"
  have "current_session ''ann'' (foldl chat_step empty_db sample_chat) = Some ?s" by code_simp
  moreover have "2 \<le> length (messages_of (cs_id ?s) (foldl chat_step empty_db sample_chat))" by code_simp
  moreover have "\<forall>m \<in> set (chat_messages (foldl chat_step empty_db sample_chat)). cm_created m \<le> 9" by code_simp
  ultimately show ?thesis by (rule current_messages_are_oldest)
qed

text \<open>Also: An answer goes to the session that is current when it arrives, not to the session of its question: when the
  user opens a new session while the model answers, the answer is stored there, and the session with the
  question never gets it.\<close>

theorem answer_follows_new_session:
  assumes "\<forall>s \<in> set (chat_sessions db). cs_created s < now" "j \<noteq> home i user db" "j \<notin> cs_id ` set (chat_sessions db)"
  shows "messages_of (home i user db) (answer now' x user t u (snd (create_chat_session now j user title ds db))) =
      messages_of (home i user db) db \<and>
    new_message now' j AssistantRole ChatKind t None u \<in>
      set (messages_of j (answer now' x user t u (snd (create_chat_session now j user title ds db))))"
proof -
  let ?n = "session_row now j (Some user) (if truthy title then title else Some ''Allie Chat'') ds"
  let ?db = "snd (create_chat_session now j user title ds db)"
  have db: "?db = db\<lparr>chat_sessions := chat_sessions db @ [?n]\<rparr>" by (simp add: create_chat_session_def Let_def)
  have "newest_first cs_created (filter (\<lambda>s. cs_user s = Some user \<and> \<not> cs_archived s) (chat_sessions db) @ [?n]) =
      ?n # newest_first cs_created (filter (\<lambda>s. cs_user s = Some user \<and> \<not> cs_archived s) (chat_sessions db))"
    unfolding newest_first_def by (rule sort_key_snoc_front) (use assms(1) in \<open>auto simp: session_row_def\<close>)
  then have "current_session user ?db = Some ?n" unfolding db current_session_def by (simp add: session_row_def)
  then have g: "get_or_create_chat_session now' x user ?db = (j, ?db)" using get_again by (simp add: session_row_def)
  have a: "answer now' x user t u ?db = ?db\<lparr>chat_messages := chat_messages ?db @ [new_message now' j AssistantRole ChatKind t None u],
      chat_sessions := bump_count j 1 (chat_sessions ?db)\<rparr>"
    by (simp add: answer_def g persist_message_def)
  have "chat_messages ?db = chat_messages db" by (simp add: db)
  then show ?thesis using assms(2) by (auto simp: a messages_of_def)
qed

theorem answer_follows_new_session_witness:
  "messages_of ''a'' (answer 9 ''x'' ''ann'' ''late'' None (snd (create_chat_session 8 ''n'' ''ann'' None None (foldl chat_step empty_db sample_chat)))) =
   messages_of ''a'' (foldl chat_step empty_db sample_chat)"
proof -
  let ?db = "foldl chat_step empty_db sample_chat"
  have h: "home ''z'' ''ann'' ?db = ''a''" by code_simp
  have "\<forall>s \<in> set (chat_sessions ?db). cs_created s < 8" by code_simp
  moreover have "''n'' \<notin> cs_id ` set (chat_sessions ?db)" by code_simp
  ultimately show ?thesis
    using answer_follows_new_session [where db = ?db and now = 8 and j = "''n''" and i = "''z''" and user = "''ann''" and title = None and ds = None
        and now' = 9 and x = "''x''" and t = "''late''" and u = None]
    by (simp add: h)
qed

text \<open>Also: The context window of the session service is the longest end of the conversation that fits the budget:
  collecting messages from the newest backwards until one does not fit equals dropping the oldest
  messages until the rest fits, for token counts and budgets that are not negative and messages with
  distinct times.\<close>

theorem recent_context_is_longest_fit:
  assumes "0 \<le> budget" "\<forall>m \<in> set (messages_of i db). 0 \<le> tokens_of m" "distinct (map cm_created (messages_of i db))"
  shows "sv_get_recent_context i budget db = longest_fit budget (messages_of i db)"
proof -
  have "distinct (map cm_created (filter (\<lambda>m. cm_session m = i) (chat_messages db)))"
    using assms(3) by (simp add: messages_of_def distinct_map)
  then have "newest_first cm_created (filter (\<lambda>m. cm_session m = i) (chat_messages db)) = rev (messages_of i db)"
    by (simp add: newest_first_rev messages_of_def)
  then show ?thesis using rev_take_budget [OF assms(1,2)] by (simp add: sv_get_recent_context_def)
qed

definition sample_tokens :: chat_db where
  "sample_tokens = empty_db\<lparr>chat_messages :=
     [(new_message 1 ''a'' UserRole ChatKind ''x'' None None)\<lparr>cm_tokens := Some 5\<rparr>,
      (new_message 2 ''a'' AssistantRole ChatKind ''y'' None None)\<lparr>cm_tokens := Some 3\<rparr>,
      (new_message 3 ''a'' UserRole ChatKind ''z'' None None)\<lparr>cm_tokens := Some 2\<rparr>]\<rparr>"

theorem recent_context_is_longest_fit_witness:
  "sv_get_recent_context ''a'' 6 sample_tokens = longest_fit 6 (messages_of ''a'' sample_tokens)"
  by (rule recent_context_is_longest_fit) code_simp+

end
