(* ===== verification/Copilot_Socket.thy ===== *)
theory Copilot_Socket
  imports Local_Auth Approval_Token
begin

text \<open>
  The assistant's connections: \<open>ConnectionManager\<close>, the message loop and its rate limits, the task that answers
  a message, and the command and status endpoints of \<open>app/routers/copilot.py\<close>, with the event bus of
  \<open>app/services/event_bus.py\<close>. A session has one socket, which carries its id. The loop handles a frame
  before it receives the next, so that a frame is a step; the answering task runs beside it, and its end
  is a step of its own. The result of metering, the owner of an attachment and whether a send succeeds are
  arguments.
\<close>

section \<open>The registry\<close>

datatype reply =
    Greeting
  | ErrorMessage string
  | Stopped "string option"
  | CreditWall
  | ConfirmResult string bool
  | Command string
  | BalanceGate string
  | StreamEnd string

record hub =
  active :: "string list"
  user_sessions :: "(string \<times> string) list"
  connected_since :: "(string \<times> time) list"
  session_users :: "(string \<times> authenticated_user) list"
  session_balance :: "(string \<times> int) list"
  inflight :: "(string \<times> nat) list"
  session_state :: "(string \<times> string) list"
  message_stamps :: "(string \<times> time list) list"
  connect_stamps :: "(string \<times> time list) list"
  running :: "(nat \<times> string) list"
  closed :: "string list"
  expected_nonce :: "(string \<times> string) list"
  pongs :: "string list"
  hub_tokens :: pending
  outbox :: "(string \<times> reply) list"
  metered :: "string list"
  accepted :: "(string \<times> time) list"

definition new_hub :: "pending \<Rightarrow> hub" where
  "new_hub ps = \<lparr>active = [], user_sessions = [], connected_since = [], session_users = [], session_balance = [],
     inflight = [], session_state = [], message_stamps = [], connect_stamps = [], running = [], closed = [],
     expected_nonce = [], pongs = [], hub_tokens = ps, outbox = [], metered = [], accepted = []\<rparr>"

definition disconnect :: "string \<Rightarrow> hub \<Rightarrow> hub" where
  "disconnect s h = h\<lparr>active := removeAll s (active h), connected_since := AList.delete s (connected_since h),
     session_users := AList.delete s (session_users h), session_balance := AList.delete s (session_balance h),
     inflight := AList.delete s (inflight h), session_state := AList.delete s (session_state h),
     message_stamps := AList.delete s (message_stamps h),
     user_sessions := filter (\<lambda>p. snd p \<noteq> s) (user_sessions h)\<rparr>"

definition post :: "string \<Rightarrow> reply \<Rightarrow> hub \<Rightarrow> hub" where
  "post s r h = h\<lparr>outbox := outbox h @ [(s, r)]\<rparr>"

definition is_running :: "string \<Rightarrow> hub \<Rightarrow> bool" where
  "is_running s h \<longleftrightarrow> (case map_of (inflight h) s of None \<Rightarrow> False | Some k \<Rightarrow> k \<in> fst ` set (running h))"

text \<open>A cancelled task says so on its socket and removes its entry; then the entry is removed in any case.\<close>

definition cancel_inflight :: "string \<Rightarrow> hub \<Rightarrow> hub" where
  "cancel_inflight s h =
     (case map_of (inflight h) s of
        None \<Rightarrow> h
      | Some k \<Rightarrow>
          (if k \<in> fst ` set (running h)
           then (post s (Stopped None) h)\<lparr>running := AList.delete k (running h), inflight := AList.delete s (inflight h)\<rparr>
           else h\<lparr>inflight := AList.delete s (inflight h)\<rparr>))"

definition close_socket :: "string \<Rightarrow> hub \<Rightarrow> hub" where
  "close_socket s h = h\<lparr>closed := s # closed h\<rparr>"

definition replace_old :: "string \<Rightarrow> hub \<Rightarrow> hub" where
  "replace_old user h =
     (case map_of (user_sessions h) user of
        Some s \<Rightarrow> if s \<noteq> [] \<and> s \<in> set (active h) then disconnect s (close_socket s (cancel_inflight s h)) else h
      | None \<Rightarrow> h)"

definition total_balance :: "authenticated_user \<Rightarrow> int" where
  "total_balance u = (case au_balance u of None \<Rightarrow> 0 | Some b \<Rightarrow> b) + (case au_trial u of None \<Rightarrow> 0 | Some b \<Rightarrow> b)"

definition connect :: "time \<Rightarrow> string \<Rightarrow> authenticated_user \<Rightarrow> hub \<Rightarrow> hub" where
  "connect now s u h =
     (let h1 = replace_old (au_user_id u) h
      in h1\<lparr>active := s # active h1, user_sessions := AList.update (au_user_id u) s (user_sessions h1),
            connected_since := AList.update s now (connected_since h1),
            session_users := AList.update s u (session_users h1),
            session_balance := AList.update s (total_balance u) (session_balance h1)\<rparr>)"

definition get_session_for_user :: "string \<Rightarrow> hub \<Rightarrow> string option" where
  "get_session_for_user user h = map_of (user_sessions h) user"

definition get_ws :: "string \<Rightarrow> hub \<Rightarrow> bool" where
  "get_ws s h \<longleftrightarrow> s \<in> set (active h)"

definition get_user :: "string \<Rightarrow> hub \<Rightarrow> authenticated_user option" where
  "get_user s h = map_of (session_users h) s"

definition get_balance :: "string \<Rightarrow> hub \<Rightarrow> int" where
  "get_balance s h = (case map_of (session_balance h) s of None \<Rightarrow> 0 | Some b \<Rightarrow> b)"

definition update_balance :: "string \<Rightarrow> int \<Rightarrow> hub \<Rightarrow> hub" where
  "update_balance s b h = h\<lparr>session_balance := AList.update s b (session_balance h)\<rparr>"

section \<open>Rate limits\<close>

definition MAX_MESSAGES_PER_MINUTE :: nat where "MAX_MESSAGES_PER_MINUTE = 30"
definition MAX_CONNECTIONS_PER_MINUTE :: nat where "MAX_CONNECTIONS_PER_MINUTE = 10"
definition MAX_BRAIN_MESSAGE_CHARS :: nat where "MAX_BRAIN_MESSAGE_CHARS = 8000"
definition MAX_STATE_SNAPSHOT_BYTES :: nat where "MAX_STATE_SNAPSHOT_BYTES = 16384"
definition MAX_ATTACHMENTS_PER_MESSAGE :: nat where "MAX_ATTACHMENTS_PER_MESSAGE = 3"

definition stamps_of :: "(string \<times> time list) list \<Rightarrow> string \<Rightarrow> time list" where
  "stamps_of m s = (case map_of m s of None \<Rightarrow> [] | Some ts \<Rightarrow> ts)"

text \<open>Both limits prune the stamps they look at; the readings are of a clock that never goes back.\<close>

definition check_message_rate :: "time \<Rightarrow> string \<Rightarrow> hub \<Rightarrow> bool \<times> hub" where
  "check_message_rate now s h =
     (let ts = filter (\<lambda>t. now - t < seconds 60) (stamps_of (message_stamps h) s) in
      if length ts \<ge> MAX_MESSAGES_PER_MINUTE then (False, h\<lparr>message_stamps := AList.update s ts (message_stamps h)\<rparr>)
      else (True, h\<lparr>message_stamps := AList.update s (ts @ [now]) (message_stamps h), accepted := accepted h @ [(s, now)]\<rparr>))"

definition check_connection_rate :: "time \<Rightarrow> string \<Rightarrow> hub \<Rightarrow> bool \<times> hub" where
  "check_connection_rate now user h =
     (let ts = filter (\<lambda>t. now - t < seconds 60) (stamps_of (connect_stamps h) user) in
      if length ts \<ge> MAX_CONNECTIONS_PER_MINUTE then (False, h\<lparr>connect_stamps := AList.update user ts (connect_stamps h)\<rparr>)
      else (True, h\<lparr>connect_stamps := AList.update user (ts @ [now]) (connect_stamps h)\<rparr>))"

section \<open>Connecting\<close>

text \<open>
  The greeting may fail to be sent. Its handler calls \<open>manager.disconnect\<close>, a coroutine, without awaiting it,
  so that it does not run: the socket is closed and the session stays registered.
\<close>

definition open_connection :: "time \<Rightarrow> string \<Rightarrow> authenticated_user option \<Rightarrow> bool \<Rightarrow> hub \<Rightarrow> hub" where
  "open_connection now s v greeted h =
     (case v of
        None \<Rightarrow> h
      | Some u \<Rightarrow>
          (case check_connection_rate now (au_user_id u) h of
             (False, h1) \<Rightarrow> h1
           | (True, h1) \<Rightarrow>
               (let h2 = connect now s u h1 in if greeted then post s Greeting h2 else close_socket s h2)))"

section \<open>Messages\<close>

datatype metering_result = Allowed | Exhausted | NotActivated string | NotProvisioned string | MeterFailed

record brain =
  br_text :: string
  br_metering :: metering_result
  br_attachments :: "string list"
  br_message_id :: "string option"

datatype frame =
    Oversized
  | BadJson
  | Pong "string option"
  | Snapshot nat "string option"
  | Ignored
  | Stop "string option"
  | Brain brain
  | Confirm string
  | Unknown string

text \<open>
  A frame yields the reply to send, if any, and the new state. Starting a task is the last thing a message
  does, so that it sends no reply of its own then.
\<close>

definition handle_pong :: "string \<Rightarrow> string option \<Rightarrow> hub \<Rightarrow> hub" where
  "handle_pong s nonce h =
     (case nonce of
        None \<Rightarrow> h\<lparr>pongs := s # pongs h\<rparr>
      | Some n \<Rightarrow>
          (case map_of (expected_nonce h) s of
             Some x \<Rightarrow> if x \<noteq> [] \<and> n \<noteq> x then h else h\<lparr>pongs := s # pongs h\<rparr>
           | None \<Rightarrow> h\<lparr>pongs := s # pongs h\<rparr>))"

definition handle_snapshot :: "string \<Rightarrow> nat \<Rightarrow> string option \<Rightarrow> hub \<Rightarrow> reply option \<times> hub" where
  "handle_snapshot s n v h =
     (if n > MAX_STATE_SNAPSHOT_BYTES then (Some (ErrorMessage ''SNAPSHOT_TOO_LARGE''), h)
      else case v of
        None \<Rightarrow> (Some (ErrorMessage ''Invalid STATE_SNAPSHOT''), h)
      | Some x \<Rightarrow> (None, h\<lparr>session_state := AList.update s x (session_state h)\<rparr>))"

definition handle_stop :: "string \<Rightarrow> string option \<Rightarrow> hub \<Rightarrow> reply option \<times> hub" where
  "handle_stop s i h = (if is_running s h then (None, cancel_inflight s h) else (Some (Stopped i), h))"

fun resolve_attachments :: "(string \<Rightarrow> string option) \<Rightarrow> string \<Rightarrow> string list \<Rightarrow> string option" where
  "resolve_attachments owner user [] = None"
| "resolve_attachments owner user (r # rs) =
     (case owner r of
        None \<Rightarrow> Some ''ATTACHMENT_NOT_FOUND''
      | Some o' \<Rightarrow> if o' \<noteq> user then Some ''ATTACHMENT_FORBIDDEN'' else resolve_attachments owner user rs)"

definition refusal :: "metering_result \<Rightarrow> reply option" where
  "refusal m =
     (case m of
        Allowed \<Rightarrow> None
      | Exhausted \<Rightarrow> Some CreditWall
      | NotActivated _ \<Rightarrow> Some (ErrorMessage ''ACTIVATION_REQUIRED'')
      | NotProvisioned _ \<Rightarrow> Some (ErrorMessage ''UNPROVISIONED'')
      | MeterFailed \<Rightarrow> None)"

definition start_task :: "nat \<Rightarrow> string \<Rightarrow> hub \<Rightarrow> hub" where
  "start_task k s h = h\<lparr>running := (k, s) # running h, inflight := AList.update s k (inflight h)\<rparr>"

definition brain_checks :: "string \<Rightarrow> brain \<Rightarrow> string option" where
  "brain_checks s b =
     (if br_text b = [] then Some ''BRAIN_MESSAGE requires a non-empty message field''
      else if length (br_text b) > MAX_BRAIN_MESSAGE_CHARS then Some ''MESSAGE_TOO_LARGE''
      else None)"

definition attachment_error :: "(string \<Rightarrow> string option) \<Rightarrow> string \<Rightarrow> string list \<Rightarrow> string option" where
  "attachment_error owner user refs =
     (if length refs > MAX_ATTACHMENTS_PER_MESSAGE then Some ''TOO_MANY_ATTACHMENTS'' else resolve_attachments owner user refs)"

definition answer_message :: "(string \<Rightarrow> string option) \<Rightarrow> nat \<Rightarrow> string \<Rightarrow> brain \<Rightarrow> hub \<Rightarrow> reply option \<times> hub" where
  "answer_message owner k s b h =
     (let h1 = h\<lparr>metered := metered h @ [s]\<rparr> in
      case refusal (br_metering b) of
        Some r \<Rightarrow> (Some r, h1)
      | None \<Rightarrow>
          (case get_user s h of
             None \<Rightarrow> (Some (ErrorMessage ''Session user not found''), h1)
           | Some u \<Rightarrow>
               (case attachment_error owner (au_user_id u) (br_attachments b) of
                  Some code \<Rightarrow> (Some (ErrorMessage code), h1)
                | None \<Rightarrow> (None, start_task k s h1))))"

definition handle_brain :: "(string \<Rightarrow> string option) \<Rightarrow> time \<Rightarrow> nat \<Rightarrow> string \<Rightarrow> brain \<Rightarrow> hub \<Rightarrow> reply option \<times> hub" where
  "handle_brain owner now k s b h =
     (case brain_checks s b of
        Some m \<Rightarrow> (Some (ErrorMessage m), h)
      | None \<Rightarrow>
          (case check_message_rate now s h of
             (False, h1) \<Rightarrow> (Some (ErrorMessage ''RATE_LIMITED''), h1)
           | (True, h1) \<Rightarrow>
               if is_running s h1 then (Some (ErrorMessage ''Previous request still processing''), h1)
               else answer_message owner k s b h1))"

text \<open>
  Confirming an action consumes its token; \<open>executed\<close> is whether the execution that follows raises nothing.
\<close>

definition handle_confirm ::
  "(dict \<Rightarrow> string) \<Rightarrow> objects \<Rightarrow> bool \<Rightarrow> time \<Rightarrow> string \<Rightarrow> string \<Rightarrow> string \<Rightarrow> hub \<Rightarrow> reply option \<times> hub" where
  "handle_confirm digest store executed now user s i h =
     (if i = [] then (Some (ErrorMessage ''CONFIRM_ACTION requires confirm_id''), h)
      else case validate_and_consume digest store now i user s (hub_tokens h) of
        (r, ps) \<Rightarrow> (Some (ConfirmResult i (ar_success r \<and> executed)), h\<lparr>hub_tokens := ps\<rparr>))"

record loop_env =
  le_time :: time
  le_task :: nat
  le_owner :: "string \<Rightarrow> string option"
  le_digest :: "dict \<Rightarrow> string"
  le_objects :: objects
  le_executed :: bool
  le_user :: string

definition handle_frame :: "loop_env \<Rightarrow> string \<Rightarrow> frame \<Rightarrow> hub \<Rightarrow> reply option \<times> hub" where
  "handle_frame e s f h =
     (case f of
        Oversized \<Rightarrow> (Some (ErrorMessage ''PAYLOAD_TOO_LARGE''), h)
      | BadJson \<Rightarrow> (Some (ErrorMessage ''Invalid JSON payload''), h)
      | Pong n \<Rightarrow> (None, handle_pong s n h)
      | Snapshot n v \<Rightarrow> handle_snapshot s n v h
      | Ignored \<Rightarrow> (None, h)
      | Stop i \<Rightarrow> handle_stop s i h
      | Brain b \<Rightarrow> handle_brain (le_owner e) (le_time e) (le_task e) s b h
      | Confirm i \<Rightarrow> handle_confirm (le_digest e) (le_objects e) (le_executed e) (le_time e) (le_user e) s i h
      | Unknown t \<Rightarrow> (Some (ErrorMessage ''Unknown message type''), h))"

text \<open>The end of a connection: the task, the socket, the registry.\<close>

definition cleanup :: "string \<Rightarrow> hub \<Rightarrow> hub" where
  "cleanup s h = disconnect s (close_socket s (cancel_inflight s h))"

text \<open>A reply that cannot be sent closes the socket and ends the loop.\<close>

definition receive :: "loop_env \<Rightarrow> string \<Rightarrow> frame \<Rightarrow> bool \<Rightarrow> hub \<Rightarrow> hub" where
  "receive e s f sent h =
     (case handle_frame e s f h of
        (None, h1) \<Rightarrow> h1
      | (Some r, h1) \<Rightarrow> if sent then post s r h1 else cleanup s h1)"

section \<open>The end of a task and the keepalive\<close>

text \<open>What a task that ran to its end sends and reports; only a task that got its answer has usage.\<close>

datatype task_end = Answered string "(int \<times> bool) option" | Failed string | NoCredit string

definition finish_task :: "nat \<Rightarrow> string \<Rightarrow> task_end \<Rightarrow> hub \<Rightarrow> hub" where
  "finish_task k s r h =
     (let h1 = (case r of
          Failed x \<Rightarrow> post s (ErrorMessage x) h
        | NoCredit x \<Rightarrow> post s (BalanceGate x) h
        | Answered i v \<Rightarrow>
            (let h1 = post s (StreamEnd i) h in
             case v of
               None \<Rightarrow> h1
             | Some (b, ok) \<Rightarrow> (if ok then update_balance s b h1 else post s (BalanceGate ''balance_depleted'') (update_balance s b h1))))
      in h1\<lparr>running := AList.delete k (running h1), inflight := AList.delete s (inflight h1)\<rparr>)"

definition ping :: "string \<Rightarrow> string \<Rightarrow> hub \<Rightarrow> hub" where
  "ping s nonce h = h\<lparr>pongs := removeAll s (pongs h), expected_nonce := AList.update s nonce (expected_nonce h)\<rparr>"

text \<open>Ten seconds later: no pong closes the socket.\<close>

definition pong_timeout :: "string \<Rightarrow> hub \<Rightarrow> hub" where
  "pong_timeout s h = (if s \<in> set (pongs h) then h else close_socket s h)"

section \<open>The endpoints\<close>

datatype hub_exn = NoSession | Stale | BadGateway

definition send_command :: "string \<Rightarrow> string \<Rightarrow> bool \<Rightarrow> (hub, hub_exn, unit) meth" where
  "send_command user c sent h =
     (case get_session_for_user user h of
        None \<Rightarrow> (Inl NoSession, h)
      | Some s \<Rightarrow>
          if s = [] then (Inl NoSession, h)
          else if \<not> get_ws s h then (Inl Stale, disconnect s h)
          else if sent \<and> s \<notin> set (closed h) then (Inr (), post s (Command c) h)
          else (Inl BadGateway, disconnect s (close_socket s h)))"

definition get_copilot_status :: "string \<Rightarrow> hub \<Rightarrow> (string \<times> time option) option \<times> hub" where
  "get_copilot_status user h =
     (case get_session_for_user user h of
        None \<Rightarrow> (None, h)
      | Some s \<Rightarrow>
          if s \<noteq> [] \<and> get_ws s h then (Some (s, map_of (connected_since h) s), h)
          else (None, if s \<noteq> [] then disconnect s h else h))"

text \<open>The REST message: metering comes first, then the balance (\<open>covered\<close>); the call that would answer is
  not implemented.\<close>

definition brain_message :: "authenticated_user \<Rightarrow> metering_result \<Rightarrow> bool \<Rightarrow> hub \<Rightarrow> nat \<times> hub" where
  "brain_message u m covered h =
     (let h1 = h\<lparr>metered := metered h @ [au_user_id u]\<rparr> in
      case m of
        Exhausted \<Rightarrow> (402, h1)
      | NotActivated _ \<Rightarrow> (403, h1)
      | NotProvisioned _ \<Rightarrow> (403, h1)
      | MeterFailed \<Rightarrow> (500, h1)
      | Allowed \<Rightarrow> if covered then (501, h1) else (402, h1))"


section \<open>The event bus\<close>

text \<open>Every subscriber of a session has a queue of at most 100 events; a full queue drops what is new.\<close>

record 'e bus_queue =
  bq_id :: nat
  bq_session :: string
  bq_events :: "'e list"

definition bus_emit :: "string \<Rightarrow> 'e \<Rightarrow> 'e bus_queue list \<Rightarrow> 'e bus_queue list" where
  "bus_emit s x qs = update_where (\<lambda>q. bq_session q = s \<and> length (bq_events q) < 100) (\<lambda>q. q\<lparr>bq_events := bq_events q @ [x]\<rparr>) qs"

definition bus_subscribe :: "nat \<Rightarrow> string \<Rightarrow> 'e bus_queue list \<Rightarrow> 'e bus_queue list" where
  "bus_subscribe k s qs = qs @ [\<lparr>bq_id = k, bq_session = s, bq_events = []\<rparr>]"

definition bus_unsubscribe :: "nat \<Rightarrow> string \<Rightarrow> 'e bus_queue list \<Rightarrow> 'e bus_queue list" where
  "bus_unsubscribe k s qs = filter (\<lambda>q. \<not> (bq_id q = k \<and> bq_session q = s)) qs"

section \<open>The step relation\<close>

text \<open>
  Session ids are new when a connection is opened. Frames arrive on registered sockets that are open; the loop
  of a connection that was greeted may end at any time.
\<close>

definition fresh_session :: "string \<Rightarrow> hub \<Rightarrow> bool" where
  "fresh_session s h \<longleftrightarrow> s \<noteq> [] \<and> s \<notin> set (active h) \<and> s \<notin> set (closed h) \<and> s \<notin> snd ` set (running h)"

datatype hub_event =
    Opened string "authenticated_user option" bool
  | Received string frame
  | Ended string
  | Finished nat
  | Pinged string
  | TimedOut string
  | Commanded string
  | Asked string

inductive hub_step :: "time \<Rightarrow> hub \<Rightarrow> hub_event \<Rightarrow> hub \<Rightarrow> bool" where
  opened: "fresh_session s h \<Longrightarrow> hub_step now h (Opened s v greeted) (open_connection now s v greeted h)"
| received: "s \<in> set (active h) \<Longrightarrow> s \<notin> set (closed h) \<Longrightarrow> le_time e = now \<Longrightarrow> le_task e \<notin> fst ` set (running h) \<Longrightarrow>
    hub_step now h (Received s f) (receive e s f sent h)"
| ended: "(s, Greeting) \<in> set (outbox h) \<Longrightarrow> hub_step now h (Ended s) (cleanup s h)"
| finished: "(k, s) \<in> set (running h) \<Longrightarrow> hub_step now h (Finished k) (finish_task k s r h)"
| pinged: "(s, Greeting) \<in> set (outbox h) \<Longrightarrow> hub_step now h (Pinged s) (ping s nonce h)"
| timed_out: "(s, Greeting) \<in> set (outbox h) \<Longrightarrow> hub_step now h (TimedOut s) (pong_timeout s h)"
| commanded: "hub_step now h (Commanded user) (snd (send_command user c sent h))"
| asked: "hub_step now h (Asked user) (snd (get_copilot_status user h))"

inductive_cases hub_stepE: "hub_step now h a h'"

inductive hub_run :: "pending \<Rightarrow> time \<Rightarrow> hub \<Rightarrow> bool" for ps where
  start: "hub_run ps t (new_hub ps)"
| step: "hub_run ps t h \<Longrightarrow> t \<le> now \<Longrightarrow> hub_step now h a h' \<Longrightarrow> hub_run ps now h'"

section \<open>The registry's invariant\<close>

definition registered :: "hub \<Rightarrow> string \<Rightarrow> string \<Rightarrow> bool" where
  "registered h s user \<longleftrightarrow> (\<exists>u. map_of (session_users h) s = Some u \<and> au_user_id u = user)"

definition sockets_ok :: "hub \<Rightarrow> bool" where
  "sockets_ok h \<longleftrightarrow> distinct (map fst (user_sessions h)) \<and> [] \<notin> set (active h) \<and>
     (\<forall>(user, s) \<in> set (user_sessions h). s \<in> set (active h) \<and> registered h s user) \<and>
     (\<forall>s \<in> set (active h). \<exists>user. (user, s) \<in> set (user_sessions h))"

definition registry :: "hub \<Rightarrow> string list \<times> (string \<times> string) list \<times> (string \<times> authenticated_user) list" where
  "registry h = (active h, user_sessions h, session_users h)"

lemma sockets_ok_same: "sockets_ok h \<Longrightarrow> registry h' = registry h \<Longrightarrow> sockets_ok h'"
  by (auto simp: sockets_ok_def registry_def registered_def)

lemma active_user: "sockets_ok h \<Longrightarrow> s \<in> set (active h) \<Longrightarrow> \<exists>user. (user, s) \<in> set (user_sessions h)"
  by (simp add: sockets_ok_def)

lemma user_registered: "sockets_ok h \<Longrightarrow> (user, s) \<in> set (user_sessions h) \<Longrightarrow> registered h s user"
  by (auto simp: sockets_ok_def)

lemma registry_post [simp]: "registry (post s r h) = registry h"
  by (simp add: registry_def post_def)

lemma registry_cancel [simp]: "registry (cancel_inflight s h) = registry h"
  by (auto simp: registry_def cancel_inflight_def post_def split: option.split)

lemma registry_close [simp]: "registry (close_socket s h) = registry h"
  by (simp add: registry_def close_socket_def)

lemma registry_rates [simp]:
  "registry (snd (check_message_rate now s h)) = registry h" "registry (snd (check_connection_rate now user h)) = registry h"
  by (auto simp: registry_def check_message_rate_def check_connection_rate_def Let_def)

lemma registry_finish [simp]: "registry (finish_task k s r h) = registry h"
  by (auto simp: registry_def finish_task_def Let_def post_def update_balance_def split: task_end.split option.split)

lemma registry_keepalive [simp]: "registry (ping s n h) = registry h" "registry (pong_timeout s h) = registry h"
  by (auto simp: registry_def ping_def pong_timeout_def close_socket_def)

lemma disconnect_ok:
  assumes "sockets_ok h"
  shows "sockets_ok (disconnect s h)"
proof -
  have "distinct (map fst (filter (\<lambda>p. snd p \<noteq> s) (user_sessions h)))"
    using assms by (auto simp: sockets_ok_def intro: distinct_map_filter)
  then show ?thesis using assms
    by (fastforce simp: sockets_ok_def disconnect_def registered_def delete_conv')
qed

lemma replace_old_ok: "sockets_ok h \<Longrightarrow> sockets_ok (replace_old user h)"
proof -
  assume ok: "sockets_ok h"
  have "sockets_ok (close_socket s (cancel_inflight s h))" for s by (rule sockets_ok_same [OF ok]) simp
  then show ?thesis using ok by (auto simp: replace_old_def intro: disconnect_ok split: option.split)
qed


lemma replace_old_gone:
  assumes ok: "sockets_ok h"
  shows "user \<notin> fst ` set (user_sessions (replace_old user h))" "set (active (replace_old user h)) \<subseteq> set (active h)"
proof -
  have r: "registry (close_socket s (cancel_inflight s h)) = registry h" for s by simp
  show "set (active (replace_old user h)) \<subseteq> set (active h)"
    using r by (auto simp: replace_old_def disconnect_def registry_def split: option.splits if_splits)
  show "user \<notin> fst ` set (user_sessions (replace_old user h))"
  proof (cases "map_of (user_sessions h) user")
    case None
    then have "replace_old user h = h" by (simp add: replace_old_def)
    then show ?thesis using None by (simp add: map_of_eq_None_iff)
  next
    case (Some s)
    then have m: "(user, s) \<in> set (user_sessions h)" by (rule map_of_SomeD)
    then have "s \<in> set (active h)" "s \<noteq> []" using ok by (auto simp: sockets_ok_def)
    then have e: "replace_old user h = disconnect s (close_socket s (cancel_inflight s h))" by (simp add: replace_old_def Some)
    have "user_sessions (replace_old user h) = filter (\<lambda>p. snd p \<noteq> s) (user_sessions h)"
      using r [of s] by (simp add: e disconnect_def registry_def)
    moreover have "t = s" if "(user, t) \<in> set (user_sessions h)" for t
      using ok m that by (auto simp: sockets_ok_def dest: eq_key_imp_eq_value)
    ultimately show ?thesis by auto
  qed
qed

lemma connect_ok:
  assumes ok: "sockets_ok h" and f: "s \<noteq> []" "s \<notin> set (active h)"
  shows "sockets_ok (connect now s u h)"
proof -
  let ?h = "replace_old (au_user_id u) h"
  have 1: "sockets_ok ?h" by (rule replace_old_ok [OF ok])
  note 2 = replace_old_gone [OF ok, of "au_user_id u"]
  have us: "AList.update (au_user_id u) s (user_sessions ?h) = user_sessions ?h @ [(au_user_id u, s)]"
  proof -
    have "AList.update k v m = m @ [(k, v)]" if "k \<notin> fst ` set m" for k :: string and v :: string and m
      using that by (induction m) auto
    then show ?thesis using 2(1) by blast
  qed
  have n: "s \<notin> set (active ?h)" using 2(2) f by blast
  then have "t \<noteq> s" if "(user, t) \<in> set (user_sessions ?h)" for user t using 1 that by (auto simp: sockets_ok_def)
  then have reg: "registered (connect now s u h) t user" if "(user, t) \<in> set (user_sessions ?h)" for user t
    using 1 that by (auto simp: sockets_ok_def registered_def connect_def Let_def update_conv')
  have "registered (connect now s u h) s (au_user_id u)" by (simp add: registered_def connect_def Let_def update_conv')
  then show ?thesis using 1 2(1) f(1) reg us by (fastforce simp: sockets_ok_def connect_def Let_def)
qed

lemma open_ok:
  assumes "sockets_ok h" "fresh_session s h"
  shows "sockets_ok (open_connection now s v greeted h)"
proof (cases v)
  case None
  then show ?thesis using assms by (simp add: open_connection_def)
next
  case (Some u)
  obtain ok h1 where c: "check_connection_rate now (au_user_id u) h = (ok, h1)" by force
  have r: "registry h1 = registry h" using registry_rates(2) [of now "au_user_id u" h] c by simp
  then have 1: "sockets_ok h1" by (rule sockets_ok_same [OF assms(1)])
  have a: "s \<noteq> []" "s \<notin> set (active h1)" using assms(2) r by (auto simp: fresh_session_def registry_def)
  have "sockets_ok (post s Greeting (connect now s u h1))" "sockets_ok (close_socket s (connect now s u h1))"
    by (rule sockets_ok_same [OF connect_ok [OF 1 a]], simp)+
  then show ?thesis using 1 by (simp add: open_connection_def Some c Let_def split: bool.split)
qed

lemma cleanup_ok: "sockets_ok h \<Longrightarrow> sockets_ok (cleanup s h)"
  unfolding cleanup_def by (rule disconnect_ok, erule sockets_ok_same) simp

lemma frame_registry: "registry (snd (handle_frame e s f h)) = registry h"
proof -
  have b: "registry (snd (answer_message owner k s b h')) = registry h'" for owner k b h'
    by (auto simp: answer_message_def Let_def start_task_def registry_def split: option.split)
  have r: "registry h1 = registry h" if "check_message_rate now s h = (x, h1)" for now x h1
    using registry_rates(1) [of now s h] that by simp
  have "registry (snd (handle_brain owner now k s b h)) = registry h" for owner now k b
    by (auto simp: handle_brain_def b r split: option.split prod.split bool.split)
  then show ?thesis
    by (cases f) (auto simp: handle_frame_def handle_pong_def handle_snapshot_def handle_stop_def handle_confirm_def
        registry_def [of "_\<lparr>pongs := _\<rparr>"] registry_def [of "_\<lparr>session_state := _\<rparr>"] registry_def [of "_\<lparr>hub_tokens := _\<rparr>"]
        registry_def [of h] split: option.split prod.split)
qed

lemma receive_ok: "sockets_ok h \<Longrightarrow> sockets_ok (receive e s f sent h)"
proof -
  assume ok: "sockets_ok h"
  obtain v h1 where f: "handle_frame e s f h = (v, h1)" by force
  then have "registry h1 = registry h" using frame_registry [of e s f h] by simp
  then have 1: "sockets_ok h1" by (rule sockets_ok_same [OF ok])
  then have "sockets_ok (post s r h1)" for r by (rule sockets_ok_same) simp
  then show ?thesis using 1 by (auto simp: receive_def f intro: cleanup_ok split: option.split)
qed

lemma command_ok: "sockets_ok h \<Longrightarrow> sockets_ok (snd (send_command user c sent h))"
proof -
  assume ok: "sockets_ok h"
  have "sockets_ok (close_socket s h)" "sockets_ok (post s r h)" for s r by (rule sockets_ok_same [OF ok], simp)+
  then show ?thesis using ok by (auto simp: send_command_def intro: disconnect_ok split: option.split)
qed

lemma status_ok: "sockets_ok h \<Longrightarrow> sockets_ok (snd (get_copilot_status user h))"
  by (auto simp: get_copilot_status_def intro: disconnect_ok split: option.split)

lemma hub_step_registry: "hub_step now h a h' \<Longrightarrow> sockets_ok h \<Longrightarrow> sockets_ok h'"
  by (induction rule: hub_step.induct)
    (auto intro: open_ok receive_ok cleanup_ok command_ok status_ok elim: sockets_ok_same)

lemma hub_run_registry: "hub_run ps t h \<Longrightarrow> sockets_ok h"
proof (induction rule: hub_run.induct)
  case (start t)
  show ?case by (simp add: sockets_ok_def new_hub_def)
next
  case (step t h now a h')
  then show ?case using hub_step_registry by blast
qed

section \<open>The invariant of the tasks\<close>

definition tasks_ok :: "hub \<Rightarrow> bool" where
  "tasks_ok h \<longleftrightarrow> distinct (map fst (running h)) \<and> distinct (map snd (running h)) \<and>
     (\<forall>(k, s) \<in> set (running h). map_of (inflight h) s = Some k \<or> s \<in> set (closed h)) \<and>
     (\<forall>(s, k) \<in> set (inflight h). (k, s) \<in> set (running h))"

definition tasks :: "hub \<Rightarrow> (nat \<times> string) list \<times> (string \<times> nat) list \<times> string list" where
  "tasks h = (running h, inflight h, closed h)"

lemma tasks_ok_same: "tasks_ok h \<Longrightarrow> tasks h' = tasks h \<Longrightarrow> tasks_ok h'"
  by (simp add: tasks_ok_def tasks_def)


lemma tasks_post [simp]: "tasks (post s r h) = tasks h"
  by (simp add: tasks_def post_def)

lemma tasks_rates [simp]:
  "tasks (snd (check_message_rate now s h)) = tasks h" "tasks (snd (check_connection_rate now user h)) = tasks h"
  by (auto simp: tasks_def check_message_rate_def check_connection_rate_def Let_def)

lemma tasks_ping [simp]: "tasks (ping s n h) = tasks h"
  by (simp add: tasks_def ping_def)

lemma one_task:
  "tasks_ok h \<Longrightarrow> (k, s) \<in> set (running h) \<Longrightarrow> (k', s') \<in> set (running h) \<Longrightarrow> k = k' \<or> s = s' \<Longrightarrow> k = k' \<and> s = s'"
proof -
  assume ok: "tasks_ok h" and 1: "(k, s) \<in> set (running h)" and 2: "(k', s') \<in> set (running h)" and e: "k = k' \<or> s = s'"
  have "inj_on fst (set (running h))" "inj_on snd (set (running h))" using ok by (auto simp: tasks_ok_def distinct_map)
  then show "k = k' \<and> s = s'" using e inj_onD [OF _ _ 1 2, of fst] inj_onD [OF _ _ 1 2, of snd] by auto
qed

lemma set_delete: "set (AList.delete x m) = {p \<in> set m. fst p \<noteq> x}"
  by (auto simp: AList.delete_eq)

lemma distinct_delete: "distinct (map f m) \<Longrightarrow> distinct (map f (AList.delete x m))"
  by (simp add: AList.delete_eq distinct_map_filter)

lemma tasks_close: "tasks_ok h \<Longrightarrow> tasks_ok (close_socket s h)"
  by (auto simp: tasks_ok_def close_socket_def)

lemma tasks_disconnect: "tasks_ok h \<Longrightarrow> s \<in> set (closed h) \<Longrightarrow> tasks_ok (disconnect s h)"
  by (auto simp: tasks_ok_def disconnect_def delete_conv' set_delete)

lemma delete_task:
  assumes ok: "tasks_ok h" and r: "(k, s) \<in> set (running h)"
  shows "tasks_ok (h\<lparr>running := AList.delete k (running h), inflight := AList.delete s (inflight h)\<rparr>)"
proof -
  have 1: "distinct (map fst (AList.delete k (running h)))" "distinct (map snd (AList.delete k (running h)))"
    using ok by (simp_all add: tasks_ok_def distinct_delete)
  have 2: "map_of (AList.delete s (inflight h)) t = Some j \<or> t \<in> set (closed h)" if "(j, t) \<in> set (running h)" "j \<noteq> k" for j t
  proof -
    have "t \<noteq> s" using one_task [OF ok that(1) r] that(2) by blast
    moreover have "map_of (inflight h) t = Some j \<or> t \<in> set (closed h)" using ok that(1) by (auto simp: tasks_ok_def)
    ultimately show ?thesis by (simp add: delete_conv')
  qed
  have 3: "(j, t) \<in> set (running h) \<and> j \<noteq> k" if "(t, j) \<in> set (inflight h)" "t \<noteq> s" for j t
  proof -
    have "(j, t) \<in> set (running h)" using ok that(1) by (auto simp: tasks_ok_def)
    then show ?thesis using one_task [OF ok _ r] that(2) by blast
  qed
  show ?thesis using 1 2 3 by (auto simp: tasks_ok_def set_delete)
qed

lemma tasks_cancel: "tasks_ok h \<Longrightarrow> tasks_ok (cancel_inflight s h)"
proof (cases "map_of (inflight h) s")
  case (Some k)
  assume ok: "tasks_ok h"
  then have r: "(k, s) \<in> set (running h)" using map_of_SomeD [OF Some] by (auto simp: tasks_ok_def)
  then have "k \<in> fst ` set (running h)" by force
  then have c: "cancel_inflight s h = (post s (Stopped None) h)\<lparr>running := AList.delete k (running h), inflight := AList.delete s (inflight h)\<rparr>"
    by (simp add: cancel_inflight_def Some)
  show ?thesis by (rule tasks_ok_same [OF delete_task [OF ok r]]) (simp add: c tasks_def post_def)
qed (simp add: cancel_inflight_def)

lemma tasks_cleanup: "tasks_ok h \<Longrightarrow> tasks_ok (cleanup s h)"
  unfolding cleanup_def by (intro tasks_disconnect tasks_close tasks_cancel) (simp_all add: close_socket_def)

lemma tasks_replace: "tasks_ok h \<Longrightarrow> tasks_ok (replace_old user h)"
  using tasks_cleanup by (auto simp: replace_old_def cleanup_def split: option.split)

lemma tasks_finish: "tasks_ok h \<Longrightarrow> (k, s) \<in> set (running h) \<Longrightarrow> tasks_ok (finish_task k s r h)"
  by (rule tasks_ok_same, rule delete_task, assumption, assumption)
    (auto simp: finish_task_def Let_def post_def update_balance_def tasks_def split: task_end.split option.split)

lemma tasks_start:
  assumes ok: "tasks_ok h" and n: "\<not> is_running s h" "s \<notin> set (closed h)" "k \<notin> fst ` set (running h)"
  shows "tasks_ok (start_task k s h)"
proof -
  have a: "(j, s) \<notin> set (running h)" for j
    using ok n(1,2) unfolding tasks_ok_def is_running_def by force
  then have "s \<notin> fst ` set (inflight h)" using ok by (force simp: tasks_ok_def)
  then have u: "AList.update s k (inflight h) = inflight h @ [(s, k)]"
  proof -
    have "AList.update x y m = m @ [(x, y)]" if "x \<notin> fst ` set m" for x :: string and y :: nat and m
      using that by (induction m) auto
    then show ?thesis using \<open>s \<notin> fst ` set (inflight h)\<close> by blast
  qed
  have d: "distinct (map fst (running h))" "distinct (map snd (running h))" "k \<notin> set (map fst (running h))" "s \<notin> set (map snd (running h))"
    using ok n(3) a by (auto simp: tasks_ok_def)
  have e: "map_of (inflight h @ [(s, k)]) t = Some j \<or> t \<in> set (closed h)" if "(j, t) \<in> set ((k, s) # running h)" for j t
  proof (cases "t = s")
    case True
    then have "j = k" using that a by auto
    moreover have "map_of (inflight h) s = None" using \<open>s \<notin> fst ` set (inflight h)\<close> by (simp add: map_of_eq_None_iff)
    ultimately show ?thesis using True by (simp add: map_add_def)
  next
    case False
    then show ?thesis using that ok by (auto simp: tasks_ok_def map_add_def)
  qed
  have g: "(j, t) \<in> set ((k, s) # running h)" if "(t, j) \<in> set (inflight h @ [(s, k)])" for j t
    using that ok by (auto simp: tasks_ok_def)
  have e': "\<forall>(j, t) \<in> set ((k, s) # running h). map_of (inflight h @ [(s, k)]) t = Some j \<or> t \<in> set (closed h)" using e by blast
  have g': "\<forall>(t, j) \<in> set (inflight h @ [(s, k)]). (j, t) \<in> set ((k, s) # running h)" using g by blast
  show ?thesis unfolding tasks_ok_def start_task_def using d e' g' by (simp add: u)
qed

lemma tasks_frame:
  assumes ok: "tasks_ok h" and n: "s \<notin> set (closed h)" "le_task e \<notin> fst ` set (running h)"
  shows "tasks_ok (snd (handle_frame e s f h))"
proof (cases f)
  case (Brain b)
  have same: "tasks h1 = tasks h" if "check_message_rate now s h = (x, h1)" for now x h1
    using tasks_rates(1) [of now s h] that by simp
  have "tasks_ok (snd (answer_message owner (le_task e) s b h1))" if "tasks h1 = tasks h" "\<not> is_running s h1" for owner h1
  proof -
    let ?h = "h1\<lparr>metered := metered h1 @ [s]\<rparr>"
    have t: "tasks ?h = tasks h" using that(1) by (simp add: tasks_def)
    have 1: "tasks_ok ?h" by (rule tasks_ok_same [OF ok t])
    have "\<not> is_running s ?h" using that(2) by (auto simp: is_running_def split: option.splits)
    then have 2: "tasks_ok (start_task (le_task e) s ?h)" using tasks_start [OF 1] n t by (simp add: tasks_def)
    show ?thesis using 1 2 by (auto simp: answer_message_def Let_def split: option.split)
  qed
  then show ?thesis using ok same by (auto simp: Brain handle_frame_def handle_brain_def split: option.split prod.split bool.split
      intro: tasks_ok_same)
next
  case (Stop i)
  then show ?thesis using ok tasks_cancel by (auto simp: handle_frame_def handle_stop_def)
next
  case (Pong n)
  show ?thesis by (rule tasks_ok_same [OF ok]) (auto simp: Pong handle_frame_def handle_pong_def tasks_def split: option.split)
next
  case (Snapshot n v)
  show ?thesis by (rule tasks_ok_same [OF ok]) (auto simp: Snapshot handle_frame_def handle_snapshot_def tasks_def split: option.split)
next
  case (Confirm i)
  show ?thesis by (rule tasks_ok_same [OF ok]) (auto simp: Confirm handle_frame_def handle_confirm_def tasks_def split: prod.split)
qed (use ok in \<open>simp_all add: handle_frame_def\<close>)

lemma tasks_receive:
  assumes ok: "tasks_ok h" and n: "s \<notin> set (closed h)" "le_task e \<notin> fst ` set (running h)"
  shows "tasks_ok (receive e s f sent h)"
proof -
  obtain v h1 where f: "handle_frame e s f h = (v, h1)" by force
  then have 1: "tasks_ok h1" using tasks_frame [OF assms, of f] by simp
  then have "tasks_ok (post s r h1)" for r by (rule tasks_ok_same) simp
  then show ?thesis using 1 by (auto simp: receive_def f intro: tasks_cleanup split: option.split)
qed

lemma tasks_open: "tasks_ok h \<Longrightarrow> tasks_ok (open_connection now s v greeted h)"
proof (cases v)
  case (Some u)
  assume ok: "tasks_ok h"
  obtain x h1 where c: "check_connection_rate now (au_user_id u) h = (x, h1)" by force
  then have 1: "tasks_ok h1" using tasks_rates(2) [of now "au_user_id u" h] by (intro tasks_ok_same [OF ok]) simp
  have 2: "tasks_ok (connect now s u h1)"
    by (rule tasks_ok_same [OF tasks_replace [OF 1]]) (simp add: connect_def Let_def tasks_def)
  then have "tasks_ok (post s Greeting (connect now s u h1))" by (rule tasks_ok_same) simp
  then show ?thesis using 1 tasks_close [OF 2] by (simp add: open_connection_def Some c Let_def split: bool.split)
qed (simp add: open_connection_def)

text \<open>With the registry's invariant a user's session is registered, so that the stale branches do not occur.\<close>

lemma session_active: "sockets_ok h \<Longrightarrow> get_session_for_user user h = Some s \<Longrightarrow> s \<in> set (active h) \<and> s \<noteq> []"
  by (auto simp: get_session_for_user_def sockets_ok_def dest: map_of_SomeD)

lemma command_cases:
  assumes "sockets_ok h"
  shows "snd (send_command user c sent h) \<in> {h} \<union> {post s r h | s r. True} \<union>
    {disconnect s (close_socket s h) | s. get_session_for_user user h = Some s}"
  using session_active [OF assms, of user] by (auto simp: send_command_def get_ws_def split: option.split)

lemma status_same: "sockets_ok h \<Longrightarrow> snd (get_copilot_status user h) = h"
  using session_active [of h user] by (auto simp: get_copilot_status_def get_ws_def split: option.split)

lemma hub_step_tasks: "hub_step now h a h' \<Longrightarrow> sockets_ok h \<Longrightarrow> tasks_ok h \<Longrightarrow> tasks_ok h'"
proof (induction rule: hub_step.induct)
  case (commanded now h user c sent)
  have "tasks_ok (post s r h)" for s r by (rule tasks_ok_same [OF commanded.prems(2)]) simp
  moreover have "tasks_ok (disconnect s (close_socket s h))" for s
    by (rule tasks_disconnect [OF tasks_close [OF commanded.prems(2)]]) (simp add: close_socket_def)
  ultimately show ?case using command_cases [OF commanded.prems(1), of user c sent] commanded.prems(2) by auto
next
  case (pinged s h now nonce)
  show ?case by (rule tasks_ok_same [OF pinged.prems(2)]) simp
qed (auto simp: tasks_open tasks_receive tasks_cleanup tasks_finish status_same pong_timeout_def tasks_close)

lemma hub_run_tasks: "hub_run ps t h \<Longrightarrow> tasks_ok h"
proof (induction rule: hub_run.induct)
  case (start t)
  show ?case by (simp add: tasks_ok_def new_hub_def)
next
  case (step t h now a h')
  then show ?case using hub_step_tasks hub_run_registry by blast
qed


section \<open>The invariant of the message rate\<close>

definition times_of :: "string \<Rightarrow> (string \<times> time) list \<Rightarrow> time list" where
  "times_of s acc = map snd (filter (\<lambda>p. fst p = s) acc)"

definition rate_ok :: "time \<Rightarrow> hub \<Rightarrow> bool" where
  "rate_ok t h \<longleftrightarrow>
     (\<forall>s. (if s \<in> set (active h) then win_ok (seconds 60) MAX_MESSAGES_PER_MINUTE t (stamps_of (message_stamps h) s) (times_of s (accepted h))
           else stamps_of (message_stamps h) s = [] \<and> (\<forall>x. in_span (seconds 60) x (times_of s (accepted h)) \<le> MAX_MESSAGES_PER_MINUTE)) \<and>
          (times_of s (accepted h) \<noteq> [] \<longrightarrow> s \<in> set (active h) \<or> s \<in> set (closed h)))"

definition rates :: "hub \<Rightarrow> string list \<times> (string \<times> time list) list \<times> (string \<times> time) list" where
  "rates h = (active h, message_stamps h, accepted h)"

lemma rate_ok_same:
  "rate_ok t h \<Longrightarrow> rates h' = rates h \<Longrightarrow> set (closed h) \<subseteq> set (closed h') \<Longrightarrow> t \<le> t' \<Longrightarrow> rate_ok t' h'"
  by (fastforce simp: rate_ok_def rates_def intro: win_ok_later split: if_splits)

lemma stamps_delete [simp]: "stamps_of (AList.delete s m) x = (if x = s then [] else stamps_of m x)"
  by (simp add: stamps_of_def delete_conv')

lemma stamps_update [simp]: "stamps_of (AList.update s ts m) x = (if x = s then ts else stamps_of m x)"
  by (simp add: stamps_of_def update_conv')

lemma rate_disconnect: "rate_ok t h \<Longrightarrow> s \<in> set (closed h) \<Longrightarrow> rate_ok t (disconnect s h)"
  by (auto simp: rate_ok_def disconnect_def win_ok_def split: if_splits)

lemma rates_simps [simp]:
  "rates (post s r h) = rates h" "rates (close_socket s h) = rates h" "rates (cancel_inflight s h) = rates h"
  "rates (ping s n h) = rates h" "rates (pong_timeout s h) = rates h" "rates (snd (check_connection_rate now user h)) = rates h"
  "rates (finish_task k s x h) = rates h"
  by (auto simp: rates_def post_def close_socket_def cancel_inflight_def ping_def pong_timeout_def check_connection_rate_def Let_def
      finish_task_def update_balance_def split: option.split task_end.split)

lemma closed_simps [simp]:
  "closed (post s r h) = closed h" "closed (close_socket s h) = s # closed h" "closed (cancel_inflight s h) = closed h"
  "closed (ping s n h) = closed h" "closed (snd (check_connection_rate now user h)) = closed h" "closed (finish_task k s x h) = closed h"
  "closed (disconnect s h) = closed h"
  by (auto simp: post_def close_socket_def cancel_inflight_def ping_def check_connection_rate_def Let_def disconnect_def
      finish_task_def update_balance_def split: option.split task_end.split)

lemma rate_close: "rate_ok t h \<Longrightarrow> rate_ok t (close_socket s h)"
  by (erule rate_ok_same) auto

lemma rate_cleanup: "rate_ok t h \<Longrightarrow> rate_ok t (cleanup s h)"
  unfolding cleanup_def by (intro rate_disconnect rate_close, erule rate_ok_same) auto

lemma rate_replace: "rate_ok t h \<Longrightarrow> rate_ok t (replace_old user h)"
  using rate_cleanup by (auto simp: replace_old_def cleanup_def split: option.split)

lemma replace_closed: "set (closed h) \<subseteq> set (closed (replace_old user h))"
  by (auto simp: replace_old_def split: option.split)

lemma rate_connect:
  assumes ok: "rate_ok t h" and f: "s \<notin> set (active h)" "s \<notin> set (closed h)"
  shows "rate_ok t (connect now s u h)"
proof -
  let ?h = "replace_old (au_user_id u) h"
  have 1: "rate_ok t ?h" by (rule rate_replace [OF ok])
  have a: "accepted ?h = accepted h"
    by (auto simp: replace_old_def disconnect_def close_socket_def cancel_inflight_def post_def split: option.split)
  have n: "s \<notin> set (active ?h)"
    using f(1) by (auto simp: replace_old_def disconnect_def close_socket_def cancel_inflight_def post_def split: option.splits if_splits)
  have e: "times_of s (accepted ?h) = []" using ok f by (auto simp: rate_ok_def a)
  have "stamps_of (message_stamps ?h) s = []" using 1 n by (auto simp: rate_ok_def)
  then show ?thesis using 1 n e by (auto simp: rate_ok_def connect_def Let_def win_ok_empty)
qed

lemma rate_message:
  assumes ok: "rate_ok t h" and a: "s \<in> set (active h)" and t: "t \<le> now"
  shows "rate_ok now (snd (check_message_rate now s h))"
proof -
  have n: "rate_ok now h" by (rule rate_ok_same [OF ok refl subset_refl t])
  let ?ts = "filter (\<lambda>t. now - t < seconds 60) (stamps_of (message_stamps h) s)"
  have p: "?ts = prune (seconds 60) now (stamps_of (message_stamps h) s)"
    by (auto simp: prune_def intro!: filter_cong)
  have w: "win_ok (seconds 60) MAX_MESSAGES_PER_MINUTE now (stamps_of (message_stamps h) s) (times_of s (accepted h))"
    using n a by (auto simp: rate_ok_def)
  show ?thesis
  proof (cases "length ?ts \<ge> MAX_MESSAGES_PER_MINUTE")
    case True
    then have "snd (check_message_rate now s h) = h\<lparr>message_stamps := AList.update s ?ts (message_stamps h)\<rparr>"
      by (simp add: check_message_rate_def Let_def)
    moreover have "win_ok (seconds 60) MAX_MESSAGES_PER_MINUTE now ?ts (times_of s (accepted h))" unfolding p by (rule win_ok_prune [OF w])
    ultimately show ?thesis using n a by (auto simp: rate_ok_def)
  next
    case False
    then have e: "snd (check_message_rate now s h) =
        h\<lparr>message_stamps := AList.update s (?ts @ [now]) (message_stamps h), accepted := accepted h @ [(s, now)]\<rparr>"
      by (simp add: check_message_rate_def Let_def)
    have "win_ok (seconds 60) MAX_MESSAGES_PER_MINUTE now (?ts @ [now]) (times_of s (accepted h) @ [now])"
      using win_ok_record [OF w] False by (simp add: p record_event_def)
    moreover have "times_of x (accepted h @ [(s, now)]) = (if x = s then times_of s (accepted h) @ [now] else times_of x (accepted h))" for x
      by (simp add: times_of_def)
    ultimately show ?thesis using n a unfolding rate_ok_def e by auto
  qed
qed


lemma rate_frame:
  assumes ok: "rate_ok t h" and a: "s \<in> set (active h)" and t: "t \<le> le_time e"
  shows "rate_ok (le_time e) (snd (handle_frame e s f h))"
proof (cases f)
  case (Brain b)
  have m: "rate_ok (le_time e) h1" if "check_message_rate (le_time e) s h = (x, h1)" for x h1
    using rate_message [OF ok a t] that by simp
  have "rate_ok (le_time e) (snd (answer_message owner (le_task e) s b h1))" if "rate_ok (le_time e) h1" for owner h1
    by (rule rate_ok_same [OF that]) (auto simp: answer_message_def Let_def start_task_def rates_def split: option.split)
  moreover have "rate_ok (le_time e) h" by (rule rate_ok_same [OF ok refl subset_refl t])
  ultimately show ?thesis using m by (auto simp: Brain handle_frame_def handle_brain_def split: option.split prod.split bool.split)
qed (rule rate_ok_same [OF ok _ _ t];
     auto simp: handle_frame_def handle_stop_def handle_pong_def handle_snapshot_def handle_confirm_def rates_def
       cancel_inflight_def post_def split: option.split prod.split)+

lemma rate_receive:
  assumes ok: "rate_ok t h" and a: "s \<in> set (active h)" and t: "t \<le> le_time e"
  shows "rate_ok (le_time e) (receive e s f sent h)"
proof -
  obtain v h1 where f: "handle_frame e s f h = (v, h1)" by force
  then have 1: "rate_ok (le_time e) h1" using rate_frame [OF assms, of f] by simp
  then have "rate_ok (le_time e) (post s r h1)" for r by (rule rate_ok_same) simp_all
  then show ?thesis using 1 by (auto simp: receive_def f intro: rate_cleanup split: option.split)
qed

lemma rate_open:
  assumes ok: "rate_ok t h" and f: "fresh_session s h"
  shows "rate_ok t (open_connection now s v greeted h)"
proof (cases v)
  case None
  then show ?thesis using ok by (simp add: open_connection_def)
next
  case (Some u)
  obtain x h1 where c: "check_connection_rate now (au_user_id u) h = (x, h1)" by force
  have r: "rates h1 = rates h" "closed h1 = closed h"
    using rates_simps(6) [of now "au_user_id u" h] closed_simps(5) [of now "au_user_id u" h] c by simp_all
  have 1: "rate_ok t h1" by (rule rate_ok_same [OF ok r(1)]) (simp_all add: r(2))
  have 2: "rate_ok t (connect now s u h1)" using f r by (intro rate_connect [OF 1]) (auto simp: fresh_session_def rates_def)
  have "rate_ok t (post s Greeting (connect now s u h1))" by (rule rate_ok_same [OF 2]) simp_all
  then show ?thesis using 1 rate_close [OF 2] by (simp add: open_connection_def Some c Let_def split: bool.split)
qed

lemma hub_step_rate: "hub_step now h a h' \<Longrightarrow> sockets_ok h \<Longrightarrow> rate_ok t h \<Longrightarrow> t \<le> now \<Longrightarrow> rate_ok now h'"
proof (induction rule: hub_step.induct)
  case (opened s h now v greeted)
  then show ?case using rate_open rate_ok_same [OF _ refl subset_refl] by blast
next
  case (received s h e now f sent)
  then show ?case using rate_receive by blast
next
  case (commanded now h user c sent)
  then have n: "rate_ok now h" using rate_ok_same [OF _ refl subset_refl] by blast
  have "rate_ok now (post s r h)" for s r by (rule rate_ok_same [OF n]) simp_all
  moreover have "rate_ok now (disconnect s (close_socket s h))" for s by (rule rate_disconnect [OF rate_close [OF n]]) simp
  ultimately show ?case using command_cases [OF commanded.prems(1), of user c sent] n by auto
next
  case (asked now h user)
  then show ?case using status_same rate_ok_same [OF _ refl subset_refl] by metis
next
  case (ended s h now)
  then show ?case using rate_cleanup rate_ok_same [OF _ refl subset_refl] by blast
next
  case (finished k s h now r)
  show ?case by (rule rate_ok_same [OF finished.prems(2) _ _ finished.prems(3)]) simp_all
next
  case (pinged s h now nonce)
  show ?case by (rule rate_ok_same [OF pinged.prems(2) _ _ pinged.prems(3)]) simp_all
next
  case (timed_out s h now)
  have "set (closed h) \<subseteq> set (closed (pong_timeout s h))" by (auto simp: pong_timeout_def)
  then show ?case by (intro rate_ok_same [OF timed_out.prems(2) _ _ timed_out.prems(3)]) simp_all
qed

lemma hub_run_rate: "hub_run ps t h \<Longrightarrow> rate_ok t h"
proof (induction rule: hub_run.induct)
  case (start t)
  show ?case by (simp add: rate_ok_def new_hub_def times_of_def stamps_of_def in_span_def)
next
  case (step t h now a h')
  then show ?case using hub_step_rate hub_run_registry by blast
qed

section \<open>Properties\<close>

text \<open>C23: A user has one connection. In every reachable state two registered sessions of the same user are the same
  session, and it is the one that commands and the status report find for the user.\<close>

theorem one_connection_per_user:
  assumes "hub_run ps t h" "s \<in> set (active h)" "get_user s h = Some u"
  shows "get_session_for_user (au_user_id u) h = Some s \<and>
    (\<forall>s' \<in> set (active h). \<forall>u'. get_user s' h = Some u' \<longrightarrow> au_user_id u' = au_user_id u \<longrightarrow> s' = s)"
proof -
  have ok: "sockets_ok h" by (rule hub_run_registry [OF assms(1)])
  have f: "get_session_for_user (au_user_id v) h = Some x" if x: "x \<in> set (active h)" "get_user x h = Some v" for x v
  proof -
    obtain user where u: "(user, x) \<in> set (user_sessions h)" using active_user [OF ok x(1)] by blast
    then have "registered h x user" by (rule user_registered [OF ok])
    then have "user = au_user_id v" using x(2) by (auto simp: registered_def get_user_def)
    moreover have "distinct (map fst (user_sessions h))" using ok unfolding sockets_ok_def by blast
    ultimately show ?thesis using u by (simp add: get_session_for_user_def)
  qed
  show ?thesis using f assms(2,3) by (metis option.inject)
qed

text \<open>A history: Ann connects and sends a message.\<close>

definition sample_loop :: loop_env where
  "sample_loop = \<lparr>le_time = 5, le_task = 7, le_owner = (\<lambda>_. None), le_digest = (\<lambda>_. []), le_objects = (\<lambda>_. []), le_executed = True,
     le_user = ''ann''\<rparr>"

definition ann :: authenticated_user where
  "ann = \<lparr>au_user_id = ''ann'', au_key_id = ''k'', au_scopes = default_scopes, au_balance = Some 3, au_trial = None\<rparr>"

definition sample_brain :: "string list \<Rightarrow> brain" where
  "sample_brain refs = \<lparr>br_text = ''hi'', br_metering = Allowed, br_attachments = refs, br_message_id = None\<rparr>"

definition sample_hub :: hub where
  "sample_hub = open_connection 0 ''s'' (Some ann) True (new_hub [])"

definition busy_hub :: hub where
  "busy_hub = receive sample_loop ''s'' (Brain (sample_brain [])) True sample_hub"

lemma sample_run: "hub_run [] 0 sample_hub" "hub_run [] 5 busy_hub"
proof -
  have "fresh_session ''s'' (new_hub [])" by code_simp
  then have "hub_step 0 (new_hub []) (Opened ''s'' (Some ann) True) sample_hub"
    unfolding sample_hub_def by (rule hub_step.opened)
  then show s: "hub_run [] 0 sample_hub" by (rule hub_run.step [OF hub_run.start order_refl])
  have "''s'' \<in> set (active sample_hub)" "''s'' \<notin> set (closed sample_hub)" "le_task sample_loop \<notin> fst ` set (running sample_hub)"
    "le_time sample_loop = 5"
    by code_simp+
  then have "hub_step 5 sample_hub (Received ''s'' (Brain (sample_brain []))) busy_hub"
    unfolding busy_hub_def by (intro hub_step.received)
  then show "hub_run [] 5 busy_hub" using hub_run.step [OF s] by simp
qed

theorem one_connection_per_user_witness:
  "get_session_for_user ''ann'' sample_hub = Some ''s''"
proof -
  have "''s'' \<in> set (active sample_hub)" "get_user ''s'' sample_hub = Some ann" "au_user_id ann = ''ann''" by code_simp+
  then show ?thesis using one_connection_per_user [OF sample_run(1)] by metis
qed

lemma only_key: "(a, b) \<in> A \<Longrightarrow> (\<And>k. (k, b) \<in> A \<Longrightarrow> k = a) \<Longrightarrow> fst ` {x \<in> A. snd x = b} = {a}"
proof (rule equalityI; rule subsetI)
  assume k: "\<And>k. (k, b) \<in> A \<Longrightarrow> k = a"
  fix x assume "x \<in> fst ` {x \<in> A. snd x = b}"
  then have "(x, b) \<in> A" by auto
  then show "x \<in> {a}" using k [of x] by blast
next
  fix x assume "(a, b) \<in> A" "x \<in> {a}"
  then show "x \<in> fst ` {x \<in> A. snd x = b}" by (auto intro: rev_image_eqI)
qed

text \<open>C40: A session answers one message at a time. In every reachable state a session has at most one running task, so
  that a second message is refused until the first is answered, stopped or failed.\<close>

theorem one_answer_at_a_time:
  assumes "hub_run ps t h" "(k, s) \<in> set (running h)" "(k', s) \<in> set (running h)"
  shows "k = k'"
  using one_task [OF hub_run_tasks [OF assms(1)] assms(2,3)] by simp

theorem one_answer_at_a_time_witness:
  "fst ` {x \<in> set (running busy_hub). snd x = ''s''} = {7}"
proof -
  have a: "(7, ''s'') \<in> set (running busy_hub)" by code_simp
  have k: "k' = 7" if k: "(k', ''s'') \<in> set (running busy_hub)" for k'
    using one_answer_at_a_time [OF sample_run(2) k a] .
  show ?thesis by (rule only_key [OF a k])
qed

text \<open>Also: A session gets at most thirty messages through its rate limit in any minute, whatever interleaving of
  connections, frames, answers and commands.\<close>

theorem messages_per_minute:
  assumes "hub_run ps t h"
  shows "in_span (seconds 60) x (times_of s (accepted h)) \<le> 30"
  using hub_run_rate [OF assms] by (auto simp: rate_ok_def win_ok_def MAX_MESSAGES_PER_MINUTE_def split: if_splits)


theorem messages_per_minute_witness:
  "times_of ''s'' (accepted busy_hub) = [5] \<and> in_span (seconds 60) 5 (times_of ''s'' (accepted busy_hub)) \<le> 30"
proof
  show "times_of ''s'' (accepted busy_hub) = [5]" by code_simp
  show "in_span (seconds 60) 5 (times_of ''s'' (accepted busy_hub)) \<le> 30" by (rule messages_per_minute [OF sample_run(2)])
qed

text \<open>What a connection whose greeting failed is: registered, with a closed socket that has no loop.\<close>

definition lingering :: "string \<Rightarrow> string \<Rightarrow> hub \<Rightarrow> bool" where
  "lingering user s h \<longleftrightarrow> get_session_for_user user h = Some s \<and> s \<in> set (closed h) \<and> (s, Greeting) \<notin> set (outbox h)"

definition no_greeting :: "reply \<Rightarrow> bool" where
  "no_greeting r \<longleftrightarrow> r \<noteq> Greeting"

lemma lingering_post: "lingering user s h \<Longrightarrow> no_greeting r \<or> s' \<noteq> s \<Longrightarrow> lingering user s (post s' r h)"
  by (auto simp: lingering_def post_def get_session_for_user_def no_greeting_def)

lemma lingering_disconnect: "sockets_ok h \<Longrightarrow> lingering user s h \<Longrightarrow> s' \<noteq> s \<Longrightarrow> lingering user s (disconnect s' h)"
proof -
  assume ok: "sockets_ok h" and l: "lingering user s h" and n: "s' \<noteq> s"
  have "(user, s) \<in> set (user_sessions h)" using l by (auto simp: lingering_def get_session_for_user_def dest: map_of_SomeD)
  moreover have "distinct (map fst (filter (\<lambda>p. snd p \<noteq> s') (user_sessions h)))"
    using ok by (auto simp: sockets_ok_def intro: distinct_map_filter)
  ultimately have "map_of (filter (\<lambda>p. snd p \<noteq> s') (user_sessions h)) user = Some s" using n by simp
  then show ?thesis using l by (simp add: lingering_def disconnect_def get_session_for_user_def)
qed

lemma lingering_cancel: "lingering user s h \<Longrightarrow> lingering user s (cancel_inflight s' h)"
  by (auto simp: lingering_def get_session_for_user_def cancel_inflight_def post_def split: option.split)

lemma lingering_close: "lingering user s h \<Longrightarrow> lingering user s (close_socket s' h)"
  by (simp add: lingering_def get_session_for_user_def close_socket_def)

lemma lingering_cleanup: "sockets_ok h \<Longrightarrow> lingering user s h \<Longrightarrow> s' \<noteq> s \<Longrightarrow> lingering user s (cleanup s' h)"
  unfolding cleanup_def
  by (intro lingering_disconnect lingering_close lingering_cancel; (rule sockets_ok_same)?) simp_all

lemma frame_rest: "user_sessions (snd (handle_frame e s f h)) = user_sessions h" "closed (snd (handle_frame e s f h)) = closed h"
  "set (outbox (snd (handle_frame e s f h))) \<subseteq> set (outbox h) \<union> {(s, Stopped None)}"
proof -
  have m: "user_sessions h1 = user_sessions h" "closed h1 = closed h" "outbox h1 = outbox h"
    if "check_message_rate now s h = (x, h1)" for now x h1
    using that by (auto simp: check_message_rate_def Let_def split: if_splits)
  have a: "user_sessions (snd (answer_message w k s b h1)) = user_sessions h1" "closed (snd (answer_message w k s b h1)) = closed h1"
    "outbox (snd (answer_message w k s b h1)) = outbox h1" for w k b h1
    by (auto simp: answer_message_def Let_def start_task_def split: option.split)
  have b: "user_sessions (snd (handle_brain w now k s b h)) = user_sessions h" "closed (snd (handle_brain w now k s b h)) = closed h"
    "outbox (snd (handle_brain w now k s b h)) = outbox h" for w now k b
    by (auto simp: handle_brain_def a m split: option.split prod.split bool.split)
  show "user_sessions (snd (handle_frame e s f h)) = user_sessions h" "closed (snd (handle_frame e s f h)) = closed h"
    by (cases f; auto simp: handle_frame_def b handle_stop_def handle_pong_def handle_snapshot_def handle_confirm_def
        cancel_inflight_def post_def split: option.split prod.split)+
  show "set (outbox (snd (handle_frame e s f h))) \<subseteq> set (outbox h) \<union> {(s, Stopped None)}"
    by (cases f) (auto simp: handle_frame_def b handle_stop_def handle_pong_def handle_snapshot_def handle_confirm_def
        cancel_inflight_def post_def split: option.split prod.split)
qed

lemma reply_not_greeting: "handle_frame e s f h = (Some r, h') \<Longrightarrow> no_greeting r"
  by (auto simp: handle_frame_def handle_stop_def handle_snapshot_def handle_confirm_def handle_brain_def answer_message_def Let_def
      refusal_def no_greeting_def split: frame.splits option.splits prod.splits bool.splits if_splits metering_result.splits)

lemma lingering_receive:
  assumes ok: "sockets_ok h" and l: "lingering user s h" and n: "s' \<noteq> s"
  shows "lingering user s (receive e s' f sent h)"
proof -
  obtain v h1 where f: "handle_frame e s' f h = (v, h1)" by force
  have r: "registry h1 = registry h" using frame_registry [of e s' f h] f by simp
  have 1: "lingering user s h1" using l n frame_rest [of e s' f h] f by (auto simp: lingering_def get_session_for_user_def)
  then show ?thesis using lingering_cleanup [OF sockets_ok_same [OF ok r] 1 n] lingering_post [OF 1] n
    by (auto simp: receive_def f split: option.split)
qed

lemma lingering_open:
  assumes ok: "sockets_ok h" and l: "lingering user s h" and f: "fresh_session s' h" and u: "\<forall>u. v = Some u \<longrightarrow> au_user_id u \<noteq> user"
  shows "lingering user s (open_connection now s' v greeted h)"
proof (cases v)
  case None
  then show ?thesis using l by (simp add: open_connection_def)
next
  case (Some a)
  obtain x h1 where c: "check_connection_rate now (au_user_id a) h = (x, h1)" by force
  have same: "user_sessions h1 = user_sessions h" "closed h1 = closed h" "outbox h1 = outbox h"
    using c by (auto simp: check_connection_rate_def Let_def split: if_splits)
  have l1: "lingering user s h1" using l by (simp add: lingering_def get_session_for_user_def same)
  have ok1: "sockets_ok h1" using registry_rates(2) [of now "au_user_id a" h] c by (intro sockets_ok_same [OF ok]) simp
  have n: "s' \<noteq> s" using f l by (auto simp: fresh_session_def lingering_def)
  have nu: "au_user_id a \<noteq> user" using u Some by blast
  have "lingering user s (replace_old (au_user_id a) h1)"
  proof (cases "map_of (user_sessions h1) (au_user_id a)")
    case None
    then show ?thesis using l1 by (simp add: replace_old_def)
  next
    case (Some t)
    have "registered h1 t (au_user_id a)" "registered h1 s user"
      using ok1 Some l1 unfolding sockets_ok_def lingering_def get_session_for_user_def by (auto dest!: map_of_SomeD)
    then have "t \<noteq> s" using nu by (auto simp: registered_def)
    then show ?thesis using l1 lingering_cleanup [OF ok1 l1] by (auto simp: replace_old_def Some cleanup_def)
  qed
  then have "lingering user s (connect now s' a h1)"
    using nu by (auto simp: lingering_def get_session_for_user_def connect_def Let_def update_conv')
  then show ?thesis using l1 n lingering_post lingering_close by (simp add: open_connection_def Some c Let_def split: bool.split)
qed


text \<open>What can happen without that user: nobody opens a connection as the user or sends the user a command.\<close>

definition not_about :: "string \<Rightarrow> hub_event \<Rightarrow> bool" where
  "not_about user a \<longleftrightarrow>
     (case a of Opened s v g \<Rightarrow> (case v of None \<Rightarrow> True | Some u \<Rightarrow> au_user_id u \<noteq> user) | Commanded c \<Rightarrow> c \<noteq> user | _ \<Rightarrow> True)"

lemma lingering_step:
  "hub_step now h a h' \<Longrightarrow> sockets_ok h \<Longrightarrow> tasks_ok h \<Longrightarrow> lingering user s h \<Longrightarrow> not_about user a \<Longrightarrow> lingering user s h'"
proof (induction rule: hub_step.induct)
  case (opened s' h now v greeted)
  then show ?case by (intro lingering_open) (auto simp: not_about_def split: option.splits)
next
  case (received s' h e now f sent)
  then have "s' \<noteq> s" by (auto simp: lingering_def)
  then show ?case by (rule lingering_receive [OF received.prems(1,3)])
next
  case (ended s' h now)
  then have "s' \<noteq> s" by (auto simp: lingering_def)
  then show ?case by (rule lingering_cleanup [OF ended.prems(1,3)])
next
  case (finished k s' h now r)
  have "user_sessions (finish_task k s' r h) = user_sessions h" "(s, Greeting) \<in> set (outbox (finish_task k s' r h)) \<longleftrightarrow> (s, Greeting) \<in> set (outbox h)"
    by (auto simp: finish_task_def Let_def post_def update_balance_def split: task_end.split option.split)
  then show ?case using finished by (simp add: lingering_def get_session_for_user_def)
next
  case (pinged s' h now nonce)
  then show ?case by (simp add: lingering_def get_session_for_user_def ping_def)
next
  case (timed_out s' h now)
  then show ?case by (auto simp: pong_timeout_def intro: lingering_close)
next
  case (commanded now h user' c sent)
  then have n: "user' \<noteq> user" by (simp add: not_about_def)
  have d: "lingering user s (disconnect t (close_socket t h))" if "get_session_for_user user' h = Some t" for t
  proof -
    have "registered h t user'" "registered h s user"
      using that commanded.prems(1,3) user_registered by (auto simp: get_session_for_user_def lingering_def dest!: map_of_SomeD)
    then have "t \<noteq> s" using n by (auto simp: registered_def)
    moreover have "sockets_ok (close_socket t h)" by (rule sockets_ok_same [OF commanded.prems(1)]) simp
    ultimately show ?thesis using lingering_disconnect lingering_close commanded.prems(3) by blast
  qed
  have "lingering user s (post t (Command c) h)" for t by (rule lingering_post [OF commanded.prems(3)]) (simp add: no_greeting_def)
  then show ?case using d commanded.prems(3) by (auto simp: send_command_def split: option.split dest: session_active [OF commanded.prems(1)] simp: get_ws_def)
next
  case (asked now h user')
  then show ?case by (simp add: status_same)
qed


inductive hub_without :: "string \<Rightarrow> time \<Rightarrow> hub \<Rightarrow> time \<Rightarrow> hub \<Rightarrow> bool" for user where
  same: "hub_without user t h t h"
| more: "hub_without user t h t' h' \<Longrightarrow> t' \<le> now \<Longrightarrow> hub_step now h' a h'' \<Longrightarrow> not_about user a \<Longrightarrow> hub_without user t h now h''"

lemma without_run: "hub_without user t h t' h' \<Longrightarrow> hub_run ps t h \<Longrightarrow> hub_run ps t' h'"
  by (induction rule: hub_without.induct) (auto intro: hub_run.step)

lemma without_lingering: "hub_without user t h t' h' \<Longrightarrow> hub_run ps t h \<Longrightarrow> lingering user s h \<Longrightarrow> lingering user s h'"
proof (induction rule: hub_without.induct)
  case (same t h)
  then show ?case by simp
next
  case (more t h t' h' now a h'')
  have r: "hub_run ps t' h'" by (rule without_run [OF more.hyps(1) more.prems(1)])
  show ?case using lingering_step [OF more.hyps(3) hub_run_registry [OF r] hub_run_tasks [OF r]] more by blast
qed

text \<open>Also: A connection whose greeting could not be sent is never cleaned up. Its handler does not await the
  disconnection, so that the session stays registered with a closed socket: until the user connects again
  or a command to the user fails, the status report says that the user is connected, whatever else happens.\<close>

theorem failed_greeting_stays_connected:
  assumes "hub_run ps t h" "t \<le> now" "fresh_session s h" "(s, Greeting) \<notin> set (outbox h)"
    "fst (check_connection_rate now (au_user_id u) h)"
    "hub_without (au_user_id u) now (open_connection now s (Some u) False h) t' h'"
  shows "(\<exists>since. fst (get_copilot_status (au_user_id u) h') = Some (s, since)) \<and> s \<in> set (closed h')"
proof -
  let ?h = "open_connection now s (Some u) False h"
  obtain h1 where c: "check_connection_rate now (au_user_id u) h = (True, h1)" using assms(5) by (metis eq_fst_iff)
  have same: "outbox h1 = outbox h" using c by (auto simp: check_connection_rate_def Let_def split: if_splits)
  have o: "set (outbox (replace_old v h1)) \<subseteq> set (outbox h1) \<union> {(x, Stopped None) | x. True}" for v
    by (auto simp: replace_old_def disconnect_def close_socket_def cancel_inflight_def post_def split: option.splits if_splits)
  have e: "?h = close_socket s (connect now s u h1)" by (simp add: open_connection_def c Let_def)
  have l: "lingering (au_user_id u) s ?h"
    using o [of "au_user_id u"] assms(4) same by (auto simp: e lingering_def get_session_for_user_def close_socket_def connect_def Let_def update_conv')
  have r: "hub_run ps now ?h" by (rule hub_run.step [OF assms(1,2) hub_step.opened [OF assms(3)]])
  have l': "lingering (au_user_id u) s h'" by (rule without_lingering [OF assms(6) r l])
  have "sockets_ok h'" by (rule hub_run_registry [OF without_run [OF assms(6) r]])
  then have "s \<in> set (active h') \<and> s \<noteq> []" using l' session_active by (auto simp: lingering_def)
  then show ?thesis using l' by (simp add: lingering_def get_copilot_status_def get_ws_def)
qed

theorem failed_greeting_stays_connected_witness:
  "(\<exists>since. fst (get_copilot_status ''ann'' (open_connection 0 ''s'' (Some ann) False (new_hub []))) = Some (''s'', since))"
proof -
  have "fresh_session ''s'' (new_hub [])" "(''s'', Greeting) \<notin> set (outbox (new_hub []))"
    "fst (check_connection_rate 0 (au_user_id ann) (new_hub []))" "au_user_id ann = ''ann''" by code_simp+
  then show ?thesis
    using failed_greeting_stays_connected [OF hub_run.start order_refl _ _ _ hub_without.same, of "''s''" "[]" 0 ann] by simp
qed

text \<open>Also: A message is charged before its attachments are checked. When metering allowed the message and an
  attachment is missing, expired, somebody else's or one too many, the message is refused with an error,
  no task answers it, and the charge stays.\<close>

theorem charged_then_refused:
  assumes "brain_checks s b = None" "fst (check_message_rate now s h)" "\<not> is_running s h" "br_metering b = Allowed"
    "get_user s h = Some u" "attachment_error owner (au_user_id u) (br_attachments b) = Some code"
  shows "fst (handle_brain owner now k s b h) = Some (ErrorMessage code) \<and>
    metered (snd (handle_brain owner now k s b h)) = metered h @ [s] \<and> running (snd (handle_brain owner now k s b h)) = running h"
proof -
  obtain h1 where c: "check_message_rate now s h = (True, h1)" using assms(2) by (metis eq_fst_iff)
  have s: "metered h1 = metered h" "running h1 = running h" "inflight h1 = inflight h" "session_users h1 = session_users h"
    using c by (auto simp: check_message_rate_def Let_def split: if_splits)
  have "\<not> is_running s h1" using assms(3) s by (auto simp: is_running_def split: option.splits)
  then show ?thesis using assms s
    by (simp add: handle_brain_def c answer_message_def Let_def get_user_def refusal_def)
qed

theorem charged_then_refused_witness:
  "metered (snd (handle_brain (le_owner sample_loop) 5 7 ''s'' (sample_brain [''gone'']) sample_hub)) = metered sample_hub @ [''s'']"
proof -
  have "brain_checks ''s'' (sample_brain [''gone'']) = None" "fst (check_message_rate 5 ''s'' sample_hub)"
    "\<not> is_running ''s'' sample_hub" "br_metering (sample_brain [''gone'']) = Allowed" "get_user ''s'' sample_hub = Some ann"
    "attachment_error (le_owner sample_loop) (au_user_id ann) (br_attachments (sample_brain [''gone''])) = Some ''ATTACHMENT_NOT_FOUND''"
    by code_simp+
  then show ?thesis using charged_then_refused by blast
qed

text \<open>Also: A pong with a wrong nonce does not keep a connection alive: after a ping, a pong that names another nonce
  leaves the connection to be closed when the wait is over.\<close>

theorem wrong_nonce_closes:
  assumes "nonce \<noteq> []" "n \<noteq> nonce"
  shows "s \<in> set (closed (pong_timeout s (handle_pong s (Some n) (ping s nonce h))))"
  using assms by (simp add: pong_timeout_def handle_pong_def ping_def update_conv' close_socket_def)

theorem wrong_nonce_closes_witness:
  "''s'' \<in> set (closed (pong_timeout ''s'' (handle_pong ''s'' (Some ''x'') (ping ''s'' ''y'' sample_hub))))"
  by (rule wrong_nonce_closes) simp_all

end
