(* ===== verification/Chat_Attachments.thy ===== *)
theory Chat_Attachments
  imports Copilot_Socket Uploads
begin

text \<open>
  Files given to the assistant in a chat: the detection of their kind (\<open>app/services/mime_detector.py\<close>), their
  storage for an hour (\<open>app/services/chat_attachment_service.py\<close>), the upload endpoint with its limits
  (\<open>app/routers/copilot.py\<close>) and the content blocks they become (\<open>app/services/attachment_blocks.py\<close>).
  Bytes are characters, texts are lists of code points. The directory of the uploads is a list of directories
  of named files; an upload is one step, and an upload that a restart interrupts is another. The image
  library, the extraction from PDF files and spreadsheets, the entries of a ZIP archive, the decoding of
  a text file and the reading of a planted metadata file are parameters.
\<close>

section \<open>What a file is\<close>

datatype mime = PngImage | JpegImage | WebpImage | GifImage | PdfFile | ZipFile | CsvText | JsonText | PlainText | SpreadsheetFile

type_synonym codes = "int list"

text \<open>A prefix of at most \<open>n\<close> characters.\<close>

definition clip :: "int \<Rightarrow> 'a list \<Rightarrow> 'a list" where
  "clip n xs = (if int (length xs) \<le> n then xs else take (nat n) xs)"

lemma clip_take: "0 \<le> n \<Longrightarrow> clip n xs = take (nat n) xs"
  by (simp add: clip_def)

definition codes_of :: "string \<Rightarrow> codes" where
  "codes_of s = map of_char s"

definition continuation :: "int \<Rightarrow> bool" where
  "continuation b \<longleftrightarrow> 128 \<le> b \<and> b < 192"

text \<open>\<open>bytes.decode("utf-8")\<close>, strict: no overlong forms, no surrogates, nothing above the last code point.\<close>

fun decode_utf8 :: "int list \<Rightarrow> codes option" where
  "decode_utf8 [] = Some []"
| "decode_utf8 (a # r) =
     (if a < 128 then map_option ((#) a) (decode_utf8 r)
      else if 194 \<le> a \<and> a < 224 then
        (case r of b # r' \<Rightarrow>
           if continuation b then map_option ((#) ((a - 192) * 64 + (b - 128))) (decode_utf8 r') else None
         | _ \<Rightarrow> None)
      else if 224 \<le> a \<and> a < 240 then
        (case r of b # c # r' \<Rightarrow>
           if continuation b \<and> continuation c \<and> (a = 224 \<longrightarrow> 160 \<le> b) \<and> (a = 237 \<longrightarrow> b < 160)
           then map_option ((#) ((a - 224) * 4096 + (b - 128) * 64 + (c - 128))) (decode_utf8 r') else None
         | _ \<Rightarrow> None)
      else if 240 \<le> a \<and> a < 245 then
        (case r of b # c # d # r' \<Rightarrow>
           if continuation b \<and> continuation c \<and> continuation d \<and> (a = 240 \<longrightarrow> 144 \<le> b) \<and> (a = 244 \<longrightarrow> b < 144)
           then map_option ((#) ((a - 240) * 262144 + (b - 128) * 4096 + (c - 128) * 64 + (d - 128))) (decode_utf8 r') else None
         | _ \<Rightarrow> None)
      else None)"

definition code_space :: "int \<Rightarrow> bool" where
  "code_space c \<longleftrightarrow> (9 \<le> c \<and> c \<le> 13) \<or> (28 \<le> c \<and> c \<le> 32) \<or> c = 133 \<or> c = 160 \<or> c = 5760 \<or>
     (8192 \<le> c \<and> c \<le> 8202) \<or> c = 8232 \<or> c = 8233 \<or> c = 8239 \<or> c = 8287 \<or> c = 12288"

definition strip_codes :: "codes \<Rightarrow> codes" where
  "strip_codes t = rev (dropWhile code_space (rev (dropWhile code_space t)))"

fun split_codes :: "int \<Rightarrow> codes \<Rightarrow> codes list" where
  "split_codes c [] = [[]]"
| "split_codes c (x # r) =
     (if x = c then [] # split_codes c r
      else case split_codes c r of [] \<Rightarrow> [[x]] | p # ps \<Rightarrow> (x # p) # ps)"

definition near :: "nat \<Rightarrow> nat \<Rightarrow> bool" where
  "near a b \<longleftrightarrow> a \<le> b + 1 \<and> b \<le> a + 1"

definition csv_like :: "codes \<Rightarrow> bool" where
  "csv_like t \<longleftrightarrow>
     (let rows = split_codes 10 (strip_codes t); counts = map (\<lambda>l. count_list l 44) (take 5 rows)
      in 1 < length rows \<and> list_all (\<lambda>d. 0 < d \<and> near d (hd counts)) counts)"

definition text_kind :: "codes \<Rightarrow> mime" where
  "text_kind t =
     (if csv_like t then CsvText
      else case strip_codes t of c # _ \<Rightarrow> if c = 123 \<or> c = 91 then JsonText else PlainText | [] \<Rightarrow> PlainText)"

definition png_magic :: string where "png_magic = CHR 0x89 # ''PNG'' @ [CHR 0x0D, CHR 0x0A, CHR 0x1A, CHR 0x0A]"

definition jpeg_magic :: string where "jpeg_magic = [CHR 0xFF, CHR 0xD8, CHR 0xFF]"

definition zip_magic :: string where "zip_magic = ''PK'' @ [CHR 0x03, CHR 0x04]"

definition detect_mime_from_header :: "string \<Rightarrow> mime option" where
  "detect_mime_from_header h =
     (if starts_with png_magic h then Some PngImage
      else if starts_with jpeg_magic h then Some JpegImage
      else if take 4 h = ''RIFF'' \<and> 12 \<le> length h \<and> take 4 (drop 8 h) = ''WEBP'' then Some WebpImage
      else if take 6 h = ''GIF87a'' \<or> take 6 h = ''GIF89a'' then Some GifImage
      else if starts_with ''%PDF'' h then Some PdfFile
      else if take 4 h = zip_magic then Some ZipFile
      else map_option text_kind (decode_utf8 (codes_of (clip 4096 h))))"

text \<open>The entries of an archive (name, size, compressed size), or nothing when the file is no archive or is damaged.
  The quotient of the sizes is compared in floating point; it is above 100 exactly when the product is, because the
  sizes that reach the comparison are below fifty million.\<close>

type_synonym archive = "(string \<times> int \<times> int) list option"

definition detect_mime_for_zip :: "archive \<Rightarrow> mime option" where
  "detect_mime_for_zip a =
     (case a of
        None \<Rightarrow> None
      | Some es \<Rightarrow>
          let total_uncompressed = sum_list (map (\<lambda>e. fst (snd e)) es);
              total_compressed = sum_list (map (\<lambda>e. snd (snd e)) es);
              names = map fst es in
          if total_uncompressed > 50 * 1024 * 1024 then None
          else if 0 < total_compressed \<and> total_uncompressed > 100 * total_compressed then None
          else if int (length names) > 1000 then None
          else if ''[Content_Types].xml'' \<in> set names \<and> list_ex (contains ''xl/'') names then Some SpreadsheetFile
          else None)"

definition is_image :: "mime \<Rightarrow> bool" where
  "is_image m \<longleftrightarrow> m \<in> {PngImage, JpegImage, WebpImage, GifImage}"

definition allowed_mime :: "mime \<Rightarrow> bool" where
  "allowed_mime m \<longleftrightarrow> m \<noteq> ZipFile"

section \<open>Names\<close>

text \<open>\<open>wordy\<close> says which characters beyond ASCII count as word characters, and \<open>nfkd\<close> is the normalisation.\<close>

definition ascii_word :: "int \<Rightarrow> bool" where
  "ascii_word n \<longleftrightarrow> (48 \<le> n \<and> n \<le> 57) \<or> (65 \<le> n \<and> n \<le> 90) \<or> (97 \<le> n \<and> n \<le> 122) \<or> n = 95"

definition keeps :: "(char \<Rightarrow> bool) \<Rightarrow> char \<Rightarrow> bool" where
  "keeps wordy c \<longleftrightarrow> ascii_word (of_char c) \<or> wordy c \<or> code_space (of_char c) \<or> c = CHR ''-'' \<or> c = CHR ''.''"

definition split_ext :: "string \<Rightarrow> string \<times> string" where
  "split_ext s =
     (let t = rev (takeWhile (\<lambda>c. c \<noteq> CHR ''.'') (rev s)); b = take (length s - length t - 1) s in
      if CHR ''.'' \<in> set s \<and> list_ex (\<lambda>c. c \<noteq> CHR ''.'') b then (b, CHR ''.'' # t) else (s, []))"

definition chat_filename :: "(string \<Rightarrow> string) \<Rightarrow> (char \<Rightarrow> bool) \<Rightarrow> string \<Rightarrow> string" where
  "chat_filename nfkd wordy name =
     (let a = last (split_on CHR ''/'' (map (\<lambda>c. if c = CHR 0x5C then CHR ''/'' else c) (nfkd name)));
          b = dropWhile (\<lambda>c. c = CHR ''.'') (map (\<lambda>c. if keeps wordy c then c else CHR ''_'') a);
          r = (case split_ext b of (n, e) \<Rightarrow> take 100 n @ take 10 e)
      in if r = [] then ''upload'' else r)"


section \<open>The store\<close>

datatype attachment_kind = ImageAttachment | DocumentAttachment | DataAttachment

record chat_attachment =
  ca_id :: string
  ca_user :: string
  ca_filename :: string
  ca_mime :: mime
  ca_size :: nat
  ca_kind :: attachment_kind
  ca_created :: time
  ca_expires :: time
  ca_text :: "codes option"
  ca_dir :: string

text \<open>A file holds the bytes of an upload or the metadata that the service wrote.\<close>

datatype stored = Bytes string | Metadata chat_attachment

type_synonym directory = "(string \<times> stored) list"

record attach_state =
  by_id :: "(string \<times> chat_attachment) list"
  disk :: "(string \<times> directory) list"
  upload_rate :: "string \<Rightarrow> time list"
  upload_count :: "string \<Rightarrow> nat"
  uploaded_at :: "(string \<times> time) list"

definition ATTACHMENT_TTL :: time where "ATTACHMENT_TTL = seconds 3600"
definition MAX_FILE_SIZE :: int where "MAX_FILE_SIZE = 10 * 1024 * 1024"
definition MAX_POST_RESIZE_BYTES :: int where "MAX_POST_RESIZE_BYTES = 4 * 1024 * 1024"
definition MAX_UPLOADS_PER_MINUTE :: nat where "MAX_UPLOADS_PER_MINUTE = 5"
definition MAX_UPLOADS_PER_SESSION :: nat where "MAX_UPLOADS_PER_SESSION = 20"

definition new_attach :: "(string \<times> directory) list \<Rightarrow> attach_state" where
  "new_attach d = \<lparr>by_id = [], disk = d, upload_rate = (\<lambda>_. []), upload_count = (\<lambda>_. 0), uploaded_at = []\<rparr>"

definition attachment_expired :: "time \<Rightarrow> chat_attachment \<Rightarrow> bool" where
  "attachment_expired now a \<longleftrightarrow> ca_expires a < now"

definition classify_attachment :: "mime \<Rightarrow> attachment_kind" where
  "classify_attachment m = (if is_image m then ImageAttachment else if m = PdfFile then DocumentAttachment else DataAttachment)"

definition rmtree :: "string \<Rightarrow> attach_state \<Rightarrow> attach_state" where
  "rmtree d s = s\<lparr>disk := AList.delete d (disk s)\<rparr>"

definition dir_of :: "string \<Rightarrow> attach_state \<Rightarrow> directory" where
  "dir_of d s = (case map_of (disk s) d of None \<Rightarrow> [] | Some fs \<Rightarrow> fs)"

definition write_file :: "string \<Rightarrow> string \<Rightarrow> stored \<Rightarrow> attach_state \<Rightarrow> attach_state" where
  "write_file d n c s = s\<lparr>disk := AList.update d (AList.update n c (dir_of d s)) (disk s)\<rparr>"

text \<open>\<open>rename\<close> replaces the target and the old name is gone.\<close>

definition rename_file :: "string \<Rightarrow> string \<Rightarrow> string \<Rightarrow> attach_state \<Rightarrow> attach_state" where
  "rename_file d old new s =
     (case map_of (dir_of d s) old of
        None \<Rightarrow> s
      | Some c \<Rightarrow> s\<lparr>disk := AList.update d (AList.update new c (AList.delete old (dir_of d s))) (disk s)\<rparr>)"

definition delete_attachment :: "string \<Rightarrow> attach_state \<Rightarrow> attach_state" where
  "delete_attachment i s =
     (case map_of (by_id s) i of
        None \<Rightarrow> s
      | Some a \<Rightarrow> rmtree (ca_dir a) (s\<lparr>by_id := AList.delete i (by_id s)\<rparr>))"

definition get_attachment :: "time \<Rightarrow> string \<Rightarrow> attach_state \<Rightarrow> chat_attachment option \<times> attach_state" where
  "get_attachment now i s =
     (case map_of (by_id s) i of
        None \<Rightarrow> (None, s)
      | Some a \<Rightarrow> if attachment_expired now a then (None, delete_attachment i s) else (Some a, s))"

definition cleanup_expired :: "time \<Rightarrow> attach_state \<Rightarrow> attach_state" where
  "cleanup_expired now s =
     foldl (\<lambda>s i. delete_attachment i s) s (map fst (filter (\<lambda>p. attachment_expired now (snd p)) (by_id s)))"

section \<open>Text for the model\<close>

text \<open>Python's \<open>splitlines\<close>.\<close>

definition line_end :: "int \<Rightarrow> bool" where
  "line_end c \<longleftrightarrow> (10 \<le> c \<and> c \<le> 13) \<or> (28 \<le> c \<and> c \<le> 30) \<or> c = 133 \<or> c = 8232 \<or> c = 8233"

fun splitlines_from :: "bool \<Rightarrow> codes \<Rightarrow> codes \<Rightarrow> codes list" where
  "splitlines_from cr cur [] = (if cur = [] then [] else [rev cur])"
| "splitlines_from cr cur (x # r) =
     (if cr \<and> x = 10 then splitlines_from False cur r
      else if line_end x then rev cur # splitlines_from (x = 13) [] r
      else splitlines_from False (x # cur) r)"

definition splitlines :: "codes \<Rightarrow> codes list" where
  "splitlines t = splitlines_from False [] t"

fun join_codes :: "codes \<Rightarrow> codes list \<Rightarrow> codes" where
  "join_codes sep [] = []"
| "join_codes sep [x] = x"
| "join_codes sep (x # y # r) = x @ sep @ join_codes sep (y # r)"

definition text_extract :: "codes \<Rightarrow> codes" where
  "text_extract t =
     (let lines = splitlines t in
      if 50 < length lines
      then join_codes [10] (take 50 lines) @ codes_of (CHR 0x0A # ''... ('' @ show_nat (length lines) @ '' total lines)'')
      else clip 10000 t)"

text \<open>What the libraries make of a file: its decoded text, its JSON reformatted, the text of the document service and
  of the fallback reader, and the profile and sample of a spreadsheet; each may fail.\<close>

record readers =
  read_text :: "string \<Rightarrow> codes option"
  reformat :: "codes \<Rightarrow> codes option"
  document_text :: "string \<Rightarrow> codes option"
  fallback_text :: "string \<Rightarrow> codes option option"
  spreadsheet :: "string \<Rightarrow> (codes \<times> codes) option"

definition could_not :: "string \<Rightarrow> string \<Rightarrow> codes" where
  "could_not what name = codes_of (''[Could not extract '' @ what @ '' from '' @ name @ '']'')"

definition extract_pdf :: "readers \<Rightarrow> string \<Rightarrow> codes option" where
  "extract_pdf r c =
     (case document_text r c of
        Some (x # t) \<Rightarrow> Some (clip 50000 (x # t))
      | _ \<Rightarrow>
          (case fallback_text r c of
             None \<Rightarrow> Some (could_not ''text'' ''PDF'')
           | Some None \<Rightarrow> None
           | Some (Some t) \<Rightarrow> if t = [] then None else Some (clip 50000 t)))"

definition extract_spreadsheet :: "readers \<Rightarrow> string \<Rightarrow> string \<Rightarrow> codes option" where
  "extract_spreadsheet r name c =
     (case spreadsheet r c of
        None \<Rightarrow> Some (could_not ''data'' (take 30 name))
      | Some (profile, sample) \<Rightarrow>
          Some (clip 10000 (codes_of (''Schema:'' @ [CHR 0x0A]) @ clip 5000 profile @
            codes_of ([CHR 0x0A, CHR 0x0A] @ ''Sample rows:'' @ [CHR 0x0A]) @ clip 5000 sample)))"

definition extract_text :: "readers \<Rightarrow> string \<Rightarrow> mime \<Rightarrow> string \<Rightarrow> codes option" where
  "extract_text r name m c =
     (if m = PdfFile then extract_pdf r c
      else if m = CsvText \<or> m = PlainText then
        (case read_text r c of
           None \<Rightarrow> Some (could_not ''text'' (take 30 name))
         | Some t \<Rightarrow> Some (text_extract t))
      else if m = JsonText then
        (case read_text r c of
           None \<Rightarrow> Some (could_not ''text'' (take 30 name))
         | Some t \<Rightarrow> (case reformat r (clip 10000 t) of Some f \<Rightarrow> Some (clip 10000 f) | None \<Rightarrow> Some (clip 10000 t)))
      else if m = SpreadsheetFile then extract_spreadsheet r name c
      else None)"

definition store_attachment ::
  "readers \<Rightarrow> time \<Rightarrow> string \<Rightarrow> string \<Rightarrow> string \<Rightarrow> mime \<Rightarrow> string \<Rightarrow> nat \<Rightarrow> attach_state \<Rightarrow> chat_attachment \<times> attach_state" where
  "store_attachment r now i user name m c n s =
     (let kind = classify_attachment m;
          a = \<lparr>ca_id = i, ca_user = user, ca_filename = name, ca_mime = m, ca_size = n, ca_kind = kind, ca_created = now,
               ca_expires = now + ATTACHMENT_TTL,
               ca_text = (if kind = ImageAttachment then None else extract_text r name m c),
               ca_dir = i\<rparr>;
          s1 = s\<lparr>by_id := AList.update i a (by_id s)\<rparr>
      in (a, rename_file i ''meta.json.tmp'' ''meta.json'' (write_file i ''meta.json.tmp'' (Metadata a) s1)))"

text \<open>What startup rebuilds. \<open>parse\<close> reads bytes that lie where the metadata should be, and \<open>elsewhere\<close> gives, for a file
  name that leaves the directory, the directory of an existing file. The directories come in some order.\<close>

definition load_meta :: "(string \<Rightarrow> chat_attachment option) \<Rightarrow> stored \<Rightarrow> chat_attachment option" where
  "load_meta parse f = (case f of Metadata a \<Rightarrow> Some a | Bytes b \<Rightarrow> parse b)"

definition located :: "(string \<Rightarrow> string \<Rightarrow> string option) \<Rightarrow> string \<Rightarrow> directory \<Rightarrow> string \<Rightarrow> string option" where
  "located elsewhere d fs name = (if map_of fs name \<noteq> None then Some d else elsewhere d name)"

definition loaded ::
  "(string \<Rightarrow> chat_attachment option) \<Rightarrow> (string \<Rightarrow> string \<Rightarrow> string option) \<Rightarrow> time \<Rightarrow> string \<Rightarrow> directory \<Rightarrow> chat_attachment option" where
  "loaded parse elsewhere now d fs =
     (case map_of fs ''meta.json'' of
        None \<Rightarrow> None
      | Some f \<Rightarrow>
          (case load_meta parse f of
             None \<Rightarrow> None
           | Some a \<Rightarrow>
               if ca_expires a < now then None
               else map_option (\<lambda>p. a\<lparr>ca_dir := p\<rparr>) (located elsewhere d fs (ca_filename a))))"

definition rebuild_dir ::
  "(string \<Rightarrow> chat_attachment option) \<Rightarrow> (string \<Rightarrow> string \<Rightarrow> string option) \<Rightarrow> time \<Rightarrow> attach_state \<Rightarrow> string \<times> directory \<Rightarrow>
     attach_state" where
  "rebuild_dir parse elsewhere now s p =
     (case loaded parse elsewhere now (fst p) (snd p) of
        None \<Rightarrow> rmtree (fst p) s
      | Some a \<Rightarrow> s\<lparr>by_id := AList.update (ca_id a) a (by_id s)\<rparr>)"

definition restart_attach ::
  "(string \<Rightarrow> chat_attachment option) \<Rightarrow> (string \<Rightarrow> string \<Rightarrow> string option) \<Rightarrow> time \<Rightarrow> attach_state \<Rightarrow> attach_state" where
  "restart_attach parse elsewhere now s = foldl (rebuild_dir parse elsewhere now) (new_attach (disk s)) (disk s)"

section \<open>The upload endpoint\<close>

datatype resize_outcome = ResizeFails | Unchanged | Resized string

record file_tools =
  text_readers :: readers
  archive_of :: "string \<Rightarrow> archive"
  validate_image :: "string \<Rightarrow> string option"
  resize_image :: "string \<Rightarrow> resize_outcome"
  normal_name :: "string \<Rightarrow> string"
  word_beyond :: "char \<Rightarrow> bool"

definition check_upload_rate :: "time \<Rightarrow> string \<Rightarrow> attach_state \<Rightarrow> string option \<times> attach_state" where
  "check_upload_rate tick user s =
     (let ts = filter (\<lambda>t. tick - t < seconds 60) (upload_rate s user);
          s1 = s\<lparr>upload_rate := (upload_rate s)(user := ts)\<rparr> in
      if MAX_UPLOADS_PER_MINUTE \<le> length ts then (Some ''Upload rate limit exceeded (max 5/min)'', s1)
      else if MAX_UPLOADS_PER_SESSION \<le> upload_count s user then (Some ''Upload session limit exceeded (max 20/session)'', s1)
      else (None, s1\<lparr>upload_rate := (upload_rate s1)(user := ts @ [tick]), upload_count := (upload_count s1)(user := upload_count s1 user + 1),
              uploaded_at := uploaded_at s1 @ [(user, tick)]\<rparr>))"

definition detect_mime :: "file_tools \<Rightarrow> string \<Rightarrow> mime option" where
  "detect_mime k c =
     (case detect_mime_from_header (take 32 c) of
        Some ZipFile \<Rightarrow> detect_mime_for_zip (archive_of k c)
      | m \<Rightarrow> m)"

type_synonym upload_error = "nat \<times> string"

text \<open>From the written file to the stored attachment: \<open>c\<close> is the content and \<open>n\<close> the number of bytes received.\<close>

definition accept_upload ::
  "file_tools \<Rightarrow> time \<Rightarrow> string \<Rightarrow> string \<Rightarrow> string \<Rightarrow> string \<Rightarrow> (attach_state, upload_error, chat_attachment) meth" where
  "accept_upload k now user i name c s =
     (case detect_mime k c of
        None \<Rightarrow> (Inl (415, ''Unsupported file type''), rmtree i s)
      | Some m \<Rightarrow>
          if \<not> allowed_mime m then (Inl (415, ''Unsupported file type''), rmtree i s)
          else if is_image m then
            (case validate_image k c of
               Some reason \<Rightarrow> (Inl (415, reason), rmtree i s)
             | None \<Rightarrow>
                 (case resize_image k c of
                    ResizeFails \<Rightarrow> (Inl (500, ''Internal Server Error''), s)
                  | Unchanged \<Rightarrow> apfst Inr (store_attachment (text_readers k) now i user name m c (length c) s)
                  | Resized c' \<Rightarrow>
                      if int (length c') > MAX_POST_RESIZE_BYTES
                      then (Inl (413, ''Image exceeds 4MB after resize. Use a lower-resolution image.''), rmtree i s)
                      else apfst Inr (store_attachment (text_readers k) now i user name m c' (length c') (write_file i name (Bytes c') s))))
          else apfst Inr (store_attachment (text_readers k) now i user name m c (length c) s))"

definition copilot_upload ::
  "file_tools \<Rightarrow> time \<Rightarrow> time \<Rightarrow> string \<Rightarrow> string \<Rightarrow> string \<Rightarrow> string \<Rightarrow> bool \<Rightarrow> (attach_state, upload_error, chat_attachment) meth" where
  "copilot_upload k tick now user i original c io_ok s =
     (case check_upload_rate tick user s of
        (Some reason, s1) \<Rightarrow> (Inl (429, reason), s1)
      | (None, s1) \<Rightarrow>
          let name = chat_filename (normal_name k) (word_beyond k) (if original = [] then ''upload'' else original) in
          if \<not> io_ok then (Inl (500, ''Upload failed''), rmtree i s1)
          else if int (length c) > MAX_FILE_SIZE then (Inl (413, ''File exceeds maximum size (10MB)''), rmtree i s1)
          else accept_upload k now user i name c (write_file i name (Bytes c) s1))"

text \<open>An upload that has sent \<open>c\<close> so far, which is the file's content when the process stops.\<close>

definition partial_upload :: "file_tools \<Rightarrow> time \<Rightarrow> string \<Rightarrow> string \<Rightarrow> string \<Rightarrow> string \<Rightarrow> attach_state \<Rightarrow> attach_state" where
  "partial_upload k tick user i original c s =
     (case check_upload_rate tick user s of
        (Some reason, s1) \<Rightarrow> s1
      | (None, s1) \<Rightarrow>
          let name = chat_filename (normal_name k) (word_beyond k) (if original = [] then ''upload'' else original) in
          if int (length c) > MAX_FILE_SIZE then rmtree i s1 else write_file i name (Bytes c) s1)"

section \<open>Content blocks\<close>

datatype block = ImageBlock mime stored | TextBlock codes

text \<open>\<open>None\<close> is the exception of an \<open>open\<close> whose file is gone. An image block carries the file in base64.\<close>

definition attachment_block :: "bool \<Rightarrow> attach_state \<Rightarrow> chat_attachment \<Rightarrow> block list option" where
  "attachment_block vision s a =
     (case ca_kind a of
        ImageAttachment \<Rightarrow>
          if vision then map_option (\<lambda>f. [ImageBlock (ca_mime a) f]) (map_of (dir_of (ca_dir a) s) (ca_filename a))
          else Some [TextBlock (codes_of (''[Note: Your configured model doesn'' @ [CHR 0x27] @ ''t support images. Image '' @ [CHR 0x27] @
                  ca_filename a @ [CHR 0x27] @ '' was attached but cannot be processed.]''))]
      | _ \<Rightarrow> (case ca_text a of
               Some (x # t) \<Rightarrow> Some [TextBlock (codes_of (''[Attached: '' @ ca_filename a @ '']'' @ [CHR 0x0A]) @ x # t)]
             | _ \<Rightarrow> Some []))"

fun attachment_blocks :: "bool \<Rightarrow> attach_state \<Rightarrow> chat_attachment list \<Rightarrow> block list option" where
  "attachment_blocks vision s [] = Some []"
| "attachment_blocks vision s (a # as) =
     (case attachment_block vision s a of
        None \<Rightarrow> None
      | Some bs \<Rightarrow> map_option ((@) bs) (attachment_blocks vision s as))"

datatype user_content = PlainMessage codes | BlockMessage "block list"

definition build_user_content :: "bool \<Rightarrow> attach_state \<Rightarrow> codes \<Rightarrow> chat_attachment list \<Rightarrow> user_content option" where
  "build_user_content vision s msg as =
     (if as = [] then Some (PlainMessage msg)
      else map_option (\<lambda>bs. BlockMessage (bs @ [TextBlock msg])) (attachment_blocks vision s as))"

section \<open>Runs\<close>

datatype attach_op =
    UploadOp time time string string string string bool
  | PartialOp time string string string string
  | GetOp time string
  | CleanupOp time
  | RestartOp time

text \<open>\<open>parse\<close> and \<open>elsewhere\<close> are those of the restart.\<close>

definition attach_step ::
  "file_tools \<Rightarrow> (string \<Rightarrow> chat_attachment option) \<Rightarrow> (string \<Rightarrow> string \<Rightarrow> string option) \<Rightarrow> attach_state \<Rightarrow> attach_op \<Rightarrow> attach_state" where
  "attach_step k parse elsewhere s e =
     (case e of
        UploadOp tick now user i name c ok \<Rightarrow> snd (copilot_upload k tick now user i name c ok s)
      | PartialOp tick user i name c \<Rightarrow> partial_upload k tick user i name c s
      | GetOp now i \<Rightarrow> snd (get_attachment now i s)
      | CleanupOp now \<Rightarrow> cleanup_expired now s
      | RestartOp now \<Rightarrow> restart_attach parse elsewhere now s)"

abbreviation attach_run ::
  "file_tools \<Rightarrow> (string \<Rightarrow> chat_attachment option) \<Rightarrow> (string \<Rightarrow> string \<Rightarrow> string option) \<Rightarrow> attach_op list \<Rightarrow> attach_state" where
  "attach_run k parse elsewhere es \<equiv> foldl (attach_step k parse elsewhere) (new_attach []) es"

text \<open>An example: text is read as it is, images are valid and small, and there are no archives.\<close>

definition sample_read :: "string \<Rightarrow> codes option" where "sample_read c = Some (codes_of c)"
definition sample_none :: "'a \<Rightarrow> 'b option" where "sample_none x = None"
definition sample_other :: "string \<Rightarrow> string \<Rightarrow> string option" where "sample_other d n = None"
definition sample_nothing :: "string \<Rightarrow> codes option option" where "sample_nothing x = Some None"
definition sample_unchanged :: "string \<Rightarrow> resize_outcome" where "sample_unchanged c = Unchanged"
definition sample_same :: "string \<Rightarrow> string" where "sample_same n = n"
definition sample_not :: "char \<Rightarrow> bool" where "sample_not c = False"

definition sample_files :: file_tools where
  "sample_files = \<lparr>text_readers = \<lparr>read_text = sample_read, reformat = sample_none, document_text = sample_none,
       fallback_text = sample_nothing, spreadsheet = sample_none\<rparr>, archive_of = sample_none, validate_image = sample_none,
     resize_image = sample_unchanged, normal_name = sample_same, word_beyond = sample_not\<rparr>"

definition sample_uploads :: "attach_op list" where
  "sample_uploads = [UploadOp 0 0 ''ann'' ''a'' ''notes.txt'' ''hello'' True, UploadOp 1 1 ''bob'' ''b'' ''t.csv'' ''1,2'' True, CleanupOp 2]"

section \<open>Where attachments come from\<close>

text \<open>An attachment comes from an upload of its user under its identifier, an hour before it expires.\<close>

definition from_upload :: "attach_op list \<Rightarrow> chat_attachment \<Rightarrow> bool" where
  "from_upload es a \<longleftrightarrow>
     (\<exists>tick now name c ok. UploadOp tick now (ca_user a) (ca_id a) name c ok \<in> set es \<and> ca_expires a = now + ATTACHMENT_TTL)"

lemma from_upload_more: "from_upload es a \<Longrightarrow> set es \<subseteq> set es' \<Longrightarrow> from_upload es' a"
  by (fastforce simp: from_upload_def)

lemma from_upload_dir [simp]: "from_upload es (a\<lparr>ca_dir := d\<rparr>) = from_upload es a"
  by (simp add: from_upload_def)

definition meta_on_disk :: "attach_state \<Rightarrow> chat_attachment set" where
  "meta_on_disk s = {a. \<exists>d fs n. map_of (disk s) d = Some fs \<and> map_of fs n = Some (Metadata a)}"

definition origins :: "attach_op list \<Rightarrow> attach_state \<Rightarrow> bool" where
  "origins es s \<longleftrightarrow> (\<forall>i a. map_of (by_id s) i = Some a \<longrightarrow> ca_id a = i \<and> from_upload es a) \<and>
     (\<forall>a \<in> meta_on_disk s. from_upload es a) \<and> distinct (map fst (disk s))"

lemma meta_rmtree: "meta_on_disk (rmtree d s) \<subseteq> meta_on_disk s"
  by (auto simp: meta_on_disk_def rmtree_def delete_conv' split: if_splits)

lemma meta_bytes: "meta_on_disk (write_file d n (Bytes c) s) \<subseteq> meta_on_disk s"
  by (auto simp: meta_on_disk_def write_file_def update_conv' dir_of_def split: if_splits option.splits)

lemma meta_metadata: "meta_on_disk (write_file d n (Metadata a) s) \<subseteq> insert a (meta_on_disk s)"
  by (auto simp: meta_on_disk_def write_file_def update_conv' dir_of_def split: if_splits option.splits)

lemma meta_rename: "meta_on_disk (rename_file d old new s) \<subseteq> meta_on_disk s"
  by (auto simp: meta_on_disk_def rename_file_def update_conv' delete_conv' dir_of_def split: if_splits option.splits)

lemma index_unchanged [simp]:
  "by_id (rmtree d s) = by_id s" "by_id (write_file d n c s) = by_id s" "by_id (rename_file d old new s) = by_id s"
  by (auto simp: rmtree_def write_file_def rename_file_def split: option.split)

lemma check_upload_rate_frame [simp]:
  "by_id (snd (check_upload_rate t u s)) = by_id s" "disk (snd (check_upload_rate t u s)) = disk s"
  by (auto simp: check_upload_rate_def Let_def)

lemma meta_same: "disk s' = disk s \<Longrightarrow> meta_on_disk s' = meta_on_disk s"
  by (simp add: meta_on_disk_def)

lemma distinct_dirs [simp]:
  "distinct (map fst (disk s)) \<Longrightarrow> distinct (map fst (disk (rmtree d s)))"
  "distinct (map fst (disk s)) \<Longrightarrow> distinct (map fst (disk (write_file d n c s)))"
  "distinct (map fst (disk s)) \<Longrightarrow> distinct (map fst (disk (rename_file d old new s)))"
  by (auto simp: rmtree_def write_file_def rename_file_def distinct_update distinct_delete split: option.split)

lemma origins_sub:
  "origins es s \<Longrightarrow> by_id s' = by_id s \<Longrightarrow> meta_on_disk s' \<subseteq> meta_on_disk s \<Longrightarrow> distinct (map fst (disk s')) \<Longrightarrow> origins es s'"
  by (auto simp: origins_def)

lemma origins_distinct [simp]: "origins es s \<Longrightarrow> distinct (map fst (disk s))"
  by (simp add: origins_def)

lemma origins_io:
  assumes "origins es s" shows "origins es (rmtree d s)" "origins es (write_file d n (Bytes c) s)" "origins es (snd (check_upload_rate t u s))"
  by (rule origins_sub [OF assms _ meta_rmtree], simp_all add: assms distinct_dirs [OF origins_distinct [OF assms]])
     (rule origins_sub [OF assms _ meta_bytes], simp_all add: assms distinct_dirs [OF origins_distinct [OF assms]],
      rule origins_sub [OF assms], simp_all add: meta_on_disk_def assms origins_distinct [OF assms])

lemma origins_more: "origins es s \<Longrightarrow> set es \<subseteq> set es' \<Longrightarrow> origins es' s"
  using from_upload_more unfolding origins_def by blast

lemma origins_delete:
  assumes "origins es s" shows "origins es (delete_attachment i s)"
proof (cases "map_of (by_id s) i")
  case (Some a)
  have "origins es (s\<lparr>by_id := AList.delete i (by_id s)\<rparr>)"
    using assms meta_same [of "s\<lparr>by_id := AList.delete i (by_id s)\<rparr>" s] by (auto simp: origins_def delete_conv' split: if_splits)
  then show ?thesis using Some origins_io(1) by (simp add: delete_attachment_def)
qed (simp add: delete_attachment_def assms)


lemma origins_store:
  assumes "origins es s" "store_attachment r now i user n m c z s = (a, s')" "from_upload es a"
  shows "origins es s'"
proof -
  let ?s = "s\<lparr>by_id := AList.update i a (by_id s)\<rparr>"
  have i: "ca_id a = i" and s': "s' = rename_file i ''meta.json.tmp'' ''meta.json'' (write_file i ''meta.json.tmp'' (Metadata a) ?s)"
    using assms(2) by (auto simp: store_attachment_def Let_def)
  have "meta_on_disk s' \<subseteq> insert a (meta_on_disk s)"
    unfolding s' using meta_rename meta_metadata [of i "''meta.json.tmp''" a ?s] meta_same [of ?s s] by fastforce
  moreover have "by_id s' = AList.update i a (by_id s)" by (simp add: s')
  moreover have "distinct (map fst (disk s'))" using assms(1) by (simp add: s' origins_def)
  moreover have "\<forall>j b. map_of (by_id s') j = Some b \<longrightarrow> ca_id b = j \<and> from_upload es b"
    using assms(1,3) i calculation(2) by (simp add: origins_def update_conv')
  ultimately show ?thesis using assms(1,3) unfolding origins_def by blast
qed

lemma stored_from:
  "store_attachment r now i user n m c z s = (a, s') \<Longrightarrow> ca_id a = i \<and> ca_user a = user \<and> ca_expires a = now + ATTACHMENT_TTL"
  by (auto simp: store_attachment_def Let_def)

text \<open>What an upload past the limits does: the directory goes, or the file stays, or it is stored.\<close>

lemma accept_rule:
  assumes "Q (rmtree i s)" "Q s"
    and "\<And>m c' z s1. s1 = s \<or> s1 = write_file i name (Bytes c') s \<Longrightarrow> Q (snd (store_attachment (text_readers k) now i user name m c' z s1))"
  shows "Q (snd (accept_upload k now user i name c s))"
  using assms by (simp add: accept_upload_def split: option.split resize_outcome.split)

lemma origins_upload:
  assumes o: "origins es s" and e: "UploadOp tick now user i orig c ok \<in> set es"
  shows "origins es (snd (copilot_upload k tick now user i orig c ok s))"
proof -
  note rm = origins_io(1) and wr = origins_io(2)
  have check: "origins es (snd (check_upload_rate tick user s))" by (rule origins_io(3) [OF o])
  have acc: "origins es (snd (accept_upload k now user i n c s1))" if s1: "origins es s1" for n s1
  proof (rule accept_rule)
    fix m c' z s2 assume "s2 = s1 \<or> s2 = write_file i n (Bytes c') s1"
    then have s2: "origins es s2" using s1 wr by auto
    obtain a s3 where a: "store_attachment (text_readers k) now i user n m c' z s2 = (a, s3)" by fastforce
    have "from_upload es a" using stored_from [OF a] e by (auto simp: from_upload_def)
    from origins_store [OF s2 a this] show "origins es (snd (store_attachment (text_readers k) now i user n m c' z s2))" by (simp add: a)
  qed (use s1 rm in auto)
  show ?thesis using check rm wr acc by (auto simp: copilot_upload_def Let_def split: prod.split option.split)
qed

lemma origins_partial: "origins es s \<Longrightarrow> origins es (partial_upload k tick user i orig c s)"
proof -
  assume o: "origins es s"
  have "origins es (snd (check_upload_rate tick user s))" by (rule origins_io(3) [OF o])
  then show ?thesis by (auto simp: partial_upload_def Let_def origins_io split: prod.split option.split)
qed

lemma origins_cleanup: "origins es s \<Longrightarrow> origins es (cleanup_expired now s)"
proof -
  have "origins es (foldl (\<lambda>s i. delete_attachment i s) s is)" if "origins es s" for "is" s
    using that by (induction "is" arbitrary: s) (simp_all add: origins_delete)
  then show "origins es s \<Longrightarrow> ?thesis" by (simp add: cleanup_expired_def)
qed

text \<open>Bytes that lie where the metadata should be come from an upload of that name. \<open>plants\<close> says that the bytes of an
  upload would be read as metadata.\<close>

definition plants :: "file_tools \<Rightarrow> (string \<Rightarrow> chat_attachment option) \<Rightarrow> attach_op \<Rightarrow> bool" where
  "plants k parse e =
     (case e of
        UploadOp tick now user i n c ok \<Rightarrow>
          chat_filename (normal_name k) (word_beyond k) (if n = [] then ''upload'' else n) = ''meta.json'' \<and> parse c \<noteq> None
      | PartialOp tick user i n c \<Rightarrow>
          chat_filename (normal_name k) (word_beyond k) (if n = [] then ''upload'' else n) = ''meta.json'' \<and> parse c \<noteq> None
      | _ \<Rightarrow> False)"

definition unplanted_but :: "string set \<Rightarrow> (string \<Rightarrow> chat_attachment option) \<Rightarrow> attach_state \<Rightarrow> bool" where
  "unplanted_but X parse s \<longleftrightarrow>
     (\<forall>d fs c. map_of (disk s) d = Some fs \<longrightarrow> d \<notin> X \<longrightarrow> map_of fs ''meta.json'' = Some (Bytes c) \<longrightarrow> parse c = None)"

lemma unplanted_same: "unplanted_but X parse s \<Longrightarrow> disk s' = disk s \<Longrightarrow> unplanted_but X parse s'"
  by (simp add: unplanted_but_def)

lemma unplanted_more: "unplanted_but X parse s \<Longrightarrow> X \<subseteq> Y \<Longrightarrow> unplanted_but Y parse s"
  unfolding unplanted_but_def by blast

lemma unplanted_rmtree: "unplanted_but X parse s \<Longrightarrow> unplanted_but X parse (rmtree d s)"
  by (auto simp: unplanted_but_def rmtree_def delete_conv' split: if_splits)

lemma unplanted_write:
  "unplanted_but X parse s \<Longrightarrow> i \<in> X \<or> (n = ''meta.json'' \<longrightarrow> parse c = None) \<Longrightarrow> unplanted_but X parse (write_file i n (Bytes c) s)"
  by (auto simp: unplanted_but_def write_file_def update_conv' dir_of_def split: if_splits option.splits)

lemma unplanted_store:
  assumes "unplanted_but {i} parse s"
  shows "unplanted_but {} parse (snd (store_attachment r now i user n m c z s))"
proof -
  have "map_of (disk (rename_file i ''meta.json.tmp'' ''meta.json'' (write_file i ''meta.json.tmp'' (Metadata a) s1))) d =
      (if d = i then Some (AList.update ''meta.json'' (Metadata a) (AList.delete ''meta.json.tmp''
         (AList.update ''meta.json.tmp'' (Metadata a) (dir_of i s1)))) else map_of (disk s1) d)" for a s1 d
    by (simp add: rename_file_def write_file_def dir_of_def update_conv')
  then show ?thesis using assms
    by (auto simp: store_attachment_def Let_def unplanted_but_def update_conv' split: if_splits)
qed

lemma unplanted_delete: "unplanted_but X parse s \<Longrightarrow> unplanted_but X parse (delete_attachment i s)"
proof (cases "map_of (by_id s) i")
  case (Some a)
  assume "unplanted_but X parse s"
  then have "unplanted_but X parse (s\<lparr>by_id := AList.delete i (by_id s)\<rparr>)" by (rule unplanted_same) simp
  then show ?thesis using Some by (simp add: delete_attachment_def unplanted_rmtree)
qed (simp add: delete_attachment_def)

lemma unplanted_cleanup: "unplanted_but X parse s \<Longrightarrow> unplanted_but X parse (cleanup_expired now s)"
proof -
  have "unplanted_but X parse (foldl (\<lambda>s i. delete_attachment i s) s is)" if "unplanted_but X parse s" for "is" s
    using that by (induction "is" arbitrary: s) (simp_all add: unplanted_delete)
  then show "unplanted_but X parse s \<Longrightarrow> ?thesis" by (simp add: cleanup_expired_def)
qed

lemma unplanted_restart: "unplanted_but X parse s \<Longrightarrow> unplanted_but X parse (restart_attach parse elsewhere now s)"
proof -
  have "unplanted_but X parse (foldl (rebuild_dir parse elsewhere now) s0 ps)" if "unplanted_but X parse s0" for s0 ps
    using that
  proof (induction ps arbitrary: s0)
    case (Cons q ps)
    have "unplanted_but X parse (rebuild_dir parse elsewhere now s0 q)"
      using Cons.prems unplanted_rmtree by (auto simp: rebuild_dir_def intro: unplanted_same split: option.split)
    then show ?case using Cons.IH by simp
  qed simp
  moreover assume "unplanted_but X parse s"
  then have "unplanted_but X parse (new_attach (disk s))" by (rule unplanted_same) (simp add: new_attach_def)
  ultimately show ?thesis by (simp add: restart_attach_def)
qed

lemma unplanted_step:
  assumes "unplanted_but {} parse s" "\<not> plants k parse e"
  shows "unplanted_but {} parse (attach_step k parse elsewhere s e)"
proof (cases e)
  case (UploadOp tick now user i n c ok)
  have check: "unplanted_but {} parse (snd (check_upload_rate tick user s))" by (rule unplanted_same [OF assms(1)]) simp
  have acc: "unplanted_but {} parse (snd (accept_upload f now user i name c s1))" if s1: "unplanted_but {} parse s1" for f name s1
  proof (rule accept_rule)
    fix m c' z s2 assume s2: "s2 = s1 \<or> s2 = write_file i name (Bytes c') s1"
    have "unplanted_but {i} parse s1" by (rule unplanted_more [OF s1]) simp
    then have "unplanted_but {i} parse s2" using s2 unplanted_write by auto
    then show "unplanted_but {} parse (snd (store_attachment (text_readers f) now i user name m c' z s2))" by (rule unplanted_store)
  qed (use s1 unplanted_rmtree in auto)
  show ?thesis using UploadOp check acc assms(2)
    by (auto simp: attach_step_def copilot_upload_def Let_def plants_def split: prod.split option.split
        intro!: unplanted_rmtree acc unplanted_write)
next
  case (PartialOp tick user i n c)
  have check: "unplanted_but {} parse (snd (check_upload_rate tick user s))" by (rule unplanted_same [OF assms(1)]) simp
  then show ?thesis using PartialOp assms(2)
    by (auto simp: attach_step_def partial_upload_def Let_def plants_def split: prod.split option.split
        intro!: unplanted_rmtree unplanted_write)
qed (use assms(1) in \<open>simp_all add: attach_step_def get_attachment_def unplanted_delete unplanted_cleanup unplanted_restart
    split: option.split\<close>)

lemma loaded_from:
  assumes "loaded parse elsewhere now d fs = Some a" "\<And>c. map_of fs ''meta.json'' = Some (Bytes c) \<Longrightarrow> parse c = None"
  shows "\<exists>a0 p. map_of fs ''meta.json'' = Some (Metadata a0) \<and> a = a0\<lparr>ca_dir := p\<rparr> \<and> now \<le> ca_expires a"
  using assms by (fastforce simp: loaded_def load_meta_def split: option.splits stored.splits if_splits)

lemma origins_restart:
  assumes o: "origins es s" and p: "unplanted_but {} parse s"
  shows "origins es (restart_attach parse elsewhere now s)"
proof -
  have dirs: "from_upload es a" if "map_of (disk s) d = Some fs" "map_of fs n = Some (Metadata a)" for d fs n a
    using o that unfolding origins_def meta_on_disk_def by blast
  have "origins es (foldl (rebuild_dir parse elsewhere now) s0 ps)"
    if "origins es s0" "\<forall>q \<in> set ps. \<forall>a. loaded parse elsewhere now (fst q) (snd q) = Some a \<longrightarrow> from_upload es a" for s0 ps
    using that
  proof (induction ps arbitrary: s0)
    case (Cons q ps)
    have "origins es (rebuild_dir parse elsewhere now s0 q)"
    proof (cases "loaded parse elsewhere now (fst q) (snd q)")
      case None
      then show ?thesis using Cons.prems origins_io(1) by (simp add: rebuild_dir_def)
    next
      case (Some a)
      let ?s = "s0\<lparr>by_id := AList.update (ca_id a) a (by_id s0)\<rparr>"
      have meta: "from_upload es a" using Cons.prems(2) Some by (meson list.set_intros(1))
      have index: "\<forall>j b. map_of (by_id s0) j = Some b \<longrightarrow> ca_id b = j \<and> from_upload es b"
        using Cons.prems(1) by (simp add: origins_def)
      have "meta_on_disk ?s = meta_on_disk s0" by (rule meta_same) simp
      moreover have "\<forall>j b. map_of (by_id ?s) j = Some b \<longrightarrow> ca_id b = j \<and> from_upload es b"
        using index meta by (simp add: update_conv')
      moreover have "distinct (map fst (disk ?s))" using Cons.prems(1) by simp
      ultimately have "origins es ?s" using Cons.prems(1) unfolding origins_def by blast
      then show ?thesis by (simp add: rebuild_dir_def Some)
    qed
    moreover have "\<forall>q \<in> set ps. \<forall>a. loaded parse elsewhere now (fst q) (snd q) = Some a \<longrightarrow> from_upload es a"
      using Cons.prems(2) by (meson list.set_intros(2))
    ultimately show ?case unfolding foldl.simps by (rule Cons.IH)
  qed simp
  moreover have "origins es (new_attach (disk s))"
  proof -
    have "meta_on_disk (new_attach (disk s)) = meta_on_disk s" by (rule meta_same) (simp add: new_attach_def)
    moreover have "by_id (new_attach (disk s)) = []" "disk (new_attach (disk s)) = disk s" by (simp_all add: new_attach_def)
    ultimately show ?thesis using o unfolding origins_def by simp
  qed
  moreover have "from_upload es a" if "q \<in> set (disk s)" "loaded parse elsewhere now (fst q) (snd q) = Some a" for q a
  proof -
    obtain d fs where q: "q = (d, fs)" by fastforce
    then have m: "map_of (disk s) d = Some fs" using that(1) o by (simp add: origins_def map_of_is_SomeI)
    have "parse c = None" if "map_of (snd q) ''meta.json'' = Some (Bytes c)" for c
      using p m that unfolding unplanted_but_def by (auto simp: q)
    from loaded_from [OF that(2) this] obtain a0 x where "map_of fs ''meta.json'' = Some (Metadata a0)" "a = a0\<lparr>ca_dir := x\<rparr>"
      by (auto simp: q)
    then show ?thesis using dirs [OF m] by simp
  qed
  ultimately show ?thesis unfolding restart_attach_def by blast
qed

lemma origins_step:
  assumes m: "origins es s" and p: "unplanted_but {} parse s" and e: "e \<in> set es"
  shows "origins es (attach_step k parse elsewhere s e)"
proof (cases e)
  case (UploadOp tick now user i name c ok)
  then show ?thesis using origins_upload [OF m] e by (simp add: attach_step_def)
qed (simp_all add: attach_step_def get_attachment_def m origins_partial [OF m] origins_cleanup [OF m] origins_delete [OF m]
    origins_restart [OF m p] split: option.split)

lemma origins_run:
  assumes "list_all (\<lambda>e. \<not> plants k parse e) es"
  shows "origins es (attach_run k parse elsewhere es) \<and> unplanted_but {} parse (attach_run k parse elsewhere es)"
  using assms
proof (induction es rule: rev_induct)
  case Nil
  show ?case by (simp add: origins_def new_attach_def meta_on_disk_def unplanted_but_def)
next
  case (snoc e es)
  then have u: "unplanted_but {} parse (attach_run k parse elsewhere es)" by simp
  have "origins (es @ [e]) (attach_run k parse elsewhere es)" by (rule origins_more [of es]) (use snoc in auto)
  then show ?case using origins_step [OF _ u] unplanted_step [OF u] snoc.prems by simp
qed

text \<open>The owner of a reference as the message loop sees it.\<close>

definition owner_of :: "time \<Rightarrow> attach_state \<Rightarrow> string \<Rightarrow> string option" where
  "owner_of now s i = map_option ca_user (fst (get_attachment now i s))"

lemma accepted_refs:
  "resolve_attachments owner user refs = None \<Longrightarrow> r \<in> set refs \<Longrightarrow> owner r = Some user"
  by (induction refs) (auto split: option.splits if_splits)

text \<open>C28: The files of a message are the user's own and at most an hour old. When the message loop accepts the references
  of a message, each is the identifier of a file that the same user uploaded no more than an hour before, over all
  uploads, interrupted uploads, expiries and restarts in which nobody uploads a file that is called like the metadata
  file and reads as metadata: a restart believes such a file when its upload did not finish.\<close>

theorem accepted_files_own_and_fresh:
  assumes "list_all (\<lambda>e. \<not> plants k parse e) es" "attachment_error (owner_of now (attach_run k parse elsewhere es)) user refs = None" "r \<in> set refs"
  shows "\<exists>tick t name c ok. UploadOp tick t user r name c ok \<in> set es \<and> now \<le> t + seconds 3600"
proof -
  let ?s = "attach_run k parse elsewhere es"
  have "resolve_attachments (owner_of now ?s) user refs = None" using assms(2) by (simp add: attachment_error_def split: if_splits)
  from accepted_refs [OF this assms(3)] obtain a where a: "map_of (by_id ?s) r = Some a" "ca_user a = user" "now \<le> ca_expires a"
    by (auto simp: owner_of_def get_attachment_def attachment_expired_def split: option.splits if_splits)
  have "ca_id a = r" "from_upload es a" using origins_run [OF assms(1), of elsewhere] a(1) by (auto simp: origins_def)
  then show ?thesis using a by (fastforce simp: from_upload_def ATTACHMENT_TTL_def)
qed


definition sample_meta :: chat_attachment where
  "sample_meta = \<lparr>ca_id = ''v'', ca_user = ''bob'', ca_filename = ''meta.json'', ca_mime = PlainText, ca_size = 1,
     ca_kind = DataAttachment, ca_created = 0, ca_expires = 100, ca_text = None, ca_dir = ''d''\<rparr>"

definition sample_believes :: "string \<Rightarrow> chat_attachment option" where
  "sample_believes c = (if c = ''hello'' then Some sample_meta else None)"

theorem accepted_files_own_and_fresh_witness:
  "\<exists>tick t name c ok. UploadOp tick t ''ann'' ''a'' name c ok \<in> set (sample_uploads @ [RestartOp 4]) \<and> 5 \<le> t + seconds 3600"
proof -
  have "list_all (\<lambda>e. \<not> plants sample_files sample_believes e) (sample_uploads @ [RestartOp 4])" by code_simp
  moreover have "attachment_error (owner_of 5 (attach_run sample_files sample_believes sample_other (sample_uploads @ [RestartOp 4]))) ''ann'' [''a''] = None"
    by code_simp
  ultimately show ?thesis by (rule accepted_files_own_and_fresh) simp
qed

section \<open>Limits of uploads\<close>

definition uploads_ok :: "time \<Rightarrow> attach_state \<Rightarrow> bool" where
  "uploads_ok t s \<longleftrightarrow>
     (\<forall>u. win_ok (seconds 60) MAX_UPLOADS_PER_MINUTE t (upload_rate s u) (times_of u (uploaded_at s)) \<and>
          upload_count s u = length (times_of u (uploaded_at s)) \<and> length (times_of u (uploaded_at s)) \<le> MAX_UPLOADS_PER_SESSION)"

definition same_limits :: "attach_state \<Rightarrow> attach_state \<Rightarrow> bool" where
  "same_limits s s' \<longleftrightarrow> upload_rate s' = upload_rate s \<and> upload_count s' = upload_count s \<and> uploaded_at s' = uploaded_at s"

lemma same_limits_refl [simp]: "same_limits s s"
  by (simp add: same_limits_def)

lemma same_limits_io [simp]:
  "same_limits s0 (rmtree d s) = same_limits s0 s" "same_limits s0 (write_file d n c s) = same_limits s0 s"
  "same_limits s0 (rename_file d old new s) = same_limits s0 s" "same_limits s0 (s\<lparr>by_id := x\<rparr>) = same_limits s0 s"
  by (auto simp: same_limits_def rmtree_def write_file_def rename_file_def split: option.split)

lemma same_limits_accept: "same_limits s (snd (accept_upload k now user i name c s))"
  by (rule accept_rule) (auto simp: store_attachment_def Let_def)

lemma same_limits_delete: "same_limits s0 (delete_attachment i s) = same_limits s0 s"
  by (simp add: delete_attachment_def split: option.split)

lemma same_limits_cleanup: "same_limits s (cleanup_expired now s)"
proof -
  have "same_limits s0 (foldl (\<lambda>s i. delete_attachment i s) s is) = same_limits s0 s" for s0 s "is"
    by (induction "is" arbitrary: s) (simp_all add: same_limits_delete)
  then show ?thesis by (simp add: cleanup_expired_def)
qed

lemma uploads_ok_same: "uploads_ok t s \<Longrightarrow> same_limits s s' \<Longrightarrow> t \<le> t' \<Longrightarrow> uploads_ok t' s'"
  by (auto simp: uploads_ok_def same_limits_def intro: win_ok_later)

lemma times_of_snoc: "times_of u (xs @ [(v, t)]) = times_of u xs @ (if u = v then [t] else [])"
  by (simp add: times_of_def)

lemma uploads_ok_check:
  assumes ok: "uploads_ok t s" and t: "t \<le> tick"
  shows "uploads_ok tick (snd (check_upload_rate tick user s))"
proof -
  have s: "uploads_ok tick s" by (rule uploads_ok_same [OF ok _ t]) simp
  let ?ts = "filter (\<lambda>t. tick - t < seconds 60) (upload_rate s user)"
  have p: "?ts = prune (seconds 60) tick (upload_rate s user)" by (auto simp: prune_def intro!: filter_cong)
  have w: "win_ok (seconds 60) MAX_UPLOADS_PER_MINUTE tick (upload_rate s user) (times_of user (uploaded_at s))"
    using s by (simp add: uploads_ok_def)
  have kept: "win_ok (seconds 60) MAX_UPLOADS_PER_MINUTE tick ?ts (times_of user (uploaded_at s))" unfolding p by (rule win_ok_prune [OF w])
  have added: "win_ok (seconds 60) MAX_UPLOADS_PER_MINUTE tick (?ts @ [tick]) (times_of user (uploaded_at s) @ [tick])"
    if "length ?ts < MAX_UPLOADS_PER_MINUTE" using win_ok_record [OF w] that by (simp add: p record_event_def)
  show ?thesis
  proof (cases "fst (check_upload_rate tick user s)")
    case None
    then have few: "length ?ts < MAX_UPLOADS_PER_MINUTE" "upload_count s user < MAX_UPLOADS_PER_SESSION"
      by (auto simp: check_upload_rate_def Let_def split: if_splits)
    then show ?thesis using s added by (auto simp: check_upload_rate_def Let_def uploads_ok_def times_of_snoc)
  next
    case (Some reason)
    then have "snd (check_upload_rate tick user s) = s\<lparr>upload_rate := (upload_rate s)(user := ?ts)\<rparr>"
      by (auto simp: check_upload_rate_def Let_def split: if_splits)
    then show ?thesis using s kept by (simp add: uploads_ok_def)
  qed
qed

lemma uploads_ok_upload:
  assumes "uploads_ok t s" "t \<le> tick"
  shows "uploads_ok tick (snd (copilot_upload k tick now user i orig c ok s))"
    and "uploads_ok tick (partial_upload k tick user i orig c s)"
proof -
  obtain r s1 where c: "check_upload_rate tick user s = (r, s1)" by fastforce
  then have s1: "uploads_ok tick s1" using uploads_ok_check [OF assms, of user] by simp
  note same = uploads_ok_same [OF s1 _ order_refl]
  have "uploads_ok tick (snd (accept_upload k now user i n c (write_file i n b s1)))" for n b
    by (rule uploads_ok_same [OF same same_limits_accept order_refl]) simp
  then show "uploads_ok tick (snd (copilot_upload k tick now user i orig c ok s))"
    using s1 same [of "rmtree i s1"] by (simp add: copilot_upload_def c Let_def split: option.split)
  show "uploads_ok tick (partial_upload k tick user i orig c s)"
    using s1 same [of "rmtree i s1"] same by (simp add: partial_upload_def c Let_def split: option.split)
qed

definition op_tick :: "attach_op \<Rightarrow> time list" where
  "op_tick e = (case e of UploadOp tick _ _ _ _ _ _ \<Rightarrow> [tick] | PartialOp tick _ _ _ _ \<Rightarrow> [tick] | _ \<Rightarrow> [])"

lemma uploads_ok_step:
  assumes ok: "uploads_ok t s" and t: "\<forall>x \<in> set (op_tick e). t \<le> x"
  shows "uploads_ok (last (t # op_tick e)) (attach_step k parse elsewhere s e)"
proof (cases e)
  case (RestartOp now)
  have "same_limits (new_attach (disk s)) (foldl (rebuild_dir parse elsewhere now) s1 ps)" if "same_limits (new_attach (disk s)) s1" for s1 ps
    using that by (induction ps arbitrary: s1) (simp_all add: rebuild_dir_def split: option.split)
  then have "same_limits (new_attach (disk s)) (restart_attach parse elsewhere now s)" by (simp add: restart_attach_def)
  moreover have "uploads_ok t (new_attach (disk s))" by (simp add: uploads_ok_def new_attach_def times_of_def win_ok_empty)
  ultimately show ?thesis using uploads_ok_same [OF _ _ order_refl] by (simp add: RestartOp attach_step_def op_tick_def)
qed (use t uploads_ok_upload [OF ok] in \<open>auto simp: attach_step_def op_tick_def get_attachment_def split: option.split
      intro: uploads_ok_same [OF ok _ order_refl] simp: same_limits_delete same_limits_cleanup\<close>)

lemma sorted_ticks:
  "sorted (t # op_tick e @ ts) \<Longrightarrow> sorted (last (t # op_tick e) # ts) \<and> (\<forall>x \<in> set (op_tick e). t \<le> x)"
  by (cases e) (auto simp: op_tick_def)

lemma uploads_ok_run:
  "sorted (t # concat (map op_tick es)) \<Longrightarrow> uploads_ok t s \<Longrightarrow>
     \<exists>t'. uploads_ok t' (foldl (attach_step k parse elsewhere) s es)"
proof (induction es arbitrary: t s)
  case (Cons e es)
  have "sorted (t # op_tick e @ concat (map op_tick es))" using Cons.prems(1) by simp
  from sorted_ticks [OF this] show ?case using Cons.IH [OF _ uploads_ok_step [OF Cons.prems(2)]] by simp
qed auto

text \<open>Also: A user gets at most five uploads through in any minute and twenty since the process started, in every run of
  uploads, interrupted uploads, lookups, clean-ups and restarts whose monotonic clock does not go back.\<close>

theorem uploads_bounded:
  assumes "sorted (concat (map op_tick es))"
  shows "in_span (seconds 60) x (times_of u (uploaded_at (attach_run k parse elsewhere es))) \<le> 5 \<and>
    length (times_of u (uploaded_at (attach_run k parse elsewhere es))) \<le> 20"
proof -
  define ts where "ts = concat (map op_tick es)"
  let ?t = "case ts of [] \<Rightarrow> 0 | t # _ \<Rightarrow> t"
  have "sorted (?t # concat (map op_tick es))" using assms unfolding ts_def [symmetric] by (cases ts) auto
  moreover have "uploads_ok ?t (new_attach [])" by (simp add: uploads_ok_def new_attach_def times_of_def win_ok_empty)
  ultimately obtain t where "uploads_ok t (attach_run k parse elsewhere es)" using uploads_ok_run by blast
  then show ?thesis by (simp add: uploads_ok_def win_ok_def MAX_UPLOADS_PER_MINUTE_def MAX_UPLOADS_PER_SESSION_def)
qed


theorem uploads_bounded_witness:
  "length (times_of ''ann'' (uploaded_at (attach_run sample_files sample_none sample_other sample_uploads))) = 1 \<and>
   in_span (seconds 60) 5 (times_of ''ann'' (uploaded_at (attach_run sample_files sample_none sample_other sample_uploads))) \<le> 5"
proof
  have s: "sorted (concat (map op_tick sample_uploads))" by code_simp
  show "in_span (seconds 60) 5 (times_of ''ann'' (uploaded_at (attach_run sample_files sample_none sample_other sample_uploads))) \<le> 5"
    by (rule uploads_bounded [OF s, THEN conjunct1])
qed code_simp

section \<open>Restarts\<close>

lemma dir_of_io [simp]:
  "dir_of d (rmtree i s) = (if d = i then [] else dir_of d s)"
  "dir_of d (write_file i n c s) = (if d = i then AList.update n c (dir_of i s) else dir_of d s)"
  "dir_of d (s\<lparr>by_id := x\<rparr>) = dir_of d s"
  by (auto simp: dir_of_def rmtree_def write_file_def delete_conv' update_conv')

lemma dir_of_rename:
  "map_of (dir_of i s) old = Some c \<Longrightarrow>
     dir_of d (rename_file i old new s) = (if d = i then AList.update new c (AList.delete old (dir_of i s)) else dir_of d s)"
  by (auto simp: rename_file_def dir_of_def update_conv')

lemma dir_of_same: "disk s' = disk s \<Longrightarrow> dir_of d s' = dir_of d s"
  by (simp add: dir_of_def)

text \<open>Memory and disk agree, except for the identifiers \<open>X\<close> of uploads that are not finished.\<close>

definition on_disk :: "attach_state \<Rightarrow> string \<Rightarrow> chat_attachment \<Rightarrow> bool" where
  "on_disk s i a \<longleftrightarrow> ca_id a = i \<and> ca_dir a = i \<and> map_of (dir_of i s) ''meta.json'' = Some (Metadata a) \<and>
     (ca_filename a \<noteq> ''meta.json.tmp'' \<longrightarrow> map_of (dir_of i s) (ca_filename a) \<noteq> None)"

definition only_bytes :: "directory \<Rightarrow> bool" where
  "only_bytes fs \<longleftrightarrow> (\<forall>n a. map_of fs n \<noteq> Some (Metadata a))"

definition agrees :: "string set \<Rightarrow> attach_state \<Rightarrow> bool" where
  "agrees X s \<longleftrightarrow> distinct (map fst (disk s)) \<and>
     (\<forall>i. (\<forall>a. map_of (by_id s) i = Some a \<longrightarrow> i \<notin> X \<and> on_disk s i a) \<and>
          (\<forall>n a. map_of (dir_of i s) n = Some (Metadata a) \<longrightarrow> i \<notin> X \<and> n = ''meta.json'' \<and> on_disk s i a))"

lemma agreesD:
  assumes "agrees X s"
  shows "distinct (map fst (disk s))" "map_of (by_id s) i = Some a \<Longrightarrow> i \<notin> X \<and> on_disk s i a"
    "map_of (dir_of i s) n = Some (Metadata a) \<Longrightarrow> i \<notin> X \<and> n = ''meta.json'' \<and> on_disk s i a"
  using assms by (auto simp: agrees_def)

lemma on_disk_cong: "dir_of i s' = dir_of i s \<Longrightarrow> on_disk s' i a = on_disk s i a"
  by (simp add: on_disk_def)

lemma agrees_io:
  assumes "agrees {i} s"
  shows "agrees {i} (rmtree i s)" "agrees {i} (write_file i n (Bytes c) s)"
proof -
  have o: "j \<noteq> i \<Longrightarrow> on_disk (rmtree i s) j a = on_disk s j a" "j \<noteq> i \<Longrightarrow> on_disk (write_file i n (Bytes c) s) j a = on_disk s j a" for j a
    by (simp_all add: on_disk_def)
  show "agrees {i} (rmtree i s)" unfolding agrees_def
    using agreesD [OF assms] by (auto simp: o split: if_splits)
  show "agrees {i} (write_file i n (Bytes c) s)" unfolding agrees_def
    using agreesD [OF assms] by (auto simp: o update_conv' split: if_splits dest: agreesD(3) [OF assms])
qed

lemma agrees_weaken: "agrees X s \<Longrightarrow> Y \<subseteq> X \<Longrightarrow> agrees Y s"
  by (auto simp: agrees_def)

lemma agrees_fresh: "agrees {} s \<Longrightarrow> i \<notin> fst ` set (disk s) \<Longrightarrow> agrees {i} s"
proof -
  assume s: "agrees {} s" and f: "i \<notin> fst ` set (disk s)"
  then have "map_of (disk s) i = None" by (simp add: map_of_eq_None_iff)
  then have d: "dir_of i s = []" by (simp add: dir_of_def)
  then have "map_of (by_id s) i = None" using agreesD(2) [OF s, of i] by (fastforce simp: on_disk_def)
  then show "agrees {i} s" using s d by (auto simp: agrees_def)
qed

lemma agrees_same: "agrees X s \<Longrightarrow> by_id s' = by_id s \<Longrightarrow> disk s' = disk s \<Longrightarrow> agrees X s'"
  by (simp add: agrees_def on_disk_def dir_of_def)

lemma agrees_store:
  assumes s: "agrees {i} s" and f: "map_of (dir_of i s) name \<noteq> None"
  shows "agrees {} (snd (store_attachment r now i user name m c z s))"
proof -
  obtain a s' where st: "store_attachment r now i user name m c z s = (a, s')" by fastforce
  let ?s = "s\<lparr>by_id := AList.update i a (by_id s)\<rparr>"
  let ?w = "write_file i ''meta.json.tmp'' (Metadata a) ?s"
  have a: "ca_id a = i" "ca_dir a = i" "ca_filename a = name" and s': "s' = rename_file i ''meta.json.tmp'' ''meta.json'' ?w"
    using st by (auto simp: store_attachment_def Let_def)
  have t: "map_of (dir_of i ?w) ''meta.json.tmp'' = Some (Metadata a)" by (simp add: update_conv')
  have d: "dir_of j s' = (if j = i then AList.update ''meta.json'' (Metadata a) (AList.delete ''meta.json.tmp''
      (AList.update ''meta.json.tmp'' (Metadata a) (dir_of i s))) else dir_of j s)" for j
    unfolding s' dir_of_rename [OF t] by simp
  have m: "map_of (dir_of i s') n = (if n = ''meta.json'' then Some (Metadata a) else if n = ''meta.json.tmp'' then None
      else map_of (dir_of i s) n)" for n by (simp add: d update_conv' delete_conv')
  have own: "on_disk s' i a" using f by (auto simp: on_disk_def m a)
  have other: "on_disk s' j b = on_disk s j b" if "j \<noteq> i" for j b using that by (simp add: on_disk_def d)
  have i: "by_id s' = AList.update i a (by_id s)" by (simp add: s')
  have "distinct (map fst (disk s'))" using agreesD(1) [OF s] by (simp add: s')
  moreover have "on_disk s' j b" if "map_of (by_id s') j = Some b" for j b
    using that own other agreesD(2) [OF s, of j b] by (auto simp: i update_conv' split: if_splits)
  moreover have "n = ''meta.json'' \<and> on_disk s' j b" if "map_of (dir_of j s') n = Some (Metadata b)" for j n b
  proof (cases "j = i")
    case True
    then show ?thesis using that own agreesD(3) [OF s, of i n b] by (auto simp: m split: if_splits)
  next
    case False
    then show ?thesis using that other agreesD(3) [OF s, of j n b] by (simp add: d)
  qed
  ultimately have "agrees {} s'" by (simp add: agrees_def)
  then show ?thesis by (simp add: st)
qed

lemma agrees_upload:
  assumes s: "agrees {} s" and f: "i \<notin> fst ` set (disk s)"
  shows "agrees {} (snd (copilot_upload k tick now user i orig c ok s))" "agrees {} (partial_upload k tick user i orig c s)"
proof -
  obtain r s1 where c: "check_upload_rate tick user s = (r, s1)" by fastforce
  then have s1: "by_id s1 = by_id s" "disk s1 = disk s" using check_upload_rate_frame [of tick user s] by auto
  have i1: "agrees {i} s1" by (rule agrees_same [OF agrees_fresh [OF s f] s1])
  note fin = agrees_weaken [where X = "{i}" and Y = "{}", OF _ empty_subsetI]
  have acc: "agrees {} (snd (accept_upload k now user i n c (write_file i n (Bytes c) s1)))" for n
  proof (rule accept_rule)
    fix m c' z s2 assume "s2 = write_file i n (Bytes c) s1 \<or> s2 = write_file i n (Bytes c') (write_file i n (Bytes c) s1)"
    then have "agrees {i} s2 \<and> map_of (dir_of i s2) n \<noteq> None" using agrees_io(2) [OF i1] agrees_io(2) [OF agrees_io(2) [OF i1]]
      by (auto simp: update_conv')
    then show "agrees {} (snd (store_attachment (text_readers k) now i user n m c' z s2))" by (auto intro: agrees_store)
  qed (auto intro: fin agrees_io i1)
  show "agrees {} (snd (copilot_upload k tick now user i orig c ok s))"
    using acc fin [OF i1] fin [OF agrees_io(1) [OF i1]] by (simp add: copilot_upload_def c Let_def split: option.split)
  show "agrees {} (partial_upload k tick user i orig c s)"
    using fin [OF i1] fin [OF agrees_io(1) [OF i1]] fin [OF agrees_io(2) [OF i1]]
    by (simp add: partial_upload_def c Let_def split: option.split)
qed

lemma agrees_delete:
  assumes s: "agrees {} s" shows "agrees {} (delete_attachment i s)"
proof (cases "map_of (by_id s) i")
  case (Some a)
  have "ca_dir a = i" using agreesD(2) [OF s Some] by (simp add: on_disk_def)
  moreover have "agrees {} (rmtree i (s\<lparr>by_id := AList.delete i (by_id s)\<rparr>))"
    using agreesD [OF s] by (auto simp: agrees_def on_disk_def delete_conv' split: if_splits)
  ultimately show ?thesis by (simp add: delete_attachment_def Some)
qed (simp add: delete_attachment_def s)

lemma agrees_cleanup: "agrees {} s \<Longrightarrow> agrees {} (cleanup_expired now s)"
proof -
  have "agrees {} (foldl (\<lambda>s i. delete_attachment i s) s is)" if "agrees {} s" for s "is"
    using that by (induction "is" arbitrary: s) (simp_all add: agrees_delete)
  then show "agrees {} s \<Longrightarrow> ?thesis" by (simp add: cleanup_expired_def)
qed


text \<open>What the rebuilding loop does, directory by directory.\<close>

lemma rebuild_fold:
  assumes "distinct (map fst ps)" "\<forall>q \<in> set ps. \<forall>a. L (fst q) (snd q) = Some a \<longrightarrow> ca_id a = fst q"
    and L: "L = loaded parse elsewhere now"
  shows "map_of (by_id (foldl (rebuild_dir parse elsewhere now) s ps)) i =
      (case Option.bind (map_of ps i) (L i) of Some a \<Rightarrow> Some a | None \<Rightarrow> map_of (by_id s) i) \<and>
    map_of (disk (foldl (rebuild_dir parse elsewhere now) s ps)) i =
      (case map_of ps i of Some fs \<Rightarrow> if L i fs = None then None else map_of (disk s) i | None \<Rightarrow> map_of (disk s) i) \<and>
    (distinct (map fst (disk s)) \<longrightarrow> distinct (map fst (disk (foldl (rebuild_dir parse elsewhere now) s ps))))"
  using assms(1,2)
proof (induction ps arbitrary: s)
  case (Cons q ps)
  obtain d fs where q: "q = (d, fs)" by fastforce
  have no: "map_of ps d = None" using Cons.prems(1) by (simp add: q map_of_eq_None_iff)
  let ?s = "rebuild_dir parse elsewhere now s q"
  have i: "map_of (by_id ?s) i = (if i = d \<and> L d fs \<noteq> None then L d fs else map_of (by_id s) i)"
    using Cons.prems(2) L by (auto simp: q rebuild_dir_def update_conv' split: option.split)
  have dk: "map_of (disk ?s) i = (if i = d \<and> L d fs = None then None else map_of (disk s) i)"
    using L by (auto simp: q rebuild_dir_def rmtree_def delete_conv' split: option.split)
  have ds: "distinct (map fst (disk s)) \<longrightarrow> distinct (map fst (disk ?s))"
    by (auto simp: q rebuild_dir_def split: option.split)
  have p: "distinct (map fst ps)" "\<forall>q \<in> set ps. \<forall>a. L (fst q) (snd q) = Some a \<longrightarrow> ca_id a = fst q"
    using Cons.prems by auto
  have m: "map_of (q # ps) i = (if i = d then Some fs else map_of ps i)" by (simp add: q)
  show ?case using Cons.IH [OF p, of ?s] no ds unfolding m foldl.simps i dk by (auto split: option.splits)
qed simp

lemma loaded_agrees:
  assumes s: "agrees {} s" and p: "\<forall>b. parse b = None" and e: "\<forall>d n. elsewhere d n = None"
  shows "loaded parse elsewhere now i (dir_of i s) = Some a \<longleftrightarrow>
    map_of (dir_of i s) ''meta.json'' = Some (Metadata a) \<and> now \<le> ca_expires a \<and> map_of (dir_of i s) (ca_filename a) \<noteq> None"
proof -
  have "b\<lparr>ca_dir := i\<rparr> = b" if "map_of (dir_of i s) ''meta.json'' = Some (Metadata b)" for b
    using agreesD(3) [OF s that] by (simp add: on_disk_def)
  then show ?thesis using p e
    by (auto simp: loaded_def load_meta_def located_def split: option.split stored.split)
qed

lemma restart_index:
  fixes now :: time
  assumes s: "agrees {} s" and p: "\<forall>b. parse b = None" and e: "\<forall>d n. elsewhere d n = None"
  defines "L \<equiv> loaded parse elsewhere now"
  shows "map_of (by_id (restart_attach parse elsewhere now s)) i = L i (dir_of i s)"
    "dir_of i (restart_attach parse elsewhere now s) = (if L i (dir_of i s) = None then [] else dir_of i s)"
    "distinct (map fst (disk (restart_attach parse elsewhere now s)))"
proof -
  have empty: "L j [] = None" for j by (simp add: L_def loaded_def)
  have ids: "\<forall>q \<in> set (disk s). \<forall>a. L (fst q) (snd q) = Some a \<longrightarrow> ca_id a = fst q"
  proof (intro ballI allI impI)
    fix q a assume q: "q \<in> set (disk s)" "L (fst q) (snd q) = Some a"
    then have "map_of (disk s) (fst q) = Some (snd q)" using agreesD(1) [OF s] by (simp add: map_of_is_SomeI)
    then have "dir_of (fst q) s = snd q" by (simp add: dir_of_def)
    with q(2) loaded_agrees [OF s p e, of now "fst q" a] agreesD(3) [OF s, of "fst q" _ a] show "ca_id a = fst q"
      by (auto simp: L_def on_disk_def)
  qed
  note f = rebuild_fold [OF agreesD(1) [OF s] ids meta_eq_to_obj_eq [OF L_def], of "new_attach (disk s)"]
  note f1 = f [THEN conjunct1] and f2 = f [THEN conjunct2, THEN conjunct1] and f3 = f [THEN conjunct2, THEN conjunct2]
  show "map_of (by_id (restart_attach parse elsewhere now s)) i = L i (dir_of i s)"
    unfolding restart_attach_def f1 by (auto simp: new_attach_def dir_of_def empty split: option.split bind_split)
  have "map_of (disk (restart_attach parse elsewhere now s)) i =
      (case map_of (disk s) i of None \<Rightarrow> None | Some fs \<Rightarrow> if L i fs = None then None else Some fs)"
    unfolding restart_attach_def f2 by (auto simp: new_attach_def split: option.split)
  then show "dir_of i (restart_attach parse elsewhere now s) = (if L i (dir_of i s) = None then [] else dir_of i s)"
    by (auto simp: dir_of_def split: option.split)
  show "distinct (map fst (disk (restart_attach parse elsewhere now s)))"
    using f3 agreesD(1) [OF s] by (simp add: restart_attach_def new_attach_def)
qed

lemma agrees_restart:
  assumes s: "agrees {} s" and p: "\<forall>b. parse b = None" and e: "\<forall>d n. elsewhere d n = None"
  shows "agrees {} (restart_attach parse elsewhere now s)"
proof -
  note r = restart_index [OF assms, where now = now]
  let ?r = "restart_attach parse elsewhere now s"
  have "on_disk ?r i a" if "map_of (by_id ?r) i = Some a" for i a
  proof -
    have l: "loaded parse elsewhere now i (dir_of i s) = Some a" using that r(1) by simp
    then have "on_disk s i a" using loaded_agrees [OF assms, of now i a] agreesD(3) [OF s] by blast
    then show ?thesis using r(2) [of i] l by (simp add: on_disk_def)
  qed
  moreover have "n = ''meta.json'' \<and> on_disk ?r i a" if m: "map_of (dir_of i ?r) n = Some (Metadata a)" for i n a
  proof -
    have d: "dir_of i ?r = dir_of i s" using m r(2) [of i] by (auto split: if_splits)
    then show ?thesis using agreesD(3) [OF s, of i n a] m by (simp add: on_disk_def)
  qed
  ultimately show ?thesis using r(3) by (simp add: agrees_def)
qed

text \<open>Identifiers are fresh: no two uploads have the same.\<close>

definition op_ids :: "attach_op \<Rightarrow> string list" where
  "op_ids e = (case e of UploadOp _ _ _ i _ _ _ \<Rightarrow> [i] | PartialOp _ _ i _ _ \<Rightarrow> [i] | _ \<Rightarrow> [])"

definition dirs :: "attach_state \<Rightarrow> string set" where
  "dirs s = fst ` set (disk s)"

lemma dirs_io:
  "dirs (rmtree d s) \<subseteq> dirs s" "dirs (write_file d n c s) = insert d (dirs s)" "dirs (rename_file d old new s) \<subseteq> insert d (dirs s)"
  "dirs (s\<lparr>by_id := x\<rparr>) = dirs s" "dirs (snd (check_upload_rate t u s)) = dirs s"
proof -
  have "fst ` set (AList.delete k xs) \<subseteq> fst ` set xs" for k and xs :: "(string \<times> 'a) list"
    by (metis delete_keys list.set_map set_removeAll Diff_subset)
  then show "dirs (rmtree d s) \<subseteq> dirs s" by (simp add: dirs_def rmtree_def)
qed (auto simp: dirs_def write_file_def rename_file_def dom_update check_upload_rate_def Let_def split: option.split)


lemma dirs_accept: "dirs (snd (accept_upload k now user i name c s)) \<subseteq> insert i (dirs s)"
proof (rule accept_rule)
  fix m c' z s1 assume "s1 = s \<or> s1 = write_file i name (Bytes c') s"
  then have s1: "dirs s1 \<subseteq> insert i (dirs s)" by (auto simp: dirs_io)
  obtain a s2 where "store_attachment (text_readers k) now i user name m c' z s1 = (a, s2)" by fastforce
  moreover from this have "s2 = rename_file i ''meta.json.tmp'' ''meta.json''
      (write_file i ''meta.json.tmp'' (Metadata a) (s1\<lparr>by_id := AList.update i a (by_id s1)\<rparr>))"
    by (auto simp: store_attachment_def Let_def)
  then have "dirs s2 \<subseteq> insert i (dirs s1)" using dirs_io(3) by (metis dirs_io(2,4) insert_absorb2)
  ultimately show "dirs (snd (store_attachment (text_readers k) now i user name m c' z s1)) \<subseteq> insert i (dirs s)" using s1 by auto
qed (use dirs_io(1) in auto)

lemma dirs_delete: "dirs (delete_attachment i s) \<subseteq> dirs s"
  by (auto simp: delete_attachment_def dirs_io(4) split: option.split dest!: subsetD [OF dirs_io(1)])

lemma dirs_step:
  assumes s: "agrees {} s" and p: "\<forall>b. parse b = None" and e: "\<forall>d n. elsewhere d n = None"
  shows "dirs (attach_step k parse elsewhere s x) \<subseteq> dirs s \<union> set (op_ids x)"
proof (cases x)
  case (UploadOp tick now user i orig c ok)
  obtain r s1 where c: "check_upload_rate tick user s = (r, s1)" by fastforce
  then have s1: "dirs s1 = dirs s" using dirs_io(5) [of tick user s] by simp
  have "dirs (snd (accept_upload k now user i n c (write_file i n (Bytes c) s1))) \<subseteq> insert i (dirs s)" for n
    using dirs_accept s1 dirs_io(2) by (metis insert_absorb2)
  then show ?thesis
    by (auto simp: UploadOp attach_step_def op_ids_def copilot_upload_def c Let_def s1 split: option.split dest!: subsetD [OF dirs_io(1)])
next
  case (PartialOp tick user i orig c)
  obtain r s1 where c: "check_upload_rate tick user s = (r, s1)" by fastforce
  then have s1: "dirs s1 = dirs s" using dirs_io(5) [of tick user s] by simp
  then show ?thesis
    by (auto simp: PartialOp attach_step_def op_ids_def partial_upload_def c Let_def dirs_io(2) split: option.split dest!: subsetD [OF dirs_io(1)])
next
  case (GetOp now i)
  then show ?thesis using dirs_delete by (auto simp: attach_step_def get_attachment_def split: option.split)
next
  case (CleanupOp now)
  have "dirs (foldl (\<lambda>s i. delete_attachment i s) s is) \<subseteq> dirs s" for "is" s
    by (induction "is" arbitrary: s) (simp, metis dirs_delete foldl_Cons subset_trans)
  then show ?thesis by (simp add: CleanupOp attach_step_def cleanup_expired_def le_supI1)
next
  case (RestartOp now)
  have "dirs (foldl (rebuild_dir parse elsewhere now) s0 ps) \<subseteq> dirs s0" for s0 ps
  proof (induction ps arbitrary: s0)
    case (Cons q ps)
    have "dirs (rebuild_dir parse elsewhere now s0 q) \<subseteq> dirs s0"
      using dirs_io(1) by (auto simp: rebuild_dir_def dirs_io split: option.split)
    then show ?case using Cons.IH [of "rebuild_dir parse elsewhere now s0 q"] by simp
  qed simp
  moreover have "dirs (new_attach (disk s)) = dirs s" by (simp add: dirs_def new_attach_def)
  ultimately show ?thesis by (auto simp: RestartOp attach_step_def restart_attach_def)
qed

lemma agrees_step:
  assumes s: "agrees {} s" and p: "\<forall>b. parse b = None" and e: "\<forall>d n. elsewhere d n = None"
    and f: "set (op_ids x) \<inter> dirs s = {}"
  shows "agrees {} (attach_step k parse elsewhere s x)"
proof (cases x)
  case (UploadOp tick now user i orig c ok)
  then show ?thesis using agrees_upload(1) [OF s] f by (simp add: attach_step_def op_ids_def dirs_def)
next
  case (PartialOp tick user i orig c)
  then show ?thesis using agrees_upload(2) [OF s] f by (simp add: attach_step_def op_ids_def dirs_def)
next
  case (GetOp now i)
  then show ?thesis using s agrees_delete [OF s] by (simp add: attach_step_def get_attachment_def split: option.split)
next
  case (CleanupOp now)
  then show ?thesis using agrees_cleanup [OF s] by (simp add: attach_step_def)
next
  case (RestartOp now)
  then show ?thesis using agrees_restart [OF s p e] by (simp add: attach_step_def)
qed

lemma agrees_run:
  assumes p: "\<forall>b. parse b = None" and e: "\<forall>d n. elsewhere d n = None"
  shows "distinct (concat (map op_ids es)) \<Longrightarrow>
    agrees {} (attach_run k parse elsewhere es) \<and> dirs (attach_run k parse elsewhere es) \<subseteq> set (concat (map op_ids es))"
proof (induction es rule: rev_induct)
  case Nil
  show ?case by (simp add: agrees_def new_attach_def dirs_def dir_of_def)
next
  case (snoc x es)
  let ?s = "attach_run k parse elsewhere es"
  have d: "distinct (concat (map op_ids es))" "set (op_ids x) \<inter> set (concat (map op_ids es)) = {}" using snoc.prems by auto
  have s: "agrees {} ?s" "dirs ?s \<subseteq> set (concat (map op_ids es))" using snoc.IH [OF d(1)] by auto
  have "agrees {} (attach_step k parse elsewhere ?s x)" using agrees_step [OF s(1) p e, of x] s(2) d(2) by blast
  moreover have "dirs (attach_step k parse elsewhere ?s x) \<subseteq> dirs ?s \<union> set (op_ids x)" by (rule dirs_step [OF s(1) p e])
  ultimately show ?case using s(2) by auto
qed

text \<open>Also: A restart keeps every attachment that it should: after any run with fresh identifiers, a lookup finds after a
  restart what it found before, for every file that was not uploaded under the name of the metadata's temporary file.\<close>

theorem restart_keeps_attachments:
  assumes "\<forall>b. parse b = None" "\<forall>d n. elsewhere d n = None" "distinct (concat (map op_ids es))"
    and "fst (get_attachment now i (attach_run k parse elsewhere es)) = Some a" "ca_filename a \<noteq> ''meta.json.tmp''"
  shows "fst (get_attachment now i (attach_run k parse elsewhere (es @ [RestartOp now]))) = Some a"
proof -
  let ?s = "attach_run k parse elsewhere es"
  have s: "agrees {} ?s" using agrees_run [OF assms(1,2,3)] by simp
  have a: "map_of (by_id ?s) i = Some a" "now \<le> ca_expires a"
    using assms(4) by (auto simp: get_attachment_def attachment_expired_def split: option.splits if_splits)
  then have "on_disk ?s i a" using agreesD(2) [OF s] by simp
  then have "loaded parse elsewhere now i (dir_of i ?s) = Some a"
    using loaded_agrees [OF s assms(1,2), of now i a] a(2) assms(5) by (simp add: on_disk_def)
  then have "map_of (by_id (restart_attach parse elsewhere now ?s)) i = Some a"
    using restart_index(1) [OF s assms(1,2), of now i] by simp
  then show ?thesis using a(2) by (simp add: attach_step_def get_attachment_def attachment_expired_def)
qed

theorem restart_keeps_attachments_witness:
  "map_option ca_user (fst (get_attachment 5 ''b'' (attach_run sample_files sample_none sample_other (sample_uploads @ [RestartOp 5])))) = Some ''bob''"
proof -
  let ?g = "fst (get_attachment 5 ''b'' (attach_run sample_files sample_none sample_other sample_uploads))"
  have d: "distinct (concat (map op_ids sample_uploads))" by code_simp
  have g: "map_option (\<lambda>a. (ca_user a, ca_filename a)) ?g = Some (''bob'', ''t.csv'')" by code_simp
  then obtain a where a: "?g = Some a" "ca_user a = ''bob''" "ca_filename a = ''t.csv''" by (auto simp del: foldl_Cons)
  have "fst (get_attachment 5 ''b'' (attach_run sample_files sample_none sample_other (sample_uploads @ [RestartOp 5]))) = Some a"
    by (rule restart_keeps_attachments [OF _ _ d a(1)]) (simp_all add: sample_none_def sample_other_def a(3))
  then show ?thesis by (simp only: option.map a(2))
qed

lemma accept_stored:
  assumes "accept_upload k now user i name c s = (Inr a, s')"
  shows "\<exists>m c' z s1. store_attachment (text_readers k) now i user name m c' z s1 = (a, s')"
  using assms by (fastforce simp: accept_upload_def apfst_def map_prod_def split: option.splits if_splits resize_outcome.splits prod.splits)

text \<open>Also: A file uploaded under the name of the service's own metadata is replaced by it. When an image was accepted under
  the name of the metadata file, what the model is shown as the image is the metadata; under the name of
  the temporary file, building the message fails because the file is gone.\<close>

theorem metadata_names_replaced:
  assumes "copilot_upload k tick now user i orig c ok s = (Inr a, s')" "ca_kind a = ImageAttachment"
  shows "(ca_filename a = ''meta.json'' \<longrightarrow> attachment_block True s' a = Some [ImageBlock (ca_mime a) (Metadata a)]) \<and>
    (ca_filename a = ''meta.json.tmp'' \<longrightarrow> attachment_block True s' a = None)"
proof -
  obtain s0 n s1 where "accept_upload k now user i n c s1 = (Inr a, s')"
    using assms(1) by (auto simp: copilot_upload_def Let_def split: prod.splits option.splits if_splits)
  from accept_stored [OF this] obtain m c' z s2 where st: "store_attachment (text_readers k) now i user n m c' z s2 = (a, s')" by blast
  let ?w = "write_file i ''meta.json.tmp'' (Metadata a) (s2\<lparr>by_id := AList.update i a (by_id s2)\<rparr>)"
  have d: "ca_dir a = i" and s': "s' = rename_file i ''meta.json.tmp'' ''meta.json'' ?w" using st by (auto simp: store_attachment_def Let_def)
  have t: "map_of (dir_of i ?w) ''meta.json.tmp'' = Some (Metadata a)" by (simp add: update_conv')
  have m: "map_of (dir_of i s') x = (if x = ''meta.json'' then Some (Metadata a) else if x = ''meta.json.tmp'' then None
      else map_of (dir_of i s2) x)" for x
    unfolding s' dir_of_rename [OF t] by (simp add: update_conv' delete_conv')
  show ?thesis using assms(2) by (auto simp: attachment_block_def d m)
qed


definition sample_png :: string where "sample_png = png_magic @ ''data''"

theorem metadata_names_replaced_witness:
  "case copilot_upload sample_files 0 0 ''ann'' ''a'' ''meta.json'' sample_png True (new_attach []) of
     (Inr a, s) \<Rightarrow> attachment_block True s a = Some [ImageBlock PngImage (Metadata a)] | _ \<Rightarrow> False"
proof -
  define u where "u = copilot_upload sample_files 0 0 ''ann'' ''a'' ''meta.json'' sample_png True (new_attach [])"
  have "case fst u of Inr a \<Rightarrow> ca_kind a = ImageAttachment \<and> ca_filename a = ''meta.json'' \<and> ca_mime a = PngImage | Inl e \<Rightarrow> False"
    unfolding u_def by code_simp
  then obtain a s where u: "u = (Inr a, s)" and a: "ca_kind a = ImageAttachment" "ca_filename a = ''meta.json''" "ca_mime a = PngImage"
    by (cases u; cases "fst u") auto
  have "attachment_block True s a = Some [ImageBlock PngImage (Metadata a)]"
    using metadata_names_replaced [OF u [unfolded u_def] a(1)] a(2,3) by simp
  then show ?thesis unfolding u_def [symmetric] u case_prod_conv sum.case .
qed

text \<open>Also: A metadata file that a user plants is believed. An upload named like the metadata file that has not finished when
  the process stops leaves its bytes where the metadata should be; when they read as metadata that names
  the file itself, the restart serves an attachment of whatever user and identifier they claim.\<close>

theorem planted_metadata_served:
  assumes "chat_filename (normal_name k) (word_beyond k) ''meta.json'' = ''meta.json''" "int (length c) \<le> MAX_FILE_SIZE"
    and "parse c = Some m" "ca_filename m = ''meta.json''" "now \<le> ca_expires m"
  shows "owner_of now (attach_run k parse elsewhere [PartialOp tick user i ''meta.json'' c, RestartOp now]) (ca_id m) = Some (ca_user m)"
proof -
  let ?s = "partial_upload k tick user i ''meta.json'' c (new_attach [])"
  have "fst (check_upload_rate tick user (new_attach [])) = None"
    by (simp add: check_upload_rate_def new_attach_def Let_def MAX_UPLOADS_PER_MINUTE_def MAX_UPLOADS_PER_SESSION_def)
  moreover obtain r s1 where c: "check_upload_rate tick user (new_attach []) = (r, s1)" by fastforce
  ultimately have "?s = write_file i ''meta.json'' (Bytes c) s1" "disk s1 = []"
    using assms(1,2) check_upload_rate_frame(2) [of tick user "new_attach []"] by (simp_all add: partial_upload_def new_attach_def)
  then have "disk ?s = [(i, [(''meta.json'', Bytes c)])]" by (simp add: write_file_def dir_of_def)
  then have "by_id (restart_attach parse elsewhere now ?s) = [(ca_id m, m\<lparr>ca_dir := i\<rparr>)]"
    using assms(3-5) by (simp add: restart_attach_def rebuild_dir_def loaded_def load_meta_def located_def new_attach_def)
  then show ?thesis using assms(5) by (simp add: attach_step_def owner_of_def get_attachment_def attachment_expired_def)
qed

definition planted :: chat_attachment where
  "planted = \<lparr>ca_id = ''v'', ca_user = ''victim'', ca_filename = ''meta.json'', ca_mime = PlainText, ca_size = 1, ca_kind = DataAttachment,
     ca_created = 0, ca_expires = 100, ca_text = Some [120], ca_dir = ''d''\<rparr>"

definition sample_parse :: "string \<Rightarrow> chat_attachment option" where
  "sample_parse c = (if c = ''planted'' then Some planted else None)"

theorem planted_metadata_served_witness:
  "owner_of 5 (attach_run sample_files sample_parse sample_other [PartialOp 0 ''mallory'' ''d'' ''meta.json'' ''planted'', RestartOp 5]) ''v'' = Some ''victim''"
proof -
  have f: "chat_filename (normal_name sample_files) (word_beyond sample_files) ''meta.json'' = ''meta.json''" by code_simp
  have p: "sample_parse ''planted'' = Some planted" "ca_filename planted = ''meta.json''" "5 \<le> ca_expires planted"
    "int (length ''planted'') \<le> MAX_FILE_SIZE" "ca_id planted = ''v''" "ca_user planted = ''victim''" by code_simp+
  show ?thesis using planted_metadata_served [where parse = sample_parse and k = sample_files, OF f p(4,1,2,3)] unfolding p(5,6) .
qed

section \<open>Rejected uploads\<close>

lemma accept_error:
  assumes "accept_upload k now user i name c s = (Inl (code, d), s')"
  shows "s' = rmtree i s \<or> s' = s \<and> code = 500"
  using assms by (auto simp: accept_upload_def apfst_def map_prod_def split: option.splits if_splits resize_outcome.splits prod.splits)

text \<open>Also: A refused upload leaves nothing behind: unless the resizing of an image fails, an upload with a fresh
  identifier that is answered with an error changes neither the attachments nor any file.\<close>

theorem refused_upload_leaves_nothing:
  assumes "copilot_upload k tick now user i orig c ok s = (Inl (code, d), s')" "map_of (disk s) i = None" "code \<noteq> 500 \<or> \<not> ok"
  shows "by_id s' = by_id s \<and> map_of (disk s') = map_of (disk s)"
proof -
  obtain r s1 where r: "check_upload_rate tick user s = (r, s1)" by fastforce
  then have s1: "by_id s1 = by_id s" "disk s1 = disk s" using check_upload_rate_frame [of tick user s] by auto
  have rm: "map_of (disk (rmtree i s1)) = map_of (disk s)" "map_of (disk (rmtree i (write_file i n b s1))) = map_of (disk s)" for n b
    using assms(2) by (auto simp: rmtree_def write_file_def delete_conv' update_conv' s1 fun_eq_iff)
  show ?thesis
    using assms(1,3) rm s1 by (auto simp: copilot_upload_def r Let_def split: option.splits if_splits dest!: accept_error)
qed

theorem refused_upload_leaves_nothing_witness:
  "map_of (disk (snd (copilot_upload sample_files 5 5 ''ann'' ''n'' ''x.zip'' zip_magic True
     (attach_run sample_files sample_none sample_other sample_uploads)))) =
   map_of (disk (attach_run sample_files sample_none sample_other sample_uploads))"
proof -
  let ?s = "attach_run sample_files sample_none sample_other sample_uploads"
  let ?u = "copilot_upload sample_files 5 5 ''ann'' ''n'' ''x.zip'' zip_magic True ?s"
  have "fst ?u = Inl (415, ''Unsupported file type'')" by code_simp
  then have u: "?u = (Inl (415, ''Unsupported file type''), snd ?u)" by (metis prod.collapse)
  have "map_of (disk ?s) ''n'' = None" by code_simp
  from refused_upload_leaves_nothing [OF u this] show ?thesis by simp
qed

section \<open>What is accepted as text\<close>

lemma decode_ascii: "list_all (\<lambda>c. c < 128) xs \<Longrightarrow> decode_utf8 (xs @ ys) = map_option ((@) xs) (decode_utf8 ys)"
  by (induction xs) (cases "decode_utf8 ys", simp_all)+

definition plain_start :: "string \<Rightarrow> bool" where
  "plain_start p \<longleftrightarrow> list_all (\<lambda>c. (of_char c :: int) < 128) p \<and> take 4 p \<noteq> ''RIFF'' \<and> take 3 p \<noteq> ''GIF'' \<and> take 4 p \<noteq> ''%PDF'' \<and>
     take 2 p \<noteq> ''PK''"

text \<open>Also: A text in UTF-8 may be refused for where a character falls: only the first 32 bytes are looked at, so that a
  text whose 32nd byte begins a character of two bytes is an unsupported file.\<close>

theorem split_character_refused:
  assumes "length p = 31" "plain_start p"
  shows "detect_mime k (p @ CHR 0xC3 # CHR 0xA9 # rest) = None \<and> decode_utf8 (codes_of (p @ [CHR 0xC3, CHR 0xA9])) \<noteq> None"
proof
  obtain a b e f q where p: "p = a # b # e # f # q" using assms(1) by (auto simp: numeral_eq_Suc length_Suc_conv)
  have asc: "list_all (\<lambda>c. c < 128) (codes_of p)" using assms(2) by (simp add: plain_start_def codes_of_def list.pred_map comp_def)
  have t: "take 32 (p @ CHR 0xC3 # CHR 0xA9 # rest) = p @ [CHR 0xC3]" "clip 4096 (p @ [CHR 0xC3]) = p @ [CHR 0xC3]" using assms(1) by (simp_all add: clip_def)
  have "decode_utf8 (codes_of (p @ [CHR 0xC3])) = decode_utf8 (codes_of p @ [195])" by (simp add: codes_of_def)
  also have "\<dots> = None" by (simp add: decode_ascii [OF asc])
  finally have "decode_utf8 (codes_of (p @ [CHR 0xC3])) = None" .
  moreover have "of_char a < (128 :: int)" using asc by (simp add: p codes_of_def)
  then have "a \<noteq> CHR 0x89" "a \<noteq> CHR 0xFF" by auto
  then have "\<not> starts_with png_magic (p @ [CHR 0xC3])" "\<not> starts_with jpeg_magic (p @ [CHR 0xC3])"
    by (simp_all add: p starts_with_def png_magic_def jpeg_magic_def)
  moreover have "take 4 p \<noteq> ''RIFF''" "take 3 p \<noteq> ''GIF''" "take 4 p \<noteq> ''%PDF''" "take 2 p \<noteq> ''PK''"
    using assms(2) unfolding plain_start_def by blast+
  then have "take 4 (p @ [CHR 0xC3]) \<noteq> ''RIFF''" "take 6 (p @ [CHR 0xC3]) \<noteq> ''GIF87a''" "take 6 (p @ [CHR 0xC3]) \<noteq> ''GIF89a''"
    "\<not> starts_with ''%PDF'' (p @ [CHR 0xC3])" "take 4 (p @ [CHR 0xC3]) \<noteq> zip_magic"
    unfolding p starts_with_def zip_magic_def by auto
  ultimately have "detect_mime_from_header (p @ [CHR 0xC3]) = None" unfolding detect_mime_from_header_def t(2) by simp
  then show "detect_mime k (p @ CHR 0xC3 # CHR 0xA9 # rest) = None" unfolding detect_mime_def t(1) by simp
  show "decode_utf8 (codes_of (p @ [CHR 0xC3, CHR 0xA9])) \<noteq> None"
    using decode_ascii [OF asc, of "[195, 169]"] by (simp add: codes_of_def continuation_def)
qed

theorem split_character_refused_witness:
  "detect_mime sample_files (''an ordinary note of an ordinary'' @ CHR 0xC3 # CHR 0xA9 # ''t.'') = None"
  by (rule split_character_refused [THEN conjunct1]) code_simp+

lemma splitlines_line: "list_all (\<lambda>c. \<not> line_end c) xs \<Longrightarrow> \<not> cr \<Longrightarrow> splitlines_from cr cur (xs @ 10 # r) = (rev cur @ xs) # splitlines_from False [] r"
  by (induction xs arbitrary: cr cur) (auto simp: line_end_def)

lemma splitlines_rows:
  "list_all (\<lambda>c. \<not> line_end c) row \<Longrightarrow> splitlines_from False [] (concat (replicate n (row @ [10]))) = replicate n row"
  by (induction n) (simp_all add: splitlines_line)

lemma length_join_codes: "length (join_codes sep xs) \<ge> sum_list (map length xs)"
  by (induction sep xs rule: join_codes.induct) auto

text \<open>Also: The text that is extracted from a table is not capped: of fifty-one rows the first fifty are kept whole,
  however long they are, although the extraction is documented to stop at 10,000 characters.\<close>

theorem long_rows_uncapped:
  "length (text_extract (concat (replicate 51 (replicate n 97 @ [10])))) \<ge> 50 * n"
proof -
  have "list_all (\<lambda>c. \<not> line_end c) (replicate n 97)" by (simp add: list_all_iff line_end_def)
  from splitlines_rows [OF this, of 51] have l: "splitlines (concat (replicate 51 (replicate n 97 @ [10]))) = replicate 51 (replicate n 97)"
    by (simp add: splitlines_def)
  have "sum_list (map length (take 50 (replicate 51 (replicate n (97::int))))) = 50 * n" by (simp add: map_replicate_const sum_list_replicate)
  then show ?thesis
    using length_join_codes [of "take 50 (replicate 51 (replicate n (97::int)))" "[10]"] unfolding text_extract_def l Let_def by simp
qed


end
