(* ===== verification/Verification_Aggregates.thy ===== *)
theory Verification_Aggregates
  imports Prelude "HOL-Library.Word"
begin

text \<open>
  The statistics that leave the seller's machine in a data verification:
  \<open>app/services/data_verification/connectors/eolymp_v1.py\<close>. A column is described by its null rate, an
  estimate of its distinct values and histograms, each suppressed when it would speak of fewer values than the
  minimum occupancy. Decoding a file is a parameter (its tables), as are SHA-256, the canonical bytes of
  a value, its length and its comparison with a boundary, and the logarithm that turns registers into an
  estimate. Counts are integers; the first eight bytes of a digest are a 64-bit word.
\<close>

unbundle bit_operations_syntax

section \<open>Null rates\<close>

definition RATE_SCALE :: int where "RATE_SCALE = 1000000"

text \<open>The rate in millionths, ties to even.\<close>

definition rounded_rate_units :: "int \<Rightarrow> int \<Rightarrow> int" where
  "rounded_rate_units count rows =
     (let quotient = (count * RATE_SCALE) div rows; remainder = (count * RATE_SCALE) mod rows in
      if remainder * 2 > rows \<or> (remainder * 2 = rows \<and> quotient mod 2 \<noteq> 0) then quotient + 1 else quotient)"

definition decimal_digit :: "int \<Rightarrow> char" where
  "decimal_digit d = digit_char (nat d)"

text \<open>\<open>:06d\<close> of a number below a million.\<close>

definition pad6 :: "int \<Rightarrow> string" where
  "pad6 n = map (\<lambda>p. decimal_digit ((n div p) mod 10)) [100000, 10000, 1000, 100, 10, 1]"

definition format_null_rate :: "int \<Rightarrow> int \<Rightarrow> string" where
  "format_null_rate count rows =
     (let units = rounded_rate_units count rows in show_nat (nat (units div RATE_SCALE)) @ ''.'' @ pad6 (units mod RATE_SCALE))"

definition read_digits :: "string \<Rightarrow> int" where
  "read_digits s = foldl (\<lambda>a c. 10 * a + (of_char c - 48)) 0 s"

definition rate_units_of :: "string \<Rightarrow> int" where
  "rate_units_of rate =
     (case split_on CHR ''.'' rate of
        [whole, fractional] \<Rightarrow> read_digits whole * RATE_SCALE + read_digits fractional
      | _ \<Rightarrow> -1)"

text \<open>The binary search for the first count whose rate reaches \<open>units\<close>.\<close>

function bisect :: "(int \<Rightarrow> bool) \<Rightarrow> int \<Rightarrow> int \<Rightarrow> int" where
  "bisect below low high =
     (if low < high
      then (let middle = (low + high) div 2 in if below middle then bisect below (middle + 1) high else bisect below low middle)
      else low)"
  by pat_completeness auto

termination
  by (relation "measure (\<lambda>(below, low, high). nat (high - low))") auto

declare bisect.simps [simp del]

definition below_units :: "int \<Rightarrow> int \<Rightarrow> int \<Rightarrow> bool" where
  "below_units rows units count \<longleftrightarrow> rounded_rate_units count rows < units"

definition first_count_at_least :: "int \<Rightarrow> int \<Rightarrow> int" where
  "first_count_at_least rows units = bisect (below_units rows units) 0 (rows + 1)"

definition null_rate_preimage_range :: "string \<Rightarrow> int \<Rightarrow> (int \<times> int) option" where
  "null_rate_preimage_range rate rows =
     (let target = rate_units_of rate;
          first = first_count_at_least rows target;
          last = first_count_at_least rows (target + 1) - 1 in
      if first > rows \<or> first > last \<or> rounded_rate_units first rows \<noteq> target then None else Some (first, last))"

text \<open>\<open>None\<close> is the exception for a rate without a preimage.\<close>

definition null_rate_has_ambiguous_sparse_support :: "string \<Rightarrow> int \<Rightarrow> int \<Rightarrow> bool option" where
  "null_rate_has_ambiguous_sparse_support rate rows k =
     map_option (\<lambda>(first, last).
       max first 1 \<le> min last (k - 1) \<or> max first (rows - (k - 1)) \<le> min last (rows - 1)) (null_rate_preimage_range rate rows)"

definition has_low_occupancy :: "int list \<Rightarrow> int \<Rightarrow> bool" where
  "has_low_occupancy counts k \<longleftrightarrow> list_ex (\<lambda>c. 0 < c \<and> c < k) counts"

section \<open>Distinct values\<close>

function bit_length :: "int \<Rightarrow> nat" where
  "bit_length n = (if n \<le> 0 then 0 else Suc (bit_length (n div 2)))"
  by pat_completeness auto

termination
  by (relation "measure nat") auto

declare bit_length.simps [simp del]

definition hll_index :: "64 word \<Rightarrow> nat" where
  "hll_index number = unat (number AND 127)"

definition hll_rank :: "64 word \<Rightarrow> nat" where
  "hll_rank number = (let remainder = drop_bit 7 number in if remainder = 0 then 58 else 58 - bit_length (uint remainder))"

definition hll_add :: "64 word \<Rightarrow> nat list \<Rightarrow> nat list" where
  "hll_add number registers = registers[hll_index number := max (registers ! hll_index number) (hll_rank number)]"

definition hll_registers :: "64 word list \<Rightarrow> nat list" where
  "hll_registers numbers = foldl (\<lambda>r n. hll_add n r) (replicate 128 0) numbers"

definition HLL_RELATIVE_ERROR_PPM :: int where "HLL_RELATIVE_ERROR_PPM = 91924"

definition approx_distinct_has_ambiguous_sparse_support :: "int \<Rightarrow> int \<Rightarrow> int \<Rightarrow> bool" where
  "approx_distinct_has_ambiguous_sparse_support estimate ppm k =
     (if estimate = 0 then False
      else
        let lower = estimate * (RATE_SCALE - ppm); upper = estimate * (RATE_SCALE + ppm);
            first = max 1 (- ((- lower) div RATE_SCALE)); last = min (k - 1) (upper div RATE_SCALE)
        in first \<le> last)"

section \<open>Histograms\<close>

text \<open>The index of the first element that satisfies a test, or the length.\<close>

fun first_index :: "('b \<Rightarrow> bool) \<Rightarrow> 'b list \<Rightarrow> nat" where
  "first_index p [] = 0"
| "first_index p (b # bs) = (if p b then 0 else Suc (first_index p bs))"

definition bump :: "nat \<Rightarrow> int list \<Rightarrow> int list" where
  "bump i counts = counts[i := counts ! i + 1]"

text \<open>Both histograms count, for each value, the first bucket whose bound admits it.\<close>

definition count_buckets :: "('v \<Rightarrow> 'b \<Rightarrow> bool) \<Rightarrow> 'b list \<Rightarrow> 'v list \<Rightarrow> int list" where
  "count_buckets admits bounds vs = foldl (\<lambda>counts v. bump (first_index (admits v) bounds) counts) (replicate (length bounds + 1) 0) vs"


section \<open>Rounding\<close>

text \<open>The rate is the nearest number of millionths, the even one on a tie.\<close>

definition nearest_even :: "int \<Rightarrow> int \<Rightarrow> int \<Rightarrow> bool" where
  "nearest_even count rows u \<longleftrightarrow>
     2 * \<bar>rows * u - count * RATE_SCALE\<bar> \<le> rows \<and> (2 * \<bar>rows * u - count * RATE_SCALE\<bar> = rows \<longrightarrow> u mod 2 = 0)"

lemma rounded_nearest:
  assumes "0 < rows" shows "nearest_even count rows (rounded_rate_units count rows)"
proof -
  define x where "x = count * RATE_SCALE"
  define q r where "q = x div rows" and "r = x mod rows"
  have x: "rows * q + r = x" and r: "0 \<le> r" "r < rows" using assms by (simp_all add: q_def r_def)
  have *: "rounded_rate_units count rows = (if r * 2 > rows \<or> (r * 2 = rows \<and> q mod 2 \<noteq> 0) then q + 1 else q)"
    by (simp add: rounded_rate_units_def x_def [symmetric] q_def r_def Let_def)
  have down: "rows * q - x = - r" and up: "rows * (q + 1) - x = rows - r" using x by (simp_all add: algebra_simps)
  have par: "q mod 2 \<noteq> 0 \<Longrightarrow> (q + 1) mod 2 = 0" by presburger
  show ?thesis unfolding nearest_even_def x_def [symmetric] * using r par by (auto simp: down up)
qed

lemma nearest_even_unique:
  assumes n: "0 < rows" and u: "nearest_even c rows u" and v: "nearest_even c rows v"
  shows "u = v"
proof (rule ccontr)
  assume ne: "u \<noteq> v"
  define x where "x = c * RATE_SCALE"
  have uv: "2 * \<bar>rows * u - x\<bar> \<le> rows" "2 * \<bar>rows * v - x\<bar> \<le> rows" using u v by (simp_all add: nearest_even_def x_def)
  have a: "rows \<le> rows * \<bar>u - v\<bar>" using n ne by simp
  have b: "rows * \<bar>u - v\<bar> = \<bar>rows * u - rows * v\<bar>" using n by (simp add: abs_mult right_diff_distrib [symmetric])
  have c: "\<bar>rows * u - rows * v\<bar> \<le> \<bar>rows * u - x\<bar> + \<bar>rows * v - x\<bar>" by simp
  have "n \<le> t \<Longrightarrow> t \<le> a + b \<Longrightarrow> 2 * a \<le> n \<Longrightarrow> 2 * b \<le> n \<Longrightarrow> 2 * a = n \<and> 2 * b = n \<and> t = n" for n t a b :: int by linarith
  from this [OF a c [folded b] uv] have t1: "2 * \<bar>rows * u - x\<bar> = rows" and t2: "2 * \<bar>rows * v - x\<bar> = rows"
    and t3: "rows * \<bar>u - v\<bar> = rows" by blast+
  from t3 n have "\<bar>u - v\<bar> = 1" by simp
  moreover have "u mod 2 = 0" "v mod 2 = 0" using u v t1 t2 by (simp_all add: nearest_even_def x_def)
  ultimately show False by presburger
qed

lemma rounded_mono:
  assumes n: "0 < rows" and c: "c \<le> c'"
  shows "rounded_rate_units c rows \<le> rounded_rate_units c' rows"
proof (rule ccontr)
  let ?u = "rounded_rate_units c rows" and ?v = "rounded_rate_units c' rows"
  assume "\<not> ?u \<le> ?v"
  then have "rows \<le> rows * (?u - ?v)" using n by simp
  moreover have half: "2 * \<bar>y\<bar> \<le> n \<Longrightarrow> 2 * y \<le> n" "2 * \<bar>y\<bar> \<le> n \<Longrightarrow> 2 * - y \<le> n" for y n :: int by linarith+
  have "2 * (rows * ?u - c * RATE_SCALE) \<le> rows"
    by (rule half(1) [OF rounded_nearest [OF n, of c, unfolded nearest_even_def, THEN conjunct1]])
  moreover have "2 * - (rows * ?v - c' * RATE_SCALE) \<le> rows"
    by (rule half(2) [OF rounded_nearest [OF n, of c', unfolded nearest_even_def, THEN conjunct1]])
  ultimately have "c' * RATE_SCALE \<le> c * RATE_SCALE" by (simp add: right_diff_distrib)
  then have "c' = c" using c by (simp add: RATE_SCALE_def)
  then show False using \<open>\<not> ?u \<le> ?v\<close> by simp
qed

lemma rounded_bounds:
  assumes "0 < rows" "0 \<le> c" "c \<le> rows"
  shows "0 \<le> rounded_rate_units c rows" "rounded_rate_units c rows \<le> RATE_SCALE"
proof -
  have "rounded_rate_units 0 rows = 0" "rounded_rate_units rows rows = RATE_SCALE"
    using assms(1) by (simp_all add: rounded_rate_units_def)
  then show "0 \<le> rounded_rate_units c rows" "rounded_rate_units c rows \<le> RATE_SCALE"
    using rounded_mono [OF assms(1,2)] rounded_mono [OF assms(1,3)] by simp_all
qed

section \<open>Reading a rate back\<close>

lemma decimal_digit_value: "0 \<le> d \<Longrightarrow> d < 10 \<Longrightarrow> (of_char (decimal_digit d) :: int) - 48 = d"
proof -
  assume d: "0 \<le> d" "d < 10"
  then have "of_char (char_of (48 + nat d) :: char) = (48 + nat d :: nat)" by simp
  then have "(of_char (char_of (48 + nat d) :: char) :: int) = 48 + d" using d by (metis of_nat_of_char of_nat_add of_nat_numeral int_nat_eq)
  then show ?thesis by (simp add: decimal_digit_def digit_char_def)
qed

lemma read_digits_snoc: "read_digits (s @ [c]) = 10 * read_digits s + (of_char c - 48)"
  by (simp add: read_digits_def)

lemma read_show_nat: "read_digits (show_nat n) = int n"
proof (induction n rule: less_induct)
  case (less n)
  show ?case
  proof (cases "n < 10")
    case True
    then show ?thesis using decimal_digit_value [of "int n"] by (simp add: show_nat.simps [of n] read_digits_def decimal_digit_def)
  next
    case False
    then have "read_digits (show_nat n) = 10 * int (n div 10) + int (n mod 10)"
      using less.IH [of "n div 10"] decimal_digit_value [of "int (n mod 10)"]
      by (simp add: show_nat.simps [of n] read_digits_snoc decimal_digit_def nat_mod_distrib)
    also have "\<dots> = int (10 * (n div 10) + n mod 10)" by (simp only: of_nat_add of_nat_mult of_nat_numeral)
    finally show ?thesis by simp
  qed
qed

lemma read_pad6: "0 \<le> n \<Longrightarrow> n < RATE_SCALE \<Longrightarrow> read_digits (pad6 n) = n"
proof -
  assume n: "0 \<le> n" "n < RATE_SCALE"
  have d: "(of_char (decimal_digit ((n div p) mod 10)) :: int) - 48 = (n div p) mod 10" for p by (rule decimal_digit_value) simp_all
  have s: "n div p = 10 * (n div (p * 10)) + (n div p) mod 10" if "0 < p" for p
    using that by (simp add: zdiv_zmult2_eq)
  have "n div 100000 < 10" using n by (simp add: RATE_SCALE_def)
  then have t: "(n div 100000) mod 10 = n div 100000" using n by (simp add: pos_imp_zdiv_nonneg_iff)
  have "read_digits (pad6 n) = 10 * (10 * (10 * (10 * (10 * (10 * 0 + n div 100000 mod 10) + n div 10000 mod 10) + n div 1000 mod 10) +
      n div 100 mod 10) + n div 10 mod 10) + n div 1 mod 10"
    unfolding pad6_def read_digits_def list.map foldl_Cons foldl_Nil d ..
  also have "\<dots> = 10 * (10 * (10 * (10 * (10 * (n div 100000) + n div 10000 mod 10) + n div 1000 mod 10) + n div 100 mod 10) + n div 10 mod 10) + n mod 10"
    by (simp add: t)
  also have "\<dots> = n"
  proof -
    have "a = 10 * b + ra \<Longrightarrow> b = 10 * c + rb \<Longrightarrow> c = 10 * d + rc \<Longrightarrow> d = 10 * e + rd \<Longrightarrow> 10 * a + r = n \<Longrightarrow>
        10 * (10 * (10 * (10 * (10 * e + rd) + rc) + rb) + ra) + r = n" for a b c d e r ra rb rc rd :: int by simp
    from this [OF s [of 10, simplified] s [of 100, simplified] s [of 1000, simplified] s [of 10000, simplified] mult_div_mod_eq [of 10 n]]
    show ?thesis .
  qed
  finally show ?thesis .
qed

lemma digits_no_dot:
  "CHR ''.'' \<notin> set (show_nat n)" "CHR ''.'' \<notin> set (pad6 u)"
proof -
  have no: "d < 10 \<Longrightarrow> digit_char d \<noteq> CHR ''.''" for d :: nat
  proof
    assume d: "d < 10" "digit_char d = CHR ''.''"
    then have "(of_char (digit_char d) :: nat) = 46" by simp
    moreover have "(of_char (digit_char d) :: nat) = 48 + d" using d(1) by (simp add: digit_char_def)
    ultimately show False by simp
  qed
  show "CHR ''.'' \<notin> set (show_nat n)"
  proof (induction n rule: show_nat.induct)
    case (1 n)
    then show ?case using no [of n] no [of "n mod 10"] by (subst show_nat.simps) auto
  qed
  have "nat (x mod 10) < 10" for x :: int by (simp add: nat_less_iff)
  then show "CHR ''.'' \<notin> set (pad6 u)" using no by (auto simp: pad6_def decimal_digit_def dest: not_sym)
qed

lemma rate_units_format:
  assumes "0 < rows" "0 \<le> c" "c \<le> rows"
  shows "rate_units_of (format_null_rate c rows) = rounded_rate_units c rows"
proof -
  let ?u = "rounded_rate_units c rows"
  have u: "0 \<le> ?u" using rounded_bounds [OF assms] by simp
  have "split_on CHR ''.'' (format_null_rate c rows) = [show_nat (nat (?u div RATE_SCALE)), pad6 (?u mod RATE_SCALE)]"
    using split_on_append [OF digits_no_dot(1)] split_on_no_sep [OF digits_no_dot(2)] by (simp add: format_null_rate_def Let_def)
  moreover have "read_digits (pad6 (?u mod RATE_SCALE)) = ?u mod RATE_SCALE" by (rule read_pad6) (simp_all add: RATE_SCALE_def)
  moreover have "0 \<le> ?u div RATE_SCALE" using u by (simp add: RATE_SCALE_def pos_imp_zdiv_nonneg_iff)
  ultimately show ?thesis by (simp add: rate_units_of_def read_show_nat)
qed


section \<open>The search for a preimage\<close>

lemma bisect_first:
  assumes "low \<le> high" "\<forall>i j. low \<le> i \<longrightarrow> i \<le> j \<longrightarrow> j < high \<longrightarrow> below j \<longrightarrow> below i"
  shows "low \<le> bisect below low high \<and> bisect below low high \<le> high \<and>
    (\<forall>i. low \<le> i \<and> i < high \<longrightarrow> (below i \<longleftrightarrow> i < bisect below low high))"
  using assms
proof (induction below low high rule: bisect.induct)
  case (1 below low high)
  show ?case
  proof (cases "low < high")
    case False
    then show ?thesis using "1.prems"(1) by (subst (1 2 3) bisect.simps) auto
  next
    case True
    define m where "m = (low + high) div 2"
    have m: "low \<le> m" "m < high" using True by (auto simp: m_def)
    have closed: "below i" if "low \<le> i" "i \<le> j" "j < high" "below j" for i j using "1.prems"(2) that by blast
    show ?thesis
    proof (cases "below m")
      case b: True
      have e: "bisect below low high = bisect below (m + 1) high" using True b by (subst bisect.simps) (simp add: m_def Let_def)
      have "m + 1 \<le> bisect below (m + 1) high \<and> bisect below (m + 1) high \<le> high \<and>
          (\<forall>i. m + 1 \<le> i \<and> i < high \<longrightarrow> (below i \<longleftrightarrow> i < bisect below (m + 1) high))"
        using "1.IH"(1) [OF True m_def b] m closed by simp
      moreover have "below i" if "low \<le> i" "i < m + 1" for i using closed [OF that(1) _ m(2) b] that(2) by simp
      ultimately show ?thesis unfolding e using m by (smt (verit))
    next
      case b: False
      have e: "bisect below low high = bisect below low m" using True b by (subst bisect.simps) (simp add: m_def Let_def)
      have "low \<le> bisect below low m \<and> bisect below low m \<le> m \<and>
          (\<forall>i. low \<le> i \<and> i < m \<longrightarrow> (below i \<longleftrightarrow> i < bisect below low m))"
        using "1.IH"(2) [OF True m_def b] m closed by simp
      moreover have "\<not> below i" if "m \<le> i" "i < high" for i using closed [OF m(1) that] b by blast
      ultimately show ?thesis unfolding e using m by (smt (verit))
    qed
  qed
qed

lemma first_count:
  assumes "0 < rows"
  shows "0 \<le> first_count_at_least rows u \<and> first_count_at_least rows u \<le> rows + 1 \<and>
    (\<forall>c. 0 \<le> c \<and> c \<le> rows \<longrightarrow> (rounded_rate_units c rows < u \<longleftrightarrow> c < first_count_at_least rows u))"
proof -
  have "\<forall>i j. 0 \<le> i \<longrightarrow> i \<le> j \<longrightarrow> j < rows + 1 \<longrightarrow> below_units rows u j \<longrightarrow> below_units rows u i"
    using rounded_mono [OF assms] by (meson below_units_def le_less_trans)
  from bisect_first [OF _ this] assms show ?thesis unfolding first_count_at_least_def below_units_def [symmetric] by simp
qed

text \<open>C25: The search finds exactly the counts that are written as a given rate.\<close>

theorem preimage_exact:
  assumes "0 < rows" "0 \<le> c" "c \<le> rows"
  shows "\<exists>first last. null_rate_preimage_range (format_null_rate c rows) rows = Some (first, last) \<and>
    (\<forall>d. 0 \<le> d \<and> d \<le> rows \<longrightarrow> (format_null_rate d rows = format_null_rate c rows \<longleftrightarrow> first \<le> d \<and> d \<le> last))"
proof -
  let ?R = "\<lambda>d. rounded_rate_units d rows"
  let ?f = "first_count_at_least rows (?R c)" and ?l = "first_count_at_least rows (?R c + 1) - 1"
  have f: "?R d < ?R c \<longleftrightarrow> d < ?f" and l: "?R d < ?R c + 1 \<longleftrightarrow> d < first_count_at_least rows (?R c + 1)" if "0 \<le> d" "d \<le> rows" for d
    using first_count [OF assms(1)] that by blast+
  have eq: "?R d = ?R c \<longleftrightarrow> ?f \<le> d \<and> d \<le> ?l" if "0 \<le> d" "d \<le> rows" for d using f [OF that] l [OF that] by linarith
  have fl: "?f \<le> c" "c \<le> ?l" using eq [OF assms(2,3)] by auto
  have "0 \<le> ?f" using first_count [OF assms(1)] by blast
  then have "?R ?f = ?R c" using eq [of ?f] fl assms(3) by simp
  then have "null_rate_preimage_range (format_null_rate c rows) rows = Some (?f, ?l)"
    using fl assms(3) by (simp add: null_rate_preimage_range_def rate_units_format [OF assms] Let_def)
  moreover have "format_null_rate d rows = format_null_rate c rows \<longleftrightarrow> ?R d = ?R c" if "0 \<le> d" "d \<le> rows" for d
    using rate_units_format [OF assms(1) that] rate_units_format [OF assms] by (metis format_null_rate_def)
  ultimately show ?thesis using eq by blast
qed

section \<open>What is published of a column\<close>

datatype column_type = StringColumn | IntegerColumn | FloatColumn | DecimalColumn | BooleanColumn | DateColumn | DatetimeColumn | BinaryColumn
  | UnknownColumn | UnsupportedColumn

datatype 'a published = Suppressed | Published 'a

record 'v data_column =
  col_name :: string
  col_type :: column_type
  cells :: "'v option list"

text \<open>What the connector does with a value: its canonical bytes, its length, and whether it lies below a boundary; the
  digest of seeded bytes and the estimate of a register set.\<close>

record ('v, 'b) value_tools =
  canonical :: "'v \<Rightarrow> string"
  byte_length :: "'v \<Rightarrow> int"
  is_below :: "'v \<Rightarrow> 'b \<Rightarrow> bool"
  digest64 :: "string \<Rightarrow> 64 word"
  estimate_of :: "nat list \<Rightarrow> int"

record 'b scan_policy =
  occupancy :: int
  length_bounds :: "int list"
  boundaries :: "'b list"
  seed :: string

definition present :: "'v data_column \<Rightarrow> 'v list" where
  "present c = concat (map (\<lambda>x. case x of None \<Rightarrow> [] | Some v \<Rightarrow> [v]) (cells c))"

definition row_total :: "'v data_column \<Rightarrow> int" where
  "row_total c = int (length (cells c))"

definition null_count :: "'v data_column \<Rightarrow> int" where
  "null_count c = row_total c - int (length (present c))"

definition published_null_rate :: "int \<Rightarrow> 'v data_column \<Rightarrow> string published option" where
  "published_null_rate k c =
     (if row_total c < k then Some Suppressed
      else if has_low_occupancy [null_count c, row_total c - null_count c] k then Some Suppressed
      else map_option (\<lambda>b. if b then Suppressed else Published (format_null_rate (null_count c) (row_total c)))
        (null_rate_has_ambiguous_sparse_support (format_null_rate (null_count c) (row_total c)) (row_total c) k))"

definition hll_estimate :: "('v, 'b) value_tools \<Rightarrow> string \<Rightarrow> 'v list \<Rightarrow> int" where
  "hll_estimate t s vs = estimate_of t (hll_registers (map (\<lambda>v. digest64 t (s @ CHR 0x00 # canonical t v)) vs))"

text \<open>\<open>index.to_bytes(4, "big")\<close>.\<close>

definition four_bytes :: "nat \<Rightarrow> string" where
  "four_bytes n = map (\<lambda>p. char_of (nat ((int n div p) mod 256))) [16777216, 65536, 256, 1]"

definition published_distinct :: "('v, 'b) value_tools \<Rightarrow> 'b scan_policy \<Rightarrow> nat \<Rightarrow> 'v data_column \<Rightarrow> int published" where
  "published_distinct t p index c =
     (let exact = int (length (remdups (map (canonical t) (present c)))) in
      if row_total c < occupancy p \<or> (0 < exact \<and> exact < occupancy p) then Suppressed
      else
        let estimate = hll_estimate t (seed p @ four_bytes index) (present c) in
        if approx_distinct_has_ambiguous_sparse_support estimate HLL_RELATIVE_ERROR_PPM (occupancy p) then Suppressed
        else Published estimate)"

definition published_counts :: "int \<Rightarrow> 'v data_column \<Rightarrow> int list \<Rightarrow> int list published" where
  "published_counts k c counts = (if row_total c < k \<or> has_low_occupancy counts k then Suppressed else Published counts)"

definition published_lengths :: "('v, 'b) value_tools \<Rightarrow> 'b scan_policy \<Rightarrow> 'v data_column \<Rightarrow> int list published option" where
  "published_lengths t p c =
     (if col_type c = StringColumn \<or> col_type c = BinaryColumn
      then Some (published_counts (occupancy p) c (count_buckets (\<lambda>v b. byte_length t v \<le> b) (length_bounds p) (present c)))
      else None)"

definition published_numbers :: "('v, 'b) value_tools \<Rightarrow> 'b scan_policy \<Rightarrow> 'v data_column \<Rightarrow> int list published option" where
  "published_numbers t p c =
     (if col_type c = IntegerColumn \<or> col_type c = FloatColumn \<or> col_type c = DecimalColumn
      then Some (published_counts (occupancy p) c (count_buckets (is_below t) (boundaries p) (present c)))
      else None)"

lemma present_le: "int (length (present c)) \<le> row_total c"
proof -
  have "length (concat (map (\<lambda>x. case x of None \<Rightarrow> [] | Some v \<Rightarrow> [v]) xs)) \<le> length xs" for xs :: "'a option list"
    by (induction xs) (auto split: option.split)
  then show ?thesis by (simp add: present_def row_total_def)
qed

lemma null_count_bounds: "0 \<le> null_count c" "null_count c \<le> row_total c"
  using present_le [of c] by (simp_all add: null_count_def)

text \<open>The rate is always written: the exception of the preimage search never happens.\<close>

lemma published_null_rate_defined: "0 < k \<Longrightarrow> published_null_rate k c \<noteq> None"
  using preimage_exact [of "row_total c" "null_count c"] null_count_bounds [of c]
  by (fastforce simp: published_null_rate_def null_rate_has_ambiguous_sparse_support_def)

text \<open>C5: A published null rate speaks of no small group. Whatever the number of nulls, every count of nulls that is
  written as the same rate, the true one among them, is zero or at least the minimum occupancy, and so is
  the number of the other rows.\<close>

theorem published_rate_hides_small_groups:
  assumes "0 < k" "published_null_rate k c = Some (Published r)" "0 \<le> d" "d \<le> row_total c" "format_null_rate d (row_total c) = r"
  shows "(d = 0 \<or> k \<le> d) \<and> (d = row_total c \<or> k \<le> row_total c - d)"
proof -
  let ?n = "row_total c" and ?z = "null_count c"
  have n: "k \<le> ?n" and r: "r = format_null_rate ?z ?n"
    and a: "null_rate_has_ambiguous_sparse_support (format_null_rate ?z ?n) ?n k = Some False"
    using assms(2) by (auto simp: published_null_rate_def split: if_splits)
  have "0 < ?n" using n assms(1) by simp
  from preimage_exact [OF this null_count_bounds] obtain f l where fl: "null_rate_preimage_range (format_null_rate ?z ?n) ?n = Some (f, l)"
    and e: "\<And>d. 0 \<le> d \<Longrightarrow> d \<le> ?n \<Longrightarrow> format_null_rate d ?n = format_null_rate ?z ?n \<longleftrightarrow> f \<le> d \<and> d \<le> l" by blast
  have no: "\<not> max f 1 \<le> min l (k - 1)" "\<not> max f (?n - (k - 1)) \<le> min l (?n - 1)"
    using a by (auto simp: null_rate_has_ambiguous_sparse_support_def fl)
  have "f \<le> d" "d \<le> l" using e [OF assms(3,4)] assms(5) r by auto
  then show ?thesis using no assms(3,4) by (auto simp: max_def min_def split: if_splits)
qed


text \<open>C33: A published number of distinct values speaks of no small group. Unless the estimate is zero, every number of
  distinct values whose estimate may lie within the declared relative error of what is published is at
  least the minimum occupancy.\<close>

theorem published_distinct_hides_small_groups:
  assumes "published_distinct t p index c = Published e" "0 < e" "0 < d"
    and "RATE_SCALE * \<bar>e - d\<bar> \<le> HLL_RELATIVE_ERROR_PPM * d"
  shows "occupancy p \<le> d"
proof (rule ccontr)
  assume "\<not> occupancy p \<le> d"
  let ?S = RATE_SCALE and ?E = HLL_RELATIVE_ERROR_PPM
  define low where "low = - ((- (e * (?S - ?E))) div ?S)"
  define high where "high = (e * (?S + ?E)) div ?S"
  have no: "\<not> max 1 low \<le> min (occupancy p - 1) high"
    using assms(1,2) unfolding low_def high_def
    by (auto simp: published_distinct_def approx_distinct_has_ambiguous_sparse_support_def Let_def split: if_splits)
  have S: "0 < ?S" "0 \<le> ?E" "?E \<le> ?S" by (simp_all add: RATE_SCALE_def HLL_RELATIVE_ERROR_PPM_def)
  have ceil: "low \<le> x" if "e * (?S - ?E) \<le> x * ?S" for x
  proof -
    have "(- x * ?S) div ?S \<le> (- (e * (?S - ?E))) div ?S" using that S(1) by (intro zdiv_mono1) simp_all
    moreover have "(- x * ?S) div ?S = - x" using S(1) by (intro nonzero_mult_div_cancel_right) simp
    ultimately show ?thesis by (simp add: low_def)
  qed
  have "low \<le> e" using S assms(2) by (intro ceil) simp
  moreover have "(e * ?S) div ?S \<le> high" unfolding high_def using S assms(2) by (intro zdiv_mono1) simp_all
  then have "e \<le> high" using S(1) by simp
  ultimately have k: "occupancy p - 1 < max 1 low" using no assms(2) by (simp add: max_def min_def split: if_splits)
  have "e * (?S - ?E) \<le> d * ?S"
  proof (cases "d \<le> e")
    case True
    then have "?E * d \<le> ?E * e" using S(2) by (rule mult_left_mono)
    moreover have "?S * (e - d) \<le> ?E * d" using assms(4) True by simp
    ultimately show ?thesis by (simp add: algebra_simps)
  next
    case False
    then have "e * (?S - ?E) \<le> e * ?S" "e * ?S \<le> d * ?S" using S assms(2) by simp_all
    then show ?thesis by simp
  qed
  then have "low \<le> d" by (rule ceil)
  then show False using k \<open>\<not> occupancy p \<le> d\<close> assms(3) by simp
qed

section \<open>Histograms count\<close>

lemma first_index_le: "first_index p bs \<le> length bs"
  by (induction bs) simp_all

lemma length_count_buckets [simp]: "length (count_buckets admits bounds vs) = length bounds + 1"
proof -
  have "length (foldl (\<lambda>counts v. bump (f v) counts) c vs) = length c" for f c
    by (induction vs arbitrary: c) (simp_all add: bump_def)
  then show ?thesis by (simp add: count_buckets_def)
qed

lemma count_buckets_nth_from:
  "i < length c \<Longrightarrow> foldl (\<lambda>counts v. bump (f v) counts) c vs ! i = c ! i + int (length (filter (\<lambda>v. f v = i) vs))"
  by (induction vs arbitrary: c) (auto simp: bump_def nth_list_update)

text \<open>Also: A bucket counts the values whose first admitting bound is its own; the last those that no bound admits.\<close>

theorem count_buckets_reference:
  "count_buckets admits bounds vs = map (\<lambda>i. int (length (filter (\<lambda>v. first_index (admits v) bounds = i) vs))) [0..<length bounds + 1]"
proof (rule nth_equalityI)
  fix i assume i: "i < length (count_buckets admits bounds vs)"
  then have il: "i < length bounds + 1" by simp
  then have "(replicate (length bounds + 1) 0) ! i = (0 :: int)" by (simp add: nth_replicate del: replicate_Suc)
  then show "count_buckets admits bounds vs ! i = map (\<lambda>i. int (length (filter (\<lambda>v. first_index (admits v) bounds = i) vs))) [0..<length bounds + 1] ! i"
    using il by (simp add: count_buckets_def count_buckets_nth_from nth_map_upt del: upt_Suc replicate_Suc)
qed (simp del: upt_Suc)

lemma sum_list_bump: "i < length c \<Longrightarrow> sum_list (bump i c) = sum_list c + 1"
  by (induction c arbitrary: i) (auto simp: bump_def nth_Cons' split: nat.split)

lemma sum_count_buckets: "sum_list (count_buckets admits bounds vs) = int (length vs)"
proof -
  have "length c = length bounds + 1 \<Longrightarrow>
      sum_list (foldl (\<lambda>counts v. bump (first_index (admits v) bounds) counts) c vs) = sum_list c + int (length vs)" for c
  proof (induction vs arbitrary: c)
    case (Cons v vs)
    have "first_index (admits v) bounds < length c" using first_index_le [of "admits v" bounds] Cons.prems by simp
    then show ?case using Cons.IH [of "bump (first_index (admits v) bounds) c"] Cons.prems by (simp add: sum_list_bump bump_def [symmetric]) (simp add: bump_def)
  qed simp
  then show ?thesis by (simp add: count_buckets_def sum_list_replicate)
qed

text \<open>C32: Suppressing a null rate does not hide the number of nulls. When the histogram of the same column is published,
  the number of rows less the sum of its buckets is the number of nulls, however small.\<close>

theorem suppressed_nulls_recoverable:
  assumes "published_lengths t p c = Some (Published h) \<or> published_numbers t p c = Some (Published h)"
  shows "row_total c - sum_list h = null_count c"
  using assms by (auto simp: published_lengths_def published_numbers_def published_counts_def null_count_def sum_count_buckets split: if_splits)


section \<open>The registers of the estimate\<close>

lemma bit_length_bound: "0 < n \<Longrightarrow> n < 2 ^ m \<Longrightarrow> 0 < bit_length n \<and> bit_length n \<le> m"
proof (induction n arbitrary: m rule: bit_length.induct)
  case (1 n)
  obtain j where m: "m = Suc j" using 1(2,3) by (cases m) auto
  show ?case
  proof (cases "0 < n div 2")
    case True
    have "n div 2 < 2 ^ j" using 1(3) by (simp add: m)
    with True "1.IH" 1(2) have "bit_length (n div 2) \<le> j" by simp
    then show ?thesis using 1(2) by (subst (1 2) bit_length.simps) (simp add: m)
  next
    case False
    then have "bit_length (n div 2) = 0" by (subst bit_length.simps) simp
    then show ?thesis using 1(2) by (subst (1 2) bit_length.simps) (simp add: m)
  qed
qed

text \<open>Also: The index of a digest is one of the 128 registers and its rank is between 1 and 58, so that no register is
  missed and none overflows.\<close>

theorem hll_ranges: "hll_index w < 128 \<and> 1 \<le> hll_rank w \<and> hll_rank w \<le> 58"
proof -
  have "unat (w AND 127) < 128"
  proof -
    have "w AND 127 \<le> 127" by (rule word_and_le1)
    then show ?thesis by (simp add: word_le_nat_alt)
  qed
  moreover have "1 \<le> hll_rank w \<and> hll_rank w \<le> 58"
  proof (cases "drop_bit 7 w = 0")
    case False
    have "uint (drop_bit 7 w) = uint w div 2 ^ 7" by (simp add: drop_bit_eq_div uint_div_distrib unsigned_drop_bit_eq)
    moreover have "uint w < 2 ^ 64" using uint_lt2p [of w] by simp
    ultimately have "uint (drop_bit 7 w) < 2 ^ 57" by simp
    moreover have "0 < uint (drop_bit 7 w)" using False by (simp add: less_le uint_0_iff)
    ultimately have "0 < bit_length (uint (drop_bit 7 w)) \<and> bit_length (uint (drop_bit 7 w)) \<le> 57" using bit_length_bound by blast
    then show ?thesis using False by (simp add: hll_rank_def Let_def) arith
  qed (simp add: hll_rank_def)
  ultimately show ?thesis by (simp add: hll_index_def)
qed

definition register_of :: "64 word set \<Rightarrow> nat \<Rightarrow> nat" where
  "register_of ws i = Max (insert 0 (hll_rank ` {w \<in> ws. hll_index w = i}))"

lemma Max_insert_max: "finite A \<Longrightarrow> Max (insert (max a b) A) = Max (insert a (insert b A))" for a :: "'a::linorder"
  by (cases "A = {}") (simp_all add: max.assoc)

lemma hll_fold:
  "length r = 128 \<Longrightarrow> i < 128 \<Longrightarrow>
     foldl (\<lambda>r n. hll_add n r) r ws ! i = Max (insert (r ! i) (hll_rank ` {w \<in> set ws. hll_index w = i}))"
proof (induction ws arbitrary: r)
  case (Cons w ws)
  have s: "{v \<in> set (w # ws). hll_index v = i} = (if hll_index w = i then insert w {v \<in> set ws. hll_index v = i} else {v \<in> set ws. hll_index v = i})"
    by auto
  have l: "length (hll_add w r) = 128" using Cons.prems by (simp add: hll_add_def)
  have a: "hll_add w r ! i = (if hll_index w = i then max (r ! i) (hll_rank w) else r ! i)"
    using Cons.prems hll_ranges [of w] by (auto simp: hll_add_def nth_list_update)
  have "foldl (\<lambda>r n. hll_add n r) (hll_add w r) ws ! i = Max (insert (hll_add w r ! i) (hll_rank ` {w \<in> set ws. hll_index w = i}))"
    by (rule Cons.IH [OF l Cons.prems(2)])
  then show ?case unfolding s a by (simp add: Max_insert_max)
qed simp

lemma hll_reference: "hll_registers ws = map (register_of (set ws)) [0..<128]"
proof (rule nth_equalityI)
  have l: "length r = 128 \<Longrightarrow> length (foldl (\<lambda>r n. hll_add n r) r ws) = 128" for r
    by (induction ws arbitrary: r) (simp_all add: hll_add_def)
  then show n: "length (hll_registers ws) = length (map (register_of (set ws)) [0..<128])" by (simp add: hll_registers_def)
  fix i assume "i < length (hll_registers ws)"
  then have i: "i < 128" using n by simp
  show "hll_registers ws ! i = map (register_of (set ws)) [0..<128] ! i"
    using hll_fold [of "replicate 128 0" i ws] i by (simp add: hll_registers_def register_of_def)
qed

text \<open>Also: The estimate of distinct values depends on nothing but which values occur: their order and their repetitions
  do not matter.\<close>

theorem estimate_ignores_repetition:
  assumes "canonical t ` set vs = canonical t ` set ws"
  shows "hll_estimate t s vs = hll_estimate t s ws"
proof -
  have "set (map (\<lambda>v. digest64 t (s @ CHR 0x00 # canonical t v)) us) = (\<lambda>b. digest64 t (s @ CHR 0x00 # b)) ` canonical t ` set us" for us
    by (simp add: image_image)
  then show ?thesis unfolding hll_estimate_def hll_reference using assms by simp
qed


section \<open>The objects of an artifact\<close>

datatype scan_error = UnsupportedShape string | IncompleteCoverage string | BudgetIncompatible string

definition ends_with :: "string \<Rightarrow> string \<Rightarrow> bool" where
  "ends_with p s \<longleftrightarrow> starts_with (rev p) (rev s)"

definition supported_suffix :: "string \<Rightarrow> string option" where
  "supported_suffix name = find (\<lambda>p. ends_with p (map ascii_lower name)) [''.parquet'', ''.jsonl'', ''.json'', ''.csv'', ''.tsv'']"

text \<open>What the archive module makes of the bytes: no archive, a damaged one, or its entries (name and content). A name that
  ends in a slash is a directory.\<close>

datatype zip_view = NotZip | BadZip | ZipEntries "(string \<times> string) list"

definition zip_files :: "(string \<times> string) list \<Rightarrow> (string \<times> string) list" where
  "zip_files es = filter (\<lambda>e. \<not> ends_with ''/'' (fst e)) es"

definition zip_checked :: "(string \<times> string) list \<Rightarrow> scan_error option" where
  "zip_checked es =
     (if es = [] \<or> list_ex (\<lambda>e. supported_suffix (fst e) = None) es
      then Some (IncompleteCoverage ''artifact traversal is not fully supported'')
      else if \<not> distinct (map fst es) then Some (IncompleteCoverage ''artifact traversal identities are ambiguous'')
      else None)"

definition artifact_objects :: "(string \<Rightarrow> zip_view) \<Rightarrow> string \<Rightarrow> string \<Rightarrow> scan_error + (string \<times> string) list" where
  "artifact_objects unzip name payload =
     (case unzip payload of
        BadZip \<Rightarrow> Inl (UnsupportedShape ''archive could not be decoded'')
      | ZipEntries es \<Rightarrow>
          (case zip_checked (zip_files es) of
             Some e \<Rightarrow> Inl e
           | None \<Rightarrow> Inr (map (\<lambda>n. (n, the (map_of (zip_files es) n))) (sort (map fst (zip_files es)))))
      | NotZip \<Rightarrow>
          if supported_suffix name = None then Inl (UnsupportedShape ''artifact type is unsupported'')
          else Inr [(''registered-root'', payload)])"

text \<open>The count before a quote reads names only.\<close>

definition probe_object_count :: "(string \<Rightarrow> zip_view) \<Rightarrow> string \<Rightarrow> string \<Rightarrow> scan_error + int" where
  "probe_object_count unzip name payload =
     (case unzip payload of
        BadZip \<Rightarrow> Inl (UnsupportedShape ''archive could not be decoded'')
      | ZipEntries es \<Rightarrow>
          let names = filter (\<lambda>n. \<not> ends_with ''/'' n) (map fst es) in
          if names = [] \<or> list_ex (\<lambda>n. supported_suffix n = None) names
          then Inl (IncompleteCoverage ''artifact traversal is not fully supported'')
          else if \<not> distinct names then Inl (IncompleteCoverage ''artifact traversal identities are ambiguous'')
          else Inr (int (length names))
      | NotZip \<Rightarrow>
          if supported_suffix name = None then Inl (UnsupportedShape ''artifact type is unsupported'') else Inr 1)"

lemma zip_files_names: "map fst (zip_files es) = filter (\<lambda>n. \<not> ends_with ''/'' n) (map fst es)"
  by (simp add: zip_files_def filter_map comp_def)

text \<open>Also: The number of objects that a quote is asked for is the number of objects that the scan will read, and the two
  refuse the same artifacts with the same error.\<close>

theorem probe_counts_scanned_objects:
  "probe_object_count unzip name payload = map_sum id (\<lambda>os. int (length os)) (artifact_objects unzip name payload)"
proof (cases "unzip payload")
  case (ZipEntries es)
  have n: "(zip_files es = []) = (filter (\<lambda>n. \<not> ends_with ''/'' n) (map fst es) = [])"
    unfolding zip_files_names [symmetric] by simp
  have x: "list_ex (\<lambda>e. supported_suffix (fst e) = None) (zip_files es) =
      list_ex (\<lambda>n. supported_suffix n = None) (filter (\<lambda>n. \<not> ends_with ''/'' n) (map fst es))"
    unfolding zip_files_names [symmetric] by (simp add: list_ex_iff)
  show ?thesis
    unfolding probe_object_count_def artifact_objects_def ZipEntries zip_view.case Let_def zip_checked_def n x
    by (simp add: zip_files_names [symmetric])
qed (simp_all add: probe_object_count_def artifact_objects_def)

section \<open>Tables and facts\<close>

record 'v data_table =
  columns :: "'v data_column list"
  num_rows :: int

definition table_checked :: "'v data_table \<Rightarrow> scan_error option" where
  "table_checked tb =
     (if list_ex (\<lambda>c. 256 < length (col_name c)) (columns tb) then Some (UnsupportedShape ''artifact column name exceeds 256 characters'')
      else if list_ex (\<lambda>c. col_type c = UnsupportedColumn) (columns tb) then Some (UnsupportedShape ''artifact column type is unsupported'')
      else None)"

record fact =
  object_id :: string
  column_names :: "string list"
  column_types :: "column_type list"
  null_rates :: "string published list"
  distinct_counts :: "int published list"
  length_histograms :: "int list published option list"
  numeric_buckets :: "int list published option list"
  fact_rows :: int

definition column_rate :: "int \<Rightarrow> 'v data_column \<Rightarrow> string published" where
  "column_rate k c = (case published_null_rate k c of Some r \<Rightarrow> r | None \<Rightarrow> Suppressed)"

definition object_fact :: "('v, 'b) value_tools \<Rightarrow> 'b scan_policy \<Rightarrow> string \<Rightarrow> 'v data_table \<Rightarrow> fact" where
  "object_fact t p i tb =
     \<lparr>object_id = i, column_names = map col_name (columns tb), column_types = map col_type (columns tb),
      null_rates = map (column_rate (occupancy p)) (columns tb),
      distinct_counts = map (\<lambda>(j, c). published_distinct t p j c) (zip [0..<length (columns tb)] (columns tb)),
      length_histograms = map (published_lengths t p) (columns tb),
      numeric_buckets = map (published_numbers t p) (columns tb), fact_rows = num_rows tb\<rparr>"

text \<open>The preview of the schema, for a seller who asked for it.\<close>

definition preview_of :: "fact \<Rightarrow> string \<times> string list \<times> column_type list \<times> int" where
  "preview_of f = (object_id f, column_names f, column_types f, fact_rows f)"

record scan_result =
  discovered :: int
  scanned :: int
  facts :: "fact list"
  preview :: "(string \<times> string list \<times> column_type list \<times> int) list option"

text \<open>The decoding of an object by its suffix, the keyed identifier of an object, and the size of the canonical result.\<close>

record 'v artifact_tools =
  unzip_view :: "string \<Rightarrow> zip_view"
  decode :: "string \<Rightarrow> string \<Rightarrow> 'v data_table option"
  commitment :: "string \<Rightarrow> string"
  json_size :: "scan_result \<Rightarrow> int"

definition read_table :: "'v artifact_tools \<Rightarrow> string \<Rightarrow> string \<Rightarrow> scan_error + 'v data_table" where
  "read_table a name payload =
     (case supported_suffix name of
        None \<Rightarrow> Inl (UnsupportedShape ''artifact contains an unsupported object type'')
      | Some suffix \<Rightarrow>
          (case decode a suffix payload of
             None \<Rightarrow> Inl (UnsupportedShape ''supported tabular object could not be decoded'')
           | Some tb \<Rightarrow> Inr tb))"

definition object_name :: "string \<Rightarrow> string \<Rightarrow> string" where
  "object_name artifact identity = (if identity \<noteq> ''registered-root'' then identity else artifact)"

definition checked_table :: "'v artifact_tools \<Rightarrow> string \<Rightarrow> string \<times> string \<Rightarrow> scan_error + 'v data_table" where
  "checked_table a name ob =
     (case read_table a (object_name name (fst ob)) (snd ob) of
        Inl e \<Rightarrow> Inl e
      | Inr tb \<Rightarrow> (case table_checked tb of Some e \<Rightarrow> Inl e | None \<Rightarrow> Inr tb))"

fun scan_objects ::
  "('v, 'b) value_tools \<Rightarrow> 'b scan_policy \<Rightarrow> 'v artifact_tools \<Rightarrow> string \<Rightarrow> (string \<times> string) list \<Rightarrow> scan_error + fact list" where
  "scan_objects t p a name [] = Inr []"
| "scan_objects t p a name (ob # obs) =
     (case checked_table a name ob of
        Inl e \<Rightarrow> Inl e
      | Inr tb \<Rightarrow>
          (case scan_objects t p a name obs of
             Inl e \<Rightarrow> Inl e
           | Inr fs \<Rightarrow> Inr (object_fact t p (commitment a (fst ob)) tb # fs)))"

definition scan_bytes ::
  "('v, 'b) value_tools \<Rightarrow> 'b scan_policy \<Rightarrow> 'v artifact_tools \<Rightarrow> int \<Rightarrow> bool \<Rightarrow> string \<Rightarrow> string \<Rightarrow> scan_error + scan_result" where
  "scan_bytes t p a max_tokens preview_requested name payload =
     (case artifact_objects (unzip_view a) name payload of
        Inl e \<Rightarrow> Inl e
      | Inr obs \<Rightarrow>
          (case scan_objects t p a name obs of
             Inl e \<Rightarrow> Inl e
           | Inr fs \<Rightarrow>
               let ordered = sort_key object_id fs;
                   r = \<lparr>discovered = int (length obs), scanned = int (length fs), facts = ordered,
                        preview = (if preview_requested then Some (map preview_of ordered) else None)\<rparr>
               in if json_size a r > max_tokens * 4 then Inl (BudgetIncompatible ''complete artifact exceeds the signed inference budget'')
                  else Inr r))"

fun schema_of_objects :: "'v artifact_tools \<Rightarrow> string \<Rightarrow> (string \<times> string) list \<Rightarrow> scan_error option" where
  "schema_of_objects a name [] = None"
| "schema_of_objects a name (ob # obs) = (case checked_table a name ob of Inl e \<Rightarrow> Some e | Inr tb \<Rightarrow> schema_of_objects a name obs)"

definition validate_artifact_schema :: "'v artifact_tools \<Rightarrow> string \<Rightarrow> string \<Rightarrow> scan_error option" where
  "validate_artifact_schema a name payload =
     (case artifact_objects (unzip_view a) name payload of Inl e \<Rightarrow> Some e | Inr obs \<Rightarrow> schema_of_objects a name obs)"

text \<open>Also: An artifact that passed the check before the quote is refused by the scan for its size only, and the check
  refuses only what the scan refuses with the same error.\<close>

theorem validated_artifact_scans:
  "case validate_artifact_schema a name payload of
     Some e \<Rightarrow> scan_bytes t p a m pv name payload = Inl e
   | None \<Rightarrow> (\<exists>r. scan_bytes t p a m pv name payload = Inr r) \<or>
       scan_bytes t p a m pv name payload = Inl (BudgetIncompatible ''complete artifact exceeds the signed inference budget'')"
proof -
  have o: "case schema_of_objects a name obs of Some e \<Rightarrow> scan_objects t p a name obs = Inl e | None \<Rightarrow> \<exists>fs. scan_objects t p a name obs = Inr fs" for obs
    by (induction obs) (auto split: sum.splits option.splits)
  show ?thesis
  proof (cases "artifact_objects (unzip_view a) name payload")
    case (Inr obs)
    then show ?thesis using o [of obs]
      by (auto simp: validate_artifact_schema_def scan_bytes_def Let_def split: option.splits)
  qed (simp add: validate_artifact_schema_def scan_bytes_def)
qed

lemma scan_objects_facts:
  "scan_objects t p a name obs = Inr fs \<Longrightarrow> length fs = length obs \<and>
     (\<forall>f \<in> set fs. \<exists>ob \<in> set obs. \<exists>tb. checked_table a name ob = Inr tb \<and> f = object_fact t p (commitment a (fst ob)) tb)"
proof (induction obs arbitrary: fs)
  case (Cons ob obs)
  then obtain tb gs where g: "checked_table a name ob = Inr tb" "scan_objects t p a name obs = Inr gs"
    and fs: "fs = object_fact t p (commitment a (fst ob)) tb # gs" by (auto split: sum.splits)
  have "length gs = length obs" "\<forall>f \<in> set gs. \<exists>ob \<in> set obs. \<exists>tb. checked_table a name ob = Inr tb \<and> f = object_fact t p (commitment a (fst ob)) tb"
    using Cons.IH [OF g(2)] by blast+
  then show ?case using g(1) unfolding fs by (metis length_Cons list.set_intros set_ConsD)
qed simp

text \<open>Also: A report covers every object and speaks of no small group: as many objects are scanned as were discovered, and
  every bucket of a published histogram is empty or holds at least the minimum occupancy.\<close>

theorem report_complete_and_coarse:
  assumes "scan_bytes t p a m pv name payload = Inr r"
  shows "scanned r = discovered r \<and> length (facts r) = nat (scanned r) \<and>
    (\<forall>f \<in> set (facts r). \<forall>h. Some (Published h) \<in> set (length_histograms f) \<union> set (numeric_buckets f) \<longrightarrow>
       (\<forall>b \<in> set h. b \<le> 0 \<or> occupancy p \<le> b))"
proof -
  obtain obs fs where o: "artifact_objects (unzip_view a) name payload = Inr obs" and f: "scan_objects t p a name obs = Inr fs"
    and r: "facts r = sort_key object_id fs" "scanned r = int (length fs)" "discovered r = int (length obs)"
    using assms by (auto simp: scan_bytes_def Let_def split: sum.splits if_splits)
  have p: "b \<le> 0 \<or> occupancy p \<le> b" if "published_counts (occupancy p) c counts = Published h" "b \<in> set h" for c :: "'a data_column" and counts h b
    using that by (auto simp: published_counts_def has_low_occupancy_def list_ex_iff split: if_splits)
  have q: "b \<le> 0 \<or> occupancy p \<le> b"
    if "Some (Published h) \<in> set (length_histograms (object_fact t p i tb)) \<union> set (numeric_buckets (object_fact t p i tb))" "b \<in> set h" for i tb h b
  proof -
    from that(1) obtain c where "published_lengths t p c = Some (Published h) \<or> published_numbers t p c = Some (Published h)"
      by (fastforce simp: object_fact_def)
    then show ?thesis using p [OF _ that(2)] by (auto simp: published_lengths_def published_numbers_def split: if_splits)
  qed
  show ?thesis using scan_objects_facts [OF f] q by (auto simp: r) (metis Un_iff)+
qed


section \<open>Examples\<close>

definition sample_cells :: "nat \<Rightarrow> nat \<Rightarrow> string data_column" where
  "sample_cells n m = \<lparr>col_name = ''c'', col_type = StringColumn, cells = replicate n None @ replicate m (Some ''ab'')\<rparr>"

definition sample_bytes :: "string \<Rightarrow> string" where "sample_bytes v = v"
definition sample_length :: "string \<Rightarrow> int" where "sample_length v = int (length v)"
definition sample_below :: "string \<Rightarrow> int \<Rightarrow> bool" where "sample_below v b = False"
definition sample_digest :: "string \<Rightarrow> 64 word" where "sample_digest v = word_of_int (int (length v))"
definition sample_estimate :: "nat list \<Rightarrow> int" where "sample_estimate r = 12"

definition sample_values :: "(string, int) value_tools" where
  "sample_values = \<lparr>canonical = sample_bytes, byte_length = sample_length, is_below = sample_below, digest64 = sample_digest,
     estimate_of = sample_estimate\<rparr>"

definition sample_policy :: "int scan_policy" where
  "sample_policy = \<lparr>occupancy = 3, length_bounds = [4], boundaries = [], seed = ''s''\<rparr>"

definition sample_view :: "string \<Rightarrow> zip_view" where "sample_view c = NotZip"
definition sample_table :: "string \<Rightarrow> string \<Rightarrow> string data_table option" where
  "sample_table suffix c = Some \<lparr>columns = [sample_cells 2 8], num_rows = 10\<rparr>"
definition sample_size :: "scan_result \<Rightarrow> int" where "sample_size r = 9"

definition sample_artifact :: "string artifact_tools" where
  "sample_artifact = \<lparr>unzip_view = sample_view, decode = sample_table, commitment = sample_bytes, json_size = sample_size\<rparr>"

theorem preimage_exact_witness:
  "\<exists>first last. null_rate_preimage_range (format_null_rate 4 10) 10 = Some (first, last)"
  using preimage_exact [of 10 4] by auto

theorem published_rate_hides_small_groups_witness:
  "published_null_rate 3 (sample_cells 4 6) = Some (Published ''0.400000'') \<and> (3::int) \<le> 4"
proof -
  have r: "published_null_rate 3 (sample_cells 4 6) = Some (Published ''0.400000'')" by code_simp
  have n: "row_total (sample_cells 4 6) = 10" "format_null_rate 4 10 = ''0.400000''" by code_simp+
  have "(4 = (0::int) \<or> 3 \<le> (4::int))" using published_rate_hides_small_groups [of 3 "sample_cells 4 6" "''0.400000''" 4] r n by simp
  then show ?thesis using r by simp
qed

theorem published_distinct_hides_small_groups_witness:
  "occupancy sample_policy \<le> (12 :: int)"
proof -
  have "published_distinct sample_values sample_policy 0 (sample_cells 4 0) = Published 12" by code_simp
  then show ?thesis by (rule published_distinct_hides_small_groups) (simp_all add: HLL_RELATIVE_ERROR_PPM_def)
qed

theorem suppressed_nulls_recoverable_witness:
  "published_null_rate 3 (sample_cells 2 8) = Some Suppressed \<and> null_count (sample_cells 2 8) = row_total (sample_cells 2 8) - sum_list [8, 0]"
proof
  have "published_lengths sample_values sample_policy (sample_cells 2 8) = Some (Published [8, 0])" by code_simp
  then have "published_lengths sample_values sample_policy (sample_cells 2 8) = Some (Published [8, 0]) \<or>
      published_numbers sample_values sample_policy (sample_cells 2 8) = Some (Published [8, 0])" ..
  then show "null_count (sample_cells 2 8) = row_total (sample_cells 2 8) - sum_list [8, 0]" by (rule suppressed_nulls_recoverable [symmetric])
qed code_simp

theorem estimate_ignores_repetition_witness:
  "hll_estimate sample_values ''s'' [''a'', ''b'', ''a''] = hll_estimate sample_values ''s'' [''b'', ''a'']"
  by (rule estimate_ignores_repetition) auto

theorem report_complete_and_coarse_witness:
  "\<exists>r. scan_bytes sample_values sample_policy sample_artifact 100 True ''t.csv'' ''x'' = Inr r \<and> scanned r = discovered r"
proof -
  have "isl (scan_bytes sample_values sample_policy sample_artifact 100 True ''t.csv'' ''x'') = False" by code_simp
  then obtain r where r: "scan_bytes sample_values sample_policy sample_artifact 100 True ''t.csv'' ''x'' = Inr r" by (metis sum.collapse(2))
  with report_complete_and_coarse [OF r] show ?thesis by blast
qed

end
