(* ===== verification/Verification_Scan.thy ===== *)
theory Verification_Scan
  imports Verification_Aggregates Artifact_Resolver
begin

text \<open>
  A data verification scan: the description that the seller gives
  (\<open>app/services/data_verification/sanitizer.py\<close>), the signed scan specification
  (\<open>app/services/data_verification/contract.py\<close>) and the scan that reads the pinned artifact and signs a receipt
  (\<open>app/services/data_verification/scanner.py\<close>). Unicode normalisation, hashes, signatures and the schema check of
  a specification are parameters. What happens to the catalog while a file is read is an argument.
\<close>

section \<open>The description\<close>

definition SINGLE_ENUMS :: "(string \<times> string list) list" where
  "SINGLE_ENUMS =
     [(''domain_class'', [''education_learning'', ''software_technology'', ''business_finance'', ''health_life_sciences'', ''public_social'',
         ''physical_environment'']),
      (''record_granularity'', [''entity'', ''event'', ''measurement'', ''document'', ''relationship'', ''aggregate'']),
      (''temporal_scope'', [''current_snapshot'', ''historical_period'', ''time_series'', ''mixed_periods'', ''not_time_based'']),
      (''update_cadence'', [''one_time'', ''irregular'', ''continuous'', ''daily'', ''weekly'', ''monthly'', ''quarterly'', ''yearly''])]"

definition TAG_ENUMS :: "(string \<times> string list) list" where
  "TAG_ENUMS =
     [(''intended_use_tags'', [''analysis_reporting'', ''research_education'', ''machine_learning'', ''benchmarking'', ''reference_lookup'',
         ''operations_planning'']),
      (''known_limitation_tags'', [''incomplete_coverage'', ''missing_values'', ''estimated_fields'', ''historical_cutoff'', ''sampled_source'',
         ''known_duplicates'', ''source_defined_categories''])]"

definition normalize_enum :: "(string \<Rightarrow> string) \<Rightarrow> json \<Rightarrow> string option" where
  "normalize_enum nfkc v = (case v of JStr s \<Rightarrow> if nfkc s = s then Some s else None | _ \<Rightarrow> None)"

definition single_value :: "(string \<Rightarrow> string) \<Rightarrow> dict \<Rightarrow> string \<times> string list \<Rightarrow> string + json" where
  "single_value nfkc c ka =
     (case normalize_enum nfkc (dict_get c (fst ka) JNull) of
        None \<Rightarrow> Inl ''D6 value is invalid''
      | Some s \<Rightarrow> if s \<in> set (snd ka) then Inr (JStr s) else Inl ''D6 value is invalid'')"

definition tag_values :: "(string \<Rightarrow> string) \<Rightarrow> dict \<Rightarrow> string \<times> string list \<Rightarrow> string + json" where
  "tag_values nfkc c ka =
     (case dict_get c (fst ka) JNull of
        JList vs \<Rightarrow>
          if 5 < length vs then Inl ''D6 tags are invalid''
          else if list_ex (\<lambda>v. normalize_enum nfkc v = None) vs then Inl ''D6 value is invalid''
          else
            let tags = map (\<lambda>v. the (normalize_enum nfkc v)) vs in
            if list_ex (\<lambda>t. t \<notin> set (snd ka)) tags then Inl ''D6 tags are invalid''
            else Inr (JList (map JStr (sort (remdups tags))))
      | _ \<Rightarrow> Inl ''D6 tags are invalid'')"

text \<open>The clean entries in order, up to the first error.\<close>

fun clean_entries :: "(string \<times> string list \<Rightarrow> string + json) \<Rightarrow> (string \<times> string list) list \<Rightarrow> string + dict" where
  "clean_entries f [] = Inr []"
| "clean_entries f (ka # r) =
     (case f ka of Inl e \<Rightarrow> Inl e | Inr v \<Rightarrow> (case clean_entries f r of Inl e \<Rightarrow> Inl e | Inr d \<Rightarrow> Inr ((fst ka, v) # d)))"

definition sanitize_d6 :: "(string \<Rightarrow> string) \<Rightarrow> (dict \<Rightarrow> int) \<Rightarrow> json \<Rightarrow> string + dict" where
  "sanitize_d6 nfkc json_length candidate =
     (case candidate of
        JObj c \<Rightarrow>
          if set (map fst c) \<noteq> set (map fst (SINGLE_ENUMS @ TAG_ENUMS)) then Inl ''D6 schema is invalid''
          else (case clean_entries (single_value nfkc c) SINGLE_ENUMS of
                  Inl e \<Rightarrow> Inl e
                | Inr singles \<Rightarrow>
                    (case clean_entries (tag_values nfkc c) TAG_ENUMS of
                       Inl e \<Rightarrow> Inl e
                     | Inr tags \<Rightarrow> if json_length (singles @ tags) > 2048 then Inl ''D6 size is invalid'' else Inr (singles @ tags)))
      | _ \<Rightarrow> Inl ''D6 schema is invalid'')"

section \<open>The signed specification\<close>

record scan_spec =
  sp_spec_id :: string
  sp_verification_id :: string
  sp_listing_id :: string
  sp_owner_authorization :: string
  sp_quote_id :: string
  sp_idempotency_key :: string
  sp_accepted :: time
  sp_source_handle :: string
  sp_seed :: string
  sp_length_bounds :: "int list"
  sp_boundaries :: "int list"
  sp_occupancy :: int
  sp_max_tokens :: int
  sp_preview :: bool
  sp_issued :: time
  sp_expires :: time
  sp_cancelled :: bool
  sp_nonce :: string

record signed_spec =
  payload :: scan_spec
  spec_hash :: string
  spec_signature :: string

text \<open>The checks that relate fields; the literals and patterns of single fields are the parameter \<open>fields_ok\<close>.\<close>

definition spec_schema :: "(signed_spec \<Rightarrow> bool) \<Rightarrow> signed_spec \<Rightarrow> bool" where
  "spec_schema fields_ok s \<longleftrightarrow>
     fields_ok s \<and> sp_length_bounds (payload s) \<noteq> [] \<and> sorted_wrt (<) (sp_length_bounds (payload s)) \<and>
     0 \<le> hd (sp_length_bounds (payload s)) \<and> sorted_wrt (<) (sp_boundaries (payload s)) \<and> 3 \<le> sp_occupancy (payload s) \<and>
     1 \<le> sp_max_tokens (payload s) \<and> sp_accepted (payload s) \<le> sp_issued (payload s) \<and> sp_issued (payload s) < sp_expires (payload s)"

record crypto_tools =
  fields_valid :: "signed_spec \<Rightarrow> bool"
  payload_hash :: "scan_spec \<Rightarrow> string"
  signature_valid :: "scan_spec \<Rightarrow> string \<Rightarrow> bool"
  content_hash :: "string \<Rightarrow> string"
  keyed_hash :: "string \<Rightarrow> string \<Rightarrow> string"
  nfkc_form :: "string \<Rightarrow> string"
  dict_length :: "dict \<Rightarrow> int"

definition parse_and_verify_scan_spec :: "crypto_tools \<Rightarrow> time \<Rightarrow> signed_spec \<Rightarrow> string list \<Rightarrow> (string + scan_spec) \<times> string list" where
  "parse_and_verify_scan_spec y now s seen =
     (if \<not> spec_schema (fields_valid y) s then (Inl ''scan spec schema is invalid'', seen)
      else if payload_hash y (payload s) \<noteq> spec_hash s then (Inl ''scan spec hash is invalid'', seen)
      else if \<not> signature_valid y (payload s) (spec_signature s) then (Inl ''scan spec signature is invalid'', seen)
      else if now < sp_issued (payload s) \<or> sp_expires (payload s) \<le> now then (Inl ''scan spec is not active'', seen)
      else if sp_cancelled (payload s) then (Inl ''scan was cancelled'', seen)
      else if sp_nonce (payload s) \<in> set seen then (Inl ''scan spec nonce was replayed'', seen)
      else (Inr (payload s), seen @ [sp_nonce (payload s)]))"

section \<open>The scan\<close>

datatype scan_exn = D6Rejected string | ContractError string | ScanRefused string | ResolutionFailed resolve_exn

record scan_world =
  cat :: catalog
  seen_nonces :: "string list"

type_synonym 'a scanning = "(scan_world, scan_exn, 'a) meth"

definition on_catalog :: "'a lookup \<Rightarrow> 'a scanning" where
  "on_catalog m w = (case m (cat w) of (Inl e, c) \<Rightarrow> (Inl (ResolutionFailed e), w\<lparr>cat := c\<rparr>) | (Inr x, c) \<Rightarrow> (Inr x, w\<lparr>cat := c\<rparr>))"

text \<open>Where files are and what reading them gives; \<open>None\<close> is an input error. Reading takes time, in which the catalog changes.\<close>

record 'v scan_site =
  real_path :: "string \<Rightarrow> string"
  upload_dir :: string
  processed_dir :: string
  local_bytes :: "catalog \<Rightarrow> string \<Rightarrow> string option"
  broker_bytes :: "catalog \<Rightarrow> string \<Rightarrow> string option"
  meanwhile :: "catalog \<Rightarrow> catalog"
  commitment_key :: string
  tools :: "'v artifact_tools"
  value_readers :: "('v, int) value_tools"

definition pinned :: "'v scan_site \<Rightarrow> artifact \<Rightarrow> unit scanning" where
  "pinned site a = on_catalog (assert_artifact_still_pinned (real_path site) (upload_dir site) (processed_dir site) a)"

definition artifact_bytes :: "'v scan_site \<Rightarrow> artifact \<Rightarrow> (string \<times> string) scanning" where
  "artifact_bytes site a w =
     (case ra_kind a of
        Local \<Rightarrow>
          (case ra_local_path a of
             None \<Rightarrow> (Inl (ScanRefused ''registered artifact is unavailable''), w)
           | Some p \<Rightarrow>
               (case local_bytes site (cat w) p of
                  None \<Rightarrow> (Inl (ScanRefused ''registered artifact could not be read''), w)
                | Some b \<Rightarrow> (Inr (basename p, b), w\<lparr>cat := meanwhile site (cat w)\<rparr>)))
      | S3 \<Rightarrow>
          (case (ra_connection a, ra_metadata a) of
             (Some k, Some m) \<Rightarrow>
               if \<not> truthy (sc_role_arn k) then (Inl (ScanRefused ''registered artifact is unavailable''), w)
               else (case broker_bytes site (cat w) (ra_source_handle_id a) of
                       None \<Rightarrow> (Inl (ScanRefused ''registered artifact could not be read''), w)
                     | Some b \<Rightarrow> (Inr (so_object_key m, b), w\<lparr>cat := meanwhile site (cat w)\<rparr>))
           | _ \<Rightarrow> (Inl (ScanRefused ''registered artifact is unavailable''), w)))"

definition read_artifact :: "'v scan_site \<Rightarrow> artifact \<Rightarrow> (string \<times> string) scanning" where
  "read_artifact site a = seq (pinned site a) (\<lambda>_. seq (artifact_bytes site a) (\<lambda>b. seq (pinned site a) (\<lambda>_. ret b)))"

record report =
  rp_spec :: scan_spec
  rp_spec_hash :: string
  rp_install_key :: string
  rp_locator :: string
  rp_content_sha256 :: string
  rp_started :: time
  rp_completed :: time
  rp_duration_ms :: int
  rp_discovered :: int
  rp_scanned :: int
  rp_objects :: "fact list"
  rp_fingerprint :: string
  rp_d6 :: dict
  rp_receipt :: string

text \<open>What the receipt signature covers: ten fields of the report.\<close>

definition receipt_signature_binding :: "report \<Rightarrow> string \<times> string \<times> string \<times> string \<times> string \<times> time \<times> time \<times> int \<times> (int \<times> int) \<times> string" where
  "receipt_signature_binding r =
     (rp_spec_hash r, sp_nonce (rp_spec r), rp_install_key r, rp_locator r, rp_content_sha256 r, rp_started r, rp_completed r, rp_duration_ms r,
      (rp_discovered r, rp_scanned r), rp_fingerprint r)"

record signing =
  install_key_id :: string
  fingerprint :: "int \<times> int \<Rightarrow> fact list \<Rightarrow> string"
  sign :: "string \<times> string \<times> string \<times> string \<times> string \<times> time \<times> time \<times> int \<times> (int \<times> int) \<times> string \<Rightarrow> string"

definition error_text :: "scan_error \<Rightarrow> string" where
  "error_text e = (case e of UnsupportedShape t \<Rightarrow> t | IncompleteCoverage t \<Rightarrow> t | BudgetIncompatible t \<Rightarrow> t)"

definition policy_of :: "scan_spec \<Rightarrow> int scan_policy" where
  "policy_of sp = \<lparr>occupancy = sp_occupancy sp, length_bounds = sp_length_bounds sp, boundaries = sp_boundaries sp, seed = sp_seed sp\<rparr>"

definition build_report ::
  "crypto_tools \<Rightarrow> signing \<Rightarrow> 'v scan_site \<Rightarrow> signed_spec \<Rightarrow> dict \<Rightarrow> artifact \<Rightarrow> string \<Rightarrow> time \<Rightarrow> time \<Rightarrow> scan_result \<Rightarrow> resolve_exn + report" where
  "build_report y g site s d6 a content started completed r =
     (case locator_commitment (keyed_hash y) (real_path site) (commitment_key site) a of
        Inl e \<Rightarrow> Inl e
      | Inr locator \<Rightarrow>
          let unsigned = \<lparr>rp_spec = payload s, rp_spec_hash = spec_hash s, rp_install_key = install_key_id g, rp_locator = locator,
                rp_content_sha256 = content_hash y content, rp_started = started, rp_completed = completed,
                rp_duration_ms = max 0 ((completed - started) div 1000), rp_discovered = discovered r, rp_scanned = scanned r,
                rp_objects = facts r, rp_fingerprint = fingerprint g (discovered r, scanned r) (facts r), rp_d6 = d6, rp_receipt = []\<rparr>
          in Inr (unsigned\<lparr>rp_receipt := sign g (receipt_signature_binding unsigned)\<rparr>))"

definition scan_after_spec ::
  "crypto_tools \<Rightarrow> signing \<Rightarrow> 'v scan_site \<Rightarrow> signed_spec \<Rightarrow> dict \<Rightarrow> time \<Rightarrow> time \<Rightarrow> scan_spec \<Rightarrow> (report \<times> scan_result) scanning" where
  "scan_after_spec y g site s d6 started completed sp =
     seq (on_catalog (resolve_source_artifact (real_path site) (upload_dir site) (processed_dir site) (sp_listing_id sp))) (\<lambda>found.
       case found of
         None \<Rightarrow> raise (ScanRefused ''registered source handle does not match the signed spec'')
       | Some a \<Rightarrow>
           if ra_source_handle_id a \<noteq> sp_source_handle sp then raise (ScanRefused ''registered source handle does not match the signed spec'')
           else seq (read_artifact site a) (\<lambda>(name, content).
             case scan_bytes (value_readers site) (policy_of sp) (tools site) (sp_max_tokens sp) (sp_preview sp) name content of
               Inl e \<Rightarrow> raise (ScanRefused (error_text e))
             | Inr r \<Rightarrow>
                 (case build_report y g site s d6 a content started completed r of
                    Inl e \<Rightarrow> raise (ResolutionFailed e)
                  | Inr rp \<Rightarrow> ret (rp, r))))"

definition scan ::
  "crypto_tools \<Rightarrow> signing \<Rightarrow> 'v scan_site \<Rightarrow> time \<Rightarrow> time \<Rightarrow> time \<Rightarrow> signed_spec \<Rightarrow> json \<Rightarrow> (report \<times> scan_result) scanning" where
  "scan y g site now started completed s candidate w =
     (case sanitize_d6 (nfkc_form y) (dict_length y) candidate of
        Inl e \<Rightarrow> (Inl (D6Rejected e), w)
      | Inr d6 \<Rightarrow>
          (case parse_and_verify_scan_spec y now s (seen_nonces w) of
             (Inl e, seen) \<Rightarrow> (Inl (ContractError e), w\<lparr>seen_nonces := seen\<rparr>)
           | (Inr sp, seen) \<Rightarrow> scan_after_spec y g site s d6 started completed sp (w\<lparr>seen_nonces := seen\<rparr>)))"


section \<open>The description is clean\<close>

lemma clean_entries_iff: "clean_entries f kas = Inr d \<longleftrightarrow> list_all2 (\<lambda>ka kv. fst kv = fst ka \<and> f ka = Inr (snd kv)) kas d"
proof (induction kas arbitrary: d)
  case (Cons ka kas)
  show ?case
    by (cases d) (auto simp: Cons.IH [symmetric] split: sum.splits)
qed auto

lemma clean_entries_keys: "clean_entries f kas = Inr d \<Longrightarrow> map fst d = map fst kas"
  unfolding clean_entries_iff by (induction rule: list_all2_induct) auto

lemma clean_entries_cong:
  assumes "clean_entries f kas = Inr d" "distinct (map fst kas)"
    and "\<And>ka v. ka \<in> set kas \<Longrightarrow> f ka = Inr v \<Longrightarrow> map_of d (fst ka) = Some v \<Longrightarrow> g ka = Inr v"
  shows "clean_entries g kas = Inr d"
proof -
  have l: "list_all2 (\<lambda>ka kv. fst kv = fst ka \<and> f ka = Inr (snd kv)) kas d" using assms(1) by (simp add: clean_entries_iff)
  have "distinct (map fst d)" using clean_entries_keys [OF assms(1)] assms(2) by simp
  then have m: "map_of d (fst kv) = Some (snd kv)" if "kv \<in> set d" for kv using that by (metis map_of_is_SomeI prod.collapse)
  have "list_all2 (\<lambda>ka kv. fst kv = fst ka \<and> g ka = Inr (snd kv)) kas d"
  proof (rule list_all2_all_nthI)
    show "length kas = length d" using l by (rule list_all2_lengthD)
    fix i assume i: "i < length kas"
    then have "fst (d ! i) = fst (kas ! i)" "f (kas ! i) = Inr (snd (d ! i))" using list_all2_nthD [OF l i] by auto
    moreover have "d ! i \<in> set d" "kas ! i \<in> set kas" using i list_all2_lengthD [OF l] by simp_all
    ultimately show "fst (d ! i) = fst (kas ! i) \<and> g (kas ! i) = Inr (snd (d ! i))" using assms(3) m by metis
  qed
  then show ?thesis by (simp add: clean_entries_iff)
qed

lemma single_value_result: "single_value nfkc c ka = Inr v \<Longrightarrow> \<exists>s \<in> set (snd ka). v = JStr s \<and> nfkc s = s"
  by (auto simp: single_value_def normalize_enum_def split: option.splits json.splits if_splits)

lemma tag_values_result:
  assumes "tag_values nfkc c ka = Inr v"
  shows "\<exists>ts. v = JList (map JStr ts) \<and> sorted ts \<and> distinct ts \<and> length ts \<le> 5 \<and> (\<forall>t \<in> set ts. t \<in> set (snd ka) \<and> nfkc t = t)"
proof -
  obtain vs where vs: "dict_get c (fst ka) JNull = JList vs" "length vs \<le> 5" "\<forall>v \<in> set vs. normalize_enum nfkc v \<noteq> None"
    "\<forall>t \<in> set (map (\<lambda>v. the (normalize_enum nfkc v)) vs). t \<in> set (snd ka)"
    and v: "v = JList (map JStr (sort (remdups (map (\<lambda>v. the (normalize_enum nfkc v)) vs))))"
    using assms by (auto simp: tag_values_def Let_def list_ex_iff split: json.splits if_splits)
  have n: "nfkc (the (normalize_enum nfkc x)) = the (normalize_enum nfkc x)" if "normalize_enum nfkc x \<noteq> None" for x
    using that by (auto simp: normalize_enum_def split: json.splits if_splits)
  let ?ts = "sort (remdups (map (\<lambda>v. the (normalize_enum nfkc v)) vs))"
  have "length ?ts \<le> 5" using vs(2) length_remdups_leq [of "map (\<lambda>v. the (normalize_enum nfkc v)) vs"] by simp
  then show ?thesis using v vs(3,4) n by (intro exI [of _ ?ts]) auto
qed

lemma tag_values_again:
  assumes "\<forall>t \<in> set ts. t \<in> set (snd ka) \<and> nfkc t = t" "sorted ts" "distinct ts" "length ts \<le> 5" "dict_get c (fst ka) JNull = JList (map JStr ts)"
  shows "tag_values nfkc c ka = Inr (JList (map JStr ts))"
proof -
  have n: "map (\<lambda>v. the (normalize_enum nfkc v)) (map JStr ts) = ts" using assms(1) by (induction ts) (auto simp: normalize_enum_def)
  have "\<not> list_ex (\<lambda>v. normalize_enum nfkc v = None) (map JStr ts)" using assms(1) by (auto simp: list_ex_iff normalize_enum_def)
  moreover have "\<not> list_ex (\<lambda>t. t \<notin> set (snd ka)) ts" using assms(1) by (auto simp: list_ex_iff)
  ultimately show ?thesis unfolding tag_values_def assms(5) json.case Let_def n using assms(2-4)
    by (simp add: distinct_remdups_id sorted_sort_id)
qed

lemma enum_keys: "distinct (map fst (SINGLE_ENUMS @ TAG_ENUMS))"
  by code_simp

text \<open>Also: A clean description is a fixed point: sanitising it again accepts it unchanged.\<close>

theorem sanitize_idempotent:
  assumes "sanitize_d6 nfkc len candidate = Inr d"
  shows "sanitize_d6 nfkc len (JObj d) = Inr d"
proof -
  obtain c ss ts where c: "candidate = JObj c" and ss: "clean_entries (single_value nfkc c) SINGLE_ENUMS = Inr ss"
    and ts: "clean_entries (tag_values nfkc c) TAG_ENUMS = Inr ts" and d: "d = ss @ ts" "len (ss @ ts) \<le> 2048"
    using assms by (auto simp: sanitize_d6_def split: json.splits sum.splits if_splits)
  have k: "map fst ss = map fst SINGLE_ENUMS" "map fst ts = map fst TAG_ENUMS"
    using clean_entries_keys [OF ss] clean_entries_keys [OF ts] .
  have dis: "distinct (map fst SINGLE_ENUMS)" "distinct (map fst TAG_ENUMS)" "set (map fst SINGLE_ENUMS) \<inter> set (map fst TAG_ENUMS) = {}"
    using enum_keys by (simp_all only: map_append distinct_append)
  have left: "dict_get d key JNull = v" if "map_of ss key = Some v" for key v
    using that by (simp add: dict_get_def d(1))
  have right: "dict_get d key JNull = v" if "map_of ts key = Some v" "key \<in> set (map fst TAG_ENUMS)" for key v
  proof -
    have "key \<notin> set (map fst ss)" using that(2) dis(3) k(1) by auto
    then have "map_of ss key = None" by (simp add: map_of_eq_None_iff)
    then show ?thesis using that(1) by (simp add: dict_get_def d(1) map_add_def)
  qed
  have "clean_entries (single_value nfkc d) SINGLE_ENUMS = Inr ss"
  proof (rule clean_entries_cong [OF ss dis(1)])
    fix ka v assume "single_value nfkc c ka = Inr v" "map_of ss (fst ka) = Some v"
    then show "single_value nfkc d ka = Inr v" using single_value_result [of nfkc c ka v] left
      by (auto simp: single_value_def normalize_enum_def)
  qed
  moreover have "clean_entries (tag_values nfkc d) TAG_ENUMS = Inr ts"
  proof (rule clean_entries_cong [OF ts dis(2)])
    fix ka v assume ka: "ka \<in> set TAG_ENUMS" "tag_values nfkc c ka = Inr v" "map_of ts (fst ka) = Some v"
    from tag_values_result [OF ka(2)] obtain us where us: "v = JList (map JStr us)" "sorted us" "distinct us" "length us \<le> 5"
      "\<forall>t \<in> set us. t \<in> set (snd ka) \<and> nfkc t = t" by blast
    have "dict_get d (fst ka) JNull = JList (map JStr us)" using right [OF ka(3)] ka(1) us(1) by simp
    from tag_values_again [OF us(5,2,3,4) this] show "tag_values nfkc d ka = Inr v" by (simp add: us(1))
  qed
  moreover have "set (map fst d) = set (map fst (SINGLE_ENUMS @ TAG_ENUMS))" using k by (simp only: d(1) map_append)
  ultimately show ?thesis using d(2) unfolding sanitize_d6_def json.case by (simp only: sum.case d(1) not_le [symmetric]) simp
qed

text \<open>Every text of a clean description is one of the fixed values.\<close>

fun json_texts :: "json \<Rightarrow> string set" where
  "json_texts (JStr s) = {s}"
| "json_texts (JList vs) = \<Union> (json_texts ` set vs)"
| "json_texts _ = {}"

definition enum_texts :: "string set" where
  "enum_texts = \<Union> ((\<lambda>ka. set (snd ka)) ` set (SINGLE_ENUMS @ TAG_ENUMS))"

text \<open>C35: Nothing that the seller types leaves the machine with a description: every text of a clean description is one of
  the fixed values, whatever was submitted.\<close>

theorem description_from_enums:
  assumes "sanitize_d6 nfkc len candidate = Inr d" "(k, v) \<in> set d"
  shows "json_texts v \<subseteq> enum_texts"
proof -
  obtain c ss ts where ss: "clean_entries (single_value nfkc c) SINGLE_ENUMS = Inr ss"
    and ts: "clean_entries (tag_values nfkc c) TAG_ENUMS = Inr ts" and d: "d = ss @ ts"
    using assms(1) by (auto simp: sanitize_d6_def split: json.splits sum.splits if_splits)
  have el: "\<exists>ka \<in> set kas. f ka = Inr v" if e1: "clean_entries f kas = Inr e" and e2: "(k, v) \<in> set e" for f kas e
  proof -
    have l: "list_all2 (\<lambda>ka kv. fst kv = fst ka \<and> f ka = Inr (snd kv)) kas e" using e1 by (simp add: clean_entries_iff)
    obtain i where "i < length e" "e ! i = (k, v)" using e2 by (auto simp: in_set_conv_nth)
    then show ?thesis using list_all2_nthD2 [OF l, of i] list_all2_lengthD [OF l] by (metis nth_mem snd_conv)
  qed
  from assms(2) consider "(k, v) \<in> set ss" | "(k, v) \<in> set ts" unfolding d by auto
  then show ?thesis
  proof cases
    case 1
    from el [OF ss 1] obtain ka where ka: "ka \<in> set SINGLE_ENUMS" "single_value nfkc c ka = Inr v" by blast
    then show ?thesis using single_value_result [OF ka(2)] by (auto simp: enum_texts_def)
  next
    case 2
    from el [OF ts 2] obtain ka where ka: "ka \<in> set TAG_ENUMS" "tag_values nfkc c ka = Inr v" by blast
    from tag_values_result [OF ka(2)] obtain us where "v = JList (map JStr us)" "\<forall>t \<in> set us. t \<in> set (snd ka)" by blast
    then show ?thesis using ka(1) by (auto simp: enum_texts_def)
  qed
qed


section \<open>Scans one after another\<close>

text \<open>A nonce is never taken out of the set, and a specification whose nonce is in it is refused.\<close>

lemma verify_grows: "set seen \<subseteq> set (snd (parse_and_verify_scan_spec y now s seen))"
  by (auto simp: parse_and_verify_scan_spec_def)

lemma nonces_kept: "seen_nonces (snd (on_catalog m w)) = seen_nonces w"
  by (auto simp: on_catalog_def split: prod.split sum.split)

lemma nonces_bytes: "seen_nonces (snd (artifact_bytes site a w)) = seen_nonces w"
  by (auto simp: artifact_bytes_def split: kind.split option.split)

lemma nonces_seq: "(\<And>w. seen_nonces (snd (m w)) = seen_nonces w) \<Longrightarrow> (\<And>x w. seen_nonces (snd (f x w)) = seen_nonces w) \<Longrightarrow>
    seen_nonces (snd (seq m f w)) = seen_nonces w"
  by (simp add: seq_def split: prod.split sum.split) (metis snd_conv)

lemma nonces_read: "seen_nonces (snd (read_artifact site a w)) = seen_nonces w"
  unfolding read_artifact_def pinned_def
  by (intro nonces_seq) (simp_all add: nonces_kept nonces_bytes)

lemma nonces_after_spec: "seen_nonces (snd (scan_after_spec y g site s d6 t u sp w)) = seen_nonces w"
  unfolding scan_after_spec_def
  by (intro nonces_seq) (auto simp: nonces_kept nonces_read nonces_seq intro!: nonces_seq split: option.split sum.split)

lemma scan_grows: "set (seen_nonces w) \<subseteq> set (seen_nonces (snd (scan y g site now t u s c w)))"
  using verify_grows [of "seen_nonces w" y now s] by (auto simp: scan_def nonces_after_spec split: sum.split prod.split)

lemma scan_consumes:
  assumes "fst (scan y g site now t u s c w) = Inr x"
  shows "sp_nonce (payload s) \<in> set (seen_nonces (snd (scan y g site now t u s c w)))"
  using assms by (auto simp: scan_def nonces_after_spec parse_and_verify_scan_spec_def split: sum.splits prod.splits if_splits)

lemma replay_refused: "sp_nonce (payload s) \<in> set (seen_nonces w) \<Longrightarrow> isl (fst (scan y g site now t u s c w))"
  by (auto simp: scan_def parse_and_verify_scan_spec_def split: sum.split prod.split)

record scan_call =
  sc_now :: time
  sc_started :: time
  sc_completed :: time
  sc_spec :: signed_spec
  sc_candidate :: json

definition scan_step :: "crypto_tools \<Rightarrow> signing \<Rightarrow> 'v scan_site \<Rightarrow> scan_world \<Rightarrow> scan_call \<Rightarrow> scan_world" where
  "scan_step y g site w e = snd (scan y g site (sc_now e) (sc_started e) (sc_completed e) (sc_spec e) (sc_candidate e) w)"

text \<open>C34: With one scanner, a specification is scanned once: after a scan that made a report, every later scan with a
  specification of the same nonce is refused, whatever scans come between.\<close>

theorem specification_scanned_once:
  assumes "fst (scan y g site now t u s c w) = Inr x" "sp_nonce (payload s') = sp_nonce (payload s)"
  shows "isl (fst (scan y g site now' t' u' s' c' (foldl (scan_step y g site) (snd (scan y g site now t u s c w)) es)))"
proof -
  have "set (seen_nonces w) \<subseteq> set (seen_nonces (foldl (scan_step y g site) w es))" for w
    by (induction es arbitrary: w) (simp, use scan_grows in \<open>fastforce simp: scan_step_def\<close>)
  then show ?thesis using scan_consumes [OF assms(1)] assms(2) by (intro replay_refused) auto
qed

lemma seqE: "seq m f w = (Inr x, w') \<Longrightarrow> \<exists>y v. m w = (Inr y, v) \<and> f y v = (Inr x, w')"
  by (auto simp: seq_def split: prod.splits sum.splits)

lemma read_pinned:
  assumes "read_artifact site a w = (Inr b, w')"
  shows "\<exists>v. fst (pinned site a w) = Inr () \<and> pinned site a v = (Inr (), w')"
proof -
  from seqE [OF assms [unfolded read_artifact_def]] obtain u v where 1: "pinned site a w = (Inr u, v)"
    "seq (artifact_bytes site a) (\<lambda>b. seq (pinned site a) (\<lambda>_. ret b)) v = (Inr b, w')" by blast
  from seqE [OF 1(2)] obtain d v2 where 2: "seq (pinned site a) (\<lambda>_. ret d) v2 = (Inr b, w')" by blast
  from seqE [OF 2] show ?thesis using 1(1) by (metis (full_types) fst_conv old.unit.exhaust prod.inject ret_apply)
qed

text \<open>Also: A report is of the pinned artifact: when a scan makes a report, the receipt is signed over the specification's nonce
  and hash and the hash of the bytes that were read, and the artifact was still the pinned one after they
  were read.\<close>

theorem report_of_pinned_artifact:
  assumes "scan y g site now t u s c w = (Inr (rp, r), w')"
  shows "rp_spec rp = payload s \<and> rp_receipt rp = sign g (receipt_signature_binding rp) \<and>
    (\<exists>a v name content. pinned site a v = (Inr (), w') \<and> ra_source_handle_id a = sp_source_handle (payload s) \<and>
       rp_content_sha256 rp = content_hash y content \<and>
       scan_bytes (value_readers site) (policy_of (payload s)) (tools site) (sp_max_tokens (payload s)) (sp_preview (payload s)) name content = Inr r)"
proof -
  obtain d6 sp seen where d6: "sanitize_d6 (nfkc_form y) (dict_length y) c = Inr d6"
    and sp: "parse_and_verify_scan_spec y now s (seen_nonces w) = (Inr sp, seen)"
    and a: "scan_after_spec y g site s d6 t u sp (w\<lparr>seen_nonces := seen\<rparr>) = (Inr (rp, r), w')"
    using assms by (auto simp: scan_def split: sum.splits prod.splits)
  have [simp]: "sp = payload s" using sp by (auto simp: parse_and_verify_scan_spec_def split: if_splits)
  from seqE [OF a [unfolded scan_after_spec_def]] obtain found w1 where
    f: "(case found of None \<Rightarrow> raise (ScanRefused ''registered source handle does not match the signed spec'')
       | Some a \<Rightarrow>
           if ra_source_handle_id a \<noteq> sp_source_handle sp then raise (ScanRefused ''registered source handle does not match the signed spec'')
           else seq (read_artifact site a) (\<lambda>(name, content).
             case scan_bytes (value_readers site) (policy_of sp) (tools site) (sp_max_tokens sp) (sp_preview sp) name content of
               Inl e \<Rightarrow> raise (ScanRefused (error_text e))
             | Inr r \<Rightarrow>
                 (case build_report y g site s d6 a content t u r of
                    Inl e \<Rightarrow> raise (ResolutionFailed e)
                  | Inr rp \<Rightarrow> ret (rp, r)))) w1 = (Inr (rp, r), w')" by blast
  then obtain x where x: "found = Some x" "ra_source_handle_id x = sp_source_handle sp" by (auto split: option.splits if_splits)
  have "seq (read_artifact site x) (\<lambda>(name, content).
             case scan_bytes (value_readers site) (policy_of sp) (tools site) (sp_max_tokens sp) (sp_preview sp) name content of
               Inl e \<Rightarrow> raise (ScanRefused (error_text e))
             | Inr r \<Rightarrow>
                 (case build_report y g site s d6 x content t u r of
                    Inl e \<Rightarrow> raise (ResolutionFailed e)
                  | Inr rp \<Rightarrow> ret (rp, r))) w1 = (Inr (rp, r), w')"
    using f unfolding x(1) option.case using x(2) by simp
  from seqE [OF this] obtain name content w2 where rd: "read_artifact site x w1 = (Inr (name, content), w2)"
    and k: "(case scan_bytes (value_readers site) (policy_of sp) (tools site) (sp_max_tokens sp) (sp_preview sp) name content of
               Inl e \<Rightarrow> raise (ScanRefused (error_text e))
             | Inr r \<Rightarrow>
                 (case build_report y g site s d6 x content t u r of
                    Inl e \<Rightarrow> raise (ResolutionFailed e)
                  | Inr rp \<Rightarrow> ret (rp, r))) w2 = (Inr (rp, r), w')" by auto
  have sb: "scan_bytes (value_readers site) (policy_of sp) (tools site) (sp_max_tokens sp) (sp_preview sp) name content = Inr r"
    and b: "build_report y g site s d6 x content t u r = Inr rp" and w2: "w2 = w'"
    using k by (auto split: sum.splits)
  have "rp_spec rp = payload s \<and> rp_receipt rp = sign g (receipt_signature_binding rp) \<and> rp_content_sha256 rp = content_hash y content"
    using b by (auto simp: build_report_def receipt_signature_binding_def Let_def split: sum.splits)
  moreover from read_pinned [OF rd] obtain v where "pinned site x v = (Inr (), w')" unfolding w2 by blast
  ultimately show ?thesis using sb x(2) by auto
qed


section \<open>An example\<close>

definition sample_description :: json where
  "sample_description = JObj [(''domain_class'', JStr ''public_social''), (''record_granularity'', JStr ''event''),
     (''temporal_scope'', JStr ''time_series''), (''update_cadence'', JStr ''daily''),
     (''known_limitation_tags'', JList [JStr ''sampled_source'', JStr ''missing_values'', JStr ''sampled_source'']),
     (''intended_use_tags'', JList [])]"

definition sample_dict_length :: "dict \<Rightarrow> int" where "sample_dict_length d = 100"
definition sample_fields :: "signed_spec \<Rightarrow> bool" where "sample_fields s = True"
definition sample_hash :: "scan_spec \<Rightarrow> string" where "sample_hash s = sp_nonce s"
definition sample_signature :: "scan_spec \<Rightarrow> string \<Rightarrow> bool" where "sample_signature s g \<longleftrightarrow> g = ''ok''"
definition sample_keyed :: "string \<Rightarrow> string \<Rightarrow> string" where "sample_keyed k b = b"

definition sample_crypto :: crypto_tools where
  "sample_crypto = \<lparr>fields_valid = sample_fields, payload_hash = sample_hash, signature_valid = sample_signature, content_hash = sample_bytes,
     keyed_hash = sample_keyed, nfkc_form = sample_bytes, dict_length = sample_dict_length\<rparr>"

definition sample_spec :: signed_spec where
  "sample_spec = \<lparr>payload = \<lparr>sp_spec_id = ''s'', sp_verification_id = ''v'', sp_listing_id = ''L'', sp_owner_authorization = ''o'', sp_quote_id = ''q'',
       sp_idempotency_key = ''i'', sp_accepted = 1, sp_source_handle = ''d1'', sp_seed = ''x'', sp_length_bounds = [4], sp_boundaries = [],
       sp_occupancy = 3, sp_max_tokens = 100, sp_preview = False, sp_issued = 2, sp_expires = 9, sp_cancelled = False, sp_nonce = ''n''\<rparr>,
     spec_hash = ''n'', spec_signature = ''ok''\<rparr>"

definition sample_content :: "catalog \<Rightarrow> string \<Rightarrow> string option" where "sample_content c p = Some ''x''"
definition sample_still :: "catalog \<Rightarrow> catalog" where "sample_still c = c"
definition sample_fingerprint :: "int \<times> int \<Rightarrow> fact list \<Rightarrow> string" where "sample_fingerprint c fs = ''f''"
definition sample_sign ::
  "string \<times> string \<times> string \<times> string \<times> string \<times> time \<times> time \<times> int \<times> (int \<times> int) \<times> string \<Rightarrow> string" where
  "sample_sign b = ''signed ''"

definition sample_site :: "string scan_site" where
  "sample_site = \<lparr>real_path = sample_bytes, upload_dir = ''/up'', processed_dir = ''/proc'', local_bytes = sample_content, broker_bytes = sample_content,
     meanwhile = sample_still, commitment_key = replicate 32 CHR ''k'', tools = sample_artifact, value_readers = sample_values\<rparr>"

definition sample_signing :: signing where
  "sample_signing = \<lparr>install_key_id = ''key'', fingerprint = sample_fingerprint, sign = sample_sign\<rparr>"

definition sample_world :: scan_world where
  "sample_world = \<lparr>cat = sample_catalog, seen_nonces = []\<rparr>"

abbreviation sample_scan :: "(scan_exn + report \<times> scan_result) \<times> scan_world" where
  "sample_scan \<equiv> scan sample_crypto sample_signing sample_site 5 6 7 sample_spec sample_description sample_world"

theorem sanitize_idempotent_witness:
  "case sanitize_d6 sample_bytes sample_dict_length sample_description of
     Inr d \<Rightarrow> sanitize_d6 sample_bytes sample_dict_length (JObj d) = Inr d | Inl e \<Rightarrow> False"
proof -
  have "isl (sanitize_d6 sample_bytes sample_dict_length sample_description) = False" by code_simp
  then obtain d where d: "sanitize_d6 sample_bytes sample_dict_length sample_description = Inr d" by (metis sum.collapse(2))
  show ?thesis unfolding d sum.case by (rule sanitize_idempotent [OF d])
qed

theorem description_from_enums_witness:
  "json_texts (JStr ''daily'') \<subseteq> enum_texts"
proof -
  define d where "d = projr (sanitize_d6 sample_bytes sample_dict_length sample_description)"
  have "isl (sanitize_d6 sample_bytes sample_dict_length sample_description) = False" by code_simp
  then have "sanitize_d6 sample_bytes sample_dict_length sample_description = Inr d" by (metis sum.collapse(2) d_def)
  moreover have "(''update_cadence'', JStr ''daily'') \<in> set d" unfolding d_def by code_simp
  ultimately show ?thesis by (rule description_from_enums)
qed

theorem specification_scanned_once_witness:
  "isl (fst (scan sample_crypto sample_signing sample_site 5 6 7 sample_spec sample_description (snd sample_scan)))"
proof -
  have "isl (fst sample_scan) = False" by code_simp
  then obtain x where x: "fst sample_scan = Inr x" by (metis sum.collapse(2))
  show ?thesis using specification_scanned_once [OF x refl, where es = "[]"] by simp
qed

theorem report_of_pinned_artifact_witness:
  "\<exists>rp r w. sample_scan = (Inr (rp, r), w) \<and> rp_receipt rp = sample_sign (receipt_signature_binding rp)"
proof -
  have "isl (fst sample_scan) = False" by code_simp
  then obtain x where x: "fst sample_scan = Inr x" by (metis sum.collapse(2))
  then obtain rp r w where s: "sample_scan = (Inr (rp, r), w)" by (metis prod.collapse)
  from report_of_pinned_artifact [OF s] have "rp_receipt rp = sign sample_signing (receipt_signature_binding rp)" by blast
  then show ?thesis using s by (simp add: sample_signing_def)
qed

end
