(* ===== verification/Verification_Runs.thy ===== *)
theory Verification_Runs
  imports Prelude
begin

text \<open>
  The life of a data verification on the seller's side:
  \<open>app/services/data_verification_local_service.py\<close> over the table \<open>data_verification_runs\<close>, with what
  \<open>app/services/data_verification_client.py\<close> accepts from the server and the endpoints of
  \<open>app/routers/data_verification.py\<close>. A handler is cut at each wait: what it does between two waits is one step,
  so that a run of the service is a list of steps of several requests in any order, with crashes. Replies of the
  server and results of scans are arguments; a report is its text and its time.
\<close>

section \<open>The table of runs\<close>

record payment_status =
  py_state :: string
  py_result_available :: bool
  py_publication_allowed :: bool
  py_captured :: "int option"
  py_withdrawn :: "time option"

record ingest_reply =
  in_narrative_state :: "string option"
  in_narrative :: "string option"
  in_comparison :: "string option"

record report_doc =
  doc_text :: string
  doc_completed :: time

record quote_info =
  qt_id :: string
  qt_authorization :: int

record vrun =
  vr_id :: string
  vr_dataset :: string
  vr_listing :: string
  vr_verification :: "string option"
  vr_state :: string
  vr_key :: string
  vr_authorization :: string
  vr_accepted :: "time option"
  vr_preview :: bool
  vr_terms_ack :: bool
  vr_corpus_ack :: bool
  vr_d6 :: string
  vr_quote :: "quote_info option"
  vr_payment :: "payment_status option"
  vr_ingest :: "ingest_reply option"
  vr_report :: "report_doc option"
  vr_d8 :: "string option"
  vr_start_claimed :: bool
  vr_scan_claimed :: bool
  vr_lease_owner :: "string option"
  vr_lease_expires :: "time option"
  vr_withdraw_requested :: "time option"
  vr_withdrawn :: "time option"
  vr_created :: time

definition TERMINAL_STATES :: "string list" where
  "TERMINAL_STATES = [''PUBLISHED'', ''DECLINED'', ''WITHDRAWN'', ''SUPERSEDED'', ''AUTH_FAILED'', ''CANCELLED_VOIDED'', ''FAILED_VOIDED'',
     ''CAPTURE_FAILED'']"

definition CANCEL_STATES :: "string list" where
  "CANCEL_STATES = [''AUTHORIZING'', ''AUTHORIZED'', ''SCANNING_LOCAL'', ''NARRATING_CLOUD'', ''CAPTURE_PENDING'', ''CAPTURE_RECONCILING'']"

definition START_LEASE :: time where "START_LEASE = seconds 30"

definition get_run :: "string \<Rightarrow> vrun list \<Rightarrow> vrun option" where
  "get_run i rows = find (\<lambda>r. vr_id r = i) rows"

text \<open>Newest first.\<close>

definition runs_of :: "string \<Rightarrow> vrun list \<Rightarrow> vrun list" where
  "runs_of d rows = rev (sort_key vr_created (filter (\<lambda>r. vr_dataset r = d) rows))"

definition latest_run :: "string \<Rightarrow> vrun list \<Rightarrow> vrun option" where
  "latest_run d rows = (case runs_of d rows of [] \<Rightarrow> None | r # _ \<Rightarrow> Some r)"

definition save_run :: "string \<Rightarrow> (vrun \<Rightarrow> vrun) \<Rightarrow> vrun list \<Rightarrow> vrun list" where
  "save_run i f rows = update_where (\<lambda>r. vr_id r = i) f rows"

definition claim_start :: "string \<Rightarrow> vrun list \<Rightarrow> bool \<times> vrun list" where
  "claim_start i rows =
     (0 < rowcount (\<lambda>r. vr_id r = i \<and> \<not> vr_start_claimed r) rows,
      update_where (\<lambda>r. vr_id r = i \<and> \<not> vr_start_claimed r) (\<lambda>r. r\<lparr>vr_start_claimed := True\<rparr>) rows)"

definition claim_scan :: "string \<Rightarrow> vrun list \<Rightarrow> bool \<times> vrun list" where
  "claim_scan i rows =
     (0 < rowcount (\<lambda>r. vr_id r = i \<and> \<not> vr_scan_claimed r) rows,
      update_where (\<lambda>r. vr_id r = i \<and> \<not> vr_scan_claimed r) (\<lambda>r. r\<lparr>vr_scan_claimed := True\<rparr>) rows)"

section \<open>The lease\<close>

definition claimable :: "time \<Rightarrow> string \<Rightarrow> vrun \<Rightarrow> bool" where
  "claimable now owner r \<longleftrightarrow> vr_ingest r = None \<and>
     (vr_lease_owner r = None \<or> vr_lease_owner r = Some owner \<or>
      (case vr_lease_expires r of None \<Rightarrow> True | Some e \<Rightarrow> e \<le> now))"

definition hold :: "time \<Rightarrow> string \<Rightarrow> vrun \<Rightarrow> vrun" where
  "hold now owner r = r\<lparr>vr_lease_owner := Some owner, vr_lease_expires := Some (now + START_LEASE)\<rparr>"

definition try_claim_start_lease :: "time \<Rightarrow> string \<Rightarrow> string \<Rightarrow> vrun list \<Rightarrow> bool \<times> vrun list" where
  "try_claim_start_lease now i owner rows =
     (0 < rowcount (\<lambda>r. vr_id r = i \<and> claimable now owner r) rows,
      update_where (\<lambda>r. vr_id r = i \<and> claimable now owner r) (hold now owner) rows)"

definition renew_start_lease :: "time \<Rightarrow> string \<Rightarrow> string \<Rightarrow> vrun list \<Rightarrow> bool \<times> vrun list" where
  "renew_start_lease now i owner rows =
     (0 < rowcount (\<lambda>r. vr_id r = i \<and> vr_lease_owner r = Some owner) rows,
      update_where (\<lambda>r. vr_id r = i \<and> vr_lease_owner r = Some owner) (\<lambda>r. r\<lparr>vr_lease_expires := Some (now + START_LEASE)\<rparr>) rows)"

definition release_start_lease :: "string \<Rightarrow> string \<Rightarrow> vrun list \<Rightarrow> vrun list" where
  "release_start_lease i owner rows =
     update_where (\<lambda>r. vr_id r = i \<and> vr_lease_owner r = Some owner) (\<lambda>r. r\<lparr>vr_lease_owner := None, vr_lease_expires := None\<rparr>) rows"

definition lease_is_live :: "time \<Rightarrow> vrun \<Rightarrow> bool" where
  "lease_is_live now r \<longleftrightarrow> truthy (vr_lease_owner r) \<and> (case vr_lease_expires r of None \<Rightarrow> False | Some e \<Rightarrow> now < e)"

section \<open>Requests in progress\<close>

text \<open>Where a start request waits: for the payment readiness, for the lease, for the server's start (with the scan claim to
  recover), for the status, for the scan, for the reception of the report, and for the last status.\<close>

datatype phase = Readiness | Claiming | Starting bool | FirstStatus bool | Scanning | Ingesting | LastStatus

record start_request =
  rq_run :: string
  rq_row :: vrun
  rq_phase :: phase
  rq_lost :: bool

text \<open>The other requests that wait for the server: a quote for a dataset with the row that was read, a refresh, a command.\<close>

datatype waiting =
    Quoting string string bool "vrun option"
  | Refreshing vrun
  | Commanding string vrun

record vworld =
  vruns :: "vrun list"
  requests :: "(string \<times> start_request) list"
  others :: "(string \<times> waiting) list"

datatype outcome = Waiting | ShowView | NotReady string | Failed string | ServerFailed

definition leave :: "string \<Rightarrow> string \<Rightarrow> vworld \<Rightarrow> vworld" where
  "leave owner i w = w\<lparr>vruns := release_start_lease i owner (vruns w), requests := AList.delete owner (requests w)\<rparr>"

definition drop_request :: "string \<Rightarrow> vworld \<Rightarrow> vworld" where
  "drop_request owner w = w\<lparr>requests := AList.delete owner (requests w)\<rparr>"

definition wait_in :: "phase \<Rightarrow> string \<Rightarrow> start_request \<Rightarrow> vworld \<Rightarrow> vworld" where
  "wait_in p owner q w = w\<lparr>requests := AList.update owner (q\<lparr>rq_phase := p\<rparr>) (requests w)\<rparr>"

text \<open>The assertion that the lease is still held, which renews it; on failure the request ends.\<close>

definition with_lease :: "time \<Rightarrow> string \<Rightarrow> start_request \<Rightarrow> (vworld \<Rightarrow> outcome \<times> vworld) \<Rightarrow> vworld \<Rightarrow> outcome \<times> vworld" where
  "with_lease now owner q k w =
     (if rq_lost q then (Failed ''verification start lease was lost'', leave owner (rq_run q) w)
      else case renew_start_lease now (rq_run q) owner (vruns w) of
        (held, rows) \<Rightarrow>
          if held then k (w\<lparr>vruns := rows\<rparr>)
          else (Failed ''verification start lease was lost'', leave owner (rq_run q) (w\<lparr>vruns := rows\<rparr>)))"

text \<open>After a row is saved, the request goes on with the row as it then is.\<close>

definition reread :: "start_request \<Rightarrow> vrun list \<Rightarrow> start_request" where
  "reread q rows = (case get_run (rq_run q) rows of None \<Rightarrow> q | Some r \<Rightarrow> q\<lparr>rq_row := r\<rparr>)"

text \<open>The acknowledgements are saved when the row that was read had none; the request carries both.\<close>

definition acknowledge :: "time \<Rightarrow> start_request \<Rightarrow> vrun list \<Rightarrow> vrun list" where
  "acknowledge now q rows =
     (if \<not> vr_terms_ack (rq_row q) \<or> \<not> vr_corpus_ack (rq_row q)
      then save_run (rq_run q) (\<lambda>r. r\<lparr>vr_accepted := Some now, vr_terms_ack := True, vr_corpus_ack := True\<rparr>) rows else rows)"

definition start_begin :: "time \<Rightarrow> string \<Rightarrow> string \<Rightarrow> vworld \<Rightarrow> outcome \<times> vworld" where
  "start_begin now owner dataset w =
     (case latest_run dataset (vruns w) of
        None \<Rightarrow> (Failed ''a current verification quote is required'', w)
      | Some r \<Rightarrow>
          if vr_quote r = None then (Failed ''a current verification quote is required'', w)
          else
            let q = \<lparr>rq_run = vr_id r, rq_row = r, rq_phase = Readiness, rq_lost = False\<rparr> in
            if vr_verification r = None \<and> \<not> vr_start_claimed r then (Waiting, wait_in Readiness owner q w)
            else (Waiting, wait_in Claiming owner q (w\<lparr>vruns := acknowledge now q (vruns w)\<rparr>)))"

text \<open>The server's answer to the readiness question; \<open>None\<close> is an error of the client.\<close>

definition start_ready :: "time \<Rightarrow> string option \<Rightarrow> string \<Rightarrow> start_request \<Rightarrow> vworld \<Rightarrow> outcome \<times> vworld" where
  "start_ready now state owner q w =
     (case state of
        None \<Rightarrow> (ServerFailed, drop_request owner w)
      | Some st \<Rightarrow>
          if st \<noteq> ''ready'' then (NotReady st, drop_request owner w)
          else (Waiting, wait_in Claiming owner q (w\<lparr>vruns := acknowledge now q (vruns w)\<rparr>)))"

text \<open>With the lease, up to the first wait.\<close>

definition start_with_lease :: "string \<Rightarrow> start_request \<Rightarrow> vrun \<Rightarrow> vworld \<Rightarrow> outcome \<times> vworld" where
  "start_with_lease owner q r w =
     (let q' = q\<lparr>rq_row := r\<rparr> in
      if vr_ingest r \<noteq> None then (ShowView, leave owner (vr_id r) w)
      else if vr_report r \<noteq> None then (Waiting, wait_in Ingesting owner q' w)
      else if vr_accepted r = None then (Failed ''the quote acknowledgements were not accepted'', leave owner (vr_id r) w)
      else if vr_start_claimed r then (Waiting, wait_in (Starting (vr_scan_claimed r)) owner q' w)
      else case claim_start (vr_id r) (vruns w) of
        (got, rows) \<Rightarrow>
          if got then (Waiting, wait_in (Starting (vr_scan_claimed r)) owner q' (w\<lparr>vruns := rows\<rparr>))
          else (Failed ''the server start claim could not be acquired'', leave owner (vr_id r) (w\<lparr>vruns := rows\<rparr>)))"

text \<open>One turn of the waiting loop.\<close>

definition claim_turn :: "time \<Rightarrow> string \<Rightarrow> start_request \<Rightarrow> vworld \<Rightarrow> outcome \<times> vworld" where
  "claim_turn now owner q w =
     (case get_run (rq_run q) (vruns w) of
        None \<Rightarrow> (Failed ''verification run was not found'', drop_request owner w)
      | Some r \<Rightarrow>
          if vr_ingest r \<noteq> None \<and> \<not> lease_is_live now r
          then (if truthy (vr_verification r)
                then (Waiting, (drop_request owner w)\<lparr>others := AList.update owner (Refreshing r) (others w)\<rparr>)
                else (ShowView, drop_request owner w))
          else case try_claim_start_lease now (rq_run q) owner (vruns w) of
            (got, rows) \<Rightarrow>
              if \<not> got then (Waiting, w)
              else (case get_run (rq_run q) rows of
                      None \<Rightarrow> (Failed ''verification run was not found'', drop_request owner w)
                    | Some r' \<Rightarrow> start_with_lease owner q r' (w\<lparr>vruns := rows\<rparr>)))"

definition started :: "time \<Rightarrow> string option \<Rightarrow> bool \<Rightarrow> string \<Rightarrow> start_request \<Rightarrow> vworld \<Rightarrow> outcome \<times> vworld" where
  "started now reply recover owner q w =
     (case reply of
        None \<Rightarrow> (ServerFailed, leave owner (rq_run q) w)
      | Some vid \<Rightarrow>
          with_lease now owner q (\<lambda>w1.
            if vr_verification (rq_row q) \<noteq> None \<and> vr_verification (rq_row q) \<noteq> Some vid
            then (Failed ''the idempotent server start returned a different verification identity'', leave owner (rq_run q) w1)
            else let rows = save_run (rq_run q) (\<lambda>r. r\<lparr>vr_verification := Some vid\<rparr>) (vruns w1) in
              (Waiting, wait_in (FirstStatus recover) owner (reread q rows) (w1\<lparr>vruns := rows\<rparr>))) w)"

text \<open>What a status of the server changes in a row.\<close>

definition apply_status :: "payment_status \<Rightarrow> vrun \<Rightarrow> vrun \<Rightarrow> vrun" where
  "apply_status st seen r =
     (let r1 = r\<lparr>vr_state := py_state st, vr_payment := Some st\<rparr> in
      if py_state st = ''WITHDRAWN''
      then (case (py_withdrawn st, vr_withdrawn seen, vr_withdraw_requested seen) of
              (Some t, _, _) \<Rightarrow> r1\<lparr>vr_withdrawn := Some t\<rparr>
            | (None, Some t, _) \<Rightarrow> r1\<lparr>vr_withdrawn := Some t\<rparr>
            | (None, None, Some t) \<Rightarrow> r1\<lparr>vr_withdrawn := Some t\<rparr>
            | _ \<Rightarrow> r1)
      else r1)"

definition first_status :: "time \<Rightarrow> payment_status option \<Rightarrow> bool \<Rightarrow> string \<Rightarrow> start_request \<Rightarrow> vworld \<Rightarrow> outcome \<times> vworld" where
  "first_status now reply recover owner q w =
     (case reply of
        None \<Rightarrow> (ServerFailed, leave owner (rq_run q) w)
      | Some st \<Rightarrow>
          with_lease now owner q (\<lambda>w1.
            let w2 = w1\<lparr>vruns := save_run (rq_run q) (apply_status st (rq_row q)) (vruns w1)\<rparr> in
            if py_state st \<noteq> ''AUTHORIZED'' then (ShowView, leave owner (rq_run q) w2)
            else if recover then (Waiting, wait_in Scanning owner q w2)
            else case claim_scan (rq_run q) (vruns w2) of
              (got, rows) \<Rightarrow>
                if got then (Waiting, wait_in Scanning owner q (w2\<lparr>vruns := rows\<rparr>))
                else (Failed ''the local scan claim could not be acquired'', leave owner (rq_run q) (w2\<lparr>vruns := rows\<rparr>))) w)"

text \<open>The end of a scan: its report, or a terminal report for a refusal; an error that is neither ends the request.\<close>

datatype scan_end = ReportMade report_doc "string option" | ScanFailed report_doc | ScanCrashed

definition scan_ended :: "time \<Rightarrow> scan_end \<Rightarrow> string \<Rightarrow> start_request \<Rightarrow> vworld \<Rightarrow> outcome \<times> vworld" where
  "scan_ended now e owner q w =
     (case e of
        ScanCrashed \<Rightarrow> (Failed ''Internal Server Error'', leave owner (rq_run q) w)
      | ReportMade d d8 \<Rightarrow>
          with_lease now owner q (\<lambda>w1.
            let rows = save_run (rq_run q) (\<lambda>r. r\<lparr>vr_report := Some d, vr_d8 := d8\<rparr>) (vruns w1) in
            (Waiting, wait_in Ingesting owner (reread q rows) (w1\<lparr>vruns := rows\<rparr>))) w
      | ScanFailed d \<Rightarrow>
          with_lease now owner q (\<lambda>w1.
            let rows = save_run (rq_run q) (\<lambda>r. r\<lparr>vr_report := Some d, vr_d8 := None\<rparr>) (vruns w1) in
            (Waiting, wait_in Ingesting owner (reread q rows) (w1\<lparr>vruns := rows\<rparr>))) w)"

definition ingested :: "time \<Rightarrow> ingest_reply option \<Rightarrow> string \<Rightarrow> start_request \<Rightarrow> vworld \<Rightarrow> outcome \<times> vworld" where
  "ingested now reply owner q w =
     (case reply of
        None \<Rightarrow> (ServerFailed, leave owner (rq_run q) w)
      | Some g \<Rightarrow>
          with_lease now owner q (\<lambda>w1.
            let rows = save_run (rq_run q) (\<lambda>r. r\<lparr>vr_ingest := Some g\<rparr>) (vruns w1) in
            (Waiting, wait_in LastStatus owner (reread q rows) (w1\<lparr>vruns := rows\<rparr>))) w)"

definition last_status :: "time \<Rightarrow> payment_status option \<Rightarrow> string \<Rightarrow> start_request \<Rightarrow> vworld \<Rightarrow> outcome \<times> vworld" where
  "last_status now reply owner q w =
     (case reply of
        None \<Rightarrow> (ServerFailed, leave owner (rq_run q) w)
      | Some st \<Rightarrow>
          with_lease now owner q (\<lambda>w1.
            (ShowView, leave owner (rq_run q) (w1\<lparr>vruns := save_run (rq_run q) (apply_status st (rq_row q)) (vruns w1)\<rparr>))) w)"

text \<open>The heartbeat of a request that holds the lease.\<close>

definition beats :: "phase \<Rightarrow> bool" where
  "beats p \<longleftrightarrow> p \<noteq> Readiness \<and> p \<noteq> Claiming"

definition heartbeat :: "time \<Rightarrow> string \<Rightarrow> start_request \<Rightarrow> vworld \<Rightarrow> vworld" where
  "heartbeat now owner q w =
     (if \<not> beats (rq_phase q) \<or> rq_lost q then w
      else case renew_start_lease now (rq_run q) owner (vruns w) of
        (held, rows) \<Rightarrow>
          if held then w\<lparr>vruns := rows\<rparr>
          else w\<lparr>vruns := rows, requests := AList.update owner (q\<lparr>rq_lost := True\<rparr>) (requests w)\<rparr>)"


section \<open>Quotes, refreshes and commands\<close>

record seller_dataset =
  sd_id :: string
  sd_status :: string
  sd_filename :: string
  sd_listing :: "string option"

definition SUPPORTED_FILES :: "string list" where
  "SUPPORTED_FILES = [''.csv'', ''.tsv'', ''.json'', ''.jsonl'', ''.parquet'', ''.zip'']"

definition supported_file :: "string \<Rightarrow> bool" where
  "supported_file name \<longleftrightarrow> list_ex (\<lambda>p. starts_with (rev p) (rev (map ascii_lower name))) SUPPORTED_FILES"

definition verification_enabled :: "string \<Rightarrow> bool" where
  "verification_enabled v \<longleftrightarrow> map ascii_lower v \<in> {''1'', ''true'', ''yes'', ''on''}"

text \<open>Why a dataset cannot be verified now.\<close>

definition unavailable_reason :: "bool \<Rightarrow> seller_dataset \<Rightarrow> string option" where
  "unavailable_reason enabled d =
     (if \<not> enabled then Some ''Data verification is not enabled on this AIM Data installation.''
      else if sd_status d \<noteq> ''preview_ready'' then Some ''Finish processing this dataset before starting data verification.''
      else if \<not> supported_file (sd_filename d) then Some ''This source is not supported by the eolymp verification connector.''
      else if \<not> truthy (sd_listing d) then Some ''Save this dataset as an ai.market listing before starting data verification.''
      else None)"

record publication =
  pb_state :: string
  pb_verification :: "string option"
  pb_withdrawn :: "time option"
  pb_report :: "report_doc option"

text \<open>The newest run that says something: a withdrawal of the last thirty days or a publication; an older withdrawal ends
  the search.\<close>

fun publication_among :: "time \<Rightarrow> vrun list \<Rightarrow> publication option" where
  "publication_among now [] = None"
| "publication_among now (r # rs) =
     (if vr_state r = ''WITHDRAWN'' then
        (case vr_withdrawn r of
           Some t \<Rightarrow> if now - t \<le> seconds (30 * 86400)
             then Some \<lparr>pb_state = ''WITHDRAWN'', pb_verification = vr_verification r, pb_withdrawn = Some t, pb_report = None\<rparr> else None
         | None \<Rightarrow> None)
      else if vr_state r = ''PUBLISHED'' \<and> vr_report r \<noteq> None
      then Some \<lparr>pb_state = ''PUBLISHED'', pb_verification = vr_verification r, pb_withdrawn = None, pb_report = vr_report r\<rparr>
      else publication_among now rs)"

definition active_publication :: "time \<Rightarrow> string \<Rightarrow> vrun list \<Rightarrow> publication option" where
  "active_publication now d rows = publication_among now (runs_of d rows)"

record view =
  vw_supported :: bool
  vw_unavailable :: "string option"
  vw_run :: "string option"
  vw_state :: "string option"
  vw_quote :: "quote_info option"
  vw_payment_setup :: "string option"
  vw_payment :: "payment_status option"
  vw_ingest :: "ingest_reply option"
  vw_findings :: "report_doc option"
  vw_d8 :: "string option"
  vw_publication :: "publication option"

definition may_reveal :: "vrun \<Rightarrow> bool" where
  "may_reveal r \<longleftrightarrow> (case vr_payment r of None \<Rightarrow> False | Some p \<Rightarrow> py_result_available p)"

definition view_of :: "bool \<Rightarrow> time \<Rightarrow> seller_dataset \<Rightarrow> vrun option \<Rightarrow> string option \<Rightarrow> vrun list \<Rightarrow> view" where
  "view_of enabled now d run payment_setup rows =
     (if \<not> enabled
      then \<lparr>vw_supported = False, vw_unavailable = unavailable_reason False d, vw_run = None, vw_state = None, vw_quote = None,
            vw_payment_setup = None, vw_payment = None, vw_ingest = None, vw_findings = None, vw_d8 = None, vw_publication = None\<rparr>
      else \<lparr>vw_supported = sd_status d = ''preview_ready'' \<and> supported_file (sd_filename d) \<and> truthy (sd_listing d),
            vw_unavailable = unavailable_reason True d, vw_run = map_option vr_id run,
            vw_state = (case run of None \<Rightarrow> None | Some r \<Rightarrow> Some (case vr_payment r of Some p \<Rightarrow> py_state p | None \<Rightarrow> vr_state r)),
            vw_quote = Option.bind run vr_quote, vw_payment_setup = payment_setup, vw_payment = Option.bind run vr_payment,
            vw_ingest = Option.bind run vr_ingest,
            vw_findings = (case run of Some r \<Rightarrow> if may_reveal r then vr_report r else None | None \<Rightarrow> None),
            vw_d8 = (case run of Some r \<Rightarrow> if may_reveal r then vr_d8 r else None | None \<Rightarrow> None),
            vw_publication = active_publication now (sd_id d) rows\<rparr>)"

text \<open>The probe that is sent for a quote; the object count and the size of a local file come from reading it.\<close>

definition size_class :: "int \<Rightarrow> string" where
  "size_class n = (if n < 10000000 then ''small'' else if n < 100000000 then ''medium'' else ''large'')"

definition estimated_tokens :: "int \<Rightarrow> int" where
  "estimated_tokens cols = max 1 ((1024 + cols * 640 + 2) div 3)"

definition prepare_begin :: "bool \<Rightarrow> string \<Rightarrow> seller_dataset option \<Rightarrow> string \<Rightarrow> bool \<Rightarrow> vworld \<Rightarrow> outcome \<times> vworld" where
  "prepare_begin enabled rid dataset d6 preview w =
     (if \<not> enabled then (Failed ''data verification is disabled'', w)
      else case dataset of
        None \<Rightarrow> (Failed ''dataset was not found'', w)
      | Some d \<Rightarrow>
          (case unavailable_reason True d of
             Some why \<Rightarrow> (Failed why, w)
           | None \<Rightarrow>
               (case latest_run (sd_id d) (vruns w) of
                  None \<Rightarrow> (Waiting, w\<lparr>others := AList.update rid (Quoting (sd_id d) d6 preview None) (others w)\<rparr>)
                | Some r \<Rightarrow>
                    if vr_state r = ''QUOTED'' \<and> vr_d6 r = d6 \<and> vr_preview r = preview then (ShowView, w)
                    else if vr_state r \<notin> set TERMINAL_STATES \<and> vr_state r \<noteq> ''QUOTED''
                    then (Failed ''the current verification run must finish before another can start'', w)
                    else (Waiting, w\<lparr>others := AList.update rid (Quoting (sd_id d) d6 preview (Some r)) (others w)\<rparr>))))"

definition new_run :: "time \<Rightarrow> string \<Rightarrow> string \<Rightarrow> string \<Rightarrow> string \<Rightarrow> string \<Rightarrow> string \<Rightarrow> bool \<Rightarrow> quote_info \<Rightarrow> vrun" where
  "new_run now i key auth d listing d6 preview q =
     \<lparr>vr_id = i, vr_dataset = d, vr_listing = listing, vr_verification = None, vr_state = ''QUOTED'', vr_key = key, vr_authorization = auth,
      vr_accepted = None, vr_preview = preview, vr_terms_ack = False, vr_corpus_ack = False, vr_d6 = d6, vr_quote = Some q, vr_payment = None,
      vr_ingest = None, vr_report = None, vr_d8 = None, vr_start_claimed = False, vr_scan_claimed = False, vr_lease_owner = None,
      vr_lease_expires = None, vr_withdraw_requested = None, vr_withdrawn = None, vr_created = now\<rparr>"

definition requote :: "string \<Rightarrow> bool \<Rightarrow> quote_info \<Rightarrow> vrun \<Rightarrow> vrun" where
  "requote d6 preview q r =
     r\<lparr>vr_accepted := None, vr_preview := preview, vr_terms_ack := False, vr_corpus_ack := False, vr_d6 := d6, vr_quote := Some q\<rparr>"

definition drop_other :: "string \<Rightarrow> vworld \<Rightarrow> vworld" where
  "drop_other rid w = w\<lparr>others := AList.delete rid (others w)\<rparr>"

text \<open>The identifier is the primary key of the table.\<close>

definition insert_run :: "vrun \<Rightarrow> vworld \<Rightarrow> outcome \<times> vworld" where
  "insert_run r w =
     (if get_run (vr_id r) (vruns w) \<noteq> None then (Failed ''Internal Server Error'', w) else (ShowView, w\<lparr>vruns := vruns w @ [r]\<rparr>))"

text \<open>The quote has come; \<open>None\<close> is an error of the client. The run's identifier, keys and listing are arguments.\<close>

definition prepare_finish ::
  "time \<Rightarrow> quote_info option \<Rightarrow> string \<Rightarrow> string \<Rightarrow> string \<Rightarrow> string \<Rightarrow> string \<Rightarrow> string \<Rightarrow> string \<Rightarrow> bool \<Rightarrow> vrun option \<Rightarrow> vworld \<Rightarrow>
     outcome \<times> vworld" where
  "prepare_finish now reply rid i key auth listing d d6 preview latest w =
     (let w1 = drop_other rid w in
      case reply of
        None \<Rightarrow> (ServerFailed, w1)
      | Some q \<Rightarrow>
          (case latest of
             Some r \<Rightarrow>
               if vr_state r = ''QUOTED'' then (ShowView, w1\<lparr>vruns := save_run (vr_id r) (requote d6 preview q) (vruns w1)\<rparr>)
               else insert_run (new_run now i key auth d listing d6 preview q) w1
           | None \<Rightarrow> insert_run (new_run now i key auth d listing d6 preview q) w1))"

definition refresh_begin :: "bool \<Rightarrow> string \<Rightarrow> string \<Rightarrow> vworld \<Rightarrow> outcome \<times> vworld" where
  "refresh_begin enabled rid d w =
     (if \<not> enabled then (Failed ''data verification is disabled'', w)
      else case latest_run d (vruns w) of
        Some r \<Rightarrow>
          if truthy (vr_verification r) then (Waiting, w\<lparr>others := AList.update rid (Refreshing r) (others w)\<rparr>) else (ShowView, w)
      | None \<Rightarrow> (ShowView, w))"

definition refresh_finish :: "payment_status option \<Rightarrow> string \<Rightarrow> vrun \<Rightarrow> vworld \<Rightarrow> outcome \<times> vworld" where
  "refresh_finish reply rid r w =
     (let w1 = drop_other rid w in
      case reply of
        None \<Rightarrow> (ServerFailed, w1)
      | Some st \<Rightarrow> (ShowView, w1\<lparr>vruns := save_run (vr_id r) (apply_status st r) (vruns w1)\<rparr>))"

definition narrative_ready :: "ingest_reply option \<Rightarrow> bool" where
  "narrative_ready g \<longleftrightarrow>
     (case g of
        None \<Rightarrow> False
      | Some x \<Rightarrow>
          (in_narrative_state x = Some ''grounded'' \<and> (case in_narrative x of Some t \<Rightarrow> strip t \<noteq> [] | None \<Rightarrow> False) \<and>
             (case in_comparison x of Some t \<Rightarrow> strip t \<noteq> [] | None \<Rightarrow> False)) \<or>
          in_narrative_state x = Some ''withheld_grounding_failed'')"

definition command_refused :: "string \<Rightarrow> payment_status \<Rightarrow> ingest_reply option \<Rightarrow> string option" where
  "command_refused action st g =
     (if action = ''cancel'' \<and> py_state st \<notin> set CANCEL_STATES then Some ''cancel is not available in the current server state''
      else if action = ''publish'' \<and> (py_state st \<noteq> ''CAPTURED'' \<or> \<not> py_publication_allowed st)
      then Some ''publication is not available in the current server state''
      else if action = ''publish'' \<and> \<not> narrative_ready g
      then Some ''the full allAI interpretation text is not available for publication review''
      else if action = ''decline'' \<and> py_state st \<noteq> ''CAPTURED'' then Some ''decline is not available in the current server state''
      else if action = ''withdraw'' \<and> py_state st \<noteq> ''PUBLISHED'' then Some ''withdrawal is not available in the current server state''
      else None)"

definition command_begin :: "bool \<Rightarrow> time \<Rightarrow> string \<Rightarrow> string \<Rightarrow> string \<Rightarrow> vworld \<Rightarrow> outcome \<times> vworld" where
  "command_begin enabled now rid d action w =
     (if \<not> enabled then (Failed ''data verification is disabled'', w)
      else case latest_run d (vruns w) of
        None \<Rightarrow> (Failed ''an active verification run is required'', w)
      | Some r \<Rightarrow>
          (case (vr_verification r, vr_payment r) of
             (Some v, Some st) \<Rightarrow>
               (case command_refused action st (vr_ingest r) of
                  Some why \<Rightarrow> (Failed why, w)
                | None \<Rightarrow>
                    if action = ''withdraw'' \<and> vr_withdraw_requested r = None
                    then let f = (\<lambda>x. x\<lparr>vr_withdraw_requested := Some now\<rparr>) in
                      (Waiting, w\<lparr>vruns := save_run (vr_id r) f (vruns w), others := AList.update rid (Commanding action (f r)) (others w)\<rparr>)
                    else (Waiting, w\<lparr>others := AList.update rid (Commanding action r) (others w)\<rparr>))
           | _ \<Rightarrow> (Failed ''an active verification run is required'', w)))"

text \<open>The status after a command, with the date of the server.\<close>

definition withdrawal_date :: "payment_status \<Rightarrow> time option \<Rightarrow> vrun \<Rightarrow> time option" where
  "withdrawal_date st server_date r =
     (case py_withdrawn st of Some t \<Rightarrow> Some t | None \<Rightarrow> (case server_date of Some t \<Rightarrow> Some t | None \<Rightarrow> vr_withdraw_requested r))"

definition command_change :: "string \<Rightarrow> time option \<Rightarrow> payment_status \<Rightarrow> vrun \<Rightarrow> vrun" where
  "command_change action date st x =
     (let y = x\<lparr>vr_state := py_state st, vr_payment := Some st\<rparr> in
      if action = ''withdraw'' \<and> date \<noteq> None then y\<lparr>vr_withdrawn := date\<rparr> else y)"

definition command_finish :: "(payment_status \<times> time option) option \<Rightarrow> string \<Rightarrow> string \<Rightarrow> vrun \<Rightarrow> vworld \<Rightarrow> outcome \<times> vworld" where
  "command_finish reply rid action r w =
     (let w1 = drop_other rid w in
      case reply of
        None \<Rightarrow> (ServerFailed, w1)
      | Some (st, server_date) \<Rightarrow>
          (ShowView, w1\<lparr>vruns := save_run (vr_id r) (command_change action (withdrawal_date st server_date r) st) (vruns w1)\<rparr>))"

section \<open>Steps\<close>

datatype vevent =
    BeginStart time string string
  | Ready time string "string option"
  | ClaimTurn time string
  | ServerStarted time string "string option"
  | StatusCame time string "payment_status option"
  | ScanEnded time string scan_end
  | ReportReceived time string "ingest_reply option"
  | Heartbeat time string
  | BeginQuote string "seller_dataset option" string bool
  | QuoteCame time string "quote_info option" string string string string
  | BeginRefresh string string
  | RefreshCame string "payment_status option"
  | BeginCommand time string string string
  | CommandCame string "(payment_status \<times> time option) option"
  | ProcessCrash

text \<open>Only a request that waits for an event takes it. A crash forgets every request and leaves the table.\<close>

definition vturn :: "vworld \<Rightarrow> vevent \<Rightarrow> outcome \<times> vworld" where
  "vturn w e =
     (case e of
        BeginStart now owner d \<Rightarrow> if map_of (requests w) owner = None then start_begin now owner d w else (Waiting, w)
      | Ready now owner st \<Rightarrow>
          (case map_of (requests w) owner of Some q \<Rightarrow> if rq_phase q = Readiness then start_ready now st owner q w else (Waiting, w) | None \<Rightarrow> (Waiting, w))
      | ClaimTurn now owner \<Rightarrow>
          (case map_of (requests w) owner of Some q \<Rightarrow> if rq_phase q = Claiming then claim_turn now owner q w else (Waiting, w) | None \<Rightarrow> (Waiting, w))
      | ServerStarted now owner v \<Rightarrow>
          (case map_of (requests w) owner of
             Some q \<Rightarrow> (case rq_phase q of Starting rec \<Rightarrow> started now v rec owner q w | _ \<Rightarrow> (Waiting, w)) | None \<Rightarrow> (Waiting, w))
      | StatusCame now owner st \<Rightarrow>
          (case map_of (requests w) owner of
             Some q \<Rightarrow> (case rq_phase q of FirstStatus rec \<Rightarrow> first_status now st rec owner q w | LastStatus \<Rightarrow> last_status now st owner q w | _ \<Rightarrow> (Waiting, w))
           | None \<Rightarrow> (Waiting, w))
      | ScanEnded now owner x \<Rightarrow>
          (case map_of (requests w) owner of Some q \<Rightarrow> if rq_phase q = Scanning then scan_ended now x owner q w else (Waiting, w) | None \<Rightarrow> (Waiting, w))
      | ReportReceived now owner g \<Rightarrow>
          (case map_of (requests w) owner of Some q \<Rightarrow> if rq_phase q = Ingesting then ingested now g owner q w else (Waiting, w) | None \<Rightarrow> (Waiting, w))
      | Heartbeat now owner \<Rightarrow> (case map_of (requests w) owner of Some q \<Rightarrow> (Waiting, heartbeat now owner q w) | None \<Rightarrow> (Waiting, w))
      | BeginQuote rid ds d6 pv \<Rightarrow> prepare_begin True rid ds d6 pv w
      | QuoteCame now rid rep i key auth listing \<Rightarrow>
          (case map_of (others w) rid of Some (Quoting d d6 pv latest) \<Rightarrow> prepare_finish now rep rid i key auth listing d d6 pv latest w | _ \<Rightarrow> (Waiting, w))
      | BeginRefresh rid d \<Rightarrow> refresh_begin True rid d w
      | RefreshCame rid st \<Rightarrow> (case map_of (others w) rid of Some (Refreshing r) \<Rightarrow> refresh_finish st rid r w | _ \<Rightarrow> (Waiting, w))
      | BeginCommand now rid d a \<Rightarrow> command_begin True now rid d a w
      | CommandCame rid rep \<Rightarrow> (case map_of (others w) rid of Some (Commanding a r) \<Rightarrow> command_finish rep rid a r w | _ \<Rightarrow> (Waiting, w))
      | ProcessCrash \<Rightarrow> (Waiting, w\<lparr>requests := [], others := []\<rparr>))"

definition vstep :: "vworld \<Rightarrow> vevent \<Rightarrow> vworld" where
  "vstep w e = snd (vturn w e)"

definition empty_world :: vworld where
  "empty_world = \<lparr>vruns = [], requests = [], others = []\<rparr>"


section \<open>The client and the endpoints\<close>

text \<open>The readiness reply of the server: its flags must be those of its state.\<close>

definition readiness_flags :: "string \<Rightarrow> (bool \<times> bool) option" where
  "readiness_flags st = map_of
     [(''setup_required'', (True, False)), (''setup_pending'', (False, False)), (''ready'', (False, True)), (''blocked'', (False, False))] st"

definition payment_method_readiness :: "json option \<Rightarrow> string option" where
  "payment_method_readiness reply =
     (case reply of
        Some (JObj d) \<Rightarrow>
          if set (map fst d) \<noteq> {''version'', ''state'', ''can_start_setup'', ''can_replace_payment_method'', ''message''} then None
          else (case (map_of d ''version'', map_of d ''state'', map_of d ''message'', map_of d ''can_start_setup'', map_of d ''can_replace_payment_method'') of
                  (Some (JStr v), Some (JStr st), Some (JStr _), Some (JBool a), Some (JBool b)) \<Rightarrow>
                    if v = ''data_verification_payin_readiness_v1'' \<and> readiness_flags st = Some (a, b) then Some st else None
                | _ \<Rightarrow> None)
      | _ \<Rightarrow> None)"

text \<open>A response of the server, or no response: a reply that is not a success is an error of the client.\<close>

definition client_request :: "(int \<times> 'a) option \<Rightarrow> 'a option" where
  "client_request response = (case response of None \<Rightarrow> None | Some (code, body) \<Rightarrow> if 200 \<le> code \<and> code < 300 then Some body else None)"

definition http_error :: "outcome \<Rightarrow> int option" where
  "http_error x = (case x of ServerFailed \<Rightarrow> Some 502 | Failed _ \<Rightarrow> Some 409 | _ \<Rightarrow> None)"

definition requires_cloud_refresh :: "string \<Rightarrow> vrun list \<Rightarrow> bool" where
  "requires_cloud_refresh d rows \<longleftrightarrow> (case latest_run d rows of None \<Rightarrow> False | Some r \<Rightarrow> truthy (vr_verification r))"

text \<open>Whether the view endpoint asks the server.\<close>

definition view_asks_server :: "view \<Rightarrow> string \<Rightarrow> vrun list \<Rightarrow> bool" where
  "view_asks_server v d rows \<longleftrightarrow> vw_supported v \<and> truthy (vw_run v) \<and> requires_cloud_refresh d rows"

text \<open>The credentials of the runtime: the signed-in seller of the installation goes before the caller.\<close>

definition incoming_token :: "string \<Rightarrow> string option" where
  "incoming_token header = (if starts_with ''Bearer '' header then Some (strip (drop 7 header)) else None)"

definition runtime_credentials ::
  "string option \<Rightarrow> string option \<Rightarrow> string option \<Rightarrow> string \<Rightarrow> string \<Rightarrow> string \<Rightarrow> (string \<times> string) option" where
  "runtime_credentials stored_token stored_seller gateway_user header key_id user_id =
     (let tok = (if truthy stored_token then stored_token else incoming_token header);
          seller = (if truthy stored_seller then stored_seller
            else if key_id = ''ai_market_bearer'' \<and> user_id \<noteq> [] then Some user_id else gateway_user) in
      if truthy tok \<and> truthy seller then Some (the tok, the seller) else None)"

text \<open>The commitment key of the installation is made once and kept in a file; base64 is a parameter.\<close>

definition commitment_key ::
  "(string \<Rightarrow> string) \<Rightarrow> (string \<Rightarrow> string option) \<Rightarrow> string \<Rightarrow> string option \<Rightarrow> string option \<times> string option" where
  "commitment_key enc dec fresh file =
     (case file of
        None \<Rightarrow> (Some fresh, Some (enc fresh))
      | Some bytes \<Rightarrow>
          (case dec bytes of None \<Rightarrow> (None, Some bytes) | Some k \<Rightarrow> (if length k = 32 then (Some k, Some bytes) else (None, Some bytes))))"

fun unescape_newlines :: "string \<Rightarrow> string" where
  "unescape_newlines (a # b # xs) =
     (if a = CHR 0x5C \<and> b = CHR ''n'' then CHR 0x0A # unescape_newlines xs else a # unescape_newlines (b # xs))"
| "unescape_newlines xs = xs"

definition platform_public_key :: "(string \<Rightarrow> string option) \<Rightarrow> string \<Rightarrow> string option" where
  "platform_public_key dec configured =
     (let c = strip configured in
      if c = [] then None
      else if starts_with ''-----BEGIN PUBLIC KEY-----'' c then Some (unescape_newlines c)
      else (case dec c of None \<Rightarrow> None | Some k \<Rightarrow> if starts_with ''-----BEGIN PUBLIC KEY-----'' k then Some k else None))"

lemma commitment_key_kept:
  assumes "dec (enc k) = Some k" "length k = 32"
  shows "commitment_key enc dec k' (snd (commitment_key enc dec k None)) = (Some k, Some (enc k))"
  using assms by (simp add: commitment_key_def)

text \<open>A start goes on only with a reply whose flags say that a payment method is there and cannot be set up.\<close>

lemma ready_reply: "payment_method_readiness reply = Some ''ready'' \<Longrightarrow>
  \<exists>d. reply = Some (JObj d) \<and> map_of d ''can_start_setup'' = Some (JBool False) \<and> map_of d ''can_replace_payment_method'' = Some (JBool True)"
  by (auto simp: payment_method_readiness_def readiness_flags_def split: option.splits json.splits if_splits)

section \<open>What a step does to the table\<close>

named_theorems run_simps

lemma get_run_update [run_simps]:
  "(\<And>r. vr_id (f r) = vr_id r) \<Longrightarrow>
   get_run i (update_where p f rows) = map_option (\<lambda>r. if p r then f r else r) (get_run i rows)"
  by (induction rows) (auto simp: get_run_def)

lemma get_run_id: "get_run i rows = Some r \<Longrightarrow> vr_id r = i"
  by (auto simp: get_run_def find_Some_iff)

lemma get_run_update_id:
  "(\<And>r. vr_id (f r) = vr_id r) \<Longrightarrow>
   get_run i (update_where (\<lambda>r. vr_id r = i \<and> P r) f rows) = map_option (\<lambda>r. if P r then f r else r) (get_run i rows)"
  by (induction rows) (auto simp: get_run_def)

lemma get_run_append [run_simps]:
  "get_run i (rows @ [x]) = (case get_run i rows of Some r \<Rightarrow> Some r | None \<Rightarrow> if vr_id x = i then Some x else None)"
  by (induction rows) (auto simp: get_run_def)

lemma get_run_None_iff: "get_run i rows = None \<longleftrightarrow> i \<notin> vr_id ` set rows"
  by (induction rows) (auto simp: get_run_def)

lemma ids_update [run_simps]: "(\<And>r. vr_id (f r) = vr_id r) \<Longrightarrow> map vr_id (update_where p f rows) = map vr_id rows"
  by (simp add: map_update_where_key)

text \<open>With unique identifiers the number of changed rows tells what the row was.\<close>

lemma get_run_unique: "distinct (map vr_id rows) \<Longrightarrow> r \<in> set rows \<Longrightarrow> get_run (vr_id r) rows = Some r"
  by (induction rows) (auto simp: get_run_def)

lemma changed_row:
  assumes "distinct (map vr_id rows)" "0 < rowcount (\<lambda>r. vr_id r = i \<and> P r) rows"
  obtains r where "get_run i rows = Some r" "P r"
proof -
  obtain r where "r \<in> set rows" "vr_id r = i" "P r"
    using assms(2) rowcount_zero_iff [of "\<lambda>r. vr_id r = i \<and> P r" rows] by auto
  then show thesis using get_run_unique [OF assms(1)] that by blast
qed

text \<open>What stays of a row for good.\<close>

definition keeps :: "'a option \<Rightarrow> 'a option \<Rightarrow> bool" where
  "keeps x y \<longleftrightarrow> x = None \<or> y = x"

definition evolves :: "vrun \<Rightarrow> vrun \<Rightarrow> bool" where
  "evolves r s \<longleftrightarrow> vr_dataset s = vr_dataset r \<and> vr_key s = vr_key r \<and> vr_authorization s = vr_authorization r \<and>
     keeps (vr_verification r) (vr_verification s) \<and> keeps (vr_report r) (vr_report s) \<and> keeps (vr_ingest r) (vr_ingest s) \<and>
     (vr_start_claimed r \<longrightarrow> vr_start_claimed s) \<and> (vr_scan_claimed r \<longrightarrow> vr_scan_claimed s)"

lemma run_keeps_refl [simp]: "keeps x x" "keeps None y"
  by (simp_all add: keeps_def)

lemma run_keeps_trans: "keeps x y \<Longrightarrow> keeps y z \<Longrightarrow> keeps x z"
  by (auto simp: keeps_def)

lemma run_evolves_refl [simp]: "evolves r r"
  by (simp add: evolves_def)

lemma run_evolves_trans: "evolves r s \<Longrightarrow> evolves s t \<Longrightarrow> evolves r t"
  unfolding evolves_def by (auto intro: run_keeps_trans)

text \<open>The order in which a row is filled.\<close>

definition staged :: "vrun \<Rightarrow> bool" where
  "staged r \<longleftrightarrow> (vr_ingest r \<noteq> None \<longrightarrow> vr_report r \<noteq> None) \<and> (vr_report r \<noteq> None \<longrightarrow> vr_scan_claimed r) \<and>
     (vr_scan_claimed r \<longrightarrow> vr_verification r \<noteq> None) \<and> (vr_verification r \<noteq> None \<longrightarrow> vr_start_claimed r)"

text \<open>What a request that holds the lease knows of its row at each wait.\<close>

definition known :: "phase \<Rightarrow> vrun \<Rightarrow> vrun \<Rightarrow> bool" where
  "known p seen r \<longleftrightarrow>
     (case p of
        Readiness \<Rightarrow> True
      | Claiming \<Rightarrow> True
      | Starting rec \<Rightarrow> vr_start_claimed r \<and> vr_report r = None \<and> vr_ingest r = None \<and> vr_verification r = vr_verification seen \<and>
          (rec \<longrightarrow> vr_scan_claimed r)
      | FirstStatus rec \<Rightarrow> vr_verification r \<noteq> None \<and> vr_report r = None \<and> vr_ingest r = None \<and> (rec \<longrightarrow> vr_scan_claimed r)
      | Scanning \<Rightarrow> vr_scan_claimed r \<and> vr_report r = None \<and> vr_ingest r = None
      | Ingesting \<Rightarrow> vr_report r \<noteq> None \<and> vr_ingest r = None
      | LastStatus \<Rightarrow> True)"

definition vinv :: "vworld \<Rightarrow> bool" where
  "vinv w \<longleftrightarrow> distinct (map vr_id (vruns w)) \<and> (\<forall>i r. get_run i (vruns w) = Some r \<longrightarrow> staged r) \<and>
     (\<forall>u q r. map_of (requests w) u = Some q \<longrightarrow> get_run (rq_run q) (vruns w) = Some r \<longrightarrow> vr_lease_owner r = Some u \<longrightarrow>
        known (rq_phase q) (rq_row q) r)"


lemma vinvD:
  assumes "vinv w"
  shows "distinct (map vr_id (vruns w))" and "get_run i (vruns w) = Some r \<Longrightarrow> staged r"
    and "map_of (requests w) u = Some q \<Longrightarrow> get_run (rq_run q) (vruns w) = Some r \<Longrightarrow> vr_lease_owner r = Some u \<Longrightarrow>
      known (rq_phase q) (rq_row q) r"
  using assms unfolding vinv_def by blast+

text \<open>A turn of the request \<open>u\<close> (or of none) may change a row so that every other holder of the lease still knows what it knew.\<close>

definition same_progress :: "vrun \<Rightarrow> vrun \<Rightarrow> bool" where
  "same_progress r s \<longleftrightarrow> vr_verification s = vr_verification r \<and> vr_report s = vr_report r \<and> vr_ingest s = vr_ingest r \<and>
     vr_start_claimed s = vr_start_claimed r \<and> vr_scan_claimed s = vr_scan_claimed r"

definition rowstep :: "string option \<Rightarrow> vrun \<Rightarrow> vrun \<Rightarrow> bool" where
  "rowstep u r s \<longleftrightarrow> evolves r s \<and> (staged r \<longrightarrow> staged s) \<and>
     (\<forall>v. Some v \<noteq> u \<longrightarrow> vr_lease_owner s = Some v \<longrightarrow> vr_lease_owner r = Some v \<and> same_progress r s)"

definition table_ok :: "string option \<Rightarrow> vrun list \<Rightarrow> vrun list \<Rightarrow> bool" where
  "table_ok u rows rows' \<longleftrightarrow> (distinct (map vr_id rows) \<longrightarrow> distinct (map vr_id rows')) \<and>
     (\<forall>i r. get_run i rows = Some r \<longrightarrow> (\<exists>s. get_run i rows' = Some s \<and> rowstep u r s)) \<and>
     (\<forall>i s. get_run i rows = None \<longrightarrow> get_run i rows' = Some s \<longrightarrow> staged s \<and> (\<forall>v. Some v \<noteq> u \<longrightarrow> vr_lease_owner s \<noteq> Some v))"

definition turn_ok :: "string option \<Rightarrow> vworld \<Rightarrow> vworld \<Rightarrow> bool" where
  "turn_ok u w w' \<longleftrightarrow> table_ok u (vruns w) (vruns w') \<and>
     (\<forall>v. Some v \<noteq> u \<longrightarrow> map_of (requests w') v = map_of (requests w) v \<or> map_of (requests w') v = None) \<and>
     (\<forall>v q s. Some v = u \<longrightarrow> map_of (requests w') v = Some q \<longrightarrow> get_run (rq_run q) (vruns w') = Some s \<longrightarrow>
        vr_lease_owner s = Some v \<longrightarrow> known (rq_phase q) (rq_row q) s)"

lemma same_progress_refl [simp]: "same_progress r r"
  by (simp add: same_progress_def)

lemma same_progress_known: "same_progress r s \<Longrightarrow> known p seen r \<Longrightarrow> known p seen s"
  by (cases p) (auto simp: same_progress_def known_def)

lemma rowstep_refl [simp]: "rowstep u r r"
  by (simp add: rowstep_def)

lemma same_progress_trans: "same_progress r s \<Longrightarrow> same_progress s t \<Longrightarrow> same_progress r t"
  by (simp add: same_progress_def)

lemma rowstep_trans: "rowstep u r s \<Longrightarrow> rowstep u s t \<Longrightarrow> rowstep u r t"
  unfolding rowstep_def by (blast intro: run_evolves_trans same_progress_trans)

lemma table_ok_refl [simp]: "table_ok u rows rows"
  by (simp add: table_ok_def)

lemma table_ok_trans:
  assumes "table_ok u a b" "table_ok u b c" shows "table_ok u a c"
proof -
  have "\<exists>s. get_run i c = Some s \<and> rowstep u r s" if r: "get_run i a = Some r" for i r
  proof -
    obtain s where s: "get_run i b = Some s" "rowstep u r s" using assms(1) r unfolding table_ok_def by blast
    obtain t where "get_run i c = Some t" "rowstep u s t" using assms(2) s(1) unfolding table_ok_def by blast
    with s(2) show ?thesis by (blast intro: rowstep_trans)
  qed
  moreover have "staged t \<and> (\<forall>v. Some v \<noteq> u \<longrightarrow> vr_lease_owner t \<noteq> Some v)" if n: "get_run i a = None" and t: "get_run i c = Some t" for i t
  proof (cases "get_run i b")
    case None
    with assms(2) t show ?thesis unfolding table_ok_def by blast
  next
    case (Some s)
    then have s: "staged s" "\<forall>v. Some v \<noteq> u \<longrightarrow> vr_lease_owner s \<noteq> Some v" using assms(1) n unfolding table_ok_def by blast+
    have "rowstep u s t" using assms(2) Some t unfolding table_ok_def by (metis option.sel)
    with s show ?thesis unfolding rowstep_def by blast
  qed
  ultimately show ?thesis using assms unfolding table_ok_def by blast
qed

lemma run_table_ok_update:
  assumes "\<And>r. vr_id (f r) = vr_id r" "\<And>i r. get_run i rows = Some r \<Longrightarrow> p r \<Longrightarrow> rowstep u r (f r)"
  shows "table_ok u rows (update_where p f rows)"
  unfolding table_ok_def using assms(2) by (auto simp: get_run_update [OF assms(1)] ids_update [OF assms(1)])

lemma turn_okI:
  "table_ok u (vruns w) (vruns w') \<Longrightarrow> (\<And>v. Some v \<noteq> u \<Longrightarrow> map_of (requests w') v = map_of (requests w) v) \<Longrightarrow>
   (\<And>v q s. u = Some v \<Longrightarrow> map_of (requests w') v = Some q \<Longrightarrow> get_run (rq_run q) (vruns w') = Some s \<Longrightarrow>
      vr_lease_owner s = Some v \<Longrightarrow> known (rq_phase q) (rq_row q) s) \<Longrightarrow> turn_ok u w w'"
  unfolding turn_ok_def by blast

lemma turn_ok_after:
  "table_ok u (vruns w) (vruns w1) \<Longrightarrow> requests w1 = requests w \<Longrightarrow> turn_ok u w1 w2 \<Longrightarrow> turn_ok u w w2"
  unfolding turn_ok_def by (auto intro: table_ok_trans)

text \<open>A turn that keeps the rules keeps the invariant.\<close>

lemma turn_ok_inv:
  assumes "vinv w" "turn_ok u w w'" shows "vinv w'"
proof -
  have t: "table_ok u (vruns w) (vruns w')" using assms(2) unfolding turn_ok_def by blast
  have st: "staged s" if s: "get_run i (vruns w') = Some s" for i s
  proof (cases "get_run i (vruns w)")
    case None
    then show ?thesis using t s unfolding table_ok_def by blast
  next
    case (Some r)
    then have "staged r" "rowstep u r s" using assms(1) t s unfolding vinv_def table_ok_def by (blast, metis option.sel)
    then show ?thesis unfolding rowstep_def by blast
  qed
  have kn: "known (rq_phase q) (rq_row q) s"
    if q: "map_of (requests w') v = Some q" and s: "get_run (rq_run q) (vruns w') = Some s" and o: "vr_lease_owner s = Some v" for v q s
  proof (cases "Some v = u")
    case True
    then show ?thesis using assms(2) q s o unfolding turn_ok_def by blast
  next
    case False
    then have q0: "map_of (requests w) v = Some q" using assms(2) q unfolding turn_ok_def by fastforce
    obtain r where r: "get_run (rq_run q) (vruns w) = Some r" using t s o False unfolding table_ok_def by fastforce
    then have "rowstep u r s" using t s unfolding table_ok_def by (metis option.sel)
    then have "vr_lease_owner r = Some v" "same_progress r s" using o False unfolding rowstep_def by blast+
    moreover have "known (rq_phase q) (rq_row q) r" using assms(1) q0 r calculation(1) unfolding vinv_def by blast
    ultimately show ?thesis by (blast intro: same_progress_known)
  qed
  show ?thesis using assms(1) t st kn unfolding vinv_def table_ok_def by blast
qed


lemma same_evolves:
  "same_progress r s \<Longrightarrow> vr_dataset s = vr_dataset r \<Longrightarrow> vr_key s = vr_key r \<Longrightarrow> vr_authorization s = vr_authorization r \<Longrightarrow>
   evolves r s \<and> (staged r \<longrightarrow> staged s)"
  by (simp add: same_progress_def evolves_def staged_def)

lemma rowstep_same:
  "same_progress r s \<Longrightarrow> vr_dataset s = vr_dataset r \<Longrightarrow> vr_key s = vr_key r \<Longrightarrow> vr_authorization s = vr_authorization r \<Longrightarrow>
   vr_lease_owner s = vr_lease_owner r \<or> vr_lease_owner s = None \<or> vr_lease_owner s = u \<Longrightarrow> rowstep u r s"
  unfolding rowstep_def using same_evolves by auto

lemma rowstep_own: "evolves r s \<Longrightarrow> (staged r \<Longrightarrow> staged s) \<Longrightarrow> vr_lease_owner s = Some u \<Longrightarrow> rowstep (Some u) r s"
  by (simp add: rowstep_def)

lemma apply_status_same: "same_progress r (apply_status st q r)" "vr_id (apply_status st q r) = vr_id r"
    "vr_dataset (apply_status st q r) = vr_dataset r" "vr_key (apply_status st q r) = vr_key r"
    "vr_authorization (apply_status st q r) = vr_authorization r" "vr_lease_owner (apply_status st q r) = vr_lease_owner r"
  by (auto simp: apply_status_def same_progress_def Let_def split: option.splits)

lemma table_ok_status: "table_ok u rows (save_run i (apply_status st q) rows)"
  unfolding save_run_def by (rule run_table_ok_update) (simp_all add: apply_status_same rowstep_same)

lemma table_ok_acknowledge: "table_ok u rows (acknowledge now q rows)"
  unfolding acknowledge_def save_run_def by (auto intro!: run_table_ok_update rowstep_same simp: same_progress_def)

lemma table_ok_release: "table_ok u rows (release_start_lease i v rows)"
  unfolding release_start_lease_def by (rule run_table_ok_update) (auto intro!: rowstep_same simp: same_progress_def)

lemma table_ok_renew: "table_ok u rows (snd (renew_start_lease now i v rows))"
  unfolding renew_start_lease_def by (auto intro!: run_table_ok_update rowstep_same simp: same_progress_def)

lemma table_ok_claim: "table_ok (Some v) rows (snd (try_claim_start_lease now i v rows))"
  unfolding try_claim_start_lease_def by (auto intro!: run_table_ok_update rowstep_same simp: same_progress_def hold_def)

text \<open>Ending a request, waiting on, and asserting the lease.\<close>

lemma vruns_leave [simp]: "vruns (leave v i w) = release_start_lease i v (vruns w)" "requests (leave v i w) = AList.delete v (requests w)"
  by (simp_all add: leave_def)

lemma vruns_drop [simp]: "vruns (drop_request v w) = vruns w" "requests (drop_request v w) = AList.delete v (requests w)"
  by (simp_all add: drop_request_def)

lemma vruns_wait [simp]: "vruns (wait_in p v q w) = vruns w" "requests (wait_in p v q w) = AList.update v (q\<lparr>rq_phase := p\<rparr>) (requests w)"
  by (simp_all add: wait_in_def)

lemma turn_ok_leave: "turn_ok (Some v) w (leave v i w)"
  by (rule turn_okI) (simp_all add: table_ok_release delete_conv')

lemma turn_ok_drop: "turn_ok (Some v) w (drop_request v w)"
  by (rule turn_okI) (simp_all add: delete_conv')

lemma turn_ok_wait:
  "(\<And>s. get_run (rq_run q) (vruns w) = Some s \<Longrightarrow> vr_lease_owner s = Some v \<Longrightarrow> known p (rq_row q) s) \<Longrightarrow> turn_ok (Some v) w (wait_in p v q w)"
  by (rule turn_okI) (auto simp: update_conv')

lemma turn_ok_ignore: "vinv w \<Longrightarrow> turn_ok u w w"
  by (rule turn_okI) (auto simp: vinv_def)

lemma with_lease_ok:
  assumes "vinv w" "map_of (requests w) v = Some q"
    and k: "\<And>rows r. get_run (rq_run q) rows = Some r \<Longrightarrow> vr_lease_owner r = Some v \<Longrightarrow> known (rq_phase q) (rq_row q) r \<Longrightarrow>
       turn_ok (Some v) (w\<lparr>vruns := rows\<rparr>) (snd (k (w\<lparr>vruns := rows\<rparr>)))"
  shows "turn_ok (Some v) w (snd (with_lease now v q k w))"
proof -
  obtain held rows where rn: "renew_start_lease now (rq_run q) v (vruns w) = (held, rows)" by fastforce
  have t: "table_ok (Some v) (vruns w) rows" using table_ok_renew [of "Some v" "vruns w" now "rq_run q" v] rn by simp
  have "turn_ok (Some v) w (snd (k (w\<lparr>vruns := rows\<rparr>)))" if held
  proof -
    have "0 < rowcount (\<lambda>r. vr_id r = rq_run q \<and> vr_lease_owner r = Some v) (vruns w)" using rn that by (auto simp: renew_start_lease_def)
    then obtain r where r: "get_run (rq_run q) (vruns w) = Some r" "vr_lease_owner r = Some v"
      by (rule changed_row [OF vinvD(1) [OF assms(1)]])
    have "known (rq_phase q) (rq_row q) r" by (rule vinvD(3) [OF assms(1,2) r])
    moreover have "get_run (rq_run q) rows = Some (r\<lparr>vr_lease_expires := Some (now + START_LEASE)\<rparr>)"
      using rn r get_run_id [OF r(1)] by (auto simp: renew_start_lease_def run_simps)
    moreover have "known p seen s \<Longrightarrow> known p seen (s\<lparr>vr_lease_expires := e\<rparr>)" for p seen s e
      by (rule same_progress_known) (simp_all add: same_progress_def)
    ultimately have "turn_ok (Some v) (w\<lparr>vruns := rows\<rparr>) (snd (k (w\<lparr>vruns := rows\<rparr>)))" using k r(2) by simp
    with t show ?thesis by (rule_tac turn_ok_after) simp_all
  qed
  moreover have "turn_ok (Some v) w (leave v (rq_run q) (w\<lparr>vruns := rows\<rparr>))"
    by (rule turn_ok_after [OF _ _ turn_ok_leave]) (simp_all add: t)
  ultimately show ?thesis by (auto simp: with_lease_def rn turn_ok_leave)
qed


lemma table_ok_save:
  assumes "get_run i rows = Some r" "\<And>r. vr_id (f r) = vr_id r" "rowstep u r (f r)"
  shows "table_ok u rows (save_run i f rows)"
  unfolding save_run_def
proof (rule run_table_ok_update)
  show "rowstep u s (f s)" if "get_run j rows = Some s" "vr_id s = i" for j s
  proof -
    have "j = i" using get_run_id [OF that(1)] that(2) by simp
    with that(1) assms(1,3) show ?thesis by simp
  qed
qed (rule assms(2))

lemma get_run_save [run_simps]:
  "(\<And>r. vr_id (f r) = vr_id r) \<Longrightarrow> get_run i (save_run i f rows) = map_option f (get_run i rows)"
  by (auto simp: save_run_def run_simps dest: get_run_id split: option.splits)
     (cases "get_run i rows"; simp add: get_run_id)

lemma reread_run [simp]: "rq_run (reread q rows) = rq_run q"
  by (simp add: reread_def split: option.splits)

text \<open>A save of the own row, then the next wait.\<close>

lemma turn_ok_save_wait:
  assumes r: "get_run (rq_run q) rows = Some r" and f: "\<And>r. vr_id (f r) = vr_id r"
    and "rowstep (Some v) r (f r)" "rq_run q' = rq_run q" "known p (rq_row q') (f r)"
  shows "turn_ok (Some v) (w\<lparr>vruns := rows\<rparr>) (wait_in p v q' (w\<lparr>vruns := save_run (rq_run q) f rows\<rparr>))"
proof -
  have "turn_ok (Some v) (w\<lparr>vruns := save_run (rq_run q) f rows\<rparr>) (wait_in p v q' (w\<lparr>vruns := save_run (rq_run q) f rows\<rparr>))"
    using assms(4,5) by (intro turn_ok_wait) (simp add: get_run_save [of f, OF f] r)
  then show ?thesis by (rule_tac turn_ok_after) (simp_all add: table_ok_save [OF r f assms(3)])
qed

lemma turn_ok_save_leave: "table_ok (Some v) rows rows' \<Longrightarrow> turn_ok (Some v) (w\<lparr>vruns := rows\<rparr>) (leave v i (w\<lparr>vruns := rows'\<rparr>))"
  by (rule turn_ok_after [OF _ _ turn_ok_leave]) simp_all


section \<open>The turns of a start request\<close>

lemma started_ok:
  assumes "vinv w" "map_of (requests w) v = Some q" "rq_phase q = Starting rec"
  shows "turn_ok (Some v) w (snd (started now reply rec v q w))"
proof (cases reply)
  case None
  then show ?thesis by (simp add: started_def turn_ok_leave)
next
  case (Some vid)
  show ?thesis unfolding started_def Some option.case
  proof (rule with_lease_ok [OF assms(1,2)], goal_cases)
    case (1 rows r)
    have k: "vr_start_claimed r" "vr_report r = None" "vr_ingest r = None" "vr_verification r = vr_verification (rq_row q)"
        "rec \<longrightarrow> vr_scan_claimed r"
      using 1(3) assms(3) by (simp_all add: known_def)
    define f :: "vrun \<Rightarrow> vrun" where "f = (\<lambda>r. r\<lparr>vr_verification := Some vid\<rparr>)"
    have "turn_ok (Some v) (w\<lparr>vruns := rows\<rparr>)
        (wait_in (FirstStatus rec) v (reread q (save_run (rq_run q) f rows)) (w\<lparr>vruns := save_run (rq_run q) f rows\<rparr>))"
      if "vr_verification (rq_row q) = None \<or> vr_verification (rq_row q) = Some vid"
      using that k 1(2) by (intro turn_ok_save_wait [OF 1(1)] rowstep_own) (auto simp: f_def evolves_def keeps_def staged_def known_def)
    then show ?case by (auto simp: turn_ok_leave f_def Let_def)
  qed
qed

lemma first_status_ok:
  assumes "vinv w" "map_of (requests w) v = Some q" "rq_phase q = FirstStatus rec"
  shows "turn_ok (Some v) w (snd (first_status now reply rec v q w))"
proof (cases reply)
  case None
  then show ?thesis by (simp add: first_status_def turn_ok_leave)
next
  case (Some st)
  show ?thesis unfolding first_status_def Some option.case Let_def
  proof (rule with_lease_ok [OF assms(1,2)], goal_cases)
    case (1 rows r)
    define rows1 where "rows1 = save_run (rq_run q) (apply_status st (rq_row q)) rows"
    define r1 where "r1 = apply_status st (rq_row q) r"
    have g: "get_run (rq_run q) rows1 = Some r1"
      by (simp add: rows1_def r1_def get_run_save [OF apply_status_same(2)] 1(1))
    have k: "vr_verification r1 \<noteq> None" "vr_report r1 = None" "vr_ingest r1 = None" "rec \<longrightarrow> vr_scan_claimed r1" "vr_lease_owner r1 = Some v"
      using 1(2,3) assms(3) apply_status_same(1) [of r st "rq_row q"] apply_status_same(6) [of st "rq_row q" r]
      by (simp_all add: known_def r1_def same_progress_def)
    have t: "table_ok (Some v) rows rows1" by (simp add: rows1_def table_ok_status)
    obtain got rows2 where c: "claim_scan (rq_run q) rows1 = (got, rows2)" by fastforce
    have s: "rows2 = update_where (\<lambda>r. vr_id r = rq_run q \<and> \<not> vr_scan_claimed r) (\<lambda>r. r\<lparr>vr_scan_claimed := True\<rparr>) rows1"
      using c by (simp add: claim_scan_def)
    have t2: "table_ok (Some v) rows1 rows2" unfolding s
    proof (rule run_table_ok_update)
      show "rowstep (Some v) x (x\<lparr>vr_scan_claimed := True\<rparr>)" if x: "get_run i rows1 = Some x" "vr_id x = rq_run q \<and> \<not> vr_scan_claimed x" for i x
      proof -
        have "x = r1" using x g get_run_id [OF x(1)] by simp
        with k show ?thesis by (intro rowstep_own) (auto simp: evolves_def staged_def)
      qed
    qed simp
    have g2: "get_run (rq_run q) rows2 = Some (if vr_scan_claimed r1 then r1 else r1\<lparr>vr_scan_claimed := True\<rparr>)"
      using g get_run_id [OF g] by (simp add: s run_simps)
    have "turn_ok (Some v) (w\<lparr>vruns := rows1\<rparr>) (wait_in Scanning v q (w\<lparr>vruns := rows1\<rparr>))" if rec
      using that k g by (intro turn_ok_wait) (simp add: known_def)
    then have "turn_ok (Some v) (w\<lparr>vruns := rows\<rparr>) (wait_in Scanning v q (w\<lparr>vruns := rows1\<rparr>))" if rec
      using that t by (rule_tac turn_ok_after) simp_all
    moreover have "turn_ok (Some v) (w\<lparr>vruns := rows2\<rparr>) (wait_in Scanning v q (w\<lparr>vruns := rows2\<rparr>))"
      using k g2 by (intro turn_ok_wait) (auto simp: known_def)
    then have "turn_ok (Some v) (w\<lparr>vruns := rows\<rparr>) (wait_in Scanning v q (w\<lparr>vruns := rows2\<rparr>))"
      using table_ok_trans [OF t t2] by (rule_tac turn_ok_after) simp_all
    moreover note turn_ok_save_leave [OF t] turn_ok_save_leave [OF table_ok_trans [OF t t2]]
    ultimately show ?case by (simp add: rows1_def [symmetric] c)
  qed
qed


lemma report_saved_ok:
  assumes "vinv w" "map_of (requests w) v = Some q" "rq_phase q = Scanning"
  shows "turn_ok (Some v) w (snd (with_lease now v q (\<lambda>w1.
     let rows = save_run (rq_run q) (\<lambda>r. r\<lparr>vr_report := Some d, vr_d8 := d8\<rparr>) (vruns w1) in
     (Waiting, wait_in Ingesting v (reread q rows) (w1\<lparr>vruns := rows\<rparr>))) w))"
proof (rule with_lease_ok [OF assms(1,2)], goal_cases)
  case (1 rows r)
  define f :: "vrun \<Rightarrow> vrun" where "f = (\<lambda>r. r\<lparr>vr_report := Some d, vr_d8 := d8\<rparr>)"
  have k: "vr_scan_claimed r" "vr_report r = None" "vr_ingest r = None" using 1(3) assms(3) by (simp_all add: known_def)
  have "turn_ok (Some v) (w\<lparr>vruns := rows\<rparr>)
      (wait_in Ingesting v (reread q (save_run (rq_run q) f rows)) (w\<lparr>vruns := save_run (rq_run q) f rows\<rparr>))"
    using k 1(2) by (intro turn_ok_save_wait [OF 1(1)] rowstep_own) (auto simp: f_def evolves_def staged_def known_def)
  then show ?case by (simp add: f_def Let_def)
qed

lemma scan_ended_ok:
  assumes "vinv w" "map_of (requests w) v = Some q" "rq_phase q = Scanning"
  shows "turn_ok (Some v) w (snd (scan_ended now e v q w))"
  using report_saved_ok [OF assms] by (auto simp: scan_ended_def turn_ok_leave split: scan_end.split)

lemma ingested_ok:
  assumes "vinv w" "map_of (requests w) v = Some q" "rq_phase q = Ingesting"
  shows "turn_ok (Some v) w (snd (ingested now reply v q w))"
proof (cases reply)
  case None
  then show ?thesis by (simp add: ingested_def turn_ok_leave)
next
  case (Some g)
  show ?thesis unfolding ingested_def Some option.case
  proof (rule with_lease_ok [OF assms(1,2)], goal_cases)
    case (1 rows r)
    define f :: "vrun \<Rightarrow> vrun" where "f = (\<lambda>r. r\<lparr>vr_ingest := Some g\<rparr>)"
    have k: "vr_report r \<noteq> None" "vr_ingest r = None" using 1(3) assms(3) by (simp_all add: known_def)
    have "turn_ok (Some v) (w\<lparr>vruns := rows\<rparr>)
        (wait_in LastStatus v (reread q (save_run (rq_run q) f rows)) (w\<lparr>vruns := save_run (rq_run q) f rows\<rparr>))"
      using k 1(2) by (intro turn_ok_save_wait [OF 1(1)] rowstep_own) (auto simp: f_def evolves_def staged_def known_def)
    then show ?case by (simp add: f_def Let_def)
  qed
qed

lemma last_status_ok:
  assumes "vinv w" "map_of (requests w) v = Some q"
  shows "turn_ok (Some v) w (snd (last_status now reply v q w))"
proof (cases reply)
  case None
  then show ?thesis by (simp add: last_status_def turn_ok_leave)
next
  case (Some st)
  show ?thesis unfolding last_status_def Some option.case
    by (rule with_lease_ok [OF assms]) (simp add: turn_ok_save_leave table_ok_status)
qed

lemma heartbeat_ok:
  assumes "vinv w" "map_of (requests w) v = Some q"
  shows "turn_ok (Some v) w (heartbeat now v q w)"
proof -
  obtain held rows where rn: "renew_start_lease now (rq_run q) v (vruns w) = (held, rows)" by fastforce
  have t: "table_ok (Some v) (vruns w) rows" using table_ok_renew [of "Some v" "vruns w" now "rq_run q" v] rn by simp
  have "known (rq_phase q) (rq_row q) s" if s: "get_run (rq_run q) rows = Some s" "vr_lease_owner s = Some v" for s
  proof -
    obtain r where r: "get_run (rq_run q) (vruns w) = Some r" "s = (if vr_lease_owner r = Some v then r\<lparr>vr_lease_expires := Some (now + START_LEASE)\<rparr> else r)"
      using s(1) rn by (auto simp: renew_start_lease_def get_run_update_id)
    then have "vr_lease_owner r = Some v" "same_progress r s" using s(2) by (auto simp: same_progress_def split: if_splits)
    then show ?thesis using vinvD(3) [OF assms r(1)] same_progress_known by blast
  qed
  then show ?thesis using assms t
    by (auto simp: heartbeat_def rn turn_ok_ignore update_conv' intro!: turn_okI split: if_splits)
qed

lemma start_with_lease_ok:
  assumes "vinv w" and r: "get_run (rq_run q) (vruns w) = Some r" "vr_lease_owner r = Some v"
  shows "turn_ok (Some v) w (snd (start_with_lease v q r w))"
proof -
  note i = get_run_id [OF r(1)]
  have st: "staged r" by (rule vinvD(2) [OF assms(1,2)])
  obtain got rows where c: "claim_start (vr_id r) (vruns w) = (got, rows)" by fastforce
  have s: "rows = update_where (\<lambda>x. vr_id x = vr_id r \<and> \<not> vr_start_claimed x) (\<lambda>r. r\<lparr>vr_start_claimed := True\<rparr>) (vruns w)"
    using c by (simp add: claim_start_def)
  have t: "table_ok (Some v) (vruns w) rows" unfolding s
  proof (rule run_table_ok_update)
    show "rowstep (Some v) x (x\<lparr>vr_start_claimed := True\<rparr>)" if x: "get_run j (vruns w) = Some x" "vr_id x = vr_id r \<and> \<not> vr_start_claimed x" for j x
    proof -
      have "x = r" using x r(1) get_run_id [OF x(1)] i by simp
      with r(2) show ?thesis by (intro rowstep_own) (auto simp: evolves_def staged_def)
    qed
  qed simp
  have "get_run (rq_run q) rows = Some (if vr_start_claimed r then r else r\<lparr>vr_start_claimed := True\<rparr>)"
    using r i by (simp add: s run_simps)
  then have "turn_ok (Some v) (w\<lparr>vruns := rows\<rparr>) (wait_in (Starting (vr_scan_claimed r)) v (q\<lparr>rq_row := r\<rparr>) (w\<lparr>vruns := rows\<rparr>))"
    if "vr_report r = None" "vr_ingest r = None"
    using that st by (intro turn_ok_wait) (auto simp: known_def staged_def)
  then have "turn_ok (Some v) w (wait_in (Starting (vr_scan_claimed r)) v (q\<lparr>rq_row := r\<rparr>) (w\<lparr>vruns := rows\<rparr>))"
    if "vr_report r = None" "vr_ingest r = None"
    using that t by (rule_tac turn_ok_after) simp_all
  moreover have "turn_ok (Some v) w (leave v (vr_id r) (w\<lparr>vruns := rows\<rparr>))"
    using t by (intro turn_ok_after [OF _ _ turn_ok_leave]) simp_all
  moreover have "turn_ok (Some v) w (wait_in (Starting (vr_scan_claimed r)) v (q\<lparr>rq_row := r\<rparr>) w)"
    if "vr_report r = None" "vr_ingest r = None" "vr_start_claimed r"
    using that r by (intro turn_ok_wait) (simp add: known_def)
  moreover have "turn_ok (Some v) w (wait_in Ingesting v (q\<lparr>rq_row := r\<rparr>) w)" if "vr_report r \<noteq> None" "vr_ingest r = None"
    using that r by (intro turn_ok_wait) (simp add: known_def)
  ultimately show ?thesis using turn_ok_leave [of v w "vr_id r"]
    by (auto simp: start_with_lease_def Let_def c)
qed


lemma claim_turn_ok:
  assumes "vinv w" "map_of (requests w) v = Some q" "rq_phase q = Claiming"
  shows "turn_ok (Some v) w (snd (claim_turn now v q w))"
proof -
  obtain got rows where c: "try_claim_start_lease now (rq_run q) v (vruns w) = (got, rows)" by fastforce
  define w1 where "w1 = w\<lparr>vruns := rows\<rparr>"
  have t: "table_ok (Some v) (vruns w) rows" using table_ok_claim [of v "vruns w" now "rq_run q"] c by simp
  have "turn_ok (Some v) w w1" using t assms(2,3) by (intro turn_okI) (auto simp: w1_def known_def)
  then have inv: "vinv w1" by (rule turn_ok_inv [OF assms(1)])
  have step: "turn_ok (Some v) w (snd (start_with_lease v q s w1))" if got and s: "get_run (rq_run q) rows = Some s" for s
  proof -
    have rows: "rows = update_where (\<lambda>r. vr_id r = rq_run q \<and> claimable now v r) (hold now v) (vruns w)"
      and "0 < rowcount (\<lambda>r. vr_id r = rq_run q \<and> claimable now v r) (vruns w)"
      using c that(1) by (auto simp: try_claim_start_lease_def)
    then obtain r where r: "get_run (rq_run q) (vruns w) = Some r" "claimable now v r"
      by (rule_tac changed_row [OF vinvD(1) [OF assms(1)]])
    then have "s = hold now v r" using s get_run_update_id [of "hold now v" "rq_run q" "claimable now v" "vruns w"]
      by (simp add: rows hold_def)
    then have "turn_ok (Some v) w1 (snd (start_with_lease v q s w1))"
      using s by (intro start_with_lease_ok [OF inv]) (simp_all add: w1_def hold_def)
    with t show ?thesis by (rule_tac turn_ok_after) (simp_all add: w1_def)
  qed
  have refreshing: "turn_ok (Some v) w ((drop_request v w)\<lparr>others := x\<rparr>)" for x
    by (rule turn_okI) (simp_all add: delete_conv')
  show ?thesis
    using step refreshing turn_ok_drop [of v w] turn_ok_ignore [OF assms(1)]
    by (auto simp: claim_turn_def c w1_def split: option.split)
qed

lemma turn_ok_claiming:
  assumes "table_ok (Some v) (vruns w) rows" "p = Readiness \<or> p = Claiming"
  shows "turn_ok (Some v) w (wait_in p v q (w\<lparr>vruns := rows\<rparr>))"
  using assms by (auto intro!: turn_okI simp: update_conv' known_def split: if_splits)

lemma start_begin_ok:
  assumes "vinv w" shows "turn_ok (Some v) w (snd (start_begin now v d w))"
  using turn_ok_claiming [of v w "vruns w"] turn_ok_ignore [OF assms]
  by (auto simp: start_begin_def Let_def intro!: turn_ok_claiming table_ok_acknowledge split: option.split)

lemma start_ready_ok: "turn_ok (Some v) w (snd (start_ready now st v q w))"
  by (auto simp: start_ready_def intro!: turn_ok_claiming turn_ok_drop table_ok_acknowledge split: option.split)

section \<open>The other requests\<close>

lemma turn_ok_other: "table_ok None (vruns w) (vruns w') \<Longrightarrow> requests w' = requests w \<Longrightarrow> turn_ok None w w'"
  by (rule turn_okI) simp_all

lemma drop_other_simps [simp]: "vruns (drop_other rid w) = vruns w" "requests (drop_other rid w) = requests w"
  by (simp_all add: drop_other_def)

lemma insert_run_ok:
  assumes "staged r" "vr_lease_owner r = None" shows "turn_ok None w (snd (insert_run r w))"
proof -
  have "table_ok None (vruns w) (vruns w @ [r])" if "get_run (vr_id r) (vruns w) = None"
    using that assms get_run_None_iff [of "vr_id r" "vruns w"] unfolding table_ok_def
    by (auto simp: get_run_append split: option.splits if_splits)
  then show ?thesis by (auto simp: insert_run_def intro!: turn_ok_other)
qed

lemma prepare_begin_ok: "turn_ok None w (snd (prepare_begin en rid ds d6 pv w))"
  by (auto simp: prepare_begin_def intro!: turn_ok_other split: option.split)

lemma prepare_finish_ok: "turn_ok None w (snd (prepare_finish now rep rid i key auth listing d d6 pv latest w))"
proof -
  have "turn_ok None w (snd (insert_run (new_run now i key auth d listing d6 pv x) (drop_other rid w)))" for x
    by (rule turn_ok_after [OF _ _ insert_run_ok]) (simp_all add: new_run_def staged_def)
  moreover have "table_ok None rows (save_run j (requote d6 pv x) rows)" for j x rows
    unfolding save_run_def by (rule run_table_ok_update) (auto simp: requote_def same_progress_def intro!: rowstep_same)
  ultimately show ?thesis
    by (auto simp: prepare_finish_def Let_def intro!: turn_ok_other split: option.split)
qed

lemma refresh_begin_ok: "turn_ok None w (snd (refresh_begin en rid d w))"
  by (auto simp: refresh_begin_def intro!: turn_ok_other split: option.split)

lemma refresh_finish_ok: "turn_ok None w (snd (refresh_finish rep rid r w))"
  by (auto simp: refresh_finish_def Let_def table_ok_status intro!: turn_ok_other split: option.split)

lemma command_begin_ok: "turn_ok None w (snd (command_begin en now rid d a w))"
proof -
  have "table_ok None rows (save_run i (\<lambda>x. x\<lparr>vr_withdraw_requested := y\<rparr>) rows)" for i y rows
    unfolding save_run_def by (rule run_table_ok_update) (auto simp: same_progress_def intro!: rowstep_same)
  then show ?thesis by (auto simp: command_begin_def Let_def intro!: turn_ok_other split: option.split)
qed

lemma table_ok_command: "table_ok u rows (save_run i (command_change a date st) rows)"
  unfolding save_run_def
  by (rule run_table_ok_update) (auto simp: command_change_def Let_def same_progress_def intro!: rowstep_same)

lemma command_finish_ok: "turn_ok None w (snd (command_finish rep rid a r w))"
  by (auto simp: command_finish_def Let_def intro!: turn_ok_other table_ok_command split: option.split prod.split)

section \<open>Every step\<close>

lemmas turn_oks = started_ok first_status_ok scan_ended_ok ingested_ok last_status_ok heartbeat_ok claim_turn_ok start_begin_ok start_ready_ok
  prepare_begin_ok prepare_finish_ok refresh_begin_ok refresh_finish_ok command_begin_ok command_finish_ok

lemma vstep_ok:
  assumes "vinv w" obtains u where "turn_ok u w (vstep w e)"
proof -
  note skip = turn_ok_ignore [OF assms]
  have "\<exists>u. turn_ok u w (vstep w e)"
  proof (cases e)
    case ProcessCrash
    have "turn_ok None w (w\<lparr>requests := [], others := []\<rparr>)" by (simp add: turn_ok_def)
    with ProcessCrash show ?thesis by (auto simp: vstep_def vturn_def)
  qed (use assms in \<open>auto simp: vstep_def vturn_def intro: turn_oks skip split: option.split waiting.split phase.split\<close>)
  then show thesis using that by blast
qed


lemma vinv_empty: "vinv empty_world"
  by (simp add: vinv_def empty_world_def get_run_def)

interpretation runs: step_system empty_world vstep vinv
  by unfold_locales (auto simp: vinv_empty elim: vstep_ok intro: turn_ok_inv)

lemma evolves_step:
  assumes "vinv w" "get_run i (vruns w) = Some r"
  shows "\<exists>s. get_run i (vruns (vstep w e)) = Some s \<and> evolves r s"
proof -
  obtain u where "turn_ok u w (vstep w e)" by (rule vstep_ok [OF assms(1)])
  then obtain s where "get_run i (vruns (vstep w e)) = Some s" "rowstep u r s"
    using assms(2) unfolding turn_ok_def table_ok_def by blast
  then show ?thesis unfolding rowstep_def by blast
qed

lemma evolves_run:
  "vinv w \<Longrightarrow> get_run i (vruns w) = Some r \<Longrightarrow> \<exists>s. get_run i (vruns (foldl vstep w es)) = Some s \<and> evolves r s"
proof (induction es arbitrary: w r)
  case (Cons e es)
  obtain s where s: "get_run i (vruns (vstep w e)) = Some s" "evolves r s" using evolves_step [OF Cons.prems] by blast
  obtain t where "get_run i (vruns (foldl vstep (vstep w e) es)) = Some t" "evolves s t"
    using Cons.IH [OF runs.step_inv [OF Cons.prems(1)] s(1)] by blast
  with s(2) show ?case by (auto intro: run_evolves_trans)
qed simp

lemma run_staged: "get_run i (vruns (foldl vstep empty_world es)) = Some r \<Longrightarrow> staged r"
  by (rule vinvD(2) [OF runs.run_inv])

text \<open>A lease that another request has taken: the assertion fails, and nothing is written but the end of the request.\<close>

lemma lost_lease:
  assumes "get_run (rq_run q) (vruns w) = Some r" "vr_lease_owner r \<noteq> Some v" "distinct (map vr_id (vruns w))"
  shows "with_lease now v q k w = (Failed ''verification start lease was lost'', leave v (rq_run q) w)"
proof -
  have "vr_id x = rq_run q \<Longrightarrow> vr_lease_owner x \<noteq> Some v" if "x \<in> set (vruns w)" for x
    using get_run_unique [OF assms(3) that] assms(1,2) by auto
  then have "rowcount (\<lambda>r. vr_id r = rq_run q \<and> vr_lease_owner r = Some v) (vruns w) = 0"
    "update_where (\<lambda>r. vr_id r = rq_run q \<and> vr_lease_owner r = Some v) f (vruns w) = vruns w" for f
    by (auto simp: rowcount_zero_iff intro!: update_where_none)
  then show ?thesis by (simp add: with_lease_def renew_start_lease_def)
qed

lemma leave_lost:
  assumes "get_run (rq_run q) (vruns w) = Some r" "vr_lease_owner r \<noteq> Some v" "distinct (map vr_id (vruns w))"
  shows "vruns (leave v (rq_run q) w) = vruns w"
proof -
  have "vr_id x = rq_run q \<Longrightarrow> vr_lease_owner x \<noteq> Some v" if "x \<in> set (vruns w)" for x
    using get_run_unique [OF assms(3) that] assms(1,2) by auto
  then show ?thesis by (auto simp: release_start_lease_def intro!: update_where_none)
qed

section \<open>Properties\<close>

text \<open>C9: The report of a run is written once. When a run has a report at some point of a run of the service, then whatever
  follows (other start requests, replies that come late, quotes, refreshes, commands and crashes), the run keeps that
  report, the identity the server gave, and the keys its start is sent with, and once the server has received the report
  the reception stays as well.\<close>

theorem report_never_replaced:
  assumes "get_run i (vruns (foldl vstep empty_world es)) = Some r" "vr_report r = Some d"
  shows "\<exists>s. get_run i (vruns (foldl vstep empty_world (es @ fs))) = Some s \<and> vr_report s = Some d \<and>
    vr_verification s = vr_verification r \<and> vr_verification s \<noteq> None \<and> vr_scan_claimed s \<and> vr_key s = vr_key r \<and>
    (vr_ingest r = None \<or> vr_ingest s = vr_ingest r)"
proof -
  obtain s where s: "get_run i (vruns (foldl vstep empty_world (es @ fs))) = Some s" "evolves r s"
    using evolves_run [OF runs.run_inv assms(1), of fs] by auto
  have "staged r" using assms(1) by (rule run_staged)
  then have "vr_scan_claimed r" "vr_verification r \<noteq> None" using assms(2) by (simp_all add: staged_def)
  with s assms(2) show ?thesis by (auto simp: evolves_def keeps_def)
qed

text \<open>Also: A run is filled in order, in every run of the service: the reception of a report is recorded only with the
  report, a report only after the scan was claimed, the scan is claimed only after the server's identity was saved, and
  that only after the start was claimed.\<close>

theorem runs_filled_in_order:
  assumes "get_run i (vruns (foldl vstep empty_world es)) = Some r"
  shows "(vr_ingest r = None \<or> vr_report r \<noteq> None) \<and> (vr_report r = None \<or> vr_scan_claimed r) \<and>
    (\<not> vr_scan_claimed r \<or> vr_verification r \<noteq> None) \<and> (vr_verification r = None \<or> vr_start_claimed r)"
  using run_staged [OF assms] by (auto simp: staged_def)

text \<open>C27: A request whose lease was taken over writes nothing. In every state of the service, when the run of a waiting
  request is leased to another request or to none, then the reply of the server to its start, a status, the end of its
  scan or the reception of its report leaves the table of runs as it is and ends the request.\<close>

theorem lost_lease_writes_nothing:
  assumes "map_of (requests (foldl vstep empty_world es)) v = Some q"
    and "get_run (rq_run q) (vruns (foldl vstep empty_world es)) = Some r" and "vr_lease_owner r \<noteq> Some v"
    and "(e, rq_phase q) \<in> {(ServerStarted now v vid, Starting b), (StatusCame now v st, FirstStatus b), (StatusCame now v st, LastStatus),
      (ScanEnded now v x, Scanning), (ReportReceived now v g, Ingesting)}"
  shows "vruns (foldl vstep empty_world (es @ [e])) = vruns (foldl vstep empty_world es) \<and>
    map_of (requests (foldl vstep empty_world (es @ [e]))) v = None"
proof -
  define w where "w = foldl vstep empty_world es"
  note d = vinvD(1) [OF runs.run_inv, of es, folded w_def]
  note lost = lost_lease [OF assms(2,3)[folded w_def] d] leave_lost [OF assms(2,3)[folded w_def] d]
  have "vruns (vstep w e) = vruns w \<and> map_of (requests (vstep w e)) v = None"
    using assms(4) lost(2) unfolding vstep_def
    by (auto simp: vturn_def assms(1)[folded w_def] started_def first_status_def last_status_def scan_ended_def ingested_def lost(1) delete_conv'
        simp del: vruns_leave(1) split: option.split scan_end.split)
  then show ?thesis by (simp add: w_def)
qed

text \<open>C31: An abandoned lease is taken over. In every state of the service, when a start request waits for the lease of a
  run whose report the server has not received, the lease is free or thirty seconds old (its holder's process may have
  crashed), and the run has a report to deliver or an accepted quote, then with the request's next turn the run is leased
  to it until thirty seconds from now, and the request goes on where the run was left: with the delivery of the
  report when there is one, and otherwise with the start at the server, which is marked as claimed, recovering a scan that
  was claimed before.\<close>

theorem expired_lease_is_taken:
  assumes "map_of (requests (foldl vstep empty_world es)) v = Some q" and "rq_phase q = Claiming"
    and "get_run (rq_run q) (vruns (foldl vstep empty_world es)) = Some r" and "vr_ingest r = None"
    and "vr_lease_owner r = None \<or> vr_lease_expires r = None \<or> (\<exists>t \<in> set_option (vr_lease_expires r). t \<le> now)"
    and "vr_report r \<noteq> None \<or> vr_accepted r \<noteq> None"
  shows "\<exists>s q'. get_run (rq_run q) (vruns (foldl vstep empty_world (es @ [ClaimTurn now v]))) = Some s \<and>
    vr_lease_owner s = Some v \<and> vr_lease_expires s = Some (now + seconds 30) \<and>
    map_of (requests (foldl vstep empty_world (es @ [ClaimTurn now v]))) v = Some q' \<and> rq_run q' = rq_run q \<and>
    rq_phase q' = (if vr_report r \<noteq> None then Ingesting else Starting (vr_scan_claimed r)) \<and>
    (vr_report r \<noteq> None \<or> vr_start_claimed s)"
proof -
  define w where "w = foldl vstep empty_world es"
  note a = assms(1,3)[folded w_def]
  have cl: "claimable now v r" using assms(4,5) by (auto simp: claimable_def split: option.split)
  obtain got rows where c: "try_claim_start_lease now (rq_run q) v (vruns w) = (got, rows)" by fastforce
  have "r \<in> set (vruns w)" "vr_id r = rq_run q" using a(2) by (auto simp: get_run_def find_Some_iff)
  then have got unfolding try_claim_start_lease_def
    using c cl rowcount_zero_iff [of "\<lambda>r. vr_id r = rq_run q \<and> claimable now v r" "vruns w"] by (auto simp: try_claim_start_lease_def)
  have g: "get_run (rq_run q) rows = Some (hold now v r)"
    using c a(2) cl get_run_update_id [of "hold now v" "rq_run q" "claimable now v" "vruns w"]
    by (auto simp: try_claim_start_lease_def hold_def)
  have id: "vr_id (hold now v r) = rq_run q" "vr_ingest (hold now v r) = None"
    using get_run_id [OF g] assms(4) by (simp_all add: hold_def)
  have gid: "get_run (rq_run q) (update_where p f rows) = Some (if p (hold now v r) then f (hold now v r) else hold now v r)"
    if "\<And>x. vr_id (f x) = vr_id x" for p f
    using that g by (simp add: get_run_update)
  have "vstep w (ClaimTurn now v) = snd (start_with_lease v q (hold now v r) (w\<lparr>vruns := rows\<rparr>))"
    using \<open>got\<close> assms(2,4) a c g by (simp add: vstep_def vturn_def claim_turn_def)
  moreover have "0 < rowcount (\<lambda>x. vr_id x = rq_run q \<and> \<not> vr_start_claimed x) rows" if "\<not> vr_start_claimed r"
  proof -
    have "hold now v r \<in> set rows" "vr_id (hold now v r) = rq_run q" using g by (auto simp: get_run_def find_Some_iff)
    moreover have "\<not> vr_start_claimed (hold now v r)" using that by (simp add: hold_def)
    ultimately show ?thesis
      using rowcount_zero_iff [of "\<lambda>x. vr_id x = rq_run q \<and> \<not> vr_start_claimed x" rows] by auto
  qed
  ultimately have "\<exists>s q'. get_run (rq_run q) (vruns (vstep w (ClaimTurn now v))) = Some s \<and>
     vr_lease_owner s = Some v \<and> vr_lease_expires s = Some (now + seconds 30) \<and>
     map_of (requests (vstep w (ClaimTurn now v))) v = Some q' \<and> rq_run q' = rq_run q \<and>
     rq_phase q' = (if vr_report r \<noteq> None then Ingesting else Starting (vr_scan_claimed r)) \<and>
     (vr_report r \<noteq> None \<or> vr_start_claimed s)"
    using id g assms(6) by (auto simp: start_with_lease_def Let_def claim_start_def gid update_conv' hold_def START_LEASE_def)
  then show ?thesis by (simp add: w_def)
qed


text \<open>Also: A command is sent only when the last status allows it: a publication only when the payment is captured, the server
  allows publishing, and the interpretation is either complete or known to be withheld; a decline only when it is
  captured, a withdrawal only after publication, a cancellation only before the capture. The withdrawal's own time is
  saved before the server is asked.\<close>

theorem commands_need_status:
  assumes "fst (vturn w (BeginCommand now rid d action)) = Waiting"
  shows "\<exists>r st. latest_run d (vruns w) = Some r \<and> vr_payment r = Some st \<and>
    (action \<noteq> ''publish'' \<or> py_state st = ''CAPTURED'' \<and> py_publication_allowed st \<and> narrative_ready (vr_ingest r)) \<and>
    (action \<noteq> ''decline'' \<or> py_state st = ''CAPTURED'') \<and> (action \<noteq> ''cancel'' \<or> py_state st \<in> set CANCEL_STATES) \<and>
    (action \<noteq> ''withdraw'' \<or> py_state st = ''PUBLISHED'' \<and>
      (\<exists>s. map_of (others (vstep w (BeginCommand now rid d action))) rid = Some (Commanding action s) \<and> vr_withdraw_requested s \<noteq> None))"
proof -
  have c: "vturn w (BeginCommand now rid d action) = command_begin True now rid d action w" by (simp add: vturn_def)
  obtain r st where r: "latest_run d (vruns w) = Some r" "vr_verification r \<noteq> None" "vr_payment r = Some st"
      "command_refused action st (vr_ingest r) = None"
    using assms unfolding c command_begin_def by (simp split: option.splits)
  show ?thesis
  proof (intro exI conjI)
    show "latest_run d (vruns w) = Some r" "vr_payment r = Some st" by (rule r)+
    show "action \<noteq> ''publish'' \<or> py_state st = ''CAPTURED'' \<and> py_publication_allowed st \<and> narrative_ready (vr_ingest r)"
      "action \<noteq> ''decline'' \<or> py_state st = ''CAPTURED''" "action \<noteq> ''cancel'' \<or> py_state st \<in> set CANCEL_STATES"
      using r(4) by (simp_all add: command_refused_def split: if_splits)
    have "py_state st = ''PUBLISHED''" if "action = ''withdraw''" using that r(4) by (simp add: command_refused_def split: if_splits)
    moreover have "\<exists>s. map_of (others (vstep w (BeginCommand now rid d action))) rid = Some (Commanding action s) \<and> vr_withdraw_requested s \<noteq> None"
      if "action = ''withdraw''"
      unfolding vstep_def c using that r by (cases "vr_withdraw_requested r") (auto simp: command_begin_def Let_def update_conv')
    ultimately show "action \<noteq> ''withdraw'' \<or> py_state st = ''PUBLISHED'' \<and>
      (\<exists>s. map_of (others (vstep w (BeginCommand now rid d action))) rid = Some (Commanding action s) \<and> vr_withdraw_requested s \<noteq> None)"
      by blast
  qed
qed

text \<open>Also: A quote that comes late replaces the quote of a run that has been started meanwhile. When a quote was asked for
  while the newest run was still only quoted, then, whatever the run has become since, its arrival sets the run's quote to
  the new one and takes the acceptance and both acknowledgements back, while the server's identity, both claims, the
  lease and the keys of the start stay; the next start request then asks the server for the same start with another quote.\<close>

theorem late_quote_replaces_started_quote:
  assumes "map_of (others w) rid = Some (Quoting d d6 pv (Some r0))" and "vr_state r0 = ''QUOTED''"
    and "get_run (vr_id r0) (vruns w) = Some r"
  shows "\<exists>s. get_run (vr_id r0) (vruns (vstep w (QuoteCame now rid (Some q) i key auth listing))) = Some s \<and>
    vr_quote s = Some q \<and> vr_accepted s = None \<and> \<not> vr_terms_ack s \<and> \<not> vr_corpus_ack s \<and>
    vr_verification s = vr_verification r \<and> vr_start_claimed s = vr_start_claimed r \<and> vr_scan_claimed s = vr_scan_claimed r \<and>
    vr_lease_owner s = vr_lease_owner r \<and> vr_key s = vr_key r \<and> vr_authorization s = vr_authorization r"
  using assms by (simp add: vstep_def vturn_def prepare_finish_def Let_def get_run_save requote_def drop_other_def)

text \<open>A run that says what the marketplace shows.\<close>

definition decided :: "vrun \<Rightarrow> bool" where
  "decided r \<longleftrightarrow> vr_state r = ''WITHDRAWN'' \<or> vr_state r = ''PUBLISHED'' \<and> vr_report r \<noteq> None"

lemma find_Cons_decided: "find decided (x # rs) = (if decided x then Some x else find decided rs)"
  by simp

lemma publication_among_find:
  "publication_among now rs = (case find decided rs of
     None \<Rightarrow> None
   | Some r \<Rightarrow>
       if vr_state r = ''PUBLISHED'' then Some \<lparr>pb_state = ''PUBLISHED'', pb_verification = vr_verification r, pb_withdrawn = None, pb_report = vr_report r\<rparr>
       else (case vr_withdrawn r of
               Some t \<Rightarrow> if now - t \<le> seconds (30 * 86400)
                 then Some \<lparr>pb_state = ''WITHDRAWN'', pb_verification = vr_verification r, pb_withdrawn = Some t, pb_report = None\<rparr> else None
             | None \<Rightarrow> None))"
  by (induction rs) (auto simp: decided_def split: option.split)

text \<open>Also: What the marketplace sees of a dataset's verifications is what the newest decided run says. Among the runs of the
  dataset, newest first, the first that is withdrawn, or published with a report, decides: a published one shows its
  report, a withdrawal shows for thirty days that it happened and then nothing, even when an older run is still
  published; runs that are neither leave an older publication visible.\<close>

theorem publication_of_newest_decision:
  "active_publication now d rows = (case find decided (runs_of d rows) of
     None \<Rightarrow> None
   | Some r \<Rightarrow>
       if vr_state r = ''PUBLISHED'' then Some \<lparr>pb_state = ''PUBLISHED'', pb_verification = vr_verification r, pb_withdrawn = None, pb_report = vr_report r\<rparr>
       else (case vr_withdrawn r of
               Some t \<Rightarrow> if now - t \<le> seconds (30 * 86400)
                 then Some \<lparr>pb_state = ''WITHDRAWN'', pb_verification = vr_verification r, pb_withdrawn = Some t, pb_report = None\<rparr> else None
             | None \<Rightarrow> None))"
  unfolding active_publication_def by (rule publication_among_find)

section \<open>Concrete runs\<close>

definition ds1 :: seller_dataset where
  "ds1 = \<lparr>sd_id = ''d'', sd_status = ''preview_ready'', sd_filename = ''a.csv'', sd_listing = Some ''l''\<rparr>"

definition qt1 :: quote_info where "qt1 = \<lparr>qt_id = ''q1'', qt_authorization = 500\<rparr>"
definition doc1 :: report_doc where "doc1 = \<lparr>doc_text = ''report'', doc_completed = 40\<rparr>"

definition status_of :: "string \<Rightarrow> payment_status" where
  "status_of s = \<lparr>py_state = s, py_result_available = True, py_publication_allowed = True, py_captured = Some 500, py_withdrawn = None\<rparr>"

definition ingest1 :: ingest_reply where
  "ingest1 = \<lparr>in_narrative_state = Some ''grounded'', in_narrative = Some ''text'', in_comparison = Some ''text''\<rparr>"

definition upto_scan :: "vevent list" where
  "upto_scan = [BeginQuote ''r'' (Some ds1) ''{}'' True, QuoteCame 1 ''r'' (Some qt1) ''run'' ''k'' ''a'' ''l'', BeginStart 2 ''o'' ''d'',
     Ready 3 ''o'' (Some ''ready''), ClaimTurn 4 ''o'', ServerStarted 5 ''o'' (Some ''v''), StatusCame 6 ''o'' (Some (status_of ''AUTHORIZED''))]"

definition upto_report :: "vevent list" where
  "upto_report = upto_scan @ [ScanEnded 7 ''o'' (ReportMade doc1 None)]"

text \<open>Another start request takes the lease over after forty seconds, before the scan of the first one ends.\<close>

definition taken_over :: "vevent list" where
  "taken_over = upto_scan @ [BeginStart 39 ''p'' ''d'', ClaimTurn 40000000 ''p'']"

definition run1 :: vrun where "run1 = the (get_run ''run'' (vruns (foldl vstep empty_world upto_report)))"
definition run2 :: vrun where "run2 = the (get_run ''run'' (vruns (foldl vstep empty_world taken_over)))"

lemma run1_value: "get_run ''run'' (vruns (foldl vstep empty_world upto_report)) = Some run1" "vr_report run1 = Some doc1" "vr_verification run1 = Some ''v''"
  by (code_simp, code_simp, code_simp)


lemma run2_value: "get_run ''run'' (vruns (foldl vstep empty_world taken_over)) = Some run2" "vr_lease_owner run2 = Some ''p''"
  by (code_simp, code_simp)

theorem report_never_replaced_witness:
  "\<exists>s. get_run ''run'' (vruns (foldl vstep empty_world (upto_report @ [ReportReceived 8 ''o'' (Some ingest1), ProcessCrash]))) = Some s \<and>
    vr_report s = Some doc1 \<and> vr_verification s = Some ''v''"
  using report_never_replaced [OF run1_value(1,2), of "[ReportReceived 8 ''o'' (Some ingest1), ProcessCrash]"] run1_value(3) by auto

theorem runs_filled_in_order_witness: "vr_report run1 = Some doc1 \<and> vr_scan_claimed run1"
  using runs_filled_in_order [OF run1_value(1)] run1_value(2) by simp

definition first_request :: start_request where
  "first_request = the (map_of (requests (foldl vstep empty_world taken_over)) ''o'')"

lemma first_request_value: "map_of (requests (foldl vstep empty_world taken_over)) ''o'' = Some first_request"
    "rq_phase first_request = Scanning" "rq_run first_request = ''run''"
  by (code_simp, code_simp, code_simp)

theorem lost_lease_writes_nothing_witness:
  "vruns (foldl vstep empty_world (taken_over @ [ScanEnded 41000000 ''o'' (ReportMade doc1 None)])) = vruns (foldl vstep empty_world taken_over) \<and>
   vr_lease_owner run2 = Some ''p''"
proof -
  have "vruns (foldl vstep empty_world (taken_over @ [ScanEnded 41000000 ''o'' (ReportMade doc1 None)])) = vruns (foldl vstep empty_world taken_over)"
    by (rule conjunct1 [OF lost_lease_writes_nothing [where v="''o''" and q=first_request and r=run2 and now=41000000 and x="ReportMade doc1 None"]])
      (simp_all only: first_request_value run2_value; simp)+
  then show ?thesis by (simp only: run2_value simp_thms)
qed


text \<open>The process crashes during the scan; the request that comes back waits for the lease.\<close>

definition crashed :: "vevent list" where
  "crashed = upto_scan @ [ProcessCrash, BeginStart 39 ''p'' ''d'']"

definition run3 :: vrun where "run3 = the (get_run ''run'' (vruns (foldl vstep empty_world crashed)))"
definition second_request :: start_request where
  "second_request = the (map_of (requests (foldl vstep empty_world crashed)) ''p'')"

lemma crashed_value: "map_of (requests (foldl vstep empty_world crashed)) ''p'' = Some second_request" "rq_phase second_request = Claiming"
    "rq_run second_request = ''run''" "get_run ''run'' (vruns (foldl vstep empty_world crashed)) = Some run3" "vr_ingest run3 = None"
    "vr_lease_expires run3 = Some 30000006" "vr_lease_owner run3 = Some ''o''" "vr_report run3 = None" "vr_accepted run3 \<noteq> None"
    "vr_scan_claimed run3"
  by (code_simp, code_simp, code_simp, code_simp, code_simp, code_simp, code_simp, code_simp, code_simp, code_simp)

theorem expired_lease_is_taken_witness:
  "vr_lease_owner run3 = Some ''o'' \<and>
   (\<exists>s q'. get_run ''run'' (vruns (foldl vstep empty_world (crashed @ [ClaimTurn 40000000 ''p'']))) = Some s \<and>
     vr_lease_owner s = Some ''p'' \<and> vr_lease_expires s = Some (40000000 + seconds 30) \<and>
     map_of (requests (foldl vstep empty_world (crashed @ [ClaimTurn 40000000 ''p'']))) ''p'' = Some q' \<and> rq_phase q' = Starting True)"
proof -
  have t: "vr_lease_owner run3 = None \<or> vr_lease_expires run3 = None \<or> (\<exists>t \<in> set_option (vr_lease_expires run3). t \<le> 40000000)"
    by (simp add: crashed_value(6))
  have a: "vr_report run3 \<noteq> None \<or> vr_accepted run3 \<noteq> None" by (simp add: crashed_value(9))
  show ?thesis
    using expired_lease_is_taken [OF crashed_value(1,2), of run3 40000000, unfolded crashed_value(3), OF crashed_value(4,5) t a]
      crashed_value(7,8,10) by auto
qed

definition captured_world :: vworld where
  "captured_world = foldl vstep empty_world
     (upto_report @ [ReportReceived 8 ''o'' (Some ingest1), StatusCame 9 ''o'' (Some (status_of ''CAPTURED''))])"

lemma captured_value: "fst (vturn captured_world (BeginCommand 10 ''c'' ''d'' ''publish'')) = Waiting"
  by code_simp

theorem commands_need_status_witness:
  "\<exists>r st. latest_run ''d'' (vruns captured_world) = Some r \<and> vr_payment r = Some st \<and> py_state st = ''CAPTURED'' \<and> narrative_ready (vr_ingest r)"
  using commands_need_status [OF captured_value] by auto

definition ds_late :: "vevent list" where
  "ds_late = [BeginQuote ''r'' (Some ds1) ''{}'' True, QuoteCame 1 ''r'' (Some qt1) ''run'' ''k'' ''a'' ''l'', BeginQuote ''s'' (Some ds1) ''{1}'' True,
     BeginStart 2 ''o'' ''d'', Ready 3 ''o'' (Some ''ready''), ClaimTurn 4 ''o'', ServerStarted 5 ''o'' (Some ''v'')]"

definition late_world :: vworld where "late_world = foldl vstep empty_world ds_late"
definition run4 :: vrun where "run4 = the (get_run ''run'' (vruns late_world))"
definition quoted_run :: vrun where "quoted_run = new_run 1 ''run'' ''k'' ''a'' ''d'' ''l'' ''{}'' True qt1"

lemma late_value: "map_of (others late_world) ''s'' = Some (Quoting ''d'' ''{1}'' True (Some quoted_run))" "vr_state quoted_run = ''QUOTED''"
    "vr_id quoted_run = ''run''" "get_run ''run'' (vruns late_world) = Some run4" "vr_verification run4 = Some ''v''" "vr_accepted run4 = Some 3"
  by (code_simp, code_simp, code_simp, code_simp, code_simp, code_simp)

definition qt2 :: quote_info where "qt2 = \<lparr>qt_id = ''q2'', qt_authorization = 900\<rparr>"

theorem late_quote_replaces_started_quote_witness:
  "vr_accepted run4 = Some 3 \<and>
   (\<exists>s. get_run ''run'' (vruns (vstep late_world (QuoteCame 6 ''s'' (Some qt2) ''run5'' ''k2'' ''a2'' ''l''))) = Some s \<and>
     vr_quote s = Some qt2 \<and> vr_accepted s = None \<and> vr_verification s = Some ''v'' \<and> vr_key s = vr_key run4)"
  using late_quote_replaces_started_quote [OF late_value(1,2), of run4 6 qt2 "''run5''" "''k2''" "''a2''" "''l''"] late_value(3-6) by auto

text \<open>The rules of a new quote: only a quoted run takes another, only a run that has ended leaves room for a new one.\<close>

lemma unfinished_run_keeps_its_place:
  assumes "latest_run (sd_id ds) (vruns w) = Some r" "vr_state r \<notin> set TERMINAL_STATES" "vr_state r \<noteq> ''QUOTED''"
  shows "snd (prepare_begin en rid (Some ds) d6 pv w) = w"
  using assms by (auto simp: prepare_begin_def split: option.split)

lemma unavailable_result_is_hidden: "\<not> may_reveal r \<Longrightarrow> vw_findings (view_of en now ds (Some r) ps rows) = None \<and> vw_d8 (view_of en now ds (Some r) ps rows) = None"
  by (simp add: view_of_def)

end
