(* ===== verification/Request_Sync.thy ===== *)
theory Request_Sync
  imports Prelude
begin

text \<open>
  The requests of buyers that are copied from the request board:
  \<open>app/services/request_sync_service.py\<close> with the table of \<open>app/models/cached_requests.py\<close>. The board is a
  parameter: a function from a cursor to its reply. Dates of the board are taken as parsed, identifiers of rows come from
  a parameter. A database is either SQLite, which takes texts of any length, or PostgreSQL, which refuses those beyond
  the declared one; the flag \<open>strict\<close> says that it is the latter. Fields that are given are texts.
\<close>

section \<open>The board's replies and the table\<close>

text \<open>A field of an item may be missing, null or given.\<close>

datatype 'a field = Missing | Null | Given 'a

record board_item =
  bi_id :: "string field"
  bi_title :: "string field"
  bi_description :: "string field"
  bi_categories :: json
  bi_urgency :: "string field"
  bi_status :: "string field"
  bi_published :: "time option"
  bi_expires :: "time option"

record board_page =
  bp_items :: "board_item list"
  bp_next :: "string option"

record cached_request =
  cr_id :: string
  cr_marketplace_id :: string
  cr_title :: string
  cr_description :: string
  cr_categories :: "json list"
  cr_urgency :: "string option"
  cr_status :: string
  cr_published :: "time option"
  cr_expires :: "time option"
  cr_updated :: time
  cr_synced :: time
  cr_match_run :: "time option"

record request_store =
  cached :: "cached_request list"
  sync_state :: "(string option \<times> time) option"

section \<open>Polling\<close>

definition MAX_PAGES :: nat where "MAX_PAGES = 10"

text \<open>Up to \<open>n\<close> further pages; \<open>None\<close> is an error of the request. The result is the items and the last cursor that was not
  empty.\<close>

fun poll_pages :: "nat \<Rightarrow> (string option \<Rightarrow> board_page option) \<Rightarrow> string option \<Rightarrow> string option \<Rightarrow> (board_item list \<times> string option) option" where
  "poll_pages 0 board cursor last_good = Some ([], last_good)"
| "poll_pages (Suc n) board cursor last_good =
     (case board (if truthy cursor then cursor else None) of
        None \<Rightarrow> None
      | Some page \<Rightarrow>
          if truthy (bp_next page) then
            if bp_items page = [] then Some ([], bp_next page)
            else map_option (apfst (append (bp_items page))) (poll_pages n board (bp_next page) (bp_next page))
          else Some (bp_items page, last_good))"

definition poll_requests :: "(string option \<Rightarrow> board_page option) \<Rightarrow> string option \<Rightarrow> (board_item list \<times> string option) option" where
  "poll_requests board cursor = poll_pages MAX_PAGES board cursor cursor"

section \<open>Saving\<close>

definition field_get :: "'a field \<Rightarrow> 'a \<Rightarrow> 'a option" where
  "field_get f v = (case f of Missing \<Rightarrow> Some v | Null \<Rightarrow> None | Given x \<Rightarrow> Some x)"

definition field_option :: "'a field \<Rightarrow> 'a option" where
  "field_option f = (case f of Given x \<Rightarrow> Some x | _ \<Rightarrow> None)"

definition categories_of :: "json \<Rightarrow> json list" where
  "categories_of j = (case j of JList xs \<Rightarrow> xs | _ \<Rightarrow> [])"

text \<open>The columns: none of title, description and status takes a null. On an insert, the columns that are declared with a
  default take it for a null; an update writes what it is given.\<close>

definition updated_request :: "time \<Rightarrow> board_item \<Rightarrow> cached_request \<Rightarrow> cached_request option" where
  "updated_request now x r =
     (case (field_get (bi_title x) (cr_title r), field_get (bi_description x) (cr_description r), field_get (bi_status x) (cr_status r)) of
        (Some t, Some d, Some s) \<Rightarrow>
          Some (r\<lparr>cr_title := t, cr_description := d, cr_categories := categories_of (bi_categories x), cr_urgency := field_option (bi_urgency x),
            cr_status := s, cr_published := bi_published x, cr_expires := bi_expires x, cr_updated := now, cr_synced := now\<rparr>)
      | _ \<Rightarrow> None)"

definition column_default :: "'a \<Rightarrow> 'a option \<Rightarrow> 'a" where
  "column_default v c = (case c of None \<Rightarrow> v | Some x \<Rightarrow> x)"

definition new_request :: "string \<Rightarrow> time \<Rightarrow> string \<Rightarrow> board_item \<Rightarrow> cached_request option" where
  "new_request i now mp x =
     (case field_get (bi_title x) [] of
        Some t \<Rightarrow>
          Some \<lparr>cr_id = i, cr_marketplace_id = mp, cr_title = t,
            cr_description = column_default [] (field_get (bi_description x) []), cr_categories = categories_of (bi_categories x),
            cr_urgency = field_option (bi_urgency x), cr_status = column_default ''open'' (field_get (bi_status x) ''open''),
            cr_published = bi_published x, cr_expires = bi_expires x,
            cr_updated = now, cr_synced = now, cr_match_run = None\<rparr>
      | None \<Rightarrow> None)"

definition fits :: "cached_request \<Rightarrow> bool" where
  "fits r \<longleftrightarrow> length (cr_marketplace_id r) \<le> 36 \<and> length (cr_title r) \<le> 512 \<and> length (cr_status r) \<le> 32 \<and>
     (case cr_urgency r of None \<Rightarrow> True | Some u \<Rightarrow> length u \<le> 32)"

definition stored :: "bool \<Rightarrow> cached_request option \<Rightarrow> cached_request option" where
  "stored strict c = (case c of Some r \<Rightarrow> if strict \<and> \<not> fits r then None else Some r | None \<Rightarrow> None)"

definition find_request :: "string \<Rightarrow> cached_request list \<Rightarrow> cached_request option" where
  "find_request mp rows = find (\<lambda>r. cr_marketplace_id r = mp) rows"

text \<open>One item; a null in a column that takes none, or a text that is too long, makes the database refuse it, and \<open>None\<close>
  is that error. The flag of the result says whether the row is new.\<close>

definition upsert_item :: "bool \<Rightarrow> (nat \<Rightarrow> string) \<Rightarrow> time \<Rightarrow> board_item \<Rightarrow> cached_request list \<Rightarrow> (bool \<times> cached_request list) option" where
  "upsert_item strict fresh now x rows =
     (case field_get (bi_id x) [] of
        None \<Rightarrow> None
      | Some mp \<Rightarrow>
          (case find_request mp rows of
             Some r \<Rightarrow> map_option (\<lambda>r'. (False, map (\<lambda>y. if cr_marketplace_id y = mp then r' else y) rows)) (stored strict (updated_request now x r))
           | None \<Rightarrow> map_option (\<lambda>r'. (True, rows @ [r'])) (stored strict (new_request (fresh (length rows)) now mp x))))"

text \<open>All items in one transaction, with the numbers of new and updated rows.\<close>

fun upsert_cached_requests ::
  "bool \<Rightarrow> (nat \<Rightarrow> string) \<Rightarrow> time \<Rightarrow> board_item list \<Rightarrow> cached_request list \<Rightarrow> (nat \<times> nat \<times> cached_request list) option" where
  "upsert_cached_requests strict fresh now [] rows = Some (0, 0, rows)"
| "upsert_cached_requests strict fresh now (x # xs) rows =
     (case upsert_item strict fresh now x rows of
        None \<Rightarrow> None
      | Some (new, rows') \<Rightarrow>
          map_option (\<lambda>(a, b, rs). (if new then (Suc a, b, rs) else (a, Suc b, rs))) (upsert_cached_requests strict fresh now xs rows'))"

definition get_sync_cursor :: "request_store \<Rightarrow> string option" where
  "get_sync_cursor st = (case sync_state st of None \<Rightarrow> None | Some (c, _) \<Rightarrow> c)"

definition save_sync_cursor :: "time \<Rightarrow> string option \<Rightarrow> request_store \<Rightarrow> request_store" where
  "save_sync_cursor now c st = st\<lparr>sync_state := Some (c, now)\<rparr>"

record sync_summary =
  ss_synced :: nat
  ss_new :: nat
  ss_updated :: nat
  ss_cursor :: "string option"

text \<open>What the database may do to a sync: take both commits, fail that of the rows, or fail that of the cursor after it.\<close>

datatype commits = Kept | RowsFail | CursorFails

text \<open>\<open>None\<close> is an error, answered with 502.\<close>

definition full_sync ::
  "bool \<Rightarrow> commits \<Rightarrow> (string option \<Rightarrow> board_page option) \<Rightarrow> (nat \<Rightarrow> string) \<Rightarrow> time \<Rightarrow> request_store
     \<Rightarrow> sync_summary option \<times> request_store" where
  "full_sync strict db board fresh now st =
     (case poll_requests board (get_sync_cursor st) of
        None \<Rightarrow> (None, st)
      | Some (items, cursor) \<Rightarrow>
          (case (if db = RowsFail then None else upsert_cached_requests strict fresh now items (cached st)) of
             None \<Rightarrow> (None, st)
           | Some (new, upd, rows) \<Rightarrow>
               if db = CursorFails then (None, st\<lparr>cached := rows\<rparr>)
               else (Some \<lparr>ss_synced = length items, ss_new = new, ss_updated = upd, ss_cursor = cursor\<rparr>,
                 save_sync_cursor now cursor (st\<lparr>cached := rows\<rparr>))))"

definition trigger_sync ::
  "bool \<Rightarrow> commits \<Rightarrow> (string option \<Rightarrow> board_page option) \<Rightarrow> (nat \<Rightarrow> string) \<Rightarrow> time \<Rightarrow> request_store
     \<Rightarrow> (int + sync_summary) \<times> request_store" where
  "trigger_sync strict db board fresh now st =
     (case full_sync strict db board fresh now st of (None, s) \<Rightarrow> (Inl 502, s) | (Some r, s) \<Rightarrow> (Inr r, s))"

section \<open>What an upsert does\<close>

lemma find_request_map:
  "cr_marketplace_id r' = mp \<Longrightarrow> find_request k (map (\<lambda>y. if cr_marketplace_id y = mp then r' else y) rows) =
     (if k = mp then (if find_request mp rows = None then None else Some r') else find_request k rows)"
  by (induction rows) (auto simp: find_request_def)

lemma find_request_append: "find_request k (rows @ [r]) =
    (case find_request k rows of Some x \<Rightarrow> Some x | None \<Rightarrow> if cr_marketplace_id r = k then Some r else None)"
  by (induction rows) (auto simp: find_request_def)

lemma find_request_None: "find_request k rows = None \<longleftrightarrow> k \<notin> cr_marketplace_id ` set rows"
  by (induction rows) (auto simp: find_request_def)

lemma find_request_id: "find_request k rows = Some r \<Longrightarrow> cr_marketplace_id r = k"
  by (auto simp: find_request_def find_Some_iff)

lemma updated_request_id: "updated_request now x r = Some r' \<Longrightarrow> cr_marketplace_id r' = cr_marketplace_id r \<and> cr_id r' = cr_id r"
  by (auto simp: updated_request_def split: option.splits)

lemma stored_Some: "stored strict c = Some r \<longleftrightarrow> c = Some r \<and> (strict \<longrightarrow> fits r)"
  by (auto simp: stored_def split: option.splits)

lemma new_request_id: "new_request i now mp x = Some r' \<Longrightarrow> cr_marketplace_id r' = mp"
  by (auto simp: new_request_def split: option.splits)

lemma ids_kept: "cr_marketplace_id r' = mp \<Longrightarrow>
    map cr_marketplace_id (map (\<lambda>y. if cr_marketplace_id y = mp then r' else y) rows) = map cr_marketplace_id rows"
  by (induction rows) auto

definition item_id :: "board_item \<Rightarrow> string" where
  "item_id x = (case bi_id x of Given s \<Rightarrow> s | _ \<Rightarrow> [])"

lemma upsert_item_cases:
  assumes "upsert_item strict fresh now x rows = Some (new, rows')"
  shows "distinct (map cr_marketplace_id rows) \<Longrightarrow> distinct (map cr_marketplace_id rows')"
    and "cr_marketplace_id ` set rows' = insert (item_id x) (cr_marketplace_id ` set rows)"
    and "length rows' = length rows + (if new then 1 else 0)"
    and "\<exists>r. find_request (item_id x) rows' = Some r \<and> cr_categories r = categories_of (bi_categories x) \<and>
      (\<forall>t. bi_title x = Given t \<longrightarrow> cr_title r = t) \<and> (\<forall>s. bi_status x = Given s \<longrightarrow> cr_status r = s) \<and> cr_synced r = now \<and> bi_title x \<noteq> Null"
    and "k \<noteq> item_id x \<Longrightarrow> find_request k rows' = find_request k rows"
proof -
  obtain mp where mp: "field_get (bi_id x) [] = Some mp" using assms by (auto simp: upsert_item_def split: option.splits)
  then have id: "item_id x = mp" by (auto simp: field_get_def item_id_def split: field.splits)
  have "(distinct (map cr_marketplace_id rows) \<longrightarrow> distinct (map cr_marketplace_id rows')) \<and>
    cr_marketplace_id ` set rows' = insert mp (cr_marketplace_id ` set rows) \<and>
    length rows' = length rows + (if new then 1 else 0) \<and>
    (\<exists>r. find_request mp rows' = Some r \<and> cr_categories r = categories_of (bi_categories x) \<and>
      (\<forall>t. bi_title x = Given t \<longrightarrow> cr_title r = t) \<and> (\<forall>s. bi_status x = Given s \<longrightarrow> cr_status r = s) \<and> cr_synced r = now \<and> bi_title x \<noteq> Null) \<and>
    (k \<noteq> mp \<longrightarrow> find_request k rows' = find_request k rows)"
  proof (cases "find_request mp rows")
    case None
    then obtain r' where r': "new_request (fresh (length rows)) now mp x = Some r'" "new" "rows' = rows @ [r']"
      using assms mp by (auto simp: upsert_item_def stored_Some)
    note new_request_id [OF r'(1)]
    then show ?thesis using None r' find_request_None [of mp rows]
      by (auto simp: find_request_append new_request_def field_get_def column_default_def split: option.splits field.splits)
  next
    case (Some r)
    then obtain r' where r': "updated_request now x r = Some r'" "\<not> new" "rows' = map (\<lambda>y. if cr_marketplace_id y = mp then r' else y) rows"
      using assms mp by (auto simp: upsert_item_def stored_Some)
    have i: "cr_marketplace_id r' = mp" using updated_request_id [OF r'(1)] find_request_id [OF Some] by simp
    have m: "map cr_marketplace_id rows' = map cr_marketplace_id rows" unfolding r'(3) by (rule ids_kept [OF i])
    then have "cr_marketplace_id ` set rows' = cr_marketplace_id ` set rows" by (metis list.set_map)
    moreover have "mp \<in> cr_marketplace_id ` set rows" using Some find_request_None [of mp rows] by simp
    moreover have "find_request mp rows' = Some r'" using Some by (simp add: r'(3) find_request_map [OF i])
    moreover have "cr_categories r' = categories_of (bi_categories x) \<and> (\<forall>t. bi_title x = Given t \<longrightarrow> cr_title r' = t) \<and>
        (\<forall>s. bi_status x = Given s \<longrightarrow> cr_status r' = s) \<and> cr_synced r' = now \<and> bi_title x \<noteq> Null"
      using r'(1) by (auto simp: updated_request_def field_get_def split: option.splits field.splits)
    ultimately show ?thesis using m r'(2,3) by (auto simp: find_request_map [OF i] simp del: map_map)
  qed
  then show "distinct (map cr_marketplace_id rows) \<Longrightarrow> distinct (map cr_marketplace_id rows')"
    and "cr_marketplace_id ` set rows' = insert (item_id x) (cr_marketplace_id ` set rows)"
    and "length rows' = length rows + (if new then 1 else 0)"
    and "\<exists>r. find_request (item_id x) rows' = Some r \<and> cr_categories r = categories_of (bi_categories x) \<and>
      (\<forall>t. bi_title x = Given t \<longrightarrow> cr_title r = t) \<and> (\<forall>s. bi_status x = Given s \<longrightarrow> cr_status r = s) \<and> cr_synced r = now \<and> bi_title x \<noteq> Null"
    and "k \<noteq> item_id x \<Longrightarrow> find_request k rows' = find_request k rows"
    unfolding id by blast+
qed


text \<open>A batch, as a change of the lookup.\<close>

lemma upsert_batch:
  "upsert_cached_requests strict fresh now xs rows = Some (a, b, rows') \<Longrightarrow>
   (distinct (map cr_marketplace_id rows) \<longrightarrow> distinct (map cr_marketplace_id rows')) \<and>
   cr_marketplace_id ` set rows' = item_id ` set xs \<union> cr_marketplace_id ` set rows \<and>
   a + b = length xs \<and> length rows' = length rows + a"
proof (induction xs arbitrary: rows a b)
  case (Cons x xs)
  obtain new rows1 where u: "upsert_item strict fresh now x rows = Some (new, rows1)" using Cons.prems by (auto split: option.splits)
  obtain a' b' where c: "upsert_cached_requests strict fresh now xs rows1 = Some (a', b', rows')" "(a, b) = (if new then (Suc a', b') else (a', Suc b'))"
    using Cons.prems u by (auto split: if_splits)
  show ?case using Cons.IH [OF c(1)] c(2) upsert_item_cases(1-3) [OF u] by (auto split: if_splits)
qed simp

lemma upsert_batch_frame:
  "upsert_cached_requests strict fresh now xs rows = Some (a, b, rows') \<Longrightarrow> k \<notin> item_id ` set xs \<Longrightarrow> find_request k rows' = find_request k rows"
proof (induction xs arbitrary: rows a b)
  case (Cons x xs)
  obtain new rows1 where u: "upsert_item strict fresh now x rows = Some (new, rows1)" using Cons.prems(1) by (auto split: option.splits)
  obtain a' b' where c: "upsert_cached_requests strict fresh now xs rows1 = Some (a', b', rows')"
    using Cons.prems(1) u by (auto split: if_splits)
  show ?case using Cons.IH [OF c] upsert_item_cases(5) [OF u, of k] Cons.prems(2) by auto
qed simp

lemma upsert_append:
  "upsert_cached_requests strict fresh now (xs @ ys) rows =
   (case upsert_cached_requests strict fresh now xs rows of
      None \<Rightarrow> None
    | Some (a, b, rows1) \<Rightarrow> map_option (\<lambda>(c, d, rs). (a + c, b + d, rs)) (upsert_cached_requests strict fresh now ys rows1))"
  by (induction xs arbitrary: rows) (auto simp: map_option_case split: option.split)

text \<open>What the database refuses of an item, where its request is in the table already or not.\<close>

definition too_long :: "nat \<Rightarrow> string field \<Rightarrow> bool" where
  "too_long n f = (case f of Given s \<Rightarrow> n < length s | _ \<Rightarrow> False)"

definition refused :: "bool \<Rightarrow> bool \<Rightarrow> board_item \<Rightarrow> bool" where
  "refused strict known x \<longleftrightarrow> bi_id x = Null \<or> bi_title x = Null \<or> (known \<and> (bi_description x = Null \<or> bi_status x = Null)) \<or>
     (strict \<and> (too_long 36 (bi_id x) \<or> too_long 512 (bi_title x) \<or> too_long 32 (bi_status x) \<or> too_long 32 (bi_urgency x)))"

definition acceptable :: "bool \<Rightarrow> board_item \<Rightarrow> bool" where
  "acceptable strict x \<longleftrightarrow> \<not> refused strict True x"

definition texts_long :: "board_item \<Rightarrow> bool" where
  "texts_long x \<longleftrightarrow> too_long 512 (bi_title x) \<or> too_long 32 (bi_status x) \<or> too_long 32 (bi_urgency x)"

lemma refused_texts:
  "refused strict known x \<longleftrightarrow> bi_id x = Null \<or> bi_title x = Null \<or> (known \<and> (bi_description x = Null \<or> bi_status x = Null)) \<or>
     (strict \<and> (36 < length (item_id x) \<or> texts_long x))"
  by (cases "bi_id x") (auto simp: refused_def texts_long_def too_long_def item_id_def)

lemma new_stored:
  "stored strict (new_request i now mp x) = None \<longleftrightarrow> bi_title x = Null \<or> strict \<and> (36 < length mp \<or> texts_long x)"
  by (cases "bi_title x"; cases "bi_status x"; cases "bi_urgency x")
    (auto simp: stored_def new_request_def field_get_def field_option_def column_default_def fits_def texts_long_def too_long_def)

lemma updated_refused:
  assumes "bi_title x = Null \<or> bi_description x = Null \<or> bi_status x = Null \<or> strict \<and> (36 < length (cr_marketplace_id r) \<or> texts_long x)"
  shows "stored strict (updated_request now x r) = None"
proof (cases "bi_description x = Null")
  case False
  then have "\<exists>d. field_get (bi_description x) (cr_description r) = Some d" by (cases "bi_description x") (simp_all add: field_get_def)
  then show ?thesis using assms False
    by (cases "bi_title x"; cases "bi_status x"; cases "bi_urgency x")
      (auto simp: stored_def updated_request_def field_get_def field_option_def fits_def texts_long_def too_long_def)
qed (simp add: stored_def updated_request_def field_get_def split: option.split)

lemma updated_accepted:
  assumes "strict \<longrightarrow> fits r" "bi_title x \<noteq> Null" "bi_description x \<noteq> Null" "bi_status x \<noteq> Null" "strict \<longrightarrow> \<not> texts_long x"
  shows "stored strict (updated_request now x r) \<noteq> None"
proof -
  have "\<exists>d. field_get (bi_description x) (cr_description r) = Some d"
    using assms(3) by (cases "bi_description x") (simp_all add: field_get_def)
  then show ?thesis using assms
    by (cases "bi_title x"; cases "bi_status x"; cases "bi_urgency x"; cases strict)
      (auto simp: stored_def updated_request_def field_get_def field_option_def fits_def texts_long_def too_long_def)
qed

lemma item_id_get: "bi_id x \<noteq> Null \<Longrightarrow> field_get (bi_id x) [] = Some (item_id x)"
  by (cases "bi_id x") (simp_all add: field_get_def item_id_def)

lemma upsert_item_refused:
  assumes "refused strict (item_id x \<in> cr_marketplace_id ` set rows) x"
  shows "upsert_item strict fresh now x rows = None"
proof (cases "bi_id x = Null")
  case True
  then show ?thesis by (simp add: upsert_item_def field_get_def)
next
  case id: False
  show ?thesis
  proof (cases "find_request (item_id x) rows")
    case None
    then have "stored strict (new_request (fresh (length rows)) now (item_id x) x) = None"
      using assms id find_request_None [of "item_id x" rows] by (auto simp: new_stored refused_texts)
    then show ?thesis by (simp add: upsert_item_def item_id_get [OF id] None)
  next
    case (Some r)
    then have "stored strict (updated_request now x r) = None"
      using assms id find_request_id [OF Some] by (intro updated_refused) (auto simp: refused_texts)
    then show ?thesis by (simp add: upsert_item_def item_id_get [OF id] Some)
  qed
qed

lemma refused_batch:
  "x \<in> set xs \<Longrightarrow> refused strict (item_id x \<in> cr_marketplace_id ` set rows) x \<Longrightarrow> upsert_cached_requests strict fresh now xs rows = None"
proof (induction xs arbitrary: rows)
  case (Cons y xs)
  show ?case
  proof (cases "upsert_item strict fresh now y rows")
    case (Some p)
    obtain new rows1 where p: "p = (new, rows1)" by fastforce
    have "x \<noteq> y" using Some upsert_item_refused [OF Cons.prems(2), of fresh now] by auto
    then have x: "x \<in> set xs" using Cons.prems(1) by simp
    have "cr_marketplace_id ` set rows \<subseteq> cr_marketplace_id ` set rows1" using upsert_item_cases(2) [OF Some [unfolded p]] by blast
    then have "refused strict (item_id x \<in> cr_marketplace_id ` set rows1) x" using Cons.prems(2) by (auto simp: refused_def)
    from Cons.IH [OF x this] show ?thesis using Some p by simp
  qed simp
qed simp

text \<open>The rows that are there fit.\<close>

lemma upsert_item_acceptable:
  assumes "acceptable strict x" "strict \<longrightarrow> list_all fits rows"
  shows "\<exists>new rows'. upsert_item strict fresh now x rows = Some (new, rows') \<and> (strict \<longrightarrow> list_all fits rows')"
proof -
  have x: "bi_id x \<noteq> Null" "bi_title x \<noteq> Null" "bi_description x \<noteq> Null" "bi_status x \<noteq> Null"
    "strict \<longrightarrow> \<not> 36 < length (item_id x) \<and> \<not> texts_long x"
    using assms(1) by (auto simp: acceptable_def refused_texts)
  show ?thesis
  proof (cases "find_request (item_id x) rows")
    case None
    have "stored strict (new_request (fresh (length rows)) now (item_id x) x) \<noteq> None" using x by (simp add: new_stored)
    then obtain r' where r': "stored strict (new_request (fresh (length rows)) now (item_id x) x) = Some r'" by blast
    then have "strict \<longrightarrow> fits r'" by (simp add: stored_Some)
    then show ?thesis using r' assms(2) by (auto simp: upsert_item_def item_id_get [OF x(1)] None)
  next
    case (Some r)
    have "strict \<longrightarrow> fits r" using Some assms(2) by (auto simp: find_request_def find_Some_iff list_all_iff)
    then have "stored strict (updated_request now x r) \<noteq> None" using x by (intro updated_accepted) simp_all
    then obtain r' where r': "stored strict (updated_request now x r) = Some r'" by blast
    then have "strict \<longrightarrow> fits r'" by (simp add: stored_Some)
    then show ?thesis using r' assms(2) by (auto simp: upsert_item_def item_id_get [OF x(1)] Some list_all_iff)
  qed
qed

lemma upsert_batch_acceptable:
  "list_all (acceptable strict) xs \<Longrightarrow> strict \<longrightarrow> list_all fits rows \<Longrightarrow>
   \<exists>a b rows'. upsert_cached_requests strict fresh now xs rows = Some (a, b, rows') \<and> (strict \<longrightarrow> list_all fits rows')"
proof (induction xs arbitrary: rows)
  case (Cons x xs)
  obtain new rows1 where "upsert_item strict fresh now x rows = Some (new, rows1)" "strict \<longrightarrow> list_all fits rows1"
    using upsert_item_acceptable [of strict x rows fresh now] Cons.prems by auto
  then show ?case using Cons.IH [of rows1] Cons.prems(1) by fastforce
qed simp

section \<open>Reading a board of pages\<close>

text \<open>A board that serves the given pages, page \<open>i\<close> under the cursor \<open>cur i\<close>; only the last page may be empty.\<close>

definition serves :: "(string option \<Rightarrow> board_page option) \<Rightarrow> (nat \<Rightarrow> string option) \<Rightarrow> board_item list list \<Rightarrow> bool" where
  "serves board cur pages \<longleftrightarrow> cur 0 = None \<and>
     list_all (\<lambda>i. board (cur i) = Some \<lparr>bp_items = pages ! i, bp_next = (if Suc i < length pages then cur (Suc i) else None)\<rparr> \<and>
       (i = 0 \<or> truthy (cur i)) \<and> (Suc i = length pages \<or> pages ! i \<noteq> [])) [0..<length pages]"

lemma servesD:
  assumes "serves board cur pages" "i < length pages"
  shows "board (if truthy (cur i) then cur i else None) =
      Some \<lparr>bp_items = pages ! i, bp_next = (if Suc i < length pages then cur (Suc i) else None)\<rparr>"
    and "Suc i < length pages \<Longrightarrow> truthy (cur (Suc i)) \<and> pages ! i \<noteq> []"
proof -
  have "i \<in> set [0..<length pages]" using assms(2) by simp
  then have b: "board (cur i) = Some \<lparr>bp_items = pages ! i, bp_next = (if Suc i < length pages then cur (Suc i) else None)\<rparr>"
    "i = 0 \<or> truthy (cur i)" "Suc i = length pages \<or> pages ! i \<noteq> []" and z: "cur 0 = None"
    using assms(1) unfolding serves_def list_all_iff by blast+
  have "(if truthy (cur i) then cur i else None) = cur i" using b(2) z by auto
  then show "board (if truthy (cur i) then cur i else None) =
      Some \<lparr>bp_items = pages ! i, bp_next = (if Suc i < length pages then cur (Suc i) else None)\<rparr>"
    using b(1) by simp
  have "truthy (cur (Suc i))" if "Suc i < length pages"
  proof -
    have "Suc i \<in> set [0..<length pages]" using that by simp
    then show ?thesis using assms(1) unfolding serves_def list_all_iff by blast
  qed
  then show "Suc i < length pages \<Longrightarrow> truthy (cur (Suc i)) \<and> pages ! i \<noteq> []" using b(3) by auto
qed

lemma poll_pages_serves:
  "serves board cur pages \<Longrightarrow> i < length pages \<Longrightarrow>
   poll_pages n board (cur i) (cur i) = Some (concat (take n (drop i pages)), cur (min (i + n) (length pages - 1)))"
proof (induction n arbitrary: i)
  case (Suc n)
  note s = servesD [OF Suc.prems]
  have d: "drop i pages = pages ! i # drop (Suc i) pages" using Suc.prems(2) by (simp add: Cons_nth_drop_Suc)
  show ?case
  proof (cases "Suc i < length pages")
    case True
    then show ?thesis using s Suc.IH [OF Suc.prems(1) True] by (simp add: d)
  next
    case False
    then have "drop (Suc i) pages = []" "min (i + Suc n) (length pages - 1) = i" using Suc.prems(2) by auto
    then show ?thesis using s(1) False by (simp add: d)
  qed
qed auto

text \<open>The same board with outages: it answers as the board does or not at all.\<close>

definition outage :: "(string option \<Rightarrow> board_page option) \<Rightarrow> (string option \<Rightarrow> board_page option) \<Rightarrow> bool" where
  "outage b board \<longleftrightarrow> (\<forall>c. b c = None \<or> b c = board c)"

lemma outage_pages: "outage b board \<Longrightarrow> poll_pages n b c l = None \<or> poll_pages n b c l = poll_pages n board c l"
proof (induction n arbitrary: c l)
  case (Suc n)
  let ?c = "if truthy c then c else None"
  have b: "b ?c = None \<or> b ?c = board ?c" using Suc.prems unfolding outage_def by blast
  show ?case
  proof (cases "b ?c")
    case (Some page)
    then have "board ?c = Some page" using b by simp
    then show ?thesis using Some Suc.IH [OF Suc.prems, of "bp_next page" "bp_next page"]
      by (auto simp del: truthy_def)
  qed simp
qed simp

text \<open>Syncs one after another, each with what the database does to it, the answers of the board and the time; the
  number of those that succeeded, and what is stored in the end.\<close>

type_synonym sync_try = "commits \<times> (string option \<Rightarrow> board_page option) \<times> time"

fun sync_all :: "bool \<Rightarrow> (nat \<Rightarrow> string) \<Rightarrow> sync_try list \<Rightarrow> request_store \<Rightarrow> nat \<times> request_store" where
  "sync_all strict fresh [] st = (0, st)"
| "sync_all strict fresh ((db, b, now) # ts) st =
     (case full_sync strict db b fresh now st of
        (None, s) \<Rightarrow> sync_all strict fresh ts s
      | (Some r, s) \<Rightarrow> apfst Suc (sync_all strict fresh ts s))"

definition empty_store :: request_store where "empty_store = \<lparr>cached = [], sync_state = None\<rparr>"

text \<open>What is kept: the cursor after \<open>k\<close> successful syncs, the pages up to it, and nothing but requests of the board.\<close>

definition copied :: "bool \<Rightarrow> (nat \<Rightarrow> string option) \<Rightarrow> board_item list list \<Rightarrow> nat \<Rightarrow> request_store \<Rightarrow> bool" where
  "copied strict cur pages k st \<longleftrightarrow>
     get_sync_cursor st = cur (min (10 * k) (length pages - 1)) \<and>
     item_id ` set (concat (take (10 * k) pages)) \<subseteq> cr_marketplace_id ` set (cached st) \<and>
     cr_marketplace_id ` set (cached st) \<subseteq> item_id ` set (concat pages) \<and>
     distinct (map cr_marketplace_id (cached st)) \<and> (strict \<longrightarrow> list_all fits (cached st))"

lemma concat_take_subset: "set (concat (take n (drop i pages))) \<subseteq> set (concat pages)"
  by (auto dest!: in_set_takeD in_set_dropD)

lemma pages_so_far:
  "item_id ` set (concat (take (10 * Suc k) pages)) \<subseteq>
     item_id ` set (concat (take 10 (drop (min (10 * k) (length pages - 1)) pages))) \<union> item_id ` set (concat (take (10 * k) pages))"
proof (cases "10 * k < length pages")
  case True
  then have "min (10 * k) (length pages - 1) = 10 * k" by simp
  moreover have "take (10 * k + 10) pages = take (10 * k) pages @ take 10 (drop (10 * k) pages)" by (rule take_add)
  moreover have "10 * Suc k = 10 * k + 10" by simp
  ultimately show ?thesis by (simp only: concat_append set_append image_Un) simp
qed simp

lemma full_sync_results:
  assumes "full_sync strict db b fresh now st = (res, st')"
    and "poll_requests b (get_sync_cursor st) = None \<or> poll_requests b (get_sync_cursor st) = Some (items, c)"
    and "upsert_cached_requests strict fresh now items (cached st) = Some (n, u, rows)"
  shows "res = None \<and> st' = st \<or> res = None \<and> st' = st\<lparr>cached := rows\<rparr> \<or>
    res \<noteq> None \<and> st' = save_sync_cursor now c (st\<lparr>cached := rows\<rparr>)"
  using assms(2)
proof
  assume "poll_requests b (get_sync_cursor st) = None"
  then show ?thesis using assms(1) by (simp add: full_sync_def)
next
  assume "poll_requests b (get_sync_cursor st) = Some (items, c)"
  then show ?thesis using assms(1,3) by (cases db) (auto simp: full_sync_def)
qed

lemma copied_rows:
  assumes "copied strict cur pages k st" "upsert_cached_requests strict fresh now items (cached st) = Some (n, u, rows)"
    and "strict \<longrightarrow> list_all fits rows" "item_id ` set items \<subseteq> item_id ` set (concat pages)"
  shows "copied strict cur pages k (st\<lparr>cached := rows\<rparr>)" and "item_id ` set items \<subseteq> cr_marketplace_id ` set rows"
proof -
  note r = upsert_batch [OF assms(2)]
  have ids: "cr_marketplace_id ` set rows = item_id ` set items \<union> cr_marketplace_id ` set (cached st)" using r by simp
  then show "item_id ` set items \<subseteq> cr_marketplace_id ` set rows" by simp
  have g: "get_sync_cursor (st\<lparr>cached := rows\<rparr>) = get_sync_cursor st" "cached (st\<lparr>cached := rows\<rparr>) = rows"
    by (simp_all add: get_sync_cursor_def)
  show "copied strict cur pages k (st\<lparr>cached := rows\<rparr>)"
    using assms(1,3,4) r unfolding copied_def g ids by (simp only: Un_subset_iff le_supI2 simp_thms)
qed

lemma full_sync_copied:
  assumes "serves board cur pages" "pages \<noteq> []" "list_all (list_all (acceptable strict)) pages" "outage b board"
    and "copied strict cur pages k st" "full_sync strict db b fresh now st = (res, st')"
  shows "copied strict cur pages (if res = None then k else Suc k) st'"
proof -
  define i where "i = min (10 * k) (length pages - 1)"
  define items where "items = concat (take 10 (drop i pages))"
  define c where "c = cur (min (i + 10) (length pages - 1))"
  have i: "i < length pages" using assms(2) by (simp add: i_def min_less_iff_disj)
  have "get_sync_cursor st = cur i" using assms(5) by (simp add: copied_def i_def)
  then have "poll_requests board (get_sync_cursor st) = Some (items, c)"
    unfolding poll_requests_def items_def c_def MAX_PAGES_def by (simp only: poll_pages_serves [OF assms(1) i])
  then have p: "poll_requests b (get_sync_cursor st) = None \<or> poll_requests b (get_sync_cursor st) = Some (items, c)"
    using outage_pages [OF assms(4)] by (metis poll_requests_def)
  have "list_all (acceptable strict) items"
    using assms(3) by (auto simp: items_def list_all_iff dest!: in_set_takeD in_set_dropD)
  then obtain n u rows where r: "upsert_cached_requests strict fresh now items (cached st) = Some (n, u, rows)"
    "strict \<longrightarrow> list_all fits rows"
    using upsert_batch_acceptable [of strict items "cached st" fresh now] assms(5) by (auto simp: copied_def)
  have m: "item_id ` set items \<subseteq> item_id ` set (concat pages)"
    unfolding items_def by (rule image_mono [OF concat_take_subset])
  note rows = copied_rows [OF assms(5) r m]
  have "cur (min (i + 10) (length pages - 1)) = cur (min (10 * Suc k) (length pages - 1))"
    by (rule arg_cong [of _ _ cur]) (simp add: i_def)
  moreover have "item_id ` set (concat (take (10 * Suc k) pages)) \<subseteq> cr_marketplace_id ` set rows"
  proof (rule subset_trans [OF pages_so_far], rule Un_least)
    show "item_id ` set (concat (take 10 (drop (min (10 * k) (length pages - 1)) pages))) \<subseteq> cr_marketplace_id ` set rows"
      using rows(2) by (simp only: items_def i_def)
    show "item_id ` set (concat (take (10 * k) pages)) \<subseteq> cr_marketplace_id ` set rows"
      using rows(1) by (simp add: copied_def del: set_concat)
  qed
  ultimately have "copied strict cur pages (Suc k) (save_sync_cursor now c (st\<lparr>cached := rows\<rparr>))"
    using rows(1) unfolding copied_def c_def by (simp add: get_sync_cursor_def save_sync_cursor_def)
  then show ?thesis using full_sync_results [OF assms(6) p r(1)] rows(1) assms(5) by auto
qed

lemma sync_all_copied:
  assumes "serves board cur pages" "pages \<noteq> []" "list_all (list_all (acceptable strict)) pages"
  shows "list_all (\<lambda>(db, b, now). outage b board) ts \<Longrightarrow> copied strict cur pages k st \<Longrightarrow>
    copied strict cur pages (k + fst (sync_all strict fresh ts st)) (snd (sync_all strict fresh ts st))"
proof (induction ts arbitrary: k st)
  case (Cons t ts)
  obtain db b now where t: "t = (db, b, now)" by (cases t)
  obtain res st' where f: "full_sync strict db b fresh now st = (res, st')" by fastforce
  have o: "outage b board" "list_all (\<lambda>(db, b, now). outage b board) ts" using Cons.prems(1) by (simp_all add: t)
  note c = Cons.IH [OF o(2) full_sync_copied [OF assms o(1) Cons.prems(2) f]]
  show ?case using c by (cases res) (simp_all add: t f)
qed simp

section \<open>Properties\<close>

text \<open>Also: A batch of the board is saved as a whole or not at all, and a saved batch is mirrored in the table: every item was
  either new or updated, the table grows by the new ones, no two rows are for the same request of the board, and the row
  of an item that has no later one with its identifier holds its title, status and categories; rows of other requests
  stay.\<close>

theorem batch_is_mirrored:
  assumes "distinct (map cr_marketplace_id rows)" and "upsert_cached_requests strict fresh now (ys @ x # zs) rows = Some (a, b, rows')"
    and "item_id x \<notin> item_id ` set zs"
  shows "a + b = length (ys @ x # zs) \<and> length rows' = length rows + a \<and> distinct (map cr_marketplace_id rows') \<and>
    (\<exists>r. find_request (item_id x) rows' = Some r \<and> cr_categories r = categories_of (bi_categories x) \<and>
      bi_title x \<in> {Missing, Given (cr_title r)} \<and> bi_status x \<in> {Missing, Null, Given (cr_status r)}) \<and>
    (k \<in> item_id ` set (ys @ x # zs) \<or> find_request k rows' = find_request k rows)"
proof -
  obtain a1 b1 r1 where y: "upsert_cached_requests strict fresh now ys rows = Some (a1, b1, r1)"
    using assms(2) by (auto simp: upsert_append split: option.splits)
  then obtain c d where xz: "upsert_cached_requests strict fresh now (x # zs) r1 = Some (c, d, rows')"
    using assms(2) by (auto simp: upsert_append)
  then obtain new r2 where x: "upsert_item strict fresh now x r1 = Some (new, r2)" by (auto split: option.splits)
  then obtain c' d' where z: "upsert_cached_requests strict fresh now zs r2 = Some (c', d', rows')" using xz by (auto split: if_splits)
  obtain r where r: "find_request (item_id x) r2 = Some r" "cr_categories r = categories_of (bi_categories x)"
      "\<forall>t. bi_title x = Given t \<longrightarrow> cr_title r = t" "\<forall>s. bi_status x = Given s \<longrightarrow> cr_status r = s" "bi_title x \<noteq> Null"
    using upsert_item_cases(4) [OF x] by blast
  have "bi_title x \<in> {Missing, Given (cr_title r)}" "bi_status x \<in> {Missing, Null, Given (cr_status r)}"
    using r(3-5) by (cases "bi_title x"; cases "bi_status x"; simp)+
  moreover have "find_request (item_id x) rows' = Some r" using upsert_batch_frame [OF z assms(3)] r(1) by simp
  ultimately show ?thesis using upsert_batch [OF assms(2)] assms(1) r(2) upsert_batch_frame [OF assms(2), of k] by auto
qed

text \<open>Also: One sync reads ten pages on from the saved cursor. On a board that serves its pages one after another, polling from
  page \<open>i\<close> gives exactly the items of the next ten pages in order (or of the remaining ones), and the cursor that is saved
  is that of the first page not read, or of the last page when nothing is left, so that no page is skipped.\<close>

theorem poll_reads_next_ten:
  assumes "serves board cur pages" "i < length pages"
  shows "poll_requests board (cur i) = Some (concat (take 10 (drop i pages)), cur (min (i + 10) (length pages - 1)))"
  unfolding poll_requests_def MAX_PAGES_def by (rule poll_pages_serves [OF assms])

text \<open>C24: Enough syncs copy the whole board. When the board serves its pages, does not change between the syncs, and holds
  no item that the database refuses, then after a number of successful syncs that is at least a tenth of the number of
  pages the table has exactly one row for each request of the board and no other row. Other syncs may fail in
  between: at any page of the board, at the commit of the rows, or at that of the cursor.\<close>

theorem enough_syncs_copy_the_board:
  assumes "serves board cur pages" "pages \<noteq> []" "list_all (list_all (acceptable strict)) pages"
    and "list_all (\<lambda>(db, b, now). outage b board) ts" "length pages \<le> 10 * fst (sync_all strict fresh ts empty_store)"
  shows "cr_marketplace_id ` set (cached (snd (sync_all strict fresh ts empty_store))) = item_id ` set (concat pages) \<and>
    distinct (map cr_marketplace_id (cached (snd (sync_all strict fresh ts empty_store))))"
proof -
  have "copied strict cur pages 0 empty_store"
    using assms(1) by (simp add: copied_def empty_store_def get_sync_cursor_def serves_def)
  from sync_all_copied [OF assms(1-4) this, of fresh] take_all [OF assms(5)] show ?thesis
    unfolding copied_def add_0 by (simp only:) blast
qed

text \<open>C36: One item that the database refuses stops the synchronisation for good. When the pages that the saved cursor leads
  to hold an item whose title or identifier is null, or whose description or status is null while its request is already
  in the table, or, on PostgreSQL, one of whose texts is longer than its column, then every sync fails and leaves both
  the table and the cursor as they are, however often it is repeated, as long as the board answers the same or not at
  all, and no later item is ever copied.\<close>

theorem null_title_stops_sync:
  assumes "poll_requests board (get_sync_cursor st) = Some (items, c)" "x \<in> set items"
    and "refused strict (item_id x \<in> cr_marketplace_id ` set (cached st)) x" "list_all (\<lambda>(db, b, now). outage b board) ts"
  shows "sync_all strict fresh ts st = (0, st) \<and> trigger_sync strict db board fresh now st = (Inl 502, st)"
proof -
  have u: "upsert_cached_requests strict fresh now items (cached st) = None" for now by (rule refused_batch [OF assms(2,3)])
  have n: "full_sync strict db b fresh now st = (None, st)" if "outage b board" for db b now
    using outage_pages [OF that, of MAX_PAGES "get_sync_cursor st" "get_sync_cursor st"] assms(1) u
    by (auto simp: full_sync_def poll_requests_def)
  have "sync_all strict fresh ts st = (0, st)" using assms(4) by (induction ts) (auto simp: n)
  moreover have "outage board board" by (simp add: outage_def)
  ultimately show ?thesis by (simp add: trigger_sync_def n)
qed

text \<open>Also: Requests on pages before the saved cursor are never read again. Two boards that answer alike from the saved cursor
  on, whatever they answered before, are copied alike: a request that is closed on an earlier page stays open here, unless
  the board moves it behind the cursor.\<close>

theorem earlier_pages_not_read_again:
  assumes "serves board cur pages" "serves board' cur pages'" "i < length pages" "length pages' = length pages"
    and "drop i pages' = drop i pages" "get_sync_cursor st = cur i"
  shows "full_sync strict db board' fresh now st = full_sync strict db board fresh now st"
  using poll_pages_serves [OF assms(1,3)] poll_pages_serves [OF assms(2), of i] assms(3-6)
  by (simp add: full_sync_def poll_requests_def)

section \<open>A concrete board\<close>

definition item_of :: "string \<Rightarrow> string field \<Rightarrow> board_item" where
  "item_of i t = \<lparr>bi_id = Given i, bi_title = t, bi_description = Missing, bi_categories = JList [JStr ''x''], bi_urgency = Missing,
     bi_status = Given ''open'', bi_published = None, bi_expires = None\<rparr>"

definition pages1 :: "board_item list list" where
  "pages1 = [[item_of ''a'' (Given ''A''), item_of ''b'' (Given ''B'')], [item_of ''a'' (Given ''A2'')], []]"

definition cur1 :: "nat \<Rightarrow> string option" where
  "cur1 i = (if i = 0 then None else Some (show_nat i))"

definition board1 :: "string option \<Rightarrow> board_page option" where
  "board1 c = (if c = None then Some \<lparr>bp_items = pages1 ! 0, bp_next = cur1 1\<rparr>
     else if c = cur1 1 then Some \<lparr>bp_items = pages1 ! 1, bp_next = cur1 2\<rparr>
     else if c = cur1 2 then Some \<lparr>bp_items = pages1 ! 2, bp_next = None\<rparr> else None)"

definition fresh1 :: "nat \<Rightarrow> string" where "fresh1 n = ''row'' @ show_nat n"

lemma serves1: "serves board1 cur1 pages1"
  by (simp add: serves_def board1_def cur1_def pages1_def show_nat.simps digit_char_def upt_rec numeral_3_eq_3)

lemma acceptable1: "list_all (list_all (acceptable True)) pages1"
  by (simp add: pages1_def item_of_def acceptable_def refused_def too_long_def)

text \<open>An outage at the second page, a cursor that is not saved, and a sync that succeeds.\<close>

definition down1 :: "string option \<Rightarrow> board_page option" where
  "down1 c = (if c = None then board1 c else None)"

definition tries1 :: "sync_try list" where
  "tries1 = [(Kept, down1, 5), (CursorFails, board1, 6), (Kept, board1, 7)]"

lemma sync1: "fst (sync_all True fresh1 tries1 empty_store) = 1"
  by code_simp

theorem enough_syncs_copy_the_board_witness:
  "cr_marketplace_id ` set (cached (snd (sync_all True fresh1 tries1 empty_store))) = {''a'', ''b''}"
proof -
  have o: "list_all (\<lambda>(db, b, now). outage b board1) tries1" by (simp add: tries1_def outage_def down1_def)
  show ?thesis using enough_syncs_copy_the_board [OF serves1 _ acceptable1 o, of fresh1]
    by (simp add: sync1) (simp add: pages1_def item_of_def item_id_def insert_commute)
qed

theorem poll_reads_next_ten_witness: "poll_requests board1 (cur1 1) = Some ([item_of ''a'' (Given ''A2'')], cur1 2)"
  using poll_reads_next_ten [OF serves1, of 1] by (simp add: pages1_def numeral_2_eq_2)

definition batch1 :: "board_item list" where "batch1 = [item_of ''a'' (Given ''A'')]"

theorem batch_is_mirrored_witness:
  "\<exists>a b rows'. upsert_cached_requests True fresh1 7 (batch1 @ item_of ''a'' (Given ''A2'') # []) [] = Some (a, b, rows') \<and> a + b = 2 \<and>
     (\<exists>r. find_request ''a'' rows' = Some r \<and> cr_title r = ''A2'')"
proof -
  have "list_all (acceptable True) (batch1 @ item_of ''a'' (Given ''A2'') # [])"
    by (simp add: batch1_def item_of_def acceptable_def refused_def too_long_def)
  from upsert_batch_acceptable [OF this, of "[]" fresh1 7]
  obtain a b rows' where u: "upsert_cached_requests True fresh1 7 (batch1 @ item_of ''a'' (Given ''A2'') # []) [] = Some (a, b, rows')"
    by auto
  have "item_id (item_of ''a'' (Given ''A2'')) \<notin> item_id ` set []" by simp
  note m = batch_is_mirrored [OF _ u this]
  have "a + b = 2" "\<exists>r. find_request ''a'' rows' = Some r \<and> cr_title r = ''A2''"
    using m [of "[]"] by (auto simp: batch1_def item_of_def item_id_def)
  with u show ?thesis by blast
qed

definition poison :: "string option \<Rightarrow> board_page option" where
  "poison c = Some \<lparr>bp_items = [item_of ''a'' (Given ''A''), item_of ''b'' Null], bp_next = None\<rparr>"

theorem null_title_stops_sync_witness:
  "sync_all False fresh1 [(Kept, poison, 7), (Kept, poison, 8)] empty_store = (0, empty_store) \<and>
    trigger_sync False Kept poison fresh1 10 empty_store = (Inl 502, empty_store)"
proof -
  have p: "poll_requests poison (get_sync_cursor empty_store) = Some ([item_of ''a'' (Given ''A''), item_of ''b'' Null], None)"
    by (simp add: poll_requests_def MAX_PAGES_def eval_nat_numeral poison_def get_sync_cursor_def empty_store_def)
  have r: "refused False (item_id (item_of ''b'' Null) \<in> cr_marketplace_id ` set (cached empty_store)) (item_of ''b'' Null)"
    by (simp add: refused_def item_of_def)
  show ?thesis by (rule null_title_stops_sync [OF p _ r]) (simp_all add: outage_def)
qed

text \<open>The same board after its first page was emptied of one request and the other was renamed.\<close>

definition pages2 :: "board_item list list" where
  "pages2 = [[item_of ''b'' (Given ''B2'')], [item_of ''a'' (Given ''A2'')], []]"

definition board2 :: "string option \<Rightarrow> board_page option" where
  "board2 c = (if c = None then Some \<lparr>bp_items = pages2 ! 0, bp_next = cur1 1\<rparr> else board1 c)"

lemma serves2: "serves board2 cur1 pages2"
  by (simp add: serves_def board2_def board1_def cur1_def pages1_def pages2_def show_nat.simps digit_char_def upt_rec numeral_3_eq_3)

definition store1 :: request_store where "store1 = \<lparr>cached = [], sync_state = Some (cur1 1, 5)\<rparr>"

theorem earlier_pages_not_read_again_witness:
  "board2 None \<noteq> board1 None \<and> full_sync True Kept board2 fresh1 7 store1 = full_sync True Kept board1 fresh1 7 store1"
proof
  show "board2 None \<noteq> board1 None" by (simp add: board1_def board2_def pages1_def pages2_def)
  have c: "get_sync_cursor store1 = cur1 1" by (simp add: store1_def get_sync_cursor_def)
  show "full_sync True Kept board2 fresh1 7 store1 = full_sync True Kept board1 fresh1 7 store1"
    by (rule earlier_pages_not_read_again [OF serves1 serves2 _ _ _ c]) (simp_all add: pages1_def pages2_def)
qed

end
