(* ===== verification/Spec2Isabelle.thy ===== *)
theory Spec2Isabelle
  imports Prelude Serial_Store Serial_Client Offline_Queue Serial_Metering Activation
    Deduction_Queue Credit_Metering Rate_Limiter Connectivity_Token Connectivity_State Mcp_Sessions
    Approval_Token Tool_Executor Encoding Artifact_Resolver Fulfillment
    Raw_Files Raw_Listings Uploads Dataset_Records Processing_Queue Portal_Sessions Portal_Search Nudges Local_Auth Chat_History Copilot_Socket Chat_Attachments Verification_Aggregates Verification_Scan Verification_Runs Request_Sync
begin

text \<open>
  AIM Channel is the seller side of the ai.market marketplace: a local FastAPI application that
  activates itself with a serial, meters what its assistant costs, lets external AI tools in over
  MCP, lets its own assistant act on the user's data, shows datasets to buyers in a portal and
  delivers what they bought. These theories model the services that decide who may do what, what
  becomes of an upload and who pays, with the states they keep and the failures they meet.

  \<^bold>\<open>Parts and how they interact.\<close>

  \<^item> Activation. \<open>Serial_Store\<close> is \<open>services/serial_store.py\<close>: the serial record, its file, and every
    method that changes them (a save may fail; memory then differs from the file).
    \<open>Serial_Client\<close> is \<open>services/serial_client.py\<close>: requests with retries against a server that is a
    parameter, and the reading of each reply. \<open>Activation\<close> is \<open>services/activation_manager.py\<close> with the
    registration call of \<open>services/registration_service.py\<close>: startup, activation, refresh, polling and
    provisioning, each as a method on the store and the network; a boot reads the file (or the environment) again.
  \<^item> Admission of metered work. \<open>Offline_Queue\<close> is \<open>services/offline_queue.py\<close>: the JSONL file of
    usage not yet reported, which other tasks use while a flush awaits and whose removal may fail. \<open>Serial_Metering\<close> is \<open>services/serial_metering.py\<close>: the serial and the
    ledger strategy, which read the store, ask the client and append to the queue.
  \<^item> Charging. \<open>Deduction_Queue\<close> is \<open>services/deduction_queue.py\<close>: the table of deductions and the
    workers that claim, send and settle them. \<open>Credit_Metering\<close> is \<open>services/metering_service.py\<close> and
    \<open>services/reconciliation.py\<close>: one usage report writes a row of that table and tries to settle it at
    once, and the daily run compares the table with the server.
  \<^item> External connectivity. \<open>Connectivity_Token\<close> is \<open>services/connectivity_token_service.py\<close>,
    \<open>Connectivity_State\<close> is \<open>services/connectivity_state.py\<close> (the durable opt-in),
    \<open>Rate_Limiter\<close> is \<open>services/connectivity_rate_limiter.py\<close>, and \<open>Mcp_Sessions\<close> is the guard of
    \<open>routers/mcp.py\<close>, whose world holds the token table and the opt-in and whose registry is what
    disabling detaches.
  \<^item> The assistant's tools. \<open>Approval_Token\<close> is \<open>services/approval_token_service.py\<close>,
    \<open>Tool_Executor\<close> is \<open>services/allai_tool_executor.py\<close> with \<open>services/audit_logger.py\<close> and the
    \<open>CONFIRM_ACTION\<close> message of \<open>routers/copilot.py\<close>: it checks each tool call, asks the gate for an
    approval when the tool changes something, and runs handlers.
  \<^item> Selling. \<open>Artifact_Resolver\<close> is \<open>services/source_artifact_resolver.py\<close>: from a listing to the
    file or bucket object it sells, pinned against replacement. \<open>Fulfillment\<close> is
    \<open>services/fulfillment_service.py\<close> with \<open>services/trust_channel_client.py\<close>'s messages: an order is
    authorised, its file is streamed in windows of base64 chunks (\<open>Encoding\<close>), each window acknowledged; each
    write of the delivery log may fail.
    \<open>Raw_Files\<close> is \<open>services/raw_file_service.py\<close> with \<open>services/entitlement_service.py\<close> (registered
    files, their imports and downloads by a signed entitlement that one run of the process accepts once), \<open>Raw_Listings\<close>
    is \<open>services/raw_listing_service.py\<close> (the life cycle of a listing and its publication).
  \<^item> Datasets. \<open>Uploads\<close> is the screening of names and batches in \<open>routers/datasets.py\<close> and
    \<open>services/batch_service.py\<close>, \<open>Dataset_Records\<close> the records and their status changes in
    \<open>services/processing_service.py\<close>, \<open>Processing_Queue\<close> the workers of
    \<open>services/processing_queue.py\<close> that take the records through extraction and indexing, beside the
    extractions from databases of \<open>routers/database.py\<close>, which set the status of their rows themselves.
  \<^item> Buyer portal. \<open>Portal_Sessions\<close> is \<open>services/portal_oidc.py\<close>, \<open>middleware/portal_auth.py\<close> and
    the session endpoints of \<open>routers/portal.py\<close>: codes, sign-in with an identity provider, sessions
    and settings. \<open>Portal_Search\<close> is \<open>services/portal_service.py\<close> and \<open>services/portal_tool_filter.py\<close>: the rows, columns and tools
    a visitor may reach.
  \<^item> Users. \<open>Local_Auth\<close> is \<open>auth/api_key_auth.py\<close>, \<open>services/auth_service.py\<close> and \<open>routers/auth.py\<close>: accounts, API
    keys, setup, login, the cache of remote answers and the role and scope checks of every endpoint.
  \<^item> Conversation. \<open>Chat_History\<close> is \<open>services/session_service.py\<close> and the history endpoints of
    \<open>routers/copilot.py\<close>: sessions, messages and the context sent with a question. \<open>Copilot_Socket\<close> is
    the connection manager, message loop and limits of that router with \<open>services/event_bus.py\<close>.
    \<open>Nudges\<close> is \<open>services/nudge_manager.py\<close>, which decides what the assistant says on its own.
    \<open>Chat_Attachments\<close> is \<open>services/chat_attachment_service.py\<close> with \<open>mime_detector.py\<close>,
    \<open>attachment_blocks.py\<close> and the upload endpoint: files put into a conversation.
  \<^item> Data verification. \<open>Verification_Aggregates\<close> is
    \<open>services/data_verification/connectors/eolymp_v1.py\<close> (the statistics of a dataset and what is held
    back of them), \<open>Verification_Scan\<close> its \<open>sanitizer.py\<close>, \<open>contract.py\<close> and \<open>scanner.py\<close> (a signed
    specification carried out on a pinned artifact), \<open>Verification_Runs\<close> is
    \<open>services/data_verification_local_service.py\<close> with its client, table and endpoints: quotes, starts
    under a lease, refreshes and commands, cut at every wait.
  \<^item> Requests of buyers. \<open>Request_Sync\<close> is \<open>services/request_sync_service.py\<close>: the copy of the request
    board, read with a saved cursor, in a database that may refuse an item or a commit.

  \<^bold>\<open>How code becomes definitions.\<close> A class with fields is a record, an enumeration a datatype, a
  Python dictionary an association list in insertion order (a \<open>defaultdict\<close> a total function), a
  table a list of rows that \<open>update_where\<close> rewrites. A method that changes an object and may raise is
  a function from the state to an error or a value and the new state (\<open>meth\<close> in \<open>Prelude\<close>; an
  exception keeps the changes made before it). Methods whose critical section runs under a lock, a
  database transaction or between two \<open>await\<close>s are one step, and concurrency is the order of the steps
  in a list; the state machines are \<open>foldl\<close> of a step function. Where the code keeps something in memory only (attempts at
  access codes, nonces of entitlements, the processing queue, sessions, caches), a restart is a step that forgets it. Times are integers in
  microseconds. Handler events of one component become events of another through its step function.

  \<^bold>\<open>What is a parameter.\<close> The network and the server behind it (a transport, or the reply of one
  request), HMAC and SHA-256, MD5 of request identifiers, generated identifiers and secrets, the
  clock, the rounding of a binary64 product, the handlers of the tools and the redaction of texts, and
  which attempts to write a file, a row of the delivery log or a sync, or to remove the queue file fail; JSON parsing and the reading of floats, the resolution of
  paths, what extraction and indexing of a file return, JWT, bcrypt, Argon2 and Fernet, the identity
  provider, what the third-party cache evicts, the rows a Parquet reader gives and its LIKE, and
  whether a message sent over a socket arrives; the decoding of tables by Arrow, ZIP listings, images,
  the texts of PDF and spreadsheet files, RSA and Ed25519, NFKC, the logarithm of the distinct
  estimate, and the request board.

  \<^bold>\<open>What the lemmas show.\<close> Each component has an invariant that every step keeps, packed as an
  interpretation of \<open>step_system\<close> (or \<open>ranked_system\<close> where a rank never falls), which gives it
  for every run; \<open>capped_queue\<close> is the contract of the offline queue and \<open>metering_strategy\<close>
  that of the two strategies. \<open>lock_out\<close> is the contract of a withdrawn right (a predicate that every
  later operation keeps and that refuses a request), interpreted for revoked keys, deactivated
  users and a finished setup. The connections of the assistant are an inductive relation of
  interleaved events with invariants by rule induction. The properties C1 to C40 are, by subject:
  the serial record and its crash recovery, the lifecycle as a whole, the state a rejected refresh
  leaves for good; what is admitted in each state and how many data operations run offline; what a
  flush of the queue keeps and what it loses when records arrive meanwhile; exclusive and bounded
  sending of deductions, uniqueness of idempotency keys, the rows that wait for ever, the completed row
  that the metering reopens, at most one charge per message; sliding-window limits, blocks and slots;
  round trip, limit and finality of tokens; the opt-in that fails closed and survives restarts; the
  session guard that forwards only what is authorised, bounds its connections and locks out revoked
  tokens; approvals that are single-use and tied to user, session and input; tools that change
  something only after an approval, five calls a message, one audit row per call; windows,
  acknowledgements and the pinned source of a delivery; entitlements accepted once between restarts; listings that
  stay listed or withdrawn; datasets that are extracting only while somebody has them in hand; portal
  sessions that end with a change of settings and searches whose rows stay inside what the seller shows;
  keys and users that stay locked out; conversations that only their owner reads, and one
  connection and one answer at a time; attachments that stay their owner's; published rates and
  estimates that no small group can have caused, and the suppressed count that a histogram gives away;
  specifications that one scanner carries out once; reports that no later request replaces, writes that
  a lost lease prevents and leases that are taken over; a request board that enough syncs copy, and the
  item that stops them.
  Some of these state what the code does where it departs from its documentation; those are
  listed as findings beside the development.

  \<^bold>\<open>Bounds and fuel.\<close> No definition uses fuel: the retry loop of the client recurses on the retries
  left, batches and queues on lists. The bounds are the code's: 2 retries, 50 queued records, 2 offline
  data operations, 5 attempts of a deduction, 32 connections, 3600 seconds a session, 5 calls a
  message, 4 chunks of 65536 bytes a window, 10,000 files and 500 GB a batch, 1 to 8 workers, 5 codes
  in 15 minutes, 10 minutes for a sign-in, 5 logins in 300 and 3 setups in 60 seconds, 30
  messages and 10 connections a minute, 20 messages of history, 100 events a subscriber, 5 uploads a
  minute and 20 attachments for an hour, a lease of 30 seconds, 128 registers over 64-bit hashes, 10
  pages a sync.

  \<^bold>\<open>Not modelled.\<close> Request and response schemas, DuckDB and the SQL that runs in it, the extraction of
  file contents, the statistics and sketches over data frames, the billing proxies, generated
  listing metadata, the assembly of prompts and the language model behind the conversation,
  migrations and diagnostics. Most of that is input and output of files, databases and networks around
  third-party libraries.
\<close>

section \<open>Tokens and sessions together\<close>

lemma revoked_token_refused:
  assumes "revoked i t" "parse_token raw = Inr (i, secret)"
  shows "\<exists>e. verify_token h raw now t = (Inl e, t)"
  using assms by (auto simp: verify_token_def revoked_def)

lemma validate_revoked:
  assumes "revoked i (tokens w)" "parse_token raw = Inr (i, secret)"
  shows "fst (validate h db_up raw now w) \<noteq> Valid tok"
  using revoked_token_refused [OF assms, of h now]
  by (auto simp: validate_def split: token_error.splits)

lemma call_guard_refuses:
  assumes "authorization_header (hq_headers rq) = Some raw"
    and "\<And>tok. fst (validate h db_up raw wall w) \<noteq> Valid tok"
  shows "\<exists>c m. fst (call_guard h db_up rq wall tick w) = ErrorReply c m"
proof -
  obtain v w1 where v: "validate h db_up raw wall w = (v, w1)" by fastforce
  then have "\<And>tok. v \<noteq> Valid tok" using assms(2) by simp
  then show ?thesis using assms(1) v
    by (auto simp: call_guard_def handle_get_def handle_post_def Let_def split: option.splits validation.splits)
qed

text \<open>C6: once a connectivity token is revoked, whatever requests, stream events, toggles, restarts
  and token operations follow, the session guard answers every request that carries a token with
  that identifier with an error: no stream is opened and nothing is forwarded.\<close>

theorem revoked_token_locked_out:
  assumes "revoke_token i now (tokens w) = (Inr tok, t)"
    and "authorization_header (hq_headers rq) = Some raw" and "parse_token raw = Inr (i, secret)"
  shows "\<exists>c m. fst (call_guard h db_up rq wall tick (foldl (mcp_step h n) (w\<lparr>tokens := t\<rparr>) es)) = ErrorReply c m"
proof -
  obtain xs where "tokens (foldl (mcp_step h n) (w\<lparr>tokens := t\<rparr>) es) = foldl (token_step h n) t xs"
    using mcp_run_tokens [of h n "w\<lparr>tokens := t\<rparr>" es] by auto
  then have "revoked i (tokens (foldl (mcp_step h n) (w\<lparr>tokens := t\<rparr>) es))"
    using revoked_run [OF revoke_revokes [OF assms(1)]] by simp
  from validate_revoked [OF this assms(3)] show ?thesis by (rule call_guard_refuses [OF assms(2)])
qed

theorem revoked_token_locked_out_witness:
  "\<exists>c m. fst (call_guard rev True sample_post 3 3 (foldl (mcp_step rev 10)
     ((foldl (mcp_step rev 10) (start_world False NoStateFile [] []) sample_events)
        \<lparr>tokens := snd (revoke_token ''abcdefgh'' 3
           (tokens (foldl (mcp_step rev 10) (start_world False NoStateFile [] []) sample_events)))\<rparr>) [])) = ErrorReply c m"
proof -
  let ?w = "foldl (mcp_step rev 10) (start_world False NoStateFile [] []) sample_events"
  have "isl (fst (revoke_token ''abcdefgh'' 3 (tokens ?w))) = False" by code_simp
  then obtain tok where r: "revoke_token ''abcdefgh'' 3 (tokens ?w) = (Inr tok, snd (revoke_token ''abcdefgh'' 3 (tokens ?w)))"
    by (metis prod.collapse sum.collapse(2))
  have a: "authorization_header (hq_headers sample_post) = Some sample_raw" by code_simp
  have p: "parse_token sample_raw = Inr (''abcdefgh'', sample_secret)" by code_simp
  show ?thesis by (rule revoked_token_locked_out [OF r a p])
qed

end
